(* ===== verification/Prelude.thy ===== *)
theory Prelude
  imports Main "HOL-Library.Word"
begin

text \<open>
  Prelude of the DanDB development: the status codes and the \<open>Result<T>\<close> type of
  \<^verbatim>\<open>include/dandb/core/Status.h\<close> and \<^verbatim>\<open>include/dandb/core/Result.h\<close>, the combinators
  that stand for the ubiquitous \<open>if(!r.ok()) return r.status();\<close>, and generic facts on
  lists (overwriting a range, looping over indices) that the components share.
\<close>

named_theorems status_simps \<open>unfolding of the result and action combinators\<close>
named_theorems overwrite_simps \<open>length, take and drop of an overwritten range\<close>

section \<open>Status codes and results\<close>

text \<open>
  The error codes of the enum \<open>StatusCode\<close>. A \<open>Status\<close> that is \<open>Ok\<close> is the value
  \<open>Inr ()\<close>, so that \<open>Result<T>\<close>, whose constructor refuses an \<open>Ok\<close> status, has no
  value that is neither an error nor a \<open>T\<close>. The message string of a \<open>Status\<close> is
  display text no code branches on; it is not modelled.
\<close>

datatype status_code =
    InvalidArgument
  | IoError
  | Corruption
  | NotFound
  | AlreadyExists
  | ConstraintViolation
  | TransactionError
  | ParseError
  | IncompleteInput
  | InternalError

type_synonym 'a result = "status_code + 'a"
type_synonym status = "unit result"

abbreviation Ok :: status where
  "Ok \<equiv> Inr ()"

fun ok :: "'a result \<Rightarrow> bool" where
  "ok (Inl e) = False"
| "ok (Inr x) = True"

text \<open>
  \<open>bind_result r f\<close> is \<open>if(!r.ok()) return r.status(); f(r.value())\<close>;
  \<open>ensure c e k\<close> is \<open>if(!c) return e; k\<close>.
\<close>

fun bind_result :: "'a result \<Rightarrow> ('a \<Rightarrow> 'b result) \<Rightarrow> 'b result" where
  "bind_result (Inl e) f = Inl e"
| "bind_result (Inr x) f = f x"

definition ensure :: "bool \<Rightarrow> status_code \<Rightarrow> 'a result \<Rightarrow> 'a result" where
  "ensure c e k = (if c then k else Inl e)"

text \<open>
  A member function that reads and writes a state of type \<open>'s\<close> and can fail is an
  action: it returns the new state also when it fails, because the C++ object keeps
  whatever the function had written before its early return.
\<close>

type_synonym ('s, 'a) action = "'s \<Rightarrow> 's \<times> 'a result"

definition return_action :: "'a \<Rightarrow> ('s, 'a) action" where
  "return_action x s = (s, Inr x)"

definition fail_action :: "status_code \<Rightarrow> ('s, 'a) action" where
  "fail_action e s = (s, Inl e)"

definition lift_result :: "'a result \<Rightarrow> ('s, 'a) action" where
  "lift_result r s = (s, r)"

definition bind_action :: "('s, 'a) action \<Rightarrow> ('a \<Rightarrow> ('s, 'b) action) \<Rightarrow> ('s, 'b) action" where
  "bind_action m f s =
     (case m s of (s', Inl e) \<Rightarrow> (s', Inl e) | (s', Inr x) \<Rightarrow> f x s')"

definition ensure_action :: "bool \<Rightarrow> status_code \<Rightarrow> ('s, 'a) action \<Rightarrow> ('s, 'a) action" where
  "ensure_action c e k = (if c then k else fail_action e)"

text \<open>A range-for loop whose body can return early with an error.\<close>

fun for_each :: "'x list \<Rightarrow> ('x \<Rightarrow> ('s, unit) action) \<Rightarrow> ('s, unit) action" where
  "for_each [] f = return_action ()"
| "for_each (x # xs) f = bind_action (f x) (\<lambda>_. for_each xs f)"

lemma ensure_simps [simp]:
  "ensure True e k = k"
  "ensure False e k = Inl e"
  by (simp_all add: ensure_def)

lemma ensure_Inr_iff: "ensure c e k = Inr x \<longleftrightarrow> c \<and> k = Inr x"
  by (simp add: ensure_def)

lemma ensure_Inl_iff: "ensure c e k = Inl d \<longleftrightarrow> (if c then k = Inl d else d = e)"
  by (auto simp: ensure_def)

lemma bind_result_Inr_iff: "bind_result r f = Inr y \<longleftrightarrow> (\<exists>x. r = Inr x \<and> f x = Inr y)"
  by (cases r) auto

lemma ok_iff: "ok r \<longleftrightarrow> (\<exists>x. r = Inr x)"
  by (cases r) auto

lemma not_ok_iff: "\<not> ok r \<longleftrightarrow> (\<exists>e. r = Inl e)"
  by (cases r) auto

lemmas result_iffs = ensure_Inr_iff bind_result_Inr_iff

lemma action_simps [simp]:
  "return_action x s = (s, Inr x)"
  "fail_action e s = (s, Inl e)"
  "lift_result r s = (s, r)"
  "ensure_action True e k = k"
  "ensure_action False e k = fail_action e"
  by (simp_all add: return_action_def fail_action_def lift_result_def ensure_action_def)

lemma bind_action_Inl: "m s = (s', Inl e) \<Longrightarrow> bind_action m f s = (s', Inl e)"
  by (simp add: bind_action_def)

lemma bind_action_Inr: "m s = (s', Inr x) \<Longrightarrow> bind_action m f s = f x s'"
  by (simp add: bind_action_def)

lemma bind_action_eq_Inr:
  "bind_action m f s = (t, Inr y) \<longleftrightarrow> (\<exists>s' x. m s = (s', Inr x) \<and> f x s' = (t, Inr y))"
  by (auto simp: bind_action_def split: prod.splits sum.splits)

lemma bind_action_eq_Inl:
  "bind_action m f s = (t, Inl e) \<longleftrightarrow>
     m s = (t, Inl e) \<or> (\<exists>s' x. m s = (s', Inr x) \<and> f x s' = (t, Inl e))"
  by (auto simp: bind_action_def split: prod.splits sum.splits)

lemma bind_action_pure [simp]:
  "bind_action (return_action x) f = f x"
  "bind_action (fail_action e) f = fail_action e"
  "bind_action (lift_result (Inr x)) f = f x"
  "bind_action (lift_result (Inl e)) f = fail_action e"
  by (simp_all add: bind_action_def fun_eq_iff)

lemma ensure_action_apply: "ensure_action c e k s = (if c then k s else (s, Inl e))"
  by (simp add: ensure_action_def)

lemmas [status_simps] =
  bind_action_def ensure_action_apply return_action_def fail_action_def lift_result_def

section \<open>Calls that may not return\<close>

text \<open>
  A call with a loop or recursion whose end rests on what it reads is a run: \<open>None\<close> is not
  returning, or an undefined read where a theory says so.
\<close>

type_synonym ('s, 'a) run = "'s \<Rightarrow> ('s \<times> 'a result) option"

definition returns :: "('s, 'a) action \<Rightarrow> ('s, 'a) run" where
  "returns m s = Some (m s)"

definition bind_run :: "('s, 'a) run \<Rightarrow> ('a \<Rightarrow> ('s, 'b) run) \<Rightarrow> ('s, 'b) run" where
  "bind_run m f s = Option.bind (m s) (\<lambda>(s1, r). case r of Inl e \<Rightarrow> Some (s1, Inl e) | Inr x \<Rightarrow> f x s1)"

lemma bind_run_mono [partial_function_mono]:
  assumes "\<And>s. mono_option (\<lambda>f. m f s)" "\<And>x s. mono_option (\<lambda>f. k f x s)"
  shows "mono_option (\<lambda>f. bind_run (m f) (k f) s)"
  unfolding bind_run_def
proof (rule bind_mono)
  show "mono_option (\<lambda>f. m f s)" by (rule assms(1))
  show "mono_option (\<lambda>f. case y of (s1, r) \<Rightarrow> (case r of Inl e \<Rightarrow> Some (s1, Inl e) | Inr x \<Rightarrow> k f x s1))" for y
    using assms(2) by (cases y; cases "snd y") (auto intro: option.const_mono)
qed

lemma if_run_mono [partial_function_mono]:
  assumes "mono_option (\<lambda>f. m f s)" "mono_option (\<lambda>f. k f s)"
  shows "mono_option (\<lambda>f. (if b then m f else k f) s)"
  using assms by (cases b) simp_all

lemma case_option_run_mono [partial_function_mono]:
  assumes "mono_option (\<lambda>f. m f s)" "\<And>y. mono_option (\<lambda>f. k f y s)"
  shows "mono_option (\<lambda>f. (case x of None \<Rightarrow> m f | Some y \<Rightarrow> k f y) s)"
  using assms by (cases x) simp_all

lemma bind_run_assoc: "bind_run (bind_run m f) g = bind_run m (\<lambda>x. bind_run (f x) g)"
  by (rule ext) (auto simp: bind_run_def split: bind_split sum.split)

section \<open>Overwriting a range of a list\<close>

text \<open>
  \<open>overwrite xs off ys\<close> is the list \<open>xs\<close> with the range that starts at \<open>off\<close> replaced by
  \<open>ys\<close>: the effect of a loop of stores \<open>xs[off+i] = ys[i]\<close>.
\<close>

definition overwrite :: "'a list \<Rightarrow> nat \<Rightarrow> 'a list \<Rightarrow> 'a list" where
  "overwrite xs off ys = take off xs @ ys @ drop (off + length ys) xs"

lemma length_overwrite [simp, overwrite_simps]:
  "off + length ys \<le> length xs \<Longrightarrow> length (overwrite xs off ys) = length xs"
  by (simp add: overwrite_def)

lemma nth_overwrite:
  assumes "off + length ys \<le> length xs" and "i < length xs"
  shows "overwrite xs off ys ! i =
    (if off \<le> i \<and> i < off + length ys then ys ! (i - off) else xs ! i)"
  using assms by (auto simp: overwrite_def nth_append min_def)

lemma take_overwrite_before [simp, overwrite_simps]:
  "n \<le> off \<Longrightarrow> off + length ys \<le> length xs \<Longrightarrow> take n (overwrite xs off ys) = take n xs"
  by (simp add: overwrite_def min_def)

lemma drop_overwrite_after [simp, overwrite_simps]:
  "off + length ys \<le> n \<Longrightarrow> off + length ys \<le> length xs \<Longrightarrow>
   drop n (overwrite xs off ys) = drop n xs"
  by (simp add: overwrite_def min_def)

lemma read_overwrite_same [simp, overwrite_simps]:
  "off + length ys \<le> length xs \<Longrightarrow> n = length ys \<Longrightarrow>
   take n (drop off (overwrite xs off ys)) = ys"
  by (simp add: overwrite_def min_def)

lemma read_overwrite_other [overwrite_simps]:
  assumes "off + length ys \<le> length xs" and "p + n \<le> off \<or> off + length ys \<le> p"
  shows "take n (drop p (overwrite xs off ys)) = take n (drop p xs)"
  using assms
proof (elim disjE)
  assume le: "off + length ys \<le> length xs" and before: "p + n \<le> off"
  have "take n (drop p (overwrite xs off ys)) = drop p (take (p + n) (overwrite xs off ys))"
    by (simp add: take_drop add.commute)
  also have "\<dots> = drop p (take (p + n) xs)"
    using le before by simp
  finally show ?thesis
    by (simp add: take_drop add.commute)
qed simp

lemma overwrite_Nil [simp]: "overwrite xs off [] = xs"
  by (simp add: overwrite_def)

lemma overwrite_at_end: "overwrite xs (length xs) ys = xs @ ys"
  by (simp add: overwrite_def)

lemma update_loop_overwrite:
  assumes "off + n \<le> length xs"
  shows "fold (\<lambda>i b. b[off + i := f i]) [0..<n] xs = overwrite xs off (map f [0..<n])"
  using assms
proof (induction n)
  case 0
  then show ?case by simp
next
  case (Suc n)
  let ?ys = "overwrite xs off (map f [0..<n])"
  have "?ys[off + n := f n] = overwrite xs off (map f [0..<Suc n])"
    using Suc.prems
    by (intro nth_equalityI) (auto simp: nth_overwrite nth_list_update nth_append less_Suc_eq)
  then show ?case
    using Suc by simp
qed

lemma take_drop_append_exact:
  "length xs = off \<Longrightarrow> length ys = n \<Longrightarrow> take n (drop off (xs @ ys @ zs)) = ys"
  by simp

lemma list_eq_by_ranges:
  assumes "take n xs = take n ys" and "drop n xs = drop n ys"
  shows "xs = ys"
  using assms by (metis append_take_drop_id)


text \<open>
  Overwriting at the end of a list or across its end makes it longer, as a file write does.
\<close>

lemma length_overwrite_ge:
  "off \<le> length xs \<Longrightarrow> length (overwrite xs off ys) = max (length xs) (off + length ys)"
  by (auto simp: overwrite_def)

lemma take_overwrite_prefix:
  "n \<le> off \<Longrightarrow> off \<le> length xs \<Longrightarrow> take n (overwrite xs off ys) = take n xs"
  by (simp add: overwrite_def min_def)

lemma overwrite_append:
  "off \<le> length b \<Longrightarrow>
   overwrite (overwrite b off xs) (off + length xs) ys = overwrite b off (xs @ ys)"
  by (simp add: overwrite_def min_def ac_simps)

lemma overwrite_all: "length xs \<le> length ys \<Longrightarrow> overwrite xs 0 ys = ys"
  by (simp add: overwrite_def)

text \<open>Actions that do not change an observation of the state, whatever their outcome.\<close>

definition preserves :: "('s \<Rightarrow> 'c) \<Rightarrow> ('s, 'a) action \<Rightarrow> bool" where
  "preserves obs m \<longleftrightarrow> (\<forall>s. obs (fst (m s)) = obs s)"

named_theorems preserves_intros \<open>actions that preserve an observation\<close>

lemma preservesD: "preserves obs m \<Longrightarrow> m s = (s', r) \<Longrightarrow> obs s' = obs s"
  by (metis preserves_def fst_conv)

lemma preserves_return [preserves_intros]: "preserves obs (return_action x)"
  by (simp add: preserves_def)

lemma preserves_fail [preserves_intros]: "preserves obs (fail_action e)"
  by (simp add: preserves_def)

lemma preserves_bind [preserves_intros]:
  "preserves obs m \<Longrightarrow> (\<And>x. preserves obs (f x)) \<Longrightarrow> preserves obs (bind_action m f)"
  by (auto simp: preserves_def bind_action_def split: prod.splits sum.splits) (metis fst_conv)+

lemma preserves_ensure [preserves_intros]:
  "preserves obs m \<Longrightarrow> preserves obs (ensure_action c e m)"
  by (auto simp: preserves_def ensure_action_def)

lemma preserves_if [preserves_intros]:
  "preserves obs m \<Longrightarrow> preserves obs n \<Longrightarrow> preserves obs (if c then m else n)"
  by simp

end
