(* ===== verification/Bytes.thy ===== *)
theory Bytes
  imports Prelude
begin

unbundle bit_operations_syntax

text \<open>
  The byte level of \<^verbatim>\<open>src/core\<close>: reading and writing of integers in a byte buffer
  (\<^verbatim>\<open>Endian.cpp\<close>), the FNV-1a checksum (\<^verbatim>\<open>Checksum.cpp\<close>) and the zero test
  (\<^verbatim>\<open>Bytes.cpp\<close>). A span of bytes is a list, a write returns the new buffer, a size or
  an offset is a \<open>nat\<close> (the bounds tests of the code keep every sum below the buffer
  size, so no size computation wraps). The lemmas: reads give back what was written,
  writes do not touch other ranges, and the checksum tells two byte strings of one length
  apart when they differ in a single byte.
\<close>

type_synonym byte = "8 word"
type_synonym bytes = "byte list"
type_synonym u16 = "16 word"
type_synonym u32 = "32 word"
type_synonym u64 = "64 word"

definition PAGE_SIZE :: nat where
  "PAGE_SIZE = 4096"

section \<open>Endian.cpp\<close>

text \<open>
  The byte \<open>i\<close> of a value is \<open>static_cast<std::byte>((value>>(8*i))&0xFFu)\<close>. The three
  widths differ in the number \<open>n\<close> of bytes only; the store loop runs over
  \<open>i = 0..<n\<close>, and in the big-endian functions the byte number is \<open>n-1-i\<close>.
\<close>

definition byte_of :: "'a::len word \<Rightarrow> nat \<Rightarrow> byte" where
  "byte_of value i = ucast (drop_bit (8 * i) value AND 0xFF)"

definition out_of_bounds :: "bytes \<Rightarrow> nat \<Rightarrow> nat \<Rightarrow> bool" where
  "out_of_bounds buffer offset n \<longleftrightarrow> length buffer \<le> offset \<or> length buffer - offset < n"

definition store_le :: "nat \<Rightarrow> bytes \<Rightarrow> nat \<Rightarrow> 'a::len word \<Rightarrow> bytes" where
  "store_le n buffer offset value =
     fold (\<lambda>i b. b[offset + i := byte_of value i]) [0..<n] buffer"

definition store_be :: "nat \<Rightarrow> bytes \<Rightarrow> nat \<Rightarrow> 'a::len word \<Rightarrow> bytes" where
  "store_be n buffer offset value =
     fold (\<lambda>i b. b[offset + i := byte_of value (n - 1 - i)]) [0..<n] buffer"

definition load_le :: "nat \<Rightarrow> bytes \<Rightarrow> nat \<Rightarrow> 'a::len word" where
  "load_le n buffer offset =
     fold (\<lambda>i res. res OR push_bit (8 * i) (ucast (buffer ! (offset + i)))) [0..<n] 0"

definition write_u16_le :: "bytes \<Rightarrow> nat \<Rightarrow> u16 \<Rightarrow> bytes result" where
  "write_u16_le buffer offset value =
     ensure (\<not> out_of_bounds buffer offset 2) InvalidArgument
       (Inr (store_le 2 buffer offset value))"

definition write_u32_le :: "bytes \<Rightarrow> nat \<Rightarrow> u32 \<Rightarrow> bytes result" where
  "write_u32_le buffer offset value =
     ensure (\<not> out_of_bounds buffer offset 4) InvalidArgument
       (Inr (store_le 4 buffer offset value))"

definition write_u64_le :: "bytes \<Rightarrow> nat \<Rightarrow> u64 \<Rightarrow> bytes result" where
  "write_u64_le buffer offset value =
     ensure (\<not> out_of_bounds buffer offset 8) InvalidArgument
       (Inr (store_le 8 buffer offset value))"

definition write_u16_be :: "bytes \<Rightarrow> nat \<Rightarrow> u16 \<Rightarrow> bytes result" where
  "write_u16_be buffer offset value =
     ensure (\<not> out_of_bounds buffer offset 2) InvalidArgument
       (Inr (store_be 2 buffer offset value))"

definition write_u32_be :: "bytes \<Rightarrow> nat \<Rightarrow> u32 \<Rightarrow> bytes result" where
  "write_u32_be buffer offset value =
     ensure (\<not> out_of_bounds buffer offset 4) InvalidArgument
       (Inr (store_be 4 buffer offset value))"

definition write_u64_be :: "bytes \<Rightarrow> nat \<Rightarrow> u64 \<Rightarrow> bytes result" where
  "write_u64_be buffer offset value =
     ensure (\<not> out_of_bounds buffer offset 8) InvalidArgument
       (Inr (store_be 8 buffer offset value))"

definition read_u16_le :: "bytes \<Rightarrow> nat \<Rightarrow> u16 result" where
  "read_u16_le buffer offset =
     ensure (\<not> out_of_bounds buffer offset 2) InvalidArgument (Inr (load_le 2 buffer offset))"

definition read_u32_le :: "bytes \<Rightarrow> nat \<Rightarrow> u32 result" where
  "read_u32_le buffer offset =
     ensure (\<not> out_of_bounds buffer offset 4) InvalidArgument (Inr (load_le 4 buffer offset))"

definition read_u64_le :: "bytes \<Rightarrow> nat \<Rightarrow> u64 result" where
  "read_u64_le buffer offset =
     ensure (\<not> out_of_bounds buffer offset 8) InvalidArgument (Inr (load_le 8 buffer offset))"

section \<open>Checksum.cpp and Bytes.cpp\<close>

definition fnv_prime :: u64 where
  "fnv_prime = 0x100000001b3"

definition fnv_seed :: u64 where
  "fnv_seed = 0xcbf29ce484222325"

definition checksum_step :: "byte \<Rightarrow> u64 \<Rightarrow> u64" where
  "checksum_step b hash = (hash XOR ucast b) * fnv_prime"

definition checksum :: "bytes \<Rightarrow> u64 \<Rightarrow> u64" where
  "checksum bs seed = fold checksum_step bs seed"

fun bytes_are_zero :: "bytes \<Rightarrow> bool" where
  "bytes_are_zero [] = True"
| "bytes_are_zero (b # bs) = (if b \<noteq> 0 then False else bytes_are_zero bs)"

section \<open>Lemmas on integers in buffers\<close>

lemma out_of_bounds_iff:
  "0 < n \<Longrightarrow> out_of_bounds buffer offset n \<longleftrightarrow> length buffer < offset + n"
  by (auto simp: out_of_bounds_def)

lemma bit_byte_mask: "bit (0xFF :: 'a::len word) k \<longleftrightarrow> k < LENGTH('a) \<and> k < 8"
proof -
  have "(0xFF :: 'a word) = mask 8"
    by (simp add: mask_eq_exp_minus_1)
  then show ?thesis
    by (simp only: bit_mask_iff) auto
qed

lemma bit_byte_of: "bit (byte_of v i) k \<longleftrightarrow> k < 8 \<and> bit v (8 * i + k)"
  unfolding byte_of_def
  by (simp only: bit_ucast_iff bit_and_iff bit_drop_bit_eq bit_byte_mask comp_def)
    (auto dest: bit_imp_le_length)

lemma store_le_overwrite:
  "offset + n \<le> length buffer \<Longrightarrow>
   store_le n buffer offset v = overwrite buffer offset (map (byte_of v) [0..<n])"
  by (simp add: store_le_def update_loop_overwrite)

lemma store_be_overwrite:
  assumes "offset + n \<le> length buffer"
  shows "store_be n buffer offset v = overwrite buffer offset (rev (map (byte_of v) [0..<n]))"
proof -
  have "map (\<lambda>i. byte_of v (n - 1 - i)) [0..<n] = rev (map (byte_of v) [0..<n])"
    by (intro nth_equalityI) (auto simp: rev_nth)
  with assms show ?thesis
    by (simp add: store_be_def update_loop_overwrite)
qed

lemma length_store [simp]:
  "offset + n \<le> length buffer \<Longrightarrow> length (store_le n buffer offset v) = length buffer"
  "offset + n \<le> length buffer \<Longrightarrow> length (store_be n buffer offset v) = length buffer"
  by (simp_all add: store_le_overwrite store_be_overwrite)

lemma bit_load_le:
  fixes buffer :: bytes
  shows "bit (load_le n buffer offset :: 'a::len word) k \<longleftrightarrow>
    k < LENGTH('a) \<and> k div 8 < n \<and> bit (buffer ! (offset + k div 8)) (k mod 8)"
proof (induction n)
  case 0
  then show ?case by (simp add: load_le_def)
next
  case (Suc n)
  have "load_le (Suc n) buffer offset =
      (load_le n buffer offset OR push_bit (8 * n) (ucast (buffer ! (offset + n))) :: 'a word)"
    by (simp add: load_le_def)
  moreover have "bit (push_bit (8 * n) (ucast (buffer ! (offset + n))) :: 'a word) k \<longleftrightarrow>
      k < LENGTH('a) \<and> k div 8 = n \<and> bit (buffer ! (offset + k div 8)) (k mod 8)"
  proof -
    have "8 * n \<le> k \<and> k - 8 * n < 8 \<longleftrightarrow> k div 8 = n"
      by auto
    moreover have "k mod 8 = k - 8 * n" if "k div 8 = n"
      using that by (simp add: minus_mult_div_eq_mod [symmetric])
    moreover have "bit b m \<Longrightarrow> m < 8" for b :: byte and m
      using bit_imp_le_length[of b m] by simp
    ultimately show ?thesis
      by (auto simp: bit_push_bit_iff bit_ucast_iff)
  qed
  ultimately show ?case
    using Suc by (auto simp: bit_or_iff less_Suc_eq)
qed

lemma load_le_map_byte_of:
  assumes "8 * n = LENGTH('a)"
    and "take n (drop offset buffer) = map (byte_of v) [0..<n]"
  shows "load_le n buffer offset = (v :: 'a::len word)"
proof (rule bit_word_eqI)
  fix k assume "k < LENGTH('a)"
  then have k: "k div 8 < n"
    using assms(1) by (simp add: div_less_iff_less_mult mult.commute)
  have "length (take n (drop offset buffer)) = n"
    using assms(2) by simp
  then have "buffer ! (offset + k div 8) = take n (drop offset buffer) ! (k div 8)"
    using k by simp
  also have "\<dots> = byte_of v (k div 8)"
    using k assms(2) by simp
  finally show "bit (load_le n buffer offset :: 'a word) k = bit v k"
    using k \<open>k < LENGTH('a)\<close> by (simp add: bit_load_le bit_byte_of)
qed

lemma byte_of_load_le:
  assumes "i < n" "8 * n \<le> LENGTH('a)"
  shows "byte_of (load_le n buffer offset :: 'a::len word) i = buffer ! (offset + i)"
proof (rule bit_word_eqI)
  fix k assume "k < LENGTH(8)"
  then show "bit (byte_of (load_le n buffer offset :: 'a word) i) k = bit (buffer ! (offset + i)) k"
    using assms by (auto simp: bit_byte_of bit_load_le)
qed

lemma load_le_store_le:
  assumes "8 * n = LENGTH('a)" "offset + n \<le> length buffer"
  shows "load_le n (store_le n buffer offset v) offset = (v :: 'a::len word)"
  using assms by (intro load_le_map_byte_of) (simp_all add: store_le_overwrite)


lemma load_le_cong:
  "(\<And>i. i < n \<Longrightarrow> b ! (offset + i) = b' ! (offset' + i)) \<Longrightarrow>
   load_le n b offset = load_le n b' offset'"
  unfolding load_le_def by (intro fold_cong) auto

lemma load_le_overwrite_other:
  assumes "off + length ys \<le> length b" "p + n \<le> length b"
    and "p + n \<le> off \<or> off + length ys \<le> p"
  shows "load_le n (overwrite b off ys) p = load_le n b p"
  using assms by (intro load_le_cong) (auto simp: nth_overwrite)

lemma load_le_store_other:
  assumes "off + m \<le> length b" "p + n \<le> length b" "p + n \<le> off \<or> off + m \<le> p"
  shows "load_le n (store_le m b off v) p = load_le n b p"
  using assms by (simp add: store_le_overwrite load_le_overwrite_other)

lemma load_le_take:
  "offset + n \<le> m \<Longrightarrow> m \<le> length b \<Longrightarrow> load_le n (take m b) offset = load_le n b offset"
  by (rule load_le_cong) simp

lemma load_le_drop:
  "p \<le> length b \<Longrightarrow> load_le n (drop p b) offset = load_le n b (p + offset)"
  by (rule load_le_cong) (simp add: add.assoc)

lemma take_store_le:
  "m \<le> off \<Longrightarrow> off + n \<le> length b \<Longrightarrow> take m (store_le n b off v) = take m b"
  by (simp add: store_le_overwrite)

lemma nth_store_le:
  "off + n \<le> length b \<Longrightarrow> i < length b \<Longrightarrow>
   store_le n b off v ! i = (if off \<le> i \<and> i < off + n then byte_of v (i - off) else b ! i)"
  by (auto simp: store_le_overwrite nth_overwrite)

lemma bytes_are_zero_iff: "bytes_are_zero bs \<longleftrightarrow> bs = replicate (length bs) 0"
  by (induction bs) auto

lemma bytes_are_zero_nth: "bytes_are_zero bs \<longleftrightarrow> (\<forall>i < length bs. bs ! i = 0)"
  by (induction bs) (auto simp: nth_Cons' gr0_conv_Suc)

text \<open>The reads and writes at an offset that is in bounds, and the bounds failures.\<close>

lemma read_le_in_bounds:
  "offset + 2 \<le> length b \<Longrightarrow> read_u16_le b offset = Inr (load_le 2 b offset)"
  "offset + 4 \<le> length b \<Longrightarrow> read_u32_le b offset = Inr (load_le 4 b offset)"
  "offset + 8 \<le> length b \<Longrightarrow> read_u64_le b offset = Inr (load_le 8 b offset)"
  by (simp_all add: read_u16_le_def read_u32_le_def read_u64_le_def out_of_bounds_iff not_less)

lemma write_le_in_bounds:
  "offset + 2 \<le> length b \<Longrightarrow> write_u16_le b offset v2 = Inr (store_le 2 b offset v2)"
  "offset + 4 \<le> length b \<Longrightarrow> write_u32_le b offset v4 = Inr (store_le 4 b offset v4)"
  "offset + 8 \<le> length b \<Longrightarrow> write_u64_le b offset v8 = Inr (store_le 8 b offset v8)"
  by (simp_all add: write_u16_le_def write_u32_le_def write_u64_le_def out_of_bounds_iff not_less)

lemma write_be_in_bounds:
  "offset + 2 \<le> length b \<Longrightarrow> write_u16_be b offset v2 = Inr (store_be 2 b offset v2)"
  "offset + 4 \<le> length b \<Longrightarrow> write_u32_be b offset v4 = Inr (store_be 4 b offset v4)"
  "offset + 8 \<le> length b \<Longrightarrow> write_u64_be b offset v8 = Inr (store_be 8 b offset v8)"
  by (simp_all add: write_u16_be_def write_u32_be_def write_u64_be_def out_of_bounds_iff not_less)

lemma load_le_store_le_widths [simp]:
  "off + 2 \<le> length b \<Longrightarrow> load_le 2 (store_le 2 b off v2) off = (v2 :: u16)"
  "off + 4 \<le> length b \<Longrightarrow> load_le 4 (store_le 4 b off v4) off = (v4 :: u32)"
  "off + 8 \<le> length b \<Longrightarrow> load_le 8 (store_le 8 b off v8) off = (v8 :: u64)"
  by (simp_all add: load_le_store_le)

section \<open>The checksum detects the change of one byte\<close>

text \<open>
  One step of the hash is injective in the hash for a fixed byte, because the FNV prime is
  odd and so has an inverse modulo \<open>2^64\<close>, and injective in the byte for a fixed hash.
\<close>

lemma checksum_Nil [simp]: "checksum [] seed = seed"
  by (simp add: checksum_def)

lemma checksum_append: "checksum (xs @ ys) seed = checksum ys (checksum xs seed)"
  by (simp add: checksum_def)

lemma checksum_Cons: "checksum (b # bs) seed = checksum bs (checksum_step b seed)"
  by (simp add: checksum_def)

lemma fnv_prime_cancel:
  assumes "x * fnv_prime = y * fnv_prime"
  shows "x = y"
proof -
  have inverse: "fnv_prime * 14886173955864302971 = 1"
    by (simp add: fnv_prime_def)
  have "z * fnv_prime * 14886173955864302971 = z" for z
    by (simp only: mult.assoc inverse mult_1_right)
  then show ?thesis
    using assms by metis
qed

lemma xor_right_cancel: "x XOR y = z XOR y \<longleftrightarrow> x = (z :: 'a::len word)"
  by (metis xor.assoc xor.right_neutral xor_self_eq)

lemma checksum_step_inj_hash: "checksum_step b h = checksum_step b h' \<longleftrightarrow> h = h'"
  by (auto simp: checksum_step_def xor_right_cancel dest: fnv_prime_cancel)

lemma checksum_step_inj_byte: "checksum_step b h = checksum_step b' h \<longleftrightarrow> b = b'"
proof
  assume "checksum_step b h = checksum_step b' h"
  then have eq: "ucast b = (ucast b' :: u64)"
    by (auto simp: checksum_step_def xor_right_cancel xor.commute[of h] dest!: fnv_prime_cancel)
  show "b = b'"
  proof (rule bit_word_eqI)
    fix k assume "k < LENGTH(8)"
    moreover have "bit (ucast b :: u64) k = bit (ucast b' :: u64) k"
      by (simp only: eq)
    ultimately show "bit b k = bit b' k"
      by (simp add: bit_ucast_iff)
  qed
qed simp

lemma checksum_inj_seed: "checksum bs s = checksum bs s' \<longleftrightarrow> s = s'"
  by (induction bs arbitrary: s s') (simp_all add: checksum_Cons checksum_step_inj_hash)

lemma checksum_single_change:
  "checksum (xs @ b # ys) seed = checksum (xs @ b' # ys) seed \<longleftrightarrow> b = b'"
  by (simp add: checksum_append checksum_Cons checksum_inj_seed checksum_step_inj_byte)

text \<open>The same with the changed byte given by its position.\<close>

lemma checksum_update:
  assumes "i < length bs"
  shows "checksum (bs[i := b]) seed = checksum bs seed \<longleftrightarrow> b = bs ! i"
proof -
  have "bs = take i bs @ bs ! i # drop (Suc i) bs"
    using assms by (rule id_take_nth_drop)
  moreover have "bs[i := b] = take i bs @ b # drop (Suc i) bs"
    using assms by (rule upd_conv_take_nth_drop)
  ultimately show ?thesis
    by (metis checksum_single_change)
qed

text \<open>
  Writing an integer and reading it back at the same offset returns the integer, in all
  three widths, and the 64-bit write leaves every range apart from its own as it was.
\<close>

theorem integer_write_read:
  assumes "offset + 8 \<le> length buffer" "p + n \<le> offset \<or> offset + 8 \<le> p"
  shows "bind_result (write_u16_le buffer offset v2) (\<lambda>b. read_u16_le b offset) = Inr v2 \<and>
    bind_result (write_u32_le buffer offset v4) (\<lambda>b. read_u32_le b offset) = Inr v4 \<and>
    bind_result (write_u64_le buffer offset v8) (\<lambda>b. read_u64_le b offset) = Inr v8 \<and>
    (\<exists>b8. write_u64_le buffer offset v8 = Inr b8 \<and> take n (drop p b8) = take n (drop p buffer))"
proof -
  have "take n (drop p (store_le 8 buffer offset v8)) = take n (drop p buffer)"
    using assms by (simp add: store_le_overwrite read_overwrite_other)
  then show ?thesis
    using assms(1) by (simp add: write_le_in_bounds read_le_in_bounds)
qed

theorem integer_write_read_witness:
  "bind_result (write_u16_le (replicate 12 0) 2 0xBEEF) (\<lambda>b. read_u16_le b 2) = Inr 0xBEEF \<and>
   bind_result (write_u32_le (replicate 12 0) 2 7) (\<lambda>b. read_u32_le b 2) = Inr 7 \<and>
   bind_result (write_u64_le (replicate 12 0) 2 9) (\<lambda>b. read_u64_le b 2) = Inr 9 \<and>
   (\<exists>b8. write_u64_le (replicate 12 0) 2 9 = Inr b8 \<and> take 2 (drop 0 b8) =
     take 2 (drop 0 (replicate 12 0)))"
  by (rule integer_write_read) simp_all

text \<open>
  A read or a write of an integer that does not fit the buffer is refused as an invalid
  argument, at every width; no byte outside the buffer is touched.
\<close>

theorem integer_out_of_bounds:
  assumes "length buffer < offset + 2"
  shows "read_u16_le buffer offset = Inl InvalidArgument \<and>
    read_u32_le buffer offset = Inl InvalidArgument \<and>
    read_u64_le buffer offset = Inl InvalidArgument \<and>
    write_u16_le buffer offset v2 = Inl InvalidArgument \<and>
    write_u32_le buffer offset v4 = Inl InvalidArgument \<and>
    write_u64_le buffer offset v8 = Inl InvalidArgument"
  using assms
  by (simp add: read_u16_le_def read_u32_le_def read_u64_le_def write_u16_le_def write_u32_le_def
      write_u64_le_def out_of_bounds_iff ensure_def)

theorem integer_out_of_bounds_witness:
  "read_u16_le [1] 0 = Inl InvalidArgument \<and> read_u32_le [1] 0 = Inl InvalidArgument \<and>
    read_u64_le [1] 0 = Inl InvalidArgument \<and> write_u16_le [1] 0 5 = Inl InvalidArgument \<and>
    write_u32_le [1] 0 6 = Inl InvalidArgument \<and> write_u64_le [1] 0 7 = Inl InvalidArgument"
  by (rule integer_out_of_bounds) simp

text \<open>
  The FNV-1a checksum of a byte string changes whenever exactly one byte changes, at any
  position and with any seed.
\<close>

theorem checksum_detects_one_byte:
  assumes "i < length bs" "b \<noteq> bs ! i"
  shows "checksum (bs[i := b]) seed \<noteq> checksum bs seed"
  using assms by (simp add: checksum_update)

theorem checksum_detects_one_byte_witness:
  "checksum ([1, 2, 3][1 := 7]) fnv_seed \<noteq> checksum [1, 2, 3] fnv_seed"
  by (rule checksum_detects_one_byte) simp_all

end
