(* ===== verification/Codecs.thy ===== *)
theory Codecs
  imports Bytes
begin

text \<open>
  The contract of the fixed-size binary records of DanDB (the WAL header, the WAL page
  frame, the WAL commit record and the database header), as locales: encoding a valid
  record into a buffer of the record's size and decoding it gives the record back; the
  records carry a checksum of the bytes before it, so a change of one protected byte is
  refused; and, for the WAL records, every accepted byte string is the encoding of the
  record it decodes to. The page identifiers and the page type are here too.
\<close>

section \<open>PageId.h and Page.cpp\<close>

type_synonym page_id = u64

definition INVALID_PAGE_ID :: page_id where
  "INVALID_PAGE_ID = 0xffffffffffffffff"

definition HEADER_PAGE_ID :: page_id where
  "HEADER_PAGE_ID = 0"

definition FIRST_ALLOCATABLE_PAGE_ID :: page_id where
  "FIRST_ALLOCATABLE_PAGE_ID = 1"

definition page_id_is_valid :: "page_id \<Rightarrow> bool" where
  "page_id_is_valid p \<longleftrightarrow> p \<noteq> INVALID_PAGE_ID"

text \<open>
  A page is its id and its \<open>std::array\<close> of \<open>PAGE_SIZE\<close> bytes; \<open>page_wf\<close> states the array
  length, which the C++ type fixes.
\<close>

record page =
  pg_id :: page_id
  pg_data :: bytes

definition page_wf :: "page \<Rightarrow> bool" where
  "page_wf p \<longleftrightarrow> length (pg_data p) = PAGE_SIZE"

definition new_page_value :: "page_id \<Rightarrow> page" where
  "new_page_value p = \<lparr>pg_id = p, pg_data = replicate PAGE_SIZE 0\<rparr>"

lemma new_page_value_simps [simp]:
  "pg_id (new_page_value p) = p"
  "pg_data (new_page_value p) = replicate PAGE_SIZE 0"
  "page_wf (new_page_value p)"
  by (simp_all add: new_page_value_def page_wf_def)

section \<open>The contract of a record codec\<close>

locale record_codec =
  fixes size :: nat
    and encode :: "'r \<Rightarrow> bytes \<Rightarrow> bytes result"
    and decode :: "bytes \<Rightarrow> 'r result"
    and valid :: "'r \<Rightarrow> bool"
  assumes encode_valid: "valid r \<Longrightarrow> length out = size \<Longrightarrow>
      \<exists>bs. encode r out = Inr bs \<and> length bs = size \<and> decode bs = Inr r"
    and encode_wrong_size: "length out \<noteq> size \<Longrightarrow> encode r out = Inl InvalidArgument"
    and decode_wrong_size: "length bs \<noteq> size \<Longrightarrow> decode bs = Inl InvalidArgument"
    and decode_valid: "decode bs = Inr r \<Longrightarrow> valid r"
begin

lemma decode_length: "decode bs = Inr r \<Longrightarrow> length bs = size"
  using decode_wrong_size[of bs] by (cases "length bs = size") auto

lemma decode_encode: "encode r out = Inr bs \<Longrightarrow> valid r \<Longrightarrow> decode bs = Inr r \<and> length bs = size"
  using encode_valid[of r out] encode_wrong_size[of out r] by (cases "length out = size") auto

lemma encode_inj:
  assumes "encode r out = Inr bs" "encode r' out' = Inr bs" "valid r" "valid r'"
  shows "r = r'"
  using decode_encode[OF assms(1,3)] decode_encode[OF assms(2,4)] by simp

end

locale checksummed_codec = record_codec +
  fixes body :: nat
  assumes body_size: "body + 8 \<le> size"
    and decode_checksum: "decode bs = Inr r \<Longrightarrow>
      load_le 8 bs body = checksum (take body bs) fnv_seed"
begin

text \<open>
  Changing one byte of the body or of the stored checksum of an accepted record gives a
  byte string the decoder refuses.
\<close>

lemma single_byte_corruption:
  assumes "decode bs = Inr r" "i < body + 8" "b \<noteq> bs ! i"
  shows "\<exists>e. decode (bs[i := b]) = Inl e"
proof (rule ccontr)
  assume "\<nexists>e. decode (bs[i := b]) = Inl e"
  then obtain r' where r': "decode (bs[i := b]) = Inr r'"
    by (cases "decode (bs[i := b])") auto
  have len: "length bs = size"
    using assms(1) by (rule decode_length)
  have old: "load_le 8 bs body = checksum (take body bs) fnv_seed"
    using assms(1) by (rule decode_checksum)
  have new: "load_le 8 (bs[i := b]) body = checksum (take body (bs[i := b])) fnv_seed"
    using r' by (rule decode_checksum)
  show False
  proof (cases "i < body")
    case True
    then have "load_le 8 (bs[i := b]) body = (load_le 8 bs body :: u64)"
      by (intro load_le_cong) simp
    moreover have "take body (bs[i := b]) = (take body bs)[i := b]"
      by (simp add: take_update_swap)
    ultimately have "checksum ((take body bs)[i := b]) fnv_seed = checksum (take body bs) fnv_seed"
      using old new by simp
    then have "b = take body bs ! i"
      using True len body_size by (simp add: checksum_update)
    with True assms(3) show False by simp
  next
    case False
    then have "take body (bs[i := b]) = take body bs"
      by simp
    then have eq: "load_le 8 (bs[i := b]) body = (load_le 8 bs body :: u64)"
      using old new by simp
    have "byte_of (load_le 8 (bs[i := b]) body :: u64) (i - body) = b"
      using False assms(2) len body_size by (subst byte_of_load_le) auto
    moreover have "byte_of (load_le 8 bs body :: u64) (i - body) = bs ! i"
      using False assms(2) by (subst byte_of_load_le) auto
    ultimately show False
      using eq assms(3) by simp
  qed
qed

end

locale canonical_codec = record_codec +
  assumes canonical: "decode bs = Inr r \<Longrightarrow> length out = size \<Longrightarrow> encode r out = Inr bs"
begin

lemma decode_inj: "decode bs = Inr r \<Longrightarrow> decode bs' = Inr r \<Longrightarrow> bs = bs'"
  using canonical[of bs r "replicate size 0"] canonical[of bs' r "replicate size 0"] by simp

lemma encode_buffer_irrelevant:
  assumes "valid r" "length out = size" "length out' = size"
  shows "encode r out = encode r out'"
  using encode_valid[OF assms(1,2)] canonical[OF _ assms(3)] by auto

end

end
