(* ===== verification/WalRecords.thy ===== *)
theory WalRecords
  imports Codecs
begin

text \<open>
  The three records of the write-ahead log: \<^verbatim>\<open>WalHeader.cpp\<close>, \<^verbatim>\<open>WalPageFrame.cpp\<close> and
  \<^verbatim>\<open>WalCommitRecord.cpp\<close>. Each has a record type, an \<open>encode_into\<close> and a \<open>decode\<close>
  with the checks of the source in its order; the offsets are those of the headers. The
  \<open>std::array\<close> page image is a byte list of length \<open>PAGE_SIZE\<close>. Each codec interprets the
  locales of \<open>Codecs\<close>.
\<close>

section \<open>WalCommitRecord.cpp\<close>

record wal_commit =
  wc_transaction_id :: u64
  wc_frame_count :: u64

definition WAL_COMMIT_RECORD_TYPE :: u32 where
  "WAL_COMMIT_RECORD_TYPE = 2"

definition WAL_COMMIT_RECORD_SIZE :: nat where
  "WAL_COMMIT_RECORD_SIZE = 32"

definition wal_commit_decode :: "bytes \<Rightarrow> wal_commit result" where
  "wal_commit_decode bs =
     ensure (length bs = WAL_COMMIT_RECORD_SIZE) InvalidArgument (
     bind_result (read_u32_le bs 0) (\<lambda>stored_record_type.
     ensure (stored_record_type = WAL_COMMIT_RECORD_TYPE) Corruption (
     bind_result (read_u32_le bs 4) (\<lambda>stored_record_size.
     ensure (stored_record_size = of_nat WAL_COMMIT_RECORD_SIZE) Corruption (
     bind_result (read_u64_le bs 8) (\<lambda>stored_transaction_id.
     bind_result (read_u64_le bs 16) (\<lambda>stored_frame_count.
     bind_result (read_u64_le bs 24) (\<lambda>stored_checksum.
     ensure (stored_checksum = checksum (take (WAL_COMMIT_RECORD_SIZE - 8) bs) fnv_seed) Corruption (
       Inr \<lparr>wc_transaction_id = stored_transaction_id, wc_frame_count = stored_frame_count\<rparr>)))))))))"

definition wal_commit_encode_into :: "wal_commit \<Rightarrow> bytes \<Rightarrow> bytes result" where
  "wal_commit_encode_into r out =
     ensure (length out = WAL_COMMIT_RECORD_SIZE) InvalidArgument (
     let out = replicate WAL_COMMIT_RECORD_SIZE 0 in
     bind_result (write_u32_le out 0 WAL_COMMIT_RECORD_TYPE) (\<lambda>out.
     bind_result (write_u32_le out 4 (of_nat WAL_COMMIT_RECORD_SIZE)) (\<lambda>out.
     bind_result (write_u64_le out 8 (wc_transaction_id r)) (\<lambda>out.
     bind_result (write_u64_le out 16 (wc_frame_count r)) (\<lambda>out.
       write_u64_le out 24 (checksum (take (WAL_COMMIT_RECORD_SIZE - 8) out) fnv_seed))))))"

section \<open>WalPageFrame.cpp\<close>

record wal_page_frame =
  wf_transaction_id :: u64
  wf_page_id :: page_id
  wf_page_image :: bytes

definition WAL_PAGE_FRAME_RECORD_TYPE :: u32 where
  "WAL_PAGE_FRAME_RECORD_TYPE = 1"

definition WAL_PAGE_FRAME_RECORD_SIZE :: nat where
  "WAL_PAGE_FRAME_RECORD_SIZE = PAGE_SIZE + 40"

definition wal_page_frame_decode :: "bytes \<Rightarrow> wal_page_frame result" where
  "wal_page_frame_decode bs =
     ensure (length bs = WAL_PAGE_FRAME_RECORD_SIZE) InvalidArgument (
     bind_result (read_u32_le bs 0) (\<lambda>stored_record_type.
     ensure (stored_record_type = WAL_PAGE_FRAME_RECORD_TYPE) Corruption (
     bind_result (read_u32_le bs 4) (\<lambda>stored_record_size.
     ensure (stored_record_size = of_nat WAL_PAGE_FRAME_RECORD_SIZE) Corruption (
     bind_result (read_u64_le bs 8) (\<lambda>stored_transaction_id.
     bind_result (read_u64_le bs 16) (\<lambda>stored_page_id.
     bind_result (read_u32_le bs 24) (\<lambda>stored_page_image_size.
     ensure (stored_page_image_size = of_nat PAGE_SIZE) Corruption (
     ensure (bytes_are_zero (take 4 (drop 28 bs))) Corruption (
     let stored_page_image = take PAGE_SIZE (drop 32 bs) in
     bind_result (read_u64_le bs (32 + PAGE_SIZE)) (\<lambda>stored_checksum.
     ensure (stored_checksum = checksum (take (WAL_PAGE_FRAME_RECORD_SIZE - 8) bs) fnv_seed) Corruption (
       Inr \<lparr>wf_transaction_id = stored_transaction_id, wf_page_id = stored_page_id,
            wf_page_image = stored_page_image\<rparr>))))))))))))"

definition wal_page_frame_encode_into :: "wal_page_frame \<Rightarrow> bytes \<Rightarrow> bytes result" where
  "wal_page_frame_encode_into r out =
     ensure (length out = WAL_PAGE_FRAME_RECORD_SIZE) InvalidArgument (
     let out = replicate WAL_PAGE_FRAME_RECORD_SIZE 0 in
     bind_result (write_u32_le out 0 WAL_PAGE_FRAME_RECORD_TYPE) (\<lambda>out.
     bind_result (write_u32_le out 4 (of_nat WAL_PAGE_FRAME_RECORD_SIZE)) (\<lambda>out.
     bind_result (write_u64_le out 8 (wf_transaction_id r)) (\<lambda>out.
     bind_result (write_u64_le out 16 (wf_page_id r)) (\<lambda>out.
     bind_result (write_u32_le out 24 (of_nat PAGE_SIZE)) (\<lambda>out.
     let out = overwrite out 32 (wf_page_image r) in
       write_u64_le out (32 + PAGE_SIZE)
         (checksum (take (WAL_PAGE_FRAME_RECORD_SIZE - 8) out) fnv_seed)))))))"

section \<open>WalHeader.cpp\<close>

record wal_header =
  wh_database_id :: u64

definition WAL_MAGIC_BYTES :: bytes where
  "WAL_MAGIC_BYTES = [68, 87, 65, 76]"

definition WAL_FORMAT_VERSION :: u32 where
  "WAL_FORMAT_VERSION = 1"

definition WAL_HEADER_SIZE :: nat where
  "WAL_HEADER_SIZE = 64"

definition wal_header_decode :: "bytes \<Rightarrow> wal_header result" where
  "wal_header_decode bs =
     ensure (length bs = WAL_HEADER_SIZE) InvalidArgument (
     ensure (take 4 bs = WAL_MAGIC_BYTES) Corruption (
     bind_result (read_u32_le bs 4) (\<lambda>stored_wal_format_version.
     ensure (stored_wal_format_version = WAL_FORMAT_VERSION) Corruption (
     bind_result (read_u32_le bs 8) (\<lambda>stored_page_size.
     ensure (stored_page_size = of_nat PAGE_SIZE) Corruption (
     bind_result (read_u32_le bs 12) (\<lambda>stored_header_size.
     ensure (stored_header_size = of_nat WAL_HEADER_SIZE) Corruption (
     bind_result (read_u64_le bs 16) (\<lambda>stored_database_id.
     ensure (bytes_are_zero (take 32 (drop 24 bs))) Corruption (
     bind_result (read_u64_le bs 56) (\<lambda>stored_checksum.
     ensure (stored_checksum = checksum (take 56 bs) fnv_seed) Corruption (
       Inr \<lparr>wh_database_id = stored_database_id\<rparr>))))))))))))"

definition wal_header_encode_into :: "wal_header \<Rightarrow> bytes \<Rightarrow> bytes result" where
  "wal_header_encode_into r out =
     ensure (length out = WAL_HEADER_SIZE) InvalidArgument (
     let out = replicate WAL_HEADER_SIZE 0; out = overwrite out 0 WAL_MAGIC_BYTES in
     bind_result (write_u32_le out 4 WAL_FORMAT_VERSION) (\<lambda>out.
     bind_result (write_u32_le out 8 (of_nat PAGE_SIZE)) (\<lambda>out.
     bind_result (write_u32_le out 12 (of_nat WAL_HEADER_SIZE)) (\<lambda>out.
     bind_result (write_u64_le out 16 (wh_database_id r)) (\<lambda>out.
       write_u64_le out 56 (checksum (take 56 out) fnv_seed))))))"

section \<open>The codecs satisfy their contract\<close>

lemmas load_store_simps = load_le_store_other load_le_overwrite_other load_le_take take_store_le

lemma wal_commit_decode_iff:
  "wal_commit_decode bs = Inr r \<longleftrightarrow>
     length bs = 32 \<and> load_le 4 bs 0 = (2 :: u32) \<and> load_le 4 bs 4 = (32 :: u32) \<and>
     load_le 8 bs 8 = wc_transaction_id r \<and> load_le 8 bs 16 = wc_frame_count r \<and>
     load_le 8 bs 24 = checksum (take 24 bs) fnv_seed"
  by (auto simp: wal_commit_decode_def ensure_Inr_iff read_le_in_bounds WAL_COMMIT_RECORD_SIZE_def
      WAL_COMMIT_RECORD_TYPE_def)


definition wal_commit_body :: "wal_commit \<Rightarrow> bytes" where
  "wal_commit_body r =
     store_le 8 (store_le 8 (store_le 4 (store_le 4 (replicate 32 0) 0 (2 :: u32)) 4 (32 :: u32))
       8 (wc_transaction_id r)) 16 (wc_frame_count r)"

definition wal_commit_bytes :: "wal_commit \<Rightarrow> bytes" where
  "wal_commit_bytes r =
     store_le 8 (wal_commit_body r) 24 (checksum (take 24 (wal_commit_body r)) fnv_seed)"

lemma length_wal_commit_body [simp]: "length (wal_commit_body r) = 32"
  by (simp add: wal_commit_body_def)

lemma wal_commit_encode_eq:
  "length out = 32 \<Longrightarrow> wal_commit_encode_into r out = Inr (wal_commit_bytes r)"
  by (simp add: wal_commit_encode_into_def wal_commit_body_def wal_commit_bytes_def write_le_in_bounds Let_def
      WAL_COMMIT_RECORD_SIZE_def WAL_COMMIT_RECORD_TYPE_def)

lemma wal_commit_roundtrip:
  "wal_commit_decode (wal_commit_bytes r) = Inr r"
  by (simp add: wal_commit_decode_iff wal_commit_body_def wal_commit_bytes_def load_store_simps)

lemma wal_commit_canonical:
  assumes "wal_commit_decode bs = Inr r"
  shows "wal_commit_bytes r = bs"
proof -
  have d: "length bs = 32" "(2 :: u32) = load_le 4 bs 0"
    "(32 :: u32) = load_le 4 bs 4"
    "wc_transaction_id r = load_le 8 bs 8" "wc_frame_count r = load_le 8 bs 16"
    "checksum (take 24 bs) fnv_seed = load_le 8 bs 24"
    using assms by (auto simp: wal_commit_decode_iff)
  have body: "wal_commit_body r ! i = bs ! i" if "i < 24" for i
    using that d(1)
    by (auto simp: wal_commit_body_def nth_store_le d(2-5) byte_of_load_le)
  then have "take 24 (wal_commit_body r) = take 24 bs"
    using d(1) by (intro nth_equalityI) auto
  then show ?thesis
    using d(1) body unfolding wal_commit_bytes_def
    by (intro nth_equalityI) (auto simp: nth_store_le d(6) byte_of_load_le)
qed

lemma length_wal_commit_bytes [simp]: "length (wal_commit_bytes r) = WAL_COMMIT_RECORD_SIZE"
  by (simp add: wal_commit_bytes_def WAL_COMMIT_RECORD_SIZE_def)

lemma wal_commit_wrong_size:
  "length out \<noteq> WAL_COMMIT_RECORD_SIZE \<Longrightarrow> wal_commit_encode_into r out = Inl InvalidArgument"
  "length bs \<noteq> WAL_COMMIT_RECORD_SIZE \<Longrightarrow> wal_commit_decode bs = Inl InvalidArgument"
  by (simp_all add: wal_commit_encode_into_def wal_commit_decode_def)

lemma wal_commit_decode_checksum:
  "wal_commit_decode bs = Inr r \<Longrightarrow> load_le 8 bs 24 = checksum (take 24 bs) fnv_seed"
  by (simp add: wal_commit_decode_iff)

interpretation commit_codec: checksummed_codec
  WAL_COMMIT_RECORD_SIZE wal_commit_encode_into wal_commit_decode "\<lambda>_. True" 24
  by unfold_locales
    (simp_all add: wal_commit_wrong_size wal_commit_decode_checksum,
     simp_all add: WAL_COMMIT_RECORD_SIZE_def wal_commit_encode_eq wal_commit_roundtrip)

interpretation commit_codec: canonical_codec
  WAL_COMMIT_RECORD_SIZE wal_commit_encode_into wal_commit_decode "\<lambda>_. True"
  by unfold_locales (simp add: WAL_COMMIT_RECORD_SIZE_def wal_commit_encode_eq wal_commit_canonical)

lemma wal_header_decode_iff:
  "wal_header_decode bs = Inr r \<longleftrightarrow>
     length bs = 64 \<and> take 4 bs = WAL_MAGIC_BYTES \<and> load_le 4 bs 4 = (1 :: u32) \<and>
     load_le 4 bs 8 = (4096 :: u32) \<and> load_le 4 bs 12 = (64 :: u32) \<and>
     load_le 8 bs 16 = wh_database_id r \<and> bytes_are_zero (take 32 (drop 24 bs)) \<and>
     load_le 8 bs 56 = checksum (take 56 bs) fnv_seed"
  by (auto simp: wal_header_decode_def ensure_Inr_iff read_le_in_bounds WAL_HEADER_SIZE_def
      WAL_FORMAT_VERSION_def PAGE_SIZE_def)

definition wal_header_body :: "wal_header \<Rightarrow> bytes" where
  "wal_header_body r =
     store_le 8 (store_le 4 (store_le 4 (store_le 4 (overwrite (replicate 64 0) 0 WAL_MAGIC_BYTES)
       4 (1 :: u32)) 8 (4096 :: u32)) 12 (64 :: u32)) 16 (wh_database_id r)"

definition wal_header_bytes :: "wal_header \<Rightarrow> bytes" where
  "wal_header_bytes r =
     store_le 8 (wal_header_body r) 56 (checksum (take 56 (wal_header_body r)) fnv_seed)"

lemma length_magic [simp]: "length WAL_MAGIC_BYTES = 4"
  by (simp add: WAL_MAGIC_BYTES_def)

lemma length_wal_header_body [simp]: "length (wal_header_body r) = 64"
  by (simp add: wal_header_body_def)

lemma wal_header_encode_eq:
  "length out = 64 \<Longrightarrow> wal_header_encode_into r out = Inr (wal_header_bytes r)"
  by (simp add: wal_header_encode_into_def wal_header_body_def wal_header_bytes_def write_le_in_bounds Let_def
      WAL_HEADER_SIZE_def WAL_FORMAT_VERSION_def PAGE_SIZE_def)

lemma nth_wal_header_body_zero: "24 \<le> i \<Longrightarrow> i < 64 \<Longrightarrow> wal_header_body r ! i = 0"
  by (simp add: wal_header_body_def nth_store_le nth_overwrite)

lemma wal_header_roundtrip:
  "wal_header_decode (wal_header_bytes r) = Inr r"
proof -
  have "bytes_are_zero (take 32 (drop 24 (store_le 8 (wal_header_body r) 56 c)))" for c :: u64
    by (simp add: bytes_are_zero_nth nth_store_le nth_wal_header_body_zero)
  moreover have "take 4 (wal_header_body r) = WAL_MAGIC_BYTES"
    by (simp add: wal_header_body_def take_store_le overwrite_def)
  ultimately show ?thesis
    by (simp add: wal_header_decode_iff wal_header_bytes_def take_store_le)
      (simp add: wal_header_body_def load_store_simps)
qed

lemma wal_header_canonical:
  assumes "wal_header_decode bs = Inr r"
  shows "wal_header_bytes r = bs"
proof -
  have d: "length bs = 64" "WAL_MAGIC_BYTES = take 4 bs" "(1 :: u32) = load_le 4 bs 4"
    "(4096 :: u32) = load_le 4 bs 8" "(64 :: u32) = load_le 4 bs 12" "wh_database_id r = load_le 8 bs 16"
    "checksum (take 56 bs) fnv_seed = load_le 8 bs 56"
    and zero: "bytes_are_zero (take 32 (drop 24 bs))"
    using assms by (auto simp: wal_header_decode_iff)
  have "bs ! i = 0" if "24 \<le> i" "i < 56" for i
    using zero[unfolded bytes_are_zero_nth, rule_format, of "i - 24"] that d(1) by simp
  then have body: "wal_header_body r ! i = bs ! i" if "i < 56" for i
    using that d(1)
    by (cases "i < 24") (auto simp: wal_header_body_def nth_store_le nth_overwrite d(2-6) byte_of_load_le)
  then have "take 56 (wal_header_body r) = take 56 bs"
    using d(1) by (intro nth_equalityI) auto
  then show ?thesis
    using d(1) body unfolding wal_header_bytes_def
    by (intro nth_equalityI) (auto simp: nth_store_le d(7) byte_of_load_le)
qed

lemma length_wal_header_bytes [simp]: "length (wal_header_bytes r) = WAL_HEADER_SIZE"
  by (simp add: wal_header_bytes_def WAL_HEADER_SIZE_def)

lemma wal_header_wrong_size:
  "length out \<noteq> WAL_HEADER_SIZE \<Longrightarrow> wal_header_encode_into r out = Inl InvalidArgument"
  "length bs \<noteq> WAL_HEADER_SIZE \<Longrightarrow> wal_header_decode bs = Inl InvalidArgument"
  by (simp_all add: wal_header_encode_into_def wal_header_decode_def)

lemma wal_header_decode_checksum:
  "wal_header_decode bs = Inr r \<Longrightarrow> load_le 8 bs 56 = checksum (take 56 bs) fnv_seed"
  by (simp add: wal_header_decode_iff)

interpretation header_codec: checksummed_codec
  WAL_HEADER_SIZE wal_header_encode_into wal_header_decode "\<lambda>_. True" 56
  by unfold_locales
    (simp_all add: wal_header_wrong_size wal_header_decode_checksum,
     simp_all add: WAL_HEADER_SIZE_def wal_header_encode_eq wal_header_roundtrip)

interpretation header_codec: canonical_codec
  WAL_HEADER_SIZE wal_header_encode_into wal_header_decode "\<lambda>_. True"
  by unfold_locales (simp add: WAL_HEADER_SIZE_def wal_header_encode_eq wal_header_canonical)


text \<open>
  The page frame, for any page size: its image is valid when it has \<open>PAGE_SIZE\<close> bytes.
\<close>

definition wal_page_frame_valid :: "wal_page_frame \<Rightarrow> bool" where
  "wal_page_frame_valid r \<longleftrightarrow> length (wf_page_image r) = PAGE_SIZE"

abbreviation FRAME_SIZE :: nat where
  "FRAME_SIZE \<equiv> WAL_PAGE_FRAME_RECORD_SIZE"

lemma wal_page_frame_decode_iff:
  "wal_page_frame_decode bs = Inr r \<longleftrightarrow>
     length bs = PAGE_SIZE + 40 \<and> load_le 4 bs 0 = (1 :: u32) \<and>
     load_le 4 bs 4 = (of_nat (PAGE_SIZE + 40) :: u32) \<and>
     load_le 8 bs 8 = wf_transaction_id r \<and> load_le 8 bs 16 = wf_page_id r \<and>
     load_le 4 bs 24 = (of_nat PAGE_SIZE :: u32) \<and> bytes_are_zero (take 4 (drop 28 bs)) \<and>
     take PAGE_SIZE (drop 32 bs) = wf_page_image r \<and>
     load_le 8 bs (PAGE_SIZE + 32) = checksum (take (PAGE_SIZE + 32) bs) fnv_seed"
  by (auto simp: wal_page_frame_decode_def ensure_Inr_iff read_le_in_bounds Let_def
      WAL_PAGE_FRAME_RECORD_SIZE_def WAL_PAGE_FRAME_RECORD_TYPE_def add.commute[of 32]
      simp del: of_nat_add)

definition wal_page_frame_body :: "wal_page_frame \<Rightarrow> bytes" where
  "wal_page_frame_body r =
     overwrite (store_le 4 (store_le 8 (store_le 8 (store_le 4 (store_le 4
       (replicate (PAGE_SIZE + 40) 0) 0 (1 :: u32)) 4 (of_nat (PAGE_SIZE + 40) :: u32))
       8 (wf_transaction_id r)) 16 (wf_page_id r)) 24 (of_nat PAGE_SIZE :: u32))
       32 (wf_page_image r)"

definition wal_page_frame_bytes :: "wal_page_frame \<Rightarrow> bytes" where
  "wal_page_frame_bytes r = store_le 8 (wal_page_frame_body r) (PAGE_SIZE + 32)
     (checksum (take (PAGE_SIZE + 32) (wal_page_frame_body r)) fnv_seed)"

lemma length_wal_page_frame_body [simp]:
  "wal_page_frame_valid r \<Longrightarrow> length (wal_page_frame_body r) = PAGE_SIZE + 40"
  by (simp add: wal_page_frame_body_def wal_page_frame_valid_def)

lemma wal_page_frame_encode_eq:
  "length out = PAGE_SIZE + 40 \<Longrightarrow> wal_page_frame_valid r \<Longrightarrow>
   wal_page_frame_encode_into r out = Inr (wal_page_frame_bytes r)"
  by (simp add: wal_page_frame_encode_into_def wal_page_frame_body_def write_le_in_bounds Let_def
      WAL_PAGE_FRAME_RECORD_SIZE_def WAL_PAGE_FRAME_RECORD_TYPE_def wal_page_frame_valid_def
      wal_page_frame_bytes_def add.commute[of 32] del: of_nat_add)

lemma wal_page_frame_roundtrip:
  assumes "wal_page_frame_valid r"
  shows "wal_page_frame_decode (wal_page_frame_bytes r) = Inr r"
proof -
  let ?body = "wal_page_frame_body r"
  have image: "length (wf_page_image r) = PAGE_SIZE"
    using assms by (simp add: wal_page_frame_valid_def)
  have len: "length ?body = PAGE_SIZE + 40"
    using assms by simp
  have "?body ! i = 0" if "28 \<le> i" "i < 32" for i
    using that image by (simp add: wal_page_frame_body_def nth_store_le nth_overwrite)
  then have "bytes_are_zero (take 4 (drop 28 (wal_page_frame_bytes r)))"
    using len by (simp add: wal_page_frame_bytes_def bytes_are_zero_nth nth_store_le)
  moreover have "take PAGE_SIZE (drop 32 (wal_page_frame_bytes r)) = wf_page_image r"
  proof -
    have "take PAGE_SIZE (drop 32 (wal_page_frame_bytes r)) = take PAGE_SIZE (drop 32 ?body)"
      using len by (simp add: wal_page_frame_bytes_def store_le_overwrite read_overwrite_other)
    also have "\<dots> = wf_page_image r"
      unfolding wal_page_frame_body_def using image by simp
    finally show ?thesis .
  qed
  moreover have "load_le 8 (wal_page_frame_bytes r) (PAGE_SIZE + 32) =
      checksum (take (PAGE_SIZE + 32) (wal_page_frame_bytes r)) fnv_seed"
    using len by (simp add: wal_page_frame_bytes_def take_store_le)
  moreover have "load_le n (wal_page_frame_bytes r) off = load_le n ?body off"
    if "off + n \<le> 28" for n off
    using len that by (simp add: wal_page_frame_bytes_def load_le_store_other)
  ultimately show ?thesis
    using len image
    by (simp add: wal_page_frame_decode_iff wal_page_frame_bytes_def del: of_nat_add)
      (simp add: wal_page_frame_body_def load_store_simps del: of_nat_add)
qed

lemma wal_page_frame_canonical:
  assumes "wal_page_frame_decode bs = Inr r"
  shows "wal_page_frame_bytes r = bs"
proof -
  have d: "length bs = PAGE_SIZE + 40" "(1 :: u32) = load_le 4 bs 0"
    "(of_nat (PAGE_SIZE + 40) :: u32) = load_le 4 bs 4"
    "wf_transaction_id r = load_le 8 bs 8" "wf_page_id r = load_le 8 bs 16"
    "(of_nat PAGE_SIZE :: u32) = load_le 4 bs 24" "wf_page_image r = take PAGE_SIZE (drop 32 bs)"
    "checksum (take (PAGE_SIZE + 32) bs) fnv_seed = load_le 8 bs (PAGE_SIZE + 32)"
    and zero: "bytes_are_zero (take 4 (drop 28 bs))"
    using assms by (auto simp: wal_page_frame_decode_iff)
  have len: "length (wal_page_frame_body r) = PAGE_SIZE + 40"
    using d(1,7) by (simp add: wal_page_frame_valid_def)
  have "bs ! i = 0" if "28 \<le> i" "i < 32" for i
    using zero[unfolded bytes_are_zero_nth, rule_format, of "i - 28"] that d(1) by simp
  then have body: "wal_page_frame_body r ! i = bs ! i" if "i < PAGE_SIZE + 32" for i
    using that d(1) unfolding wal_page_frame_body_def d(2-7)
    by (cases "i < 28"; cases "i < 32") (auto simp: nth_store_le nth_overwrite byte_of_load_le)
  then have "take (PAGE_SIZE + 32) (wal_page_frame_body r) = take (PAGE_SIZE + 32) bs"
    using d(1) len by (intro nth_equalityI) auto
  then show ?thesis
    using d(1) body len unfolding wal_page_frame_bytes_def
    by (intro nth_equalityI) (auto simp: nth_store_le d(8) byte_of_load_le)
qed

lemma wal_page_frame_wrong_size:
  "length out \<noteq> FRAME_SIZE \<Longrightarrow> wal_page_frame_encode_into r out = Inl InvalidArgument"
  "length bs \<noteq> FRAME_SIZE \<Longrightarrow> wal_page_frame_decode bs = Inl InvalidArgument"
  by (simp_all add: wal_page_frame_encode_into_def wal_page_frame_decode_def)

lemma wal_page_frame_decodeD:
  assumes "wal_page_frame_decode bs = Inr r"
  shows "load_le 8 bs (PAGE_SIZE + 32) = checksum (take (PAGE_SIZE + 32) bs) fnv_seed"
    and "wal_page_frame_valid r"
proof -
  show "load_le 8 bs (PAGE_SIZE + 32) = checksum (take (PAGE_SIZE + 32) bs) fnv_seed"
    using assms by (simp add: wal_page_frame_decode_iff)
  have "length bs = PAGE_SIZE + 40" "wf_page_image r = take PAGE_SIZE (drop 32 bs)"
    using assms by (auto simp: wal_page_frame_decode_iff)
  then show "wal_page_frame_valid r"
    by (simp add: wal_page_frame_valid_def)
qed

lemma length_wal_page_frame_bytes [simp]:
  "wal_page_frame_valid r \<Longrightarrow> length (wal_page_frame_bytes r) = FRAME_SIZE"
  by (simp add: wal_page_frame_bytes_def WAL_PAGE_FRAME_RECORD_SIZE_def)

interpretation frame_codec: checksummed_codec
  WAL_PAGE_FRAME_RECORD_SIZE wal_page_frame_encode_into wal_page_frame_decode
  wal_page_frame_valid "PAGE_SIZE + 32"
  by unfold_locales
    (simp_all add: wal_page_frame_wrong_size wal_page_frame_decodeD wal_page_frame_encode_eq
      wal_page_frame_roundtrip, simp_all add: WAL_PAGE_FRAME_RECORD_SIZE_def
      wal_page_frame_encode_eq wal_page_frame_roundtrip)

interpretation frame_codec: canonical_codec
  WAL_PAGE_FRAME_RECORD_SIZE wal_page_frame_encode_into wal_page_frame_decode
  wal_page_frame_valid
  by unfold_locales
    (simp add: WAL_PAGE_FRAME_RECORD_SIZE_def wal_page_frame_encode_eq wal_page_frame_decodeD
      wal_page_frame_canonical)

end
