(* ===== verification/DatabaseHeader.thy ===== *)
theory DatabaseHeader
  imports WalRecords
begin

text \<open>
  \<^verbatim>\<open>DatabaseHeader.cpp\<close>: the header of the database file, page 0, with the page count and
  the roots of the four system trees. It satisfies the contract of a checksummed record
  codec; it is not canonical, because the bytes of the page after the checksum are neither
  checked nor kept.
\<close>

section \<open>The code\<close>

record database_header =
  dh_database_id :: u64
  dh_page_count :: u64
  dh_system_tables_root_page_id :: page_id
  dh_system_columns_root_page_id :: page_id
  dh_system_indexes_root_page_id :: page_id
  dh_system_index_columns_root_page_id :: page_id

definition DATABASE_MAGIC_BYTES :: bytes where
  "DATABASE_MAGIC_BYTES = [68, 68, 66, 49]"

definition DATABASE_FORMAT_VERSION :: u32 where
  "DATABASE_FORMAT_VERSION = 2"

definition DATABASE_HEADER_SIZE :: u32 where
  "DATABASE_HEADER_SIZE = 128"

definition INITIAL_DATABASE_PAGE_COUNT :: u64 where
  "INITIAL_DATABASE_PAGE_COUNT = 1"

definition DATABASE_CHECKSUM_OFFSET :: nat where
  "DATABASE_CHECKSUM_OFFSET = 120"

definition root_page_id_is_valid :: "page_id \<Rightarrow> u64 \<Rightarrow> bool" where
  "root_page_id_is_valid p page_count \<longleftrightarrow>
     p = INVALID_PAGE_ID \<or> (FIRST_ALLOCATABLE_PAGE_ID \<le> p \<and> p < page_count)"

definition database_header_decode :: "bytes \<Rightarrow> database_header result" where
  "database_header_decode bs =
     ensure (length bs = PAGE_SIZE) InvalidArgument (
     ensure (take 4 bs = DATABASE_MAGIC_BYTES) Corruption (
     bind_result (read_u32_le bs 4) (\<lambda>stored_db_format_version.
     ensure (stored_db_format_version = DATABASE_FORMAT_VERSION) Corruption (
     bind_result (read_u32_le bs 8) (\<lambda>stored_page_size.
     ensure (unat stored_page_size = PAGE_SIZE) Corruption (
     bind_result (read_u32_le bs 12) (\<lambda>stored_header_size.
     ensure (stored_header_size = DATABASE_HEADER_SIZE) Corruption (
     bind_result (read_u64_le bs 16) (\<lambda>stored_database_id.
     bind_result (read_u64_le bs 24) (\<lambda>stored_page_count.
     ensure (stored_page_count \<noteq> 0) Corruption (
     bind_result (read_u64_le bs 32) (\<lambda>stored_system_tables_root_page_id.
     ensure (root_page_id_is_valid stored_system_tables_root_page_id stored_page_count) Corruption (
     bind_result (read_u64_le bs 40) (\<lambda>stored_system_columns_root_page_id.
     ensure (root_page_id_is_valid stored_system_columns_root_page_id stored_page_count) Corruption (
     bind_result (read_u64_le bs 48) (\<lambda>stored_system_indexes_root_page_id.
     ensure (root_page_id_is_valid stored_system_indexes_root_page_id stored_page_count) Corruption (
     bind_result (read_u64_le bs 56) (\<lambda>stored_system_index_columns_root_page_id.
     ensure (root_page_id_is_valid stored_system_index_columns_root_page_id stored_page_count)
       Corruption (
     ensure (bytes_are_zero (take 56 (drop 64 bs))) Corruption (
     bind_result (read_u64_le bs DATABASE_CHECKSUM_OFFSET) (\<lambda>stored_checksum.
     ensure (stored_checksum = checksum (take DATABASE_CHECKSUM_OFFSET bs) fnv_seed) Corruption (
       Inr \<lparr>dh_database_id = stored_database_id, dh_page_count = stored_page_count,
         dh_system_tables_root_page_id = stored_system_tables_root_page_id,
         dh_system_columns_root_page_id = stored_system_columns_root_page_id,
         dh_system_indexes_root_page_id = stored_system_indexes_root_page_id,
         dh_system_index_columns_root_page_id =
           stored_system_index_columns_root_page_id\<rparr>))))))))))))))))))))))"

definition database_header_create_new :: "u64 \<Rightarrow> database_header" where
  "database_header_create_new database_id =
     \<lparr>dh_database_id = database_id, dh_page_count = INITIAL_DATABASE_PAGE_COUNT,
      dh_system_tables_root_page_id = INVALID_PAGE_ID,
      dh_system_columns_root_page_id = INVALID_PAGE_ID,
      dh_system_indexes_root_page_id = INVALID_PAGE_ID,
      dh_system_index_columns_root_page_id = INVALID_PAGE_ID\<rparr>"

definition database_header_encode_into :: "database_header \<Rightarrow> bytes \<Rightarrow> bytes result" where
  "database_header_encode_into h out =
     ensure (length out = PAGE_SIZE) InvalidArgument (
     ensure (dh_page_count h \<noteq> 0) InvalidArgument (
     let out = overwrite (replicate PAGE_SIZE 0) 0 DATABASE_MAGIC_BYTES in
     bind_result (write_u32_le out 4 DATABASE_FORMAT_VERSION) (\<lambda>out.
     bind_result (write_u32_le out 8 (of_nat PAGE_SIZE)) (\<lambda>out.
     bind_result (write_u32_le out 12 DATABASE_HEADER_SIZE) (\<lambda>out.
     bind_result (write_u64_le out 16 (dh_database_id h)) (\<lambda>out.
     bind_result (write_u64_le out 24 (dh_page_count h)) (\<lambda>out.
     ensure (root_page_id_is_valid (dh_system_tables_root_page_id h) (dh_page_count h))
       InvalidArgument (
     bind_result (write_u64_le out 32 (dh_system_tables_root_page_id h)) (\<lambda>out.
     ensure (root_page_id_is_valid (dh_system_columns_root_page_id h) (dh_page_count h))
       InvalidArgument (
     bind_result (write_u64_le out 40 (dh_system_columns_root_page_id h)) (\<lambda>out.
     ensure (root_page_id_is_valid (dh_system_indexes_root_page_id h) (dh_page_count h))
       InvalidArgument (
     bind_result (write_u64_le out 48 (dh_system_indexes_root_page_id h)) (\<lambda>out.
     ensure (root_page_id_is_valid (dh_system_index_columns_root_page_id h) (dh_page_count h))
       InvalidArgument (
     bind_result (write_u64_le out 56 (dh_system_index_columns_root_page_id h)) (\<lambda>out.
       write_u64_le out DATABASE_CHECKSUM_OFFSET
         (checksum (take DATABASE_CHECKSUM_OFFSET out) fnv_seed))))))))))))))))"

section \<open>The codec satisfies its contract\<close>

definition database_header_valid :: "database_header \<Rightarrow> bool" where
  "database_header_valid h \<longleftrightarrow> dh_page_count h \<noteq> 0 \<and>
     root_page_id_is_valid (dh_system_tables_root_page_id h) (dh_page_count h) \<and>
     root_page_id_is_valid (dh_system_columns_root_page_id h) (dh_page_count h) \<and>
     root_page_id_is_valid (dh_system_indexes_root_page_id h) (dh_page_count h) \<and>
     root_page_id_is_valid (dh_system_index_columns_root_page_id h) (dh_page_count h)"

definition database_header_body :: "database_header \<Rightarrow> bytes" where
  "database_header_body h =
     store_le 8 (store_le 8 (store_le 8 (store_le 8 (store_le 8 (store_le 8
       (store_le 4 (store_le 4 (store_le 4
         (overwrite (replicate PAGE_SIZE 0) 0 DATABASE_MAGIC_BYTES)
         4 (2 :: u32)) 8 (of_nat PAGE_SIZE :: u32)) 12 (128 :: u32))
       16 (dh_database_id h)) 24 (dh_page_count h))
       32 (dh_system_tables_root_page_id h)) 40 (dh_system_columns_root_page_id h))
       48 (dh_system_indexes_root_page_id h)) 56 (dh_system_index_columns_root_page_id h)"

definition database_header_bytes :: "database_header \<Rightarrow> bytes" where
  "database_header_bytes h = store_le 8 (database_header_body h) 120
     (checksum (take 120 (database_header_body h)) fnv_seed)"

lemma page_size_bounds [simp]: "n \<le> 4096 \<Longrightarrow> n \<le> PAGE_SIZE" "unat (of_nat PAGE_SIZE :: u32) = PAGE_SIZE"
  by (simp_all add: PAGE_SIZE_def)

lemma page_size_slots:
  "4 \<le> PAGE_SIZE" "8 \<le> PAGE_SIZE" "12 \<le> PAGE_SIZE" "16 \<le> PAGE_SIZE" "24 \<le> PAGE_SIZE"
  "32 \<le> PAGE_SIZE" "40 \<le> PAGE_SIZE" "48 \<le> PAGE_SIZE" "56 \<le> PAGE_SIZE" "64 \<le> PAGE_SIZE"
  "120 \<le> PAGE_SIZE" "128 \<le> PAGE_SIZE"
  by (simp_all add: PAGE_SIZE_def)

lemma length_database_magic [simp]: "length DATABASE_MAGIC_BYTES = 4"
  by (simp add: DATABASE_MAGIC_BYTES_def)

lemma database_header_decode_iff:
  "database_header_decode bs = Inr h \<longleftrightarrow>
     length bs = PAGE_SIZE \<and> take 4 bs = DATABASE_MAGIC_BYTES \<and> load_le 4 bs 4 = (2 :: u32) \<and>
     unat (load_le 4 bs 8 :: u32) = PAGE_SIZE \<and> load_le 4 bs 12 = (128 :: u32) \<and>
     load_le 8 bs 16 = dh_database_id h \<and> load_le 8 bs 24 = dh_page_count h \<and>
     load_le 8 bs 32 = dh_system_tables_root_page_id h \<and>
     load_le 8 bs 40 = dh_system_columns_root_page_id h \<and>
     load_le 8 bs 48 = dh_system_indexes_root_page_id h \<and>
     load_le 8 bs 56 = dh_system_index_columns_root_page_id h \<and>
     database_header_valid h \<and> bytes_are_zero (take 56 (drop 64 bs)) \<and>
     load_le 8 bs 120 = checksum (take 120 bs) fnv_seed"
  unfolding database_header_decode_def
  by (auto simp: ensure_Inr_iff bind_result_Inr_iff read_le_in_bounds
      DATABASE_FORMAT_VERSION_def DATABASE_HEADER_SIZE_def DATABASE_CHECKSUM_OFFSET_def
      database_header_valid_def page_size_slots)

lemma length_database_header_body [simp]: "length (database_header_body h) = PAGE_SIZE"
  by (simp add: database_header_body_def page_size_slots)

lemma length_database_header_bytes [simp]: "length (database_header_bytes h) = PAGE_SIZE"
  by (simp add: database_header_bytes_def page_size_slots)

lemma database_header_encode_eq:
  "length out = PAGE_SIZE \<Longrightarrow> database_header_encode_into h out =
     (if database_header_valid h then Inr (database_header_bytes h) else Inl InvalidArgument)"
  by (simp add: database_header_encode_into_def database_header_body_def database_header_bytes_def
      database_header_valid_def write_le_in_bounds Let_def ensure_def DATABASE_FORMAT_VERSION_def
      DATABASE_HEADER_SIZE_def DATABASE_CHECKSUM_OFFSET_def page_size_slots)

text \<open>The fields of the encoded body; the names of the stages keep the simplifier linear.\<close>

lemma database_header_body_fields:
  fixes h defines "b \<equiv> database_header_body h"
  shows "take 4 b = DATABASE_MAGIC_BYTES" "load_le 4 b 4 = (2 :: u32)"
    "load_le 4 b 8 = (of_nat PAGE_SIZE :: u32)" "load_le 4 b 12 = (128 :: u32)"
    "load_le 8 b 16 = dh_database_id h" "load_le 8 b 24 = dh_page_count h"
    "load_le 8 b 32 = dh_system_tables_root_page_id h"
    "load_le 8 b 40 = dh_system_columns_root_page_id h"
    "load_le 8 b 48 = dh_system_indexes_root_page_id h"
    "load_le 8 b 56 = dh_system_index_columns_root_page_id h"
    "\<lbrakk>64 \<le> i; i < PAGE_SIZE\<rbrakk> \<Longrightarrow> b ! i = 0"
proof -
  define b0 where "b0 = overwrite (replicate PAGE_SIZE 0) 0 DATABASE_MAGIC_BYTES"
  define b1 where "b1 = store_le 4 b0 4 (2 :: u32)"
  define b2 where "b2 = store_le 4 b1 8 (of_nat PAGE_SIZE :: u32)"
  define b3 where "b3 = store_le 4 b2 12 (128 :: u32)"
  define b4 where "b4 = store_le 8 b3 16 (dh_database_id h)"
  define b5 where "b5 = store_le 8 b4 24 (dh_page_count h)"
  define b6 where "b6 = store_le 8 b5 32 (dh_system_tables_root_page_id h)"
  define b7 where "b7 = store_le 8 b6 40 (dh_system_columns_root_page_id h)"
  define b8 where "b8 = store_le 8 b7 48 (dh_system_indexes_root_page_id h)"
  note stages = b1_def b2_def b3_def b4_def b5_def b6_def b7_def b8_def
  have b: "b = store_le 8 b8 56 (dh_system_index_columns_root_page_id h)"
    by (simp add: b_def database_header_body_def stages b0_def)
  have len [simp]: "length b0 = PAGE_SIZE"
    by (simp add: b0_def page_size_slots)
  have [simp]: "length b1 = PAGE_SIZE" by (simp add: b1_def page_size_slots)
  have [simp]: "length b2 = PAGE_SIZE" by (simp add: b2_def page_size_slots)
  have [simp]: "length b3 = PAGE_SIZE" by (simp add: b3_def page_size_slots)
  have [simp]: "length b4 = PAGE_SIZE" by (simp add: b4_def page_size_slots)
  have [simp]: "length b5 = PAGE_SIZE" by (simp add: b5_def page_size_slots)
  have [simp]: "length b6 = PAGE_SIZE" by (simp add: b6_def page_size_slots)
  have [simp]: "length b7 = PAGE_SIZE" by (simp add: b7_def page_size_slots)
  have [simp]: "length b8 = PAGE_SIZE" by (simp add: b8_def page_size_slots)
  note step = b stages load_le_store_other page_size_slots
  have b0: "take 4 b0 = DATABASE_MAGIC_BYTES"
    by (simp add: b0_def overwrite_def)
  show "take 4 b = DATABASE_MAGIC_BYTES"
    by (simp add: b stages take_store_le page_size_slots b0)
  show "load_le 4 b 4 = (2 :: u32)" by (simp add: step)
  show "load_le 4 b 8 = (of_nat PAGE_SIZE :: u32)" by (simp add: step)
  show "load_le 4 b 12 = (128 :: u32)" by (simp add: step)
  show "load_le 8 b 16 = dh_database_id h" by (simp add: step)
  show "load_le 8 b 24 = dh_page_count h" by (simp add: step)
  show "load_le 8 b 32 = dh_system_tables_root_page_id h" by (simp add: step)
  show "load_le 8 b 40 = dh_system_columns_root_page_id h" by (simp add: step)
  show "load_le 8 b 48 = dh_system_indexes_root_page_id h" by (simp add: step)
  show "load_le 8 b 56 = dh_system_index_columns_root_page_id h" by (simp add: step)
  show "b ! i = 0" if "64 \<le> i" "i < PAGE_SIZE"
    using that by (simp add: b stages nth_store_le page_size_slots b0_def nth_overwrite)
qed

lemma database_header_bytes_load:
  "off + n \<le> 120 \<Longrightarrow> load_le n (database_header_bytes h) off = load_le n (database_header_body h) off"
  by (simp add: database_header_bytes_def load_le_store_other page_size_slots)

lemma database_header_roundtrip:
  assumes "database_header_valid h"
  shows "database_header_decode (database_header_bytes h) = Inr h"
proof -
  note fields = database_header_body_fields[where h = h]
  have "bytes_are_zero (take 56 (drop 64 (database_header_bytes h)))"
    using fields(11)
    by (auto simp: database_header_bytes_def bytes_are_zero_nth nth_store_le page_size_slots)
  moreover have "load_le 8 (database_header_bytes h) 120 =
      checksum (take 120 (database_header_bytes h)) fnv_seed"
    by (simp add: database_header_bytes_def take_store_le page_size_slots)
  moreover have "take 4 (database_header_bytes h) = DATABASE_MAGIC_BYTES"
    using fields(1) by (simp add: database_header_bytes_def take_store_le page_size_slots)
  ultimately show ?thesis
    using assms by (simp add: database_header_decode_iff database_header_bytes_load fields(2-10))
qed

lemma database_header_wrong_size:
  "length out \<noteq> PAGE_SIZE \<Longrightarrow> database_header_encode_into h out = Inl InvalidArgument"
  "length bs \<noteq> PAGE_SIZE \<Longrightarrow> database_header_decode bs = Inl InvalidArgument"
  by (simp_all add: database_header_encode_into_def database_header_decode_def)

lemma database_header_decodeD:
  assumes "database_header_decode bs = Inr h"
  shows "database_header_valid h" and "load_le 8 bs 120 = checksum (take 120 bs) fnv_seed"
  using assms by (simp_all add: database_header_decode_iff)

interpretation db_header_codec: checksummed_codec
  PAGE_SIZE database_header_encode_into database_header_decode database_header_valid 120
  by unfold_locales
    (simp_all add: database_header_encode_eq database_header_roundtrip database_header_wrong_size
      database_header_decodeD page_size_slots)

lemma database_header_create_new_valid [simp]:
  "database_header_valid (database_header_create_new database_id)"
  by (simp add: database_header_valid_def database_header_create_new_def
      root_page_id_is_valid_def INITIAL_DATABASE_PAGE_COUNT_def)

section \<open>Properties of the header page\<close>

text \<open>
  C40. A header that the code can create or accept (its root page ids are unset or inside the
  database) survives a round trip through its page, and a header that is not valid is never
  written nor read.
\<close>

theorem database_header_round_trip:
  assumes "length page = PAGE_SIZE"
  shows "(database_header_valid h \<longrightarrow> (\<exists>bs. database_header_encode_into h page = Inr bs \<and>
      length bs = PAGE_SIZE \<and> database_header_decode bs = Inr h)) \<and>
    (\<not> database_header_valid h \<longrightarrow> database_header_encode_into h page = Inl InvalidArgument) \<and>
    (database_header_decode page = Inr h \<longrightarrow> database_header_valid h)"
  using db_header_codec.encode_valid[OF _ assms] db_header_codec.decode_valid
    database_header_encode_eq[OF assms] by auto

theorem database_header_round_trip_witness:
  "\<exists>bs. database_header_encode_into (database_header_create_new 7) (replicate PAGE_SIZE 0) = Inr bs \<and>
    database_header_decode bs = Inr (database_header_create_new 7)"
  using database_header_round_trip[of "replicate PAGE_SIZE 0" "database_header_create_new 7"]
  by auto

text \<open>
  Damage of one byte among the 128 of the header (fields, reserved bytes, checksum) is always
  noticed when the header is read.
\<close>

theorem database_header_damage_detected:
  assumes "database_header_decode page = Inr h" "i < 128" "b \<noteq> page ! i"
  shows "\<exists>e. database_header_decode (page[i := b]) = Inl e"
  using assms
  by (intro db_header_codec.single_byte_corruption) simp_all

theorem database_header_damage_detected_witness:
  defines "page \<equiv> database_header_bytes (database_header_create_new 7)"
  shows "\<exists>e. database_header_decode (page[24 := page ! 24 + 1]) = Inl e"
proof (rule database_header_damage_detected)
  show "database_header_decode page = Inr (database_header_create_new 7)"
    by (simp add: page_def database_header_roundtrip)
qed simp_all

end
