(* ===== verification/Files.thy ===== *)
theory Files
  imports Bytes
begin

text \<open>
  The file layer of \<^verbatim>\<open>src/platform\<close>: \<^verbatim>\<open>FileHandle.cpp\<close>, \<^verbatim>\<open>FileFaultInjector.h\<close>,
  \<^verbatim>\<open>FileLock.cpp\<close> and \<^verbatim>\<open>DatabasePath.cpp\<close>. The Windows functions they call are not code
  of the repository: they are the fields of the record \<open>win32\<close>, a parameter of every
  operation, over an arbitrary type \<open>'w\<close> of operating system states. What DanDB relies on
  of their documentation is the locale \<open>win32_files\<close>, over the bytes \<open>content w p\<close> that
  the file at path \<open>p\<close> holds: reads return what is stored, a write changes a prefix of the
  requested range of one file and nothing else, and so on; every call may fail. A
  \<open>HANDLE\<close> is represented by the path it was opened on.
  File offsets and sizes are natural numbers: Windows bounds them by \<open>2^63\<close>, so the
  64-bit sums of the code do not wrap.
\<close>

section \<open>Parameters: the Windows calls and the fault injector\<close>

type_synonym path = string
type_synonym win_error = u32

datatype creation = CREATE_NEW | OPEN_EXISTING | OPEN_ALWAYS

text \<open>
  A failing call returns the value of \<open>GetLastError()\<close>; \<open>ReadFile\<close> returns the bytes it
  read and \<open>WriteFile\<close> the number of bytes it wrote.
\<close>

record 'w win32 =
  CreateFileW :: "path \<Rightarrow> creation \<Rightarrow> 'w \<Rightarrow> 'w \<times> (win_error + unit)"
  ReadFile :: "path \<Rightarrow> nat \<Rightarrow> nat \<Rightarrow> 'w \<Rightarrow> 'w \<times> (win_error + bytes)"
  WriteFile :: "path \<Rightarrow> nat \<Rightarrow> bytes \<Rightarrow> 'w \<Rightarrow> 'w \<times> (win_error + nat)"
  FlushFileBuffers :: "path \<Rightarrow> 'w \<Rightarrow> 'w \<times> (win_error + unit)"
  GetFileSizeEx :: "path \<Rightarrow> 'w \<Rightarrow> 'w \<times> (win_error + nat)"
  SetFilePointerEx :: "path \<Rightarrow> nat \<Rightarrow> 'w \<Rightarrow> 'w \<times> (win_error + unit)"
  SetEndOfFile :: "path \<Rightarrow> nat \<Rightarrow> 'w \<Rightarrow> 'w \<times> (win_error + unit)"
  CloseHandle :: "path \<Rightarrow> 'w \<Rightarrow> 'w \<times> (win_error + unit)"
  LockFileEx :: "path \<Rightarrow> nat \<Rightarrow> 'w \<Rightarrow> 'w \<times> (win_error + unit)"
  UnlockFileEx :: "path \<Rightarrow> nat \<Rightarrow> 'w \<Rightarrow> 'w \<times> (win_error + unit)"

record 'w injector =
  before_write :: "nat \<Rightarrow> nat \<Rightarrow> ('w, unit) action"
  before_sync :: "('w, unit) action"
  after_sync :: "('w, unit) action"
  before_resize :: "nat \<Rightarrow> ('w, unit) action"
  after_resize_file_pointer :: "nat \<Rightarrow> ('w, unit) action"
  after_resize_end_of_file :: "nat \<Rightarrow> ('w, unit) action"

text \<open>The base class \<open>FileFaultInjector\<close>: every hook returns \<open>Ok\<close>.\<close>

definition default_injector :: "'w injector" where
  "default_injector = \<lparr>
     before_write = (\<lambda>_ _. return_action ()),
     before_sync = return_action (),
     after_sync = return_action (),
     before_resize = (\<lambda>_. return_action ()),
     after_resize_file_pointer = (\<lambda>_. return_action ()),
     after_resize_end_of_file = (\<lambda>_. return_action ())\<rparr>"

section \<open>FileHandle.cpp\<close>

text \<open>\<open>fh_open\<close> is \<open>handle_ != nullptr\<close>.\<close>

record 'w file_handle =
  fh_path :: path
  fh_open :: bool
  fh_injector :: "'w injector option"

definition MAXDWORD :: nat where
  "MAXDWORD = 2 ^ 32 - 1"

definition LONGLONG_MAX :: nat where
  "LONGLONG_MAX = 2 ^ 63 - 1"

definition status_from_windows_error :: "win_error \<Rightarrow> status_code" where
  "status_from_windows_error error =
     (if error = 2 \<or> error = 3 then NotFound
      else if error = 80 \<or> error = 183 then AlreadyExists
      else IoError)"

text \<open>A Windows call whose failure is turned into a status.\<close>

definition win_call :: "('w \<Rightarrow> 'w \<times> (win_error + 'a)) \<Rightarrow> ('w, 'a) action" where
  "win_call c w =
     (case c w of (w', Inl error) \<Rightarrow> (w', Inl (status_from_windows_error error))
                | (w', Inr x) \<Rightarrow> (w', Inr x))"

text \<open>\<open>if(fault_injector_ != nullptr) { status = hook; if(!status.ok()) return status; }\<close>\<close>

definition run_hook :: "'w file_handle \<Rightarrow> ('w injector \<Rightarrow> ('w, unit) action) \<Rightarrow> ('w, unit) action" where
  "run_hook fh hook =
     (case fh_injector fh of None \<Rightarrow> return_action () | Some i \<Rightarrow> hook i)"

definition fh_create_new :: "'w win32 \<Rightarrow> path \<Rightarrow> ('w, 'w file_handle) action" where
  "fh_create_new os p =
     bind_action (win_call (CreateFileW os p CREATE_NEW)) (\<lambda>_.
       return_action \<lparr>fh_path = p, fh_open = True, fh_injector = None\<rparr>)"

definition fh_open_existing :: "'w win32 \<Rightarrow> path \<Rightarrow> ('w, 'w file_handle) action" where
  "fh_open_existing os p =
     bind_action (win_call (CreateFileW os p OPEN_EXISTING)) (\<lambda>_.
       return_action \<lparr>fh_path = p, fh_open = True, fh_injector = None\<rparr>)"

definition fh_open_or_create :: "'w win32 \<Rightarrow> path \<Rightarrow> ('w, 'w file_handle) action" where
  "fh_open_or_create os p =
     bind_action (win_call (CreateFileW os p OPEN_ALWAYS)) (\<lambda>_.
       return_action \<lparr>fh_path = p, fh_open = True, fh_injector = None\<rparr>)"

text \<open>\<open>read_at\<close> fills a buffer of \<open>n\<close> bytes; a short read is an \<open>IoError\<close>.\<close>

definition read_at :: "'w win32 \<Rightarrow> 'w file_handle \<Rightarrow> nat \<Rightarrow> nat \<Rightarrow> ('w, bytes) action" where
  "read_at os fh offset n =
     ensure_action (fh_open fh) InvalidArgument (
       if n = 0 then return_action []
       else ensure_action (n \<le> MAXDWORD) InvalidArgument (
         bind_action (win_call (ReadFile os (fh_path fh) offset n)) (\<lambda>bs.
           ensure_action (length bs = n) IoError (return_action bs))))"

text \<open>
  The loop of \<open>write_at\<close>: it writes at most \<open>MAXDWORD\<close> bytes per call and continues after
  the bytes the call has written; a call that writes nothing is an error, so every round
  makes progress.
\<close>

function write_loop :: "'w win32 \<Rightarrow> path \<Rightarrow> nat \<Rightarrow> bytes \<Rightarrow> nat \<Rightarrow> ('w, unit) action" where
  "write_loop os p offset data total_written w =
     (if total_written < length data then
        (case win_call (WriteFile os p (offset + total_written)
                (take MAXDWORD (drop total_written data))) w of
           (w', Inl e) \<Rightarrow> (w', Inl e)
         | (w', Inr n) \<Rightarrow>
             if n = 0 then (w', Inl IoError)
             else write_loop os p offset data (total_written + n) w')
      else (w, Inr ()))"
  by pat_completeness auto
termination
  by (relation "measure (\<lambda>(os, p, offset, data, total_written, w). length data - total_written)")
    auto

declare write_loop.simps [simp del]

definition write_at :: "'w win32 \<Rightarrow> 'w file_handle \<Rightarrow> nat \<Rightarrow> bytes \<Rightarrow> ('w, unit) action" where
  "write_at os fh offset data =
     ensure_action (fh_open fh) InvalidArgument (
       if data = [] then return_action ()
       else bind_action (run_hook fh (\<lambda>i. before_write i offset (length data))) (\<lambda>_.
         write_loop os (fh_path fh) offset data 0))"

definition fh_sync :: "'w win32 \<Rightarrow> 'w file_handle \<Rightarrow> ('w, unit) action" where
  "fh_sync os fh =
     ensure_action (fh_open fh) InvalidArgument (
       bind_action (run_hook fh before_sync) (\<lambda>_.
       bind_action (win_call (FlushFileBuffers os (fh_path fh))) (\<lambda>_.
       run_hook fh after_sync)))"

definition fh_size :: "'w win32 \<Rightarrow> 'w file_handle \<Rightarrow> ('w, nat) action" where
  "fh_size os fh =
     ensure_action (fh_open fh) InvalidArgument (win_call (GetFileSizeEx os (fh_path fh)))"

definition fh_resize :: "'w win32 \<Rightarrow> 'w file_handle \<Rightarrow> nat \<Rightarrow> ('w, unit) action" where
  "fh_resize os fh new_size =
     ensure_action (fh_open fh) InvalidArgument (
     ensure_action (new_size \<le> LONGLONG_MAX) InvalidArgument (
       bind_action (run_hook fh (\<lambda>i. before_resize i new_size)) (\<lambda>_.
       bind_action (win_call (SetFilePointerEx os (fh_path fh) new_size)) (\<lambda>_.
       bind_action (run_hook fh (\<lambda>i. after_resize_file_pointer i new_size)) (\<lambda>_.
       bind_action (win_call (SetEndOfFile os (fh_path fh) new_size)) (\<lambda>_.
       run_hook fh (\<lambda>i. after_resize_end_of_file i new_size)))))))"

text \<open>\<open>close\<close> forgets the handle whether or not \<open>CloseHandle\<close> succeeds.\<close>

definition fh_close :: "'w win32 \<Rightarrow> 'w file_handle \<Rightarrow> 'w \<Rightarrow> ('w file_handle \<times> 'w) \<times> status" where
  "fh_close os fh w =
     (if \<not> fh_open fh then ((fh, w), Ok)
      else case win_call (CloseHandle os (fh_path fh)) w of
        (w', r) \<Rightarrow> ((fh\<lparr>fh_open := False\<rparr>, w'), r))"

definition set_fault_injector :: "'w injector option \<Rightarrow> 'w file_handle \<Rightarrow> 'w file_handle" where
  "set_fault_injector i fh = fh\<lparr>fh_injector := i\<rparr>"

section \<open>FileLock.cpp and DatabasePath.cpp\<close>

record file_lock =
  lk_path :: path
  lk_locked :: bool

definition DATABASE_LOCK_OFFSET :: nat where
  "DATABASE_LOCK_OFFSET = 2 ^ 63 - 2 ^ 16"

definition lock_status_from_windows_error :: "win_error \<Rightarrow> status_code" where
  "lock_status_from_windows_error error =
     (if error = 2 \<or> error = 3 then NotFound else IoError)"

definition acquire_exclusive :: "'w win32 \<Rightarrow> path \<Rightarrow> ('w, file_lock) action" where
  "acquire_exclusive os p w =
     (case CreateFileW os p OPEN_EXISTING w of
        (w1, Inl error) \<Rightarrow> (w1, Inl (lock_status_from_windows_error error))
      | (w1, Inr _) \<Rightarrow>
          (case LockFileEx os p DATABASE_LOCK_OFFSET w1 of
             (w2, Inl lock_error) \<Rightarrow>
               (case CloseHandle os p w2 of
                  (w3, Inl close_error) \<Rightarrow> (w3, Inl (lock_status_from_windows_error close_error))
                | (w3, Inr _) \<Rightarrow> (w3, Inl (lock_status_from_windows_error lock_error)))
           | (w2, Inr _) \<Rightarrow> (w2, Inr \<lparr>lk_path = p, lk_locked = True\<rparr>)))"

text \<open>A lock that cannot be released stays held: the handle is forgotten only after \<open>UnlockFileEx\<close>.\<close>

definition lock_close :: "'w win32 \<Rightarrow> file_lock \<Rightarrow> 'w \<Rightarrow> (file_lock \<times> 'w) \<times> status" where
  "lock_close os lk w =
     (if \<not> lk_locked lk then ((lk, w), Ok)
      else case UnlockFileEx os (lk_path lk) DATABASE_LOCK_OFFSET w of
        (w1, Inl error) \<Rightarrow> ((lk, w1), Inl (lock_status_from_windows_error error))
      | (w1, Inr _) \<Rightarrow>
          (case CloseHandle os (lk_path lk) w1 of
             (w2, Inl error) \<Rightarrow>
               ((lk\<lparr>lk_locked := False\<rparr>, w2), Inl (lock_status_from_windows_error error))
           | (w2, Inr _) \<Rightarrow> ((lk\<lparr>lk_locked := False\<rparr>, w2), Ok)))"

definition wal_path :: "path \<Rightarrow> path" where
  "wal_path p = p @ ''.wal''"


section \<open>What the code relies on of Windows\<close>

text \<open>
  \<open>content w p\<close> is the content of the file at path \<open>p\<close>, \<open>None\<close> if there is none.
  \<^item> Opening a file creates an empty one at most, and respects the creation disposition.
  \<^item> A read returns the stored bytes from the offset, as many as requested and available.
  \<^item> A write at an offset inside the file stores a prefix of the data, the whole prefix it
    reports when it succeeds and some prefix when it fails, and touches no other file.
  \<^item> Setting the end of the file truncates or extends it; the bytes of an extension are
    unspecified. A failing call leaves the file as it was.
  \<^item> No other call changes a file, and the size reported is the size of the file.
\<close>

definition hooks_preserve :: "('w \<Rightarrow> path \<Rightarrow> bytes option) \<Rightarrow> 'w injector \<Rightarrow> bool" where
  "hooks_preserve content i \<longleftrightarrow>
     (\<forall>off n. preserves content (before_write i off n)) \<and>
     preserves content (before_sync i) \<and>
     preserves content (after_sync i) \<and>
     (\<forall>n. preserves content (before_resize i n)) \<and>
     (\<forall>n. preserves content (after_resize_file_pointer i n)) \<and>
     (\<forall>n. preserves content (after_resize_end_of_file i n))"

definition fh_ok :: "('w \<Rightarrow> path \<Rightarrow> bytes option) \<Rightarrow> 'w file_handle \<Rightarrow> bool" where
  "fh_ok content fh \<longleftrightarrow> (\<forall>i. fh_injector fh = Some i \<longrightarrow> hooks_preserve content i)"

locale win32_files =
  fixes os :: "'w win32" and content :: "'w \<Rightarrow> path \<Rightarrow> bytes option"
  assumes create_ok: "CreateFileW os p m w = (w', Inr ()) \<Longrightarrow>
      content w' = (content w)(p \<mapsto> (case content w p of None \<Rightarrow> [] | Some b \<Rightarrow> b)) \<and>
      (m = CREATE_NEW \<longrightarrow> content w p = None) \<and> (m = OPEN_EXISTING \<longrightarrow> content w p \<noteq> None)"
    and create_err: "CreateFileW os p m w = (w', Inl e) \<Longrightarrow> content w' = content w"
    and read_frame: "ReadFile os p off n w = (w', rb) \<Longrightarrow> content w' = content w"
    and read_bytes: "ReadFile os p off n w = (w', Inr bs) \<Longrightarrow> content w p = Some b \<Longrightarrow>
      bs = take n (drop off b)"
    and write_effect: "WriteFile os p off data w = (w', r) \<Longrightarrow> content w p = Some b \<Longrightarrow>
      off \<le> length b \<Longrightarrow>
      \<exists>k \<le> length data. content w' = (content w)(p \<mapsto> overwrite b off (take k data)) \<and>
        (\<forall>n. r = Inr n \<longrightarrow> n = k)"
    and resize_ok: "SetEndOfFile os p n w = (w', Inr ()) \<Longrightarrow> content w p = Some b \<Longrightarrow>
      \<exists>fill. length fill = n - length b \<and> content w' = (content w)(p \<mapsto> take n b @ fill)"
    and resize_err: "SetEndOfFile os p n w = (w', Inl e) \<Longrightarrow> content w' = content w"
    and size_frame: "GetFileSizeEx os p w = (w', r) \<Longrightarrow> content w' = content w"
    and size_value: "GetFileSizeEx os p w = (w', Inr n) \<Longrightarrow> content w p = Some b \<Longrightarrow>
      n = length b"
    and flush_frame: "FlushFileBuffers os p w = (w', ru) \<Longrightarrow> content w' = content w"
    and pointer_frame: "SetFilePointerEx os p n w = (w', ru) \<Longrightarrow> content w' = content w"
    and close_frame: "CloseHandle os p w = (w', ru) \<Longrightarrow> content w' = content w"
    and lock_frame: "LockFileEx os p n w = (w', ru) \<Longrightarrow> content w' = content w"
    and unlock_frame: "UnlockFileEx os p n w = (w', ru) \<Longrightarrow> content w' = content w"
begin

lemma preserves_win_call [preserves_intros]:
  "(\<And>w w' r. c w = (w', r) \<Longrightarrow> content w' = content w) \<Longrightarrow> preserves content (win_call c)"
  by (auto simp: preserves_def win_call_def split: prod.splits sum.splits)

lemma win_call_Inr: "win_call c w = (w', Inr x) \<longleftrightarrow> c w = (w', Inr x)"
  by (auto simp: win_call_def split: prod.splits sum.splits)

lemma preserves_hook [preserves_intros]:
  "fh_ok content fh \<Longrightarrow> (\<And>i. hooks_preserve content i \<Longrightarrow> preserves content (hook i)) \<Longrightarrow>
   preserves content (run_hook fh hook)"
  by (auto simp: run_hook_def fh_ok_def intro: preserves_intros split: option.splits)

lemma hook_content:
  assumes "run_hook fh hook w = (w', r)" "fh_ok content fh"
    and "\<And>i. hooks_preserve content i \<Longrightarrow> preserves content (hook i)"
  shows "content w' = content w"
proof -
  have "preserves content (run_hook fh hook)"
    using assms(2,3) by (rule preserves_hook)
  then have "content (fst (run_hook fh hook w)) = content w"
    by (simp add: preserves_def)
  with assms(1) show ?thesis by simp
qed

lemma preserves_read_at: "preserves content (read_at os fh off n)"
  unfolding read_at_def by (intro preserves_intros) (rule read_frame)

lemma preserves_size: "preserves content (fh_size os fh)"
  unfolding fh_size_def by (intro preserves_intros) (rule size_frame)

lemma preserves_sync: "fh_ok content fh \<Longrightarrow> preserves content (fh_sync os fh)"
  unfolding fh_sync_def
  by (intro preserves_intros) (auto simp: hooks_preserve_def dest: flush_frame)

lemma read_at_frame: "read_at os fh off n w = (w', r) \<Longrightarrow> content w' = content w"
  by (rule preservesD[OF preserves_read_at])

lemma size_frame': "fh_size os fh w = (w', r) \<Longrightarrow> content w' = content w"
  by (rule preservesD[OF preserves_size])

lemma sync_frame: "fh_ok content fh \<Longrightarrow> fh_sync os fh w = (w', r) \<Longrightarrow> content w' = content w"
  by (rule preservesD[OF preserves_sync])

lemma read_at_value:
  assumes "read_at os fh off n w = (w', Inr bs)" "content w (fh_path fh) = Some b"
  shows "bs = take n (drop off b) \<and> (n = 0 \<or> off + n \<le> length b) \<and> length bs = n"
  using assms read_bytes[of "fh_path fh" off n w _ _ b]
  by (auto simp: read_at_def bind_action_eq_Inr ensure_action_apply win_call_Inr
      split: if_splits)

lemma size_at_value:
  "fh_size os fh w = (w', Inr n) \<Longrightarrow> content w (fh_path fh) = Some b \<Longrightarrow> n = length b"
  by (auto simp: fh_size_def ensure_action_apply win_call_Inr dest: size_value split: if_splits)

lemma win_write_effect:
  assumes "win_call (WriteFile os p off data) w = (w', r)" "content w p = Some b"
    "off \<le> length b"
  shows "\<exists>k \<le> length data. content w' = (content w)(p \<mapsto> overwrite b off (take k data)) \<and>
        (\<forall>n. r = Inr n \<longrightarrow> n = k)"
proof -
  obtain r0 where w: "WriteFile os p off data w = (w', r0)" "\<forall>n. r = Inr n \<longrightarrow> r0 = Inr n"
    using assms(1) by (auto simp: win_call_def split: prod.splits sum.splits)
  show ?thesis
    using write_effect[OF w(1) assms(2,3)] w(2) by blast
qed

text \<open>
  The write loop stores a prefix of the data, all of it when it returns \<open>Ok\<close>: however the
  system cuts the request into pieces, the pieces add up to one contiguous write.
\<close>

lemma write_loop_effect:
  assumes "write_loop os p off data tot w = (w', r)"
    and "content w p = Some (overwrite b off (take tot data))"
    and "off \<le> length b" "tot \<le> length data"
  shows "\<exists>k. tot \<le> k \<and> k \<le> length data \<and>
    content w' = (content w)(p \<mapsto> overwrite b off (take k data)) \<and>
    (r = Inr () \<longrightarrow> k = length data)"
  using assms
proof (induction "length data - tot" arbitrary: tot w rule: less_induct)
  case less
  let ?chunk = "take MAXDWORD (drop tot data)"
  let ?b = "overwrite b off (take tot data)"
  show ?case
  proof (cases "tot < length data")
    case False
    with less.prems show ?thesis
      by (auto simp: write_loop.simps[of os p off data tot w])
  next
    case True
    obtain w1 r1 where call: "win_call (WriteFile os p (off + tot) ?chunk) w = (w1, r1)"
      by (metis surj_pair)
    have "off + tot \<le> length ?b"
      using less.prems True by (simp add: length_overwrite_ge)
    from win_write_effect[OF call less.prems(2) this] obtain k where k: "k \<le> length ?chunk"
      and c: "content w1 = (content w)(p \<mapsto> overwrite ?b (off + tot) (take k ?chunk))"
      and n: "\<forall>n. r1 = Inr n \<longrightarrow> n = k" by blast
    have "take tot data @ take k ?chunk = take (tot + k) data"
      using k by (simp add: take_add min.absorb1)
    then have b1: "overwrite ?b (off + tot) (take k ?chunk) = overwrite b off (take (tot + k) data)"
      using overwrite_append[of off b "take tot data" "take k ?chunk"] less.prems(3,4) by simp
    show ?thesis
    proof (cases "r1 = Inr k \<and> k \<noteq> 0")
      case False
      then consider e where "r1 = Inl e" | "r1 = Inr 0"
        using n by (cases r1) auto
      then have "w' = w1 \<and> r \<noteq> Inr ()"
        using less.prems(1) call True
        by cases (auto simp: write_loop.simps[of os p off data tot w])
      then show ?thesis
        using c b1 k less.prems(4) by (intro exI[of _ "tot + k"]) auto
    next
      case step: True
      have "write_loop os p off data (tot + k) w1 = (w', r)"
        using less.prems(1) call step True
        by (simp add: write_loop.simps[of os p off data tot w])
      moreover have "content w1 p = Some (overwrite b off (take (tot + k) data))"
        using c b1 by simp
      moreover have "length data - (tot + k) < length data - tot"
        using True step by auto
      moreover have "tot + k \<le> length data"
        using k True by auto
      ultimately obtain m where "tot + k \<le> m" "m \<le> length data"
        "content w' = (content w1)(p \<mapsto> overwrite b off (take m data))"
        "r = Inr () \<longrightarrow> m = length data"
        using less.hyps[of "tot + k" w1] less.prems(3) by blast
      then show ?thesis
        using c by (intro exI[of _ m]) auto
    qed
  qed
qed

lemma write_at_effect:
  assumes "write_at os fh off data w = (w', r)" "fh_ok content fh"
    and "content w (fh_path fh) = Some b" "off \<le> length b"
  shows "\<exists>k \<le> length data. content w' = (content w)(fh_path fh \<mapsto> overwrite b off (take k data)) \<and>
    (r = Inr () \<longrightarrow> k = length data)"
proof -
  let ?p = "fh_path fh"
  have id: "content w = (content w)(?p \<mapsto> overwrite b off (take 0 data))"
    using assms(3) by (auto simp: fun_upd_idem_iff)
  show ?thesis
  proof (cases "fh_open fh \<and> data \<noteq> []")
    case False
    then have "w' = w" "r = Inr () \<longrightarrow> data = []"
      using assms(1) by (auto simp: write_at_def ensure_action_apply split: if_splits)
    with id show ?thesis by (intro exI[of _ 0]) auto
  next
    case True
    obtain w1 r1 where hook: "run_hook fh (\<lambda>i. before_write i off (length data)) w = (w1, r1)"
      by (metis surj_pair)
    from hook assms(2) have w1: "content w1 = content w"
      by (rule hook_content) (simp add: hooks_preserve_def)
    show ?thesis
    proof (cases r1)
      case (Inl e)
      then have "w' = w1" "r = Inl e"
        using assms(1) True hook by (auto simp: write_at_def bind_action_def)
      with id w1 show ?thesis by (intro exI[of _ 0]) auto
    next
      case (Inr u)
      then have "write_loop os ?p off data 0 w1 = (w', r)"
        using assms(1) True hook by (simp add: write_at_def bind_action_def)
      moreover have "content w1 ?p = Some (overwrite b off (take 0 data))"
        using assms(3) w1 by simp
      ultimately show ?thesis
        using write_loop_effect[of ?p off data 0 w1 w' r b] assms(4) w1 by auto
    qed
  qed
qed

lemma resize_ok': "SetEndOfFile os p n w = (w', Inr ()) \<Longrightarrow>
    \<forall>b. content w p = Some b \<longrightarrow>
      (\<exists>fill. length fill = n - length b \<and> content w' = (content w)(p \<mapsto> take n b @ fill))"
  by (blast dest: resize_ok)

lemma resize_effect:
  assumes "fh_resize os fh n w = (w', r)" "fh_ok content fh" "content w (fh_path fh) = Some b"
  shows "content w' = content w \<and> r \<noteq> Inr () \<or>
    (\<exists>fill. length fill = n - length b \<and> content w' = (content w)(fh_path fh \<mapsto> take n b @ fill))"
proof -
  have hooks:
    "run_hook fh (\<lambda>i. before_resize i n) v = (v', x) \<Longrightarrow> content v' = content v"
    "run_hook fh (\<lambda>i. after_resize_file_pointer i n) v = (v', x) \<Longrightarrow> content v' = content v"
    "run_hook fh (\<lambda>i. after_resize_end_of_file i n) v = (v', x) \<Longrightarrow> content v' = content v"
    for v v' x
    by (erule hook_content[OF _ assms(2)], simp add: hooks_preserve_def)+
  show ?thesis
    using assms(1,3)
    by (auto simp: fh_resize_def ensure_action_apply bind_action_def win_call_def
        split: prod.splits sum.splits if_splits
        dest!: hooks pointer_frame resize_err resize_ok')
qed

lemma close_content: "fh_close os fh w = ((fh', w'), r) \<Longrightarrow> content w' = content w"
  by (auto simp: fh_close_def win_call_def split: if_splits prod.splits sum.splits
      dest: close_frame)

lemma open_content:
  assumes "fh_open_existing os p w = (w', r)"
  shows "content w' = content w \<and> (\<forall>fh. r = Inr fh \<longrightarrow>
    content w p \<noteq> None \<and> fh = \<lparr>fh_path = p, fh_open = True, fh_injector = None\<rparr>)"
  using assms
  by (auto simp: fh_open_existing_def bind_action_def win_call_def
      split: prod.splits sum.splits dest!: create_ok dest: create_err)

lemma open_or_create_content:
  assumes "fh_open_or_create os p w = (w', r)"
  shows "(\<forall>e. r = Inl e \<longrightarrow> content w' = content w) \<and> (\<forall>fh. r = Inr fh \<longrightarrow>
    content w' = (content w)(p \<mapsto> (case content w p of None \<Rightarrow> [] | Some b \<Rightarrow> b)) \<and>
    fh = \<lparr>fh_path = p, fh_open = True, fh_injector = None\<rparr>)"
  using assms
  by (auto simp: fh_open_or_create_def bind_action_def win_call_def
      split: prod.splits sum.splits dest: create_ok create_err)

lemma create_new_content:
  assumes "fh_create_new os p w = (w', r)"
  shows "(\<forall>e. r = Inl e \<longrightarrow> content w' = content w) \<and> (\<forall>fh. r = Inr fh \<longrightarrow>
    content w p = None \<and> content w' = (content w)(p \<mapsto> []) \<and>
    fh = \<lparr>fh_path = p, fh_open = True, fh_injector = None\<rparr>)"
  using assms
  by (auto simp: fh_create_new_def bind_action_def win_call_def
      split: prod.splits sum.splits dest: create_ok create_err)

lemma acquire_content: "acquire_exclusive os p w = (w', r) \<Longrightarrow> content w' = content w"
  by (auto simp: acquire_exclusive_def split: prod.splits sum.splits
      dest!: create_ok create_err close_frame lock_frame)

end


section \<open>An in-memory file system that fails by script\<close>

text \<open>
  An instance of the parameter: the files are a map, and a script says which Windows call
  (by its number) fails, with which error and, for a write, after how many stored bytes.
\<close>

type_synonym fault_script = "nat \<Rightarrow> (win_error \<times> nat) option"

record mem_files =
  mf_files :: "path \<Rightarrow> bytes option"
  mf_calls :: nat

definition tick :: "mem_files \<Rightarrow> mem_files" where
  "tick w = w\<lparr>mf_calls := Suc (mf_calls w)\<rparr>"

definition scripted :: "fault_script \<Rightarrow> (mem_files \<Rightarrow> mem_files \<times> (win_error + 'a)) \<Rightarrow>
    mem_files \<Rightarrow> mem_files \<times> (win_error + 'a)" where
  "scripted script call w =
     (case script (mf_calls w) of
        Some (error, _) \<Rightarrow> (tick w, Inl error)
      | None \<Rightarrow> call (tick w))"

definition mem_store :: "path \<Rightarrow> bytes \<Rightarrow> mem_files \<Rightarrow> mem_files" where
  "mem_store p b w = w\<lparr>mf_files := (mf_files w)(p \<mapsto> b)\<rparr>"

definition mem_create :: "path \<Rightarrow> creation \<Rightarrow> mem_files \<Rightarrow> mem_files \<times> (win_error + unit)" where
  "mem_create p m w =
     (case mf_files w p of
        None \<Rightarrow> if m = OPEN_EXISTING then (w, Inl 2) else (mem_store p [] w, Inr ())
      | Some b \<Rightarrow> if m = CREATE_NEW then (w, Inl 80) else (w, Inr ()))"

definition mem_read :: "path \<Rightarrow> nat \<Rightarrow> nat \<Rightarrow> mem_files \<Rightarrow> mem_files \<times> (win_error + bytes)" where
  "mem_read p off n w =
     (case mf_files w p of None \<Rightarrow> (w, Inl 6) | Some b \<Rightarrow> (w, Inr (take n (drop off b))))"

definition mem_write :: "fault_script \<Rightarrow> path \<Rightarrow> nat \<Rightarrow> bytes \<Rightarrow> mem_files \<Rightarrow>
    mem_files \<times> (win_error + nat)" where
  "mem_write script p off data w =
     (case mf_files w p of
        None \<Rightarrow> (tick w, Inl 6)
      | Some b \<Rightarrow>
          (case script (mf_calls w) of
             Some (error, k) \<Rightarrow> (mem_store p (overwrite b off (take k data)) (tick w), Inl error)
           | None \<Rightarrow> (mem_store p (overwrite b off data) (tick w), Inr (length data))))"

definition mem_set_end :: "path \<Rightarrow> nat \<Rightarrow> mem_files \<Rightarrow> mem_files \<times> (win_error + unit)" where
  "mem_set_end p n w =
     (case mf_files w p of
        None \<Rightarrow> (w, Inl 6)
      | Some b \<Rightarrow> (mem_store p (take n b @ replicate (n - length b) 0) w, Inr ()))"

definition mem_size :: "path \<Rightarrow> mem_files \<Rightarrow> mem_files \<times> (win_error + nat)" where
  "mem_size p w = (case mf_files w p of None \<Rightarrow> (w, Inl 6) | Some b \<Rightarrow> (w, Inr (length b)))"

definition mem_done :: "mem_files \<Rightarrow> mem_files \<times> (win_error + unit)" where
  "mem_done w = (w, Inr ())"

definition mem_os :: "fault_script \<Rightarrow> mem_files win32" where
  "mem_os script = \<lparr>
     CreateFileW = (\<lambda>p m. scripted script (mem_create p m)),
     ReadFile = (\<lambda>p off n. scripted script (mem_read p off n)),
     WriteFile = (\<lambda>p off data. mem_write script p off data),
     FlushFileBuffers = (\<lambda>p. scripted script mem_done),
     GetFileSizeEx = (\<lambda>p. scripted script (mem_size p)),
     SetFilePointerEx = (\<lambda>p n. scripted script mem_done),
     SetEndOfFile = (\<lambda>p n. scripted script (mem_set_end p n)),
     CloseHandle = (\<lambda>p. scripted script mem_done),
     LockFileEx = (\<lambda>p n. scripted script mem_done),
     UnlockFileEx = (\<lambda>p n. scripted script mem_done)\<rparr>"

lemma mf_files_simps [simp]:
  "mf_files (tick w) = mf_files w"
  "mf_files (mem_store p b w) = (mf_files w)(p \<mapsto> b)"
  by (simp_all add: tick_def mem_store_def)

lemma mem_os_files: "win32_files (mem_os script) mf_files"
proof
  fix p off data w w' b and r :: "win_error + nat"
  assume w: "WriteFile (mem_os script) p off data w = (w', r)" "mf_files w p = Some b"
    "off \<le> length b"
  show "\<exists>k \<le> length data. mf_files w' = (mf_files w)(p \<mapsto> overwrite b off (take k data)) \<and>
      (\<forall>n. r = Inr n \<longrightarrow> n = k)"
  proof (cases "script (mf_calls w)")
    case None
    with w show ?thesis
      by (intro exI[of _ "length data"]) (auto simp: mem_os_def mem_write_def)
  next
    case (Some ek)
    obtain e k where ek: "ek = (e, k)" by (metis surj_pair)
    have "take (min k (length data)) data = take k data"
      by (simp add: min_def)
    with w Some ek show ?thesis
      by (intro exI[of _ "min k (length data)"]) (auto simp: mem_os_def mem_write_def)
  qed
qed (auto simp: mem_os_def scripted_def mem_create_def mem_read_def mem_set_end_def mem_size_def
      mem_done_def fun_upd_idem_iff
      split: option.splits if_splits prod.splits intro: exI[of _ "replicate _ 0"])

interpretation mem: win32_files "mem_os script" mf_files for script
  by (rule mem_os_files)

text \<open>
  A write changes only its own file, and there a prefix of the requested range: the
  bytes stored are the first \<open>k\<close> of the data, all of them when the write succeeds, whatever
  Windows call or injected fault stops it.
\<close>

theorem write_at_stores_prefix:
  assumes "win32_files os content" "write_at os fh off data w = (w', r)" "fh_ok content fh"
    and "content w (fh_path fh) = Some b" "off \<le> length b"
  shows "\<exists>k \<le> length data. content w' = (content w)(fh_path fh \<mapsto> overwrite b off (take k data)) \<and>
    (r = Ok \<longrightarrow> k = length data)"
  using win32_files.write_at_effect[OF assms] by simp

theorem write_at_stores_prefix_witness:
  defines "fh \<equiv> \<lparr>fh_path = ''f'', fh_open = True, fh_injector = None\<rparr>"
    and "w \<equiv> \<lparr>mf_files = [''f'' \<mapsto> [1, 2, 3]], mf_calls = 0\<rparr>"
    and "s \<equiv> (\<lambda>n. if n = 0 then Some (112, 1) else None) :: fault_script"
  shows "\<exists>w' r. write_at (mem_os s) fh 1 [8, 9] w = (w', r) \<and>
    (\<exists>k \<le> length [8, 9]. mf_files w' =
        (mf_files w)(fh_path fh \<mapsto> overwrite [1, 2, 3] 1 (take k [8, 9])) \<and>
      (r = Ok \<longrightarrow> k = length [8, 9]))"
proof -
  obtain w' r where run: "write_at (mem_os s) fh 1 [8, 9] w = (w', r)"
    by (metis surj_pair)
  have "fh_ok mf_files fh" "mf_files w (fh_path fh) = Some [1, 2, 3]"
    by (simp_all add: fh_def w_def fh_ok_def)
  from write_at_stores_prefix[OF mem_os_files run, OF this] show ?thesis
    using run by auto
qed

text \<open>
  \<open>read_at\<close> returns exactly the requested bytes of the file or an error: a read that
  would cross the end of the file is never filled up, and no read changes a file.
\<close>

theorem read_at_exact:
  assumes "win32_files os content" "read_at os fh off n w = (w', r)"
    and "content w (fh_path fh) = Some b"
  shows "content w' = content w \<and> (\<forall>bs. r = Inr bs \<longrightarrow>
    bs = take n (drop off b) \<and> length bs = n \<and> (n = 0 \<or> off + n \<le> length b))"
  using win32_files.read_at_frame[OF assms(1,2)] win32_files.read_at_value[OF assms(1) _ assms(3)]
    assms(2) by blast

theorem read_at_exact_witness:
  defines "fh \<equiv> \<lparr>fh_path = ''f'', fh_open = True, fh_injector = None\<rparr>"
    and "w \<equiv> \<lparr>mf_files = [''f'' \<mapsto> [1, 2, 3]], mf_calls = 0\<rparr>"
  shows "\<exists>w' r. read_at (mem_os (\<lambda>_. None)) fh 2 2 w = (w', r) \<and> mf_files w' = mf_files w \<and>
    (\<forall>bs. r = Inr bs \<longrightarrow> length bs = 2)"
proof -
  obtain w' r where run: "read_at (mem_os (\<lambda>_. None)) fh 2 2 w = (w', r)"
    by (metis surj_pair)
  have "mf_files w (fh_path fh) = Some [1, 2, 3]"
    by (simp add: fh_def w_def)
  from read_at_exact[OF mem_os_files run, OF this] show ?thesis
    using run by blast
qed

text \<open>The operations on an open file of this system when no call fails.\<close>

abbreviation mem_ok :: "mem_files win32" where
  "mem_ok \<equiv> mem_os (\<lambda>_. None)"

lemma mem_ok_calls:
  assumes "mf_files w p = Some b"
  shows "ReadFile mem_ok p off n w = (tick w, Inr (take n (drop off b)))"
    and "WriteFile mem_ok p off data w = (mem_store p (overwrite b off data) (tick w), Inr (length data))"
    and "GetFileSizeEx mem_ok p w = (tick w, Inr (length b))"
    and "SetEndOfFile mem_ok p n w = (mem_store p (take n b @ replicate (n - length b) 0) (tick w), Inr ())"
  using assms
  by (simp_all add: mem_os_def scripted_def mem_read_def mem_write_def mem_size_def mem_set_end_def
      tick_def mem_store_def)

lemma mem_ok_done:
  "FlushFileBuffers mem_ok p w = (tick w, Inr ())" "SetFilePointerEx mem_ok p n w = (tick w, Inr ())"
  "CloseHandle mem_ok p w = (tick w, Inr ())" "LockFileEx mem_ok p n w = (tick w, Inr ())"
  "UnlockFileEx mem_ok p n w = (tick w, Inr ())"
  by (simp_all add: mem_os_def scripted_def mem_done_def)

lemma mem_size_at:
  "fh_open fh \<Longrightarrow> mf_files w (fh_path fh) = Some b \<Longrightarrow> fh_size mem_ok fh w = (tick w, Inr (length b))"
  by (simp add: fh_size_def win_call_def mem_ok_calls)

lemma mem_read_at:
  "fh_open fh \<Longrightarrow> mf_files w (fh_path fh) = Some b \<Longrightarrow> off + n \<le> length b \<Longrightarrow> 0 < n \<Longrightarrow>
   n \<le> MAXDWORD \<Longrightarrow> read_at mem_ok fh off n w = (tick w, Inr (take n (drop off b)))"
  by (simp add: read_at_def win_call_def mem_ok_calls status_simps)

lemma mem_write_at:
  assumes "fh_open fh" "fh_injector fh = None" "mf_files w (fh_path fh) = Some b"
    and "data \<noteq> []" "length data \<le> MAXDWORD"
  shows "write_at mem_ok fh off data w =
    (mem_store (fh_path fh) (overwrite b off data) (tick w), Ok)"
  using assms
  by (simp add: write_at_def run_hook_def write_loop.simps[of _ _ _ _ 0] win_call_def mem_ok_calls)
    (simp add: write_loop.simps)

end
