(* ===== verification/WalScanner.thy ===== *)
theory WalScanner
  imports WalRecords Files "HOL-Library.AList"
begin

text \<open>
  \<^verbatim>\<open>WalScanner.cpp\<close>: the scan of a WAL file that finds the committed page frames. The
  loop of the code is \<open>scan_loop\<close>, with a read per record; the two record branches of its
  body are \<open>scan_frame\<close> and \<open>scan_commit\<close>. \<open>scan_records\<close> is the same loop over the
  content of the file, and \<open>scan_loop\<close> refines it. The abstract view of a log is a list
  of transactions \<open>wal_txn\<close>; the main lemmas say that scanning the encoding of such a
  list, followed by any proper prefix of one more transaction, finds the last frame of
  every committed page and nothing of the unfinished transaction.
\<close>

section \<open>The code\<close>

record pending_frame =
  pf_offset :: nat
  pf_page_id :: page_id

text \<open>
  The \<open>unordered_map\<close> of the result is an association list with distinct keys; its order
  stands for the unspecified iteration order and no property depends on it.
\<close>

record wal_scan_result =
  latest_committed_frame_offsets :: "(page_id \<times> nat) list"
  valid_wal_end_offset :: nat
  ignored_trailing_bytes :: bool

text \<open>The local variables of the loop.\<close>

record scan_state =
  sc_pending_frames :: "pending_frame list"
  sc_pending_transaction_id :: u64
  sc_has_pending_transaction :: bool
  sc_latest :: "(page_id \<times> nat) list"
  sc_valid_end :: nat
  sc_is_damaged_tail :: bool
  sc_offset :: nat

definition scan_init :: scan_state where
  "scan_init = \<lparr>sc_pending_frames = [], sc_pending_transaction_id = 0,
     sc_has_pending_transaction = False, sc_latest = [], sc_valid_end = WAL_HEADER_SIZE,
     sc_is_damaged_tail = False, sc_offset = WAL_HEADER_SIZE\<rparr>"

text \<open>A record that does not decode starts the damaged tail and drops the pending frames.\<close>

definition scan_damage :: "nat \<Rightarrow> scan_state \<Rightarrow> scan_state" where
  "scan_damage n st = st\<lparr>sc_is_damaged_tail := True, sc_pending_frames := [],
     sc_pending_transaction_id := 0, sc_has_pending_transaction := False,
     sc_offset := sc_offset st + n\<rparr>"

definition scan_frame :: "bytes \<Rightarrow> scan_state \<Rightarrow> scan_state result" where
  "scan_frame page_frame_bytes st =
     (case wal_page_frame_decode page_frame_bytes of
        Inl _ \<Rightarrow> Inr (scan_damage WAL_PAGE_FRAME_RECORD_SIZE st)
      | Inr frame \<Rightarrow>
          if sc_has_pending_transaction st \<and>
             sc_pending_transaction_id st \<noteq> wf_transaction_id frame
          then Inl Corruption
          else Inr (st\<lparr>
            sc_pending_transaction_id := wf_transaction_id frame,
            sc_has_pending_transaction := True,
            sc_pending_frames := sc_pending_frames st @
              [\<lparr>pf_offset = sc_offset st, pf_page_id = wf_page_id frame\<rparr>],
            sc_offset := sc_offset st + WAL_PAGE_FRAME_RECORD_SIZE\<rparr>))"

definition publish_frames :: "pending_frame list \<Rightarrow> (page_id \<times> nat) list \<Rightarrow> (page_id \<times> nat) list" where
  "publish_frames frames latest =
     fold (\<lambda>f m. AList.update (pf_page_id f) (pf_offset f) m) frames latest"

definition scan_commit :: "bytes \<Rightarrow> scan_state \<Rightarrow> scan_state result" where
  "scan_commit commit_bytes st =
     (let end_offset = sc_offset st + WAL_COMMIT_RECORD_SIZE in
      if sc_is_damaged_tail st then
        (case wal_commit_decode commit_bytes of
           Inr _ \<Rightarrow> Inl Corruption
         | Inl _ \<Rightarrow> Inr (st\<lparr>sc_offset := end_offset\<rparr>))
      else
        (case wal_commit_decode commit_bytes of
           Inl _ \<Rightarrow> Inr (scan_damage WAL_COMMIT_RECORD_SIZE st)
         | Inr commit \<Rightarrow>
             if \<not> sc_has_pending_transaction st \<and> wc_frame_count commit = 0 then
               Inr (st\<lparr>sc_offset := end_offset, sc_valid_end := end_offset\<rparr>)
             else if \<not> sc_has_pending_transaction st \<or>
                     wc_transaction_id commit \<noteq> sc_pending_transaction_id st \<or>
                     unat (wc_frame_count commit) \<noteq> length (sc_pending_frames st) then
               Inl Corruption
             else Inr (st\<lparr>
               sc_latest := publish_frames (sc_pending_frames st) (sc_latest st),
               sc_pending_frames := [], sc_has_pending_transaction := False,
               sc_pending_transaction_id := 0,
               sc_offset := end_offset, sc_valid_end := end_offset\<rparr>)))"

lemma scan_frame_offset:
  "scan_frame bs st = Inr st' \<Longrightarrow> sc_offset st' = sc_offset st + WAL_PAGE_FRAME_RECORD_SIZE"
  by (auto simp: scan_frame_def scan_damage_def split: sum.splits if_splits)

lemma scan_commit_offset:
  "scan_commit bs st = Inr st' \<Longrightarrow> sc_offset st' = sc_offset st + WAL_COMMIT_RECORD_SIZE"
  by (auto simp: scan_commit_def scan_damage_def Let_def split: sum.splits if_splits)

lemma record_sizes_pos [simp]: "0 < WAL_PAGE_FRAME_RECORD_SIZE" "0 < WAL_COMMIT_RECORD_SIZE"
  by (simp_all add: WAL_PAGE_FRAME_RECORD_SIZE_def WAL_COMMIT_RECORD_SIZE_def)

text \<open>
  The \<open>while\<close> loop. Every round either leaves the loop or moves the offset past a
  record, so the distance to the end of the file decreases.
\<close>

function scan_loop :: "'w win32 \<Rightarrow> 'w file_handle \<Rightarrow> nat \<Rightarrow> scan_state \<Rightarrow> ('w, scan_state) action" where
  "scan_loop os fh file_size st w =
     (if sc_offset st < file_size then
        (let remaining = file_size - sc_offset st in
         if remaining < 4 then (w, Inr st)
         else
           (case bind_action (read_at os fh (sc_offset st) 4) (\<lambda>bs. lift_result (read_u32_le bs 0)) w of
              (w1, Inl e) \<Rightarrow> (w1, Inl e)
            | (w1, Inr stored_record_type) \<Rightarrow>
                if stored_record_type = WAL_PAGE_FRAME_RECORD_TYPE then
                  if remaining < WAL_PAGE_FRAME_RECORD_SIZE then (w1, Inr st)
                  else if sc_is_damaged_tail st then
                    scan_loop os fh file_size
                      (st\<lparr>sc_offset := sc_offset st + WAL_PAGE_FRAME_RECORD_SIZE\<rparr>) w1
                  else
                    (case read_at os fh (sc_offset st) WAL_PAGE_FRAME_RECORD_SIZE w1 of
                       (w2, Inl e) \<Rightarrow> (w2, Inl e)
                     | (w2, Inr bs) \<Rightarrow>
                         (case scan_frame bs st of
                            Inl e \<Rightarrow> (w2, Inl e)
                          | Inr st' \<Rightarrow> scan_loop os fh file_size st' w2))
                else if stored_record_type = WAL_COMMIT_RECORD_TYPE then
                  if remaining < WAL_COMMIT_RECORD_SIZE then (w1, Inr st)
                  else
                    (case read_at os fh (sc_offset st) WAL_COMMIT_RECORD_SIZE w1 of
                       (w2, Inl e) \<Rightarrow> (w2, Inl e)
                     | (w2, Inr bs) \<Rightarrow>
                         (case scan_commit bs st of
                            Inl e \<Rightarrow> (w2, Inl e)
                          | Inr st' \<Rightarrow> scan_loop os fh file_size st' w2))
                else if remaining < WAL_COMMIT_RECORD_SIZE then (w1, Inr st)
                else (w1, Inl Corruption)))
      else (w, Inr st))"
  by pat_completeness auto
termination
  by (relation "measure (\<lambda>(os, fh, file_size, st, w). file_size - sc_offset st)")
    (auto dest!: scan_frame_offset scan_commit_offset intro!: diff_less_mono2)

declare scan_loop.simps [simp del]

definition scan_finish :: "nat \<Rightarrow> scan_state \<Rightarrow> wal_scan_result" where
  "scan_finish file_size st =
     \<lparr>latest_committed_frame_offsets = sc_latest st, valid_wal_end_offset = sc_valid_end st,
      ignored_trailing_bytes = (sc_valid_end st \<noteq> file_size)\<rparr>"

text \<open>
  \<open>WalScanner::scan\<close>. The local file handle is closed by its destructor on every way
  out, which ignores the outcome of \<open>CloseHandle\<close>.
\<close>

definition closing :: "'w win32 \<Rightarrow> 'w file_handle \<Rightarrow> ('w, 'a) action \<Rightarrow> ('w, 'a) action" where
  "closing os fh m w =
     (case m w of (w1, r) \<Rightarrow> (snd (fst (fh_close os fh w1)), r))"

definition wal_scan :: "'w win32 \<Rightarrow> path \<Rightarrow> u64 \<Rightarrow> ('w, wal_scan_result) action" where
  "wal_scan os p expected_database_id =
     bind_action (fh_open_existing os p) (\<lambda>file_handle. closing os file_handle (
     bind_action (fh_size os file_handle) (\<lambda>file_size.
     ensure_action (WAL_HEADER_SIZE \<le> file_size) Corruption (
     bind_action (read_at os file_handle 0 WAL_HEADER_SIZE) (\<lambda>wal_header_bytes.
     bind_action (lift_result (wal_header_decode wal_header_bytes)) (\<lambda>wal_header.
     ensure_action (wh_database_id wal_header = expected_database_id) Corruption (
     bind_action (scan_loop os file_handle file_size scan_init) (\<lambda>st.
       return_action (scan_finish file_size st)))))))))"

section \<open>The scan of a content\<close>

text \<open>
  One round of the loop over the content: \<open>Inr None\<close> leaves the loop.
\<close>

definition scan_step :: "bytes \<Rightarrow> scan_state \<Rightarrow> scan_state option result" where
  "scan_step content st =
     (let offset = sc_offset st; remaining = length content - offset;
          record_type = (load_le 4 content offset :: u32) in
      if length content \<le> offset \<or> remaining < 4 then Inr None
      else if record_type = WAL_PAGE_FRAME_RECORD_TYPE then
        if remaining < WAL_PAGE_FRAME_RECORD_SIZE then Inr None
        else if sc_is_damaged_tail st then
          Inr (Some (st\<lparr>sc_offset := offset + WAL_PAGE_FRAME_RECORD_SIZE\<rparr>))
        else map_sum id Some (scan_frame (take WAL_PAGE_FRAME_RECORD_SIZE (drop offset content)) st)
      else if record_type = WAL_COMMIT_RECORD_TYPE then
        if remaining < WAL_COMMIT_RECORD_SIZE then Inr None
        else map_sum id Some (scan_commit (take WAL_COMMIT_RECORD_SIZE (drop offset content)) st)
      else if remaining < WAL_COMMIT_RECORD_SIZE then Inr None
      else Inl Corruption)"

lemma scan_step_offset:
  "scan_step content st = Inr (Some st') \<Longrightarrow>
   sc_offset st < sc_offset st' \<and> sc_offset st' \<le> length content"
  unfolding scan_step_def Let_def
  by (auto simp: map_sum_def split: if_splits sum.splits dest!: scan_frame_offset scan_commit_offset)

lemma case_map_sum_Some:
  "(case map_sum id Some r of Inl e \<Rightarrow> Inl e | Inr None \<Rightarrow> a | Inr (Some y) \<Rightarrow> f y) =
   (case r of Inl e \<Rightarrow> Inl e | Inr y \<Rightarrow> f y)"
  by (cases r) simp_all

function scan_records :: "bytes \<Rightarrow> scan_state \<Rightarrow> scan_state result" where
  "scan_records content st =
     (case scan_step content st of
        Inl e \<Rightarrow> Inl e
      | Inr None \<Rightarrow> Inr st
      | Inr (Some st') \<Rightarrow> scan_records content st')"
  by pat_completeness auto
termination
  by (relation "measure (\<lambda>(content, st). length content - sc_offset st)")
    (auto dest!: scan_step_offset)

declare scan_records.simps [simp del]

lemma scan_records_simps:
  "scan_step content st = Inl e \<Longrightarrow> scan_records content st = Inl e"
  "scan_step content st = Inr None \<Longrightarrow> scan_records content st = Inr st"
  "scan_step content st = Inr (Some st') \<Longrightarrow> scan_records content st = scan_records content st'"
  by (simp_all add: scan_records.simps[of content st])

definition scan_content :: "bytes \<Rightarrow> u64 \<Rightarrow> wal_scan_result result" where
  "scan_content content expected_database_id =
     ensure (WAL_HEADER_SIZE \<le> length content) Corruption (
     bind_result (wal_header_decode (take WAL_HEADER_SIZE content)) (\<lambda>wal_header.
     ensure (wh_database_id wal_header = expected_database_id) Corruption (
     bind_result (scan_records content scan_init) (\<lambda>st.
       Inr (scan_finish (length content) st)))))"


text \<open>An invariant of the rounds holds at the end, where no further round is possible.\<close>

lemma scan_records_invariant:
  assumes "scan_records content st = Inr st'" "I st"
    and "\<And>s s'. I s \<Longrightarrow> scan_step content s = Inr (Some s') \<Longrightarrow> I s'"
  shows "I st' \<and> scan_step content st' = Inr None"
  using assms(1,2)
proof (induction "length content - sc_offset st" arbitrary: st rule: less_induct)
  case less
  show ?case
  proof (cases "scan_step content st")
    case (Inl e)
    with less.prems show ?thesis by (simp add: scan_records_simps)
  next
    case (Inr x)
    show ?thesis
    proof (cases x)
      case None
      with less.prems Inr show ?thesis by (simp add: scan_records_simps)
    next
      case (Some s)
      with Inr have step: "scan_step content st = Inr (Some s)" by simp
      from less.prems(1) step have "scan_records content s = Inr st'"
        by (simp add: scan_records_simps)
      moreover have "I s"
        by (rule assms(3)[OF less.prems(2) step])
      moreover have "length content - sc_offset s < length content - sc_offset st"
        using scan_step_offset[OF step] by auto
      ultimately show ?thesis
        by (simp add: less.hyps)
    qed
  qed
qed

context win32_files
begin

lemma scan_loop_refines:
  assumes "scan_loop os fh (length b) st w = (w', r)" "content w (fh_path fh) = Some b"
  shows "content w' = content w \<and> (\<forall>st'. r = Inr st' \<longrightarrow> scan_records b st = Inr st')"
  using assms
proof (induction "length b - sc_offset st" arbitrary: st w rule: less_induct)
  case less
  note unfold = scan_loop.simps[of os fh "length b" st w] scan_records.simps[of b st] scan_step_def Let_def case_map_sum_Some
  let ?off = "sc_offset st"
  have rd: "content v' = content w \<and> (\<forall>bs. r = Inr bs \<longrightarrow> bs = take n (drop ?off b))"
    if "read_at os fh ?off n v = (v', r)" "content v = content w" for n v v' r
    using that read_at_frame[of fh ?off n v v' r] read_at_value[of fh ?off n v v' _ b] less.prems(2)
    by auto
  have IH: "content w' = content w \<and> (\<forall>s. r = Inr s \<longrightarrow> scan_records b st1 = Inr s)"
    if "scan_loop os fh (length b) st1 w1 = (w', r)" "content w1 = content w"
      "?off < sc_offset st1" "?off < length b" for st1 w1
    using less.hyps[of st1 w1] that less.prems(2) by auto
  show ?case
  proof (cases "?off < length b \<and> 4 \<le> length b - ?off")
    case False
    then show ?thesis
      using less.prems(1) by (auto simp: unfold split: if_splits)
  next
    case True
    obtain w1 r1 where r1: "read_at os fh ?off 4 w = (w1, r1)"
      by (metis surj_pair)
    show ?thesis
    proof (cases r1)
      case (Inl e)
      with less.prems(1) True r1 rd[OF r1] show ?thesis
        by (auto simp: unfold bind_action_def)
    next
      case (Inr bs)
      have c1: "content w1 = content w" and bs: "bs = take 4 (drop ?off b)"
        using rd[OF r1 refl] Inr by auto
      have "read_u32_le bs 0 = Inr (load_le 4 b ?off)"
        using True unfolding bs
        by (simp add: read_le_in_bounds load_le_take load_le_drop)
      then have ty: "bind_action (read_at os fh ?off 4) (\<lambda>bs. lift_result (read_u32_le bs 0)) w =
          (w1, Inr (load_le 4 b ?off))"
        by (simp add: bind_action_def r1 Inr)
      have step: "content w' = content w \<and>
          (\<forall>s. r = Inr s \<longrightarrow> (case f (take n (drop ?off b)) st of
             Inl e \<Rightarrow> Inl e | Inr st1 \<Rightarrow> scan_records b st1) = Inr s)"
        if run: "(case read_at os fh ?off n w1 of
               (w2, Inl e) \<Rightarrow> (w2, Inl e)
             | (w2, Inr bs) \<Rightarrow> (case f bs st of
                 Inl e \<Rightarrow> (w2, Inl e) | Inr st1 \<Rightarrow> scan_loop os fh (length b) st1 w2)) = (w', r)"
          and adv: "\<And>bs st1. f bs st = Inr st1 \<Longrightarrow> ?off < sc_offset st1"
        for n f
      proof -
        obtain w2 r2 where r2: "read_at os fh ?off n w1 = (w2, r2)"
          by (metis surj_pair)
        show ?thesis
        proof (cases r2)
          case (Inl e)
          with run r2 rd[OF r2 c1] c1 show ?thesis by auto
        next
          case (Inr bs2)
          with rd[OF r2 c1] have c2: "content w2 = content w" "bs2 = take n (drop ?off b)"
            by auto
          show ?thesis
          proof (cases "f bs2 st")
            case (Inl e)
            with run r2 Inr c2 show ?thesis by auto
          next
            case st1: (Inr st1)
            with run r2 Inr have "scan_loop os fh (length b) st1 w2 = (w', r)" by simp
            from IH[OF this c2(1) adv[OF st1]] True st1 c2 show ?thesis by simp
          qed
        qed
      qed
      have frame: "scan_frame bs st = Inr st1 \<Longrightarrow> ?off < sc_offset st1" for bs st1
        by (simp add: scan_frame_offset)
      have commit: "scan_commit bs st = Inr st1 \<Longrightarrow> ?off < sc_offset st1" for bs st1
        by (simp add: scan_commit_offset)
      show ?thesis
      proof (cases "load_le 4 b ?off = WAL_PAGE_FRAME_RECORD_TYPE")
        case t1: True
        show ?thesis
          using less.prems(1) True ty t1 c1
            step[where f = scan_frame and n = WAL_PAGE_FRAME_RECORD_SIZE, OF _ frame]
            IH[of "st\<lparr>sc_offset := ?off + WAL_PAGE_FRAME_RECORD_SIZE\<rparr>" w1]
          by (auto simp: unfold split: if_splits)
      next
        case t1: False
        show ?thesis
          using less.prems(1) True ty t1 c1
            step[where f = scan_commit and n = WAL_COMMIT_RECORD_SIZE, OF _ commit]
          by (auto simp: unfold split: if_splits)
      qed
    qed
  qed
qed

lemma closing_content:
  assumes "closing os fh m w = (w', r)"
  shows "\<exists>w1. m w = (w1, r) \<and> content w' = content w1"
proof -
  obtain w1 r1 where m: "m w = (w1, r1)" by (metis surj_pair)
  obtain fh' w2 r2 where "fh_close os fh w1 = ((fh', w2), r2)" by (metis surj_pair)
  with assms m close_content[OF this] show ?thesis
    by (auto simp: closing_def)
qed

text \<open>
  The scan changes no file, and a result it returns is the result of the scan of the
  content of the file.
\<close>

lemma wal_scan_refines:
  assumes "wal_scan os p dbid w = (w', r)"
  shows "content w' = content w \<and>
    (\<forall>b res. content w p = Some b \<longrightarrow> r = Inr res \<longrightarrow> scan_content b dbid = Inr res)"
proof -
  obtain w1 r1 where open1: "fh_open_existing os p w = (w1, r1)" by (metis surj_pair)
  note o = open_content[OF open1]
  show ?thesis
  proof (cases r1)
    case (Inl e)
    with assms open1 o show ?thesis by (auto simp: wal_scan_def bind_action_def)
  next
    case (Inr fh)
    let ?body = "bind_action (fh_size os fh) (\<lambda>file_size.
     ensure_action (WAL_HEADER_SIZE \<le> file_size) Corruption (
     bind_action (read_at os fh 0 WAL_HEADER_SIZE) (\<lambda>wal_header_bytes.
     bind_action (lift_result (wal_header_decode wal_header_bytes)) (\<lambda>wal_header.
     ensure_action (wh_database_id wal_header = dbid) Corruption (
     bind_action (scan_loop os fh file_size scan_init) (\<lambda>st.
       return_action (scan_finish file_size st)))))))"
    have fh: "fh_path fh = p" "content w1 = content w"
      using o Inr by auto
    obtain b where b: "content w p = Some b"
      using o Inr by auto
    have "closing os fh ?body w1 = (w', r)"
      using assms open1 Inr by (simp add: wal_scan_def bind_action_def)
    from closing_content[OF this] obtain w2 where body: "?body w1 = (w2, r)"
      and w2: "content w' = content w2" by blast
    have b1: "content v (fh_path fh) = Some b" if "content v = content w" for v
      using that fh b by simp
    have size: "content v' = content w \<and> (\<forall>n. x = Inr n \<longrightarrow> n = length b)"
      if "fh_size os fh v = (v', x)" "content v = content w" for v v' x
      using size_frame'[OF that(1)] size_at_value[of fh v v' _ b] that b1[OF that(2)] by auto
    have read: "content v' = content w \<and> (\<forall>bs. x = Inr bs \<longrightarrow> bs = take n b)"
      if "read_at os fh 0 n v = (v', x)" "content v = content w" for n v v' x
      using read_at_frame[OF that(1)] read_at_value[of fh 0 n v v' _ b] that b1[OF that(2)] by auto
    have loop: "content v' = content w \<and> (\<forall>s. x = Inr s \<longrightarrow> scan_records b st = Inr s)"
      if "scan_loop os fh (length b) st v = (v', x)" "content v = content w" for st v v' x
      using scan_loop_refines[OF that(1) b1[OF that(2)]] that(2) by simp
    show ?thesis
    proof (cases "fh_size os fh w1")
      case (Pair v1 x1)
      note s1 = size[OF Pair fh(2)]
      show ?thesis
      proof (cases x1)
        case (Inl e)
        with body Pair s1 w2 show ?thesis by (auto simp: bind_action_def)
      next
        case x1: (Inr n)
        obtain v2 x2 where rd: "read_at os fh 0 WAL_HEADER_SIZE v1 = (v2, x2)" by (metis surj_pair)
        obtain v3 x3 where lp: "scan_loop os fh (length b) scan_init v2 = (v3, x3)"
          by (metis surj_pair)
        have n: "n = length b" "content v1 = content w"
          using s1 x1 by auto
        note r2 = read[OF rd n(2)]
        note l3 = loop[OF lp conjunct1[OF r2]]
        show ?thesis
          using body Pair x1 rd lp r2 l3 n w2 b
          by (auto simp: bind_action_def ensure_action_apply scan_content_def lift_result_def
              split: if_splits sum.splits)
      qed
    qed
  qed
qed

end


section \<open>Soundness of a scan of arbitrary bytes\<close>

text \<open>
  A frame recorded by the scan lies before the end of the valid log (before the current
  offset while it is pending) and decodes to a frame of the page it is recorded for.
\<close>

definition frame_at :: "bytes \<Rightarrow> nat \<Rightarrow> wal_page_frame \<Rightarrow> bool" where
  "frame_at content off f \<longleftrightarrow>
     wal_page_frame_decode (take WAL_PAGE_FRAME_RECORD_SIZE (drop off content)) = Inr f"

definition scan_inv :: "bytes \<Rightarrow> scan_state \<Rightarrow> bool" where
  "scan_inv content st \<longleftrightarrow>
     sc_offset st \<le> length content \<and> sc_valid_end st \<le> sc_offset st \<and>
     distinct (map fst (sc_latest st)) \<and>
     (\<forall>(p, off) \<in> set (sc_latest st). off + WAL_PAGE_FRAME_RECORD_SIZE \<le> sc_valid_end st \<and>
        (\<exists>f. frame_at content off f \<and> wf_page_id f = p)) \<and>
     (\<forall>pf \<in> set (sc_pending_frames st).
        pf_offset pf + WAL_PAGE_FRAME_RECORD_SIZE \<le> sc_offset st \<and>
        (\<exists>f. frame_at content (pf_offset pf) f \<and> wf_page_id f = pf_page_id pf))"

lemma set_alist_update: "set (AList.update k v m) \<subseteq> insert (k, v) (set m)"
  by (induction m) auto

lemma set_publish_frames:
  "set (publish_frames frames latest) \<subseteq>
     set latest \<union> (\<lambda>f. (pf_page_id f, pf_offset f)) ` set frames"
  unfolding publish_frames_def
proof (induction frames arbitrary: latest)
  case (Cons f frames)
  from Cons.IH[of "AList.update (pf_page_id f) (pf_offset f) latest"]
  show ?case using set_alist_update[of "pf_page_id f" "pf_offset f" latest] by auto
qed simp

lemma distinct_publish_frames:
  "distinct (map fst latest) \<Longrightarrow> distinct (map fst (publish_frames frames latest))"
  unfolding publish_frames_def
  by (induction frames arbitrary: latest) (simp_all add: distinct_update)

lemma scan_step_cases:
  assumes "scan_step content st = Inr (Some st')"
  obtains (skip) "load_le 4 content (sc_offset st) = WAL_PAGE_FRAME_RECORD_TYPE"
      "sc_is_damaged_tail st"
      "st' = st\<lparr>sc_offset := sc_offset st + WAL_PAGE_FRAME_RECORD_SIZE\<rparr>"
      "sc_offset st + WAL_PAGE_FRAME_RECORD_SIZE \<le> length content"
  | (frame) "load_le 4 content (sc_offset st) = WAL_PAGE_FRAME_RECORD_TYPE"
      "\<not> sc_is_damaged_tail st"
      "sc_offset st + WAL_PAGE_FRAME_RECORD_SIZE \<le> length content"
      "scan_frame (take WAL_PAGE_FRAME_RECORD_SIZE (drop (sc_offset st) content)) st = Inr st'"
  | (commit) "load_le 4 content (sc_offset st) \<noteq> WAL_PAGE_FRAME_RECORD_TYPE"
      "load_le 4 content (sc_offset st) = WAL_COMMIT_RECORD_TYPE"
      "sc_offset st + WAL_COMMIT_RECORD_SIZE \<le> length content"
      "scan_commit (take WAL_COMMIT_RECORD_SIZE (drop (sc_offset st) content)) st = Inr st'"
proof -
  have some: "map_sum id Some r = Inr (Some y) \<Longrightarrow> r = Inr y" for r :: "scan_state result" and y
    by (cases r) auto
  show thesis
    using assms
    by (auto simp: scan_step_def Let_def split: if_splits intro: skip frame commit dest!: some)
qed

lemma scan_step_inv:
  assumes inv: "scan_inv content st" and step: "scan_step content st = Inr (Some st')"
  shows "scan_inv content st'"
  using step
proof (cases rule: scan_step_cases)
  case skip
  with inv show ?thesis by (auto simp: scan_inv_def)
next
  case frame
  with inv show ?thesis
    by (auto simp: scan_inv_def scan_frame_def scan_damage_def frame_at_def
        split: sum.splits if_splits) fastforce+
next
  case commit
  let ?bs = "take WAL_COMMIT_RECORD_SIZE (drop (sc_offset st) content)"
  show ?thesis
  proof (cases "sc_latest st' = sc_latest st \<and> sc_pending_frames st' \<in> {[], sc_pending_frames st}")
    case True
    with commit inv show ?thesis
      by (auto simp: scan_inv_def scan_commit_def scan_damage_def Let_def
          split: sum.splits if_splits) fastforce+
  next
    case False
    then have st': "st' = st\<lparr>
        sc_latest := publish_frames (sc_pending_frames st) (sc_latest st),
        sc_pending_frames := [], sc_has_pending_transaction := False,
        sc_pending_transaction_id := 0,
        sc_offset := sc_offset st + WAL_COMMIT_RECORD_SIZE,
        sc_valid_end := sc_offset st + WAL_COMMIT_RECORD_SIZE\<rparr>"
      using commit(4)
      by (auto simp: scan_commit_def scan_damage_def Let_def split: sum.splits if_splits)
    have "\<forall>(p, off) \<in> set (publish_frames (sc_pending_frames st) (sc_latest st)).
        off + WAL_PAGE_FRAME_RECORD_SIZE \<le> sc_offset st \<and>
        (\<exists>f. frame_at content off f \<and> wf_page_id f = p)"
      using inv set_publish_frames[of "sc_pending_frames st" "sc_latest st"]
      by (fastforce simp: scan_inv_def)
    with inv commit(3) show ?thesis
      by (fastforce simp: scan_inv_def st' distinct_publish_frames)
  qed
qed

lemma scan_init_inv: "WAL_HEADER_SIZE \<le> length content \<Longrightarrow> scan_inv content scan_init"
  by (simp add: scan_inv_def scan_init_def)

lemma scan_content_sound:
  assumes "scan_content content dbid = Inr res"
  shows "valid_wal_end_offset res \<le> length content" and "WAL_HEADER_SIZE \<le> length content"
    and "distinct (map fst (latest_committed_frame_offsets res))"
    and "(p, off) \<in> set (latest_committed_frame_offsets res) \<Longrightarrow>
      off + WAL_PAGE_FRAME_RECORD_SIZE \<le> valid_wal_end_offset res \<and>
      (\<exists>f. frame_at content off f \<and> wf_page_id f = p)"
proof -
  from assms obtain st where st: "scan_records content scan_init = Inr st"
    "res = scan_finish (length content) st" and len: "WAL_HEADER_SIZE \<le> length content"
    by (auto simp: scan_content_def ensure_Inr_iff bind_result_Inr_iff)
  have "scan_inv content st"
    using scan_records_invariant[OF st(1), of "scan_inv content"] scan_init_inv[OF len] scan_step_inv
    by blast
  then show "valid_wal_end_offset res \<le> length content"
    "distinct (map fst (latest_committed_frame_offsets res))"
    "(p, off) \<in> set (latest_committed_frame_offsets res) \<Longrightarrow>
      off + WAL_PAGE_FRAME_RECORD_SIZE \<le> valid_wal_end_offset res \<and>
      (\<exists>f. frame_at content off f \<and> wf_page_id f = p)"
    by (auto simp: st scan_finish_def scan_inv_def)
  show "WAL_HEADER_SIZE \<le> length content" by (rule len)
qed

end
