(* ===== verification/WalLog.thy ===== *)
theory WalLog
  imports WalScanner
begin

text \<open>
  The abstract view of the write-ahead log: a list of transactions, each a transaction id
  and the pages it wrote, and \<open>log_bytes\<close>, the file content that \<open>WalManager\<close> builds by
  appending them. The lemmas relate it to the scanner: the scan of such a content, cut at
  any point inside one more transaction, finds exactly the last committed version of every
  page; and cutting any log at the end of its valid part does not change what the scan finds.
\<close>

section \<open>The encoding of a log\<close>

type_synonym wal_txn = "u64 \<times> page list"

definition frame_of :: "u64 \<Rightarrow> page \<Rightarrow> wal_page_frame" where
  "frame_of tid p =
     \<lparr>wf_transaction_id = tid, wf_page_id = pg_id p, wf_page_image = pg_data p\<rparr>"

definition txn_frames :: "u64 \<Rightarrow> page list \<Rightarrow> bytes" where
  "txn_frames tid pages = concat (map (\<lambda>p. wal_page_frame_bytes (frame_of tid p)) pages)"

definition txn_commit :: "u64 \<Rightarrow> nat \<Rightarrow> bytes" where
  "txn_commit tid n =
     wal_commit_bytes \<lparr>wc_transaction_id = tid, wc_frame_count = of_nat n\<rparr>"

fun txn_bytes :: "wal_txn \<Rightarrow> bytes" where
  "txn_bytes (tid, pages) = txn_frames tid pages @ txn_commit tid (length pages)"

definition log_bytes :: "u64 \<Rightarrow> wal_txn list \<Rightarrow> bytes" where
  "log_bytes dbid txns = wal_header_bytes \<lparr>wh_database_id = dbid\<rparr> @ concat (map txn_bytes txns)"

text \<open>The pages of a transaction are valid, and their number fits the 64-bit frame count.\<close>

fun txn_ok :: "wal_txn \<Rightarrow> bool" where
  "txn_ok (tid, pages) \<longleftrightarrow> (\<forall>p \<in> set pages. page_wf p) \<and> length pages < 2 ^ 64"

text \<open>The last committed version of every page.\<close>

definition write_pages :: "page list \<Rightarrow> (page_id \<rightharpoonup> page) \<Rightarrow> (page_id \<rightharpoonup> page)" where
  "write_pages pages m = fold (\<lambda>p m. m(pg_id p \<mapsto> p)) pages m"

definition log_pages :: "wal_txn list \<Rightarrow> (page_id \<rightharpoonup> page)" where
  "log_pages txns = fold (\<lambda>t. write_pages (snd t)) txns Map.empty"

lemma frame_of_valid [simp]: "wal_page_frame_valid (frame_of tid p) \<longleftrightarrow> page_wf p"
  by (simp add: wal_page_frame_valid_def frame_of_def page_wf_def)

lemma frame_of_simps [simp]:
  "wf_transaction_id (frame_of tid p) = tid"
  "wf_page_id (frame_of tid p) = pg_id p"
  "wf_page_image (frame_of tid p) = pg_data p"
  by (simp_all add: frame_of_def)

lemma txn_frames_simps [simp]:
  "txn_frames tid [] = []"
  "txn_frames tid (p # ps) = wal_page_frame_bytes (frame_of tid p) @ txn_frames tid ps"
  by (simp_all add: txn_frames_def)

lemma length_txn_commit [simp]: "length (txn_commit tid n) = WAL_COMMIT_RECORD_SIZE"
  by (simp add: txn_commit_def)


lemma write_pages_simps [simp]:
  "write_pages [] m = m"
  "write_pages (p # ps) m = write_pages ps (m(pg_id p \<mapsto> p))"
  by (simp_all add: write_pages_def)

section \<open>Scanning one encoded record\<close>

lemma record_type_prefix:
  assumes "take 4 (drop off content) = take 4 bs" "4 \<le> length bs"
  shows "load_le 4 content off = (load_le 4 bs 0 :: u32)"
proof (rule load_le_cong)
  fix i :: nat assume i: "i < 4"
  have "length (take 4 (drop off content)) = 4"
    using assms by simp
  then have "content ! (off + i) = take 4 (drop off content) ! i"
    using i by simp
  also have "\<dots> = bs ! (0 + i)"
    using i assms by simp
  finally show "content ! (off + i) = bs ! (0 + i)" .
qed

lemma frame_type:
  "wal_page_frame_valid f \<Longrightarrow> load_le 4 (wal_page_frame_bytes f) 0 = WAL_PAGE_FRAME_RECORD_TYPE"
  using wal_page_frame_roundtrip[of f] by (simp add: wal_page_frame_decode_iff
      WAL_PAGE_FRAME_RECORD_TYPE_def)

lemma commit_type: "load_le 4 (wal_commit_bytes c) 0 = WAL_COMMIT_RECORD_TYPE"
  using wal_commit_roundtrip[of c] by (simp add: wal_commit_decode_iff WAL_COMMIT_RECORD_TYPE_def)

lemma type_distinct [simp]:
  "WAL_PAGE_FRAME_RECORD_TYPE \<noteq> WAL_COMMIT_RECORD_TYPE"
  "WAL_COMMIT_RECORD_TYPE \<noteq> WAL_PAGE_FRAME_RECORD_TYPE"
  by (simp_all add: WAL_PAGE_FRAME_RECORD_TYPE_def WAL_COMMIT_RECORD_TYPE_def)

lemma sizes_ge_4 [simp]: "4 \<le> WAL_PAGE_FRAME_RECORD_SIZE" "4 \<le> WAL_COMMIT_RECORD_SIZE"
  by (simp_all add: WAL_PAGE_FRAME_RECORD_SIZE_def WAL_COMMIT_RECORD_SIZE_def)

definition add_pending :: "u64 \<Rightarrow> page_id \<Rightarrow> scan_state \<Rightarrow> scan_state" where
  "add_pending tid p st = st\<lparr>sc_pending_transaction_id := tid,
     sc_has_pending_transaction := True,
     sc_pending_frames := sc_pending_frames st @ [\<lparr>pf_offset = sc_offset st, pf_page_id = p\<rparr>],
     sc_offset := sc_offset st + WAL_PAGE_FRAME_RECORD_SIZE\<rparr>"

lemma scan_step_encoded_frame:
  assumes "drop (sc_offset st) content = wal_page_frame_bytes (frame_of tid p) @ rest"
    and "page_wf p" "\<not> sc_is_damaged_tail st"
    and "sc_has_pending_transaction st \<longrightarrow> sc_pending_transaction_id st = tid"
  shows "scan_step content st = Inr (Some (add_pending tid (pg_id p) st))"
proof -
  have len: "length content - sc_offset st = FRAME_SIZE + length rest"
    using arg_cong[OF assms(1), of length] assms(2) by simp
  have ty: "load_le 4 content (sc_offset st) = WAL_PAGE_FRAME_RECORD_TYPE"
    using record_type_prefix[of "sc_offset st" content "wal_page_frame_bytes (frame_of tid p)"]
      assms(1,2) by (simp add: frame_type)
  have "\<not> length content \<le> sc_offset st"
    using len by (metis add_gr_0 diff_is_0_eq' less_numeral_extra(3) record_sizes_pos(1))
  moreover have "\<not> FRAME_SIZE + length rest < 4"
    using sizes_ge_4(1) by linarith
  ultimately show ?thesis
    using assms len ty
    by (simp add: scan_step_def Let_def scan_frame_def wal_page_frame_roundtrip add_pending_def)
qed

lemma scan_step_encoded_commit:
  assumes "drop (sc_offset st) content = wal_commit_bytes c @ rest"
    and "\<not> sc_is_damaged_tail st"
  shows "scan_step content st = map_sum id Some (scan_commit (wal_commit_bytes c) st)"
proof -
  have len: "length content - sc_offset st = WAL_COMMIT_RECORD_SIZE + length rest"
    using arg_cong[OF assms(1), of length] by simp
  have ty: "load_le 4 content (sc_offset st) = WAL_COMMIT_RECORD_TYPE"
    using record_type_prefix[of "sc_offset st" content "wal_commit_bytes c"] assms(1)
    by (simp add: commit_type)
  have "\<not> length content \<le> sc_offset st"
    using len by (metis add_gr_0 diff_is_0_eq' less_numeral_extra(3) record_sizes_pos(2))
  moreover have "\<not> WAL_COMMIT_RECORD_SIZE + length rest < 4"
    using sizes_ge_4(2) by linarith
  ultimately show ?thesis
    using assms len ty by (simp add: scan_step_def Let_def)
qed

text \<open>A record cut short ends the scan.\<close>

lemma scan_step_cut:
  assumes "drop (sc_offset st) content = take k bs" "k < n"
    and "length bs = n" "4 \<le> n"
    and "load_le 4 bs 0 = WAL_PAGE_FRAME_RECORD_TYPE \<and> n = WAL_PAGE_FRAME_RECORD_SIZE \<or>
         load_le 4 bs 0 = WAL_COMMIT_RECORD_TYPE \<and> n = WAL_COMMIT_RECORD_SIZE"
  shows "scan_step content st = Inr None"
proof (cases "length content \<le> sc_offset st \<or> length content - sc_offset st < 4")
  case True
  then show ?thesis by (simp add: scan_step_def Let_def)
next
  case False
  have k: "length content - sc_offset st = k"
    using arg_cong[OF assms(1), of length] assms(2,3) by simp
  have "load_le 4 content (sc_offset st) = (load_le 4 bs 0 :: u32)"
    using assms(1,3,4) False k by (intro record_type_prefix) (simp_all add: min_def)
  with False k assms show ?thesis
    by (auto simp: scan_step_def Let_def)
qed


section \<open>Scanning an encoded transaction\<close>

definition scan_clean :: "scan_state \<Rightarrow> bool" where
  "scan_clean st \<longleftrightarrow> \<not> sc_is_damaged_tail st \<and> \<not> sc_has_pending_transaction st \<and>
     sc_pending_frames st = []"

text \<open>The offsets found by a scan represent a map from page ids to pages.\<close>

definition represents :: "bytes \<Rightarrow> (page_id \<times> nat) list \<Rightarrow> (page_id \<rightharpoonup> page) \<Rightarrow> bool" where
  "represents content latest m \<longleftrightarrow>
     (\<forall>p. (m p = None \<longleftrightarrow> map_of latest p = None) \<and>
       (\<forall>pg. m p = Some pg \<longrightarrow>
         (\<exists>off tid. map_of latest p = Some off \<and> frame_at content off (frame_of tid pg))))"

lemma represents_update:
  assumes "represents content latest m" "frame_at content off (frame_of tid pg)"
  shows "represents content (AList.update (pg_id pg) off latest) (m(pg_id pg \<mapsto> pg))"
  using assms by (auto simp: represents_def update_conv)

lemma publish_represents:
  assumes "list_all2 (\<lambda>f pg. frame_at content (pf_offset f) (frame_of tid pg) \<and>
      pf_page_id f = pg_id pg) frames pages"
    and "represents content latest m"
  shows "represents content (publish_frames frames latest) (write_pages pages m)"
  using assms
proof (induction frames pages arbitrary: latest m rule: list_all2_induct)
  case Nil
  then show ?case by (simp add: publish_frames_def)
next
  case (Cons f frames pg pages)
  then have "represents content (AList.update (pg_id pg) (pf_offset f) latest) (m(pg_id pg \<mapsto> pg))"
    by (intro represents_update) auto
  from Cons.IH[OF this] Cons.hyps show ?case
    by (simp add: publish_frames_def del: fun_upd_apply)
qed

text \<open>
  Frames of a transaction are collected one after the other: the pending list grows by an
  entry per page, at the offset of its frame.
\<close>

lemma scan_txn_frames:
  assumes "drop (sc_offset st) content = txn_frames tid pages @ rest"
    and "\<forall>p \<in> set pages. page_wf p" "\<not> sc_is_damaged_tail st"
    and "sc_has_pending_transaction st \<longrightarrow> sc_pending_transaction_id st = tid"
  shows "\<exists>st' fs. scan_records content st = scan_records content st' \<and>
    drop (sc_offset st') content = rest \<and> \<not> sc_is_damaged_tail st' \<and>
    sc_offset st' = sc_offset st + length (txn_frames tid pages) \<and>
    (sc_has_pending_transaction st' \<longleftrightarrow> sc_has_pending_transaction st \<or> pages \<noteq> []) \<and>
    (sc_has_pending_transaction st' \<longrightarrow> sc_pending_transaction_id st' = tid) \<and>
    sc_latest st' = sc_latest st \<and> sc_valid_end st' = sc_valid_end st \<and>
    sc_pending_frames st' = sc_pending_frames st @ fs \<and>
    list_all2 (\<lambda>f pg. frame_at content (pf_offset f) (frame_of tid pg) \<and>
      pf_page_id f = pg_id pg) fs pages"
  using assms
proof (induction pages arbitrary: st)
  case Nil
  then show ?case by (intro exI[of _ st] exI[of _ "[]"]) simp
next
  case (Cons p pages)
  let ?st1 = "add_pending tid (pg_id p) st"
  let ?frame = "wal_page_frame_bytes (frame_of tid p)"
  have drop: "drop (sc_offset st) content = ?frame @ txn_frames tid pages @ rest"
    using Cons.prems(1) by simp
  have wf: "page_wf p" and len: "length ?frame = FRAME_SIZE"
    using Cons.prems(2) by simp_all
  have step: "scan_step content st = Inr (Some ?st1)"
    using drop wf Cons.prems(3,4) by (rule scan_step_encoded_frame)
  have "drop (sc_offset st + FRAME_SIZE) content = drop FRAME_SIZE (drop (sc_offset st) content)"
    by (simp add: add.commute)
  also have "\<dots> = txn_frames tid pages @ rest"
    unfolding drop using len by simp
  finally have drop1: "drop (sc_offset ?st1) content = txn_frames tid pages @ rest"
    by (simp add: add_pending_def)
  have at: "frame_at content (sc_offset st) (frame_of tid p)"
    unfolding frame_at_def drop using len wf by (simp add: wal_page_frame_roundtrip)
  obtain st' fs where IH: "scan_records content ?st1 = scan_records content st'"
    "drop (sc_offset st') content = rest" "\<not> sc_is_damaged_tail st'"
    "sc_offset st' = sc_offset ?st1 + length (txn_frames tid pages)"
    "sc_has_pending_transaction st' \<longleftrightarrow> sc_has_pending_transaction ?st1 \<or> pages \<noteq> []"
    "sc_has_pending_transaction st' \<longrightarrow> sc_pending_transaction_id st' = tid"
    "sc_latest st' = sc_latest ?st1" "sc_valid_end st' = sc_valid_end ?st1"
    "sc_pending_frames st' = sc_pending_frames ?st1 @ fs"
    "list_all2 (\<lambda>f pg. frame_at content (pf_offset f) (frame_of tid pg) \<and>
      pf_page_id f = pg_id pg) fs pages"
    using Cons.IH[of ?st1] Cons.prems drop1 by (auto simp: add_pending_def)
  show ?case
    using IH step at len
    by (intro exI[of _ st'] exI[of _ "\<lparr>pf_offset = sc_offset st, pf_page_id = pg_id p\<rparr> # fs"])
      (simp add: scan_records_simps add_pending_def)
qed

lemma scan_txn:
  assumes "drop (sc_offset st) content = txn_bytes t @ rest" "txn_ok t" "scan_clean st"
    and "represents content (sc_latest st) m"
  shows "\<exists>st'. scan_records content st = scan_records content st' \<and> scan_clean st' \<and>
    drop (sc_offset st') content = rest \<and>
    sc_offset st' = sc_offset st + length (txn_bytes t) \<and> sc_valid_end st' = sc_offset st' \<and>
    represents content (sc_latest st') (write_pages (snd t) m)"
proof -
  obtain tid pages where t: "t = (tid, pages)" by (metis surj_pair)
  have wf: "\<forall>p \<in> set pages. page_wf p" and count: "length pages < 2 ^ 64"
    using assms(2) t by simp_all
  let ?c = "\<lparr>wc_transaction_id = tid, wc_frame_count = of_nat (length pages)\<rparr>"
  have d: "drop (sc_offset st) content = txn_frames tid pages @ wal_commit_bytes ?c @ rest"
    using assms(1) t by (simp add: txn_commit_def)
  have c: "\<not> sc_is_damaged_tail st"
    "sc_has_pending_transaction st \<longrightarrow> sc_pending_transaction_id st = tid"
    using assms(3) by (simp_all add: scan_clean_def)
  obtain st1 fs where st1: "scan_records content st = scan_records content st1"
    "drop (sc_offset st1) content = wal_commit_bytes ?c @ rest" "\<not> sc_is_damaged_tail st1"
    "sc_offset st1 = sc_offset st + length (txn_frames tid pages)"
    "sc_has_pending_transaction st1 \<longleftrightarrow> sc_has_pending_transaction st \<or> pages \<noteq> []"
    "sc_has_pending_transaction st1 \<longrightarrow> sc_pending_transaction_id st1 = tid"
    "sc_latest st1 = sc_latest st" "sc_valid_end st1 = sc_valid_end st"
    "sc_pending_frames st1 = sc_pending_frames st @ fs"
    "list_all2 (\<lambda>f pg. frame_at content (pf_offset f) (frame_of tid pg) \<and>
      pf_page_id f = pg_id pg) fs pages"
    using scan_txn_frames[OF d wf c] by blast
  have pend: "sc_pending_frames st1 = fs" "sc_has_pending_transaction st1 \<longleftrightarrow> pages \<noteq> []"
    using st1(5,9) assms(3) by (simp_all add: scan_clean_def)
  have len: "length fs = length pages"
    using st1(10) by (rule list_all2_lengthD)
  have unat: "unat (of_nat (length pages) :: u64) = length pages"
    using count by (simp add: unat_of_nat)
  have rep: "represents content (publish_frames fs (sc_latest st)) (write_pages pages m)"
    using st1(10) assms(4) by (rule publish_represents)
  have empty: "publish_frames [] (sc_latest st) = sc_latest st"
    by (simp add: publish_frames_def)
  obtain st2 where st2: "scan_commit (wal_commit_bytes ?c) st1 = Inr st2" "scan_clean st2"
    "sc_offset st2 = sc_offset st1 + WAL_COMMIT_RECORD_SIZE" "sc_valid_end st2 = sc_offset st2"
    "sc_latest st2 = publish_frames fs (sc_latest st)"
  proof (cases "pages = []")
    case True
    with that st1 pend len empty show ?thesis
      by (simp add: scan_commit_def wal_commit_roundtrip Let_def scan_clean_def)
  next
    case False
    with that st1 pend len unat show ?thesis
      by (auto simp: scan_commit_def wal_commit_roundtrip Let_def scan_clean_def)
  qed
  have "scan_step content st1 = Inr (Some st2)"
    using scan_step_encoded_commit[OF st1(2,3)] st2(1) by simp
  then have "scan_records content st = scan_records content st2"
    using st1(1) by (simp add: scan_records_simps)
  moreover have "drop (sc_offset st2) content = rest"
  proof -
    have "drop (sc_offset st2) content = drop WAL_COMMIT_RECORD_SIZE (drop (sc_offset st1) content)"
      by (simp add: st2(3) add.commute)
    then show ?thesis by (simp add: st1(2))
  qed
  ultimately show ?thesis
    using st1 st2 rep t by (intro exI[of _ st2]) (simp add: add.assoc)
qed

lemma scan_txns:
  assumes "drop (sc_offset st) content = concat (map txn_bytes txns) @ rest"
    and "\<forall>t \<in> set txns. txn_ok t" "scan_clean st" "sc_valid_end st = sc_offset st"
    and "represents content (sc_latest st) m"
  shows "\<exists>st'. scan_records content st = scan_records content st' \<and> scan_clean st' \<and>
    drop (sc_offset st') content = rest \<and>
    sc_offset st' = sc_offset st + length (concat (map txn_bytes txns)) \<and>
    sc_valid_end st' = sc_offset st' \<and>
    represents content (sc_latest st') (fold (\<lambda>t. write_pages (snd t)) txns m)"
  using assms
proof (induction txns arbitrary: st m)
  case Nil
  then show ?case by (intro exI[of _ st]) simp
next
  case (Cons t txns)
  have "drop (sc_offset st) content = txn_bytes t @ concat (map txn_bytes txns) @ rest"
    using Cons.prems(1) by simp
  from scan_txn[OF this _ Cons.prems(3,5)] Cons.prems(2)
  obtain st1 where st1: "scan_records content st = scan_records content st1" "scan_clean st1"
    "drop (sc_offset st1) content = concat (map txn_bytes txns) @ rest"
    "sc_offset st1 = sc_offset st + length (txn_bytes t)" "sc_valid_end st1 = sc_offset st1"
    "represents content (sc_latest st1) (write_pages (snd t) m)" by auto
  from Cons.IH[OF st1(3) _ st1(2,5,6)] Cons.prems(2) st1 show ?case
    by (auto simp: add.assoc)
qed

text \<open>
  A transaction cut anywhere before its end adds nothing: the scan stops at the cut with
  the offsets and the valid end it had.
\<close>

lemma scan_torn_txn:
  assumes "drop (sc_offset st) content = take k (txn_frames tid pages @ txn_commit tid n)"
    and "k < length (txn_frames tid pages @ txn_commit tid n)"
    and "\<forall>p \<in> set pages. page_wf p" "\<not> sc_is_damaged_tail st"
    and "sc_has_pending_transaction st \<longrightarrow> sc_pending_transaction_id st = tid"
  shows "\<exists>st'. scan_records content st = Inr st' \<and> sc_latest st' = sc_latest st \<and>
    sc_valid_end st' = sc_valid_end st"
  using assms
proof (induction pages arbitrary: st k)
  case Nil
  then have "scan_step content st = Inr None"
    by (intro scan_step_cut[of st content k "txn_commit tid n" WAL_COMMIT_RECORD_SIZE])
      (simp_all add: txn_commit_def commit_type)
  then show ?case by (simp add: scan_records_simps)
next
  case (Cons p pages)
  let ?frame = "wal_page_frame_bytes (frame_of tid p)"
  have wf: "page_wf p" and len: "length ?frame = FRAME_SIZE"
    using Cons.prems(3) by simp_all
  show ?case
  proof (cases "k < FRAME_SIZE")
    case True
    have "scan_step content st = Inr None"
      using Cons.prems(1) True len wf
      by (intro scan_step_cut[of st content k ?frame FRAME_SIZE]) (simp_all add: frame_type)
    then show ?thesis by (simp add: scan_records_simps)
  next
    case False
    let ?st1 = "add_pending tid (pg_id p) st"
    let ?rest = "take (k - FRAME_SIZE) (txn_frames tid pages @ txn_commit tid n)"
    have drop: "drop (sc_offset st) content = ?frame @ ?rest"
      using Cons.prems(1) False len by simp
    have step: "scan_step content st = Inr (Some ?st1)"
      using drop wf Cons.prems(4,5) by (rule scan_step_encoded_frame)
    have "drop (sc_offset st + FRAME_SIZE) content = drop FRAME_SIZE (drop (sc_offset st) content)"
      by (simp add: add.commute)
    also have "\<dots> = ?rest"
      unfolding drop using len by simp
    finally have "drop (sc_offset ?st1) content = ?rest"
      by (simp add: add_pending_def)
    from Cons.IH[OF this] Cons.prems False len step show ?thesis
      by (auto simp: scan_records_simps add_pending_def)
  qed
qed


section \<open>Scanning a whole log\<close>

lemma length_log_bytes:
  "length (log_bytes dbid txns) = WAL_HEADER_SIZE + length (concat (map txn_bytes txns))"
  by (simp add: log_bytes_def)

lemma log_bytes_snoc: "log_bytes dbid (txns @ [t]) = log_bytes dbid txns @ txn_bytes t"
  by (simp add: log_bytes_def)

lemma scan_log_prefix:
  assumes "\<forall>t \<in> set txns. txn_ok t"
    and "\<And>st. \<lbrakk>drop (sc_offset st) (log_bytes dbid txns @ tail) = tail; scan_clean st\<rbrakk> \<Longrightarrow>
      \<exists>st'. scan_records (log_bytes dbid txns @ tail) st = Inr st' \<and>
        sc_latest st' = sc_latest st \<and> sc_valid_end st' = sc_valid_end st"
  shows "\<exists>latest. scan_content (log_bytes dbid txns @ tail) dbid =
      Inr \<lparr>latest_committed_frame_offsets = latest,
           valid_wal_end_offset = length (log_bytes dbid txns),
           ignored_trailing_bytes = (tail \<noteq> [])\<rparr> \<and>
    represents (log_bytes dbid txns @ tail) latest (log_pages txns)"
proof -
  let ?c = "log_bytes dbid txns @ tail"
  let ?header = "wal_header_bytes \<lparr>wh_database_id = dbid\<rparr>"
  have drop: "drop (sc_offset scan_init) ?c = concat (map txn_bytes txns) @ tail"
    by (simp add: scan_init_def log_bytes_def)
  have init: "scan_clean scan_init" "sc_valid_end scan_init = sc_offset scan_init"
    "represents ?c (sc_latest scan_init) Map.empty"
    by (simp_all add: scan_init_def scan_clean_def represents_def)
  from scan_txns[OF drop assms(1) init] obtain st where
    st: "scan_records ?c scan_init = scan_records ?c st" "scan_clean st"
    "drop (sc_offset st) ?c = tail" "sc_valid_end st = sc_offset st"
    "sc_offset st = length (log_bytes dbid txns)"
    and rep: "represents ?c (sc_latest st) (log_pages txns)"
    by (auto simp: log_pages_def length_log_bytes scan_init_def)
  from assms(2)[OF st(3,2)] obtain st' where st': "scan_records ?c st = Inr st'"
    "sc_latest st' = sc_latest st" "sc_valid_end st' = sc_valid_end st" by blast
  have "take WAL_HEADER_SIZE ?c = ?header"
    by (simp add: log_bytes_def)
  moreover have "WAL_HEADER_SIZE \<le> length ?c"
    by (simp add: length_log_bytes)
  ultimately have "scan_content ?c dbid = Inr (scan_finish (length ?c) st')"
    using st(1) st'(1) by (simp add: scan_content_def wal_header_roundtrip)
  then show ?thesis
    using st st' rep by (intro exI[of _ "sc_latest st"]) (simp add: scan_finish_def)
qed

text \<open>The scan of a log followed by a cut transaction finds exactly the pages of the log.\<close>

lemma scan_log_torn:
  assumes "\<forall>t \<in> set txns. txn_ok t" "txn_ok t" "k < length (txn_bytes t)"
  shows "\<exists>latest. scan_content (log_bytes dbid txns @ take k (txn_bytes t)) dbid =
      Inr \<lparr>latest_committed_frame_offsets = latest,
           valid_wal_end_offset = length (log_bytes dbid txns),
           ignored_trailing_bytes = (k \<noteq> 0)\<rparr> \<and>
    represents (log_bytes dbid txns @ take k (txn_bytes t)) latest (log_pages txns)"
proof -
  obtain tid pages where t: "t = (tid, pages)" by (metis surj_pair)
  let ?tail = "take k (txn_bytes t)"
  have "\<exists>st'. scan_records (log_bytes dbid txns @ ?tail) st = Inr st' \<and>
        sc_latest st' = sc_latest st \<and> sc_valid_end st' = sc_valid_end st"
    if "drop (sc_offset st) (log_bytes dbid txns @ ?tail) = ?tail" "scan_clean st" for st
    using that assms(2,3) t
    by (intro scan_torn_txn[of st _ k tid pages "length pages"]) (auto simp: scan_clean_def)
  from scan_log_prefix[OF assms(1) this] have "\<exists>latest. scan_content (log_bytes dbid txns @ ?tail) dbid =
      Inr \<lparr>latest_committed_frame_offsets = latest,
           valid_wal_end_offset = length (log_bytes dbid txns),
           ignored_trailing_bytes = (?tail \<noteq> [])\<rparr> \<and>
    represents (log_bytes dbid txns @ ?tail) latest (log_pages txns)" .
  moreover have "?tail \<noteq> [] \<longleftrightarrow> k \<noteq> 0"
    using assms(3) by auto
  ultimately show ?thesis by simp
qed

lemma scan_step_at_end: "length content \<le> sc_offset st \<Longrightarrow> scan_step content st = Inr None"
  by (simp add: scan_step_def Let_def)

lemma scan_log:
  assumes "\<forall>t \<in> set txns. txn_ok t"
  shows "\<exists>latest. scan_content (log_bytes dbid txns) dbid =
      Inr \<lparr>latest_committed_frame_offsets = latest,
           valid_wal_end_offset = length (log_bytes dbid txns),
           ignored_trailing_bytes = False\<rparr> \<and>
    represents (log_bytes dbid txns) latest (log_pages txns)"
  using scan_log_torn[OF assms, of "(0, [])" 0 dbid] by (simp add: WAL_COMMIT_RECORD_SIZE_def)

section \<open>Cutting a log at the end of its valid part\<close>

text \<open>
  \<open>open_or_create\<close> truncates the file to \<open>valid_wal_end_offset\<close> when there are trailing
  bytes; the scan of the truncated file finds the same frames and no trailing bytes.
\<close>

lemma scan_step_take:
  assumes "scan_step content st = Inr (Some st')" "sc_offset st' \<le> n"
  shows "scan_step (take n content) st = Inr (Some st')"
proof -
  have len: "sc_offset st < sc_offset st'" "sc_offset st' \<le> length content"
    using scan_step_offset[OF assms(1)] by auto
  have read: "take m (drop (sc_offset st) (take n content)) = take m (drop (sc_offset st) content)"
    if "sc_offset st + m \<le> n" for m
    using that by (simp add: drop_take take_take min_def)
  have ty: "(load_le 4 (take n content) (sc_offset st) :: u32) = load_le 4 content (sc_offset st)"
    if "sc_offset st + 4 \<le> n"
    using that len by (cases "n \<le> length content") (simp_all add: load_le_take)
  show ?thesis
    using assms(1)
  proof (cases rule: scan_step_cases)
    case skip
    then have "sc_offset st + FRAME_SIZE \<le> n"
      using assms(2) by simp
    moreover from this have "sc_offset st + 4 \<le> n"
      using sizes_ge_4(1) by linarith
    moreover note skip
    ultimately show ?thesis
      using assms(1) ty len by (auto simp: scan_step_def Let_def min_def split: if_splits)
  next
    case frame
    then have n: "sc_offset st + FRAME_SIZE \<le> n" "sc_offset st + 4 \<le> n"
      using assms(2) scan_frame_offset[OF frame(4)] sizes_ge_4(1) by linarith+
    with frame assms(1) ty[OF n(2)] read[OF n(1)] len show ?thesis
      by (auto simp: scan_step_def Let_def min_def split: if_splits)
  next
    case commit
    then have n: "sc_offset st + WAL_COMMIT_RECORD_SIZE \<le> n" "sc_offset st + 4 \<le> n"
      using assms(2) scan_commit_offset[OF commit(4)] sizes_ge_4(2) by linarith+
    with commit assms(1) ty[OF n(2)] read[OF n(1)] len show ?thesis
      by (auto simp: scan_step_def Let_def min_def split: if_splits)
  qed
qed


lemma scan_step_valid_end:
  assumes "scan_step content st = Inr (Some st')"
  shows "sc_valid_end st' = sc_valid_end st \<and> sc_latest st' = sc_latest st \<or>
    sc_valid_end st' = sc_offset st'"
  using assms
  by (cases rule: scan_step_cases)
    (auto simp: scan_frame_def scan_commit_def scan_damage_def Let_def split: sum.splits if_splits)

lemma scan_records_take:
  assumes "scan_records content st = Inr st'" "sc_valid_end st \<le> sc_offset st"
  shows "sc_valid_end st' = sc_valid_end st \<and> sc_latest st' = sc_latest st \<or>
    sc_offset st \<le> sc_valid_end st' \<and>
    (\<exists>st''. scan_records (take (sc_valid_end st') content) st = Inr st'' \<and>
      sc_valid_end st'' = sc_valid_end st' \<and> sc_latest st'' = sc_latest st')"
  using assms
proof (induction "length content - sc_offset st" arbitrary: st rule: less_induct)
  case less
  let ?v = "sc_valid_end st'"
  show ?case
  proof (cases "\<exists>st1. scan_step content st = Inr (Some st1)")
    case False
    then have "st' = st"
      using less.prems(1) by (auto simp: scan_records.simps[of content st] split: sum.splits option.splits)
    then show ?thesis by simp
  next
    case True
    then obtain st1 where step: "scan_step content st = Inr (Some st1)" by blast
    note off = scan_step_offset[OF step]
    have run: "scan_records content st1 = Inr st'"
      using less.prems(1) step by (simp add: scan_records_simps)
    have "sc_valid_end st1 \<le> sc_offset st1"
      using scan_step_valid_end[OF step] less.prems(2) off by auto
    with run off less.hyps[of st1]
    consider (same) "?v = sc_valid_end st1" "sc_latest st' = sc_latest st1"
      | (more) st'' where "sc_offset st1 \<le> ?v" "scan_records (take ?v content) st1 = Inr st''"
        "sc_valid_end st'' = ?v" "sc_latest st'' = sc_latest st'"
      by (metis diff_less_mono2 order_less_le_trans)
    then show ?thesis
    proof cases
      case more
      have "scan_step (take ?v content) st = Inr (Some st1)"
        using step more(1) by (rule scan_step_take)
      then show ?thesis
        using more off by (auto simp: scan_records_simps)
    next
      case same
      show ?thesis
      proof (cases "sc_valid_end st1 = sc_offset st1")
        case True
        have "scan_step (take ?v content) st = Inr (Some st1)"
          using step same True by (intro scan_step_take) simp_all
        moreover have "scan_records (take ?v content) st1 = Inr st1"
          using same True by (simp add: scan_records_simps scan_step_at_end)
        ultimately show ?thesis
          using same True off by (auto simp: scan_records_simps)
      next
        case False
        with scan_step_valid_end[OF step] same show ?thesis by auto
      qed
    qed
  qed
qed

lemma scan_content_truncate:
  assumes "scan_content content dbid = Inr res"
  shows "scan_content (take (valid_wal_end_offset res) content) dbid =
    Inr (res\<lparr>ignored_trailing_bytes := False\<rparr>)"
proof -
  let ?v = "valid_wal_end_offset res"
  from assms obtain st where st: "scan_records content scan_init = Inr st"
    "res = scan_finish (length content) st"
    and header: "WAL_HEADER_SIZE \<le> length content"
      "wal_header_decode (take WAL_HEADER_SIZE content) = Inr \<lparr>wh_database_id = dbid\<rparr>"
    by (auto simp: scan_content_def ensure_Inr_iff bind_result_Inr_iff)
  have le: "?v \<le> length content"
    using scan_content_sound(1)[OF assms] .
  have v: "?v = sc_valid_end st"
    by (simp add: st(2) scan_finish_def)
  have init: "sc_valid_end scan_init = WAL_HEADER_SIZE" "sc_offset scan_init = WAL_HEADER_SIZE"
    by (simp_all add: scan_init_def)
  have "WAL_HEADER_SIZE \<le> ?v \<and> (\<exists>st''. scan_records (take ?v content) scan_init = Inr st'' \<and>
      sc_valid_end st'' = ?v \<and> sc_latest st'' = sc_latest st)"
    using scan_records_take[OF st(1)] v init le header(1)
    by (auto simp: scan_records_simps scan_step_at_end)
  then show ?thesis
    using header le v by (auto simp: scan_content_def min_def st(2) scan_finish_def)
qed

section \<open>Properties of the log\<close>



text \<open>
  A scan of a log of complete transactions finds the last committed version of every
  page and ignores nothing.
\<close>

theorem complete_log_found:
  assumes "\<forall>t \<in> set txns. txn_ok t"
  shows "\<exists>latest. scan_content (log_bytes dbid txns) dbid =
      Inr \<lparr>latest_committed_frame_offsets = latest,
           valid_wal_end_offset = length (log_bytes dbid txns),
           ignored_trailing_bytes = False\<rparr> \<and>
    represents (log_bytes dbid txns) latest (log_pages txns)"
  using assms by (rule scan_log)

theorem complete_log_found_witness:
  defines "txns \<equiv> [(1, [new_page_value 3]), (2, [new_page_value 3, new_page_value 4])]"
  shows "\<exists>latest. scan_content (log_bytes 7 txns) 7 =
      Inr \<lparr>latest_committed_frame_offsets = latest,
           valid_wal_end_offset = length (log_bytes 7 txns), ignored_trailing_bytes = False\<rparr> \<and>
    represents (log_bytes 7 txns) latest (log_pages txns)"
  by (rule complete_log_found) (simp add: txns_def)

text \<open>
  C36. On an arbitrary file, also one with damaged records, every frame a successful scan
  reports lies before the reported end of the log, decodes with its checksum at its offset,
  and is a frame of the page it is reported for; no page is reported twice.
\<close>

theorem scan_sound:
  assumes "scan_content content dbid = Inr res"
  shows "valid_wal_end_offset res \<le> length content \<and>
    distinct (map fst (latest_committed_frame_offsets res)) \<and>
    (\<forall>(p, off) \<in> set (latest_committed_frame_offsets res).
      off + WAL_PAGE_FRAME_RECORD_SIZE \<le> valid_wal_end_offset res \<and>
      (\<exists>f. frame_at content off f \<and> wf_page_id f = p))"
  using scan_content_sound[OF assms] by blast

theorem scan_sound_witness:
  "\<exists>res. scan_content (log_bytes 7 [(1, [new_page_value 3])]) 7 = Inr res \<and>
    (\<forall>(p, off) \<in> set (latest_committed_frame_offsets res).
      off + WAL_PAGE_FRAME_RECORD_SIZE \<le> valid_wal_end_offset res)"
proof -
  obtain latest where "scan_content (log_bytes 7 [(1, [new_page_value 3])]) 7 =
      Inr \<lparr>latest_committed_frame_offsets = latest,
        valid_wal_end_offset = length (log_bytes 7 [(1, [new_page_value 3])]),
        ignored_trailing_bytes = False\<rparr>"
    using scan_log[of "[(1, [new_page_value 3])]" 7] by auto
  from this scan_sound[OF this] show ?thesis
    by blast
qed

text \<open>
  Cutting a log at the end a scan has reported changes nothing of what a scan finds: the
  next scan reports the same frames and the same end, and no trailing bytes. Cutting the
  tail when the log is opened therefore loses no committed page.
\<close>

theorem truncation_keeps_scan:
  assumes "scan_content content dbid = Inr res"
  shows "scan_content (take (valid_wal_end_offset res) content) dbid =
    Inr (res\<lparr>ignored_trailing_bytes := False\<rparr>)"
  using assms by (rule scan_content_truncate)

theorem truncation_keeps_scan_witness:
  "\<exists>res. scan_content (log_bytes 7 [(1, [new_page_value 3])] @ take 10 (txn_bytes (2, []))) 7 =
      Inr res \<and>
    scan_content (take (valid_wal_end_offset res)
      (log_bytes 7 [(1, [new_page_value 3])] @ take 10 (txn_bytes (2, [])))) 7 =
    Inr (res\<lparr>ignored_trailing_bytes := False\<rparr>)"
proof -
  have "10 < length (txn_bytes (2, []))"
    by (simp add: WAL_COMMIT_RECORD_SIZE_def)
  then obtain latest where "scan_content (log_bytes 7 [(1, [new_page_value 3])] @
      take 10 (txn_bytes (2, []))) 7 = Inr \<lparr>latest_committed_frame_offsets = latest,
        valid_wal_end_offset = length (log_bytes 7 [(1, [new_page_value 3])]),
        ignored_trailing_bytes = True\<rparr>"
    using scan_log_torn[of "[(1, [new_page_value 3])]" "(2, [])" 10 7] by auto
  from this truncation_keeps_scan[OF this] show ?thesis
    by blast
qed



text \<open>
  Damage to a page frame is always noticed: if a byte string decodes as a frame, no
  string that differs from it in exactly one byte decodes.
\<close>

theorem frame_damage_detected:
  assumes "wal_page_frame_decode bs = Inr f" "i < WAL_PAGE_FRAME_RECORD_SIZE" "b \<noteq> bs ! i"
  shows "\<exists>e. wal_page_frame_decode (bs[i := b]) = Inl e"
  using assms
  by (intro frame_codec.single_byte_corruption) (simp_all add: WAL_PAGE_FRAME_RECORD_SIZE_def)

theorem frame_damage_detected_witness:
  defines "bs \<equiv> wal_page_frame_bytes (frame_of 1 (new_page_value 3))"
  shows "\<exists>e. wal_page_frame_decode (bs[40 := bs ! 40 + 1]) = Inl e"
proof (rule frame_damage_detected)
  show "wal_page_frame_decode bs = Inr (frame_of 1 (new_page_value 3))"
    by (simp add: bs_def wal_page_frame_roundtrip)
qed (simp_all add: WAL_PAGE_FRAME_RECORD_SIZE_def PAGE_SIZE_def)

text \<open>
  Encoding and decoding of page frames are inverse to each other in both directions: a
  valid frame encodes into any buffer of the record size and decodes to itself, and the bytes
  a frame was decoded from are the bytes it encodes to.
\<close>

theorem frame_codec_inverse:
  assumes "length out = WAL_PAGE_FRAME_RECORD_SIZE"
  shows "(wal_page_frame_valid f \<longrightarrow> (\<exists>bs. wal_page_frame_encode_into f out = Inr bs \<and>
      wal_page_frame_decode bs = Inr f)) \<and>
    (wal_page_frame_decode bytes = Inr f \<longrightarrow> wal_page_frame_encode_into f out = Inr bytes)"
  using frame_codec.encode_valid[OF _ assms] frame_codec.canonical[OF _ assms] by blast

theorem frame_codec_inverse_witness:
  "\<exists>bs. wal_page_frame_encode_into (frame_of 1 (new_page_value 3))
      (replicate WAL_PAGE_FRAME_RECORD_SIZE 0) = Inr bs \<and>
    wal_page_frame_decode bs = Inr (frame_of 1 (new_page_value 3))"
  using frame_codec_inverse[of "replicate WAL_PAGE_FRAME_RECORD_SIZE 0"
      "frame_of 1 (new_page_value 3)"] by simp

end
