(* ===== verification/WalManager.thy ===== *)
theory WalManager
  imports WalLog
begin

text \<open>
  \<^verbatim>\<open>WalManager.cpp\<close>: the object that appends transactions to the write-ahead log. Its
  operations are actions over the manager and the operating system state. The lemmas of
  the second part say what they do to the content of the log file, whatever call fails:
  a commit appends a prefix of the encoding of its transaction, all of it when it returns
  \<open>Ok\<close>; opening cuts a damaged or unfinished tail; a reset leaves the log as it was or
  empty, never torn.
\<close>

section \<open>The code\<close>

record 'w wal_manager =
  wm_file :: "'w file_handle"
  wm_append_offset :: nat
  wm_database_id :: u64

text \<open>A call of \<open>file_handle_\<close>, and the update of \<open>append_offset_\<close>.\<close>

definition on_wal_file :: "('w wal_manager \<Rightarrow> ('w, 'a) action) \<Rightarrow> ('w wal_manager \<times> 'w, 'a) action" where
  "on_wal_file f s = (case f (fst s) (snd s) of (w', r) \<Rightarrow> ((fst s, w'), r))"

definition set_append_offset :: "(nat \<Rightarrow> nat) \<Rightarrow> ('w wal_manager \<times> 'w, unit) action" where
  "set_append_offset f s =
     (((fst s)\<lparr>wm_append_offset := f (wm_append_offset (fst s))\<rparr>, snd s), Ok)"

definition append_page_frame :: "'w win32 \<Rightarrow> u64 \<Rightarrow> page \<Rightarrow> ('w wal_manager \<times> 'w, unit) action" where
  "append_page_frame os transaction_id page =
     ensure_action (page_id_is_valid (pg_id page)) InvalidArgument (
     bind_action (lift_result (wal_page_frame_encode_into (frame_of transaction_id page)
       (replicate WAL_PAGE_FRAME_RECORD_SIZE 0))) (\<lambda>wal_page_frame_bytes.
     bind_action (on_wal_file (\<lambda>m.
       write_at os (wm_file m) (wm_append_offset m) wal_page_frame_bytes)) (\<lambda>_.
     set_append_offset (\<lambda>offset. offset + WAL_PAGE_FRAME_RECORD_SIZE))))"

definition append_commit :: "'w win32 \<Rightarrow> u64 \<Rightarrow> u64 \<Rightarrow> ('w wal_manager \<times> 'w, unit) action" where
  "append_commit os transaction_id frame_count =
     bind_action (lift_result (wal_commit_encode_into
       \<lparr>wc_transaction_id = transaction_id, wc_frame_count = frame_count\<rparr>
       (replicate WAL_COMMIT_RECORD_SIZE 0))) (\<lambda>wal_commit_bytes.
     bind_action (on_wal_file (\<lambda>m.
       write_at os (wm_file m) (wm_append_offset m) wal_commit_bytes)) (\<lambda>_.
     set_append_offset (\<lambda>offset. offset + WAL_COMMIT_RECORD_SIZE)))"

definition wal_sync :: "'w win32 \<Rightarrow> ('w wal_manager \<times> 'w, unit) action" where
  "wal_sync os = on_wal_file (\<lambda>m. fh_sync os (wm_file m))"

definition wal_commit_transaction :: "'w win32 \<Rightarrow> u64 \<Rightarrow> page list \<Rightarrow>
    ('w wal_manager \<times> 'w, unit) action" where
  "wal_commit_transaction os transaction_id pages =
     bind_action (for_each pages (append_page_frame os transaction_id)) (\<lambda>_.
     bind_action (append_commit os transaction_id (of_nat (length pages))) (\<lambda>_.
     wal_sync os))"

text \<open>
  When the resize reports an error, the append offset is moved only if the file can be
  seen to have been truncated.
\<close>

definition wal_reset :: "'w win32 \<Rightarrow> ('w wal_manager \<times> 'w, unit) action" where
  "wal_reset os s =
     (case wal_header_encode_into \<lparr>wh_database_id = wm_database_id (fst s)\<rparr>
         (replicate WAL_HEADER_SIZE 0) of
        Inl e \<Rightarrow> (s, Inl e)
      | Inr header_bytes \<Rightarrow>
         (case on_wal_file (\<lambda>m. fh_resize os (wm_file m) WAL_HEADER_SIZE) s of
            (s1, Inl e) \<Rightarrow>
              (case on_wal_file (\<lambda>m. fh_size os (wm_file m)) s1 of
                 (s2, file_size_result) \<Rightarrow>
                   (if file_size_result = Inr WAL_HEADER_SIZE
                    then (fst (set_append_offset (\<lambda>_. WAL_HEADER_SIZE) s2), Inl e)
                    else (s2, Inl e)))
          | (s1, Inr _) \<Rightarrow>
              bind_action (set_append_offset (\<lambda>_. WAL_HEADER_SIZE)) (\<lambda>_.
              bind_action (on_wal_file (\<lambda>m. write_at os (wm_file m) 0 header_bytes)) (\<lambda>_.
              on_wal_file (\<lambda>m. fh_sync os (wm_file m)))) s1))"

definition wal_close :: "'w win32 \<Rightarrow> ('w wal_manager \<times> 'w, unit) action" where
  "wal_close os s =
     (case fh_close os (wm_file (fst s)) (snd s) of
        ((fh', w'), r) \<Rightarrow> (((fst s)\<lparr>wm_file := fh'\<rparr>, w'), r))"

definition wal_size :: "'w win32 \<Rightarrow> ('w wal_manager \<times> 'w, nat) action" where
  "wal_size os = on_wal_file (\<lambda>m. fh_size os (wm_file m))"

definition wal_set_fault_injector :: "'w injector option \<Rightarrow> 'w wal_manager \<Rightarrow> 'w wal_manager" where
  "wal_set_fault_injector i m = m\<lparr>wm_file := set_fault_injector i (wm_file m)\<rparr>"

text \<open>
  \<open>WalManager::open_or_create\<close>. The handle of a manager that is not returned is closed
  by its destructor, which ignores the outcome of \<open>CloseHandle\<close>.
\<close>

definition close_on_error :: "'w win32 \<Rightarrow> 'w file_handle \<Rightarrow> ('w, 'a) action \<Rightarrow> ('w, 'a) action" where
  "close_on_error os fh m w =
     (case m w of
        (w1, Inl e) \<Rightarrow> (snd (fst (fh_close os fh w1)), Inl e)
      | (w1, Inr x) \<Rightarrow> (w1, Inr x))"

text \<open>The last branch: scan the log and cut what follows its valid part.\<close>

definition wal_cut_tail :: "'w win32 \<Rightarrow> path \<Rightarrow> u64 \<Rightarrow> 'w file_handle \<Rightarrow> ('w, 'w wal_manager) action" where
  "wal_cut_tail os p expected_database_id file_handle =
     bind_action (wal_scan os p expected_database_id) (\<lambda>scan_result.
       let append_offset = valid_wal_end_offset scan_result;
           manager = \<lparr>wm_file = file_handle, wm_append_offset = append_offset,
             wm_database_id = expected_database_id\<rparr> in
       if ignored_trailing_bytes scan_result then
         bind_action (fh_resize os file_handle append_offset) (\<lambda>_.
         bind_action (fh_sync os file_handle) (\<lambda>_.
         return_action manager))
       else return_action manager)"

definition wal_open_file :: "'w win32 \<Rightarrow> path \<Rightarrow> u64 \<Rightarrow> 'w file_handle \<Rightarrow> ('w, 'w wal_manager) action" where
  "wal_open_file os p expected_database_id file_handle =
     bind_action (fh_size os file_handle) (\<lambda>file_size.
     if file_size = 0 then
       bind_action (lift_result (wal_header_encode_into \<lparr>wh_database_id = expected_database_id\<rparr>
         (replicate WAL_HEADER_SIZE 0))) (\<lambda>wal_header_bytes.
       bind_action (write_at os file_handle 0 wal_header_bytes) (\<lambda>_.
       return_action \<lparr>wm_file = file_handle, wm_append_offset = WAL_HEADER_SIZE,
         wm_database_id = expected_database_id\<rparr>))
     else if file_size < WAL_HEADER_SIZE then fail_action Corruption
     else
       bind_action (read_at os file_handle 0 WAL_HEADER_SIZE) (\<lambda>wal_header_bytes.
       bind_action (lift_result (wal_header_decode wal_header_bytes)) (\<lambda>wal_header.
       ensure_action (wh_database_id wal_header = expected_database_id) Corruption (
       wal_cut_tail os p expected_database_id file_handle))))"

definition wal_open_or_create :: "'w win32 \<Rightarrow> path \<Rightarrow> u64 \<Rightarrow> ('w, 'w wal_manager) action" where
  "wal_open_or_create os p expected_database_id =
     bind_action (fh_open_or_create os p) (\<lambda>file_handle.
     close_on_error os file_handle (wal_open_file os p expected_database_id file_handle))"


section \<open>What the operations do to the log file\<close>

context win32_files
begin

lemma append_effect:
  assumes run: "bind_action (on_wal_file (\<lambda>m. write_at os (wm_file m) (wm_append_offset m) bs))
      (\<lambda>_. set_append_offset (\<lambda>off. off + n)) (wm, w) = ((wm', w'), r)"
    and n: "n = length bs" and ok: "fh_ok content (wm_file wm)"
    and b: "content w (fh_path (wm_file wm)) = Some b" "wm_append_offset wm = length b"
  shows "\<exists>k \<le> length bs. content w' = (content w)(fh_path (wm_file wm) \<mapsto> b @ take k bs) \<and>
    (r = Ok \<longrightarrow> k = length bs \<and> wm' = wm\<lparr>wm_append_offset := length b + length bs\<rparr>) \<and>
    (r \<noteq> Ok \<longrightarrow> wm' = wm)"
proof -
  obtain w1 r1 where wr: "write_at os (wm_file wm) (length b) bs w = (w1, r1)"
    by (metis surj_pair)
  from write_at_effect[OF wr ok b(1)] obtain k where k: "k \<le> length bs"
    "content w1 = (content w)(fh_path (wm_file wm) \<mapsto> b @ take k bs)"
    "r1 = Inr () \<longrightarrow> k = length bs"
    by (auto simp: overwrite_at_end)
  then show ?thesis
    using run wr n b(2)
    by (intro exI[of _ k])
      (auto simp: bind_action_def on_wal_file_def set_append_offset_def split: sum.splits)
qed

lemma append_page_frame_effect:
  assumes "append_page_frame os tid p (wm, w) = ((wm', w'), r)" "page_wf p"
    and ok: "fh_ok content (wm_file wm)"
    and b: "content w (fh_path (wm_file wm)) = Some b" "wm_append_offset wm = length b"
  shows "\<exists>k \<le> FRAME_SIZE.
    content w' = (content w)(fh_path (wm_file wm) \<mapsto>
      b @ take k (wal_page_frame_bytes (frame_of tid p))) \<and>
    (r = Ok \<longrightarrow> k = FRAME_SIZE \<and> page_id_is_valid (pg_id p) \<and>
      wm' = wm\<lparr>wm_append_offset := length b + FRAME_SIZE\<rparr>) \<and>
    (r \<noteq> Ok \<longrightarrow> wm' = wm)"
proof (cases "page_id_is_valid (pg_id p)")
  case False
  with assms(1) b show ?thesis
    by (intro exI[of _ 0]) (auto simp: append_page_frame_def fun_upd_idem_iff)
next
  case True
  have "wal_page_frame_encode_into (frame_of tid p) (replicate FRAME_SIZE 0) =
      Inr (wal_page_frame_bytes (frame_of tid p))"
    using assms(2) by (simp add: WAL_PAGE_FRAME_RECORD_SIZE_def wal_page_frame_encode_eq)
  with assms(1) True
  have "bind_action (on_wal_file (\<lambda>m. write_at os (wm_file m) (wm_append_offset m)
      (wal_page_frame_bytes (frame_of tid p)))) (\<lambda>_. set_append_offset (\<lambda>off. off + FRAME_SIZE))
      (wm, w) = ((wm', w'), r)"
    by (simp add: append_page_frame_def)
  from append_effect[OF this _ ok b] True assms(2) show ?thesis
    by simp
qed

lemma append_frames_effect:
  assumes "for_each pages (append_page_frame os tid) (wm, w) = ((wm', w'), r)"
    and "\<forall>p \<in> set pages. page_wf p" "fh_ok content (wm_file wm)"
    and "content w (fh_path (wm_file wm)) = Some b" "wm_append_offset wm = length b"
  shows "\<exists>k \<le> length (txn_frames tid pages).
    content w' = (content w)(fh_path (wm_file wm) \<mapsto> b @ take k (txn_frames tid pages)) \<and>
    (r = Ok \<longrightarrow> k = length (txn_frames tid pages) \<and>
      (\<forall>p \<in> set pages. page_id_is_valid (pg_id p)) \<and>
      wm' = wm\<lparr>wm_append_offset := length b + length (txn_frames tid pages)\<rparr>) \<and>
    wm_file wm' = wm_file wm \<and> wm_database_id wm' = wm_database_id wm"
  using assms
proof (induction pages arbitrary: wm w b)
  case Nil
  then show ?case by (auto simp: fun_upd_idem_iff)
next
  case (Cons p ps)
  let ?p = "fh_path (wm_file wm)" and ?f = "wal_page_frame_bytes (frame_of tid p)"
  obtain wm1 w1 r1 where step: "append_page_frame os tid p (wm, w) = ((wm1, w1), r1)"
    by (metis surj_pair)
  from append_page_frame_effect[OF step _ Cons.prems(3-5)] Cons.prems(2)
  obtain k where k: "k \<le> FRAME_SIZE" "content w1 = (content w)(?p \<mapsto> b @ take k ?f)"
    "r1 = Ok \<longrightarrow> k = FRAME_SIZE \<and> page_id_is_valid (pg_id p) \<and>
      wm1 = wm\<lparr>wm_append_offset := length b + FRAME_SIZE\<rparr>" "r1 \<noteq> Ok \<longrightarrow> wm1 = wm"
    by auto
  have len: "length ?f = FRAME_SIZE"
    using Cons.prems(2) by simp
  show ?case
  proof (cases r1)
    case (Inl e)
    then have "(wm', w', r) = (wm1, w1, Inl e)"
      using Cons.prems(1) step by (simp add: bind_action_def)
    with k Inl len show ?thesis
      by (intro exI[of _ k]) auto
  next
    case (Inr u)
    then have rest: "for_each ps (append_page_frame os tid) (wm1, w1) = ((wm', w'), r)"
      using Cons.prems(1) step by (simp add: bind_action_def)
    have "content w1 (fh_path (wm_file wm1)) = Some (b @ ?f)"
      "wm_append_offset wm1 = length (b @ ?f)" "fh_ok content (wm_file wm1)"
      using Inr k len Cons.prems(3) by auto
    note IH = Cons.IH[OF rest _ this(3,1,2)]
    have "\<forall>p \<in> set ps. page_wf p"
      using Cons.prems(2) by simp
    from IH[OF this] obtain j where "j \<le> length (txn_frames tid ps)"
      "content w' = (content w1)(fh_path (wm_file wm1) \<mapsto> (b @ ?f) @ take j (txn_frames tid ps))"
      "r = Ok \<longrightarrow> j = length (txn_frames tid ps) \<and> (\<forall>p \<in> set ps. page_id_is_valid (pg_id p)) \<and>
        wm' = wm1\<lparr>wm_append_offset := length (b @ ?f) + length (txn_frames tid ps)\<rparr>"
      "wm_file wm' = wm_file wm1 \<and> wm_database_id wm' = wm_database_id wm1"
      by blast
    then show ?thesis
      using Inr k len by (intro exI[of _ "FRAME_SIZE + j"]) (auto simp: add.assoc)
  qed
qed

lemma append_commit_effect:
  assumes "append_commit os tid (of_nat n) (wm, w) = ((wm', w'), r)"
    and ok: "fh_ok content (wm_file wm)"
    and b: "content w (fh_path (wm_file wm)) = Some b" "wm_append_offset wm = length b"
  shows "\<exists>k \<le> WAL_COMMIT_RECORD_SIZE.
    content w' = (content w)(fh_path (wm_file wm) \<mapsto> b @ take k (txn_commit tid n)) \<and>
    (r = Ok \<longrightarrow> k = WAL_COMMIT_RECORD_SIZE \<and>
      wm' = wm\<lparr>wm_append_offset := length b + WAL_COMMIT_RECORD_SIZE\<rparr>) \<and>
    (r \<noteq> Ok \<longrightarrow> wm' = wm)"
proof -
  have "wal_commit_encode_into \<lparr>wc_transaction_id = tid, wc_frame_count = of_nat n\<rparr>
      (replicate WAL_COMMIT_RECORD_SIZE 0) = Inr (txn_commit tid n)"
    by (simp add: WAL_COMMIT_RECORD_SIZE_def wal_commit_encode_eq txn_commit_def)
  with assms(1)
  have "bind_action (on_wal_file (\<lambda>m. write_at os (wm_file m) (wm_append_offset m)
      (txn_commit tid n))) (\<lambda>_. set_append_offset (\<lambda>off. off + WAL_COMMIT_RECORD_SIZE))
      (wm, w) = ((wm', w'), r)"
    by (simp add: append_commit_def)
  from append_effect[OF this _ ok b] show ?thesis
    by simp
qed

text \<open>
  A commit appends a prefix of the encoding of the transaction, the whole of it when it
  returns \<open>Ok\<close>, and touches no other file.
\<close>

lemma wal_commit_effect:
  assumes run: "wal_commit_transaction os tid pages (wm, w) = ((wm', w'), r)"
    and wf: "\<forall>p \<in> set pages. page_wf p" and ok: "fh_ok content (wm_file wm)"
    and b: "content w (fh_path (wm_file wm)) = Some b" "wm_append_offset wm = length b"
  shows "\<exists>k \<le> length (txn_bytes (tid, pages)).
    content w' = (content w)(fh_path (wm_file wm) \<mapsto> b @ take k (txn_bytes (tid, pages))) \<and>
    (r = Ok \<longrightarrow> k = length (txn_bytes (tid, pages)) \<and>
      (\<forall>p \<in> set pages. page_id_is_valid (pg_id p)) \<and>
      wm' = wm\<lparr>wm_append_offset := length b + length (txn_bytes (tid, pages))\<rparr>) \<and>
    wm_file wm' = wm_file wm \<and> wm_database_id wm' = wm_database_id wm"
proof -
  let ?p = "fh_path (wm_file wm)" and ?fs = "txn_frames tid pages"
  let ?c = "txn_commit tid (length pages)"
  obtain wm1 w1 r1 where frames: "for_each pages (append_page_frame os tid) (wm, w) = ((wm1, w1), r1)"
    by (metis surj_pair)
  from append_frames_effect[OF frames wf ok b] obtain k where k: "k \<le> length ?fs"
    "content w1 = (content w)(?p \<mapsto> b @ take k ?fs)"
    "r1 = Ok \<longrightarrow> k = length ?fs \<and> (\<forall>p \<in> set pages. page_id_is_valid (pg_id p)) \<and>
      wm1 = wm\<lparr>wm_append_offset := length b + length ?fs\<rparr>"
    "wm_file wm1 = wm_file wm" "wm_database_id wm1 = wm_database_id wm" by blast
  show ?thesis
  proof (cases r1)
    case (Inl e)
    then have "(wm', w', r) = (wm1, w1, Inl e)"
      using run frames by (simp add: wal_commit_transaction_def bind_action_def)
    with k Inl show ?thesis by (intro exI[of _ k]) auto
  next
    case (Inr u)
    then have wm1: "wm1 = wm\<lparr>wm_append_offset := length (b @ ?fs)\<rparr>"
      "content w1 (fh_path (wm_file wm1)) = Some (b @ ?fs)"
      "\<forall>p \<in> set pages. page_id_is_valid (pg_id p)"
      using k by auto
    obtain wm2 w2 r2 where commit:
      "append_commit os tid (of_nat (length pages)) (wm1, w1) = ((wm2, w2), r2)"
      by (metis surj_pair)
    from append_commit_effect[OF commit] wm1 ok obtain j where j: "j \<le> WAL_COMMIT_RECORD_SIZE"
      "content w2 = (content w1)(?p \<mapsto> (b @ ?fs) @ take j ?c)"
      "r2 = Ok \<longrightarrow> j = WAL_COMMIT_RECORD_SIZE \<and>
        wm2 = wm1\<lparr>wm_append_offset := length (b @ ?fs) + WAL_COMMIT_RECORD_SIZE\<rparr>"
      "r2 \<noteq> Ok \<longrightarrow> wm2 = wm1" by auto
    have w2: "content w2 = (content w)(?p \<mapsto> b @ take (length ?fs + j) (txn_bytes (tid, pages)))"
      using j(2) k(2) by simp
    show ?thesis
    proof (cases r2)
      case (Inl e)
      then have "(wm', w', r) = (wm2, w2, Inl e)"
        using run frames Inr commit by (simp add: wal_commit_transaction_def bind_action_def)
      with j w2 Inl wm1(1) show ?thesis
        by (intro exI[of _ "length ?fs + j"]) auto
    next
      case r2: (Inr u2)
      obtain w3 r3 where sync: "fh_sync os (wm_file wm2) w2 = (w3, r3)"
        by (metis surj_pair)
      have "(wm', w', r) = (wm2, w3, r3)"
        using run frames Inr commit r2 sync
        by (simp add: wal_commit_transaction_def bind_action_def wal_sync_def on_wal_file_def)
      moreover have wm2: "wm2 = wm\<lparr>wm_append_offset := length b + length (txn_bytes (tid, pages))\<rparr>"
        using j(3) r2 wm1(1) by (simp add: add.assoc)
      moreover have "content w3 = content w2"
        using sync_frame[OF _ sync] ok wm2 by simp
      ultimately show ?thesis
        using j(1,3) w2 r2 wm1(3) by (intro exI[of _ "length (txn_bytes (tid, pages))"]) auto
    qed
  qed
qed


text \<open>
  A reset leaves the log file as it was or reduced to its header: the header it writes over
  itself is the one that is there, so that even a torn write changes nothing.
\<close>

lemma resize_without_hooks:
  "fh_resize os fh n w = (w', Inl e) \<Longrightarrow> fh_injector fh = None \<Longrightarrow> content w' = content w"
  by (auto simp: fh_resize_def ensure_action_apply bind_action_def win_call_def run_hook_def
      split: prod.splits sum.splits if_splits dest!: pointer_frame resize_err)

lemma overwrite_prefix_itself: "k \<le> length b \<Longrightarrow> overwrite b 0 (take k b) = b"
  by (simp add: overwrite_def)

lemma wal_reset_effect:
  assumes run: "wal_reset os (wm, w) = ((wm', w'), r)" and ok: "fh_ok content (wm_file wm)"
    and b: "content w (fh_path (wm_file wm)) = Some b"
    and header: "take WAL_HEADER_SIZE b = wal_header_bytes \<lparr>wh_database_id = wm_database_id wm\<rparr>"
  defines "cleared \<equiv> (content w)(fh_path (wm_file wm) \<mapsto> log_bytes (wm_database_id wm) [])"
  shows "content w' \<in> {content w, cleared}"
    and "r = Ok \<Longrightarrow> content w' = cleared \<and> wm_append_offset wm' = WAL_HEADER_SIZE"
    and "wm_file wm' = wm_file wm" and "wm_database_id wm' = wm_database_id wm"
    and "fh_injector (wm_file wm) = None \<Longrightarrow> wm_append_offset wm = length b \<Longrightarrow>
      content w' (fh_path (wm_file wm)) = Some b' \<Longrightarrow> wm_append_offset wm' = length b'"
proof -
  let ?p = "fh_path (wm_file wm)" and ?h = "wal_header_bytes \<lparr>wh_database_id = wm_database_id wm\<rparr>"
  have cleared: "cleared = (content w)(?p \<mapsto> ?h)"
    by (simp add: cleared_def log_bytes_def)
  have enc: "wal_header_encode_into \<lparr>wh_database_id = wm_database_id wm\<rparr>
      (replicate WAL_HEADER_SIZE 0) = Inr ?h"
    by (simp add: WAL_HEADER_SIZE_def wal_header_encode_eq)
  have len: "WAL_HEADER_SIZE \<le> length b"
    using arg_cong[OF header, of length] by simp
  obtain w1 r1 where resize: "fh_resize os (wm_file wm) WAL_HEADER_SIZE w = (w1, r1)"
    by (metis surj_pair)
  have w1: "content w1 = content w \<and> r1 \<noteq> Ok \<or> content w1 = cleared"
    using resize_effect[OF resize ok b] header len by (auto simp: cleared)
  have "content w' \<in> {content w, cleared} \<and>
    (r = Ok \<longrightarrow> content w' = cleared \<and> wm_append_offset wm' = WAL_HEADER_SIZE) \<and>
    wm_file wm' = wm_file wm \<and> wm_database_id wm' = wm_database_id wm \<and>
    (fh_injector (wm_file wm) = None \<longrightarrow> wm_append_offset wm = length b \<longrightarrow>
      (\<forall>b'. content w' ?p = Some b' \<longrightarrow> wm_append_offset wm' = length b'))"
  proof (cases r1)
    case (Inl e)
    obtain w2 r2 where size: "fh_size os (wm_file wm) w1 = (w2, r2)"
      by (metis surj_pair)
    have r: "r = Inl e" "w' = w2"
      "wm' = (if r2 = Inr WAL_HEADER_SIZE then wm\<lparr>wm_append_offset := WAL_HEADER_SIZE\<rparr> else wm)"
      using run enc resize size Inl
      by (auto simp: wal_reset_def on_wal_file_def set_append_offset_def split: if_splits)
    have w2: "content w2 = content w1"
      by (rule size_frame'[OF size])
    have "wm_append_offset wm' = length b"
      if "fh_injector (wm_file wm) = None" "wm_append_offset wm = length b"
    proof -
      have "content w1 = content w"
        using resize_without_hooks[of "wm_file wm" WAL_HEADER_SIZE w w1 e] resize Inl that(1) by simp
      then have "r2 = Inr WAL_HEADER_SIZE \<longrightarrow> length b = WAL_HEADER_SIZE"
        using size_at_value[of "wm_file wm" w1 w2 WAL_HEADER_SIZE b] size b by auto
      with r(3) that(2) show ?thesis by simp
    qed
    moreover have "content w1 = content w" if "fh_injector (wm_file wm) = None"
      using resize_without_hooks[of "wm_file wm" WAL_HEADER_SIZE w w1 e] resize Inl that by simp
    ultimately show ?thesis
      using r w1 w2 b by auto
  next
    case (Inr u)
    with w1 have c1: "content w1 = cleared" by auto
    let ?wm = "wm\<lparr>wm_append_offset := WAL_HEADER_SIZE\<rparr>"
    obtain w2 r2 where wr: "write_at os (wm_file wm) 0 ?h w1 = (w2, r2)"
      by (metis surj_pair)
    have "content w1 (fh_path (wm_file wm)) = Some ?h"
      by (simp add: c1 cleared)
    from write_at_effect[OF wr ok this] have c2: "content w2 = cleared"
      by (auto simp: overwrite_prefix_itself overwrite_all c1 cleared)
    obtain w3 r3 where sync: "fh_sync os (wm_file wm) w2 = (w3, r3)"
      by (metis surj_pair)
    have "wm' = ?wm" "w' = (if r2 = Ok then w3 else w2)"
      using run enc resize Inr wr sync
      by (auto simp: wal_reset_def on_wal_file_def set_append_offset_def bind_action_def
          split: sum.splits)
    moreover have "content w3 = cleared"
      using sync_frame[OF ok sync] c2 by simp
    ultimately show ?thesis
      using c2 by (auto simp: cleared)
  qed
  then show "content w' \<in> {content w, cleared}"
    and "r = Ok \<Longrightarrow> content w' = cleared \<and> wm_append_offset wm' = WAL_HEADER_SIZE"
    and "wm_file wm' = wm_file wm" and "wm_database_id wm' = wm_database_id wm"
    and "fh_injector (wm_file wm) = None \<Longrightarrow> wm_append_offset wm = length b \<Longrightarrow>
      content w' ?p = Some b' \<Longrightarrow> wm_append_offset wm' = length b'"
    by blast+
qed

section \<open>Opening the log\<close>

lemma close_on_error_content:
  assumes "close_on_error os fh m w = (w', r)"
  shows "\<exists>w1. m w = (w1, r) \<and> content w' = content w1 \<and> (\<forall>x. r = Inr x \<longrightarrow> w' = w1)"
proof -
  obtain w1 r1 where m: "m w = (w1, r1)" by (metis surj_pair)
  obtain fh' w2 r2 where "fh_close os fh w1 = ((fh', w2), r2)" by (metis surj_pair)
  with assms m close_content[OF this] show ?thesis
    by (auto simp: close_on_error_def split: sum.splits)
qed


lemma scan_content_ignored:
  "scan_content b dbid = Inr res \<Longrightarrow>
   ignored_trailing_bytes res \<longleftrightarrow> valid_wal_end_offset res \<noteq> length b"
  by (auto simp: scan_content_def ensure_Inr_iff bind_result_Inr_iff scan_finish_def)

end

text \<open>What opening may leave in the file, and the manager it returns.\<close>

definition log_opened :: "path \<Rightarrow> u64 \<Rightarrow> bytes \<Rightarrow> bytes option \<Rightarrow> 'w wal_manager result \<Rightarrow> bool" where
  "log_opened p dbid old new r \<longleftrightarrow>
     (\<forall>m. r = Inr m \<longrightarrow>
       m = \<lparr>wm_file = \<lparr>fh_path = p, fh_open = True, fh_injector = None\<rparr>,
         wm_append_offset = length (the new), wm_database_id = dbid\<rparr> \<and> new \<noteq> None \<and>
       (if old = [] then the new = log_bytes dbid []
        else \<exists>res. scan_content old dbid = Inr res \<and>
          the new = take (valid_wal_end_offset res) old)) \<and>
     (old \<noteq> [] \<longrightarrow> new = Some old \<or> (\<exists>res. scan_content old dbid = Inr res \<and>
          new = Some (take (valid_wal_end_offset res) old)))"

context win32_files
begin

lemma log_opened_failed: "\<not> ok r \<Longrightarrow> log_opened p dbid old (Some old) r"
  by (auto simp: log_opened_def)

lemma log_opened_cut:
  assumes "scan_content old dbid = Inr res" "old \<noteq> []"
    and "\<forall>m. r = Inr m \<longrightarrow> m = \<lparr>wm_file = \<lparr>fh_path = p, fh_open = True, fh_injector = None\<rparr>,
      wm_append_offset = valid_wal_end_offset res, wm_database_id = dbid\<rparr>"
  shows "log_opened p dbid old (Some (take (valid_wal_end_offset res) old)) r"
  using assms scan_content_sound(1)[OF assms(1)] by (auto simp: log_opened_def)

lemma wal_cut_tail_effect:
  assumes run: "wal_cut_tail os p dbid fh w = (w', r)"
    and fh: "fh = \<lparr>fh_path = p, fh_open = True, fh_injector = None\<rparr>"
    and b: "content w p = Some b" "b \<noteq> []"
  shows "\<exists>new. content w' = (content w)(p := new) \<and> log_opened p dbid b new r"
proof -
  have ok: "fh_ok content fh" "fh_path fh = p"
    by (simp_all add: fh fh_ok_def)
  obtain w1 r1 where scan: "wal_scan os p dbid w = (w1, r1)" by (metis surj_pair)
  note s = wal_scan_refines[OF scan]
  have same: "content w = (content w)(p := Some b)"
    using b by (auto simp: fun_upd_idem_iff)
  show ?thesis
  proof (cases r1)
    case (Inl e)
    then have "r = Inl e" "w' = w1"
      using run scan by (auto simp: wal_cut_tail_def bind_action_def)
    with s same show ?thesis
      by (intro exI[of _ "Some b"]) (auto intro: log_opened_failed)
  next
    case (Inr res)
    with s b have res: "scan_content b dbid = Inr res" and c1: "content w1 = content w"
      by auto
    let ?v = "valid_wal_end_offset res"
    let ?m = "\<lparr>wm_file = fh, wm_append_offset = ?v, wm_database_id = dbid\<rparr>"
    note le = scan_content_sound(1)[OF res]
    show ?thesis
    proof (cases "ignored_trailing_bytes res")
      case False
      then have "?v = length b" using scan_content_ignored[OF res] by simp
      moreover have "w' = w1" "r = Inr ?m"
        using run scan Inr False by (auto simp: wal_cut_tail_def bind_action_def Let_def)
      ultimately show ?thesis
        using log_opened_cut[OF res b(2), of r p] same fh c1
        by (intro exI[of _ "Some b"]) auto
    next
      case True
      obtain w2 r2 where resize: "fh_resize os fh ?v w1 = (w2, r2)" by (metis surj_pair)
      have c2: "content w2 = content w \<and> r2 \<noteq> Ok \<or> content w2 = (content w)(p \<mapsto> take ?v b)"
        using resize_effect[OF resize ok(1)] ok(2) b(1) c1 le by auto
      obtain w3 r3 where sync: "fh_sync os fh w2 = (w3, r3)" by (metis surj_pair)
      have "content w' = content w2" "\<forall>m. r = Inr m \<longrightarrow> r2 = Ok \<and> m = ?m" "r2 \<noteq> Ok \<longrightarrow> \<not> ok r"
        using run scan Inr True resize sync sync_frame[OF ok(1) sync]
        by (auto simp: wal_cut_tail_def bind_action_def Let_def split: sum.splits)
      with c2 same log_opened_cut[OF res b(2), of r p] log_opened_failed[of r p dbid b] fh
      show ?thesis by auto
    qed
  qed
qed

lemma wal_create_header:
  assumes run: "wal_open_file os p dbid fh w = (w', r)"
    and fh: "fh = \<lparr>fh_path = p, fh_open = True, fh_injector = None\<rparr>"
    and size: "fh_size os fh w = (w1, Inr 0)" and b: "content w p = Some []"
  shows "\<exists>new. content w' = (content w)(p := new) \<and> log_opened p dbid [] new r"
proof -
  let ?h = "wal_header_bytes \<lparr>wh_database_id = dbid\<rparr>"
  have ok: "fh_ok content fh" "fh_path fh = p"
    by (simp_all add: fh fh_ok_def)
  have enc: "wal_header_encode_into \<lparr>wh_database_id = dbid\<rparr> (replicate WAL_HEADER_SIZE 0) = Inr ?h"
    by (simp add: WAL_HEADER_SIZE_def wal_header_encode_eq)
  have c1: "content w1 = content w"
    by (rule size_frame'[OF size])
  obtain w2 r2 where wr: "write_at os fh 0 ?h w1 = (w2, r2)" by (metis surj_pair)
  from write_at_effect[OF wr ok(1)] obtain k where k:
    "content w2 = (content w)(p \<mapsto> take k ?h)" "r2 = Ok \<longrightarrow> k = length ?h"
    using c1 b ok(2) by (auto simp: overwrite_all)
  moreover have "w' = w2" "\<forall>m. r = Inr m \<longrightarrow> r2 = Ok \<and> m = \<lparr>wm_file = fh,
      wm_append_offset = WAL_HEADER_SIZE, wm_database_id = dbid\<rparr>"
    using run size enc wr by (auto simp: wal_open_file_def bind_action_def split: sum.splits)
  ultimately show ?thesis
    using fh by (intro exI[of _ "Some (take k ?h)"]) (auto simp: log_bytes_def log_opened_def)
qed

lemma wal_open_file_effect:
  assumes run: "wal_open_file os p dbid fh w = (w', r)"
    and fh: "fh = \<lparr>fh_path = p, fh_open = True, fh_injector = None\<rparr>"
    and b: "content w p = Some b"
  shows "\<exists>new. content w' = (content w)(p := new) \<and> log_opened p dbid b new r"
proof -
  have ok: "fh_ok content fh" "fh_path fh = p"
    by (simp_all add: fh fh_ok_def)
  have same: "content w = (content w)(p := Some b)"
    using b by (auto simp: fun_upd_idem_iff)
  obtain w1 r1 where size: "fh_size os fh w = (w1, r1)" by (metis surj_pair)
  have c1: "content w1 = content w"
    by (rule size_frame'[OF size])
  obtain w2 r2 where rd: "read_at os fh 0 WAL_HEADER_SIZE w1 = (w2, r2)"
    by (metis surj_pair)
  have c2: "content w2 = content w"
    using read_at_frame[OF rd] c1 by simp
  have n: "r1 = Inr n \<Longrightarrow> n = length b" for n
    using size_at_value[of fh w w1 n b] size b ok(2) by simp
  consider (failed) "content w' = content w" "\<not> ok r"
    | (create) "r1 = Inr 0"
    | (cut) "wal_cut_tail os p dbid fh w2 = (w', r)" "b \<noteq> []"
  proof (cases r1)
    case (Inl e)
    with run size c1 show ?thesis by (intro failed) (auto simp: wal_open_file_def bind_action_def)
  next
    case (Inr m)
    with n[OF this] run size rd c1 c2 show ?thesis
      using failed create cut
      by (auto simp: wal_open_file_def bind_action_def ensure_action_apply
          split: if_splits sum.splits)
  qed
  then show ?thesis
  proof cases
    case failed
    with same show ?thesis
      by (intro exI[of _ "Some b"]) (auto intro: log_opened_failed)
  next
    case create
    with n[OF create] b wal_create_header[OF run fh] size show ?thesis by simp
  next
    case cut
    with wal_cut_tail_effect[OF cut(1) fh _ cut(2)] b c2 show ?thesis by simp
  qed
qed

lemma wal_open_effect:
  assumes run: "wal_open_or_create os p dbid w = (w', r)"
  shows "\<exists>new. content w' = (content w)(p := new) \<and>
    log_opened p dbid (case content w p of None \<Rightarrow> [] | Some b \<Rightarrow> b) new r"
proof -
  let ?old = "case content w p of None \<Rightarrow> [] | Some b \<Rightarrow> b"
  obtain w1 r1 where opn: "fh_open_or_create os p w = (w1, r1)" by (metis surj_pair)
  note o = open_or_create_content[OF opn]
  show ?thesis
  proof (cases r1)
    case (Inl e)
    then have "w' = w1" "r = Inl e"
      using run opn by (auto simp: wal_open_or_create_def bind_action_def)
    with Inl o show ?thesis
      by (intro exI[of _ "content w p"]) (auto simp: log_opened_def split: option.splits)
  next
    case (Inr fh)
    then have "close_on_error os fh (wal_open_file os p dbid fh) w1 = (w', r)"
      using run opn by (simp add: wal_open_or_create_def bind_action_def)
    from close_on_error_content[OF this] obtain w2 where
      w2: "wal_open_file os p dbid fh w1 = (w2, r)" "content w' = content w2" by blast
    have "fh = \<lparr>fh_path = p, fh_open = True, fh_injector = None\<rparr>"
      "content w1 p = Some ?old" "content w1 = (content w)(p \<mapsto> ?old)"
      using Inr o by auto
    with wal_open_file_effect[OF w2(1) this(1,2)] w2(2) show ?thesis by auto
  qed
qed

end

section \<open>Properties of the WAL manager\<close>

text \<open>
  C24. A commit appends to the log file and to no other file: what it leaves is the old log
  followed by a prefix of the records of the transaction, all of them (and all pages valid)
  when it reports success. With C1 a failed or interrupted commit leaves the committed
  pages as they were.
\<close>

theorem wal_commit_appends_prefix:
  assumes "win32_files os content"
    and "wal_commit_transaction os tid pages (wm, w) = ((wm', w'), r)"
    and "\<forall>p \<in> set pages. page_wf p" "fh_ok content (wm_file wm)"
    and "content w (fh_path (wm_file wm)) = Some b" "wm_append_offset wm = length b"
  shows "\<exists>k \<le> length (txn_bytes (tid, pages)).
    content w' = (content w)(fh_path (wm_file wm) \<mapsto> b @ take k (txn_bytes (tid, pages))) \<and>
    (r = Ok \<longrightarrow> k = length (txn_bytes (tid, pages)) \<and>
      (\<forall>p \<in> set pages. page_id_is_valid (pg_id p)) \<and>
      wm' = wm\<lparr>wm_append_offset := length b + length (txn_bytes (tid, pages))\<rparr>)"
  using win32_files.wal_commit_effect[OF assms] by blast

theorem wal_commit_appends_prefix_witness:
  defines "fh \<equiv> \<lparr>fh_path = ''db.wal'', fh_open = True, fh_injector = None\<rparr>"
    and "b \<equiv> log_bytes 7 []"
  defines "w \<equiv> \<lparr>mf_files = [''db.wal'' \<mapsto> b], mf_calls = 0\<rparr>"
    and "wm \<equiv> \<lparr>wm_file = fh, wm_append_offset = length b, wm_database_id = 7\<rparr>"
    and "s \<equiv> (\<lambda>n. if n = 1 then Some (112, 9) else None) :: fault_script"
  shows "\<exists>wm' w' r. wal_commit_transaction (mem_os s) 1 [new_page_value 3] (wm, w) = ((wm', w'), r) \<and>
    (\<exists>k \<le> length (txn_bytes (1, [new_page_value 3])). mf_files w' =
      (mf_files w)(fh_path (wm_file wm) \<mapsto> b @ take k (txn_bytes (1, [new_page_value 3]))))"
proof -
  obtain wm' w' r where run: "wal_commit_transaction (mem_os s) 1 [new_page_value 3] (wm, w) =
      ((wm', w'), r)"
    by (metis surj_pair)
  have "\<forall>p \<in> set [new_page_value 3]. page_wf p" "fh_ok mf_files (wm_file wm)"
    "mf_files w (fh_path (wm_file wm)) = Some b" "wm_append_offset wm = length b"
    by (simp_all add: wm_def w_def fh_def fh_ok_def)
  from wal_commit_appends_prefix[OF mem_os_files run, OF this] show ?thesis
    using run by blast
qed

text \<open>
  C38. Resetting the log is atomic on the file: whatever step fails, the file holds the log it
  held before or the empty log, and the empty log when the reset reports success.
\<close>

theorem wal_reset_atomic:
  assumes "win32_files os content" "wal_reset os (wm, w) = ((wm', w'), r)"
    and "fh_ok content (wm_file wm)"
    and "content w (fh_path (wm_file wm)) = Some (log_bytes (wm_database_id wm) txns)"
  shows "content w' \<in> {content w,
      (content w)(fh_path (wm_file wm) \<mapsto> log_bytes (wm_database_id wm) [])} \<and>
    (r = Ok \<longrightarrow> content w' (fh_path (wm_file wm)) = Some (log_bytes (wm_database_id wm) []) \<and>
      wm_append_offset wm' = WAL_HEADER_SIZE)"
proof -
  have "take WAL_HEADER_SIZE (log_bytes (wm_database_id wm) txns) =
      wal_header_bytes \<lparr>wh_database_id = wm_database_id wm\<rparr>"
    by (simp add: log_bytes_def)
  note effect = win32_files.wal_reset_effect[OF assms(1-4) this]
  show ?thesis
    using effect(1,2) by auto
qed

theorem wal_reset_atomic_witness:
  defines "fh \<equiv> \<lparr>fh_path = ''db.wal'', fh_open = True, fh_injector = None\<rparr>"
    and "b \<equiv> log_bytes 7 [(1, [new_page_value 3])]"
  defines "w \<equiv> \<lparr>mf_files = [''db.wal'' \<mapsto> b], mf_calls = 0\<rparr>"
    and "wm \<equiv> \<lparr>wm_file = fh, wm_append_offset = length b, wm_database_id = 7\<rparr>"
    and "s \<equiv> (\<lambda>n. if n = 2 then Some (112, 9) else None) :: fault_script"
  shows "\<exists>wm' w' r. wal_reset (mem_os s) (wm, w) = ((wm', w'), r) \<and>
    mf_files w' \<in> {mf_files w, (mf_files w)(''db.wal'' \<mapsto> log_bytes 7 [])}"
proof -
  obtain wm' w' r where run: "wal_reset (mem_os s) (wm, w) = ((wm', w'), r)"
    by (metis surj_pair)
  have "fh_ok mf_files (wm_file wm)" "mf_files w (fh_path (wm_file wm)) =
      Some (log_bytes (wm_database_id wm) [(1, [new_page_value 3])])"
    by (simp_all add: wm_def w_def fh_def fh_ok_def b_def)
  from wal_reset_atomic[OF mem_os_files run, OF this] show ?thesis
    using run by (simp add: wm_def fh_def)
qed



end
