(* ===== verification/DiskManager.thy ===== *)
theory DiskManager
  imports DatabaseHeader WalManager
begin

text \<open>
  \<^verbatim>\<open>DiskManager.cpp\<close>: pages in the database file. Page \<open>i\<close> occupies the bytes from
  \<open>i * PAGE_SIZE\<close>; page 0 is the header and is reached only through \<open>read_header\<close> and
  \<open>write_header\<close>. Offsets are computed in 64-bit arithmetic; the guards of the code are
  what keeps the products from wrapping. The lemmas give the effect of every operation on
  the content of the file: a write changes one page slot, a resize only adds pages.
\<close>

section \<open>The code\<close>

record 'w disk_manager =
  dm_file :: "'w file_handle"

definition UINT64_MAX :: u64 where
  "UINT64_MAX = 0xffffffffffffffff"

definition PAGE_LIMIT :: u64 where
  "PAGE_LIMIT = UINT64_MAX div of_nat PAGE_SIZE"

definition disk_size :: "'w win32 \<Rightarrow> 'w disk_manager \<Rightarrow> ('w, nat) action" where
  "disk_size os dm = fh_size os (dm_file dm)"

definition disk_sync :: "'w win32 \<Rightarrow> 'w disk_manager \<Rightarrow> ('w, unit) action" where
  "disk_sync os dm = fh_sync os (dm_file dm)"

definition disk_close :: "'w win32 \<Rightarrow> 'w disk_manager \<Rightarrow> 'w \<Rightarrow> ('w disk_manager \<times> 'w) \<times> status" where
  "disk_close os dm w =
     (case fh_close os (dm_file dm) w of ((fh', w'), r) \<Rightarrow> ((dm\<lparr>dm_file := fh'\<rparr>, w'), r))"

definition disk_set_fault_injector :: "'w injector option \<Rightarrow> 'w disk_manager \<Rightarrow> 'w disk_manager" where
  "disk_set_fault_injector i dm = dm\<lparr>dm_file := set_fault_injector i (dm_file dm)\<rparr>"

definition disk_read_header :: "'w win32 \<Rightarrow> 'w disk_manager \<Rightarrow> ('w, database_header) action" where
  "disk_read_header os dm =
     bind_action (read_at os (dm_file dm) 0 PAGE_SIZE) (\<lambda>header_page.
     lift_result (database_header_decode header_page))"

definition disk_write_header :: "'w win32 \<Rightarrow> 'w disk_manager \<Rightarrow> database_header \<Rightarrow> ('w, unit) action" where
  "disk_write_header os dm h =
     bind_action (lift_result (database_header_encode_into h (replicate PAGE_SIZE 0))) (\<lambda>header_page.
     write_at os (dm_file dm) 0 header_page)"

text \<open>The guards that \<open>read_page\<close> and \<open>write_page\<close> share, with the offset they compute.\<close>

definition page_offset_checked :: "'w win32 \<Rightarrow> 'w disk_manager \<Rightarrow> page_id \<Rightarrow> ('w, u64) action" where
  "page_offset_checked os dm p =
     ensure_action (page_id_is_valid p) InvalidArgument (
     ensure_action (p \<noteq> HEADER_PAGE_ID) InvalidArgument (
     ensure_action (p \<le> PAGE_LIMIT) InvalidArgument (
     let offset = p * of_nat PAGE_SIZE in
     bind_action (disk_size os dm) (\<lambda>file_size.
     ensure_action (\<not> (file_size < PAGE_SIZE \<or> unat offset > file_size - PAGE_SIZE)) InvalidArgument (
       return_action offset)))))"

definition disk_read_page :: "'w win32 \<Rightarrow> 'w disk_manager \<Rightarrow> page_id \<Rightarrow> ('w, page) action" where
  "disk_read_page os dm p =
     bind_action (page_offset_checked os dm p) (\<lambda>offset.
     bind_action (read_at os (dm_file dm) (unat offset) PAGE_SIZE) (\<lambda>data.
       return_action \<lparr>pg_id = p, pg_data = data\<rparr>))"

definition disk_write_page :: "'w win32 \<Rightarrow> 'w disk_manager \<Rightarrow> page \<Rightarrow> ('w, unit) action" where
  "disk_write_page os dm page =
     bind_action (page_offset_checked os dm (pg_id page)) (\<lambda>offset.
       write_at os (dm_file dm) (unat offset) (pg_data page))"

definition disk_resize_to_page_count :: "'w win32 \<Rightarrow> 'w disk_manager \<Rightarrow> u64 \<Rightarrow> ('w, unit) action" where
  "disk_resize_to_page_count os dm page_count =
     ensure_action (INITIAL_DATABASE_PAGE_COUNT \<le> page_count) InvalidArgument (
     ensure_action (page_count \<le> PAGE_LIMIT) InvalidArgument (
     let target_size = page_count * of_nat PAGE_SIZE in
     bind_action (disk_size os dm) (\<lambda>current_size.
     ensure_action (current_size \<le> unat target_size) InternalError (
     if current_size = unat target_size then return_action ()
     else fh_resize os (dm_file dm) (unat target_size)))))"

definition disk_create_new :: "'w win32 \<Rightarrow> path \<Rightarrow> database_header \<Rightarrow> ('w, 'w disk_manager) action" where
  "disk_create_new os p h =
     ensure_action (dh_page_count h \<le> PAGE_LIMIT) InvalidArgument (
     let resize_value = dh_page_count h * of_nat PAGE_SIZE in
     bind_action (fh_create_new os p) (\<lambda>file_handle. close_on_error os file_handle (
     bind_action (fh_resize os file_handle (unat resize_value)) (\<lambda>_.
     bind_action (disk_write_header os \<lparr>dm_file = file_handle\<rparr> h) (\<lambda>_.
       return_action \<lparr>dm_file = file_handle\<rparr>)))))"

definition disk_open_existing :: "'w win32 \<Rightarrow> path \<Rightarrow> ('w, 'w disk_manager) action" where
  "disk_open_existing os p =
     bind_action (fh_open_existing os p) (\<lambda>file_handle. close_on_error os file_handle (
     bind_action (fh_size os file_handle) (\<lambda>file_size.
     ensure_action (file_size mod PAGE_SIZE = 0) Corruption (
     bind_action (disk_read_header os \<lparr>dm_file = file_handle\<rparr>) (\<lambda>header.
     ensure_action (unat (dh_page_count header) \<le> file_size div PAGE_SIZE) Corruption (
       return_action \<lparr>dm_file = file_handle\<rparr>))))))"

section \<open>The arithmetic of page offsets\<close>

lemma unat_PAGE_SIZE [simp]: "unat (of_nat PAGE_SIZE :: u64) = PAGE_SIZE"
  by (simp add: PAGE_SIZE_def)

lemma page_offset_no_overflow:
  "n \<le> PAGE_LIMIT \<Longrightarrow> unat (n * of_nat PAGE_SIZE :: u64) = unat n * PAGE_SIZE"
proof -
  assume "n \<le> PAGE_LIMIT"
  then have "unat n \<le> unat UINT64_MAX div PAGE_SIZE"
    by (simp add: PAGE_LIMIT_def word_le_nat_alt unat_div)
  then have "unat n \<le> 18446744073709551615 div PAGE_SIZE"
    by (simp add: UINT64_MAX_def)
  then have "unat n * PAGE_SIZE < 2 ^ 64"
    by (simp add: PAGE_SIZE_def)
  then show ?thesis
    by (simp add: unat_word_ariths)
qed

text \<open>The bytes of page \<open>i\<close> of a database file.\<close>

definition page_slot :: "bytes \<Rightarrow> nat \<Rightarrow> bytes" where
  "page_slot b i = take PAGE_SIZE (drop (i * PAGE_SIZE) b)"

lemma page_slots_disjoint:
  "i \<noteq> j \<Longrightarrow> i * PAGE_SIZE + PAGE_SIZE \<le> j * PAGE_SIZE \<or> j * PAGE_SIZE + PAGE_SIZE \<le> i * PAGE_SIZE"
  by (metis Suc_leI add.commute mult_Suc mult_le_mono1 nat_neq_iff)

lemma page_slot_write:
  assumes "i * PAGE_SIZE + length ys \<le> length b" "length ys \<le> PAGE_SIZE"
  shows "j \<noteq> i \<Longrightarrow> page_slot (overwrite b (i * PAGE_SIZE) ys) j = page_slot b j"
    and "length ys = PAGE_SIZE \<Longrightarrow> page_slot (overwrite b (i * PAGE_SIZE) ys) i = ys"
  using assms page_slots_disjoint[of i j]
  by (auto simp: page_slot_def intro!: read_overwrite_other)

lemma page_slot_append:
  "(i + 1) * PAGE_SIZE \<le> length b \<Longrightarrow> page_slot (b @ c) i = page_slot b i"
  by (simp add: page_slot_def)

section \<open>What the operations do to the database file\<close>

context win32_files
begin

lemma page_offset_checked_effect:
  assumes "page_offset_checked os dm p w = (w', r)" "content w (fh_path (dm_file dm)) = Some b"
  shows "content w' = content w" and "r = Inr off \<Longrightarrow> unat off = unat p * PAGE_SIZE \<and>
    page_id_is_valid p \<and> p \<noteq> HEADER_PAGE_ID \<and> unat p * PAGE_SIZE + PAGE_SIZE \<le> length b"
proof -
  show "content w' = content w"
    using assms(1) by (auto simp: page_offset_checked_def disk_size_def ensure_action_apply
        bind_action_def Let_def split: if_splits prod.splits sum.splits dest!: size_frame')
  show "unat off = unat p * PAGE_SIZE \<and> page_id_is_valid p \<and> p \<noteq> HEADER_PAGE_ID \<and>
      unat p * PAGE_SIZE + PAGE_SIZE \<le> length b" if r: "r = Inr off"
  proof -
    have c: "page_id_is_valid p" "p \<noteq> HEADER_PAGE_ID" "p \<le> PAGE_LIMIT"
      "off = p * of_nat PAGE_SIZE"
      and "PAGE_SIZE \<le> length b \<and> unat off \<le> length b - PAGE_SIZE"
      using assms r by (auto simp: page_offset_checked_def disk_size_def ensure_action_apply
          bind_action_eq_Inr Let_def split: if_splits dest!: size_at_value)
    then show ?thesis
      using page_offset_no_overflow[OF c(3)] by auto
  qed
qed

lemma disk_read_page_effect:
  assumes "disk_read_page os dm p w = (w', r)" "content w (fh_path (dm_file dm)) = Some b"
  shows "content w' = content w" and "r = Inr pg \<Longrightarrow> pg_id pg = p \<and>
    pg_data pg = page_slot b (unat p) \<and> page_wf pg \<and> page_id_is_valid p \<and> p \<noteq> HEADER_PAGE_ID \<and>
    unat p * PAGE_SIZE + PAGE_SIZE \<le> length b"
proof -
  obtain w1 r1 where off: "page_offset_checked os dm p w = (w1, r1)" by (metis surj_pair)
  note e = page_offset_checked_effect[OF off assms(2)]
  show "content w' = content w"
    using assms(1) off e(1)
    by (auto simp: disk_read_page_def bind_action_def split: sum.splits prod.splits
        dest!: read_at_frame)
  show "pg_id pg = p \<and> pg_data pg = page_slot b (unat p) \<and> page_wf pg \<and> page_id_is_valid p \<and>
      p \<noteq> HEADER_PAGE_ID \<and> unat p * PAGE_SIZE + PAGE_SIZE \<le> length b" if r: "r = Inr pg"
  proof -
    obtain x bs where x: "r1 = Inr x" "read_at os (dm_file dm) (unat x) PAGE_SIZE w1 = (w', Inr bs)"
      "pg = \<lparr>pg_id = p, pg_data = bs\<rparr>"
      using assms(1) off r by (auto simp: disk_read_page_def bind_action_eq_Inr)
    have "content w1 (fh_path (dm_file dm)) = Some b"
      using e(1) assms(2) by simp
    from read_at_value[OF x(2) this] e(2)[OF x(1)] x(3) show ?thesis
      by (auto simp: page_slot_def page_wf_def)
  qed
qed

lemma disk_write_page_effect:
  assumes "disk_write_page os dm pg w = (w', r)" "content w (fh_path (dm_file dm)) = Some b"
    and "fh_ok content (dm_file dm)" "page_wf pg"
  shows "content w' = content w \<and> r \<noteq> Ok \<or>
    (unat (pg_id pg) * PAGE_SIZE + PAGE_SIZE \<le> length b \<and> pg_id pg \<noteq> HEADER_PAGE_ID \<and>
     (\<exists>k \<le> PAGE_SIZE. content w' = (content w)(fh_path (dm_file dm) \<mapsto>
        overwrite b (unat (pg_id pg) * PAGE_SIZE) (take k (pg_data pg))) \<and>
        (r = Ok \<longrightarrow> k = PAGE_SIZE)))"
proof -
  obtain w1 r1 where off: "page_offset_checked os dm (pg_id pg) w = (w1, r1)"
    by (metis surj_pair)
  note e = page_offset_checked_effect[OF off assms(2)]
  show ?thesis
  proof (cases r1)
    case (Inl x)
    with assms(1) off e(1) show ?thesis by (auto simp: disk_write_page_def bind_action_def)
  next
    case (Inr x)
    note x = e(2)[OF Inr]
    have "write_at os (dm_file dm) (unat x) (pg_data pg) w1 = (w', r)"
      using assms(1) off Inr by (simp add: disk_write_page_def bind_action_def)
    from write_at_effect[OF this assms(3), of b] e(1) assms(2,4) x show ?thesis
      by (auto simp: page_wf_def)
  qed
qed

lemma disk_write_header_effect:
  assumes "disk_write_header os dm h w = (w', r)" "content w (fh_path (dm_file dm)) = Some b"
    and "fh_ok content (dm_file dm)" "database_header_valid h"
  shows "\<exists>k \<le> PAGE_SIZE. content w' = (content w)(fh_path (dm_file dm) \<mapsto>
      overwrite b 0 (take k (database_header_bytes h))) \<and> (r = Ok \<longrightarrow> k = PAGE_SIZE)"
proof -
  have "write_at os (dm_file dm) 0 (database_header_bytes h) w = (w', r)"
    using assms(1,4) by (simp add: disk_write_header_def database_header_encode_eq)
  from write_at_effect[OF this assms(3,2)] show ?thesis by simp
qed

lemma disk_read_header_effect:
  assumes "disk_read_header os dm w = (w', r)" "content w (fh_path (dm_file dm)) = Some b"
  shows "content w' = content w" and
    "r = Inr h \<Longrightarrow> database_header_decode (take PAGE_SIZE b) = Inr h \<and> PAGE_SIZE \<le> length b"
proof -
  show "content w' = content w"
    using assms(1)
    by (auto simp: disk_read_header_def bind_action_def split: sum.splits prod.splits
        dest!: read_at_frame)
  show "database_header_decode (take PAGE_SIZE b) = Inr h \<and> PAGE_SIZE \<le> length b" if "r = Inr h"
    using assms that page_size_slots
    by (auto simp: disk_read_header_def bind_action_eq_Inr dest!: read_at_value)
qed

lemma disk_resize_effect:
  assumes "disk_resize_to_page_count os dm n w = (w', r)"
    and "content w (fh_path (dm_file dm)) = Some b" "fh_ok content (dm_file dm)"
  shows "content w' = content w \<and> r \<noteq> Ok \<or>
    length b \<le> unat n * PAGE_SIZE \<and> (\<exists>fill. length fill = unat n * PAGE_SIZE - length b \<and>
      content w' = (content w)(fh_path (dm_file dm) \<mapsto> b @ fill))"
proof (cases "INITIAL_DATABASE_PAGE_COUNT \<le> n \<and> n \<le> PAGE_LIMIT")
  case False
  with assms(1) show ?thesis
    by (auto simp: disk_resize_to_page_count_def ensure_action_apply split: if_splits)
next
  case True
  then have target: "unat (n * of_nat PAGE_SIZE) = unat n * PAGE_SIZE"
    by (simp add: page_offset_no_overflow)
  obtain w1 r1 where size: "fh_size os (dm_file dm) w = (w1, r1)" by (metis surj_pair)
  have c1: "content w1 = content w" "r1 = Inr m \<Longrightarrow> m = length b" for m
    using size_frame'[OF size] size_at_value[of "dm_file dm" w w1 m b] size assms(2) by auto
  consider (failed) "content w' = content w" "r \<noteq> Ok"
    | (same) "content w' = content w" "length b = unat n * PAGE_SIZE"
    | (grow) "fh_resize os (dm_file dm) (unat n * PAGE_SIZE) w1 = (w', r)"
        "length b \<le> unat n * PAGE_SIZE"
    using assms(1) True size c1 target
    by (auto simp: disk_resize_to_page_count_def disk_size_def ensure_action_apply bind_action_def
        Let_def split: sum.splits if_splits)
  then show ?thesis
  proof cases
    case grow
    with resize_effect[OF grow(1) assms(3)] c1 assms(2) show ?thesis by auto
  qed (use assms(2) in \<open>auto simp: fun_upd_idem_iff\<close>)
qed

lemma disk_open_existing_effect:
  assumes "disk_open_existing os p w = (w', r)"
  shows "content w' = content w" and "r = Inr dm \<Longrightarrow>
    dm = \<lparr>dm_file = \<lparr>fh_path = p, fh_open = True, fh_injector = None\<rparr>\<rparr> \<and>
    (\<exists>b h. content w p = Some b \<and> length b mod PAGE_SIZE = 0 \<and>
      database_header_decode (take PAGE_SIZE b) = Inr h \<and>
      unat (dh_page_count h) * PAGE_SIZE \<le> length b)"
proof -
  obtain w1 r1 where opn: "fh_open_existing os p w = (w1, r1)" by (metis surj_pair)
  note o = open_content[OF opn]
  have "content w' = content w \<and> (\<forall>dm. r = Inr dm \<longrightarrow>
    dm = \<lparr>dm_file = \<lparr>fh_path = p, fh_open = True, fh_injector = None\<rparr>\<rparr> \<and>
    (\<exists>b h. content w p = Some b \<and> length b mod PAGE_SIZE = 0 \<and>
      database_header_decode (take PAGE_SIZE b) = Inr h \<and>
      unat (dh_page_count h) * PAGE_SIZE \<le> length b))"
  proof (cases r1)
    case (Inl e)
    with assms opn o show ?thesis by (auto simp: disk_open_existing_def bind_action_def)
  next
    case (Inr fh)
    let ?body = "bind_action (fh_size os fh) (\<lambda>file_size.
     ensure_action (file_size mod PAGE_SIZE = 0) Corruption (
     bind_action (disk_read_header os \<lparr>dm_file = fh\<rparr>) (\<lambda>header.
     ensure_action (unat (dh_page_count header) \<le> file_size div PAGE_SIZE) Corruption (
       return_action \<lparr>dm_file = fh\<rparr>))))"
    have fh: "fh = \<lparr>fh_path = p, fh_open = True, fh_injector = None\<rparr>" "content w1 = content w"
      using o Inr by auto
    obtain b where b: "content w p = Some b" using o Inr by auto
    from assms opn Inr close_on_error_content obtain w2 where
      body: "?body w1 = (w2, r)" "content w' = content w2"
      by (auto simp: disk_open_existing_def bind_action_Inr) blast
    obtain w3 r3 where size: "fh_size os fh w1 = (w3, r3)" by (metis surj_pair)
    obtain w4 r4 where rd: "disk_read_header os \<lparr>dm_file = fh\<rparr> w3 = (w4, r4)"
      by (metis surj_pair)
    have c3: "content w3 = content w" "r3 = Inr n \<Longrightarrow> n = length b" for n
      using size_frame'[OF size] size_at_value[of fh w1 w3 n b] size fh b by auto
    have c4: "content w4 = content w"
      "r4 = Inr h \<Longrightarrow> database_header_decode (take PAGE_SIZE b) = Inr h" for h
      using disk_read_header_effect[OF rd, of b] c3(1) fh b by auto
    have "content w2 = content w"
      using body(1) size rd c3(1) c4(1)
      by (auto simp: bind_action_def ensure_action_apply split: sum.splits if_splits)
    moreover have "dm = \<lparr>dm_file = fh\<rparr> \<and> length b mod PAGE_SIZE = 0 \<and>
        (\<exists>h. r4 = Inr h \<and> unat (dh_page_count h) \<le> length b div PAGE_SIZE)" if "r = Inr dm" for dm
      using body(1) size rd c3(2) that
      by (auto simp: bind_action_def ensure_action_apply split: sum.splits if_splits)
    ultimately show ?thesis
      using body(2) b c4(2) fh(1) page_size_slots(1)
      by (fastforce simp: less_eq_div_iff_mult_less_eq)
  qed
  then show "content w' = content w" and "r = Inr dm \<Longrightarrow>
    dm = \<lparr>dm_file = \<lparr>fh_path = p, fh_open = True, fh_injector = None\<rparr>\<rparr> \<and>
    (\<exists>b h. content w p = Some b \<and> length b mod PAGE_SIZE = 0 \<and>
      database_header_decode (take PAGE_SIZE b) = Inr h \<and>
      unat (dh_page_count h) * PAGE_SIZE \<le> length b)" by auto
qed


lemma disk_create_new_effect:
  assumes "disk_create_new os p h w = (w', r)" "database_header_valid h"
  shows "\<forall>q. q \<noteq> p \<longrightarrow> content w' q = content w q" and "r = Inr dm \<Longrightarrow>
    dm = \<lparr>dm_file = \<lparr>fh_path = p, fh_open = True, fh_injector = None\<rparr>\<rparr> \<and> content w p = None \<and>
    (\<exists>b. content w' p = Some b \<and> length b = unat (dh_page_count h) * PAGE_SIZE \<and>
      database_header_decode (take PAGE_SIZE b) = Inr h)"
proof -
  let ?n = "unat (dh_page_count h) * PAGE_SIZE"
  have pos: "PAGE_SIZE \<le> ?n"
    using assms(2) by (simp add: database_header_valid_def Suc_leI unat_gt_0)
  have "(\<forall>q. q \<noteq> p \<longrightarrow> content w' q = content w q) \<and> (\<forall>dm. r = Inr dm \<longrightarrow>
    dm = \<lparr>dm_file = \<lparr>fh_path = p, fh_open = True, fh_injector = None\<rparr>\<rparr> \<and> content w p = None \<and>
    (\<exists>b. content w' p = Some b \<and> length b = ?n \<and> database_header_decode (take PAGE_SIZE b) = Inr h))"
  proof (cases "dh_page_count h \<le> PAGE_LIMIT")
    case False
    with assms(1) show ?thesis by (auto simp: disk_create_new_def ensure_action_apply)
  next
    case lim: True
    obtain w1 r1 where opn: "fh_create_new os p w = (w1, r1)" by (metis surj_pair)
    note o = create_new_content[OF opn]
    show ?thesis
    proof (cases r1)
      case (Inl e)
      with assms(1) opn o lim show ?thesis
        by (auto simp: disk_create_new_def ensure_action_apply Let_def bind_action_def)
    next
      case (Inr fh)
      with o have fh: "fh = \<lparr>fh_path = p, fh_open = True, fh_injector = None\<rparr>"
        "content w1 = (content w)(p \<mapsto> [])" "content w p = None" by auto
      have ok: "fh_ok content fh" "fh_path fh = p" by (simp_all add: fh(1) fh_ok_def)
      let ?body = "bind_action (fh_resize os fh ?n) (\<lambda>_.
        bind_action (disk_write_header os \<lparr>dm_file = fh\<rparr> h) (\<lambda>_. return_action \<lparr>dm_file = fh\<rparr>))"
      have "close_on_error os fh ?body w1 = (w', r)"
        using assms(1) opn Inr lim page_offset_no_overflow[OF lim]
        by (simp add: disk_create_new_def ensure_action_apply Let_def bind_action_Inr)
      from close_on_error_content[OF this] obtain w2 where
        body: "?body w1 = (w2, r)" "content w' = content w2" by blast
      obtain w3 r3 where resize: "fh_resize os fh ?n w1 = (w3, r3)" by (metis surj_pair)
      from resize_effect[OF resize ok(1), of "[]"] fh(2) ok(2)
      have c3: "content w3 = content w1 \<and> r3 \<noteq> Ok \<or>
        (\<exists>fill. length fill = ?n \<and> content w3 = (content w)(p \<mapsto> fill))" by auto
      show ?thesis
      proof (cases r3)
        case (Inl e)
        with body resize c3 fh show ?thesis by (auto simp: bind_action_def)
      next
        case r3: (Inr u)
        with c3 obtain fill where fill: "length fill = ?n" "content w3 = (content w)(p \<mapsto> fill)"
          by auto
        obtain w4 r4 where wr: "disk_write_header os \<lparr>dm_file = fh\<rparr> h w3 = (w4, r4)"
          by (metis surj_pair)
        from disk_write_header_effect[OF wr _ _ assms(2), of fill] fill ok
        obtain k where k: "k \<le> PAGE_SIZE" "r4 = Ok \<longrightarrow> k = PAGE_SIZE"
          "content w4 = (content w)(p \<mapsto> overwrite fill 0 (take k (database_header_bytes h)))"
          by auto
        have "w2 = w4" "\<forall>dm. r = Inr dm \<longrightarrow> r4 = Ok \<and> dm = \<lparr>dm_file = fh\<rparr>"
          using body(1) resize r3 wr by (auto simp: bind_action_def split: sum.splits)
        moreover have "take PAGE_SIZE (overwrite fill 0 (database_header_bytes h)) =
            database_header_bytes h"
          by (simp add: overwrite_def)
        moreover have "length (overwrite fill 0 (database_header_bytes h)) = ?n"
          using pos fill(1) by simp
        ultimately show ?thesis
          using k body(2) fh assms(2) by (auto simp: database_header_roundtrip)
      qed
    qed
  qed
  then show "\<forall>q. q \<noteq> p \<longrightarrow> content w' q = content w q" and "r = Inr dm \<Longrightarrow>
    dm = \<lparr>dm_file = \<lparr>fh_path = p, fh_open = True, fh_injector = None\<rparr>\<rparr> \<and> content w p = None \<and>
    (\<exists>b. content w' p = Some b \<and> length b = ?n \<and>
      database_header_decode (take PAGE_SIZE b) = Inr h)" by auto
qed

end

section \<open>Properties of the disk manager\<close>

text \<open>
  A page that has been written is read back as it was written, and every other page reads
  as before the write; the header page is out of reach of both operations.
\<close>

theorem disk_write_then_read:
  assumes "win32_files os content" "disk_write_page os dm pg w = (w1, Ok)"
    and "disk_read_page os dm q w1 = (w2, Inr pg')"
    and "content w (fh_path (dm_file dm)) = Some b" "fh_ok content (dm_file dm)" "page_wf pg"
  shows "(q = pg_id pg \<longrightarrow> pg' = pg) \<and>
    (q \<noteq> pg_id pg \<longrightarrow> pg_id pg' = q \<and> pg_data pg' = page_slot b (unat q)) \<and>
    q \<noteq> HEADER_PAGE_ID \<and> pg_id pg \<noteq> HEADER_PAGE_ID"
proof -
  let ?b1 = "overwrite b (unat (pg_id pg) * PAGE_SIZE) (pg_data pg)"
  have len: "length (pg_data pg) = PAGE_SIZE"
    using assms(6) by (simp add: page_wf_def)
  have w1: "content w1 (fh_path (dm_file dm)) = Some ?b1" and "pg_id pg \<noteq> HEADER_PAGE_ID"
    and fits: "unat (pg_id pg) * PAGE_SIZE + PAGE_SIZE \<le> length b"
    using win32_files.disk_write_page_effect[OF assms(1,2,4,5,6)] len by auto
  have pg': "pg_id pg' = q" "pg_data pg' = page_slot ?b1 (unat q)" "q \<noteq> HEADER_PAGE_ID"
    using win32_files.disk_read_page_effect(2)[OF assms(1,3) w1 refl] by auto
  have "pg' = pg" if "q = pg_id pg"
    using pg' that page_slot_write(2)[of "unat (pg_id pg)" "pg_data pg" b] fits len by simp
  moreover have "pg_data pg' = page_slot b (unat q)" if "q \<noteq> pg_id pg"
    using pg' that page_slot_write(1)[of "unat (pg_id pg)" "pg_data pg" b "unat q"] fits len
    by (simp add: word_unat_eq_iff)
  ultimately show ?thesis
    using pg' \<open>pg_id pg \<noteq> HEADER_PAGE_ID\<close> by blast
qed

theorem disk_write_then_read_witness:
  defines "dm \<equiv> \<lparr>dm_file = \<lparr>fh_path = ''db'', fh_open = True, fh_injector = None\<rparr>\<rparr>"
    and "w \<equiv> \<lparr>mf_files = [''db'' \<mapsto> replicate (3 * PAGE_SIZE) 0], mf_calls = 0\<rparr>"
    and "pg \<equiv> \<lparr>pg_id = 2, pg_data = replicate PAGE_SIZE 5\<rparr>"
  shows "\<exists>w1 w2 pg'. disk_write_page (mem_os (\<lambda>_. None)) dm pg w = (w1, Ok) \<and>
    disk_read_page (mem_os (\<lambda>_. None)) dm 2 w1 = (w2, Inr pg') \<and> pg' = pg"
proof -
  let ?b = "replicate (3 * PAGE_SIZE) (0 :: byte)"
  let ?c = "overwrite ?b (2 * PAGE_SIZE) (pg_data pg)"
  let ?w1 = "mem_store ''db'' ?c (tick (tick w))"
  have db: "mf_files w ''db'' = Some ?b"
    by (simp add: w_def)
  have limit: "(2 :: page_id) \<le> PAGE_LIMIT"
    by (simp add: PAGE_LIMIT_def UINT64_MAX_def PAGE_SIZE_def)
  have small: "PAGE_SIZE \<le> MAXDWORD" "0 < PAGE_SIZE"
    by (simp_all add: PAGE_SIZE_def MAXDWORD_def)
  have offset: "page_offset_checked mem_ok dm 2 v = (tick v, Inr (2 * of_nat PAGE_SIZE))"
    if "mf_files v ''db'' = Some c" "length c = 3 * PAGE_SIZE" for v c
    using that limit page_offset_no_overflow[OF limit]
    by (simp add: page_offset_checked_def disk_size_def dm_def mem_size_at bind_action_def
        page_id_is_valid_def INVALID_PAGE_ID_def HEADER_PAGE_ID_def Let_def)
  have stored: "disk_write_page mem_ok dm pg w = (?w1, Ok)"
    using page_offset_no_overflow[OF limit] small
    by (simp add: disk_write_page_def pg_def bind_action_def offset[of w ?b] db)
      (simp add: dm_def mem_write_at[of _ _ ?b] db)
  have read: "disk_read_page mem_ok dm 2 ?w1 =
      (tick (tick ?w1), Inr \<lparr>pg_id = 2, pg_data = take PAGE_SIZE (drop (2 * PAGE_SIZE) ?c)\<rparr>)"
    using page_offset_no_overflow[OF limit] small
    by (simp add: disk_read_page_def pg_def bind_action_def offset[of _ ?c])
      (simp add: dm_def mem_read_at[of _ _ ?c] pg_def)
  have "mf_files w (fh_path (dm_file dm)) = Some ?b" "fh_ok mf_files (dm_file dm)" "page_wf pg"
    by (simp_all add: db dm_def pg_def fh_ok_def page_wf_def)
  from disk_write_then_read[OF mem_os_files stored read, OF this] show ?thesis
    using stored read by (simp add: pg_def)
qed

end
