(* ===== verification/LRUReplacer.thy ===== *)
theory LRUReplacer
  imports Prelude
begin

text \<open>
  \<^verbatim>\<open>LRUReplacer.cpp\<close>: the frames that may be evicted, in the order in which they became
  evictable. The \<open>std::list\<close> is a list of nodes, each an identity and the frame id it
  holds, most recent first; an iterator is the identity of a node, so that
  \<open>frame_positions_\<close> maps a frame to the node it occupies and \<open>erase(it)\<close> removes that
  node. The locale \<open>replacer\<close> is what the buffer pool relies on: the operations on the
  list of evictable frames.
\<close>

section \<open>The code\<close>

record lru_replacer =
  lru_nodes :: "(nat \<times> nat) list"
  frame_positions :: "nat \<rightharpoonup> nat"
  lru_capacity :: nat
  lru_next_node :: nat

definition lru_new :: "nat \<Rightarrow> lru_replacer" where
  "lru_new capacity = \<lparr>lru_nodes = [], frame_positions = Map.empty, lru_capacity = capacity,
     lru_next_node = 0\<rparr>"

definition lru_victim :: "(lru_replacer, nat) action" where
  "lru_victim l =
     (if lru_nodes l = [] then (l, Inl NotFound)
      else let victim_frame_id = snd (last (lru_nodes l)) in
        (l\<lparr>lru_nodes := butlast (lru_nodes l),
           frame_positions := (frame_positions l)(victim_frame_id := None)\<rparr>,
         Inr victim_frame_id))"

definition lru_mark_evictable :: "nat \<Rightarrow> (lru_replacer, unit) action" where
  "lru_mark_evictable frame_id l =
     (if lru_capacity l \<le> frame_id then (l, Inl InvalidArgument)
      else if frame_positions l frame_id \<noteq> None then (l, Ok)
      else (l\<lparr>lru_nodes := (lru_next_node l, frame_id) # lru_nodes l,
             frame_positions := (frame_positions l)(frame_id \<mapsto> lru_next_node l),
             lru_next_node := Suc (lru_next_node l)\<rparr>, Ok))"

definition lru_mark_non_evictable :: "nat \<Rightarrow> (lru_replacer, unit) action" where
  "lru_mark_non_evictable frame_id l =
     (if lru_capacity l \<le> frame_id then (l, Inl InvalidArgument)
      else case frame_positions l frame_id of
        None \<Rightarrow> (l, Ok)
      | Some it \<Rightarrow>
          (l\<lparr>lru_nodes := filter (\<lambda>node. fst node \<noteq> it) (lru_nodes l),
             frame_positions := (frame_positions l)(frame_id := None)\<rparr>, Ok))"

definition lru_size :: "lru_replacer \<Rightarrow> nat" where
  "lru_size l = length (lru_nodes l)"

section \<open>The contract of a replacer\<close>

text \<open>
  \<open>frames l\<close> are the evictable frames, the next victim last.
\<close>

locale replacer =
  fixes inv :: "'l \<Rightarrow> bool" and frames :: "'l \<Rightarrow> nat list" and capacity :: "'l \<Rightarrow> nat"
    and victim :: "('l, nat) action"
    and mark_evictable :: "nat \<Rightarrow> ('l, unit) action"
    and mark_non_evictable :: "nat \<Rightarrow> ('l, unit) action"
  assumes frames_distinct: "inv l \<Longrightarrow> distinct (frames l)"
    and frames_bound: "inv l \<Longrightarrow> f \<in> set (frames l) \<Longrightarrow> f < capacity l"
    and victim_empty: "inv l \<Longrightarrow> frames l = [] \<Longrightarrow> victim l = (l, Inl NotFound)"
    and victim_last: "inv l \<Longrightarrow> frames l \<noteq> [] \<Longrightarrow> \<exists>l'. victim l = (l', Inr (last (frames l))) \<and>
      inv l' \<and> frames l' = butlast (frames l) \<and> capacity l' = capacity l"
    and evictable: "inv l \<Longrightarrow> f < capacity l \<Longrightarrow> \<exists>l'. mark_evictable f l = (l', Ok) \<and>
      inv l' \<and> capacity l' = capacity l \<and>
      frames l' = (if f \<in> set (frames l) then frames l else f # frames l)"
    and non_evictable: "inv l \<Longrightarrow> f < capacity l \<Longrightarrow> \<exists>l'. mark_non_evictable f l = (l', Ok) \<and>
      inv l' \<and> capacity l' = capacity l \<and> frames l' = removeAll f (frames l)"
begin

lemma victim_cases:
  assumes "inv l"
  obtains (none) "frames l = []" "victim l = (l, Inl NotFound)"
  | (some) l' where "frames l \<noteq> []" "victim l = (l', Inr (last (frames l)))" "inv l'"
      "frames l' = butlast (frames l)" "capacity l' = capacity l"
  using victim_empty[OF assms] victim_last[OF assms] by blast

lemma victim_not_evictable_again:
  assumes "inv l" "victim l = (l', Inr f)"
  shows "f \<in> set (frames l)" "f \<notin> set (frames l')" "inv l'"
    "set (frames l') = set (frames l) - {f}"
proof -
  from assms(1) have "f \<in> set (frames l) \<and> inv l' \<and> frames l' = butlast (frames l) \<and> f = last (frames l)"
    by (cases rule: victim_cases) (use assms(2) in auto)
  moreover from this have "frames l = butlast (frames l) @ [f]"
    by (metis append_butlast_last_id empty_iff list.set(1))
  moreover have "distinct (frames l)"
    using assms(1) by (rule frames_distinct)
  ultimately have "f \<in> set (frames l) \<and> f \<notin> set (frames l') \<and> inv l' \<and>
      set (frames l') = set (frames l) - {f}"
    by (metis (no_types, lifting) Diff_insert_absorb distinct.simps(2) distinct_append
        insert_iff list.simps(15) not_distinct_conv_prefix set_append Un_insert_right
        append_Nil2 sup_bot_right set_empty disjoint_insert(1))
  then show "f \<in> set (frames l)" "f \<notin> set (frames l')" "inv l'"
    "set (frames l') = set (frames l) - {f}" by auto
qed

end

section \<open>The replacer satisfies its contract\<close>

definition lru_inv :: "lru_replacer \<Rightarrow> bool" where
  "lru_inv l \<longleftrightarrow> distinct (map fst (lru_nodes l)) \<and>
     (\<forall>n \<in> fst ` set (lru_nodes l). n < lru_next_node l) \<and>
     (\<forall>f n. frame_positions l f = Some n \<longleftrightarrow> (n, f) \<in> set (lru_nodes l)) \<and>
     (\<forall>f \<in> snd ` set (lru_nodes l). f < lru_capacity l)"

definition lru_frames :: "lru_replacer \<Rightarrow> nat list" where
  "lru_frames l = map snd (lru_nodes l)"

lemma lru_new_inv [simp]: "lru_inv (lru_new n)" "lru_frames (lru_new n) = []"
    "lru_capacity (lru_new n) = n"
  by (simp_all add: lru_inv_def lru_new_def lru_frames_def)

lemma lru_inv_distinct_nodes: "lru_inv l \<Longrightarrow> distinct (lru_nodes l)"
  by (simp add: lru_inv_def distinct_map)

lemma lru_node_frame:
  "lru_inv l \<Longrightarrow> (n, f) \<in> set (lru_nodes l) \<Longrightarrow> (n, g) \<in> set (lru_nodes l) \<Longrightarrow> f = g"
  unfolding lru_inv_def by (blast intro: eq_key_imp_eq_value)

lemma lru_frame_node:
  assumes "lru_inv l" "(n, f) \<in> set (lru_nodes l)" "(m, f) \<in> set (lru_nodes l)"
  shows "n = m"
proof -
  have "frame_positions l f = Some n" "frame_positions l f = Some m"
    using assms by (simp_all add: lru_inv_def)
  then show ?thesis by simp
qed

lemma lru_inv_inj: "lru_inv l \<Longrightarrow> inj_on snd (set (lru_nodes l))"
  by (auto intro!: inj_onI dest: lru_frame_node)

lemma lru_inv_distinct_frames: "lru_inv l \<Longrightarrow> distinct (lru_frames l)"
  by (simp add: lru_frames_def distinct_map lru_inv_inj lru_inv_distinct_nodes)

lemma lru_position_None: "lru_inv l \<Longrightarrow> frame_positions l f = None \<longleftrightarrow> f \<notin> set (lru_frames l)"
  by (cases "frame_positions l f") (force simp: lru_inv_def lru_frames_def)+

lemma filter_node:
  assumes "lru_inv l" "frame_positions l f = Some n"
  shows "map snd (filter (\<lambda>node. fst node \<noteq> n) (lru_nodes l)) = removeAll f (lru_frames l)"
proof -
  have "fst node \<noteq> n \<longleftrightarrow> snd node \<noteq> f" if "node \<in> set (lru_nodes l)" for node
  proof -
    have "(n, f) \<in> set (lru_nodes l)"
      using assms by (simp add: lru_inv_def)
    moreover obtain a b where "node = (a, b)" by (metis surj_pair)
    ultimately show ?thesis
      using that lru_node_frame[OF assms(1), of n f b] lru_frame_node[OF assms(1), of n f a] by auto
  qed
  then have "filter (\<lambda>node. fst node \<noteq> n) (lru_nodes l) = filter (\<lambda>node. snd node \<noteq> f) (lru_nodes l)"
    by (rule filter_cong[OF refl])
  then show ?thesis
    by (simp add: lru_frames_def removeAll_filter_not_eq filter_map comp_def eq_commute)
qed

lemma lru_victim_last:
  assumes "lru_inv l" "lru_frames l \<noteq> []"
  shows "\<exists>l'. lru_victim l = (l', Inr (last (lru_frames l))) \<and>
      lru_inv l' \<and> lru_frames l' = butlast (lru_frames l) \<and> lru_capacity l' = lru_capacity l"
proof -
  obtain ns n f where l: "lru_nodes l = ns @ [(n, f)]"
    using assms(2) by (metis lru_frames_def list.map_disc_iff rev_exhaust surj_pair)
  have f: "f \<notin> snd ` set ns" "n \<notin> fst ` set ns"
    using lru_inv_distinct_frames[OF assms(1)] assms(1) by (auto simp: lru_frames_def l lru_inv_def)
  show ?thesis
    using assms(1) f by (auto simp: lru_victim_def l lru_inv_def lru_frames_def Let_def image_iff)
qed

lemma lru_mark_evictable_ok:
  assumes "lru_inv l" "f < lru_capacity l"
  shows "\<exists>l'. lru_mark_evictable f l = (l', Ok) \<and> lru_inv l' \<and> lru_capacity l' = lru_capacity l \<and>
      lru_frames l' = (if f \<in> set (lru_frames l) then lru_frames l else f # lru_frames l)"
proof (cases "frame_positions l f")
  case None
  then have f: "f \<notin> set (lru_frames l)" using lru_position_None[OF assms(1)] by simp
  with assms None show ?thesis
    by (auto simp: lru_mark_evictable_def lru_inv_def lru_frames_def image_iff)
next
  case (Some n)
  then have "f \<in> set (lru_frames l)" using lru_position_None[OF assms(1), of f] by simp
  with assms Some show ?thesis by (simp add: lru_mark_evictable_def)
qed

lemma lru_mark_non_evictable_ok:
  assumes "lru_inv l" "f < lru_capacity l"
  shows "\<exists>l'. lru_mark_non_evictable f l = (l', Ok) \<and> lru_inv l' \<and>
      lru_capacity l' = lru_capacity l \<and> lru_frames l' = removeAll f (lru_frames l)"
proof (cases "frame_positions l f")
  case None
  then have "f \<notin> set (lru_frames l)" using lru_position_None[OF assms(1)] by simp
  with assms None show ?thesis by (simp add: lru_mark_non_evictable_def removeAll_id)
next
  case (Some n)
  let ?l = "l\<lparr>lru_nodes := filter (\<lambda>node. fst node \<noteq> n) (lru_nodes l),
     frame_positions := (frame_positions l)(f := None)\<rparr>"
  have "lru_inv ?l"
    unfolding lru_inv_def
  proof (intro conjI allI)
    show "distinct (map fst (lru_nodes ?l))"
      using assms(1) by (simp add: lru_inv_def distinct_map_filter)
    show "\<forall>m \<in> fst ` set (lru_nodes ?l). m < lru_next_node ?l"
      using assms(1) by (auto simp: lru_inv_def)
    show "\<forall>g \<in> snd ` set (lru_nodes ?l). g < lru_capacity ?l"
      using assms(1) by (auto simp: lru_inv_def)
    have n: "(n, f) \<in> set (lru_nodes l)"
      using assms(1) Some by (simp add: lru_inv_def)
    have pos: "frame_positions l g = Some m \<longleftrightarrow> (m, g) \<in> set (lru_nodes l)" for g m
      using assms(1) by (simp add: lru_inv_def)
    show "frame_positions ?l g = Some m \<longleftrightarrow> (m, g) \<in> set (lru_nodes ?l)" for g m
    proof (cases "g = f")
      case True
      with n lru_frame_node[OF assms(1) _ n, of m] show ?thesis by auto
    next
      case False
      with n lru_node_frame[OF assms(1) n, of g] show ?thesis by (auto simp: pos)
    qed
  qed
  moreover have "lru_frames ?l = removeAll f (lru_frames l)"
    using filter_node[OF assms(1) Some] by (simp add: lru_frames_def)
  moreover have "lru_mark_non_evictable f l = (?l, Ok)"
    using assms(2) Some by (simp add: lru_mark_non_evictable_def)
  moreover have "lru_capacity ?l = lru_capacity l"
    by simp
  ultimately show ?thesis by blast
qed

interpretation lru: replacer lru_inv lru_frames lru_capacity lru_victim lru_mark_evictable
  lru_mark_non_evictable
proof
  show "lru_inv l \<Longrightarrow> f \<in> set (lru_frames l) \<Longrightarrow> f < lru_capacity l" for l f
    by (auto simp: lru_inv_def lru_frames_def)
  show "lru_inv l \<Longrightarrow> lru_frames l = [] \<Longrightarrow> lru_victim l = (l, Inl NotFound)" for l
    by (simp add: lru_victim_def lru_frames_def)
qed (simp_all add: lru_inv_distinct_frames lru_victim_last lru_mark_evictable_ok
    lru_mark_non_evictable_ok)

section \<open>Properties of the replacer\<close>

text \<open>
  The replacer is a first-in first-out queue of the evictable frames: marking enters a
  frame in front unless it is there already, \<open>victim\<close> takes the frame that has been in the
  queue the longest, unmarking removes a frame wherever it stands, and the node links and the
  position table stay consistent.
\<close>

theorem replacer_is_queue:
  assumes "lru_inv l" "f < lru_capacity l"
  shows "(\<exists>l'. lru_mark_evictable f l = (l', Ok) \<and> lru_inv l' \<and>
      lru_frames l' = (if f \<in> set (lru_frames l) then lru_frames l else f # lru_frames l)) \<and>
    (\<exists>l'. lru_mark_non_evictable f l = (l', Ok) \<and> lru_inv l' \<and>
      lru_frames l' = removeAll f (lru_frames l)) \<and>
    (if lru_frames l = [] then lru_victim l = (l, Inl NotFound)
     else \<exists>l'. lru_victim l = (l', Inr (last (lru_frames l))) \<and> lru_inv l' \<and>
       lru_frames l' = butlast (lru_frames l))"
  using lru.evictable[OF assms] lru.non_evictable[OF assms] lru.victim_empty[OF assms(1)]
    lru.victim_last[OF assms(1)] by auto

theorem replacer_is_queue_witness:
  "(\<exists>l'. lru_mark_evictable 1 (lru_new 2) = (l', Ok) \<and> lru_inv l' \<and>
      lru_frames l' = [1]) \<and> lru_victim (lru_new 2) = (lru_new 2, Inl NotFound)"
  using replacer_is_queue[of "lru_new 2" 1] by simp

end
