(* ===== verification/BufferPool.thy ===== *)
theory BufferPool
  imports LRUReplacer Codecs
begin

text \<open>
  The buffer pool of \<^verbatim>\<open>src/buffer\<close>: \<^verbatim>\<open>BufferFrame.h\<close>, \<^verbatim>\<open>BufferPoolManager.cpp\<close> and
  \<^verbatim>\<open>PagePin.cpp\<close>. The operations are actions over the pool; a \<open>PagePin\<close> holds the number
  of the frame its page pointer points into (\<open>frames_\<close> is never resized, so the pointer
  stays valid). The invariant \<open>pool_ok\<close> ties the page table, the free list, the frames and
  the replacer together; the lemmas give the effect of every operation on the abstract
  view \<open>cached\<close>, \<open>pins\<close>, \<open>dirty\<close>, and show that a pinned or dirty page is never evicted.
\<close>

section \<open>The code\<close>

record buffer_frame =
  bf_page :: page
  bf_pin_count :: "32 word"
  bf_is_dirty :: bool

definition frame_new :: buffer_frame where
  "frame_new = \<lparr>bf_page = new_page_value INVALID_PAGE_ID, bf_pin_count = 0, bf_is_dirty = False\<rparr>"

definition frame_pin :: "buffer_frame \<Rightarrow> buffer_frame" where
  "frame_pin f = f\<lparr>bf_pin_count := bf_pin_count f + 1\<rparr>"

definition frame_unpin :: "buffer_frame \<Rightarrow> buffer_frame result" where
  "frame_unpin f =
     (if 0 < bf_pin_count f then Inr (f\<lparr>bf_pin_count := bf_pin_count f - 1\<rparr>) else Inl InternalError)"

definition frame_is_pinned :: "buffer_frame \<Rightarrow> bool" where
  "frame_is_pinned f \<longleftrightarrow> 0 < bf_pin_count f"

record buffer_pool =
  bp_capacity :: nat
  bp_free_frame_ids :: "nat list"
  bp_frames :: "buffer_frame list"
  bp_page_frames :: "page_id \<rightharpoonup> nat"
  bp_lru :: lru_replacer

definition pool_new :: "nat \<Rightarrow> buffer_pool" where
  "pool_new capacity = \<lparr>bp_capacity = capacity, bp_free_frame_ids = [0..<capacity],
     bp_frames = replicate capacity frame_new, bp_page_frames = Map.empty,
     bp_lru = lru_new capacity\<rparr>"

record page_pin =
  pp_frame :: nat
  pp_is_dirty :: bool
  pp_owns_pin :: bool

definition set_frame :: "nat \<Rightarrow> (buffer_frame \<Rightarrow> buffer_frame) \<Rightarrow> buffer_pool \<Rightarrow> buffer_pool" where
  "set_frame f g b = b\<lparr>bp_frames := (bp_frames b)[f := g (bp_frames b ! f)]\<rparr>"

text \<open>A call of a member function of \<open>lru_\<close>.\<close>

definition on_lru :: "(lru_replacer, 'a) action \<Rightarrow> (buffer_pool, 'a) action" where
  "on_lru m b = (case m (bp_lru b) of (l, r) \<Rightarrow> (b\<lparr>bp_lru := l\<rparr>, r))"

text \<open>The lookup in \<open>page_frames_\<close> that the operations start with.\<close>

definition find_frame :: "page_id \<Rightarrow> (buffer_pool, nat) action" where
  "find_frame p b =
     (if p = INVALID_PAGE_ID then (b, Inl InvalidArgument)
      else case bp_page_frames b p of None \<Rightarrow> (b, Inl NotFound) | Some f \<Rightarrow> (b, Inr f))"

definition pin_page :: "page_id \<Rightarrow> (buffer_pool, unit) action" where
  "pin_page p =
     bind_action (find_frame p) (\<lambda>f.
     bind_action (on_lru (lru_mark_non_evictable f)) (\<lambda>_ b.
       (set_frame f frame_pin b, Ok)))"

definition unpin_page :: "page_id \<Rightarrow> bool \<Rightarrow> (buffer_pool, unit) action" where
  "unpin_page p is_dirty =
     bind_action (find_frame p) (\<lambda>f b.
       case frame_unpin (bp_frames b ! f) of
         Inl e \<Rightarrow> (b, Inl e)
       | Inr unpinned \<Rightarrow>
           (let b = set_frame f (\<lambda>_. unpinned) b;
                b = (if is_dirty then set_frame f (\<lambda>fr. fr\<lparr>bf_is_dirty := True\<rparr>) b else b) in
            if \<not> frame_is_pinned (bp_frames b ! f) \<and> \<not> bf_is_dirty (bp_frames b ! f)
            then on_lru (lru_mark_evictable f) b
            else (b, Ok)))"

definition pool_get_page :: "page_id \<Rightarrow> (buffer_pool, page_pin) action" where
  "pool_get_page p =
     bind_action (find_frame p) (\<lambda>f.
     bind_action (pin_page p) (\<lambda>_.
       return_action \<lparr>pp_frame = f, pp_is_dirty = False, pp_owns_pin = True\<rparr>))"

definition choose_frame :: "(buffer_pool, nat) action" where
  "choose_frame b =
     (if bp_free_frame_ids b \<noteq> [] then
        (b\<lparr>bp_free_frame_ids := butlast (bp_free_frame_ids b)\<rparr>, Inr (last (bp_free_frame_ids b)))
      else on_lru lru_victim b)"

definition pool_cache_page :: "page \<Rightarrow> (buffer_pool, page_pin) action" where
  "pool_cache_page page b =
     (if pg_id page = INVALID_PAGE_ID then (b, Inl InvalidArgument)
      else if bp_page_frames b (pg_id page) \<noteq> None then (b, Inl AlreadyExists)
      else bind_action choose_frame (\<lambda>f b.
        let b = b\<lparr>bp_page_frames := (bp_page_frames b)(pg_id (bf_page (bp_frames b ! f)) := None)\<rparr>;
            b = set_frame f (\<lambda>_. frame_new) b;
            b = set_frame f (\<lambda>fr. fr\<lparr>bf_page := page\<rparr>) b;
            b = set_frame f frame_pin b;
            b = b\<lparr>bp_page_frames := (bp_page_frames b)(pg_id page \<mapsto> f)\<rparr> in
        (b, Inr \<lparr>pp_frame = f, pp_is_dirty = False, pp_owns_pin = True\<rparr>)) b)"

definition clear_dirty :: "page_id \<Rightarrow> (buffer_pool, unit) action" where
  "clear_dirty p =
     bind_action (find_frame p) (\<lambda>f b.
       let b = set_frame f (\<lambda>fr. fr\<lparr>bf_is_dirty := False\<rparr>) b in
       if \<not> frame_is_pinned (bp_frames b ! f) then on_lru (lru_mark_evictable f) b else (b, Ok))"

definition can_discard_page :: "page_id \<Rightarrow> (buffer_pool, unit) action" where
  "can_discard_page p =
     bind_action (find_frame p) (\<lambda>f b.
       if frame_is_pinned (bp_frames b ! f) then (b, Inl InternalError) else (b, Ok))"

definition discard_page :: "page_id \<Rightarrow> (buffer_pool, unit) action" where
  "discard_page p =
     bind_action (can_discard_page p) (\<lambda>_.
     bind_action (find_frame p) (\<lambda>f.
     bind_action (on_lru (lru_mark_non_evictable f)) (\<lambda>_ b.
       let b = b\<lparr>bp_page_frames := (bp_page_frames b)(p := None)\<rparr>;
           b = set_frame f (\<lambda>_. frame_new) b in
       (b\<lparr>bp_free_frame_ids := bp_free_frame_ids b @ [f]\<rparr>, Ok))))"

definition can_restore_page :: "page \<Rightarrow> (buffer_pool, unit) action" where
  "can_restore_page page = can_discard_page (pg_id page)"

definition restore_page :: "page \<Rightarrow> (buffer_pool, unit) action" where
  "restore_page page =
     bind_action (can_restore_page page) (\<lambda>_.
     bind_action (find_frame (pg_id page)) (\<lambda>f.
     bind_action (clear_dirty (pg_id page)) (\<lambda>_ b.
       (set_frame f (\<lambda>fr. fr\<lparr>bf_page := page\<rparr>) b, Ok))))"

definition is_unpinned :: "page_id \<Rightarrow> (buffer_pool, bool) action" where
  "is_unpinned p =
     bind_action (find_frame p) (\<lambda>f b. (b, Inr (\<not> frame_is_pinned (bp_frames b ! f))))"

text \<open>
  \<open>PagePin::release\<close> unpins the page that the frame holds now and ignores the outcome.
  \<open>pin_write\<close> is a store through \<open>pin.page()->data()\<close>.
\<close>

definition pin_mark_dirty :: "page_pin \<Rightarrow> page_pin" where
  "pin_mark_dirty pin = pin\<lparr>pp_is_dirty := True\<rparr>"

definition pin_page_value :: "page_pin \<Rightarrow> buffer_pool \<Rightarrow> page" where
  "pin_page_value pin b = bf_page (bp_frames b ! pp_frame pin)"

definition pin_release :: "page_pin \<Rightarrow> buffer_pool \<Rightarrow> page_pin \<times> buffer_pool" where
  "pin_release pin b =
     (if pp_owns_pin pin then
        (pin\<lparr>pp_owns_pin := False\<rparr>,
         fst (unpin_page (pg_id (pin_page_value pin b)) (pp_is_dirty pin) b))
      else (pin, b))"

definition pin_write :: "page_pin \<Rightarrow> bytes \<Rightarrow> buffer_pool \<Rightarrow> buffer_pool" where
  "pin_write pin data =
     set_frame (pp_frame pin) (\<lambda>fr. fr\<lparr>bf_page := (bf_page fr)\<lparr>pg_data := data\<rparr>\<rparr>)"

section \<open>The invariant and the abstract view\<close>

definition pool_table :: "buffer_pool \<Rightarrow> bool" where
  "pool_table b \<longleftrightarrow>
     length (bp_frames b) = bp_capacity b \<and> lru_capacity (bp_lru b) = bp_capacity b \<and>
     lru_inv (bp_lru b) \<and>
     distinct (bp_free_frame_ids b) \<and> set (bp_free_frame_ids b) \<subseteq> {..<bp_capacity b} \<and>
     (\<forall>f \<in> set (bp_free_frame_ids b). bp_frames b ! f = frame_new) \<and>
     (\<forall>p f. bp_page_frames b p = Some f \<longleftrightarrow> f < bp_capacity b \<and>
        f \<notin> set (bp_free_frame_ids b) \<and> pg_id (bf_page (bp_frames b ! f)) = p) \<and>
     bp_page_frames b INVALID_PAGE_ID = None"

definition frame_evictable :: "buffer_frame \<Rightarrow> bool" where
  "frame_evictable fr \<longleftrightarrow> bf_pin_count fr = 0 \<and> \<not> bf_is_dirty fr"

definition pool_ok :: "buffer_pool \<Rightarrow> bool" where
  "pool_ok b \<longleftrightarrow> pool_table b \<and>
     (\<forall>f < bp_capacity b. f \<in> set (lru_frames (bp_lru b)) \<longleftrightarrow>
        f \<notin> set (bp_free_frame_ids b) \<and> frame_evictable (bp_frames b ! f))"

text \<open>
  The abstract pool: the cached frames by page, the evictable pages in eviction order (the
  next victim last) and the number of free frames.
\<close>

record lru_cache =
  lc_frames :: "page_id \<rightharpoonup> buffer_frame"
  lc_order :: "page_id list"
  lc_free :: nat

definition frame_page_id :: "buffer_pool \<Rightarrow> nat \<Rightarrow> page_id" where
  "frame_page_id b f = pg_id (bf_page (bp_frames b ! f))"

definition pool_abs :: "buffer_pool \<Rightarrow> lru_cache" where
  "pool_abs b = \<lparr>
     lc_frames = (\<lambda>p. map_option (\<lambda>f. bp_frames b ! f) (bp_page_frames b p)),
     lc_order = map (frame_page_id b) (lru_frames (bp_lru b)),
     lc_free = length (bp_free_frame_ids b)\<rparr>"

section \<open>The specification: an LRU cache with pins\<close>

text \<open>A page that becomes evictable enters the order in front; pinning takes it out.\<close>

definition enter_order :: "page_id \<Rightarrow> page_id list \<Rightarrow> page_id list" where
  "enter_order p ps = (if p \<in> set ps then ps else p # ps)"

definition spec_find :: "page_id \<Rightarrow> lru_cache \<Rightarrow> buffer_frame result" where
  "spec_find p c =
     (if p = INVALID_PAGE_ID then Inl InvalidArgument
      else case lc_frames c p of None \<Rightarrow> Inl NotFound | Some fr \<Rightarrow> Inr fr)"

definition spec_on :: "page_id \<Rightarrow> (buffer_frame \<Rightarrow> lru_cache \<Rightarrow> lru_cache \<times> 'a result) \<Rightarrow>
    lru_cache \<Rightarrow> lru_cache \<times> 'a result" where
  "spec_on p k c = (case spec_find p c of Inl e \<Rightarrow> (c, Inl e) | Inr fr \<Rightarrow> k fr c)"

definition spec_get_page :: "page_id \<Rightarrow> (lru_cache, unit) action" where
  "spec_get_page p = spec_on p (\<lambda>fr c.
     (c\<lparr>lc_frames := (lc_frames c)(p \<mapsto> frame_pin fr), lc_order := removeAll p (lc_order c)\<rparr>, Ok))"

definition spec_unpin_page :: "page_id \<Rightarrow> bool \<Rightarrow> (lru_cache, unit) action" where
  "spec_unpin_page p is_dirty = spec_on p (\<lambda>fr c.
     if bf_pin_count fr = 0 then (c, Inl InternalError)
     else let fr' = fr\<lparr>bf_pin_count := bf_pin_count fr - 1,
                      bf_is_dirty := bf_is_dirty fr \<or> is_dirty\<rparr> in
       (c\<lparr>lc_frames := (lc_frames c)(p \<mapsto> fr'),
          lc_order := (if frame_evictable fr' then enter_order p (lc_order c) else lc_order c)\<rparr>, Ok))"

definition spec_clear_dirty :: "page_id \<Rightarrow> (lru_cache, unit) action" where
  "spec_clear_dirty p = spec_on p (\<lambda>fr c.
     (c\<lparr>lc_frames := (lc_frames c)(p \<mapsto> fr\<lparr>bf_is_dirty := False\<rparr>),
        lc_order := (if bf_pin_count fr = 0 then enter_order p (lc_order c) else lc_order c)\<rparr>, Ok))"

definition spec_discard_page :: "page_id \<Rightarrow> (lru_cache, unit) action" where
  "spec_discard_page p = spec_on p (\<lambda>fr c.
     if bf_pin_count fr \<noteq> 0 then (c, Inl InternalError)
     else (c\<lparr>lc_frames := (lc_frames c)(p := None), lc_order := removeAll p (lc_order c),
        lc_free := Suc (lc_free c)\<rparr>, Ok))"

definition spec_restore_page :: "page \<Rightarrow> (lru_cache, unit) action" where
  "spec_restore_page page = spec_on (pg_id page) (\<lambda>fr c.
     if bf_pin_count fr \<noteq> 0 then (c, Inl InternalError)
     else (c\<lparr>lc_frames := (lc_frames c)(pg_id page \<mapsto> fr\<lparr>bf_is_dirty := False, bf_page := page\<rparr>),
        lc_order := enter_order (pg_id page) (lc_order c)\<rparr>, Ok))"

definition spec_cache_page :: "page \<Rightarrow> (lru_cache, unit) action" where
  "spec_cache_page page c =
     (if pg_id page = INVALID_PAGE_ID then (c, Inl InvalidArgument)
      else if lc_frames c (pg_id page) \<noteq> None then (c, Inl AlreadyExists)
      else let fresh = \<lparr>bf_page = page, bf_pin_count = 1, bf_is_dirty = False\<rparr> in
        if 0 < lc_free c then
          (c\<lparr>lc_frames := (lc_frames c)(pg_id page \<mapsto> fresh), lc_free := lc_free c - 1\<rparr>, Ok)
        else if lc_order c = [] then (c, Inl NotFound)
        else (c\<lparr>lc_frames := (lc_frames c)(last (lc_order c) := None, pg_id page \<mapsto> fresh),
                lc_order := butlast (lc_order c)\<rparr>, Ok))"

section \<open>The pool implements the specification\<close>

lemma pool_new_ok: "pool_ok (pool_new n)"
  by (auto simp: pool_ok_def pool_table_def pool_new_def)

lemma pool_new_abs:
  "pool_abs (pool_new n) = \<lparr>lc_frames = Map.empty, lc_order = [], lc_free = n\<rparr>"
  by (simp add: pool_abs_def pool_new_def fun_eq_iff)

lemma pool_table_frame:
  assumes "pool_table b" "bp_page_frames b p = Some f"
  shows "f < bp_capacity b" "f < length (bp_frames b)" "f \<notin> set (bp_free_frame_ids b)"
    "frame_page_id b f = p" "p \<noteq> INVALID_PAGE_ID"
proof -
  have d: "length (bp_frames b) = bp_capacity b" "bp_page_frames b INVALID_PAGE_ID = None"
    "bp_page_frames b p = Some f \<longleftrightarrow> f < bp_capacity b \<and> f \<notin> set (bp_free_frame_ids b) \<and>
      pg_id (bf_page (bp_frames b ! f)) = p"
    using assms(1) by (simp_all add: pool_table_def)
  show "f < bp_capacity b" "f < length (bp_frames b)" "f \<notin> set (bp_free_frame_ids b)"
    "frame_page_id b f = p" using d assms(2) by (simp_all add: frame_page_id_def)
  show "p \<noteq> INVALID_PAGE_ID" using d(2) assms(2) by auto
qed

lemma pool_table_page:
  assumes "pool_table b" "f < bp_capacity b" "f \<notin> set (bp_free_frame_ids b)"
  shows "bp_page_frames b (frame_page_id b f) = Some f"
  using assms by (simp add: pool_table_def frame_page_id_def)

lemma pool_table_inj:
  assumes "pool_table b"
  shows "inj_on (frame_page_id b) {f. f < bp_capacity b \<and> f \<notin> set (bp_free_frame_ids b)}"
  using pool_table_page[OF assms] by (auto intro!: inj_onI) (metis option.inject)

lemma pool_ok_lru:
  assumes "pool_ok b"
  shows "set (lru_frames (bp_lru b)) \<subseteq> {f. f < bp_capacity b \<and> f \<notin> set (bp_free_frame_ids b)}"
  using assms lru.frames_bound[of "bp_lru b"] by (auto simp: pool_ok_def pool_table_def)

lemma find_frame_spec:
  assumes "pool_table b"
  shows "(\<exists>e. find_frame p b = (b, Inl e) \<and> spec_find p (pool_abs b) = Inl e) \<or>
    (\<exists>f. find_frame p b = (b, Inr f) \<and> bp_page_frames b p = Some f \<and>
      spec_find p (pool_abs b) = Inr (bp_frames b ! f))"
  using pool_table_frame[OF assms]
  by (auto simp: find_frame_def spec_find_def pool_abs_def split: option.split)

text \<open>Updating the frame of a cached page in place.\<close>

lemma pool_table_set_frame:
  assumes "pool_table b" "bp_page_frames b p = Some f" "pg_id (bf_page (g (bp_frames b ! f))) = p"
  shows "pool_table (set_frame f g b)"
    and "pool_abs (set_frame f g b) =
      (pool_abs b)\<lparr>lc_frames := (lc_frames (pool_abs b))(p \<mapsto> g (bp_frames b ! f))\<rparr>"
proof -
  note f = pool_table_frame[OF assms(1,2)]
  have ids: "frame_page_id (set_frame f g b) = frame_page_id b"
  proof
    show "frame_page_id (set_frame f g b) h = frame_page_id b h" for h
      using assms(3) f(2,4) by (cases "h = f") (simp_all add: frame_page_id_def set_frame_def)
  qed
  then have id: "pg_id (bf_page (bp_frames (set_frame f g b) ! h)) = pg_id (bf_page (bp_frames b ! h))" for h
    by (simp add: frame_page_id_def fun_eq_iff)
  have free: "\<forall>h \<in> set (bp_free_frame_ids b). bp_frames (set_frame f g b) ! h = bp_frames b ! h"
  proof
    fix h assume "h \<in> set (bp_free_frame_ids b)"
    with f(3) have "h \<noteq> f" by blast
    then show "bp_frames (set_frame f g b) ! h = bp_frames b ! h" by (simp add: set_frame_def)
  qed
  show "pool_table (set_frame f g b)"
    using assms(1) free unfolding pool_table_def id by (simp add: set_frame_def)
  have "map_option (\<lambda>h. bp_frames (set_frame f g b) ! h) (bp_page_frames b q) =
      ((lc_frames (pool_abs b))(p \<mapsto> g (bp_frames b ! f))) q" for q
  proof (cases "q = p")
    case True
    then show ?thesis using assms(2) f(2) by (simp add: set_frame_def)
  next
    case False
    then have "bp_page_frames b q \<noteq> Some f"
      using pool_table_frame(4)[OF assms(1), of q f] f(4) by auto
    then show ?thesis
      using False by (cases "bp_page_frames b q") (simp_all add: set_frame_def pool_abs_def)
  qed
  moreover have "bp_page_frames (set_frame f g b) = bp_page_frames b"
    "bp_lru (set_frame f g b) = bp_lru b" "bp_free_frame_ids (set_frame f g b) = bp_free_frame_ids b"
    by (simp_all add: set_frame_def)
  ultimately show "pool_abs (set_frame f g b) =
      (pool_abs b)\<lparr>lc_frames := (lc_frames (pool_abs b))(p \<mapsto> g (bp_frames b ! f))\<rparr>"
    using ids by (simp add: pool_abs_def fun_eq_iff)
qed

text \<open>Calls of the replacer, seen in the abstract pool.\<close>

lemma on_lru_non_evictable:
  assumes "pool_ok b" "bp_page_frames b p = Some f"
  shows "\<exists>l. on_lru (lru_mark_non_evictable f) b = (b\<lparr>bp_lru := l\<rparr>, Ok) \<and>
    pool_table (b\<lparr>bp_lru := l\<rparr>) \<and> lru_frames l = removeAll f (lru_frames (bp_lru b)) \<and>
    pool_abs (b\<lparr>bp_lru := l\<rparr>) = (pool_abs b)\<lparr>lc_order := removeAll p (lc_order (pool_abs b))\<rparr>"
proof -
  have t: "pool_table b" using assms(1) by (simp add: pool_ok_def)
  note f = pool_table_frame[OF t assms(2)]
  from t f(1) lru.non_evictable[of "bp_lru b" f] obtain l where l:
    "lru_mark_non_evictable f (bp_lru b) = (l, Ok)" "lru_inv l"
    "lru_capacity l = lru_capacity (bp_lru b)"
    "lru_frames l = removeAll f (lru_frames (bp_lru b))" by (auto simp: pool_table_def)
  have "map (frame_page_id b) (removeAll f fs) = removeAll p (map (frame_page_id b) fs)"
    if "set fs \<subseteq> {f. f < bp_capacity b \<and> f \<notin> set (bp_free_frame_ids b)}" for fs
    using that f(1,3,4) inj_onD[OF pool_table_inj[OF t], of f]
    by (induction fs) auto
  from this[OF pool_ok_lru[OF assms(1)]] l t show ?thesis
    by (intro exI[of _ l])
      (simp add: on_lru_def pool_table_def pool_abs_def frame_page_id_def[abs_def])
qed

lemma on_lru_evictable:
  assumes "pool_table b" "bp_page_frames b p = Some f"
    and "set (lru_frames (bp_lru b)) \<subseteq> {f. f < bp_capacity b \<and> f \<notin> set (bp_free_frame_ids b)}"
  shows "\<exists>l. on_lru (lru_mark_evictable f) b = (b\<lparr>bp_lru := l\<rparr>, Ok) \<and>
    pool_table (b\<lparr>bp_lru := l\<rparr>) \<and> set (lru_frames l) = insert f (set (lru_frames (bp_lru b))) \<and>
    pool_abs (b\<lparr>bp_lru := l\<rparr>) = (pool_abs b)\<lparr>lc_order := enter_order p (lc_order (pool_abs b))\<rparr>"
proof -
  note f = pool_table_frame[OF assms(1,2)]
  from assms(1) f(1) lru.evictable[of "bp_lru b" f] obtain l where l:
    "lru_mark_evictable f (bp_lru b) = (l, Ok)" "lru_inv l"
    "lru_capacity l = lru_capacity (bp_lru b)"
    "lru_frames l = (if f \<in> set (lru_frames (bp_lru b)) then lru_frames (bp_lru b)
      else f # lru_frames (bp_lru b))" by (auto simp: pool_table_def)
  have "p \<in> frame_page_id b ` set (lru_frames (bp_lru b)) \<longleftrightarrow> f \<in> set (lru_frames (bp_lru b))"
    using f assms(3) inj_onD[OF pool_table_inj[OF assms(1)], of f] by auto
  with l assms(1) f(4) show ?thesis
    by (intro exI[of _ l])
      (simp add: on_lru_def pool_table_def pool_abs_def frame_page_id_def[abs_def] enter_order_def
        insert_absorb)
qed


text \<open>
  The refinement of the operations: each changes the abstract pool the way the
  specification does, and keeps the invariant. Only \<open>get_page\<close> can break it, when the pin
  count of the page wraps around at \<open>2^32\<close>.
\<close>

definition implements :: "(buffer_pool, 'a) action \<Rightarrow> (lru_cache, unit) action \<Rightarrow> buffer_pool \<Rightarrow> bool" where
  "implements m spec b \<longleftrightarrow>
     (case m b of (b', r) \<Rightarrow>
        spec (pool_abs b) = (pool_abs b', map_sum (\<lambda>e. e) (\<lambda>_. ()) r) \<and>
        bp_capacity b' = bp_capacity b \<and> pool_ok b')"

lemma pool_ok_table: "pool_ok b \<Longrightarrow> pool_table b"
  by (simp add: pool_ok_def)

lemma pool_abs_frame: "bp_page_frames b p = Some f \<Longrightarrow> lc_frames (pool_abs b) p = Some (bp_frames b ! f)"
  by (simp add: pool_abs_def)

lemma implements_found:
  assumes "pool_ok b"
    and "\<And>f. \<lbrakk>find_frame p b = (b, Inr f); bp_page_frames b p = Some f;
        spec_find p (pool_abs b) = Inr (bp_frames b ! f)\<rbrakk> \<Longrightarrow>
      implements (m f) (spec (bp_frames b ! f)) b"
  shows "implements (bind_action (find_frame p) m) (spec_on p spec) b"
  using find_frame_spec[OF pool_ok_table[OF assms(1)], of p] assms
  by (auto simp: implements_def bind_action_def spec_on_def)

lemma pin_wraps: "x + 1 = 0 \<longleftrightarrow> x = (0xFFFFFFFF :: 32 word)"
proof -
  have "(0xFFFFFFFF :: 32 word) = - 1" by simp
  then show ?thesis by (metis eq_neg_iff_add_eq_0)
qed

lemma pool_get_page_implements:
  assumes "pool_ok b" "\<And>fr. lc_frames (pool_abs b) p = Some fr \<Longrightarrow> bf_pin_count fr \<noteq> 0xFFFFFFFF"
  shows "implements (pool_get_page p) (spec_get_page p) b"
  unfolding pool_get_page_def spec_get_page_def
proof (rule implements_found[OF assms(1)])
  fix f assume f: "find_frame p b = (b, Inr f)" "bp_page_frames b p = Some f"
  note t = pool_ok_table[OF assms(1)]
  note fb = pool_table_frame[OF t f(2)]
  from on_lru_non_evictable[OF assms(1) f(2)] obtain l where l:
    "on_lru (lru_mark_non_evictable f) b = (b\<lparr>bp_lru := l\<rparr>, Ok)" "pool_table (b\<lparr>bp_lru := l\<rparr>)"
    "lru_frames l = removeAll f (lru_frames (bp_lru b))"
    "pool_abs (b\<lparr>bp_lru := l\<rparr>) = (pool_abs b)\<lparr>lc_order := removeAll p (lc_order (pool_abs b))\<rparr>"
    by blast
  let ?b = "set_frame f frame_pin (b\<lparr>bp_lru := l\<rparr>)"
  have g: "pg_id (bf_page (frame_pin (bp_frames (b\<lparr>bp_lru := l\<rparr>) ! f))) = p"
    using fb(4) by (simp add: frame_pin_def frame_page_id_def)
  note u = pool_table_set_frame[where b = "b\<lparr>bp_lru := l\<rparr>" and p = p and f = f and g = frame_pin, OF l(2) _ g]
  have "bf_pin_count (bp_frames b ! f) + 1 \<noteq> 0"
    using assms(2)[OF pool_abs_frame[OF f(2)]] pin_wraps by blast
  then have "pool_ok ?b"
    using assms(1) u(1) f(2) fb l(3)
    by (simp add: pool_ok_def) (simp add: set_frame_def nth_list_update frame_evictable_def frame_pin_def)
  with u(2) f l show "implements (\<lambda>b. bind_action (pin_page p) (\<lambda>_. return_action
      \<lparr>pp_frame = f, pp_is_dirty = False, pp_owns_pin = True\<rparr>) b)
    (\<lambda>c. (c\<lparr>lc_frames := (lc_frames c)(p \<mapsto> frame_pin (bp_frames b ! f)),
       lc_order := removeAll p (lc_order c)\<rparr>, Ok)) b"
    by (simp add: implements_def pin_page_def bind_action_def set_frame_def)
qed


text \<open>
  The pattern of \<open>unpin_page\<close> and \<open>clear_dirty\<close>: update the frame and, if that made it
  evictable, tell the replacer.
\<close>

lemma update_then_evictable:
  assumes b: "pool_ok b" "bp_page_frames b p = Some f"
    and g: "pg_id (bf_page (g (bp_frames b ! f))) = p"
      "frame_evictable (bp_frames b ! f) \<Longrightarrow> frame_evictable (g (bp_frames b ! f))"
  defines "b1 \<equiv> set_frame f g b"
  shows "\<exists>b'. (if frame_evictable (bp_frames b1 ! f) then on_lru (lru_mark_evictable f) b1
      else (b1, Ok)) = (b', Ok) \<and> pool_ok b' \<and> bp_capacity b' = bp_capacity b \<and>
    bp_frames b' = bp_frames b1 \<and> bp_page_frames b' = bp_page_frames b \<and>
    pool_abs b' = (pool_abs b)\<lparr>lc_frames := (lc_frames (pool_abs b))(p \<mapsto> g (bp_frames b ! f)),
      lc_order := (if frame_evictable (g (bp_frames b ! f)) then enter_order p (lc_order (pool_abs b))
        else lc_order (pool_abs b))\<rparr>"
proof -
  note t = pool_ok_table[OF b(1)]
  note fb = pool_table_frame[OF t b(2)]
  note u = pool_table_set_frame[where g = g, OF t b(2) g(1), folded b1_def]
  have b1: "bp_frames b1 ! f = g (bp_frames b ! f)" "bp_page_frames b1 = bp_page_frames b"
    "bp_lru b1 = bp_lru b" "bp_free_frame_ids b1 = bp_free_frame_ids b"
    "bp_capacity b1 = bp_capacity b"
    "\<And>h. h \<noteq> f \<Longrightarrow> bp_frames b1 ! h = bp_frames b ! h"
    using fb(2) by (simp_all add: b1_def set_frame_def)
  have exact: "h \<in> set (lru_frames (bp_lru b)) \<longleftrightarrow> h \<notin> set (bp_free_frame_ids b) \<and>
      frame_evictable (bp_frames b ! h)" if "h < bp_capacity b" for h
    using b(1) that by (simp add: pool_ok_def)
  show ?thesis
  proof (cases "frame_evictable (g (bp_frames b ! f))")
    case True
    from on_lru_evictable[OF u(1), of p f] b1 b(2) pool_ok_lru[OF b(1)] obtain l where l:
      "on_lru (lru_mark_evictable f) b1 = (b1\<lparr>bp_lru := l\<rparr>, Ok)" "pool_table (b1\<lparr>bp_lru := l\<rparr>)"
      "set (lru_frames l) = insert f (set (lru_frames (bp_lru b)))"
      "pool_abs (b1\<lparr>bp_lru := l\<rparr>) =
        (pool_abs b1)\<lparr>lc_order := enter_order p (lc_order (pool_abs b1))\<rparr>" by auto
    have "h \<in> set (lru_frames l) \<longleftrightarrow> h \<notin> set (bp_free_frame_ids b) \<and>
        frame_evictable (bp_frames b1 ! h)" if "h < bp_capacity b" for h
      using exact[OF that] l(3) b1(1,6) True fb(3) by (cases "h = f") auto
    with l(2) b1 have "pool_ok (b1\<lparr>bp_lru := l\<rparr>)" by (simp add: pool_ok_def)
    with True b1 l(1,4) u(2) show ?thesis
      by (intro exI[of _ "b1\<lparr>bp_lru := l\<rparr>"]) simp
  next
    case False
    have "h \<in> set (lru_frames (bp_lru b)) \<longleftrightarrow> h \<notin> set (bp_free_frame_ids b) \<and>
        frame_evictable (bp_frames b1 ! h)" if "h < bp_capacity b" for h
      using exact[OF that] b1(1,6) False g(2) by (cases "h = f") auto
    with u(1) b1 have "pool_ok b1" by (simp add: pool_ok_def)
    with False b1 u(2) show ?thesis by (intro exI[of _ b1]) simp
  qed
qed

lemma set_frame_set_frame: "f < length (bp_frames b) \<Longrightarrow>
    set_frame f g (set_frame f h b) = set_frame f (g \<circ> h) b"
  by (simp add: set_frame_def)

lemma frame_evictable_iff: "frame_evictable fr \<longleftrightarrow> \<not> frame_is_pinned fr \<and> \<not> bf_is_dirty fr"
  by (auto simp: frame_evictable_def frame_is_pinned_def word_gt_0)

lemma unpin_page_implements:
  assumes "pool_ok b"
  shows "implements (unpin_page p d) (spec_unpin_page p d) b"
  unfolding unpin_page_def spec_unpin_page_def
proof (rule implements_found[OF assms])
  fix f assume f: "bp_page_frames b p = Some f"
  let ?fr = "bp_frames b ! f"
  let ?g = "\<lambda>fr. fr\<lparr>bf_pin_count := bf_pin_count ?fr - 1, bf_is_dirty := bf_is_dirty ?fr \<or> d\<rparr>"
  note fb = pool_table_frame[OF pool_ok_table[OF assms] f]
  show "implements (\<lambda>b. case frame_unpin (bp_frames b ! f) of Inl e \<Rightarrow> (b, Inl e)
      | Inr unpinned \<Rightarrow>
           (let b = set_frame f (\<lambda>_. unpinned) b;
                b = (if d then set_frame f (\<lambda>fr. fr\<lparr>bf_is_dirty := True\<rparr>) b else b) in
            if \<not> frame_is_pinned (bp_frames b ! f) \<and> \<not> bf_is_dirty (bp_frames b ! f)
            then on_lru (lru_mark_evictable f) b else (b, Ok)))
    (\<lambda>c. if bf_pin_count ?fr = 0 then (c, Inl InternalError)
     else let fr' = ?fr\<lparr>bf_pin_count := bf_pin_count ?fr - 1, bf_is_dirty := bf_is_dirty ?fr \<or> d\<rparr> in
       (c\<lparr>lc_frames := (lc_frames c)(p \<mapsto> fr'),
          lc_order := (if frame_evictable fr' then enter_order p (lc_order c) else lc_order c)\<rparr>, Ok)) b"
  proof (cases "bf_pin_count ?fr = 0")
    case True
    with assms show ?thesis by (simp add: implements_def frame_unpin_def)
  next
    case False
    let ?x = "?fr\<lparr>bf_pin_count := bf_pin_count ?fr - 1\<rparr>"
    have "pg_id (bf_page (?g ?fr)) = p" "\<not> frame_evictable ?fr"
      using fb(4) False by (simp_all add: frame_page_id_def frame_evictable_def)
    with update_then_evictable[where g = ?g, OF assms f] obtain b' where b':
      "(if frame_evictable (bp_frames (set_frame f ?g b) ! f)
        then on_lru (lru_mark_evictable f) (set_frame f ?g b) else (set_frame f ?g b, Ok)) = (b', Ok)"
      "pool_ok b'" "bp_capacity b' = bp_capacity b"
      "pool_abs b' = (pool_abs b)\<lparr>lc_frames := (lc_frames (pool_abs b))(p \<mapsto> ?g ?fr),
        lc_order := (if frame_evictable (?g ?fr) then enter_order p (lc_order (pool_abs b))
          else lc_order (pool_abs b))\<rparr>" by blast
    have stores: "(if d then set_frame f (\<lambda>fr. fr\<lparr>bf_is_dirty := True\<rparr>) (set_frame f (\<lambda>_. ?x) b)
        else set_frame f (\<lambda>_. ?x) b) = set_frame f ?g b"
      using fb(2) by (simp add: set_frame_def)
    have "frame_unpin ?fr = Inr ?x"
      using False by (simp add: frame_unpin_def word_gt_0)
    then have "(case frame_unpin ?fr of Inl e \<Rightarrow> (b, Inl e)
      | Inr unpinned \<Rightarrow>
           (let b = set_frame f (\<lambda>_. unpinned) b;
                b = (if d then set_frame f (\<lambda>fr. fr\<lparr>bf_is_dirty := True\<rparr>) b else b) in
            if \<not> frame_is_pinned (bp_frames b ! f) \<and> \<not> bf_is_dirty (bp_frames b ! f)
            then on_lru (lru_mark_evictable f) b else (b, Ok))) = (b', Ok)"
      by (simp only: sum.case Let_def stores frame_evictable_iff[symmetric] b'(1))
    with b'(2-4) False show ?thesis
      by (simp add: implements_def Let_def)
  qed
qed


lemma clear_dirty_found:
  assumes b: "pool_ok b" "bp_page_frames b p = Some f"
  defines "fr \<equiv> bp_frames b ! f"
  shows "\<exists>b'. clear_dirty p b = (b', Ok) \<and> pool_ok b' \<and> bp_capacity b' = bp_capacity b \<and>
    bp_page_frames b' = bp_page_frames b \<and> bp_frames b' ! f = fr\<lparr>bf_is_dirty := False\<rparr> \<and>
    pool_abs b' = (pool_abs b)\<lparr>lc_frames := (lc_frames (pool_abs b))(p \<mapsto> fr\<lparr>bf_is_dirty := False\<rparr>),
      lc_order := (if bf_pin_count fr = 0 then enter_order p (lc_order (pool_abs b))
        else lc_order (pool_abs b))\<rparr>"
proof -
  let ?g = "\<lambda>fr. fr\<lparr>bf_is_dirty := False\<rparr>"
  note fb = pool_table_frame[OF pool_ok_table[OF b(1)] b(2)]
  have g: "pg_id (bf_page (?g (bp_frames b ! f))) = p"
    "frame_evictable (bp_frames b ! f) \<Longrightarrow> frame_evictable (?g (bp_frames b ! f))"
    using fb(4) by (simp_all add: frame_page_id_def frame_evictable_def)
  have ev: "frame_evictable (?g fr) \<longleftrightarrow> bf_pin_count fr = 0"
    "\<not> frame_is_pinned (bp_frames (set_frame f ?g b) ! f) \<longleftrightarrow> bf_pin_count fr = 0"
    "frame_evictable (bp_frames (set_frame f ?g b) ! f) \<longleftrightarrow> bf_pin_count fr = 0"
    using fb(2) by (simp_all add: fr_def frame_evictable_def frame_is_pinned_def set_frame_def word_gt_0)
  have "find_frame p b = (b, Inr f)"
    using b(2) fb(5) by (simp add: find_frame_def)
  with update_then_evictable[where g = ?g, OF b g] fb(2) show ?thesis
    by (simp add: clear_dirty_def bind_action_def Let_def ev fr_def[symmetric])
      (auto simp: set_frame_def fr_def)
qed

lemma clear_dirty_implements:
  assumes "pool_ok b"
  shows "implements (clear_dirty p) (spec_clear_dirty p) b"
proof (cases "\<exists>f. find_frame p b = (b, Inr f) \<and> bp_page_frames b p = Some f \<and>
      spec_find p (pool_abs b) = Inr (bp_frames b ! f)")
  case True
  then obtain f where f: "bp_page_frames b p = Some f" "spec_find p (pool_abs b) = Inr (bp_frames b ! f)"
    by blast
  from clear_dirty_found[OF assms f(1)] obtain b' where "clear_dirty p b = (b', Ok)" "pool_ok b'"
    "bp_capacity b' = bp_capacity b"
    "pool_abs b' = (pool_abs b)\<lparr>lc_frames := (lc_frames (pool_abs b))(p \<mapsto> (bp_frames b ! f)\<lparr>bf_is_dirty := False\<rparr>),
      lc_order := (if bf_pin_count (bp_frames b ! f) = 0 then enter_order p (lc_order (pool_abs b))
        else lc_order (pool_abs b))\<rparr>" by blast
  then show ?thesis
    by (simp add: implements_def spec_clear_dirty_def spec_on_def f)
next
  case False
  with find_frame_spec[OF pool_ok_table[OF assms], of p] assms show ?thesis
    by (auto simp: implements_def clear_dirty_def spec_clear_dirty_def spec_on_def bind_action_def)
qed

lemma can_discard_page_cases:
  assumes "pool_ok b"
  shows "can_discard_page p b = (b, (case spec_find p (pool_abs b) of Inl e \<Rightarrow> Inl e
     | Inr fr \<Rightarrow> if bf_pin_count fr \<noteq> 0 then Inl InternalError else Ok))"
  using find_frame_spec[OF pool_ok_table[OF assms], of p]
  by (auto simp: can_discard_page_def bind_action_def frame_is_pinned_def word_gt_0)

lemma discard_table:
  assumes t: "pool_table b" "bp_page_frames b p = Some f" "f \<notin> set (lru_frames (bp_lru b))"
  defines "b' \<equiv> set_frame f (\<lambda>_. frame_new) (b\<lparr>bp_page_frames := (bp_page_frames b)(p := None)\<rparr>)
    \<lparr>bp_free_frame_ids := bp_free_frame_ids b @ [f]\<rparr>"
  shows "pool_table b'"
    and "lc_frames (pool_abs b') = (lc_frames (pool_abs b))(p := None)"
    and "lc_order (pool_abs b') = lc_order (pool_abs b)"
    and "lc_free (pool_abs b') = Suc (lc_free (pool_abs b))"
proof -
  note fb = pool_table_frame[OF t(1,2)]
  have b': "bp_frames b' ! f = frame_new" "\<And>h. h \<noteq> f \<Longrightarrow> bp_frames b' ! h = bp_frames b ! h"
    "length (bp_frames b') = length (bp_frames b)"
    "bp_page_frames b' = (bp_page_frames b)(p := None)" "bp_lru b' = bp_lru b"
    "bp_free_frame_ids b' = bp_free_frame_ids b @ [f]" "bp_capacity b' = bp_capacity b"
    using fb(2) by (simp_all add: b'_def set_frame_def)
  have pf: "bp_page_frames b q = Some h \<longleftrightarrow> h < bp_capacity b \<and> h \<notin> set (bp_free_frame_ids b) \<and>
      pg_id (bf_page (bp_frames b ! h)) = q" for q h
    using t(1) by (simp add: pool_table_def)
  have pf': "bp_page_frames b' q = Some h \<longleftrightarrow> h < bp_capacity b' \<and> h \<notin> set (bp_free_frame_ids b') \<and>
      pg_id (bf_page (bp_frames b' ! h)) = q" for q h
  proof (cases "h = f")
    case True
    then show ?thesis using pf[of q f] fb(4) by (auto simp: b' frame_page_id_def)
  next
    case False
    then have "bp_page_frames b p \<noteq> Some h" using t(2) by simp
    with False pf[of q h] show ?thesis by (auto simp: b')
  qed
  have free: "bp_frames b' ! h = frame_new" if "h \<in> set (bp_free_frame_ids b')" for h
    using that t(1) fb(3) b'(1,2) by (cases "h = f") (auto simp: b' pool_table_def)
  show "pool_table b'"
    unfolding pool_table_def using t(1) fb(1,3) pf' free
    by (auto simp: b' pool_table_def)
  show "lc_frames (pool_abs b') = (lc_frames (pool_abs b))(p := None)"
  proof
    show "lc_frames (pool_abs b') q = ((lc_frames (pool_abs b))(p := None)) q" for q
      using pool_table_frame(4)[OF t(1), of q f] fb(4) b'(2)
      by (cases "bp_page_frames b q") (auto simp: pool_abs_def b'(4))
  qed
  show "lc_order (pool_abs b') = lc_order (pool_abs b)"
    using t(3) by (auto simp: pool_abs_def b'(5) frame_page_id_def intro!: b'(2) arg_cong[where f = "\<lambda>x. pg_id (bf_page x)"])
  show "lc_free (pool_abs b') = Suc (lc_free (pool_abs b))"
    by (simp add: pool_abs_def b')
qed

lemma discard_page_implements:
  assumes "pool_ok b"
  shows "implements (discard_page p) (spec_discard_page p) b"
proof (cases "\<exists>f. find_frame p b = (b, Inr f) \<and> bp_page_frames b p = Some f \<and>
      spec_find p (pool_abs b) = Inr (bp_frames b ! f) \<and> bf_pin_count (bp_frames b ! f) = 0")
  case False
  with find_frame_spec[OF pool_ok_table[OF assms], of p] assms show ?thesis
    by (auto simp: implements_def discard_page_def spec_discard_page_def spec_on_def bind_action_def
        can_discard_page_cases)
next
  case True
  then obtain f where f: "find_frame p b = (b, Inr f)" "bp_page_frames b p = Some f"
    "spec_find p (pool_abs b) = Inr (bp_frames b ! f)" "bf_pin_count (bp_frames b ! f) = 0" by blast
  note fb = pool_table_frame[OF pool_ok_table[OF assms] f(2)]
  from on_lru_non_evictable[OF assms f(2)] obtain l where l:
    "on_lru (lru_mark_non_evictable f) b = (b\<lparr>bp_lru := l\<rparr>, Ok)" "pool_table (b\<lparr>bp_lru := l\<rparr>)"
    "lru_frames l = removeAll f (lru_frames (bp_lru b))"
    "pool_abs (b\<lparr>bp_lru := l\<rparr>) = (pool_abs b)\<lparr>lc_order := removeAll p (lc_order (pool_abs b))\<rparr>"
    by blast
  let ?b = "b\<lparr>bp_lru := l\<rparr>"
  let ?b' = "set_frame f (\<lambda>_. frame_new) (?b\<lparr>bp_page_frames := (bp_page_frames ?b)(p := None)\<rparr>)
    \<lparr>bp_free_frame_ids := bp_free_frame_ids ?b @ [f]\<rparr>"
  have d: "pool_table ?b'" "lc_frames (pool_abs ?b') = (lc_frames (pool_abs b))(p := None)"
    "lc_order (pool_abs ?b') = removeAll p (lc_order (pool_abs b))"
    "lc_free (pool_abs ?b') = Suc (lc_free (pool_abs b))"
    using discard_table[OF l(2), of p f] f(2) l(3,4) by simp_all
  have run: "discard_page p b = (?b', Ok)"
    using f l(1) by (simp add: discard_page_def bind_action_def can_discard_page_cases[OF assms]
        Let_def set_frame_def)
  have exact: "h \<in> set (lru_frames (bp_lru b)) \<longleftrightarrow> h \<notin> set (bp_free_frame_ids b) \<and>
      frame_evictable (bp_frames b ! h)" if "h < bp_capacity b" for h
    using assms that by (simp add: pool_ok_def)
  have "pool_ok ?b'"
    using d(1) exact fb(2) by (auto simp: pool_ok_def l(3) set_frame_def nth_list_update)
  moreover have "pool_abs ?b' = (pool_abs b)\<lparr>lc_frames := (lc_frames (pool_abs b))(p := None),
      lc_order := removeAll p (lc_order (pool_abs b)), lc_free := Suc (lc_free (pool_abs b))\<rparr>"
    using d(2-4) by (intro lru_cache.equality) simp_all
  ultimately show ?thesis
    using run f by (simp add: implements_def spec_discard_page_def spec_on_def set_frame_def)
qed


lemma restore_page_implements:
  assumes "pool_ok b"
  shows "implements (restore_page page) (spec_restore_page page) b"
proof (cases "\<exists>f. find_frame (pg_id page) b = (b, Inr f) \<and> bp_page_frames b (pg_id page) = Some f \<and>
      spec_find (pg_id page) (pool_abs b) = Inr (bp_frames b ! f) \<and>
      bf_pin_count (bp_frames b ! f) = 0")
  case False
  with find_frame_spec[OF pool_ok_table[OF assms], of "pg_id page"] assms show ?thesis
    by (auto simp: implements_def restore_page_def spec_restore_page_def spec_on_def bind_action_def
        can_discard_page_cases can_restore_page_def)
next
  case True
  let ?p = "pg_id page"
  obtain f where f: "find_frame ?p b = (b, Inr f)" "bp_page_frames b ?p = Some f"
    "spec_find ?p (pool_abs b) = Inr (bp_frames b ! f)" "bf_pin_count (bp_frames b ! f) = 0"
    using True by blast
  let ?fr = "bp_frames b ! f" and ?g = "\<lambda>fr. fr\<lparr>bf_page := page\<rparr>"
  from clear_dirty_found[OF assms f(2)] f(4) obtain b1 where b1: "clear_dirty ?p b = (b1, Ok)"
    "pool_ok b1" "bp_capacity b1 = bp_capacity b" "bp_page_frames b1 = bp_page_frames b"
    "bp_frames b1 ! f = ?fr\<lparr>bf_is_dirty := False\<rparr>"
    "pool_abs b1 = (pool_abs b)\<lparr>lc_frames := (lc_frames (pool_abs b))(?p \<mapsto> ?fr\<lparr>bf_is_dirty := False\<rparr>),
      lc_order := enter_order ?p (lc_order (pool_abs b))\<rparr>" by auto
  have pf: "bp_page_frames b1 ?p = Some f" using b1(4) f(2) by simp
  let ?b' = "set_frame f ?g b1"
  note u = pool_table_set_frame[where g = ?g, OF pool_ok_table[OF b1(2)] pf]
  have fl: "f < length (bp_frames b1)"
    using pool_table_frame(2)[OF pool_ok_table[OF b1(2)] pf] .
  have "frame_evictable (bp_frames ?b' ! h) = frame_evictable (bp_frames b1 ! h)" for h
    using fl by (cases "h = f") (simp_all add: set_frame_def frame_evictable_def)
  then have "pool_ok ?b'"
    using u(1) b1(2) by (simp add: pool_ok_def) (simp add: set_frame_def)
  moreover have "restore_page page b = (?b', Ok)"
    using f b1(1) by (simp add: restore_page_def bind_action_def can_restore_page_def
        can_discard_page_cases[OF assms])
  moreover have "pool_abs ?b' = (pool_abs b)\<lparr>lc_frames := (lc_frames (pool_abs b))
      (?p \<mapsto> ?fr\<lparr>bf_is_dirty := False, bf_page := page\<rparr>),
      lc_order := enter_order ?p (lc_order (pool_abs b))\<rparr>"
    using u(2) b1(5,6) by (intro lru_cache.equality) simp_all
  ultimately show ?thesis
    using b1(3) f(3,4)
    by (simp add: implements_def spec_restore_page_def spec_on_def set_frame_def)
qed

lemma choose_frame_cases:
  assumes "pool_ok b"
  obtains (full) "choose_frame b = (b, Inl NotFound)" "lc_free (pool_abs b) = 0"
      "lc_order (pool_abs b) = []"
  | (free) f where "choose_frame b = (b\<lparr>bp_free_frame_ids := butlast (bp_free_frame_ids b)\<rparr>, Inr f)"
      "bp_free_frame_ids b = butlast (bp_free_frame_ids b) @ [f]"
  | (victim) l f where "choose_frame b = (b\<lparr>bp_lru := l\<rparr>, Inr f)" "bp_free_frame_ids b = []"
      "lru_frames (bp_lru b) = lru_frames l @ [f]" "lru_inv l"
      "lru_capacity l = lru_capacity (bp_lru b)"
proof (cases "bp_free_frame_ids b = []")
  case False
  with free show thesis
    by (simp add: choose_frame_def)
next
  case True
  have "lru_inv (bp_lru b)"
    using assms by (simp add: pool_ok_def pool_table_def)
  then show thesis
  proof (cases rule: lru.victim_cases)
    case none
    with True full show thesis by (simp add: choose_frame_def on_lru_def pool_abs_def)
  next
    case (some l)
    with True victim[of l "last (lru_frames (bp_lru b))"] show thesis
      by (simp add: choose_frame_def on_lru_def)
  qed
qed

text \<open>Loading a page into a frame that no other page needs.\<close>

definition load_frame :: "page \<Rightarrow> nat \<Rightarrow> buffer_pool \<Rightarrow> buffer_pool" where
  "load_frame page f b =
     (let fresh = \<lparr>bf_page = page, bf_pin_count = 1, bf_is_dirty = False\<rparr> in
      b\<lparr>bp_frames := (bp_frames b)[f := fresh],
        bp_page_frames := (bp_page_frames b)(frame_page_id b f := None, pg_id page \<mapsto> f)\<rparr>)"

lemma pool_cache_page_load:
  assumes "pg_id page \<noteq> INVALID_PAGE_ID" "bp_page_frames b (pg_id page) = None"
    and "choose_frame b = (b1, Inr f)" "f < length (bp_frames b1)"
  shows "pool_cache_page page b = (load_frame page f b1,
    Inr \<lparr>pp_frame = f, pp_is_dirty = False, pp_owns_pin = True\<rparr>)"
  using assms
  by (simp add: pool_cache_page_def bind_action_def set_frame_def load_frame_def frame_page_id_def
      frame_new_def frame_pin_def Let_def)

lemma choose_frame_effect:
  assumes "pool_ok b" "choose_frame b = (b1, Inr f)"
  shows "bp_frames b1 = bp_frames b \<and> bp_page_frames b1 = bp_page_frames b \<and>
    bp_capacity b1 = bp_capacity b \<and> f < bp_capacity b \<and> f \<notin> set (bp_free_frame_ids b1) \<and>
    insert f (set (bp_free_frame_ids b1)) = insert f (set (bp_free_frame_ids b)) \<and>
    distinct (bp_free_frame_ids b1) \<and> set (bp_free_frame_ids b1) \<subseteq> set (bp_free_frame_ids b) \<and>
    lru_inv (bp_lru b1) \<and> lru_capacity (bp_lru b1) = bp_capacity b \<and>
    f \<notin> set (lru_frames (bp_lru b1)) \<and>
    insert f (set (lru_frames (bp_lru b1))) = insert f (set (lru_frames (bp_lru b)))"
  using assms(1)
proof (cases rule: choose_frame_cases)
  case full
  with assms(2) show ?thesis by simp
next
  case (free g)
  have t: "pool_table b" using assms(1) by (simp add: pool_ok_def)
  have "distinct (butlast (bp_free_frame_ids b) @ [g])"
    "set (butlast (bp_free_frame_ids b) @ [g]) \<subseteq> {..<bp_capacity b}"
    using t free(2) by (simp_all add: pool_table_def)
  moreover have "set (bp_free_frame_ids b) = insert g (set (butlast (bp_free_frame_ids b)))"
    by (subst free(2)) simp
  moreover have "g \<notin> set (lru_frames (bp_lru b))"
    using pool_ok_lru[OF assms(1)] calculation by auto
  moreover have "b1 = b\<lparr>bp_free_frame_ids := butlast (bp_free_frame_ids b)\<rparr>" "f = g"
    using assms(2) free(1) by simp_all
  ultimately show ?thesis
    using t by (auto simp: pool_table_def)
next
  case (victim l g)
  have t: "pool_table b" using assms(1) by (simp add: pool_ok_def)
  have "distinct (lru_frames l @ [g])" "g < bp_capacity b"
    using t victim(3) lru.frames_distinct[of "bp_lru b"] lru.frames_bound[of "bp_lru b" g]
    by (simp_all add: pool_table_def)
  moreover have "b1 = b\<lparr>bp_lru := l\<rparr>" "f = g"
    using assms(2) victim(1) by simp_all
  ultimately show ?thesis
    using t victim by (auto simp: pool_table_def)
qed

lemma load_frame_ok:
  assumes "pool_ok b" "pg_id page \<noteq> INVALID_PAGE_ID" "bp_page_frames b (pg_id page) = None"
    and "choose_frame b = (b1, Inr f)"
  shows "pool_ok (load_frame page f b1)"
proof -
  let ?b' = "load_frame page f b1" and ?p = "pg_id page"
  have t: "pool_table b" using assms(1) by (simp add: pool_ok_def)
  have pf: "bp_page_frames b q = Some h \<longleftrightarrow> h < bp_capacity b \<and> h \<notin> set (bp_free_frame_ids b) \<and>
      frame_page_id b h = q" for q h
    using t by (simp add: pool_table_def frame_page_id_def)
  have exact: "h \<in> set (lru_frames (bp_lru b)) \<longleftrightarrow> h \<notin> set (bp_free_frame_ids b) \<and>
      frame_evictable (bp_frames b ! h)" if "h < bp_capacity b" for h
    using assms(1) that by (simp add: pool_ok_def)
  note c = choose_frame_effect[OF assms(1,4)]
  have fl: "f < length (bp_frames b)"
    using c t by (simp add: pool_table_def)
  have id1: "frame_page_id b1 f = frame_page_id b f"
    using c by (simp add: frame_page_id_def)
  have b': "bp_frames ?b' ! f = \<lparr>bf_page = page, bf_pin_count = 1, bf_is_dirty = False\<rparr>"
    "\<And>h. h \<noteq> f \<Longrightarrow> bp_frames ?b' ! h = bp_frames b ! h"
    "length (bp_frames ?b') = length (bp_frames b)" "bp_capacity ?b' = bp_capacity b"
    "bp_free_frame_ids ?b' = bp_free_frame_ids b1" "bp_lru ?b' = bp_lru b1"
    "bp_page_frames ?b' = (bp_page_frames b)(frame_page_id b f := None, ?p \<mapsto> f)"
    using fl c by (simp_all add: load_frame_def id1)
  have other: "frame_page_id b f \<noteq> q" if "bp_page_frames b q = Some h" "h \<noteq> f" for q h
  proof (cases "f \<in> set (bp_free_frame_ids b)")
    case True
    then have "frame_page_id b f = INVALID_PAGE_ID"
      using t by (simp add: pool_table_def frame_page_id_def frame_new_def)
    with pool_table_frame(5)[OF t that(1)] show ?thesis by simp
  next
    case False
    then have "bp_page_frames b (frame_page_id b f) = Some f"
      using pf c by blast
    with that show ?thesis by auto
  qed
  have "bp_page_frames ?b' q = Some h \<longleftrightarrow> h < bp_capacity ?b' \<and> h \<notin> set (bp_free_frame_ids ?b') \<and>
      pg_id (bf_page (bp_frames ?b' ! h)) = q" for q h
  proof (cases "h = f")
    case True
    have "bp_page_frames b q = Some f \<Longrightarrow> frame_page_id b f = q"
      using pf by blast
    then show ?thesis using True c b'(1,4,5,7) by auto
  next
    case False
    then have "h \<notin> set (bp_free_frame_ids b1) \<longleftrightarrow> h \<notin> set (bp_free_frame_ids b)"
      using c by blast
    then show ?thesis
      using False b' pf[of q h] other[of q h] assms(3) by (auto simp: frame_page_id_def)
  qed
  moreover have "bp_page_frames ?b' INVALID_PAGE_ID = None"
    using b'(7) assms(2) t by (simp add: pool_table_def)
  moreover have "bp_frames ?b' ! h = frame_new" if "h \<in> set (bp_free_frame_ids ?b')" for h
  proof -
    have "h \<noteq> f" "h \<in> set (bp_free_frame_ids b)" using that c b'(5) by auto
    with t b'(2) show ?thesis by (simp add: pool_table_def)
  qed
  ultimately have "pool_table ?b'"
    using t c unfolding pool_table_def b'(3-6) by auto
  moreover have "h \<in> set (lru_frames (bp_lru ?b')) \<longleftrightarrow> h \<notin> set (bp_free_frame_ids ?b') \<and>
      frame_evictable (bp_frames ?b' ! h)" if "h < bp_capacity b" for h
  proof (cases "h = f")
    case True
    then show ?thesis using c b'(1,6) by (simp add: frame_evictable_def)
  next
    case False
    then have "h \<in> set (lru_frames (bp_lru b1)) \<longleftrightarrow> h \<in> set (lru_frames (bp_lru b))"
      "h \<in> set (bp_free_frame_ids b1) \<longleftrightarrow> h \<in> set (bp_free_frame_ids b)"
      using c by blast+
    with exact[OF that] False b'(2,5,6) show ?thesis by simp
  qed
  ultimately show ?thesis
    by (simp add: pool_ok_def b'(4))
qed


lemma load_frame_abs:
  assumes "pool_ok b" "choose_frame b = (b1, Inr f)"
  shows "pool_abs (load_frame page f b1) = \<lparr>
    lc_frames = (lc_frames (pool_abs b))(frame_page_id b f := None,
      pg_id page \<mapsto> \<lparr>bf_page = page, bf_pin_count = 1, bf_is_dirty = False\<rparr>),
    lc_order = map (frame_page_id b) (lru_frames (bp_lru b1)),
    lc_free = length (bp_free_frame_ids b1)\<rparr>"
proof -
  let ?b' = "load_frame page f b1" and ?p = "pg_id page"
  have t: "pool_table b" using assms(1) by (simp add: pool_ok_def)
  note c = choose_frame_effect[OF assms]
  have fl: "f < length (bp_frames b)"
    using c t by (simp add: pool_table_def)
  have id1: "frame_page_id b1 f = frame_page_id b f"
    using c by (simp add: frame_page_id_def)
  have b': "bp_frames ?b' ! f = \<lparr>bf_page = page, bf_pin_count = 1, bf_is_dirty = False\<rparr>"
    "\<And>h. h \<noteq> f \<Longrightarrow> bp_frames ?b' ! h = bp_frames b ! h"
    "bp_page_frames ?b' = (bp_page_frames b)(frame_page_id b f := None, ?p \<mapsto> f)"
    using fl c by (simp_all add: load_frame_def id1)
  have "lc_frames (pool_abs ?b') q = ((lc_frames (pool_abs b))(frame_page_id b f := None,
      ?p \<mapsto> \<lparr>bf_page = page, bf_pin_count = 1, bf_is_dirty = False\<rparr>)) q" for q
  proof (cases "q = ?p")
    case True
    then show ?thesis by (simp add: pool_abs_def b'(1,3))
  next
    case False
    have "h \<noteq> f" if "bp_page_frames b q = Some h" "q \<noteq> frame_page_id b f" for h
      using pool_table_frame(4)[OF t that(1)] that(2) by auto
    with False show ?thesis
      by (cases "bp_page_frames b q") (auto simp: pool_abs_def b'(2,3))
  qed
  moreover have "map (frame_page_id ?b') (lru_frames (bp_lru b1)) =
      map (frame_page_id b) (lru_frames (bp_lru b1))"
  proof (rule map_cong[OF refl])
    fix h assume "h \<in> set (lru_frames (bp_lru b1))"
    then have "h \<noteq> f" using c by auto
    then show "frame_page_id ?b' h = frame_page_id b h" by (simp add: frame_page_id_def b'(2))
  qed
  ultimately show ?thesis
    by (intro lru_cache.equality) (simp_all add: fun_eq_iff pool_abs_def load_frame_def)
qed

lemma pool_cache_page_implements:
  assumes "pool_ok b"
  shows "implements (pool_cache_page page) (spec_cache_page page) b"
proof -
  let ?p = "pg_id page"
  have t: "pool_table b" using assms by (simp add: pool_ok_def)
  have cached: "lc_frames (pool_abs b) ?p = None \<longleftrightarrow> bp_page_frames b ?p = None"
    by (simp add: pool_abs_def)
  show ?thesis
  proof (cases "?p = INVALID_PAGE_ID \<or> bp_page_frames b ?p \<noteq> None")
    case True
    with assms cached show ?thesis
      by (auto simp: implements_def pool_cache_page_def spec_cache_page_def)
  next
    case False
    have load: "implements (pool_cache_page page) (spec_cache_page page) b"
      if cf: "choose_frame b = (b1, Inr f)"
        and spec: "spec_cache_page page (pool_abs b) = (pool_abs (load_frame page f b1), Ok)" for b1 f
    proof -
      have "f < length (bp_frames b1)"
        using choose_frame_effect[OF assms cf] t by (simp add: pool_table_def)
      then have "pool_cache_page page b = (load_frame page f b1,
          Inr \<lparr>pp_frame = f, pp_is_dirty = False, pp_owns_pin = True\<rparr>)"
        using False cf by (intro pool_cache_page_load) auto
      moreover have "pool_ok (load_frame page f b1)"
        using load_frame_ok[OF assms _ _ cf] False by simp
      moreover have "bp_capacity (load_frame page f b1) = bp_capacity b"
        using choose_frame_effect[OF assms cf] by (simp add: load_frame_def)
      ultimately show ?thesis
        using spec by (simp add: implements_def)
    qed
    from assms show ?thesis
    proof (cases rule: choose_frame_cases)
      case full
      with False cached assms show ?thesis
        by (simp add: implements_def pool_cache_page_def spec_cache_page_def bind_action_def)
    next
      case (free f)
      have "f \<in> set (bp_free_frame_ids b)"
        by (subst free(2)) simp
      then have "frame_page_id b f = INVALID_PAGE_ID"
        using t by (simp add: pool_table_def frame_page_id_def frame_new_def)
      moreover have "lc_frames (pool_abs b) INVALID_PAGE_ID = None"
        using t by (simp add: pool_abs_def pool_table_def)
      ultimately have "(lc_frames (pool_abs b))(frame_page_id b f := None) = lc_frames (pool_abs b)"
        by (auto simp: fun_eq_iff)
      moreover have "0 < lc_free (pool_abs b)" "lc_free (pool_abs b) - 1 = length (butlast (bp_free_frame_ids b))"
        using free(2) by (auto simp: pool_abs_def)
      ultimately show ?thesis
        using False cached load_frame_abs[OF assms free(1), of page]
        by (intro load[OF free(1)]) (simp add: spec_cache_page_def, simp add: pool_abs_def)
    next
      case (victim l f)
      have "lc_order (pool_abs b) = map (frame_page_id b) (lru_frames l) @ [frame_page_id b f]"
        by (simp add: pool_abs_def victim(3))
      moreover have "lc_free (pool_abs b) = 0"
        by (simp add: pool_abs_def victim(2))
      ultimately show ?thesis
        using False cached load_frame_abs[OF assms victim(1), of page] victim(2)
        by (intro load[OF victim(1)]) (simp add: spec_cache_page_def)
    qed
  qed
qed

lemma pin_write_ok:
  assumes "pool_ok b" "bp_page_frames b p = Some (pp_frame pin)"
  shows "pool_ok (pin_write pin d b)"
    and "pool_abs (pin_write pin d b) = (pool_abs b)\<lparr>lc_frames := (lc_frames (pool_abs b))
      (p \<mapsto> (bp_frames b ! pp_frame pin)
        \<lparr>bf_page := \<lparr>pg_id = p, pg_data = d\<rparr>\<rparr>)\<rparr>"
proof -
  let ?f = "pp_frame pin"
  let ?g = "\<lambda>fr. fr\<lparr>bf_page := (bf_page fr)\<lparr>pg_data := d\<rparr>\<rparr>"
  note t = pool_ok_table[OF assms(1)]
  note fb = pool_table_frame[OF t assms(2)]
  have p: "pg_id (bf_page (bp_frames b ! ?f)) = p"
    using fb(4) by (simp add: frame_page_id_def)
  then have g: "pg_id (bf_page (?g (bp_frames b ! ?f))) = p" by simp
  note u = pool_table_set_frame[where g = ?g, OF t assms(2) g]
  have "frame_evictable (bp_frames (set_frame ?f ?g b) ! h) = frame_evictable (bp_frames b ! h)" for h
    using fb(2) by (cases "h = ?f") (simp_all add: set_frame_def frame_evictable_def)
  then show "pool_ok (pin_write pin d b)"
    unfolding pin_write_def using u(1) assms(1) by (simp add: pool_ok_def) (simp add: set_frame_def)
  show "pool_abs (pin_write pin d b) = (pool_abs b)\<lparr>lc_frames := (lc_frames (pool_abs b))
      (p \<mapsto> (bp_frames b ! ?f)\<lparr>bf_page := \<lparr>pg_id = p, pg_data = d\<rparr>\<rparr>)\<rparr>"
    unfolding pin_write_def u(2) using p
    by (cases "bf_page (bp_frames b ! ?f)") simp
qed

text \<open>The pin of a page that is still cached in its frame is released.\<close>

lemma pin_release_implements:
  assumes "pool_ok b" "bp_page_frames b p = Some (pp_frame pin)" "pp_owns_pin pin"
  shows "pool_ok (snd (pin_release pin b))"
    and "pool_abs (snd (pin_release pin b)) = fst (spec_unpin_page p (pp_is_dirty pin) (pool_abs b))"
proof -
  have p: "pg_id (pin_page_value pin b) = p"
    using pool_table_frame(4)[OF pool_ok_table[OF assms(1)] assms(2)]
    by (simp add: pin_page_value_def frame_page_id_def)
  show "pool_ok (snd (pin_release pin b))"
    "pool_abs (snd (pin_release pin b)) = fst (spec_unpin_page p (pp_is_dirty pin) (pool_abs b))"
    using unpin_page_implements[OF assms(1), of p "pp_is_dirty pin"] assms(3)
    by (auto simp: pin_release_def implements_def p split: prod.splits)
qed

section \<open>Reachable pools\<close>

text \<open>
  The calls that change a pool, as a step relation. A pin count is 32 bits wide and wraps in
  \<open>pin()\<close>; \<open>get_page\<close> is a step while the page has fewer than \<open>2^32 - 1\<close> pins.
\<close>

inductive pool_step :: "buffer_pool \<Rightarrow> buffer_pool \<Rightarrow> bool" where
  get: "\<forall>fr. lc_frames (pool_abs b) p = Some fr \<longrightarrow> bf_pin_count fr \<noteq> 0xFFFFFFFF \<Longrightarrow>
     pool_step b (fst (pool_get_page p b))"
| cache: "pool_step b (fst (pool_cache_page page b))"
| unpin: "pool_step b (fst (unpin_page p d b))"
| clear: "pool_step b (fst (clear_dirty p b))"
| discard: "pool_step b (fst (discard_page p b))"
| restore: "pool_step b (fst (restore_page page b))"
| store: "bp_page_frames b p = Some (pp_frame pin) \<Longrightarrow> pool_step b (pin_write pin d b)"

inductive pool_reachable :: "nat \<Rightarrow> buffer_pool \<Rightarrow> bool" for n where
  start: "pool_reachable n (pool_new n)"
| step: "pool_reachable n b \<Longrightarrow> pool_step b b' \<Longrightarrow> pool_reachable n b'"

inductive_cases pool_stepE: "pool_step b b'"

lemma implementsD:
  assumes "implements m spec b"
  shows "pool_ok (fst (m b))" "bp_capacity (fst (m b)) = bp_capacity b"
    "pool_abs (fst (m b)) = fst (spec (pool_abs b))"
  using assms by (auto simp: implements_def split: prod.splits)

lemma pool_abs_write:
  "lc_frames (pool_abs (pin_write pin d b)) q = None \<longleftrightarrow> lc_frames (pool_abs b) q = None"
  by (simp add: pin_write_def pool_abs_def set_frame_def)

lemma pin_write_capacity [simp]: "bp_capacity (pin_write pin d b) = bp_capacity b"
  by (simp add: pin_write_def set_frame_def)

lemma pool_step_ok:
  assumes "pool_step b b'" "pool_ok b"
  shows "pool_ok b' \<and> bp_capacity b' = bp_capacity b"
  using assms(1)
proof (cases rule: pool_step.cases)
  case (get p)
  then show ?thesis
    using implementsD[OF pool_get_page_implements[OF assms(2)]] by blast
next
  case (cache page)
  then show ?thesis
    using implementsD[OF pool_cache_page_implements[OF assms(2)]] by blast
next
  case (unpin p d)
  then show ?thesis
    using implementsD[OF unpin_page_implements[OF assms(2)]] by blast
next
  case (clear p)
  then show ?thesis
    using implementsD[OF clear_dirty_implements[OF assms(2)]] by blast
next
  case (discard p)
  then show ?thesis
    using implementsD[OF discard_page_implements[OF assms(2)]] by blast
next
  case (restore page)
  then show ?thesis
    using implementsD[OF restore_page_implements[OF assms(2)]] by blast
next
  case (store p pin d)
  then show ?thesis
    using pin_write_ok(1)[OF assms(2) store(2)] by simp
qed

lemma order_evictable:
  assumes "pool_ok b" "p \<in> set (lc_order (pool_abs b))"
  shows "\<exists>fr. lc_frames (pool_abs b) p = Some fr \<and> frame_evictable fr"
proof -
  obtain f where f: "f \<in> set (lru_frames (bp_lru b))" "p = frame_page_id b f"
    using assms(2) by (auto simp: pool_abs_def)
  with pool_ok_lru[OF assms(1)] have "f < bp_capacity b" "f \<notin> set (bp_free_frame_ids b)"
    by auto
  then have "bp_page_frames b p = Some f" "frame_evictable (bp_frames b ! f)"
    using assms(1) f pool_table_page[of b f] by (auto simp: pool_ok_def)
  then show ?thesis
    by (simp add: pool_abs_frame)
qed

lemma spec_keeps_pinned:
  assumes "lc_frames c q = Some fr" "\<not> frame_evictable fr"
    and "\<And>p. p \<in> set (lc_order c) \<Longrightarrow> \<exists>fr. lc_frames c p = Some fr \<and> frame_evictable fr"
  shows "q \<noteq> pg_id page \<Longrightarrow> lc_frames (fst (spec_cache_page page c)) q = Some fr"
proof -
  have "q \<noteq> last (lc_order c)" if "lc_order c \<noteq> []"
    using assms that last_in_set[OF that] by fastforce
  then show "q \<noteq> pg_id page \<Longrightarrow> lc_frames (fst (spec_cache_page page c)) q = Some fr"
    using assms(1) by (auto simp: spec_cache_page_def Let_def)
qed

text \<open>
  C27. Every pool reachable from a new one keeps the invariant: the page table, the free list
  and the frames agree, and the LRU list holds exactly the cached frames that are neither
  pinned nor dirty.
\<close>

theorem reachable_pool_ok:
  assumes "pool_reachable n b"
  shows "pool_ok b \<and> bp_capacity b = n"
  using assms
proof induction
  case start
  show ?case
    using pool_new_ok by (simp add: pool_new_def)
next
  case (step b b')
  then show ?case
    using pool_step_ok by auto
qed

theorem reachable_pool_ok_witness:
  "pool_ok (fst (pool_cache_page (new_page_value 3) (pool_new 1))) \<and>
   bp_capacity (fst (pool_cache_page (new_page_value 3) (pool_new 1))) = 1"
  by (rule reachable_pool_ok) (rule pool_reachable.step[OF pool_reachable.start pool_step.cache])

text \<open>
  C23. Caching a page implements the LRU cache with pins: it takes a free frame if there is
  one, else the frame of the page that has been evictable the longest, and fails without a
  change if every cached page is pinned or dirty.
\<close>

theorem cache_page_is_lru:
  assumes "pool_ok b"
  shows "implements (pool_cache_page page) (spec_cache_page page) b"
  using assms by (rule pool_cache_page_implements)

theorem cache_page_is_lru_witness:
  "implements (pool_cache_page (new_page_value 3)) (spec_cache_page (new_page_value 3)) (pool_new 2)"
  by (rule cache_page_is_lru) (rule pool_new_ok)

text \<open>
  C28. The other calls of the pool implement their specifications, also on their error
  branches: pinning takes a page out of the eviction order, unpinning and clearing the dirty
  bit let a page that has become evictable enter it, discarding frees the frame and restoring
  replaces the content of an unpinned page.
\<close>

theorem pool_calls_refine:
  assumes "pool_ok b" "\<And>fr. lc_frames (pool_abs b) p = Some fr \<Longrightarrow> bf_pin_count fr \<noteq> 0xFFFFFFFF"
  shows "implements (pool_get_page p) (spec_get_page p) b \<and>
    implements (unpin_page p d) (spec_unpin_page p d) b \<and>
    implements (clear_dirty p) (spec_clear_dirty p) b \<and>
    implements (discard_page p) (spec_discard_page p) b \<and>
    implements (restore_page page) (spec_restore_page page) b"
  using pool_get_page_implements[OF assms] unpin_page_implements[OF assms(1)]
    clear_dirty_implements[OF assms(1)] discard_page_implements[OF assms(1)]
    restore_page_implements[OF assms(1)] by blast

theorem pool_calls_refine_witness:
  "implements (pool_get_page 3) (spec_get_page 3) (pool_new 2) \<and>
    implements (unpin_page 3 True) (spec_unpin_page 3 True) (pool_new 2) \<and>
    implements (clear_dirty 3) (spec_clear_dirty 3) (pool_new 2) \<and>
    implements (discard_page 3) (spec_discard_page 3) (pool_new 2) \<and>
    implements (restore_page (new_page_value 3)) (spec_restore_page (new_page_value 3)) (pool_new 2)"
  by (rule pool_calls_refine) (simp_all add: pool_new_ok pool_new_abs)

text \<open>
  C29. A page that is pinned or dirty is never evicted: caching another page leaves its frame,
  its content, its pin count and its dirty bit as they are.
\<close>

theorem pinned_or_dirty_not_evicted:
  assumes "pool_ok b" "lc_frames (pool_abs b) q = Some fr" "bf_pin_count fr \<noteq> 0 \<or> bf_is_dirty fr"
    and "pool_cache_page page b = (b', r)" "q \<noteq> pg_id page"
  shows "lc_frames (pool_abs b') q = Some fr"
proof -
  have "pool_abs b' = fst (spec_cache_page page (pool_abs b))"
    using implementsD(3)[OF pool_cache_page_implements[OF assms(1)], of page] assms(4) by simp
  moreover have "\<not> frame_evictable fr"
    using assms(3) by (auto simp: frame_evictable_def)
  ultimately show ?thesis
    using spec_keeps_pinned[OF assms(2) _ order_evictable[OF assms(1)] assms(5)] by simp
qed

theorem pinned_or_dirty_not_evicted_witness:
  defines "b \<equiv> fst (pool_cache_page (new_page_value 3) (pool_new 1))"
  shows "\<exists>b' r. pool_cache_page (new_page_value 4) b = (b', r) \<and>
    lc_frames (pool_abs b') 3 = Some \<lparr>bf_page = new_page_value 3, bf_pin_count = 1, bf_is_dirty = False\<rparr>"
proof -
  obtain b' r where run: "pool_cache_page (new_page_value 4) b = (b', r)"
    by (metis surj_pair)
  have "pool_ok b" "pool_abs b = fst (spec_cache_page (new_page_value 3) (pool_abs (pool_new 1)))"
    using implementsD[OF pool_cache_page_implements[OF pool_new_ok], of "new_page_value 3" 1]
    by (simp_all add: b_def)
  then have "pool_ok b" "lc_frames (pool_abs b) 3 =
      Some \<lparr>bf_page = new_page_value 3, bf_pin_count = 1, bf_is_dirty = False\<rparr>"
    by (simp_all add: spec_cache_page_def pool_new_abs INVALID_PAGE_ID_def)
  from pinned_or_dirty_not_evicted[OF this _ run] show ?thesis
    using run by simp
qed

end
