(* ===== verification/Pager.thy ===== *)
theory Pager
  imports DiskManager BufferPool
begin

text \<open>
  \<^verbatim>\<open>Pager.cpp\<close>, \<^verbatim>\<open>PageHandle.cpp\<close> and \<^verbatim>\<open>TransactionState.cpp\<close>: the object that owns
  the lock, the database file, the log, the buffer pool and the transaction. Its operations
  are actions over the pager and the operating system state; pins that are local variables
  of the code are released where their scope ends. The \<open>unordered_map\<close> and
  \<open>unordered_set\<close> members are lists without duplicate keys; their order stands for the
  unspecified iteration order.
\<close>

section \<open>TransactionState.cpp\<close>

datatype transaction_status = Inactive | Active | Failed | Unresolved

record transaction_state =
  tx_status :: transaction_status
  tx_id :: u64
  tx_dirty_page_ids :: "page_id list"
  tx_new_page_ids :: "page_id list"
  tx_original_pages :: "(page_id \<times> page) list"

definition tx_clear :: transaction_state where
  "tx_clear = \<lparr>tx_status = Inactive, tx_id = 0, tx_dirty_page_ids = [], tx_new_page_ids = [],
     tx_original_pages = []\<rparr>"

definition tx_in_transaction :: "transaction_state \<Rightarrow> bool" where
  "tx_in_transaction t \<longleftrightarrow> tx_status t \<noteq> Inactive"

definition tx_is_failed :: "transaction_state \<Rightarrow> bool" where
  "tx_is_failed t \<longleftrightarrow> tx_status t = Failed"

definition tx_is_unresolved :: "transaction_state \<Rightarrow> bool" where
  "tx_is_unresolved t \<longleftrightarrow> tx_status t = Unresolved"

section \<open>The pager\<close>

record 'w pager =
  pr_file_lock :: file_lock
  pr_disk :: "'w disk_manager"
  pr_wal :: "'w wal_manager"
  pr_bpm :: buffer_pool
  pr_path :: path
  pr_header :: database_header
  pr_committed_header :: database_header
  pr_recovered :: "(page_id \<times> page) list"
  pr_tx :: transaction_state
  pr_next_transaction_id :: u64
  pr_closed :: bool

definition pager_new :: "file_lock \<Rightarrow> 'w disk_manager \<Rightarrow> 'w wal_manager \<Rightarrow> buffer_pool \<Rightarrow> path \<Rightarrow>
    database_header \<Rightarrow> (page_id \<times> page) list \<Rightarrow> 'w pager" where
  "pager_new lock disk wal bpm p header recovered =
     \<lparr>pr_file_lock = lock, pr_disk = disk, pr_wal = wal, pr_bpm = bpm, pr_path = p,
      pr_header = header, pr_committed_header = header, pr_recovered = recovered,
      pr_tx = tx_clear, pr_next_transaction_id = 1, pr_closed = False\<rparr>"

type_synonym ('w, 'a) pager_action = "('w pager \<times> 'w, 'a) action"

text \<open>Calls of the members, and reads and updates of the pager.\<close>

definition on_bpm :: "(buffer_pool, 'a) action \<Rightarrow> ('w, 'a) pager_action" where
  "on_bpm m s = (case m (pr_bpm (fst s)) of (b, r) \<Rightarrow> (((fst s)\<lparr>pr_bpm := b\<rparr>, snd s), r))"

definition on_disk :: "('w disk_manager \<Rightarrow> ('w, 'a) action) \<Rightarrow> ('w, 'a) pager_action" where
  "on_disk m s = (case m (pr_disk (fst s)) (snd s) of (w, r) \<Rightarrow> ((fst s, w), r))"

definition on_wal :: "('w wal_manager \<times> 'w, 'a) action \<Rightarrow> ('w, 'a) pager_action" where
  "on_wal m s = (case m (pr_wal (fst s), snd s) of ((wm, w), r) \<Rightarrow>
     (((fst s)\<lparr>pr_wal := wm\<rparr>, w), r))"

definition get_pager :: "('w pager \<Rightarrow> 'b) \<Rightarrow> ('w, 'b) pager_action" where
  "get_pager f s = (s, Inr (f (fst s)))"

definition modify_pager :: "('w pager \<Rightarrow> 'w pager) \<Rightarrow> ('w, unit) pager_action" where
  "modify_pager f s = ((f (fst s), snd s), Ok)"

definition modify_tx :: "(transaction_state \<Rightarrow> transaction_state) \<Rightarrow> ('w, unit) pager_action" where
  "modify_tx f = modify_pager (\<lambda>p. p\<lparr>pr_tx := f (pr_tx p)\<rparr>)"

definition require :: "('w pager \<Rightarrow> bool) \<Rightarrow> status_code \<Rightarrow> ('w, unit) pager_action" where
  "require c e s = (s, if c (fst s) then Ok else Inl e)"

definition release_pin :: "page_pin \<Rightarrow> ('w, unit) pager_action" where
  "release_pin pin s = (((fst s)\<lparr>pr_bpm := snd (pin_release pin (pr_bpm (fst s)))\<rparr>, snd s), Ok)"

section \<open>Pages\<close>

text \<open>A page that is not in the pool comes from the pages recovered from the log, or from disk.\<close>

definition load_page :: "'w win32 \<Rightarrow> page_id \<Rightarrow> ('w, page) pager_action" where
  "load_page os p =
     bind_action (get_pager (\<lambda>pr. map_of (pr_recovered pr) p)) (\<lambda>recovered_page.
       case recovered_page of Some pg \<Rightarrow> return_action pg
       | None \<Rightarrow> on_disk (\<lambda>dm. disk_read_page os dm p))"

definition pager_get_page :: "'w win32 \<Rightarrow> page_id \<Rightarrow> ('w, page_pin) pager_action" where
  "pager_get_page os p =
     bind_action (require (\<lambda>pr. \<not> pr_closed pr) InvalidArgument) (\<lambda>_.
     ensure_action (p \<noteq> INVALID_PAGE_ID \<and> p \<noteq> HEADER_PAGE_ID) InvalidArgument (\<lambda>s.
       case on_bpm (pool_get_page p) s of
         (s1, Inr page_pin) \<Rightarrow> (s1, Inr page_pin)
       | (s1, Inl e) \<Rightarrow>
           if e \<noteq> NotFound then (s1, Inl e)
           else bind_action (load_page os p) (\<lambda>page. on_bpm (pool_cache_page page)) s1))"

definition pager_mark_dirty :: "page_id \<Rightarrow> ('w, unit) pager_action" where
  "pager_mark_dirty p =
     bind_action (require (\<lambda>pr. \<not> pr_closed pr) InvalidArgument) (\<lambda>_.
     ensure_action (p \<noteq> INVALID_PAGE_ID) InvalidArgument (
     bind_action (require (\<lambda>pr. \<not> tx_is_failed (pr_tx pr)) TransactionError) (\<lambda>_.
     bind_action (require (\<lambda>pr. \<not> tx_is_unresolved (pr_tx pr)) TransactionError) (\<lambda>_.
     bind_action (require (\<lambda>pr. tx_in_transaction (pr_tx pr)) TransactionError) (\<lambda>_.
     bind_action (get_pager pr_tx) (\<lambda>t.
     if map_of (tx_original_pages t) p \<noteq> None then return_action ()
     else if p \<in> set (tx_new_page_ids t) then return_action ()
     else bind_action
       (if p = HEADER_PAGE_ID then
          bind_action (get_pager pr_header) (\<lambda>header.
          bind_action (lift_result (database_header_encode_into header (replicate PAGE_SIZE 0)))
            (\<lambda>header_page_bytes.
          modify_tx (\<lambda>t. t\<lparr>tx_original_pages :=
            AList.update p \<lparr>pg_id = p, pg_data = header_page_bytes\<rparr> (tx_original_pages t)\<rparr>)))
        else
          bind_action (on_bpm (pool_get_page p)) (\<lambda>page_pin.
          bind_action (get_pager (\<lambda>pr. pin_page_value page_pin (pr_bpm pr))) (\<lambda>page.
          bind_action (modify_tx (\<lambda>t. t\<lparr>tx_original_pages :=
            AList.update p page (tx_original_pages t)\<rparr>)) (\<lambda>_.
          release_pin page_pin))))
       (\<lambda>_. modify_tx (\<lambda>t. t\<lparr>tx_dirty_page_ids := List.insert p (tx_dirty_page_ids t)\<rparr>))))))))"

text \<open>
  \<open>new_page\<close>: when the header cannot be marked dirty, the pin of the page just cached is
  released on the way out.
\<close>

definition pager_new_page :: "('w, page_pin) pager_action" where
  "pager_new_page =
     bind_action (require (\<lambda>pr. \<not> pr_closed pr) InvalidArgument) (\<lambda>_.
     bind_action (require (\<lambda>pr. tx_in_transaction (pr_tx pr)) TransactionError) (\<lambda>_.
     bind_action (require (\<lambda>pr. \<not> tx_is_failed (pr_tx pr)) TransactionError) (\<lambda>_.
     bind_action (require (\<lambda>pr. \<not> tx_is_unresolved (pr_tx pr)) TransactionError) (\<lambda>_.
     bind_action (get_pager (\<lambda>pr. dh_page_count (pr_header pr))) (\<lambda>p.
     bind_action (on_bpm (pool_cache_page (new_page_value p))) (\<lambda>page_pin s.
       case pager_mark_dirty HEADER_PAGE_ID s of
         (s1, Inl e) \<Rightarrow> (fst (release_pin page_pin s1), Inl e)
       | (s1, Inr _) \<Rightarrow>
           bind_action (modify_pager (\<lambda>pr. pr\<lparr>pr_header :=
             (pr_header pr)\<lparr>dh_page_count := dh_page_count (pr_header pr) + 1\<rparr>\<rparr>)) (\<lambda>_.
           bind_action (modify_tx (\<lambda>t. t\<lparr>tx_new_page_ids := List.insert p (tx_new_page_ids t),
             tx_dirty_page_ids := List.insert p (tx_dirty_page_ids t)\<rparr>)) (\<lambda>_.
           return_action (pin_mark_dirty page_pin))) s1))))))"

definition pager_dirty_page_snapshot :: "page_id \<Rightarrow> ('w, page) pager_action" where
  "pager_dirty_page_snapshot p =
     (if p = HEADER_PAGE_ID then
        bind_action (get_pager pr_header) (\<lambda>header.
        bind_action (lift_result (database_header_encode_into header (replicate PAGE_SIZE 0))) (\<lambda>bs.
        return_action \<lparr>pg_id = HEADER_PAGE_ID, pg_data = bs\<rparr>))
      else
        bind_action (on_bpm (pool_get_page p)) (\<lambda>page_pin.
        bind_action (get_pager (\<lambda>pr. pin_page_value page_pin (pr_bpm pr))) (\<lambda>page.
        bind_action (release_pin page_pin) (\<lambda>_.
        return_action page))))"

section \<open>PageHandle.cpp\<close>

text \<open>
  A handle is its pin. \<open>handle_write\<close> is \<open>mutable_page\<close> followed by a store of the whole
  page through the pointer it returns.
\<close>

definition handle_mark_dirty :: "page_pin \<Rightarrow> ('w, page_pin) pager_action" where
  "handle_mark_dirty pin =
     bind_action (get_pager (\<lambda>pr. pg_id (pin_page_value pin (pr_bpm pr)))) (\<lambda>p.
     bind_action (pager_mark_dirty p) (\<lambda>_.
     return_action (pin_mark_dirty pin)))"

definition handle_write :: "page_pin \<Rightarrow> bytes \<Rightarrow> ('w, page_pin) pager_action" where
  "handle_write pin data =
     bind_action (handle_mark_dirty pin) (\<lambda>pin'.
     bind_action (modify_pager (\<lambda>pr. pr\<lparr>pr_bpm := pin_write pin' data (pr_bpm pr)\<rparr>)) (\<lambda>_.
     return_action pin'))"

section \<open>Transactions\<close>

definition pager_begin_transaction :: "('w, unit) pager_action" where
  "pager_begin_transaction =
     bind_action (require (\<lambda>pr. \<not> pr_closed pr) InvalidArgument) (\<lambda>_.
     bind_action (require (\<lambda>pr. \<not> tx_in_transaction (pr_tx pr)) TransactionError) (\<lambda>_.
     modify_pager (\<lambda>pr. pr\<lparr>pr_tx := (pr_tx pr)\<lparr>tx_status := Active,
       tx_id := pr_next_transaction_id pr\<rparr>,
       pr_next_transaction_id := pr_next_transaction_id pr + 1\<rparr>)))"

definition pager_mark_transaction_failed :: "('w, unit) pager_action" where
  "pager_mark_transaction_failed =
     bind_action (require (\<lambda>pr. \<not> pr_closed pr) InvalidArgument) (\<lambda>_.
     bind_action (require (\<lambda>pr. tx_in_transaction (pr_tx pr)) TransactionError) (\<lambda>_.
     bind_action (require (\<lambda>pr. \<not> tx_is_unresolved (pr_tx pr)) TransactionError) (\<lambda>_.
     modify_tx (\<lambda>t. t\<lparr>tx_status := Failed\<rparr>))))"

definition require_unpinned :: "page_id \<Rightarrow> ('w, unit) pager_action" where
  "require_unpinned p =
     (if p = HEADER_PAGE_ID then return_action ()
      else bind_action (on_bpm (is_unpinned p)) (\<lambda>unpinned.
        ensure_action unpinned TransactionError (return_action ())))"

fun snapshots :: "page_id list \<Rightarrow> ('w, page list) pager_action" where
  "snapshots [] = return_action []"
| "snapshots (p # ps) =
     bind_action (pager_dirty_page_snapshot p) (\<lambda>page.
     bind_action (snapshots ps) (\<lambda>pages.
     return_action (page # pages)))"

definition publish_page :: "page \<Rightarrow> ('w, unit) pager_action" where
  "publish_page page =
     (if pg_id page = HEADER_PAGE_ID then
        modify_pager (\<lambda>pr. pr\<lparr>pr_committed_header := pr_header pr\<rparr>)
      else
        bind_action (modify_pager (\<lambda>pr. pr\<lparr>pr_recovered :=
          AList.update (pg_id page) page (pr_recovered pr)\<rparr>)) (\<lambda>_.
        on_bpm (clear_dirty (pg_id page))))"

definition pager_commit_transaction :: "'w win32 \<Rightarrow> ('w, unit) pager_action" where
  "pager_commit_transaction os =
     bind_action (require (\<lambda>pr. \<not> pr_closed pr) InvalidArgument) (\<lambda>_.
     bind_action (require (\<lambda>pr. tx_in_transaction (pr_tx pr)) TransactionError) (\<lambda>_.
     bind_action (require (\<lambda>pr. \<not> tx_is_failed (pr_tx pr)) TransactionError) (\<lambda>_.
     bind_action (require (\<lambda>pr. \<not> tx_is_unresolved (pr_tx pr)) TransactionError) (\<lambda>_.
     bind_action (get_pager pr_tx) (\<lambda>t.
     bind_action (for_each (tx_dirty_page_ids t) require_unpinned) (\<lambda>_.
     bind_action (snapshots (tx_dirty_page_ids t)) (\<lambda>dirty_pages s.
       case on_wal (wal_commit_transaction os (tx_id t) dirty_pages) s of
         (s1, Inl e) \<Rightarrow> (fst (modify_tx (\<lambda>t. t\<lparr>tx_status := Unresolved\<rparr>) s1), Inl e)
       | (s1, Inr _) \<Rightarrow>
           bind_action (for_each dirty_pages publish_page) (\<lambda>_.
           modify_tx (\<lambda>_. tx_clear)) s1)))))))"

definition rollback_check :: "transaction_state \<Rightarrow> page_id \<times> page \<Rightarrow> ('w, unit) pager_action" where
  "rollback_check t entry =
     (case entry of (p, original_page) \<Rightarrow>
       ensure_action (p = pg_id original_page) InternalError (
       ensure_action (p \<notin> set (tx_new_page_ids t)) InternalError (
       if p = HEADER_PAGE_ID then
         bind_action (lift_result (database_header_decode (pg_data original_page))) (\<lambda>_.
         return_action ())
       else on_bpm (can_restore_page original_page))))"

definition rollback_restore :: "page_id \<times> page \<Rightarrow> ('w, unit) pager_action" where
  "rollback_restore entry =
     (case entry of (p, original_page) \<Rightarrow>
       if p = HEADER_PAGE_ID then
         bind_action (lift_result (database_header_decode (pg_data original_page))) (\<lambda>header.
         modify_pager (\<lambda>pr. pr\<lparr>pr_header := header\<rparr>))
       else on_bpm (restore_page original_page))"

definition pager_rollback_transaction :: "('w, unit) pager_action" where
  "pager_rollback_transaction =
     bind_action (require (\<lambda>pr. \<not> pr_closed pr) InvalidArgument) (\<lambda>_.
     bind_action (require (\<lambda>pr. tx_in_transaction (pr_tx pr)) TransactionError) (\<lambda>_.
     bind_action (require (\<lambda>pr. \<not> tx_is_unresolved (pr_tx pr)) TransactionError) (\<lambda>_.
     bind_action (get_pager pr_tx) (\<lambda>t.
     bind_action (for_each (tx_original_pages t) (rollback_check t)) (\<lambda>_.
     bind_action (for_each (tx_new_page_ids t) (\<lambda>p. on_bpm (can_discard_page p))) (\<lambda>_.
     bind_action (for_each (tx_original_pages t) rollback_restore) (\<lambda>_.
     bind_action (for_each (tx_new_page_ids t) (\<lambda>p. on_bpm (discard_page p))) (\<lambda>_.
     modify_tx (\<lambda>_. tx_clear)))))))))"

section \<open>Checkpoint and close\<close>

text \<open>The work on the database file, and the whole.\<close>

definition checkpoint_disk :: "'w win32 \<Rightarrow> 'w pager \<Rightarrow> ('w, unit) pager_action" where
  "checkpoint_disk os pr =
     bind_action (on_disk (\<lambda>dm. disk_resize_to_page_count os dm (dh_page_count (pr_committed_header pr)))) (\<lambda>_.
     bind_action (for_each (pr_recovered pr) (\<lambda>(page_id, page).
       on_disk (\<lambda>dm. disk_write_page os dm page))) (\<lambda>_.
     bind_action (on_disk (\<lambda>dm. disk_write_header os dm (pr_committed_header pr))) (\<lambda>_.
     on_disk (\<lambda>dm. disk_sync os dm))))"

definition pager_checkpoint :: "'w win32 \<Rightarrow> ('w, unit) pager_action" where
  "pager_checkpoint os =
     bind_action (require (\<lambda>pr. \<not> tx_is_unresolved (pr_tx pr)) TransactionError) (\<lambda>_.
     bind_action (get_pager (\<lambda>pr. pr)) (\<lambda>pr.
     bind_action (checkpoint_disk os pr) (\<lambda>_.
     bind_action (on_wal (wal_reset os)) (\<lambda>_.
     modify_pager (\<lambda>pr. pr\<lparr>pr_recovered := []\<rparr>)))))"

text \<open>\<open>close\<close> closes all three members before it looks at any outcome.\<close>

definition pager_close :: "'w win32 \<Rightarrow> ('w, unit) pager_action" where
  "pager_close os s =
     (if pr_closed (fst s) then (s, Ok)
      else case on_wal (wal_close os) s of
        ((pr1, w1), wal_close_status) \<Rightarrow>
          (case disk_close os (pr_disk pr1) w1 of
             ((dm, w2), disk_close_status) \<Rightarrow>
               (case lock_close os (pr_file_lock pr1) w2 of
                  ((lk, w3), lock_close_status) \<Rightarrow>
                    (let pr2 = pr1\<lparr>pr_disk := dm, pr_file_lock := lk\<rparr> in
                     if \<not> ok wal_close_status then ((pr2, w3), wal_close_status)
                     else if \<not> ok disk_close_status then ((pr2, w3), disk_close_status)
                     else if \<not> ok lock_close_status then ((pr2, w3), lock_close_status)
                     else ((pr2\<lparr>pr_closed := True\<rparr>, w3), Ok)))))"

section \<open>Opening\<close>

text \<open>A local object whose destructor runs when the function returns early with an error.\<close>

definition destroying :: "('w \<Rightarrow> 'w) \<Rightarrow> ('w, 'a) action \<Rightarrow> ('w, 'a) action" where
  "destroying cleanup m w =
     (case m w of (w1, Inl e) \<Rightarrow> (cleanup w1, Inl e) | (w1, Inr x) \<Rightarrow> (w1, Inr x))"

definition destroy_lock :: "'w win32 \<Rightarrow> file_lock \<Rightarrow> 'w \<Rightarrow> 'w" where
  "destroy_lock os lk w = snd (fst (lock_close os lk w))"

definition destroy_file :: "'w win32 \<Rightarrow> 'w file_handle \<Rightarrow> 'w \<Rightarrow> 'w" where
  "destroy_file os fh w = snd (fst (fh_close os fh w))"

text \<open>The body of the recovery loop, and the loop over the offsets that the scan found.\<close>

definition recover_page :: "'w win32 \<Rightarrow> 'w file_handle \<Rightarrow> page_id \<times> nat \<Rightarrow> ('w, page) action" where
  "recover_page os wal_file entry =
     bind_action (read_at os wal_file (snd entry) WAL_PAGE_FRAME_RECORD_SIZE) (\<lambda>page_frame_bytes.
     bind_action (lift_result (wal_page_frame_decode page_frame_bytes)) (\<lambda>wal_page_frame.
     ensure_action (wf_page_id wal_page_frame = fst entry) Corruption (
     return_action \<lparr>pg_id = wf_page_id wal_page_frame, pg_data = wf_page_image wal_page_frame\<rparr>)))"

fun recover_pages :: "'w win32 \<Rightarrow> 'w file_handle \<Rightarrow> (page_id \<times> nat) list \<Rightarrow> database_header \<Rightarrow>
    (page_id \<times> page) list \<Rightarrow> ('w, database_header \<times> (page_id \<times> page) list) action" where
  "recover_pages os wal_file [] header recovered = return_action (header, recovered)"
| "recover_pages os wal_file (entry # entries) header recovered =
     bind_action (recover_page os wal_file entry) (\<lambda>recovered_page.
       if pg_id recovered_page = HEADER_PAGE_ID then
         bind_action (lift_result (database_header_decode (pg_data recovered_page))) (\<lambda>header'.
         recover_pages os wal_file entries header' recovered)
       else recover_pages os wal_file entries header
         (AList.update (pg_id recovered_page) recovered_page recovered))"

definition recover_log :: "'w win32 \<Rightarrow> path \<Rightarrow> (page_id \<times> nat) list \<Rightarrow> database_header \<Rightarrow>
    ('w, database_header \<times> (page_id \<times> page) list) action" where
  "recover_log os p latest_frame_offsets header =
     (if latest_frame_offsets = [] then return_action (header, [])
      else bind_action (fh_open_existing os p) (\<lambda>wal_file.
        closing os wal_file (recover_pages os wal_file latest_frame_offsets header [])))"

definition pager_open :: "'w win32 \<Rightarrow> path \<Rightarrow> nat \<Rightarrow> ('w, 'w pager) action" where
  "pager_open os p bpm_capacity =
     ensure_action (bpm_capacity \<noteq> 0) InvalidArgument (
     bind_action (acquire_exclusive os p) (\<lambda>file_lock. destroying (destroy_lock os file_lock) (
     bind_action (disk_open_existing os p) (\<lambda>disk_manager. destroying (destroy_file os (dm_file disk_manager)) (
     bind_action (disk_read_header os disk_manager) (\<lambda>db_header.
     bind_action (wal_open_or_create os (wal_path p) (dh_database_id db_header)) (\<lambda>wal_manager.
       destroying (destroy_file os (wm_file wal_manager)) (
     bind_action (wal_scan os (wal_path p) (dh_database_id db_header)) (\<lambda>wal_scan_result.
     bind_action (recover_log os (wal_path p) (latest_committed_frame_offsets wal_scan_result) db_header)
       (\<lambda>(db_header, recovered_pages).
     return_action (pager_new file_lock disk_manager wal_manager (pool_new bpm_capacity) p
       db_header recovered_pages)))))))))))"

text \<open>
  \<open>Pager::create\<close> up to the call of \<open>Catalog::initialize\<close>; \<open>database_id\<close> is the number
  that \<open>generate_database_id\<close> drew.
\<close>

definition pager_create_files :: "'w win32 \<Rightarrow> path \<Rightarrow> nat \<Rightarrow> u64 \<Rightarrow> ('w, 'w pager) action" where
  "pager_create_files os p bpm_capacity database_id =
     ensure_action (bpm_capacity \<noteq> 0) InvalidArgument (
     let db_header = database_header_create_new database_id in
     bind_action (disk_create_new os p db_header) (\<lambda>disk_manager. destroying (destroy_file os (dm_file disk_manager)) (
     bind_action (acquire_exclusive os p) (\<lambda>file_lock. destroying (destroy_lock os file_lock) (
     bind_action (wal_open_or_create os (wal_path p) database_id) (\<lambda>wal_manager.
     return_action (pager_new file_lock disk_manager wal_manager (pool_new bpm_capacity) p
       db_header [])))))))"


definition pager_set_wal_fault_injector :: "'w injector option \<Rightarrow> 'w pager \<Rightarrow> 'w pager" where
  "pager_set_wal_fault_injector i pr = pr\<lparr>pr_wal := wal_set_fault_injector i (pr_wal pr)\<rparr>"

definition pager_set_disk_fault_injector :: "'w injector option \<Rightarrow> 'w pager \<Rightarrow> 'w pager" where
  "pager_set_disk_fault_injector i pr = pr\<lparr>pr_disk := disk_set_fault_injector i (pr_disk pr)\<rparr>"

end
