(* ===== verification/PagerTx.thy ===== *)
theory PagerTx
  imports Pager
begin

text \<open>
  What the transaction operations of the pager do to the buffer pool and to the transaction
  state: snapshots of dirty pages, publication of committed pages, and rollback. The pool is
  seen through \<open>frames_of\<close>, the map from page ids to cached frames.
\<close>

definition frames_of :: "'w pager \<Rightarrow> page_id \<rightharpoonup> buffer_frame" where
  "frames_of pr = lc_frames (pool_abs (pr_bpm pr))"

lemmas pager_action_defs = on_bpm_def get_pager_def modify_pager_def modify_tx_def require_def
  release_pin_def bind_action_def ensure_action_def

text \<open>The parts of the pager that the pool operations leave alone.\<close>

definition pager_rest :: "'w pager \<times> 'w \<Rightarrow> 'w pager \<times> 'w" where
  "pager_rest s = ((fst s)\<lparr>pr_bpm := pool_new 0\<rparr>, snd s)"

lemma pager_rest_bpm [simp]: "pager_rest (pr\<lparr>pr_bpm := b\<rparr>, w) = pager_rest (pr, w)"
  by (simp add: pager_rest_def)

lemma pager_rest_eq: "pager_rest (pr', w') = pager_rest (pr, w) \<longleftrightarrow>
    w' = w \<and> pr' = pr\<lparr>pr_bpm := pr_bpm pr'\<rparr>"
  by (cases pr; cases pr') (auto simp: pager_rest_def)

lemma on_bpm_implements:
  assumes "implements m spec (pr_bpm pr)"
  shows "\<exists>b r. on_bpm m (pr, w) = ((pr\<lparr>pr_bpm := b\<rparr>, w), r) \<and> m (pr_bpm pr) = (b, r) \<and>
    pool_ok b \<and> bp_capacity b = bp_capacity (pr_bpm pr) \<and>
    spec (pool_abs (pr_bpm pr)) = (pool_abs b, map_sum (\<lambda>e. e) (\<lambda>_. ()) r)"
  using assms by (cases "m (pr_bpm pr)") (auto simp: implements_def on_bpm_def)

lemma cached_not_invalid: "pool_ok b \<Longrightarrow> lc_frames (pool_abs b) p = Some fr \<Longrightarrow> p \<noteq> INVALID_PAGE_ID"
  using pool_table_frame(5)[OF pool_ok_table] by (auto simp: pool_abs_def)

lemma cached_page_id: "pool_ok b \<Longrightarrow> lc_frames (pool_abs b) p = Some fr \<Longrightarrow> pg_id (bf_page fr) = p"
  using pool_table_frame(4)[OF pool_ok_table] by (auto simp: pool_abs_def frame_page_id_def)

lemma is_unpinned_result:
  assumes "pool_ok b"
  shows "is_unpinned p b = (b, (case spec_find p (pool_abs b) of Inl e \<Rightarrow> Inl e
    | Inr fr \<Rightarrow> Inr (bf_pin_count fr = 0)))"
  using find_frame_spec[OF pool_ok_table[OF assms], of p]
  by (auto simp: is_unpinned_def bind_action_def frame_is_pinned_def word_gt_0)

section \<open>Snapshots\<close>

lemma pool_get_page_pin:
  assumes "pool_get_page p b = (b1, r)" "bp_page_frames b p = Some f" "p \<noteq> INVALID_PAGE_ID"
  shows "bp_page_frames b1 = bp_page_frames b"
    and "r = Inr pin \<Longrightarrow> pin = \<lparr>pp_frame = f, pp_is_dirty = False, pp_owns_pin = True\<rparr>"
  using assms
  by (auto simp: pool_get_page_def pin_page_def find_frame_def bind_action_def on_lru_def
      set_frame_def split: prod.splits sum.splits)

lemma pool_get_page_cached:
  assumes b: "pool_ok b" "lc_frames (pool_abs b) p = Some fr" "bf_pin_count fr \<noteq> 0xFFFFFFFF"
  shows "\<exists>b1 pin. pool_get_page p b = (b1, Inr pin) \<and> pool_ok b1 \<and>
    bp_capacity b1 = bp_capacity b \<and> pp_owns_pin pin \<and> \<not> pp_is_dirty pin \<and>
    bp_page_frames b1 p = Some (pp_frame pin) \<and> pin_page_value pin b1 = bf_page fr \<and>
    pool_abs b1 = (pool_abs b)\<lparr>lc_frames := (lc_frames (pool_abs b))(p \<mapsto> frame_pin fr),
      lc_order := removeAll p (lc_order (pool_abs b))\<rparr>"
proof -
  obtain f where f: "bp_page_frames b p = Some f" "fr = bp_frames b ! f"
    using b(2) by (auto simp: pool_abs_def)
  have valid: "p \<noteq> INVALID_PAGE_ID"
    using cached_not_invalid[OF b(1,2)] .
  obtain b1 r where get: "pool_get_page p b = (b1, r)" by (metis surj_pair)
  have "implements (pool_get_page p) (spec_get_page p) b"
    using b by (intro pool_get_page_implements) auto
  then have sp: "spec_get_page p (pool_abs b) = (pool_abs b1, map_sum (\<lambda>e. e) (\<lambda>_. ()) r)"
    and ok1: "pool_ok b1" "bp_capacity b1 = bp_capacity b"
    using get by (simp_all add: implements_def)
  have spec: "spec_find p (pool_abs b) = Inr fr"
    using b(2) valid by (simp add: spec_find_def)
  with sp obtain pin where pin: "r = Inr pin" and
    abs1: "pool_abs b1 = (pool_abs b)\<lparr>lc_frames := (lc_frames (pool_abs b))(p \<mapsto> frame_pin fr),
      lc_order := removeAll p (lc_order (pool_abs b))\<rparr>"
    by (cases r) (simp_all add: spec_get_page_def spec_on_def)
  note g = pool_get_page_pin[OF get f(1) valid]
  have "map_option ((!) (bp_frames b1)) (bp_page_frames b1 p) = Some (frame_pin fr)"
    using arg_cong[OF abs1, of lc_frames, THEN fun_cong, of p] by (simp add: pool_abs_def)
  then have "bp_frames b1 ! f = frame_pin fr"
    using g(1) f(1) by simp
  with get pin g(2)[OF pin] ok1 abs1 g(1) f(1) show ?thesis
    by (intro exI[of _ b1] exI[of _ pin]) (simp add: pin_page_value_def frame_pin_def)
qed

text \<open>
  Pinning an unpinned page and releasing the pin at once leaves every frame as it was.
\<close>

lemma pin_unpin_frames:
  assumes b: "pool_ok b" "lc_frames (pool_abs b) p = Some fr" "bf_pin_count fr \<noteq> 0xFFFFFFFF"
  shows "\<exists>b1 b2 pin. pool_get_page p b = (b1, Inr pin) \<and> pin_page_value pin b1 = bf_page fr \<and>
    snd (pin_release pin b1) = b2 \<and> pool_ok b2 \<and> bp_capacity b2 = bp_capacity b \<and>
    lc_frames (pool_abs b2) = lc_frames (pool_abs b)"
proof -
  from pool_get_page_cached[OF b] obtain b1 pin where get: "pool_get_page p b = (b1, Inr pin)"
    "pool_ok b1" "bp_capacity b1 = bp_capacity b" "pp_owns_pin pin" "\<not> pp_is_dirty pin"
    "bp_page_frames b1 p = Some (pp_frame pin)" "pin_page_value pin b1 = bf_page fr"
    and abs1: "pool_abs b1 = (pool_abs b)\<lparr>lc_frames := (lc_frames (pool_abs b))(p \<mapsto> frame_pin fr),
      lc_order := removeAll p (lc_order (pool_abs b))\<rparr>" by blast
  let ?b2 = "snd (pin_release pin b1)"
  note rel = pin_release_implements[OF get(2,6,4)]
  have valid: "p \<noteq> INVALID_PAGE_ID"
    using cached_not_invalid[OF b(1,2)] .
  have nz: "bf_pin_count fr + 1 \<noteq> 0"
    using b(3) pin_wraps by blast
  have "(lc_frames (pool_abs b))(p \<mapsto> fr) = lc_frames (pool_abs b)"
    using b(2) by auto
  then have "lc_frames (pool_abs ?b2) = lc_frames (pool_abs b)"
    using rel(2) abs1 valid nz get(5)
    by (simp add: spec_unpin_page_def spec_on_def spec_find_def Let_def frame_pin_def)
  moreover have "bp_capacity ?b2 = bp_capacity b1"
    using unpin_page_implements[OF get(2), of "pg_id (pin_page_value pin b1)" "pp_is_dirty pin"] get(4)
    by (auto simp: pin_release_def implements_def split: prod.splits)
  ultimately show ?thesis
    using get rel(1) by auto
qed

lemma snapshot_effect:
  assumes "pool_ok (pr_bpm pr)" "frames_of pr p = Some fr" "bf_pin_count fr \<noteq> 0xFFFFFFFF"
    and "p \<noteq> HEADER_PAGE_ID"
  shows "\<exists>b. pager_dirty_page_snapshot p (pr, w) = ((pr\<lparr>pr_bpm := b\<rparr>, w), Inr (bf_page fr)) \<and>
    pool_ok b \<and> lc_frames (pool_abs b) = frames_of pr"
  using pin_unpin_frames[OF assms(1) _ assms(3), of p] assms(2,4)
  by (auto simp: pager_dirty_page_snapshot_def pager_action_defs frames_of_def)

lemma header_snapshot:
  "pager_dirty_page_snapshot HEADER_PAGE_ID (pr, w) = ((pr, w),
     if database_header_valid (pr_header pr)
     then Inr \<lparr>pg_id = HEADER_PAGE_ID, pg_data = database_header_bytes (pr_header pr)\<rparr>
     else Inl InvalidArgument)"
  by (simp add: pager_dirty_page_snapshot_def pager_action_defs database_header_encode_eq)

text \<open>The page that a snapshot returns.\<close>

definition snapshot_of :: "'w pager \<Rightarrow> page_id \<Rightarrow> page" where
  "snapshot_of pr p =
     (if p = HEADER_PAGE_ID
      then \<lparr>pg_id = HEADER_PAGE_ID, pg_data = database_header_bytes (pr_header pr)\<rparr>
      else bf_page (the (frames_of pr p)))"

text \<open>Every page of the transaction is in the pool and unpinned.\<close>

definition dirty_ready :: "'w pager \<Rightarrow> page_id list \<Rightarrow> bool" where
  "dirty_ready pr ps \<longleftrightarrow>
     (\<forall>p \<in> set ps. p \<noteq> HEADER_PAGE_ID \<longrightarrow>
        (\<exists>fr. frames_of pr p = Some fr \<and> bf_pin_count fr = 0 \<and> page_wf (bf_page fr))) \<and>
     (HEADER_PAGE_ID \<in> set ps \<longrightarrow> database_header_valid (pr_header pr))"

lemma snapshots_effect:
  assumes "pool_ok (pr_bpm pr)" "dirty_ready pr ps"
  shows "\<exists>b. snapshots ps (pr, w) = ((pr\<lparr>pr_bpm := b\<rparr>, w), Inr (map (snapshot_of pr) ps)) \<and>
    pool_ok b \<and> lc_frames (pool_abs b) = frames_of pr"
  using assms
proof (induction ps arbitrary: pr)
  case Nil
  then show ?case by (intro exI[of _ "pr_bpm pr"]) (simp add: frames_of_def)
next
  case (Cons p ps)
  have one: "\<exists>b. pager_dirty_page_snapshot p (pr, w) = ((pr\<lparr>pr_bpm := b\<rparr>, w), Inr (snapshot_of pr p)) \<and>
    pool_ok b \<and> lc_frames (pool_abs b) = frames_of pr"
  proof (cases "p = HEADER_PAGE_ID")
    case True
    with Cons.prems show ?thesis
      by (intro exI[of _ "pr_bpm pr"])
        (simp add: header_snapshot dirty_ready_def snapshot_of_def frames_of_def)
  next
    case False
    with Cons.prems(2) obtain fr where fr: "frames_of pr p = Some fr" "bf_pin_count fr \<noteq> 0xFFFFFFFF"
      by (auto simp: dirty_ready_def)
    from snapshot_effect[OF Cons.prems(1) fr False] fr(1) False show ?thesis
      by (auto simp: snapshot_of_def)
  qed
  then obtain b where b: "pager_dirty_page_snapshot p (pr, w) =
      ((pr\<lparr>pr_bpm := b\<rparr>, w), Inr (snapshot_of pr p))" "pool_ok b"
    "lc_frames (pool_abs b) = frames_of pr" by blast
  let ?pr = "pr\<lparr>pr_bpm := b\<rparr>"
  have same: "frames_of ?pr = frames_of pr" "snapshot_of ?pr = snapshot_of pr"
    using b(3) by (simp_all add: frames_of_def snapshot_of_def fun_eq_iff)
  have "dirty_ready ?pr ps"
    using Cons.prems(2) same by (simp add: dirty_ready_def)
  with Cons.IH[of ?pr] b(2) obtain c where "snapshots ps (?pr, w) =
      ((?pr\<lparr>pr_bpm := c\<rparr>, w), Inr (map (snapshot_of pr) ps))" "pool_ok c"
    "lc_frames (pool_abs c) = frames_of pr" by (auto simp: same)
  with b(1) show ?case
    by (intro exI[of _ c]) (simp add: bind_action_def)
qed

text \<open>The check that opens the commit succeeds exactly when the dirty pages are unpinned.\<close>

lemma require_unpinned_effect:
  assumes "pool_ok (pr_bpm pr)"
  shows "\<exists>r. require_unpinned p (pr, w) = ((pr, w), r) \<and> (r = Ok \<longleftrightarrow> p = HEADER_PAGE_ID \<or>
    (\<exists>fr. frames_of pr p = Some fr \<and> bf_pin_count fr = 0))"
  using is_unpinned_result[OF assms, of p] cached_not_invalid[OF assms, of p]
  by (auto simp: require_unpinned_def pager_action_defs spec_find_def frames_of_def
      split: option.splits if_splits)

lemma require_unpinned_all:
  assumes "pool_ok (pr_bpm pr)"
  shows "\<exists>r. for_each ps require_unpinned (pr, w) = ((pr, w), r) \<and>
    (r = Ok \<longleftrightarrow> (\<forall>p \<in> set ps. p = HEADER_PAGE_ID \<or>
      (\<exists>fr. frames_of pr p = Some fr \<and> bf_pin_count fr = 0)))"
proof (induction ps)
  case (Cons p ps)
  from require_unpinned_effect[OF assms, of p w] obtain r1 where r1:
    "require_unpinned p (pr, w) = ((pr, w), r1)" "r1 = Ok \<longleftrightarrow> p = HEADER_PAGE_ID \<or>
      (\<exists>fr. frames_of pr p = Some fr \<and> bf_pin_count fr = 0)" by blast
  from Cons.IH obtain r2 where r2: "for_each ps require_unpinned (pr, w) = ((pr, w), r2)"
    "r2 = Ok \<longleftrightarrow> (\<forall>p \<in> set ps. p = HEADER_PAGE_ID \<or>
      (\<exists>fr. frames_of pr p = Some fr \<and> bf_pin_count fr = 0))" by blast
  show ?case
  proof (cases r1)
    case (Inl e)
    then show ?thesis
      using r1 by (intro exI[of _ r1]) (simp add: bind_action_def)
  next
    case (Inr u)
    then show ?thesis
      using r1 r2 by (intro exI[of _ r2]) (simp add: bind_action_def)
  qed
qed simp


section \<open>Commit\<close>

definition publish_recovered :: "page list \<Rightarrow> (page_id \<times> page) list \<Rightarrow> (page_id \<times> page) list" where
  "publish_recovered pages recovered =
     fold (\<lambda>pg r. if pg_id pg = HEADER_PAGE_ID then r else AList.update (pg_id pg) pg r) pages recovered"

definition undirty :: "page_id set \<Rightarrow> (page_id \<rightharpoonup> buffer_frame) \<Rightarrow> (page_id \<rightharpoonup> buffer_frame)" where
  "undirty ps m p = (if p \<in> ps \<and> p \<noteq> HEADER_PAGE_ID
     then map_option (\<lambda>fr. fr\<lparr>bf_is_dirty := False\<rparr>) (m p) else m p)"

lemma clear_dirty_cached:
  assumes "pool_ok b" "lc_frames (pool_abs b) p = Some fr"
  shows "\<exists>b'. clear_dirty p b = (b', Ok) \<and> pool_ok b' \<and>
    lc_frames (pool_abs b') = (lc_frames (pool_abs b))(p \<mapsto> fr\<lparr>bf_is_dirty := False\<rparr>)"
proof -
  obtain f where f: "bp_page_frames b p = Some f" "fr = bp_frames b ! f"
    using assms(2) by (auto simp: pool_abs_def)
  from clear_dirty_found[OF assms(1) f(1)] f(2) show ?thesis by force
qed

lemma publish_effect:
  assumes "pool_ok (pr_bpm pr)"
    and "\<forall>pg \<in> set pages. pg_id pg \<noteq> HEADER_PAGE_ID \<longrightarrow> frames_of pr (pg_id pg) \<noteq> None"
  shows "\<exists>b. for_each pages publish_page (pr, w) = ((pr\<lparr>pr_bpm := b,
      pr_recovered := publish_recovered pages (pr_recovered pr),
      pr_committed_header := (if HEADER_PAGE_ID \<in> pg_id ` set pages then pr_header pr
        else pr_committed_header pr)\<rparr>, w), Ok) \<and>
    pool_ok b \<and> lc_frames (pool_abs b) = undirty (pg_id ` set pages) (frames_of pr)"
  using assms
proof (induction pages arbitrary: pr)
  case Nil
  then show ?case
    by (intro exI[of _ "pr_bpm pr"]) (simp add: publish_recovered_def undirty_def frames_of_def fun_eq_iff)
next
  case (Cons pg pages)
  show ?case
  proof (cases "pg_id pg = HEADER_PAGE_ID")
    case True
    let ?pr = "pr\<lparr>pr_committed_header := pr_header pr\<rparr>"
    have run: "publish_page pg (pr, w) = ((?pr, w), Ok)"
      using True by (simp add: publish_page_def modify_pager_def)
    have "frames_of ?pr = frames_of pr" by (simp add: frames_of_def)
    with Cons.IH[of ?pr] Cons.prems obtain b where b:
      "for_each pages publish_page (?pr, w) = ((?pr\<lparr>pr_bpm := b,
        pr_recovered := publish_recovered pages (pr_recovered pr),
        pr_committed_header := pr_header pr\<rparr>, w), Ok)" "pool_ok b"
      "lc_frames (pool_abs b) = undirty (pg_id ` set pages) (frames_of pr)"
      by (auto split: if_splits)
    then show ?thesis
      using True run
      by (intro exI[of _ b])
        (auto simp: bind_action_def publish_recovered_def undirty_def fun_eq_iff)
  next
    case False
    with Cons.prems(2) obtain fr where fr: "lc_frames (pool_abs (pr_bpm pr)) (pg_id pg) = Some fr"
      by (auto simp: frames_of_def)
    from clear_dirty_cached[OF Cons.prems(1) fr] obtain c where c:
      "clear_dirty (pg_id pg) (pr_bpm pr) = (c, Ok)" "pool_ok c"
      "lc_frames (pool_abs c) = (frames_of pr)(pg_id pg \<mapsto> fr\<lparr>bf_is_dirty := False\<rparr>)"
      by (auto simp: frames_of_def)
    let ?pr = "pr\<lparr>pr_recovered := AList.update (pg_id pg) pg (pr_recovered pr), pr_bpm := c\<rparr>"
    have run: "publish_page pg (pr, w) = ((?pr, w), Ok)"
      using False c(1) by (simp add: publish_page_def pager_action_defs)
    have frames: "frames_of ?pr = (frames_of pr)(pg_id pg \<mapsto> fr\<lparr>bf_is_dirty := False\<rparr>)"
      using c(3) by (simp add: frames_of_def)
    have "\<forall>pg \<in> set pages. pg_id pg \<noteq> HEADER_PAGE_ID \<longrightarrow> frames_of ?pr (pg_id pg) \<noteq> None"
      using Cons.prems(2) by (auto simp: frames)
    with Cons.IH[of ?pr] c(2) have IH: "\<exists>b. for_each pages publish_page (?pr, w) = ((?pr\<lparr>pr_bpm := b,
        pr_recovered := publish_recovered pages (pr_recovered ?pr),
        pr_committed_header := (if HEADER_PAGE_ID \<in> pg_id ` set pages then pr_header pr
        else pr_committed_header pr)\<rparr>, w), Ok) \<and> pool_ok b \<and>
      lc_frames (pool_abs b) = undirty (pg_id ` set pages) (frames_of ?pr)"
      by (simp cong: if_cong)
    then obtain b where b:
      "for_each pages publish_page (?pr, w) = ((?pr\<lparr>pr_bpm := b,
        pr_recovered := publish_recovered pages (pr_recovered ?pr),
        pr_committed_header := (if HEADER_PAGE_ID \<in> pg_id ` set pages then pr_header pr
        else pr_committed_header pr)\<rparr>, w), Ok)" "pool_ok b"
      "lc_frames (pool_abs b) = undirty (pg_id ` set pages) (frames_of ?pr)"
      by blast
    have "undirty (pg_id ` set pages) (frames_of ?pr) =
        undirty (insert (pg_id pg) (pg_id ` set pages)) (frames_of pr)"
      unfolding frames using fr False
      by (auto simp: undirty_def fun_eq_iff frames_of_def)
    with b run False show ?thesis
      by (intro exI[of _ b]) (simp add: bind_action_def publish_recovered_def)
  qed
qed

lemma snapshot_of_id:
  assumes "pool_ok (pr_bpm pr)" "p = HEADER_PAGE_ID \<or> frames_of pr p \<noteq> None"
  shows "pg_id (snapshot_of pr p) = p"
  using assms cached_page_id[OF assms(1), of p] by (auto simp: snapshot_of_def frames_of_def)

text \<open>
  The commit of an active transaction, whatever happens: it is refused before anything is
  written, or it hands the snapshots of the dirty pages to the log and follows its outcome.
\<close>

lemma pager_commit_effect:
  assumes run: "pager_commit_transaction os (pr, w) = ((pr', w'), r)"
    and pr: "pool_ok (pr_bpm pr)" "\<not> pr_closed pr" "tx_status (pr_tx pr) = Active"
    and wf: "\<forall>p fr. frames_of pr p = Some fr \<longrightarrow> page_wf (bf_page fr)"
      "database_header_valid (pr_header pr)"
  defines "ps \<equiv> tx_dirty_page_ids (pr_tx pr)"
  defines "pages \<equiv> map (snapshot_of pr) ps"
  obtains (refused) "r \<noteq> Ok" "pr' = pr" "w' = w"
  | (unresolved) wm b e where
      "wal_commit_transaction os (tx_id (pr_tx pr)) pages (pr_wal pr, w) = ((wm, w'), Inl e)"
      "r = Inl e" "pr' = pr\<lparr>pr_bpm := b, pr_wal := wm, pr_tx := (pr_tx pr)\<lparr>tx_status := Unresolved\<rparr>\<rparr>"
      "dirty_ready pr ps" "pool_ok b" "lc_frames (pool_abs b) = frames_of pr"
  | (committed) wm b where
      "wal_commit_transaction os (tx_id (pr_tx pr)) pages (pr_wal pr, w) = ((wm, w'), Ok)"
      "r = Ok" "dirty_ready pr ps" "map pg_id pages = ps"
      "pr' = pr\<lparr>pr_bpm := b, pr_wal := wm, pr_recovered := publish_recovered pages (pr_recovered pr),
        pr_committed_header := (if HEADER_PAGE_ID \<in> set ps then pr_header pr
          else pr_committed_header pr), pr_tx := tx_clear\<rparr>"
      "pool_ok b" "lc_frames (pool_abs b) = undirty (set ps) (frames_of pr)"
proof -
  obtain r1 where check: "for_each ps require_unpinned (pr, w) = ((pr, w), r1)"
    "r1 = Ok \<longleftrightarrow> (\<forall>p \<in> set ps. p = HEADER_PAGE_ID \<or>
      (\<exists>fr. frames_of pr p = Some fr \<and> bf_pin_count fr = 0))"
    using require_unpinned_all[OF pr(1)] by blast
  let ?go = "\<lambda>s. case on_wal (wal_commit_transaction os (tx_id (pr_tx pr)) pages) s of
         (s1, Inl e) \<Rightarrow> (fst (modify_tx (\<lambda>t. t\<lparr>tx_status := Unresolved\<rparr>) s1), Inl e)
       | (s1, Inr _) \<Rightarrow> bind_action (for_each pages publish_page) (\<lambda>_. modify_tx (\<lambda>_. tx_clear)) s1"
  show thesis
  proof (cases r1)
    case (Inl e)
    then show thesis
      using run pr(2,3) check
      by (intro refused) (auto simp: pager_commit_transaction_def pager_action_defs ps_def[symmetric]
          tx_in_transaction_def tx_is_failed_def tx_is_unresolved_def)
  next
    case (Inr u)
    then have ready: "dirty_ready pr ps"
      using check wf by (auto simp: dirty_ready_def)
    from snapshots_effect[OF pr(1) ready] obtain b1 where snap:
      "snapshots ps (pr, w) = ((pr\<lparr>pr_bpm := b1\<rparr>, w), Inr pages)" "pool_ok b1"
      "lc_frames (pool_abs b1) = frames_of pr" by (auto simp: pages_def)
    have ids: "map pg_id pages = ps"
      using ready snapshot_of_id[OF pr(1)]
      by (auto simp: pages_def dirty_ready_def intro!: map_idI)
    have go: "?go (pr\<lparr>pr_bpm := b1\<rparr>, w) = ((pr', w'), r)"
      unfolding bind_action_def using run pr(2,3) check(1) Inr snap(1)
      by (simp add: pager_commit_transaction_def bind_action_def require_def get_pager_def
          ps_def[symmetric] tx_in_transaction_def tx_is_failed_def tx_is_unresolved_def)
    obtain wm w1 rw where wal:
      "wal_commit_transaction os (tx_id (pr_tx pr)) pages (pr_wal pr, w) = ((wm, w1), rw)"
      by (metis surj_pair)
    show thesis
    proof (cases rw)
      case (Inl e)
      then show thesis
        using go wal snap(2,3) ready
        by (intro unresolved[of wm e b1]) (auto simp: on_wal_def modify_tx_def modify_pager_def)
    next
      case (Inr v)
      let ?pr = "pr\<lparr>pr_bpm := b1, pr_wal := wm\<rparr>"
      have frames: "frames_of ?pr = frames_of pr"
        using snap(3) by (simp add: frames_of_def)
      have img: "pg_id ` set pages = set ps"
        using ids by (metis list.set_map)
      have cached: "\<forall>pg \<in> set pages. pg_id pg \<noteq> HEADER_PAGE_ID \<longrightarrow> frames_of ?pr (pg_id pg) \<noteq> None"
        using ready img by (auto simp: frames dirty_ready_def)
      from publish_effect[of ?pr pages w1, OF _ cached] snap(2) obtain b where b:
        "for_each pages publish_page (?pr, w1) = ((?pr\<lparr>pr_bpm := b,
          pr_recovered := publish_recovered pages (pr_recovered pr),
          pr_committed_header := (if HEADER_PAGE_ID \<in> set ps then pr_header pr
            else pr_committed_header pr)\<rparr>, w1), Ok)"
        "pool_ok b" "lc_frames (pool_abs b) = undirty (set ps) (frames_of pr)"
        by (auto simp: img frames cong: if_cong)
      then show thesis
        using go wal Inr ready ids
        by (intro committed[of wm b])
          (auto simp: on_wal_def modify_tx_def modify_pager_def bind_action_def)
    qed
  qed
qed


section \<open>Rollback\<close>

text \<open>
  What the checks of a rollback establish, for one original page and for one new page, and
  the pool and header that its two passes leave.
\<close>

definition restorable :: "'w pager \<Rightarrow> page_id \<times> page \<Rightarrow> bool" where
  "restorable pr entry \<longleftrightarrow> (case entry of (p, pg) \<Rightarrow> p = pg_id pg \<and>
     p \<notin> set (tx_new_page_ids (pr_tx pr)) \<and>
     (if p = HEADER_PAGE_ID then \<exists>h. database_header_decode (pg_data pg) = Inr h
      else \<exists>fr. frames_of pr p = Some fr \<and> bf_pin_count fr = 0))"

definition discardable :: "'w pager \<Rightarrow> page_id \<Rightarrow> bool" where
  "discardable pr p \<longleftrightarrow> (\<exists>fr. frames_of pr p = Some fr \<and> bf_pin_count fr = 0)"

definition restored_header :: "(page_id \<times> page) list \<Rightarrow> database_header \<Rightarrow> database_header" where
  "restored_header originals h =
     (case map_of originals HEADER_PAGE_ID of None \<Rightarrow> h
      | Some pg \<Rightarrow> (case database_header_decode (pg_data pg) of Inl _ \<Rightarrow> h | Inr h' \<Rightarrow> h'))"

definition restored_frames :: "(page_id \<times> page) list \<Rightarrow> (page_id \<rightharpoonup> buffer_frame) \<Rightarrow>
    (page_id \<rightharpoonup> buffer_frame)" where
  "restored_frames originals m p =
     (if p = HEADER_PAGE_ID then m p
      else case map_of originals p of None \<Rightarrow> m p
        | Some pg \<Rightarrow> map_option (\<lambda>fr. fr\<lparr>bf_is_dirty := False, bf_page := pg\<rparr>) (m p))"

lemma can_discard_effect:
  assumes "pool_ok (pr_bpm pr)"
  shows "\<exists>r. on_bpm (can_discard_page p) (pr, w) = ((pr, w), r) \<and> (r = Ok \<longleftrightarrow> discardable pr p)"
  using can_discard_page_cases[OF assms, of p] cached_not_invalid[OF assms, of p]
  by (auto simp: on_bpm_def discardable_def frames_of_def spec_find_def split: option.splits)

lemma rollback_check_effect:
  assumes "pool_ok (pr_bpm pr)"
  shows "\<exists>r. rollback_check (pr_tx pr) entry (pr, w) = ((pr, w), r) \<and> (r = Ok \<longleftrightarrow> restorable pr entry)"
proof -
  obtain p pg where entry: "entry = (p, pg)" by (metis surj_pair)
  have "\<exists>r. on_bpm (can_restore_page pg) (pr, w) = ((pr, w), r) \<and> (r = Ok \<longleftrightarrow> discardable pr (pg_id pg))"
    using can_discard_effect[OF assms, of "pg_id pg" w] by (simp add: can_restore_page_def)
  then obtain r where "on_bpm (can_restore_page pg) (pr, w) = ((pr, w), r)"
    "r = Ok \<longleftrightarrow> discardable pr (pg_id pg)" by blast
  then show ?thesis
    by (cases "database_header_decode (pg_data pg)")
      (auto simp: rollback_check_def entry restorable_def discardable_def ensure_action_apply)
qed

text \<open>A pass of checks, each of which leaves the state alone.\<close>

lemma for_each_checks:
  assumes "\<And>x. \<exists>r. f x s = (s, r) \<and> (r = Ok \<longleftrightarrow> P x)"
  shows "\<exists>r. for_each xs f s = (s, r) \<and> (r = Ok \<longleftrightarrow> (\<forall>x \<in> set xs. P x))"
proof (induction xs)
  case (Cons x xs)
  obtain r1 where r1: "f x s = (s, r1)" "r1 = Ok \<longleftrightarrow> P x" using assms by blast
  obtain r2 where r2: "for_each xs f s = (s, r2)" "r2 = Ok \<longleftrightarrow> (\<forall>x \<in> set xs. P x)"
    using Cons.IH by blast
  show ?case
  proof (cases r1)
    case (Inl e)
    with r1 show ?thesis by (intro exI[of _ r1]) (simp add: bind_action_def)
  next
    case (Inr u)
    with r1 r2 show ?thesis by (intro exI[of _ r2]) (simp add: bind_action_def)
  qed
qed simp

lemma restore_cached:
  assumes "pool_ok b" "lc_frames (pool_abs b) (pg_id pg) = Some fr" "bf_pin_count fr = 0"
  shows "\<exists>b'. restore_page pg b = (b', Ok) \<and> pool_ok b' \<and> lc_frames (pool_abs b') =
    (lc_frames (pool_abs b))(pg_id pg \<mapsto> fr\<lparr>bf_is_dirty := False, bf_page := pg\<rparr>)"
proof -
  obtain b' r where "restore_page pg b = (b', r)" by (metis surj_pair)
  with restore_page_implements[OF assms(1), of pg] assms(2,3) cached_not_invalid[OF assms(1,2)]
  show ?thesis
    by (cases r) (auto simp: implements_def spec_restore_page_def spec_on_def spec_find_def
        dest!: sym[of _ "pool_abs b'"])
qed

lemma discard_cached:
  assumes "pool_ok b" "lc_frames (pool_abs b) p = Some fr" "bf_pin_count fr = 0"
  shows "\<exists>b'. discard_page p b = (b', Ok) \<and> pool_ok b' \<and>
    lc_frames (pool_abs b') = (lc_frames (pool_abs b))(p := None)"
proof -
  obtain b' r where "discard_page p b = (b', r)" by (metis surj_pair)
  with discard_page_implements[OF assms(1), of p] assms(2,3) cached_not_invalid[OF assms(1,2)]
  show ?thesis
    by (cases r) (auto simp: implements_def spec_discard_page_def spec_on_def spec_find_def
        dest!: sym[of _ "pool_abs b'"])
qed

lemma restore_all:
  assumes "pool_ok (pr_bpm pr)" "distinct (map fst originals)"
    and "\<forall>entry \<in> set originals. restorable pr entry"
  shows "\<exists>b. for_each originals rollback_restore (pr, w) =
      ((pr\<lparr>pr_bpm := b, pr_header := restored_header originals (pr_header pr)\<rparr>, w), Ok) \<and>
    pool_ok b \<and> lc_frames (pool_abs b) = restored_frames originals (frames_of pr)"
  using assms
proof (induction originals arbitrary: pr)
  case Nil
  then show ?case
    by (intro exI[of _ "pr_bpm pr"])
      (simp add: restored_header_def restored_frames_def frames_of_def fun_eq_iff)
next
  case (Cons entry originals)
  obtain p pg where entry: "entry = (p, pg)" by (metis surj_pair)
  have pg: "p = pg_id pg" and fresh: "map_of originals p = None"
    using Cons.prems(2,3) by (auto simp: entry restorable_def map_of_eq_None_iff)
  show ?case
  proof (cases "p = HEADER_PAGE_ID")
    case True
    then obtain h where h: "database_header_decode (pg_data pg) = Inr h"
      using Cons.prems(3) by (auto simp: entry restorable_def)
    let ?pr = "pr\<lparr>pr_header := h\<rparr>"
    have run: "rollback_restore entry (pr, w) = ((?pr, w), Ok)"
      using True h by (simp add: rollback_restore_def entry modify_pager_def)
    have frames: "frames_of ?pr = frames_of pr"
      by (simp add: frames_of_def)
    have "restorable ?pr x = restorable pr x" for x
      unfolding restorable_def frames by simp
    then have "\<forall>entry \<in> set originals. restorable ?pr entry"
      using Cons.prems(3) by simp
    with Cons.IH[of ?pr] Cons.prems(1,2) obtain b where b:
      "for_each originals rollback_restore (?pr, w) = ((?pr\<lparr>pr_bpm := b,
        pr_header := restored_header originals h\<rparr>, w), Ok)" "pool_ok b"
      "lc_frames (pool_abs b) = restored_frames originals (frames_of pr)"
      by (auto simp: frames)
    have "restored_frames originals (frames_of pr) = restored_frames (entry # originals) (frames_of pr)"
      by (auto simp: restored_frames_def entry True fun_eq_iff)
    moreover have "restored_header (entry # originals) (pr_header pr) = restored_header originals h"
      using True h fresh by (simp add: restored_header_def entry)
    ultimately show ?thesis
      using b run by (intro exI[of _ b]) (simp add: bind_action_def)
  next
    case False
    then obtain fr where fr: "lc_frames (pool_abs (pr_bpm pr)) (pg_id pg) = Some fr" "bf_pin_count fr = 0"
      using Cons.prems(3) pg by (auto simp: entry restorable_def frames_of_def)
    from restore_cached[OF Cons.prems(1) fr] obtain c where c: "restore_page pg (pr_bpm pr) = (c, Ok)"
      "pool_ok c" "lc_frames (pool_abs c) = (frames_of pr)(p \<mapsto> fr\<lparr>bf_is_dirty := False, bf_page := pg\<rparr>)"
      by (auto simp: frames_of_def pg)
    let ?pr = "pr\<lparr>pr_bpm := c\<rparr>"
    have run: "rollback_restore entry (pr, w) = ((?pr, w), Ok)"
      using False c(1) by (simp add: rollback_restore_def entry on_bpm_def)
    have frames: "frames_of ?pr = (frames_of pr)(p \<mapsto> fr\<lparr>bf_is_dirty := False, bf_page := pg\<rparr>)"
      using c(3) by (simp add: frames_of_def)
    have "restorable ?pr x" if "x \<in> set originals" for x
    proof -
      have "fst x \<noteq> p" using that fresh by (metis map_of_eq_None_iff image_eqI)
      then show ?thesis
        using Cons.prems(3) that by (cases x) (auto simp: restorable_def frames)
    qed
    with Cons.IH[of ?pr] Cons.prems(2) c(2) obtain b where b:
      "for_each originals rollback_restore (?pr, w) = ((?pr\<lparr>pr_bpm := b,
        pr_header := restored_header originals (pr_header pr)\<rparr>, w), Ok)" "pool_ok b"
      "lc_frames (pool_abs b) = restored_frames originals (frames_of ?pr)"
      by auto
    have "restored_frames originals (frames_of ?pr) q =
        restored_frames (entry # originals) (frames_of pr) q" for q
      unfolding frames using fr fresh pg False
      by (cases "q = p"; cases "map_of originals q")
        (simp_all add: restored_frames_def entry frames_of_def)
    then have "restored_frames originals (frames_of ?pr) = restored_frames (entry # originals) (frames_of pr)"
      by blast
    moreover have "restored_header (entry # originals) (pr_header pr) =
        restored_header originals (pr_header pr)"
      using False by (simp add: restored_header_def entry)
    ultimately show ?thesis
      using b run by (intro exI[of _ b]) (simp add: bind_action_def)
  qed
qed

lemma discard_all:
  assumes "pool_ok (pr_bpm pr)" "distinct ps" "\<forall>p \<in> set ps. discardable pr p"
  shows "\<exists>b. for_each ps (\<lambda>p. on_bpm (discard_page p)) (pr, w) = ((pr\<lparr>pr_bpm := b\<rparr>, w), Ok) \<and>
    pool_ok b \<and> lc_frames (pool_abs b) = frames_of pr |` (- set ps)"
  using assms
proof (induction ps arbitrary: pr)
  case Nil
  then show ?case
    by (intro exI[of _ "pr_bpm pr"]) (simp add: frames_of_def)
next
  case (Cons p ps)
  then obtain fr where fr: "lc_frames (pool_abs (pr_bpm pr)) p = Some fr" "bf_pin_count fr = 0"
    by (auto simp: discardable_def frames_of_def)
  from discard_cached[OF Cons.prems(1) fr] obtain c where c: "discard_page p (pr_bpm pr) = (c, Ok)"
    "pool_ok c" "lc_frames (pool_abs c) = (frames_of pr)(p := None)" by (auto simp: frames_of_def)
  let ?pr = "pr\<lparr>pr_bpm := c\<rparr>"
  have frames: "frames_of ?pr = (frames_of pr)(p := None)"
    using c(3) by (simp add: frames_of_def)
  have "\<forall>q \<in> set ps. discardable ?pr q"
    using Cons.prems(2,3) by (auto simp: discardable_def frames)
  with Cons.IH[of ?pr] Cons.prems(2) c(2) have "\<exists>b. for_each ps (\<lambda>p. on_bpm (discard_page p)) (?pr, w) =
      ((pr\<lparr>pr_bpm := b\<rparr>, w), Ok) \<and> pool_ok b \<and>
    lc_frames (pool_abs b) = frames_of ?pr |` (- set ps)"
    by simp
  moreover have "frames_of ?pr |` (- set ps) = frames_of pr |` (- set (p # ps))"
    by (auto simp: frames restrict_map_def fun_eq_iff)
  moreover have "on_bpm (discard_page p) (pr, w) = ((?pr, w), Ok)"
    using c(1) by (simp add: on_bpm_def)
  ultimately show ?case
    by (simp add: bind_action_def)
qed

text \<open>
  A rollback is all or nothing: when a check fails, nothing has changed; when it succeeds,
  the original pages are back, the new pages are gone and the header is the original one.
\<close>

lemma pager_rollback_effect:
  assumes run: "pager_rollback_transaction (pr, w) = ((pr', w'), r)"
    and pr: "pool_ok (pr_bpm pr)" "\<not> pr_closed pr"
    and keys: "distinct (map fst (tx_original_pages (pr_tx pr)))" "distinct (tx_new_page_ids (pr_tx pr))"
  defines "originals \<equiv> tx_original_pages (pr_tx pr)" and "news \<equiv> tx_new_page_ids (pr_tx pr)"
  obtains (refused) "r \<noteq> Ok" "pr' = pr" "w' = w"
  | (rolled_back) b where "r = Ok" "w' = w" "tx_status (pr_tx pr) \<in> {Active, Failed}"
      "\<forall>entry \<in> set originals. restorable pr entry" "\<forall>p \<in> set news. discardable pr p"
      "pr' = pr\<lparr>pr_bpm := b, pr_header := restored_header originals (pr_header pr), pr_tx := tx_clear\<rparr>"
      "pool_ok b" "lc_frames (pool_abs b) = restored_frames originals (frames_of pr) |` (- set news)"
proof -
  obtain r1 where r1: "for_each originals (rollback_check (pr_tx pr)) (pr, w) = ((pr, w), r1)"
    "r1 = Ok \<longleftrightarrow> (\<forall>entry \<in> set originals. restorable pr entry)"
    using for_each_checks[where f = "rollback_check (pr_tx pr)" and s = "(pr, w)" and P = "restorable pr",
        OF rollback_check_effect[OF pr(1)]] by blast
  obtain r2 where r2: "for_each news (\<lambda>p. on_bpm (can_discard_page p)) (pr, w) = ((pr, w), r2)"
    "r2 = Ok \<longleftrightarrow> (\<forall>p \<in> set news. discardable pr p)"
    using for_each_checks[where f = "\<lambda>p. on_bpm (can_discard_page p)" and s = "(pr, w)" and
        P = "discardable pr", OF can_discard_effect[OF pr(1)]]
    by blast
  show thesis
  proof (cases "tx_status (pr_tx pr) \<in> {Active, Failed} \<and> r1 = Ok \<and> r2 = Ok")
    case False
    then have "r \<noteq> Ok \<and> pr' = pr \<and> w' = w"
      using run r1(1) r2(1) pr(2)
      by (cases "tx_status (pr_tx pr)"; cases r1; cases r2)
        (auto simp: pager_rollback_transaction_def bind_action_def require_def get_pager_def
          originals_def[symmetric] news_def[symmetric] tx_in_transaction_def tx_is_unresolved_def)
    then show thesis using refused by blast
  next
    case True
    from restore_all[OF pr(1), of originals w] keys(1) True r1(2) obtain b1 where b1:
      "for_each originals rollback_restore (pr, w) =
        ((pr\<lparr>pr_bpm := b1, pr_header := restored_header originals (pr_header pr)\<rparr>, w), Ok)"
      "pool_ok b1" "lc_frames (pool_abs b1) = restored_frames originals (frames_of pr)"
      by (auto simp: originals_def)
    let ?pr = "pr\<lparr>pr_bpm := b1, pr_header := restored_header originals (pr_header pr)\<rparr>"
    have frames: "frames_of ?pr = restored_frames originals (frames_of pr)"
      using b1(3) by (simp add: frames_of_def)
    have "discardable ?pr p" if "p \<in> set news" for p
    proof -
      have "map_of originals p = None"
        using True r1(2) that by (fastforce simp: map_of_eq_None_iff restorable_def news_def)
      then show ?thesis
        using True r2(2) that by (auto simp: discardable_def frames restored_frames_def)
    qed
    with discard_all[of ?pr news w] b1(2) keys(2) obtain b where b:
      "for_each news (\<lambda>p. on_bpm (discard_page p)) (?pr, w) = ((?pr\<lparr>pr_bpm := b\<rparr>, w), Ok)"
      "pool_ok b" "lc_frames (pool_abs b) = restored_frames originals (frames_of pr) |` (- set news)"
      by (auto simp: frames news_def)
    have "((pr', w'), r) = ((?pr\<lparr>pr_bpm := b, pr_tx := tx_clear\<rparr>, w), Ok)"
      using run r1(1) r2(1) pr(2) True b1(1) b(1)
      by (auto simp: pager_rollback_transaction_def bind_action_def require_def get_pager_def
          originals_def[symmetric] news_def[symmetric] tx_in_transaction_def tx_is_unresolved_def
          modify_tx_def modify_pager_def)
    then show thesis
      using rolled_back[of b] True r1(2) r2(2) b(2,3) by simp
  qed
qed

section \<open>Property of the rollback\<close>

text \<open>
  C8. Rolling a transaction back is all or nothing: either it is refused and neither the
  pager nor any file has changed, or every page of the transaction is restored (the original
  image and a clean frame for a page that existed, no frame for a page the transaction
  created, the original header) and no transaction is open.
\<close>

theorem rollback_all_or_nothing:
  assumes "pager_rollback_transaction (pr, w) = ((pr', w'), r)"
    and "pool_ok (pr_bpm pr)" "\<not> pr_closed pr"
    and "distinct (map fst (tx_original_pages (pr_tx pr)))" "distinct (tx_new_page_ids (pr_tx pr))"
  shows "w' = w \<and> (r \<noteq> Ok \<longrightarrow> pr' = pr) \<and>
    (r = Ok \<longrightarrow> pool_ok (pr_bpm pr') \<and> pr_tx pr' = tx_clear \<and>
      pr_header pr' = restored_header (tx_original_pages (pr_tx pr)) (pr_header pr) \<and>
      frames_of pr' = restored_frames (tx_original_pages (pr_tx pr)) (frames_of pr) |`
        (- set (tx_new_page_ids (pr_tx pr))))"
  using assms by (rule pager_rollback_effect) (auto simp: frames_of_def)

theorem rollback_all_or_nothing_witness:
  defines "fh \<equiv> \<lparr>fh_path = ''db'', fh_open = True, fh_injector = None\<rparr>"
  defines "pr \<equiv> (pager_new \<lparr>lk_path = ''db'', lk_locked = True\<rparr> \<lparr>dm_file = fh\<rparr>
      \<lparr>wm_file = fh, wm_append_offset = 64, wm_database_id = 7\<rparr> (pool_new 2) ''db''
      (database_header_create_new 7) [])\<lparr>pr_tx := tx_clear\<lparr>tx_status := Active\<rparr>\<rparr>"
    and "w \<equiv> \<lparr>mf_files = Map.empty, mf_calls = 0\<rparr>"
  shows "\<exists>pr' w' r. pager_rollback_transaction (pr, w) = ((pr', w'), r) \<and> w' = w \<and>
    (r = Ok \<longrightarrow> pr_tx pr' = tx_clear)"
proof -
  obtain pr' w' r where run: "pager_rollback_transaction (pr, w) = ((pr', w'), r)"
    by (metis surj_pair)
  have "pool_ok (pr_bpm pr)" "\<not> pr_closed pr" "distinct (map fst (tx_original_pages (pr_tx pr)))"
    "distinct (tx_new_page_ids (pr_tx pr))"
    by (simp_all add: pr_def pager_new_def pool_new_ok tx_clear_def)
  from rollback_all_or_nothing[OF run this] show ?thesis
    using run by blast
qed

end
