(* ===== verification/PagerRecovery.thy ===== *)
theory PagerRecovery
  imports PagerTx
begin

text \<open>
  The durability of the pager. The committed state of a database is what its two files say:
  \<open>page_view\<close> takes a page from the log if the log has a committed version of it, and from
  its slot of the database file otherwise. The lemmas relate the state of an open pager to
  its files (\<open>pager_files\<close>), and show that a commit moves to the next committed state or
  leaves the old one recoverable, that opening rebuilds the pager from the files, and that
  a checkpoint, wherever it fails, does not change the committed state.
\<close>

section \<open>The committed state\<close>

definition page_view :: "bytes \<Rightarrow> (page_id \<rightharpoonup> page) \<Rightarrow> page_id \<Rightarrow> bytes" where
  "page_view db m p = (case m p of Some pg \<Rightarrow> pg_data pg | None \<Rightarrow> page_slot db (unat p))"

definition header_view :: "bytes \<Rightarrow> (page_id \<rightharpoonup> page) \<Rightarrow> database_header result" where
  "header_view db m = database_header_decode
     (case m HEADER_PAGE_ID of Some pg \<Rightarrow> pg_data pg | None \<Rightarrow> take PAGE_SIZE db)"

definition recovered_ok :: "(page_id \<times> page) list \<Rightarrow> bool" where
  "recovered_ok rec \<longleftrightarrow> distinct (map fst rec) \<and>
     (\<forall>(p, pg) \<in> set rec. pg_id pg = p \<and> page_wf pg \<and> p \<noteq> HEADER_PAGE_ID)"

definition pager_files :: "('w \<Rightarrow> path \<Rightarrow> bytes option) \<Rightarrow> wal_txn list \<Rightarrow> bytes \<Rightarrow> 'w pager \<Rightarrow> 'w \<Rightarrow> bool" where
  "pager_files content txns db pr w \<longleftrightarrow>
     fh_path (dm_file (pr_disk pr)) = pr_path pr \<and>
     fh_path (wm_file (pr_wal pr)) = wal_path (pr_path pr) \<and>
     fh_ok content (dm_file (pr_disk pr)) \<and> fh_ok content (wm_file (pr_wal pr)) \<and>
     content w (pr_path pr) = Some db \<and>
     content w (wal_path (pr_path pr)) = Some (log_bytes (wm_database_id (pr_wal pr)) txns) \<and>
     wm_append_offset (pr_wal pr) = length (log_bytes (wm_database_id (pr_wal pr)) txns) \<and>
     (\<forall>t \<in> set txns. txn_ok t) \<and> recovered_ok (pr_recovered pr) \<and>
     (\<forall>p. p \<noteq> HEADER_PAGE_ID \<longrightarrow>
        page_view db (map_of (pr_recovered pr)) p = page_view db (log_pages txns) p) \<and>
     header_view db (log_pages txns) = Inr (pr_committed_header pr)"

lemma wal_path_neq [simp]: "wal_path p \<noteq> p" "p \<noteq> wal_path p"
  by (simp_all add: wal_path_def)

section \<open>Pages written by transactions\<close>

lemma write_pages_apply:
  "write_pages pages m p = (case write_pages pages Map.empty p of None \<Rightarrow> m p | Some pg \<Rightarrow> Some pg)"
proof (induction pages arbitrary: m)
  case (Cons pg pages)
  show ?case
    by (subst (1 2) write_pages_simps(2), subst (1 2) Cons.IH)
      (auto split: option.splits)
qed simp

lemma write_pages_Some:
  "write_pages pages m p = Some pg \<Longrightarrow> m p = Some pg \<or> pg \<in> set pages \<and> pg_id pg = p"
proof (induction pages arbitrary: m)
  case (Cons x pages)
  from Cons.prems have "(m(pg_id x \<mapsto> x)) p = Some pg \<or> pg \<in> set pages \<and> pg_id pg = p"
    by (intro Cons.IH) (simp del: fun_upd_apply)
  then show ?case
    by (auto split: if_splits)
qed simp

lemma write_pages_dom: "write_pages pages Map.empty p \<noteq> None \<longleftrightarrow> p \<in> pg_id ` set pages"
proof (induction pages)
  case (Cons x pages)
  then show ?case
    by (subst write_pages_simps(2), subst write_pages_apply) (auto split: option.splits)
qed simp

lemma log_pages_snoc: "log_pages (txns @ [(tid, pages)]) = write_pages pages (log_pages txns)"
  by (simp add: log_pages_def)

lemma log_pages_Nil [simp]: "log_pages [] = Map.empty"
  by (simp add: log_pages_def)

lemma log_pages_wf:
  assumes "\<forall>t \<in> set txns. txn_ok t" "log_pages txns p = Some pg"
  shows "pg_id pg = p" "page_wf pg"
proof -
  have "pg_id pg = p \<and> page_wf pg"
    using assms
  proof (induction txns rule: rev_induct)
    case (snoc t txns)
    obtain tid pages where t: "t = (tid, pages)" by (metis surj_pair)
    with snoc write_pages_Some[of pages "log_pages txns" p pg] show ?case
      by (auto simp: log_pages_snoc)
  qed simp
  then show "pg_id pg = p" "page_wf pg" by simp_all
qed

lemma publish_recovered_map:
  "map_of (publish_recovered pages rec) p =
     (if p = HEADER_PAGE_ID then map_of rec p else write_pages pages (map_of rec) p)"
  unfolding publish_recovered_def
proof (induction pages arbitrary: rec)
  case (Cons pg pages)
  show ?case
  proof (cases "pg_id pg = HEADER_PAGE_ID")
    case True
    then have "p \<noteq> HEADER_PAGE_ID \<Longrightarrow>
        write_pages pages ((map_of rec)(pg_id pg \<mapsto> pg)) p = write_pages pages (map_of rec) p"
      by (subst (1 2) write_pages_apply) (simp split: option.split)
    with True Cons.IH show ?thesis by simp
  next
    case False
    with Cons.IH[of "AList.update (pg_id pg) pg rec"] show ?thesis
      by (simp add: update_conv')
  qed
qed simp

lemma publish_recovered_ok:
  assumes "recovered_ok rec" "\<forall>pg \<in> set pages. page_wf pg"
  shows "recovered_ok (publish_recovered pages rec)"
  using assms unfolding publish_recovered_def
proof (induction pages arbitrary: rec)
  case (Cons pg pages)
  have "recovered_ok (AList.update (pg_id pg) pg rec)" if "pg_id pg \<noteq> HEADER_PAGE_ID"
  proof -
    have d: "distinct (map fst rec)" "distinct (map fst (AList.update (pg_id pg) pg rec))"
      using Cons.prems(1) by (simp_all add: recovered_ok_def distinct_update)
    have "x = pg \<and> q = pg_id pg \<or> (q, x) \<in> set rec"
      if "(q, x) \<in> set (AList.update (pg_id pg) pg rec)" for q x
    proof -
      have "map_of (AList.update (pg_id pg) pg rec) q = Some x"
        using d(2) that by simp
      then show ?thesis
        by (auto simp: update_conv' split: if_splits dest: map_of_SomeD)
    qed
    with Cons.prems that d(2) show ?thesis
      by (fastforce simp: recovered_ok_def)
  qed
  with Cons show ?case by simp
qed simp

lemma page_view_write_pages:
  "page_view db (write_pages pages m) p =
     (case write_pages pages Map.empty p of None \<Rightarrow> page_view db m p | Some pg \<Rightarrow> pg_data pg)"
  by (simp add: page_view_def write_pages_apply[of pages m] split: option.split)

section \<open>Commit\<close>

context win32_files
begin

text \<open>
  A commit that succeeds appends its transaction to the log and leaves the pager in step
  with it; one that fails in the log leaves a prefix of the transaction there and the
  transaction unresolved; one that is refused changes nothing.
\<close>

lemma pager_commit_files:
  assumes run: "pager_commit_transaction os (pr, w) = ((pr', w'), r)"
    and files: "pager_files content txns db pr w"
    and pr: "pool_ok (pr_bpm pr)" "\<not> pr_closed pr" "tx_status (pr_tx pr) = Active"
    and wf: "\<forall>p fr. frames_of pr p = Some fr \<longrightarrow> page_wf (bf_page fr)"
      "database_header_valid (pr_header pr)" "length (tx_dirty_page_ids (pr_tx pr)) < 2 ^ 64"
  defines "t \<equiv> (tx_id (pr_tx pr), map (snapshot_of pr) (tx_dirty_page_ids (pr_tx pr)))"
  shows "txn_ok t \<or> r \<noteq> Ok \<and> pr' = pr \<and> w' = w"
    and "r = Ok \<Longrightarrow> pager_files content (txns @ [t]) db pr' w' \<and> pr_tx pr' = tx_clear \<and>
      pr_path pr' = pr_path pr \<and> wm_database_id (pr_wal pr') = wm_database_id (pr_wal pr)"
    and "r \<noteq> Ok \<Longrightarrow> pr' = pr \<and> w' = w \<or> tx_is_unresolved (pr_tx pr') \<and>
      (\<exists>k \<le> length (txn_bytes t). content w' = (content w)(wal_path (pr_path pr) \<mapsto>
        log_bytes (wm_database_id (pr_wal pr)) txns @ take k (txn_bytes t)))"
proof -
  let ?ps = "tx_dirty_page_ids (pr_tx pr)"
  let ?pages = "map (snapshot_of pr) ?ps"
  let ?log = "log_bytes (wm_database_id (pr_wal pr)) txns"
  have f: "fh_path (wm_file (pr_wal pr)) = wal_path (pr_path pr)"
    "fh_ok content (wm_file (pr_wal pr))" "content w (wal_path (pr_path pr)) = Some ?log"
    "wm_append_offset (pr_wal pr) = length ?log"
    using files by (simp_all add: pager_files_def)
  have pages_wf: "\<forall>p \<in> set ?pages. page_wf p" if "dirty_ready pr ?ps"
    using that by (fastforce simp: dirty_ready_def snapshot_of_def page_wf_def)
  have goal: "(txn_ok t \<or> r \<noteq> Ok \<and> pr' = pr \<and> w' = w) \<and>
    (r = Ok \<longrightarrow> pager_files content (txns @ [t]) db pr' w' \<and> pr_tx pr' = tx_clear \<and>
      pr_path pr' = pr_path pr \<and> wm_database_id (pr_wal pr') = wm_database_id (pr_wal pr)) \<and>
    (r \<noteq> Ok \<longrightarrow> pr' = pr \<and> w' = w \<or> tx_is_unresolved (pr_tx pr') \<and>
      (\<exists>k \<le> length (txn_bytes t). content w' = (content w)(wal_path (pr_path pr) \<mapsto>
        ?log @ take k (txn_bytes t))))"
    using run pr wf(1,2)
  proof (cases rule: pager_commit_effect)
    case refused
    then show ?thesis by simp
  next
    case (unresolved wm b e)
    from wal_commit_effect[OF unresolved(1) pages_wf[OF unresolved(4)] f(2)] f
    obtain k where "k \<le> length (txn_bytes t)"
      "content w' = (content w)(wal_path (pr_path pr) \<mapsto> ?log @ take k (txn_bytes t))"
      by (auto simp: t_def simp del: txn_bytes.simps)
    with unresolved pages_wf[OF unresolved(4)] wf(3) show ?thesis
      by (auto simp: t_def tx_is_unresolved_def simp del: txn_bytes.simps)
  next
    case (committed wm b)
    note pwf = pages_wf[OF committed(3)]
    from wal_commit_effect[OF committed(1) pwf f(2)] f
    have c: "content w' = (content w)(wal_path (pr_path pr) \<mapsto> ?log @ txn_bytes t)"
      "wm = (pr_wal pr)\<lparr>wm_append_offset := length ?log + length (txn_bytes t)\<rparr>"
      by (auto simp: t_def simp del: txn_bytes.simps)
    have tok: "txn_ok t" using pwf wf(3) by (simp add: t_def)
    have views: "page_view db (map_of (publish_recovered ?pages (pr_recovered pr))) p =
        page_view db (log_pages (txns @ [t])) p" if "p \<noteq> HEADER_PAGE_ID" for p
    proof -
      have "page_view db (map_of (publish_recovered ?pages (pr_recovered pr))) p =
          page_view db (write_pages ?pages (map_of (pr_recovered pr))) p"
        using that by (simp add: page_view_def publish_recovered_map)
      also have "\<dots> = page_view db (log_pages (txns @ [t])) p"
        using files that by (simp add: t_def log_pages_snoc page_view_write_pages pager_files_def
            split: option.split)
      finally show ?thesis .
    qed
    have "header_view db (log_pages (txns @ [t])) = Inr (pr_committed_header pr')"
    proof (cases "HEADER_PAGE_ID \<in> set ?ps")
      case True
      then have "write_pages ?pages Map.empty HEADER_PAGE_ID \<noteq> None"
        using committed(4) by (metis write_pages_dom list.set_map)
      then obtain pg where pg: "write_pages ?pages Map.empty HEADER_PAGE_ID = Some pg" by blast
      with write_pages_Some[OF this] obtain q where q: "q \<in> set ?ps" "pg = snapshot_of pr q"
        "pg_id pg = HEADER_PAGE_ID" by auto
      then have "q = HEADER_PAGE_ID"
        using snapshot_of_id[OF pr(1), of q] committed(3) by (auto simp: dirty_ready_def)
      with q wf(2) have "database_header_decode (pg_data pg) = Inr (pr_header pr)"
        by (simp add: snapshot_of_def database_header_roundtrip)
      with True committed(5) pg show ?thesis
        by (simp add: header_view_def t_def log_pages_snoc write_pages_apply[of _ "log_pages txns"])
    next
      case False
      then have "write_pages ?pages Map.empty HEADER_PAGE_ID = None"
        using committed(4) by (metis write_pages_dom list.set_map)
      with False committed(5) files show ?thesis
        by (simp add: header_view_def t_def log_pages_snoc write_pages_apply[of _ "log_pages txns"]
            pager_files_def)
    qed
    moreover have "recovered_ok (publish_recovered ?pages (pr_recovered pr))"
      using files pwf by (intro publish_recovered_ok) (simp_all add: pager_files_def)
    ultimately have "pager_files content (txns @ [t]) db pr' w'"
      using files c tok committed(5) views
      by (simp add: pager_files_def log_bytes_snoc del: txn_bytes.simps txn_ok.simps)
    with committed tok c(2) show ?thesis by simp
  qed
  then show "txn_ok t \<or> r \<noteq> Ok \<and> pr' = pr \<and> w' = w"
    and "r = Ok \<Longrightarrow> pager_files content (txns @ [t]) db pr' w' \<and> pr_tx pr' = tx_clear \<and>
      pr_path pr' = pr_path pr \<and> wm_database_id (pr_wal pr') = wm_database_id (pr_wal pr)"
    and "r \<noteq> Ok \<Longrightarrow> pr' = pr \<and> w' = w \<or> tx_is_unresolved (pr_tx pr') \<and>
      (\<exists>k \<le> length (txn_bytes t). content w' = (content w)(wal_path (pr_path pr) \<mapsto>
        ?log @ take k (txn_bytes t)))" by blast+
qed


section \<open>Opening\<close>

lemma recover_page_value:
  assumes "recover_page os fh (p, off) w = (w', r)" "content w (fh_path fh) = Some b"
    and "frame_at b off (frame_of tid pg)" "pg_id pg = p"
  shows "content w' = content w" and "r = Inr x \<Longrightarrow> x = pg"
proof -
  show "content w' = content w"
    using assms(1) by (auto simp: recover_page_def bind_action_def ensure_action_apply
        split: prod.splits sum.splits if_splits dest!: read_at_frame)
  show "x = pg" if "r = Inr x"
  proof -
    obtain w1 rb where rd: "read_at os fh off WAL_PAGE_FRAME_RECORD_SIZE w = (w1, rb)"
      by (metis surj_pair)
    with assms(1) that obtain bs where bs: "rb = Inr bs"
      by (cases rb) (auto simp: recover_page_def bind_action_def)
    with read_at_value[OF _ assms(2), of off _ w1 bs] rd
    have "wal_page_frame_decode bs = Inr (frame_of tid pg)"
      using assms(3) by (simp add: frame_at_def)
    with assms(1,4) rd bs that show ?thesis
      by (auto simp: recover_page_def bind_action_def ensure_action_apply split: if_splits)
  qed
qed

text \<open>
  The recovery loop over offsets that represent a map of pages returns the pages of the map,
  and the header from its header page.
\<close>

lemma recover_pages_value:
  assumes "recover_pages os fh entries h rec w = (w', r)" "content w (fh_path fh) = Some b"
    and "\<forall>(p, off) \<in> set entries. \<exists>tid pg. m p = Some pg \<and> pg_id pg = p \<and>
      frame_at b off (frame_of tid pg)"
  shows "content w' = content w \<and> (\<forall>h' rec'. r = Inr (h', rec') \<longrightarrow>
    (\<forall>p. map_of rec' p = (if p \<in> fst ` set entries \<and> p \<noteq> HEADER_PAGE_ID then m p else map_of rec p)) \<and>
    (if HEADER_PAGE_ID \<in> fst ` set entries
     then database_header_decode (pg_data (the (m HEADER_PAGE_ID))) = Inr h' else h' = h) \<and>
    (distinct (map fst rec) \<longrightarrow> distinct (map fst rec')))"
  using assms
proof (induction entries arbitrary: h rec w)
  case Nil
  then show ?case by auto
next
  case (Cons entry entries)
  obtain p off where entry: "entry = (p, off)" by (metis surj_pair)
  obtain tid pg where pg: "m p = Some pg" "pg_id pg = p" "frame_at b off (frame_of tid pg)"
    using Cons.prems(3) by (auto simp: entry)
  obtain w1 r1 where rd: "recover_page os fh entry w = (w1, r1)" by (metis surj_pair)
  note v = recover_page_value[OF rd[unfolded entry] Cons.prems(2) pg(3,2)]
  have b1: "content w1 (fh_path fh) = Some b" using v(1) Cons.prems(2) by simp
  have rest: "\<forall>(p, off) \<in> set entries. \<exists>tid pg. m p = Some pg \<and> pg_id pg = p \<and>
      frame_at b off (frame_of tid pg)" using Cons.prems(3) by simp
  show ?case
  proof (cases r1)
    case (Inl e)
    with Cons.prems(1) rd v(1) show ?thesis by (auto simp: bind_action_def)
  next
    case (Inr x)
    with v(2) have x: "r1 = Inr pg" by simp
    show ?thesis
    proof (cases "p = HEADER_PAGE_ID")
      case True
      show ?thesis
      proof (cases "database_header_decode (pg_data pg)")
        case (Inl e)
        with Cons.prems(1) rd v(1) x True pg(2) show ?thesis
          by (auto simp: bind_action_def)
      next
        case (Inr h1)
        with Cons.prems(1) rd x True pg(2)
        have run: "recover_pages os fh entries h1 rec w1 = (w', r)"
          by (simp add: bind_action_def)
        show ?thesis
          using Cons.IH[OF run b1 rest] v(1) Inr True pg(1) by (auto simp: entry split: if_splits)
      qed
    next
      case False
      with Cons.prems(1) rd x pg(2)
      have run: "recover_pages os fh entries h (AList.update p pg rec) w1 = (w', r)"
        by (simp add: bind_action_def)
      show ?thesis
        using Cons.IH[OF run b1 rest] v(1) False pg(1)
        by (auto simp: entry update_conv' distinct_update)
    qed
  qed
qed

lemma recover_log_value:
  assumes "recover_log os p latest h w = (w', r)" "content w p = Some b" "represents b latest m"
    and "\<forall>q pg. m q = Some pg \<longrightarrow> pg_id pg = q \<and> page_wf pg" "header_view db Map.empty = Inr h"
    and "distinct (map fst latest)"
  shows "content w' = content w" and "r = Inr (h', rec) \<Longrightarrow> recovered_ok rec \<and>
    (\<forall>q. q \<noteq> HEADER_PAGE_ID \<longrightarrow> map_of rec q = m q) \<and> header_view db m = Inr h'"
proof -
  have entries: "\<forall>(q, off) \<in> set latest. \<exists>tid pg. m q = Some pg \<and> pg_id pg = q \<and>
      frame_at b off (frame_of tid pg)"
  proof (clarify)
    fix q off assume "(q, off) \<in> set latest"
    then have lat: "map_of latest q = Some off"
      using assms(6) by simp
    then have "m q \<noteq> None" using assms(3) by (auto simp: represents_def)
    then obtain pg where pg: "m q = Some pg" by blast
    with assms(3) obtain off' tid where "map_of latest q = Some off'" "frame_at b off' (frame_of tid pg)"
      unfolding represents_def by blast
    with lat pg assms(4) show "\<exists>tid pg. m q = Some pg \<and> pg_id pg = q \<and> frame_at b off (frame_of tid pg)"
      by auto
  qed
  have dom: "m q \<noteq> None \<longleftrightarrow> q \<in> fst ` set latest" for q
    using assms(3) by (auto simp: represents_def map_of_eq_None_iff)
  have final: "recovered_ok rec \<and> (\<forall>q. q \<noteq> HEADER_PAGE_ID \<longrightarrow> map_of rec q = m q) \<and> header_view db m = Inr h'"
    if rec: "\<And>q. map_of rec q = (if q \<in> fst ` set latest \<and> q \<noteq> HEADER_PAGE_ID then m q else None)"
      and hdr: "if HEADER_PAGE_ID \<in> fst ` set latest
       then database_header_decode (pg_data (the (m HEADER_PAGE_ID))) = Inr h' else h' = h"
      and dist: "distinct (map fst rec)" for h' rec
  proof (intro conjI)
    have "map_of rec q = m q" if "q \<noteq> HEADER_PAGE_ID" for q
      using rec[of q] that dom[of q] by auto
    then show "\<forall>q. q \<noteq> HEADER_PAGE_ID \<longrightarrow> map_of rec q = m q" by blast
    have "pg_id x = q \<and> page_wf x \<and> q \<noteq> HEADER_PAGE_ID" if "(q, x) \<in> set rec" for q x
    proof -
      have "map_of rec q = Some x" using that dist by simp
      with rec[of q] assms(4) show ?thesis by (auto split: if_splits)
    qed
    then show "recovered_ok rec"
      using dist by (auto simp: recovered_ok_def)
    show "header_view db m = Inr h'"
      using hdr assms(5) dom[of HEADER_PAGE_ID]
      by (cases "m HEADER_PAGE_ID") (auto simp: header_view_def)
  qed
  have "content w' = content w \<and> (\<forall>h' rec. r = Inr (h', rec) \<longrightarrow> recovered_ok rec \<and>
    (\<forall>q. q \<noteq> HEADER_PAGE_ID \<longrightarrow> map_of rec q = m q) \<and> header_view db m = Inr h')"
  proof (cases "latest = []")
    case True
    then have "w' = w" "r = Inr (h, [])" using assms(1) by (simp_all add: recover_log_def)
    with final[of "[]" h] True show ?thesis by simp
  next
    case False
    obtain w1 r1 where opn: "fh_open_existing os p w = (w1, r1)" by (metis surj_pair)
    note o = open_content[OF opn]
    show ?thesis
    proof (cases r1)
      case (Inl e)
      with assms(1) False opn o show ?thesis by (auto simp: recover_log_def bind_action_def)
    next
      case (Inr fh)
      then have "closing os fh (recover_pages os fh latest h []) w1 = (w', r)"
        using assms(1) False opn by (simp add: recover_log_def bind_action_def)
      from closing_content[OF this] obtain w2 where
        w2: "recover_pages os fh latest h [] w1 = (w2, r)" "content w' = content w2" by blast
      have "content w1 (fh_path fh) = Some b" using o Inr assms(2) by auto
      note val = recover_pages_value[OF w2(1) this entries]
      have "recovered_ok rec \<and> (\<forall>q. q \<noteq> HEADER_PAGE_ID \<longrightarrow> map_of rec q = m q) \<and>
          header_view db m = Inr h'" if "r = Inr (h', rec)" for h' rec
        using val that by (intro final) simp_all
      moreover have "content w' = content w"
        using val w2(2) o Inr by simp
      ultimately show ?thesis by blast
    qed
  qed
  then show "content w' = content w" and "r = Inr (h', rec) \<Longrightarrow> recovered_ok rec \<and>
    (\<forall>q. q \<noteq> HEADER_PAGE_ID \<longrightarrow> map_of rec q = m q) \<and> header_view db m = Inr h'" by auto
qed


lemma destroying_Inr: "destroying c m w = (w', Inr x) \<longleftrightarrow> m w = (w', Inr x)"
  by (auto simp: destroying_def split: prod.splits sum.splits)

text \<open>What a successful open went through.\<close>

lemma pager_open_steps:
  assumes "pager_open os p cap w = (w', Inr pr)"
  obtains lock w1 dm w2 h w3 wm w4 res w5 h' rec where
    "acquire_exclusive os p w = (w1, Inr lock)" "disk_open_existing os p w1 = (w2, Inr dm)"
    "disk_read_header os dm w2 = (w3, Inr h)"
    "wal_open_or_create os (wal_path p) (dh_database_id h) w3 = (w4, Inr wm)"
    "wal_scan os (wal_path p) (dh_database_id h) w4 = (w5, Inr res)"
    "recover_log os (wal_path p) (latest_committed_frame_offsets res) h w5 = (w', Inr (h', rec))"
    "pr = pager_new lock dm wm (pool_new cap) p h' rec" "cap \<noteq> 0"
  using assms
  by (auto simp: pager_open_def ensure_action_apply bind_action_eq_Inr destroying_Inr split: if_splits)

lemma pager_open_recovers:
  assumes run: "pager_open os p cap w = (w', Inr pr)"
    and db: "content w p = Some db" "database_header_decode (take PAGE_SIZE db) = Inr h0"
    and log: "content w (wal_path p) =
      Some (log_bytes (dh_database_id h0) txns @ take k (txn_bytes t))"
    and ok: "\<forall>t \<in> set txns. txn_ok t" "txn_ok t" "k < length (txn_bytes t)"
  shows "pager_files content txns db pr w'" and "pr_path pr = p" and "pr_tx pr = tx_clear"
    and "pr_bpm pr = pool_new cap" and "\<not> pr_closed pr" and "pr_header pr = pr_committed_header pr"
    and "content w' = (content w)(wal_path p \<mapsto> log_bytes (dh_database_id h0) txns)"
proof -
  from run obtain lock w1 dm w2 h w3 wm w4 res w5 h' rec where steps:
    "acquire_exclusive os p w = (w1, Inr lock)" "disk_open_existing os p w1 = (w2, Inr dm)"
    "disk_read_header os dm w2 = (w3, Inr h)"
    "wal_open_or_create os (wal_path p) (dh_database_id h) w3 = (w4, Inr wm)"
    "wal_scan os (wal_path p) (dh_database_id h) w4 = (w5, Inr res)"
    "recover_log os (wal_path p) (latest_committed_frame_offsets res) h w5 = (w', Inr (h', rec))"
    and pr: "pr = pager_new lock dm wm (pool_new cap) p h' rec"
    by (rule pager_open_steps)
  let ?id = "dh_database_id h0" and ?log = "log_bytes (dh_database_id h0) txns"
  let ?old = "?log @ take k (txn_bytes t)"
  have c1: "content w1 = content w" by (rule acquire_content[OF steps(1)])
  note d = disk_open_existing_effect[OF steps(2)]
  have c2: "content w2 = content w" using d(1) c1 by simp
  have dm: "dm_file dm = \<lparr>fh_path = p, fh_open = True, fh_injector = None\<rparr>"
    using d(2)[OF refl] by simp
  then have "content w2 (fh_path (dm_file dm)) = Some db" using c2 db(1) by simp
  note rh = disk_read_header_effect[OF steps(3) this]
  have h: "h = h0" using rh(2)[OF refl] db(2) by simp
  have c3: "content w3 = content w" using rh(1) c2 by simp
  obtain latest0 where torn: "scan_content ?old ?id = Inr \<lparr>latest_committed_frame_offsets = latest0,
      valid_wal_end_offset = length ?log, ignored_trailing_bytes = (k \<noteq> 0)\<rparr>"
    using scan_log_torn[OF ok(1,2,3)] by blast
  have old: "?old \<noteq> []" using length_log_bytes[of ?id txns] by (auto simp: WAL_HEADER_SIZE_def)
  from wal_open_effect[OF steps(4)] torn old log
  have wal: "content w4 = (content w)(wal_path p \<mapsto> ?log)"
    "wm = \<lparr>wm_file = \<lparr>fh_path = wal_path p, fh_open = True, fh_injector = None\<rparr>,
      wm_append_offset = length ?log, wm_database_id = ?id\<rparr>"
    unfolding h c3 by (auto simp: log_opened_def)
  note sc = wal_scan_refines[OF steps(5)]
  have c5: "content w5 = (content w)(wal_path p \<mapsto> ?log)" using sc wal(1) by simp
  have res: "scan_content ?log ?id = Inr res" using sc wal(1) h by simp
  from scan_log[OF ok(1), of ?id] res
  have rep: "represents ?log (latest_committed_frame_offsets res) (log_pages txns)" by auto
  have b5: "content w5 (wal_path p) = Some ?log" using c5 by simp
  have hv: "header_view db Map.empty = Inr h"
    using db(2) h by (simp add: header_view_def)
  have lp: "\<forall>q pg. log_pages txns q = Some pg \<longrightarrow> pg_id pg = q \<and> page_wf pg"
    using log_pages_wf[OF ok(1)] by blast
  note rl = recover_log_value[OF steps(6) b5 rep lp hv scan_content_sound(3)[OF res]]
  note rv = rl(2)[OF refl]
  have cw: "content w' = (content w)(wal_path p \<mapsto> ?log)" using rl(1) c5 by simp
  then show "content w' = (content w)(wal_path p \<mapsto> ?log)" .
  have "page_view db (map_of rec) q = page_view db (log_pages txns) q" if "q \<noteq> HEADER_PAGE_ID" for q
    using rv that by (simp add: page_view_def)
  then show "pager_files content txns db pr w'"
    using cw db(1) rv ok(1)
    by (simp add: pager_files_def pr pager_new_def dm wal(2) fh_ok_def)
  show "pr_path pr = p" "pr_tx pr = tx_clear" "pr_bpm pr = pool_new cap" "\<not> pr_closed pr"
    "pr_header pr = pr_committed_header pr"
    by (simp_all add: pr pager_new_def)
qed

end

section \<open>A small database\<close>

text \<open>
  A pager on the in-memory files: one header page and an empty log; and the same pager in a
  transaction that has changed the header.
\<close>

definition small_header :: database_header where
  "small_header = database_header_create_new 7"

definition small_files :: mem_files where
  "small_files = \<lparr>mf_files = [''db'' \<mapsto> database_header_bytes small_header,
     wal_path ''db'' \<mapsto> log_bytes 7 []], mf_calls = 0\<rparr>"

definition small_pager :: "mem_files pager" where
  "small_pager =
     (let file = (\<lambda>p. \<lparr>fh_path = p, fh_open = True, fh_injector = None\<rparr>) in
      pager_new \<lparr>lk_path = ''db'', lk_locked = True\<rparr> \<lparr>dm_file = file ''db''\<rparr>
        \<lparr>wm_file = file (wal_path ''db''), wm_append_offset = WAL_HEADER_SIZE, wm_database_id = 7\<rparr>
        (pool_new 2) ''db'' small_header [])"

definition small_pager_changed :: "mem_files pager" where
  "small_pager_changed = small_pager\<lparr>pr_tx := tx_clear\<lparr>tx_status := Active, tx_id := 1,
     tx_dirty_page_ids := [HEADER_PAGE_ID]\<rparr>\<rparr>"

lemma small_header_valid [simp]: "database_header_valid small_header"
  by (simp add: small_header_def)

lemma small_header_id [simp]: "dh_database_id small_header = 7"
  by (simp add: small_header_def database_header_create_new_def)

lemma length_log_Nil [simp]: "length (log_bytes dbid []) = WAL_HEADER_SIZE"
  by (simp add: log_bytes_def)

lemma small_pager_simps [simp]:
  "pr_bpm small_pager = pool_new 2" "pr_closed small_pager = False"
  "pr_tx small_pager = tx_clear"
  "pr_header small_pager = small_header" "pr_committed_header small_pager = small_header"
  "pr_path small_pager = ''db''" "pr_recovered small_pager = []"
  "wm_database_id (pr_wal small_pager) = 7"
  by (simp_all add: small_pager_def pager_new_def)

lemma small_pager_files:
  "pager_files mf_files [] (database_header_bytes small_header) small_pager small_files"
  "pager_files mf_files [] (database_header_bytes small_header) small_pager_changed small_files"
  by (auto simp: pager_files_def small_pager_def small_pager_changed_def small_files_def
      pager_new_def fh_ok_def recovered_ok_def header_view_def database_header_roundtrip)

lemma small_pager_ready:
  "pool_ok (pool_new 2)" "frames_of small_pager p = None" "frames_of small_pager_changed p = None"
  "PAGE_SIZE \<le> length (database_header_bytes small_header)"
  by (simp_all add: pool_new_ok frames_of_def pool_new_abs small_pager_changed_def)

section \<open>Reading a committed page\<close>

lemma pool_cache_page_value:
  assumes "pool_ok b" "pool_cache_page page b = (b', Inr pin)"
  shows "pin_page_value pin b' = page"
proof -
  have id: "pg_id page \<noteq> INVALID_PAGE_ID" "bp_page_frames b (pg_id page) = None"
    using assms(2) by (auto simp: pool_cache_page_def status_simps split: if_splits)
  obtain b1 f where f: "choose_frame b = (b1, Inr f)"
    using assms(2) id
    by (cases "choose_frame b"; cases "snd (choose_frame b)") (auto simp: pool_cache_page_def status_simps)
  have "f < length (bp_frames b1)"
    using choose_frame_effect[OF assms(1) f] assms(1) by (auto simp: pool_ok_def pool_table_def)
  with pool_cache_page_load[OF id f] assms(2) show ?thesis
    by (auto simp: pin_page_value_def load_frame_def Let_def)
qed

context win32_files
begin

lemma pager_get_page_value:
  assumes run: "pager_get_page os p (pr, w) = ((pr', w'), Inr pin)"
    and files: "pager_files content txns db pr w"
    and pr: "pool_ok (pr_bpm pr)" "frames_of pr p = None"
  shows "content w' = content w \<and> p \<noteq> HEADER_PAGE_ID \<and> page_id_is_valid p \<and>
    pin_page_value pin (pr_bpm pr') = \<lparr>pg_id = p, pg_data = page_view db (log_pages txns) p\<rparr>"
proof -
  have p: "p \<noteq> INVALID_PAGE_ID" "p \<noteq> HEADER_PAGE_ID"
    using run by (auto simp: pager_get_page_def pager_action_defs split: if_splits)
  have "bp_page_frames (pr_bpm pr) p = None"
    using pr(2) by (simp add: frames_of_def pool_abs_def)
  then have "find_frame p (pr_bpm pr) = (pr_bpm pr, Inl NotFound)"
    using p by (simp add: find_frame_def)
  then have miss: "on_bpm (pool_get_page p) (pr, w) = ((pr, w), Inl NotFound)"
    by (simp add: on_bpm_def pool_get_page_def bind_action_def)
  have "bind_action (load_page os p) (\<lambda>page. on_bpm (pool_cache_page page)) (pr, w) =
      ((pr', w'), Inr pin)"
    using run p pr by (auto simp: pager_get_page_def miss get_pager_def require_def
        bind_action_def ensure_action_def split: if_splits)
  then obtain s1 page where load: "load_page os p (pr, w) = (s1, Inr page)"
    and cache: "on_bpm (pool_cache_page page) s1 = ((pr', w'), Inr pin)"
    by (auto simp: bind_action_eq_Inr)
  have db: "content w (fh_path (dm_file (pr_disk pr))) = Some db"
    using files by (simp add: pager_files_def)
  have loaded: "fst s1 = pr \<and> content (snd s1) = content w \<and> page_id_is_valid p \<and>
      page = \<lparr>pg_id = p, pg_data = page_view db (map_of (pr_recovered pr)) p\<rparr>"
  proof (cases "map_of (pr_recovered pr) p")
    case None
    then have "disk_read_page os (pr_disk pr) p w = (snd s1, Inr page)" "fst s1 = pr"
      using load by (auto simp: load_page_def get_pager_def bind_action_def on_disk_def
          split: prod.splits)
    then show ?thesis
      using disk_read_page_effect[OF _ db, of p "snd s1"] None by (auto simp: page_view_def)
  next
    case (Some pg)
    then have "s1 = (pr, w)" "page = pg"
      using load by (auto simp: load_page_def get_pager_def bind_action_def)
    moreover have "pg_id pg = p"
      using files map_of_SomeD[OF Some] by (auto simp: pager_files_def recovered_ok_def)
    ultimately show ?thesis
      using Some p by (auto simp: page_view_def page_id_is_valid_def INVALID_PAGE_ID_def)
  qed
  have "pool_cache_page page (pr_bpm pr) = (pr_bpm pr', Inr pin)" "w' = snd s1"
    using cache loaded by (auto simp: on_bpm_def split: prod.splits)
  then show ?thesis
    using pool_cache_page_value[OF pr(1)] loaded p files by (auto simp: pager_files_def)
qed

end

end
