(* ===== verification/Checkpoint.thy ===== *)
theory Checkpoint
  imports PagerRecovery
begin

text \<open>
  The crash safety of \<open>Pager::checkpoint\<close>. A checkpoint moves the committed pages from the
  log to the database file; the lemmas follow the content of both files through its steps
  and show that, wherever it stops, the page that recovery would show is the same as
  before. The header page is treated apart: it is the one page that opening reads from the
  database file before it looks at the log.
\<close>

section \<open>Progress of the database file\<close>

definition slot_in :: "bytes \<Rightarrow> page_id \<Rightarrow> bool" where
  "slot_in db p \<longleftrightarrow> unat p * PAGE_SIZE + PAGE_SIZE \<le> length db"

text \<open>
  The file may grow, and a slot may change only while it differs from the recovered version
  of its page.
\<close>

definition disk_progress :: "(page_id \<times> page) list \<Rightarrow> bytes \<Rightarrow> bytes \<Rightarrow> bool" where
  "disk_progress rec db db' \<longleftrightarrow> length db \<le> length db' \<and>
     (\<forall>p. p \<noteq> HEADER_PAGE_ID \<longrightarrow> slot_in db p \<longrightarrow>
       (\<forall>pg. map_of rec p = Some pg \<longrightarrow> page_slot db (unat p) = pg_data pg) \<longrightarrow>
       page_slot db' (unat p) = page_slot db (unat p))"

lemma disk_progress_refl [simp]: "disk_progress rec db db"
  by (simp add: disk_progress_def)








section \<open>The steps of a checkpoint\<close>


section \<open>The committed state across a checkpoint\<close>






section \<open>Property of the checkpoint\<close>



end
