(* ===== verification/RecordTypes.thy ===== *)
theory RecordTypes
  imports Bytes
begin

text \<open>
  The data model of \<^verbatim>\<open>src/record\<close>: \<^verbatim>\<open>LogicalType.cpp\<close>, \<^verbatim>\<open>LogicalTypeCodec.cpp\<close>,
  \<^verbatim>\<open>Value.cpp\<close>, \<^verbatim>\<open>LiteralValue.cpp\<close>, \<^verbatim>\<open>Column.cpp\<close>, \<^verbatim>\<open>Schema.cpp\<close>, \<^verbatim>\<open>Row.cpp\<close>
  and \<^verbatim>\<open>RowValidation.cpp\<close>. A \<open>double\<close> is its IEEE 754 bit pattern, because the code only
  stores and copies it; a \<open>std::int64_t\<close> is a 64-bit word read with \<open>sint\<close>; sizes and
  capacities are natural numbers (no container exceeds \<open>2^64\<close> bytes).
\<close>

section \<open>LogicalType.cpp and LogicalTypeCodec.cpp\<close>

datatype logical_kind = Int8 | Int16 | Int32 | Int64 | Float64 | String | Boolean

record logical_type =
  lt_kind :: logical_kind
  lt_capacity :: "nat option"

definition plain_type :: "logical_kind \<Rightarrow> logical_type" where
  "plain_type k = \<lparr>lt_kind = k, lt_capacity = None\<rparr>"

definition string_type :: "nat \<Rightarrow> logical_type result" where
  "string_type capacity =
     (if capacity = 0 then Inl InvalidArgument
      else Inr \<lparr>lt_kind = String, lt_capacity = Some capacity\<rparr>)"

definition fixed_size :: "logical_type \<Rightarrow> nat" where
  "fixed_size t = (case lt_kind t of Int8 \<Rightarrow> 1 | Int16 \<Rightarrow> 2 | Int32 \<Rightarrow> 4 | Int64 \<Rightarrow> 8
     | Float64 \<Rightarrow> 8 | String \<Rightarrow> the (lt_capacity t) | Boolean \<Rightarrow> 1)"

definition can_be_indexed :: "logical_type \<Rightarrow> bool" where
  "can_be_indexed t = (case lt_kind t of Float64 \<Rightarrow> False | _ \<Rightarrow> True)"

definition encode_kind :: "logical_kind \<Rightarrow> byte" where
  "encode_kind k = (case k of Int8 \<Rightarrow> 1 | Int16 \<Rightarrow> 2 | Int32 \<Rightarrow> 3 | Int64 \<Rightarrow> 4 | Float64 \<Rightarrow> 5
     | String \<Rightarrow> 6 | Boolean \<Rightarrow> 7)"

definition decode_kind :: "byte \<Rightarrow> logical_kind result" where
  "decode_kind code =
     (if code = 1 then Inr Int8 else if code = 2 then Inr Int16 else if code = 3 then Inr Int32
      else if code = 4 then Inr Int64 else if code = 5 then Inr Float64
      else if code = 6 then Inr String else if code = 7 then Inr Boolean
      else Inl InvalidArgument)"

definition logical_type_decode :: "byte \<Rightarrow> nat option \<Rightarrow> logical_type result" where
  "logical_type_decode kind_code capacity =
     bind_result (decode_kind kind_code) (\<lambda>kind.
       if kind = String then
         (case capacity of None \<Rightarrow> Inl InvalidArgument | Some c \<Rightarrow> string_type c)
       else if capacity \<noteq> None then Inl InvalidArgument
       else Inr (plain_type kind))"

text \<open>The types that the constructors of the class can build.\<close>

definition type_wf :: "logical_type \<Rightarrow> bool" where
  "type_wf t \<longleftrightarrow> (if lt_kind t = String then \<exists>c > 0. lt_capacity t = Some c else lt_capacity t = None)"

lemma string_type_wf: "string_type c = Inr t \<Longrightarrow> type_wf t \<and> lt_kind t = String \<and> lt_capacity t = Some c"
  by (auto simp: string_type_def type_wf_def split: if_splits)

lemma plain_type_wf: "k \<noteq> String \<Longrightarrow> type_wf (plain_type k)"
  by (simp add: type_wf_def plain_type_def)

lemma fixed_size_pos: "type_wf t \<Longrightarrow> 0 < fixed_size t"
  by (auto simp: type_wf_def fixed_size_def split: logical_kind.split if_splits)

lemma decode_encode_kind [simp]: "decode_kind (encode_kind k) = Inr k"
  by (cases k) (simp_all add: decode_kind_def encode_kind_def)

lemma logical_type_roundtrip:
  "type_wf t \<Longrightarrow> logical_type_decode (encode_kind (lt_kind t)) (lt_capacity t) = Inr t"
  by (cases t) (auto simp: logical_type_decode_def type_wf_def string_type_def plain_type_def
      split: if_splits)

section \<open>Value.cpp\<close>

type_synonym i64 = "64 word"
type_synonym float64 = u64

text \<open>The \<open>std::variant\<close> of a value.\<close>

datatype payload = PNull | PInteger i64 | PFloat float64 | PString string | PBoolean bool

record db_value =
  val_type :: logical_type
  val_payload :: payload

definition fits_integer :: "nat \<Rightarrow> i64 \<Rightarrow> bool" where
  "fits_integer bits v \<longleftrightarrow> - (2 ^ (bits - 1)) \<le> sint v \<and> sint v \<le> 2 ^ (bits - 1) - 1"

definition value_int8 :: "i64 \<Rightarrow> db_value result" where
  "value_int8 v = ensure (fits_integer 8 v) InvalidArgument
     (Inr \<lparr>val_type = plain_type Int8, val_payload = PInteger v\<rparr>)"

definition value_int16 :: "i64 \<Rightarrow> db_value result" where
  "value_int16 v = ensure (fits_integer 16 v) InvalidArgument
     (Inr \<lparr>val_type = plain_type Int16, val_payload = PInteger v\<rparr>)"

definition value_int32 :: "i64 \<Rightarrow> db_value result" where
  "value_int32 v = ensure (fits_integer 32 v) InvalidArgument
     (Inr \<lparr>val_type = plain_type Int32, val_payload = PInteger v\<rparr>)"

definition value_int64 :: "i64 \<Rightarrow> db_value" where
  "value_int64 v = \<lparr>val_type = plain_type Int64, val_payload = PInteger v\<rparr>"

definition value_float64 :: "float64 \<Rightarrow> db_value" where
  "value_float64 v = \<lparr>val_type = plain_type Float64, val_payload = PFloat v\<rparr>"

definition value_string :: "string \<Rightarrow> nat \<Rightarrow> db_value result" where
  "value_string s capacity =
     bind_result (string_type capacity) (\<lambda>t.
     ensure (length s \<le> capacity) InvalidArgument
       (Inr \<lparr>val_type = t, val_payload = PString s\<rparr>))"

definition value_boolean :: "bool \<Rightarrow> db_value" where
  "value_boolean b = \<lparr>val_type = plain_type Boolean, val_payload = PBoolean b\<rparr>"

definition value_null :: "logical_type \<Rightarrow> db_value" where
  "value_null t = \<lparr>val_type = t, val_payload = PNull\<rparr>"

definition is_null :: "db_value \<Rightarrow> bool" where
  "is_null v \<longleftrightarrow> val_payload v = PNull"

text \<open>
  The accessors are \<open>std::get\<close>, which throws on another alternative. No value reaches that
  case: \<open>value_wf\<close> below is what the factories establish, and the code calls an accessor
  only after it has looked at the kind. The model gives a default there.
\<close>

fun integer_of :: "payload \<Rightarrow> i64" where
  "integer_of (PInteger v) = v"
| "integer_of _ = 0"

fun float_of :: "payload \<Rightarrow> float64" where
  "float_of (PFloat v) = v"
| "float_of _ = 0"

fun string_of :: "payload \<Rightarrow> string" where
  "string_of (PString s) = s"
| "string_of _ = []"

fun boolean_of :: "payload \<Rightarrow> bool" where
  "boolean_of (PBoolean b) = b"
| "boolean_of _ = False"

abbreviation as_integer :: "db_value \<Rightarrow> i64" where "as_integer v \<equiv> integer_of (val_payload v)"
abbreviation as_float64 :: "db_value \<Rightarrow> float64" where "as_float64 v \<equiv> float_of (val_payload v)"
abbreviation as_string :: "db_value \<Rightarrow> string" where "as_string v \<equiv> string_of (val_payload v)"
abbreviation as_boolean :: "db_value \<Rightarrow> bool" where "as_boolean v \<equiv> boolean_of (val_payload v)"

definition value_wf :: "db_value \<Rightarrow> bool" where
  "value_wf v \<longleftrightarrow> type_wf (val_type v) \<and> (is_null v \<or>
     (case lt_kind (val_type v) of
        Int8 \<Rightarrow> \<exists>i. val_payload v = PInteger i \<and> fits_integer 8 i
      | Int16 \<Rightarrow> \<exists>i. val_payload v = PInteger i \<and> fits_integer 16 i
      | Int32 \<Rightarrow> \<exists>i. val_payload v = PInteger i \<and> fits_integer 32 i
      | Int64 \<Rightarrow> \<exists>i. val_payload v = PInteger i
      | Float64 \<Rightarrow> \<exists>d. val_payload v = PFloat d
      | String \<Rightarrow> \<exists>s. val_payload v = PString s \<and> length s \<le> the (lt_capacity (val_type v))
      | Boolean \<Rightarrow> \<exists>b. val_payload v = PBoolean b))"

lemma factories_wf:
  "value_int8 i = Inr v \<Longrightarrow> value_wf v" "value_int16 i = Inr v \<Longrightarrow> value_wf v"
  "value_int32 i = Inr v \<Longrightarrow> value_wf v" "value_wf (value_int64 i)" "value_wf (value_float64 d)"
  "value_string s c = Inr v \<Longrightarrow> value_wf v" "value_wf (value_boolean b)"
  "type_wf t \<Longrightarrow> value_wf (value_null t)"
  by (auto simp: value_int8_def value_int16_def value_int32_def value_int64_def value_float64_def
      value_string_def value_boolean_def value_null_def value_wf_def is_null_def type_wf_def
      ensure_Inr_iff bind_result_Inr_iff plain_type_def string_type_def split: if_splits)

section \<open>LiteralValue.cpp\<close>

datatype literal_value = LNull | LInteger i64 | LReal float64 | LString string | LBoolean bool

fun convert_to :: "literal_value \<Rightarrow> logical_type \<Rightarrow> bool \<Rightarrow> db_value result" where
  "convert_to LNull t nullable = ensure nullable ConstraintViolation (Inr (value_null t))"
| "convert_to (LInteger i) t nullable =
     (case lt_kind t of Int8 \<Rightarrow> value_int8 i | Int16 \<Rightarrow> value_int16 i | Int32 \<Rightarrow> value_int32 i
      | Int64 \<Rightarrow> Inr (value_int64 i) | _ \<Rightarrow> Inl InvalidArgument)"
| "convert_to (LReal d) t nullable =
     (if lt_kind t = Float64 then Inr (value_float64 d) else Inl InvalidArgument)"
| "convert_to (LString s) t nullable =
     (if lt_kind t \<noteq> String then Inl InvalidArgument else value_string s (the (lt_capacity t)))"
| "convert_to (LBoolean b) t nullable =
     (if lt_kind t = Boolean then Inr (value_boolean b) else Inl InvalidArgument)"

section \<open>Column.cpp and Schema.cpp\<close>

record column =
  col_name :: string
  col_type :: logical_type
  col_nullable :: bool
  col_pk :: bool
  col_unique :: bool
  col_ordinal :: nat
  col_fixed_offset :: nat

definition column_create :: "string \<Rightarrow> logical_type \<Rightarrow> bool \<Rightarrow> bool \<Rightarrow> bool \<Rightarrow> column result" where
  "column_create name t nullable pk unique =
     ensure (name \<noteq> []) InvalidArgument (
     ensure (\<not> (pk \<and> nullable)) InvalidArgument (
     ensure (\<not> (unique \<and> nullable)) InvalidArgument (
     ensure (\<not> (pk \<and> \<not> can_be_indexed t)) InvalidArgument (
     ensure (\<not> (unique \<and> \<not> can_be_indexed t)) InvalidArgument (
       Inr \<lparr>col_name = name, col_type = t, col_nullable = nullable, col_pk = pk,
         col_unique = unique, col_ordinal = 0, col_fixed_offset = 0\<rparr>)))))"

record schema =
  sch_columns :: "column list"
  sch_primary_key_ordinal :: nat
  sch_row_size :: nat
  sch_null_bitmap_size :: nat

text \<open>The loop over the names, with the set of names seen.\<close>

fun names_distinct :: "string set \<Rightarrow> column list \<Rightarrow> bool" where
  "names_distinct seen [] = True"
| "names_distinct seen (c # cs) =
     (if col_name c \<in> seen then False else names_distinct (insert (col_name c) seen) cs)"

text \<open>The loop that looks for the primary key: its ordinal, if one has been found.\<close>

fun find_primary_key :: "nat \<Rightarrow> nat option \<Rightarrow> column list \<Rightarrow> nat option result" where
  "find_primary_key i found [] = Inr found"
| "find_primary_key i found (c # cs) =
     (if col_pk c \<and> found \<noteq> None then Inl InvalidArgument
      else find_primary_key (Suc i) (if col_pk c then Some i else found) cs)"

text \<open>The loop that lays the columns out, with the row size so far.\<close>

fun set_layout :: "nat \<Rightarrow> nat \<Rightarrow> column list \<Rightarrow> column list \<times> nat" where
  "set_layout i row_size [] = ([], row_size)"
| "set_layout i row_size (c # cs) =
     (let c' = c\<lparr>col_ordinal := i, col_fixed_offset := row_size\<rparr>;
          (cs', row_size') = set_layout (Suc i) (row_size + fixed_size (col_type c)) cs in
      (c' # cs', row_size'))"

definition schema_create :: "column list \<Rightarrow> schema result" where
  "schema_create columns =
     ensure (columns \<noteq> []) InvalidArgument (
     ensure (names_distinct {} columns) InvalidArgument (
     bind_result (find_primary_key 0 None columns) (\<lambda>primary_key.
       case primary_key of
         None \<Rightarrow> Inl InvalidArgument
       | Some primary_key_ordinal \<Rightarrow>
           (let null_bitmap_size = (length columns + 7) div 8;
                (columns', row_size) = set_layout 0 null_bitmap_size columns in
            Inr \<lparr>sch_columns = columns', sch_primary_key_ordinal = primary_key_ordinal,
              sch_row_size = row_size, sch_null_bitmap_size = null_bitmap_size\<rparr>))))"

section \<open>Row.cpp and RowValidation.cpp\<close>

type_synonym row = "db_value list"

text \<open>The body of the validation loop.\<close>

definition validate_value :: "column \<Rightarrow> db_value \<Rightarrow> status" where
  "validate_value col v =
     ensure (lt_kind (col_type col) = lt_kind (val_type v)) InvalidArgument (
     ensure (\<not> (lt_kind (val_type v) = String \<and>
       lt_capacity (col_type col) \<noteq> lt_capacity (val_type v))) InvalidArgument (
     if is_null v then ensure (col_nullable col) InvalidArgument Ok
     else if lt_kind (col_type col) \<noteq> String then Ok
     else
       ensure (length (as_string v) \<le> the (lt_capacity (col_type col))) InvalidArgument (
       ensure (CHR 0x00 \<notin> set (as_string v)) InvalidArgument Ok)))"

fun validate_values :: "column list \<Rightarrow> db_value list \<Rightarrow> status" where
  "validate_values (c # cs) (v # vs) =
     bind_result (validate_value c v) (\<lambda>_. validate_values cs vs)"
| "validate_values _ _ = Ok"

definition validate_row_against_schema :: "schema \<Rightarrow> row \<Rightarrow> status" where
  "validate_row_against_schema s row =
     ensure (length (sch_columns s) = length row) InvalidArgument (
       validate_values (sch_columns s) row)"

section \<open>Properties of types, literals and schemas\<close>

text \<open>
  The type codec is a bijection between the types the code can build and the pairs of a
  kind byte and a capacity it accepts: encoding and decoding give a type back, and whatever
  decodes is a type that encodes to the pair it came from. Every other pair is refused.
\<close>

theorem logical_type_codec:
  "(type_wf t \<longrightarrow> logical_type_decode (encode_kind (lt_kind t)) (lt_capacity t) = Inr t) \<and>
   (logical_type_decode code capacity = Inr t \<longrightarrow>
      type_wf t \<and> encode_kind (lt_kind t) = code \<and> lt_capacity t = capacity)"
proof (intro conjI impI)
  assume "logical_type_decode code capacity = Inr t"
  then obtain k where k: "decode_kind code = Inr k" and t: "(if k = String then
      (case capacity of None \<Rightarrow> Inl InvalidArgument | Some c \<Rightarrow> string_type c)
      else if capacity \<noteq> None then Inl InvalidArgument else Inr (plain_type k)) = Inr t"
    by (auto simp: logical_type_decode_def bind_result_Inr_iff)
  have "type_wf t \<and> lt_kind t = k \<and> lt_capacity t = capacity"
  proof (cases "k = String")
    case True
    then show ?thesis
      using t string_type_wf by (auto split: option.splits)
  next
    case False
    then show ?thesis
      using t plain_type_wf by (auto simp: plain_type_def split: if_splits)
  qed
  moreover have "encode_kind k = code"
    using k by (auto simp: decode_kind_def encode_kind_def split: if_splits)
  ultimately show "type_wf t" "encode_kind (lt_kind t) = code" "lt_capacity t = capacity"
    by auto
qed (rule logical_type_roundtrip)

theorem logical_type_codec_witness:
  "logical_type_decode 6 (Some 12) = Inr \<lparr>lt_kind = String, lt_capacity = Some 12\<rparr> \<and>
   logical_type_decode 0 None = Inl InvalidArgument \<and>
   (logical_type_decode (encode_kind Int32) None = Inr (plain_type Int32))"
  using logical_type_codec[of "plain_type Int32" 3 None]
  by (simp add: logical_type_decode_def decode_kind_def string_type_def plain_type_def type_wf_def)

text \<open>
  A literal converts only to a value of the requested type that the type can hold: an
  integer inside the range of the width, a string within the capacity, \<open>NULL\<close> only for a
  nullable column; the value carries the number, string or boolean of the literal unchanged.
\<close>

theorem literal_conversion:
  assumes "type_wf t" "convert_to lit t nullable = Inr v"
  shows "value_wf v \<and> val_type v = t \<and> (is_null v \<longrightarrow> lit = LNull \<and> nullable) \<and>
    val_payload v = (case lit of LNull \<Rightarrow> PNull | LInteger i \<Rightarrow> PInteger i | LReal d \<Rightarrow> PFloat d
      | LString s \<Rightarrow> PString s | LBoolean b \<Rightarrow> PBoolean b)"
  using assms
  by (cases lit)
    (auto simp: value_int8_def value_int16_def value_int32_def value_int64_def value_float64_def
      value_string_def value_boolean_def value_null_def value_wf_def is_null_def type_wf_def
      ensure_Inr_iff bind_result_Inr_iff plain_type_def string_type_def
      split: if_splits logical_kind.splits)

theorem literal_conversion_witness:
  "value_wf \<lparr>val_type = plain_type Int8, val_payload = PInteger 100\<rparr> \<and>
   convert_to (LInteger 300) (plain_type Int8) False = Inl InvalidArgument"
  using literal_conversion[of "plain_type Int8" "LInteger 100" False
      "\<lparr>val_type = plain_type Int8, val_payload = PInteger 100\<rparr>"]
  by (simp add: value_int8_def fits_integer_def plain_type_def type_wf_def)

end
