(* ===== verification/KeyCodec.thy ===== *)
theory KeyCodec
  imports RecordTypes "HOL-Library.List_Lexorder"
begin

text \<open>
  \<^verbatim>\<open>src/record/KeyCodec.cpp\<close>: the encoding of an indexed value as the byte string that the
  B+ tree compares with \<open>std::memcmp\<close>. The lemmas show that this comparison is the order
  of the values: signed for integers, lexicographic for strings.
\<close>

section \<open>Bytes of a string and memcmp\<close>

definition byte_of_char :: "char \<Rightarrow> byte" where
  "byte_of_char c = word_of_nat (of_char c)"

definition char_of_byte :: "byte \<Rightarrow> char" where
  "char_of_byte b = char_of (unat b)"

text \<open>
  \<open>std::memcmp\<close> on two buffers of one length: the sign of the result is that of the first
  difference between bytes read as unsigned numbers.
\<close>

fun memcmp :: "bytes \<Rightarrow> bytes \<Rightarrow> int" where
  "memcmp (a # as) (b # bs) = (if a < b then - 1 else if b < a then 1 else memcmp as bs)"
| "memcmp _ _ = 0"

section \<open>KeyCodec.cpp\<close>

text \<open>The sign bit of a word, which the encoding flips.\<close>

definition sign_bit :: "'a::len word" where
  "sign_bit = 2 ^ (LENGTH('a) - 1)"

definition key_encode :: "db_value \<Rightarrow> bytes result" where
  "key_encode v =
     ensure (\<not> is_null v) InvalidArgument
     (case lt_kind (val_type v) of
        Int8 \<Rightarrow> Inr [ucast (as_integer v) XOR 0x80]
      | Int16 \<Rightarrow> write_u16_be (replicate 2 0) 0 (ucast (as_integer v) XOR 0x8000)
      | Int32 \<Rightarrow> write_u32_be (replicate 4 0) 0 (ucast (as_integer v) XOR 0x80000000)
      | Int64 \<Rightarrow> write_u64_be (replicate 8 0) 0 (as_integer v XOR 0x8000000000000000)
      | String \<Rightarrow>
          ensure (CHR 0x00 \<notin> set (as_string v)) InvalidArgument
            (Inr (overwrite (replicate (the (lt_capacity (val_type v))) 0) 0
               (map byte_of_char (as_string v))))
      | Boolean \<Rightarrow> Inr [if as_boolean v then 1 else 0]
      | Float64 \<Rightarrow> Inl InvalidArgument)"

section \<open>Order of big-endian encodings\<close>

fun be_value :: "bytes \<Rightarrow> nat" where
  "be_value [] = 0"
| "be_value (b # bs) = unat b * 256 ^ length bs + be_value bs"

lemma be_value_less: "be_value bs < 256 ^ length bs"
proof (induction bs)
  case (Cons b bs)
  have "unat b * 256 ^ length bs + be_value bs < (unat b + 1) * 256 ^ length bs"
    using Cons by simp
  also have "\<dots> \<le> 256 * 256 ^ length bs"
    using unsigned_less[of b, where ?'a = nat] by (intro mult_right_mono) auto
  finally show ?case by simp
qed simp

lemma memcmp_be_value:
  assumes "length a = length b"
  shows "memcmp a b < 0 \<longleftrightarrow> be_value a < be_value b" "memcmp a b = 0 \<longleftrightarrow> a = b"
proof -
  have "(memcmp a b < 0 \<longleftrightarrow> be_value a < be_value b) \<and> (memcmp a b = 0 \<longleftrightarrow> a = b)"
    using assms
  proof (induction a b rule: list_induct2)
    case (Cons x xs y ys)
    have less: "unat u * 256 ^ length ys + be_value us < unat w * 256 ^ length ys + be_value ws"
      if "u < w" "length us = length ys" for u w :: byte and us ws
    proof -
      have "unat u + 1 \<le> unat w"
        using that by (simp add: word_less_nat_alt)
      then have "(unat u + 1) * 256 ^ length ys \<le> unat w * 256 ^ length ys"
        by (intro mult_right_mono) auto
      then show ?thesis
        using be_value_less[of us] that(2) by simp
    qed
    show ?case
      using Cons less[of x y xs ys] less[of y x ys xs] by auto
  qed simp
  then show "memcmp a b < 0 \<longleftrightarrow> be_value a < be_value b" "memcmp a b = 0 \<longleftrightarrow> a = b"
    by auto
qed

lemma memcmp_lexorder:
  "length a = length b \<Longrightarrow> memcmp a b < 0 \<longleftrightarrow> a < b"
  by (induction a b rule: list_induct2) auto

lemma unat_byte_of: "unat (byte_of v i) = unat v div 256 ^ i mod 256"
proof -
  have "byte_of v i = ucast (drop_bit (8 * i) v)"
    by (rule bit_word_eqI) (auto simp: bit_byte_of bit_ucast_iff bit_drop_bit_eq dest: bit_imp_le_length)
  then have "unat (byte_of v i) = take_bit 8 (drop_bit (8 * i) (unat v))"
    by (simp only: unsigned_ucast_eq unat_drop_bit_eq) simp
  then show ?thesis
    by (simp add: take_bit_eq_mod drop_bit_eq_div power_mult)
qed

lemma be_value_bytes:
  "be_value (rev (map (byte_of v) [0..<n])) = unat v mod 256 ^ n"
proof (induction n)
  case (Suc n)
  then show ?case
    using mod_mult2_eq[of "unat v" "256 ^ n" 256] by (simp add: unat_byte_of mult.commute)
qed simp

lemma be_value_word:
  "8 * n = LENGTH('a) \<Longrightarrow> be_value (rev (map (byte_of (v :: 'a::len word)) [0..<n])) = unat v"
  using power_mult[of "2 :: nat" 8 n] unsigned_less[of v, where ?'a = nat]
  by (simp add: be_value_bytes)

section \<open>Flipping the sign bit\<close>

lemma bit_sign_bit: "bit (sign_bit :: 'a::len word) k \<longleftrightarrow> k = LENGTH('a) - 1"
  by (auto simp: sign_bit_def bit_exp_iff)

lemma xor_sign_bit: "x XOR sign_bit = x + (sign_bit :: 'a::len word)"
proof (cases "bit x (LENGTH('a) - 1)")
  case False
  then have "x AND sign_bit = 0"
    by (intro bit_word_eqI) (auto simp: bit_sign_bit bit_and_iff)
  then show ?thesis
    by (simp add: disjunctive_add_eq_xor)
next
  case True
  let ?y = "x AND NOT (sign_bit :: 'a word)"
  have "?y AND sign_bit = 0"
    by (intro bit_word_eqI) (auto simp: bit_and_iff bit_not_iff)
  then have sum: "?y + sign_bit = ?y XOR sign_bit"
    by (simp add: disjunctive_add_eq_xor)
  have x: "?y XOR sign_bit = x"
    using True by (intro bit_word_eqI) (auto simp: bit_sign_bit bit_and_iff bit_not_iff bit_xor_iff)
  have y: "x XOR sign_bit = ?y"
    using x by (metis xor.assoc xor.right_neutral xor_self_eq)
  have "sign_bit + sign_bit = (2 ^ LENGTH('a) :: 'a word)"
    by (simp add: sign_bit_def flip: mult_2 power_Suc)
  then have double: "sign_bit + sign_bit = (0 :: 'a word)"
    by simp
  show ?thesis
    using x y sum double by (metis add.assoc add.right_neutral)
qed

lemma uint_flip_sign:
  "uint (x XOR sign_bit :: 'a::len word) = sint x + 2 ^ (LENGTH('a) - 1)"
proof -
  have "x XOR sign_bit = word_of_int (sint x + 2 ^ (LENGTH('a) - 1))"
    unfolding xor_sign_bit by (simp add: sign_bit_def)
  moreover have "0 \<le> sint x + 2 ^ (LENGTH('a) - 1)"
    using sint_ge[of x] by simp
  moreover have "sint x + 2 ^ (LENGTH('a) - 1) < 2 ^ LENGTH('a)"
  proof -
    have "(2 :: int) ^ LENGTH('a) = 2 ^ (LENGTH('a) - 1) + 2 ^ (LENGTH('a) - 1)"
      by (simp flip: mult_2 power_Suc)
    then show ?thesis
      using sint_lt[of x] by simp
  qed
  ultimately show ?thesis
    by (metis mod_pos_pos_trivial uint_word_of_int)
qed

lemma sign_bits:
  "(0x80 :: 8 word) = sign_bit" "(0x8000 :: 16 word) = sign_bit"
  "(0x80000000 :: 32 word) = sign_bit" "(0x8000000000000000 :: 64 word) = sign_bit"
  by (simp_all add: sign_bit_def)

lemma flip_less:
  fixes x y :: "'a::len word"
  shows "unat (x XOR sign_bit) < unat (y XOR sign_bit) \<longleftrightarrow> sint x < sint y"
proof -
  have "x XOR sign_bit < y XOR sign_bit \<longleftrightarrow> sint x < sint y"
    by (simp add: word_less_def uint_flip_sign)
  then show ?thesis
    by (simp add: word_less_nat_alt)
qed

lemma sint_narrow:
  assumes "LENGTH('a) \<le> 64" "- (2 ^ (LENGTH('a) - 1)) \<le> sint v" "sint v < 2 ^ (LENGTH('a) - 1)"
  shows "sint (ucast (v :: i64) :: 'a::len word) = sint v"
proof -
  have "(ucast v :: 'a word) = word_of_int (sint v)"
    using assms(1) by (intro bit_word_eqI, rename_tac k, case_tac "k = 63")
      (auto simp: bit_simps min_def)
  then show ?thesis
    using assms by (simp only: sint_sbintrunc') (simp add: signed_take_bit_int_eq_self)
qed

lemma sint_narrow_widths:
  "fits_integer 8 v \<Longrightarrow> sint (ucast v :: 8 word) = sint v"
  "fits_integer 16 v \<Longrightarrow> sint (ucast v :: 16 word) = sint v"
  "fits_integer 32 v \<Longrightarrow> sint (ucast v :: 32 word) = sint v"
  by (auto simp: fits_integer_def intro!: sint_narrow)

section \<open>The order of values\<close>

definition value_less :: "db_value \<Rightarrow> db_value \<Rightarrow> bool" where
  "value_less v w = (case lt_kind (val_type v) of
      String \<Rightarrow> (as_string v, as_string w) \<in> lexord {(c, d). (of_char c :: nat) < of_char d}
    | Boolean \<Rightarrow> \<not> as_boolean v \<and> as_boolean w
    | Float64 \<Rightarrow> False
    | _ \<Rightarrow> sint (as_integer v) < sint (as_integer w))"

lemma key_encode_length:
  assumes "value_wf v" "key_encode v = Inr a"
  shows "length a = fixed_size (val_type v)"
  using assms
  by (auto simp: key_encode_def ensure_Inr_iff value_wf_def fixed_size_def write_be_in_bounds
      split: logical_kind.splits)

lemma key_encode_bytes:
  assumes "value_wf v" "key_encode v = Inr a"
  shows "lt_kind (val_type v) = Int8 \<Longrightarrow>
      be_value a = unat (ucast (as_integer v) XOR sign_bit :: 8 word)"
    and "lt_kind (val_type v) = Int16 \<Longrightarrow>
      be_value a = unat (ucast (as_integer v) XOR sign_bit :: 16 word)"
    and "lt_kind (val_type v) = Int32 \<Longrightarrow>
      be_value a = unat (ucast (as_integer v) XOR sign_bit :: 32 word)"
    and "lt_kind (val_type v) = Int64 \<Longrightarrow>
      be_value a = unat (as_integer v XOR sign_bit :: 64 word)"
proof -
  note facts = assms(2)[unfolded key_encode_def ensure_Inr_iff sign_bits]
  show "be_value a = unat (ucast (as_integer v) XOR sign_bit :: 8 word)"
    if "lt_kind (val_type v) = Int8"
    using facts that by auto
  show "be_value a = unat (ucast (as_integer v) XOR sign_bit :: 16 word)"
    if "lt_kind (val_type v) = Int16"
    using facts that
    by (auto simp: write_be_in_bounds store_be_overwrite overwrite_all be_value_word)
  show "be_value a = unat (ucast (as_integer v) XOR sign_bit :: 32 word)"
    if "lt_kind (val_type v) = Int32"
    using facts that
    by (auto simp: write_be_in_bounds store_be_overwrite overwrite_all be_value_word)
  show "be_value a = unat (as_integer v XOR sign_bit :: 64 word)"
    if "lt_kind (val_type v) = Int64"
    using facts that
    by (auto simp: write_be_in_bounds store_be_overwrite overwrite_all be_value_word)
qed

text \<open>The bytes of padded strings compare as the strings, which hold no null character.\<close>

lemma of_char_less: "(of_char c :: nat) < 256"
  using of_char_mod_256[of c] by (metis mod_less_divisor zero_less_numeral)

lemma unat_byte_of_char [simp]: "unat (byte_of_char c) = of_char c"
  using of_char_less[of c] by (simp add: byte_of_char_def unat_of_nat)

lemma char_of_byte_of_char [simp]: "char_of_byte (byte_of_char c) = c"
  by (simp add: char_of_byte_def)

lemma byte_of_char_of_byte [simp]: "byte_of_char (char_of_byte b) = b"
  using unsigned_less[of b, where ?'a = nat]
  by (simp add: byte_of_char_def char_of_byte_def of_char_of)

lemma byte_of_char_inj [simp]: "byte_of_char c = byte_of_char d \<longleftrightarrow> c = d"
  by (metis char_of_byte_of_char)

lemma byte_of_char_0 [simp]: "byte_of_char (CHR 0x00) = 0"
  by (simp add: byte_of_char_def)

lemma byte_of_char_eq_0: "byte_of_char c = 0 \<longleftrightarrow> c = CHR 0x00"
  by (simp flip: byte_of_char_0)

lemma overwrite_zeros:
  "length xs \<le> n \<Longrightarrow> overwrite (replicate n 0) 0 xs = xs @ replicate (n - length xs) 0"
  by (simp add: overwrite_def)

lemma memcmp_same [simp]: "memcmp a a = 0"
  by (induction a) auto

lemma memcmp_padded:
  assumes "length s + i = length t + j" "CHR 0x00 \<notin> set s" "CHR 0x00 \<notin> set t"
  shows "memcmp (map byte_of_char s @ replicate i 0) (map byte_of_char t @ replicate j 0) < 0 \<longleftrightarrow>
    (s, t) \<in> lexord {(c, d). (of_char c :: nat) < of_char d}"
  using assms
proof (induction s arbitrary: t)
  case Nil
  show ?case
  proof (cases t)
    case (Cons d t')
    with Nil.prems obtain i' where "i = Suc i'"
      by (cases i) auto
    moreover have "0 < byte_of_char d"
      using Nil.prems Cons by (metis byte_of_char_eq_0 list.set_intros(1) word_gt_0)
    ultimately show ?thesis
      using Cons by simp
  qed (use Nil in simp)
next
  case (Cons c s)
  show ?case
  proof (cases t)
    case Nil
    with Cons.prems obtain j' where "j = Suc j'"
      by (cases j) auto
    moreover have "0 < byte_of_char c"
      using Cons.prems by (metis byte_of_char_eq_0 list.set_intros(1) word_gt_0)
    ultimately show ?thesis
      using Nil by simp
  next
    case (Cons d t')
    then show ?thesis
      using Cons.prems Cons.IH[of t'] by (auto simp: word_less_nat_alt)
  qed
qed

lemma padded_inj:
  assumes "map byte_of_char s @ replicate i 0 = map byte_of_char t @ replicate j 0"
    and "CHR 0x00 \<notin> set s" "CHR 0x00 \<notin> set t"
  shows "s = t"
proof -
  have take: "takeWhile (\<lambda>b. b \<noteq> 0) (map byte_of_char u @ replicate k 0) = map byte_of_char u"
    if "CHR 0x00 \<notin> set u" for u k
  proof -
    have "takeWhile (\<lambda>b. b \<noteq> 0) (replicate k (0 :: byte)) = []"
      by (cases k) auto
    then show ?thesis
      using that by (subst takeWhile_append2) (auto simp: byte_of_char_eq_0)
  qed
  have "map byte_of_char s = map byte_of_char t"
    using take[OF assms(2), of i] take[OF assms(3), of j] assms(1) by simp
  then show ?thesis
    by (metis (mono_tags, lifting) char_of_byte_of_char list.inj_map_strong)
qed

lemma key_encode_string:
  assumes "value_wf v" "lt_kind (val_type v) = String" "key_encode v = Inr a"
  shows "CHR 0x00 \<notin> set (as_string v) \<and>
    length (as_string v) \<le> the (lt_capacity (val_type v)) \<and>
    a = map byte_of_char (as_string v) @
      replicate (the (lt_capacity (val_type v)) - length (as_string v)) 0"
  using assms by (auto simp: key_encode_def ensure_Inr_iff value_wf_def overwrite_zeros)

lemma key_less_integer:
  assumes v: "value_wf v" "key_encode v = Inr a" and w: "value_wf w" "key_encode w = Inr b"
    and type: "val_type v = val_type w" "lt_kind (val_type w) \<in> {Int8, Int16, Int32, Int64}"
  shows "be_value a < be_value b \<longleftrightarrow> sint (as_integer v) < sint (as_integer w)"
proof -
  have "\<not> is_null v" "\<not> is_null w"
    using v(2) w(2) by (auto simp: key_encode_def ensure_Inr_iff)
  then show ?thesis
    using v w type key_encode_bytes[OF v] key_encode_bytes[OF w]
    by (auto simp: flip_less value_wf_def sint_narrow_widths)
qed

lemma key_encode_order:
  assumes v: "value_wf v" "key_encode v = Inr a" and w: "value_wf w" "key_encode w = Inr b"
    and type: "val_type v = val_type w"
  shows "memcmp a b < 0 \<longleftrightarrow> value_less v w"
proof -
  have len: "length a = length b"
    using key_encode_length[OF v] key_encode_length[OF w] type by simp
  consider "lt_kind (val_type w) \<in> {Int8, Int16, Int32, Int64}"
    | "lt_kind (val_type w) = String" | "lt_kind (val_type w) = Boolean"
    | "lt_kind (val_type w) = Float64"
    by (cases "lt_kind (val_type w)") auto
  then show ?thesis
  proof cases
    case 1
    then show ?thesis
      using key_less_integer[OF v w type 1] type
      by (auto simp: memcmp_be_value[OF len] value_less_def)
  next
    case 2
    then show ?thesis
      using key_encode_string[OF v(1) _ v(2)] key_encode_string[OF w(1) _ w(2)] type memcmp_padded
      by (auto simp: value_less_def)
  qed (use v w type in \<open>auto simp: key_encode_def ensure_Inr_iff value_less_def
      split: if_splits\<close>)
qed

lemma key_encode_inj:
  assumes v: "value_wf v" "key_encode v = Inr a" and w: "value_wf w" "key_encode w = Inr a"
    and type: "val_type v = val_type w"
  shows "v = w"
proof -
  have nonnull: "\<not> is_null v" "\<not> is_null w"
    using v(2) w(2) by (auto simp: key_encode_def ensure_Inr_iff)
  consider "lt_kind (val_type w) \<in> {Int8, Int16, Int32, Int64}"
    | "lt_kind (val_type w) = String" | "lt_kind (val_type w) = Boolean"
    | "lt_kind (val_type w) = Float64"
    by (cases "lt_kind (val_type w)") auto
  then have "val_payload v = val_payload w"
  proof cases
    case 1
    have "sint (as_integer v) = sint (as_integer w)"
      using key_less_integer[OF v w type 1] key_less_integer[OF w v type[symmetric]] 1 type by simp
    then have "as_integer v = as_integer w"
      by (simp add: signed_word_eqI)
    then show ?thesis
      using v w type 1 nonnull by (auto simp: value_wf_def)
  next
    case 2
    then have "as_string v = as_string w"
      using key_encode_string[OF v(1) _ v(2)] key_encode_string[OF w(1) _ w(2)] type padded_inj
      by metis
    then show ?thesis
      using v w type 2 nonnull by (auto simp: value_wf_def)
  qed (use v w type nonnull in \<open>auto simp: key_encode_def value_wf_def split: if_splits\<close>)
  then show ?thesis
    using type by simp
qed

text \<open>Every indexable value that a validated row can hold has a key.\<close>

lemma key_encode_total:
  assumes "value_wf v" "\<not> is_null v" "can_be_indexed (val_type v)"
    and "CHR 0x00 \<notin> set (as_string v)"
  shows "\<exists>a. key_encode v = Inr a"
  using assms
  by (cases "lt_kind (val_type v)")
    (auto simp: key_encode_def can_be_indexed_def write_be_in_bounds)

section \<open>Properties of the keys\<close>

text \<open>
  C26. Comparing two encoded keys of one type with \<open>memcmp\<close> compares the values: signed
  order for integers of every width, lexicographic order for strings, false before true; two
  different values never have the same key.
\<close>

theorem key_order:
  assumes "value_wf v" "key_encode v = Inr a" "value_wf u" "key_encode u = Inr b"
    and "val_type v = val_type u"
  shows "(memcmp a b < 0 \<longleftrightarrow> value_less v u) \<and> (memcmp a b = 0 \<longleftrightarrow> v = u)"
proof -
  have "length a = length b"
    using key_encode_length[OF assms(1,2)] key_encode_length[OF assms(3,4)] assms(5) by simp
  then have "memcmp a b = 0 \<longleftrightarrow> a = b"
    by (rule memcmp_be_value)
  then show ?thesis
    using key_encode_order[OF assms] key_encode_inj[OF assms(1,2,3) _ assms(5)] assms(2,4) by auto
qed

theorem key_order_witness:
  "\<exists>a b. key_encode \<lparr>val_type = plain_type Int16, val_payload = PInteger (- 2)\<rparr> = Inr a \<and>
    key_encode \<lparr>val_type = plain_type Int16, val_payload = PInteger 1\<rparr> = Inr b \<and> memcmp a b < 0"
proof -
  let ?v = "\<lparr>val_type = plain_type Int16, val_payload = PInteger (- 2)\<rparr>"
  let ?u = "\<lparr>val_type = plain_type Int16, val_payload = PInteger 1\<rparr>"
  have wf: "value_wf ?v" "value_wf ?u"
    by (simp_all add: value_wf_def type_wf_def plain_type_def fits_integer_def is_null_def)
  obtain a b where "key_encode ?v = Inr a" "key_encode ?u = Inr b"
    using key_encode_total[OF wf(1)] key_encode_total[OF wf(2)]
    by (auto simp: is_null_def can_be_indexed_def plain_type_def)
  moreover from key_order[OF wf(1) this(1) wf(2) this(2)] have "memcmp a b < 0"
    by (simp add: value_less_def plain_type_def)
  ultimately show ?thesis
    by blast
qed

end
