(* ===== verification/RowCodec.thy ===== *)
theory RowCodec
  imports KeyCodec
begin

text \<open>
  \<^verbatim>\<open>src/record/RowCodec.cpp\<close> and \<^verbatim>\<open>src/record/RowHelpers.cpp\<close>: the fixed-size byte image of
  a row (null bitmap, then one slot per column at its offset) and the row operations of the
  execution layer. The lemmas: \<open>encode\<close> yields the reference image, \<open>decode\<close> inverts it,
  and a byte string that \<open>decode\<close> accepts is the image of the row it returns.
\<close>

section \<open>Encoding\<close>

definition null_bit :: "nat \<Rightarrow> byte" where
  "null_bit i = push_bit (i mod 8) 1"

text \<open>The first loop of \<open>encode\<close>: the bits of the null values.\<close>

definition mark_nulls :: "row \<Rightarrow> bytes \<Rightarrow> bytes" where
  "mark_nulls row bytes =
     fold (\<lambda>i b. if is_null (row ! i) then b[i div 8 := b ! (i div 8) OR null_bit i] else b)
       [0..<length row] bytes"

text \<open>The body of the second loop, and the loop.\<close>

definition encode_value :: "bytes \<Rightarrow> column \<Rightarrow> db_value \<Rightarrow> bytes result" where
  "encode_value bytes col val =
     (if is_null val then Inr bytes
      else let offset = col_fixed_offset col in
        (case lt_kind (col_type col) of
           Int8 \<Rightarrow> Inr (bytes[offset := ucast (as_integer val)])
         | Int16 \<Rightarrow> write_u16_le bytes offset (ucast (as_integer val))
         | Int32 \<Rightarrow> write_u32_le bytes offset (ucast (as_integer val))
         | Int64 \<Rightarrow> write_u64_le bytes offset (as_integer val)
         | Float64 \<Rightarrow> write_u64_le bytes offset (as_float64 val)
         | String \<Rightarrow> Inr (overwrite bytes offset (map byte_of_char (as_string val)))
         | Boolean \<Rightarrow> Inr (bytes[offset := if as_boolean val then 1 else 0])))"

fun encode_columns :: "bytes \<Rightarrow> column list \<Rightarrow> row \<Rightarrow> bytes result" where
  "encode_columns bytes (c # cs) (v # vs) =
     bind_result (encode_value bytes c v) (\<lambda>bytes. encode_columns bytes cs vs)"
| "encode_columns bytes _ _ = Inr bytes"

definition row_encode :: "schema \<Rightarrow> row \<Rightarrow> bytes result" where
  "row_encode s row =
     bind_result (validate_row_against_schema s row) (\<lambda>_.
       encode_columns (mark_nulls row (replicate (sch_row_size s) 0)) (sch_columns s) row)"

section \<open>Decoding\<close>

definition null_bit_set :: "bytes \<Rightarrow> nat \<Rightarrow> bool" where
  "null_bit_set bytes i \<longleftrightarrow> bytes ! (i div 8) AND null_bit i \<noteq> 0"

text \<open>The first loop: a null column must be nullable and its slot zero.\<close>

fun check_nulls :: "bytes \<Rightarrow> nat \<Rightarrow> column list \<Rightarrow> status" where
  "check_nulls bytes i [] = Ok"
| "check_nulls bytes i (c # cs) =
     (if \<not> null_bit_set bytes i then check_nulls bytes (Suc i) cs
      else ensure (col_nullable c) InvalidArgument (
        ensure (bytes_are_zero (take (fixed_size (col_type c)) (drop (col_fixed_offset c) bytes)))
          InvalidArgument (
        check_nulls bytes (Suc i) cs)))"

definition check_unused_bits :: "schema \<Rightarrow> bytes \<Rightarrow> status" where
  "check_unused_bits s bytes =
     (let used = length (sch_columns s) mod 8 in
      if used \<noteq> 0
      then ensure (bytes ! (sch_null_bitmap_size s - 1) AND push_bit used 0xFF = 0)
        InvalidArgument Ok
      else Ok)"

text \<open>The characters before the first null byte of a string slot.\<close>

fun read_string :: "bytes \<Rightarrow> string" where
  "read_string [] = []"
| "read_string (b # bs) = (if b = 0 then [] else char_of_byte b # read_string bs)"

definition decode_value :: "bytes \<Rightarrow> column \<Rightarrow> db_value result" where
  "decode_value bytes col =
     (let offset = col_fixed_offset col in
      case lt_kind (col_type col) of
        Int8 \<Rightarrow> value_int8 (scast (bytes ! offset))
      | Int16 \<Rightarrow> bind_result (read_u16_le bytes offset) (\<lambda>raw. value_int16 (scast raw))
      | Int32 \<Rightarrow> bind_result (read_u32_le bytes offset) (\<lambda>raw. value_int32 (scast raw))
      | Int64 \<Rightarrow> bind_result (read_u64_le bytes offset) (\<lambda>raw. Inr (value_int64 raw))
      | Float64 \<Rightarrow> bind_result (read_u64_le bytes offset) (\<lambda>raw. Inr (value_float64 raw))
      | String \<Rightarrow>
          (let capacity = the (lt_capacity (col_type col));
               string_value = read_string (take capacity (drop offset bytes));
               string_size = length string_value in
           ensure (\<not> (string_size < capacity \<and>
               \<not> bytes_are_zero (take (capacity - string_size) (drop (offset + string_size) bytes))))
             InvalidArgument (value_string string_value capacity))
      | Boolean \<Rightarrow>
          ensure (\<not> bytes ! offset > 1) InvalidArgument
            (Inr (value_boolean (bytes ! offset = 1))))"

fun decode_columns :: "bytes \<Rightarrow> nat \<Rightarrow> column list \<Rightarrow> row result" where
  "decode_columns bytes i [] = Inr []"
| "decode_columns bytes i (c # cs) =
     bind_result (if null_bit_set bytes i then Inr (value_null (col_type c)) else decode_value bytes c)
       (\<lambda>v. bind_result (decode_columns bytes (Suc i) cs) (\<lambda>vs. Inr (v # vs)))"

definition row_decode :: "schema \<Rightarrow> bytes \<Rightarrow> row result" where
  "row_decode s bytes =
     ensure (sch_row_size s = length bytes) InvalidArgument (
     bind_result (check_nulls bytes 0 (sch_columns s)) (\<lambda>_.
     bind_result (check_unused_bits s bytes) (\<lambda>_.
       decode_columns bytes 0 (sch_columns s))))"

section \<open>RowHelpers.cpp\<close>

definition build_row :: "schema \<Rightarrow> db_value list \<Rightarrow> row result" where
  "build_row s values = bind_result (validate_row_against_schema s values) (\<lambda>_. Inr values)"

definition replace_values :: "row \<Rightarrow> nat list \<Rightarrow> db_value list \<Rightarrow> row" where
  "replace_values row ordinals values =
     fold (\<lambda>i vs. vs[ordinals ! i := values ! i]) [0..<length ordinals] row"

definition replace_non_primary_key_values ::
    "schema \<Rightarrow> row \<Rightarrow> nat list \<Rightarrow> db_value list \<Rightarrow> row result" where
  "replace_non_primary_key_values s row ordinals values =
     bind_result (validate_row_against_schema s row) (\<lambda>_.
     ensure (length ordinals = length values) InvalidArgument (
     ensure (\<not> list_ex (\<lambda>ord. ord = sch_primary_key_ordinal s) ordinals) InvalidArgument (
     ensure (\<not> list_ex (\<lambda>ord. ord \<ge> length row) ordinals) InvalidArgument (
       let replaced = replace_values row ordinals values in
       bind_result (validate_row_against_schema s replaced) (\<lambda>_. Inr replaced)))))"

definition indexed_key_bytes :: "schema \<Rightarrow> row \<Rightarrow> nat \<Rightarrow> bytes result" where
  "indexed_key_bytes s row ordinal =
     bind_result (validate_row_against_schema s row) (\<lambda>_.
     ensure (ordinal < length (sch_columns s)) InvalidArgument (key_encode (row ! ordinal)))"

definition primary_key_bytes :: "schema \<Rightarrow> row \<Rightarrow> bytes result" where
  "primary_key_bytes s row = indexed_key_bytes s row (sch_primary_key_ordinal s)"

section \<open>The layout of a schema\<close>

fun laid_out :: "nat \<Rightarrow> column list \<Rightarrow> bool" where
  "laid_out off [] = True"
| "laid_out off (c # cs) =
     (col_fixed_offset c = off \<and> laid_out (off + fixed_size (col_type c)) cs)"

definition fields_size :: "column list \<Rightarrow> nat" where
  "fields_size cs = sum_list (map (\<lambda>c. fixed_size (col_type c)) cs)"

lemma fields_size_simps [simp]:
  "fields_size [] = 0" "fields_size (c # cs) = fixed_size (col_type c) + fields_size cs"
  by (simp_all add: fields_size_def)

lemma set_layout_laid_out:
  "set_layout i off cs = (cs', total_size) \<Longrightarrow>
    laid_out off cs' \<and> total_size = off + fields_size cs' \<and> map col_type cs' = map col_type cs \<and>
    map col_ordinal cs' = [i..<i + length cs] \<and> length cs' = length cs"
proof (induction cs arbitrary: i off cs' total_size)
  case (Cons c cs)
  obtain ds n where rest: "set_layout (Suc i) (off + fixed_size (col_type c)) cs = (ds, n)"
    by (cases "set_layout (Suc i) (off + fixed_size (col_type c)) cs") auto
  show ?case
    using Cons.prems Cons.IH[OF rest] rest by (auto simp: upt_conv_Cons simp del: upt_Suc)
qed simp

definition schema_wf :: "schema \<Rightarrow> bool" where
  "schema_wf s \<longleftrightarrow> laid_out (sch_null_bitmap_size s) (sch_columns s) \<and>
     sch_null_bitmap_size s = (length (sch_columns s) + 7) div 8 \<and>
     sch_row_size s = sch_null_bitmap_size s + fields_size (sch_columns s) \<and>
     (\<forall>c \<in> set (sch_columns s). type_wf (col_type c))"

lemma schema_create_wf:
  assumes "schema_create columns = Inr s" "\<forall>c \<in> set columns. type_wf (col_type c)"
  shows "schema_wf s" "map col_type (sch_columns s) = map col_type columns"
proof -
  obtain cs' total_size where layout: "set_layout 0 ((length columns + 7) div 8) columns = (cs', total_size)"
    by (cases "set_layout 0 ((length columns + 7) div 8) columns") auto
  have s: "sch_columns s = cs'" "sch_row_size s = total_size"
      "sch_null_bitmap_size s = (length columns + 7) div 8"
    using assms(1) layout
    by (auto simp: schema_create_def ensure_Inr_iff bind_result_Inr_iff split: option.splits)
  have types: "map col_type cs' = map col_type columns"
    using set_layout_laid_out[OF layout] by simp
  then have "\<forall>c \<in> set cs'. type_wf (col_type c)"
    using assms(2) by (metis (no_types, lifting) image_iff list.set_map)
  then show "schema_wf s"
    using set_layout_laid_out[OF layout] by (simp add: schema_wf_def s)
  show "map col_type (sch_columns s) = map col_type columns"
    using types s by simp
qed

section \<open>The reference image of a row\<close>

definition field_bytes :: "db_value \<Rightarrow> bytes" where
  "field_bytes v =
     (if is_null v then replicate (fixed_size (val_type v)) 0
      else case lt_kind (val_type v) of
        Int8 \<Rightarrow> [ucast (as_integer v)]
      | Int16 \<Rightarrow> map (byte_of (ucast (as_integer v) :: u16)) [0..<2]
      | Int32 \<Rightarrow> map (byte_of (ucast (as_integer v) :: u32)) [0..<4]
      | Int64 \<Rightarrow> map (byte_of (as_integer v)) [0..<8]
      | Float64 \<Rightarrow> map (byte_of (as_float64 v)) [0..<8]
      | String \<Rightarrow> map byte_of_char (as_string v) @
          replicate (the (lt_capacity (val_type v)) - length (as_string v)) 0
      | Boolean \<Rightarrow> [if as_boolean v then 1 else 0])"

text \<open>A value that the validation loop accepts for a column.\<close>

definition value_fits :: "column \<Rightarrow> db_value \<Rightarrow> bool" where
  "value_fits c v \<longleftrightarrow> value_wf v \<and> val_type v = col_type c \<and>
     (is_null v \<longrightarrow> col_nullable c) \<and> (\<not> is_null v \<longrightarrow> CHR 0x00 \<notin> set (as_string v))"

definition row_fits :: "schema \<Rightarrow> row \<Rightarrow> bool" where
  "row_fits s row \<longleftrightarrow> list_all2 value_fits (sch_columns s) row"

lemma type_eqI:
  "type_wf t \<Longrightarrow> type_wf u \<Longrightarrow> lt_kind t = lt_kind u \<Longrightarrow>
   (lt_kind u = String \<longrightarrow> lt_capacity t = lt_capacity u) \<Longrightarrow> t = u"
  by (auto simp: type_wf_def split: if_splits)

lemma validate_value_iff:
  assumes "type_wf (col_type c)" "value_wf v"
  shows "validate_value c v = Ok \<longleftrightarrow> value_fits c v"
proof -
  let ?k = "lt_kind (col_type c) = lt_kind (val_type v)"
  let ?c = "\<not> (lt_kind (val_type v) = String \<and> lt_capacity (col_type c) \<noteq> lt_capacity (val_type v))"
  have type: "(val_type v = col_type c) = (?k \<and> ?c)"
  proof
    assume kc: "?k \<and> ?c"
    have "type_wf (val_type v)"
      using assms(2) by (simp add: value_wf_def)
    then show "val_type v = col_type c"
      by (rule type_eqI) (use assms(1) kc in simp_all)
  qed simp
  have other: "as_string v = []" if "lt_kind (val_type v) \<noteq> String" "\<not> is_null v"
    using assms(2) that by (auto simp: value_wf_def split: logical_kind.splits)
  have short: "length (as_string v) \<le> the (lt_capacity (val_type v))"
    if "lt_kind (val_type v) = String" "\<not> is_null v"
    using assms(2) that by (auto simp: value_wf_def)
  show ?thesis
  proof (cases "?k \<and> ?c")
    case False
    then have "\<not> value_fits c v"
      unfolding value_fits_def type by blast
    with False show ?thesis
      unfolding validate_value_def ensure_Inr_iff by blast
  next
    case True
    moreover from True have "val_type v = col_type c"
      by (simp add: type)
    ultimately show ?thesis
      using assms(2) other short by (simp add: validate_value_def value_fits_def ensure_Inr_iff)
  qed
qed

lemma validate_values_iff:
  assumes "length cs = length vs" "\<forall>c \<in> set cs. type_wf (col_type c)" "\<forall>v \<in> set vs. value_wf v"
  shows "validate_values cs vs = Ok \<longleftrightarrow> list_all2 value_fits cs vs"
  using assms
  by (induction cs vs rule: list_induct2) (auto simp: bind_result_Inr_iff validate_value_iff)

lemma validate_row_iff:
  assumes "schema_wf s" "\<forall>v \<in> set row. value_wf v"
  shows "validate_row_against_schema s row = Ok \<longleftrightarrow> row_fits s row"
  using assms validate_values_iff[of "sch_columns s" row]
  by (auto simp: validate_row_against_schema_def ensure_Inr_iff schema_wf_def row_fits_def
      dest: list_all2_lengthD)

lemma length_field_bytes:
  "value_wf v \<Longrightarrow> length (field_bytes v) = fixed_size (val_type v)"
  by (auto simp: field_bytes_def fixed_size_def value_wf_def split: logical_kind.splits)

section \<open>Encoding yields the image\<close>

lemma encode_value_image:
  assumes fits: "value_fits c v" and off: "col_fixed_offset c = length pre"
  shows "encode_value (pre @ replicate (fixed_size (col_type c)) 0 @ rest) c v =
    Inr (pre @ field_bytes v @ rest)"
proof (cases "is_null v")
  case True
  then show ?thesis
    using fits by (simp add: encode_value_def field_bytes_def value_fits_def)
next
  case False
  let ?n = "fixed_size (col_type c)"
  have over: "overwrite (pre @ replicate n 0 @ rest) (length pre) ys = pre @ ys @ rest"
    if "length ys = n" for n and ys :: bytes
    using that by (simp add: overwrite_def)
  have wf: "value_wf v" and type: "val_type v = col_type c"
    using fits by (auto simp: value_fits_def)
  show ?thesis
  proof (cases "lt_kind (col_type c)")
    case String
    then show ?thesis
      using False wf type off
      by (auto simp: encode_value_def field_bytes_def value_wf_def fixed_size_def overwrite_def
          drop_append)
  qed (use False wf type off over[of _ 2] over[of _ 4] over[of _ 8] in
      \<open>auto simp: encode_value_def field_bytes_def fixed_size_def write_le_in_bounds store_le_overwrite
        list_update_append Let_def\<close>)
qed

lemma encode_columns_image:
  assumes "laid_out (length pre) cs" "list_all2 value_fits cs vs"
  shows "encode_columns (pre @ replicate (fields_size cs) 0) cs vs =
    Inr (pre @ concat (map field_bytes vs))"
  using assms(2,1)
proof (induction arbitrary: pre rule: list_all2_induct)
  case (Cons c cs v vs)
  have "length (field_bytes v) = fixed_size (col_type c)"
    using Cons.hyps length_field_bytes by (auto simp: value_fits_def)
  then show ?case
    using Cons.prems Cons.IH[of "pre @ field_bytes v"]
      encode_value_image[OF Cons.hyps(1), of pre "replicate (fields_size cs) 0"]
    by (simp add: replicate_add)
qed simp

text \<open>The bitmap.\<close>

lemma bit_null_bit: "bit (null_bit i) k \<longleftrightarrow> k = i mod 8"
  by (auto simp: null_bit_def bit_exp_iff)

lemma null_bit_set_iff: "null_bit_set bytes i \<longleftrightarrow> bit (bytes ! (i div 8)) (i mod 8)"
proof -
  have "bytes ! (i div 8) AND null_bit i = 0 \<longleftrightarrow> \<not> bit (bytes ! (i div 8)) (i mod 8)"
    by (auto simp: bit_eq_iff[where ?'a = byte] bit_and_iff bit_null_bit dest: spec[of _ "i mod 8"])
  then show ?thesis
    by (simp add: null_bit_set_def)
qed

lemma mark_nulls_bits:
  assumes "length row \<le> 8 * length bytes"
  shows "length (mark_nulls row bytes) = length bytes"
    and "j < length bytes \<Longrightarrow> bit (mark_nulls row bytes ! j) k \<longleftrightarrow>
      bit (bytes ! j) k \<or> k < 8 \<and> 8 * j + k < length row \<and> is_null (row ! (8 * j + k))"
proof -
  let ?f = "\<lambda>i b. if is_null (row ! i) then b[i div 8 := b ! (i div 8) OR null_bit i] else b"
  have "length (fold ?f [0..<n] bytes) = length bytes \<and> (\<forall>j < length bytes. \<forall>k.
      bit (fold ?f [0..<n] bytes ! j) k \<longleftrightarrow>
      bit (bytes ! j) k \<or> k < 8 \<and> 8 * j + k < n \<and> is_null (row ! (8 * j + k)))"
    if "n \<le> 8 * length bytes" for n
    using that
  proof (induction n)
    case (Suc n)
    have same: "8 * j + k = n \<longleftrightarrow> j = n div 8 \<and> k = n mod 8" if "k < 8" for j k
      using that by (metis add.commute div_mult_mod_eq div_mult_self1_is_m mod_less mod_mult_self2
          mult.commute div_less add_0 div_mult_self4 zero_neq_numeral)
    show ?case
      using Suc by (auto simp: nth_list_update bit_or_iff bit_null_bit less_Suc_eq same)
  qed simp
  from this[OF assms]
  show "length (mark_nulls row bytes) = length bytes"
    and "j < length bytes \<Longrightarrow> bit (mark_nulls row bytes ! j) k \<longleftrightarrow>
      bit (bytes ! j) k \<or> k < 8 \<and> 8 * j + k < length row \<and> is_null (row ! (8 * j + k))"
    by (auto simp: mark_nulls_def)
qed

definition null_bitmap :: "row \<Rightarrow> bytes" where
  "null_bitmap row = mark_nulls row (replicate ((length row + 7) div 8) 0)"

lemma null_bitmap_bits:
  "length (null_bitmap row) = (length row + 7) div 8"
  "j < (length row + 7) div 8 \<Longrightarrow> bit (null_bitmap row ! j) k \<longleftrightarrow>
     k < 8 \<and> 8 * j + k < length row \<and> is_null (row ! (8 * j + k))"
proof -
  have le: "length row \<le> 8 * length (replicate ((length row + 7) div 8) (0 :: byte))"
    by simp
  show "length (null_bitmap row) = (length row + 7) div 8"
    using mark_nulls_bits(1)[OF le] by (simp add: null_bitmap_def)
  show "j < (length row + 7) div 8 \<Longrightarrow> bit (null_bitmap row ! j) k \<longleftrightarrow>
     k < 8 \<and> 8 * j + k < length row \<and> is_null (row ! (8 * j + k))"
    using mark_nulls_bits(2)[OF le, of j k] by (simp add: null_bitmap_def)
qed

lemma mark_nulls_zeros:
  assumes "n = (length row + 7) div 8"
  shows "mark_nulls row (replicate (n + m) 0) = null_bitmap row @ replicate m 0"
proof (rule nth_equalityI)
  have le: "length row \<le> 8 * length (replicate (n + m) (0 :: byte))"
    using assms by simp
  show len: "length (mark_nulls row (replicate (n + m) 0)) =
      length (null_bitmap row @ replicate m 0)"
    using assms mark_nulls_bits(1)[OF le] by (simp add: null_bitmap_bits)
  fix j assume "j < length (mark_nulls row (replicate (n + m) 0))"
  then have j: "j < n + m"
    using mark_nulls_bits(1)[OF le] by simp
  have "8 * j + k < length row \<Longrightarrow> j < n" for k
    using assms by linarith
  then show "mark_nulls row (replicate (n + m) 0) ! j = (null_bitmap row @ replicate m 0) ! j"
    using j assms mark_nulls_bits(2)[OF le, of j]
    by (auto simp: bit_eq_iff[where ?'a = byte] nth_append null_bitmap_bits)
qed

definition row_image :: "row \<Rightarrow> bytes" where
  "row_image row = null_bitmap row @ concat (map field_bytes row)"

lemma row_encode_image:
  assumes "schema_wf s" "\<forall>v \<in> set row. value_wf v" "row_fits s row"
  shows "row_encode s row = Inr (row_image row)"
proof -
  have len: "length (sch_columns s) = length row"
    using assms(3) by (auto simp: row_fits_def dest: list_all2_lengthD)
  have wf: "laid_out (length (null_bitmap row)) (sch_columns s)"
      "sch_row_size s = (length row + 7) div 8 + fields_size (sch_columns s)"
    using assms(1) len by (auto simp: schema_wf_def null_bitmap_bits)
  have "encode_columns (mark_nulls row (replicate (sch_row_size s) 0)) (sch_columns s) row =
      Inr (row_image row)"
    using encode_columns_image[OF wf(1) assms(3)[unfolded row_fits_def]]
    by (simp add: wf(2) mark_nulls_zeros row_image_def)
  then show ?thesis
    using validate_row_iff[OF assms(1,2)] assms(3) by (simp add: row_encode_def)
qed

lemma length_concat_fields:
  "list_all2 value_fits cs vs \<Longrightarrow> length (concat (map field_bytes vs)) = fields_size cs"
  by (induction rule: list_all2_induct) (auto simp: length_field_bytes value_fits_def)

lemma length_row_image:
  assumes "schema_wf s" "row_fits s row"
  shows "length (row_image row) = sch_row_size s"
  using assms list_all2_lengthD[of value_fits "sch_columns s" row]
  by (simp add: row_image_def length_concat_fields row_fits_def schema_wf_def null_bitmap_bits)

section \<open>Decoding a slot\<close>

lemma sint_widen:
  assumes "LENGTH('a) \<le> 64"
  shows "sint (scast (x :: 'a::len word) :: i64) = sint x"
proof -
  have "sint (scast x :: i64) = signed_take_bit 63 (sint x)"
    by (simp add: signed_scast_eq)
  moreover have "(2 :: int) ^ (LENGTH('a) - 1) \<le> 2 ^ 63"
    using assms by (intro power_increasing) auto
  ultimately show ?thesis
    using sint_ge[of x] sint_lt[of x] by (simp add: signed_take_bit_int_eq_self)
qed

lemma sint_eqI: "sint v = sint w \<Longrightarrow> v = w"
  by (rule signed_word_eqI)

lemma widen_narrow:
  "fits_integer 8 v \<Longrightarrow> scast (ucast v :: 8 word) = v"
  "fits_integer 16 v \<Longrightarrow> scast (ucast v :: 16 word) = v"
  "fits_integer 32 v \<Longrightarrow> scast (ucast v :: 32 word) = v"
  by (auto intro!: sint_eqI simp: sint_widen sint_narrow_widths)

lemma narrow_widen:
  "ucast (scast (x :: 8 word) :: i64) = x" "ucast (scast (y :: 16 word) :: i64) = y"
  "ucast (scast (z :: 32 word) :: i64) = z"
proof -
  have eq: "ucast (scast w :: i64) = w" if "LENGTH('a) \<le> 64" for w :: "'a::len word"
  proof (rule bit_word_eqI)
    fix k assume "k < LENGTH('a)"
    then show "bit (ucast (scast w :: i64) :: 'a word) k = bit w k"
      using that by (cases "k = LENGTH('a) - 1") (auto simp: bit_simps min_def)
  qed
  show "ucast (scast (x :: 8 word) :: i64) = x" "ucast (scast (y :: 16 word) :: i64) = y"
    "ucast (scast (z :: 32 word) :: i64) = z"
    by (simp_all add: eq)
qed

lemma widen_fits:
  "fits_integer 8 (scast (x :: 8 word))" "fits_integer 16 (scast (y :: 16 word))"
  "fits_integer 32 (scast (z :: 32 word))"
  using sint_ge[of x] sint_lt[of x] sint_ge[of y] sint_lt[of y] sint_ge[of z] sint_lt[of z]
  by (simp_all add: fits_integer_def sint_widen)

lemma read_string_no_null: "CHR 0x00 \<notin> set (read_string bs)"
  by (induction bs) (auto, metis byte_of_char_0 byte_of_char_of_byte)

lemma read_string_length: "length (read_string bs) \<le> length bs"
  by (induction bs) auto

lemma read_string_padded:
  "CHR 0x00 \<notin> set s \<Longrightarrow> read_string (map byte_of_char s @ replicate n 0) = s"
proof (induction s)
  case Nil
  show ?case by (cases n) auto
qed (auto simp: byte_of_char_eq_0)

lemma read_string_prefix:
  "map byte_of_char (read_string bs) = take (length (read_string bs)) bs"
  by (induction bs) auto

text \<open>A slot that holds the bytes of a value decodes to the value, and only such a slot does.\<close>

lemma slot_nth:
  "off + n \<le> length bytes \<Longrightarrow> take n (drop off bytes) = xs \<Longrightarrow> i < n \<Longrightarrow> bytes ! (off + i) = xs ! i"
  by auto

lemma load_slot:
  assumes "8 * n = LENGTH('a)" "off + n \<le> length bytes"
  shows "take n (drop off bytes) = map (byte_of (load_le n bytes off :: 'a::len word)) [0..<n]"
  using assms by (intro nth_equalityI) (simp_all add: byte_of_load_le)

lemma decode_value_of_slot:
  assumes fits: "value_fits c v" and nonnull: "\<not> is_null v"
    and len: "col_fixed_offset c + fixed_size (col_type c) \<le> length bytes"
    and slot: "take (fixed_size (col_type c)) (drop (col_fixed_offset c) bytes) = field_bytes v"
  shows "decode_value bytes c = Inr v"
proof -
  let ?off = "col_fixed_offset c"
  have wf: "value_wf v" and type: "val_type v = col_type c"
    using fits by (auto simp: value_fits_def)
  have v: "v = \<lparr>val_type = col_type c, val_payload = val_payload v\<rparr>"
    using type by simp
  have plain: "col_type c = plain_type (lt_kind (col_type c))" if "lt_kind (col_type c) \<noteq> String"
    using wf type that by (auto simp: value_wf_def type_wf_def plain_type_def)
  note parts = wf nonnull type len slot
  show ?thesis
  proof (cases "lt_kind (col_type c)")
    case Int8
    then obtain i where i: "val_payload v = PInteger i" "fits_integer 8 i"
      using parts by (auto simp: value_wf_def)
    have "bytes ! ?off = ucast i"
      using parts Int8 i slot_nth[OF len slot, of 0] by (simp add: field_bytes_def fixed_size_def)
    then show ?thesis
      using Int8 i plain by (subst v) (simp add: decode_value_def value_int8_def widen_narrow)
  next
    case Int16
    then obtain i where i: "val_payload v = PInteger i" "fits_integer 16 i"
      using parts by (auto simp: value_wf_def)
    have "read_u16_le bytes ?off = Inr (ucast i)"
      using parts Int16 i
      by (simp add: read_le_in_bounds fixed_size_def field_bytes_def load_le_map_byte_of)
    then show ?thesis
      using Int16 i plain by (subst v) (simp add: decode_value_def value_int16_def widen_narrow)
  next
    case Int32
    then obtain i where i: "val_payload v = PInteger i" "fits_integer 32 i"
      using parts by (auto simp: value_wf_def)
    have "read_u32_le bytes ?off = Inr (ucast i)"
      using parts Int32 i
      by (simp add: read_le_in_bounds fixed_size_def field_bytes_def load_le_map_byte_of)
    then show ?thesis
      using Int32 i plain by (subst v) (simp add: decode_value_def value_int32_def widen_narrow)
  next
    case Int64
    then obtain i where i: "val_payload v = PInteger i"
      using parts by (auto simp: value_wf_def)
    have "read_u64_le bytes ?off = Inr i"
      using parts Int64 i
      by (simp add: read_le_in_bounds fixed_size_def field_bytes_def load_le_map_byte_of)
    then show ?thesis
      using Int64 i plain by (subst v) (simp add: decode_value_def value_int64_def)
  next
    case Float64
    then obtain d where d: "val_payload v = PFloat d"
      using parts by (auto simp: value_wf_def)
    have "read_u64_le bytes ?off = Inr d"
      using parts Float64 d
      by (simp add: read_le_in_bounds fixed_size_def field_bytes_def load_le_map_byte_of)
    then show ?thesis
      using Float64 d plain by (subst v) (simp add: decode_value_def value_float64_def)
  next
    case Boolean
    then obtain b where b: "val_payload v = PBoolean b"
      using parts by (auto simp: value_wf_def)
    have "bytes ! ?off = (if b then 1 else 0)"
      using parts Boolean b slot_nth[OF len slot, of 0] by (simp add: field_bytes_def fixed_size_def)
    then show ?thesis
      using Boolean b plain by (subst v) (simp add: decode_value_def value_boolean_def)
  next
    case String
    then obtain s where s: "val_payload v = PString s" "CHR 0x00 \<notin> set s"
      using parts fits by (auto simp: value_wf_def value_fits_def)
    obtain cap where cap: "lt_capacity (col_type c) = Some cap" "0 < cap" "length s \<le> cap"
      using parts String s by (auto simp: value_wf_def type_wf_def)
    have image: "take cap (drop ?off bytes) = map byte_of_char s @ replicate (cap - length s) 0"
      using slot String cap s type nonnull by (simp add: field_bytes_def fixed_size_def)
    have "take (cap - length s) (drop (?off + length s) bytes) =
        drop (length s) (take cap (drop ?off bytes))"
      by (simp add: drop_take add.commute)
    also have "\<dots> = replicate (cap - length s) 0"
      by (simp only: image) simp
    finally have "bytes_are_zero (take (cap - length s) (drop (?off + length s) bytes))"
      by (simp add: bytes_are_zero_iff)
    then have "decode_value bytes c = value_string s cap"
      using String cap image s by (simp add: decode_value_def read_string_padded)
    also have "\<dots> = Inr v"
      using cap s String by (subst v) (simp add: value_string_def string_type_def)
    finally show ?thesis .
  qed
qed

lemma decode_value_canonical:
  assumes wf: "type_wf (col_type c)" and dec: "decode_value bytes c = Inr v"
    and len: "col_fixed_offset c + fixed_size (col_type c) \<le> length bytes"
  shows "value_fits c v \<and> \<not> is_null v \<and>
    field_bytes v = take (fixed_size (col_type c)) (drop (col_fixed_offset c) bytes)"
proof -
  let ?off = "col_fixed_offset c"
  have plain: "col_type c = plain_type (lt_kind (col_type c))" if "lt_kind (col_type c) \<noteq> String"
    using wf that by (auto simp: type_wf_def plain_type_def)
  have one: "take 1 (drop ?off bytes) = [bytes ! ?off]" if "?off + 1 \<le> length bytes"
    using that by (simp add: take_Suc_conv_app_nth)
  note shapes = value_fits_def value_wf_def is_null_def field_bytes_def plain_type_def
    type_wf_def fixed_size_def
  show ?thesis
  proof (cases "lt_kind (col_type c)")
    case Int8
    with dec have v: "v = \<lparr>val_type = plain_type Int8, val_payload = PInteger (scast (bytes ! ?off))\<rparr>"
      by (simp add: decode_value_def value_int8_def ensure_Inr_iff Let_def)
    show ?thesis
      using plain Int8 one len by (auto simp: v shapes narrow_widen widen_fits)
  next
    case Int16
    with dec len have v: "v = \<lparr>val_type = plain_type Int16, val_payload = PInteger (scast (load_le 2 bytes ?off :: u16))\<rparr>"
      by (simp add: decode_value_def value_int16_def ensure_Inr_iff read_le_in_bounds
          fixed_size_def Let_def)
    show ?thesis
      using plain Int16 len load_slot[of 2 ?off bytes, where ?'a = 16]
      by (auto simp: v shapes narrow_widen widen_fits)
  next
    case Int32
    with dec len have v: "v = \<lparr>val_type = plain_type Int32, val_payload = PInteger (scast (load_le 4 bytes ?off :: u32))\<rparr>"
      by (simp add: decode_value_def value_int32_def ensure_Inr_iff read_le_in_bounds
          fixed_size_def Let_def)
    show ?thesis
      using plain Int32 len load_slot[of 4 ?off bytes, where ?'a = 32]
      by (auto simp: v shapes narrow_widen widen_fits)
  next
    case Int64
    with dec len have v: "v = \<lparr>val_type = plain_type Int64, val_payload = PInteger (load_le 8 bytes ?off)\<rparr>"
      by (simp add: decode_value_def value_int64_def ensure_Inr_iff read_le_in_bounds
          fixed_size_def Let_def)
    show ?thesis
      using plain Int64 len load_slot[of 8 ?off bytes, where ?'a = 64]
      by (auto simp: v shapes narrow_widen widen_fits)
  next
    case Float64
    with dec len have v: "v = \<lparr>val_type = plain_type Float64, val_payload = PFloat (load_le 8 bytes ?off)\<rparr>"
      by (simp add: decode_value_def value_float64_def ensure_Inr_iff read_le_in_bounds
          fixed_size_def Let_def)
    show ?thesis
      using plain Float64 len load_slot[of 8 ?off bytes, where ?'a = 64]
      by (auto simp: v shapes narrow_widen widen_fits)
  next
    case Boolean
    let ?b = "bytes ! ?off"
    have small: "?b = 0 \<or> ?b = 1" if "\<not> ?b > 1"
      using that by (auto simp: word_less_nat_alt word_unat_eq_iff)
    from Boolean dec have "\<not> ?b > 1"
        and v: "v = \<lparr>val_type = plain_type Boolean, val_payload = PBoolean (?b = 1)\<rparr>"
      by (auto simp: decode_value_def value_boolean_def ensure_Inr_iff Let_def)
    with small show ?thesis
      using plain Boolean one len by (auto simp: v shapes)
  next
    case String
    obtain cap where cap: "lt_capacity (col_type c) = Some cap" "0 < cap"
      using wf String by (auto simp: type_wf_def)
    let ?slot = "take cap (drop ?off bytes)"
    let ?s = "read_string ?slot"
    have short: "length ?s \<le> cap"
      using read_string_length[of ?slot] by simp
    have rest: "take (cap - length ?s) (drop (?off + length ?s) bytes) = drop (length ?s) ?slot"
      by (simp add: drop_take add.commute)
    have v: "v = \<lparr>val_type = col_type c, val_payload = PString ?s\<rparr>"
      and zero: "length ?s < cap \<longrightarrow> bytes_are_zero (drop (length ?s) ?slot)"
      using dec String cap
      by (auto simp: decode_value_def value_string_def string_type_def Let_def ensure_Inr_iff rest)
    have "length ?slot = cap"
      using len String cap by (simp add: fixed_size_def)
    then have "drop (length ?s) ?slot = replicate (cap - length ?s) 0"
      using zero short by (cases "length ?s < cap") (simp_all add: bytes_are_zero_iff)
    then have "?slot = map byte_of_char ?s @ replicate (cap - length ?s) 0"
      by (metis append_take_drop_id read_string_prefix)
    then show ?thesis
      using String cap short read_string_no_null[of ?slot] by (auto simp: v shapes)
  qed
qed

section \<open>Decoding rows\<close>

lemma decode_columns_of_image:
  assumes "list_all2 value_fits cs vs" "laid_out off cs"
    and "drop off bytes = concat (map field_bytes vs)" "off \<le> length bytes"
    and "\<And>j. j < length vs \<Longrightarrow> null_bit_set bytes (i + j) \<longleftrightarrow> is_null (vs ! j)"
  shows "check_nulls bytes i cs = Ok \<and> decode_columns bytes i cs = Inr vs"
  using assms
proof (induction arbitrary: off i rule: list_all2_induct)
  case (Cons c cs v vs)
  let ?n = "fixed_size (col_type c)"
  have fits: "value_fits c v" and off: "col_fixed_offset c = off"
    using Cons by auto
  have len_v: "length (field_bytes v) = ?n"
    using fits length_field_bytes by (auto simp: value_fits_def)
  have slot: "take ?n (drop off bytes) = field_bytes v"
    using Cons.prems(2) len_v by simp
  have drop_rest: "drop (off + ?n) bytes = concat (map field_bytes vs)"
    using arg_cong[OF Cons.prems(2), of "drop ?n"] len_v by (simp add: add.commute)
  have "length (drop off bytes) = ?n + length (concat (map field_bytes vs))"
    using arg_cong[OF Cons.prems(2), of length] len_v by simp
  then have fit: "off + ?n \<le> length bytes"
    using Cons.prems(3) by simp
  have "null_bit_set bytes (Suc i + j) \<longleftrightarrow> is_null (vs ! j)" if "j < length vs" for j
    using Cons.prems(4)[of "Suc j"] that by simp
  then have rest: "check_nulls bytes (Suc i) cs = Ok \<and> decode_columns bytes (Suc i) cs = Inr vs"
    using Cons.IH[of "off + ?n" "Suc i"] Cons.prems(1) drop_rest fit by simp
  have bit: "null_bit_set bytes i \<longleftrightarrow> is_null v"
    using Cons.prems(4)[of 0] by simp
  show ?case
  proof (cases "is_null v")
    case True
    then have v: "v = value_null (col_type c)"
      using fits by (auto simp: value_fits_def value_null_def is_null_def)
    have "bytes_are_zero (take ?n (drop off bytes))"
      using True fits unfolding slot
      by (simp add: field_bytes_def value_fits_def bytes_are_zero_iff)
    then show ?thesis
      using True fits bit rest v off by (simp add: value_fits_def)
  next
    case False
    then show ?thesis
      using bit rest decode_value_of_slot[OF fits False] fit off slot by simp
  qed
qed simp

lemma row_image_bits:
  assumes "i < length row"
  shows "null_bit_set (row_image row) i \<longleftrightarrow> is_null (row ! i)"
proof -
  have "i div 8 < (length row + 7) div 8"
    using assms by linarith
  then show ?thesis
    using assms by (simp add: null_bit_set_iff row_image_def nth_append null_bitmap_bits)
qed

lemma bit_unused_mask: "used < 8 \<Longrightarrow> bit (push_bit used (0xFF :: byte)) k \<longleftrightarrow> used \<le> k \<and> k < 8"
  by (simp only: bit_push_bit_iff bit_byte_mask) auto

lemma bitmap_size_mod:
  "(m :: nat) mod 8 \<noteq> 0 \<Longrightarrow> (m + 7) div 8 = m div 8 + 1"
  "(m :: nat) mod 8 = 0 \<Longrightarrow> 8 * ((m + 7) div 8) = m"
proof -
  obtain q r where m: "m = 8 * q + r" "r < 8"
    by (metis mod_less_divisor mult_div_mod_eq zero_less_numeral)
  then have parts: "m div 8 = q" "m mod 8 = r"
    by simp_all
  show "m mod 8 \<noteq> 0 \<Longrightarrow> (m + 7) div 8 = m div 8 + 1"
    unfolding parts using m by (intro div_nat_eqI) (simp_all, arith?)
  show "m mod 8 = 0 \<Longrightarrow> 8 * ((m + 7) div 8) = m"
    unfolding parts using m by simp
qed

lemma check_unused_bits_iff:
  assumes "sch_null_bitmap_size s = (length (sch_columns s) + 7) div 8"
  shows "check_unused_bits s bytes = Ok \<longleftrightarrow>
    (\<forall>k < 8. length (sch_columns s) \<le> 8 * (sch_null_bitmap_size s - 1) + k \<and>
        length (sch_columns s) mod 8 \<noteq> 0 \<longrightarrow>
      \<not> bit (bytes ! (sch_null_bitmap_size s - 1)) k)"
proof -
  let ?m = "length (sch_columns s)"
  let ?last = "bytes ! (sch_null_bitmap_size s - 1)"
  have zero: "?last AND push_bit (?m mod 8) 0xFF = 0 \<longleftrightarrow> (\<forall>k < 8. ?m mod 8 \<le> k \<longrightarrow> \<not> bit ?last k)"
    by (auto simp: bit_eq_iff[where ?'a = byte] bit_and_iff bit_unused_mask)
  have last: "?m \<le> 8 * (sch_null_bitmap_size s - 1) + k \<longleftrightarrow> ?m mod 8 \<le> k" if "?m mod 8 \<noteq> 0" for k
  proof -
    have "(?m + 7) div 8 = ?m div 8 + 1"
      using that by (rule bitmap_size_mod)
    moreover have "?m = 8 * (?m div 8) + ?m mod 8"
      by simp
    ultimately show ?thesis
      using assms by linarith
  qed
  show ?thesis
  proof (cases "?m mod 8 = 0")
    case False
    then show ?thesis
      unfolding check_unused_bits_def Let_def zero ensure_def by (simp add: last del: One_nat_def)
  qed (simp add: check_unused_bits_def)
qed

lemma row_decode_image:
  assumes "schema_wf s" "row_fits s row"
  shows "row_decode s (row_image row) = Inr row"
proof -
  have len: "length (sch_columns s) = length row"
    using assms(2) by (auto simp: row_fits_def dest: list_all2_lengthD)
  have size: "sch_null_bitmap_size s = length (null_bitmap row)"
    using assms(1) len by (simp add: schema_wf_def null_bitmap_bits)
  have columns: "check_nulls (row_image row) 0 (sch_columns s) = Ok \<and>
      decode_columns (row_image row) 0 (sch_columns s) = Inr row"
  proof (rule decode_columns_of_image)
    show "list_all2 value_fits (sch_columns s) row"
      using assms(2) by (simp add: row_fits_def)
    show "laid_out (length (null_bitmap row)) (sch_columns s)"
      using assms(1) by (metis schema_wf_def size)
  qed (simp_all add: row_image_def row_image_bits[unfolded row_image_def])
  have "(length row + 7) div 8 \<noteq> 0" if "row \<noteq> []"
    using that by (cases row) auto
  then have "check_unused_bits s (row_image row) = Ok"
    using assms(1) size len
    by (auto simp: check_unused_bits_iff schema_wf_def row_image_def nth_append null_bitmap_bits)
  then show ?thesis
    using columns length_row_image[OF assms] by (simp add: row_decode_def)
qed

text \<open>The other direction: what \<open>decode\<close> accepts is an image.\<close>

lemma decode_columns_canonical:
  assumes "decode_columns bytes i cs = Inr vs" "check_nulls bytes i cs = Ok" "laid_out off cs"
    and "\<forall>c \<in> set cs. type_wf (col_type c)" "length bytes = off + fields_size cs"
  shows "list_all2 value_fits cs vs \<and> drop off bytes = concat (map field_bytes vs) \<and>
    (\<forall>j < length vs. null_bit_set bytes (i + j) \<longleftrightarrow> is_null (vs ! j))"
  using assms
proof (induction cs arbitrary: i off vs)
  case (Cons c cs)
  let ?n = "fixed_size (col_type c)"
  let ?v = "if null_bit_set bytes i then Inr (value_null (col_type c)) else decode_value bytes c"
  obtain v vs' where vs: "vs = v # vs'" and v: "?v = Inr v"
      and rest: "decode_columns bytes (Suc i) cs = Inr vs'"
    using Cons.prems(1) by (auto simp: bind_result_Inr_iff)
  have off: "col_fixed_offset c = off"
    using Cons.prems(3) by simp
  have checks: "check_nulls bytes (Suc i) cs = Ok"
    using Cons.prems(2) by (auto simp: ensure_Inr_iff split: if_splits)
  have fit: "off + ?n \<le> length bytes" and wf: "type_wf (col_type c)"
    using Cons.prems by auto
  have head: "value_fits c v \<and> field_bytes v = take ?n (drop off bytes) \<and>
      (null_bit_set bytes i \<longleftrightarrow> is_null v)"
  proof (cases "null_bit_set bytes i")
    case True
    then have "v = value_null (col_type c)"
      using v by simp
    moreover have "col_nullable c" "bytes_are_zero (take ?n (drop off bytes))"
      using Cons.prems(2) True off by (simp_all add: ensure_Inr_iff)
    moreover have "length (take ?n (drop off bytes)) = ?n"
      using fit by simp
    ultimately show ?thesis
      using True wf unfolding bytes_are_zero_iff
      by (simp add: value_fits_def value_null_def value_wf_def is_null_def field_bytes_def)
  next
    case False
    then show ?thesis
      using v decode_value_canonical[OF wf, of bytes v] fit off by simp
  qed
  have tail: "list_all2 value_fits cs vs' \<and> drop (off + ?n) bytes = concat (map field_bytes vs') \<and>
      (\<forall>j < length vs'. null_bit_set bytes (Suc i + j) \<longleftrightarrow> is_null (vs' ! j))"
    using Cons.IH[OF rest checks, of "off + ?n"] Cons.prems by simp
  have "drop off bytes = take ?n (drop off bytes) @ drop (off + ?n) bytes"
    by (metis append_take_drop_id drop_drop add.commute)
  then show ?case
    using head tail by (auto simp: vs nth_Cons' less_Suc_eq_0_disj)
qed simp

lemma row_decode_canonical:
  assumes s: "schema_wf s" and dec: "row_decode s bytes = Inr row"
  shows "row_fits s row \<and> bytes = row_image row"
proof -
  let ?nb = "sch_null_bitmap_size s"
  have len: "length bytes = ?nb + fields_size (sch_columns s)"
    and nulls: "check_nulls bytes 0 (sch_columns s) = Ok"
    and unused: "check_unused_bits s bytes = Ok"
    and cols: "decode_columns bytes 0 (sch_columns s) = Inr row"
    using s dec by (auto simp: row_decode_def ensure_Inr_iff bind_result_Inr_iff schema_wf_def)
  have fields: "list_all2 value_fits (sch_columns s) row"
      "drop ?nb bytes = concat (map field_bytes row)"
      "\<And>j. j < length row \<Longrightarrow> null_bit_set bytes j \<longleftrightarrow> is_null (row ! j)"
    using decode_columns_canonical[OF cols nulls, of ?nb] s len by (auto simp: schema_wf_def)
  have count: "length (sch_columns s) = length row"
    using fields(1) by (rule list_all2_lengthD)
  have nb: "?nb = (length row + 7) div 8"
    using s count by (simp add: schema_wf_def)
  have "take ?nb bytes = null_bitmap row"
  proof (rule nth_equalityI)
    show "length (take ?nb bytes) = length (null_bitmap row)"
      using len nb by (simp add: null_bitmap_bits)
    fix j assume "j < length (take ?nb bytes)"
    then have j: "j < ?nb"
      by simp
    have "bit (bytes ! j) k \<longleftrightarrow> 8 * j + k < length row \<and> is_null (row ! (8 * j + k))"
      if k: "k < 8" for k
    proof (cases "8 * j + k < length row")
      case True
      have "(8 * j + k) div 8 = j" "(8 * j + k) mod 8 = k"
        using k by auto
      then show ?thesis
        using True fields(3)[of "8 * j + k"] by (simp add: null_bit_set_iff)
    next
      case False
      have "j = ?nb - 1"
        using False k j nb by linarith
      moreover have "length row mod 8 \<noteq> 0"
        using False k j nb bitmap_size_mod(2)[of "length row"] by linarith
      ultimately show ?thesis
        using unused False k s count by (auto simp: check_unused_bits_iff schema_wf_def)
    qed
    then have "bytes ! j = null_bitmap row ! j"
      using j nb by (auto simp: bit_eq_iff[where ?'a = byte] null_bitmap_bits)
    then show "take ?nb bytes ! j = null_bitmap row ! j"
      using j by simp
  qed
  then have "bytes = row_image row"
    using fields(2) by (metis append_take_drop_id row_image_def)
  then show ?thesis
    using fields(1) by (simp add: row_fits_def)
qed

lemma row_fits_wf: "row_fits s row \<Longrightarrow> \<forall>v \<in> set row. value_wf v"
  by (auto simp: row_fits_def list_all2_conv_all_nth in_set_conv_nth value_fits_def)

section \<open>Row operations\<close>

lemma length_replace_values [simp]: "length (replace_values row ordinals values) = length row"
proof -
  have "length (fold (\<lambda>i vs. vs[ordinals ! i := values ! i]) is row) = length row" for "is"
    by (induction "is" arbitrary: row) auto
  then show ?thesis
    by (simp add: replace_values_def)
qed

lemma replace_values_other:
  assumes "j \<notin> set ordinals"
  shows "replace_values row ordinals values ! j = row ! j"
proof -
  have "fold (\<lambda>i vs. vs[ordinals ! i := values ! i]) is row ! j = row ! j"
    if "set is \<subseteq> {..<length ordinals}" for "is"
    using that
  proof (induction "is" arbitrary: row)
    case (Cons a "is")
    then have "ordinals ! a \<noteq> j"
      using assms by auto
    then show ?case
      using Cons by simp
  qed simp
  then show ?thesis
    by (simp add: replace_values_def lessThan_atLeast0)
qed

lemma replace_values_at:
  assumes "distinct ordinals" "k < length ordinals" "ordinals ! k < length row"
  shows "replace_values row ordinals values ! (ordinals ! k) = values ! k"
proof -
  let ?f = "\<lambda>i vs. vs[ordinals ! i := values ! i]"
  have len: "length (fold ?f is row) = length row" for "is"
    by (induction "is" arbitrary: row) auto
  have "fold ?f [0..<n] row ! (ordinals ! k) = (if k < n then values ! k else row ! (ordinals ! k))"
    if "n \<le> length ordinals" for n
    using that
  proof (induction n)
    case (Suc n)
    have "ordinals ! n = ordinals ! k \<longleftrightarrow> n = k"
      using assms(1,2) Suc.prems by (simp add: nth_eq_iff_index_eq)
    then show ?case
      using Suc assms(3) len[of "[0..<n]"] by (auto simp: less_Suc_eq)
  qed simp
  then show ?thesis
    using assms(2) by (simp add: replace_values_def)
qed

lemma replace_non_primary_key_effect:
  assumes "replace_non_primary_key_values s row ordinals values = Inr row'"
  shows "validate_row_against_schema s row' = Ok" "length row' = length row"
    "\<forall>i. i \<notin> set ordinals \<longrightarrow> row' ! i = row ! i"
    "distinct ordinals \<Longrightarrow> \<forall>k < length ordinals. row' ! (ordinals ! k) = values ! k"
    "primary_key_bytes s row' = primary_key_bytes s row"
proof -
  have facts: "validate_row_against_schema s row = Ok" "validate_row_against_schema s row' = Ok"
      "sch_primary_key_ordinal s \<notin> set ordinals" "\<forall>ord \<in> set ordinals. ord < length row"
      "row' = replace_values row ordinals values"
    using assms
    by (auto simp: replace_non_primary_key_values_def bind_result_Inr_iff ensure_Inr_iff Let_def
        list_ex_iff)
  show "validate_row_against_schema s row' = Ok" "length row' = length row"
    "\<forall>i. i \<notin> set ordinals \<longrightarrow> row' ! i = row ! i"
    "distinct ordinals \<Longrightarrow> \<forall>k < length ordinals. row' ! (ordinals ! k) = values ! k"
    using facts by (simp_all add: replace_values_other replace_values_at)
  show "primary_key_bytes s row' = primary_key_bytes s row"
    using facts by (simp add: primary_key_bytes_def indexed_key_bytes_def replace_values_other)
qed

section \<open>Properties of the rows\<close>

definition sample_columns :: "column list" where
  "sample_columns = [
     \<lparr>col_name = ''id'', col_type = plain_type Int32, col_nullable = False, col_pk = True,
       col_unique = False, col_ordinal = 0, col_fixed_offset = 1\<rparr>,
     \<lparr>col_name = ''name'', col_type = \<lparr>lt_kind = String, lt_capacity = Some 4\<rparr>,
       col_nullable = True, col_pk = False, col_unique = False, col_ordinal = 1,
       col_fixed_offset = 5\<rparr>]"

definition sample_schema :: schema where
  "sample_schema = \<lparr>sch_columns = sample_columns, sch_primary_key_ordinal = 0, sch_row_size = 9,
     sch_null_bitmap_size = 1\<rparr>"

definition sample_row :: "string \<Rightarrow> row" where
  "sample_row name = [\<lparr>val_type = plain_type Int32, val_payload = PInteger (- 7)\<rparr>,
     \<lparr>val_type = \<lparr>lt_kind = String, lt_capacity = Some 4\<rparr>, val_payload = PString name\<rparr>]"

lemma sample_schema_created: "schema_create sample_columns = Inr sample_schema"
  by (simp add: schema_create_def sample_columns_def sample_schema_def fixed_size_def plain_type_def)

lemma sample_types: "\<forall>c \<in> set sample_columns. type_wf (col_type c)"
  by (simp add: sample_columns_def type_wf_def plain_type_def)

lemma sample_row_fits:
  "length name \<le> 4 \<Longrightarrow> CHR 0x00 \<notin> set name \<Longrightarrow> row_fits sample_schema (sample_row name)"
  by (simp add: row_fits_def sample_schema_def sample_columns_def sample_row_def value_fits_def
      value_wf_def type_wf_def plain_type_def is_null_def fits_integer_def)

lemma sample_row_encode:
  "length name \<le> 4 \<Longrightarrow> CHR 0x00 \<notin> set name \<Longrightarrow>
   row_encode sample_schema (sample_row name) = Inr (row_image (sample_row name))"
  using schema_create_wf(1)[OF sample_schema_created sample_types] row_fits_wf[OF sample_row_fits]
  by (intro row_encode_image) (auto intro: sample_row_fits)



text \<open>
  The row format is canonical: a byte string that decodes is the encoding of the row it
  decodes to. Padding, slots of null values and unused bits of the bitmap must be zero and
  booleans 0 or 1, so no two byte strings stand for one row.
\<close>

theorem row_decode_then_encode:
  assumes "schema_create columns = Inr s" "\<forall>c \<in> set columns. type_wf (col_type c)"
    and "row_decode s bytes = Inr row"
  shows "row_encode s row = Inr bytes \<and> validate_row_against_schema s row = Ok"
proof -
  note wf = schema_create_wf(1)[OF assms(1,2)]
  note canonical = row_decode_canonical[OF wf assms(3)]
  show ?thesis
    using row_encode_image[OF wf] validate_row_iff[OF wf] row_fits_wf canonical by auto
qed

theorem row_decode_then_encode_witness:
  "row_encode sample_schema (sample_row ''ab'') = Inr (row_image (sample_row ''ab'')) \<and>
   validate_row_against_schema sample_schema (sample_row ''ab'') = Ok"
  using row_decode_then_encode[OF sample_schema_created sample_types row_decode_image[OF
      schema_create_wf(1)[OF sample_schema_created sample_types] sample_row_fits]]
  by simp

text \<open>
  Replacing values of a row keeps the row valid and its primary key: the new row passes
  validation, has the same key bytes, and differs only at the given ordinals, where it holds
  the given values.
\<close>

theorem replace_keeps_primary_key:
  assumes "replace_non_primary_key_values s row ordinals values = Inr row'" "distinct ordinals"
  shows "validate_row_against_schema s row' = Ok \<and>
    primary_key_bytes s row' = primary_key_bytes s row \<and>
    (\<forall>i. i \<notin> set ordinals \<longrightarrow> row' ! i = row ! i) \<and>
    (\<forall>k < length ordinals. row' ! (ordinals ! k) = values ! k)"
  using replace_non_primary_key_effect[OF assms(1)] assms(2) by blast

theorem replace_keeps_primary_key_witness:
  "\<exists>row'. replace_non_primary_key_values sample_schema (sample_row ''ab'') [1] [sample_row ''cd'' ! 1] =
      Inr row' \<and>
    primary_key_bytes sample_schema row' = primary_key_bytes sample_schema (sample_row ''ab'')"
proof -
  have valid: "validate_row_against_schema sample_schema (sample_row s) = Ok"
    if "length s \<le> 4" "CHR 0x00 \<notin> set s" for s
    using sample_row_encode[OF that] by (auto simp: row_encode_def bind_result_Inr_iff)
  have "replace_values (sample_row ''ab'') [1] [sample_row ''cd'' ! 1] = sample_row ''cd''"
    by (simp add: replace_values_def sample_row_def)
  then have run: "replace_non_primary_key_values sample_schema (sample_row ''ab'') [1]
      [sample_row ''cd'' ! 1] = Inr (sample_row ''cd'')"
    using valid[of "''ab''"] valid[of "''cd''"]
    by (simp add: replace_non_primary_key_values_def Let_def)
      (simp add: sample_schema_def sample_row_def)
  then show ?thesis
    using replace_keeps_primary_key[OF run] by simp
qed

end
