(* ===== verification/PageAccess.thy ===== *)
theory PageAccess
  imports PagerRecovery
begin

text \<open>
  How the B+ tree and the catalog use the pager: a page handle is a local variable, its pin is
  released at the end of its scope, on every way out. \<open>with_page\<close> and \<open>with_mutable_page\<close> are
  such scopes, the second with \<open>mutable_page\<close> called first. The contract of these scopes is
  stated over \<open>page_map\<close>, the bytes of every allocated page as the transaction sees it, and
  over the list of the pins that are held.
\<close>

section \<open>Scopes of page handles\<close>

definition with_page :: "('w, page_pin) pager_action \<Rightarrow> (page_pin \<Rightarrow> ('w, 'a) pager_action) \<Rightarrow>
    ('w, 'a) pager_action" where
  "with_page handle body s =
     (case handle s of
        (s1, Inl e) \<Rightarrow> (s1, Inl e)
      | (s1, Inr pin) \<Rightarrow>
          (case body pin s1 of (s2, r) \<Rightarrow> (fst (release_pin pin s2), r)))"

definition with_mutable_page :: "('w, page_pin) pager_action \<Rightarrow> (page_pin \<Rightarrow> ('w, 'a) pager_action) \<Rightarrow>
    ('w, 'a) pager_action" where
  "with_mutable_page handle body s =
     (case handle s of
        (s1, Inl e) \<Rightarrow> (s1, Inl e)
      | (s1, Inr pin) \<Rightarrow>
          (case handle_mark_dirty pin s1 of
             (s2, Inl e) \<Rightarrow> (fst (release_pin pin s2), Inl e)
           | (s2, Inr pin') \<Rightarrow>
               (case body pin' s2 of (s3, r) \<Rightarrow> (fst (release_pin pin' s3), r))))"

text \<open>The bytes behind a handle, a result computed from them, and a store of new bytes.\<close>

definition pin_bytes :: "page_pin \<Rightarrow> 'w pager \<times> 'w \<Rightarrow> bytes" where
  "pin_bytes pin s = pg_data (pin_page_value pin (pr_bpm (fst s)))"

definition read_page :: "page_pin \<Rightarrow> (bytes \<Rightarrow> 'a result) \<Rightarrow> ('w, 'a) pager_action" where
  "read_page pin f s = (s, f (pin_bytes pin s))"

definition edit_page :: "page_pin \<Rightarrow> (bytes \<Rightarrow> bytes result) \<Rightarrow> ('w, unit) pager_action" where
  "edit_page pin f s =
     (case f (pin_bytes pin s) of
        Inl e \<Rightarrow> (s, Inl e)
      | Inr data \<Rightarrow> modify_pager (\<lambda>pr. pr\<lparr>pr_bpm := pin_write pin data (pr_bpm pr)\<rparr>) s)"

definition pin_page_id :: "page_pin \<Rightarrow> ('w, page_id) pager_action" where
  "pin_page_id pin = get_pager (\<lambda>pr. pg_id (pin_page_value pin (pr_bpm pr)))"

section \<open>Held pins\<close>

definition pin_count :: "(page_id \<times> page_pin) list \<Rightarrow> page_id \<Rightarrow> nat" where
  "pin_count held p = length (filter (\<lambda>h. fst h = p) held)"

definition pool_pins :: "(page_id \<times> page_pin) list \<Rightarrow> buffer_pool \<Rightarrow> bool" where
  "pool_pins held b \<longleftrightarrow>
     (\<forall>(p, pin) \<in> set held. pp_owns_pin pin \<and> bp_page_frames b p = Some (pp_frame pin)) \<and>
     (\<forall>p fr. lc_frames (pool_abs b) p = Some fr \<longrightarrow> unat (bf_pin_count fr) = pin_count held p)"

lemma pin_count_simps [simp]:
  "pin_count [] p = 0"
  "pin_count ((q, pin) # held) p = (if q = p then Suc (pin_count held p) else pin_count held p)"
  by (simp_all add: pin_count_def)

lemma pin_count_le: "pin_count held p \<le> length held"
  by (simp add: pin_count_def)

lemma unpin_keeps_table [simp]: "bp_page_frames (fst (unpin_page p d b)) = bp_page_frames b"
  by (auto simp: unpin_page_def find_frame_def bind_action_def on_lru_def set_frame_def Let_def
      split: option.splits sum.splits prod.splits)

lemma release_keeps_table [simp]: "bp_page_frames (snd (pin_release pin b)) = bp_page_frames b"
  by (simp add: pin_release_def)

lemma pin_write_keeps_table [simp]: "bp_page_frames (pin_write pin d b) = bp_page_frames b"
  by (simp add: pin_write_def set_frame_def)

lemma held_frame:
  assumes "pool_pins held b" "(p, pin) \<in> set held"
  shows "bp_page_frames b p = Some (pp_frame pin)" "pp_owns_pin pin"
    "lc_frames (pool_abs b) p = Some (bp_frames b ! pp_frame pin)"
  using assms by (auto simp: pool_pins_def pool_abs_def)

lemma held_pinned:
  assumes "pool_pins held b" "(p, pin) \<in> set held" "lc_frames (pool_abs b) p = Some fr"
  shows "bf_pin_count fr \<noteq> 0" "\<not> frame_evictable fr"
proof -
  have "pin_count held p \<noteq> 0"
    using assms(2) by (force simp: pin_count_def filter_empty_conv)
  then have "unat (bf_pin_count fr) \<noteq> 0"
    using assms(1,3) by (auto simp: pool_pins_def)
  then show "bf_pin_count fr \<noteq> 0" by auto
  then show "\<not> frame_evictable fr" by (simp add: frame_evictable_def)
qed

lemma unat_pin:
  assumes "unat c < 2 ^ 32 - 1"
  shows "unat (c + 1) = Suc (unat (c :: 32 word))"
proof -
  have "c \<noteq> 0xFFFFFFFF" using assms by auto
  then have "1 + c \<noteq> 0" by (metis add.commute pin_wraps)
  from unatSuc[OF this] show ?thesis by (simp add: add.commute)
qed

text \<open>Pinning a cached page, releasing a pin, caching a page, storing through a pin.\<close>

lemma get_cached_pins:
  assumes "pool_ok b" "pool_pins held b" "length held < 2 ^ 32 - 1" "lc_frames (pool_abs b) p = Some fr"
  shows "\<exists>b1 pin. pool_get_page p b = (b1, Inr pin) \<and> pool_ok b1 \<and> pool_pins ((p, pin) # held) b1 \<and>
    \<not> pp_is_dirty pin \<and> lc_frames (pool_abs b1) = (lc_frames (pool_abs b))(p \<mapsto> frame_pin fr)"
proof -
  have count: "unat (bf_pin_count fr) = pin_count held p"
    using assms(2,4) by (simp add: pool_pins_def)
  then have small: "unat (bf_pin_count fr) < 2 ^ 32 - 1"
    using assms(3) pin_count_le[of held p] by simp
  then have "bf_pin_count fr \<noteq> 0xFFFFFFFF" by auto
  from pool_get_page_cached[OF assms(1,4) this] obtain b1 pin where
    g: "pool_get_page p b = (b1, Inr pin)" "pool_ok b1" "pp_owns_pin pin" "\<not> pp_is_dirty pin"
      "bp_page_frames b1 p = Some (pp_frame pin)"
      "pool_abs b1 = (pool_abs b)\<lparr>lc_frames := (lc_frames (pool_abs b))(p \<mapsto> frame_pin fr),
        lc_order := removeAll p (lc_order (pool_abs b))\<rparr>" by blast
  obtain f where f: "bp_page_frames b p = Some f"
    using assms(4) by (auto simp: pool_abs_def)
  then have "bp_page_frames b1 = bp_page_frames b"
    using pool_get_page_pin(1)[OF g(1) f] pool_table_frame(5)[OF pool_ok_table[OF assms(1)] f] by blast
  moreover have "unat (bf_pin_count (frame_pin fr)) = Suc (pin_count held p)"
    using unat_pin[OF small] count by (simp add: frame_pin_def)
  ultimately have "pool_pins ((p, pin) # held) b1"
    using assms(2) g(3,5) by (auto simp: pool_pins_def g(6))
  with g show ?thesis by simp
qed

lemma release_pins:
  assumes "pool_ok b" "pool_pins ((p, pin) # held) b" "lc_frames (pool_abs b) p = Some fr"
  defines "b' \<equiv> snd (pin_release pin b)"
  shows "pool_ok b'" "pool_pins held b'"
    "lc_frames (pool_abs b') = (lc_frames (pool_abs b))(p \<mapsto> fr\<lparr>bf_pin_count := bf_pin_count fr - 1,
      bf_is_dirty := bf_is_dirty fr \<or> pp_is_dirty pin\<rparr>)"
proof -
  have h: "bp_page_frames b p = Some (pp_frame pin)" "pp_owns_pin pin"
    "lc_frames (pool_abs b) p = Some (bp_frames b ! pp_frame pin)"
    using held_frame[OF assms(2), of p pin] by simp_all
  have p: "p \<noteq> INVALID_PAGE_ID"
    using cached_not_invalid[OF assms(1,3)] .
  note r = pin_release_implements[OF assms(1) h(1,2)]
  have count: "unat (bf_pin_count fr) = Suc (pin_count held p)"
    using assms(2,3) by (simp add: pool_pins_def)
  then have nz: "bf_pin_count fr \<noteq> 0" by auto
  show "pool_ok b'" using r(1) by (simp add: b'_def)
  show frames: "lc_frames (pool_abs b') = (lc_frames (pool_abs b))(p \<mapsto> fr\<lparr>bf_pin_count := bf_pin_count fr - 1,
      bf_is_dirty := bf_is_dirty fr \<or> pp_is_dirty pin\<rparr>)"
    unfolding b'_def r(2) using assms(3) p nz
    by (simp add: spec_unpin_page_def spec_on_def spec_find_def Let_def)
  have "unat (bf_pin_count fr - 1) = pin_count held p"
    using nz count by (simp add: unat_minus_one)
  moreover have "bp_page_frames b' = bp_page_frames b" by (simp add: b'_def)
  moreover have "\<forall>(q, pn) \<in> set held. pp_owns_pin pn \<and> bp_page_frames b q = Some (pp_frame pn)"
    "\<And>q fq. lc_frames (pool_abs b) q = Some fq \<Longrightarrow> q \<noteq> p \<Longrightarrow> unat (bf_pin_count fq) = pin_count held q"
    using assms(2) by (simp_all add: pool_pins_def)
  ultimately show "pool_pins held b'"
    unfolding pool_pins_def frames by auto
qed

lemma cache_pins:
  assumes "pool_ok b" "pool_pins held b" "pin_count held (pg_id page) = 0"
    and "pool_cache_page page b = (b', r)"
  shows "pool_ok b'" and "r = Inl e \<Longrightarrow> b' = b"
    and "r = Inr pin \<Longrightarrow> pool_pins ((pg_id page, pin) # held) b' \<and> \<not> pp_is_dirty pin \<and>
      lc_frames (pool_abs b) (pg_id page) = None \<and> pg_id page \<noteq> INVALID_PAGE_ID \<and>
      (\<exists>v. (\<forall>fr. lc_frames (pool_abs b) v = Some fr \<longrightarrow> frame_evictable fr) \<and>
        lc_frames (pool_abs b') = (lc_frames (pool_abs b))(v := None,
          pg_id page \<mapsto> \<lparr>bf_page = page, bf_pin_count = 1, bf_is_dirty = False\<rparr>))"
proof -
  show "pool_ok b'"
    using implementsD(1)[OF pool_cache_page_implements[OF assms(1)], of page] assms(4) by simp
  show "r = Inl e \<Longrightarrow> b' = b"
  proof -
    assume "r = Inl e"
    then have e: "pool_cache_page page b = (b', Inl e)" using assms(4) by simp
    show "b' = b"
      using assms(1)
    proof (cases rule: choose_frame_cases)
      case full
      with e show ?thesis by (auto simp: pool_cache_page_def bind_action_def split: if_splits)
    next
      case (free f)
      with e show ?thesis by (auto simp: pool_cache_page_def bind_action_def Let_def split: if_splits)
    next
      case (victim l f)
      with e show ?thesis by (auto simp: pool_cache_page_def bind_action_def Let_def split: if_splits)
    qed
  qed
  assume r: "r = Inr pin"
  have new: "pg_id page \<noteq> INVALID_PAGE_ID" "bp_page_frames b (pg_id page) = None"
    using assms(4) r by (auto simp: pool_cache_page_def split: if_splits)
  then obtain b1 f where c: "choose_frame b = (b1, Inr f)"
    using assms(4) r by (auto simp: pool_cache_page_def bind_action_def split: prod.splits sum.splits)
  note ce = choose_frame_effect[OF assms(1) c]
  have t: "pool_table b" using assms(1) by (simp add: pool_ok_def)
  then have "f < length (bp_frames b1)" using ce by (simp add: pool_table_def)
  from pool_cache_page_load[OF new c this] have b': "b' = load_frame page f b1"
    and pin: "pin = \<lparr>pp_frame = f, pp_is_dirty = False, pp_owns_pin = True\<rparr>"
    using assms(4) r by simp_all
  let ?v = "frame_page_id b f"
  have frames: "lc_frames (pool_abs b') = (lc_frames (pool_abs b))(?v := None,
      pg_id page \<mapsto> \<lparr>bf_page = page, bf_pin_count = 1, bf_is_dirty = False\<rparr>)"
    using load_frame_abs[OF assms(1) c, of page] by (simp add: b')
  have victim: "frame_evictable fr" if v: "lc_frames (pool_abs b) ?v = Some fr" for fr
  proof -
    obtain g where g: "bp_page_frames b ?v = Some g" "fr = bp_frames b ! g"
      using v by (auto simp: pool_abs_def)
    note tf = pool_table_frame[OF t g(1)]
    show ?thesis
    proof (cases "f \<in> set (bp_free_frame_ids b)")
      case True
      then have "bp_frames b ! f = frame_new" using t by (simp add: pool_table_def)
      then have "?v = INVALID_PAGE_ID" by (simp add: frame_page_id_def frame_new_def)
      with tf(5) show ?thesis by simp
    next
      case False
      then have "bp_page_frames b ?v = Some f"
        using pool_table_page[OF t] ce by blast
      with g have fr: "fr = bp_frames b ! f" by simp
      have "f \<in> set (lru_frames (bp_lru b))"
        using assms(1)
      proof (cases rule: choose_frame_cases)
        case full
        with c show ?thesis by simp
      next
        case (free h)
        have "f = h" using c free(1) by simp
        moreover have "h \<in> set (bp_free_frame_ids b)" by (subst free(2)) simp
        ultimately show ?thesis using False by simp
      next
        case (victim l h)
        then show ?thesis using c by simp
      qed
      then show ?thesis
        using assms(1) ce False fr by (auto simp: pool_ok_def)
    qed
  qed
  have other: "p \<noteq> ?v \<and> p \<noteq> pg_id page" if "(p, q) \<in> set held" for p q
  proof -
    have "p \<noteq> ?v"
      using held_frame(3)[OF assms(2) that] held_pinned(2)[OF assms(2) that] victim by blast
    moreover have "p \<noteq> pg_id page"
      using assms(3) that by (force simp: pin_count_def filter_empty_conv)
    ultimately show ?thesis by simp
  qed
  have table: "bp_page_frames b' = (bp_page_frames b)(?v := None, pg_id page \<mapsto> f)"
    using ce by (simp add: b' load_frame_def frame_page_id_def)
  have "pool_pins ((pg_id page, pin) # held) b'"
    using assms(2,3) other unfolding pool_pins_def frames table pin by auto
  with new frames victim pin show "pool_pins ((pg_id page, pin) # held) b' \<and> \<not> pp_is_dirty pin \<and>
      lc_frames (pool_abs b) (pg_id page) = None \<and> pg_id page \<noteq> INVALID_PAGE_ID \<and>
      (\<exists>v. (\<forall>fr. lc_frames (pool_abs b) v = Some fr \<longrightarrow> frame_evictable fr) \<and>
        lc_frames (pool_abs b') = (lc_frames (pool_abs b))(v := None,
          pg_id page \<mapsto> \<lparr>bf_page = page, bf_pin_count = 1, bf_is_dirty = False\<rparr>))"
    by (auto simp: pool_abs_def)
qed

lemma write_pins:
  assumes "pool_ok b" "pool_pins held b" "(p, pin) \<in> set held" "lc_frames (pool_abs b) p = Some fr"
  shows "pool_ok (pin_write pin d b)" "pool_pins held (pin_write pin d b)"
    "lc_frames (pool_abs (pin_write pin d b)) =
      (lc_frames (pool_abs b))(p \<mapsto> fr\<lparr>bf_page := \<lparr>pg_id = p, pg_data = d\<rparr>\<rparr>)"
proof -
  note h = held_frame[OF assms(2,3)]
  note w = pin_write_ok[OF assms(1) h(1), of d]
  show "pool_ok (pin_write pin d b)" by (rule w(1))
  show frames: "lc_frames (pool_abs (pin_write pin d b)) =
      (lc_frames (pool_abs b))(p \<mapsto> fr\<lparr>bf_page := \<lparr>pg_id = p, pg_data = d\<rparr>\<rparr>)"
    using w(2) h(3) assms(4) by simp
  show "pool_pins held (pin_write pin d b)"
    using assms(2,4) unfolding pool_pins_def frames by auto
qed

section \<open>The pages as a transaction sees them\<close>

definition page_map :: "bytes \<Rightarrow> wal_txn list \<Rightarrow> 'w pager \<times> 'w \<Rightarrow> page_id \<rightharpoonup> bytes" where
  "page_map db txns s p =
     (if p = HEADER_PAGE_ID \<or> dh_page_count (pr_header (fst s)) \<le> p then None
      else Some (case frames_of (fst s) p of
          Some fr \<Rightarrow> pg_data (bf_page fr)
        | None \<Rightarrow> page_view db (log_pages txns) p))"

text \<open>
  The state between two operations: the files, the pool and the held pins agree, and a cached
  page that nobody has changed shows what is committed, so it can be evicted.
\<close>

definition pages_ok :: "('w \<Rightarrow> path \<Rightarrow> bytes option) \<Rightarrow> wal_txn list \<Rightarrow> bytes \<Rightarrow>
    (page_id \<times> page_pin) list \<Rightarrow> 'w pager \<times> 'w \<Rightarrow> bool" where
  "pages_ok content txns db held s \<longleftrightarrow>
     pager_files content txns db (fst s) (snd s) \<and>
     pool_ok (pr_bpm (fst s)) \<and> pool_pins held (pr_bpm (fst s)) \<and>
     0 < dh_page_count (pr_header (fst s)) \<and>
     (\<forall>p fr. frames_of (fst s) p = Some fr \<longrightarrow> page_wf (bf_page fr)) \<and>
     (\<forall>p fr. frames_of (fst s) p = Some fr \<longrightarrow> p < dh_page_count (pr_header (fst s)) \<longrightarrow>
        \<not> bf_is_dirty fr \<longrightarrow> (\<forall>pin. (p, pin) \<in> set held \<longrightarrow> \<not> pp_is_dirty pin) \<longrightarrow>
        pg_data (bf_page fr) = page_view db (log_pages txns) p)"

lemma pager_files_bpm [simp]:
  "pager_files content txns db (pr\<lparr>pr_bpm := b\<rparr>) w = pager_files content txns db pr w"
  "pager_files content txns db (pr\<lparr>pr_tx := t\<rparr>) w = pager_files content txns db pr w"
  "pager_files content txns db (pr\<lparr>pr_header := h\<rparr>) w = pager_files content txns db pr w"
  by (simp_all add: pager_files_def)

lemma pager_files_content:
  "content w' = content w \<Longrightarrow> pager_files content txns db pr w' = pager_files content txns db pr w"
  by (simp add: pager_files_def)

lemma frames_of_simps [simp]:
  "frames_of (pr\<lparr>pr_bpm := b\<rparr>) = lc_frames (pool_abs b)"
  "frames_of (pr\<lparr>pr_tx := t\<rparr>) = frames_of pr"
  "frames_of (pr\<lparr>pr_header := h\<rparr>) = frames_of pr"
  by (simp_all add: frames_of_def)

lemma pages_ok_tx [simp]:
  "pages_ok content txns db held (pr\<lparr>pr_tx := t\<rparr>, w) = pages_ok content txns db held (pr, w)"
  "page_map db txns (pr\<lparr>pr_tx := t\<rparr>, w) = page_map db txns (pr, w)"
  by (simp_all add: pages_ok_def page_map_def fun_eq_iff)

text \<open>A change of the pool that keeps the frames is not seen.\<close>

lemma pages_ok_bpm:
  assumes "pages_ok content txns db held (pr, w)" "pool_ok b" "pool_pins held' b"
    and "lc_frames (pool_abs b) = frames_of pr"
    and "\<And>p pin. (p, pin) \<in> set held \<Longrightarrow> pp_is_dirty pin \<Longrightarrow> \<exists>pin'. (p, pin') \<in> set held' \<and> pp_is_dirty pin'"
  shows "pages_ok content txns db held' (pr\<lparr>pr_bpm := b\<rparr>, w)"
    and "page_map db txns (pr\<lparr>pr_bpm := b\<rparr>, w) = page_map db txns (pr, w)"
proof -
  show "pages_ok content txns db held' (pr\<lparr>pr_bpm := b\<rparr>, w)"
    using assms(1-4) assms(5) unfolding pages_ok_def by simp blast
  show "page_map db txns (pr\<lparr>pr_bpm := b\<rparr>, w) = page_map db txns (pr, w)"
    using assms(4) by (simp add: page_map_def fun_eq_iff)
qed

lemma held_page_value:
  assumes "pages_ok content txns db held s" "(p, pin) \<in> set held" "page_map db txns s p = Some d"
  shows "pin_page_value pin (pr_bpm (fst s)) = \<lparr>pg_id = p, pg_data = d\<rparr>" "pin_bytes pin s = d"
    "length d = PAGE_SIZE"
proof -
  have pins: "pool_pins held (pr_bpm (fst s))" "pool_ok (pr_bpm (fst s))"
    using assms(1) by (simp_all add: pages_ok_def)
  note h = held_frame[OF pins(1) assms(2)]
  let ?fr = "bp_frames (pr_bpm (fst s)) ! pp_frame pin"
  have fr: "frames_of (fst s) p = Some ?fr" using h(3) by (simp add: frames_of_def)
  have "pg_id (bf_page ?fr) = p" using cached_page_id[OF pins(2) h(3)] .
  moreover have "pg_data (bf_page ?fr) = d"
    using assms(3) fr by (simp add: page_map_def split: if_splits)
  ultimately show "pin_page_value pin (pr_bpm (fst s)) = \<lparr>pg_id = p, pg_data = d\<rparr>" "pin_bytes pin s = d"
    by (simp_all add: pin_page_value_def pin_bytes_def)
  have "page_wf (bf_page ?fr)" using assms(1) fr by (auto simp: pages_ok_def)
  then show "length d = PAGE_SIZE"
    using \<open>pg_data (bf_page ?fr) = d\<close> by (simp add: page_wf_def)
qed

section \<open>The contract of the calls\<close>

context win32_files
begin

lemma load_page_value:
  assumes "load_page os p s = (s1, r)" "pager_files content txns db (fst s) (snd s)"
    and "p \<noteq> INVALID_PAGE_ID" "p \<noteq> HEADER_PAGE_ID"
  shows "fst s1 = fst s" "content (snd s1) = content (snd s)"
    and "r = Inr page \<Longrightarrow> page = \<lparr>pg_id = p, pg_data = page_view db (log_pages txns) p\<rparr> \<and> page_wf page"
proof -
  let ?pr = "fst s"
  have db: "content (snd s) (fh_path (dm_file (pr_disk ?pr))) = Some db"
    and view: "page_view db (map_of (pr_recovered ?pr)) p = page_view db (log_pages txns) p"
    and rec: "recovered_ok (pr_recovered ?pr)"
    using assms(2,4) by (auto simp: pager_files_def)
  have "fst s1 = ?pr \<and> content (snd s1) = content (snd s) \<and> (r = Inr page \<longrightarrow>
      page = \<lparr>pg_id = p, pg_data = page_view db (log_pages txns) p\<rparr> \<and> page_wf page)"
  proof (cases "map_of (pr_recovered ?pr) p")
    case None
    then have "disk_read_page os (pr_disk ?pr) p (snd s) = (snd s1, r)" "fst s1 = ?pr"
      using assms(1) by (auto simp: load_page_def get_pager_def bind_action_def on_disk_def
          split: prod.splits)
    then show ?thesis
      using disk_read_page_effect[OF _ db, of p "snd s1"] None view
      by (auto simp: page_view_def page_wf_def)
  next
    case (Some pg)
    then have "s1 = s" "r = Inr pg"
      using assms(1) by (auto simp: load_page_def get_pager_def bind_action_def)
    moreover have "pg_id pg = p" "page_wf pg"
      using rec map_of_SomeD[OF Some] by (auto simp: recovered_ok_def)
    ultimately show ?thesis
      using Some view by (auto simp: page_view_def)
  qed
  then show "fst s1 = fst s" "content (snd s1) = content (snd s)"
    "r = Inr page \<Longrightarrow> page = \<lparr>pg_id = p, pg_data = page_view db (log_pages txns) p\<rparr> \<and> page_wf page"
    by blast+
qed

lemma get_page_contract:
  assumes "pager_get_page os p s = (s', r)" "pages_ok content txns db held s" "length held < 2 ^ 32 - 1"
  shows "page_map db txns s' = page_map db txns s" "r = Inl e \<Longrightarrow> pages_ok content txns db held s'"
    and "r = Inr pin \<Longrightarrow> pages_ok content txns db ((p, pin) # held) s' \<and> \<not> pp_is_dirty pin"
proof -
  obtain pr w where s: "s = (pr, w)" by (metis surj_pair)
  note ok = assms(2)[unfolded s]
  have pool: "pool_ok (pr_bpm pr)" "pool_pins held (pr_bpm pr)"
    using ok by (simp_all add: pages_ok_def)
  have "page_map db txns s' = page_map db txns s \<and> (r = Inl e \<longrightarrow> pages_ok content txns db held s') \<and>
    (r = Inr pin \<longrightarrow> pages_ok content txns db ((p, pin) # held) s' \<and> \<not> pp_is_dirty pin)"
  proof (cases "pr_closed pr \<or> p = INVALID_PAGE_ID \<or> p = HEADER_PAGE_ID")
    case True
    then have "s' = s" "r = Inl InvalidArgument"
      using assms(1) s by (auto simp: pager_get_page_def pager_action_defs split: if_splits)
    with assms(2) show ?thesis by simp
  next
    case False
    show ?thesis
    proof (cases "frames_of pr p")
      case (Some fr)
      then have fr: "lc_frames (pool_abs (pr_bpm pr)) p = Some fr" by (simp add: frames_of_def)
      from get_cached_pins[OF pool assms(3) fr] obtain b pin' where
        g: "pool_get_page p (pr_bpm pr) = (b, Inr pin')" "pool_ok b" "pool_pins ((p, pin') # held) b"
          "\<not> pp_is_dirty pin'" "lc_frames (pool_abs b) = (lc_frames (pool_abs (pr_bpm pr)))(p \<mapsto> frame_pin fr)"
        by blast
      have res: "s' = (pr\<lparr>pr_bpm := b\<rparr>, w)" "r = Inr pin'"
        using assms(1) False g(1) by (simp_all add: s pager_get_page_def pager_action_defs)
      have same: "bf_page (frame_pin fr) = bf_page fr" "bf_is_dirty (frame_pin fr) = bf_is_dirty fr"
        by (simp_all add: frame_pin_def)
      have "pages_ok content txns db ((p, pin') # held) (pr\<lparr>pr_bpm := b\<rparr>, w)"
        using ok g(2,3,4) fr unfolding pages_ok_def by (auto simp: g(5) same frames_of_def)
      moreover have "page_map db txns (pr\<lparr>pr_bpm := b\<rparr>, w) = page_map db txns (pr, w)"
        using fr by (auto simp: page_map_def fun_eq_iff g(5) same frames_of_def)
      ultimately show ?thesis using res g(4) s by auto
    next
      case None
      then have none: "lc_frames (pool_abs (pr_bpm pr)) p = None" by (simp add: frames_of_def)
      then have "bp_page_frames (pr_bpm pr) p = None" by (simp add: pool_abs_def)
      then have "find_frame p (pr_bpm pr) = (pr_bpm pr, Inl NotFound)"
        using False by (simp add: find_frame_def)
      then have miss: "on_bpm (pool_get_page p) s = (s, Inl NotFound)"
        by (simp add: s on_bpm_def pool_get_page_def bind_action_def)
      then have run: "bind_action (load_page os p) (\<lambda>page. on_bpm (pool_cache_page page)) s = (s', r)"
        using assms(1) False by (simp add: s pager_get_page_def pager_action_defs)
      obtain s1 r1 where load: "load_page os p s = (s1, r1)" by (metis surj_pair)
      have files: "pager_files content txns db (fst s) (snd s)"
        using ok s by (simp add: pages_ok_def)
      note lp = load_page_value[OF load files]
      have s1: "s1 = (pr, snd s1)" "content (snd s1) = content w"
        using lp(1,2) False s by (metis fst_conv prod.collapse, simp add: s)
      have ok1: "pages_ok content txns db held (pr, snd s1)"
        using ok pager_files_content[OF s1(2)] by (simp add: pages_ok_def)
      have map1: "page_map db txns (pr, snd s1) = page_map db txns s"
        by (simp add: page_map_def s fun_eq_iff)
      show ?thesis
      proof (cases r1)
        case (Inl e')
        then have "s' = s1" "r = Inl e'" using run load by (simp_all add: bind_action_def)
        with s1 ok1 map1 show ?thesis by simp
      next
        case (Inr page)
        note pg = lp(3)[OF _ _ Inr]
        have page: "page = \<lparr>pg_id = p, pg_data = page_view db (log_pages txns) p\<rparr>" "page_wf page"
          using pg False by blast+
        obtain b r2 where cache: "pool_cache_page page (pr_bpm pr) = (b, r2)" by (metis surj_pair)
        have res: "s' = (pr\<lparr>pr_bpm := b\<rparr>, snd s1)" "r = r2"
        proof -
          have "fst s1 = pr" using s1(1) by (metis fst_conv)
          then show "s' = (pr\<lparr>pr_bpm := b\<rparr>, snd s1)" "r = r2"
            using run load Inr cache by (auto simp: bind_action_def on_bpm_def split: prod.splits)
        qed
        have id: "pg_id page = p" using page(1) by simp
        have nopins: "pin_count held (pg_id page) = 0"
          using none held_frame(3)[OF pool(2)] by (fastforce simp: pin_count_def filter_empty_conv id)
        note c = cache_pins[OF pool nopins cache]
        show ?thesis
        proof (cases r2)
          case (Inl e')
          then have "b = pr_bpm pr" using c(2) by simp
          then have "s' = (pr, snd s1)" using res by simp
          with ok1 map1 res Inl show ?thesis by simp
        next
          case (Inr pin')
          from c(3)[OF Inr] obtain v where
            v: "\<forall>fr. lc_frames (pool_abs (pr_bpm pr)) v = Some fr \<longrightarrow> frame_evictable fr"
              "lc_frames (pool_abs b) = (lc_frames (pool_abs (pr_bpm pr)))(v := None,
                p \<mapsto> \<lparr>bf_page = page, bf_pin_count = 1, bf_is_dirty = False\<rparr>)"
              and pins: "pool_pins ((p, pin') # held) b" "\<not> pp_is_dirty pin'"
            using id by auto
          have frames: "frames_of (pr\<lparr>pr_bpm := b\<rparr>) q = (if q = p then
              Some \<lparr>bf_page = page, bf_pin_count = 1, bf_is_dirty = False\<rparr>
              else if q = v then None else frames_of pr q)" for q
            by (simp add: v(2)) (simp add: frames_of_def)
          have evicted: "pg_data (bf_page fr) = page_view db (log_pages txns) v"
            if "frames_of pr v = Some fr" "v < dh_page_count (pr_header pr)" for fr
          proof -
            have e: "frame_evictable fr" using that(1) v(1) by (simp add: frames_of_def)
            then have "(v, pin'') \<notin> set held" for pin''
              using held_pinned(2)[OF pool(2)] that(1) by (auto simp: frames_of_def)
            then show ?thesis
              using ok that e by (auto simp: pages_ok_def frame_evictable_def)
          qed
          have "pages_ok content txns db ((p, pin') # held) (pr\<lparr>pr_bpm := b\<rparr>, snd s1)"
            using ok1 c(1) pins page unfolding pages_ok_def fst_conv snd_conv frames by auto
          moreover have "page_map db txns (pr\<lparr>pr_bpm := b\<rparr>, snd s1) = page_map db txns (pr, w)"
            using none evicted page unfolding page_map_def fst_conv frames
            by (auto simp: fun_eq_iff frames_of_def split: option.splits)
          ultimately show ?thesis using res Inr pins(2) s by auto
        qed
      qed
    qed
  qed
  then show "page_map db txns s' = page_map db txns s" "r = Inl e \<Longrightarrow> pages_ok content txns db held s'"
    "r = Inr pin \<Longrightarrow> pages_ok content txns db ((p, pin) # held) s' \<and> \<not> pp_is_dirty pin"
    by blast+
qed

end

lemma release_contract:
  assumes "pages_ok content txns db ((p, pin) # held) s"
  shows "pages_ok content txns db held (fst (release_pin pin s))"
    and "page_map db txns (fst (release_pin pin s)) = page_map db txns s"
proof -
  obtain pr w where s: "s = (pr, w)" by (metis surj_pair)
  note ok = assms[unfolded s]
  have pool: "pool_ok (pr_bpm pr)" "pool_pins ((p, pin) # held) (pr_bpm pr)"
    using ok by (simp_all add: pages_ok_def)
  obtain fr where fr: "lc_frames (pool_abs (pr_bpm pr)) p = Some fr"
    using held_frame(3)[OF pool(2), of p pin] by simp
  let ?b = "snd (pin_release pin (pr_bpm pr))"
  note r = release_pins[OF pool fr]
  have same: "bf_page (fr\<lparr>bf_pin_count := c, bf_is_dirty := d\<rparr>) = bf_page fr" for c d by simp
  have "pages_ok content txns db held (pr\<lparr>pr_bpm := ?b\<rparr>, w)"
    using ok r(1,2) fr unfolding pages_ok_def by (auto simp: r(3) same frames_of_def)
  moreover have "page_map db txns (pr\<lparr>pr_bpm := ?b\<rparr>, w) = page_map db txns (pr, w)"
    using fr by (auto simp: page_map_def fun_eq_iff r(3) same frames_of_def)
  ultimately show "pages_ok content txns db held (fst (release_pin pin s))"
    "page_map db txns (fst (release_pin pin s)) = page_map db txns s"
    by (simp_all add: s release_pin_def)
qed

lemma mark_dirty_contract:
  assumes "pager_mark_dirty p s = (s', r)" "pages_ok content txns db held s" "length held < 2 ^ 32 - 1"
    and "p = HEADER_PAGE_ID \<or> frames_of (fst s) p \<noteq> None"
  shows "pages_ok content txns db held s'" "page_map db txns s' = page_map db txns s"
    "pr_header (fst s') = pr_header (fst s)" "frames_of (fst s') = frames_of (fst s)"
proof -
  obtain pr w where s: "s = (pr, w)" by (metis surj_pair)
  note ok = assms(2)[unfolded s]
  have pool: "pool_ok (pr_bpm pr)" "pool_pins held (pr_bpm pr)"
    using ok by (simp_all add: pages_ok_def)
  have "(\<exists>t. s' = (pr\<lparr>pr_tx := t\<rparr>, w)) \<or>
    (\<exists>b t. s' = (pr\<lparr>pr_bpm := b, pr_tx := t\<rparr>, w) \<and> pool_ok b \<and> pool_pins held b \<and>
      lc_frames (pool_abs b) = frames_of pr)"
  proof (cases "p = HEADER_PAGE_ID \<or> \<not> (\<not> pr_closed pr \<and> p \<noteq> INVALID_PAGE_ID \<and>
      \<not> tx_is_failed (pr_tx pr) \<and> \<not> tx_is_unresolved (pr_tx pr) \<and> tx_in_transaction (pr_tx pr)) \<or>
      map_of (tx_original_pages (pr_tx pr)) p \<noteq> None \<or> p \<in> set (tx_new_page_ids (pr_tx pr))")
    case True
    have self: "\<exists>t. pr = pr\<lparr>pr_tx := t\<rparr>" by (rule exI[of _ "pr_tx pr"]) simp
    have update: "\<exists>t. pr\<lparr>pr_tx := t'\<rparr> = pr\<lparr>pr_tx := t\<rparr>" for t' by blast
    from True assms(1) self update have "\<exists>t. s' = (pr\<lparr>pr_tx := t\<rparr>, w)"
      unfolding s pager_mark_dirty_def pager_action_defs
      by (auto split: if_splits sum.splits prod.splits simp: lift_result_def return_action_def fail_action_def)
    then show ?thesis by simp
  next
    case False
    then obtain fr where fr: "lc_frames (pool_abs (pr_bpm pr)) p = Some fr"
      using assms(4) s by (auto simp: frames_of_def)
    from get_cached_pins[OF pool assms(3) fr] obtain b pin where
      g: "pool_get_page p (pr_bpm pr) = (b, Inr pin)" "pool_ok b" "pool_pins ((p, pin) # held) b"
        "\<not> pp_is_dirty pin" "lc_frames (pool_abs b) = (lc_frames (pool_abs (pr_bpm pr)))(p \<mapsto> frame_pin fr)"
      by blast
    have "lc_frames (pool_abs b) p = Some (frame_pin fr)" by (simp add: g(5))
    note rel = release_pins[OF g(2,3) this]
    have undone: "(frame_pin fr)\<lparr>bf_pin_count := bf_pin_count (frame_pin fr) - 1,
        bf_is_dirty := bf_is_dirty (frame_pin fr) \<or> pp_is_dirty pin\<rparr> = fr"
      using g(4) by (simp add: frame_pin_def)
    let ?b = "snd (pin_release pin b)"
    have frames: "lc_frames (pool_abs ?b) = frames_of pr"
      unfolding rel(3) undone using fr by (simp add: g(5) frames_of_def fun_upd_idem)
    have "\<exists>t. s' = (pr\<lparr>pr_bpm := ?b, pr_tx := t\<rparr>, w)"
      using assms(1) False g(1)
      by (auto simp: s pager_mark_dirty_def pager_action_defs split: if_splits)
    with rel frames show ?thesis by blast
  qed
  moreover have "pages_ok content txns db held (pr\<lparr>pr_bpm := b\<rparr>, w) \<and>
      page_map db txns (pr\<lparr>pr_bpm := b\<rparr>, w) = page_map db txns (pr, w)"
    if "pool_ok b" "pool_pins held b" "lc_frames (pool_abs b) = frames_of pr" for b
    using pages_ok_bpm[OF ok that] by blast
  ultimately show "pages_ok content txns db held s'" "page_map db txns s' = page_map db txns s"
    "pr_header (fst s') = pr_header (fst s)" "frames_of (fst s') = frames_of (fst s)"
    using ok s by auto
qed

text \<open>
  \<open>mutable_page\<close> turns the pin into a dirty pin; a store through a dirty pin changes that page
  and no other; \<open>new_page\<close> allocates a page of zeros that was not allocated before.
\<close>

lemma handle_mark_dirty_contract:
  assumes "handle_mark_dirty pin s = (s', r)" "pages_ok content txns db ((p, pin) # held) s"
    and "length held < 2 ^ 32 - 2"
  shows "page_map db txns s' = page_map db txns s"
    "r = Inl e \<Longrightarrow> pages_ok content txns db ((p, pin) # held) s'"
    "r = Inr pin' \<Longrightarrow> pages_ok content txns db ((p, pin') # held) s' \<and> pp_is_dirty pin'"
proof -
  have pool: "pool_ok (pr_bpm (fst s))" "pool_pins ((p, pin) # held) (pr_bpm (fst s))"
    using assms(2) by (simp_all add: pages_ok_def)
  note h = held_frame[OF pool(2), of p pin, simplified]
  have id: "pg_id (pin_page_value pin (pr_bpm (fst s))) = p"
    using cached_page_id[OF pool(1) h(3)] by (simp add: pin_page_value_def)
  obtain s1 r1 where m: "pager_mark_dirty p s = (s1, r1)" by (metis surj_pair)
  have res: "s' = s1" "r = map_sum (\<lambda>e. e) (\<lambda>_. pin_mark_dirty pin) r1"
    using assms(1) m by (auto simp: handle_mark_dirty_def bind_action_def get_pager_def id split: sum.splits)
  have "frames_of (fst s) p \<noteq> None" using h(3) by (simp add: frames_of_def)
  with mark_dirty_contract[OF m assms(2)] assms(3)
  have c: "pages_ok content txns db ((p, pin) # held) s1" "page_map db txns s1 = page_map db txns s"
    by simp_all
  show "page_map db txns s' = page_map db txns s" using res c by simp
  show "r = Inl e \<Longrightarrow> pages_ok content txns db ((p, pin) # held) s'" using res c by simp
  assume "r = Inr pin'"
  then have pin': "pin' = pin_mark_dirty pin" using res(2) by (cases r1) simp_all
  have "pool_pins ((p, pin') # held) (pr_bpm (fst s1)) = pool_pins ((p, pin) # held) (pr_bpm (fst s1))"
    by (simp add: pool_pins_def pin' pin_mark_dirty_def)
  moreover have dirty: "pp_is_dirty pin'" by (simp add: pin' pin_mark_dirty_def)
  moreover have "(\<forall>pn. (q, pn) \<in> set ((p, pin') # held) \<longrightarrow> \<not> pp_is_dirty pn) \<Longrightarrow>
      (\<forall>pn. (q, pn) \<in> set ((p, pin) # held) \<longrightarrow> \<not> pp_is_dirty pn)" for q
    using dirty by auto
  ultimately show "pages_ok content txns db ((p, pin') # held) s' \<and> pp_is_dirty pin'"
    using c(1) res(1) unfolding pages_ok_def by blast
qed

lemma edit_page_contract:
  assumes "edit_page pin f s = (s', r)" "pages_ok content txns db held s" "(p, pin) \<in> set held"
    and "pp_is_dirty pin" "page_map db txns s p = Some d"
    and "\<And>d'. f d = Inr d' \<Longrightarrow> length d' = PAGE_SIZE"
  shows "pages_ok content txns db held s'"
    "r = Inl e \<Longrightarrow> f d = Inl e \<and> s' = s"
    "r = Ok \<Longrightarrow> \<exists>d'. f d = Inr d' \<and> page_map db txns s' = (page_map db txns s)(p \<mapsto> d')"
proof -
  obtain pr w where s: "s = (pr, w)" by (metis surj_pair)
  have bytes: "pin_bytes pin s = d" using held_page_value[OF assms(2,3,5)] by simp
  have "pages_ok content txns db held s' \<and> (r = Inl e \<longrightarrow> f d = Inl e \<and> s' = s) \<and>
    (r = Ok \<longrightarrow> (\<exists>d'. f d = Inr d' \<and> page_map db txns s' = (page_map db txns s)(p \<mapsto> d')))"
  proof (cases "f d")
    case (Inl e')
    with assms(1,2) bytes show ?thesis by (auto simp: edit_page_def)
  next
    case (Inr d')
    let ?b = "pin_write pin d' (pr_bpm pr)"
    have pool: "pool_ok (pr_bpm pr)" "pool_pins held (pr_bpm pr)"
      using assms(2) by (simp_all add: pages_ok_def s)
    obtain fr where fr: "lc_frames (pool_abs (pr_bpm pr)) p = Some fr"
      using held_frame(3)[OF pool(2) assms(3)] by blast
    note wr = write_pins[OF pool assms(3) fr, of d']
    have res: "s' = (pr\<lparr>pr_bpm := ?b\<rparr>, w)" "r = Ok"
      using assms(1) bytes Inr by (simp_all add: edit_page_def s modify_pager_def)
    have len: "length d' = PAGE_SIZE" using assms(6) Inr by simp
    have "pages_ok content txns db held s'"
      using assms(2,3,4) wr(1,2) len unfolding res s pages_ok_def
      by (auto simp: wr(3) page_wf_def frames_of_def)
    moreover have "page_map db txns s' = (page_map db txns s)(p \<mapsto> d')"
      using assms(5) unfolding res s
      by (auto simp: page_map_def fun_eq_iff wr(3) frames_of_def split: if_splits)
    ultimately show ?thesis using res Inr by auto
  qed
  then show "pages_ok content txns db held s'" "r = Inl e \<Longrightarrow> f d = Inl e \<and> s' = s"
    "r = Ok \<Longrightarrow> \<exists>d'. f d = Inr d' \<and> page_map db txns s' = (page_map db txns s)(p \<mapsto> d')"
    by blast+
qed

lemma new_page_contract:
  assumes "pager_new_page s = (s', r)" "pages_ok content txns db held s" "length held < 2 ^ 32 - 2"
    and "pin_count held (dh_page_count (pr_header (fst s))) = 0"
  defines "p \<equiv> dh_page_count (pr_header (fst s))"
  shows "r = Inl e \<Longrightarrow> pages_ok content txns db held s' \<and> page_map db txns s' = page_map db txns s"
    and "r = Inr pin \<Longrightarrow> pages_ok content txns db ((p, pin) # held) s' \<and> pp_is_dirty pin \<and>
      page_map db txns s p = None \<and> page_map db txns s' = (page_map db txns s)(p \<mapsto> replicate PAGE_SIZE 0) \<and>
      pg_id (pin_page_value pin (pr_bpm (fst s'))) = p"
proof -
  obtain pr w where s: "s = (pr, w)" by (metis surj_pair)
  note ok = assms(2)[unfolded s]
  have pool: "pool_ok (pr_bpm pr)" "pool_pins held (pr_bpm pr)"
    using ok by (simp_all add: pages_ok_def)
  have p: "p = dh_page_count (pr_header pr)" by (simp add: p_def s)
  have pos: "0 < p" using ok by (simp add: pages_ok_def p)
  obtain b r2 where cache: "pool_cache_page (new_page_value p) (pr_bpm pr) = (b, r2)" by (metis surj_pair)
  have nopins: "pin_count held (pg_id (new_page_value p)) = 0" using assms(4) by (simp add: p s)
  note c = cache_pins[OF pool nopins cache]
  have "(r = Inl e \<longrightarrow> pages_ok content txns db held s' \<and> page_map db txns s' = page_map db txns s) \<and>
    (r = Inr pin \<longrightarrow> pages_ok content txns db ((p, pin) # held) s' \<and> pp_is_dirty pin \<and>
      page_map db txns s p = None \<and> page_map db txns s' = (page_map db txns s)(p \<mapsto> replicate PAGE_SIZE 0) \<and>
      pg_id (pin_page_value pin (pr_bpm (fst s'))) = p)"
  proof (cases "pr_closed pr \<or> \<not> tx_in_transaction (pr_tx pr) \<or> tx_is_failed (pr_tx pr) \<or>
      tx_is_unresolved (pr_tx pr) \<or> (\<exists>e. r2 = Inl e)")
    case True
    then have "s' = s \<and> (\<exists>e. r = Inl e)"
      using assms(1) cache c(2) by (auto simp: s pager_new_page_def pager_action_defs p split: if_splits)
    with assms(2) show ?thesis by auto
  next
    case False
    then obtain pin' where pin': "r2 = Inr pin'" by (cases r2) auto
    from c(3)[OF pin'] obtain v where
      v: "\<forall>fr. lc_frames (pool_abs (pr_bpm pr)) v = Some fr \<longrightarrow> frame_evictable fr"
        "lc_frames (pool_abs b) = (lc_frames (pool_abs (pr_bpm pr)))(v := None,
          p \<mapsto> \<lparr>bf_page = new_page_value p, bf_pin_count = 1, bf_is_dirty = False\<rparr>)"
      and pins: "pool_pins ((p, pin') # held) b" "\<not> pp_is_dirty pin'"
      and none: "lc_frames (pool_abs (pr_bpm pr)) p = None" and valid: "p \<noteq> INVALID_PAGE_ID"
      by auto
    have frames: "frames_of (pr\<lparr>pr_bpm := b\<rparr>) q = (if q = p then
        Some \<lparr>bf_page = new_page_value p, bf_pin_count = 1, bf_is_dirty = False\<rparr>
        else if q = v then None else frames_of pr q)" for q
      by (simp add: v(2)) (simp add: frames_of_def)
    have evicted: "pg_data (bf_page fr) = page_view db (log_pages txns) v"
      if "frames_of pr v = Some fr" "v < dh_page_count (pr_header pr)" for fr
    proof -
      have e: "frame_evictable fr" using that(1) v(1) by (simp add: frames_of_def)
      then have "(v, pin'') \<notin> set held" for pin''
        using held_pinned(2)[OF pool(2)] that(1) by (auto simp: frames_of_def)
      then show ?thesis
        using ok that e by (auto simp: pages_ok_def frame_evictable_def)
    qed
    let ?s1 = "(pr\<lparr>pr_bpm := b\<rparr>, w)"
    have ok1: "pages_ok content txns db ((p, pin') # held) ?s1"
      using ok c(1) pins unfolding pages_ok_def fst_conv snd_conv frames by (auto simp: p)
    have map1: "page_map db txns ?s1 = page_map db txns s"
      using evicted unfolding page_map_def s fst_conv frames
      by (auto simp: fun_eq_iff p frames_of_def split: option.splits)
    obtain s2 r3 where mark: "pager_mark_dirty HEADER_PAGE_ID ?s1 = (s2, r3)" by (metis surj_pair)
    have ok2: "pages_ok content txns db ((p, pin') # held) s2" "page_map db txns s2 = page_map db txns s"
      "pr_header (fst s2) = pr_header pr" "frames_of (fst s2) = frames_of (pr\<lparr>pr_bpm := b\<rparr>)"
      using mark_dirty_contract[OF mark ok1] assms(3) map1 by simp_all
    show ?thesis
    proof (cases r3)
      case (Inl e')
      then have "s' = fst (release_pin pin' s2)" "r = Inl e'"
        using assms(1) False cache pin' mark
        by (auto simp: s pager_new_page_def bind_action_def require_def get_pager_def on_bpm_def p)
      with release_contract[OF ok2(1)] ok2(2) show ?thesis by simp
    next
      case (Inr u)
      obtain pr2 w2 where s2: "s2 = (pr2, w2)" by (metis surj_pair)
      let ?h = "(pr_header pr2)\<lparr>dh_page_count := p + 1\<rparr>"
      have h: "pr_header pr2 = pr_header pr" using ok2(3) s2 by simp
      have "\<exists>t. s' = (pr2\<lparr>pr_header := ?h, pr_tx := t\<rparr>, w2) \<and> r = Inr (pin_mark_dirty pin')"
        using assms(1) False cache pin' mark Inr h
        by (auto simp: s s2 pager_new_page_def bind_action_def require_def get_pager_def on_bpm_def p
            modify_pager_def modify_tx_def)
      then obtain t where res: "s' = (pr2\<lparr>pr_header := ?h, pr_tx := t\<rparr>, w2)"
        "r = Inr (pin_mark_dirty pin')" by blast
      have "1 + p \<noteq> 0"
      proof
        assume "1 + p = 0"
        then have "p = - 1" by (metis add.commute eq_neg_iff_add_eq_0)
        with valid show False by (simp add: INVALID_PAGE_ID_def)
      qed
      then have "unat (p + 1) = Suc (unat p)" using unatSuc[of p] by (metis add.commute)
      then have less: "q < p + 1 \<longleftrightarrow> q < p \<or> q = p" for q
        by (auto simp: word_less_nat_alt word_unat_eq_iff)
      let ?pin = "pin_mark_dirty pin'"
      have dirty: "pp_is_dirty ?pin" by (simp add: pin_mark_dirty_def)
      have fr: "frames_of pr2 p = Some \<lparr>bf_page = new_page_value p, bf_pin_count = 1, bf_is_dirty = False\<rparr>"
        using ok2(4) s2 frames[of p] by simp
      have pool2: "pool_pins ((p, ?pin) # held) (pr_bpm pr2)"
        using ok2(1) by (simp add: pages_ok_def s2 pool_pins_def pin_mark_dirty_def)
      have "pages_ok content txns db ((p, ?pin) # held) s'"
        using ok2(1) pool2 less dirty unfolding pages_ok_def res(1) s2
        by (auto simp: h p[symmetric])
      moreover have "page_map db txns s p = None" by (simp add: page_map_def s p)
      moreover have "page_map db txns s' = (page_map db txns s)(p \<mapsto> replicate PAGE_SIZE 0)"
      proof
        fix q
        have old: "page_map db txns s q = page_map db txns s2 q" using ok2(2) by simp
        show "page_map db txns s' q = ((page_map db txns s)(p \<mapsto> replicate PAGE_SIZE 0)) q"
          using pos fr less[of q] unfolding fun_upd_apply old
          by (auto simp: page_map_def res(1) s2 h p[symmetric] not_less[symmetric] HEADER_PAGE_ID_def)
      qed
      moreover have "pg_id (pin_page_value ?pin (pr_bpm (fst s'))) = p"
      proof -
        have "lc_frames (pool_abs (pr_bpm pr2)) p = Some (bp_frames (pr_bpm pr2) ! pp_frame ?pin)"
          using held_frame(3)[OF pool2, of p ?pin] by simp
        moreover have "pool_ok (pr_bpm pr2)" using ok2(1) by (simp add: pages_ok_def s2)
        ultimately show ?thesis
          using cached_page_id by (auto simp: res(1) pin_page_value_def)
      qed
      ultimately show ?thesis
        using res(2) dirty by auto
    qed
  qed
  then show "r = Inl e \<Longrightarrow> pages_ok content txns db held s' \<and> page_map db txns s' = page_map db txns s"
    "r = Inr pin \<Longrightarrow> pages_ok content txns db ((p, pin) # held) s' \<and> pp_is_dirty pin \<and>
      page_map db txns s p = None \<and> page_map db txns s' = (page_map db txns s)(p \<mapsto> replicate PAGE_SIZE 0) \<and>
      pg_id (pin_page_value pin (pr_bpm (fst s'))) = p"
    by blast+
qed

section \<open>The contract of the scopes\<close>

context win32_files
begin

lemma with_page_cases:
  assumes "with_page (pager_get_page os p) body s = (s', r)" "pages_ok content txns db held s"
    and "length held < 2 ^ 32 - 2"
  obtains (failed) e where "r = Inl e" "pages_ok content txns db held s'"
      "page_map db txns s' = page_map db txns s"
  | (body) pin s1 s2 where "pages_ok content txns db ((p, pin) # held) s1"
      "page_map db txns s1 = page_map db txns s" "body pin s1 = (s2, r)"
      "pages_ok content txns db ((p, pin) # held) s2 \<Longrightarrow>
        pages_ok content txns db held s' \<and> page_map db txns s' = page_map db txns s2"
proof -
  obtain s1 r1 where get: "pager_get_page os p s = (s1, r1)" by (metis surj_pair)
  have small: "length held < 2 ^ 32 - 1" using assms(3) by simp
  note c = get_page_contract[OF get assms(2) small]
  show ?thesis
  proof (cases r1)
    case (Inl e)
    with assms(1) get have "s' = s1" "r = Inl e" by (simp_all add: with_page_def)
    with c(1) c(2)[OF Inl] show ?thesis by (intro failed) simp_all
  next
    case (Inr pin)
    obtain s2 r2 where body: "body pin s1 = (s2, r2)" by (metis surj_pair)
    with assms(1) get Inr have "s' = fst (release_pin pin s2)" "r = r2" by (simp_all add: with_page_def)
    with c(1) c(3)[OF Inr] body release_contract[where s = s2 and pin = pin] show ?thesis
      by (intro that(2)[of pin s1 s2]) simp_all
  qed
qed

text \<open>The same for a page that is going to be changed, taken from the pager or allocated.\<close>

lemma with_mutable_cases:
  assumes "with_mutable_page handle body s = (s', r)" "length held < 2 ^ 32 - 2"
    and handle: "\<And>s1 r1. handle s = (s1, r1) \<Longrightarrow>
      (\<forall>e. r1 = Inl e \<longrightarrow> pages_ok content txns db held s1 \<and> page_map db txns s1 = m0) \<and>
      (\<forall>pin. r1 = Inr pin \<longrightarrow> pages_ok content txns db ((p, pin) # held) s1 \<and> page_map db txns s1 = m)"
  obtains (failed) e where "r = Inl e" "pages_ok content txns db held s'"
      "page_map db txns s' = m0 \<or> page_map db txns s' = m"
  | (body) pin s1 s2 where "pages_ok content txns db ((p, pin) # held) s1" "pp_is_dirty pin"
      "page_map db txns s1 = m" "body pin s1 = (s2, r)"
      "pages_ok content txns db ((p, pin) # held) s2 \<Longrightarrow>
        pages_ok content txns db held s' \<and> page_map db txns s' = page_map db txns s2"
proof -
  obtain s1 r1 where get: "handle s = (s1, r1)" by (metis surj_pair)
  note h = handle[OF get]
  show ?thesis
  proof (cases r1)
    case (Inl e)
    with assms(1) get have "s' = s1" "r = Inl e" by (simp_all add: with_mutable_page_def)
    with h Inl show ?thesis by (intro failed) simp_all
  next
    case (Inr pin)
    with h have ok1: "pages_ok content txns db ((p, pin) # held) s1" "page_map db txns s1 = m" by simp_all
    obtain s2 r2 where mark: "handle_mark_dirty pin s1 = (s2, r2)" by (metis surj_pair)
    note c = handle_mark_dirty_contract[OF mark ok1(1) assms(2)]
    show ?thesis
    proof (cases r2)
      case (Inl e)
      with assms(1) get Inr mark have "s' = fst (release_pin pin s2)" "r = Inl e"
        by (simp_all add: with_mutable_page_def \<open>r1 = Inr pin\<close>)
      with c(1) c(2)[OF Inl] ok1(2) release_contract[where s = s2 and pin = pin] show ?thesis
        by (intro failed) simp_all
    next
      case (Inr pin')
      obtain s3 r3 where body: "body pin' s2 = (s3, r3)" by (metis surj_pair)
      with assms(1) get \<open>r1 = Inr pin\<close> mark Inr have "s' = fst (release_pin pin' s3)" "r = r3"
        by (simp_all add: with_mutable_page_def)
      with c(1) c(3)[OF Inr] ok1(2) body release_contract[where s = s3 and pin = pin'] show ?thesis
        by (intro that(2)[of pin' s2 s3]) simp_all
    qed
  qed
qed

lemma with_mutable_page_cases:
  assumes "with_mutable_page (pager_get_page os p) body s = (s', r)" "pages_ok content txns db held s"
    and "length held < 2 ^ 32 - 2"
  obtains (failed) e where "r = Inl e" "pages_ok content txns db held s'"
      "page_map db txns s' = page_map db txns s"
  | (body) pin s1 s2 where "pages_ok content txns db ((p, pin) # held) s1" "pp_is_dirty pin"
      "page_map db txns s1 = page_map db txns s" "body pin s1 = (s2, r)"
      "pages_ok content txns db ((p, pin) # held) s2 \<Longrightarrow>
        pages_ok content txns db held s' \<and> page_map db txns s' = page_map db txns s2"
proof -
  have small: "length held < 2 ^ 32 - 1" using assms(3) by simp
  have handle: "(\<forall>e. r1 = Inl e \<longrightarrow> pages_ok content txns db held s1 \<and>
        page_map db txns s1 = page_map db txns s) \<and>
      (\<forall>pin. r1 = Inr pin \<longrightarrow> pages_ok content txns db ((p, pin) # held) s1 \<and>
        page_map db txns s1 = page_map db txns s)" if "pager_get_page os p s = (s1, r1)" for s1 r1
    using get_page_contract[OF that assms(2) small] by blast
  show ?thesis
    by (rule with_mutable_cases[OF assms(1,3) handle]) (auto intro: failed body)
qed

lemma with_new_page_cases:
  assumes "with_mutable_page pager_new_page body s = (s', r)" "pages_ok content txns db held s"
    and "length held < 2 ^ 32 - 2" "\<And>p pin. (p, pin) \<in> set held \<Longrightarrow> page_map db txns s p \<noteq> None"
  obtains (failed) e where "r = Inl e" "pages_ok content txns db held s'"
      "page_map db txns s \<subseteq>\<^sub>m page_map db txns s'"
  | (body) p pin s1 s2 where "pages_ok content txns db ((p, pin) # held) s1" "pp_is_dirty pin"
      "page_map db txns s p = None"
      "page_map db txns s1 = (page_map db txns s)(p \<mapsto> replicate PAGE_SIZE 0)"
      "body pin s1 = (s2, r)"
      "pages_ok content txns db ((p, pin) # held) s2 \<Longrightarrow>
        pages_ok content txns db held s' \<and> page_map db txns s' = page_map db txns s2"
proof -
  let ?p = "dh_page_count (pr_header (fst s))"
  let ?m = "(page_map db txns s)(?p \<mapsto> replicate PAGE_SIZE 0)"
  have none: "page_map db txns s ?p = None" by (simp add: page_map_def)
  have free: "pin_count held ?p = 0"
    using assms(4) none by (fastforce simp: pin_count_def filter_empty_conv)
  have handle: "(\<forall>e. r1 = Inl e \<longrightarrow> pages_ok content txns db held s1 \<and>
        page_map db txns s1 = page_map db txns s) \<and>
      (\<forall>pin. r1 = Inr pin \<longrightarrow> pages_ok content txns db ((?p, pin) # held) s1 \<and>
        page_map db txns s1 = ?m)" if "pager_new_page s = (s1, r1)" for s1 r1
    using new_page_contract[OF that assms(2,3) free] by blast
  have grows: "page_map db txns s \<subseteq>\<^sub>m ?m"
    using none by (auto simp: map_le_def)
  show ?thesis
  proof (rule with_mutable_cases[OF assms(1,3) handle])
    fix e assume "r = Inl e" "pages_ok content txns db held s'"
      "page_map db txns s' = page_map db txns s \<or> page_map db txns s' = ?m"
    with grows show thesis by (auto intro: failed)
  qed (auto intro: body simp: none)
qed

lemma page_read:
  assumes "with_page (pager_get_page os p) (\<lambda>pin. read_page pin f) s = (s', r)"
    and "pages_ok content txns db held s" "length held < 2 ^ 32 - 2" "page_map db txns s p = Some d"
  shows "pages_ok content txns db held s'" "page_map db txns s' = page_map db txns s"
    "r = f d \<or> (\<exists>e. r = Inl e)"
proof -
  from assms(1-3) have "pages_ok content txns db held s' \<and> page_map db txns s' = page_map db txns s \<and>
    (r = f d \<or> (\<exists>e. r = Inl e))"
  proof (cases rule: with_page_cases)
    case (body pin s1 s2)
    then have "s2 = s1" "r = f d"
      using held_page_value(2)[of content txns db "(p, pin) # held" s1 p pin d] assms(4)
      by (auto simp: read_page_def)
    with body show ?thesis by simp
  qed simp
  then show "pages_ok content txns db held s'" "page_map db txns s' = page_map db txns s"
    "r = f d \<or> (\<exists>e. r = Inl e)" by blast+
qed

lemma page_edit:
  assumes "with_mutable_page (pager_get_page os p) (\<lambda>pin. edit_page pin f) s = (s', r)"
    and "pages_ok content txns db held s" "length held < 2 ^ 32 - 2" "page_map db txns s p = Some d"
    and "\<And>d'. f d = Inr d' \<Longrightarrow> length d' = PAGE_SIZE"
  shows "pages_ok content txns db held s'" "r = Inl e \<Longrightarrow> page_map db txns s' = page_map db txns s"
    "r = Ok \<Longrightarrow> \<exists>d'. f d = Inr d' \<and> page_map db txns s' = (page_map db txns s)(p \<mapsto> d')"
proof -
  from assms(1-3) have "pages_ok content txns db held s' \<and>
    (r = Inl e \<longrightarrow> page_map db txns s' = page_map db txns s) \<and>
    (r = Ok \<longrightarrow> (\<exists>d'. f d = Inr d' \<and> page_map db txns s' = (page_map db txns s)(p \<mapsto> d')))"
  proof (cases rule: with_mutable_page_cases)
    case (body pin s1 s2)
    have "page_map db txns s1 p = Some d" using assms(4) body(3) by simp
    from edit_page_contract[OF body(4,1) _ body(2) this assms(5)] body(3,5) show ?thesis by auto
  qed simp
  then show "pages_ok content txns db held s'" "r = Inl e \<Longrightarrow> page_map db txns s' = page_map db txns s"
    "r = Ok \<Longrightarrow> \<exists>d'. f d = Inr d' \<and> page_map db txns s' = (page_map db txns s)(p \<mapsto> d')" by blast+
qed

end

end
