(* ===== verification/BTreePage.thy ===== *)
theory BTreePage
  imports Codecs KeyCodec
begin

text \<open>
  The pages of the B+ tree: \<^verbatim>\<open>BTreePage.cpp\<close>, \<^verbatim>\<open>BTreePage.h\<close>, \<^verbatim>\<open>BTreeLeafPage.h\<close> and
  \<^verbatim>\<open>BTreeInternalPage.h\<close>. A view of a page (\<open>std::span\<close> of its bytes) is the list of bytes;
  a member function that writes returns the new bytes. No function writes before its last
  test, so an error leaves the page as it was. The stored integers keep their widths; an entry
  index (\<open>uint16_t\<close>) is a \<open>nat\<close>, because no page holds more than 2016 entries and nothing
  computed from an index can wrap. \<open>node_of\<close> is the abstract view: the list of entries of a
  page that validation accepts. The lemmas give the effect of every operation on it.
\<close>

section \<open>Layout\<close>

abbreviation (input) "BTREE_PAGE_KIND_OFFSET \<equiv> 0 :: nat"
abbreviation (input) "BTREE_PAGE_FLAGS_OFFSET \<equiv> 1 :: nat"
abbreviation (input) "BTREE_PAGE_KEY_COUNT_OFFSET \<equiv> 2 :: nat"
abbreviation (input) "BTREE_PAGE_HEADER_SIZE_OFFSET \<equiv> 4 :: nat"
abbreviation (input) "BTREE_PAGE_PARENT_PAGE_ID_OFFSET \<equiv> 8 :: nat"
abbreviation (input) "BTREE_PAGE_NEXT_LEAF_PAGE_ID_OFFSET \<equiv> 16 :: nat"
abbreviation (input) "BTREE_PAGE_PREVIOUS_LEAF_PAGE_ID_OFFSET \<equiv> 24 :: nat"
abbreviation (input) "BTREE_PAGE_FIRST_CHILD_PAGE_ID_OFFSET \<equiv> 32 :: nat"
abbreviation (input) "BTREE_PAGE_KEY_SIZE_OFFSET \<equiv> 40 :: nat"
abbreviation (input) "BTREE_PAGE_VALUE_SIZE_OFFSET \<equiv> 42 :: nat"

definition BTREE_PAGE_HEADER_SIZE :: nat where
  "BTREE_PAGE_HEADER_SIZE = 64"

definition BTREE_PAGE_ENTRY_ARRAY_OFFSET :: nat where
  "BTREE_PAGE_ENTRY_ARRAY_OFFSET = BTREE_PAGE_HEADER_SIZE"

definition BTREE_PAGE_ENTRY_AREA_SIZE :: nat where
  "BTREE_PAGE_ENTRY_AREA_SIZE = PAGE_SIZE - BTREE_PAGE_HEADER_SIZE"

definition BTREE_PAGE_RESERVED_RANGES :: "(nat \<times> nat) list" where
  "BTREE_PAGE_RESERVED_RANGES = [(6, 2), (44, 20)]"

definition BTREE_INTERNAL_PAGE_KIND :: byte where
  "BTREE_INTERNAL_PAGE_KIND = 1"

definition BTREE_LEAF_PAGE_KIND :: byte where
  "BTREE_LEAF_PAGE_KIND = 2"

definition BTREE_PAGE_ROOT_FLAG :: byte where
  "BTREE_PAGE_ROOT_FLAG = 0x01"

datatype btree_page_kind = Internal | Leaf

section \<open>BTreePage.cpp\<close>

text \<open>The stores that \<open>initialize_internal\<close> and \<open>initialize_leaf\<close> share; they differ in the kind.\<close>

definition initialize_fields :: "byte \<Rightarrow> bytes \<Rightarrow> u16 \<Rightarrow> u16 \<Rightarrow> bytes result" where
  "initialize_fields kind bytes key_size value_size =
     (let bytes = replicate (length bytes) 0;
          bytes = bytes[BTREE_PAGE_KIND_OFFSET := kind];
          bytes = bytes[BTREE_PAGE_FLAGS_OFFSET := 0] in
      bind_result (write_u16_le bytes BTREE_PAGE_KEY_COUNT_OFFSET 0) (\<lambda>bytes.
      bind_result (write_u16_le bytes BTREE_PAGE_HEADER_SIZE_OFFSET (of_nat BTREE_PAGE_HEADER_SIZE)) (\<lambda>bytes.
      bind_result (write_u64_le bytes BTREE_PAGE_PARENT_PAGE_ID_OFFSET INVALID_PAGE_ID) (\<lambda>bytes.
      bind_result (write_u64_le bytes BTREE_PAGE_NEXT_LEAF_PAGE_ID_OFFSET INVALID_PAGE_ID) (\<lambda>bytes.
      bind_result (write_u64_le bytes BTREE_PAGE_PREVIOUS_LEAF_PAGE_ID_OFFSET INVALID_PAGE_ID) (\<lambda>bytes.
      bind_result (write_u64_le bytes BTREE_PAGE_FIRST_CHILD_PAGE_ID_OFFSET INVALID_PAGE_ID) (\<lambda>bytes.
      bind_result (write_u16_le bytes BTREE_PAGE_KEY_SIZE_OFFSET key_size) (\<lambda>bytes.
      write_u16_le bytes BTREE_PAGE_VALUE_SIZE_OFFSET value_size))))))))"

definition initialize_internal :: "bytes \<Rightarrow> u16 \<Rightarrow> u16 \<Rightarrow> bytes result" where
  "initialize_internal bytes key_size value_size =
     ensure (length bytes = PAGE_SIZE) InvalidArgument (
     ensure (key_size \<noteq> 0) InvalidArgument (
     ensure (value_size \<noteq> 0) InvalidArgument (
     let entry_size = unat key_size + 8;
         capacity = BTREE_PAGE_ENTRY_AREA_SIZE div entry_size in
     ensure (\<not> capacity < 2) InvalidArgument (
     initialize_fields BTREE_INTERNAL_PAGE_KIND bytes key_size value_size))))"

definition initialize_leaf :: "bytes \<Rightarrow> u16 \<Rightarrow> u16 \<Rightarrow> bytes result" where
  "initialize_leaf bytes key_size value_size =
     ensure (length bytes = PAGE_SIZE) InvalidArgument (
     ensure (key_size \<noteq> 0) InvalidArgument (
     ensure (value_size \<noteq> 0) InvalidArgument (
     let entry_size = unat key_size + unat value_size;
         capacity = BTREE_PAGE_ENTRY_AREA_SIZE div entry_size in
     ensure (\<not> capacity = 0) InvalidArgument (
     initialize_fields BTREE_LEAF_PAGE_KIND bytes key_size value_size))))"

text \<open>
  The test of a page that is opened. Every read is in bounds once the size is known.
\<close>

definition validate_page :: "bytes \<Rightarrow> status" where
  "validate_page bytes =
     ensure (length bytes = PAGE_SIZE) InvalidArgument (
     let page_kind = bytes ! BTREE_PAGE_KIND_OFFSET in
     ensure (\<not> (page_kind \<noteq> BTREE_INTERNAL_PAGE_KIND \<and> page_kind \<noteq> BTREE_LEAF_PAGE_KIND)) Corruption (
     let flags = bytes ! BTREE_PAGE_FLAGS_OFFSET in
     ensure (\<not> flags AND NOT BTREE_PAGE_ROOT_FLAG \<noteq> 0) Corruption (
     bind_result (read_u16_le bytes BTREE_PAGE_KEY_COUNT_OFFSET) (\<lambda>stored_key_count.
     bind_result (read_u16_le bytes BTREE_PAGE_HEADER_SIZE_OFFSET) (\<lambda>stored_header_size.
     ensure (unat stored_header_size = BTREE_PAGE_HEADER_SIZE) Corruption (
     ensure (\<forall>(offset, size) \<in> set BTREE_PAGE_RESERVED_RANGES.
       bytes_are_zero (take size (drop offset bytes))) Corruption (
     bind_result (read_u16_le bytes BTREE_PAGE_KEY_SIZE_OFFSET) (\<lambda>stored_key_size.
     ensure (stored_key_size \<noteq> 0) Corruption (
     bind_result (read_u16_le bytes BTREE_PAGE_VALUE_SIZE_OFFSET) (\<lambda>stored_value_size.
     ensure (stored_value_size \<noteq> 0) Corruption (
     let entry_size = (if page_kind = BTREE_LEAF_PAGE_KIND
           then unat stored_key_size + unat stored_value_size else unat stored_key_size + 8);
         capacity = BTREE_PAGE_ENTRY_AREA_SIZE div entry_size in
     ensure (\<not> capacity = 0) Corruption (
     ensure (\<not> (page_kind = BTREE_INTERNAL_PAGE_KIND \<and> capacity < 2)) Corruption (
     ensure (\<not> capacity < unat stored_key_count) Corruption Ok)))))))))))))"

section \<open>BTreePage.h\<close>

text \<open>
  The constructor is private and \<open>open\<close> validates, so the reads of the getters succeed;
  \<open>stored\<close> is a setter that drops the status of its write.
\<close>

definition page_open :: "bytes \<Rightarrow> bytes result" where
  "page_open bytes = bind_result (validate_page bytes) (\<lambda>_. Inr bytes)"

definition stored :: "bytes \<Rightarrow> bytes result \<Rightarrow> bytes" where
  "stored bytes r = (case r of Inr new_bytes \<Rightarrow> new_bytes | Inl _ \<Rightarrow> bytes)"

definition page_kind :: "bytes \<Rightarrow> btree_page_kind" where
  "page_kind bytes =
     (if bytes ! BTREE_PAGE_KIND_OFFSET = BTREE_INTERNAL_PAGE_KIND then Internal else Leaf)"

definition page_is_root :: "bytes \<Rightarrow> bool" where
  "page_is_root bytes \<longleftrightarrow> bytes ! BTREE_PAGE_FLAGS_OFFSET AND BTREE_PAGE_ROOT_FLAG \<noteq> 0"

definition page_key_count :: "bytes \<Rightarrow> nat" where
  "page_key_count bytes = unat (projr (read_u16_le bytes BTREE_PAGE_KEY_COUNT_OFFSET))"

definition page_parent_page_id :: "bytes \<Rightarrow> page_id" where
  "page_parent_page_id bytes = projr (read_u64_le bytes BTREE_PAGE_PARENT_PAGE_ID_OFFSET)"

definition page_next_leaf_page_id :: "bytes \<Rightarrow> page_id" where
  "page_next_leaf_page_id bytes = projr (read_u64_le bytes BTREE_PAGE_NEXT_LEAF_PAGE_ID_OFFSET)"

definition page_previous_leaf_page_id :: "bytes \<Rightarrow> page_id" where
  "page_previous_leaf_page_id bytes =
     projr (read_u64_le bytes BTREE_PAGE_PREVIOUS_LEAF_PAGE_ID_OFFSET)"

definition page_first_child_page_id :: "bytes \<Rightarrow> page_id" where
  "page_first_child_page_id bytes = projr (read_u64_le bytes BTREE_PAGE_FIRST_CHILD_PAGE_ID_OFFSET)"

definition page_key_size :: "bytes \<Rightarrow> nat" where
  "page_key_size bytes = unat (projr (read_u16_le bytes BTREE_PAGE_KEY_SIZE_OFFSET))"

definition page_value_size :: "bytes \<Rightarrow> nat" where
  "page_value_size bytes = unat (projr (read_u16_le bytes BTREE_PAGE_VALUE_SIZE_OFFSET))"

definition page_set_key_count :: "nat \<Rightarrow> bytes \<Rightarrow> bytes result" where
  "page_set_key_count key_count bytes =
     write_u16_le bytes BTREE_PAGE_KEY_COUNT_OFFSET (of_nat key_count)"

definition page_set_parent_page_id :: "page_id \<Rightarrow> bytes \<Rightarrow> bytes" where
  "page_set_parent_page_id p bytes =
     stored bytes (write_u64_le bytes BTREE_PAGE_PARENT_PAGE_ID_OFFSET p)"

definition page_set_next_leaf_page_id :: "page_id \<Rightarrow> bytes \<Rightarrow> bytes" where
  "page_set_next_leaf_page_id p bytes =
     stored bytes (write_u64_le bytes BTREE_PAGE_NEXT_LEAF_PAGE_ID_OFFSET p)"

definition page_set_previous_leaf_page_id :: "page_id \<Rightarrow> bytes \<Rightarrow> bytes" where
  "page_set_previous_leaf_page_id p bytes =
     stored bytes (write_u64_le bytes BTREE_PAGE_PREVIOUS_LEAF_PAGE_ID_OFFSET p)"

definition page_set_first_child_page_id :: "page_id \<Rightarrow> bytes \<Rightarrow> bytes" where
  "page_set_first_child_page_id p bytes =
     stored bytes (write_u64_le bytes BTREE_PAGE_FIRST_CHILD_PAGE_ID_OFFSET p)"

definition page_set_root :: "bool \<Rightarrow> bytes \<Rightarrow> bytes" where
  "page_set_root is_root bytes =
     (let flags = bytes ! BTREE_PAGE_FLAGS_OFFSET;
          flags = (if is_root then flags OR BTREE_PAGE_ROOT_FLAG
                   else flags AND NOT BTREE_PAGE_ROOT_FLAG) in
      bytes[BTREE_PAGE_FLAGS_OFFSET := flags])"

section \<open>What the two page classes share\<close>

text \<open>
  The binary search over the keys of a page, with the test that sends it to the right half,
  and \<open>std::memmove\<close> inside a page.
\<close>

function search_loop :: "(nat \<Rightarrow> bytes result) \<Rightarrow> (bytes \<Rightarrow> bool) \<Rightarrow> nat \<Rightarrow> nat \<Rightarrow> nat result" where
  "search_loop key_at go_right left right =
     (if left < right then
        let mid = left + (right - left) div 2 in
        bind_result (key_at mid) (\<lambda>stored_key.
          if go_right stored_key then search_loop key_at go_right (mid + 1) right
          else search_loop key_at go_right left mid)
      else Inr left)"
  by pat_completeness auto
termination
  by (relation "measure (\<lambda>(k, g, left, right). right - left)") auto

declare search_loop.simps [simp del]

definition memmove :: "bytes \<Rightarrow> nat \<Rightarrow> nat \<Rightarrow> nat \<Rightarrow> bytes" where
  "memmove bytes dst src n = overwrite bytes dst (take n (drop src bytes))"

section \<open>BTreeLeafPage.h\<close>

definition leaf_open :: "bytes \<Rightarrow> bytes result" where
  "leaf_open bytes = bind_result (page_open bytes) (\<lambda>page.
     ensure (page_kind page = Leaf) InvalidArgument (Inr page))"

definition leaf_entry_size :: "bytes \<Rightarrow> nat" where
  "leaf_entry_size bytes = page_key_size bytes + page_value_size bytes"

definition leaf_capacity :: "bytes \<Rightarrow> nat" where
  "leaf_capacity bytes = BTREE_PAGE_ENTRY_AREA_SIZE div leaf_entry_size bytes"

definition leaf_entry_at :: "bytes \<Rightarrow> nat \<Rightarrow> bytes result" where
  "leaf_entry_at bytes entry_index =
     ensure (\<not> entry_index \<ge> page_key_count bytes) InvalidArgument (
     let entry_offset = BTREE_PAGE_ENTRY_ARRAY_OFFSET + entry_index * leaf_entry_size bytes in
     Inr (take (leaf_entry_size bytes) (drop entry_offset bytes)))"

definition leaf_key_at :: "bytes \<Rightarrow> nat \<Rightarrow> bytes result" where
  "leaf_key_at bytes entry_index =
     ensure (\<not> entry_index \<ge> page_key_count bytes) InvalidArgument (
     let entry_offset = BTREE_PAGE_ENTRY_ARRAY_OFFSET + entry_index * leaf_entry_size bytes in
     Inr (take (page_key_size bytes) (drop entry_offset bytes)))"

definition leaf_value_at :: "bytes \<Rightarrow> nat \<Rightarrow> bytes result" where
  "leaf_value_at bytes entry_index =
     ensure (\<not> entry_index \<ge> page_key_count bytes) InvalidArgument (
     let entry_offset = BTREE_PAGE_ENTRY_ARRAY_OFFSET + entry_index * leaf_entry_size bytes;
         value_offset = entry_offset + page_key_size bytes in
     Inr (take (page_value_size bytes) (drop value_offset bytes)))"

definition leaf_find_insertion_position :: "bytes \<Rightarrow> bytes \<Rightarrow> nat result" where
  "leaf_find_insertion_position bytes key =
     ensure (length key = page_key_size bytes) InvalidArgument
       (search_loop (leaf_key_at bytes) (\<lambda>stored_key. memcmp stored_key key < 0)
         0 (page_key_count bytes))"

definition leaf_set_key_count :: "nat \<Rightarrow> bytes \<Rightarrow> bytes result" where
  "leaf_set_key_count key_count bytes =
     ensure (\<not> key_count > leaf_capacity bytes) InvalidArgument (page_set_key_count key_count bytes)"

definition leaf_update_value :: "bytes \<Rightarrow> bytes \<Rightarrow> bytes \<Rightarrow> bytes result" where
  "leaf_update_value key value_bytes bytes =
     ensure (length key = page_key_size bytes) InvalidArgument (
     ensure (length value_bytes = page_value_size bytes) InvalidArgument (
     bind_result (leaf_find_insertion_position bytes key) (\<lambda>position.
     ensure (\<not> position = page_key_count bytes) NotFound (
     bind_result (leaf_key_at bytes position) (\<lambda>stored_key.
     ensure (\<not> memcmp stored_key key \<noteq> 0) NotFound (
     let entry_offset = BTREE_PAGE_ENTRY_ARRAY_OFFSET + position * leaf_entry_size bytes;
         value_offset = entry_offset + page_key_size bytes in
     Inr (overwrite bytes value_offset value_bytes)))))))"

text \<open>
  The order tests of \<open>insert_entry\<close>: the new key may equal a neighbour. Both page classes have
  them, over their own \<open>key_at\<close>.
\<close>

definition check_neighbours :: "(nat \<Rightarrow> bytes result) \<Rightarrow> nat \<Rightarrow> nat \<Rightarrow> bytes \<Rightarrow> 'a result \<Rightarrow> 'a result" where
  "check_neighbours key_at entry_index stored_key_count key k =
     bind_result (if entry_index > 0 then bind_result (key_at (entry_index - 1)) (\<lambda>prev_key.
         ensure (\<not> memcmp key prev_key < 0) InvalidArgument Ok) else Ok) (\<lambda>_.
     bind_result (if entry_index < stored_key_count then bind_result (key_at entry_index) (\<lambda>next_key.
         ensure (\<not> memcmp next_key key < 0) InvalidArgument Ok) else Ok) (\<lambda>_. k))"

definition leaf_insert_entry :: "nat \<Rightarrow> bytes \<Rightarrow> bytes \<Rightarrow> bytes \<Rightarrow> bytes result" where
  "leaf_insert_entry entry_index key value_bytes bytes =
     (let stored_key_count = page_key_count bytes in
     ensure (\<not> entry_index > stored_key_count) InvalidArgument (
     ensure (length key = page_key_size bytes) InvalidArgument (
     ensure (length value_bytes = page_value_size bytes) InvalidArgument (
     ensure (\<not> stored_key_count \<ge> leaf_capacity bytes) InvalidArgument (
     check_neighbours (leaf_key_at bytes) entry_index stored_key_count key (
     let entry_size = leaf_entry_size bytes;
         entry_offset = BTREE_PAGE_ENTRY_ARRAY_OFFSET + entry_index * entry_size;
         bytes_to_shift = (stored_key_count - entry_index) * entry_size;
         key_size = page_key_size bytes;
         bytes = (if bytes_to_shift > 0
           then memmove bytes (entry_offset + entry_size) entry_offset bytes_to_shift else bytes);
         bytes = overwrite bytes entry_offset key;
         bytes = overwrite bytes (entry_offset + key_size) value_bytes in
     leaf_set_key_count (stored_key_count + 1) bytes))))))"

definition leaf_erase_entry :: "nat \<Rightarrow> bytes \<Rightarrow> bytes result" where
  "leaf_erase_entry entry_index bytes =
     (let stored_key_count = page_key_count bytes in
     ensure (\<not> entry_index \<ge> stored_key_count) InvalidArgument (
     let entry_size = leaf_entry_size bytes;
         entry_offset = BTREE_PAGE_ENTRY_ARRAY_OFFSET + entry_index * entry_size;
         bytes_to_shift = (stored_key_count - entry_index - 1) * entry_size;
         bytes = (if bytes_to_shift > 0
           then memmove bytes entry_offset (entry_offset + entry_size) bytes_to_shift else bytes) in
     leaf_set_key_count (stored_key_count - 1) bytes))"

section \<open>BTreeInternalPage.h\<close>

definition internal_open :: "bytes \<Rightarrow> bytes result" where
  "internal_open bytes = bind_result (page_open bytes) (\<lambda>page.
     ensure (page_kind page = Internal) InvalidArgument (Inr page))"

definition internal_entry_size :: "bytes \<Rightarrow> nat" where
  "internal_entry_size bytes = page_key_size bytes + 8"

definition internal_capacity :: "bytes \<Rightarrow> nat" where
  "internal_capacity bytes = BTREE_PAGE_ENTRY_AREA_SIZE div internal_entry_size bytes"

definition internal_key_at :: "bytes \<Rightarrow> nat \<Rightarrow> bytes result" where
  "internal_key_at bytes entry_index =
     ensure (\<not> entry_index \<ge> page_key_count bytes) InvalidArgument (
     let entry_offset = BTREE_PAGE_ENTRY_ARRAY_OFFSET + entry_index * internal_entry_size bytes in
     Inr (take (page_key_size bytes) (drop entry_offset bytes)))"

definition internal_right_child_page_id_at :: "bytes \<Rightarrow> nat \<Rightarrow> page_id result" where
  "internal_right_child_page_id_at bytes entry_index =
     ensure (\<not> entry_index \<ge> page_key_count bytes) InvalidArgument (
     let entry_offset = BTREE_PAGE_ENTRY_ARRAY_OFFSET + entry_index * internal_entry_size bytes;
         right_child_page_id_offset = entry_offset + page_key_size bytes in
     read_u64_le bytes right_child_page_id_offset)"

definition internal_child_index_for_key :: "bytes \<Rightarrow> bytes \<Rightarrow> nat result" where
  "internal_child_index_for_key bytes key =
     ensure (length key = page_key_size bytes) InvalidArgument
       (search_loop (internal_key_at bytes) (\<lambda>separator_key. memcmp separator_key key \<le> 0)
         0 (page_key_count bytes))"

definition internal_child_page_id_for_key :: "bytes \<Rightarrow> bytes \<Rightarrow> page_id result" where
  "internal_child_page_id_for_key bytes key =
     bind_result (internal_child_index_for_key bytes key) (\<lambda>child_index.
       if child_index = 0 then Inr (page_first_child_page_id bytes)
       else internal_right_child_page_id_at bytes (child_index - 1))"

definition internal_find_insertion_position :: "bytes \<Rightarrow> bytes \<Rightarrow> nat result" where
  "internal_find_insertion_position bytes key =
     ensure (length key = page_key_size bytes) InvalidArgument
       (search_loop (internal_key_at bytes) (\<lambda>stored_key. memcmp stored_key key < 0)
         0 (page_key_count bytes))"

definition internal_set_key_count :: "nat \<Rightarrow> bytes \<Rightarrow> bytes result" where
  "internal_set_key_count key_count bytes =
     ensure (\<not> key_count > internal_capacity bytes) InvalidArgument (page_set_key_count key_count bytes)"

definition internal_insert_entry :: "nat \<Rightarrow> bytes \<Rightarrow> page_id \<Rightarrow> bytes \<Rightarrow> bytes result" where
  "internal_insert_entry entry_index key right_child_page_id bytes =
     (let stored_key_count = page_key_count bytes in
     ensure (\<not> entry_index > stored_key_count) InvalidArgument (
     ensure (length key = page_key_size bytes) InvalidArgument (
     ensure (\<not> stored_key_count \<ge> internal_capacity bytes) InvalidArgument (
     check_neighbours (internal_key_at bytes) entry_index stored_key_count key (
     let entry_size = internal_entry_size bytes;
         entry_offset = BTREE_PAGE_ENTRY_ARRAY_OFFSET + entry_index * entry_size;
         bytes_to_shift = (stored_key_count - entry_index) * entry_size;
         key_size = page_key_size bytes;
         bytes = (if bytes_to_shift > 0
           then memmove bytes (entry_offset + entry_size) entry_offset bytes_to_shift else bytes);
         bytes = overwrite bytes entry_offset key in
     bind_result (write_u64_le bytes (entry_offset + key_size) right_child_page_id) (\<lambda>bytes.
     internal_set_key_count (stored_key_count + 1) bytes))))))"

definition internal_erase_entry :: "nat \<Rightarrow> bytes \<Rightarrow> bytes result" where
  "internal_erase_entry entry_index bytes =
     (let stored_key_count = page_key_count bytes in
     ensure (\<not> entry_index \<ge> stored_key_count) InvalidArgument (
     let entry_size = internal_entry_size bytes;
         entry_offset = BTREE_PAGE_ENTRY_ARRAY_OFFSET + entry_index * entry_size;
         bytes_to_shift = (stored_key_count - entry_index - 1) * entry_size;
         bytes = (if bytes_to_shift > 0
           then memmove bytes entry_offset (entry_offset + entry_size) bytes_to_shift else bytes) in
     internal_set_key_count (stored_key_count - 1) bytes))"

definition internal_set_key_at :: "nat \<Rightarrow> bytes \<Rightarrow> bytes \<Rightarrow> bytes result" where
  "internal_set_key_at entry_index key bytes =
     ensure (\<not> entry_index \<ge> page_key_count bytes) InvalidArgument (
     ensure (length key = page_key_size bytes) InvalidArgument (
     let entry_offset = BTREE_PAGE_ENTRY_ARRAY_OFFSET + entry_index * internal_entry_size bytes in
     Inr (overwrite bytes entry_offset (take (page_key_size bytes) key))))"

end
