(* ===== verification/BTreeNode.thy ===== *)
theory BTreeNode
  imports BTreePage
begin

text \<open>
  The abstract view of a page of the B+ tree: a leaf is its root flag, its list of keys with
  their values and the id of the next leaf, an internal page its root flag, its first child
  and the separators with the children to their right. \<open>node_of\<close> gives the view of the bytes
  of a page that validation accepts. The parent and previous-leaf ids are not part of the
  view: the code stores them and never reads them to decide anything. The lemmas give the
  effect of every operation of the page classes on the view.
\<close>

section \<open>Ranges of equal size\<close>

lemma length_concat_chunks:
  "\<forall>c \<in> set cs. length c = n \<Longrightarrow> length (concat cs) = length cs * n"
  by (induction cs) auto

lemma take_concat_chunks:
  assumes "\<forall>c \<in> set cs. length c = n" "i \<le> length cs"
  shows "take (i * n) (concat cs) = concat (take i cs)"
proof -
  have "length (concat (take i cs)) = i * n"
    using assms by (subst length_concat_chunks) (auto dest: in_set_takeD)
  moreover have "concat cs = concat (take i cs) @ concat (drop i cs)"
    by (metis append_take_drop_id concat_append)
  ultimately show ?thesis by simp
qed

lemma drop_concat_chunks:
  assumes "\<forall>c \<in> set cs. length c = n" "i \<le> length cs"
  shows "drop (i * n) (concat cs) = concat (drop i cs)"
proof -
  have "length (concat (take i cs)) = i * n"
    using assms by (subst length_concat_chunks) (auto dest: in_set_takeD)
  moreover have "concat cs = concat (take i cs) @ concat (drop i cs)"
    by (metis append_take_drop_id concat_append)
  ultimately show ?thesis by simp
qed

lemma nth_concat_chunks:
  assumes "\<forall>c \<in> set cs. length c = n" "i < length cs"
  shows "take n (drop (i * n) (concat cs)) = cs ! i"
proof -
  have "drop (i * n) (concat cs) = cs ! i @ concat (drop (Suc i) cs)"
    using assms by (simp add: drop_concat_chunks Cons_nth_drop_Suc[symmetric])
  moreover have "length (cs ! i) = n" using assms by simp
  ultimately show ?thesis by simp
qed

lemma overwrite_overwrite_before:
  "off + length ys + length zs \<le> length xs \<Longrightarrow>
   overwrite (overwrite xs (off + length ys) zs) off ys = overwrite xs off (ys @ zs)"
  by (simp add: overwrite_def ac_simps min_def)

lemma overwrite_same_content:
  "take (length zs) (drop off xs) = zs \<Longrightarrow> off + length zs \<le> length xs \<Longrightarrow> overwrite xs off zs = xs"
  by (simp add: overwrite_def) (metis append_take_drop_id drop_drop add.commute)

section \<open>The fields of the page header\<close>

definition page_fields :: "byte \<Rightarrow> bool \<Rightarrow> nat \<Rightarrow> nat \<Rightarrow> nat \<Rightarrow> bytes \<Rightarrow> bool" where
  "page_fields kind root n ks vs bs \<longleftrightarrow>
     length bs = PAGE_SIZE \<and> bs ! 0 = kind \<and> bs ! 1 = of_bool root \<and>
     load_le 2 bs 2 = (of_nat n :: u16) \<and> n < 2 ^ 16 \<and> load_le 2 bs 4 = (64 :: u16) \<and>
     bytes_are_zero (take 2 (drop 6 bs)) \<and> bytes_are_zero (take 20 (drop 44 bs)) \<and>
     load_le 2 bs 40 = (of_nat ks :: u16) \<and> load_le 2 bs 42 = (of_nat vs :: u16) \<and>
     0 < ks \<and> ks < 2 ^ 16 \<and> 0 < vs \<and> vs < 2 ^ 16"

text \<open>The links of a page.\<close>

definition page_links :: "bytes \<Rightarrow> u64 \<times> u64" where
  "page_links bs = (load_le 8 bs 16, load_le 8 bs 32)"

text \<open>The entries of a page, as the concatenation of their bytes.\<close>

definition page_area :: "bytes list \<Rightarrow> bytes \<Rightarrow> bool" where
  "page_area cs bs \<longleftrightarrow> take (length (concat cs)) (drop 64 bs) = concat cs"

lemma page_reads:
  assumes "length bs = PAGE_SIZE"
  shows "page_key_count bs = unat (load_le 2 bs 2 :: u16)"
    "page_key_size bs = unat (load_le 2 bs 40 :: u16)"
    "page_value_size bs = unat (load_le 2 bs 42 :: u16)"
    "page_next_leaf_page_id bs = fst (page_links bs)"
    "page_first_child_page_id bs = snd (page_links bs)"
  using assms
  by (simp_all add: page_key_count_def page_key_size_def page_value_size_def page_links_def
      page_next_leaf_page_id_def page_first_child_page_id_def read_le_in_bounds PAGE_SIZE_def)

lemma page_fields_reads:
  assumes "page_fields kind root n ks vs bs"
  shows "length bs = PAGE_SIZE" "page_key_count bs = n" "page_key_size bs = ks"
    "page_value_size bs = vs" "page_is_root bs = root"
    "page_kind bs = (if kind = BTREE_INTERNAL_PAGE_KIND then Internal else Leaf)"
proof -
  show len: "length bs = PAGE_SIZE" using assms by (simp add: page_fields_def)
  show "page_key_count bs = n" "page_key_size bs = ks" "page_value_size bs = vs"
    using assms by (simp_all add: page_reads[OF len] page_fields_def unat_of_nat)
  show "page_is_root bs = root"
    using assms by (simp add: page_fields_def page_is_root_def BTREE_PAGE_ROOT_FLAG_def)
  show "page_kind bs = (if kind = BTREE_INTERNAL_PAGE_KIND then Internal else Leaf)"
    using assms by (simp add: page_fields_def page_kind_def)
qed

lemma root_flag_only:
  "(b AND NOT BTREE_PAGE_ROOT_FLAG = 0) \<longleftrightarrow> b = of_bool (b AND BTREE_PAGE_ROOT_FLAG \<noteq> (0 :: byte))"
proof -
  have "b AND 1 = of_bool (odd b)"
    by (simp add: and_one_eq odd_iff_mod_2_eq_one)
  then have flag: "of_bool (b AND 1 \<noteq> 0) = b AND 1"
    by (cases "odd b") simp_all
  have "b AND NOT 1 = 0 \<longleftrightarrow> b = b AND 1"
    by (auto simp: bit_eq_iff[where ?'a = byte] bit_simps)
  with flag show ?thesis
    by (simp add: BTREE_PAGE_ROOT_FLAG_def)
qed

lemma kind_distinct [simp]:
  "BTREE_INTERNAL_PAGE_KIND \<noteq> BTREE_LEAF_PAGE_KIND" "BTREE_LEAF_PAGE_KIND \<noteq> BTREE_INTERNAL_PAGE_KIND"
  by (simp_all add: BTREE_INTERNAL_PAGE_KIND_def BTREE_LEAF_PAGE_KIND_def)

text \<open>Validation accepts exactly the pages with a header and a number of entries that fits.\<close>

definition slot_size :: "byte \<Rightarrow> nat \<Rightarrow> nat \<Rightarrow> nat" where
  "slot_size kind ks vs = (if kind = BTREE_LEAF_PAGE_KIND then ks + vs else ks + 8)"

definition slot_capacity :: "byte \<Rightarrow> nat \<Rightarrow> nat \<Rightarrow> nat" where
  "slot_capacity kind ks vs = BTREE_PAGE_ENTRY_AREA_SIZE div slot_size kind ks vs"

definition kind_fits :: "byte \<Rightarrow> nat \<Rightarrow> nat \<Rightarrow> bool" where
  "kind_fits kind ks vs \<longleftrightarrow>
     kind = BTREE_LEAF_PAGE_KIND \<and> 1 \<le> slot_capacity kind ks vs \<or>
     kind = BTREE_INTERNAL_PAGE_KIND \<and> 2 \<le> slot_capacity kind ks vs"

lemma validate_page_iff:
  "validate_page bs = Ok \<longleftrightarrow> page_fields (bs ! 0) (page_is_root bs) (page_key_count bs)
     (page_key_size bs) (page_value_size bs) bs \<and>
     kind_fits (bs ! 0) (page_key_size bs) (page_value_size bs) \<and>
     page_key_count bs \<le> slot_capacity (bs ! 0) (page_key_size bs) (page_value_size bs)"
proof (cases "length bs = PAGE_SIZE")
  case True
  have nz: "w \<noteq> 0 \<longleftrightarrow> 0 < unat w" for w :: u16
    by (simp add: unat_gt_0)
  have bound: "unat w < 2 ^ 16" for w :: u16
    using unsigned_less[of w, where ?'a = nat] by simp
  have flag: "bs ! 1 AND NOT BTREE_PAGE_ROOT_FLAG = 0 \<longleftrightarrow> bs ! 1 = of_bool (page_is_root bs)"
    by (simp add: root_flag_only page_is_root_def)
  have size64: "unat (w :: u16) = BTREE_PAGE_HEADER_SIZE \<longleftrightarrow> w = 64" for w
  proof
    assume "unat w = BTREE_PAGE_HEADER_SIZE"
    then have "of_nat (unat w) = (of_nat 64 :: u16)" by (simp only: BTREE_PAGE_HEADER_SIZE_def)
    then show "w = 64" by simp
  qed (simp add: BTREE_PAGE_HEADER_SIZE_def)
  show ?thesis
    using True bound
    unfolding validate_page_def Let_def flag kind_fits_def slot_capacity_def slot_size_def
    by (auto simp: page_fields_def page_reads ensure_Inr_iff bind_result_Inr_iff read_le_in_bounds
        PAGE_SIZE_def size64 nz BTREE_PAGE_RESERVED_RANGES_def)
qed (simp add: validate_page_def page_fields_def ensure_def)

section \<open>Stores in the header and in the entries\<close>

lemma page_fields_overwrite:
  assumes "page_fields kind root n ks vs bs" "64 \<le> off" "off + length ys \<le> PAGE_SIZE"
  shows "page_fields kind root n ks vs (overwrite bs off ys)"
    and "page_links (overwrite bs off ys) = page_links bs"
proof -
  have len: "length bs = PAGE_SIZE" using assms(1) by (simp add: page_fields_def)
  have nth: "overwrite bs off ys ! i = bs ! i" if "i < 64" for i
    using that assms(2,3) len by (subst nth_overwrite) (simp_all add: PAGE_SIZE_def)
  have load: "load_le m (overwrite bs off ys) p = load_le m bs p" if "p + m \<le> 64" for m p
    using that by (intro load_le_cong) (simp add: nth)
  have range: "take m (drop p (overwrite bs off ys)) = take m (drop p bs)" if "p + m \<le> 64" for m p
    using that assms(2,3) len by (intro read_overwrite_other) simp_all
  show "page_fields kind root n ks vs (overwrite bs off ys)"
    using assms len by (simp add: page_fields_def nth load range)
  show "page_links (overwrite bs off ys) = page_links bs"
    by (simp add: page_links_def load)
qed

text \<open>A store of an integer in the header leaves the rest of the header and the entries.\<close>

lemma header_store:
  assumes "length bs = PAGE_SIZE" "off + m \<le> 64"
  shows "length (store_le m bs off v) = PAGE_SIZE"
    and "drop 64 (store_le m bs off v) = drop 64 bs"
    and "i < 64 \<Longrightarrow> i < off \<or> off + m \<le> i \<Longrightarrow> store_le m bs off v ! i = bs ! i"
    and "p + k \<le> 64 \<Longrightarrow> p + k \<le> off \<or> off + m \<le> p \<Longrightarrow>
      load_le k (store_le m bs off v) p = load_le k bs p"
    and "p + k \<le> 64 \<Longrightarrow> p + k \<le> off \<or> off + m \<le> p \<Longrightarrow>
      take k (drop p (store_le m bs off v)) = take k (drop p bs)"
proof -
  have fit: "off + m \<le> length bs" using assms by (simp add: PAGE_SIZE_def)
  show "length (store_le m bs off v) = PAGE_SIZE" using fit assms(1) by simp
  show "drop 64 (store_le m bs off v) = drop 64 bs"
    using fit assms(2) by (simp add: store_le_overwrite)
  show "i < 64 \<Longrightarrow> i < off \<or> off + m \<le> i \<Longrightarrow> store_le m bs off v ! i = bs ! i"
    using fit assms(1) by (subst nth_store_le) (auto simp: PAGE_SIZE_def)
  show "p + k \<le> 64 \<Longrightarrow> p + k \<le> off \<or> off + m \<le> p \<Longrightarrow>
      load_le k (store_le m bs off v) p = load_le k bs p"
    using fit assms(1) by (intro load_le_store_other) (auto simp: PAGE_SIZE_def)
  show "p + k \<le> 64 \<Longrightarrow> p + k \<le> off \<or> off + m \<le> p \<Longrightarrow>
      take k (drop p (store_le m bs off v)) = take k (drop p bs)"
    using fit by (simp add: store_le_overwrite read_overwrite_other)
qed

lemma set_key_count_effect:
  assumes "page_fields kind root n ks vs bs" "n' < 2 ^ 16"
  shows "\<exists>bs'. page_set_key_count n' bs = Inr bs' \<and> page_fields kind root n' ks vs bs' \<and>
    page_links bs' = page_links bs \<and> drop 64 bs' = drop 64 bs"
proof -
  have len: "length bs = PAGE_SIZE" using assms(1) by (simp add: page_fields_def)
  have "page_set_key_count n' bs = Inr (store_le 2 bs 2 (of_nat n' :: u16))"
    using len by (simp add: page_set_key_count_def write_le_in_bounds PAGE_SIZE_def)
  moreover have "load_le 2 (store_le 2 bs 2 (of_nat n' :: u16)) 2 = (of_nat n' :: u16)"
    using len by (simp add: PAGE_SIZE_def)
  ultimately show ?thesis
    using assms len by (simp add: page_fields_def page_links_def header_store)
qed

lemma set_link_effect:
  assumes "page_fields kind root n ks vs bs"
  shows "page_fields kind root n ks vs (page_set_parent_page_id p bs)"
    "page_links (page_set_parent_page_id p bs) = page_links bs"
    "drop 64 (page_set_parent_page_id p bs) = drop 64 bs"
    "page_fields kind root n ks vs (page_set_previous_leaf_page_id p bs)"
    "page_links (page_set_previous_leaf_page_id p bs) = page_links bs"
    "drop 64 (page_set_previous_leaf_page_id p bs) = drop 64 bs"
    "page_fields kind root n ks vs (page_set_next_leaf_page_id p bs)"
    "page_links (page_set_next_leaf_page_id p bs) = (p, snd (page_links bs))"
    "drop 64 (page_set_next_leaf_page_id p bs) = drop 64 bs"
    "page_fields kind root n ks vs (page_set_first_child_page_id p bs)"
    "page_links (page_set_first_child_page_id p bs) = (fst (page_links bs), p)"
    "drop 64 (page_set_first_child_page_id p bs) = drop 64 bs"
proof -
  have len: "length bs = PAGE_SIZE" using assms(1) by (simp add: page_fields_def)
  have written: "write_u64_le bs off v = Inr (store_le 8 bs off v)" if "off + 8 \<le> 64" for off v
    using that len by (simp add: write_le_in_bounds PAGE_SIZE_def)
  have same: "load_le 8 (store_le 8 bs off v) off = v" if "off + 8 \<le> 64" for off and v :: u64
    using that len by (simp add: PAGE_SIZE_def)
  note setters = page_set_parent_page_id_def page_set_previous_leaf_page_id_def
    page_set_next_leaf_page_id_def page_set_first_child_page_id_def
  show "page_fields kind root n ks vs (page_set_parent_page_id p bs)"
    "page_fields kind root n ks vs (page_set_previous_leaf_page_id p bs)"
    "page_fields kind root n ks vs (page_set_next_leaf_page_id p bs)"
    "page_fields kind root n ks vs (page_set_first_child_page_id p bs)"
    using assms by (simp_all add: setters stored_def written page_fields_def header_store)
  show "page_links (page_set_parent_page_id p bs) = page_links bs"
    "page_links (page_set_previous_leaf_page_id p bs) = page_links bs"
    "page_links (page_set_next_leaf_page_id p bs) = (p, snd (page_links bs))"
    "page_links (page_set_first_child_page_id p bs) = (fst (page_links bs), p)"
    using len by (simp_all add: setters stored_def written page_links_def header_store same)
  show "drop 64 (page_set_parent_page_id p bs) = drop 64 bs"
    "drop 64 (page_set_previous_leaf_page_id p bs) = drop 64 bs"
    "drop 64 (page_set_next_leaf_page_id p bs) = drop 64 bs"
    "drop 64 (page_set_first_child_page_id p bs) = drop 64 bs"
    using len by (simp_all add: setters stored_def written header_store)
qed

lemma set_root_effect:
  assumes "page_fields kind root n ks vs bs"
  shows "page_fields kind root' n ks vs (page_set_root root' bs)"
    "page_links (page_set_root root' bs) = page_links bs"
    "drop 64 (page_set_root root' bs) = drop 64 bs"
proof -
  have len: "length bs = PAGE_SIZE" and flag: "bs ! 1 = of_bool root"
    using assms(1) by (simp_all add: page_fields_def)
  have set: "page_set_root root' bs = bs[1 := of_bool root']"
    using flag by (auto simp: page_set_root_def BTREE_PAGE_ROOT_FLAG_def Let_def)
  have load: "load_le m (bs[Suc 0 := b]) p = load_le m bs p" if "2 \<le> p" for m p b
    using that by (intro load_le_cong) simp
  show "page_fields kind root' n ks vs (page_set_root root' bs)"
    using assms by (simp add: set page_fields_def load PAGE_SIZE_def)
  show "page_links (page_set_root root' bs) = page_links bs"
    "drop 64 (page_set_root root' bs) = drop 64 bs"
    by (simp_all add: set page_links_def load)
qed

section \<open>The entries of a page\<close>

lemma concat_slices: "n * m \<le> length xs \<Longrightarrow>
  concat (map (\<lambda>i. take m (drop (i * m) xs)) [0..<n]) = take (n * m) xs"
proof (induction n)
  case (Suc n)
  then have "concat (map (\<lambda>i. take m (drop (i * m) xs)) [0..<Suc n]) =
      take (n * m) xs @ take m (drop (n * m) xs)" by simp
  then show ?case by (simp add: take_add[symmetric] add.commute)
qed simp

lemma page_area_slice:
  assumes "page_area cs bs" "\<forall>c \<in> set cs. length c = m" "i < length cs" "j + k \<le> m"
  shows "take k (drop (64 + i * m + j) bs) = take k (drop j (cs ! i))"
proof -
  let ?all = "concat cs"
  have len: "length ?all = length cs * m" using assms(2) by (rule length_concat_chunks)
  have "(i + 1) * m \<le> length cs * m" using assms(3) by (intro mult_right_mono) simp_all
  then have bound: "i * m + m \<le> length ?all" by (simp add: len)
  have "take k (drop j (cs ! i)) = take k (drop j (take m (drop (i * m) ?all)))"
    using nth_concat_chunks[OF assms(2,3)] by simp
  also have "\<dots> = take k (drop (i * m + j) ?all)"
    using assms(4) by (simp add: drop_take min_def add.commute)
  also have "?all = take (length ?all) (drop 64 bs)"
    using assms(1) by (simp add: page_area_def)
  also have "take k (drop (i * m + j) \<dots>) = take k (drop (64 + i * m + j) bs)"
    using bound assms(4) by (simp add: drop_take min_def ac_simps)
  finally show ?thesis by simp
qed

lemma page_area_slices:
  assumes "64 + n * m \<le> length bs"
  shows "page_area (map (\<lambda>i. take m (drop (64 + i * m) bs)) [0..<n]) bs"
proof -
  have "concat (map (\<lambda>i. take m (drop (64 + i * m) bs)) [0..<n]) = take (n * m) (drop 64 bs)"
    using concat_slices[of n m "drop 64 bs"] assms by (simp add: add.commute)
  with assms show ?thesis by (simp add: page_area_def min_def)
qed

text \<open>Overwriting the entries from one entry on.\<close>

lemma page_area_overwrite:
  assumes "page_area cs bs" "\<forall>c \<in> set cs. length c = m" "i \<le> length cs"
    and "64 + i * m + length (concat ds) \<le> length bs"
  shows "page_area (take i cs @ ds) (overwrite bs (64 + i * m) (concat ds))"
proof -
  have front: "take (i * m) (drop 64 bs) = concat (take i cs)"
  proof -
    have "i * m \<le> length (concat cs)"
      using assms(3) by (simp add: length_concat_chunks[OF assms(2)])
    then have "take (i * m) (drop 64 bs) = take (i * m) (take (length (concat cs)) (drop 64 bs))"
      by (simp add: min_def)
    with assms(1) have "take (i * m) (drop 64 bs) = take (i * m) (concat cs)"
      by (simp add: page_area_def)
    with take_concat_chunks[OF assms(2,3)] show ?thesis by simp
  qed
  have len: "length (concat (take i cs)) = i * m"
    using arg_cong[OF front, of length] assms(4) by simp
  have "drop 64 (overwrite bs (64 + i * m) (concat ds)) =
      take (i * m) (drop 64 bs) @ concat ds @ drop (64 + i * m + length (concat ds)) bs"
    using assms(4) by (simp add: overwrite_def drop_take add.commute)
  then show ?thesis
    by (simp add: page_area_def front len)
qed

lemma page_area_shift:
  assumes "page_area cs bs" "\<forall>c \<in> set cs. length c = m" "i \<le> length cs"
  shows "take ((length cs - i) * m) (drop (64 + i * m) bs) = concat (drop i cs)"
proof -
  have len: "length (concat cs) = length cs * m" using assms(2) by (rule length_concat_chunks)
  have "concat (drop i cs) = drop (i * m) (take (length (concat cs)) (drop 64 bs))"
    using assms by (simp add: drop_concat_chunks page_area_def)
  also have "\<dots> = take ((length cs - i) * m) (drop (64 + i * m) bs)"
    by (simp add: drop_take len diff_mult_distrib add.commute)
  finally show ?thesis by simp
qed

text \<open>
  What \<open>insert_entry\<close> and \<open>erase_entry\<close> do to the bytes: the entries from an index on move
  by one entry, and the new entry is stored.
\<close>

lemma guarded_memmove:
  "(if n > 0 then memmove bs dst src n else bs) = overwrite bs dst (take n (drop src bs))"
  by (simp add: memmove_def)

definition shift_right :: "nat \<Rightarrow> nat \<Rightarrow> nat \<Rightarrow> bytes \<Rightarrow> bytes" where
  "shift_right i n m bs =
     (if (n - i) * m > 0 then memmove bs (64 + i * m + m) (64 + i * m) ((n - i) * m) else bs)"

definition shift_left :: "nat \<Rightarrow> nat \<Rightarrow> nat \<Rightarrow> bytes \<Rightarrow> bytes" where
  "shift_left i n m bs =
     (if (n - i - 1) * m > 0 then memmove bs (64 + i * m) (64 + i * m + m) ((n - i - 1) * m) else bs)"

lemma insert_slot_area:
  assumes "page_area cs bs" "\<forall>c \<in> set cs. length c = m" "i \<le> length cs"
    and "length ys + length zs = m" "64 + (length cs + 1) * m \<le> length bs"
  shows "overwrite (overwrite (shift_right i (length cs) m bs) (64 + i * m) ys)
      (64 + i * m + length ys) zs = overwrite bs (64 + i * m) (concat ((ys @ zs) # drop i cs))"
    and "page_area (take i cs @ (ys @ zs) # drop i cs)
      (overwrite bs (64 + i * m) (concat ((ys @ zs) # drop i cs)))"
    and "64 + i * m + length (concat ((ys @ zs) # drop i cs)) = 64 + (length cs + 1) * m"
proof -
  have tail: "length (concat (drop i cs)) = (length cs - i) * m"
    using assms(2) by (subst length_concat_chunks) (auto dest: in_set_dropD)
  have "i * m + (length cs - i) * m = length cs * m"
    using assms(3) by (simp add: add_mult_distrib[symmetric])
  then show total: "64 + i * m + length (concat ((ys @ zs) # drop i cs)) = 64 + (length cs + 1) * m"
    using assms(4) tail by simp
  have shift: "shift_right i (length cs) m bs = overwrite bs (64 + i * m + m) (concat (drop i cs))"
    unfolding shift_right_def guarded_memmove using page_area_shift[OF assms(1-3)] by simp
  have fit: "64 + i * m + m + length (concat (drop i cs)) \<le> length bs"
    using total assms(4,5) by simp
  have m: "m = length (ys @ zs)" using assms(4) by simp
  have "overwrite (overwrite (overwrite bs (64 + i * m + m) (concat (drop i cs))) (64 + i * m) ys)
      (64 + i * m + length ys) zs =
      overwrite (overwrite bs (64 + i * m + length (ys @ zs)) (concat (drop i cs))) (64 + i * m) (ys @ zs)"
    using fit assms(4) unfolding m[symmetric] by (subst overwrite_append) auto
  also have "\<dots> = overwrite bs (64 + i * m) ((ys @ zs) @ concat (drop i cs))"
    using fit assms(4) by (subst overwrite_overwrite_before) simp_all
  finally show "overwrite (overwrite (shift_right i (length cs) m bs) (64 + i * m) ys)
      (64 + i * m + length ys) zs = overwrite bs (64 + i * m) (concat ((ys @ zs) # drop i cs))"
    by (simp add: shift)
  show "page_area (take i cs @ (ys @ zs) # drop i cs)
      (overwrite bs (64 + i * m) (concat ((ys @ zs) # drop i cs)))"
    by (rule page_area_overwrite[OF assms(1-3)]) (use total assms(5) in simp)
qed

lemma page_area_update:
  assumes "page_area cs bs" "\<forall>c \<in> set cs. length c = m" "i < length cs" "length c = m"
    and "64 + length cs * m \<le> length bs"
  shows "page_area (cs[i := c]) (overwrite bs (64 + i * m) c)" and "64 + i * m + m \<le> length bs"
proof -
  let ?rest = "concat (drop (Suc i) cs)"
  have len: "length ?rest = (length cs - Suc i) * m"
    using assms(2) by (subst length_concat_chunks) (auto dest: in_set_dropD)
  have "Suc i * m + (length cs - Suc i) * m = length cs * m"
    using assms(3) by (metis Suc_leI add_mult_distrib le_add_diff_inverse)
  then have fit: "64 + i * m + m + length ?rest \<le> length bs"
    using assms(5) len by simp
  then show "64 + i * m + m \<le> length bs" by simp
  have "take (length ?rest) (drop (64 + i * m + m) bs) = ?rest"
    using page_area_shift[OF assms(1,2), of "Suc i"] assms(3) by (simp add: len ac_simps)
  then have "take (length ?rest) (drop (64 + i * m + m) (overwrite bs (64 + i * m) c)) = ?rest"
    using fit assms(4) by (simp add: read_overwrite_other)
  then have "overwrite (overwrite bs (64 + i * m) c) (64 + i * m + m) ?rest = overwrite bs (64 + i * m) c"
    using fit assms(4) by (intro overwrite_same_content) simp_all
  then have same: "overwrite bs (64 + i * m) (c @ ?rest) = overwrite bs (64 + i * m) c"
    using overwrite_append[of "64 + i * m" bs c ?rest] fit assms(4) by simp
  have "page_area (take i cs @ c # drop (Suc i) cs)
      (overwrite bs (64 + i * m) (concat (c # drop (Suc i) cs)))"
    using fit assms(3,4) by (intro page_area_overwrite[OF assms(1,2)]) simp_all
  then show "page_area (cs[i := c]) (overwrite bs (64 + i * m) c)"
    using assms(3) same by (simp add: upd_conv_take_nth_drop)
qed

lemma erase_slot_area:
  assumes "page_area cs bs" "\<forall>c \<in> set cs. length c = m" "i < length cs"
    and "64 + length cs * m \<le> length bs"
  shows "shift_left i (length cs) m bs = overwrite bs (64 + i * m) (concat (drop (Suc i) cs))"
    and "page_area (take i cs @ drop (Suc i) cs)
      (overwrite bs (64 + i * m) (concat (drop (Suc i) cs)))"
    and "64 + i * m + length (concat (drop (Suc i) cs)) \<le> 64 + length cs * m"
proof -
  have tail: "length (concat (drop (Suc i) cs)) = (length cs - i - 1) * m"
    using assms(2) by (subst length_concat_chunks) (auto dest: in_set_dropD)
  have "i * m + (length cs - i - 1) * m = (length cs - 1) * m"
    using assms(3) by (simp add: add_mult_distrib[symmetric])
  then show total: "64 + i * m + length (concat (drop (Suc i) cs)) \<le> 64 + length cs * m"
    using tail by (simp add: mult_le_mono1)
  show "shift_left i (length cs) m bs = overwrite bs (64 + i * m) (concat (drop (Suc i) cs))"
    unfolding shift_left_def guarded_memmove
    using page_area_shift[OF assms(1,2), of "Suc i"] assms(3) by (simp add: ac_simps)
  show "page_area (take i cs @ drop (Suc i) cs)
      (overwrite bs (64 + i * m) (concat (drop (Suc i) cs)))"
    by (rule page_area_overwrite[OF assms(1,2)]) (use total assms(3,4) in simp_all)
qed

end
