(* ===== verification/NodeView.thy ===== *)
theory NodeView
  imports BTreeNode
begin

text \<open>
  The view \<open>node_of\<close> of a page of the B+ tree and the effect of the operations of the two page
  classes on it.
\<close>

section \<open>Nodes\<close>

datatype node =
    LeafNode bool "(bytes \<times> bytes) list" page_id
  | InternalNode bool page_id "(bytes \<times> page_id) list"

definition leaf_entries :: "bytes \<Rightarrow> (bytes \<times> bytes) list" where
  "leaf_entries bs = map (\<lambda>i. (projr (leaf_key_at bs i), projr (leaf_value_at bs i)))
     [0..<page_key_count bs]"

definition internal_entries :: "bytes \<Rightarrow> (bytes \<times> page_id) list" where
  "internal_entries bs =
     map (\<lambda>i. (projr (internal_key_at bs i), projr (internal_right_child_page_id_at bs i)))
       [0..<page_key_count bs]"

definition node_of :: "nat \<Rightarrow> nat \<Rightarrow> bytes \<Rightarrow> node option" where
  "node_of ks vs bs =
     (if validate_page bs = Ok \<and> page_key_size bs = ks \<and> page_value_size bs = vs then
        Some (case page_kind bs of
            Leaf \<Rightarrow> LeafNode (page_is_root bs) (leaf_entries bs) (page_next_leaf_page_id bs)
          | Internal \<Rightarrow> InternalNode (page_is_root bs) (page_first_child_page_id bs) (internal_entries bs))
      else None)"

text \<open>The bytes of an entry.\<close>

definition leaf_slot :: "bytes \<times> bytes \<Rightarrow> bytes" where
  "leaf_slot e = fst e @ snd e"

definition child_slot :: "bytes \<times> page_id \<Rightarrow> bytes" where
  "child_slot e = fst e @ map (byte_of (snd e)) [0..<8]"

definition leaf_capacity_of :: "nat \<Rightarrow> nat \<Rightarrow> nat" where
  "leaf_capacity_of ks vs = BTREE_PAGE_ENTRY_AREA_SIZE div (ks + vs)"

definition internal_capacity_of :: "nat \<Rightarrow> nat" where
  "internal_capacity_of ks = BTREE_PAGE_ENTRY_AREA_SIZE div (ks + 8)"

lemma area_size [simp]: "BTREE_PAGE_ENTRY_AREA_SIZE = 4032"
  by (simp add: BTREE_PAGE_ENTRY_AREA_SIZE_def PAGE_SIZE_def BTREE_PAGE_HEADER_SIZE_def)

lemma entries_fit:
  assumes "n \<le> 4032 div m"
  shows "64 + n * m \<le> PAGE_SIZE" "n < 2 ^ 16"
proof -
  have "n * m \<le> 4032 div m * m" using assms by (rule mult_right_mono) simp
  also have "\<dots> \<le> 4032" by (rule div_times_less_eq_dividend)
  finally show "64 + n * m \<le> PAGE_SIZE" by (simp add: PAGE_SIZE_def)
  have "n \<le> 4032" using assms div_le_dividend[of 4032 m] by linarith
  then show "n < 2 ^ 16" by simp
qed

lemma page_offset_fit:
  "page_fields kind root n ks vs bs \<Longrightarrow> length bs = PAGE_SIZE"
  by (simp add: page_fields_def)

text \<open>The view of a leaf, and of an internal page, in terms of the bytes.\<close>

lemma leaf_reads:
  assumes "page_fields BTREE_LEAF_PAGE_KIND root (length es) ks vs bs"
    and "page_area (map leaf_slot es) bs" "\<forall>(k, v) \<in> set es. length k = ks \<and> length v = vs"
    and "i < length es"
  shows "leaf_key_at bs i = Inr (fst (es ! i))" "leaf_value_at bs i = Inr (snd (es ! i))"
    "leaf_entry_at bs i = Inr (leaf_slot (es ! i))"
proof -
  note reads = page_fields_reads[OF assms(1)]
  have sizes: "\<forall>c \<in> set (map leaf_slot es). length c = ks + vs"
    using assms(3) by (auto simp: leaf_slot_def)
  have e: "length (fst (es ! i)) = ks" "length (snd (es ! i)) = vs"
    using assms(3,4) nth_mem[OF assms(4)] by (auto simp: case_prod_beta)
  note slice = page_area_slice[OF assms(2) sizes, of i]
  have "take ks (drop (64 + i * (ks + vs)) bs) = fst (es ! i)"
    using slice[of 0 ks] assms(4) e by (simp add: leaf_slot_def)
  moreover have "take vs (drop (64 + i * (ks + vs) + ks) bs) = snd (es ! i)"
    using slice[of ks vs] assms(4) e by (simp add: leaf_slot_def)
  moreover have "take (ks + vs) (drop (64 + i * (ks + vs)) bs) = leaf_slot (es ! i)"
    using slice[of 0 "ks + vs"] assms(4) e by (simp add: leaf_slot_def)
  ultimately show "leaf_key_at bs i = Inr (fst (es ! i))" "leaf_value_at bs i = Inr (snd (es ! i))"
    "leaf_entry_at bs i = Inr (leaf_slot (es ! i))"
    using assms(4) by (simp_all add: leaf_key_at_def leaf_value_at_def leaf_entry_at_def reads
        leaf_entry_size_def BTREE_PAGE_ENTRY_ARRAY_OFFSET_def BTREE_PAGE_HEADER_SIZE_def Let_def)
qed

lemma load_child_slot:
  assumes "page_area (map child_slot es) bs" "\<forall>e \<in> set es. length (fst e) = ks" "i < length es"
  shows "take ks (drop (64 + i * (ks + 8)) bs) = fst (es ! i)"
    and "load_le 8 bs (64 + i * (ks + 8) + ks) = snd (es ! i)"
proof -
  have sizes: "\<forall>c \<in> set (map child_slot es). length c = ks + 8"
    using assms(2) by (auto simp: child_slot_def)
  have e: "length (fst (es ! i)) = ks" using assms(2,3) by simp
  note slice = page_area_slice[OF assms(1) sizes, of i]
  show "take ks (drop (64 + i * (ks + 8)) bs) = fst (es ! i)"
    using slice[of 0 ks] assms(3) e by (simp add: child_slot_def)
  have "take 8 (drop (64 + i * (ks + 8) + ks) bs) = map (byte_of (snd (es ! i))) [0..<8]"
    using slice[of ks 8] assms(3) e by (simp add: child_slot_def)
  then show "load_le 8 bs (64 + i * (ks + 8) + ks) = snd (es ! i)"
    by (intro load_le_map_byte_of) simp_all
qed

lemma internal_reads:
  assumes "page_fields BTREE_INTERNAL_PAGE_KIND root (length es) ks vs bs"
    and "page_area (map child_slot es) bs" "\<forall>e \<in> set es. length (fst e) = ks"
    and "i < length es" "length es \<le> internal_capacity_of ks"
  shows "internal_key_at bs i = Inr (fst (es ! i))"
    "internal_right_child_page_id_at bs i = Inr (snd (es ! i))"
proof -
  note reads = page_fields_reads[OF assms(1)]
  have "(i + 1) * (ks + 8) \<le> length es * (ks + 8)" using assms(4) by (intro mult_right_mono) simp_all
  then have "64 + i * (ks + 8) + ks + 8 \<le> PAGE_SIZE"
    using entries_fit(1)[of "length es" "ks + 8"] assms(5) by (simp add: internal_capacity_of_def)
  then show "internal_key_at bs i = Inr (fst (es ! i))"
    "internal_right_child_page_id_at bs i = Inr (snd (es ! i))"
    using load_child_slot[OF assms(2-4)] assms(4) reads(1)
    by (simp_all add: internal_key_at_def internal_right_child_page_id_at_def reads read_le_in_bounds
        internal_entry_size_def BTREE_PAGE_ENTRY_ARRAY_OFFSET_def BTREE_PAGE_HEADER_SIZE_def Let_def)
qed

lemma leaf_node_iff:
  "node_of ks vs bs = Some (LeafNode root es next) \<longleftrightarrow>
     page_fields BTREE_LEAF_PAGE_KIND root (length es) ks vs bs \<and> fst (page_links bs) = next \<and>
     1 \<le> leaf_capacity_of ks vs \<and> length es \<le> leaf_capacity_of ks vs \<and>
     (\<forall>(k, v) \<in> set es. length k = ks \<and> length v = vs) \<and> page_area (map leaf_slot es) bs"
    (is "?node \<longleftrightarrow> ?bytes")
proof
  assume ?bytes
  then have f: "page_fields BTREE_LEAF_PAGE_KIND root (length es) ks vs bs"
    and rest: "fst (page_links bs) = next" "1 \<le> leaf_capacity_of ks vs" "length es \<le> leaf_capacity_of ks vs"
    and es: "\<forall>(k, v) \<in> set es. length k = ks \<and> length v = vs" "page_area (map leaf_slot es) bs"
    by simp_all
  note reads = page_fields_reads[OF f]
  have kind: "bs ! 0 = BTREE_LEAF_PAGE_KIND" using f by (simp add: page_fields_def)
  have "leaf_entries bs = map (\<lambda>i. es ! i) [0..<length es]"
    unfolding leaf_entries_def reads(2)
    by (intro map_cong) (simp_all add: leaf_reads[OF f es(2,1)])
  then have "leaf_entries bs = es" by (simp add: map_nth)
  moreover have "validate_page bs = Ok"
    using f rest by (simp add: validate_page_iff reads kind kind_fits_def slot_capacity_def
        slot_size_def leaf_capacity_of_def)
  ultimately show ?node
    using rest reads by (simp add: node_of_def page_reads[OF reads(1)])
next
  assume node: ?node
  then have valid: "validate_page bs = Ok" and ks: "page_key_size bs = ks" "page_value_size bs = vs"
    by (simp_all add: node_of_def split: if_splits)
  have v: "page_fields (bs ! 0) (page_is_root bs) (page_key_count bs) ks vs bs"
      "kind_fits (bs ! 0) ks vs" "page_key_count bs \<le> slot_capacity (bs ! 0) ks vs"
    using valid[unfolded validate_page_iff] by (simp_all add: ks)
  have kind: "bs ! 0 = BTREE_LEAF_PAGE_KIND"
    using node v(2) by (auto simp: node_of_def page_kind_def kind_fits_def split: if_splits)
  have n: "page_key_count bs \<le> 4032 div (ks + vs)" "1 \<le> 4032 div (ks + vs)"
    using v(2,3) by (simp_all add: kind slot_capacity_def slot_size_def kind_fits_def)
  have len: "length bs = PAGE_SIZE" using v(1) by (simp add: page_fields_def)
  have parts: "es = leaf_entries bs" "root = page_is_root bs" "next = page_next_leaf_page_id bs"
    using node kind by (simp_all add: node_of_def page_kind_def split: if_splits)
  let ?slice = "\<lambda>m i j. take m (drop (64 + i * (ks + vs) + j) bs)"
  have es: "es = map (\<lambda>i. (?slice ks i 0, ?slice vs i ks)) [0..<page_key_count bs]"
    unfolding parts(1) leaf_entries_def
    by (intro map_cong refl) (simp add: leaf_key_at_def leaf_value_at_def ks leaf_entry_size_def
        BTREE_PAGE_ENTRY_ARRAY_OFFSET_def BTREE_PAGE_HEADER_SIZE_def Let_def)
  have fit: "64 + i * (ks + vs) + ks + vs \<le> length bs" if "i < page_key_count bs" for i
    using entries_fit(1)[of "Suc i" "ks + vs"] that n(1) by (simp add: len)
  have "map leaf_slot es = map (\<lambda>i. take (ks + vs) (drop (64 + i * (ks + vs)) bs)) [0..<page_key_count bs]"
    unfolding es by (simp add: leaf_slot_def take_add add.commute)
  then have "page_area (map leaf_slot es) bs"
    using page_area_slices[of "page_key_count bs" "ks + vs" bs] entries_fit(1)[OF n(1)] by (simp add: len)
  moreover have "\<forall>(k, v) \<in> set es. length k = ks \<and> length v = vs"
    by (auto simp: es min_def dest!: fit)
  moreover have length_es: "length es = page_key_count bs" by (simp add: es)
  ultimately show ?bytes
    using v(1) n kind parts(2,3) length_es by (simp add: leaf_capacity_of_def page_reads(4)[OF len])
qed

lemma internal_node_iff:
  "node_of ks vs bs = Some (InternalNode root first es) \<longleftrightarrow>
     page_fields BTREE_INTERNAL_PAGE_KIND root (length es) ks vs bs \<and> snd (page_links bs) = first \<and>
     2 \<le> internal_capacity_of ks \<and> length es \<le> internal_capacity_of ks \<and>
     (\<forall>e \<in> set es. length (fst e) = ks) \<and> page_area (map child_slot es) bs"
    (is "?node \<longleftrightarrow> ?bytes")
proof
  assume ?bytes
  then have f: "page_fields BTREE_INTERNAL_PAGE_KIND root (length es) ks vs bs"
    and rest: "snd (page_links bs) = first" "2 \<le> internal_capacity_of ks" "length es \<le> internal_capacity_of ks"
    and es: "\<forall>e \<in> set es. length (fst e) = ks" "page_area (map child_slot es) bs"
    by simp_all
  note reads = page_fields_reads[OF f]
  have kind: "bs ! 0 = BTREE_INTERNAL_PAGE_KIND" using f by (simp add: page_fields_def)
  have "internal_entries bs = map (\<lambda>i. es ! i) [0..<length es]"
    unfolding internal_entries_def reads(2)
    by (intro map_cong) (simp_all add: internal_reads[OF f es(2,1) _ rest(3)])
  then have "internal_entries bs = es" by (simp add: map_nth)
  moreover have "validate_page bs = Ok"
    using f rest by (simp add: validate_page_iff reads kind kind_fits_def slot_capacity_def
        slot_size_def internal_capacity_of_def)
  ultimately show ?node
    using rest reads by (simp add: node_of_def page_reads[OF reads(1)])
next
  assume node: ?node
  then have valid: "validate_page bs = Ok" and ks: "page_key_size bs = ks" "page_value_size bs = vs"
    by (simp_all add: node_of_def split: if_splits)
  have v: "page_fields (bs ! 0) (page_is_root bs) (page_key_count bs) ks vs bs"
      "kind_fits (bs ! 0) ks vs" "page_key_count bs \<le> slot_capacity (bs ! 0) ks vs"
    using valid[unfolded validate_page_iff] by (simp_all add: ks)
  have kind: "bs ! 0 = BTREE_INTERNAL_PAGE_KIND"
    using node v(2) by (auto simp: node_of_def page_kind_def kind_fits_def split: if_splits)
  have n: "page_key_count bs \<le> 4032 div (ks + 8)" "2 \<le> 4032 div (ks + 8)"
    using v(2,3) by (simp_all add: kind slot_capacity_def slot_size_def kind_fits_def)
  have len: "length bs = PAGE_SIZE" using v(1) by (simp add: page_fields_def)
  have parts: "es = internal_entries bs" "root = page_is_root bs" "first = page_first_child_page_id bs"
    using node kind by (simp_all add: node_of_def page_kind_def split: if_splits)
  let ?slice = "\<lambda>m i j. take m (drop (64 + i * (ks + 8) + j) bs)"
  have fit: "64 + i * (ks + 8) + ks + 8 \<le> length bs" if "i < page_key_count bs" for i
    using entries_fit(1)[of "Suc i" "ks + 8"] that n(1) by (simp add: len)
  have es: "es = map (\<lambda>i. (?slice ks i 0, load_le 8 bs (64 + i * (ks + 8) + ks))) [0..<page_key_count bs]"
    unfolding parts(1) internal_entries_def
    by (intro map_cong refl) (use fit in \<open>simp add: internal_key_at_def ks internal_entry_size_def
        internal_right_child_page_id_at_def read_le_in_bounds
        BTREE_PAGE_ENTRY_ARRAY_OFFSET_def BTREE_PAGE_HEADER_SIZE_def Let_def\<close>)
  have slot: "map (byte_of (load_le 8 bs p :: u64)) [0..<8] = take 8 (drop p bs)" if "p + 8 \<le> length bs" for p
    using that by (intro nth_equalityI) (simp_all add: byte_of_load_le)
  have "map child_slot es = map (\<lambda>i. take (ks + 8) (drop (64 + i * (ks + 8)) bs)) [0..<page_key_count bs]"
    unfolding es map_map comp_def
  proof (intro map_cong refl)
    fix i assume "i \<in> set [0..<page_key_count bs]"
    then have bound: "64 + i * (ks + 8) + ks + 8 \<le> length bs" using fit[of i] by simp
    show "child_slot (?slice ks i 0, load_le 8 bs (64 + i * (ks + 8) + ks)) =
        take (ks + 8) (drop (64 + i * (ks + 8)) bs)"
      unfolding child_slot_def fst_conv snd_conv slot[OF bound] by (simp add: take_add add.commute)
  qed
  then have "page_area (map child_slot es) bs"
    using page_area_slices[of "page_key_count bs" "ks + 8" bs] entries_fit(1)[OF n(1)] by (simp add: len)
  moreover have "\<forall>e \<in> set es. length (fst e) = ks"
    by (auto simp: es min_def dest!: fit)
  moreover have length_es: "length es = page_key_count bs" by (simp add: es)
  ultimately show ?bytes
    using v(1) n kind parts(2,3) length_es by (simp add: internal_capacity_of_def page_reads(5)[OF len])
qed

section \<open>The binary search\<close>

lemma search_loop_position:
  assumes "\<forall>i < length keys. key_at i = Inr (keys ! i)" "\<forall>i < length keys. go_right (keys ! i) \<longleftrightarrow> i < p"
    and "left \<le> p" "p \<le> right" "right \<le> length keys"
  shows "search_loop key_at go_right left right = Inr p"
  using assms
proof (induction key_at go_right left right rule: search_loop.induct)
  case (1 key_at go_right left right)
  show ?case
  proof (cases "left < right")
    case True
    let ?mid = "left + (right - left) div 2"
    have mid: "left \<le> ?mid" "?mid < right" using True by auto
    then have key: "key_at ?mid = Inr (keys ! ?mid)" "go_right (keys ! ?mid) \<longleftrightarrow> ?mid < p"
      using "1.prems" by simp_all
    show ?thesis
    proof (cases "go_right (keys ! ?mid)")
      case right: True
      with 1(1)[OF True refl right] "1.prems" key mid True show ?thesis
        by (subst search_loop.simps) (simp add: Let_def)
    next
      case left: False
      with 1(2)[OF True refl left] "1.prems" key mid True show ?thesis
        by (subst search_loop.simps) (simp add: Let_def)
    qed
  next
    case False
    with "1.prems" show ?thesis by (subst search_loop.simps) simp
  qed
qed

definition lower_position :: "bytes \<Rightarrow> (bytes \<times> 'a) list \<Rightarrow> nat" where
  "lower_position key es = length (takeWhile (\<lambda>e. fst e < key) es)"

definition upper_position :: "bytes \<Rightarrow> (bytes \<times> 'a) list \<Rightarrow> nat" where
  "upper_position key es = length (takeWhile (\<lambda>e. fst e \<le> key) es)"

lemma sorted_takeWhile_iff:
  fixes P :: "'k::linorder \<Rightarrow> bool"
  assumes "sorted (map fst es)" "\<And>a b. a \<le> b \<Longrightarrow> P b \<Longrightarrow> P a" "i < length es"
  shows "P (fst (es ! i)) \<longleftrightarrow> i < length (takeWhile (\<lambda>e. P (fst e)) es)"
proof
  assume P: "P (fst (es ! i))"
  show "i < length (takeWhile (\<lambda>e. P (fst e)) es)"
  proof (rule ccontr)
    let ?n = "length (takeWhile (\<lambda>e. P (fst e)) es)"
    assume "\<not> i < ?n"
    then have "?n \<le> i" "?n < length es" using assms(3) by simp_all
    then have "fst (es ! ?n) \<le> fst (es ! i)"
      using sorted_nth_mono[OF assms(1), of ?n i] assms(3) by simp
    with P assms(2) have "P (fst (es ! ?n))" by blast
    with nth_length_takeWhile[OF \<open>?n < length es\<close>] show False by simp
  qed
next
  assume less: "i < length (takeWhile (\<lambda>e. P (fst e)) es)"
  then have "takeWhile (\<lambda>e. P (fst e)) es ! i \<in> set (takeWhile (\<lambda>e. P (fst e)) es)"
    by (rule nth_mem)
  then show "P (fst (es ! i))"
    using set_takeWhileD takeWhile_nth[OF less] by metis
qed

lemma positions_le [simp]:
  "lower_position key es \<le> length es" "upper_position key es \<le> length es"
  by (simp_all add: lower_position_def upper_position_def length_takeWhile_le)

lemma memcmp_order:
  assumes "length a = length b"
  shows "memcmp a b < 0 \<longleftrightarrow> a < b" "memcmp a b = 0 \<longleftrightarrow> a = b" "memcmp a b \<le> 0 \<longleftrightarrow> a \<le> b"
proof -
  show lt: "memcmp a b < 0 \<longleftrightarrow> a < b" using assms by (rule memcmp_lexorder)
  show eq: "memcmp a b = 0 \<longleftrightarrow> a = b" using assms by (rule memcmp_be_value)
  show "memcmp a b \<le> 0 \<longleftrightarrow> a \<le> b" using lt eq by auto
qed

section \<open>Operations on a leaf\<close>

lemma leaf_view:
  assumes "node_of ks vs bs = Some (LeafNode root es next)"
  shows "length bs = PAGE_SIZE" "page_open bs = Inr bs" "leaf_open bs = Inr bs" "page_kind bs = Leaf"
    "page_key_count bs = length es" "page_is_root bs = root" "page_next_leaf_page_id bs = next"
    "page_key_size bs = ks" "page_value_size bs = vs" "leaf_entry_size bs = ks + vs"
    "leaf_capacity bs = leaf_capacity_of ks vs"
proof -
  have f: "page_fields BTREE_LEAF_PAGE_KIND root (length es) ks vs bs" "fst (page_links bs) = next"
    using assms by (simp_all add: leaf_node_iff)
  note reads = page_fields_reads[OF f(1)]
  show "length bs = PAGE_SIZE" "page_key_count bs = length es" "page_is_root bs = root"
    "page_key_size bs = ks" "page_value_size bs = vs" by (fact reads)+
  show kind: "page_kind bs = Leaf" using reads(6) by simp
  show "leaf_entry_size bs = ks + vs" "leaf_capacity bs = leaf_capacity_of ks vs"
    by (simp_all add: leaf_entry_size_def leaf_capacity_def leaf_capacity_of_def reads)
  show "page_next_leaf_page_id bs = next" using f(2) by (simp add: page_reads(4)[OF reads(1)])
  have "validate_page bs = Ok" using assms by (simp add: node_of_def split: if_splits)
  then show "page_open bs = Inr bs" "leaf_open bs = Inr bs"
    by (simp_all add: page_open_def leaf_open_def kind)
qed

lemma leaf_view_entries:
  assumes "node_of ks vs bs = Some (LeafNode root es next)" "i < length es"
  shows "leaf_key_at bs i = Inr (fst (es ! i))" "leaf_value_at bs i = Inr (snd (es ! i))"
    "leaf_entry_at bs i = Inr (leaf_slot (es ! i))"
    "length (fst (es ! i)) = ks" "length (snd (es ! i)) = vs"
proof -
  have f: "page_fields BTREE_LEAF_PAGE_KIND root (length es) ks vs bs" "page_area (map leaf_slot es) bs"
    "\<forall>(k, v) \<in> set es. length k = ks \<and> length v = vs"
    using assms by (simp_all add: leaf_node_iff)
  show "leaf_key_at bs i = Inr (fst (es ! i))" "leaf_value_at bs i = Inr (snd (es ! i))"
    "leaf_entry_at bs i = Inr (leaf_slot (es ! i))"
    by (rule leaf_reads[OF f(1) f(2,3) assms(2)])+
  show "length (fst (es ! i)) = ks" "length (snd (es ! i)) = vs"
    using f(3) nth_mem[OF assms(2)] by (auto simp: case_prod_beta)
qed

lemma leaf_find_position:
  assumes "node_of ks vs bs = Some (LeafNode root es next)" "sorted (map fst es)" "length key = ks"
  shows "leaf_find_insertion_position bs key = Inr (lower_position key es)"
proof -
  note view = leaf_view[OF assms(1)] and entries = leaf_view_entries[OF assms(1)]
  have "search_loop (leaf_key_at bs) (\<lambda>k. memcmp k key < 0) 0 (length es) = Inr (lower_position key es)"
  proof (rule search_loop_position[where keys = "map fst es"])
    show "\<forall>i<length (map fst es). memcmp (map fst es ! i) key < 0 \<longleftrightarrow> i < lower_position key es"
      using sorted_takeWhile_iff[OF assms(2), of "\<lambda>k. k < key"] entries(4) assms(3)
      by (simp add: memcmp_order lower_position_def)
  qed (simp_all add: entries)
  then show ?thesis
    using assms(3) by (simp add: leaf_find_insertion_position_def view)
qed

text \<open>The view after the stores of an operation.\<close>

lemma leaf_set_key_count_view:
  assumes "page_fields BTREE_LEAF_PAGE_KIND root n ks vs bs" "page_area (map leaf_slot es) bs"
    and "\<forall>(k, v) \<in> set es. length k = ks \<and> length v = vs"
    and "length es \<le> leaf_capacity_of ks vs" "1 \<le> leaf_capacity_of ks vs"
  shows "\<exists>bs'. leaf_set_key_count (length es) bs = Inr bs' \<and>
    node_of ks vs bs' = Some (LeafNode root es (fst (page_links bs)))"
proof -
  note reads = page_fields_reads[OF assms(1)]
  have "leaf_capacity bs = leaf_capacity_of ks vs"
    by (simp add: leaf_capacity_def leaf_entry_size_def leaf_capacity_of_def reads)
  moreover have "length es < 2 ^ 16"
    using assms(4) by (intro entries_fit(2)) (simp add: leaf_capacity_of_def)
  then obtain bs' where "page_set_key_count (length es) bs = Inr bs'"
    "page_fields BTREE_LEAF_PAGE_KIND root (length es) ks vs bs'"
    "page_links bs' = page_links bs" "drop 64 bs' = drop 64 bs"
    using set_key_count_effect[OF assms(1)] by blast
  moreover from this(4) assms(2) have "page_area (map leaf_slot es) bs'"
    by (simp add: page_area_def)
  ultimately show ?thesis
    using assms(3-5) by (auto simp: leaf_set_key_count_def leaf_node_iff)
qed

lemma check_neighbours_iff:
  assumes "\<forall>i < length es. key_at i = Inr (fst (es ! i))" "\<forall>e \<in> set es. length (fst e) = length key"
    and "i \<le> length es"
  shows "check_neighbours key_at i (length es) key r =
    (if (0 < i \<longrightarrow> fst (es ! (i - 1)) \<le> key) \<and> (i < length es \<longrightarrow> key \<le> fst (es ! i))
     then r else Inl InvalidArgument)"
proof -
  have "memcmp key (fst (es ! (i - 1))) < 0 \<longleftrightarrow> key < fst (es ! (i - 1))" if "0 < i"
    using that assms(2,3) by (intro memcmp_order(1)) simp
  moreover have "memcmp (fst (es ! i)) key < 0 \<longleftrightarrow> fst (es ! i) < key" if "i < length es"
    using that assms(2) by (intro memcmp_order(1)) simp
  ultimately show ?thesis
    using assms(1,3) by (auto simp: check_neighbours_def ensure_def)
qed

lemma leaf_insert_view:
  assumes "node_of ks vs bs = Some (LeafNode root es next)" "length key = ks" "length v = vs"
    and "i \<le> length es" "length es < leaf_capacity_of ks vs"
    and "0 < i \<Longrightarrow> fst (es ! (i - 1)) \<le> key" "i < length es \<Longrightarrow> key \<le> fst (es ! i)"
  shows "\<exists>bs'. leaf_insert_entry i key v bs = Inr bs' \<and>
    node_of ks vs bs' = Some (LeafNode root (take i es @ (key, v) # drop i es) next)"
proof -
  let ?cs = "map leaf_slot es" and ?m = "ks + vs" and ?es = "take i es @ (key, v) # drop i es"
  have n: "page_fields BTREE_LEAF_PAGE_KIND root (length es) ks vs bs" "fst (page_links bs) = next"
    "1 \<le> leaf_capacity_of ks vs" "\<forall>(k, v) \<in> set es. length k = ks \<and> length v = vs" "page_area ?cs bs"
    using assms(1) by (simp_all add: leaf_node_iff)
  note view = leaf_view[OF assms(1)] and entries = leaf_view_entries[OF assms(1)]
  have sizes: "\<forall>c \<in> set ?cs. length c = ?m" using n(4) by (auto simp: leaf_slot_def)
  have fit: "64 + (length ?cs + 1) * ?m \<le> length bs"
    using entries_fit(1)[of "Suc (length es)" ?m] assms(5) by (simp add: leaf_capacity_of_def view(1))
  let ?new = "concat ((key @ v) # drop i ?cs)"
  note area = insert_slot_area[OF n(5) sizes, of i key v, simplified, OF assms(4) _ fit[simplified]]
  have stores: "overwrite (overwrite (shift_right i (length es) ?m bs) (64 + i * ?m) key)
      (64 + i * ?m + ks) v = overwrite bs (64 + i * ?m) ?new"
    using area(1) assms(2,3) by simp
  have "64 + i * ?m + length ?new \<le> PAGE_SIZE"
    using area(3) assms(2,3) fit view(1) by simp
  then have f: "page_fields BTREE_LEAF_PAGE_KIND root (length es) ks vs (overwrite bs (64 + i * ?m) ?new)"
    "page_links (overwrite bs (64 + i * ?m) ?new) = page_links bs"
    using page_fields_overwrite[OF n(1), of "64 + i * ?m" ?new] by simp_all
  have "page_area (map leaf_slot ?es) (overwrite bs (64 + i * ?m) ?new)"
    using area(2) assms(2,3) by (simp add: leaf_slot_def take_map drop_map)
  moreover have "\<forall>(k, v) \<in> set ?es. length k = ks \<and> length v = vs"
    using n(4) assms(2,3) by (auto dest: in_set_takeD in_set_dropD)
  moreover have count: "length ?es = Suc (length es)" using assms(4) by simp
  ultimately obtain bs' where
    bs': "leaf_set_key_count (length ?es) (overwrite bs (64 + i * ?m) ?new) = Inr bs'"
    "node_of ks vs bs' = Some (LeafNode root ?es (fst (page_links bs)))"
    using leaf_set_key_count_view[OF f(1), of ?es] n(3) assms(5) f(2) by auto
  have "leaf_insert_entry i key v bs = leaf_set_key_count (Suc (length es)) (overwrite bs (64 + i * ?m) ?new)"
    using assms(2-7) n(4) stores
    by (simp add: leaf_insert_entry_def view Let_def check_neighbours_iff[of es] entries case_prod_beta
        BTREE_PAGE_ENTRY_ARRAY_OFFSET_def BTREE_PAGE_HEADER_SIZE_def shift_right_def)
  then show ?thesis
    using bs' n(2) count by simp
qed

lemma leaf_insert_refused:
  assumes "node_of ks vs bs = Some (LeafNode root es next)"
    and "\<not> (length key = ks \<and> length v = vs \<and> i \<le> length es \<and> length es < leaf_capacity_of ks vs \<and>
      (0 < i \<longrightarrow> fst (es ! (i - 1)) \<le> key) \<and> (i < length es \<longrightarrow> key \<le> fst (es ! i)))"
  shows "leaf_insert_entry i key v bs = Inl InvalidArgument"
proof -
  have "\<forall>e \<in> set es. length (fst e) = ks"
    using assms(1) by (auto simp: leaf_node_iff)
  then show ?thesis
    using assms(2) leaf_view_entries(1)[OF assms(1)]
    by (auto simp: leaf_insert_entry_def Let_def ensure_def check_neighbours_iff leaf_view[OF assms(1)])
qed

lemma leaf_erase_view:
  assumes "node_of ks vs bs = Some (LeafNode root es next)" "i < length es"
  shows "\<exists>bs'. leaf_erase_entry i bs = Inr bs' \<and>
    node_of ks vs bs' = Some (LeafNode root (take i es @ drop (Suc i) es) next)"
proof -
  let ?cs = "map leaf_slot es" and ?m = "ks + vs" and ?es = "take i es @ drop (Suc i) es"
  have n: "page_fields BTREE_LEAF_PAGE_KIND root (length es) ks vs bs" "fst (page_links bs) = next"
    "1 \<le> leaf_capacity_of ks vs" "\<forall>(k, v) \<in> set es. length k = ks \<and> length v = vs" "page_area ?cs bs"
    "length es \<le> leaf_capacity_of ks vs"
    using assms(1) by (simp_all add: leaf_node_iff)
  note view = leaf_view[OF assms(1)]
  have sizes: "\<forall>c \<in> set ?cs. length c = ?m" using n(4) by (auto simp: leaf_slot_def)
  have fit: "64 + length ?cs * ?m \<le> length bs"
    using entries_fit(1)[of "length es" ?m] n(6) by (simp add: leaf_capacity_of_def view(1))
  let ?bs = "shift_left i (length es) ?m bs"
  note area = erase_slot_area[OF n(5) sizes _ fit, of i, simplified, OF assms(2)]
  have f: "page_fields BTREE_LEAF_PAGE_KIND root (length es) ks vs ?bs" "page_links ?bs = page_links bs"
    unfolding area(1)
    using page_fields_overwrite[OF n(1), of "64 + i * ?m" "concat (drop (Suc i) ?cs)"] area(3) fit view(1)
    by simp_all
  have entries: "page_area (map leaf_slot ?es) ?bs"
    unfolding area(1) using area(2) by (simp add: take_map drop_map)
  have wf: "\<forall>(k, v) \<in> set ?es. length k = ks \<and> length v = vs"
    using n(4) by (auto dest: in_set_takeD in_set_dropD)
  have count: "length ?es = length es - 1" using assms(2) by simp
  have cap: "length ?es \<le> leaf_capacity_of ks vs" unfolding count using n(6) by simp
  obtain bs' where
    bs': "leaf_set_key_count (length ?es) ?bs = Inr bs'"
    "node_of ks vs bs' = Some (LeafNode root ?es next)"
    using leaf_set_key_count_view[OF f(1) entries wf cap n(3)] f(2) n(2) by auto
  moreover have "leaf_erase_entry i bs = leaf_set_key_count (length es - 1) ?bs"
    unfolding leaf_erase_entry_def shift_left_def Let_def guarded_memmove
    using assms(2) by (simp add: view BTREE_PAGE_ENTRY_ARRAY_OFFSET_def BTREE_PAGE_HEADER_SIZE_def)
  ultimately show ?thesis
    using count by simp
qed

lemma leaf_update_view:
  assumes "node_of ks vs bs = Some (LeafNode root es next)" "sorted (map fst es)"
    and "length key = ks" "length v = vs"
  shows "if lower_position key es < length es \<and> fst (es ! lower_position key es) = key
    then \<exists>bs'. leaf_update_value key v bs = Inr bs' \<and>
      node_of ks vs bs' = Some (LeafNode root (es[lower_position key es := (key, v)]) next)
    else leaf_update_value key v bs = Inl NotFound"
proof -
  let ?i = "lower_position key es" and ?cs = "map leaf_slot es" and ?m = "ks + vs"
  note view = leaf_view[OF assms(1)] and entries = leaf_view_entries[OF assms(1)]
  note find = leaf_find_position[OF assms(1-3)]
  have eq: "memcmp (fst (es ! ?i)) key = 0 \<longleftrightarrow> fst (es ! ?i) = key" if "?i < length es"
    using entries(4)[OF that] assms(3) by (simp add: memcmp_order)
  show ?thesis
  proof (cases "?i < length es \<and> fst (es ! ?i) = key")
    case True
    have n: "page_fields BTREE_LEAF_PAGE_KIND root (length es) ks vs bs" "fst (page_links bs) = next"
      "1 \<le> leaf_capacity_of ks vs" "\<forall>(k, v) \<in> set es. length k = ks \<and> length v = vs" "page_area ?cs bs"
      "length es \<le> leaf_capacity_of ks vs"
      using assms(1) by (simp_all add: leaf_node_iff)
    have sizes: "\<forall>c \<in> set ?cs. length c = ?m" using n(4) by (auto simp: leaf_slot_def)
    have fit: "64 + length ?cs * ?m \<le> length bs"
      using entries_fit(1)[of "length es" ?m] n(6) by (simp add: leaf_capacity_of_def view(1))
    let ?off = "64 + ?i * ?m" and ?es = "es[?i := (key, v)]"
    have area: "page_area (?cs[?i := key @ v]) (overwrite bs ?off (key @ v))" "?off + ?m \<le> length bs"
      using page_area_update[OF n(5) sizes _ _ fit, of ?i "key @ v"] True assms(3,4) by simp_all
    have key: "take ks (drop ?off bs) = key"
      using page_area_slice[OF n(5) sizes, of ?i 0 ks] True assms(3) by (simp add: leaf_slot_def)
    have "overwrite bs ?off key = bs"
      using key area(2) assms(3) by (intro overwrite_same_content) simp_all
    then have store: "overwrite bs (?off + ks) v = overwrite bs ?off (key @ v)"
      using overwrite_append[of ?off bs key v] area(2) assms(3) by simp
    have "leaf_update_value key v bs = Inr (overwrite bs ?off (key @ v))"
      using True assms(3,4) store
      by (simp add: leaf_update_value_def view find entries eq BTREE_PAGE_ENTRY_ARRAY_OFFSET_def
          BTREE_PAGE_HEADER_SIZE_def Let_def)
    moreover have "page_fields BTREE_LEAF_PAGE_KIND root (length es) ks vs (overwrite bs ?off (key @ v))"
      "page_links (overwrite bs ?off (key @ v)) = page_links bs"
      using page_fields_overwrite[OF n(1), of ?off "key @ v"] area(2) assms(3,4) view(1) by simp_all
    moreover have "map leaf_slot ?es = ?cs[?i := key @ v]"
      by (simp add: map_update leaf_slot_def)
    moreover have "\<forall>(k, v) \<in> set ?es. length k = ks \<and> length v = vs"
      using n(4) assms(3,4) by (auto dest!: set_update_subset_insert[THEN subsetD])
    ultimately show ?thesis
      using True n(2,3,6) area(1) by (simp add: leaf_node_iff)
  next
    case False
    then have "?i = length es \<or> ?i < length es \<and> fst (es ! ?i) \<noteq> key"
      using positions_le(1)[of key es] by linarith
    then show ?thesis
      using assms(3,4) False
      by (auto simp: leaf_update_value_def view find entries eq)
  qed
qed

text \<open>Flags and links, and a fresh leaf.\<close>

lemma leaf_setters_view:
  assumes "node_of ks vs bs = Some (LeafNode root es next)"
  shows "node_of ks vs (page_set_parent_page_id p bs) = Some (LeafNode root es next)"
    "node_of ks vs (page_set_previous_leaf_page_id p bs) = Some (LeafNode root es next)"
    "node_of ks vs (page_set_next_leaf_page_id p bs) = Some (LeafNode root es p)"
    "node_of ks vs (page_set_root root' bs) = Some (LeafNode root' es next)"
proof -
  have f: "page_fields BTREE_LEAF_PAGE_KIND root (length es) ks vs bs"
    using assms by (simp add: leaf_node_iff)
  show "node_of ks vs (page_set_parent_page_id p bs) = Some (LeafNode root es next)"
    "node_of ks vs (page_set_previous_leaf_page_id p bs) = Some (LeafNode root es next)"
    "node_of ks vs (page_set_next_leaf_page_id p bs) = Some (LeafNode root es p)"
    "node_of ks vs (page_set_root root' bs) = Some (LeafNode root' es next)"
    using assms set_link_effect[OF f, of p] set_root_effect[OF f, of root']
    by (simp_all add: leaf_node_iff page_area_def)
qed

lemma leaf_clear_view:
  assumes "node_of ks vs bs = Some (LeafNode root es next)"
  shows "\<exists>bs'. leaf_set_key_count 0 bs = Inr bs' \<and> node_of ks vs bs' = Some (LeafNode root [] next)"
  using leaf_set_key_count_view[of root "length es" ks vs bs "[]"] assms
  by (auto simp: leaf_node_iff page_area_def)

end
