(* ===== verification/InternalView.thy ===== *)
theory InternalView
  imports NodeView
begin

text \<open>
  The effect of the operations of \<^verbatim>\<open>BTreeInternalPage.h\<close> and of the initialisation of pages
  on the view of a page. The child to descend into is the one to the right of the last
  separator that is not greater than the key, or the first child.
\<close>

section \<open>Reading\<close>

lemma internal_view:
  assumes "node_of ks vs bs = Some (InternalNode root first es)"
  shows "length bs = PAGE_SIZE" "page_open bs = Inr bs" "internal_open bs = Inr bs"
    "page_kind bs = Internal" "page_key_count bs = length es" "page_is_root bs = root"
    "page_first_child_page_id bs = first" "page_key_size bs = ks" "page_value_size bs = vs"
    "internal_entry_size bs = ks + 8" "internal_capacity bs = internal_capacity_of ks"
proof -
  have f: "page_fields BTREE_INTERNAL_PAGE_KIND root (length es) ks vs bs" "snd (page_links bs) = first"
    using assms by (simp_all add: internal_node_iff)
  note reads = page_fields_reads[OF f(1)]
  show "length bs = PAGE_SIZE" "page_key_count bs = length es" "page_is_root bs = root"
    "page_key_size bs = ks" "page_value_size bs = vs" by (fact reads)+
  show kind: "page_kind bs = Internal" using reads(6) by simp
  show "internal_entry_size bs = ks + 8" "internal_capacity bs = internal_capacity_of ks"
    by (simp_all add: internal_entry_size_def internal_capacity_def internal_capacity_of_def reads)
  show "page_first_child_page_id bs = first" using f(2) by (simp add: page_reads(5)[OF reads(1)])
  have "validate_page bs = Ok" using assms by (simp add: node_of_def split: if_splits)
  then show "page_open bs = Inr bs" "internal_open bs = Inr bs"
    by (simp_all add: page_open_def internal_open_def kind)
qed

lemma internal_view_entries:
  assumes "node_of ks vs bs = Some (InternalNode root first es)" "i < length es"
  shows "internal_key_at bs i = Inr (fst (es ! i))"
    "internal_right_child_page_id_at bs i = Inr (snd (es ! i))" "length (fst (es ! i)) = ks"
proof -
  have f: "page_fields BTREE_INTERNAL_PAGE_KIND root (length es) ks vs bs" "page_area (map child_slot es) bs"
    "\<forall>e \<in> set es. length (fst e) = ks" "length es \<le> internal_capacity_of ks"
    using assms by (simp_all add: internal_node_iff)
  show "internal_key_at bs i = Inr (fst (es ! i))"
    "internal_right_child_page_id_at bs i = Inr (snd (es ! i))"
    by (rule internal_reads[OF f(1) f(2,3) assms(2) f(4)])+
  show "length (fst (es ! i)) = ks" using f(3) assms(2) by simp
qed

lemma internal_search:
  assumes "node_of ks vs bs = Some (InternalNode root first es)" "sorted (map fst es)" "length key = ks"
  shows "internal_find_insertion_position bs key = Inr (lower_position key es)"
    and "internal_child_index_for_key bs key = Inr (upper_position key es)"
proof -
  note view = internal_view[OF assms(1)] and entries = internal_view_entries[OF assms(1)]
  have "search_loop (internal_key_at bs) (\<lambda>k. memcmp k key < 0) 0 (length es) = Inr (lower_position key es)"
  proof (rule search_loop_position[where keys = "map fst es"])
    show "\<forall>i<length (map fst es). memcmp (map fst es ! i) key < 0 \<longleftrightarrow> i < lower_position key es"
      using sorted_takeWhile_iff[OF assms(2), of "\<lambda>k. k < key"] entries(3) assms(3)
      by (simp add: memcmp_order lower_position_def)
  qed (simp_all add: entries)
  then show "internal_find_insertion_position bs key = Inr (lower_position key es)"
    using assms(3) by (simp add: internal_find_insertion_position_def view)
  have "search_loop (internal_key_at bs) (\<lambda>k. memcmp k key \<le> 0) 0 (length es) = Inr (upper_position key es)"
  proof (rule search_loop_position[where keys = "map fst es"])
    show "\<forall>i<length (map fst es). memcmp (map fst es ! i) key \<le> 0 \<longleftrightarrow> i < upper_position key es"
      using sorted_takeWhile_iff[OF assms(2), of "\<lambda>k. k \<le> key"] entries(3) assms(3)
      by (simp add: memcmp_order upper_position_def)
  qed (simp_all add: entries)
  then show "internal_child_index_for_key bs key = Inr (upper_position key es)"
    using assms(3) by (simp add: internal_child_index_for_key_def view)
qed

text \<open>The children of an internal page by index: the first child, then the right children.\<close>

definition child_at :: "page_id \<Rightarrow> (bytes \<times> page_id) list \<Rightarrow> nat \<Rightarrow> page_id" where
  "child_at first es i = (if i = 0 then first else snd (es ! (i - 1)))"

lemma internal_child_for_key:
  assumes "node_of ks vs bs = Some (InternalNode root first es)" "sorted (map fst es)" "length key = ks"
  shows "internal_child_page_id_for_key bs key = Inr (child_at first es (upper_position key es))"
proof (cases "upper_position key es = 0")
  case True
  then show ?thesis
    using internal_search(2)[OF assms] internal_view(7)[OF assms(1)]
    by (simp add: internal_child_page_id_for_key_def child_at_def)
next
  case False
  then have "upper_position key es - 1 < length es"
    using positions_le(2)[of key es] by linarith
  from internal_view_entries(2)[OF assms(1) this] False show ?thesis
    using internal_search(2)[OF assms]
    by (simp add: internal_child_page_id_for_key_def child_at_def)
qed

section \<open>Writing\<close>

lemma internal_set_key_count_view:
  assumes "page_fields BTREE_INTERNAL_PAGE_KIND root n ks vs bs" "page_area (map child_slot es) bs"
    and "\<forall>e \<in> set es. length (fst e) = ks"
    and "length es \<le> internal_capacity_of ks" "2 \<le> internal_capacity_of ks"
  shows "\<exists>bs'. internal_set_key_count (length es) bs = Inr bs' \<and>
    node_of ks vs bs' = Some (InternalNode root (snd (page_links bs)) es)"
proof -
  note reads = page_fields_reads[OF assms(1)]
  have "internal_capacity bs = internal_capacity_of ks"
    by (simp add: internal_capacity_def internal_entry_size_def internal_capacity_of_def reads)
  moreover have "length es < 2 ^ 16"
    using assms(4) by (intro entries_fit(2)) (simp add: internal_capacity_of_def)
  then obtain bs' where "page_set_key_count (length es) bs = Inr bs'"
    "page_fields BTREE_INTERNAL_PAGE_KIND root (length es) ks vs bs'"
    "page_links bs' = page_links bs" "drop 64 bs' = drop 64 bs"
    using set_key_count_effect[OF assms(1)] by blast
  moreover from this(4) assms(2) have "page_area (map child_slot es) bs'"
    by (simp add: page_area_def)
  ultimately show ?thesis
    using assms(3-5) by (auto simp: internal_set_key_count_def internal_node_iff)
qed

lemma write_child:
  assumes "off + 8 \<le> length bs"
  shows "write_u64_le bs off p = Inr (overwrite bs off (map (byte_of p) [0..<8]))"
  using assms by (simp add: write_le_in_bounds store_le_overwrite)

lemma internal_insert_view:
  assumes "node_of ks vs bs = Some (InternalNode root first es)" "length key = ks"
    and "i \<le> length es" "length es < internal_capacity_of ks"
    and "0 < i \<Longrightarrow> fst (es ! (i - 1)) \<le> key" "i < length es \<Longrightarrow> key \<le> fst (es ! i)"
  shows "\<exists>bs'. internal_insert_entry i key p bs = Inr bs' \<and>
    node_of ks vs bs' = Some (InternalNode root first (take i es @ (key, p) # drop i es))"
proof -
  let ?cs = "map child_slot es" and ?m = "ks + 8" and ?es = "take i es @ (key, p) # drop i es"
  let ?v = "map (byte_of p) [0..<8]"
  have n: "page_fields BTREE_INTERNAL_PAGE_KIND root (length es) ks vs bs" "snd (page_links bs) = first"
    "2 \<le> internal_capacity_of ks" "\<forall>e \<in> set es. length (fst e) = ks" "page_area ?cs bs"
    using assms(1) by (simp_all add: internal_node_iff)
  note view = internal_view[OF assms(1)] and entries = internal_view_entries[OF assms(1)]
  have sizes: "\<forall>c \<in> set ?cs. length c = ?m" using n(4) by (auto simp: child_slot_def)
  have fit: "64 + (length ?cs + 1) * ?m \<le> length bs"
    using entries_fit(1)[of "Suc (length es)" ?m] assms(4) by (simp add: internal_capacity_of_def view(1))
  have v: "length key + length ?v = ?m" using assms(2) by simp
  let ?off = "64 + i * ?m" and ?new = "concat ((key @ ?v) # drop i ?cs)"
  have i: "i \<le> length ?cs" using assms(3) by simp
  note area = insert_slot_area[OF n(5) sizes i v fit]
  have inside: "?off + length ?new \<le> PAGE_SIZE"
    using area(3) fit view(1) by linarith
  let ?shifted = "overwrite (shift_right i (length es) ?m bs) ?off key"
  have shifted_length: "length ?shifted = PAGE_SIZE"
  proof -
    have "length (shift_right i (length es) ?m bs) = PAGE_SIZE"
    proof -
      have "?off + ?m + (length es - i) * ?m \<le> length bs"
      proof -
        have "i * ?m + (length es - i) * ?m = length es * ?m"
          using assms(3) by (simp add: add_mult_distrib[symmetric])
        with fit show ?thesis by simp
      qed
      then show ?thesis
        unfolding shift_right_def guarded_memmove by (simp add: view(1))
    qed
    moreover have "?off + length key \<le> PAGE_SIZE" using inside assms(2) by simp
    ultimately show ?thesis by simp
  qed
  have stored_child: "write_u64_le ?shifted (?off + ks) p = Inr (overwrite bs ?off ?new)"
    using write_child[of "?off + ks" ?shifted p] area(1) inside assms(2) shifted_length by simp
  have f: "page_fields BTREE_INTERNAL_PAGE_KIND root (length es) ks vs (overwrite bs ?off ?new)"
    "page_links (overwrite bs ?off ?new) = page_links bs"
    using page_fields_overwrite[OF n(1) _ inside] by simp_all
  have slots: "page_area (map child_slot ?es) (overwrite bs ?off ?new)"
    using area(2) by (simp add: child_slot_def take_map drop_map)
  have wf: "\<forall>e \<in> set ?es. length (fst e) = ks"
    using n(4) assms(2) by (auto dest: in_set_takeD in_set_dropD)
  have count: "length ?es = Suc (length es)" using assms(3) by simp
  have cap: "length ?es \<le> internal_capacity_of ks" unfolding count using assms(4) by simp
  obtain bs' where bs': "internal_set_key_count (length ?es) (overwrite bs ?off ?new) = Inr bs'"
    "node_of ks vs bs' = Some (InternalNode root first ?es)"
    using internal_set_key_count_view[OF f(1) slots wf cap n(3)] f(2) n(2) by auto
  have "internal_insert_entry i key p bs = internal_set_key_count (Suc (length es)) (overwrite bs ?off ?new)"
    using assms(2-6) n(4) stored_child
    by (simp add: internal_insert_entry_def view Let_def check_neighbours_iff[of es] entries
        BTREE_PAGE_ENTRY_ARRAY_OFFSET_def BTREE_PAGE_HEADER_SIZE_def shift_right_def)
  then show ?thesis
    using bs' count by simp
qed

lemma internal_erase_view:
  assumes "node_of ks vs bs = Some (InternalNode root first es)" "i < length es"
  shows "\<exists>bs'. internal_erase_entry i bs = Inr bs' \<and>
    node_of ks vs bs' = Some (InternalNode root first (take i es @ drop (Suc i) es))"
proof -
  let ?cs = "map child_slot es" and ?m = "ks + 8" and ?es = "take i es @ drop (Suc i) es"
  have n: "page_fields BTREE_INTERNAL_PAGE_KIND root (length es) ks vs bs" "snd (page_links bs) = first"
    "2 \<le> internal_capacity_of ks" "\<forall>e \<in> set es. length (fst e) = ks" "page_area ?cs bs"
    "length es \<le> internal_capacity_of ks"
    using assms(1) by (simp_all add: internal_node_iff)
  note view = internal_view[OF assms(1)]
  have sizes: "\<forall>c \<in> set ?cs. length c = ?m" using n(4) by (auto simp: child_slot_def)
  have fit: "64 + length ?cs * ?m \<le> length bs"
    using entries_fit(1)[of "length es" ?m] n(6) by (simp add: internal_capacity_of_def view(1))
  let ?bs = "shift_left i (length es) ?m bs"
  note area = erase_slot_area[OF n(5) sizes _ fit, of i, simplified, OF assms(2)]
  have f: "page_fields BTREE_INTERNAL_PAGE_KIND root (length es) ks vs ?bs" "page_links ?bs = page_links bs"
    unfolding area(1)
    using page_fields_overwrite[OF n(1), of "64 + i * ?m" "concat (drop (Suc i) ?cs)"] area(3) fit view(1)
    by simp_all
  have entries: "page_area (map child_slot ?es) ?bs"
    unfolding area(1) using area(2) by (simp add: take_map drop_map)
  have wf: "\<forall>e \<in> set ?es. length (fst e) = ks"
    using n(4) by (auto dest: in_set_takeD in_set_dropD)
  have count: "length ?es = length es - 1" using assms(2) by simp
  have cap: "length ?es \<le> internal_capacity_of ks" unfolding count using n(6) by simp
  obtain bs' where bs': "internal_set_key_count (length ?es) ?bs = Inr bs'"
    "node_of ks vs bs' = Some (InternalNode root first ?es)"
    using internal_set_key_count_view[OF f(1) entries wf cap n(3)] f(2) n(2) by auto
  moreover have "internal_erase_entry i bs = internal_set_key_count (length es - 1) ?bs"
    unfolding internal_erase_entry_def shift_left_def Let_def guarded_memmove
    using assms(2) by (simp add: view BTREE_PAGE_ENTRY_ARRAY_OFFSET_def BTREE_PAGE_HEADER_SIZE_def)
  ultimately show ?thesis
    using count by simp
qed

lemma internal_set_key_view:
  assumes "node_of ks vs bs = Some (InternalNode root first es)" "i < length es" "length key = ks"
  shows "\<exists>bs'. internal_set_key_at i key bs = Inr bs' \<and>
    node_of ks vs bs' = Some (InternalNode root first (es[i := (key, snd (es ! i))]))"
proof -
  let ?cs = "map child_slot es" and ?m = "ks + 8" and ?e = "(key, snd (es ! i))"
  let ?v = "map (byte_of (snd (es ! i))) [0..<8]" and ?off = "64 + i * (ks + 8)"
  have n: "page_fields BTREE_INTERNAL_PAGE_KIND root (length es) ks vs bs" "snd (page_links bs) = first"
    "2 \<le> internal_capacity_of ks" "\<forall>e \<in> set es. length (fst e) = ks" "page_area ?cs bs"
    "length es \<le> internal_capacity_of ks"
    using assms(1) by (simp_all add: internal_node_iff)
  note view = internal_view[OF assms(1)]
  have sizes: "\<forall>c \<in> set ?cs. length c = ?m" using n(4) by (auto simp: child_slot_def)
  have fit: "64 + length ?cs * ?m \<le> length bs"
    using entries_fit(1)[of "length es" ?m] n(6) by (simp add: internal_capacity_of_def view(1))
  have slot: "length (child_slot ?e) = ?m" using assms(3) by (simp add: child_slot_def)
  have area: "page_area (?cs[i := child_slot ?e]) (overwrite bs ?off (child_slot ?e))"
    "?off + ?m \<le> length bs"
    using page_area_update[OF n(5) sizes _ slot fit, of i] assms(2) by simp_all
  have "take 8 (drop (?off + ks) bs) = ?v"
    using page_area_slice[OF n(5) sizes, of i ks 8] assms(2) n(4) by (simp add: child_slot_def)
  then have "take (length ?v) (drop (?off + ks) (overwrite bs ?off key)) = ?v"
    using area(2) assms(3) by (simp add: read_overwrite_other)
  then have "overwrite (overwrite bs ?off key) (?off + ks) ?v = overwrite bs ?off key"
    using area(2) assms(3) by (intro overwrite_same_content) simp_all
  then have store: "overwrite bs ?off key = overwrite bs ?off (child_slot ?e)"
    using overwrite_append[of ?off bs key ?v] area(2) assms(3) by (simp add: child_slot_def)
  have "internal_set_key_at i key bs = Inr (overwrite bs ?off (child_slot ?e))"
    using assms(2,3) store
    by (simp add: internal_set_key_at_def view BTREE_PAGE_ENTRY_ARRAY_OFFSET_def
        BTREE_PAGE_HEADER_SIZE_def Let_def)
  moreover have "page_fields BTREE_INTERNAL_PAGE_KIND root (length es) ks vs (overwrite bs ?off (child_slot ?e))"
    "page_links (overwrite bs ?off (child_slot ?e)) = page_links bs"
    using page_fields_overwrite[OF n(1), of ?off "child_slot ?e"] area(2) slot view(1) by simp_all
  moreover have "\<forall>e \<in> set (es[i := ?e]). length (fst e) = ks"
    using n(4) assms(3) by (auto dest!: set_update_subset_insert[THEN subsetD])
  ultimately show ?thesis
    using n(2,3,6) area(1) by (simp add: internal_node_iff map_update)
qed

lemma internal_setters_view:
  assumes "node_of ks vs bs = Some (InternalNode root first es)"
  shows "node_of ks vs (page_set_parent_page_id p bs) = Some (InternalNode root first es)"
    "node_of ks vs (page_set_first_child_page_id p bs) = Some (InternalNode root p es)"
    "node_of ks vs (page_set_root root' bs) = Some (InternalNode root' first es)"
proof -
  have f: "page_fields BTREE_INTERNAL_PAGE_KIND root (length es) ks vs bs"
    using assms by (simp add: internal_node_iff)
  show "node_of ks vs (page_set_parent_page_id p bs) = Some (InternalNode root first es)"
    "node_of ks vs (page_set_first_child_page_id p bs) = Some (InternalNode root p es)"
    "node_of ks vs (page_set_root root' bs) = Some (InternalNode root' first es)"
    using assms set_link_effect[OF f, of p] set_root_effect[OF f, of root']
    by (simp_all add: internal_node_iff page_area_def)
qed

lemma internal_clear_view:
  assumes "node_of ks vs bs = Some (InternalNode root first es)"
  shows "\<exists>bs'. internal_set_key_count 0 bs = Inr bs' \<and>
    node_of ks vs bs' = Some (InternalNode root first [])"
  using internal_set_key_count_view[of root "length es" ks vs bs "[]"] assms
  by (auto simp: internal_node_iff page_area_def)

section \<open>Initialisation\<close>

lemma bytes_are_zero_replicate [simp]: "bytes_are_zero (replicate n 0)"
  by (simp add: bytes_are_zero_iff)

lemma initialize_fields_effect:
  assumes "length bs = PAGE_SIZE" "ks \<noteq> 0" "vs \<noteq> 0"
  shows "\<exists>bs'. initialize_fields kind bs ks vs = Inr bs' \<and>
    page_fields kind False 0 (unat ks) (unat vs) bs' \<and>
    page_links bs' = (INVALID_PAGE_ID, INVALID_PAGE_ID)"
proof -
  define z where "z = (replicate PAGE_SIZE 0)[0 := kind, 1 := 0]"
  have small: "2 < PAGE_SIZE" "8 \<le> PAGE_SIZE" "64 \<le> PAGE_SIZE" by (simp_all add: PAGE_SIZE_def)
  have z: "length z = PAGE_SIZE" "z ! 0 = kind" "z ! 1 = 0" "bytes_are_zero (take 2 (drop 6 z))"
    "bytes_are_zero (take 20 (drop 44 z))"
    using small by (simp_all add: z_def drop_update_cancel)
  define s1 where "s1 = store_le 2 z 2 (0 :: u16)"
  define s2 where "s2 = store_le 2 s1 4 (64 :: u16)"
  define s3 where "s3 = store_le 8 s2 8 INVALID_PAGE_ID"
  define s4 where "s4 = store_le 8 s3 16 INVALID_PAGE_ID"
  define s5 where "s5 = store_le 8 s4 24 INVALID_PAGE_ID"
  define s6 where "s6 = store_le 8 s5 32 INVALID_PAGE_ID"
  define s7 where "s7 = store_le 2 s6 40 ks"
  define s8 where "s8 = store_le 2 s7 42 vs"
  note defs = s8_def s7_def s6_def s5_def s4_def s3_def s2_def s1_def
  have writes: "write_u16_le b off v2 = Inr (store_le 2 b off v2)"
    "write_u64_le b off v8 = Inr (store_le 8 b off v8)"
    if "length b = PAGE_SIZE" "off + 8 \<le> 64" for b off v2 v8
    using that by (simp_all add: write_le_in_bounds PAGE_SIZE_def)
  have same: "load_le 2 (store_le 2 b off v2) off = (v2 :: u16)"
    "load_le 8 (store_le 8 b off v8) off = (v8 :: u64)"
    if "length b = PAGE_SIZE" "off + 8 \<le> 64" for b off v2 v8
    using that by (simp_all add: PAGE_SIZE_def)
  have run: "initialize_fields kind bs ks vs = Inr s8"
    unfolding initialize_fields_def Let_def assms(1) z_def[symmetric]
    by (simp add: writes header_store z defs BTREE_PAGE_HEADER_SIZE_def)
  have l8: "length s8 = PAGE_SIZE"
    by (simp add: defs header_store z)
  have before: "s8 ! 0 = kind" "s8 ! 1 = 0" "load_le 2 s8 2 = (0 :: u16)"
    "load_le 2 s8 4 = (64 :: u16)" "bytes_are_zero (take 2 (drop 6 s8))"
    "bytes_are_zero (take 20 (drop 44 s8))"
    by (simp_all add: defs header_store same z z(3)[simplified])
  have after: "load_le 2 s8 40 = ks" "load_le 2 s8 42 = vs" "load_le 8 s8 16 = INVALID_PAGE_ID"
    "load_le 8 s8 32 = INVALID_PAGE_ID"
    by (simp_all add: defs header_store same z)
  show ?thesis
    using run before after l8 assms(2,3) unsigned_less[of ks, where ?'a = nat] unsigned_less[of vs, where ?'a = nat]
    by (simp add: page_fields_def page_links_def unat_gt_0)
qed

lemma initialize_leaf_view:
  assumes "length bs = PAGE_SIZE" "ks \<noteq> 0" "vs \<noteq> 0" "1 \<le> leaf_capacity_of (unat ks) (unat vs)"
  shows "\<exists>bs'. initialize_leaf bs ks vs = Inr bs' \<and>
    node_of (unat ks) (unat vs) bs' = Some (LeafNode False [] INVALID_PAGE_ID)"
  using initialize_fields_effect[OF assms(1-3), of BTREE_LEAF_PAGE_KIND] assms
  by (auto simp: initialize_leaf_def leaf_capacity_of_def leaf_node_iff page_area_def)

lemma initialize_internal_view:
  assumes "length bs = PAGE_SIZE" "ks \<noteq> 0" "vs \<noteq> 0" "2 \<le> internal_capacity_of (unat ks)"
  shows "\<exists>bs'. initialize_internal bs ks vs = Inr bs' \<and>
    node_of (unat ks) (unat vs) bs' = Some (InternalNode False INVALID_PAGE_ID [])"
  using initialize_fields_effect[OF assms(1-3), of BTREE_INTERNAL_PAGE_KIND] assms
  by (auto simp: initialize_internal_def internal_capacity_of_def internal_node_iff page_area_def)

end
