(* ===== verification/BTree.thy ===== *)
theory BTree
  imports PageAccess InternalView
begin

text \<open>
  The B+ tree of \<^verbatim>\<open>BTree.cpp\<close> and the cursor of \<^verbatim>\<open>BTreeCursor.cpp\<close>. The operations are
  actions over the pager; every block of the code that holds page handles is a scope. A loop
  or a recursion that follows page ids read from pages may not end on a damaged file: it is a
  partial function, and not returning is \<open>None\<close>. The lemmas about them are in the theories
  that follow.
\<close>

section \<open>Calls that may not return\<close>

type_synonym ('w, 'a) pager_run = "('w pager \<times> 'w, 'a) run"

text \<open>The results of a loop over indices, appended; the first error ends the loop.\<close>

fun collect :: "nat list \<Rightarrow> (nat \<Rightarrow> 'a list result) \<Rightarrow> 'a list result" where
  "collect [] f = Inr []"
| "collect (i # is) f = bind_result (f i) (\<lambda>xs. bind_result (collect is f) (\<lambda>ys. Inr (xs @ ys)))"

section \<open>The tree\<close>

record btree =
  bt_root_page_id :: page_id
  bt_key_size :: u16
  bt_value_size :: u16

abbreviation bt_ks :: "btree \<Rightarrow> nat" where "bt_ks bt \<equiv> unat (bt_key_size bt)"
abbreviation bt_vs :: "btree \<Rightarrow> nat" where "bt_vs bt \<equiv> unat (bt_value_size bt)"

definition validate_layout :: "nat \<Rightarrow> nat \<Rightarrow> (u16 \<times> u16) result" where
  "validate_layout key_size value_size =
     ensure (key_size \<noteq> 0) InvalidArgument (
     ensure (value_size \<noteq> 0) InvalidArgument (
     ensure (\<not> (key_size > 65535 \<or> value_size > 65535)) InvalidArgument (
     let leaf_entry_size = key_size + value_size in
     ensure (\<not> BTREE_PAGE_ENTRY_AREA_SIZE div leaf_entry_size = 0) InvalidArgument (
     let internal_entry_size = key_size + 8 in
     ensure (\<not> BTREE_PAGE_ENTRY_AREA_SIZE div internal_entry_size < 2) InvalidArgument (
     Inr (of_nat key_size, of_nat value_size))))))"

definition btree_create_new :: "nat \<Rightarrow> nat \<Rightarrow> ('w, btree) pager_action" where
  "btree_create_new key_size value_size =
     bind_action (lift_result (validate_layout key_size value_size)) (\<lambda>layout.
     with_mutable_page pager_new_page (\<lambda>page.
       bind_action (pin_page_id page) (\<lambda>root_page_id.
       bind_action (edit_page page (\<lambda>bytes. initialize_leaf bytes (fst layout) (snd layout))) (\<lambda>_.
       bind_action (edit_page page (\<lambda>bytes. bind_result (leaf_open bytes) (\<lambda>leaf.
         Inr (page_set_root True leaf)))) (\<lambda>_.
       return_action \<lparr>bt_root_page_id = root_page_id, bt_key_size = fst layout,
         bt_value_size = snd layout\<rparr>)))))"

definition btree_open_existing :: "'w win32 \<Rightarrow> page_id \<Rightarrow> u16 \<Rightarrow> u16 \<Rightarrow> ('w, btree) pager_action" where
  "btree_open_existing os root_page_id key_size value_size =
     with_page (pager_get_page os root_page_id) (\<lambda>pin. read_page pin (\<lambda>bytes.
       bind_result (page_open bytes) (\<lambda>page.
       ensure (page_is_root page) InvalidArgument (
       ensure (page_key_size page = unat key_size) InvalidArgument (
       ensure (page_value_size page = unat value_size) InvalidArgument (
       Inr \<lparr>bt_root_page_id = root_page_id, bt_key_size = key_size,
         bt_value_size = value_size\<rparr>))))))"

section \<open>Search\<close>

text \<open>One round of the loop of \<open>find_leaf_page_id\<close>: the child to go to, or none at a leaf.\<close>

definition descend_step :: "'w win32 \<Rightarrow> bytes \<Rightarrow> page_id \<Rightarrow> ('w, page_id option) pager_action" where
  "descend_step os key current_page_id =
     with_page (pager_get_page os current_page_id) (\<lambda>pin. read_page pin (\<lambda>bytes.
       bind_result (page_open bytes) (\<lambda>btree_page.
       if page_kind btree_page = Leaf then Inr None
       else bind_result (internal_open bytes) (\<lambda>internal_page.
         bind_result (internal_child_page_id_for_key internal_page key) (\<lambda>child_page_id.
         Inr (Some child_page_id))))))"

partial_function (option) find_leaf_page_id ::
    "'w win32 \<Rightarrow> bytes \<Rightarrow> page_id \<Rightarrow> ('w, page_id) pager_run" where
  "find_leaf_page_id os key current_page_id s =
     bind_run (returns (descend_step os key current_page_id)) (\<lambda>next_page.
       case next_page of
         None \<Rightarrow> returns (return_action current_page_id)
       | Some child_page_id \<Rightarrow> find_leaf_page_id os key child_page_id) s"

text \<open>What \<open>find\<close> and \<open>scan_range\<close> read in the leaf.\<close>

definition leaf_lookup :: "bytes \<Rightarrow> bytes \<Rightarrow> bytes result" where
  "leaf_lookup key bytes =
     bind_result (leaf_open bytes) (\<lambda>leaf_page.
     bind_result (leaf_find_insertion_position leaf_page key) (\<lambda>position.
     ensure (\<not> position = page_key_count leaf_page) NotFound (
     bind_result (leaf_key_at leaf_page position) (\<lambda>stored_key.
     ensure (\<not> memcmp stored_key key \<noteq> 0) NotFound (
     leaf_value_at leaf_page position)))))"

definition btree_find :: "'w win32 \<Rightarrow> btree \<Rightarrow> bytes \<Rightarrow> ('w, bytes) pager_run" where
  "btree_find os bt key =
     (if length key \<noteq> bt_ks bt then returns (fail_action InvalidArgument)
      else bind_run (find_leaf_page_id os key (bt_root_page_id bt)) (\<lambda>leaf_page_id.
        returns (with_page (pager_get_page os leaf_page_id) (\<lambda>pin. read_page pin (leaf_lookup key)))))"

definition btree_update_value :: "'w win32 \<Rightarrow> btree \<Rightarrow> bytes \<Rightarrow> bytes \<Rightarrow> ('w, unit) pager_run" where
  "btree_update_value os bt key value_bytes =
     (if length key \<noteq> bt_ks bt then returns (fail_action InvalidArgument)
      else if length value_bytes \<noteq> bt_vs bt then returns (fail_action InvalidArgument)
      else bind_run (find_leaf_page_id os key (bt_root_page_id bt)) (\<lambda>leaf_page_id.
        returns (with_mutable_page (pager_get_page os leaf_page_id) (\<lambda>pin.
          edit_page pin (\<lambda>bytes. bind_result (leaf_open bytes) (leaf_update_value key value_bytes))))))"

section \<open>Scans and the cursor\<close>

record btree_cursor =
  cu_current_leaf_page_id :: page_id
  cu_entry_index :: nat
  cu_upper_bound :: "bytes option"

text \<open>One round of the loop that looks for the first leaf.\<close>

definition first_leaf_step :: "'w win32 \<Rightarrow> page_id \<Rightarrow> ('w, page_id option) pager_action" where
  "first_leaf_step os current_page_id =
     with_page (pager_get_page os current_page_id) (\<lambda>pin. read_page pin (\<lambda>bytes.
       bind_result (page_open bytes) (\<lambda>view_bytes.
       if page_kind view_bytes = Internal then
         bind_result (internal_open bytes) (\<lambda>internal_view_bytes.
           Inr (Some (page_first_child_page_id internal_view_bytes)))
       else Inr None)))"

partial_function (option) first_leaf_page_id :: "'w win32 \<Rightarrow> page_id \<Rightarrow> ('w, page_id) pager_run" where
  "first_leaf_page_id os current_page_id s =
     bind_run (returns (first_leaf_step os current_page_id)) (\<lambda>next_page.
       case next_page of
         None \<Rightarrow> returns (return_action current_page_id)
       | Some child_page_id \<Rightarrow> first_leaf_page_id os child_page_id) s"

definition bound_fits :: "btree \<Rightarrow> bytes option \<Rightarrow> bool" where
  "bound_fits bt bound \<longleftrightarrow> (case bound of None \<Rightarrow> True | Some key \<Rightarrow> length key = bt_ks bt)"

definition btree_scan_range :: "'w win32 \<Rightarrow> btree \<Rightarrow> bytes option \<Rightarrow> bytes option \<Rightarrow>
    ('w, btree_cursor) pager_run" where
  "btree_scan_range os bt lower_bound upper_bound =
     (if \<not> bound_fits bt lower_bound then returns (fail_action InvalidArgument)
      else if \<not> bound_fits bt upper_bound then returns (fail_action InvalidArgument)
      else case lower_bound of
        Some key \<Rightarrow>
          bind_run (find_leaf_page_id os key (bt_root_page_id bt)) (\<lambda>leaf_page_id.
          bind_run (returns (with_page (pager_get_page os leaf_page_id) (\<lambda>pin. read_page pin (\<lambda>bytes.
            bind_result (leaf_open bytes) (\<lambda>leaf_page. leaf_find_insertion_position leaf_page key)))))
            (\<lambda>position.
          returns (return_action \<lparr>cu_current_leaf_page_id = leaf_page_id, cu_entry_index = position,
            cu_upper_bound = upper_bound\<rparr>)))
      | None \<Rightarrow>
          bind_run (first_leaf_page_id os (bt_root_page_id bt)) (\<lambda>current_page_id.
          returns (return_action \<lparr>cu_current_leaf_page_id = current_page_id, cu_entry_index = 0,
            cu_upper_bound = upper_bound\<rparr>)))"

definition btree_scan :: "'w win32 \<Rightarrow> btree \<Rightarrow> ('w, btree_cursor) pager_run" where
  "btree_scan os bt = btree_scan_range os bt None None"

text \<open>
  \<open>next\<close>: one round of the loop yields an entry or the end, or moves the cursor to the next
  leaf. The cursor is changed in place, so a call that fails also returns where it is.
\<close>

datatype cursor_step = Yield "(bytes \<times> bytes) option" btree_cursor | Advance btree_cursor

definition cursor_read :: "btree_cursor \<Rightarrow> bytes \<Rightarrow> cursor_step result" where
  "cursor_read cu bytes =
     bind_result (leaf_open bytes) (\<lambda>view_bytes.
     if cu_entry_index cu < page_key_count view_bytes then
       bind_result (leaf_key_at view_bytes (cu_entry_index cu)) (\<lambda>key_bytes.
       if (case cu_upper_bound cu of None \<Rightarrow> False
           | Some upper_bound \<Rightarrow> memcmp (take (length upper_bound) key_bytes) upper_bound \<ge> 0)
       then Inr (Yield None (cu\<lparr>cu_current_leaf_page_id := INVALID_PAGE_ID\<rparr>))
       else bind_result (leaf_value_at view_bytes (cu_entry_index cu)) (\<lambda>value_bytes.
         Inr (Yield (Some (key_bytes, value_bytes)) (cu\<lparr>cu_entry_index := cu_entry_index cu + 1\<rparr>))))
     else Inr (Advance (cu\<lparr>cu_current_leaf_page_id := page_next_leaf_page_id view_bytes,
       cu_entry_index := 0\<rparr>)))"

partial_function (option) cursor_next :: "'w win32 \<Rightarrow> 'w pager \<times> 'w \<Rightarrow> btree_cursor \<Rightarrow>
    (('w pager \<times> 'w) \<times> btree_cursor \<times> (bytes \<times> bytes) option result) option" where
  "cursor_next os s cu =
     (if page_id_is_valid (cu_current_leaf_page_id cu) then
        (case with_page (pager_get_page os (cu_current_leaf_page_id cu)) (\<lambda>pin.
            read_page pin (cursor_read cu)) s of
           (s1, r) \<Rightarrow>
             (case r of
                Inl e \<Rightarrow> Some (s1, cu, Inl e)
              | Inr step \<Rightarrow>
                  (case step of
                     Yield entry cu' \<Rightarrow> Some (s1, cu', Inr entry)
                   | Advance cu' \<Rightarrow> cursor_next os s1 cu')))
      else Some (s, cu, Inr None))"

section \<open>Children and their parent ids\<close>

definition internal_child_page_ids :: "'w win32 \<Rightarrow> page_id \<Rightarrow> ('w, page_id list) pager_action" where
  "internal_child_page_ids os internal_page_id =
     with_page (pager_get_page os internal_page_id) (\<lambda>pin. read_page pin (\<lambda>bytes.
       bind_result (internal_open bytes) (\<lambda>internal_page.
       bind_result (collect [0..<page_key_count internal_page] (\<lambda>entry_index.
         bind_result (internal_right_child_page_id_at internal_page entry_index) (\<lambda>child_page_id.
         Inr [child_page_id]))) (\<lambda>child_page_ids.
       Inr (page_first_child_page_id internal_page # child_page_ids)))))"

definition update_parent_page_id :: "'w win32 \<Rightarrow> page_id \<Rightarrow> page_id \<Rightarrow> ('w, unit) pager_action" where
  "update_parent_page_id os parent_page_id child_page_id =
     with_mutable_page (pager_get_page os child_page_id) (\<lambda>pin. edit_page pin (\<lambda>bytes.
       bind_result (page_open bytes) (\<lambda>child_page_view.
       Inr (page_set_parent_page_id parent_page_id child_page_view))))"

definition set_children_parent_page_id :: "'w win32 \<Rightarrow> page_id list \<Rightarrow> page_id \<Rightarrow> ('w, unit) pager_action" where
  "set_children_parent_page_id os child_page_ids parent_page_id =
     for_each child_page_ids (update_parent_page_id os parent_page_id)"

definition page_kind_of :: "'w win32 \<Rightarrow> page_id \<Rightarrow> ('w, btree_page_kind) pager_action" where
  "page_kind_of os page_id =
     with_page (pager_get_page os page_id) (\<lambda>pin. read_page pin (\<lambda>bytes.
       bind_result (page_open bytes) (\<lambda>view_bytes. Inr (page_kind view_bytes))))"

section \<open>Insertion\<close>

text \<open>
  \<open>SplitResult\<close> is a separator key and the id of the new right page. The entry of a leaf is its
  key followed by its value.
\<close>

type_synonym split_result = "bytes \<times> page_id"

definition entry_key :: "btree \<Rightarrow> bytes \<Rightarrow> bytes" where
  "entry_key bt entry = take (bt_ks bt) entry"

definition entry_value :: "btree \<Rightarrow> bytes \<Rightarrow> bytes" where
  "entry_value bt entry = take (bt_vs bt) (drop (bt_ks bt) entry)"

text \<open>Where the key goes and how many keys the leaf has; a key that is there already is refused.\<close>

definition leaf_insertion_point :: "bytes \<Rightarrow> bytes \<Rightarrow> (nat \<times> nat) result" where
  "leaf_insertion_point key bytes =
     bind_result (leaf_open bytes) (\<lambda>view_bytes.
     bind_result (leaf_find_insertion_position view_bytes key) (\<lambda>insertion_pos.
     let stored_key_count = page_key_count view_bytes in
     if insertion_pos < stored_key_count then
       bind_result (leaf_key_at view_bytes insertion_pos) (\<lambda>next_key.
       ensure (\<not> memcmp key next_key = 0) ConstraintViolation (Inr (insertion_pos, stored_key_count)))
     else Inr (insertion_pos, stored_key_count)))"

text \<open>The old entries and the new one in order.\<close>

definition gather_leaf_entries :: "nat \<Rightarrow> nat \<Rightarrow> bytes \<Rightarrow> bytes \<Rightarrow> bytes \<Rightarrow> bytes list result" where
  "gather_leaf_entries insertion_pos stored_key_count key value_bytes view_bytes =
     collect [0..<stored_key_count + 1] (\<lambda>entry_index.
       bind_result (if entry_index = stored_key_count then Inr []
           else bind_result (leaf_entry_at view_bytes entry_index) (\<lambda>entry. Inr [entry])) (\<lambda>old.
       Inr ((if entry_index = insertion_pos then [key @ value_bytes] else []) @ old)))"

definition insert_leaf_entries :: "btree \<Rightarrow> page_pin \<Rightarrow> bytes list \<Rightarrow> nat \<Rightarrow> nat \<Rightarrow> ('w, unit) pager_action" where
  "insert_leaf_entries bt pin entries first limit =
     for_each [first..<limit] (\<lambda>entry_index. edit_page pin (leaf_insert_entry (entry_index - first)
       (entry_key bt (entries ! entry_index)) (entry_value bt (entries ! entry_index))))"

definition set_previous_of_next :: "'w win32 \<Rightarrow> page_id \<Rightarrow> page_id \<Rightarrow> ('w, unit) pager_action" where
  "set_previous_of_next os next_leaf_page_id p =
     (if page_id_is_valid next_leaf_page_id then
        with_mutable_page (pager_get_page os next_leaf_page_id) (\<lambda>pin. edit_page pin (\<lambda>bytes.
          bind_result (leaf_open bytes) (\<lambda>next_leaf_page_view.
          Inr (page_set_previous_leaf_page_id p next_leaf_page_view))))
      else return_action ())"

definition split_leaf :: "'w win32 \<Rightarrow> btree \<Rightarrow> page_id \<Rightarrow> page_pin \<Rightarrow> bytes \<Rightarrow> nat \<Rightarrow> nat \<Rightarrow> bytes \<Rightarrow> bytes \<Rightarrow>
    ('w, split_result option) pager_action" where
  "split_leaf os bt page_id page view_bytes insertion_pos stored_key_count key value_bytes =
     (let parent_page_id = page_parent_page_id view_bytes;
          old_next_leaf_page_id = page_next_leaf_page_id view_bytes in
      bind_action (lift_result (gather_leaf_entries insertion_pos stored_key_count key value_bytes view_bytes))
        (\<lambda>entries.
      with_mutable_page pager_new_page (\<lambda>right_leaf_page.
        bind_action (pin_page_id right_leaf_page) (\<lambda>right_leaf_page_id.
        bind_action (edit_page right_leaf_page (\<lambda>bytes.
          initialize_leaf bytes (bt_key_size bt) (bt_value_size bt))) (\<lambda>_.
        bind_action (read_page right_leaf_page leaf_open) (\<lambda>_.
        let total_key_count = length entries; left_key_count = total_key_count div 2 in
        bind_action (edit_page page (leaf_set_key_count 0)) (\<lambda>_.
        bind_action (insert_leaf_entries bt page entries 0 left_key_count) (\<lambda>_.
        bind_action (insert_leaf_entries bt right_leaf_page entries left_key_count total_key_count) (\<lambda>_.
        bind_action (edit_page page (\<lambda>bytes. Inr (page_set_next_leaf_page_id right_leaf_page_id bytes))) (\<lambda>_.
        bind_action (edit_page right_leaf_page (\<lambda>bytes. Inr (page_set_parent_page_id parent_page_id bytes))) (\<lambda>_.
        bind_action (edit_page right_leaf_page (\<lambda>bytes. Inr (page_set_previous_leaf_page_id page_id bytes))) (\<lambda>_.
        bind_action (edit_page right_leaf_page (\<lambda>bytes.
          Inr (page_set_next_leaf_page_id old_next_leaf_page_id bytes))) (\<lambda>_.
        bind_action (set_previous_of_next os old_next_leaf_page_id right_leaf_page_id) (\<lambda>_.
        return_action (Some (entry_key bt (entries ! left_key_count), right_leaf_page_id))))))))))))))))"

definition insert_into_leaf :: "'w win32 \<Rightarrow> btree \<Rightarrow> page_id \<Rightarrow> bytes \<Rightarrow> bytes \<Rightarrow>
    ('w, split_result option) pager_action" where
  "insert_into_leaf os bt page_id key value_bytes =
     bind_action (with_page (pager_get_page os page_id) (\<lambda>pin. read_page pin (leaf_insertion_point key)))
       (\<lambda>(insertion_pos, stored_key_count).
     with_mutable_page (pager_get_page os page_id) (\<lambda>page.
       bind_action (read_page page leaf_open) (\<lambda>view_bytes.
       if page_key_count view_bytes < leaf_capacity view_bytes then
         bind_action (edit_page page (leaf_insert_entry insertion_pos key value_bytes)) (\<lambda>_.
         return_action None)
       else split_leaf os bt page_id page view_bytes insertion_pos stored_key_count key value_bytes)))"

text \<open>The same for an internal page, with the separator and the page of a child that was split.\<close>

definition gather_internal_entries :: "nat \<Rightarrow> nat \<Rightarrow> split_result \<Rightarrow> bytes \<Rightarrow> (bytes \<times> page_id) list result" where
  "gather_internal_entries insertion_pos stored_key_count child_split view_bytes =
     collect [0..<stored_key_count + 1] (\<lambda>entry_index.
       bind_result (if entry_index = stored_key_count then Inr []
           else bind_result (internal_key_at view_bytes entry_index) (\<lambda>k.
             bind_result (internal_right_child_page_id_at view_bytes entry_index) (\<lambda>p. Inr [(k, p)]))) (\<lambda>old.
       Inr ((if entry_index = insertion_pos then [child_split] else []) @ old)))"

definition insert_internal_entries :: "page_pin \<Rightarrow> (bytes \<times> page_id) list \<Rightarrow> nat \<Rightarrow> nat \<Rightarrow>
    ('w, unit) pager_action" where
  "insert_internal_entries pin entries first limit =
     for_each [first..<limit] (\<lambda>entry_index. edit_page pin (internal_insert_entry (entry_index - first)
       (fst (entries ! entry_index)) (snd (entries ! entry_index))))"

definition split_internal :: "'w win32 \<Rightarrow> btree \<Rightarrow> page_pin \<Rightarrow> bytes \<Rightarrow> split_result \<Rightarrow>
    ('w, split_result option) pager_action" where
  "split_internal os bt page view_bytes child_split =
     bind_action (lift_result (internal_find_insertion_position view_bytes (fst child_split))) (\<lambda>insertion_pos.
     let stored_key_count = page_key_count view_bytes; parent_page_id = page_parent_page_id view_bytes in
     bind_action (lift_result (gather_internal_entries insertion_pos stored_key_count child_split view_bytes))
       (\<lambda>entries.
     with_mutable_page pager_new_page (\<lambda>right_internal_page.
       bind_action (pin_page_id right_internal_page) (\<lambda>right_internal_page_id.
       bind_action (edit_page right_internal_page (\<lambda>bytes.
         initialize_internal bytes (bt_key_size bt) (bt_value_size bt))) (\<lambda>_.
       bind_action (read_page right_internal_page internal_open) (\<lambda>_.
       let total_key_count = length entries; middle_index = total_key_count div 2;
           promoted_entry = entries ! middle_index in
       bind_action (edit_page page (internal_set_key_count 0)) (\<lambda>_.
       bind_action (insert_internal_entries page entries 0 middle_index) (\<lambda>_.
       bind_action (edit_page right_internal_page (\<lambda>bytes. Inr (page_set_parent_page_id parent_page_id bytes))) (\<lambda>_.
       bind_action (edit_page right_internal_page (\<lambda>bytes.
         Inr (page_set_first_child_page_id (snd promoted_entry) bytes))) (\<lambda>_.
       bind_action (insert_internal_entries right_internal_page entries (middle_index + 1) total_key_count) (\<lambda>_.
       bind_action (update_parent_page_id os right_internal_page_id (snd promoted_entry)) (\<lambda>_.
       bind_action (for_each [middle_index + 1..<total_key_count] (\<lambda>entry_index.
         update_parent_page_id os right_internal_page_id (snd (entries ! entry_index)))) (\<lambda>_.
       return_action (Some (fst promoted_entry, right_internal_page_id)))))))))))))))"

definition add_child_split :: "'w win32 \<Rightarrow> btree \<Rightarrow> page_id \<Rightarrow> split_result \<Rightarrow>
    ('w, split_result option) pager_action" where
  "add_child_split os bt page_id child_split =
     with_mutable_page (pager_get_page os page_id) (\<lambda>page.
       bind_action (read_page page internal_open) (\<lambda>view_bytes.
       if page_key_count view_bytes < internal_capacity view_bytes then
         bind_action (lift_result (internal_find_insertion_position view_bytes (fst child_split))) (\<lambda>insertion_pos.
         bind_action (edit_page page (internal_insert_entry insertion_pos (fst child_split) (snd child_split)))
           (\<lambda>_. return_action None))
       else split_internal os bt page view_bytes child_split))"

definition child_for_key :: "'w win32 \<Rightarrow> page_id \<Rightarrow> bytes \<Rightarrow> ('w, page_id) pager_action" where
  "child_for_key os page_id key =
     with_page (pager_get_page os page_id) (\<lambda>pin. read_page pin (\<lambda>bytes.
       bind_result (internal_open bytes) (\<lambda>view_bytes. internal_child_page_id_for_key view_bytes key)))"

text \<open>
  \<open>insert_into_subtree\<close>, with \<open>insert_into_internal\<close> unfolded: the pins of a page are released
  before the recursion.
\<close>

partial_function (option) insert_into_subtree :: "'w win32 \<Rightarrow> btree \<Rightarrow> bytes \<Rightarrow> bytes \<Rightarrow> page_id \<Rightarrow>
    ('w, split_result option) pager_run" where
  "insert_into_subtree os bt key value_bytes page_id s =
     bind_run (returns (page_kind_of os page_id)) (\<lambda>kind.
       case kind of
         Leaf \<Rightarrow> returns (insert_into_leaf os bt page_id key value_bytes)
       | Internal \<Rightarrow>
         bind_run (returns (child_for_key os page_id key)) (\<lambda>child_page_id.
         bind_run (insert_into_subtree os bt key value_bytes child_page_id) (\<lambda>child_split.
         case child_split of
           None \<Rightarrow> returns (return_action None)
         | Some split \<Rightarrow> returns (add_child_split os bt page_id split)))) s"

text \<open>
  The root page keeps its id: after a split its content moves to a new left child, and the page
  becomes an internal page with the two children.
\<close>

definition move_root_to_left_child :: "'w win32 \<Rightarrow> btree \<Rightarrow>
    ('w, btree_page_kind \<times> page_id list \<times> page_id) pager_action" where
  "move_root_to_left_child os bt =
     with_page (pager_get_page os (bt_root_page_id bt)) (\<lambda>old_root_page.
       bind_action (read_page old_root_page page_open) (\<lambda>old_root_page_view.
       let old_root_page_kind = page_kind old_root_page_view in
       bind_action (if old_root_page_kind = Internal
           then internal_child_page_ids os (bt_root_page_id bt) else return_action []) (\<lambda>old_root_child_page_ids.
       with_mutable_page pager_new_page (\<lambda>left_child_page.
         bind_action (pin_page_id left_child_page) (\<lambda>left_child_page_id.
         bind_action (read_page old_root_page (\<lambda>bytes. Inr bytes)) (\<lambda>old_root_bytes.
         bind_action (edit_page left_child_page (\<lambda>_. Inr old_root_bytes)) (\<lambda>_.
         bind_action (edit_page left_child_page (\<lambda>bytes. bind_result (page_open bytes) (\<lambda>left_child_page_view.
           Inr (page_set_parent_page_id (bt_root_page_id bt) (page_set_root False left_child_page_view))))) (\<lambda>_.
         return_action (old_root_page_kind, old_root_child_page_ids, left_child_page_id)))))))))"

definition make_new_root :: "'w win32 \<Rightarrow> btree \<Rightarrow> page_id \<Rightarrow> split_result \<Rightarrow> ('w, unit) pager_action" where
  "make_new_root os bt left_child_page_id split =
     with_mutable_page (pager_get_page os (bt_root_page_id bt)) (\<lambda>root_page.
       bind_action (edit_page root_page (\<lambda>bytes.
         initialize_internal bytes (bt_key_size bt) (bt_value_size bt))) (\<lambda>_.
       bind_action (edit_page root_page (\<lambda>bytes. bind_result (internal_open bytes) (\<lambda>root_page_view.
         Inr (page_set_first_child_page_id left_child_page_id (page_set_parent_page_id INVALID_PAGE_ID
           (page_set_root True root_page_view)))))) (\<lambda>_.
       edit_page root_page (internal_insert_entry 0 (fst split) (snd split)))))"

definition attach_right_child :: "'w win32 \<Rightarrow> btree \<Rightarrow> btree_page_kind \<Rightarrow> page_id \<Rightarrow> page_id \<Rightarrow>
    ('w, unit) pager_action" where
  "attach_right_child os bt old_root_page_kind left_child_page_id right_child_page_id =
     with_mutable_page (pager_get_page os right_child_page_id) (\<lambda>right_child_page.
       bind_action (edit_page right_child_page (\<lambda>bytes. bind_result (page_open bytes) (\<lambda>right_child_page_view.
         Inr (page_set_parent_page_id (bt_root_page_id bt) (page_set_root False right_child_page_view))))) (\<lambda>_.
       if old_root_page_kind = Leaf then
         edit_page right_child_page (\<lambda>bytes. bind_result (leaf_open bytes) (\<lambda>right_child_leaf_page_view.
           Inr (page_set_previous_leaf_page_id left_child_page_id right_child_leaf_page_view)))
       else return_action ()))"

definition split_root :: "'w win32 \<Rightarrow> btree \<Rightarrow> split_result \<Rightarrow> ('w, unit) pager_action" where
  "split_root os bt split =
     bind_action (move_root_to_left_child os bt)
       (\<lambda>(old_root_page_kind, old_root_child_page_ids, left_child_page_id).
     bind_action (if old_root_page_kind = Internal
         then set_children_parent_page_id os old_root_child_page_ids left_child_page_id
         else return_action ()) (\<lambda>_.
     bind_action (make_new_root os bt left_child_page_id split) (\<lambda>_.
     attach_right_child os bt old_root_page_kind left_child_page_id (snd split))))"

definition btree_insert :: "'w win32 \<Rightarrow> btree \<Rightarrow> bytes \<Rightarrow> bytes \<Rightarrow> ('w, unit) pager_run" where
  "btree_insert os bt key value_bytes =
     (if length key \<noteq> bt_ks bt then returns (fail_action InvalidArgument)
      else if length value_bytes \<noteq> bt_vs bt then returns (fail_action InvalidArgument)
      else bind_run (insert_into_subtree os bt key value_bytes (bt_root_page_id bt)) (\<lambda>split_result.
        case split_result of
          None \<Rightarrow> returns (return_action ())
        | Some split \<Rightarrow> returns (split_root os bt split)))"

end
