(* ===== verification/BTreeErase.thy ===== *)
theory BTreeErase
  imports BTree
begin

text \<open>
  Erasing from the B+ tree of \<^verbatim>\<open>BTree.cpp\<close>: the descent, the tests for underfull pages, borrowing
  from and merging with a sibling, the separators of the parent and the root that loses its last
  key. A child index of the code has 16 bits; it is at most the number of keys of a page, which is
  below \<open>BTREE_PAGE_ENTRY_AREA_SIZE\<close>, so the sums with 1 do not wrap and it is a \<open>nat\<close> here.
\<close>

section \<open>Reading children and separators\<close>

definition child_page_id_at :: "nat \<Rightarrow> bytes \<Rightarrow> page_id result" where
  "child_page_id_at child_index view_bytes =
     (if child_index = 0 then Inr (page_first_child_page_id view_bytes)
      else internal_right_child_page_id_at view_bytes (child_index - 1))"

definition page_is_underfull :: "'w win32 \<Rightarrow> page_id \<Rightarrow> ('w, bool) pager_action" where
  "page_is_underfull os page_id =
     with_page (pager_get_page os page_id) (\<lambda>pin. read_page pin (\<lambda>bytes.
       bind_result (page_open bytes) (\<lambda>view_bytes.
       if page_is_root view_bytes then Inr False
       else if page_kind view_bytes = Leaf then
         bind_result (leaf_open bytes) (\<lambda>leaf_view_bytes.
         let minimum_key_count = (leaf_capacity leaf_view_bytes + 1) div 2 in
         Inr (page_key_count leaf_view_bytes < minimum_key_count))
       else
         bind_result (internal_open bytes) (\<lambda>internal_view_bytes.
         let minimum_key_count = internal_capacity internal_view_bytes div 2 in
         Inr (page_key_count internal_view_bytes < minimum_key_count)))))"

definition parent_separator_key :: "'w win32 \<Rightarrow> page_id \<Rightarrow> nat \<Rightarrow> ('w, bytes) pager_action" where
  "parent_separator_key os parent_page_id entry_index =
     with_page (pager_get_page os parent_page_id) (\<lambda>pin. read_page pin (\<lambda>bytes.
       bind_result (internal_open bytes) (\<lambda>parent_view_bytes.
       internal_key_at parent_view_bytes entry_index)))"

text \<open>The child and its two siblings; a sibling that does not exist is \<open>INVALID_PAGE_ID\<close>.\<close>

definition read_siblings :: "'w win32 \<Rightarrow> page_id \<Rightarrow> nat \<Rightarrow>
    ('w, page_id \<times> page_id \<times> page_id) pager_action" where
  "read_siblings os parent_page_id child_index =
     with_page (pager_get_page os parent_page_id) (\<lambda>pin. read_page pin (\<lambda>bytes.
       bind_result (internal_open bytes) (\<lambda>parent_view_bytes.
       bind_result (child_page_id_at child_index parent_view_bytes) (\<lambda>child_page_id.
       bind_result (if child_index > 0 then child_page_id_at (child_index - 1) parent_view_bytes
           else Inr INVALID_PAGE_ID) (\<lambda>left_sibling_page_id.
       bind_result (if child_index < page_key_count parent_view_bytes
           then internal_right_child_page_id_at parent_view_bytes child_index
           else Inr INVALID_PAGE_ID) (\<lambda>right_sibling_page_id.
       Inr (child_page_id, left_sibling_page_id, right_sibling_page_id)))))))"

text \<open>One round of the loop for the least key of a subtree: the child to go to, or the key.\<close>

definition first_key_step :: "'w win32 \<Rightarrow> page_id \<Rightarrow> ('w, page_id + bytes) pager_action" where
  "first_key_step os current_page_id =
     with_page (pager_get_page os current_page_id) (\<lambda>pin. read_page pin (\<lambda>bytes.
       bind_result (page_open bytes) (\<lambda>view_bytes.
       if page_kind view_bytes = Internal then
         bind_result (internal_open bytes) (\<lambda>internal_view_bytes.
         Inr (Inl (page_first_child_page_id internal_view_bytes)))
       else
         bind_result (leaf_open bytes) (\<lambda>leaf_view_bytes.
         bind_result (leaf_key_at leaf_view_bytes 0) (\<lambda>key. Inr (Inr key))))))"

partial_function (option) first_key_of :: "'w win32 \<Rightarrow> page_id \<Rightarrow> ('w, bytes) pager_run" where
  "first_key_of os current_page_id s =
     bind_run (returns (first_key_step os current_page_id)) (\<lambda>step.
       case step of
         Inl child_page_id \<Rightarrow> first_key_of os child_page_id
       | Inr key \<Rightarrow> returns (return_action key)) s"

definition set_separator :: "'w win32 \<Rightarrow> page_id \<Rightarrow> nat \<Rightarrow> bytes \<Rightarrow> ('w, unit) pager_action" where
  "set_separator os internal_page_id entry_index key =
     with_mutable_page (pager_get_page os internal_page_id) (\<lambda>pin. edit_page pin (\<lambda>bytes.
       bind_result (internal_open bytes) (internal_set_key_at entry_index key)))"

definition refresh_child_separator :: "'w win32 \<Rightarrow> page_id \<Rightarrow> nat \<Rightarrow> ('w, unit) pager_run" where
  "refresh_child_separator os internal_page_id child_index =
     (if child_index = 0 then returns (return_action ())
      else
        bind_run (returns (with_page (pager_get_page os internal_page_id) (\<lambda>pin. read_page pin (\<lambda>bytes.
          bind_result (internal_open bytes) (\<lambda>internal_view_bytes.
          internal_right_child_page_id_at internal_view_bytes (child_index - 1)))))) (\<lambda>current_page_id.
        bind_run (first_key_of os current_page_id) (\<lambda>first_key.
        returns (set_separator os internal_page_id (child_index - 1) first_key))))"

definition erase_parent_entry :: "'w win32 \<Rightarrow> page_id \<Rightarrow> nat \<Rightarrow> ('w, unit) pager_action" where
  "erase_parent_entry os parent_page_id entry_index =
     with_mutable_page (pager_get_page os parent_page_id) (\<lambda>pin. edit_page pin (\<lambda>bytes.
       bind_result (internal_open bytes) (internal_erase_entry entry_index)))"

section \<open>Merging\<close>

text \<open>
  The loops read the key count of the right page in every round, through its handle, while the
  left page grows. On a damaged file the two may be the same page.
\<close>

definition append_leaf_entry :: "btree \<Rightarrow> page_pin \<Rightarrow> page_pin \<Rightarrow> nat \<Rightarrow> nat \<Rightarrow> ('w, unit) pager_action" where
  "append_leaf_entry bt right_page left_page left_key_count entry_index =
     bind_action (read_page right_page (\<lambda>bytes. leaf_entry_at bytes entry_index)) (\<lambda>entry.
     edit_page left_page (leaf_insert_entry (left_key_count + entry_index)
       (entry_key bt entry) (entry_value bt entry)))"

partial_function (option) append_leaf_entries ::
    "btree \<Rightarrow> page_pin \<Rightarrow> page_pin \<Rightarrow> nat \<Rightarrow> nat \<Rightarrow> ('w, unit) pager_run" where
  "append_leaf_entries bt right_page left_page left_key_count entry_index s =
     bind_run (returns (read_page right_page (\<lambda>bytes.
         Inr (if entry_index < page_key_count bytes then Some entry_index else None)))) (\<lambda>next.
       case next of
         None \<Rightarrow> returns (return_action ())
       | Some entry_index \<Rightarrow>
           bind_run (returns (append_leaf_entry bt right_page left_page left_key_count entry_index)) (\<lambda>_.
           append_leaf_entries bt right_page left_page left_key_count (entry_index + 1))) s"

text \<open>A scope whose body is a run.\<close>

definition with_page_run :: "('w, page_pin) pager_action \<Rightarrow> (page_pin \<Rightarrow> ('w, 'a) pager_run) \<Rightarrow>
    ('w, 'a) pager_run" where
  "with_page_run handle body s =
     (case handle s of
        (s1, Inl e) \<Rightarrow> Some (s1, Inl e)
      | (s1, Inr pin) \<Rightarrow>
          Option.bind (body pin s1) (\<lambda>(s2, r). Some (fst (release_pin pin s2), r)))"

definition with_mutable_page_run :: "('w, page_pin) pager_action \<Rightarrow> (page_pin \<Rightarrow> ('w, 'a) pager_run) \<Rightarrow>
    ('w, 'a) pager_run" where
  "with_mutable_page_run handle body s =
     (case handle s of
        (s1, Inl e) \<Rightarrow> Some (s1, Inl e)
      | (s1, Inr pin) \<Rightarrow>
          (case handle_mark_dirty pin s1 of
             (s2, Inl e) \<Rightarrow> Some (fst (release_pin pin s2), Inl e)
           | (s2, Inr pin') \<Rightarrow>
               Option.bind (body pin' s2) (\<lambda>(s3, r). Some (fst (release_pin pin' s3), r))))"

definition merge_adjacent_leaves :: "'w win32 \<Rightarrow> btree \<Rightarrow> page_id \<Rightarrow> page_id \<Rightarrow> ('w, unit) pager_run" where
  "merge_adjacent_leaves os bt left_page_id right_page_id =
     bind_run (with_page_run (pager_get_page os right_page_id) (\<lambda>right_page.
       bind_run (returns (read_page right_page leaf_open)) (\<lambda>right_view_bytes.
       let next_leaf_page_id = page_next_leaf_page_id right_view_bytes in
       with_mutable_page_run (pager_get_page os left_page_id) (\<lambda>left_page.
         bind_run (returns (read_page left_page leaf_open)) (\<lambda>left_view_bytes.
         bind_run (append_leaf_entries bt right_page left_page (page_key_count left_view_bytes) 0) (\<lambda>_.
         bind_run (returns (edit_page left_page (\<lambda>bytes.
           Inr (page_set_next_leaf_page_id next_leaf_page_id bytes)))) (\<lambda>_.
         returns (return_action next_leaf_page_id)))))))) (\<lambda>next_leaf_page_id.
     returns (set_previous_of_next os next_leaf_page_id left_page_id))"

definition append_internal_entry :: "page_pin \<Rightarrow> page_pin \<Rightarrow> nat \<Rightarrow> nat \<Rightarrow> ('w, unit) pager_action" where
  "append_internal_entry right_page left_page left_key_count entry_index =
     bind_action (read_page right_page (\<lambda>bytes. internal_key_at bytes entry_index)) (\<lambda>key.
     bind_action (read_page right_page (\<lambda>bytes. internal_right_child_page_id_at bytes entry_index))
       (\<lambda>right_child_page_id.
     edit_page left_page (internal_insert_entry (left_key_count + 1 + entry_index) key
       right_child_page_id)))"

partial_function (option) append_internal_entries ::
    "page_pin \<Rightarrow> page_pin \<Rightarrow> nat \<Rightarrow> nat \<Rightarrow> ('w, unit) pager_run" where
  "append_internal_entries right_page left_page left_key_count entry_index s =
     bind_run (returns (read_page right_page (\<lambda>bytes.
         Inr (if entry_index < page_key_count bytes then Some entry_index else None)))) (\<lambda>next.
       case next of
         None \<Rightarrow> returns (return_action ())
       | Some entry_index \<Rightarrow>
           bind_run (returns (append_internal_entry right_page left_page left_key_count entry_index)) (\<lambda>_.
           append_internal_entries right_page left_page left_key_count (entry_index + 1))) s"

partial_function (option) adopt_children ::
    "'w win32 \<Rightarrow> page_pin \<Rightarrow> page_id \<Rightarrow> nat \<Rightarrow> ('w, unit) pager_run" where
  "adopt_children os right_page left_page_id entry_index s =
     bind_run (returns (read_page right_page (\<lambda>bytes.
         Inr (if entry_index < page_key_count bytes then Some entry_index else None)))) (\<lambda>next.
       case next of
         None \<Rightarrow> returns (return_action ())
       | Some entry_index \<Rightarrow>
           bind_run (returns (read_page right_page (\<lambda>bytes.
             internal_right_child_page_id_at bytes entry_index))) (\<lambda>right_child_page_id.
           bind_run (returns (update_parent_page_id os left_page_id right_child_page_id)) (\<lambda>_.
           adopt_children os right_page left_page_id (entry_index + 1)))) s"

definition merge_adjacent_internals :: "'w win32 \<Rightarrow> page_id \<Rightarrow> bytes \<Rightarrow> page_id \<Rightarrow>
    ('w, unit) pager_run" where
  "merge_adjacent_internals os left_page_id separator_key right_page_id =
     with_page_run (pager_get_page os right_page_id) (\<lambda>right_page.
       bind_run (returns (read_page right_page internal_open)) (\<lambda>right_view_bytes.
       let right_first_child_page_id = page_first_child_page_id right_view_bytes in
       bind_run (with_mutable_page_run (pager_get_page os left_page_id) (\<lambda>left_page.
         bind_run (returns (read_page left_page internal_open)) (\<lambda>left_view_bytes.
         let left_key_count = page_key_count left_view_bytes in
         bind_run (returns (edit_page left_page
           (internal_insert_entry left_key_count separator_key right_first_child_page_id))) (\<lambda>_.
         append_internal_entries right_page left_page left_key_count 0)))) (\<lambda>_.
       bind_run (returns (update_parent_page_id os left_page_id right_first_child_page_id)) (\<lambda>_.
       adopt_children os right_page left_page_id 0))))"

section \<open>Borrowing\<close>

text \<open>
  A sibling that has more keys than the minimum lends one. Each of the four actions says whether
  it has done so: then the rebalancing is finished.
\<close>

definition leaf_lends_last :: "'w win32 \<Rightarrow> page_id \<Rightarrow> ('w, (nat \<times> bytes) option) pager_action" where
  "leaf_lends_last os left_sibling_page_id =
     with_page (pager_get_page os left_sibling_page_id) (\<lambda>pin. read_page pin (\<lambda>bytes.
       bind_result (leaf_open bytes) (\<lambda>left_view_bytes.
       let minimum_key_count = (leaf_capacity left_view_bytes + 1) div 2 in
       if page_key_count left_view_bytes > minimum_key_count then
         let borrowed_entry_index = page_key_count left_view_bytes - 1 in
         bind_result (leaf_entry_at left_view_bytes borrowed_entry_index) (\<lambda>stored_entry.
         Inr (Some (borrowed_entry_index, stored_entry)))
       else Inr None)))"

definition erase_leaf_entry_of :: "'w win32 \<Rightarrow> page_id \<Rightarrow> nat \<Rightarrow> ('w, unit) pager_action" where
  "erase_leaf_entry_of os page_id entry_index =
     with_mutable_page (pager_get_page os page_id) (\<lambda>pin. edit_page pin (\<lambda>bytes.
       bind_result (leaf_open bytes) (leaf_erase_entry entry_index)))"

definition borrow_from_left_leaf :: "'w win32 \<Rightarrow> btree \<Rightarrow> page_id \<Rightarrow> nat \<Rightarrow> page_id \<Rightarrow> page_id \<Rightarrow>
    ('w, bool) pager_run" where
  "borrow_from_left_leaf os bt parent_page_id child_index child_page_id left_sibling_page_id =
     bind_run (returns (leaf_lends_last os left_sibling_page_id)) (\<lambda>lent.
     case lent of
       None \<Rightarrow> returns (return_action False)
     | Some (borrowed_entry_index, entry) \<Rightarrow>
         bind_run (returns (with_mutable_page (pager_get_page os child_page_id) (\<lambda>pin.
           edit_page pin (\<lambda>bytes. bind_result (leaf_open bytes)
             (leaf_insert_entry 0 (entry_key bt entry) (entry_value bt entry)))))) (\<lambda>_.
         bind_run (returns (erase_leaf_entry_of os left_sibling_page_id borrowed_entry_index)) (\<lambda>_.
         bind_run (refresh_child_separator os parent_page_id child_index) (\<lambda>_.
         returns (return_action True)))))"

definition leaf_lends_first :: "'w win32 \<Rightarrow> page_id \<Rightarrow> ('w, bytes option) pager_action" where
  "leaf_lends_first os right_sibling_page_id =
     with_page (pager_get_page os right_sibling_page_id) (\<lambda>pin. read_page pin (\<lambda>bytes.
       bind_result (leaf_open bytes) (\<lambda>right_view_bytes.
       let minimum_key_count = (leaf_capacity right_view_bytes + 1) div 2 in
       if page_key_count right_view_bytes > minimum_key_count then
         bind_result (leaf_entry_at right_view_bytes 0) (\<lambda>stored_entry. Inr (Some stored_entry))
       else Inr None)))"

definition borrow_from_right_leaf :: "'w win32 \<Rightarrow> btree \<Rightarrow> page_id \<Rightarrow> nat \<Rightarrow> page_id \<Rightarrow> page_id \<Rightarrow>
    ('w, bool) pager_run" where
  "borrow_from_right_leaf os bt parent_page_id child_index child_page_id right_sibling_page_id =
     bind_run (returns (leaf_lends_first os right_sibling_page_id)) (\<lambda>lent.
     case lent of
       None \<Rightarrow> returns (return_action False)
     | Some entry \<Rightarrow>
         bind_run (returns (with_mutable_page (pager_get_page os child_page_id) (\<lambda>pin.
           edit_page pin (\<lambda>bytes. bind_result (leaf_open bytes) (\<lambda>child_view_bytes.
             leaf_insert_entry (page_key_count child_view_bytes)
               (entry_key bt entry) (entry_value bt entry) child_view_bytes))))) (\<lambda>_.
         bind_run (returns (erase_leaf_entry_of os right_sibling_page_id 0)) (\<lambda>_.
         bind_run (if child_index > 0 then refresh_child_separator os parent_page_id child_index
           else returns (return_action ())) (\<lambda>_.
         bind_run (refresh_child_separator os parent_page_id (child_index + 1)) (\<lambda>_.
         returns (return_action True))))))"

definition internal_lends_last :: "'w win32 \<Rightarrow> page_id \<Rightarrow> ('w, (nat \<times> page_id) option) pager_action" where
  "internal_lends_last os left_sibling_page_id =
     with_page (pager_get_page os left_sibling_page_id) (\<lambda>pin. read_page pin (\<lambda>bytes.
       bind_result (internal_open bytes) (\<lambda>left_view_bytes.
       let minimum_key_count = internal_capacity left_view_bytes div 2 in
       if page_key_count left_view_bytes > minimum_key_count then
         let borrowed_entry_index = page_key_count left_view_bytes - 1 in
         bind_result (internal_right_child_page_id_at left_view_bytes borrowed_entry_index)
           (\<lambda>borrowed_child_page_id. Inr (Some (borrowed_entry_index, borrowed_child_page_id)))
       else Inr None)))"

definition borrow_from_left_internal :: "'w win32 \<Rightarrow> page_id \<Rightarrow> nat \<Rightarrow> page_id \<Rightarrow> page_id \<Rightarrow>
    ('w, bool) pager_run" where
  "borrow_from_left_internal os parent_page_id child_index child_page_id left_sibling_page_id =
     bind_run (returns (internal_lends_last os left_sibling_page_id)) (\<lambda>lent.
     case lent of
       None \<Rightarrow> returns (return_action False)
     | Some (borrowed_entry_index, borrowed_child_page_id) \<Rightarrow>
         bind_run (returns (parent_separator_key os parent_page_id (child_index - 1))) (\<lambda>separator_key.
         bind_run (returns (with_mutable_page (pager_get_page os child_page_id) (\<lambda>pin.
           edit_page pin (\<lambda>bytes. bind_result (internal_open bytes) (\<lambda>child_view_bytes.
             let old_first_child_page_id = page_first_child_page_id child_view_bytes in
             bind_result (internal_insert_entry 0 separator_key old_first_child_page_id child_view_bytes)
               (\<lambda>child_view_bytes.
             Inr (page_set_first_child_page_id borrowed_child_page_id child_view_bytes))))))) (\<lambda>_.
         bind_run (returns (erase_parent_entry os left_sibling_page_id borrowed_entry_index)) (\<lambda>_.
         bind_run (returns (update_parent_page_id os child_page_id borrowed_child_page_id)) (\<lambda>_.
         bind_run (refresh_child_separator os parent_page_id child_index) (\<lambda>_.
         returns (return_action True)))))))"

definition internal_lends_first :: "'w win32 \<Rightarrow> page_id \<Rightarrow> ('w, (page_id \<times> page_id) option) pager_action" where
  "internal_lends_first os right_sibling_page_id =
     with_page (pager_get_page os right_sibling_page_id) (\<lambda>pin. read_page pin (\<lambda>bytes.
       bind_result (internal_open bytes) (\<lambda>right_view_bytes.
       let minimum_key_count = internal_capacity right_view_bytes div 2 in
       if page_key_count right_view_bytes > minimum_key_count then
         let borrowed_child_page_id = page_first_child_page_id right_view_bytes in
         bind_result (internal_right_child_page_id_at right_view_bytes 0)
           (\<lambda>new_right_first_child_page_id. Inr (Some (borrowed_child_page_id, new_right_first_child_page_id)))
       else Inr None)))"

definition borrow_from_right_internal :: "'w win32 \<Rightarrow> page_id \<Rightarrow> nat \<Rightarrow> page_id \<Rightarrow> page_id \<Rightarrow>
    ('w, bool) pager_run" where
  "borrow_from_right_internal os parent_page_id child_index child_page_id right_sibling_page_id =
     bind_run (returns (internal_lends_first os right_sibling_page_id)) (\<lambda>lent.
     case lent of
       None \<Rightarrow> returns (return_action False)
     | Some (borrowed_child_page_id, new_right_first_child_page_id) \<Rightarrow>
         bind_run (returns (parent_separator_key os parent_page_id child_index)) (\<lambda>separator_key.
         bind_run (returns (with_mutable_page (pager_get_page os child_page_id) (\<lambda>pin.
           edit_page pin (\<lambda>bytes. bind_result (internal_open bytes) (\<lambda>child_view_bytes.
             internal_insert_entry (page_key_count child_view_bytes) separator_key
               borrowed_child_page_id child_view_bytes))))) (\<lambda>_.
         bind_run (returns (with_mutable_page (pager_get_page os right_sibling_page_id) (\<lambda>pin.
           bind_action (edit_page pin (\<lambda>bytes. bind_result (internal_open bytes) (\<lambda>right_view_bytes.
             Inr (page_set_first_child_page_id new_right_first_child_page_id right_view_bytes)))) (\<lambda>_.
           edit_page pin (internal_erase_entry 0))))) (\<lambda>_.
         bind_run (returns (update_parent_page_id os child_page_id borrowed_child_page_id)) (\<lambda>_.
         bind_run (refresh_child_separator os parent_page_id (child_index + 1)) (\<lambda>_.
         returns (return_action True)))))))"

section \<open>Rebalancing\<close>

definition rebalance_leaf_child_after_erase :: "'w win32 \<Rightarrow> btree \<Rightarrow> page_id \<Rightarrow> nat \<Rightarrow>
    ('w, unit) pager_run" where
  "rebalance_leaf_child_after_erase os bt parent_page_id child_index =
     bind_run (returns (read_siblings os parent_page_id child_index))
       (\<lambda>(child_page_id, left_sibling_page_id, right_sibling_page_id).
     bind_run (if page_id_is_valid left_sibling_page_id
       then borrow_from_left_leaf os bt parent_page_id child_index child_page_id left_sibling_page_id
       else returns (return_action False)) (\<lambda>finished.
     if finished then returns (return_action ()) else
     bind_run (if page_id_is_valid right_sibling_page_id
       then borrow_from_right_leaf os bt parent_page_id child_index child_page_id right_sibling_page_id
       else returns (return_action False)) (\<lambda>finished.
     if finished then returns (return_action ()) else
     if page_id_is_valid left_sibling_page_id then
       bind_run (merge_adjacent_leaves os bt left_sibling_page_id child_page_id) (\<lambda>_.
       returns (erase_parent_entry os parent_page_id (child_index - 1)))
     else if page_id_is_valid right_sibling_page_id then
       bind_run (merge_adjacent_leaves os bt child_page_id right_sibling_page_id) (\<lambda>_.
       returns (erase_parent_entry os parent_page_id child_index))
     else returns (fail_action Corruption))))"

definition rebalance_internal_child_after_erase :: "'w win32 \<Rightarrow> page_id \<Rightarrow> nat \<Rightarrow> ('w, unit) pager_run" where
  "rebalance_internal_child_after_erase os parent_page_id child_index =
     bind_run (returns (read_siblings os parent_page_id child_index))
       (\<lambda>(child_page_id, left_sibling_page_id, right_sibling_page_id).
     bind_run (if child_index > 0 then refresh_child_separator os parent_page_id child_index
       else returns (return_action ())) (\<lambda>_.
     bind_run (if page_id_is_valid left_sibling_page_id
       then borrow_from_left_internal os parent_page_id child_index child_page_id left_sibling_page_id
       else returns (return_action False)) (\<lambda>finished.
     if finished then returns (return_action ()) else
     bind_run (if page_id_is_valid right_sibling_page_id
       then borrow_from_right_internal os parent_page_id child_index child_page_id right_sibling_page_id
       else returns (return_action False)) (\<lambda>finished.
     if finished then returns (return_action ()) else
     if page_id_is_valid left_sibling_page_id then
       bind_run (returns (parent_separator_key os parent_page_id (child_index - 1))) (\<lambda>separator_key.
       bind_run (merge_adjacent_internals os left_sibling_page_id separator_key child_page_id) (\<lambda>_.
       returns (erase_parent_entry os parent_page_id (child_index - 1))))
     else if page_id_is_valid right_sibling_page_id then
       bind_run (returns (parent_separator_key os parent_page_id child_index)) (\<lambda>separator_key.
       bind_run (merge_adjacent_internals os child_page_id separator_key right_sibling_page_id) (\<lambda>_.
       returns (erase_parent_entry os parent_page_id child_index)))
     else returns (fail_action Corruption)))))"

definition rebalance_child_after_erase :: "'w win32 \<Rightarrow> btree \<Rightarrow> page_id \<Rightarrow> nat \<Rightarrow> ('w, unit) pager_run" where
  "rebalance_child_after_erase os bt parent_page_id child_index =
     bind_run (returns (with_page (pager_get_page os parent_page_id) (\<lambda>pin. read_page pin (\<lambda>bytes.
       bind_result (internal_open bytes) (child_page_id_at child_index))))) (\<lambda>child_page_id.
     bind_run (returns (page_kind_of os child_page_id)) (\<lambda>child_page_kind.
     if child_page_kind = Leaf then rebalance_leaf_child_after_erase os bt parent_page_id child_index
     else rebalance_internal_child_after_erase os parent_page_id child_index))"

section \<open>The descent\<close>

definition find_entry_to_erase :: "bytes \<Rightarrow> bytes \<Rightarrow> nat result" where
  "find_entry_to_erase key bytes =
     bind_result (leaf_open bytes) (\<lambda>view_bytes.
     bind_result (leaf_find_insertion_position view_bytes key) (\<lambda>position.
     ensure (\<not> position = page_key_count view_bytes) NotFound (
     bind_result (leaf_key_at view_bytes position) (\<lambda>stored_key.
     ensure (\<not> memcmp stored_key key \<noteq> 0) NotFound (Inr position)))))"

definition erase_from_leaf :: "'w win32 \<Rightarrow> page_id \<Rightarrow> bytes \<Rightarrow> ('w, bool) pager_action" where
  "erase_from_leaf os page_id key =
     bind_action (with_page (pager_get_page os page_id) (\<lambda>pin. read_page pin (find_entry_to_erase key)))
       (\<lambda>position.
     bind_action (erase_leaf_entry_of os page_id position) (\<lambda>_.
     page_is_underfull os page_id))"

definition erase_child_for_key :: "'w win32 \<Rightarrow> page_id \<Rightarrow> bytes \<Rightarrow> ('w, nat \<times> page_id) pager_action" where
  "erase_child_for_key os page_id key =
     with_page (pager_get_page os page_id) (\<lambda>pin. read_page pin (\<lambda>bytes.
       bind_result (internal_open bytes) (\<lambda>view_bytes.
       bind_result (internal_child_index_for_key view_bytes key) (\<lambda>child_index.
       bind_result (child_page_id_at child_index view_bytes) (\<lambda>child_page_id.
       Inr (child_index, child_page_id))))))"

text \<open>\<open>erase_from_subtree\<close>, with \<open>erase_from_internal\<close> unfolded.\<close>

partial_function (option) erase_from_subtree :: "'w win32 \<Rightarrow> btree \<Rightarrow> bytes \<Rightarrow> page_id \<Rightarrow>
    ('w, bool) pager_run" where
  "erase_from_subtree os bt key page_id s =
     bind_run (returns (page_kind_of os page_id)) (\<lambda>kind.
       case kind of
         Leaf \<Rightarrow> returns (erase_from_leaf os page_id key)
       | Internal \<Rightarrow>
         bind_run (returns (erase_child_for_key os page_id key)) (\<lambda>child.
         bind_run (erase_from_subtree os bt key (snd child)) (\<lambda>underfull.
         bind_run (if underfull then rebalance_child_after_erase os bt page_id (fst child)
           else if fst child > 0 then refresh_child_separator os page_id (fst child)
           else returns (return_action ())) (\<lambda>_.
         returns (page_is_underfull os page_id))))) s"

text \<open>The root that has lost its last key takes the content of its only child.\<close>

definition only_child_of_root :: "'w win32 \<Rightarrow> btree \<Rightarrow> ('w, page_id option) pager_action" where
  "only_child_of_root os bt =
     with_page (pager_get_page os (bt_root_page_id bt)) (\<lambda>pin. read_page pin (\<lambda>bytes.
       bind_result (page_open bytes) (\<lambda>root_view_bytes.
       if page_kind root_view_bytes = Leaf \<or> page_key_count root_view_bytes > 0 then Inr None
       else bind_result (internal_open bytes) (\<lambda>root_internal_view_bytes.
         Inr (Some (page_first_child_page_id root_internal_view_bytes))))))"

definition child_kind_and_children :: "'w win32 \<Rightarrow> page_id \<Rightarrow>
    ('w, btree_page_kind \<times> page_id list) pager_action" where
  "child_kind_and_children os child_page_id =
     with_page (pager_get_page os child_page_id) (\<lambda>pin.
       bind_action (read_page pin page_open) (\<lambda>child_view_bytes.
       let child_page_kind = page_kind child_view_bytes in
       bind_action (if child_page_kind = Internal then internal_child_page_ids os child_page_id
         else return_action []) (\<lambda>child_page_ids.
       return_action (child_page_kind, child_page_ids))))"

definition copy_child_to_root :: "'w win32 \<Rightarrow> btree \<Rightarrow> page_id \<Rightarrow> ('w, unit) pager_action" where
  "copy_child_to_root os bt child_page_id =
     with_page (pager_get_page os child_page_id) (\<lambda>child_page.
     with_mutable_page (pager_get_page os (bt_root_page_id bt)) (\<lambda>root_page.
       bind_action (read_page child_page (\<lambda>bytes. Inr bytes)) (\<lambda>child_bytes.
       bind_action (edit_page root_page (\<lambda>_. Inr child_bytes)) (\<lambda>_.
       edit_page root_page (\<lambda>bytes. bind_result (page_open bytes) (\<lambda>root_view_bytes.
         Inr (page_set_parent_page_id INVALID_PAGE_ID (page_set_root True root_view_bytes))))))))"

definition collapse_root :: "'w win32 \<Rightarrow> btree \<Rightarrow> ('w, unit) pager_action" where
  "collapse_root os bt =
     bind_action (only_child_of_root os bt) (\<lambda>only_child.
     case only_child of
       None \<Rightarrow> return_action ()
     | Some child_page_id \<Rightarrow>
         bind_action (child_kind_and_children os child_page_id)
           (\<lambda>(child_page_kind, child_page_child_page_ids).
         bind_action (copy_child_to_root os bt child_page_id) (\<lambda>_.
         if child_page_kind = Internal
         then set_children_parent_page_id os child_page_child_page_ids (bt_root_page_id bt)
         else return_action ())))"

definition btree_erase :: "'w win32 \<Rightarrow> btree \<Rightarrow> bytes \<Rightarrow> ('w, unit) pager_run" where
  "btree_erase os bt key =
     (if length key \<noteq> bt_ks bt then returns (fail_action InvalidArgument)
      else bind_run (erase_from_subtree os bt key (bt_root_page_id bt)) (\<lambda>_.
        returns (collapse_root os bt)))"

end
