(* ===== verification/PageTriples.thy ===== *)
theory PageTriples
  imports BTreeErase
begin

text \<open>
  A small program logic for actions over the pager. A triple says: from a state between two
  operations (with the given pins held) whose pages satisfy \<open>P\<close>, the action ends in such a state
  with the same pins held, with a result \<open>x\<close> and pages that satisfy \<open>R x\<close>, or with an error and
  pages that satisfy \<open>E\<close>. For a run it also says that the run returns.
\<close>

type_synonym page_store = "page_id \<rightharpoonup> bytes"

definition page_triple :: "('w \<Rightarrow> path \<Rightarrow> bytes option) \<Rightarrow> wal_txn list \<Rightarrow> bytes \<Rightarrow>
    (page_id \<times> page_pin) list \<Rightarrow> (page_store \<Rightarrow> bool) \<Rightarrow> ('w, 'a) pager_action \<Rightarrow>
    ('a \<Rightarrow> page_store \<Rightarrow> bool) \<Rightarrow> (page_store \<Rightarrow> bool) \<Rightarrow> bool" where
  "page_triple content txns db held P m R E \<longleftrightarrow>
     (\<forall>s s' r. pages_ok content txns db held s \<longrightarrow> P (page_map db txns s) \<longrightarrow> m s = (s', r) \<longrightarrow>
        pages_ok content txns db held s' \<and>
        (case r of Inl e \<Rightarrow> E (page_map db txns s') | Inr x \<Rightarrow> R x (page_map db txns s')))"

definition run_triple :: "('w \<Rightarrow> path \<Rightarrow> bytes option) \<Rightarrow> wal_txn list \<Rightarrow> bytes \<Rightarrow>
    (page_id \<times> page_pin) list \<Rightarrow> (page_store \<Rightarrow> bool) \<Rightarrow> ('w, 'a) pager_run \<Rightarrow>
    ('a \<Rightarrow> page_store \<Rightarrow> bool) \<Rightarrow> (page_store \<Rightarrow> bool) \<Rightarrow> bool" where
  "run_triple content txns db held P m R E \<longleftrightarrow>
     (\<forall>s. pages_ok content txns db held s \<longrightarrow> P (page_map db txns s) \<longrightarrow>
        (\<exists>s' r. m s = Some (s', r) \<and> pages_ok content txns db held s' \<and>
        (case r of Inl e \<Rightarrow> E (page_map db txns s') | Inr x \<Rightarrow> R x (page_map db txns s'))))"

section \<open>Composition\<close>

lemma page_tripleD:
  assumes "page_triple content txns db held P m R E" "m s = (s', r)" "pages_ok content txns db held s"
    and "P (page_map db txns s)"
  shows "pages_ok content txns db held s'" "r = Inl e \<Longrightarrow> E (page_map db txns s')"
    "r = Inr x \<Longrightarrow> R x (page_map db txns s')"
  using assms unfolding page_triple_def by fastforce+

lemma triple_weaken:
  assumes "page_triple content txns db held P' m R' E'" "\<And>m. P m \<Longrightarrow> P' m"
    and "\<And>x m. R' x m \<Longrightarrow> R x m" "\<And>m. E' m \<Longrightarrow> E m"
  shows "page_triple content txns db held P m R E"
  using assms unfolding page_triple_def by (fastforce split: sum.splits)

lemma triple_pure:
  assumes "\<And>m. P m \<Longrightarrow> page_triple content txns db held (\<lambda>m'. m' = m) a R E"
  shows "page_triple content txns db held P a R E"
  using assms unfolding page_triple_def by blast

lemma triple_return: "(\<And>m. P m \<Longrightarrow> R x m) \<Longrightarrow> page_triple content txns db held P (return_action x) R E"
  by (simp add: page_triple_def)

lemma triple_fail: "(\<And>m. P m \<Longrightarrow> E m) \<Longrightarrow> page_triple content txns db held P (fail_action e) R E"
  by (simp add: page_triple_def)

lemma triple_lift:
  "(\<And>m. P m \<Longrightarrow> case r of Inl e \<Rightarrow> E m | Inr x \<Rightarrow> R x m) \<Longrightarrow>
   page_triple content txns db held P (lift_result r) R E"
  by (simp add: page_triple_def)

lemma triple_bind:
  assumes "page_triple content txns db held P m R E"
    and "\<And>x. page_triple content txns db held (R x) (f x) S E"
  shows "page_triple content txns db held P (bind_action m f) S E"
  unfolding page_triple_def
proof (intro allI impI)
  fix s s' r
  assume s: "pages_ok content txns db held s" "P (page_map db txns s)" "bind_action m f s = (s', r)"
  obtain s1 r1 where m: "m s = (s1, r1)" by (metis surj_pair)
  note d = page_tripleD[OF assms(1) m s(1,2)]
  show "pages_ok content txns db held s' \<and>
    (case r of Inl e \<Rightarrow> E (page_map db txns s') | Inr x \<Rightarrow> S x (page_map db txns s'))"
  proof (cases r1)
    case (Inl e)
    with s(3) m d show ?thesis by (auto simp: bind_action_def)
  next
    case (Inr x)
    with s(3) m have "f x s1 = (s', r)" by (simp add: bind_action_def)
    from page_tripleD[OF assms(2) this d(1) d(3)[OF Inr]] show ?thesis
      by (auto split: sum.splits)
  qed
qed

lemma triple_bind_pure:
  assumes "page_triple content txns db held P m (\<lambda>x m. Q x \<and> P' m) E"
    and "\<And>x. Q x \<Longrightarrow> page_triple content txns db held P' (f x) S E"
  shows "page_triple content txns db held P (bind_action m f) S E"
proof (rule triple_bind[OF assms(1)])
  show "page_triple content txns db held (\<lambda>m. Q x \<and> P' m) (f x) S E" for x
    using assms(2)[of x] unfolding page_triple_def by blast
qed

lemma triple_for_each:
  assumes "\<And>ys x zs. xs = ys @ x # zs \<Longrightarrow> page_triple content txns db held (I ys) (f x) (\<lambda>_. I (ys @ [x])) E"
  shows "page_triple content txns db held (I []) (for_each xs f) (\<lambda>_. I xs) E"
proof -
  have "page_triple content txns db held (I ys) (for_each zs f) (\<lambda>_. I xs) E" if "xs = ys @ zs" for ys zs
    using that
  proof (induction zs arbitrary: ys)
    case Nil
    then show ?case by (auto simp: page_triple_def)
  next
    case (Cons x zs)
    have "page_triple content txns db held (I (ys @ [x])) (for_each zs f) (\<lambda>_. I xs) E"
      using Cons by simp
    with assms[OF Cons.prems] show ?case
      by (simp add: triple_bind[where R = "\<lambda>_. I (ys @ [x])"])
  qed
  from this[of "[]" xs] show ?thesis by simp
qed

lemma run_returns:
  assumes "page_triple content txns db held P m R E"
  shows "run_triple content txns db held P (returns m) R E"
  unfolding run_triple_def returns_def
proof (intro allI impI)
  fix s assume s: "pages_ok content txns db held s" "P (page_map db txns s)"
  obtain s' r where m: "m s = (s', r)" by (metis surj_pair)
  from page_tripleD[OF assms this s] m show "\<exists>s' r. Some (m s) = Some (s', r) \<and>
    pages_ok content txns db held s' \<and>
    (case r of Inl e \<Rightarrow> E (page_map db txns s') | Inr x \<Rightarrow> R x (page_map db txns s'))"
    by (auto split: sum.splits)
qed

lemma run_bind:
  assumes "run_triple content txns db held P m R E"
    and "\<And>x. run_triple content txns db held (R x) (f x) S E"
  shows "run_triple content txns db held P (bind_run m f) S E"
  unfolding run_triple_def
proof (intro allI impI)
  fix s assume s: "pages_ok content txns db held s" "P (page_map db txns s)"
  with assms(1) obtain s1 r1 where m: "m s = Some (s1, r1)" "pages_ok content txns db held s1"
    "case r1 of Inl e \<Rightarrow> E (page_map db txns s1) | Inr x \<Rightarrow> R x (page_map db txns s1)"
    unfolding run_triple_def by blast
  show "\<exists>s' r. bind_run m f s = Some (s', r) \<and> pages_ok content txns db held s' \<and>
    (case r of Inl e \<Rightarrow> E (page_map db txns s') | Inr x \<Rightarrow> S x (page_map db txns s'))"
  proof (cases r1)
    case (Inl e)
    with m show ?thesis by (simp add: bind_run_def)
  next
    case (Inr x)
    then have "R x (page_map db txns s1)" using m(3) by simp
    with assms(2)[of x] m(2) obtain s2 r2 where "f x s1 = Some (s2, r2)" "pages_ok content txns db held s2"
      "case r2 of Inl e \<Rightarrow> E (page_map db txns s2) | Inr x \<Rightarrow> S x (page_map db txns s2)"
      unfolding run_triple_def by blast
    with m(1) Inr show ?thesis by (simp add: bind_run_def)
  qed
qed

lemma run_bind_pure:
  assumes "run_triple content txns db held P m (\<lambda>x m. Q x \<and> P' m) E"
    and "\<And>x. Q x \<Longrightarrow> run_triple content txns db held P' (f x) S E"
  shows "run_triple content txns db held P (bind_run m f) S E"
proof (rule run_bind[OF assms(1)])
  show "run_triple content txns db held (\<lambda>m. Q x \<and> P' m) (f x) S E" for x
    using assms(2)[of x] unfolding run_triple_def by blast
qed

lemma run_weaken:
  assumes "run_triple content txns db held P' m R' E'" "\<And>m. P m \<Longrightarrow> P' m"
    and "\<And>x m. R' x m \<Longrightarrow> R x m" "\<And>m. E' m \<Longrightarrow> E m"
  shows "run_triple content txns db held P m R E"
  unfolding run_triple_def
proof (intro allI impI)
  fix s assume s: "pages_ok content txns db held s" "P (page_map db txns s)"
  with assms(1,2) obtain s1 r1 where "m s = Some (s1, r1)" "pages_ok content txns db held s1"
    "case r1 of Inl e \<Rightarrow> E' (page_map db txns s1) | Inr x \<Rightarrow> R' x (page_map db txns s1)"
    unfolding run_triple_def by blast
  with assms(3,4) show "\<exists>s' r. m s = Some (s', r) \<and> pages_ok content txns db held s' \<and>
      (case r of Inl e \<Rightarrow> E (page_map db txns s') | Inr x \<Rightarrow> R x (page_map db txns s'))"
    by (cases r1) auto
qed

section \<open>Scopes, reads and stores\<close>

text \<open>
  The pages of a tree are looked at as nodes. \<open>sees ks vs N A m0\<close> says that the pages are the
  nodes \<open>N\<close> and that, against the pages \<open>m0\<close> at the start, only pages of \<open>A\<close> and new pages have
  changed.
\<close>

definition nodes :: "nat \<Rightarrow> nat \<Rightarrow> page_store \<Rightarrow> page_id \<rightharpoonup> node" where
  "nodes ks vs m p = Option.bind (m p) (node_of ks vs)"

definition sees :: "nat \<Rightarrow> nat \<Rightarrow> (page_id \<rightharpoonup> node) \<Rightarrow> page_id set \<Rightarrow> page_store \<Rightarrow> page_store \<Rightarrow> bool" where
  "sees ks vs N A m0 m \<longleftrightarrow> nodes ks vs m = N \<and> dom m0 \<subseteq> dom m \<and> (\<forall>p \<in> dom m0 - A. m p = m0 p)"

lemma nodes_update: "nodes ks vs (m(p \<mapsto> d)) = (nodes ks vs m)(p := node_of ks vs d)"
  by (simp add: nodes_def fun_eq_iff)

lemma nodes_Some: "nodes ks vs m p = Some n \<longleftrightarrow> (\<exists>d. m p = Some d \<and> node_of ks vs d = Some n)"
  by (cases "m p") (simp_all add: nodes_def)

lemma sees_start: "sees ks vs N A m m' \<Longrightarrow> nodes ks vs m' = N"
  by (simp add: sees_def)

lemma sees_refl: "sees ks vs (nodes ks vs m) A m m"
  by (simp add: sees_def)

lemma sees_mono: "sees ks vs N A m0 m \<Longrightarrow> A \<subseteq> A' \<Longrightarrow> sees ks vs N A' m0 m"
  by (auto simp: sees_def)

lemma sees_Some: "sees ks vs N A m0 m \<Longrightarrow> N p = Some n \<Longrightarrow> \<exists>d. m p = Some d \<and> node_of ks vs d = Some n"
  using nodes_Some by (simp add: sees_def) metis

lemma sees_update:
  assumes "sees ks vs N A m0 m" "p \<in> A \<or> p \<notin> dom m0" "node_of ks vs d = x"
  shows "sees ks vs (N(p := x)) A m0 (m(p \<mapsto> d))"
  using assms by (auto simp: sees_def nodes_update)

lemma node_length: "node_of ks vs d = Some n \<Longrightarrow> length d = PAGE_SIZE"
  by (cases n) (simp_all add: leaf_view internal_view)

lemma node_of_zeros: "node_of ks vs (replicate PAGE_SIZE 0) = None"
proof -
  have "replicate PAGE_SIZE 0 ! BTREE_PAGE_KIND_OFFSET = (0 :: byte)"
    by (simp add: PAGE_SIZE_def)
  then have "validate_page (replicate PAGE_SIZE 0) \<noteq> Ok"
    by (simp add: validate_page_def Let_def BTREE_LEAF_PAGE_KIND_def BTREE_INTERNAL_PAGE_KIND_def)
  then show ?thesis by (simp add: node_of_def)
qed

lemma triple_edit:
  assumes "(p, pin) \<in> set held" "pp_is_dirty pin"
    and "\<And>m. P m \<Longrightarrow> \<exists>d. m p = Some d \<and> (length d = PAGE_SIZE \<longrightarrow>
      (case f d of Inl e \<Rightarrow> E m | Inr d' \<Rightarrow> length d' = PAGE_SIZE \<and> R () (m(p \<mapsto> d'))))"
  shows "page_triple content txns db held P (edit_page pin f) R E"
  unfolding page_triple_def
proof (intro allI impI)
  fix s s' r
  assume s: "pages_ok content txns db held s" "P (page_map db txns s)" "edit_page pin f s = (s', r)"
  from assms(3)[OF s(2)] obtain d where d: "page_map db txns s p = Some d"
    "length d = PAGE_SIZE \<longrightarrow> (case f d of Inl e \<Rightarrow> E (page_map db txns s)
      | Inr d' \<Rightarrow> length d' = PAGE_SIZE \<and> R () ((page_map db txns s)(p \<mapsto> d')))" by blast
  have "length d = PAGE_SIZE" using held_page_value(3)[OF s(1) assms(1) d(1)] .
  with d(2) have f: "case f d of Inl e \<Rightarrow> E (page_map db txns s)
      | Inr d' \<Rightarrow> length d' = PAGE_SIZE \<and> R () ((page_map db txns s)(p \<mapsto> d'))" by blast
  then have "\<And>d'. f d = Inr d' \<Longrightarrow> length d' = PAGE_SIZE" by simp
  from edit_page_contract[OF s(3,1) assms(1,2) d(1) this] f
  show "pages_ok content txns db held s' \<and>
    (case r of Inl e \<Rightarrow> E (page_map db txns s') | Inr x \<Rightarrow> R x (page_map db txns s'))"
    by (auto split: sum.splits)
qed

lemma triple_read:
  assumes "(p, pin) \<in> set held"
    and "\<And>m. P m \<Longrightarrow> \<exists>d. m p = Some d \<and> (case f d of Inl e \<Rightarrow> E m | Inr x \<Rightarrow> R x m)"
  shows "page_triple content txns db held P (read_page pin f) R E"
  unfolding page_triple_def
proof (intro allI impI)
  fix s s' r
  assume s: "pages_ok content txns db held s" "P (page_map db txns s)" "read_page pin f s = (s', r)"
  from assms(2)[OF s(2)] obtain d where d: "page_map db txns s p = Some d"
    "case f d of Inl e \<Rightarrow> E (page_map db txns s) | Inr x \<Rightarrow> R x (page_map db txns s)" by blast
  with held_page_value(2)[OF s(1) assms(1)] s(3) have "s' = s" "r = f d"
    by (simp_all add: read_page_def)
  with d s(1) show "pages_ok content txns db held s' \<and>
    (case r of Inl e \<Rightarrow> E (page_map db txns s') | Inr x \<Rightarrow> R x (page_map db txns s'))"
    by (cases "f d") simp_all
qed

lemma triple_pin_page_id:
  assumes "(p, pin) \<in> set held" "\<And>m. P m \<Longrightarrow> m p \<noteq> None \<and> R p m"
  shows "page_triple content txns db held P (pin_page_id pin) R E"
  unfolding page_triple_def
proof (intro allI impI)
  fix s s' r
  assume s: "pages_ok content txns db held s" "P (page_map db txns s)" "pin_page_id pin s = (s', r)"
  then obtain d where d: "page_map db txns s p = Some d" using assms(2) by blast
  from held_page_value(1)[OF s(1) assms(1) this] s(3) have "s' = s" "r = Inr p"
    by (simp_all add: pin_page_id_def get_pager_def)
  with s(1) assms(2)[OF s(2)] show "pages_ok content txns db held s' \<and>
    (case r of Inl e \<Rightarrow> E (page_map db txns s') | Inr x \<Rightarrow> R x (page_map db txns s'))" by simp
qed

text \<open>The same for pages that are nodes.\<close>

lemma triple_read_node:
  assumes "(p, pin) \<in> set held" "\<And>m. P m \<Longrightarrow> nodes ks vs m p = Some n"
    and "\<And>d. node_of ks vs d = Some n \<Longrightarrow> \<exists>x. f d = Inr x \<and> Q x"
  shows "page_triple content txns db held P (read_page pin f) (\<lambda>x m. Q x \<and> P m) E"
proof (rule triple_read[OF assms(1)])
  fix m assume m: "P m"
  from assms(2)[OF this] obtain d where "m p = Some d" "node_of ks vs d = Some n"
    unfolding nodes_Some by blast
  with assms(3)[of d] m show "\<exists>d. m p = Some d \<and> (case f d of Inl e \<Rightarrow> E m | Inr x \<Rightarrow> Q x \<and> P m)" by auto
qed

lemma triple_edit_node:
  assumes "(p, pin) \<in> set held" "pp_is_dirty pin" "N p = Some n" "p \<in> A \<or> p \<notin> dom m0"
    and "\<And>d. node_of ks vs d = Some n \<Longrightarrow> \<exists>d'. f d = Inr d' \<and> node_of ks vs d' = Some n'"
  shows "page_triple content txns db held (sees ks vs N A m0) (edit_page pin f)
    (\<lambda>_. sees ks vs (N(p \<mapsto> n')) A m0) E"
proof (rule triple_edit[OF assms(1,2)])
  fix m assume m: "sees ks vs N A m0 m"
  from sees_Some[OF this assms(3)] obtain d where d: "m p = Some d" "node_of ks vs d = Some n" by blast
  from assms(5)[OF d(2)] obtain d' where d': "f d = Inr d'" "node_of ks vs d' = Some n'" by blast
  with d(1) sees_update[OF m assms(4) d'(2)] node_length[OF d'(2)]
  show "\<exists>d. m p = Some d \<and> (length d = PAGE_SIZE \<longrightarrow> (case f d of Inl e \<Rightarrow> E m
    | Inr d' \<Rightarrow> length d' = PAGE_SIZE \<and> sees ks vs (N(p \<mapsto> n')) A m0 (m(p \<mapsto> d'))))" by simp
qed

lemma triple_edit_raw:
  assumes "(p, pin) \<in> set held" "pp_is_dirty pin" "p \<in> A \<or> p \<notin> dom m0"
    and "\<And>d. length d = PAGE_SIZE \<Longrightarrow> \<exists>d'. f d = Inr d' \<and> node_of ks vs d' = Some n'"
  shows "page_triple content txns db held (\<lambda>m. sees ks vs N A m0 m \<and> p \<in> dom m) (edit_page pin f)
    (\<lambda>_. sees ks vs (N(p \<mapsto> n')) A m0) E"
proof (rule triple_edit[OF assms(1,2)])
  fix m assume m: "sees ks vs N A m0 m \<and> p \<in> dom m"
  then obtain d where d: "m p = Some d" by blast
  have "\<exists>d'. f d = Inr d' \<and> length d' = PAGE_SIZE \<and> sees ks vs (N(p \<mapsto> n')) A m0 (m(p \<mapsto> d'))"
    if "length d = PAGE_SIZE"
    using assms(4)[OF that] sees_update[OF conjunct1[OF m] assms(3)] node_length by metis
  with d show "\<exists>d. m p = Some d \<and> (length d = PAGE_SIZE \<longrightarrow> (case f d of Inl e \<Rightarrow> E m
    | Inr d' \<Rightarrow> length d' = PAGE_SIZE \<and> sees ks vs (N(p \<mapsto> n')) A m0 (m(p \<mapsto> d'))))" by force
qed

context win32_files
begin

lemma triple_with_page:
  assumes "\<And>pin. page_triple content txns db ((p, pin) # held) P (body pin) R E"
    and "\<And>m. P m \<Longrightarrow> E m" "length held < 8"
  shows "page_triple content txns db held P (with_page (pager_get_page os p) body) R E"
  unfolding page_triple_def
proof (intro allI impI)
  fix s s' r
  assume s: "pages_ok content txns db held s" "P (page_map db txns s)"
    "with_page (pager_get_page os p) body s = (s', r)"
  have "length held < 2 ^ 32 - 2" using assms(3) by simp
  with s(3,1) show "pages_ok content txns db held s' \<and>
    (case r of Inl e \<Rightarrow> E (page_map db txns s') | Inr x \<Rightarrow> R x (page_map db txns s'))"
  proof (cases rule: with_page_cases)
    case (failed e)
    with assms(2) s(2) show ?thesis by simp
  next
    case (body pin s1 s2)
    have "P (page_map db txns s1)" using body(2) s(2) by simp
    from page_tripleD[OF assms(1) body(3,1) this] body(4) show ?thesis
      by (auto split: sum.splits)
  qed
qed

lemma triple_with_mutable:
  assumes "\<And>pin. pp_is_dirty pin \<Longrightarrow> page_triple content txns db ((p, pin) # held) P (body pin) R E"
    and "\<And>m. P m \<Longrightarrow> E m" "length held < 8"
  shows "page_triple content txns db held P (with_mutable_page (pager_get_page os p) body) R E"
  unfolding page_triple_def
proof (intro allI impI)
  fix s s' r
  assume s: "pages_ok content txns db held s" "P (page_map db txns s)"
    "with_mutable_page (pager_get_page os p) body s = (s', r)"
  have "length held < 2 ^ 32 - 2" using assms(3) by simp
  with s(3,1) show "pages_ok content txns db held s' \<and>
    (case r of Inl e \<Rightarrow> E (page_map db txns s') | Inr x \<Rightarrow> R x (page_map db txns s'))"
  proof (cases rule: with_mutable_page_cases)
    case (failed e)
    with assms(2) s(2) show ?thesis by simp
  next
    case (body pin s1 s2)
    have "P (page_map db txns s1)" using body(3) s(2) by simp
    from page_tripleD[OF assms(1)[OF body(2)] body(4,1) this] body(5) show ?thesis
      by (auto split: sum.splits)
  qed
qed

lemma triple_with_new:
  assumes "\<And>p pin. pp_is_dirty pin \<Longrightarrow> p \<noteq> INVALID_PAGE_ID \<Longrightarrow> page_triple content txns db ((p, pin) # held)
      (\<lambda>m'. \<exists>m. P m \<and> m p = None \<and> m' = m(p \<mapsto> replicate PAGE_SIZE 0)) (body pin) R E"
    and "\<And>m m'. P m \<Longrightarrow> m \<subseteq>\<^sub>m m' \<Longrightarrow> E m'" "\<And>m p pin. P m \<Longrightarrow> (p, pin) \<in> set held \<Longrightarrow> m p \<noteq> None"
    and "length held < 8"
  shows "page_triple content txns db held P (with_mutable_page pager_new_page body) R E"
  unfolding page_triple_def
proof (intro allI impI)
  fix s s' r
  assume s: "pages_ok content txns db held s" "P (page_map db txns s)"
    "with_mutable_page pager_new_page body s = (s', r)"
  have small: "length held < 2 ^ 32 - 2" using assms(4) by simp
  have held: "page_map db txns s p \<noteq> None" if "(p, pin) \<in> set held" for p pin
    using assms(3)[OF s(2) that] .
  show "pages_ok content txns db held s' \<and>
    (case r of Inl e \<Rightarrow> E (page_map db txns s') | Inr x \<Rightarrow> R x (page_map db txns s'))"
  proof (rule with_new_page_cases[OF s(3,1) small held])
    fix e assume "r = Inl e" "pages_ok content txns db held s'" "page_map db txns s \<subseteq>\<^sub>m page_map db txns s'"
    with assms(2)[OF s(2)] show ?thesis by simp
  next
    fix p pin s1 s2
    assume body: "pages_ok content txns db ((p, pin) # held) s1" "pp_is_dirty pin"
      "page_map db txns s p = None"
      "page_map db txns s1 = (page_map db txns s)(p \<mapsto> replicate PAGE_SIZE 0)" "body pin s1 = (s2, r)"
      "pages_ok content txns db ((p, pin) # held) s2 \<Longrightarrow>
        pages_ok content txns db held s' \<and> page_map db txns s' = page_map db txns s2"
    have "\<exists>m. P m \<and> m p = None \<and> page_map db txns s1 = m(p \<mapsto> replicate PAGE_SIZE 0)"
      using body(3,4) s(2) by blast
    moreover have "p \<noteq> INVALID_PAGE_ID"
      using body(1) held_frame(3)[of "(p, pin) # held" "pr_bpm (fst s1)" p pin] cached_not_invalid
      by (fastforce simp: pages_ok_def)
    ultimately show ?thesis
      using page_tripleD[OF assms(1)[OF body(2)] body(5,1)] body(6)
      by (auto split: sum.splits)
  qed
qed

lemma triple_page_read:
  assumes "\<And>m. P m \<Longrightarrow> nodes ks vs m p = Some n"
    and "\<And>d. node_of ks vs d = Some n \<Longrightarrow> \<exists>x. f d = Inr x \<and> Q x"
    and "\<And>m. P m \<Longrightarrow> E m" "length held < 8"
  shows "page_triple content txns db held P
    (with_page (pager_get_page os p) (\<lambda>pin. read_page pin f)) (\<lambda>x m. Q x \<and> P m) E"
  using assms by (intro triple_with_page triple_read_node[where n = n and ks = ks and vs = vs]) auto

lemma triple_page_edit:
  assumes "N p = Some n" "p \<in> A \<or> p \<notin> dom m0"
    and "\<And>d. node_of ks vs d = Some n \<Longrightarrow> \<exists>d'. f d = Inr d' \<and> node_of ks vs d' = Some n'"
    and "\<And>m. sees ks vs N A m0 m \<Longrightarrow> E m" "length held < 8"
  shows "page_triple content txns db held (sees ks vs N A m0)
    (with_mutable_page (pager_get_page os p) (\<lambda>pin. edit_page pin f))
    (\<lambda>_. sees ks vs (N(p \<mapsto> n')) A m0) E"
  using assms by (intro triple_with_mutable triple_edit_node[where n = n]) auto

lemma triple_new_node:
  assumes "\<And>p pin. pp_is_dirty pin \<Longrightarrow> N p = None \<Longrightarrow> p \<notin> dom m0 \<Longrightarrow> p \<noteq> INVALID_PAGE_ID \<Longrightarrow>
      page_triple content txns db ((p, pin) # held) (\<lambda>m. sees ks vs N A m0 m \<and> p \<in> dom m)
        (body pin) R (\<lambda>_. True)"
    and "\<And>h pin. (h, pin) \<in> set held \<Longrightarrow> N h \<noteq> None" "length held < 8"
  shows "page_triple content txns db held (sees ks vs N A m0)
    (with_mutable_page pager_new_page body) R (\<lambda>_. True)"
proof (rule triple_with_new)
  fix p and pin :: page_pin assume dirty: "pp_is_dirty pin" "p \<noteq> INVALID_PAGE_ID"
  show "page_triple content txns db ((p, pin) # held)
    (\<lambda>m'. \<exists>m. sees ks vs N A m0 m \<and> m p = None \<and> m' = m(p \<mapsto> replicate PAGE_SIZE 0)) (body pin) R (\<lambda>_. True)"
  proof (rule triple_pure)
    fix m' assume "\<exists>m. sees ks vs N A m0 m \<and> m p = None \<and> m' = m(p \<mapsto> replicate PAGE_SIZE 0)"
    then obtain m where m: "sees ks vs N A m0 m" "m p = None" "m' = m(p \<mapsto> replicate PAGE_SIZE 0)" by blast
    have new: "N p = None" "p \<notin> dom m0"
      using m(1,2) by (auto simp: sees_def nodes_def)
    have "sees ks vs (N(p := None)) A m0 m'"
      unfolding m(3) using new m(1) by (intro sees_update) (auto simp: node_of_zeros)
    moreover have "N(p := None) = N" using new by auto
    ultimately have "sees ks vs N A m0 m'" by simp
    with m(3) show "page_triple content txns db ((p, pin) # held) (\<lambda>m. m = m') (body pin) R (\<lambda>_. True)"
      by (auto intro: triple_weaken[OF assms(1)[OF dirty(1) new dirty(2)]])
  qed
next
  show "m p \<noteq> None" if "sees ks vs N A m0 m" "(p, pin) \<in> set held" for m p pin
    using assms(2)[OF that(2)] that(1) by (auto simp: sees_def nodes_def)
qed (use assms(3) in auto)

end

end
