(* ===== verification/BTreeSpec.thy ===== *)
theory BTreeSpec
  imports NodeView
begin

text \<open>
  The trees that a B+ tree's pages form, as an abstract data type: their entries in key order,
  the chain of their leaves, the ranges of keys below each separator, and what it means that the
  nodes of the pages store a tree.
\<close>

section \<open>Trees\<close>

datatype tree =
    TLeaf (page_of: page_id) "(bytes \<times> bytes) list" page_id
  | TNode (page_of: page_id) tree "(bytes \<times> tree) list"

lemma size_kid [termination_simp]:
  "t \<in> snd ` set es \<Longrightarrow> size t < Suc (size f + size_list (size_prod (\<lambda>_. 0) size) es)"
proof (induction es)
  case (Cons e es)
  show ?case
  proof (cases "t = snd e")
    case False
    with Cons have "size t < Suc (size f + size_list (size_prod (\<lambda>_. 0) size) es)" by auto
    then show ?thesis by (cases e) simp
  qed (cases e, simp)
qed simp

lemma size_kid_pair [termination_simp]:
  "kid \<in> set es \<Longrightarrow> size (snd kid) < Suc (size f + size_list (size_prod (\<lambda>_. 0) size) es)"
  using size_kid[of "snd kid" es] by simp

lemma kids_size:
  "sum_list (map (\<lambda>kid. Suc (2 * size (snd kid))) es) \<le> 2 * size_list (size_prod (\<lambda>_. 0) size) es"
  by (induction es) (auto simp: size_prod_simp)

fun page_ids :: "tree \<Rightarrow> page_id list" where
  "page_ids (TLeaf p es nx) = [p]"
| "page_ids (TNode p f es) = p # page_ids f @ concat (map page_ids (map snd es))"

text \<open>The leaves in order, each with its page, its entries and the page it points to.\<close>

fun leaves :: "tree \<Rightarrow> (page_id \<times> (bytes \<times> bytes) list \<times> page_id) list" where
  "leaves (TLeaf p es nx) = [(p, es, nx)]"
| "leaves (TNode p f es) = leaves f @ concat (map leaves (map snd es))"

definition contents :: "tree \<Rightarrow> (bytes \<times> bytes) list" where
  "contents t = concat (map (\<lambda>l. fst (snd l)) (leaves t))"

lemma contents_simps [simp]:
  "contents (TLeaf p es nx) = es"
  "contents (TNode p f kids) = contents f @ concat (map contents (map snd kids))"
  by (simp_all add: contents_def, induction kids) (simp_all add: contents_def)

text \<open>The nodes \<open>N\<close> of the pages store a tree; its root has the root flag \<open>root\<close>.\<close>

definition entries_of :: "(bytes \<times> tree) list \<Rightarrow> (bytes \<times> page_id) list" where
  "entries_of es = map (\<lambda>e. (fst e, page_of (snd e))) es"

fun stores :: "(page_id \<rightharpoonup> node) \<Rightarrow> bool \<Rightarrow> tree \<Rightarrow> bool" where
  "stores N root (TLeaf p es nx) \<longleftrightarrow> N p = Some (LeafNode root es nx)"
| "stores N root (TNode p f es) \<longleftrightarrow> N p = Some (InternalNode root (page_of f) (entries_of es)) \<and>
     stores N False f \<and> (\<forall>t \<in> set (map snd es). stores N False t)"

text \<open>Every leaf points to the next one, the last one to \<open>after\<close>.\<close>

definition first_page :: "(page_id \<times> 'a) list \<Rightarrow> page_id \<Rightarrow> page_id" where
  "first_page ls after = (case ls of [] \<Rightarrow> after | l # _ \<Rightarrow> fst l)"

fun linked :: "(page_id \<times> 'a \<times> page_id) list \<Rightarrow> page_id \<Rightarrow> bool" where
  "linked [] after = True"
| "linked ((p, es, nx) # ls) after \<longleftrightarrow> nx = first_page ls after \<and> linked ls after"

text \<open>
  The keys of a tree lie in the range from \<open>lo\<close> up to, but not including, \<open>hi\<close>. The children of an
  internal page and their lower bounds are one list: the first child has the bound of the page.
\<close>

definition below :: "bytes \<Rightarrow> bytes option \<Rightarrow> bool" where
  "below key hi \<longleftrightarrow> (case hi of None \<Rightarrow> True | Some h \<Rightarrow> key < h)"

definition next_key :: "bytes option \<Rightarrow> (bytes \<times> 'a) list \<Rightarrow> bytes option" where
  "next_key hi kids = (case kids of [] \<Rightarrow> hi | kid # _ \<Rightarrow> Some (fst kid))"

function (sequential) ordered :: "bytes \<Rightarrow> bytes option \<Rightarrow> tree \<Rightarrow> bool"
  and ordered_kids :: "bytes option \<Rightarrow> (bytes \<times> tree) list \<Rightarrow> bool" where
  "ordered lo hi (TLeaf p es nx) \<longleftrightarrow>
     sorted_wrt (<) (map fst es) \<and> (\<forall>key \<in> set (map fst es). lo \<le> key \<and> below key hi)"
| "ordered lo hi (TNode p f es) \<longleftrightarrow> ordered_kids hi ((lo, f) # es)"
| "ordered_kids hi [] \<longleftrightarrow> True"
| "ordered_kids hi ((lo, t) # kids) \<longleftrightarrow>
     below lo (next_key hi kids) \<and> ordered lo (next_key hi kids) t \<and> ordered_kids hi kids"
  by pat_completeness auto
termination
  by (relation "measure (case_sum (\<lambda>(_, _, t). 2 * size t)
      (\<lambda>(_, kids). sum_list (map (\<lambda>kid. Suc (2 * size (snd kid))) kids)))")
    (simp_all add: less_Suc_eq_le kids_size)

lemma first_page_simps [simp]:
  "first_page [] after = after" "first_page (l # ls) after = fst l"
  "first_page (xs @ ys) after = first_page xs (first_page ys after)"
  by (cases xs; simp add: first_page_def)+

lemma next_key_simps [simp]:
  "next_key hi [] = hi" "next_key hi (kid # kids) = Some (fst kid)"
  "next_key hi (xs @ ys) = next_key (next_key hi ys) xs"
  by (cases xs; simp add: next_key_def)+

lemma linked_append [simp]:
  "linked (xs @ ys) after \<longleftrightarrow> linked xs (first_page ys after) \<and> linked ys after"
  by (induction xs) auto

lemma ordered_kids_append [simp]:
  "ordered_kids hi (xs @ ys) \<longleftrightarrow> ordered_kids (next_key hi ys) xs \<and> ordered_kids hi ys"
  by (induction xs) auto

section \<open>Keys\<close>

abbreviation over_kids :: "(tree \<Rightarrow> 'b list) \<Rightarrow> (bytes \<times> tree) list \<Rightarrow> 'b list" where
  "over_kids f kids \<equiv> concat (map f (map snd kids))"

lemma below_simps [simp]: "below key None" "below key (Some h) \<longleftrightarrow> key < h"
  by (simp_all add: below_def)

lemma below_le: "a \<le> b \<Longrightarrow> below b hi \<Longrightarrow> below a hi"
  by (cases hi) auto

lemma sorted_wrt_lessD: "sorted_wrt (<) (xs :: 'k::linorder list) \<Longrightarrow> sorted xs"
  by (simp add: strict_sorted_iff)

lemma ordered_keys:
  "ordered lo hi t \<Longrightarrow> sorted_wrt (<) (map fst (contents t)) \<and>
     (\<forall>key \<in> fst ` set (contents t). lo \<le> key \<and> below key hi)"
  "ordered_kids hi kids \<Longrightarrow> sorted_wrt (<) (map fst (over_kids contents kids)) \<and>
     (\<forall>key \<in> fst ` set (over_kids contents kids). fst (hd kids) \<le> key \<and> below key hi) \<and>
     sorted_wrt (<) (map fst kids) \<and> (\<forall>kid \<in> set kids. below (fst kid) hi)"
proof (induction lo hi t and hi kids rule: ordered_ordered_kids.induct)
  case (4 hi lo t kids)
  note here = 4(1) and there = 4(2)
  have o: "below lo (next_key hi kids)" "ordered lo (next_key hi kids) t" "ordered_kids hi kids"
    using "4.prems" by simp_all
  note here = here[OF o(2)] and there = there[OF o(3)]
  show ?case
  proof (cases kids)
    case Nil
    with here o(1) show ?thesis by simp
  next
    case (Cons kid kids')
    let ?h = "fst kid"
    have lo: "lo < ?h" using o(1) Cons by simp
    have h: "below ?h hi" "\<forall>kid \<in> set kids. ?h \<le> fst kid"
      using there by (auto simp: Cons)
    have "key < ?h \<and> below key hi" if "key \<in> fst ` set (contents t)" for key
      using here that below_le[OF _ h(1), of key] by (auto simp: Cons)
    moreover have "?h \<le> key" if "key \<in> fst ` set (over_kids contents kids)" for key
      using there that by (auto simp: Cons)
    moreover have "below lo hi" using below_le[OF _ h(1), of lo] lo by simp
    moreover have "\<forall>kid \<in> set kids. lo < fst kid" using lo h(2) by fastforce
    moreover have "sorted_wrt (<) (map fst (over_kids contents ((lo, t) # kids)))"
    proof -
      have "fst a < fst b" if "a \<in> set (contents t)" "b \<in> set (over_kids contents kids)" for a b
        using calculation(1)[of "fst a"] calculation(2)[of "fst b"] that by fastforce
      with here there show ?thesis by (simp add: sorted_wrt_append) blast
    qed
    moreover have "lo \<le> key \<and> below key hi" if "key \<in> fst ` set (over_kids contents ((lo, t) # kids))" for key
    proof (cases "key \<in> fst ` set (contents t)")
      case True
      with calculation(1)[OF this] here show ?thesis by blast
    next
      case False
      then have k: "key \<in> fst ` set (over_kids contents kids)" using that by auto
      have "lo \<le> key" using calculation(2)[OF k] lo by simp
      with there k show ?thesis by blast
    qed
    ultimately show ?thesis
      using there by (simp only: list.map sorted_wrt.simps) auto
  qed
qed auto

lemma ordered_contents:
  assumes "ordered lo hi t"
  shows "sorted_wrt (<) (map fst (contents t))" "sorted (map fst (contents t))"
    "distinct (map fst (contents t))" "e \<in> set (contents t) \<Longrightarrow> lo \<le> fst e \<and> below (fst e) hi"
proof -
  show s: "sorted_wrt (<) (map fst (contents t))"
    and "e \<in> set (contents t) \<Longrightarrow> lo \<le> fst e \<and> below (fst e) hi"
    using ordered_keys(1)[OF assms] by simp_all
  from s show "sorted (map fst (contents t))" "distinct (map fst (contents t))"
    by (simp_all only: strict_sorted_iff)
qed

lemma ordered_kids_contents:
  assumes "ordered_kids hi kids"
  shows "sorted_wrt (<) (map fst (over_kids contents kids))" "sorted_wrt (<) (map fst kids)"
    "e \<in> set (over_kids contents kids) \<Longrightarrow> fst (hd kids) \<le> fst e \<and> below (fst e) hi"
    "kid \<in> set kids \<Longrightarrow> below (fst kid) hi"
proof -
  note o = ordered_keys(2)[OF assms]
  show "sorted_wrt (<) (map fst (over_kids contents kids))" "sorted_wrt (<) (map fst kids)"
    "kid \<in> set kids \<Longrightarrow> below (fst kid) hi" using o by blast+
  show "e \<in> set (over_kids contents kids) \<Longrightarrow> fst (hd kids) \<le> fst e \<and> below (fst e) hi"
    using o by (blast intro: imageI)
qed

text \<open>The child whose range a key lies in.\<close>

lemma child_for_key_split:
  assumes "ordered_kids hi ((lo, f) # es)" "lo \<le> key" "below key hi"
  obtains xs k t ys where "(lo, f) # es = xs @ (k, t) # ys" "length xs = upper_position key es"
    "k \<le> key" "below key (next_key hi ys)"
proof -
  let ?P = "\<lambda>e. fst e \<le> key"
  let ?kids = "(lo, f) # es"
  let ?i = "upper_position key es"
  have taken: "takeWhile ?P ?kids = take (Suc ?i) ?kids"
    using assms(2) by (simp add: upper_position_def takeWhile_eq_take[symmetric])
  have i: "?i < length ?kids" by (simp add: le_imp_less_Suc)
  obtain k t where kt: "?kids ! ?i = (k, t)" by (metis surj_pair)
  let ?ys = "drop ?i es"
  have split: "?kids = take ?i ?kids @ (k, t) # ?ys"
    using id_take_nth_drop[OF i] kt by simp
  have "take (Suc ?i) ?kids ! ?i \<in> set (take (Suc ?i) ?kids)"
    using i by (intro nth_mem) simp
  then have "?kids ! ?i \<in> set (takeWhile ?P ?kids)"
    unfolding taken by (simp only: nth_take[OF lessI])
  then have "k \<le> key" using kt by (auto dest: set_takeWhileD)
  moreover have "below key (next_key hi ?ys)"
  proof (cases ?ys)
    case Nil
    with assms(3) show ?thesis by simp
  next
    case (Cons e ys)
    then have less: "?i < length es" by (cases "?i < length es") simp_all
    from Cons_nth_drop_Suc[OF this] Cons have "e = es ! ?i" by simp
    with less have "\<not> fst e \<le> key"
      using nth_length_takeWhile[of ?P es] by (simp add: upper_position_def)
    with Cons show ?thesis by simp
  qed
  moreover have "length (take ?i ?kids) = ?i" using i by simp
  ultimately show ?thesis using split that by blast
qed

lemma other_kids_keys:
  assumes "ordered_kids hi (xs @ (k, t) # ys)" "k \<le> key" "below key (next_key hi ys)"
  shows "e \<in> set (over_kids contents xs) \<Longrightarrow> fst e < key"
    and "e \<in> set (over_kids contents ys) \<Longrightarrow> key < fst e"
proof -
  have xs: "ordered_kids (Some k) xs" and ys: "ordered_kids hi ys" using assms(1) by simp_all
  show "e \<in> set (over_kids contents xs) \<Longrightarrow> fst e < key"
    using ordered_kids_contents(3)[OF xs] assms(2) by fastforce
  show "e \<in> set (over_kids contents ys) \<Longrightarrow> key < fst e"
    using ordered_kids_contents(3)[OF ys] assms(3) by (cases ys) fastforce+
qed

lemma map_of_other:
  assumes "\<forall>e \<in> set A. fst e \<noteq> key" "\<forall>e \<in> set C. fst e \<noteq> key"
  shows "map_of (A @ B @ C) key = map_of B key"
proof -
  have "map_of A key = None" "map_of C key = None"
    using assms by (auto simp: map_of_eq_None_iff)
  then show ?thesis by (simp add: map_add_def split: option.splits)
qed

section \<open>Insertion in key order\<close>

definition insert_sorted :: "bytes \<Rightarrow> 'a \<Rightarrow> (bytes \<times> 'a) list \<Rightarrow> (bytes \<times> 'a) list" where
  "insert_sorted key v es = takeWhile (\<lambda>e. fst e < key) es @ (key, v) # dropWhile (\<lambda>e. fst e < key) es"

lemma insert_sorted_take:
  "insert_sorted key v es = take (lower_position key es) es @ (key, v) # drop (lower_position key es) es"
  by (simp add: insert_sorted_def lower_position_def takeWhile_eq_take[symmetric] dropWhile_eq_drop[symmetric])

lemma insert_sorted_mid:
  assumes "\<And>e. e \<in> set A \<Longrightarrow> fst e < key" "\<And>e. e \<in> set C \<Longrightarrow> key < fst e"
  shows "insert_sorted key v (A @ B @ C) = A @ insert_sorted key v B @ C"
proof -
  have "takeWhile (\<lambda>e. fst e < key) C = []" "dropWhile (\<lambda>e. fst e < key) C = C"
    using assms(2) by (cases C; fastforce)+
  then show ?thesis
    using assms(1) by (simp add: insert_sorted_def takeWhile_append dropWhile_append)
      (metis takeWhile_eq_all_conv)
qed

lemma set_insert_sorted: "set (insert_sorted key v es) = insert (key, v) (set es)"
  by (simp add: insert_sorted_def) (metis Un_insert_right set_append takeWhile_dropWhile_id)

lemma insert_sorted_sorted:
  assumes "sorted_wrt (<) (map fst es)" "key \<notin> fst ` set es"
  shows "sorted_wrt (<) (map fst (insert_sorted key v es))"
proof -
  let ?A = "takeWhile (\<lambda>e. fst e < key) es" and ?B = "dropWhile (\<lambda>e. fst e < key) es"
  have es: "es = ?A @ ?B" by simp
  have sorted: "sorted_wrt (<) (map fst ?A)" "sorted_wrt (<) (map fst ?B)"
    "\<forall>a \<in> set ?A. \<forall>b \<in> set ?B. fst a < fst b"
    using assms(1) by (subst (asm) es, simp add: sorted_wrt_append del: takeWhile_dropWhile_id)+
  have "key < fst b" if "b \<in> set ?B" for b
  proof (cases ?B)
    case (Cons c B)
    then have c: "\<not> fst c < key" using hd_dropWhile[of "\<lambda>e. fst e < key" es] by auto
    have "fst c \<le> fst b" using that sorted(2) by (auto simp: Cons)
    moreover have "fst b \<noteq> key" using that assms(2) by (auto dest: set_dropWhileD)
    ultimately show ?thesis using c by auto
  next
    case Nil
    with that show ?thesis by simp
  qed
  moreover have "fst a < key" if "a \<in> set ?A" for a
    using that by (auto dest: set_takeWhileD)
  ultimately show ?thesis
    using sorted by (fastforce simp: insert_sorted_def sorted_wrt_append)
qed

lemma map_of_insert_sorted:
  assumes "key \<notin> fst ` set es"
  shows "map_of (insert_sorted key v es) = (map_of es)(key \<mapsto> v)"
proof -
  let ?A = "takeWhile (\<lambda>e. fst e < key) es" and ?B = "dropWhile (\<lambda>e. fst e < key) es"
  have "map_of es = map_of ?B ++ map_of ?A" by (metis map_of_append takeWhile_dropWhile_id)
  moreover have "map_of ?A key = None"
    by (auto simp: map_of_eq_None_iff dest: set_takeWhileD)
  ultimately show ?thesis
    by (auto simp: insert_sorted_def map_add_def fun_eq_iff split: option.splits)
qed

section \<open>Neighbouring subtrees\<close>

text \<open>
  A list of neighbouring subtrees that is stored, ordered below \<open>hi\<close> and linked up to the page
  \<open>after\<close>. Only the first one can be the root.
\<close>

fun stored_kids :: "(page_id \<rightharpoonup> node) \<Rightarrow> bool \<Rightarrow> (bytes \<times> tree) list \<Rightarrow> bool" where
  "stored_kids N root [] \<longleftrightarrow> True"
| "stored_kids N root ((k, t) # kids) \<longleftrightarrow> stores N root t \<and> stored_kids N False kids"

definition forest :: "(page_id \<rightharpoonup> node) \<Rightarrow> bool \<Rightarrow> page_id \<Rightarrow> bytes option \<Rightarrow> (bytes \<times> tree) list \<Rightarrow> bool" where
  "forest N root after hi kids \<longleftrightarrow>
     ordered_kids hi kids \<and> stored_kids N root kids \<and> linked (over_kids leaves kids) after \<and>
     distinct (over_kids page_ids kids) \<and> INVALID_PAGE_ID \<notin> set (over_kids page_ids kids)"

lemma page_of_in_ids [simp]: "page_of t \<in> set (page_ids t)"
  by (cases t) simp_all

lemma stored_ids: "stores N root t \<Longrightarrow> p \<in> set (page_ids t) \<Longrightarrow> N p \<noteq> None"
  by (induction N root t rule: stores.induct) auto

lemma stored_frame:
  "(\<And>p. p \<in> set (page_ids t) \<Longrightarrow> N' p = N p) \<Longrightarrow> stores N' root t = stores N root t"
  by (induction N root t rule: stores.induct) auto

lemma stored_kids_False: "stored_kids N False kids \<longleftrightarrow> (\<forall>kid \<in> set kids. stores N False (snd kid))"
  by (induction kids) auto

lemma stored_kids_append [simp]:
  "stored_kids N False (xs @ ys) \<longleftrightarrow> stored_kids N False xs \<and> stored_kids N False ys"
  by (auto simp: stored_kids_False)

lemma stored_kids_ids:
  assumes "stored_kids N False kids" "p \<in> set (over_kids page_ids kids)"
  shows "N p \<noteq> None"
  using assms stored_ids by (fastforce simp: stored_kids_False)

lemma stored_kids_frame:
  assumes "\<And>p. p \<in> set (over_kids page_ids kids) \<Longrightarrow> N' p = N p"
  shows "stored_kids N' root kids = stored_kids N root kids"
  using assms
proof (induction kids arbitrary: root)
  case (Cons kid kids)
  then show ?case
    using stored_frame[of "snd kid" N' N root] by (cases kid) auto
qed simp

lemma leaves_nonempty [simp]: "leaves t \<noteq> []"
  by (induction t rule: leaves.induct) simp_all

lemma first_page_leaves: "first_page (leaves t) a = fst (hd (leaves t))"
  using leaves_nonempty[of t] by (cases "leaves t") (simp_all add: first_page_def del: leaves_nonempty)

lemma first_leaf_in_ids: "fst (hd (leaves t)) \<in> set (page_ids t)"
  by (induction t rule: leaves.induct) auto

lemma first_leaf_stored:
  "stores N root t \<Longrightarrow> \<exists>r es nx. N (fst (hd (leaves t))) = Some (LeafNode r es nx)"
proof (induction N root t rule: stores.induct)
  case (2 N root p f es)
  then show ?case by simp
qed auto

lemma forest_append:
  "forest N False after hi (xs @ ys) \<longleftrightarrow>
     forest N False (first_page (over_kids leaves ys) after) (next_key hi ys) xs \<and>
     forest N False after hi ys \<and> set (over_kids page_ids xs) \<inter> set (over_kids page_ids ys) = {}"
  by (auto simp: forest_def)

lemma forest_cong:
  assumes "\<And>p. p \<in> set (over_kids page_ids kids) \<Longrightarrow> N' p = N p"
  shows "forest N' root after hi kids = forest N root after hi kids"
  using stored_kids_frame[of kids N' N, OF assms] by (simp add: forest_def)

lemma forest_ids: "forest N False after hi kids \<Longrightarrow> p \<in> set (over_kids page_ids kids) \<Longrightarrow> N p \<noteq> None"
  unfolding forest_def using stored_kids_ids[of N kids p] by blast

lemma forest_node:
  "forest N root after hi [(lo, TNode p f es)] \<longleftrightarrow>
     N p = Some (InternalNode root (page_of f) (entries_of es)) \<and>
     forest N False after hi ((lo, f) # es) \<and> below lo hi \<and>
     p \<notin> set (over_kids page_ids ((lo, f) # es)) \<and> p \<noteq> INVALID_PAGE_ID"
  by (auto simp: forest_def stored_kids_False)

text \<open>
  A subtree \<open>t\<close> has been replaced by the subtrees \<open>kids\<close> and nothing else has changed: their pages
  are pages of \<open>t\<close> or new.
\<close>

definition regrown :: "(page_id \<rightharpoonup> node) \<Rightarrow> (page_id \<rightharpoonup> node) \<Rightarrow> bool \<Rightarrow> page_id \<Rightarrow> bytes option \<Rightarrow>
    (bytes \<times> tree) list \<Rightarrow> (bytes \<times> tree) list \<Rightarrow> bool" where
  "regrown N N' root after hi old kids \<longleftrightarrow>
     forest N' root after hi kids \<and>
     first_page (over_kids leaves kids) after = first_page (over_kids leaves old) after \<and>
     next_key hi kids = next_key hi old \<and>
     (\<forall>p \<in> set (over_kids page_ids kids) - set (over_kids page_ids old). N p = None) \<and>
     (\<forall>p. p \<notin> set (over_kids page_ids kids) \<union> set (over_kids page_ids old) \<longrightarrow> N' p = N p)"

lemma graft:
  assumes "forest N False after hi (xs @ old @ ys)"
    and "regrown N N' False (first_page (over_kids leaves ys) after) (next_key hi ys) old kids"
  shows "regrown N N' False after hi (xs @ old @ ys) (xs @ kids @ ys)"
proof -
  let ?a = "first_page (over_kids leaves ys) after" and ?h = "next_key hi ys"
  let ?ids = "\<lambda>ks. set (over_kids page_ids ks)"
  have f: "forest N False (first_page (over_kids leaves old) ?a) (next_key ?h old) xs"
    "forest N False ?a ?h old" "forest N False after hi ys"
    "?ids xs \<inter> ?ids old = {}" "?ids xs \<inter> ?ids ys = {}" "?ids old \<inter> ?ids ys = {}"
    using assms(1) by (auto simp: forest_append)
  have r: "forest N' False ?a ?h kids"
    "first_page (over_kids leaves kids) ?a = first_page (over_kids leaves old) ?a"
    "next_key ?h kids = next_key ?h old" "\<forall>p \<in> ?ids kids - ?ids old. N p = None"
    "\<forall>p. p \<notin> ?ids kids \<union> ?ids old \<longrightarrow> N' p = N p"
    using assms(2) unfolding regrown_def by blast+
  have xs: "?ids xs \<inter> ?ids kids = {}" and ys: "?ids kids \<inter> ?ids ys = {}"
    using forest_ids[OF f(1)] forest_ids[OF f(3)] r(4) f(4,6) by blast+
  have "forest N' False (first_page (over_kids leaves old) ?a) (next_key ?h old) xs"
    using f(1) by (subst forest_cong[where N = N]) (use r(5) xs f(4) in blast)+
  moreover have "forest N' False after hi ys"
    using f(3) by (subst forest_cong[where N = N]) (use r(5) ys f(6) in blast)+
  ultimately have "forest N' False after hi (xs @ kids @ ys)"
    using r(1,2,3) xs ys f(5) by (auto simp: forest_append)
  moreover have u: "?ids (xs @ ks @ ys) = ?ids xs \<union> ?ids ks \<union> ?ids ys" for ks by auto
  ultimately show ?thesis
    unfolding regrown_def u using r(2,3) r(4,5)
    by (intro conjI) (assumption, simp only: map_append concat_append first_page_simps,
        simp only: next_key_simps, blast, blast)
qed

end
