(* ===== verification/BTreeSearch.thy ===== *)
theory BTreeSearch
  imports PageTriples BTreeSpec
begin

text \<open>
  The operations of the B+ tree that change no node or only a value: the descent to a leaf, \<open>find\<close>,
  \<open>update_value\<close>, \<open>scan_range\<close> and the cursor, over the trees of \<open>BTreeSpec\<close>.
\<close>

section \<open>Search positions in a node\<close>

lemma entries_of_simps [simp]:
  "map fst (entries_of kids) = map fst kids" "length (entries_of kids) = length kids"
  "entries_of [] = []" "entries_of (kid # kids) = (fst kid, page_of (snd kid)) # entries_of kids"
  "entries_of (xs @ ys) = entries_of xs @ entries_of ys"
  by (simp_all add: entries_of_def)

lemma entries_of_nth [simp]:
  "i < length kids \<Longrightarrow> entries_of kids ! i = (fst (kids ! i), page_of (snd (kids ! i)))"
  by (simp add: entries_of_def)

lemma entries_of_take_drop: "take n (entries_of kids) = entries_of (take n kids)"
  "drop n (entries_of kids) = entries_of (drop n kids)"
  by (simp_all add: entries_of_def take_map drop_map)

lemma length_takeWhile_fst: "length (takeWhile (\<lambda>e. Q (fst e)) es) = length (takeWhile Q (map fst es))"
  by (simp add: takeWhile_map comp_def)

lemma positions_entries_of [simp]:
  "lower_position key (entries_of kids) = lower_position key kids"
  "upper_position key (entries_of kids) = upper_position key kids"
  using length_takeWhile_fst[of "\<lambda>k. k < key" "entries_of kids"]
    length_takeWhile_fst[of "\<lambda>k. k < key" kids]
    length_takeWhile_fst[of "\<lambda>k. k \<le> key" "entries_of kids"]
    length_takeWhile_fst[of "\<lambda>k. k \<le> key" kids]
  by (simp_all add: lower_position_def upper_position_def)

lemma child_at_kids:
  "i \<le> length es \<Longrightarrow> child_at (page_of f) (entries_of es) i = page_of (snd (((lo, f) # es) ! i))"
  by (cases i) (simp_all add: child_at_def)

lemma forest_sorted:
  assumes "forest N False after hi ((lo, f) # es)"
  shows "sorted_wrt (<) (map fst es)" "sorted (map fst es)"
proof -
  have "sorted_wrt (<) (map fst ((lo, f) # es))"
    using assms unfolding forest_def by (blast dest: ordered_kids_contents(2))
  then show "sorted_wrt (<) (map fst es)" by simp
  then show "sorted (map fst es)" by (simp only: strict_sorted_iff)
qed

lemma lower_position_found:
  fixes key :: bytes
  assumes "sorted_wrt (<) (map fst es)"
  defines "i \<equiv> lower_position key es"
  shows "(i < length es \<and> fst (es ! i) = key) \<longleftrightarrow> map_of es key \<noteq> None"
    and "i < length es \<Longrightarrow> fst (es ! i) = key \<Longrightarrow> map_of es key = Some (snd (es ! i))"
proof -
  have d: "distinct (map fst es)" and s: "sorted (map fst es)"
    using assms(1) by (simp_all only: strict_sorted_iff)
  show some: "i < length es \<Longrightarrow> fst (es ! i) = key \<Longrightarrow> map_of es key = Some (snd (es ! i))"
  proof -
    assume i: "i < length es" "fst (es ! i) = key"
    have "es ! i = (key, snd (es ! i))" using i(2) by (cases "es ! i") simp
    with nth_mem[OF i(1)] have "(key, snd (es ! i)) \<in> set es" by simp
    with d show ?thesis by (rule map_of_is_SomeI)
  qed
  have "i < length es \<and> fst (es ! i) = key" if found: "map_of es key \<noteq> None"
  proof -
    obtain v where "map_of es key = Some v" using found by blast
    then have "(key, v) \<in> set es" by (rule map_of_SomeD)
    then obtain j where j: "j < length es" "fst (es ! j) = key" by (auto simp: in_set_conv_nth)
    have lower: "fst (es ! n) < key \<longleftrightarrow> n < i" if "n < length es" for n
      using sorted_takeWhile_iff[OF s, of "\<lambda>k. k < key" n] that by (auto simp: i_def lower_position_def)
    have "i \<le> j" using lower[OF j(1)] j(2) by auto
    then have i: "i < length es" using j(1) by simp
    have "fst (es ! i) \<le> key"
      using sorted_nth_mono[OF s \<open>i \<le> j\<close>] i j by simp
    moreover have "\<not> fst (es ! i) < key" using lower[OF i] by simp
    ultimately show ?thesis using i by simp
  qed
  with some show "(i < length es \<and> fst (es ! i) = key) \<longleftrightarrow> map_of es key \<noteq> None" by auto
qed

section \<open>The leaf of a key\<close>

definition leaf_of_key :: "bytes \<Rightarrow> tree \<Rightarrow> page_id \<Rightarrow> bool" where
  "leaf_of_key key t p \<longleftrightarrow> (\<exists>L1 es nx L2. leaves t = L1 @ (p, es, nx) # L2 \<and>
     (\<forall>l \<in> set L1. \<forall>e \<in> set (fst (snd l)). fst e < key) \<and>
     (\<forall>l \<in> set L2. \<forall>e \<in> set (fst (snd l)). key < fst e))"

lemma kids_leaf_entries:
  assumes "l \<in> set (over_kids leaves kids)" "e \<in> set (fst (snd l))"
  shows "e \<in> set (over_kids contents kids)"
  using assms by (auto simp: contents_def)

lemma leaf_of_key_child:
  assumes "ordered_kids hi ((lo, f) # es)" "(lo, f) # es = xs @ (k, t) # ys" "k \<le> key"
    and "below key (next_key hi ys)" "leaf_of_key key t p"
  shows "leaf_of_key key (TNode q f es) p"
proof -
  from assms(5) obtain L1 el nx L2 where l: "leaves t = L1 @ (p, el, nx) # L2"
    "\<forall>l \<in> set L1. \<forall>e \<in> set (fst (snd l)). fst e < key"
    "\<forall>l \<in> set L2. \<forall>e \<in> set (fst (snd l)). key < fst e"
    unfolding leaf_of_key_def by blast
  have "leaves (TNode q f es) = over_kids leaves ((lo, f) # es)" by simp
  also have "\<dots> = (over_kids leaves xs @ L1) @ (p, el, nx) # (L2 @ over_kids leaves ys)"
    unfolding assms(2) by (simp add: l(1))
  finally have "leaves (TNode q f es) = (over_kids leaves xs @ L1) @ (p, el, nx) # (L2 @ over_kids leaves ys)" .
  moreover have "ordered_kids hi (xs @ (k, t) # ys)" using assms(1,2) by simp
  note other = other_kids_keys[OF this assms(3,4)]
  have "\<forall>l \<in> set (over_kids leaves xs @ L1). \<forall>e \<in> set (fst (snd l)). fst e < key"
    using l(2) other(1) kids_leaf_entries by (metis Un_iff set_append)
  moreover have "\<forall>l \<in> set (L2 @ over_kids leaves ys). \<forall>e \<in> set (fst (snd l)). key < fst e"
    using l(3) other(2) kids_leaf_entries by (metis Un_iff set_append)
  ultimately show ?thesis
    unfolding leaf_of_key_def by blast
qed

lemma leaf_in_ids: "(p, es, nx) \<in> set (leaves t) \<Longrightarrow> p \<in> set (page_ids t)"
  by (induction t rule: leaves.induct) auto

lemma leaf_ids_subset: "set (map fst (leaves t)) \<subseteq> set (page_ids t)"
  using leaf_in_ids by fastforce

lemma distinct_concat_map:
  assumes "\<And>t. t \<in> set ts \<Longrightarrow> set (f t) \<subseteq> set (g t) \<and> (distinct (g t) \<longrightarrow> distinct (f t))"
    and "distinct (concat (map g ts))"
  shows "distinct (concat (map f ts)) \<and> set (concat (map f ts)) \<subseteq> set (concat (map g ts))"
  using assms
proof (induction ts)
  case (Cons t ts)
  then have "distinct (concat (map f ts)) \<and> set (concat (map f ts)) \<subseteq> set (concat (map g ts))"
    "set (f t) \<subseteq> set (g t)" "distinct (f t)" by auto
  with Cons.prems(2) show ?case by auto
qed simp

lemma distinct_leaf_ids: "distinct (page_ids t) \<Longrightarrow> distinct (map fst (leaves t))"
proof (induction t rule: leaves.induct)
  case (2 p f kids)
  have "set (map fst (leaves t)) \<subseteq> set (page_ids t) \<and> (distinct (page_ids t) \<longrightarrow> distinct (map fst (leaves t)))"
    if "t \<in> set (f # map snd kids)" for t
    using that "2.IH" leaf_ids_subset by auto
  from distinct_concat_map[where ts = "f # map snd kids" and g = page_ids, OF this] "2.prems"
  have "distinct (concat (map (\<lambda>t. map fst (leaves t)) (f # map snd kids)))" by simp
  then show ?case by (simp add: map_concat comp_def)
qed simp

lemma stored_leaf:
  "stores N root t \<Longrightarrow> (p, es, nx) \<in> set (leaves t) \<Longrightarrow> \<exists>r. N p = Some (LeafNode r es nx)"
proof (induction N root t rule: stores.induct)
  case (2 N root q f kids)
  from "2.prems"(2) consider "(p, es, nx) \<in> set (leaves f)"
    | t where "t \<in> set (map snd kids)" "(p, es, nx) \<in> set (leaves t)" by auto
  then show ?case
  proof cases
    case 1
    with 2 show ?thesis by simp
  next
    case (2 t)
    then show ?thesis using "2.IH"(2)[OF 2(1) _ 2(2)] "2.prems"(1) by auto
  qed
qed auto

lemma ordered_leaf:
  "ordered lo hi t \<Longrightarrow> (p, es, nx) \<in> set (leaves t) \<Longrightarrow> sorted_wrt (<) (map fst es)"
proof -
  assume o: "ordered lo hi t" and "(p, es, nx) \<in> set (leaves t)"
  then obtain L1 L2 where "leaves t = L1 @ (p, es, nx) # L2" by (metis split_list)
  then have "contents t = concat (map (\<lambda>l. fst (snd l)) L1) @ es @ concat (map (\<lambda>l. fst (snd l)) L2)"
    by (simp add: contents_def)
  with ordered_contents(1)[OF o] show "sorted_wrt (<) (map fst es)" by (simp add: sorted_wrt_append)
qed

lemma leaf_of_key_lookup:
  assumes "leaf_of_key key t p"
  obtains es nx where "(p, es, nx) \<in> set (leaves t)" "map_of (contents t) key = map_of es key"
proof -
  from assms obtain L1 es nx L2 where l: "leaves t = L1 @ (p, es, nx) # L2"
    "\<forall>l \<in> set L1. \<forall>e \<in> set (fst (snd l)). fst e < key"
    "\<forall>l \<in> set L2. \<forall>e \<in> set (fst (snd l)). key < fst e"
    unfolding leaf_of_key_def by blast
  have "contents t = concat (map (\<lambda>l. fst (snd l)) L1) @ es @ concat (map (\<lambda>l. fst (snd l)) L2)"
    by (simp add: contents_def l(1))
  moreover have "map_of \<dots> key = map_of es key"
    using l(2,3) by (intro map_of_other) fastforce+
  ultimately show ?thesis using that[of es nx] l(1) by simp
qed

section \<open>The descent\<close>

context win32_files
begin

lemma descend_step_triple:
  assumes "\<And>m. P m \<Longrightarrow> nodes ks vs m p = Some n" "case n of LeafNode r es nx \<Rightarrow> x = None
      | InternalNode r first es \<Rightarrow> sorted (map fst es) \<and> x = Some (child_at first es (upper_position key es))"
    and "length key = ks" "length held < 8"
  shows "page_triple content txns db held P (descend_step os key p)
    (\<lambda>y m. y = x \<and> P m) P"
  unfolding descend_step_def
proof (rule triple_page_read[where n = n and ks = ks and vs = vs], erule assms(1))
  fix d assume d: "node_of ks vs d = Some n"
  show "\<exists>y. bind_result (page_open d) (\<lambda>btree_page. if page_kind btree_page = Leaf then Inr None
      else bind_result (internal_open d) (\<lambda>internal_page.
        bind_result (internal_child_page_id_for_key internal_page key) (\<lambda>child_page_id.
        Inr (Some child_page_id)))) = Inr y \<and> y = x"
  proof (cases n)
    case (LeafNode r es nx)
    with d assms(2) show ?thesis using leaf_view[of ks vs d r es nx] by simp
  next
    case (InternalNode r first es)
    with d assms(2,3) show ?thesis
      using internal_view[of ks vs d r first es] internal_child_for_key[of ks vs d r first es key] by simp
  qed
qed (simp_all add: assms(4))

lemma find_leaf_run:
  assumes P: "\<And>m. P m \<Longrightarrow> nodes ks vs m = N"
  assumes "forest N root after hi [(lo, t)]" "lo \<le> key" "below key hi" "length key = ks" "length held < 8"
  shows "run_triple content txns db held P (find_leaf_page_id os key (page_of t))
    (\<lambda>p m. leaf_of_key key t p \<and> P m) P"
  using assms(2-4)
proof (induction t arbitrary: root after lo hi rule: leaves.induct)
  case (1 p es nx)
  then have "N p = Some (LeafNode root es nx)" by (simp add: forest_def)
  then have "\<And>m. P m \<Longrightarrow> nodes ks vs m p = Some (LeafNode root es nx)" using P by simp
  from descend_step_triple[of P, where x = None, OF this _ assms(5,6)]
  have step: "page_triple content txns db held P (descend_step os key p)
    (\<lambda>y m. y = None \<and> P m) P" by simp
  have "leaves (TLeaf p es nx) = [] @ (p, es, nx) # []" by simp
  then have "leaf_of_key key (TLeaf p es nx) p" unfolding leaf_of_key_def by fastforce
  then show ?case
    by (subst find_leaf_page_id.simps[abs_def], unfold tree.sel)
      (rule run_bind_pure[OF run_returns[OF step]], simp, rule run_returns, rule triple_return, simp)
next
  case (2 p f es)
  have n: "N p = Some (InternalNode root (page_of f) (entries_of es))"
    and kids: "forest N False after hi ((lo, f) # es)"
    using "2.prems"(1) by (simp_all only: forest_node)
  then have o: "ordered_kids hi ((lo, f) # es)" by (simp only: forest_def)
  from child_for_key_split[OF o "2.prems"(2,3)] obtain xs k t ys where
    c: "(lo, f) # es = xs @ (k, t) # ys" "length xs = upper_position key es" "k \<le> key"
      "below key (next_key hi ys)" by blast
  have "((lo, f) # es) ! upper_position key es = (k, t)" by (simp only: c(1) c(2)[symmetric] nth_append_length)
  then have child: "child_at (page_of f) (entries_of es) (upper_position key (entries_of es)) = page_of t"
    using child_at_kids[of "upper_position key es" es f lo] by simp
  have "\<And>m. P m \<Longrightarrow> nodes ks vs m p = Some (InternalNode root (page_of f) (entries_of es))"
    using P n by simp
  from descend_step_triple[of P, where x = "Some (page_of t)", OF this _ assms(5,6)]
    child forest_sorted[OF kids]
  have step: "page_triple content txns db held P (descend_step os key p)
    (\<lambda>y m. y = Some (page_of t) \<and> P m) P" by simp
  have "forest N False (first_page (over_kids leaves ys) after) (next_key hi ys) [(k, t)]"
    using kids unfolding c(1) forest_append[of N after hi xs] forest_append[of N after hi "[(k, t)]" ys, simplified]
    by simp
  moreover have "t = f \<or> t \<in> set (map snd es)"
    using c(1) by (cases xs) auto
  ultimately have below: "run_triple content txns db held P (find_leaf_page_id os key (page_of t))
    (\<lambda>p m. leaf_of_key key t p \<and> P m) P"
    using "2.IH" c(3,4) by blast
  show ?case
  proof (subst find_leaf_page_id.simps[abs_def], unfold tree.sel, rule run_bind_pure[OF run_returns[OF step]])
    fix y assume "y = Some (page_of t)"
    then show "run_triple content txns db held P
      (case y of None \<Rightarrow> returns (return_action p) | Some child_page_id \<Rightarrow> find_leaf_page_id os key child_page_id)
      (\<lambda>q m. leaf_of_key key (TNode p f es) q \<and> P m) P"
      using below leaf_of_key_child[OF o c(1,3,4)] by (auto intro: run_weaken)
  qed
qed

end

section \<open>Lookups\<close>

text \<open>The pages store the tree of \<open>bt\<close>; its root page keeps its id.\<close>

definition btree_stores :: "btree \<Rightarrow> page_store \<Rightarrow> tree \<Rightarrow> bool" where
  "btree_stores bt m t \<longleftrightarrow> page_of t = bt_root_page_id bt \<and>
     forest (nodes (bt_ks bt) (bt_vs bt) m) True INVALID_PAGE_ID None [([], t)]"

lemma Nil_le_bytes [simp]: "([] :: bytes) \<le> key"
  by (cases key) (auto simp: list_le_def)

lemma forest_leaf:
  assumes "forest N root after hi [(lo, t)]" "(p, es, nx) \<in> set (leaves t)"
  shows "\<exists>r. N p = Some (LeafNode r es nx)" "sorted_wrt (<) (map fst es)" "p \<noteq> INVALID_PAGE_ID"
proof -
  have f: "ordered lo hi t" "stores N root t" "INVALID_PAGE_ID \<notin> set (page_ids t)"
    using assms(1) by (simp_all add: forest_def)
  show "\<exists>r. N p = Some (LeafNode r es nx)" using stored_leaf[OF f(2) assms(2)] .
  show "sorted_wrt (<) (map fst es)" using ordered_leaf[OF f(1) assms(2)] .
  show "p \<noteq> INVALID_PAGE_ID" using f(3) leaf_in_ids[OF assms(2)] by metis
qed

lemma leaf_lookup_value:
  assumes "node_of ks vs d = Some (LeafNode r es nx)" "sorted_wrt (<) (map fst es)" "length key = ks"
  shows "leaf_lookup key d = (case map_of es key of None \<Rightarrow> Inl NotFound | Some v \<Rightarrow> Inr v)"
proof -
  let ?i = "lower_position key es"
  have s: "sorted (map fst es)" using assms(2) by (simp only: strict_sorted_iff)
  note view = leaf_view[OF assms(1)] leaf_find_position[OF assms(1) s assms(3)]
  note found = lower_position_found[OF assms(2), of key]
  show ?thesis
  proof (cases "?i < length es")
    case True
    note e = leaf_view_entries[OF assms(1) True]
    have "memcmp (fst (es ! ?i)) key = 0 \<longleftrightarrow> fst (es ! ?i) = key"
      using memcmp_order(2) e(4) assms(3) by simp
    with True found show ?thesis
      by (auto simp: leaf_lookup_def view e ensure_def split: option.splits)
  next
    case False
    then have "?i = length es" using positions_le(1)[of key es] by linarith
    with False found show ?thesis by (auto simp: leaf_lookup_def view)
  qed
qed

context win32_files
begin

lemma find_run:
  assumes "\<And>m. P m \<Longrightarrow> nodes (bt_ks bt) (bt_vs bt) m = N"
    and "page_of t = bt_root_page_id bt" "forest N True INVALID_PAGE_ID None [([], t)]"
    and "length key = bt_ks bt" "length held < 8"
  shows "run_triple content txns db held P (btree_find os bt key)
    (\<lambda>v m. map_of (contents t) key = Some v \<and> P m) P"
proof -
  note descent = find_leaf_run[where t = t, OF assms(1,3), where key = key, simplified, OF _ assms(4,5)]
  show ?thesis
  proof (simp add: btree_find_def assms(4) assms(2)[symmetric], intro run_bind_pure[OF descent] run_returns)
    fix p assume "leaf_of_key key t p"
    then obtain es nx where l: "(p, es, nx) \<in> set (leaves t)" "map_of (contents t) key = map_of es key"
      by (rule leaf_of_key_lookup)
    from forest_leaf[OF assms(3) l(1)] obtain r where
      n: "N p = Some (LeafNode r es nx)" "sorted_wrt (<) (map fst es)" by blast
    show "page_triple content txns db held P (with_page (pager_get_page os p) (\<lambda>pin. read_page pin (leaf_lookup key)))
      (\<lambda>v m. map_of (contents t) key = Some v \<and> P m) P"
    proof (intro triple_with_page triple_read)
      fix pin m assume m: "P m"
      then obtain d where d: "m p = Some d" "node_of (bt_ks bt) (bt_vs bt) d = Some (LeafNode r es nx)"
        using assms(1)[OF m] n(1) nodes_Some by metis
      from leaf_lookup_value[OF d(2) n(2) assms(4)] d(1) m
      show "\<exists>d. m p = Some d \<and> (case leaf_lookup key d of Inl e \<Rightarrow> P m
        | Inr v \<Rightarrow> map_of (contents t) key = Some v \<and> P m)"
        by (auto simp: l(2) split: option.splits)
    qed (use assms(5) in auto)
  qed
qed

end

section \<open>Changing a value\<close>

text \<open>The tree with other entries in the leaf of the page \<open>p\<close>.\<close>

fun put_leaf :: "page_id \<Rightarrow> (bytes \<times> bytes) list \<Rightarrow> tree \<Rightarrow> tree" where
  "put_leaf p el (TLeaf q es nx) = TLeaf q (if q = p then el else es) nx"
| "put_leaf p el (TNode q f kids) = TNode q (put_leaf p el f) (map (\<lambda>kid. (fst kid, put_leaf p el (snd kid))) kids)"

lemma page_of_put_leaf [simp]: "page_of (put_leaf p el t) = page_of t"
  by (cases t) simp_all

lemma page_ids_put_leaf [simp]: "page_ids (put_leaf p el t) = page_ids t"
proof (induction t rule: page_ids.induct)
  case (2 q f kids)
  then have kids: "map (\<lambda>kid. page_ids (put_leaf p el (snd kid))) kids = map (\<lambda>kid. page_ids (snd kid)) kids"
    by (intro map_cong) auto
  show ?case using 2(1) by (simp add: comp_def kids del: map_eq_conv)
qed simp

lemma leaves_put_leaf:
  "leaves (put_leaf p el t) = map (\<lambda>l. (fst l, if fst l = p then el else fst (snd l), snd (snd l))) (leaves t)"
  (is "_ = map ?g _")
proof (induction t rule: leaves.induct)
  case (2 q f kids)
  then have kids: "map (\<lambda>kid. leaves (put_leaf p el (snd kid))) kids = map (\<lambda>kid. map ?g (leaves (snd kid))) kids"
    by (intro map_cong) auto
  show ?case using 2(1) by (simp add: comp_def map_concat kids del: map_eq_conv)
qed simp

lemma stores_put_leaf:
  assumes "stores N root t" "N p = Some (LeafNode r es nx)"
  shows "stores (N(p \<mapsto> LeafNode r el nx)) root (put_leaf p el t)"
  using assms
proof (induction N root t rule: stores.induct)
  case (2 N root q f kids)
  then show ?case by (auto simp: entries_of_def comp_def)
qed auto

lemma ordered_put_leaf:
  assumes "\<And>es nx. (p, es, nx) \<in> set (leaves t) \<Longrightarrow> map fst el = map fst es"
  shows "ordered lo hi (put_leaf p el t) = ordered lo hi t"
  using assms
proof (induction t arbitrary: lo hi rule: leaves.induct)
  case (1 q es nx)
  show ?case
  proof (cases "q = p")
    case True
    then have "map fst el = map fst es" using 1 by simp
    then show ?thesis using True by (simp only: put_leaf.simps ordered.simps if_True simp_thms)
  qed simp
next
  case (2 q f kids)
  have f: "ordered lo hi (put_leaf p el f) = ordered lo hi f" for lo hi
  proof (rule "2.IH"(1))
    show "map fst el = map fst es" if "(p, es, nx) \<in> set (leaves f)" for es nx
      using that by (intro "2.prems"[of es nx]) simp
  qed
  have t: "ordered lo hi (put_leaf p el t) = ordered lo hi t" if t: "t \<in> set (map snd kids)" for t lo hi
  proof (rule "2.IH"(2)[OF t])
    show "map fst el = map fst es" if "(p, es, nx) \<in> set (leaves t)" for es nx
      using that t by (intro "2.prems"[of es nx]) auto
  qed
  have "ordered_kids hi (map (\<lambda>kid. (fst kid, put_leaf p el (snd kid))) ks) = ordered_kids hi ks \<and>
      next_key hi (map (\<lambda>kid. (fst kid, put_leaf p el (snd kid))) ks) = next_key hi ks"
    if "set ks \<subseteq> set kids" for ks
    using that
  proof (induction ks)
    case (Cons kid ks)
    then have "snd kid \<in> set (map snd kids)" by auto
    with Cons t show ?case by (cases kid) simp
  qed simp
  from this[of kids] f show ?case by simp
qed

lemma linked_map: "linked (map (\<lambda>l. (fst l, g l, snd (snd l))) ls) after = linked ls after"
proof (induction ls)
  case (Cons l ls)
  have "first_page (map (\<lambda>l. (fst l, g l, snd (snd l))) ls) after = first_page ls after"
    by (cases ls) simp_all
  with Cons show ?case by (cases l) simp
qed simp

lemma leaf_once:
  assumes "distinct (page_ids t)" "leaves t = L1 @ (p, es, nx) # L2" "l \<in> set L1 \<union> set L2"
  shows "fst l \<noteq> p"
proof -
  have "distinct (map fst (leaves t))" by (rule distinct_leaf_ids[OF assms(1)])
  then show ?thesis using assms(3) unfolding assms(2) by auto
qed

definition set_value :: "bytes \<Rightarrow> bytes \<Rightarrow> (bytes \<times> bytes) list \<Rightarrow> (bytes \<times> bytes) list" where
  "set_value key v es = map (\<lambda>e. if fst e = key then (key, v) else e) es"

lemma set_value_keys [simp]: "map fst (set_value key v es) = map fst es"
  by (simp add: set_value_def comp_def)

lemma set_value_absent: "(\<And>e. e \<in> set es \<Longrightarrow> fst e \<noteq> key) \<Longrightarrow> set_value key v es = es"
  by (induction es) (auto simp: set_value_def)

lemma set_value_append [simp]: "set_value key v (xs @ ys) = set_value key v xs @ set_value key v ys"
  by (simp add: set_value_def)

lemma set_value_update:
  assumes "sorted_wrt (<) (map fst es)" "i < length es" "fst (es ! i) = key"
  shows "es[i := (key, v)] = set_value key v es"
proof (rule nth_equalityI)
  fix j assume j: "j < length (es[i := (key, v)])"
  have "distinct (map fst es)" using assms(1) by (simp only: strict_sorted_iff)
  then have "fst (es ! j) = key \<longleftrightarrow> j = i"
    using assms(2,3) j nth_eq_iff_index_eq[of "map fst es" i j] by auto
  with j show "es[i := (key, v)] ! j = set_value key v es ! j"
    by (auto simp: set_value_def nth_list_update)
qed (simp add: set_value_def)

text \<open>The tree after the change of a value in one of its leaves.\<close>

lemma put_value:
  assumes "forest N root after hi [(lo, t)]" "leaf_of_key key t p" "N p = Some (LeafNode r es nx)"
    and "N' = N(p \<mapsto> LeafNode r (set_value key v es) nx)"
  shows "forest N' root after hi [(lo, put_leaf p (set_value key v es) t)]"
    "contents (put_leaf p (set_value key v es) t) = set_value key v (contents t)"
proof -
  let ?t = "put_leaf p (set_value key v es) t"
  have f: "ordered lo hi t" "stores N root t" "linked (leaves t) after" "distinct (page_ids t)"
    using assms(1) by (simp_all add: forest_def)
  have same: "es' = es \<and> nx' = nx" if "(p, es', nx') \<in> set (leaves t)" for es' nx'
    using stored_leaf[OF f(2) that] assms(3) by simp
  have "ordered lo hi ?t"
    using f(1) same by (subst ordered_put_leaf) auto
  moreover have "stores N' root ?t"
    unfolding assms(4) by (rule stores_put_leaf[OF f(2) assms(3)])
  moreover have "linked (leaves ?t) after"
    using f(3) by (simp add: leaves_put_leaf linked_map)
  ultimately show "forest N' root after hi [(lo, ?t)]"
    using assms(1) by (simp add: forest_def)
  from assms(2) obtain L1 es' nx' L2 where l: "leaves t = L1 @ (p, es', nx') # L2"
    "\<forall>l \<in> set L1. \<forall>e \<in> set (fst (snd l)). fst e < key"
    "\<forall>l \<in> set L2. \<forall>e \<in> set (fst (snd l)). key < fst e"
    unfolding leaf_of_key_def by blast
  have es: "es' = es" using same[of es' nx'] l(1) by simp
  let ?c = "\<lambda>L. concat (map (\<lambda>l. fst (snd l)) L)"
  have other: "?c (map (\<lambda>l. (fst l, if fst l = p then set_value key v es else fst (snd l), snd (snd l))) L) = ?c L"
    if "\<And>l. l \<in> set L \<Longrightarrow> fst l \<noteq> p" for L
    using that by (induction L) auto
  have "contents ?t = ?c L1 @ set_value key v es @ ?c L2"
    using other[of L1] other[of L2] leaf_once[OF f(4) l(1)]
    by (auto simp: contents_def leaves_put_leaf l(1))
  moreover have "set_value key v (?c L1) = ?c L1" "set_value key v (?c L2) = ?c L2"
    using l(2,3) by (intro set_value_absent; fastforce)+
  moreover have "contents t = ?c L1 @ es @ ?c L2" by (simp add: contents_def l(1) es)
  ultimately show "contents ?t = set_value key v (contents t)" by simp
qed

context win32_files
begin

lemma update_run:
  assumes "btree_stores bt m0 t" "length key = bt_ks bt" "length v = bt_vs bt"
  shows "run_triple content txns db [] (\<lambda>m. m = m0) (btree_update_value os bt key v)
    (\<lambda>_ m. map_of (contents t) key \<noteq> None \<and>
      (\<exists>t'. btree_stores bt m t' \<and> contents t' = set_value key v (contents t) \<and> page_ids t' = page_ids t) \<and>
      (\<forall>q. q \<notin> set (page_ids t) \<longrightarrow> m q = m0 q)) (\<lambda>m. m = m0)"
proof -
  let ?N = "nodes (bt_ks bt) (bt_vs bt) m0"
  have t: "page_of t = bt_root_page_id bt" "forest ?N True INVALID_PAGE_ID None [([], t)]"
    using assms(1) by (simp_all add: btree_stores_def)
  have descent: "run_triple content txns db [] (\<lambda>m. m = m0) (find_leaf_page_id os key (page_of t))
      (\<lambda>p m. leaf_of_key key t p \<and> m = m0) (\<lambda>m. m = m0)"
    by (rule find_leaf_run[OF _ t(2)]) (simp_all add: assms(2))
  have update: "btree_update_value os bt key v = bind_run (find_leaf_page_id os key (page_of t)) (\<lambda>p.
      returns (with_mutable_page (pager_get_page os p) (\<lambda>pin.
        edit_page pin (\<lambda>bytes. bind_result (leaf_open bytes) (leaf_update_value key v)))))"
    by (simp add: btree_update_value_def assms(2,3) t(1))
  show ?thesis
    unfolding update
  proof (rule run_bind_pure[OF descent], rule run_returns)
    fix p assume leaf: "leaf_of_key key t p"
    then obtain es nx where l: "(p, es, nx) \<in> set (leaves t)" "map_of (contents t) key = map_of es key"
      by (rule leaf_of_key_lookup)
    from forest_leaf[OF t(2) l(1)] obtain r where
      n: "?N p = Some (LeafNode r es nx)" "sorted_wrt (<) (map fst es)" by blast
    then have s: "sorted (map fst es)" by (simp only: strict_sorted_iff)
    from n(1) obtain d where d: "m0 p = Some d" "node_of (bt_ks bt) (bt_vs bt) d = Some (LeafNode r es nx)"
      unfolding nodes_Some by blast
    note view = leaf_view[OF d(2)] and found = lower_position_found[OF n(2), of key]
    let ?f = "\<lambda>bytes. bind_result (leaf_open bytes) (leaf_update_value key v)"
    show "page_triple content txns db [] (\<lambda>m. m = m0) (with_mutable_page (pager_get_page os p) (\<lambda>pin. edit_page pin ?f))
      (\<lambda>_ m. map_of (contents t) key \<noteq> None \<and>
        (\<exists>t'. btree_stores bt m t' \<and> contents t' = set_value key v (contents t) \<and> page_ids t' = page_ids t) \<and>
        (\<forall>q. q \<notin> set (page_ids t) \<longrightarrow> m q = m0 q)) (\<lambda>m. m = m0)" (is "page_triple _ _ _ _ _ _ ?R _")
    proof (intro triple_with_mutable triple_edit)
      fix pin m assume m: "m = m0"
      have "case ?f d of Inl e \<Rightarrow> m = m0 | Inr d' \<Rightarrow> length d' = PAGE_SIZE \<and> ?R () (m(p \<mapsto> d'))"
      proof (cases "?f d")
        case (Inr d')
        then have "leaf_update_value key v d = Inr d'" using view by simp
        with leaf_update_view[OF d(2) s assms(2,3)] found obtain i where
          i: "i < length es" "fst (es ! i) = key" "map_of es key \<noteq> None"
          and d': "node_of (bt_ks bt) (bt_vs bt) d' = Some (LeafNode r (es[i := (key, v)]) nx)"
          by (auto split: if_splits)
        have "nodes (bt_ks bt) (bt_vs bt) (m(p \<mapsto> d')) = ?N(p \<mapsto> LeafNode r (set_value key v es) nx)"
          by (simp add: nodes_update m d' set_value_update[OF n(2) i(1,2)])
        from put_value[OF t(2) leaf n(1) this] have
          "btree_stores bt (m(p \<mapsto> d')) (put_leaf p (set_value key v es) t)"
          "contents (put_leaf p (set_value key v es) t) = set_value key v (contents t)"
          using t(1) by (simp_all add: btree_stores_def)
        moreover have "p \<in> set (page_ids t)" using leaf_in_ids[OF l(1)] .
        ultimately show ?thesis
          using Inr node_length[OF d'] i(3) l(2) m page_ids_put_leaf by (auto simp del: fun_upd_apply) auto
      qed (simp add: m)
      with d(1) m show "\<exists>d. m p = Some d \<and> (length d = PAGE_SIZE \<longrightarrow> (case ?f d of Inl e \<Rightarrow> m = m0
        | Inr d' \<Rightarrow> length d' = PAGE_SIZE \<and> ?R () (m(p \<mapsto> d'))))" by blast
    qed auto
  qed
qed

end

section \<open>Scans\<close>

text \<open>The entries that a cursor has still before it, bound or not.\<close>

definition entries_in :: "(page_id \<times> (bytes \<times> bytes) list \<times> page_id) list \<Rightarrow> (bytes \<times> bytes) list" where
  "entries_in L = concat (map (\<lambda>l. fst (snd l)) L)"

lemma entries_in_simps [simp]:
  "entries_in [] = []" "entries_in ((p, es, nx) # L) = es @ entries_in L"
  "entries_in (L1 @ L2) = entries_in L1 @ entries_in L2"
  by (simp_all add: entries_in_def)

lemma contents_entries_in: "contents t = entries_in (leaves t)"
  by (simp add: contents_def entries_in_def)

definition cursor_at :: "tree \<Rightarrow> btree_cursor \<Rightarrow> (bytes \<times> bytes) list \<Rightarrow> bool" where
  "cursor_at t cu rest \<longleftrightarrow>
     (cu_current_leaf_page_id cu = INVALID_PAGE_ID \<and> rest = []) \<or>
     (\<exists>L1 es nx L2. leaves t = L1 @ (cu_current_leaf_page_id cu, es, nx) # L2 \<and>
        rest = drop (cu_entry_index cu) es @ entries_in L2)"

definition within_bound :: "btree_cursor \<Rightarrow> bytes \<times> bytes \<Rightarrow> bool" where
  "within_bound cu e \<longleftrightarrow> (case cu_upper_bound cu of None \<Rightarrow> True | Some upper_bound \<Rightarrow> fst e < upper_bound)"

lemma cursor_read_leaf:
  assumes "node_of ks vs d = Some (LeafNode r es nx)"
    and "case cu_upper_bound cu of None \<Rightarrow> True | Some upper_bound \<Rightarrow> length upper_bound = ks"
  defines "i \<equiv> cu_entry_index cu"
  shows "cursor_read cu d = Inr
    (if i < length es then
       if within_bound cu (es ! i) then Yield (Some (es ! i)) (cu\<lparr>cu_entry_index := i + 1\<rparr>)
       else Yield None (cu\<lparr>cu_current_leaf_page_id := INVALID_PAGE_ID\<rparr>)
     else Advance (cu\<lparr>cu_current_leaf_page_id := nx, cu_entry_index := 0\<rparr>))"
proof (cases "i < length es")
  case True
  note e = leaf_view_entries[OF assms(1) True]
  have "memcmp (take (length ub) (fst (es ! i))) ub \<ge> 0 \<longleftrightarrow> \<not> fst (es ! i) < ub" if "length ub = ks" for ub
    using memcmp_order(1)[of "fst (es ! i)" ub] e(4) that by auto
  with True e assms(2) show ?thesis
    by (auto simp: cursor_read_def leaf_view[OF assms(1)] i_def[symmetric] within_bound_def split: option.splits)
qed (simp add: cursor_read_def leaf_view[OF assms(1)] i_def[symmetric])

lemma dropWhile_False: "dropWhile (\<lambda>e. False) es = es"
  by (cases es) simp_all

lemma forest_links:
  assumes "forest N root after hi [(lo, t)]" "leaves t = L1 @ (p, es, nx) # L2"
  shows "nx = first_page L2 after"
  using assms by (simp add: forest_def)

context win32_files
begin

lemma cursor_round:
  assumes "pages_ok content txns db [] s" "page_map db txns s p = Some d" "cu_current_leaf_page_id cu = p"
    and "p \<noteq> INVALID_PAGE_ID" "cursor_read cu d = Inr step"
  obtains s1 where "pages_ok content txns db [] s1" "page_map db txns s1 = page_map db txns s"
    "(\<exists>e. cursor_next os s cu = Some (s1, cu, Inl e)) \<or>
      cursor_next os s cu = (case step of Yield entry cu' \<Rightarrow> Some (s1, cu', Inr entry)
        | Advance cu' \<Rightarrow> cursor_next os s1 cu')"
proof -
  obtain s1 r where read: "with_page (pager_get_page os p) (\<lambda>pin. read_page pin (cursor_read cu)) s = (s1, r)"
    by (metis surj_pair)
  note pr = page_read[OF read assms(1) _ assms(2)]
  have "cursor_next os s cu = (case r of Inl e \<Rightarrow> Some (s1, cu, Inl e)
      | Inr step \<Rightarrow> (case step of Yield entry cu' \<Rightarrow> Some (s1, cu', Inr entry)
        | Advance cu' \<Rightarrow> cursor_next os s1 cu'))"
    using read assms(3,4) by (subst cursor_next.simps) (simp add: page_id_is_valid_def)
  then show ?thesis
    using pr assms(5) by (intro that[of s1]) auto
qed

lemma cursor_next_run:
  assumes "pages_ok content txns db [] s" "btree_stores bt (page_map db txns s) t" "cursor_at t cu rest"
    and "bound_fits bt (cu_upper_bound cu)"
  shows "\<exists>s' cu' r. cursor_next os s cu = Some (s', cu', r) \<and> pages_ok content txns db [] s' \<and>
    page_map db txns s' = page_map db txns s \<and> cu_upper_bound cu' = cu_upper_bound cu \<and>
    (case r of Inl e \<Rightarrow> cursor_at t cu' rest
     | Inr None \<Rightarrow> cursor_at t cu' [] \<and> (rest = [] \<or> \<not> within_bound cu (hd rest))
     | Inr (Some e) \<Rightarrow> rest \<noteq> [] \<and> e = hd rest \<and> within_bound cu e \<and> cursor_at t cu' (tl rest))"
proof -
  define m where "m = page_map db txns s"
  define C where "C s cu rest \<longleftrightarrow> (\<exists>s' cu' r. cursor_next os s cu = Some (s', cu', r) \<and>
    pages_ok content txns db [] s' \<and> page_map db txns s' = m \<and> cu_upper_bound cu' = cu_upper_bound cu \<and>
    (case r of Inl e \<Rightarrow> cursor_at t cu' rest
     | Inr None \<Rightarrow> cursor_at t cu' [] \<and> (rest = [] \<or> \<not> within_bound cu (hd rest))
     | Inr (Some e) \<Rightarrow> rest \<noteq> [] \<and> e = hd rest \<and> within_bound cu e \<and> cursor_at t cu' (tl rest)))"
    for s cu rest
  let ?N = "nodes (bt_ks bt) (bt_vs bt) m"
  have t: "forest ?N True INVALID_PAGE_ID None [([], t)]"
    using assms(2) by (simp add: btree_stores_def m_def)
  have ended: "C s cu []"
    if "cu_current_leaf_page_id cu = INVALID_PAGE_ID" "pages_ok content txns db [] s" "page_map db txns s = m" for s cu
  proof -
    have "cursor_next os s cu = Some (s, cu, Inr None)"
      using that(1) by (subst cursor_next.simps) (simp add: page_id_is_valid_def)
    with that show ?thesis by (simp add: C_def cursor_at_def)
  qed
  have step: "C s cu rest"
    if at: "leaves t = L1 @ (cu_current_leaf_page_id cu, es, nx) # L2"
      "rest = drop (cu_entry_index cu) es @ entries_in L2" "bound_fits bt (cu_upper_bound cu)"
      "pages_ok content txns db [] s" "page_map db txns s = m"
      and advance: "\<And>s1 cu'. \<not> cu_entry_index cu < length es \<Longrightarrow> pages_ok content txns db [] s1 \<Longrightarrow>
        page_map db txns s1 = m \<Longrightarrow> cu' = cu\<lparr>cu_current_leaf_page_id := nx, cu_entry_index := 0\<rparr> \<Longrightarrow>
        C s1 cu' rest"
    for s cu rest L1 es nx L2
  proof -
    let ?p = "cu_current_leaf_page_id cu" and ?i = "cu_entry_index cu"
    have "(?p, es, nx) \<in> set (leaves t)" using at(1) by simp
    from forest_leaf(1,3)[OF t this] obtain r where n: "?N ?p = Some (LeafNode r es nx)" "?p \<noteq> INVALID_PAGE_ID"
      by blast
    from n(1) obtain d where d: "m ?p = Some d" "node_of (bt_ks bt) (bt_vs bt) d = Some (LeafNode r es nx)"
      unfolding nodes_Some by blast
    have bound: "case cu_upper_bound cu of None \<Rightarrow> True | Some ub \<Rightarrow> length ub = bt_ks bt"
      using at(3) by (simp add: bound_fits_def)
    note read = cursor_read_leaf[OF d(2) bound]
    have here: "cursor_at t cu rest" using at(1,2) by (auto simp: cursor_at_def)
    have "page_map db txns s ?p = Some d" using at(5) d(1) by simp
    from cursor_round[OF at(4) this refl n(2) read] obtain s1 where s1:
      "pages_ok content txns db [] s1" "page_map db txns s1 = m"
      "(\<exists>e. cursor_next os s cu = Some (s1, cu, Inl e)) \<or> cursor_next os s cu =
        (case if ?i < length es then if within_bound cu (es ! ?i) then Yield (Some (es ! ?i)) (cu\<lparr>cu_entry_index := ?i + 1\<rparr>)
           else Yield None (cu\<lparr>cu_current_leaf_page_id := INVALID_PAGE_ID\<rparr>)
         else Advance (cu\<lparr>cu_current_leaf_page_id := nx, cu_entry_index := 0\<rparr>) of
         Yield entry cu' \<Rightarrow> Some (s1, cu', Inr entry) | Advance cu' \<Rightarrow> cursor_next os s1 cu')"
      using at(5) by auto
    show ?thesis
    proof (cases "\<exists>e. cursor_next os s cu = Some (s1, cu, Inl e)")
      case True
      then obtain e where "cursor_next os s cu = Some (s1, cu, Inl e)" by blast
      with s1 here show ?thesis
        unfolding C_def by (intro exI[of _ s1] exI[of _ cu] exI[of _ "Inl e"]) simp
    next
      case False
      note next_is = s1(3)[simplified False, simplified]
      show ?thesis
      proof (cases "?i < length es")
        case True
        then have rest: "rest = es ! ?i # drop (Suc ?i) es @ entries_in L2"
          using at(2) Cons_nth_drop_Suc[OF True] by simp
        have "cursor_at t (cu\<lparr>cu_entry_index := Suc ?i\<rparr>) (drop (Suc ?i) es @ entries_in L2)"
          using at(1) by (auto simp: cursor_at_def)
        moreover have "cursor_at t (cu\<lparr>cu_current_leaf_page_id := INVALID_PAGE_ID\<rparr>) []"
          by (simp add: cursor_at_def)
        ultimately show ?thesis
          using True next_is s1(1,2) unfolding C_def rest
          by (cases "within_bound cu (es ! ?i)") simp_all
      next
        case False
        let ?cu = "cu\<lparr>cu_current_leaf_page_id := nx, cu_entry_index := 0\<rparr>"
        have same: "within_bound ?cu = within_bound cu" "cu_upper_bound ?cu = cu_upper_bound cu"
          by (simp_all add: within_bound_def fun_eq_iff)
        have next_eq: "cursor_next os s cu = cursor_next os s1 ?cu" using next_is False by simp
        show ?thesis
          using advance[OF False s1(1,2) refl] unfolding C_def same next_eq .
      qed
    qed
  qed
  have main: "C s cu rest"
    if "leaves t = L1 @ (cu_current_leaf_page_id cu, es, nx) # L2"
      "rest = drop (cu_entry_index cu) es @ entries_in L2" "bound_fits bt (cu_upper_bound cu)"
      "pages_ok content txns db [] s" "page_map db txns s = m" for s cu rest L1 es nx L2
    using that
  proof (induction L2 arbitrary: s cu rest L1 es nx)
    case Nil
    have "nx = INVALID_PAGE_ID" using forest_links[OF t Nil(1)] by simp
    with Nil show ?case by (intro step[OF Nil]) (auto intro: ended)
  next
    case (Cons l L2)
    obtain p2 es2 nx2 where l: "l = (p2, es2, nx2)" by (metis surj_pair)
    have "nx = p2" using forest_links[OF t Cons.prems(1)] l by simp
    with Cons show ?case
      by (intro step[OF Cons.prems]) (auto simp: l intro!: Cons.IH[of "L1 @ [(cu_current_leaf_page_id cu, es, nx)]"])
  qed
  have "C s cu rest"
  proof (cases "cu_current_leaf_page_id cu = INVALID_PAGE_ID")
    case True
    have "rest = []"
    proof (rule ccontr)
      assume "rest \<noteq> []"
      with assms(3) True obtain L1 es nx L2 where "leaves t = L1 @ (INVALID_PAGE_ID, es, nx) # L2"
        by (auto simp: cursor_at_def)
      then have "(INVALID_PAGE_ID, es, nx) \<in> set (leaves t)" by simp
      from forest_leaf(3)[OF t this] show False by simp
    qed
    with True ended[of cu s] assms(1) m_def show ?thesis by simp
  next
    case False
    then obtain L1 es nx L2 where at: "leaves t = L1 @ (cu_current_leaf_page_id cu, es, nx) # L2"
      "rest = drop (cu_entry_index cu) es @ entries_in L2"
      using assms(3) by (auto simp: cursor_at_def)
    from main[OF at assms(4,1)] show ?thesis by (simp add: m_def)
  qed
  then show ?thesis by (simp add: C_def m_def)
qed

lemma first_leaf_step_triple:
  assumes "\<And>m. P m \<Longrightarrow> nodes ks vs m p = Some n" "length held < 8"
    and "x = (case n of LeafNode r es nx \<Rightarrow> None | InternalNode r first es \<Rightarrow> Some first)"
  shows "page_triple content txns db held P (first_leaf_step os p) (\<lambda>y m. y = x \<and> P m) P"
  unfolding first_leaf_step_def
proof (rule triple_page_read[where n = n and ks = ks and vs = vs], erule assms(1))
  fix d assume d: "node_of ks vs d = Some n"
  show "\<exists>y. bind_result (page_open d) (\<lambda>view_bytes. if page_kind view_bytes = Internal
      then bind_result (internal_open d) (\<lambda>internal_view_bytes.
        Inr (Some (page_first_child_page_id internal_view_bytes))) else Inr None) = Inr y \<and> y = x"
  proof (cases n)
    case (LeafNode r es nx)
    with d assms(3) show ?thesis using leaf_view[of ks vs d r es nx] by simp
  next
    case (InternalNode r first es)
    with d assms(3) show ?thesis using internal_view[of ks vs d r first es] by simp
  qed
qed (simp_all add: assms(2))

lemma first_leaf_run:
  assumes "\<And>m. P m \<Longrightarrow> nodes ks vs m = N" "stores N root t" "length held < 8"
  shows "run_triple content txns db held P (first_leaf_page_id os (page_of t))
    (\<lambda>p m. p = fst (hd (leaves t)) \<and> P m) P"
  using assms(2)
proof (induction t arbitrary: root rule: leaves.induct)
  case (1 p es nx)
  then have "\<And>m. P m \<Longrightarrow> nodes ks vs m p = Some (LeafNode root es nx)" using assms(1) by simp
  from first_leaf_step_triple[of P, where x = None, OF this assms(3)]
  have step: "page_triple content txns db held P (first_leaf_step os p) (\<lambda>y m. y = None \<and> P m) P" by simp
  show ?case
    by (subst first_leaf_page_id.simps[abs_def], unfold tree.sel)
      (rule run_bind_pure[OF run_returns[OF step]], simp, rule run_returns, rule triple_return, simp)
next
  case (2 p f es)
  then have "\<And>m. P m \<Longrightarrow> nodes ks vs m p = Some (InternalNode root (page_of f) (entries_of es))"
    using assms(1) by simp
  from first_leaf_step_triple[of P, where x = "Some (page_of f)", OF this assms(3)]
  have step: "page_triple content txns db held P (first_leaf_step os p) (\<lambda>y m. y = Some (page_of f) \<and> P m) P" by simp
  have below: "run_triple content txns db held P (first_leaf_page_id os (page_of f))
    (\<lambda>p m. p = fst (hd (leaves f)) \<and> P m) P"
    using 2 by auto
  show ?case
  proof (subst first_leaf_page_id.simps[abs_def], unfold tree.sel, rule run_bind_pure[OF run_returns[OF step]])
    fix y assume "y = Some (page_of f)"
    then show "run_triple content txns db held P
      (case y of None \<Rightarrow> returns (return_action p) | Some child_page_id \<Rightarrow> first_leaf_page_id os child_page_id)
      (\<lambda>q m. q = fst (hd (leaves (TNode p f es))) \<and> P m) P"
      using below by simp
  qed
qed

lemma scan_run:
  assumes "\<And>m. P m \<Longrightarrow> btree_stores bt m t" "P m1" "bound_fits bt lower" "bound_fits bt upper"
    and same: "\<And>m m'. P m \<Longrightarrow> P m' \<Longrightarrow> m = m'"
  shows "run_triple content txns db [] P (btree_scan_range os bt lower upper)
    (\<lambda>cu m. (cu_upper_bound cu = upper \<and> cursor_at t cu
      (dropWhile (\<lambda>e. case lower of None \<Rightarrow> False | Some key \<Rightarrow> fst e < key) (contents t))) \<and> P m) P"
proof -
  let ?N = "nodes (bt_ks bt) (bt_vs bt) m1"
  have P: "\<And>m. P m \<Longrightarrow> nodes (bt_ks bt) (bt_vs bt) m = ?N" using same assms(2) by metis
  have t: "page_of t = bt_root_page_id bt" "forest ?N True INVALID_PAGE_ID None [([], t)]"
    using assms(1)[OF assms(2)] by (simp_all add: btree_stores_def)
  show ?thesis
  proof (cases lower)
    case None
    have "stores ?N True t" using t(2) by (simp add: forest_def)
    from first_leaf_run[OF P this] have first: "run_triple content txns db [] P
      (first_leaf_page_id os (page_of t)) (\<lambda>p m. p = fst (hd (leaves t)) \<and> P m) P" by simp
    have scan: "btree_scan_range os bt lower upper = bind_run (first_leaf_page_id os (page_of t))
        (\<lambda>current_page_id. returns (return_action \<lparr>cu_current_leaf_page_id = current_page_id,
          cu_entry_index = 0, cu_upper_bound = upper\<rparr>))"
      using assms(3,4) None t(1) by (simp add: btree_scan_range_def)
    obtain p es nx L where l: "leaves t = (p, es, nx) # L" by (cases "leaves t") auto
    have "cursor_at t \<lparr>cu_current_leaf_page_id = p, cu_entry_index = 0, cu_upper_bound = upper\<rparr> (contents t)"
      unfolding cursor_at_def contents_entries_in by (intro disjI2 exI[of _ "[]"] exI[of _ es] exI[of _ nx] exI[of _ L]) (simp add: l)
    then have "page_triple content txns db [] P (return_action \<lparr>cu_current_leaf_page_id = fst (hd (leaves t)),
        cu_entry_index = 0, cu_upper_bound = upper\<rparr>) (\<lambda>cu m. (cu_upper_bound cu = upper \<and> cursor_at t cu
        (dropWhile (\<lambda>e. case lower of None \<Rightarrow> False | Some key \<Rightarrow> fst e < key) (contents t))) \<and> P m) P"
      by (intro triple_return) (simp add: None l dropWhile_False)
    then show ?thesis
      unfolding scan by (intro run_bind_pure[OF first] run_returns) simp
  next
    case (Some key)
    have ks: "length key = bt_ks bt" using assms(3) Some by (simp add: bound_fits_def)
    have descent: "run_triple content txns db [] P (find_leaf_page_id os key (page_of t))
        (\<lambda>p m. leaf_of_key key t p \<and> P m) P"
      by (rule find_leaf_run[OF P t(2)]) (simp_all add: ks)
    have scan: "btree_scan_range os bt lower upper = bind_run (find_leaf_page_id os key (page_of t))
        (\<lambda>leaf_page_id. bind_run (returns (with_page (pager_get_page os leaf_page_id) (\<lambda>pin. read_page pin (\<lambda>bytes.
            bind_result (leaf_open bytes) (\<lambda>leaf_page. leaf_find_insertion_position leaf_page key)))))
        (\<lambda>position. returns (return_action \<lparr>cu_current_leaf_page_id = leaf_page_id, cu_entry_index = position,
            cu_upper_bound = upper\<rparr>)))"
      using assms(3,4) Some t(1) by (simp add: btree_scan_range_def)
    show ?thesis
      unfolding scan
    proof (rule run_bind_pure[OF descent])
      fix p assume leaf: "leaf_of_key key t p"
      from leaf obtain L1 es nx L2 where l: "leaves t = L1 @ (p, es, nx) # L2"
        "\<forall>l \<in> set L1. \<forall>e \<in> set (fst (snd l)). fst e < key"
        "\<forall>l \<in> set L2. \<forall>e \<in> set (fst (snd l)). key < fst e"
        unfolding leaf_of_key_def by blast
      have "(p, es, nx) \<in> set (leaves t)" using l(1) by simp
      from forest_leaf(1,2)[OF t(2) this] obtain r where
        n: "?N p = Some (LeafNode r es nx)" "sorted_wrt (<) (map fst es)" by blast
      then have s: "sorted (map fst es)" by (simp only: strict_sorted_iff)
      let ?i = "lower_position key es"
      have read: "page_triple content txns db [] P (with_page (pager_get_page os p) (\<lambda>pin. read_page pin (\<lambda>bytes.
            bind_result (leaf_open bytes) (\<lambda>leaf_page. leaf_find_insertion_position leaf_page key))))
          (\<lambda>i m. i = ?i \<and> P m) P"
      proof (rule triple_page_read[where n = "LeafNode r es nx" and ks = "bt_ks bt" and vs = "bt_vs bt"])
        fix d assume d: "node_of (bt_ks bt) (bt_vs bt) d = Some (LeafNode r es nx)"
        then show "\<exists>i. bind_result (leaf_open d) (\<lambda>leaf_page. leaf_find_insertion_position leaf_page key) = Inr i \<and> i = ?i"
          using leaf_view[OF d] leaf_find_position[OF d s ks] by simp
      qed (use P n(1) in simp_all)
      have before: "dropWhile (\<lambda>e. fst e < key) (entries_in L1 @ xs) = dropWhile (\<lambda>e. fst e < key) xs" for xs
        using l(2) by (intro dropWhile_append2) (auto simp: entries_in_def)
      have "key < fst e" if "e \<in> set (entries_in L2)" for e
        using l(3) that by (auto simp: entries_in_def)
      then have "dropWhile (\<lambda>e. fst e < key) (entries_in L2) = entries_in L2"
        by (cases "entries_in L2") fastforce+
      then have "dropWhile (\<lambda>e. fst e < key) (es @ entries_in L2) = drop ?i es @ entries_in L2"
        by (cases "\<forall>e \<in> set es. fst e < key")
          (auto simp: dropWhile_append lower_position_def dropWhile_eq_drop[symmetric])
      then have "cursor_at t \<lparr>cu_current_leaf_page_id = p, cu_entry_index = ?i, cu_upper_bound = upper\<rparr>
          (dropWhile (\<lambda>e. fst e < key) (contents t))"
        unfolding cursor_at_def contents_entries_in by (auto simp: l(1) before)
      then have "page_triple content txns db [] P (return_action \<lparr>cu_current_leaf_page_id = p,
          cu_entry_index = ?i, cu_upper_bound = upper\<rparr>) (\<lambda>cu m. (cu_upper_bound cu = upper \<and> cursor_at t cu
          (dropWhile (\<lambda>e. case lower of None \<Rightarrow> False | Some key \<Rightarrow> fst e < key) (contents t))) \<and> P m) P"
        by (intro triple_return) (simp add: Some)
      then show "run_triple content txns db [] P (bind_run (returns (with_page (pager_get_page os p) (\<lambda>pin. read_page pin (\<lambda>bytes.
            bind_result (leaf_open bytes) (\<lambda>leaf_page. leaf_find_insertion_position leaf_page key)))))
        (\<lambda>position. returns (return_action \<lparr>cu_current_leaf_page_id = p, cu_entry_index = position,
            cu_upper_bound = upper\<rparr>))) (\<lambda>cu m. (cu_upper_bound cu = upper \<and> cursor_at t cu
        (dropWhile (\<lambda>e. case lower of None \<Rightarrow> False | Some key \<Rightarrow> fst e < key) (contents t))) \<and> P m) P"
        by (intro run_bind_pure[OF run_returns[OF read]] run_returns) simp
    qed
  qed
qed

end

end
