(* ===== verification/BTreeInsert.thy ===== *)
theory BTreeInsert
  imports BTreeSearch
begin

text \<open>
  Insertion into the B+ tree: the split of a leaf and of an internal page, the recursion over the
  tree and the root that moves its content to a new left child.
\<close>

section \<open>Lists of entries\<close>

text \<open>What \<open>validate_layout\<close> has checked when a tree was created.\<close>

definition btree_layout :: "btree \<Rightarrow> bool" where
  "btree_layout bt \<longleftrightarrow> bt_key_size bt \<noteq> 0 \<and> bt_value_size bt \<noteq> 0 \<and>
     1 \<le> leaf_capacity_of (bt_ks bt) (bt_vs bt) \<and> 2 \<le> internal_capacity_of (bt_ks bt)"

lemma lower_position_neighbours:
  fixes key :: bytes
  assumes "sorted (map fst es)"
  defines "i \<equiv> lower_position key es"
  shows "0 < i \<Longrightarrow> fst (es ! (i - 1)) < key" "i < length es \<Longrightarrow> key \<le> fst (es ! i)"
proof -
  have below: "fst (es ! n) < key \<longleftrightarrow> n < i" if "n < length es" for n
    using sorted_takeWhile_iff[OF assms(1), of "\<lambda>k. k < key" n] that by (auto simp: i_def lower_position_def)
  have "i \<le> length es" by (simp add: i_def)
  then show "0 < i \<Longrightarrow> fst (es ! (i - 1)) < key" using below[of "i - 1"] by simp
  show "i < length es \<Longrightarrow> key \<le> fst (es ! i)" using below[of i] by simp
qed

lemma collect_Inr:
  "(\<And>i. i \<in> set is \<Longrightarrow> f i = Inr (g i)) \<Longrightarrow> collect is f = Inr (concat (map g is))"
  by (induction "is") simp_all

lemma gather_list:
  assumes "pos \<le> length ys"
  shows "concat (map (\<lambda>i. (if i = pos then [x] else []) @ (if i = length ys then [] else [ys ! i]))
    [0..<length ys + 1]) = take pos ys @ x # drop pos ys"
proof -
  let ?n = "length ys"
  let ?old = "\<lambda>i. if i = ?n then [] else [ys ! i]"
  let ?g = "\<lambda>i. (if i = pos then [x] else []) @ ?old i"
  have before: "concat (map ?old [0..<a]) = take a ys" if "a \<le> ?n" for a
    using that by (induction a) (simp_all add: take_Suc_conv_app_nth)
  have split: "[0..<Suc ?n] = [0..<pos] @ [pos..<Suc ?n]"
    using upt_add_eq_append[of 0 pos "Suc ?n - pos"] assms by (simp del: upt_Suc)
  have "take pos ys @ concat (map ?old [pos..<Suc ?n]) = take (Suc ?n) ys"
    using before[of pos] before[of ?n] assms split by (simp del: upt_Suc) (simp add: split[symmetric])
  then have after: "concat (map ?old [pos..<Suc ?n]) = drop pos ys"
    by (metis append_take_drop_id same_append_eq take_all_iff le_SucI order_refl)
  have "concat (map ?g [0..<pos]) = concat (map ?old [0..<pos])"
    by (intro arg_cong[where f = concat] map_cong) auto
  moreover have "concat (map ?g [pos..<Suc ?n]) = x # concat (map ?old [pos..<Suc ?n])"
  proof -
    have up: "[pos..<Suc ?n] = pos # [Suc pos..<Suc ?n]" using assms by (intro upt_conv_Cons) simp
    have "map ?g [Suc pos..<Suc ?n] = map ?old [Suc pos..<Suc ?n]" by (intro map_cong) auto
    then show ?thesis unfolding up by (simp del: upt_Suc map_eq_conv)
  qed
  ultimately have "concat (map ?g [0..<Suc ?n]) = take pos ys @ x # drop pos ys"
    unfolding split using before[OF assms] after by (simp del: upt_Suc)
  then show ?thesis by simp
qed

lemma gather_leaf_entries_value:
  assumes "node_of ks vs d = Some (LeafNode r es nx)" "pos \<le> length es"
  shows "gather_leaf_entries pos (length es) key v d =
    Inr (map leaf_slot (take pos es @ (key, v) # drop pos es))"
proof -
  let ?ys = "map leaf_slot es"
  have "gather_leaf_entries pos (length es) key v d = Inr (concat (map (\<lambda>i.
      (if i = pos then [key @ v] else []) @ (if i = length ?ys then [] else [?ys ! i])) [0..<length ?ys + 1]))"
    unfolding gather_leaf_entries_def
    by (subst collect_Inr[where g = "\<lambda>i. (if i = pos then [key @ v] else []) @
        (if i = length ?ys then [] else [?ys ! i])"])
      (auto simp: leaf_view_entries[OF assms(1)])
  then show ?thesis
    using gather_list[of pos ?ys] assms(2) by (simp add: take_map drop_map leaf_slot_def)
qed

lemma gather_internal_entries_value:
  assumes "node_of ks vs d = Some (InternalNode r first es)" "pos \<le> length es"
  shows "gather_internal_entries pos (length es) split d = Inr (take pos es @ split # drop pos es)"
proof -
  have "gather_internal_entries pos (length es) split d = Inr (concat (map (\<lambda>i.
      (if i = pos then [split] else []) @ (if i = length es then [] else [es ! i])) [0..<length es + 1]))"
    unfolding gather_internal_entries_def
    by (subst collect_Inr[where g = "\<lambda>i. (if i = pos then [split] else []) @
        (if i = length es then [] else [es ! i])"])
      (auto simp: internal_view_entries[OF assms(1)])
  then show ?thesis using gather_list[OF assms(2)] by simp
qed

lemma entry_of_slot [simp]:
  "length (fst e) = bt_ks bt \<Longrightarrow> entry_key bt (leaf_slot e) = fst e"
  "length (fst e) = bt_ks bt \<Longrightarrow> length (snd e) = bt_vs bt \<Longrightarrow> entry_value bt (leaf_slot e) = snd e"
  by (simp_all add: entry_key_def entry_value_def leaf_slot_def)

lemma upt_split:
  assumes "[a..<b] = ys @ x # zs"
  shows "x = a + length ys" "length ys < b - a" "a + length ys < b"
proof -
  have "length [a..<b] = length ys + Suc (length zs)" unfolding assms by simp
  then show l: "length ys < b - a" "a + length ys < b" by simp_all
  have "[a..<b] ! length ys = x" unfolding assms by simp
  with l show "x = a + length ys" by simp
qed

lemma triple_edit_to:
  assumes "(p, pin) \<in> set held" "pp_is_dirty pin" "N p = Some n" "p \<in> A \<or> p \<notin> dom m0"
    and "\<And>d. node_of ks vs d = Some n \<Longrightarrow> \<exists>d'. f d = Inr d' \<and> node_of ks vs d' = Some n'"
    and "N' = N(p \<mapsto> n')"
  shows "page_triple content txns db held (sees ks vs N A m0) (edit_page pin f) (\<lambda>_. sees ks vs N' A m0) E"
  unfolding assms(6)
  by (rule triple_edit_node, rule assms(1), rule assms(2), rule assms(3), rule assms(4), erule assms(5))

text \<open>The loops that fill a page.\<close>

lemma insert_leaf_entries_triple:
  assumes "(p, pin) \<in> set held" "pp_is_dirty pin" "p \<in> A \<or> p \<notin> dom m0"
    and "N p = Some (LeafNode root [] nx)" "sorted (map fst es)"
    and "\<And>e. e \<in> set es \<Longrightarrow> length (fst e) = bt_ks bt \<and> length (snd e) = bt_vs bt"
    and "limit \<le> length es" "limit - first \<le> leaf_capacity_of (bt_ks bt) (bt_vs bt)"
    and "N' = N(p \<mapsto> LeafNode root (take (limit - first) (drop first es)) nx)"
  shows "page_triple content txns db held (sees (bt_ks bt) (bt_vs bt) N A m0)
    (insert_leaf_entries bt pin (map leaf_slot es) first limit) (\<lambda>_. sees (bt_ks bt) (bt_vs bt) N' A m0) E"
proof -
  let ?seg = "drop first es"
  let ?I = "\<lambda>ys :: nat list. sees (bt_ks bt) (bt_vs bt) (N(p \<mapsto> LeafNode root (take (length ys) ?seg) nx)) A m0"
  have "page_triple content txns db held (?I []) (insert_leaf_entries bt pin (map leaf_slot es) first limit)
      (\<lambda>_. ?I [first..<limit]) E"
    unfolding insert_leaf_entries_def
  proof (rule triple_for_each[where I = ?I])
    fix ys x zs assume "[first..<limit] = ys @ x # zs"
    note u = upt_split[OF this]
    let ?n = "length ys"
    have x: "x < length es" "?n < length ?seg" using u assms(7) by simp_all
    have seg: "?seg ! ?n = es ! x" using u(1) x by simp
    have e: "es ! x \<in> set es" using x(1) by simp
    have key: "entry_key bt (map leaf_slot es ! x) = fst (es ! x)"
      "entry_value bt (map leaf_slot es ! x) = snd (es ! x)"
      using x(1) assms(6)[OF e] by simp_all
    have prev: "fst (take ?n ?seg ! (?n - 1)) \<le> fst (es ! x)" if pos: "0 < ?n"
    proof -
      obtain k where k: "?n = Suc k" using pos gr0_implies_Suc by blast
      then show ?thesis
        using sorted_nth_mono[OF assms(5), of "first + k" x] u(1) x by simp
    qed
    show "page_triple content txns db held (?I ys) (edit_page pin (leaf_insert_entry (x - first)
        (entry_key bt (map leaf_slot es ! x)) (entry_value bt (map leaf_slot es ! x)))) (\<lambda>_. ?I (ys @ [x])) E"
    proof (rule triple_edit_to, rule assms(1), rule assms(2), rule fun_upd_same, rule assms(3))
      fix d assume d: "node_of (bt_ks bt) (bt_vs bt) d = Some (LeafNode root (take ?n ?seg) nx)"
      have xn: "x - first = ?n" using u(1) by simp
      show "\<exists>d'. leaf_insert_entry (x - first) (entry_key bt (map leaf_slot es ! x))
          (entry_value bt (map leaf_slot es ! x)) d = Inr d' \<and>
          node_of (bt_ks bt) (bt_vs bt) d' = Some (LeafNode root (take (Suc ?n) ?seg) nx)"
      proof -
        have l: "length (take ?n ?seg) = ?n" "?n < leaf_capacity_of (bt_ks bt) (bt_vs bt)"
          using x(2) u(2) assms(8) by simp_all
        have "\<exists>d'. leaf_insert_entry ?n (fst (es ! x)) (snd (es ! x)) d = Inr d' \<and>
          node_of (bt_ks bt) (bt_vs bt) d' = Some (LeafNode root
            (take ?n (take ?n ?seg) @ (fst (es ! x), snd (es ! x)) # drop ?n (take ?n ?seg)) nx)"
          by (rule leaf_insert_view[OF d]) (use assms(6)[OF e] l prev in auto)
        then show ?thesis
          unfolding key xn take_Suc_conv_app_nth[OF x(2)] seg by simp
      qed
    qed simp_all
  qed
  then show ?thesis
    using assms(4) by (simp add: assms(9) fun_upd_idem)
qed

lemma insert_internal_entries_triple:
  assumes "(p, pin) \<in> set held" "pp_is_dirty pin" "p \<in> A \<or> p \<notin> dom m0"
    and "N p = Some (InternalNode root c [])" "sorted (map fst es)"
    and "\<And>e. e \<in> set es \<Longrightarrow> length (fst e) = ks"
    and "limit \<le> length es" "limit - first \<le> internal_capacity_of ks"
    and "N' = N(p \<mapsto> InternalNode root c (take (limit - first) (drop first es)))"
  shows "page_triple content txns db held (sees ks vs N A m0)
    (insert_internal_entries pin es first limit) (\<lambda>_. sees ks vs N' A m0) E"
proof -
  let ?seg = "drop first es"
  let ?I = "\<lambda>ys :: nat list. sees ks vs (N(p \<mapsto> InternalNode root c (take (length ys) ?seg))) A m0"
  have "page_triple content txns db held (?I []) (insert_internal_entries pin es first limit)
      (\<lambda>_. ?I [first..<limit]) E"
    unfolding insert_internal_entries_def
  proof (rule triple_for_each[where I = ?I])
    fix ys x zs assume "[first..<limit] = ys @ x # zs"
    note u = upt_split[OF this]
    let ?n = "length ys"
    have x: "x < length es" "?n < length ?seg" using u assms(7) by simp_all
    have seg: "?seg ! ?n = es ! x" using u(1) x by simp
    have e: "es ! x \<in> set es" using x(1) by simp
    have prev: "fst (take ?n ?seg ! (?n - 1)) \<le> fst (es ! x)" if pos: "0 < ?n"
    proof -
      obtain k where k: "?n = Suc k" using pos gr0_implies_Suc by blast
      then show ?thesis
        using sorted_nth_mono[OF assms(5), of "first + k" x] u(1) x by simp
    qed
    show "page_triple content txns db held (?I ys) (edit_page pin (internal_insert_entry (x - first)
        (fst (es ! x)) (snd (es ! x)))) (\<lambda>_. ?I (ys @ [x])) E"
    proof (rule triple_edit_to, rule assms(1), rule assms(2), rule fun_upd_same, rule assms(3))
      fix d assume d: "node_of ks vs d = Some (InternalNode root c (take ?n ?seg))"
      have xn: "x - first = ?n" using u(1) by simp
      show "\<exists>d'. internal_insert_entry (x - first) (fst (es ! x)) (snd (es ! x)) d = Inr d' \<and>
          node_of ks vs d' = Some (InternalNode root c (take (Suc ?n) ?seg))"
      proof -
        have l: "length (take ?n ?seg) = ?n" "?n < internal_capacity_of ks"
          using x(2) u(2) assms(8) by simp_all
        have "\<exists>d'. internal_insert_entry ?n (fst (es ! x)) (snd (es ! x)) d = Inr d' \<and>
          node_of ks vs d' = Some (InternalNode root c
            (take ?n (take ?n ?seg) @ (fst (es ! x), snd (es ! x)) # drop ?n (take ?n ?seg)))"
          by (rule internal_insert_view[OF d]) (use assms(6)[OF e] l prev in auto)
        then show ?thesis
          unfolding xn take_Suc_conv_app_nth[OF x(2)] seg by simp
      qed
    qed simp_all
  qed
  then show ?thesis
    using assms(4) by (simp add: assms(9) fun_upd_idem)
qed

section \<open>Insertion into a leaf\<close>

lemma insertion_point:
  assumes "node_of ks vs d = Some (LeafNode r es nx)" "sorted_wrt (<) (map fst es)" "length key = ks"
  shows "leaf_insertion_point key d =
    (if key \<in> fst ` set es then Inl ConstraintViolation else Inr (lower_position key es, length es))"
proof -
  let ?i = "lower_position key es"
  have s: "sorted (map fst es)" using assms(2) by (simp only: strict_sorted_iff)
  note view = leaf_view[OF assms(1)] leaf_find_position[OF assms(1) s assms(3)]
  have found: "(?i < length es \<and> fst (es ! ?i) = key) \<longleftrightarrow> key \<in> fst ` set es"
    using lower_position_found(1)[OF assms(2), of key] map_of_eq_None_iff[of es key] by simp
  show ?thesis
  proof (cases "?i < length es")
    case True
    note e = leaf_view_entries[OF assms(1) True]
    have "memcmp key (fst (es ! ?i)) = 0 \<longleftrightarrow> fst (es ! ?i) = key"
      using memcmp_order(2)[of key "fst (es ! ?i)"] e(4) assms(3) by auto
    with True found show ?thesis
      by (simp add: leaf_insertion_point_def view e ensure_def)
  next
    case False
    with found show ?thesis by (simp add: leaf_insertion_point_def view)
  qed
qed

lemma set_previous_of_next_node:
  assumes "node_of ks vs d = Some (LeafNode r es nx)"
  shows "\<exists>d'. bind_result (leaf_open d) (\<lambda>v. Inr (page_set_previous_leaf_page_id q v)) = Inr d' \<and>
    node_of ks vs d' = Some (LeafNode r es nx)"
  using leaf_view[OF assms] leaf_setters_view(2)[OF assms] by simp

context win32_files
begin

lemma set_previous_of_next_triple:
  assumes "page_id_is_valid nx \<Longrightarrow> \<exists>r es n. N nx = Some (LeafNode r es n)" "nx \<in> A \<or> nx \<notin> dom m0" "length held < 8"
  shows "page_triple content txns db held (sees ks vs N A m0) (set_previous_of_next os nx q)
    (\<lambda>_. sees ks vs N A m0) (\<lambda>_. True)"
proof (cases "page_id_is_valid nx")
  case True
  then obtain r es n where n: "N nx = Some (LeafNode r es n)" using assms(1) by blast
  have "page_triple content txns db held (sees ks vs N A m0) (set_previous_of_next os nx q)
    (\<lambda>_. sees ks vs (N(nx \<mapsto> LeafNode r es n)) A m0) (\<lambda>_. True)"
    unfolding set_previous_of_next_def if_P[OF True]
    by (rule triple_page_edit[where n = "LeafNode r es n"])
      (use n assms(2,3) set_previous_of_next_node in auto)
  with n show ?thesis by (simp add: fun_upd_idem)
next
  case False
  then show ?thesis by (simp add: set_previous_of_next_def triple_return[where x = "()", unfolded return_action_def] page_triple_def)
qed

lemma split_leaf_triple:
  assumes "(p, pin) \<in> set held" "pp_is_dirty pin" "p \<in> A" "N p = Some (LeafNode root es nx)"
    and "node_of (bt_ks bt) (bt_vs bt) d = Some (LeafNode root es nx)"
    and "sorted_wrt (<) (map fst es)" "key \<notin> fst ` set es" "length key = bt_ks bt" "length v = bt_vs bt"
    and "btree_layout bt" "leaf_capacity_of (bt_ks bt) (bt_vs bt) \<le> length es"
    and "page_id_is_valid nx \<Longrightarrow> \<exists>r es n. N nx = Some (LeafNode r es n)" "nx \<in> A \<or> nx \<notin> dom m0" "nx \<noteq> p"
    and "\<And>h pin. (h, pin) \<in> set held \<Longrightarrow> N h \<noteq> None" "length held < 7"
  shows "page_triple content txns db held (sees (bt_ks bt) (bt_vs bt) N A m0)
    (split_leaf os bt p pin d (lower_position key es) (length es) key v)
    (\<lambda>r m. \<exists>q l l'. l \<noteq> [] \<and> l' \<noteq> [] \<and> l @ l' = insert_sorted key v es \<and> r = Some (fst (hd l'), q) \<and>
      N q = None \<and> q \<notin> dom m0 \<and> q \<noteq> INVALID_PAGE_ID \<and>
      sees (bt_ks bt) (bt_vs bt) (N(p \<mapsto> LeafNode root l q, q \<mapsto> LeafNode False l' nx)) A m0 m) (\<lambda>_. True)"
proof -
  let ?ks = "bt_ks bt" and ?vs = "bt_vs bt" and ?cap = "leaf_capacity_of (bt_ks bt) (bt_vs bt)"
  let ?new = "insert_sorted key v es"
  let ?h = "length ?new div 2"
  let ?l = "take ?h ?new" and ?r = "drop ?h ?new"
  define sep where "sep = fst (hd ?r)"
  have layout: "bt_key_size bt \<noteq> 0" "bt_value_size bt \<noteq> 0" "1 \<le> ?cap"
    using assms(10) by (simp_all add: btree_layout_def)
  have len: "length ?new = Suc (length es)" by (simp add: insert_sorted_take)
  have es_cap: "length es = ?cap"
    using assms(5,11) by (simp add: leaf_node_iff)
  have sizes: "length (fst e) = ?ks \<and> length (snd e) = ?vs" if "e \<in> set ?new" for e
    using that assms(5,8,9) by (auto simp: set_insert_sorted leaf_node_iff)
  have sorted: "sorted (map fst ?new)"
    using insert_sorted_sorted[OF assms(6,7)] by (simp only: strict_sorted_iff)
  have gather: "gather_leaf_entries (lower_position key es) (length es) key v d = Inr (map leaf_slot ?new)"
    using gather_leaf_entries_value[OF assms(5), of "lower_position key es"] by (simp add: insert_sorted_take)
  have half: "0 < ?h" "?h < length ?new" "length ?new - ?h \<le> ?cap" "?h \<le> ?cap"
    using len es_cap layout(3) by linarith+
  have sep: "entry_key bt (map leaf_slot ?new ! ?h) = sep"
    using half(2) sizes[of "?new ! ?h"] by (simp add: sep_def hd_drop_conv_nth)
  show ?thesis
    unfolding split_leaf_def Let_def gather bind_action_pure
    apply (rule triple_new_node)
    subgoal premises q for q rpin
    proof -
    have qp: "q \<noteq> p" using q(2) assms(4) by auto
    have qnx: "page_id_is_valid nx \<Longrightarrow> nx \<noteq> q" using q(2) assms(12) by auto
    let ?held = "(q, rpin) # held"
    let ?S = "\<lambda>M. sees ?ks ?vs M A m0"
    have pq: "(p, pin) \<in> set ?held" "(q, rpin) \<in> set ?held" using assms(1) by simp_all
    have in_A: "p \<in> A \<or> p \<notin> dom m0" "q \<in> A \<or> q \<notin> dom m0" using assms(3) q(3) by simp_all
    let ?N1 = "N(q \<mapsto> LeafNode False [] INVALID_PAGE_ID)"
    let ?N2 = "?N1(p \<mapsto> LeafNode root [] nx)"
    let ?N3 = "?N1(p \<mapsto> LeafNode root ?l nx)"
    let ?N4 = "?N3(q \<mapsto> LeafNode False ?r INVALID_PAGE_ID)"
    let ?N5 = "?N4(p \<mapsto> LeafNode root ?l q)"
    let ?N6 = "N(p \<mapsto> LeafNode root ?l q, q \<mapsto> LeafNode False ?r nx)"
    have id: "page_triple content txns db ?held (\<lambda>m. ?S N m \<and> q \<in> dom m) (pin_page_id rpin)
        (\<lambda>x m. x = q \<and> ?S N m \<and> q \<in> dom m) (\<lambda>_. True)"
      by (rule triple_pin_page_id[OF pq(2)]) auto
    have init: "page_triple content txns db ?held (\<lambda>m. ?S N m \<and> q \<in> dom m)
        (edit_page rpin (\<lambda>bytes. initialize_leaf bytes (bt_key_size bt) (bt_value_size bt))) (\<lambda>_. ?S ?N1) (\<lambda>_. True)"
      by (rule triple_edit_raw[OF pq(2) q(1) in_A(2)]) (rule initialize_leaf_view[OF _ layout])
    have check: "page_triple content txns db ?held (?S ?N1) (read_page rpin leaf_open) (\<lambda>_. ?S ?N1) (\<lambda>_. True)"
    proof (rule triple_weaken[OF triple_read_node[OF pq(2), where Q = "\<lambda>_. True" and P = "?S ?N1"
          and ks = ?ks and vs = ?vs and n = "LeafNode False [] INVALID_PAGE_ID"]])
      show "nodes ?ks ?vs m q = Some (LeafNode False [] INVALID_PAGE_ID)" if "?S ?N1 m" for m
        using sees_start[OF that] by simp
    qed (simp_all add: leaf_view)
    have clear: "page_triple content txns db ?held (?S ?N1) (edit_page pin (leaf_set_key_count 0)) (\<lambda>_. ?S ?N2) (\<lambda>_. True)"
      by (rule triple_edit_to[where n = "LeafNode root es nx" and n' = "LeafNode root [] nx", OF pq(1) assms(2)])
        (use qp assms(4) in_A leaf_clear_view in auto)
    have left: "page_triple content txns db ?held (?S ?N2) (insert_leaf_entries bt pin (map leaf_slot ?new) 0 ?h)
        (\<lambda>_. ?S ?N3) (\<lambda>_. True)"
      by (rule insert_leaf_entries_triple[OF pq(1) assms(2) in_A(1) fun_upd_same sorted])
        (use sizes half in auto)
    have right: "page_triple content txns db ?held (?S ?N3)
        (insert_leaf_entries bt rpin (map leaf_slot ?new) ?h (length (map leaf_slot ?new))) (\<lambda>_. ?S ?N4) (\<lambda>_. True)"
      by (rule insert_leaf_entries_triple[OF pq(2) q(1) in_A(2) _ sorted])
        (use sizes half qp in auto)
    have left_next: "page_triple content txns db ?held (?S ?N4)
        (edit_page pin (\<lambda>bytes. Inr (page_set_next_leaf_page_id q bytes))) (\<lambda>_. ?S ?N5) (\<lambda>_. True)"
      by (rule triple_edit_to[where n = "LeafNode root ?l nx" and n' = "LeafNode root ?l q", OF pq(1) assms(2)])
        (use qp in_A leaf_setters_view(3) in auto)
    have same: "page_triple content txns db ?held (?S ?N5) (edit_page rpin f) (\<lambda>_. ?S ?N5) (\<lambda>_. True)"
      if "\<And>b. node_of ?ks ?vs b = Some (LeafNode False ?r INVALID_PAGE_ID) \<Longrightarrow>
        \<exists>b'. f b = Inr b' \<and> node_of ?ks ?vs b' = Some (LeafNode False ?r INVALID_PAGE_ID)" for f
      by (rule triple_edit_to[where n = "LeafNode False ?r INVALID_PAGE_ID"
            and n' = "LeafNode False ?r INVALID_PAGE_ID", OF pq(2) q(1)])
        (use qp in_A that in \<open>auto simp: fun_upd_twist\<close>)
    have right_next: "page_triple content txns db ?held (?S ?N5)
        (edit_page rpin (\<lambda>bytes. Inr (page_set_next_leaf_page_id nx bytes))) (\<lambda>_. ?S ?N6) (\<lambda>_. True)"
      by (rule triple_edit_to[where n = "LeafNode False ?r INVALID_PAGE_ID" and n' = "LeafNode False ?r nx", OF pq(2) q(1)])
        (use qp in_A leaf_setters_view(3) in \<open>auto simp: fun_upd_twist\<close>)
    have prev_next: "page_triple content txns db ?held (?S ?N6) (set_previous_of_next os nx q) (\<lambda>_. ?S ?N6) (\<lambda>_. True)"
      by (rule set_previous_of_next_triple) (use assms(12-16) qnx in auto)
    have finish: "page_triple content txns db ?held (?S ?N6) (return_action (Some (sep, q)))
      (\<lambda>r m. \<exists>q l l'. l \<noteq> [] \<and> l' \<noteq> [] \<and> l @ l' = ?new \<and> r = Some (fst (hd l'), q) \<and>
        N q = None \<and> q \<notin> dom m0 \<and> q \<noteq> INVALID_PAGE_ID \<and>
        ?S (N(p \<mapsto> LeafNode root l q, q \<mapsto> LeafNode False l' nx)) m) (\<lambda>_. True)"
    proof (rule triple_return)
      fix m assume m: "?S ?N6 m"
      have "?l \<noteq> []" "?r \<noteq> []" "?l @ ?r = ?new" using half by auto
      with m q show "\<exists>q' l l'. l \<noteq> [] \<and> l' \<noteq> [] \<and> l @ l' = ?new \<and> Some (sep, q) = Some (fst (hd l'), q') \<and>
        N q' = None \<and> q' \<notin> dom m0 \<and> q' \<noteq> INVALID_PAGE_ID \<and>
        ?S (N(p \<mapsto> LeafNode root l q', q' \<mapsto> LeafNode False l' nx)) m"
        unfolding sep_def by blast
    qed
    show ?thesis
      apply (rule triple_bind_pure[OF id])
      apply (simp only: length_map leaf_view[OF assms(5)] sep)
      apply (rule triple_bind[OF init], rule triple_bind[OF check], rule triple_bind[OF clear])
      apply (rule triple_bind[OF left], rule triple_bind[OF right[simplified length_map]])
      apply (rule triple_bind[OF left_next])
      apply (rule triple_bind[OF same], use leaf_setters_view(1) in blast)
      apply (rule triple_bind[OF same], use leaf_setters_view(2) in blast)
      apply (rule triple_bind[OF right_next], rule triple_bind[OF prev_next], rule finish)
      done
    qed
    subgoal using assms(15) by blast
    subgoal using assms(16) by simp
    done
qed

lemma insert_into_leaf_triple:
  assumes "p \<in> A" "N p = Some (LeafNode root es nx)"
    and "sorted_wrt (<) (map fst es)" "key \<notin> fst ` set es" "length key = bt_ks bt" "length v = bt_vs bt"
    and "btree_layout bt"
    and "page_id_is_valid nx \<Longrightarrow> \<exists>r es n. N nx = Some (LeafNode r es n)" "nx \<in> A \<or> nx \<notin> dom m0" "nx \<noteq> p"
  shows "page_triple content txns db [] (sees (bt_ks bt) (bt_vs bt) N A m0) (insert_into_leaf os bt p key v)
    (\<lambda>r m. case r of
        None \<Rightarrow> sees (bt_ks bt) (bt_vs bt) (N(p \<mapsto> LeafNode root (insert_sorted key v es) nx)) A m0 m
      | Some (sep, q) \<Rightarrow> \<exists>l l'. l \<noteq> [] \<and> l' \<noteq> [] \<and> l @ l' = insert_sorted key v es \<and> sep = fst (hd l') \<and>
          N q = None \<and> q \<notin> dom m0 \<and> q \<noteq> INVALID_PAGE_ID \<and>
          sees (bt_ks bt) (bt_vs bt) (N(p \<mapsto> LeafNode root l q, q \<mapsto> LeafNode False l' nx)) A m0 m) (\<lambda>_. True)"
    (is "page_triple _ _ _ _ ?P _ ?R _")
proof -
  let ?ks = "bt_ks bt" and ?vs = "bt_vs bt" and ?i = "lower_position key es"
  have s: "sorted (map fst es)" using assms(3) by (simp only: strict_sorted_iff)
  have seen: "nodes ?ks ?vs m p = Some (LeafNode root es nx)" if "?P m" for m
    using sees_start[OF that] assms(2) by simp
  have point: "page_triple content txns db [] ?P
      (with_page (pager_get_page os p) (\<lambda>pin. read_page pin (leaf_insertion_point key)))
      (\<lambda>x m. x = (?i, length es) \<and> ?P m) (\<lambda>_. True)"
    by (rule triple_page_read[OF seen]) (use insertion_point[OF _ assms(3,5)] assms(4) in auto)
  show ?thesis
    unfolding insert_into_leaf_def
    apply (rule triple_bind_pure[OF point])
    subgoal premises x for x
      apply (simp only: x prod.case)
      apply (rule triple_with_mutable)
      subgoal premises dirty for pin
      proof (rule triple_bind_pure)
        show "page_triple content txns db [(p, pin)] ?P (read_page pin leaf_open)
            (\<lambda>d m. node_of ?ks ?vs d = Some (LeafNode root es nx) \<and> ?P m) (\<lambda>_. True)"
          by (rule triple_read_node[OF _ seen]) (auto simp: leaf_view)
      next
        fix d assume d: "node_of ?ks ?vs d = Some (LeafNode root es nx)"
        note view = leaf_view[OF d]
        show "page_triple content txns db [(p, pin)] ?P
          (if page_key_count d < leaf_capacity d
           then bind_action (edit_page pin (leaf_insert_entry ?i key v)) (\<lambda>_. return_action None)
           else split_leaf os bt p pin d ?i (length es) key v) ?R (\<lambda>_. True)"
        proof (cases "page_key_count d < leaf_capacity d")
          case True
          have step: "page_triple content txns db [(p, pin)] ?P (edit_page pin (leaf_insert_entry ?i key v))
            (\<lambda>_. sees ?ks ?vs (N(p \<mapsto> LeafNode root (insert_sorted key v es) nx)) A m0) (\<lambda>_. True)"
          proof (rule triple_edit_to[where n = "LeafNode root es nx" and n' = "LeafNode root (insert_sorted key v es) nx"])
            fix d assume d: "node_of ?ks ?vs d = Some (LeafNode root es nx)"
            show "\<exists>d'. leaf_insert_entry ?i key v d = Inr d' \<and>
                node_of ?ks ?vs d' = Some (LeafNode root (insert_sorted key v es) nx)"
              unfolding insert_sorted_take
              by (rule leaf_insert_view[OF d assms(5,6)])
                (use True view lower_position_neighbours[OF s, of key] in \<open>auto intro: less_imp_le\<close>)
          qed (use dirty assms(1,2) in auto)
          show ?thesis
            unfolding if_P[OF True] by (rule triple_bind[OF step]) (rule triple_return, simp)
        next
          case False
          then have "leaf_capacity_of ?ks ?vs \<le> length es" using view by simp
          note split = split_leaf_triple[where N = N and nx = nx, OF _ dirty assms(1,2) d assms(3-7) this assms(8-10)]
          show ?thesis
            unfolding if_not_P[OF False]
          proof (rule triple_weaken, rule split)
            fix r m
            assume "\<exists>q l l'. l \<noteq> [] \<and> l' \<noteq> [] \<and> l @ l' = insert_sorted key v es \<and> r = Some (fst (hd l'), q) \<and>
              N q = None \<and> q \<notin> dom m0 \<and> q \<noteq> INVALID_PAGE_ID \<and>
              sees ?ks ?vs (N(p \<mapsto> LeafNode root l q, q \<mapsto> LeafNode False l' nx)) A m0 m"
            then show "?R r m" by (elim exE conjE) (simp, blast)
          qed (use assms(2) in auto)
        qed
      qed
      by simp_all
    done
qed

end

section \<open>Insertion into a subtree\<close>

text \<open>The outcome: the subtree has grown in place, or has a new right neighbour.\<close>

definition inserted :: "btree \<Rightarrow> (page_id \<rightharpoonup> node) \<Rightarrow> page_id set \<Rightarrow> page_store \<Rightarrow> bool \<Rightarrow> page_id \<Rightarrow> bytes option \<Rightarrow>
    bytes \<Rightarrow> tree \<Rightarrow> bytes \<Rightarrow> bytes \<Rightarrow> split_result option \<Rightarrow> page_store \<Rightarrow> bool" where
  "inserted bt N A m0 root after hi lo t key v r m \<longleftrightarrow> (\<exists>N' kids.
     sees (bt_ks bt) (bt_vs bt) N' A m0 m \<and> regrown N N' root after hi [(lo, t)] kids \<and>
     over_kids contents kids = insert_sorted key v (contents t) \<and>
     set (over_kids page_ids kids) \<subseteq> A \<union> - dom m0 \<and> set (page_ids t) \<subseteq> set (over_kids page_ids kids) \<and>
     page_of (snd (hd kids)) = page_of t \<and>
     (case r of None \<Rightarrow> \<exists>t'. kids = [(lo, t')]
      | Some (sep, q) \<Rightarrow> \<exists>t1 t2. kids = [(lo, t1), (sep, t2)] \<and> page_of t2 = q \<and> length sep = bt_ks bt))"

lemma sees_key_length:
  assumes "sees ks vs N A m0 m"
  shows "N p = Some (LeafNode r es nx) \<Longrightarrow> e \<in> set es \<Longrightarrow> length (fst e) = ks"
    and "N p = Some (InternalNode r c el) \<Longrightarrow> el = el1 @ e' # el2 \<Longrightarrow> length (fst e') = ks"
proof -
  assume "N p = Some (LeafNode r es nx)" "e \<in> set es"
  then show "length (fst e) = ks"
    using sees_Some[OF assms, of p] by (fastforce simp: leaf_node_iff)
next
  assume "N p = Some (InternalNode r c el)" "el = el1 @ e' # el2"
  then show "length (fst e') = ks"
    using sees_Some[OF assms, of p] by (fastforce simp: internal_node_iff)
qed

lemma leaf_inserted:
  assumes f: "forest N root after hi [(lo, TLeaf p es nx)]" and "p \<in> A" "lo \<le> key" "below key hi"
    and key: "key \<notin> fst ` set es"
    and r: "case r of
        None \<Rightarrow> sees (bt_ks bt) (bt_vs bt) (N(p \<mapsto> LeafNode root (insert_sorted key v es) nx)) A m0 m
      | Some (sep, q) \<Rightarrow> \<exists>l l'. l \<noteq> [] \<and> l' \<noteq> [] \<and> l @ l' = insert_sorted key v es \<and> sep = fst (hd l') \<and>
          N q = None \<and> q \<notin> dom m0 \<and> q \<noteq> INVALID_PAGE_ID \<and>
          sees (bt_ks bt) (bt_vs bt) (N(p \<mapsto> LeafNode root l q, q \<mapsto> LeafNode False l' nx)) A m0 m"
  shows "inserted bt N A m0 root after hi lo (TLeaf p es nx) key v r m"
proof -
  have o: "sorted_wrt (<) (map fst es)" "\<And>e. e \<in> set es \<Longrightarrow> lo \<le> fst e \<and> below (fst e) hi" "below lo hi"
    and n: "N p = Some (LeafNode root es nx)" "nx = after" "p \<noteq> INVALID_PAGE_ID"
    using f by (auto simp: forest_def)
  have sorted: "sorted_wrt (<) (map fst (insert_sorted key v es))"
    using insert_sorted_sorted[OF o(1) key] .
  have range: "lo \<le> fst e \<and> below (fst e) hi" if "e \<in> set (insert_sorted key v es)" for e
    using that o(2)[of e] assms(3,4) by (auto simp: set_insert_sorted)
  show ?thesis
  proof (cases r)
    case None
    let ?t = "TLeaf p (insert_sorted key v es) nx"
    let ?N = "N(p \<mapsto> LeafNode root (insert_sorted key v es) nx)"
    have "regrown N ?N root after hi [(lo, TLeaf p es nx)] [(lo, ?t)]"
      using sorted range o(3) n by (auto simp: regrown_def forest_def)
    moreover have "set (over_kids page_ids [(lo, ?t)]) \<subseteq> A \<union> - dom m0" using assms(2) by simp
    moreover have "sees (bt_ks bt) (bt_vs bt) ?N A m0 m" using r None by simp
    ultimately show ?thesis
      unfolding inserted_def None by (intro exI[of _ ?N] exI[of _ "[(lo, ?t)]"]) simp
  next
    case (Some split)
    obtain sep q where split: "split = (sep, q)" by (metis surj_pair)
    with r Some obtain l l' where l: "l \<noteq> []" "l' \<noteq> []" "l @ l' = insert_sorted key v es" "sep = fst (hd l')"
      "N q = None" "q \<notin> dom m0" "q \<noteq> INVALID_PAGE_ID"
      "sees (bt_ks bt) (bt_vs bt) (N(p \<mapsto> LeafNode root l q, q \<mapsto> LeafNode False l' nx)) A m0 m" by auto
    let ?N = "N(p \<mapsto> LeafNode root l q, q \<mapsto> LeafNode False l' nx)"
    let ?kids = "[(lo, TLeaf p l q), (sep, TLeaf q l' nx)]"
    have qp: "q \<noteq> p" using l(5) n(1) by auto
    have sl: "sorted_wrt (<) (map fst l)" "sorted_wrt (<) (map fst l')" "\<forall>a \<in> set l. \<forall>b \<in> set l'. fst a < fst b"
      using sorted unfolding l(3)[symmetric] by (auto simp: sorted_wrt_append)
    have rl: "\<forall>a \<in> set l. lo \<le> fst a \<and> fst a < sep" "\<forall>b \<in> set l'. below (fst b) hi"
      using range sl(3) l(2) unfolding l(3)[symmetric] by (auto simp: l(4))
    have sep: "\<forall>b \<in> set l'. sep \<le> fst b" "lo < sep" "below sep hi"
    proof -
      show "\<forall>b \<in> set l'. sep \<le> fst b" using sl(2) l(2) by (cases l') (auto simp: l(4))
      show "below sep hi" using rl(2) l(2) by (simp add: l(4))
      obtain a where "a \<in> set l" using l(1) by (cases l) auto
      with rl(1) have "lo \<le> fst a" "fst a < sep" by simp_all
      then show "lo < sep" by simp
    qed
    have len: "length sep = bt_ks bt"
      using sees_key_length(1)[OF l(8), of q False l' nx "hd l'"] l(2,4) by simp
    have "regrown N ?N root after hi [(lo, TLeaf p es nx)] ?kids"
      using sl rl sep qp n l(5,7) by (auto simp: regrown_def forest_def)
    moreover have "set (over_kids page_ids ?kids) \<subseteq> A \<union> - dom m0" using assms(2) l(6) by simp
    ultimately show ?thesis
      unfolding inserted_def Some split using l(3,8) len by (intro exI[of _ ?N] exI[of _ ?kids]) simp
  qed
qed

section \<open>Adding a child to an internal page\<close>

lemma sees_node_update_same:
  "N p = Some n \<Longrightarrow> N(p \<mapsto> n) = N"
  by auto

lemma set_parent_node:
  assumes "node_of ks vs d = Some n"
  shows "\<exists>d'. bind_result (page_open d) (\<lambda>v. Inr (page_set_parent_page_id q v)) = Inr d' \<and> node_of ks vs d' = Some n"
proof (cases n)
  case (LeafNode r es nx)
  with assms leaf_view[of ks vs d r es nx] leaf_setters_view(1)[of ks vs d r es nx] show ?thesis by simp
next
  case (InternalNode r c es)
  with assms internal_view[of ks vs d r c es] internal_setters_view(1)[of ks vs d r c es] show ?thesis by simp
qed

context win32_files
begin

lemma update_parent_triple:
  assumes "N child \<noteq> None" "child \<in> A \<or> child \<notin> dom m0" "length held < 8"
  shows "page_triple content txns db held (sees ks vs N A m0) (update_parent_page_id os q child)
    (\<lambda>_. sees ks vs N A m0) (\<lambda>_. True)"
proof -
  obtain n where n: "N child = Some n" using assms(1) by blast
  have "page_triple content txns db held (sees ks vs N A m0) (update_parent_page_id os q child)
    (\<lambda>_. sees ks vs (N(child \<mapsto> n)) A m0) (\<lambda>_. True)"
    unfolding update_parent_page_id_def
    by (rule triple_page_edit[where n = n]) (use n assms set_parent_node in auto)
  then show ?thesis by (simp only: sees_node_update_same[of N child n, OF n])
qed

lemma update_parents_triple:
  assumes "\<And>x. x \<in> set xs \<Longrightarrow> N (g x) \<noteq> None \<and> (g x \<in> A \<or> g x \<notin> dom m0)" "length held < 8"
  shows "page_triple content txns db held (sees ks vs N A m0)
    (for_each xs (\<lambda>x. update_parent_page_id os q (g x))) (\<lambda>_. sees ks vs N A m0) (\<lambda>_. True)"
proof (rule triple_for_each[where I = "\<lambda>_. sees ks vs N A m0"])
  show "page_triple content txns db held (sees ks vs N A m0) (update_parent_page_id os q (g x))
      (\<lambda>_. sees ks vs N A m0) (\<lambda>_. True)" if "xs = ys @ x # zs" for ys x zs
    by (rule update_parent_triple) (use assms that in auto)
qed

lemma split_internal_triple:
  assumes "(p, pin) \<in> set held" "pp_is_dirty pin" "p \<in> A" "N p = Some (InternalNode root c es)"
    and "node_of (bt_ks bt) (bt_vs bt) d = Some (InternalNode root c es)"
    and "sorted_wrt (<) (map fst es)" "k \<notin> fst ` set es" "length k = bt_ks bt"
    and "btree_layout bt" "internal_capacity_of (bt_ks bt) \<le> length es"
    and child: "\<And>e. e \<in> insert (k, x) (set es) \<Longrightarrow>
        N (snd e) \<noteq> None \<and> (snd e \<in> A \<or> snd e \<notin> dom m0) \<and> snd e \<noteq> p"
    and "\<And>h pin. (h, pin) \<in> set held \<Longrightarrow> N h \<noteq> None" "length held < 7"
  shows "page_triple content txns db held (sees (bt_ks bt) (bt_vs bt) N A m0)
    (split_internal os bt pin d (k, x))
    (\<lambda>r m. \<exists>q l k' c' l'. insert_sorted k x es = l @ (k', c') # l' \<and> r = Some (k', q) \<and> length k' = bt_ks bt \<and>
      N q = None \<and> q \<notin> dom m0 \<and> q \<noteq> INVALID_PAGE_ID \<and>
      sees (bt_ks bt) (bt_vs bt) (N(p \<mapsto> InternalNode root c l, q \<mapsto> InternalNode False c' l')) A m0 m) (\<lambda>_. True)"
proof -
  let ?ks = "bt_ks bt" and ?vs = "bt_vs bt" and ?cap = "internal_capacity_of (bt_ks bt)"
  let ?new = "insert_sorted k x es"
  let ?h = "length ?new div 2"
  let ?l = "take ?h ?new" and ?r = "drop (Suc ?h) ?new"
  obtain k' c' where mid: "?new ! ?h = (k', c')" by (metis surj_pair)
  have layout: "bt_key_size bt \<noteq> 0" "bt_value_size bt \<noteq> 0" "2 \<le> ?cap"
    using assms(9) by (simp_all add: btree_layout_def)
  have len: "length ?new = Suc (length es)" by (simp add: insert_sorted_take)
  have es_cap: "length es = ?cap"
    using assms(5,10) by (simp add: internal_node_iff)
  have set_new: "set ?new = insert (k, x) (set es)" by (rule set_insert_sorted)
  have sizes: "length (fst e) = ?ks" if "e \<in> set ?new" for e
    using that assms(5,8) by (auto simp: set_new internal_node_iff)
  have sorted: "sorted (map fst es)" "sorted (map fst ?new)"
    using assms(6) insert_sorted_sorted[OF assms(6,7)] by (simp_all only: strict_sorted_iff)
  have find: "internal_find_insertion_position d k = Inr (lower_position k es)"
    using internal_search(1)[OF assms(5) sorted(1) assms(8)] .
  have gather: "gather_internal_entries (lower_position k es) (length es) (k, x) d = Inr ?new"
    using gather_internal_entries_value[OF assms(5), of "lower_position k es"] by (simp add: insert_sorted_take)
  have half: "?h < length ?new" "length ?new - Suc ?h \<le> ?cap" "?h \<le> ?cap"
    using len es_cap layout(3) by linarith+
  have new: "?l @ (k', c') # ?r = ?new"
    using id_take_nth_drop[OF half(1)] mid by simp
  have in_new: "?new ! j \<in> insert (k, x) (set es)" if "j < length ?new" for j
    using nth_mem[OF that] set_new by blast
  show ?thesis
    unfolding split_internal_def Let_def fst_conv find gather bind_action_pure internal_view[OF assms(5)]
    apply (rule triple_new_node)
    subgoal premises q for q rpin
    proof -
      have qp: "q \<noteq> p" using q(2) assms(4) by auto
      let ?held = "(q, rpin) # held"
      let ?S = "\<lambda>M. sees ?ks ?vs M A m0"
      have pq: "(p, pin) \<in> set ?held" "(q, rpin) \<in> set ?held" using assms(1) by simp_all
      have in_A: "p \<in> A \<or> p \<notin> dom m0" "q \<in> A \<or> q \<notin> dom m0" using assms(3) q(3) by simp_all
      let ?N1 = "N(q \<mapsto> InternalNode False INVALID_PAGE_ID [])"
      let ?N2 = "?N1(p \<mapsto> InternalNode root c [])"
      let ?N3 = "?N1(p \<mapsto> InternalNode root c ?l)"
      let ?N4 = "?N3(q \<mapsto> InternalNode False c' [])"
      let ?N5 = "N(p \<mapsto> InternalNode root c ?l, q \<mapsto> InternalNode False c' ?r)"
      have id: "page_triple content txns db ?held (\<lambda>m. ?S N m \<and> q \<in> dom m) (pin_page_id rpin)
          (\<lambda>x m. x = q \<and> ?S N m \<and> q \<in> dom m) (\<lambda>_. True)"
        by (rule triple_pin_page_id[OF pq(2)]) auto
      have init: "page_triple content txns db ?held (\<lambda>m. ?S N m \<and> q \<in> dom m)
          (edit_page rpin (\<lambda>bytes. initialize_internal bytes (bt_key_size bt) (bt_value_size bt)))
          (\<lambda>_. ?S ?N1) (\<lambda>_. True)"
        by (rule triple_edit_raw[OF pq(2) q(1) in_A(2)]) (rule initialize_internal_view[OF _ layout])
      have check: "page_triple content txns db ?held (?S ?N1) (read_page rpin internal_open) (\<lambda>_. ?S ?N1) (\<lambda>_. True)"
      proof (rule triple_weaken[OF triple_read_node[OF pq(2), where Q = "\<lambda>_. True" and P = "?S ?N1"
            and ks = ?ks and vs = ?vs and n = "InternalNode False INVALID_PAGE_ID []"]])
        show "nodes ?ks ?vs m q = Some (InternalNode False INVALID_PAGE_ID [])" if "?S ?N1 m" for m
          using sees_start[OF that] by simp
      qed (simp_all add: internal_view)
      have clear: "page_triple content txns db ?held (?S ?N1) (edit_page pin (internal_set_key_count 0)) (\<lambda>_. ?S ?N2) (\<lambda>_. True)"
        by (rule triple_edit_to[where n = "InternalNode root c es" and n' = "InternalNode root c []", OF pq(1) assms(2)])
          (use qp assms(4) in_A internal_clear_view in auto)
      have left: "page_triple content txns db ?held (?S ?N2) (insert_internal_entries pin ?new 0 ?h)
          (\<lambda>_. ?S ?N3) (\<lambda>_. True)"
        by (rule insert_internal_entries_triple[OF pq(1) assms(2) in_A(1) fun_upd_same sorted(2)])
          (use sizes half in auto)
      have parent: "page_triple content txns db ?held (?S ?N3)
          (edit_page rpin (\<lambda>bytes. Inr (page_set_parent_page_id (page_parent_page_id d) bytes))) (\<lambda>_. ?S ?N3) (\<lambda>_. True)"
        by (rule triple_edit_to[where n = "InternalNode False INVALID_PAGE_ID []"
              and n' = "InternalNode False INVALID_PAGE_ID []", OF pq(2) q(1)])
          (use qp in_A internal_setters_view(1) in \<open>auto simp: fun_upd_twist\<close>)
      have first: "page_triple content txns db ?held (?S ?N3)
          (edit_page rpin (\<lambda>bytes. Inr (page_set_first_child_page_id c' bytes))) (\<lambda>_. ?S ?N4) (\<lambda>_. True)"
        by (rule triple_edit_to[where n = "InternalNode False INVALID_PAGE_ID []" and n' = "InternalNode False c' []", OF pq(2) q(1)])
          (use qp in_A internal_setters_view(2) in auto)
      have right: "page_triple content txns db ?held (?S ?N4)
          (insert_internal_entries rpin ?new (?h + 1) (length ?new)) (\<lambda>_. ?S ?N5) (\<lambda>_. True)"
        by (rule insert_internal_entries_triple[OF pq(2) q(1) in_A(2) _ sorted(2)])
          (use sizes half qp in \<open>auto simp: fun_upd_twist\<close>)
      have kids: "?N5 (snd e) \<noteq> None \<and> (snd e \<in> A \<or> snd e \<notin> dom m0)" if "e \<in> insert (k, x) (set es)" for e
        using child[OF that] by auto
      have "(k', c') \<in> insert (k, x) (set es)" using in_new[OF half(1)] mid by simp
      from kids[OF this] have one: "page_triple content txns db ?held (?S ?N5) (update_parent_page_id os q c')
          (\<lambda>_. ?S ?N5) (\<lambda>_. True)"
        using assms(13) by (intro update_parent_triple) simp_all
      have all: "page_triple content txns db ?held (?S ?N5) (for_each [?h + 1..<length ?new]
          (\<lambda>j. update_parent_page_id os q (snd (?new ! j)))) (\<lambda>_. ?S ?N5) (\<lambda>_. True)"
        using kids[OF in_new] assms(13) by (intro update_parents_triple) simp_all
      have finish: "page_triple content txns db ?held (?S ?N5) (return_action (Some (k', q)))
        (\<lambda>r m. \<exists>q l k' c' l'. ?new = l @ (k', c') # l' \<and> r = Some (k', q) \<and> length k' = bt_ks bt \<and>
          N q = None \<and> q \<notin> dom m0 \<and> q \<noteq> INVALID_PAGE_ID \<and>
          ?S (N(p \<mapsto> InternalNode root c l, q \<mapsto> InternalNode False c' l')) m) (\<lambda>_. True)"
        using new[symmetric] q sizes[OF nth_mem[OF half(1)]] unfolding mid fst_conv by (intro triple_return) blast
      show ?thesis
        apply (rule triple_bind_pure[OF id])
        apply (simp only: mid fst_conv snd_conv)
        apply (rule triple_bind[OF init], rule triple_bind[OF check], rule triple_bind[OF clear])
        apply (rule triple_bind[OF left], rule triple_bind[OF parent], rule triple_bind[OF first])
        apply (rule triple_bind[OF right], rule triple_bind[OF one], rule triple_bind[OF all], rule finish)
        done
    qed
    subgoal using assms(12) by blast
    subgoal using assms(13) by simp
    done
qed

lemma add_child_split_triple:
  assumes "p \<in> A" "N p = Some (InternalNode root c es)"
    and "sorted_wrt (<) (map fst es)" "k \<notin> fst ` set es" "length k = bt_ks bt" "btree_layout bt"
    and child: "\<And>e. e \<in> insert (k, x) (set es) \<Longrightarrow>
        N (snd e) \<noteq> None \<and> (snd e \<in> A \<or> snd e \<notin> dom m0) \<and> snd e \<noteq> p"
  shows "page_triple content txns db [] (sees (bt_ks bt) (bt_vs bt) N A m0) (add_child_split os bt p (k, x))
    (\<lambda>r m. case r of
        None \<Rightarrow> sees (bt_ks bt) (bt_vs bt) (N(p \<mapsto> InternalNode root c (insert_sorted k x es))) A m0 m
      | Some (k', q) \<Rightarrow> \<exists>l c' l'. insert_sorted k x es = l @ (k', c') # l' \<and> length k' = bt_ks bt \<and>
          N q = None \<and> q \<notin> dom m0 \<and> q \<noteq> INVALID_PAGE_ID \<and>
          sees (bt_ks bt) (bt_vs bt) (N(p \<mapsto> InternalNode root c l, q \<mapsto> InternalNode False c' l')) A m0 m) (\<lambda>_. True)"
    (is "page_triple _ _ _ _ ?P _ ?R _")
proof -
  let ?ks = "bt_ks bt" and ?vs = "bt_vs bt" and ?i = "lower_position k es"
  have s: "sorted (map fst es)" using assms(3) by (simp only: strict_sorted_iff)
  have seen: "nodes ?ks ?vs m p = Some (InternalNode root c es)" if "?P m" for m
    using sees_start[OF that] assms(2) by simp
  show ?thesis
    unfolding add_child_split_def
    apply (rule triple_with_mutable)
    subgoal premises dirty for pin
    proof (rule triple_bind_pure)
      show "page_triple content txns db [(p, pin)] ?P (read_page pin internal_open)
          (\<lambda>d m. node_of ?ks ?vs d = Some (InternalNode root c es) \<and> ?P m) (\<lambda>_. True)"
        by (rule triple_read_node[OF _ seen]) (auto simp: internal_view)
    next
      fix d assume d: "node_of ?ks ?vs d = Some (InternalNode root c es)"
      note view = internal_view[OF d]
      have find: "internal_find_insertion_position d k = Inr ?i"
        using internal_search(1)[OF d s assms(5)] .
      show "page_triple content txns db [(p, pin)] ?P
        (if page_key_count d < internal_capacity d
         then bind_action (lift_result (internal_find_insertion_position d (fst (k, x)))) (\<lambda>insertion_pos.
           bind_action (edit_page pin (internal_insert_entry insertion_pos (fst (k, x)) (snd (k, x))))
             (\<lambda>_. return_action None))
         else split_internal os bt pin d (k, x)) ?R (\<lambda>_. True)"
      proof (cases "page_key_count d < internal_capacity d")
        case True
        have step: "page_triple content txns db [(p, pin)] ?P (edit_page pin (internal_insert_entry ?i k x))
          (\<lambda>_. sees ?ks ?vs (N(p \<mapsto> InternalNode root c (insert_sorted k x es))) A m0) (\<lambda>_. True)"
        proof (rule triple_edit_to[where n = "InternalNode root c es" and n' = "InternalNode root c (insert_sorted k x es)"])
          fix d assume d: "node_of ?ks ?vs d = Some (InternalNode root c es)"
          show "\<exists>d'. internal_insert_entry ?i k x d = Inr d' \<and>
              node_of ?ks ?vs d' = Some (InternalNode root c (insert_sorted k x es))"
            unfolding insert_sorted_take
            by (rule internal_insert_view[OF d assms(5)])
              (use True view lower_position_neighbours[OF s, of k] in \<open>auto intro: less_imp_le\<close>)
        qed (use dirty assms(1,2) in auto)
        show ?thesis
          unfolding if_P[OF True] fst_conv snd_conv find bind_action_pure
          by (rule triple_bind[OF step]) (rule triple_return, simp)
      next
        case False
        then have "internal_capacity_of ?ks \<le> length es" using view by simp
        note split = split_internal_triple[where N = N and A = A and p = p, OF _ dirty assms(1,2) d assms(3-6) this child]
        show ?thesis
          unfolding if_not_P[OF False]
        proof (rule triple_weaken, rule split)
          fix r m
          assume "\<exists>q l k' c' l'. insert_sorted k x es = l @ (k', c') # l' \<and> r = Some (k', q) \<and> length k' = ?ks \<and>
            N q = None \<and> q \<notin> dom m0 \<and> q \<noteq> INVALID_PAGE_ID \<and>
            sees ?ks ?vs (N(p \<mapsto> InternalNode root c l, q \<mapsto> InternalNode False c' l')) A m0 m"
          then show "?R r m" by (elim exE conjE) (simp, blast)
        qed (use assms(2) in auto)
      qed
    qed
    by simp_all
qed

end

end
