(* ===== verification/BTreeGrow.thy ===== *)
theory BTreeGrow
  imports BTreeInsert
begin

text \<open>
  Insertion into a whole tree: the recursion of \<open>insert_into_subtree\<close> through the internal pages,
  the root that splits, and \<open>insert\<close> itself.
\<close>

section \<open>An internal page whose children have grown\<close>

lemma node_regrown:
  assumes f: "forest N root after hi [(lo, TNode p f es)]"
    and g: "regrown N N1 False after hi ((lo, f) # es) ((lo, f') # es')"
    and N2: "N2 = N1(p \<mapsto> InternalNode root (page_of f') (entries_of es'))"
  shows "regrown N N2 root after hi [(lo, TNode p f es)] [(lo, TNode p f' es')]"
    and "p \<notin> set (over_kids page_ids ((lo, f') # es'))"
proof -
  let ?K = "(lo, f') # es'"
  have n: "N p = Some (InternalNode root (page_of f) (entries_of es))" "below lo hi"
    "p \<notin> set (over_kids page_ids ((lo, f) # es))" "p \<noteq> INVALID_PAGE_ID"
    using f by (simp_all add: forest_node)
  have r: "forest N1 False after hi ?K"
    "first_page (over_kids leaves ?K) after = first_page (over_kids leaves ((lo, f) # es)) after"
    "\<forall>q \<in> set (over_kids page_ids ?K) - set (over_kids page_ids ((lo, f) # es)). N q = None"
    "\<forall>q. q \<notin> set (over_kids page_ids ?K) \<union> set (over_kids page_ids ((lo, f) # es)) \<longrightarrow> N1 q = N q"
    using g unfolding regrown_def by blast+
  show p: "p \<notin> set (over_kids page_ids ?K)" using r(3) n(1,3) by (metis DiffI option.distinct(1))
  have "forest N2 False after hi ?K"
    using r(1) by (subst forest_cong[where N = N1]) (use p in \<open>auto simp: N2\<close>)
  then have "forest N2 root after hi [(lo, TNode p f' es')]"
    using p n(2,4) by (simp only: forest_node) (simp add: N2)
  then show "regrown N N2 root after hi [(lo, TNode p f es)] [(lo, TNode p f' es')]"
    using r(2-4) by (auto simp: regrown_def N2)
qed

lemma node_split_regrown:
  assumes f: "forest N root after hi [(lo, TNode p f es)]"
    and g: "regrown N N1 False after hi ((lo, f) # es) ((lo, f') # L @ (k', tm) # L')"
    and old: "set (over_kids page_ids ((lo, f) # es)) \<subseteq> set (over_kids page_ids ((lo, f') # L @ (k', tm) # L'))"
    and q: "N1 q = None" "q \<noteq> INVALID_PAGE_ID"
    and N2: "N2 = N1(p \<mapsto> InternalNode root (page_of f') (entries_of L),
      q \<mapsto> InternalNode False (page_of tm) (entries_of L'))"
  shows "regrown N N2 root after hi [(lo, TNode p f es)] [(lo, TNode p f' L), (k', TNode q tm L')]"
proof -
  let ?K = "(lo, f') # L @ (k', tm) # L'"
  have n: "N p = Some (InternalNode root (page_of f) (entries_of es))" "below lo hi"
    "p \<notin> set (over_kids page_ids ((lo, f) # es))" "p \<noteq> INVALID_PAGE_ID"
    using f by (simp_all add: forest_node)
  have r: "forest N1 False after hi ?K"
    "first_page (over_kids leaves ?K) after = first_page (over_kids leaves ((lo, f) # es)) after"
    "\<forall>q \<in> set (over_kids page_ids ?K) - set (over_kids page_ids ((lo, f) # es)). N q = None"
    "\<forall>q. q \<notin> set (over_kids page_ids ?K) \<union> set (over_kids page_ids ((lo, f) # es)) \<longrightarrow> N1 q = N q"
    using g unfolding regrown_def by blast+
  have p: "p \<notin> set (over_kids page_ids ?K)" using r(3) n(1,3) by (metis DiffI option.distinct(1))
  have qK: "q \<notin> set (over_kids page_ids ?K)" using forest_ids[OF r(1)] q(1) by blast
  have "q \<notin> set (over_kids page_ids ?K) \<union> set (over_kids page_ids ((lo, f) # es))" using qK old by blast
  with r(4) have "N1 q = N q" by blast
  with q(1) have Nq: "N q = None" by simp
  then have qp: "q \<noteq> p" using n(1) by auto
  have two: "forest N2 False after hi ?K"
    using r(1) by (subst forest_cong[where N = N1]) (use p qK in \<open>auto simp: N2\<close>)
  then have o: "ordered_kids hi ?K" by (simp add: forest_def)
  have keys: "lo < k'" "below k' hi"
    using ordered_kids_contents(2)[OF o] ordered_kids_contents(4)[OF o, of "(k', tm)"] by auto
  have "forest N2 root after hi [(lo, TNode p f' L), (k', TNode q tm L')]"
    using two p qK qp q(2) n(4) keys by (auto simp: forest_def stored_kids_False N2)
  moreover have new: "set (over_kids page_ids [(lo, TNode p f' L), (k', TNode q tm L')]) =
      {p, q} \<union> set (over_kids page_ids ?K)"
    and before: "set (over_kids page_ids [(lo, TNode p f es)]) = insert p (set (over_kids page_ids ((lo, f) # es)))"
    by auto
  moreover have "\<forall>x \<in> {p, q} \<union> set (over_kids page_ids ?K) - insert p (set (over_kids page_ids ((lo, f) # es))). N x = None"
    using r(3) Nq by blast
  moreover have "N2 x = N x" if "x \<notin> {p, q} \<union> set (over_kids page_ids ?K) \<union> insert p (set (over_kids page_ids ((lo, f) # es)))" for x
  proof -
    have "N2 x = N1 x" using that by (simp add: N2)
    also have "N1 x = N x" using that r(4) by blast
    finally show ?thesis .
  qed
  moreover have "first_page (over_kids leaves [(lo, TNode p f' L), (k', TNode q tm L')]) after =
      first_page (over_kids leaves [(lo, TNode p f es)]) after"
    using r(2) by simp
  ultimately show ?thesis
    unfolding regrown_def new before by simp
qed

section \<open>The separators of an internal page whose child has split\<close>

lemma insert_sorted_between:
  assumes "sorted_wrt (<) (map fst (xs @ (k, t) # (sep, q) # ys))"
  shows "insert_sorted sep q (xs @ (k, t) # ys) = xs @ (k, t) # (sep, q) # ys"
proof -
  have "insert_sorted sep q ((xs @ [(k, t)]) @ [] @ ys) = (xs @ [(k, t)]) @ insert_sorted sep q [] @ ys"
    by (rule insert_sorted_mid) (use assms in \<open>fastforce simp: sorted_wrt_append\<close>)+
  then show ?thesis by (simp add: insert_sorted_def)
qed

lemma insert_sorted_tail:
  assumes "fst e < key"
  shows "insert_sorted key v (e # es) = e # insert_sorted key v es"
  using assms by (simp add: insert_sorted_def)

lemma split_kid_entries:
  assumes kids: "(lo, f) # es = xs @ (k, t) # ys" and same: "page_of t1 = page_of t"
    and sorted: "sorted_wrt (<) (map fst (xs @ (k, t1) # (sep, t2) # ys))"
  obtains f' es' where "xs @ (k, t1) # (sep, t2) # ys = (lo, f') # es'" "page_of f' = page_of f"
    "entries_of es' = insert_sorted sep (page_of t2) (entries_of es)" "lo < sep"
    "sep \<notin> fst ` set (entries_of es)"
proof -
  obtain kid es' where K: "xs @ (k, t1) # (sep, t2) # ys = kid # es'" by (cases xs) auto
  with kids have lo: "fst kid = lo" "page_of (snd kid) = page_of f" using same by (cases xs; auto)+
  have "sorted_wrt (<) (map fst (entries_of xs @ (k, page_of t) # (sep, page_of t2) # entries_of ys))"
    using sorted by simp
  from insert_sorted_between[OF this] have
    all: "insert_sorted sep (page_of t2) (entries_of ((lo, f) # es)) = entries_of (kid # es')"
    unfolding kids K[symmetric] using same by simp
  have less: "lo < sep" and absent: "sep \<notin> fst ` set (entries_of es)"
  proof -
    show "lo < sep" using sorted kids by (cases xs) (auto simp: sorted_wrt_append)
    have "sep \<notin> fst ` set ((lo, f) # es)"
      unfolding kids using sorted by (fastforce simp: sorted_wrt_append)
    then show "sep \<notin> fst ` set (entries_of es)" by (force simp: entries_of_def)
  qed
  show ?thesis
  proof (rule that)
    show "xs @ (k, t1) # (sep, t2) # ys = (lo, snd kid) # es'" using K lo(1) by (metis prod.collapse)
    show "page_of (snd kid) = page_of f" by (rule lo(2))
    show "entries_of es' = insert_sorted sep (page_of t2) (entries_of es)"
      using all less by (simp add: insert_sorted_tail)
  qed (fact less absent)+
qed

lemma contents_grown:
  assumes "ordered_kids hi ((lo, f) # es)" "(lo, f) # es = xs @ (k, t) # ys" "k \<le> key"
    and "below key (next_key hi ys)" "over_kids contents kids = insert_sorted key v (contents t)"
  shows "over_kids contents (xs @ kids @ ys) = insert_sorted key v (contents (TNode p f es))"
proof -
  have o: "ordered_kids hi (xs @ (k, t) # ys)" using assms(1,2) by simp
  have "contents (TNode p f es) = over_kids contents ((lo, f) # es)" by simp
  also have "\<dots> = over_kids contents xs @ contents t @ over_kids contents ys"
    unfolding assms(2) by simp
  finally show ?thesis
    using insert_sorted_mid[of "over_kids contents xs" key "over_kids contents ys" v "contents t",
        OF other_kids_keys[OF o assms(3,4)]] assms(5) by simp
qed

section \<open>The step from a child to its page\<close>

lemma kid_page_in_ids: "e \<in> set (entries_of kids) \<Longrightarrow> snd e \<in> set (over_kids page_ids kids)"
  by (auto simp: entries_of_def intro!: bexI)

lemma node_child_grown:
  assumes f: "forest N root after hi [(lo, TNode p f es)]" and c: "(lo, f) # es = xs @ (k, t) # ys"
    and key: "k \<le> key" "below key (next_key hi ys)" and A: "set (page_ids (TNode p f es)) \<subseteq> A"
    and g: "regrown N N1 False (first_page (over_kids leaves ys) after) (next_key hi ys) [(k, t)] kids"
    and "over_kids contents kids = insert_sorted key v (contents t)"
    and ids: "set (over_kids page_ids kids) \<subseteq> A \<union> - dom m0" "set (page_ids t) \<subseteq> set (over_kids page_ids kids)"
    and K: "xs @ kids @ ys = (lo, f') # es'"
  shows "regrown N N1 False after hi ((lo, f) # es) ((lo, f') # es')"
    and "over_kids contents ((lo, f') # es') = insert_sorted key v (contents (TNode p f es))"
    and "set (over_kids page_ids ((lo, f') # es')) \<subseteq> A \<union> - dom m0"
    and "set (over_kids page_ids ((lo, f) # es)) \<subseteq> set (over_kids page_ids ((lo, f') # es'))"
    and "p \<notin> set (over_kids page_ids ((lo, f') # es'))"
    and "N1 p = Some (InternalNode root (page_of f) (entries_of es))"
proof -
  have n: "N p = Some (InternalNode root (page_of f) (entries_of es))"
    "forest N False after hi ((lo, f) # es)" "p \<notin> set (over_kids page_ids ((lo, f) # es))"
    using f unfolding forest_node by blast+
  have o: "ordered_kids hi ((lo, f) # es)" using n(2) by (simp only: forest_def)
  have split: "(lo, f) # es = xs @ [(k, t)] @ ys" using c by simp
  show r: "regrown N N1 False after hi ((lo, f) # es) ((lo, f') # es')"
    using graft[OF _ g, of xs] n(2) unfolding split K by blast
  show "over_kids contents ((lo, f') # es') = insert_sorted key v (contents (TNode p f es))"
    using contents_grown[OF o c key assms(7)] unfolding K .
  have u: "set (over_kids page_ids ((lo, f') # es')) =
      set (over_kids page_ids xs) \<union> set (over_kids page_ids kids) \<union> set (over_kids page_ids ys)"
    "set (over_kids page_ids ((lo, f) # es)) =
      set (over_kids page_ids xs) \<union> set (page_ids t) \<union> set (over_kids page_ids ys)"
    unfolding K[symmetric] c by auto
  have "set (over_kids page_ids ((lo, f) # es)) \<subseteq> A" using A by auto
  then show "set (over_kids page_ids ((lo, f') # es')) \<subseteq> A \<union> - dom m0"
    using ids(1) unfolding u by blast
  show "set (over_kids page_ids ((lo, f) # es)) \<subseteq> set (over_kids page_ids ((lo, f') # es'))"
    using ids(2) unfolding u by blast
  show p: "p \<notin> set (over_kids page_ids ((lo, f') # es'))" by (rule node_regrown(2)[OF f r refl])
  have "N1 p = N p"
    using r p n(3) unfolding regrown_def by blast
  with n(1) show "N1 p = Some (InternalNode root (page_of f) (entries_of es))" by simp
qed

lemma node_inserted:
  assumes f: "forest N root after hi [(lo, TNode p f es)]" and c: "(lo, f) # es = xs @ (k, t) # ys"
    and key: "k \<le> key" "below key (next_key hi ys)" and A: "set (page_ids (TNode p f es)) \<subseteq> A"
    and ins: "inserted bt N A m0 False (first_page (over_kids leaves ys) after) (next_key hi ys) k t key v None m"
  shows "inserted bt N A m0 root after hi lo (TNode p f es) key v None m"
proof -
  from ins obtain N1 t1 where i: "sees (bt_ks bt) (bt_vs bt) N1 A m0 m"
    "regrown N N1 False (first_page (over_kids leaves ys) after) (next_key hi ys) [(k, t)] [(k, t1)]"
    "over_kids contents [(k, t1)] = insert_sorted key v (contents t)"
    "set (over_kids page_ids [(k, t1)]) \<subseteq> A \<union> - dom m0" "set (page_ids t) \<subseteq> set (over_kids page_ids [(k, t1)])"
    "page_of t1 = page_of t" unfolding inserted_def by auto
  obtain f' es' where K: "xs @ [(k, t1)] @ ys = (lo, f') # es'" "page_of f' = page_of f"
    "entries_of es' = entries_of es"
    using c i(6) by (cases xs) auto
  note step = node_child_grown[OF f c key A i(2-5) K(1)]
  have "N1(p \<mapsto> InternalNode root (page_of f') (entries_of es')) = N1"
    using step(6) K(2,3) by auto
  from node_regrown(1)[OF f step(1) this[symmetric]]
  have "regrown N N1 root after hi [(lo, TNode p f es)] [(lo, TNode p f' es')]" .
  moreover have "over_kids contents [(lo, TNode p f' es')] = insert_sorted key v (contents (TNode p f es))"
    using step(2) by simp
  moreover have "set (over_kids page_ids [(lo, TNode p f' es')]) \<subseteq> A \<union> - dom m0"
    "set (page_ids (TNode p f es)) \<subseteq> set (over_kids page_ids [(lo, TNode p f' es')])"
    using step(3,4) A by auto
  ultimately show ?thesis
    unfolding inserted_def using i(1) by (intro exI[of _ N1] exI[of _ "[(lo, TNode p f' es')]"]) simp
qed

lemma node_child_split:
  assumes f: "forest N root after hi [(lo, TNode p f es)]" and c: "(lo, f) # es = xs @ (k, t) # ys"
    and key: "k \<le> key" "below key (next_key hi ys)" and A: "set (page_ids (TNode p f es)) \<subseteq> A"
    and ins: "inserted bt N A m0 False (first_page (over_kids leaves ys) after) (next_key hi ys) k t key v
      (Some (sep, q)) m"
  obtains N1 f' es' where "sees (bt_ks bt) (bt_vs bt) N1 A m0 m"
    "regrown N N1 False after hi ((lo, f) # es) ((lo, f') # es')"
    "over_kids contents ((lo, f') # es') = insert_sorted key v (contents (TNode p f es))"
    "set (over_kids page_ids ((lo, f') # es')) \<subseteq> A \<union> - dom m0"
    "set (over_kids page_ids ((lo, f) # es)) \<subseteq> set (over_kids page_ids ((lo, f') # es'))"
    "p \<notin> set (over_kids page_ids ((lo, f') # es'))"
    "N1 p = Some (InternalNode root (page_of f) (entries_of es))"
    "page_of f' = page_of f" "entries_of es' = insert_sorted sep q (entries_of es)"
    "sep \<notin> fst ` set (entries_of es)" "length sep = bt_ks bt"
proof -
  from ins obtain N1 t1 t2 where i: "sees (bt_ks bt) (bt_vs bt) N1 A m0 m"
    "regrown N N1 False (first_page (over_kids leaves ys) after) (next_key hi ys) [(k, t)] [(k, t1), (sep, t2)]"
    "over_kids contents [(k, t1), (sep, t2)] = insert_sorted key v (contents t)"
    "set (over_kids page_ids [(k, t1), (sep, t2)]) \<subseteq> A \<union> - dom m0"
    "set (page_ids t) \<subseteq> set (over_kids page_ids [(k, t1), (sep, t2)])"
    "page_of t1 = page_of t" "page_of t2 = q" "length sep = bt_ks bt" unfolding inserted_def by auto
  have n: "forest N False after hi (xs @ [(k, t)] @ ys)"
    using f unfolding forest_node c by simp
  have "forest N1 False after hi (xs @ [(k, t1), (sep, t2)] @ ys)"
    using graft[OF n i(2)] unfolding regrown_def by blast
  then have "sorted_wrt (<) (map fst (xs @ (k, t1) # (sep, t2) # ys))"
    using ordered_kids_contents(2)[of hi "xs @ [(k, t1), (sep, t2)] @ ys"] by (simp add: forest_def)
  from split_kid_entries[OF c i(6) this] obtain f' es' where K:
    "xs @ (k, t1) # (sep, t2) # ys = (lo, f') # es'" "page_of f' = page_of f"
    "entries_of es' = insert_sorted sep (page_of t2) (entries_of es)" "sep \<notin> fst ` set (entries_of es)"
    by blast
  have K1: "xs @ [(k, t1), (sep, t2)] @ ys = (lo, f') # es'" using K(1) by simp
  note step = node_child_grown[OF f c key A i(2-5) K1]
  show ?thesis
    by (rule that[OF i(1) step]) (use K i(7,8) in simp_all)
qed

section \<open>The recursion\<close>

definition node_kind :: "node \<Rightarrow> btree_page_kind" where
  "node_kind n = (case n of LeafNode r es nx \<Rightarrow> Leaf | InternalNode r c el \<Rightarrow> Internal)"

lemma node_kind_simps [simp]:
  "node_kind (LeafNode r es nx) = Leaf" "node_kind (InternalNode r c el) = Internal"
  by (simp_all add: node_kind_def)

lemma page_kind_node:
  "node_of ks vs d = Some n \<Longrightarrow>
     \<exists>x. bind_result (page_open d) (\<lambda>v. Inr (page_kind v)) = Inr x \<and> x = node_kind n"
  using leaf_view[of ks vs d] internal_view[of ks vs d] by (cases n) auto

context win32_files
begin

lemma page_kind_triple:
  assumes "\<And>m. P m \<Longrightarrow> nodes ks vs m p = Some n" "length held < 8" "\<And>m. P m \<Longrightarrow> E m"
  shows "page_triple content txns db held P (page_kind_of os p) (\<lambda>x m. x = node_kind n \<and> P m) E"
  unfolding page_kind_of_def
  by (rule triple_page_read[where n = n and ks = ks and vs = vs, OF _ page_kind_node])
    (use assms in auto)

lemma child_for_key_triple:
  assumes "\<And>m. P m \<Longrightarrow> nodes ks vs m p = Some (InternalNode r c es)" "sorted (map fst es)" "length key = ks"
    and "length held < 8" "\<And>m. P m \<Longrightarrow> E m"
  shows "page_triple content txns db held P (child_for_key os p key)
    (\<lambda>x m. x = child_at c es (upper_position key es) \<and> P m) E"
  unfolding child_for_key_def
proof (rule triple_page_read[where n = "InternalNode r c es" and ks = ks and vs = vs])
  fix d assume d: "node_of ks vs d = Some (InternalNode r c es)"
  show "\<exists>x. bind_result (internal_open d) (\<lambda>v. internal_child_page_id_for_key v key) = Inr x \<and>
      x = child_at c es (upper_position key es)"
    using internal_view[OF d] internal_child_for_key[OF d assms(2,3)] by simp
qed (use assms in auto)

lemma add_child_split_inserted:
  assumes f: "forest N root after hi [(lo, TNode p f es)]" and c: "(lo, f) # es = xs @ (k, t) # ys"
    and key: "k \<le> key" "below key (next_key hi ys)" and A: "set (page_ids (TNode p f es)) \<subseteq> A"
    and "btree_layout bt"
  shows "page_triple content txns db []
    (inserted bt N A m0 False (first_page (over_kids leaves ys) after) (next_key hi ys) k t key v (Some (sep, q)))
    (add_child_split os bt p (sep, q)) (inserted bt N A m0 root after hi lo (TNode p f es) key v) (\<lambda>_. True)"
proof (rule triple_pure)
  fix m1 assume "inserted bt N A m0 False (first_page (over_kids leaves ys) after) (next_key hi ys) k t key v
    (Some (sep, q)) m1"
  from node_child_split[OF f c key A this] obtain N1 f' es' where
    sees: "sees (bt_ks bt) (bt_vs bt) N1 A m0 m1" and
    r: "regrown N N1 False after hi ((lo, f) # es) ((lo, f') # es')" and
    contents: "over_kids contents ((lo, f') # es') = insert_sorted key v (contents (TNode p f es))" and
    ids: "set (over_kids page_ids ((lo, f') # es')) \<subseteq> A \<union> - dom m0"
      "set (over_kids page_ids ((lo, f) # es)) \<subseteq> set (over_kids page_ids ((lo, f') # es'))"
      "p \<notin> set (over_kids page_ids ((lo, f') # es'))" and
    n: "N1 p = Some (InternalNode root (page_of f) (entries_of es))" and
    new: "page_of f' = page_of f" "entries_of es' = insert_sorted sep q (entries_of es)"
      "sep \<notin> fst ` set (entries_of es)" "length sep = bt_ks bt" by blast
  let ?S = "\<lambda>M. sees (bt_ks bt) (bt_vs bt) M A m0"
  have old: "ordered_kids hi ((lo, f) # es)" using f unfolding forest_node by (simp add: forest_def)
  have kids: "forest N1 False after hi ((lo, f') # es')" using r unfolding regrown_def by blast
  have p: "p \<in> A" using A by simp
  have child: "N1 (snd e) \<noteq> None \<and> (snd e \<in> A \<or> snd e \<notin> dom m0) \<and> snd e \<noteq> p"
    if "e \<in> insert (sep, q) (set (entries_of es))" for e
  proof -
    have "e \<in> set (entries_of es')" using that by (simp add: new(2) set_insert_sorted)
    then have "snd e \<in> set (over_kids page_ids ((lo, f') # es'))"
      using kid_page_in_ids[of e es'] by simp
    then show ?thesis using forest_ids[OF kids] ids by blast
  qed
  have sorted: "sorted_wrt (<) (map fst (entries_of es))"
    using ordered_kids_contents(2)[OF old] by simp
  note add = add_child_split_triple[where txns = txns and db = db and bt = bt,
    OF p n sorted new(3,4) assms(6) child]
  show "page_triple content txns db [] (\<lambda>m. m = m1) (add_child_split os bt p (sep, q))
    (inserted bt N A m0 root after hi lo (TNode p f es) key v) (\<lambda>_. True)"
  proof (rule triple_weaken[OF add])
    fix x m
    assume res: "case x of
        None \<Rightarrow> ?S (N1(p \<mapsto> InternalNode root (page_of f) (insert_sorted sep q (entries_of es)))) m
      | Some (k', q') \<Rightarrow> \<exists>l c' l'. insert_sorted sep q (entries_of es) = l @ (k', c') # l' \<and> length k' = bt_ks bt \<and>
          N1 q' = None \<and> q' \<notin> dom m0 \<and> q' \<noteq> INVALID_PAGE_ID \<and>
          ?S (N1(p \<mapsto> InternalNode root (page_of f) l, q' \<mapsto> InternalNode False c' l')) m"
    show "inserted bt N A m0 root after hi lo (TNode p f es) key v x m"
    proof (cases x)
      case None
      let ?N = "N1(p \<mapsto> InternalNode root (page_of f') (entries_of es'))"
      have "regrown N ?N root after hi [(lo, TNode p f es)] [(lo, TNode p f' es')]"
        by (rule node_regrown(1)[OF f r refl])
      moreover have "?S ?N m" using res None by (simp add: new)
      ultimately show ?thesis
        unfolding inserted_def None using contents ids p
        by (intro exI[of _ ?N] exI[of _ "[(lo, TNode p f' es')]"]) auto
    next
      case (Some split)
      obtain k' q' where split: "split = (k', q')" by (metis surj_pair)
      from res Some obtain l c' l' where l: "entries_of es' = l @ (k', c') # l'" "length k' = bt_ks bt"
        "N1 q' = None" "q' \<notin> dom m0" "q' \<noteq> INVALID_PAGE_ID"
        "?S (N1(p \<mapsto> InternalNode root (page_of f) l, q' \<mapsto> InternalNode False c' l')) m"
        by (auto simp: split new(2))
      from l(1) obtain L tm L' where L: "es' = L @ (k', tm) # L'" "l = entries_of L" "c' = page_of tm"
        "l' = entries_of L'"
        unfolding entries_of_def by (fastforce simp: map_eq_append_conv Cons_eq_map_conv)
      let ?N = "N1(p \<mapsto> InternalNode root (page_of f') (entries_of L), q' \<mapsto> InternalNode False (page_of tm) (entries_of L'))"
      let ?kids = "[(lo, TNode p f' L), (k', TNode q' tm L')]"
      have "regrown N ?N root after hi [(lo, TNode p f es)] ?kids"
        by (rule node_split_regrown[where ?N1.0 = N1]) (use f r ids(2) l(3,5) in \<open>simp_all only: L(1) not_False_eq_True\<close>)
      moreover have "?S ?N m" using l(6) by (simp add: new(1) L)
      ultimately show ?thesis
        unfolding inserted_def Some split using contents ids p l(2,4)
        by (intro exI[of _ ?N] exI[of _ ?kids]) (auto simp: L(1))
    qed
  qed (use sees in auto)
qed

lemma insert_subtree_run:
  assumes "length key = bt_ks bt" "length v = bt_vs bt" "btree_layout bt"
  assumes "forest N root after hi [(lo, t)]" "lo \<le> key" "below key hi" "key \<notin> fst ` set (contents t)"
    and "set (page_ids t) \<subseteq> A"
    and "page_id_is_valid after \<Longrightarrow> \<exists>r es n. N after = Some (LeafNode r es n)"
    and "after \<in> A \<or> after \<notin> dom m0" "after \<notin> set (page_ids t)"
  shows "run_triple content txns db [] (sees (bt_ks bt) (bt_vs bt) N A m0)
    (insert_into_subtree os bt key v (page_of t)) (inserted bt N A m0 root after hi lo t key v) (\<lambda>_. True)"
  using assms(4-)
proof (induction t arbitrary: root after lo hi rule: leaves.induct)
  case (1 p es nx)
  let ?S = "sees (bt_ks bt) (bt_vs bt) N A m0"
  have seen: "nodes (bt_ks bt) (bt_vs bt) m = N" if "?S m" for m using sees_start[OF that] .
  have n: "N p = Some (LeafNode root es nx)" "nx = after" "sorted_wrt (<) (map fst es)"
    using "1.prems"(1) by (auto simp: forest_def)
  have p: "p \<in> A" "nx \<noteq> p" "nx \<in> A \<or> nx \<notin> dom m0" using "1.prems"(5,7,8) n(2) by auto
  have kind: "page_triple content txns db [] ?S (page_kind_of os p) (\<lambda>x m. x = node_kind (LeafNode root es nx) \<and> ?S m)
      (\<lambda>_. True)"
    by (rule page_kind_triple[where ks = "bt_ks bt" and vs = "bt_vs bt"]) (simp_all add: seen n(1))
  have absent: "key \<notin> fst ` set es" using "1.prems"(4) by simp
  have leaf_after: "\<exists>r es n. N nx = Some (LeafNode r es n)" if "page_id_is_valid nx"
    using "1.prems"(6) that n(2) by simp
  note leaf = insert_into_leaf_triple[where N = N and A = A, OF p(1) n(1,3) absent assms(1-3) leaf_after p(3,2)]
  have step: "page_triple content txns db [] ?S (insert_into_leaf os bt p key v)
    (inserted bt N A m0 root after hi lo (TLeaf p es nx) key v) (\<lambda>_. True)"
    by (rule triple_weaken[OF leaf]) (use absent in \<open>auto intro: leaf_inserted[OF "1.prems"(1) p(1) "1.prems"(2,3)]\<close>)
  show ?case
    by (subst insert_into_subtree.simps[abs_def], unfold tree.sel, rule run_bind_pure[OF run_returns[OF kind]])
      (use run_returns[OF step] in simp)
next
  case (2 p f es)
  let ?S = "sees (bt_ks bt) (bt_vs bt) N A m0"
  have seen: "nodes (bt_ks bt) (bt_vs bt) m = N" if "?S m" for m using sees_start[OF that] .
  note forest = "2.prems"(1) and A = "2.prems"(5)
  have n: "N p = Some (InternalNode root (page_of f) (entries_of es))"
    and kids: "forest N False after hi ((lo, f) # es)"
    using forest unfolding forest_node by blast+
  then have o: "ordered_kids hi ((lo, f) # es)" by (simp only: forest_def)
  from child_for_key_split[OF o "2.prems"(2,3)] obtain xs k t ys where
    c: "(lo, f) # es = xs @ (k, t) # ys" "length xs = upper_position key es" "k \<le> key"
      "below key (next_key hi ys)" by blast
  let ?after = "first_page (over_kids leaves ys) after" and ?hi = "next_key hi ys"
  have "((lo, f) # es) ! upper_position key es = (k, t)" by (simp only: c(1) c(2)[symmetric] nth_append_length)
  then have child: "child_at (page_of f) (entries_of es) (upper_position key (entries_of es)) = page_of t"
    using child_at_kids[of "upper_position key es" es f lo] by simp
  have parts: "forest N False ?after ?hi [(k, t)]" "forest N False after hi ys"
    "set (page_ids t) \<inter> set (over_kids page_ids ys) = {}"
    using kids unfolding c(1) forest_append[of N after hi xs] forest_append[of N after hi "[(k, t)]" ys, simplified]
    by simp_all
  have t: "t = f \<or> t \<in> set (map snd es)" using c(1) by (cases xs) auto
  have ids: "set (over_kids page_ids ((lo, f) # es)) \<subseteq> A" using A by auto
  then have ids_t: "set (page_ids t) \<subseteq> A" and ids_ys: "set (over_kids page_ids ys) \<subseteq> A"
    unfolding c(1) by auto
  have "set (contents t) \<subseteq> set (contents (TNode p f es))" using t by auto
  then have absent: "key \<notin> fst ` set (contents t)" using "2.prems"(4) by auto
  have next_leaf: "(page_id_is_valid ?after \<longrightarrow> (\<exists>r el n. N ?after = Some (LeafNode r el n))) \<and>
    (?after \<in> A \<or> ?after \<notin> dom m0) \<and> ?after \<notin> set (page_ids t)"
  proof (cases ys)
    case Nil
    then show ?thesis using "2.prems"(6-8) t by auto
  next
    case (Cons kid ys')
    have first: "?after = fst (hd (leaves (snd kid)))" by (simp add: Cons first_page_leaves)
    have "fst (hd (leaves (snd kid))) \<in> set (over_kids page_ids ys)" using first_leaf_in_ids by (auto simp: Cons)
    moreover have "stores N False (snd kid)" using parts(2) by (auto simp: Cons forest_def stored_kids_False)
    ultimately show ?thesis
      unfolding first using first_leaf_stored[of N False "snd kid"] ids_ys parts(3) by blast
  qed
  have below: "run_triple content txns db [] ?S (insert_into_subtree os bt key v (page_of t))
      (inserted bt N A m0 False ?after ?hi k t key v) (\<lambda>_. True)"
    using t "2.IH" parts(1) c(3,4) absent ids_t next_leaf by blast
  have kind: "page_triple content txns db [] ?S (page_kind_of os p)
      (\<lambda>x m. x = node_kind (InternalNode root (page_of f) (entries_of es)) \<and> ?S m) (\<lambda>_. True)"
    by (rule page_kind_triple[where ks = "bt_ks bt" and vs = "bt_vs bt"]) (simp_all add: seen n)
  have "sorted (map fst (entries_of es))" using forest_sorted(2)[OF kids] by simp
  then have choose: "page_triple content txns db [] ?S (child_for_key os p key) (\<lambda>x m. x = page_of t \<and> ?S m) (\<lambda>_. True)"
    using child_for_key_triple[where r = root and c = "page_of f" and es = "entries_of es" and P = ?S and p = p
        and ks = "bt_ks bt" and vs = "bt_vs bt" and held = "[]" and E = "\<lambda>_. True" and key = key]
      assms(1) child by (simp add: seen n)
  show ?case
  proof (subst insert_into_subtree.simps[abs_def], unfold tree.sel, rule run_bind_pure[OF run_returns[OF kind]])
    fix x assume x: "x = node_kind (InternalNode root (page_of f) (entries_of es))"
    have "run_triple content txns db [] ?S
      (bind_run (returns (child_for_key os p key)) (\<lambda>child_page_id.
       bind_run (insert_into_subtree os bt key v child_page_id) (\<lambda>child_split.
         case child_split of None \<Rightarrow> returns (return_action None)
         | Some split \<Rightarrow> returns (add_child_split os bt p split))))
      (inserted bt N A m0 root after hi lo (TNode p f es) key v) (\<lambda>_. True)"
    proof (rule run_bind_pure[OF run_returns[OF choose]], simp only:, rule run_bind[OF below])
      fix r show "run_triple content txns db [] (inserted bt N A m0 False ?after ?hi k t key v r)
        (case r of None \<Rightarrow> returns (return_action None) | Some split \<Rightarrow> returns (add_child_split os bt p split))
        (inserted bt N A m0 root after hi lo (TNode p f es) key v) (\<lambda>_. True)"
      proof (cases r)
        case None
        then show ?thesis
          using node_inserted[OF forest c(1,3,4) A] by (auto intro!: run_returns triple_return)
      next
        case (Some split)
        then show ?thesis
          using run_returns[OF add_child_split_inserted[OF forest c(1,3,4) A assms(3)]]
          by (cases split) simp
      qed
    qed
    then show "run_triple content txns db [] ?S
      (case x of Internal \<Rightarrow> bind_run (returns (child_for_key os p key)) (\<lambda>child_page_id.
          bind_run (insert_into_subtree os bt key v child_page_id) (\<lambda>child_split.
            case child_split of None \<Rightarrow> returns (return_action None)
            | Some split \<Rightarrow> returns (add_child_split os bt p split)))
        | Leaf \<Rightarrow> returns (insert_into_leaf os bt p key v))
      (inserted bt N A m0 root after hi lo (TNode p f es) key v) (\<lambda>_. True)"
      by (simp add: x)
  qed
qed

end

section \<open>The root that splits\<close>

definition unroot :: "node \<Rightarrow> node" where
  "unroot n = (case n of LeafNode r es nx \<Rightarrow> LeafNode False es nx | InternalNode r c el \<Rightarrow> InternalNode False c el)"

definition node_children :: "node \<Rightarrow> page_id list" where
  "node_children n = (case n of LeafNode r es nx \<Rightarrow> [] | InternalNode r c el \<Rightarrow> c # map snd el)"

lemma node_simps [simp]:
  "unroot (LeafNode r es nx) = LeafNode False es nx" "unroot (InternalNode r c el) = InternalNode False c el"
  "node_children (LeafNode r es nx) = []" "node_children (InternalNode r c el) = c # map snd el"
  by (simp_all add: unroot_def node_children_def)

lemma page_open_node: "node_of ks vs d = Some n \<Longrightarrow> page_open d = Inr d \<and> page_kind d = node_kind n"
  using leaf_view[of ks vs d] internal_view[of ks vs d] by (cases n) auto

lemma unroot_view:
  assumes "node_of ks vs d = Some n"
  shows "node_of ks vs (page_set_parent_page_id p (page_set_root False d)) = Some (unroot n)"
proof (cases n)
  case (LeafNode r es nx)
  with assms have "node_of ks vs d = Some (LeafNode r es nx)" by simp
  from leaf_setters_view(1)[OF leaf_setters_view(4)[OF this]] show ?thesis by (simp add: LeafNode)
next
  case (InternalNode r c el)
  with assms have "node_of ks vs d = Some (InternalNode r c el)" by simp
  from internal_setters_view(1)[OF internal_setters_view(3)[OF this]] show ?thesis by (simp add: InternalNode)
qed

lemma child_ids_view:
  assumes "node_of ks vs d = Some (InternalNode r c el)"
  shows "collect [0..<page_key_count d] (\<lambda>entry_index.
    bind_result (internal_right_child_page_id_at d entry_index) (\<lambda>child_page_id. Inr [child_page_id])) = Inr (map snd el)"
proof -
  have "collect [0..<page_key_count d] (\<lambda>entry_index.
    bind_result (internal_right_child_page_id_at d entry_index) (\<lambda>child_page_id. Inr [child_page_id])) =
    Inr (concat (map (\<lambda>i. [snd (el ! i)]) [0..<length el]))"
    unfolding internal_view(5)[OF assms] by (subst collect_Inr[where g = "\<lambda>i. [snd (el ! i)]"])
      (simp_all add: internal_view_entries(2)[OF assms])
  also have "concat (map (\<lambda>i. [snd (el ! i)]) [0..<length el]) = map snd el"
    by (subst concat_map_singleton, rule nth_equalityI) simp_all
  finally show ?thesis .
qed

context win32_files
begin

lemma child_ids_triple:
  assumes "\<And>m. P m \<Longrightarrow> nodes ks vs m p = Some (InternalNode r c el)" "\<And>m. P m \<Longrightarrow> E m" "length held < 8"
  shows "page_triple content txns db held P (internal_child_page_ids os p) (\<lambda>x m. x = c # map snd el \<and> P m) E"
  unfolding internal_child_page_ids_def
proof (rule triple_page_read[where n = "InternalNode r c el" and ks = ks and vs = vs])
  fix d assume d: "node_of ks vs d = Some (InternalNode r c el)"
  show "\<exists>x. bind_result (internal_open d) (\<lambda>internal_page.
      bind_result (collect [0..<page_key_count internal_page] (\<lambda>entry_index.
        bind_result (internal_right_child_page_id_at internal_page entry_index) (\<lambda>child_page_id. Inr [child_page_id])))
        (\<lambda>child_page_ids. Inr (page_first_child_page_id internal_page # child_page_ids))) = Inr x \<and> x = c # map snd el"
    using internal_view[OF d] child_ids_view[OF d] by simp
qed (use assms in auto)

lemma move_root_triple:
  assumes "N (bt_root_page_id bt) = Some n"
  shows "page_triple content txns db [] (sees (bt_ks bt) (bt_vs bt) N A m0) (move_root_to_left_child os bt)
    (\<lambda>x m. (\<exists>l. x = (node_kind n, node_children n, l) \<and> N l = None \<and> l \<notin> dom m0 \<and> l \<noteq> INVALID_PAGE_ID \<and>
      sees (bt_ks bt) (bt_vs bt) (N(l \<mapsto> unroot n)) A m0 m)) (\<lambda>_. True)"
    (is "page_triple _ _ _ _ ?P _ ?R _")
proof -
  let ?r = "bt_root_page_id bt" and ?ks = "bt_ks bt" and ?vs = "bt_vs bt"
  have seen: "nodes ?ks ?vs m ?r = Some n" if "?P m" for m using sees_start[OF that] assms by simp
  show ?thesis
    unfolding move_root_to_left_child_def Let_def
    apply (rule triple_with_page)
    subgoal for pin
    proof (rule triple_bind_pure[OF triple_read_node[where p = ?r and n = n and ks = ?ks and vs = ?vs
            and Q = "\<lambda>d. node_of ?ks ?vs d = Some n"]])
      fix d assume "node_of ?ks ?vs d = Some n"
      then have kind: "page_kind d = node_kind n" using page_open_node by blast
      have ids: "page_triple content txns db [(?r, pin)] ?P
        (if page_kind d = Internal then internal_child_page_ids os ?r else return_action [])
        (\<lambda>x m. x = node_children n \<and> ?P m) (\<lambda>_. True)"
      proof (cases n)
        case (LeafNode r es nx)
        then show ?thesis by (simp add: kind triple_return)
      next
        case (InternalNode r c el)
        then show ?thesis
          using child_ids_triple[of ?P ?ks ?vs ?r r c el "\<lambda>_. True" "[(?r, pin)]"] seen by (simp add: kind)
      qed
      show "page_triple content txns db [(?r, pin)] ?P
        (bind_action (if page_kind d = Internal then internal_child_page_ids os ?r else return_action [])
          (\<lambda>old_root_child_page_ids. with_mutable_page pager_new_page (\<lambda>left_child_page.
            bind_action (pin_page_id left_child_page) (\<lambda>left_child_page_id.
            bind_action (read_page pin (\<lambda>bytes. Inr bytes)) (\<lambda>old_root_bytes.
            bind_action (edit_page left_child_page (\<lambda>_. Inr old_root_bytes)) (\<lambda>_.
            bind_action (edit_page left_child_page (\<lambda>bytes. bind_result (page_open bytes) (\<lambda>left_child_page_view.
              Inr (page_set_parent_page_id ?r (page_set_root False left_child_page_view))))) (\<lambda>_.
            return_action (page_kind d, old_root_child_page_ids, left_child_page_id)))))))) ?R (\<lambda>_. True)"
      proof (rule triple_bind_pure[OF ids], simp only:, rule triple_new_node)
        fix l and lpin :: page_pin
        assume l: "pp_is_dirty lpin" "N l = None" "l \<notin> dom m0" "l \<noteq> INVALID_PAGE_ID"
        let ?held = "[(l, lpin), (?r, pin)]"
        let ?Q = "\<lambda>m. ?P m \<and> l \<in> dom m"
        have new: "(l, lpin) \<in> set ?held" and old: "(?r, pin) \<in> set ?held" by simp_all
        have id: "page_triple content txns db ?held ?Q (pin_page_id lpin) (\<lambda>x m. x = l \<and> ?Q m) (\<lambda>_. True)"
          by (rule triple_pin_page_id[OF new]) auto
        have get: "page_triple content txns db ?held ?Q (read_page pin (\<lambda>bytes. Inr bytes))
          (\<lambda>x m. node_of ?ks ?vs x = Some n \<and> ?Q m) (\<lambda>_. True)"
          by (rule triple_read_node[OF old seen]) auto
        have put: "page_triple content txns db ?held ?Q (edit_page lpin (\<lambda>_. Inr x))
          (\<lambda>_. sees ?ks ?vs (N(l \<mapsto> n)) A m0) (\<lambda>_. True)" if "node_of ?ks ?vs x = Some n" for x
          by (rule triple_edit_raw[OF new l(1)]) (use that l(3) in auto)
        have clear: "page_triple content txns db ?held (sees ?ks ?vs (N(l \<mapsto> n)) A m0)
          (edit_page lpin (\<lambda>bytes. bind_result (page_open bytes) (\<lambda>left_child_page_view.
              Inr (page_set_parent_page_id ?r (page_set_root False left_child_page_view)))))
          (\<lambda>_. sees ?ks ?vs (N(l \<mapsto> unroot n)) A m0) (\<lambda>_. True)"
          by (rule triple_edit_to[where n = n and n' = "unroot n", OF new l(1)])
            (use l(3) page_open_node unroot_view in fastforce)+
        show "page_triple content txns db ?held ?Q
          (bind_action (pin_page_id lpin) (\<lambda>left_child_page_id.
            bind_action (read_page pin (\<lambda>bytes. Inr bytes)) (\<lambda>old_root_bytes.
            bind_action (edit_page lpin (\<lambda>_. Inr old_root_bytes)) (\<lambda>_.
            bind_action (edit_page lpin (\<lambda>bytes. bind_result (page_open bytes) (\<lambda>left_child_page_view.
              Inr (page_set_parent_page_id ?r (page_set_root False left_child_page_view))))) (\<lambda>_.
            return_action (page_kind d, node_children n, left_child_page_id)))))) ?R (\<lambda>_. True)"
          by (rule triple_bind_pure[OF id], simp only:, rule triple_bind_pure[OF get],
              rule triple_bind[OF put], assumption, rule triple_bind[OF clear], rule triple_return)
            (use l kind in auto)
      qed (use assms in auto)
    qed (use seen page_open_node in auto)
    by simp_all
qed

lemma make_new_root_triple:
  assumes "N (bt_root_page_id bt) \<noteq> None" "bt_root_page_id bt \<in> A" "btree_layout bt" "length sep = bt_ks bt"
  shows "page_triple content txns db [] (sees (bt_ks bt) (bt_vs bt) N A m0) (make_new_root os bt l (sep, q))
    (\<lambda>_. sees (bt_ks bt) (bt_vs bt) (N(bt_root_page_id bt \<mapsto> InternalNode True l [(sep, q)])) A m0) (\<lambda>_. True)"
proof -
  let ?r = "bt_root_page_id bt" and ?ks = "bt_ks bt" and ?vs = "bt_vs bt"
  let ?S = "\<lambda>n. sees ?ks ?vs (N(?r \<mapsto> n)) A m0"
  have layout: "bt_key_size bt \<noteq> 0" "bt_value_size bt \<noteq> 0" "2 \<le> internal_capacity_of ?ks"
    using assms(3) by (simp_all add: btree_layout_def)
  show ?thesis
    unfolding make_new_root_def
  proof (rule triple_with_mutable)
    fix pin :: page_pin assume dirty: "pp_is_dirty pin"
    have pin: "(?r, pin) \<in> set [(?r, pin)]" and A: "?r \<in> A \<or> ?r \<notin> dom m0" using assms(2) by simp_all
    have init: "page_triple content txns db [(?r, pin)] (sees ?ks ?vs N A m0)
        (edit_page pin (\<lambda>bytes. initialize_internal bytes (bt_key_size bt) (bt_value_size bt)))
        (\<lambda>_. ?S (InternalNode False INVALID_PAGE_ID [])) (\<lambda>_. True)"
    proof (rule triple_weaken[OF triple_edit_raw[OF pin dirty A]])
      show "sees ?ks ?vs N A m0 m \<and> ?r \<in> dom m" if s: "sees ?ks ?vs N A m0 m" for m
      proof -
        obtain n where "N ?r = Some n" using assms(1) by blast
        from sees_Some[OF s this] show ?thesis using s by blast
      qed
    qed (use initialize_internal_view[OF _ layout] in auto)
    have set: "page_triple content txns db [(?r, pin)] (?S (InternalNode False INVALID_PAGE_ID []))
        (edit_page pin (\<lambda>bytes. bind_result (internal_open bytes) (\<lambda>root_page_view.
          Inr (page_set_first_child_page_id l (page_set_parent_page_id INVALID_PAGE_ID
            (page_set_root True root_page_view))))))
        (\<lambda>_. ?S (InternalNode True l [])) (\<lambda>_. True)"
    proof (rule triple_edit_to[where n = "InternalNode False INVALID_PAGE_ID []" and n' = "InternalNode True l []", OF pin dirty])
      fix d assume d: "node_of ?ks ?vs d = Some (InternalNode False INVALID_PAGE_ID [])"
      note chain = internal_setters_view(2)[OF internal_setters_view(1)[OF internal_setters_view(3)[OF d]]]
      show "\<exists>d'. bind_result (internal_open d) (\<lambda>root_page_view.
          Inr (page_set_first_child_page_id l (page_set_parent_page_id INVALID_PAGE_ID
            (page_set_root True root_page_view)))) = Inr d' \<and> node_of ?ks ?vs d' = Some (InternalNode True l [])"
        using chain internal_view(3)[OF d] by simp
    qed (use A in auto)
    have entry: "page_triple content txns db [(?r, pin)] (?S (InternalNode True l []))
        (edit_page pin (internal_insert_entry 0 sep q)) (\<lambda>_. ?S (InternalNode True l [(sep, q)])) (\<lambda>_. True)"
    proof (rule triple_edit_to[where n = "InternalNode True l []" and n' = "InternalNode True l [(sep, q)]", OF pin dirty])
      fix d assume d: "node_of ?ks ?vs d = Some (InternalNode True l [])"
      show "\<exists>d'. internal_insert_entry 0 sep q d = Inr d' \<and> node_of ?ks ?vs d' = Some (InternalNode True l [(sep, q)])"
        using internal_insert_view[OF d assms(4), of 0 q] layout(3) by simp
    qed (use A in auto)
    show "page_triple content txns db [(?r, pin)] (sees ?ks ?vs N A m0)
      (bind_action (edit_page pin (\<lambda>bytes. initialize_internal bytes (bt_key_size bt) (bt_value_size bt))) (\<lambda>_.
       bind_action (edit_page pin (\<lambda>bytes. bind_result (internal_open bytes) (\<lambda>root_page_view.
          Inr (page_set_first_child_page_id l (page_set_parent_page_id INVALID_PAGE_ID
            (page_set_root True root_page_view)))))) (\<lambda>_.
       edit_page pin (internal_insert_entry 0 (fst (sep, q)) (snd (sep, q))))))
      (\<lambda>_. ?S (InternalNode True l [(sep, q)])) (\<lambda>_. True)"
      unfolding fst_conv snd_conv by (rule triple_bind[OF init triple_bind[OF set entry]])
  qed simp_all
qed

lemma attach_right_triple:
  assumes "N q = Some n" "q \<in> A \<or> q \<notin> dom m0"
  shows "page_triple content txns db [] (sees (bt_ks bt) (bt_vs bt) N A m0) (attach_right_child os bt kind l q)
    (\<lambda>_. sees (bt_ks bt) (bt_vs bt) (N(q \<mapsto> unroot n)) A m0) (\<lambda>_. True)"
proof -
  let ?ks = "bt_ks bt" and ?vs = "bt_vs bt" and ?S = "\<lambda>n. sees (bt_ks bt) (bt_vs bt) (N(q \<mapsto> n)) A m0"
  show ?thesis
    unfolding attach_right_child_def
  proof (rule triple_with_mutable)
    fix pin :: page_pin assume dirty: "pp_is_dirty pin"
    have pin: "(q, pin) \<in> set [(q, pin)]" by simp
    have clear: "page_triple content txns db [(q, pin)] (sees ?ks ?vs N A m0)
        (edit_page pin (\<lambda>bytes. bind_result (page_open bytes) (\<lambda>right_child_page_view.
         Inr (page_set_parent_page_id (bt_root_page_id bt) (page_set_root False right_child_page_view)))))
        (\<lambda>_. ?S (unroot n)) (\<lambda>_. True)"
      by (rule triple_edit_to[where n = n and n' = "unroot n", OF pin dirty])
        (use assms page_open_node unroot_view in fastforce)+
    have previous: "page_triple content txns db [(q, pin)] (?S (unroot n))
        (if kind = Leaf then edit_page pin (\<lambda>bytes. bind_result (leaf_open bytes) (\<lambda>right_child_leaf_page_view.
           Inr (page_set_previous_leaf_page_id l right_child_leaf_page_view))) else return_action ())
        (\<lambda>_. ?S (unroot n)) (\<lambda>_. True)"
    proof (cases n)
      case (LeafNode r es nx)
      have "page_triple content txns db [(q, pin)] (?S (unroot n))
        (edit_page pin (\<lambda>bytes. bind_result (leaf_open bytes) (\<lambda>right_child_leaf_page_view.
           Inr (page_set_previous_leaf_page_id l right_child_leaf_page_view))))
        (\<lambda>_. ?S (unroot n)) (\<lambda>_. True)"
      proof (rule triple_edit_to[where n = "unroot n" and n' = "unroot n", OF pin dirty _ assms(2)])
        fix d assume "node_of ?ks ?vs d = Some (unroot n)"
        then show "\<exists>d'. bind_result (leaf_open d) (\<lambda>v. Inr (page_set_previous_leaf_page_id l v)) = Inr d' \<and>
            node_of ?ks ?vs d' = Some (unroot n)"
          unfolding LeafNode node_simps by (rule set_previous_of_next_node)
      qed auto
      then show ?thesis by (simp add: triple_return)
    next
      case (InternalNode r c el)
      have "page_triple content txns db [(q, pin)] (?S (unroot n))
        (edit_page pin (\<lambda>bytes. bind_result (leaf_open bytes) (\<lambda>right_child_leaf_page_view.
           Inr (page_set_previous_leaf_page_id l right_child_leaf_page_view))))
        (\<lambda>_. ?S (unroot n)) (\<lambda>_. True)"
      proof (rule triple_edit[OF pin dirty])
        fix m assume s: "?S (unroot n) m"
        from sees_Some[OF s, of q] obtain d where d: "m q = Some d" "node_of ?ks ?vs d = Some (InternalNode False c el)"
          by (auto simp: InternalNode)
        from internal_view[OF d(2)] obtain e where "leaf_open d = Inl e" by (simp add: leaf_open_def)
        with d(1) show "\<exists>d. m q = Some d \<and> (length d = PAGE_SIZE \<longrightarrow>
            (case bind_result (leaf_open d) (\<lambda>v. Inr (page_set_previous_leaf_page_id l v)) of Inl e \<Rightarrow> True
             | Inr d' \<Rightarrow> length d' = PAGE_SIZE \<and> ?S (unroot n) (m(q \<mapsto> d'))))"
          by auto
      qed
      then show ?thesis by (simp add: triple_return)
    qed
    show "page_triple content txns db [(q, pin)] (sees ?ks ?vs N A m0)
      (bind_action (edit_page pin (\<lambda>bytes. bind_result (page_open bytes) (\<lambda>right_child_page_view.
         Inr (page_set_parent_page_id (bt_root_page_id bt) (page_set_root False right_child_page_view))))) (\<lambda>_.
       if kind = Leaf then edit_page pin (\<lambda>bytes. bind_result (leaf_open bytes) (\<lambda>right_child_leaf_page_view.
           Inr (page_set_previous_leaf_page_id l right_child_leaf_page_view))) else return_action ()))
      (\<lambda>_. ?S (unroot n)) (\<lambda>_. True)"
      by (rule triple_bind[OF clear previous])
  qed simp_all
qed

lemma split_root_triple:
  assumes n: "N (bt_root_page_id bt) = Some n1" "N q = Some n2" "q \<noteq> bt_root_page_id bt"
    and A: "bt_root_page_id bt \<in> A" "q \<in> A \<or> q \<notin> dom m0"
    and kids: "\<And>c. c \<in> set (node_children n1) \<Longrightarrow> N c \<noteq> None \<and> (c \<in> A \<or> c \<notin> dom m0)"
    and "btree_layout bt" "length sep = bt_ks bt"
  shows "page_triple content txns db [] (sees (bt_ks bt) (bt_vs bt) N A m0) (split_root os bt (sep, q))
    (\<lambda>_ m. \<exists>l. N l = None \<and> l \<notin> dom m0 \<and> l \<noteq> INVALID_PAGE_ID \<and>
      sees (bt_ks bt) (bt_vs bt) (N(l \<mapsto> unroot n1, bt_root_page_id bt \<mapsto> InternalNode True l [(sep, q)],
        q \<mapsto> unroot n2)) A m0 m) (\<lambda>_. True)"
    (is "page_triple _ _ _ _ _ _ ?R _")
proof -
  let ?r = "bt_root_page_id bt" and ?ks = "bt_ks bt" and ?vs = "bt_vs bt"
  let ?S = "\<lambda>M. sees ?ks ?vs M A m0"
  show ?thesis
    unfolding split_root_def
  proof (rule triple_bind[OF move_root_triple[where N = N and n = n1]], rule n(1), rule triple_pure)
    fix x m1
    assume "\<exists>l. x = (node_kind n1, node_children n1, l) \<and> N l = None \<and> l \<notin> dom m0 \<and> l \<noteq> INVALID_PAGE_ID \<and>
      ?S (N(l \<mapsto> unroot n1)) m1"
    then obtain l where x: "x = (node_kind n1, node_children n1, l)" and l: "N l = None" "l \<notin> dom m0"
      "l \<noteq> INVALID_PAGE_ID" and m1: "?S (N(l \<mapsto> unroot n1)) m1" by blast
    let ?N1 = "N(l \<mapsto> unroot n1)"
    let ?N2 = "?N1(?r \<mapsto> InternalNode True l [(sep, q)])"
    have lq: "l \<noteq> q" "l \<noteq> ?r" using l(1) n(1,2) by auto
    have parents: "page_triple content txns db [] (?S ?N1)
        (if node_kind n1 = Internal then set_children_parent_page_id os (node_children n1) l else return_action ())
        (\<lambda>_. ?S ?N1) (\<lambda>_. True)"
    proof (cases "node_kind n1 = Internal")
      case True
      have "page_triple content txns db [] (?S ?N1) (for_each (node_children n1) (update_parent_page_id os l))
          (\<lambda>_. ?S ?N1) (\<lambda>_. True)"
        using update_parents_triple[where g = "\<lambda>c. c" and xs = "node_children n1" and N = ?N1 and q = l] kids by auto
      then show ?thesis by (simp add: True set_children_parent_page_id_def)
    qed (simp add: triple_return)
    have root: "page_triple content txns db [] (?S ?N1) (make_new_root os bt l (sep, q)) (\<lambda>_. ?S ?N2) (\<lambda>_. True)"
      by (rule make_new_root_triple) (use n A assms(7,8) lq in auto)
    have right: "page_triple content txns db [] (?S ?N2) (attach_right_child os bt (node_kind n1) l q)
        (\<lambda>_. ?S (?N2(q \<mapsto> unroot n2))) (\<lambda>_. True)"
      by (rule attach_right_triple) (use n A lq in auto)
    show "page_triple content txns db [] (\<lambda>m. m = m1)
      (case x of (old_root_page_kind, old_root_child_page_ids, left_child_page_id) \<Rightarrow>
        bind_action (if old_root_page_kind = Internal
            then set_children_parent_page_id os old_root_child_page_ids left_child_page_id
            else return_action ()) (\<lambda>_.
        bind_action (make_new_root os bt left_child_page_id (sep, q)) (\<lambda>_.
        attach_right_child os bt old_root_page_kind left_child_page_id (snd (sep, q)))))
      ?R (\<lambda>_. True)"
      unfolding x prod.case snd_conv
    proof (rule triple_weaken[OF triple_bind[OF parents triple_bind[OF root right]]])
      show "?R y m" if "?S (?N2(q \<mapsto> unroot n2)) m" for y m using that l by blast
    qed (use m1 in auto)
  qed
qed

end

section \<open>The whole operation\<close>

fun relabel :: "page_id \<Rightarrow> tree \<Rightarrow> tree" where
  "relabel l (TLeaf p es nx) = TLeaf l es nx"
| "relabel l (TNode p f es) = TNode l f es"

lemma relabel_simps [simp]:
  "page_of (relabel l t) = l" "page_ids (relabel l t) = l # tl (page_ids t)" "contents (relabel l t) = contents t"
  "ordered lo hi (relabel l t) = ordered lo hi t" "linked (leaves (relabel l t)) after = linked (leaves t) after"
  by (cases t; simp)+

lemma page_ids_root: "page_ids t = page_of t # tl (page_ids t)"
  by (cases t) simp_all

lemma stores_relabel:
  assumes "stores N root t" "N (page_of t) = Some n" "N' l = Some (unroot n)"
    and "\<And>p. p \<in> set (tl (page_ids t)) \<Longrightarrow> N' p = N p"
  shows "stores N' False (relabel l t)"
proof (cases t)
  case (TLeaf p es nx)
  with assms show ?thesis by auto
next
  case (TNode p f es)
  have "stores N' False s = stores N False s" if "s = f \<or> s \<in> set (map snd es)" for s
    by (rule stored_frame) (use assms(4) that in \<open>auto simp: TNode\<close>)
  with assms TNode show ?thesis by auto
qed

lemma stores_False_unroot: "stores N False t \<Longrightarrow> N (page_of t) = Some n \<Longrightarrow> unroot n = n"
  by (cases t) auto

lemma root_split_forest:
  assumes kids: "forest N True INVALID_PAGE_ID None [([], t1), (sep, t2)]"
    and n: "N (page_of t1) = Some n1" and l: "N l = None" "l \<noteq> INVALID_PAGE_ID"
    and N': "N' = N(l \<mapsto> unroot n1, page_of t1 \<mapsto> InternalNode True l [(sep, page_of t2)])"
  shows "forest N' True INVALID_PAGE_ID None [([], TNode (page_of t1) (relabel l t1) [(sep, t2)])]"
proof -
  let ?r = "page_of t1"
  have ids: "distinct (page_ids t1 @ page_ids t2)" and valid: "INVALID_PAGE_ID \<notin> set (page_ids t1 @ page_ids t2)"
    and s: "stores N True t1" "stores N False t2"
    using kids by (simp_all add: forest_def)
  have r: "?r \<notin> set (tl (page_ids t1))" "?r \<notin> set (page_ids t2)"
    using ids by (subst (asm) page_ids_root, simp)+
  have fresh: "l \<notin> set (page_ids t1)" "l \<notin> set (page_ids t2)"
    using stored_ids[OF s(1), of l] stored_ids[OF s(2), of l] l(1) by auto
  have tail: "set (tl (page_ids t1)) \<subseteq> set (page_ids t1)" by (cases "page_ids t1") auto
  have lr: "l \<noteq> ?r" using fresh(1) by auto
  have "stores N' False (relabel l t1)"
    by (rule stores_relabel[OF s(1) n]) (use r fresh tail lr in \<open>auto simp: N'\<close>)
  moreover have "stores N' False t2 = stores N False t2"
    by (rule stored_frame) (use r fresh in \<open>auto simp: N'\<close>)
  ultimately have "forest N' False INVALID_PAGE_ID None [([], relabel l t1), (sep, t2)]"
    using kids ids valid s(2) l(2) fresh tail unfolding forest_def
    by (auto simp: distinct_tl dest: subsetD)
  moreover have "?r \<noteq> INVALID_PAGE_ID" using valid page_of_in_ids[of t1] by (metis UnCI set_append)
  moreover have "N' ?r = Some (InternalNode True (page_of (relabel l t1)) (entries_of [(sep, t2)]))"
    by (simp add: N')
  moreover have "?r \<notin> set (over_kids page_ids [([], relabel l t1), (sep, t2)])" using r lr by auto
  ultimately show ?thesis unfolding forest_node by simp
qed

text \<open>\<open>grown\<close>: the pages \<open>m\<close> store a tree with the new entry, and no page outside the old tree has changed.\<close>

definition grown :: "btree \<Rightarrow> page_store \<Rightarrow> tree \<Rightarrow> bytes \<Rightarrow> bytes \<Rightarrow> page_store \<Rightarrow> bool" where
  "grown bt m0 t key v m \<longleftrightarrow>
     (\<exists>t'. btree_stores bt m t' \<and> contents t' = insert_sorted key v (contents t) \<and>
       set (page_ids t') \<subseteq> set (page_ids t) \<union> - dom m0) \<and>
     dom m0 \<subseteq> dom m \<and> (\<forall>p \<in> dom m0 - set (page_ids t). m p = m0 p)"

context win32_files
begin

lemma run_valid_ids:
  assumes "INVALID_PAGE_ID \<notin> dom m0 \<Longrightarrow> run_triple content txns db held (\<lambda>m. m = m0) a R E"
  shows "run_triple content txns db held (\<lambda>m. m = m0) a R E"
proof -
  have "page_map db txns s INVALID_PAGE_ID = None" for s :: "'w pager \<times> 'w"
  proof -
    have "dh_page_count (pr_header (fst s)) \<le> - 1" by (rule word_order.extremum)
    also have "(- 1 :: u64) = INVALID_PAGE_ID" by (simp add: INVALID_PAGE_ID_def)
    finally show ?thesis by (simp add: page_map_def)
  qed
  then have "INVALID_PAGE_ID \<notin> dom m0" if "page_map db txns s = m0" for s :: "'w pager \<times> 'w"
    using that by (cases s) auto
  then show ?thesis using assms unfolding run_triple_def by blast
qed

lemma insert_run:
  assumes t: "btree_stores bt m0 t" and sizes: "length key = bt_ks bt" "length v = bt_vs bt"
    and layout: "btree_layout bt" and absent: "key \<notin> fst ` set (contents t)"
  shows "run_triple content txns db [] (\<lambda>m. m = m0) (btree_insert os bt key v)
    (\<lambda>_. grown bt m0 t key v) (\<lambda>_. True)"
proof -
  let ?ks = "bt_ks bt" and ?vs = "bt_vs bt" and ?r = "bt_root_page_id bt"
  let ?N = "nodes ?ks ?vs m0" and ?A = "set (page_ids t)"
  let ?S = "\<lambda>M. sees ?ks ?vs M ?A m0"
  have root: "page_of t = ?r" and forest: "forest ?N True INVALID_PAGE_ID None [([], t)]"
    using t by (simp_all add: btree_stores_def)
  have ids: "INVALID_PAGE_ID \<notin> set (page_ids t)" "?r \<in> ?A" using forest root page_of_in_ids[of t]
    by (simp_all add: forest_def)
  have "run_triple content txns db [] (?S ?N) (insert_into_subtree os bt key v ?r)
      (inserted bt ?N ?A m0 True INVALID_PAGE_ID None [] t key v) (\<lambda>_. True)"
    if "INVALID_PAGE_ID \<notin> dom m0"
    unfolding root[symmetric]
    by (rule insert_subtree_run[OF sizes layout forest _ _ absent])
      (use ids that in \<open>simp_all add: page_id_is_valid_def\<close>)
  then have sub: "run_triple content txns db [] (\<lambda>m. m = m0) (insert_into_subtree os bt key v ?r)
      (inserted bt ?N ?A m0 True INVALID_PAGE_ID None [] t key v) (\<lambda>_. True)"
    if "INVALID_PAGE_ID \<notin> dom m0"
    using that by (auto intro: run_weaken sees_refl)
  have last: "run_triple content txns db [] (inserted bt ?N ?A m0 True INVALID_PAGE_ID None [] t key v x)
      (case x of None \<Rightarrow> returns (return_action ()) | Some split \<Rightarrow> returns (split_root os bt split))
      (\<lambda>_. grown bt m0 t key v) (\<lambda>_. True)" for x
  proof (cases x)
    case None
    have "grown bt m0 t key v m" if "inserted bt ?N ?A m0 True INVALID_PAGE_ID None [] t key v None m" for m
    proof -
      from that obtain N' t' where i: "?S N' m" "regrown ?N N' True INVALID_PAGE_ID None [([], t)] [([], t')]"
        "contents t' = insert_sorted key v (contents t)" "set (page_ids t') \<subseteq> ?A \<union> - dom m0"
        "page_of t' = page_of t" unfolding inserted_def by auto
      have "nodes ?ks ?vs m = N'" using sees_start[OF i(1)] .
      then have "btree_stores bt m t'" using i(2,5) root by (simp add: btree_stores_def regrown_def)
      then show ?thesis using i by (auto simp: grown_def sees_def)
    qed
    then show ?thesis by (auto simp: None intro!: run_returns triple_return)
  next
    case (Some split)
    obtain sep q where split: "split = (sep, q)" by (metis surj_pair)
    have "page_triple content txns db [] (inserted bt ?N ?A m0 True INVALID_PAGE_ID None [] t key v (Some (sep, q)))
      (split_root os bt (sep, q)) (\<lambda>_. grown bt m0 t key v) (\<lambda>_. True)"
    proof (rule triple_pure)
      fix m1 assume "inserted bt ?N ?A m0 True INVALID_PAGE_ID None [] t key v (Some (sep, q)) m1"
      then obtain N' t1 t2 where i: "?S N' m1"
        "forest N' True INVALID_PAGE_ID None [([], t1), (sep, t2)]"
        "over_kids contents [([], t1), (sep, t2)] = insert_sorted key v (contents t)"
        "set (over_kids page_ids [([], t1), (sep, t2)]) \<subseteq> ?A \<union> - dom m0"
        "page_of t1 = ?r" "page_of t2 = q" "length sep = bt_ks bt"
        using root unfolding inserted_def regrown_def by auto
      have s: "stores N' True t1" "stores N' False t2" "?r \<notin> set (page_ids t2)"
        using i(2) page_of_in_ids[of t1] by (auto simp: forest_def i(5))
      obtain n1 n2 where n: "N' ?r = Some n1" "N' q = Some n2"
        using stored_ids[OF s(1) page_of_in_ids] stored_ids[OF s(2) page_of_in_ids] by (auto simp: i(5,6))
      have n2: "unroot n2 = n2" using stores_False_unroot[OF s(2)] n(2) i(6) by simp
      have qr: "q \<noteq> ?r" using s(3) page_of_in_ids[of t2] by (auto simp: i(6))
      have q: "q \<in> ?A \<or> q \<notin> dom m0" using i(4) page_of_in_ids[of t2] by (auto simp: i(6))
      have kids: "N' c \<noteq> None \<and> (c \<in> ?A \<or> c \<notin> dom m0)" if "c \<in> set (node_children n1)" for c
      proof -
        have "c \<in> set (page_ids t1)"
          using s(1) n(1) that i(5) page_of_in_ids by (cases t1) (force simp: entries_of_def)+
        with stored_ids[OF s(1)] i(4) show ?thesis by auto
      qed
      show "page_triple content txns db [] (\<lambda>m. m = m1) (split_root os bt (sep, q)) (\<lambda>_. grown bt m0 t key v) (\<lambda>_. True)"
      proof (rule triple_weaken[OF split_root_triple[OF n qr ids(2) q kids layout i(7)]])
        fix m assume "\<exists>l. N' l = None \<and> l \<notin> dom m0 \<and> l \<noteq> INVALID_PAGE_ID \<and>
          ?S (N'(l \<mapsto> unroot n1, ?r \<mapsto> InternalNode True l [(sep, q)], q \<mapsto> unroot n2)) m"
        then obtain l where l: "N' l = None" "l \<notin> dom m0" "l \<noteq> INVALID_PAGE_ID"
          "?S (N'(l \<mapsto> unroot n1, ?r \<mapsto> InternalNode True l [(sep, q)], q \<mapsto> unroot n2)) m" by blast
        let ?N2 = "N'(l \<mapsto> unroot n1, ?r \<mapsto> InternalNode True l [(sep, q)])"
        let ?t = "TNode ?r (relabel l t1) [(sep, t2)]"
        have same: "?N2(q \<mapsto> unroot n2) = ?N2" using n(2) l(1) qr unfolding n2 by (intro fun_upd_idem) auto
        have "forest ?N2 True INVALID_PAGE_ID None [([], ?t)]"
          using root_split_forest[OF i(2) _ l(1,3) refl] n(1) by (simp add: i(5,6))
        moreover have "nodes ?ks ?vs m = ?N2" using sees_start[OF l(4)] same by simp
        ultimately have "btree_stores bt m ?t" by (simp add: btree_stores_def)
        moreover have "contents ?t = insert_sorted key v (contents t)" using i(3) by simp
        moreover have "set (page_ids ?t) \<subseteq> ?A \<union> - dom m0"
        proof -
          have "set (tl (page_ids t1)) \<subseteq> set (page_ids t1)" by (cases "page_ids t1") auto
          then show ?thesis using i(4) l(2) ids(2) by auto
        qed
        ultimately show "grown bt m0 t key v m" using l(4) unfolding grown_def sees_def by blast
      qed (use i(1) in auto)
    qed
    then show ?thesis by (simp add: Some split run_returns)
  qed
  have "btree_insert os bt key v = bind_run (insert_into_subtree os bt key v ?r) (\<lambda>x.
      case x of None \<Rightarrow> returns (return_action ()) | Some split \<Rightarrow> returns (split_root os bt split))"
    by (simp add: btree_insert_def sizes)
  then show ?thesis
    by (simp only:) (rule run_valid_ids, rule run_bind[OF sub last])
qed

text \<open>A key that is there already: an error, and no page has changed.\<close>

lemma insert_duplicate_leaf:
  assumes "\<And>m. P m \<Longrightarrow> nodes ks vs m p = Some (LeafNode r es nx)" "sorted_wrt (<) (map fst es)"
    and "key \<in> fst ` set es" "length key = ks"
  shows "page_triple content txns db [] P (insert_into_leaf os bt p key v) (\<lambda>_ _. False) P"
  unfolding insert_into_leaf_def
proof (rule triple_bind)
  show "page_triple content txns db [] P
    (with_page (pager_get_page os p) (\<lambda>pin. read_page pin (leaf_insertion_point key))) (\<lambda>_ _. False) P"
  proof (rule triple_with_page)
    fix pin show "page_triple content txns db [(p, pin)] P (read_page pin (leaf_insertion_point key)) (\<lambda>_ _. False) P"
    proof (rule triple_read)
      fix m assume m: "P m"
      from assms(1)[OF m] obtain d where d: "m p = Some d" "node_of ks vs d = Some (LeafNode r es nx)"
        by (auto simp: nodes_Some)
      then show "\<exists>d. m p = Some d \<and> (case leaf_insertion_point key d of Inl e \<Rightarrow> P m | Inr x \<Rightarrow> False)"
        using insertion_point[OF d(2) assms(2,4)] assms(3) m by auto
    qed simp
  qed simp_all
qed (simp add: page_triple_def)

lemma insert_duplicate_run:
  assumes P: "\<And>m. P m \<Longrightarrow> nodes (bt_ks bt) (bt_vs bt) m = N" and "length key = bt_ks bt"
  assumes "forest N root after hi [(lo, t)]" "lo \<le> key" "below key hi" "key \<in> fst ` set (contents t)"
  shows "run_triple content txns db [] P (insert_into_subtree os bt key v (page_of t)) (\<lambda>_ _. False) P"
  using assms(3-)
proof (induction t arbitrary: root after lo hi rule: leaves.induct)
  case (1 p es nx)
  have n: "N p = Some (LeafNode root es nx)" "sorted_wrt (<) (map fst es)" using "1.prems"(1) by (auto simp: forest_def)
  have seen: "nodes (bt_ks bt) (bt_vs bt) m p = Some (LeafNode root es nx)" if "P m" for m using P[OF that] n(1) by simp
  have kind: "page_triple content txns db [] P (page_kind_of os p) (\<lambda>x m. x = node_kind (LeafNode root es nx) \<and> P m) P"
    by (rule page_kind_triple[where ks = "bt_ks bt" and vs = "bt_vs bt"]) (use seen in auto)
  have step: "page_triple content txns db [] P (insert_into_leaf os bt p key v) (\<lambda>_ _. False) P"
    by (rule insert_duplicate_leaf[OF seen n(2) _ assms(2)]) (use "1.prems"(4) in auto)
  show ?case
    by (subst insert_into_subtree.simps[abs_def], unfold tree.sel, rule run_bind_pure[OF run_returns[OF kind]])
      (use run_returns[OF step] in simp)
next
  case (2 p f es)
  have n: "N p = Some (InternalNode root (page_of f) (entries_of es))"
    and kids: "forest N False after hi ((lo, f) # es)"
    using "2.prems"(1) unfolding forest_node by blast+
  then have o: "ordered_kids hi ((lo, f) # es)" by (simp only: forest_def)
  from child_for_key_split[OF o "2.prems"(2,3)] obtain xs k t ys where
    c: "(lo, f) # es = xs @ (k, t) # ys" "length xs = upper_position key es" "k \<le> key"
      "below key (next_key hi ys)" by blast
  have "((lo, f) # es) ! upper_position key es = (k, t)" by (simp only: c(1) c(2)[symmetric] nth_append_length)
  then have child: "child_at (page_of f) (entries_of es) (upper_position key (entries_of es)) = page_of t"
    using child_at_kids[of "upper_position key es" es f lo] by simp
  have "forest N False (first_page (over_kids leaves ys) after) (next_key hi ys) [(k, t)]"
    using kids unfolding c(1) forest_append[of N after hi xs] forest_append[of N after hi "[(k, t)]" ys, simplified]
    by simp
  moreover have "t = f \<or> t \<in> set (map snd es)" using c(1) by (cases xs) auto
  moreover have "key \<in> fst ` set (contents t)"
  proof -
    have "over_kids contents ((lo, f) # es) = over_kids contents xs @ contents t @ over_kids contents ys"
      unfolding c(1) by simp
    then have "fst ` set (contents (TNode p f es)) =
        fst ` set (over_kids contents xs) \<union> fst ` set (contents t) \<union> fst ` set (over_kids contents ys)"
      by (simp add: image_Un[symmetric]) (metis (no_types) Un_assoc set_append)
    moreover have "key \<notin> fst ` set (over_kids contents xs)" "key \<notin> fst ` set (over_kids contents ys)"
      using other_kids_keys[OF o[unfolded c(1)] c(3,4)] by fastforce+
    ultimately show ?thesis using "2.prems"(4) by blast
  qed
  ultimately have below: "run_triple content txns db [] P (insert_into_subtree os bt key v (page_of t)) (\<lambda>_ _. False) P"
    using "2.IH" c(3,4) by blast
  have seen: "nodes (bt_ks bt) (bt_vs bt) m p = Some (InternalNode root (page_of f) (entries_of es))" if "P m" for m
    using P[OF that] n by simp
  have kind: "page_triple content txns db [] P (page_kind_of os p)
      (\<lambda>x m. x = node_kind (InternalNode root (page_of f) (entries_of es)) \<and> P m) P"
    by (rule page_kind_triple[where ks = "bt_ks bt" and vs = "bt_vs bt"]) (use seen in auto)
  have "sorted (map fst (entries_of es))" using forest_sorted(2)[OF kids] by simp
  then have choose: "page_triple content txns db [] P (child_for_key os p key) (\<lambda>x m. x = page_of t \<and> P m) P"
    using child_for_key_triple[where r = root and c = "page_of f" and es = "entries_of es" and P = P and p = p
        and ks = "bt_ks bt" and vs = "bt_vs bt" and held = "[]" and E = P and key = key]
      assms(2) child seen by simp
  have steps: "run_triple content txns db [] P
      (bind_run (returns (child_for_key os p key)) (\<lambda>child_page_id.
       bind_run (insert_into_subtree os bt key v child_page_id) (\<lambda>child_split.
         case child_split of None \<Rightarrow> returns (return_action None)
         | Some split \<Rightarrow> returns (add_child_split os bt p split))))
      (\<lambda>_ _. False) P"
    by (rule run_bind_pure[OF run_returns[OF choose]], simp only:, rule run_bind[OF below])
      (simp add: run_triple_def)
  show ?case
    by (subst insert_into_subtree.simps[abs_def], unfold tree.sel, rule run_bind_pure[OF run_returns[OF kind]])
      (use steps in simp)
qed

lemma insert_present_run:
  assumes "btree_stores bt m0 t" "length key = bt_ks bt" "length v = bt_vs bt" "key \<in> fst ` set (contents t)"
  shows "run_triple content txns db [] (\<lambda>m. m = m0) (btree_insert os bt key v) (\<lambda>_ _. False) (\<lambda>m. m = m0)"
proof -
  have "run_triple content txns db [] (\<lambda>m. m = m0) (insert_into_subtree os bt key v (bt_root_page_id bt))
      (\<lambda>_ _. False) (\<lambda>m. m = m0)"
    using insert_duplicate_run[where P = "\<lambda>m. m = m0" and bt = bt and N = "nodes (bt_ks bt) (bt_vs bt) m0" and key = key
        and lo = "[]" and t = t and v = v]
      assms by (auto simp: btree_stores_def)
  then show ?thesis
    using assms(2,3) by (simp add: btree_insert_def) (erule run_bind, simp add: run_triple_def)
qed

end

end
