(* ===== verification/BTreeProperties.thy ===== *)
theory BTreeProperties
  imports BTreeGrow
begin

text \<open>
  What the B+ tree promises to the catalog and the executor: the contract of an ordered index
  as a locale, which the tree satisfies on every system of files, and the properties of the
  operations on whole databases.
\<close>

section \<open>A small tree\<close>

text \<open>A database of two pages: the header and a tree with one leaf, which holds one entry.\<close>

definition tree_header :: database_header where
  "tree_header = (database_header_create_new 7)\<lparr>dh_page_count := 2\<rparr>"

definition small_leaf :: bytes where
  "small_leaf = stored [] (bind_result (initialize_leaf (replicate PAGE_SIZE 0) 1 1) (\<lambda>bytes.
     leaf_insert_entry 0 [5] [7] (page_set_root True bytes)))"

definition tree_db :: bytes where
  "tree_db = database_header_bytes tree_header @ small_leaf"

definition tree_files :: mem_files where
  "tree_files = \<lparr>mf_files = [''db'' \<mapsto> tree_db, wal_path ''db'' \<mapsto> log_bytes 7 []], mf_calls = 0\<rparr>"

definition tree_pager :: "mem_files pager" where
  "tree_pager = small_pager\<lparr>pr_header := tree_header, pr_committed_header := tree_header,
     pr_tx := tx_clear\<lparr>tx_status := Active, tx_id := 1\<rparr>\<rparr>"

definition small_bt :: btree where
  "small_bt = \<lparr>bt_root_page_id = 1, bt_key_size = 1, bt_value_size = 1\<rparr>"

abbreviation small_tree :: tree where
  "small_tree \<equiv> TLeaf 1 [([5], [7])] INVALID_PAGE_ID"

lemma small_leaf_node: "node_of 1 1 small_leaf = Some (LeafNode True [([5], [7])] INVALID_PAGE_ID)"
proof -
  have capacity: "1 \<le> leaf_capacity_of (unat (1 :: u16)) (unat (1 :: u16))" by (simp add: leaf_capacity_of_def numeral_2_eq_2[symmetric])
  obtain b where b: "initialize_leaf (replicate PAGE_SIZE 0) 1 1 = Inr b"
    "node_of 1 1 b = Some (LeafNode False [] INVALID_PAGE_ID)"
    using initialize_leaf_view[OF _ _ _ capacity, of "replicate PAGE_SIZE 0"] by auto
  from leaf_setters_view(4)[OF b(2), of True]
  have root: "node_of 1 1 (page_set_root True b) = Some (LeafNode True [] INVALID_PAGE_ID)" .
  obtain d where "leaf_insert_entry 0 [5] [7] (page_set_root True b) = Inr d"
    "node_of 1 1 d = Some (LeafNode True [([5], [7])] INVALID_PAGE_ID)"
    using leaf_insert_view[OF root, of "[5]" "[7]" 0] capacity by auto
  with b(1) show ?thesis by (simp add: small_leaf_def stored_def)
qed

lemma tree_header_valid [simp]: "database_header_valid tree_header"
  using database_header_create_new_valid[of 7]
  by (auto simp: tree_header_def database_header_valid_def root_page_id_is_valid_def database_header_create_new_def)

lemma tree_pager_ok: "pages_ok mf_files [] tree_db [] (tree_pager, tree_files)"
  and tree_pager_pages: "page_map tree_db [] (tree_pager, tree_files) = [1 \<mapsto> small_leaf]"
proof -
  have header: "dh_page_count tree_header = 2" by (simp add: tree_header_def)
  have lengths: "length (database_header_bytes tree_header) = PAGE_SIZE" "length small_leaf = PAGE_SIZE"
    using node_length[OF small_leaf_node] by simp_all
  have "database_header_decode (take PAGE_SIZE tree_db) = Inr tree_header"
    by (simp add: tree_db_def lengths database_header_roundtrip)
  then have files: "pager_files mf_files [] tree_db tree_pager tree_files"
    by (auto simp: pager_files_def tree_pager_def small_pager_def tree_files_def
      pager_new_def fh_ok_def recovered_ok_def header_view_def)
  have empty: "frames_of tree_pager p = None" for p
    using small_pager_ready(2)[of p] by (simp add: tree_pager_def frames_of_def)
  show "pages_ok mf_files [] tree_db [] (tree_pager, tree_files)"
    using files empty by (auto simp: pages_ok_def pool_pins_def tree_pager_def header pool_new_ok pool_new_abs frames_of_def)
  have "page_map tree_db [] (tree_pager, tree_files) p = ([1 \<mapsto> small_leaf]) p" for p
  proof (cases "p = 1")
    case True
    have "page_slot tree_db 1 = small_leaf" by (simp add: page_slot_def tree_db_def lengths)
    moreover have "\<not> (2 :: page_id) \<le> 1" by (simp add: word_le_nat_alt)
    ultimately show ?thesis
      using True empty[of 1] by (simp add: page_map_def tree_pager_def header HEADER_PAGE_ID_def page_view_def)
  next
    case False
    have "unat p \<noteq> unat (1 :: page_id)" using False by (simp only: word_unat_eq_iff[symmetric] not_False_eq_True)
    then have "p = 0 \<or> 2 \<le> p" by (simp add: word_le_nat_alt word_unat_eq_iff) linarith
    then show ?thesis using False by (auto simp: page_map_def tree_pager_def header HEADER_PAGE_ID_def)
  qed
  then show "page_map tree_db [] (tree_pager, tree_files) = [1 \<mapsto> small_leaf]" by blast
qed

lemma small_tree_stored: "btree_stores small_bt [1 \<mapsto> small_leaf] small_tree"
proof -
  have "nodes 1 1 [1 \<mapsto> small_leaf] 1 = Some (LeafNode True [([5], [7])] INVALID_PAGE_ID)"
    by (simp only: nodes_def fun_upd_same bind.bind_lunit small_leaf_node)
  then show ?thesis by (simp add: btree_stores_def small_bt_def forest_def) (simp add: INVALID_PAGE_ID_def)
qed

lemma small_layout: "btree_layout small_bt"
  by (simp add: btree_layout_def small_bt_def leaf_capacity_of_def internal_capacity_of_def numeral_2_eq_2[symmetric])

text \<open>The same pager once the leaf has been read, so it is in the pool and nobody holds it.\<close>

definition cached_pager :: "mem_files pager" where
  "cached_pager = tree_pager\<lparr>pr_bpm := fst (unpin_page 1 False (fst (pool_cache_page
     \<lparr>pg_id = 1, pg_data = small_leaf\<rparr> (pool_new 2))))\<rparr>"

lemma cached_pool:
  "pool_ok (pr_bpm cached_pager)"
  "frames_of cached_pager = [1 \<mapsto> \<lparr>bf_page = \<lparr>pg_id = 1, pg_data = small_leaf\<rparr>, bf_pin_count = 0, bf_is_dirty = False\<rparr>]"
proof -
  let ?page = "\<lparr>pg_id = 1, pg_data = small_leaf\<rparr>"
  let ?b = "fst (pool_cache_page ?page (pool_new 2))"
  have 1: "pool_ok ?b" "pool_abs ?b = fst (spec_cache_page ?page (pool_abs (pool_new 2)))"
    using implementsD[OF pool_cache_page_implements[OF pool_new_ok], of ?page 2] by simp_all
  then have frames: "lc_frames (pool_abs ?b) = [1 \<mapsto> \<lparr>bf_page = ?page, bf_pin_count = 1, bf_is_dirty = False\<rparr>]"
    by (simp add: spec_cache_page_def pool_new_abs INVALID_PAGE_ID_def)
  have 2: "pool_ok (fst (unpin_page 1 False ?b))"
    "pool_abs (fst (unpin_page 1 False ?b)) = fst (spec_unpin_page 1 False (pool_abs ?b))"
    using implementsD[OF unpin_page_implements[OF 1(1)], of 1 False] by simp_all
  show "pool_ok (pr_bpm cached_pager)" using 2(1) by (simp add: cached_pager_def)
  show "frames_of cached_pager = [1 \<mapsto> \<lparr>bf_page = ?page, bf_pin_count = 0, bf_is_dirty = False\<rparr>]"
    using 2(2) frames by (simp add: cached_pager_def frames_of_def spec_unpin_page_def spec_on_def spec_find_def
      INVALID_PAGE_ID_def Let_def)
qed

lemma cached_pager_ok: "pages_ok mf_files [] tree_db [] (cached_pager, tree_files)"
  and cached_pager_pages: "page_map tree_db [] (cached_pager, tree_files) = [1 \<mapsto> small_leaf]"
proof -
  have same: "pr_header cached_pager = tree_header" "dh_page_count tree_header = 2"
    by (simp_all add: cached_pager_def tree_pager_def tree_header_def)
  have lengths: "length (database_header_bytes tree_header) = PAGE_SIZE" "length small_leaf = PAGE_SIZE"
    using node_length[OF small_leaf_node] by simp_all
  have slot: "page_view tree_db (log_pages []) 1 = small_leaf"
    by (simp add: page_view_def page_slot_def tree_db_def lengths)
  have files: "pager_files mf_files [] tree_db cached_pager tree_files"
    using tree_pager_ok by (simp add: pages_ok_def cached_pager_def)
  show "pages_ok mf_files [] tree_db [] (cached_pager, tree_files)"
    using files cached_pool lengths slot
    by (auto simp: pages_ok_def pool_pins_def same frames_of_def page_wf_def)
  show "page_map tree_db [] (cached_pager, tree_files) = [1 \<mapsto> small_leaf]"
  proof
    fix p
    have "frames_of tree_pager q = None" for q
      using small_pager_ready(2)[of q] by (simp add: tree_pager_def frames_of_def)
    then have "page_map tree_db [] (cached_pager, tree_files) p = page_map tree_db [] (tree_pager, tree_files) p"
      using slot cached_pool(2) by (auto simp: page_map_def cached_pager_def)
    then show "page_map tree_db [] (cached_pager, tree_files) p = ([1 \<mapsto> small_leaf]) p"
      by (simp add: tree_pager_pages)
  qed
qed

section \<open>Lookups in a tree whose pages are cached\<close>

text \<open>The pager is open and the pages \<open>ps\<close> are in the pool, so reading them cannot fail.\<close>

definition resident :: "'w pager \<times> 'w \<Rightarrow> page_id set \<Rightarrow> bool" where
  "resident s ps \<longleftrightarrow> \<not> pr_closed (fst s) \<and> (\<forall>p \<in> ps. frames_of (fst s) p \<noteq> None)"

lemma page_map_valid: "page_map db txns s p = Some d \<Longrightarrow> p \<noteq> INVALID_PAGE_ID \<and> p \<noteq> HEADER_PAGE_ID"
proof -
  have "dh_page_count (pr_header (fst s)) \<le> - 1" by (rule word_order.extremum)
  also have "(- 1 :: u64) = INVALID_PAGE_ID" by (simp add: INVALID_PAGE_ID_def)
  finally show "page_map db txns s p = Some d \<Longrightarrow> p \<noteq> INVALID_PAGE_ID \<and> p \<noteq> HEADER_PAGE_ID"
    by (auto simp: page_map_def split: if_splits)
qed

lemma cached_page_read:
  assumes ok: "pages_ok content txns db [] s" and r: "resident s ps" "p \<in> ps"
    and d: "page_map db txns s p = Some d"
  shows "\<exists>s'. with_page (pager_get_page os p) (\<lambda>pin. read_page pin f) s = (s', f d) \<and>
    pages_ok content txns db [] s' \<and> page_map db txns s' = page_map db txns s \<and> resident s' ps \<and>
    pr_tx (fst s') = pr_tx (fst s)"
proof -
  obtain pr w where s: "s = (pr, w)" by (metis surj_pair)
  note valid = page_map_valid[OF d]
  have pool: "pool_ok (pr_bpm pr)" "pool_pins [] (pr_bpm pr)" using ok by (simp_all add: pages_ok_def s)
  obtain fr where fr: "lc_frames (pool_abs (pr_bpm pr)) p = Some fr"
    using r by (auto simp: resident_def s frames_of_def)
  from get_cached_pins[OF pool _ fr] obtain b pin where
    g: "pool_get_page p (pr_bpm pr) = (b, Inr pin)" "pool_ok b" "pool_pins [(p, pin)] b"
      "\<not> pp_is_dirty pin" "lc_frames (pool_abs b) = (lc_frames (pool_abs (pr_bpm pr)))(p \<mapsto> frame_pin fr)"
    by auto
  let ?s1 = "(pr\<lparr>pr_bpm := b\<rparr>, w)"
  have get: "pager_get_page os p s = (?s1, Inr pin)"
    using r valid g(1) by (simp add: s resident_def pager_get_page_def pager_action_defs)
  have same: "bf_page (frame_pin fr) = bf_page fr" "bf_is_dirty (frame_pin fr) = bf_is_dirty fr"
    by (simp_all add: frame_pin_def)
  have ok1: "pages_ok content txns db [(p, pin)] ?s1"
    using ok g(2,3,4) fr unfolding pages_ok_def s by (auto simp: g(5) same frames_of_def)
  have map1: "page_map db txns ?s1 = page_map db txns s"
    using fr by (auto simp: s page_map_def fun_eq_iff g(5) same frames_of_def)
  have bytes: "pin_bytes pin ?s1 = d"
    using held_page_value(2)[OF ok1, of p pin d] d map1 by simp
  note rel = release_contract[OF ok1] and pins = release_pins[OF g(2,3), of "frame_pin fr"]
  have "resident (fst (release_pin pin ?s1)) ps"
    using r fr pins(3) by (auto simp: s resident_def release_pin_def frames_of_def g(5))
  moreover have "pr_tx (fst (fst (release_pin pin ?s1))) = pr_tx pr" by (simp add: release_pin_def)
  ultimately show ?thesis
    using get bytes rel map1 by (simp add: with_page_def read_page_def s)
qed

lemma cached_descend:
  assumes "pages_ok content txns db [] s" "resident s ps" "p \<in> ps" "page_map db txns s p = Some d"
  shows "\<exists>s'. descend_step os key p s = (s', bind_result (page_open d) (\<lambda>btree_page.
       if page_kind btree_page = Leaf then Inr None
       else bind_result (internal_open d) (\<lambda>internal_page.
         bind_result (internal_child_page_id_for_key internal_page key) (\<lambda>child_page_id.
         Inr (Some child_page_id))))) \<and>
    pages_ok content txns db [] s' \<and> page_map db txns s' = page_map db txns s \<and> resident s' ps"
  unfolding descend_step_def using cached_page_read[OF assms] by blast

lemma cached_find_leaf:
  assumes "forest (nodes ks vs (page_map db txns s)) root after hi [(lo, t)]" "lo \<le> key" "below key hi" "length key = ks"
    and "pages_ok content txns db [] s" "resident s ps" "set (page_ids t) \<subseteq> ps"
  shows "\<exists>s' p. find_leaf_page_id os key (page_of t) s = Some (s', Inr p) \<and> leaf_of_key key t p \<and>
    pages_ok content txns db [] s' \<and> page_map db txns s' = page_map db txns s \<and> resident s' ps"
  using assms(1-3,5-)
proof (induction t arbitrary: root after lo hi s rule: leaves.induct)
  case (1 p es nx)
  then have "nodes ks vs (page_map db txns s) p = Some (LeafNode root es nx)" by (simp add: forest_def)
  then obtain d where d: "page_map db txns s p = Some d" "node_of ks vs d = Some (LeafNode root es nx)"
    by (auto simp: nodes_Some)
  have "p \<in> ps" using "1.prems"(6) by simp
  from cached_descend[OF "1.prems"(4,5) this d(1), of os key] obtain s' where
    "descend_step os key p s = (s', Inr None)" "pages_ok content txns db [] s'"
    "page_map db txns s' = page_map db txns s" "resident s' ps"
    using leaf_view(2,4)[OF d(2)] by auto
  moreover have "leaf_of_key key (TLeaf p es nx) p"
    unfolding leaf_of_key_def using append_Nil[of "[(p, es, nx)]"] by fastforce
  ultimately show ?case
    by (subst find_leaf_page_id.simps) (simp add: bind_run_def returns_def)
next
  case (2 p f es)
  let ?N = "nodes ks vs (page_map db txns s)"
  have n: "?N p = Some (InternalNode root (page_of f) (entries_of es))"
    and kids: "forest ?N False after hi ((lo, f) # es)"
    using "2.prems"(1) unfolding forest_node by blast+
  then have o: "ordered_kids hi ((lo, f) # es)" by (simp only: forest_def)
  from child_for_key_split[OF o "2.prems"(2,3)] obtain xs k t ys where
    c: "(lo, f) # es = xs @ (k, t) # ys" "length xs = upper_position key es" "k \<le> key"
      "below key (next_key hi ys)" by blast
  have "((lo, f) # es) ! upper_position key es = (k, t)" by (simp only: c(1) c(2)[symmetric] nth_append_length)
  then have child: "child_at (page_of f) (entries_of es) (upper_position key (entries_of es)) = page_of t"
    using child_at_kids[of "upper_position key es" es f lo] by simp
  from n obtain d where d: "page_map db txns s p = Some d"
    "node_of ks vs d = Some (InternalNode root (page_of f) (entries_of es))" by (auto simp: nodes_Some)
  have p: "p \<in> ps" using "2.prems"(6) by simp
  have sorted: "sorted (map fst (entries_of es))" using forest_sorted(2)[OF kids] by simp
  from cached_descend[OF "2.prems"(4,5) p d(1), of os key] obtain s1 where
    step: "descend_step os key p s = (s1, Inr (Some (page_of t)))" "pages_ok content txns db [] s1"
    "page_map db txns s1 = page_map db txns s" "resident s1 ps"
    using internal_view(2-4)[OF d(2)] internal_child_for_key[OF d(2) sorted assms(4)] child by auto
  have sub: "forest ?N False (first_page (over_kids leaves ys) after) (next_key hi ys) [(k, t)]"
    using kids unfolding c(1) forest_append[of ?N after hi xs] forest_append[of ?N after hi "[(k, t)]" ys, simplified]
    by simp
  have t: "t = f \<or> t \<in> set (map snd es)" using c(1) by (cases xs) auto
  then have ids: "set (page_ids t) \<subseteq> ps" using "2.prems"(6) by auto
  from t sub[folded step(3)] "2.IH"(1)[OF _ c(3,4) step(2,4), of False] "2.IH"(2)[OF _ _ c(3,4) step(2,4), of t False] ids
  obtain s2 q where "find_leaf_page_id os key (page_of t) s1 = Some (s2, Inr q)" "leaf_of_key key t q"
    "pages_ok content txns db [] s2" "page_map db txns s2 = page_map db txns s1" "resident s2 ps" by blast
  then show ?case
    using step leaf_of_key_child[OF o c(1,3,4)]
    by (subst find_leaf_page_id.simps) (simp add: bind_run_def returns_def)
qed

lemma cached_find:
  assumes "btree_stores bt (page_map db txns s) t" "length key = bt_ks bt" "pages_ok content txns db [] s"
    and "resident s (set (page_ids t))"
  shows "\<exists>s'. btree_find os bt key s =
      Some (s', case map_of (contents t) key of None \<Rightarrow> Inl NotFound | Some v \<Rightarrow> Inr v) \<and>
    pages_ok content txns db [] s' \<and> page_map db txns s' = page_map db txns s \<and> resident s' (set (page_ids t))"
proof -
  let ?N = "nodes (bt_ks bt) (bt_vs bt) (page_map db txns s)"
  have f: "forest ?N True INVALID_PAGE_ID None [([], t)]" and root: "page_of t = bt_root_page_id bt"
    using assms(1) by (simp_all add: btree_stores_def)
  have "\<exists>s1 p. find_leaf_page_id os key (page_of t) s = Some (s1, Inr p) \<and> leaf_of_key key t p \<and>
    pages_ok content txns db [] s1 \<and> page_map db txns s1 = page_map db txns s \<and> resident s1 (set (page_ids t))"
    by (rule cached_find_leaf[OF f _ _ assms(2,3,4)]) simp_all
  then obtain s1 p where
    1: "find_leaf_page_id os key (page_of t) s = Some (s1, Inr p)" "leaf_of_key key t p"
      "pages_ok content txns db [] s1" "page_map db txns s1 = page_map db txns s" "resident s1 (set (page_ids t))"
    by blast
  from leaf_of_key_lookup[OF 1(2)] obtain es nx where leaf: "(p, es, nx) \<in> set (leaves t)"
    "map_of (contents t) key = map_of es key" by blast
  from forest_leaf[OF f leaf(1)] obtain r where "?N p = Some (LeafNode r es nx)" "sorted_wrt (<) (map fst es)" by blast
  then obtain d where d: "page_map db txns s1 p = Some d" "node_of (bt_ks bt) (bt_vs bt) d = Some (LeafNode r es nx)"
    "sorted_wrt (<) (map fst es)"
    by (auto simp: nodes_Some 1(4))
  from cached_page_read[OF 1(3,5) leaf_in_ids[OF leaf(1)] d(1), of os "leaf_lookup key"]
  show ?thesis
    using 1 assms(2) leaf_lookup_value[OF d(2,3) assms(2)] root leaf(2)
    by (auto simp: btree_find_def bind_run_def returns_def)
qed

section \<open>Insertion into a tree whose pages are cached\<close>

lemma cached_mark_dirty:
  assumes "pages_ok content txns db held s" "length held < 2 ^ 32 - 1" "frames_of (fst s) p \<noteq> None"
    and "\<not> pr_closed (fst s)" "p \<noteq> INVALID_PAGE_ID" "p \<noteq> HEADER_PAGE_ID" "tx_status (pr_tx (fst s)) = Active"
  shows "\<exists>s'. pager_mark_dirty p s = (s', Ok)"
proof -
  obtain pr w where s: "s = (pr, w)" by (metis surj_pair)
  have pool: "pool_ok (pr_bpm pr)" "pool_pins held (pr_bpm pr)" using assms(1) by (simp_all add: pages_ok_def s)
  obtain fr where fr: "lc_frames (pool_abs (pr_bpm pr)) p = Some fr" using assms(3) by (auto simp: s frames_of_def)
  from get_cached_pins[OF pool assms(2) fr] obtain b pin where "pool_get_page p (pr_bpm pr) = (b, Inr pin)" by blast
  then show ?thesis
    using assms(4-7) by (auto simp: s pager_mark_dirty_def pager_action_defs tx_is_failed_def tx_is_unresolved_def
      tx_in_transaction_def)
qed

lemma cached_mutable_page:
  assumes ok: "pages_ok content txns db [] s" and r: "resident s ps" "p \<in> ps"
    and d: "page_map db txns s p = Some d" and tx: "tx_status (pr_tx (fst s)) = Active"
  obtains s1 pin where "pin_bytes pin s1 = d"
    "with_mutable_page (pager_get_page os p) body s = (fst (release_pin pin (fst (body pin s1))), snd (body pin s1))"
proof -
  obtain pr w where s: "s = (pr, w)" by (metis surj_pair)
  note valid = page_map_valid[OF d]
  have pool: "pool_ok (pr_bpm pr)" "pool_pins [] (pr_bpm pr)" using ok by (simp_all add: pages_ok_def s)
  obtain fr where fr: "lc_frames (pool_abs (pr_bpm pr)) p = Some fr"
    using r by (auto simp: resident_def s frames_of_def)
  from get_cached_pins[OF pool _ fr] obtain b pin where
    g: "pool_get_page p (pr_bpm pr) = (b, Inr pin)" "pool_ok b" "pool_pins [(p, pin)] b"
      "\<not> pp_is_dirty pin" "lc_frames (pool_abs b) = (lc_frames (pool_abs (pr_bpm pr)))(p \<mapsto> frame_pin fr)"
    by auto
  let ?s1 = "(pr\<lparr>pr_bpm := b\<rparr>, w)"
  have get: "pager_get_page os p s = (?s1, Inr pin)"
    using r valid g(1) by (simp add: s resident_def pager_get_page_def pager_action_defs)
  have same: "bf_page (frame_pin fr) = bf_page fr" "bf_is_dirty (frame_pin fr) = bf_is_dirty fr"
    by (simp_all add: frame_pin_def)
  have ok1: "pages_ok content txns db [(p, pin)] ?s1"
    using ok g(2,3,4) fr unfolding pages_ok_def s by (auto simp: g(5) same frames_of_def)
  have map1: "page_map db txns ?s1 = page_map db txns s"
    using fr by (auto simp: s page_map_def fun_eq_iff g(5) same frames_of_def)
  have "frames_of (fst ?s1) p \<noteq> None" by (simp add: g(5))
  from cached_mark_dirty[OF ok1 _ this] obtain s2 where mark: "pager_mark_dirty p ?s1 = (s2, Ok)"
    using r(1) valid tx by (auto simp: s resident_def)
  have "pg_id (pin_page_value pin (pr_bpm (fst ?s1))) = p"
    using held_page_value(1)[OF ok1, of p pin d] d map1 by simp
  then have dirty: "handle_mark_dirty pin ?s1 = (s2, Inr (pin_mark_dirty pin))"
    using mark by (simp add: handle_mark_dirty_def bind_action_def get_pager_def)
  note c = handle_mark_dirty_contract[OF dirty ok1]
  have "pin_bytes (pin_mark_dirty pin) s2 = d"
    using held_page_value(2)[of content txns db "[(p, pin_mark_dirty pin)]" s2 p "pin_mark_dirty pin" d]
      c(3)[OF _ refl] c(1) d map1 by simp
  then show ?thesis
    using get dirty by (intro that[of "pin_mark_dirty pin" s2]) (auto simp: with_mutable_page_def split: prod.split)
qed

lemma cached_insert_leaf:
  assumes "pages_ok content txns db [] s" "resident s ps" "p \<in> ps" "tx_status (pr_tx (fst s)) = Active"
    and "page_map db txns s p = Some d" "node_of ks vs d = Some (LeafNode r es nx)"
    and "sorted_wrt (<) (map fst es)" "key \<notin> fst ` set es" "length key = ks" "length v = vs"
    and "length es < leaf_capacity_of ks vs"
  shows "\<exists>s'. insert_into_leaf os bt p key v s = (s', Inr None)"
proof -
  let ?i = "lower_position key es"
  have srt: "sorted (map fst es)" using assms(7) by (simp only: strict_sorted_iff)
  note view = leaf_view[OF assms(6)]
  have point: "leaf_insertion_point key d = Inr (?i, length es)"
    using insertion_point[OF assms(6,7,9)] assms(8) by simp
  from cached_page_read[OF assms(1-3,5), of os "leaf_insertion_point key"] point obtain s1 where
    1: "with_page (pager_get_page os p) (\<lambda>pin. read_page pin (leaf_insertion_point key)) s = (s1, Inr (?i, length es))"
      "pages_ok content txns db [] s1" "page_map db txns s1 = page_map db txns s" "resident s1 ps"
      "pr_tx (fst s1) = pr_tx (fst s)" by auto
  obtain d' where ins: "leaf_insert_entry ?i key v d = Inr d'"
    using leaf_insert_view[OF assms(6,9,10), of ?i] assms(11) lower_position_neighbours[OF srt, of key]
    by (auto intro: less_imp_le)
  let ?body = "\<lambda>page. bind_action (read_page page leaf_open) (\<lambda>view_bytes.
       if page_key_count view_bytes < leaf_capacity view_bytes then
         bind_action (edit_page page (leaf_insert_entry ?i key v)) (\<lambda>_. return_action None)
       else split_leaf os bt p page view_bytes ?i (length es) key v)"
  have d1: "page_map db txns s1 p = Some d" and tx1: "tx_status (pr_tx (fst s1)) = Active"
    using 1 assms(4,5) by simp_all
  from cached_mutable_page[OF 1(2,4) assms(3) d1 tx1, of os ?body] obtain s2 pin where
    2: "pin_bytes pin s2 = d"
      "with_mutable_page (pager_get_page os p) ?body s1 = (fst (release_pin pin (fst (?body pin s2))), snd (?body pin s2))"
    by blast
  have "snd (?body pin s2) = Inr None"
    using 2(1) view(3,5,11) assms(11) ins
    by (simp add: bind_action_def read_page_def edit_page_def modify_pager_def)
  with 1(1) 2(2) show ?thesis by (simp add: insert_into_leaf_def bind_action_def)
qed

lemma cached_insert_subtree:
  assumes "forest (nodes (bt_ks bt) (bt_vs bt) (page_map db txns s)) root after hi [(lo, t)]" "lo \<le> key" "below key hi"
    and "length key = bt_ks bt" "length v = bt_vs bt"
    and "pages_ok content txns db [] s" "resident s ps" "set (page_ids t) \<subseteq> ps" "tx_status (pr_tx (fst s)) = Active"
    and "key \<notin> fst ` set (contents t)"
    and "\<And>p es nx. (p, es, nx) \<in> set (leaves t) \<Longrightarrow> length es < leaf_capacity_of (bt_ks bt) (bt_vs bt)"
  shows "\<exists>s'. insert_into_subtree os bt key v (page_of t) s = Some (s', Inr None)"
  using assms(1-3,6-)
proof (induction t arbitrary: root after lo hi s rule: leaves.induct)
  case (1 p es nx)
  then have n: "nodes (bt_ks bt) (bt_vs bt) (page_map db txns s) p = Some (LeafNode root es nx)"
    and srt: "sorted_wrt (<) (map fst es)" by (simp_all add: forest_def)
  then obtain d where d: "page_map db txns s p = Some d" "node_of (bt_ks bt) (bt_vs bt) d = Some (LeafNode root es nx)"
    by (auto simp: nodes_Some)
  have p: "p \<in> ps" using "1.prems"(6) by simp
  from cached_page_read[OF "1.prems"(4,5) p d(1), of os "\<lambda>bytes. bind_result (page_open bytes) (\<lambda>v. Inr (page_kind v))"]
  obtain s1 where 1: "page_kind_of os p s = (s1, Inr Leaf)" "pages_ok content txns db [] s1" "resident s1 ps"
    "page_map db txns s1 = page_map db txns s" "pr_tx (fst s1) = pr_tx (fst s)"
    unfolding page_kind_of_def using leaf_view(2,4)[OF d(2)] by auto
  have tx: "tx_status (pr_tx (fst s1)) = Active" and d1: "page_map db txns s1 p = Some d"
    using 1 "1.prems"(7) d(1) by simp_all
  have absent: "key \<notin> fst ` set es" and room: "length es < leaf_capacity_of (bt_ks bt) (bt_vs bt)"
    using "1.prems"(8,9) by auto
  from cached_insert_leaf[OF 1(2,3) p tx d1 d(2) srt absent assms(4,5) room] obtain s2 where
    "insert_into_leaf os bt p key v s1 = (s2, Inr None)" by blast
  with 1(1) show ?case
    by (subst insert_into_subtree.simps) (simp add: bind_run_def returns_def)
next
  case (2 p f es)
  let ?N = "nodes (bt_ks bt) (bt_vs bt) (page_map db txns s)"
  have n: "?N p = Some (InternalNode root (page_of f) (entries_of es))"
    and kids: "forest ?N False after hi ((lo, f) # es)"
    using "2.prems"(1) unfolding forest_node by blast+
  then have o: "ordered_kids hi ((lo, f) # es)" by (simp only: forest_def)
  from child_for_key_split[OF o "2.prems"(2,3)] obtain xs k t ys where
    c: "(lo, f) # es = xs @ (k, t) # ys" "length xs = upper_position key es" "k \<le> key"
      "below key (next_key hi ys)" by blast
  have "((lo, f) # es) ! upper_position key es = (k, t)" by (simp only: c(1) c(2)[symmetric] nth_append_length)
  then have child: "child_at (page_of f) (entries_of es) (upper_position key (entries_of es)) = page_of t"
    using child_at_kids[of "upper_position key es" es f lo] by simp
  from n obtain d where d: "page_map db txns s p = Some d"
    "node_of (bt_ks bt) (bt_vs bt) d = Some (InternalNode root (page_of f) (entries_of es))" by (auto simp: nodes_Some)
  have p: "p \<in> ps" using "2.prems"(6) by simp
  have srt: "sorted (map fst (entries_of es))" using forest_sorted(2)[OF kids] by simp
  from cached_page_read[OF "2.prems"(4,5) p d(1), of os "\<lambda>bytes. bind_result (page_open bytes) (\<lambda>v. Inr (page_kind v))"]
  obtain s1 where 1: "page_kind_of os p s = (s1, Inr Internal)" "pages_ok content txns db [] s1" "resident s1 ps"
    "page_map db txns s1 = page_map db txns s" "pr_tx (fst s1) = pr_tx (fst s)"
    unfolding page_kind_of_def using internal_view(2,4)[OF d(2)] by auto
  have d1: "page_map db txns s1 p = Some d" using 1(4) d(1) by simp
  from cached_page_read[OF 1(2,3) p d1, of os "\<lambda>bytes. bind_result (internal_open bytes)
      (\<lambda>view_bytes. internal_child_page_id_for_key view_bytes key)"]
  obtain s2 where 2: "child_for_key os p key s1 = (s2, Inr (page_of t))" "pages_ok content txns db [] s2"
    "resident s2 ps" "page_map db txns s2 = page_map db txns s" "pr_tx (fst s2) = pr_tx (fst s)"
    unfolding child_for_key_def
    using internal_view(3)[OF d(2)] internal_child_for_key[OF d(2) srt assms(4)] child 1(4,5) by auto
  have sub: "forest ?N False (first_page (over_kids leaves ys) after) (next_key hi ys) [(k, t)]"
    using kids unfolding c(1) forest_append[of ?N after hi xs] forest_append[of ?N after hi "[(k, t)]" ys, simplified]
    by simp
  have t: "t = f \<or> t \<in> set (map snd es)" using c(1) by (cases xs) auto
  have tx: "tx_status (pr_tx (fst s2)) = Active" using 2(5) "2.prems"(7) by simp
  have ids: "set (page_ids t) \<subseteq> ps" using t "2.prems"(6) by auto
  have "set (contents t) \<subseteq> set (contents (TNode p f es))" using t by auto
  then have absent: "key \<notin> fst ` set (contents t)" using "2.prems"(8) by auto
  have "set (leaves t) \<subseteq> set (leaves (TNode p f es))" using t by auto
  then have room: "length el < leaf_capacity_of (bt_ks bt) (bt_vs bt)" if "(q, el, nx) \<in> set (leaves t)" for q el nx
    using "2.prems"(9) that by blast
  have "\<exists>s'. insert_into_subtree os bt key v (page_of t) s2 = Some (s', Inr None)"
    using t
  proof
    assume "t = f"
    with "2.IH"(1)[OF _ c(3,4) 2(2,3) _ tx, of False] sub ids absent room show ?thesis by (simp add: 2(4))
  next
    assume "t \<in> set (map snd es)"
    from "2.IH"(2)[OF this _ c(3,4) 2(2,3) ids tx absent room] sub show ?thesis by (simp add: 2(4))
  qed
  then show ?case
    using 1(1) 2(1) by (subst insert_into_subtree.simps) (auto simp: bind_run_def returns_def)
qed

lemma cached_insert:
  assumes "btree_stores bt (page_map db txns s) t" "length key = bt_ks bt" "length v = bt_vs bt"
    and "pages_ok content txns db [] s" "resident s (set (page_ids t))" "tx_status (pr_tx (fst s)) = Active"
    and "key \<notin> fst ` set (contents t)"
    and "\<And>p es nx. (p, es, nx) \<in> set (leaves t) \<Longrightarrow> length es < leaf_capacity_of (bt_ks bt) (bt_vs bt)"
  shows "\<exists>s'. btree_insert os bt key v s = Some (s', Ok)"
proof -
  have f: "forest (nodes (bt_ks bt) (bt_vs bt) (page_map db txns s)) True INVALID_PAGE_ID None [([], t)]"
    and root: "page_of t = bt_root_page_id bt" using assms(1) by (simp_all add: btree_stores_def)
  have "\<exists>s'. insert_into_subtree os bt key v (page_of t) s = Some (s', Inr None)"
    by (rule cached_insert_subtree[OF f _ _ assms(2-5) _ assms(6-8)]) simp_all
  then show ?thesis
    using assms(2,3) by (auto simp: root btree_insert_def bind_run_def returns_def)
qed

section \<open>The contract of an ordered index\<close>

text \<open>
  What the callers of the tree rely on. \<open>holds s es\<close>: in the state \<open>s\<close> the index has the entries
  \<open>es\<close>. Every call returns; it may fail for reasons of the storage below, and then only an insertion
  or an update that was going to succeed can leave the entries unspecified.
\<close>

locale ordered_index =
  fixes holds :: "'s \<Rightarrow> (bytes \<times> bytes) list \<Rightarrow> bool"
    and fits_key :: "bytes \<Rightarrow> bool" and fits_value :: "bytes \<Rightarrow> bool"
    and find :: "bytes \<Rightarrow> 's \<Rightarrow> ('s \<times> bytes result) option"
    and insert_entry :: "bytes \<Rightarrow> bytes \<Rightarrow> 's \<Rightarrow> ('s \<times> status) option"
    and update_entry :: "bytes \<Rightarrow> bytes \<Rightarrow> 's \<Rightarrow> ('s \<times> status) option"
  assumes holds_sorted: "holds s es \<Longrightarrow> sorted_wrt (<) (map fst es)"
    and find_law: "holds s es \<Longrightarrow> fits_key k \<Longrightarrow>
      \<exists>s' r. find k s = Some (s', r) \<and> holds s' es \<and> (\<forall>v. r = Inr v \<longrightarrow> map_of es k = Some v)"
    and insert_law: "holds s es \<Longrightarrow> fits_key k \<Longrightarrow> fits_value v \<Longrightarrow> k \<notin> fst ` set es \<Longrightarrow>
      \<exists>s' r. insert_entry k v s = Some (s', r) \<and> (r = Ok \<longrightarrow> holds s' (insert_sorted k v es))"
    and duplicate_law: "holds s es \<Longrightarrow> fits_key k \<Longrightarrow> fits_value v \<Longrightarrow> k \<in> fst ` set es \<Longrightarrow>
      \<exists>s' e. insert_entry k v s = Some (s', Inl e) \<and> holds s' es"
    and update_law: "holds s es \<Longrightarrow> fits_key k \<Longrightarrow> fits_value v \<Longrightarrow>
      \<exists>s' r. update_entry k v s = Some (s', r) \<and>
        (if r = Ok then k \<in> fst ` set es \<and> holds s' (set_value k v es) else holds s' es)"
begin

lemma insert_cases:
  assumes "holds s es" "fits_key k" "fits_value v" "insert_entry k v s = Some (s', Ok)"
  shows "k \<notin> fst ` set es" "holds s' (insert_sorted k v es)"
proof -
  show new: "k \<notin> fst ` set es"
    using duplicate_law[OF assms(1-3)] assms(4) by auto
  show "holds s' (insert_sorted k v es)"
    using insert_law[OF assms(1-3) new] assms(4) by auto
qed

lemma find_after_insert:
  assumes "holds s es" "fits_key k" "fits_value v" "insert_entry k v s = Some (s1, Ok)"
    and "fits_key k'" "find k' s1 = Some (s2, Inr u)"
  shows "map_of es k' = (if k' = k then None else Some u)" "k' = k \<Longrightarrow> u = v"
proof -
  note i = insert_cases[OF assms(1-4)]
  from find_law[OF i(2) assms(5)] assms(6) have "map_of (insert_sorted k v es) k' = Some u" by auto
  then show "map_of es k' = (if k' = k then None else Some u)" "k' = k \<Longrightarrow> u = v"
    using i(1) by (auto simp: map_of_insert_sorted map_of_eq_None_iff split: if_splits)
qed

lemma insert_twice:
  assumes "holds s es" "fits_key k" "fits_value v" "insert_entry k v s = Some (s1, Ok)" "fits_value w"
  shows "\<exists>s2 e. insert_entry k w s1 = Some (s2, Inl e) \<and> holds s2 (insert_sorted k v es)"
  using duplicate_law[OF insert_cases(2)[OF assms(1-4)] assms(2,5)] by (simp add: set_insert_sorted)

end

definition tree_holds :: "('w \<Rightarrow> path \<Rightarrow> bytes option) \<Rightarrow> wal_txn list \<Rightarrow> bytes \<Rightarrow> btree \<Rightarrow> 'w pager \<times> 'w \<Rightarrow>
    (bytes \<times> bytes) list \<Rightarrow> bool" where
  "tree_holds content txns db bt s es \<longleftrightarrow> btree_layout bt \<and> pages_ok content txns db [] s \<and>
     (\<exists>t. btree_stores bt (page_map db txns s) t \<and> contents t = es)"

lemma runD:
  assumes "run_triple content txns db [] P a R E" "pages_ok content txns db [] s" "P (page_map db txns s)"
  obtains s' r where "a s = Some (s', r)" "pages_ok content txns db [] s'"
    "\<And>e. r = Inl e \<Longrightarrow> E (page_map db txns s')" "\<And>x. r = Inr x \<Longrightarrow> R x (page_map db txns s')"
  using assms unfolding run_triple_def by (fastforce split: sum.splits)

sublocale win32_files \<subseteq> tree: ordered_index "tree_holds content txns db bt" "\<lambda>k. length k = bt_ks bt"
    "\<lambda>v. length v = bt_vs bt" "btree_find os bt" "btree_insert os bt" "btree_update_value os bt" for txns db bt
proof
  fix s es and k v :: bytes assume h: "tree_holds content txns db bt s es"
  then obtain t where t: "btree_layout bt" "pages_ok content txns db [] s"
    "btree_stores bt (page_map db txns s) t" "contents t = es" by (auto simp: tree_holds_def)
  then have f: "forest (nodes (bt_ks bt) (bt_vs bt) (page_map db txns s)) True INVALID_PAGE_ID None [([], t)]"
    and root: "page_of t = bt_root_page_id bt" by (simp_all add: btree_stores_def)
  show "sorted_wrt (<) (map fst es)"
    using f ordered_contents(1)[of "[]" None t] t(4) by (simp add: forest_def)
  assume k: "length k = bt_ks bt"
  show "\<exists>s' r. btree_find os bt k s = Some (s', r) \<and> tree_holds content txns db bt s' es \<and>
      (\<forall>v. r = Inr v \<longrightarrow> map_of es k = Some v)"
  proof (rule runD[OF find_run[where P = "\<lambda>m. m = page_map db txns s", OF _ root f k] t(2)])
    fix s' r assume r: "btree_find os bt k s = Some (s', r)" "pages_ok content txns db [] s'"
      "\<And>e. r = Inl e \<Longrightarrow> page_map db txns s' = page_map db txns s"
      "\<And>v. r = Inr v \<Longrightarrow> map_of (contents t) k = Some v \<and> page_map db txns s' = page_map db txns s"
    then have "page_map db txns s' = page_map db txns s" by (cases r) simp_all
    with r t show ?thesis by (auto simp: tree_holds_def)
  qed simp_all
  assume v: "length v = bt_vs bt"
  show "\<exists>s' r. btree_insert os bt k v s = Some (s', r) \<and>
      (r = Ok \<longrightarrow> tree_holds content txns db bt s' (insert_sorted k v es))" if "k \<notin> fst ` set es"
    by (rule runD[OF insert_run[OF t(3) k v t(1)] t(2) refl]) (use that t in \<open>auto simp: tree_holds_def grown_def\<close>)
  show "\<exists>s' e. btree_insert os bt k v s = Some (s', Inl e) \<and> tree_holds content txns db bt s' es"
    if "k \<in> fst ` set es"
  proof (rule runD[OF insert_present_run[OF t(3) k v] t(2) refl])
    show "k \<in> fst ` set (contents t)" using that t(4) by simp
    fix s' r assume "btree_insert os bt k v s = Some (s', r)" "pages_ok content txns db [] s'"
      "\<And>e. r = Inl e \<Longrightarrow> page_map db txns s' = page_map db txns s" "\<And>x. r = Inr x \<Longrightarrow> False"
    then show ?thesis using t by (cases r) (auto simp: tree_holds_def)
  qed
  show "\<exists>s' r. btree_update_value os bt k v s = Some (s', r) \<and>
      (if r = Ok then k \<in> fst ` set es \<and> tree_holds content txns db bt s' (set_value k v es)
       else tree_holds content txns db bt s' es)"
  proof (rule runD[OF update_run[OF t(3) k v] t(2) refl])
    fix s' r assume r: "btree_update_value os bt k v s = Some (s', r)" "pages_ok content txns db [] s'"
      "\<And>e. r = Inl e \<Longrightarrow> page_map db txns s' = page_map db txns s"
      "\<And>x. r = Inr x \<Longrightarrow> map_of (contents t) k \<noteq> None \<and>
        (\<exists>t'. btree_stores bt (page_map db txns s') t' \<and> contents t' = set_value k v (contents t) \<and>
          page_ids t' = page_ids t) \<and>
        (\<forall>q. q \<notin> set (page_ids t) \<longrightarrow> page_map db txns s' q = page_map db txns s q)"
    show ?thesis
    proof (cases r)
      case (Inl e)
      with r t show ?thesis by (auto simp: tree_holds_def)
    next
      case (Inr x)
      then have "r = Ok" by simp
      with r(1,2) r(4)[OF Inr] t show ?thesis
        by (auto simp: tree_holds_def map_of_eq_None_iff)
    qed
  qed
qed

context win32_files
begin

lemmas index_find_law = tree.find_law
lemmas index_insert_cases = tree.insert_cases
lemmas index_insert_twice = tree.insert_twice

end

section \<open>Properties of the pages\<close>

text \<open>
  C21. A leaf page is a sorted association list on its bytes: a lookup is the lookup in the list,
  inserting at the position found by the binary search puts the entry in order, a full page
  refuses it, an update replaces the value of a key that is there and an erase drops one entry.
\<close>

theorem leaf_page_is_sorted_list:
  assumes "node_of ks vs d = Some (LeafNode root es nx)" "sorted_wrt (<) (map fst es)"
    and "length key = ks" "length v = vs"
  shows "leaf_lookup key d = (case map_of es key of None \<Rightarrow> Inl NotFound | Some x \<Rightarrow> Inr x) \<and>
    (let inserted = bind_result (leaf_find_insertion_position d key) (\<lambda>i. leaf_insert_entry i key v d) in
     if length es < leaf_capacity_of ks vs
     then \<exists>d'. inserted = Inr d' \<and> node_of ks vs d' = Some (LeafNode root (insert_sorted key v es) nx)
     else inserted = Inl InvalidArgument) \<and>
    (if key \<in> fst ` set es
     then \<exists>d'. leaf_update_value key v d = Inr d' \<and> node_of ks vs d' = Some (LeafNode root (set_value key v es) nx)
     else leaf_update_value key v d = Inl NotFound) \<and>
    (\<forall>i < length es. \<exists>d'. leaf_erase_entry i d = Inr d' \<and>
       node_of ks vs d' = Some (LeafNode root (take i es @ drop (Suc i) es) nx))"
proof -
  let ?i = "lower_position key es"
  have s: "sorted (map fst es)" using assms(2) by (simp only: strict_sorted_iff)
  have find: "leaf_find_insertion_position d key = Inr ?i" by (rule leaf_find_position[OF assms(1) s assms(3)])
  have "if length es < leaf_capacity_of ks vs
    then \<exists>d'. leaf_insert_entry ?i key v d = Inr d' \<and> node_of ks vs d' = Some (LeafNode root (insert_sorted key v es) nx)
    else leaf_insert_entry ?i key v d = Inl InvalidArgument"
    using leaf_insert_view[OF assms(1,3,4), of ?i] leaf_insert_refused[OF assms(1), of key v ?i]
      lower_position_neighbours[OF s, of key] by (auto simp: insert_sorted_take intro: less_imp_le)
  moreover have "if key \<in> fst ` set es
    then \<exists>d'. leaf_update_value key v d = Inr d' \<and> node_of ks vs d' = Some (LeafNode root (set_value key v es) nx)
    else leaf_update_value key v d = Inl NotFound"
    using leaf_update_view[OF assms(1) s assms(3,4)] lower_position_found(1)[OF assms(2), of key]
      set_value_update[OF assms(2), of ?i key v] by (auto simp: map_of_eq_None_iff split: if_splits)
  ultimately show ?thesis
    using leaf_lookup_value[OF assms(1-3)] leaf_erase_view[OF assms(1)] by (simp add: find)
qed

theorem leaf_page_is_sorted_list_witness:
  "leaf_lookup [5] small_leaf = Inr [7] \<and> leaf_lookup [4] small_leaf = Inl NotFound \<and>
   (\<exists>d. bind_result (leaf_find_insertion_position small_leaf [4]) (\<lambda>i. leaf_insert_entry i [4] [8] small_leaf) = Inr d \<and>
     node_of 1 1 d = Some (LeafNode True [([4], [8]), ([5], [7])] INVALID_PAGE_ID))"
  using leaf_page_is_sorted_list[OF small_leaf_node, of "[5]" "[7]"]
    leaf_page_is_sorted_list[OF small_leaf_node, of "[4]" "[8]"]
  by (simp add: insert_sorted_def leaf_capacity_of_def numeral_2_eq_2[symmetric])

text \<open>
  C22. An internal page is the list of its separators and children: the child chosen for a key is
  the one whose range contains it, a new separator goes to its place in the order unless the page
  is full, erasing drops a separator with its right child and a separator can be replaced.
\<close>

theorem internal_page_is_sorted_list:
  assumes "node_of ks vs d = Some (InternalNode root c es)" "sorted_wrt (<) (map fst es)" "length key = ks"
  shows "internal_child_page_id_for_key d key = Inr (child_at c es (length (filter (\<lambda>e. fst e \<le> key) es))) \<and>
    (let inserted = bind_result (internal_find_insertion_position d key) (\<lambda>i. internal_insert_entry i key p d) in
     length es < internal_capacity_of ks \<longrightarrow>
       (\<exists>d'. inserted = Inr d' \<and> node_of ks vs d' = Some (InternalNode root c (insert_sorted key p es)))) \<and>
    (\<forall>i < length es. \<exists>d'. internal_erase_entry i d = Inr d' \<and>
       node_of ks vs d' = Some (InternalNode root c (take i es @ drop (Suc i) es))) \<and>
    (\<forall>i < length es. \<exists>d'. internal_set_key_at i key d = Inr d' \<and>
       node_of ks vs d' = Some (InternalNode root c (es[i := (key, snd (es ! i))])))"
proof -
  let ?i = "lower_position key es"
  have s: "sorted (map fst es)" using assms(2) by (simp only: strict_sorted_iff)
  have find: "internal_find_insertion_position d key = Inr ?i" by (rule internal_search(1)[OF assms(1) s assms(3)])
  have "takeWhile (\<lambda>e. fst e \<le> key) es = filter (\<lambda>e. fst e \<le> key) es"
    using s by (induction es) (auto simp: filter_empty_conv empty_filter_conv)
  then have "upper_position key es = length (filter (\<lambda>e. fst e \<le> key) es)" by (simp add: upper_position_def)
  moreover have "\<exists>d'. internal_insert_entry ?i key p d = Inr d' \<and>
      node_of ks vs d' = Some (InternalNode root c (insert_sorted key p es))" if "length es < internal_capacity_of ks"
    using internal_insert_view[OF assms(1,3), of ?i p] that lower_position_neighbours[OF s, of key]
    by (auto simp: insert_sorted_take intro: less_imp_le)
  ultimately show ?thesis
    using internal_child_for_key[OF assms(1) s assms(3)] internal_erase_view[OF assms(1)]
      internal_set_key_view[OF assms(1) _ assms(3)] by (simp add: find)
qed

theorem internal_page_is_sorted_list_witness:
  "\<exists>d d'. initialize_internal (replicate PAGE_SIZE 0) 1 1 = Inr d \<and>
    internal_child_page_id_for_key d [5] = Inr INVALID_PAGE_ID \<and>
    bind_result (internal_find_insertion_position d [5]) (\<lambda>i. internal_insert_entry i [5] 9 d) = Inr d' \<and>
    node_of 1 1 d' = Some (InternalNode False INVALID_PAGE_ID [([5], 9)])"
proof -
  have capacity: "2 \<le> internal_capacity_of (unat (1 :: u16))" by (simp add: internal_capacity_of_def)
  obtain d where d: "initialize_internal (replicate PAGE_SIZE 0) 1 1 = Inr d"
    "node_of 1 1 d = Some (InternalNode False INVALID_PAGE_ID [])"
    using initialize_internal_view[OF _ _ _ capacity, of "replicate PAGE_SIZE 0" 1] by auto
  show ?thesis
    using internal_page_is_sorted_list[OF d(2), of "[5]" 9] capacity d(1)
    by (auto simp: insert_sorted_def child_at_def Let_def)
qed

section \<open>Properties of the tree\<close>

text \<open>
  C15. A lookup returns on every database whose pages store a search tree, whatever the files, the
  pool and injected faults do: it changes no page, leaves no page pinned, and a value it returns is
  the value of the key.
\<close>

theorem btree_find_is_lookup:
  assumes "win32_files os content" "pages_ok content txns db [] s"
    and "btree_stores bt (page_map db txns s) t" "length key = bt_ks bt"
  shows "\<exists>s' r. btree_find os bt key s = Some (s', r) \<and> pages_ok content txns db [] s' \<and>
    page_map db txns s' = page_map db txns s \<and> (\<forall>v. r = Inr v \<longrightarrow> map_of (contents t) key = Some v)"
proof -
  have f: "forest (nodes (bt_ks bt) (bt_vs bt) (page_map db txns s)) True INVALID_PAGE_ID None [([], t)]"
    and root: "page_of t = bt_root_page_id bt" using assms(3) by (simp_all add: btree_stores_def)
  show ?thesis
  proof (rule runD[OF win32_files.find_run[OF assms(1), where P = "\<lambda>m. m = page_map db txns s", OF _ root f assms(4)]
        assms(2)])
    fix s' r assume r: "btree_find os bt key s = Some (s', r)" "pages_ok content txns db [] s'"
      "\<And>e. r = Inl e \<Longrightarrow> page_map db txns s' = page_map db txns s"
      "\<And>v. r = Inr v \<Longrightarrow> map_of (contents t) key = Some v \<and> page_map db txns s' = page_map db txns s"
    then have "page_map db txns s' = page_map db txns s" by (cases r) simp_all
    with r show ?thesis by auto
  qed simp_all
qed

theorem btree_find_is_lookup_witness:
  "\<exists>s' r. btree_find (mem_os (\<lambda>n. None)) small_bt [5] (tree_pager, tree_files) = Some (s', r) \<and>
    page_map tree_db [] s' = [1 \<mapsto> small_leaf] \<and> (\<forall>v. r = Inr v \<longrightarrow> v = [7])"
  using btree_find_is_lookup[OF mem_os_files tree_pager_ok, of small_bt small_tree "[5]" "\<lambda>n. None"]
    small_tree_stored by (auto simp: tree_pager_pages small_bt_def)

text \<open>
  C16. When the pages of the tree are in the buffer pool, a lookup cannot fail: it returns the value
  of the key, or \<open>NotFound\<close> exactly if the tree has no such key.
\<close>

theorem btree_find_cached:
  assumes "btree_stores bt (page_map db txns s) t" "length key = bt_ks bt" "pages_ok content txns db [] s"
    and "resident s (set (page_ids t))"
  shows "\<exists>s'. btree_find os bt key s =
      Some (s', case map_of (contents t) key of None \<Rightarrow> Inl NotFound | Some v \<Rightarrow> Inr v) \<and>
    pages_ok content txns db [] s' \<and> page_map db txns s' = page_map db txns s \<and> resident s' (set (page_ids t))"
  by (rule cached_find[OF assms])

theorem btree_find_cached_witness:
  "(\<exists>s'. btree_find (mem_os (\<lambda>n. None)) small_bt [5] (cached_pager, tree_files) = Some (s', Inr [7])) \<and>
   (\<exists>s'. btree_find (mem_os (\<lambda>n. None)) small_bt [6] (cached_pager, tree_files) = Some (s', Inl NotFound))"
proof -
  have "resident (cached_pager, tree_files) (set (page_ids small_tree))"
    using cached_pool(2) by (simp add: resident_def cached_pager_def tree_pager_def)
  note found = btree_find_cached[where os = "mem_os (\<lambda>n. None)", OF _ _ cached_pager_ok this, of small_bt]
  have "\<exists>s'. btree_find (mem_os (\<lambda>n. None)) small_bt [5] (cached_pager, tree_files) = Some (s', Inr [7])"
    using found[of "[5]"] small_tree_stored by (auto simp: cached_pager_pages small_bt_def)
  moreover have "\<exists>s'. btree_find (mem_os (\<lambda>n. None)) small_bt [6] (cached_pager, tree_files) = Some (s', Inl NotFound)"
    using found[of "[6]"] small_tree_stored by (auto simp: cached_pager_pages small_bt_def)
  ultimately show ?thesis ..
qed

text \<open>
  C6. Inserting a new key implements insertion into the sorted entries: when the call succeeds the
  pages store a search tree with the old entries and the new one, whether the entry fitted into its
  leaf, leaves and internal pages were split on the way up, or the root was split and the tree has
  grown by a level; the pages of other trees are unchanged. The call always returns and leaves no
  page pinned.
\<close>

theorem btree_insert_refines:
  assumes "win32_files os content" "pages_ok content txns db [] s"
    and "btree_stores bt (page_map db txns s) t" "btree_layout bt"
    and "length key = bt_ks bt" "length v = bt_vs bt" "key \<notin> fst ` set (contents t)"
  shows "\<exists>s' r. btree_insert os bt key v s = Some (s', r) \<and> pages_ok content txns db [] s' \<and>
    (r = Ok \<longrightarrow>
      (\<exists>t'. btree_stores bt (page_map db txns s') t' \<and> contents t' = insert_sorted key v (contents t) \<and>
        map_of (contents t') = (map_of (contents t))(key \<mapsto> v) \<and>
        set (page_ids t') \<subseteq> set (page_ids t) \<union> - dom (page_map db txns s)) \<and>
      (\<forall>p d. page_map db txns s p = Some d \<longrightarrow> p \<notin> set (page_ids t) \<longrightarrow> page_map db txns s' p = Some d))"
proof (rule runD[OF win32_files.insert_run[OF assms(1,3,5,6,4,7)] assms(2) refl])
  fix s' r assume r: "btree_insert os bt key v s = Some (s', r)" "pages_ok content txns db [] s'"
    "\<And>x. r = Inr x \<Longrightarrow> grown bt (page_map db txns s) t key v (page_map db txns s')"
  have "map_of (insert_sorted key v (contents t)) = (map_of (contents t))(key \<mapsto> v)"
    by (rule map_of_insert_sorted[OF assms(7)])
  with r show ?thesis by (fastforce simp: grown_def domI)
qed

theorem btree_insert_refines_witness:
  "\<exists>s' r. btree_insert (mem_os (\<lambda>n. None)) small_bt [3] [9] (tree_pager, tree_files) = Some (s', r) \<and>
    (r = Ok \<longrightarrow> (\<exists>t'. btree_stores small_bt (page_map tree_db [] s') t' \<and> contents t' = [([3], [9]), ([5], [7])]))"
  using btree_insert_refines[OF mem_os_files tree_pager_ok _ small_layout, of small_tree "[3]" "[9]" "\<lambda>n. None"]
    small_tree_stored by (fastforce simp: tree_pager_pages small_bt_def insert_sorted_def)

text \<open>
  With the pages of the tree in the pool, an active transaction and room in the leaves,
  inserting a new key succeeds.
\<close>

theorem btree_insert_cached_succeeds:
  assumes "btree_stores bt (page_map db txns s) t" "length key = bt_ks bt" "length v = bt_vs bt"
    and "pages_ok content txns db [] s" "resident s (set (page_ids t))" "tx_status (pr_tx (fst s)) = Active"
    and "key \<notin> fst ` set (contents t)"
    and "\<And>p es nx. (p, es, nx) \<in> set (leaves t) \<Longrightarrow> length es < leaf_capacity_of (bt_ks bt) (bt_vs bt)"
  shows "\<exists>s'. btree_insert os bt key v s = Some (s', Ok)"
  by (rule cached_insert[OF assms])

theorem btree_insert_cached_succeeds_witness:
  "\<exists>s'. btree_insert (mem_os (\<lambda>n. None)) small_bt [3] [9] (cached_pager, tree_files) = Some (s', Ok)"
proof -
  have "btree_stores small_bt (page_map tree_db [] (cached_pager, tree_files)) small_tree"
    using small_tree_stored by (simp add: cached_pager_pages)
  moreover have "resident (cached_pager, tree_files) (set (page_ids small_tree))"
    using cached_pool(2) by (simp add: resident_def cached_pager_def tree_pager_def)
  ultimately show ?thesis
    using btree_insert_cached_succeeds[OF _ _ _ cached_pager_ok, of small_bt small_tree "[3]" "[9]" "mem_os (\<lambda>n. None)"]
    by (auto simp: small_bt_def cached_pager_def tree_pager_def leaf_capacity_of_def numeral_2_eq_2[symmetric])
qed

text \<open>
  Inserting a key that the tree has already is an error and changes no page.
\<close>

theorem btree_insert_duplicate_refused:
  assumes "win32_files os content" "pages_ok content txns db [] s"
    and "btree_stores bt (page_map db txns s) t"
    and "length key = bt_ks bt" "length v = bt_vs bt" "key \<in> fst ` set (contents t)"
  shows "\<exists>s' e. btree_insert os bt key v s = Some (s', Inl e) \<and> pages_ok content txns db [] s' \<and>
    page_map db txns s' = page_map db txns s"
proof (rule runD[OF win32_files.insert_present_run[OF assms(1,3-6)] assms(2) refl])
  fix s' r assume "btree_insert os bt key v s = Some (s', r)" "pages_ok content txns db [] s'"
    "\<And>e. r = Inl e \<Longrightarrow> page_map db txns s' = page_map db txns s" "\<And>x. r = Inr x \<Longrightarrow> False"
  then show ?thesis by (cases r) auto
qed

theorem btree_insert_duplicate_refused_witness:
  "\<exists>s' e. btree_insert (mem_os (\<lambda>n. None)) small_bt [5] [9] (tree_pager, tree_files) = Some (s', Inl e) \<and>
    page_map tree_db [] s' = [1 \<mapsto> small_leaf]"
  using btree_insert_duplicate_refused[OF mem_os_files tree_pager_ok, of small_bt small_tree "[5]" "[9]" "\<lambda>n. None"]
    small_tree_stored by (auto simp: tree_pager_pages small_bt_def)

text \<open>
  C19. An update replaces the value of a key the tree has and keeps its shape: on success the entries
  are the old ones with the new value, on failure no page has changed; a missing key always fails.
\<close>

theorem btree_update_refines:
  assumes "win32_files os content" "pages_ok content txns db [] s"
    and "btree_stores bt (page_map db txns s) t" "length key = bt_ks bt" "length v = bt_vs bt"
  shows "\<exists>s' r. btree_update_value os bt key v s = Some (s', r) \<and> pages_ok content txns db [] s' \<and>
    (if r = Ok then map_of (contents t) key \<noteq> None \<and>
       (\<exists>t'. btree_stores bt (page_map db txns s') t' \<and> contents t' = set_value key v (contents t) \<and>
         page_ids t' = page_ids t) \<and>
       (\<forall>q. q \<notin> set (page_ids t) \<longrightarrow> page_map db txns s' q = page_map db txns s q)
     else page_map db txns s' = page_map db txns s)"
proof (rule runD[OF win32_files.update_run[OF assms(1,3-5)] assms(2) refl])
  fix s' r assume "btree_update_value os bt key v s = Some (s', r)" "pages_ok content txns db [] s'"
    "\<And>e. r = Inl e \<Longrightarrow> page_map db txns s' = page_map db txns s"
    "\<And>x. r = Inr x \<Longrightarrow> map_of (contents t) key \<noteq> None \<and>
      (\<exists>t'. btree_stores bt (page_map db txns s') t' \<and> contents t' = set_value key v (contents t) \<and>
        page_ids t' = page_ids t) \<and>
      (\<forall>q. q \<notin> set (page_ids t) \<longrightarrow> page_map db txns s' q = page_map db txns s q)"
  then show ?thesis by (cases r) auto
qed

theorem btree_update_refines_witness:
  "\<exists>s' r. btree_update_value (mem_os (\<lambda>n. None)) small_bt [5] [9] (tree_pager, tree_files) = Some (s', r) \<and>
    (if r = Ok then \<exists>t'. btree_stores small_bt (page_map tree_db [] s') t' \<and> contents t' = [([5], [9])]
     else page_map tree_db [] s' = [1 \<mapsto> small_leaf])"
  using btree_update_refines[OF mem_os_files tree_pager_ok, of small_bt small_tree "[5]" "[9]" "\<lambda>n. None"]
    small_tree_stored by (fastforce simp: tree_pager_pages small_bt_def set_value_def split: if_splits)

lemma dropWhile_below:
  fixes key :: bytes
  shows "sorted (map fst es) \<Longrightarrow> dropWhile (\<lambda>e. fst e < key) es = filter (\<lambda>e. key \<le> fst e) es"
  by (induction es) (auto simp: not_less filter_id_conv[THEN iffD2] intro: filter_True[symmetric] order_trans)

text \<open>
  C18. A scan starts at the first entry that is not below its lower bound: the cursor it returns is
  in front of exactly the remaining entries, in key order.
\<close>

theorem btree_scan_starts_at_lower_bound:
  assumes "win32_files os content" "pages_ok content txns db [] s"
    and "btree_stores bt (page_map db txns s) t" "bound_fits bt lower" "bound_fits bt upper"
  shows "\<exists>s' r. btree_scan_range os bt lower upper s = Some (s', r) \<and> pages_ok content txns db [] s' \<and>
    page_map db txns s' = page_map db txns s \<and>
    (\<forall>cu. r = Inr cu \<longrightarrow> cu_upper_bound cu = upper \<and> cursor_at t cu
      (filter (\<lambda>e. case lower of None \<Rightarrow> True | Some key \<Rightarrow> key \<le> fst e) (contents t)))"
proof -
  have "forest (nodes (bt_ks bt) (bt_vs bt) (page_map db txns s)) True INVALID_PAGE_ID None [([], t)]"
    using assms(3) by (simp add: btree_stores_def)
  then have "sorted (map fst (contents t))"
    using ordered_contents(2)[of "[]" None t] by (simp add: forest_def)
  then have same: "dropWhile (\<lambda>e. case lower of None \<Rightarrow> False | Some key \<Rightarrow> fst e < key) (contents t) =
      filter (\<lambda>e. case lower of None \<Rightarrow> True | Some key \<Rightarrow> key \<le> fst e) (contents t)"
    by (cases lower) (simp_all add: dropWhile_False dropWhile_below)
  show ?thesis
  proof (rule runD[OF win32_files.scan_run[OF assms(1), where P = "\<lambda>m. m = page_map db txns s" and t = t and ?m1.0 = "page_map db txns s"]
        assms(2)])
    fix s' r assume r: "btree_scan_range os bt lower upper s = Some (s', r)" "pages_ok content txns db [] s'"
      "\<And>e. r = Inl e \<Longrightarrow> page_map db txns s' = page_map db txns s"
      "\<And>cu. r = Inr cu \<Longrightarrow> (cu_upper_bound cu = upper \<and> cursor_at t cu
        (dropWhile (\<lambda>e. case lower of None \<Rightarrow> False | Some key \<Rightarrow> fst e < key) (contents t))) \<and>
        page_map db txns s' = page_map db txns s"
    then have "page_map db txns s' = page_map db txns s" by (cases r) simp_all
    with r show ?thesis unfolding same by auto
  qed (use assms(3-5) in simp_all)
qed

theorem btree_scan_starts_at_lower_bound_witness:
  "\<exists>s' r. btree_scan_range (mem_os (\<lambda>n. None)) small_bt (Some [6]) None (tree_pager, tree_files) = Some (s', r) \<and>
    (\<forall>cu. r = Inr cu \<longrightarrow> cursor_at small_tree cu [])"
  using btree_scan_starts_at_lower_bound[OF mem_os_files tree_pager_ok, of small_bt small_tree "Some [6]" None "\<lambda>n. None"]
    small_tree_stored by (auto simp: tree_pager_pages small_bt_def bound_fits_def)

text \<open>
  C17. A cursor yields the entries in front of it one by one, in key order and across leaves, up to
  the upper bound, and then the end; a call that fails leaves the cursor where it was.
\<close>

theorem cursor_yields_in_order:
  assumes "win32_files os content" "pages_ok content txns db [] s"
    and "btree_stores bt (page_map db txns s) t" "cursor_at t cu rest" "bound_fits bt (cu_upper_bound cu)"
  shows "\<exists>s' cu' r. cursor_next os s cu = Some (s', cu', r) \<and> pages_ok content txns db [] s' \<and>
    page_map db txns s' = page_map db txns s \<and> cu_upper_bound cu' = cu_upper_bound cu \<and>
    (case r of
       Inl e \<Rightarrow> cursor_at t cu' rest
     | Inr None \<Rightarrow> cursor_at t cu' [] \<and> (rest = [] \<or> \<not> within_bound cu (hd rest))
     | Inr (Some e) \<Rightarrow> rest \<noteq> [] \<and> e = hd rest \<and> within_bound cu e \<and> cursor_at t cu' (tl rest))"
  by (rule win32_files.cursor_next_run[OF assms])

theorem cursor_yields_in_order_witness:
  "\<exists>s' cu' r. cursor_next (mem_os (\<lambda>n. None)) (tree_pager, tree_files)
      \<lparr>cu_current_leaf_page_id = 1, cu_entry_index = 0, cu_upper_bound = Some [5]\<rparr> = Some (s', cu', r) \<and>
    (\<forall>x. r = Inr x \<longrightarrow> x = None \<and> cursor_at small_tree cu' [])"
proof -
  let ?cu = "\<lparr>cu_current_leaf_page_id = 1, cu_entry_index = 0, cu_upper_bound = Some [5 :: byte]\<rparr>"
  let ?E = "[([5], [7])] :: (bytes \<times> bytes) list"
  have "cursor_at small_tree ?cu ?E"
    unfolding cursor_at_def using append_Nil[of "leaves small_tree"] by fastforce
  note step = cursor_yields_in_order[OF mem_os_files tree_pager_ok _ this, of small_bt "\<lambda>n. None"]
  have stored: "btree_stores small_bt (page_map tree_db [] (tree_pager, tree_files)) small_tree"
    "bound_fits small_bt (cu_upper_bound ?cu)"
    using small_tree_stored by (simp_all add: tree_pager_pages bound_fits_def small_bt_def)
  from step[OF stored] obtain s' cu' r where
    run: "cursor_next (mem_os (\<lambda>n. None)) (tree_pager, tree_files) ?cu = Some (s', cu', r)"
    and res: "case r of Inl e \<Rightarrow> cursor_at small_tree cu' ?E
      | Inr None \<Rightarrow> cursor_at small_tree cu' [] \<and> (?E = [] \<or> \<not> within_bound ?cu (hd ?E))
      | Inr (Some e) \<Rightarrow> ?E \<noteq> [] \<and> e = hd ?E \<and> within_bound ?cu e \<and> cursor_at small_tree cu' (tl ?E)"
    by blast
  have "x = None \<and> cursor_at small_tree cu' []" if "r = Inr x" for x
    using res that by (cases x) (auto simp: within_bound_def)
  with run show ?thesis by blast
qed



end
