(* ===== verification/SqlLexer.thy ===== *)
theory SqlLexer
  imports RecordTypes
begin

text \<open>
  Tokens and the lexer: \<^verbatim>\<open>sql/Token.h\<close>, \<^verbatim>\<open>sql/Lexer.h\<close> and \<^verbatim>\<open>sql/Lexer.cpp\<close>. The members of
  the class are a record; a member function returns the changed record. \<open>TokenKind::X\<close> is
  \<open>TkX\<close>. Lines and columns are naturals. The reference is the text itself: a token covers a
  piece of the source, and between tokens there is white space only.
\<close>

section \<open>Tokens\<close>

datatype token_kind =
    TkCreate | TkTable | TkPrimary | TkKey | TkUnique | TkDrop | TkIndex | TkOn | TkInsert | TkInto
  | TkValues | TkSelect | TkFrom | TkWhere | TkUpdate | TkSet | TkDelete
  | TkBegin | TkCommit | TkRollback | TkCheckpoint
  | TkInt8 | TkInt16 | TkInt32 | TkInt64 | TkDouble | TkString | TkBool
  | TkIs | TkNot
  | TkIdentifier | TkIntegerLiteral | TkDoubleLiteral | TkStringLiteral | TkBooleanLiteral | TkNullLiteral
  | TkSemicolon | TkComma | TkLeftParen | TkRightParen | TkAsterisk | TkEqual | TkGreater
  | TkGreaterEqual | TkLess | TkLessEqual | TkNotEqual
  | TkEndOfInput

record source_location =
  loc_line :: nat
  loc_column :: nat

record token =
  tk_kind :: token_kind
  tk_lexeme :: string
  tk_location :: source_location

section \<open>Characters and reserved words\<close>

definition is_ascii_digit :: "char \<Rightarrow> bool" where
  "is_ascii_digit ch \<longleftrightarrow> of_char CHR ''0'' \<le> (of_char ch :: nat) \<and> (of_char ch :: nat) \<le> of_char CHR ''9''"

definition is_ascii_letter :: "char \<Rightarrow> bool" where
  "is_ascii_letter ch \<longleftrightarrow>
     (of_char CHR ''a'' \<le> (of_char ch :: nat) \<and> (of_char ch :: nat) \<le> of_char CHR ''z'') \<or>
     (of_char CHR ''A'' \<le> (of_char ch :: nat) \<and> (of_char ch :: nat) \<le> of_char CHR ''Z'')"

definition is_ascii_alphanumeric :: "char \<Rightarrow> bool" where
  "is_ascii_alphanumeric ch \<longleftrightarrow> is_ascii_letter ch \<or> is_ascii_digit ch"

definition to_ascii_upper :: "char \<Rightarrow> char" where
  "to_ascii_upper ch =
     (if of_char CHR ''a'' \<le> (of_char ch :: nat) \<and> (of_char ch :: nat) \<le> of_char CHR ''z''
      then char_of ((of_char ch :: nat) - of_char CHR ''a'' + of_char CHR ''A'') else ch)"

definition RESERVED_WORD_KINDS :: "(string \<times> token_kind) list" where
  "RESERVED_WORD_KINDS =
    [(''CREATE'', TkCreate), (''TABLE'', TkTable), (''PRIMARY'', TkPrimary), (''KEY'', TkKey),
     (''UNIQUE'', TkUnique), (''DROP'', TkDrop), (''INDEX'', TkIndex), (''ON'', TkOn),
     (''INSERT'', TkInsert), (''INTO'', TkInto), (''VALUES'', TkValues), (''SELECT'', TkSelect),
     (''FROM'', TkFrom), (''WHERE'', TkWhere), (''UPDATE'', TkUpdate), (''SET'', TkSet),
     (''DELETE'', TkDelete), (''BEGIN'', TkBegin), (''COMMIT'', TkCommit),
     (''ROLLBACK'', TkRollback), (''CHECKPOINT'', TkCheckpoint), (''INT8'', TkInt8),
     (''INT16'', TkInt16), (''INT32'', TkInt32), (''INT64'', TkInt64), (''DOUBLE'', TkDouble),
     (''STRING'', TkString), (''BOOL'', TkBool), (''IS'', TkIs), (''NOT'', TkNot),
     (''TRUE'', TkBooleanLiteral), (''FALSE'', TkBooleanLiteral), (''NULL'', TkNullLiteral)]"

section \<open>The lexer\<close>

record lexer =
  lx_source :: string
  lx_current_pos :: nat
  lx_start_pos :: nat
  lx_current_location :: source_location
  lx_start_location :: source_location
  lx_tokens :: "token list"

definition lexer_new :: "string \<Rightarrow> lexer" where
  "lexer_new source = \<lparr>lx_source = source, lx_current_pos = 0, lx_start_pos = 0,
     lx_current_location = \<lparr>loc_line = 1, loc_column = 1\<rparr>,
     lx_start_location = \<lparr>loc_line = 1, loc_column = 1\<rparr>, lx_tokens = []\<rparr>"

definition lexer_is_at_end :: "lexer \<Rightarrow> bool" where
  "lexer_is_at_end lx \<longleftrightarrow> lx_current_pos lx \<ge> length (lx_source lx)"

definition peek_char :: "lexer \<Rightarrow> char option" where
  "peek_char lx = (if lexer_is_at_end lx then None else Some (lx_source lx ! lx_current_pos lx))"

definition consume_char :: "lexer \<Rightarrow> lexer \<times> char" where
  "consume_char lx =
     (let ch = lx_source lx ! lx_current_pos lx; location = lx_current_location lx in
      (lx\<lparr>lx_current_location := (if ch = CHR 0x0A
            then \<lparr>loc_line = loc_line location + 1, loc_column = 1\<rparr>
            else location\<lparr>loc_column := loc_column location + 1\<rparr>),
          lx_current_pos := lx_current_pos lx + 1\<rparr>, ch))"

definition match_char :: "char \<Rightarrow> lexer \<Rightarrow> lexer \<times> bool" where
  "match_char expected lx =
     (if lexer_is_at_end lx then (lx, False)
      else if lx_source lx ! lx_current_pos lx \<noteq> expected then (lx, False)
      else (fst (consume_char lx), True))"

definition add_token :: "token_kind \<Rightarrow> string \<Rightarrow> source_location \<Rightarrow> lexer \<Rightarrow> lexer" where
  "add_token kind lexeme location lx = lx\<lparr>lx_tokens := lx_tokens lx @
     [\<lparr>tk_kind = kind, tk_lexeme = lexeme, tk_location = location\<rparr>]\<rparr>"

text \<open>\<open>source_.substr(pos, n)\<close>.\<close>

definition substr :: "string \<Rightarrow> nat \<Rightarrow> nat \<Rightarrow> string" where
  "substr source pos n = take n (drop pos source)"

definition add_current_token :: "token_kind \<Rightarrow> lexer \<Rightarrow> lexer" where
  "add_current_token kind lx =
     add_token kind (substr (lx_source lx) (lx_start_pos lx) (lx_current_pos lx - lx_start_pos lx))
       (lx_start_location lx) lx"

text \<open>The loops \<open>while(!is_at_end() && P(*peek_char())) consume_char();\<close>.\<close>

function consume_while :: "(char \<Rightarrow> bool) \<Rightarrow> lexer \<Rightarrow> lexer" where
  "consume_while P lx =
     (if \<not> lexer_is_at_end lx \<and> P (the (peek_char lx))
      then consume_while P (fst (consume_char lx)) else lx)"
  by pat_completeness auto
termination
  by (relation "measure (\<lambda>(P, lx). length (lx_source lx) - lx_current_pos lx)")
    (auto simp: lexer_is_at_end_def consume_char_def Let_def)

declare consume_while.simps [simp del]

definition tokenize_identifier_or_reserved_word :: "lexer \<Rightarrow> lexer \<times> status" where
  "tokenize_identifier_or_reserved_word lx =
     (let lx = consume_while (\<lambda>ch. is_ascii_alphanumeric ch \<or> ch = CHR ''_'') lx;
          lexeme = map to_ascii_upper
            (substr (lx_source lx) (lx_start_pos lx) (lx_current_pos lx - lx_start_pos lx)) in
      (case map_of RESERVED_WORD_KINDS lexeme of
         None \<Rightarrow> (add_current_token TkIdentifier lx, Ok)
       | Some kind \<Rightarrow> (add_current_token kind lx, Ok)))"

definition tokenize_number :: "lexer \<Rightarrow> lexer \<times> status" where
  "tokenize_number lx =
     (let lx = consume_while is_ascii_digit lx in
      if peek_char lx = Some CHR ''.'' then
        let lx = fst (consume_char lx) in
        if lexer_is_at_end lx \<or> \<not> is_ascii_digit (the (peek_char lx)) then (lx, Inl ParseError)
        else (add_current_token TkDoubleLiteral (consume_while is_ascii_digit lx), Ok)
      else (add_current_token TkIntegerLiteral lx, Ok))"

definition tokenize_string :: "lexer \<Rightarrow> lexer \<times> status" where
  "tokenize_string lx =
     (let lx = consume_while (\<lambda>ch. ch \<noteq> CHR 0x27) lx in
      if lexer_is_at_end lx then (lx, Inl IncompleteInput)
      else let lx = fst (consume_char lx) in
        (add_token TkStringLiteral (substr (lx_source lx) (lx_start_pos lx + 1)
           (lx_current_pos lx - 1 - (lx_start_pos lx + 1))) (lx_start_location lx) lx, Ok))"

definition tokenize_next :: "lexer \<Rightarrow> lexer \<times> status" where
  "tokenize_next lx = (case consume_char lx of (lx, ch) \<Rightarrow>
     if ch = CHR '';'' then (add_current_token TkSemicolon lx, Ok)
     else if ch = CHR '','' then (add_current_token TkComma lx, Ok)
     else if ch = CHR ''('' then (add_current_token TkLeftParen lx, Ok)
     else if ch = CHR '')'' then (add_current_token TkRightParen lx, Ok)
     else if ch = CHR ''*'' then (add_current_token TkAsterisk lx, Ok)
     else if ch = CHR ''='' then (add_current_token TkEqual lx, Ok)
     else if ch = CHR ''<'' then
       (case match_char CHR ''='' lx of
          (lx, True) \<Rightarrow> (add_current_token TkLessEqual lx, Ok)
        | (lx, False) \<Rightarrow> (add_current_token TkLess lx, Ok))
     else if ch = CHR ''>'' then
       (case match_char CHR ''='' lx of
          (lx, True) \<Rightarrow> (add_current_token TkGreaterEqual lx, Ok)
        | (lx, False) \<Rightarrow> (add_current_token TkGreater lx, Ok))
     else if ch = CHR ''!'' then
       (case match_char CHR ''='' lx of
          (lx, True) \<Rightarrow> (add_current_token TkNotEqual lx, Ok)
        | (lx, False) \<Rightarrow> (lx, Inl ParseError))
     else if ch = CHR '' '' \<or> ch = CHR 0x0D \<or> ch = CHR 0x09 \<or> ch = CHR 0x0A then (lx, Ok)
     else if ch = CHR 0x27 then tokenize_string lx
     else if is_ascii_digit ch then tokenize_number lx
     else if is_ascii_letter ch \<or> ch = CHR ''_'' then tokenize_identifier_or_reserved_word lx
     else (lx, Inl ParseError))"

section \<open>Every step consumes a character\<close>

text \<open>\<open>lx'\<close> is \<open>lx\<close> further on in the same source, with the same start of the current token.\<close>

definition ahead :: "lexer \<Rightarrow> lexer \<Rightarrow> bool" where
  "ahead lx lx' \<longleftrightarrow> lx_source lx' = lx_source lx \<and> lx_start_pos lx' = lx_start_pos lx \<and>
     lx_start_location lx' = lx_start_location lx \<and> lx_current_pos lx \<le> lx_current_pos lx'"

lemma ahead_refl [simp]: "ahead lx lx"
  and ahead_trans: "ahead a b \<Longrightarrow> ahead b c \<Longrightarrow> ahead a c"
  by (auto simp: ahead_def)

lemma ahead_steps [simp]:
  "ahead lx (fst (consume_char lx))" "ahead lx (fst (match_char c lx))"
  "ahead lx (add_token k l loc lx') = ahead lx lx'" "ahead lx (add_current_token k lx') = ahead lx lx'"
  by (auto simp: ahead_def consume_char_def match_char_def add_token_def add_current_token_def Let_def)

lemma ahead_consume_while [simp]: "ahead lx (consume_while P lx)"
proof (induction P lx rule: consume_while.induct)
  case (1 P lx)
  then show ?case
    by (subst consume_while.simps) (auto intro: ahead_trans[OF ahead_steps(1)])
qed

lemma consume_char_pos [simp]: "lx_current_pos (fst (consume_char lx)) = Suc (lx_current_pos lx)"
  by (simp add: consume_char_def Let_def)

lemma ahead_tokenize [simp]:
  "ahead lx (fst (tokenize_identifier_or_reserved_word lx))" "ahead lx (fst (tokenize_number lx))"
  "ahead lx (fst (tokenize_string lx))"
proof -
  show "ahead lx (fst (tokenize_identifier_or_reserved_word lx))"
    by (simp add: tokenize_identifier_or_reserved_word_def Let_def split: option.split)
  have then_while: "ahead lx (consume_while P (fst (consume_char (consume_while Q lx))))"
    and then_char: "ahead lx (fst (consume_char (consume_while Q lx)))" for P Q
    by (meson ahead_consume_while ahead_steps(1) ahead_trans)+
  show "ahead lx (fst (tokenize_number lx))" "ahead lx (fst (tokenize_string lx))"
    by (simp_all add: tokenize_number_def tokenize_string_def Let_def then_while then_char)
qed

lemma ahead_if:
  "(b \<Longrightarrow> ahead lx (fst x)) \<Longrightarrow> (\<not> b \<Longrightarrow> ahead lx (fst y)) \<Longrightarrow> ahead lx (fst (if b then x else y))"
  by simp

lemma ahead_match:
  "(\<And>lx2. ahead lx lx2 \<Longrightarrow> ahead lx (fst (f lx2))) \<Longrightarrow> (\<And>lx2. ahead lx lx2 \<Longrightarrow> ahead lx (fst (g lx2))) \<Longrightarrow>
   ahead lx (fst (case match_char c lx of (lx2, True) \<Rightarrow> f lx2 | (lx2, False) \<Rightarrow> g lx2))"
proof -
  assume f: "\<And>lx2. ahead lx lx2 \<Longrightarrow> ahead lx (fst (f lx2))" and g: "\<And>lx2. ahead lx lx2 \<Longrightarrow> ahead lx (fst (g lx2))"
  obtain lx2 b where m: "match_char c lx = (lx2, b)" by (cases "match_char c lx")
  then have "ahead lx lx2" using ahead_steps(2)[of lx c] by simp
  then show ?thesis using f g m by (cases b) simp_all
qed

lemma tokenize_next_ahead: "ahead (fst (consume_char lx)) (fst (tokenize_next lx))"
proof -
  obtain lx1 ch where c: "consume_char lx = (lx1, ch)" by (metis surj_pair)
  show ?thesis
    unfolding tokenize_next_def c prod.case fst_conv by (intro ahead_if ahead_match) simp_all
qed

lemma tokenize_next_pos: "lx_current_pos lx < lx_current_pos (fst (tokenize_next lx))"
  and tokenize_next_source [simp]: "lx_source (fst (tokenize_next lx)) = lx_source lx"
  using tokenize_next_ahead[of lx] ahead_steps(1)[of lx] by (auto simp: ahead_def Suc_le_eq)

text \<open>The loop of \<open>tokenize\<close>.\<close>

function tokenize_loop :: "lexer \<Rightarrow> token list result" where
  "tokenize_loop lx =
     (if lexer_is_at_end lx
      then Inr (lx_tokens (add_token TkEndOfInput [] (lx_current_location lx) lx))
      else (case tokenize_next (lx\<lparr>lx_start_pos := lx_current_pos lx,
              lx_start_location := lx_current_location lx\<rparr>) of
              (lx, Inl e) \<Rightarrow> Inl e
            | (lx, Inr _) \<Rightarrow> tokenize_loop lx))"
  by pat_completeness auto
termination
proof (relation "measure (\<lambda>lx. length (lx_source lx) - lx_current_pos lx)")
  fix lx lx' :: lexer and r :: status and x :: unit
  let ?lx = "lx\<lparr>lx_start_pos := lx_current_pos lx, lx_start_location := lx_current_location lx\<rparr>"
  assume "\<not> lexer_is_at_end lx" "(lx', r) = tokenize_next ?lx"
  then have "fst (tokenize_next ?lx) = lx'" "lx_current_pos lx < length (lx_source lx)"
    by (simp_all add: lexer_is_at_end_def) (metis fst_conv)
  then have "lx_source lx' = lx_source lx" "lx_current_pos lx < lx_current_pos lx'"
    using tokenize_next_pos[of ?lx] tokenize_next_source[of ?lx] by simp_all
  with \<open>lx_current_pos lx < length (lx_source lx)\<close>
  show "(lx', lx) \<in> measure (\<lambda>lx. length (lx_source lx) - lx_current_pos lx)" by auto
qed simp

declare tokenize_loop.simps [simp del]

definition tokenize :: "string \<Rightarrow> token list result" where
  "tokenize source = tokenize_loop (lexer_new source)"

end
