(* ===== verification/SqlAst.thy ===== *)
theory SqlAst
  imports SqlLexer
begin

text \<open>
  The syntax tree of \<^verbatim>\<open>sql/Ast.h\<close> and the readers of numeric literals in
  \<^verbatim>\<open>sql/Parser.cpp\<close>. \<open>std::from_chars\<close> is the function of the C++ standard library:
  for \<open>std::int64_t\<close> it reads an optional minus sign and digits, for \<open>double\<close> the fixed
  notation (the only one the lexer makes a token of) and rounds to the nearest binary64 number,
  ties to even.
\<close>

section \<open>Ast.h\<close>

record sql_identifier =
  id_text :: string
  id_location :: source_location

record column_type =
  ct_logical_type :: logical_type
  ct_location :: source_location

record column_constraints =
  cc_primary_key :: bool
  cc_unique :: bool
  cc_not_null :: bool

record column_definition =
  cd_name :: sql_identifier
  cd_type :: column_type
  cd_constraints :: column_constraints
  cd_location :: source_location

record literal_expression =
  le_value :: literal_value
  le_location :: source_location

datatype comparison_operator =
    OpEqual | OpNotEqual | OpLess | OpLessEqual | OpGreater | OpGreaterEqual | OpIsNull | OpIsNotNull

record predicate =
  pd_column_name :: sql_identifier
  pd_operator :: comparison_operator
  pd_literal :: "literal_expression option"
  pd_location :: source_location

record assignment =
  as_column_name :: sql_identifier
  as_value :: literal_expression
  as_location :: source_location

datatype select_projection = SelectAll source_location | SelectColumns "sql_identifier list" source_location

record create_table_statement =
  crt_table_name :: sql_identifier
  crt_columns :: "column_definition list"
  crt_location :: source_location

record drop_table_statement =
  drt_table_name :: sql_identifier
  drt_location :: source_location

record create_index_statement =
  cri_index_name :: sql_identifier
  cri_table_name :: sql_identifier
  cri_column_name :: sql_identifier
  cri_unique :: bool
  cri_location :: source_location

record drop_index_statement =
  dri_index_name :: sql_identifier
  dri_location :: source_location

record insert_statement =
  ins_table_name :: sql_identifier
  ins_values :: "literal_expression list"
  ins_location :: source_location

record select_statement =
  sel_projection :: select_projection
  sel_table_name :: sql_identifier
  sel_predicate :: "predicate option"
  sel_location :: source_location

record update_statement =
  upd_table_name :: sql_identifier
  upd_assignment :: assignment
  upd_predicate :: "predicate option"
  upd_location :: source_location

record delete_statement =
  del_table_name :: sql_identifier
  del_predicate :: "predicate option"
  del_location :: source_location

datatype statement =
    CreateTableStatement create_table_statement
  | DropTableStatement drop_table_statement
  | CreateIndexStatement create_index_statement
  | DropIndexStatement drop_index_statement
  | InsertStatement insert_statement
  | SelectStatement select_statement
  | UpdateStatement update_statement
  | DeleteStatement delete_statement
  | BeginStatement source_location
  | CommitStatement source_location
  | RollbackStatement source_location
  | CheckpointStatement source_location

section \<open>std::from_chars\<close>

text \<open>The error of \<open>from_chars\<close>, or the value and the characters behind the number.\<close>

datatype 'a from_chars = InvalidNumber | OutOfRange | Parsed 'a string

definition digit_value :: "char \<Rightarrow> int" where
  "digit_value ch = of_char ch - of_char CHR ''0''"

definition decimal :: "string \<Rightarrow> int" where
  "decimal digits = foldl (\<lambda>value ch. value * 10 + digit_value ch) 0 digits"

definition from_chars_int64 :: "string \<Rightarrow> i64 from_chars" where
  "from_chars_int64 s =
     (let (sign, s) = (case s of [] \<Rightarrow> (1, s) | ch # rest \<Rightarrow> if ch = CHR ''-'' then (- 1, rest) else (1 :: int, s));
          digits = takeWhile is_ascii_digit s; value = sign * decimal digits in
      if digits = [] then InvalidNumber
      else if value < - (2 ^ 63) \<or> 2 ^ 63 \<le> value then OutOfRange
      else Parsed (of_int value) (dropWhile is_ascii_digit s))"

text \<open>
  The binary64 number nearest to \<open>n / d\<close>: \<open>2 ^ 1074 * n / d\<close> is the number in units of the
  least positive binary64 number, \<open>e\<close> the binary exponent in which its significand has 53 bits
  (0 for subnormal numbers) and \<open>m\<close> the rounded significand. The bit pattern is
  \<open>e * 2 ^ 52 + m\<close>, because the leading bit of a normal significand adds one to the exponent
  field, and so does a carry out of it.
\<close>

definition round_half_even :: "int \<Rightarrow> int \<Rightarrow> int" where
  "round_half_even n d = (let q = n div d; r = n mod d in
     if 2 * r < d \<or> 2 * r = d \<and> even q then q else q + 1)"

function bit_length :: "int \<Rightarrow> nat" where
  "bit_length x = (if x \<le> 0 then 0 else Suc (bit_length (x div 2)))"
  by pat_completeness auto
termination by (relation "measure nat") auto

declare bit_length.simps [simp del]

definition nearest_double :: "int \<Rightarrow> int \<Rightarrow> int" where
  "nearest_double n d =
     (let units = n * 2 ^ 1074; e = bit_length (units div d) - 53; m = round_half_even units (d * 2 ^ e) in
      int e * 2 ^ 52 + m)"

text \<open>The bit pattern of positive infinity.\<close>

definition DOUBLE_INFINITY :: int where
  "DOUBLE_INFINITY = 2047 * 2 ^ 52"

definition from_chars_double :: "string \<Rightarrow> float64 from_chars" where
  "from_chars_double s =
     (let (negative, s) = (case s of [] \<Rightarrow> (False, s) | ch # rest \<Rightarrow> if ch = CHR ''-'' then (True, rest) else (False, s));
          whole = takeWhile is_ascii_digit s; s = dropWhile is_ascii_digit s;
          (fraction, s) = (case s of [] \<Rightarrow> ([], s) | ch # rest \<Rightarrow>
            if ch = CHR ''.'' then (takeWhile is_ascii_digit rest, dropWhile is_ascii_digit rest) else ([], s));
          digits = decimal (whole @ fraction);
          bits = nearest_double digits (10 ^ length fraction) in
      if whole @ fraction = [] then InvalidNumber
      else if DOUBLE_INFINITY \<le> bits \<or> bits = 0 \<and> digits \<noteq> 0 then OutOfRange
      else Parsed (of_int bits + (if negative then 2 ^ 63 else 0)) s)"

section \<open>The literals of Parser.cpp\<close>

definition parse_integer_literal :: "string \<Rightarrow> i64 result" where
  "parse_integer_literal lexeme = (case from_chars_int64 lexeme of
     OutOfRange \<Rightarrow> Inl ParseError
   | InvalidNumber \<Rightarrow> Inl ParseError
   | Parsed value rest \<Rightarrow> if rest \<noteq> [] then Inl ParseError else Inr value)"

definition parse_double_literal :: "string \<Rightarrow> float64 result" where
  "parse_double_literal lexeme = (case from_chars_double lexeme of
     OutOfRange \<Rightarrow> Inl ParseError
   | InvalidNumber \<Rightarrow> Inl ParseError
   | Parsed value rest \<Rightarrow> if rest \<noteq> [] then Inl ParseError else Inr value)"

text \<open>
  The loop that reads a string capacity: \<open>static_cast<std::size_t>(ch-'0')\<close> and the sizes are
  64-bit words; \<open>None\<close> is the early return.
\<close>

fun read_capacity :: "u64 \<Rightarrow> string \<Rightarrow> u64 option" where
  "read_capacity capacity [] = Some capacity"
| "read_capacity capacity (ch # lexeme) =
     (let max_capacity = - 1; digit = of_char ch - of_char CHR ''0'' in
      if capacity > (max_capacity - digit) div 10 then None
      else read_capacity (capacity * 10 + digit) lexeme)"

section \<open>Integers are read exactly\<close>

lemma digit_value_bounds:
  assumes "is_ascii_digit ch"
  shows "0 \<le> digit_value ch" "digit_value ch \<le> 9"
proof -
  have "(48::nat) \<le> of_char ch" "of_char ch \<le> (57::nat)"
    using assms by (simp_all add: is_ascii_digit_def)
  moreover have "digit_value ch = int (of_char ch) - 48"
    unfolding digit_value_def of_nat_of_char by simp
  ultimately show "0 \<le> digit_value ch" "digit_value ch \<le> 9" by linarith+
qed

lemma decimal_step: "foldl (\<lambda>value ch. value * 10 + digit_value ch) (v :: int) (ch # ds) =
    foldl (\<lambda>value ch. value * 10 + digit_value ch) (v * 10 + digit_value ch) ds"
  by simp

lemma decimal_ge:
  "list_all is_ascii_digit ds \<Longrightarrow> 0 \<le> v \<Longrightarrow> v \<le> foldl (\<lambda>value ch. value * 10 + digit_value ch) v ds"
proof (induction ds arbitrary: v)
  case (Cons ch ds)
  then have d: "0 \<le> digit_value ch" using digit_value_bounds(1) by simp
  then have "v * 10 + digit_value ch \<le> foldl (\<lambda>value ch. value * 10 + digit_value ch) v (ch # ds)"
    using Cons by simp
  then show ?case using d Cons.prems(2) by linarith
qed simp

lemma div_ten_less: "(a :: int) div 10 < c \<longleftrightarrow> a < c * 10"
  by linarith

lemma read_capacity_from:
  "list_all is_ascii_digit ds \<Longrightarrow> read_capacity c ds =
     (let v = foldl (\<lambda>value ch. value * 10 + digit_value ch) (uint c) ds in if v < 2 ^ 64 then Some (of_int v) else None)"
proof (induction ds arbitrary: c)
  case Nil
  then show ?case using uint_lt2p[of c] by simp
next
  case (Cons ch ds)
  let ?d = "digit_value ch" and ?w = "of_char ch - of_char CHR ''0'' :: u64"
  have d: "0 \<le> ?d" "?d \<le> 9" using Cons.prems digit_value_bounds by simp_all
  have w: "?w = of_int ?d" by (simp add: digit_value_def of_int_of_char)
  have uw: "uint ?w = ?d" unfolding w using d by (simp add: uint_word_of_int take_bit_eq_mod)
  have "(- 1 - ?d) mod 2 ^ 64 = (2 ^ 64 - 1 - ?d + (- 1) * 2 ^ 64) mod 2 ^ 64" by simp
  also have "\<dots> = 2 ^ 64 - 1 - ?d" using d by (subst mod_mult_self1) simp
  finally have m: "(- 1 - ?d) mod 2 ^ 64 = 2 ^ 64 - 1 - ?d" .
  have "- 1 - ?w = of_int (- 1 - ?d)" unfolding w by simp
  then have max: "uint (- 1 - ?w) = 2 ^ 64 - 1 - ?d"
    using m by (simp only: uint_word_of_int take_bit_eq_mod) simp
  have test: "(c > (- 1 - ?w) div 10) \<longleftrightarrow> 2 ^ 64 \<le> uint c * 10 + ?d"
    unfolding word_less_def uint_div max by (simp add: div_ten_less) linarith
  show ?case
  proof (cases "2 ^ 64 \<le> uint c * 10 + ?d")
    case True
    have "uint c * 10 + ?d \<le> foldl (\<lambda>value ch. value * 10 + digit_value ch) (uint c) (ch # ds)"
      using Cons.prems d by (simp add: decimal_ge)
    then show ?thesis using True test by simp
  next
    case False
    have "c * 10 + ?w = of_int (uint c * 10 + ?d)" unfolding w by simp
    then have "uint (c * 10 + ?w) = uint c * 10 + ?d"
      using False d by (simp only: uint_word_of_int) simp
    then show ?thesis using Cons False test by simp
  qed
qed

lemma read_capacity_exact:
  "list_all is_ascii_digit ds \<Longrightarrow> read_capacity 0 ds = (if decimal ds < 2 ^ 64 then Some (of_int (decimal ds)) else None)"
  by (simp add: read_capacity_from decimal_def)

lemma decimal_nonneg: "list_all is_ascii_digit ds \<Longrightarrow> 0 \<le> decimal ds"
  using decimal_ge[of ds 0] by (simp add: decimal_def)

lemma parse_integer_literal_exact:
  assumes "list_all is_ascii_digit ds" "ds \<noteq> []"
  shows "parse_integer_literal ds = (if decimal ds < 2 ^ 63 then Inr (of_int (decimal ds)) else Inl ParseError)"
proof -
  have d: "takeWhile is_ascii_digit ds = ds" "dropWhile is_ascii_digit ds = []"
    using assms(1) by (simp_all add: list_all_iff)
  have c: "(case ds of [] \<Rightarrow> (1, ds) | ch # rest \<Rightarrow> if ch = CHR ''-'' then (- 1, rest) else (1 :: int, ds)) = (1, ds)"
    using assms by (cases ds) (auto simp: is_ascii_digit_def)
  show ?thesis
    unfolding parse_integer_literal_def from_chars_int64_def c Let_def prod.case d
    using assms(2) decimal_nonneg[OF assms(1)] by simp
qed

end
