(* ===== verification/SqlParser.thy ===== *)
theory SqlParser
  imports SqlAst
begin

text \<open>
  The recursive descent parser, \<^verbatim>\<open>sql/Parser.cpp\<close>. Its members, the vector of tokens and the
  position, are a record. A member function is a function from the parser to the parser and a
  result, or \<open>None\<close> if it reads the vector at an index that is not in range, which C++ leaves
  undefined, or if it does not return. The text of a message is not modelled.
\<close>

section \<open>The parser and its primitives\<close>

record parser =
  ps_tokens :: "token list"
  ps_current_pos :: nat

definition parser_new :: "token list \<Rightarrow> parser" where
  "parser_new tokens = \<lparr>ps_tokens = tokens, ps_current_pos = 0\<rparr>"

type_synonym 'a parse = "(parser, 'a) run"

definition parsed :: "'a \<Rightarrow> 'a parse" where
  "parsed x ps = Some (ps, Inr x)"

definition parse_fail :: "status_code \<Rightarrow> 'a parse" where
  "parse_fail e ps = Some (ps, Inl e)"

definition parse_result :: "'a result \<Rightarrow> 'a parse" where
  "parse_result r ps = Some (ps, r)"

definition token_at :: "nat \<Rightarrow> token parse" where
  "token_at i ps = (if i < length (ps_tokens ps) then Some (ps, Inr (ps_tokens ps ! i)) else None)"

definition current_token :: "token parse" where
  "current_token ps = token_at (ps_current_pos ps) ps"

text \<open>\<open>tokens_[current_pos_+1]\<close>.\<close>

definition next_token :: "token parse" where
  "next_token ps = token_at (ps_current_pos ps + 1) ps"

definition consume_token :: "token parse" where
  "consume_token = bind_run current_token (\<lambda>t ps. Some (ps\<lparr>ps_current_pos := ps_current_pos ps + 1\<rparr>, Inr t))"

definition is_at_end :: "bool parse" where
  "is_at_end = bind_run current_token (\<lambda>t. parsed (tk_kind t = TkEndOfInput))"

definition match_kind :: "token_kind \<Rightarrow> bool parse" where
  "match_kind expected = bind_run current_token (\<lambda>t.
     if tk_kind t \<noteq> expected then parsed False
     else bind_run consume_token (\<lambda>_. parsed True))"

definition expect_kind :: "token_kind \<Rightarrow> unit parse" where
  "expect_kind expected = bind_run is_at_end (\<lambda>at_end.
     if at_end \<and> expected \<noteq> TkEndOfInput then parse_fail IncompleteInput
     else bind_run current_token (\<lambda>t.
       if tk_kind t \<noteq> expected then parse_fail ParseError
       else bind_run consume_token (\<lambda>_. parsed ())))"

text \<open>The end of a \<open>switch\<close> without a case for the current token.\<close>

definition unexpected_token :: "'a parse" where
  "unexpected_token = bind_run is_at_end (\<lambda>at_end.
     parse_fail (if at_end then IncompleteInput else ParseError))"

text \<open>
  \<open>const auto token = current_token(); expect_kind(TokenKind::Identifier, ...)\<close> and the
  \<open>Identifier\<close> that the code builds of the token.
\<close>

definition expect_identifier :: "sql_identifier parse" where
  "expect_identifier = bind_run current_token (\<lambda>t. bind_run (expect_kind TkIdentifier) (\<lambda>_.
     parsed \<lparr>id_text = tk_lexeme t, id_location = tk_location t\<rparr>))"

definition current_location :: "source_location parse" where
  "current_location = bind_run current_token (\<lambda>t. parsed (tk_location t))"

text \<open>
  The loops \<open>while(current_token().kind == TokenKind::Comma) { consume_token(); ... }\<close> that
  push one more item per comma.
\<close>

partial_function (option) comma_loop :: "'a parse \<Rightarrow> 'a list \<Rightarrow> 'a list parse" where
  "comma_loop item items ps = bind_run current_token (\<lambda>t.
     if tk_kind t = TkComma
     then bind_run consume_token (\<lambda>_. bind_run item (\<lambda>x. comma_loop item (items @ [x])))
     else parsed items) ps"

section \<open>Column definitions\<close>

definition parse_string_capacity :: "token \<Rightarrow> source_location \<Rightarrow> column_type result" where
  "parse_string_capacity capacity_token location =
     (case read_capacity 0 (tk_lexeme capacity_token) of
        None \<Rightarrow> Inl ParseError
      | Some capacity \<Rightarrow>
          (case string_type (unat capacity) of
             Inl _ \<Rightarrow> Inl ParseError
           | Inr t \<Rightarrow> Inr \<lparr>ct_logical_type = t, ct_location = location\<rparr>))"

definition plain_column_type :: "logical_kind \<Rightarrow> column_type parse" where
  "plain_column_type k = bind_run consume_token (\<lambda>t.
     parsed \<lparr>ct_logical_type = plain_type k, ct_location = tk_location t\<rparr>)"

definition parse_column_type :: "column_type parse" where
  "parse_column_type = bind_run current_token (\<lambda>t.
     case tk_kind t of
       TkInt8 \<Rightarrow> plain_column_type Int8
     | TkInt16 \<Rightarrow> plain_column_type Int16
     | TkInt32 \<Rightarrow> plain_column_type Int32
     | TkInt64 \<Rightarrow> plain_column_type Int64
     | TkDouble \<Rightarrow> plain_column_type Float64
     | TkBool \<Rightarrow> plain_column_type Boolean
     | TkString \<Rightarrow>
         bind_run consume_token (\<lambda>type_token.
         bind_run (expect_kind TkLeftParen) (\<lambda>_.
         bind_run current_token (\<lambda>capacity_token.
         bind_run (expect_kind TkIntegerLiteral) (\<lambda>_.
         bind_run (expect_kind TkRightParen) (\<lambda>_.
           parse_result (parse_string_capacity capacity_token (tk_location type_token)))))))
     | _ \<Rightarrow> unexpected_token)"

text \<open>The loop over the constraints; a turn gives the constraints so far, or \<open>None\<close> at the end.\<close>

definition parse_constraint :: "column_constraints \<Rightarrow> column_constraints option parse" where
  "parse_constraint constraints = bind_run current_token (\<lambda>t.
     case tk_kind t of
       TkPrimary \<Rightarrow> bind_run consume_token (\<lambda>_. bind_run (expect_kind TkKey) (\<lambda>_.
         parsed (Some (constraints\<lparr>cc_primary_key := True\<rparr>))))
     | TkUnique \<Rightarrow> bind_run consume_token (\<lambda>_. parsed (Some (constraints\<lparr>cc_unique := True\<rparr>)))
     | TkNot \<Rightarrow> bind_run consume_token (\<lambda>_. bind_run (expect_kind TkNullLiteral) (\<lambda>_.
         parsed (Some (constraints\<lparr>cc_not_null := True\<rparr>))))
     | _ \<Rightarrow> parsed None)"

partial_function (option) constraints_loop :: "column_constraints \<Rightarrow> column_constraints parse" where
  "constraints_loop constraints ps = bind_run (parse_constraint constraints) (\<lambda>next.
     case next of None \<Rightarrow> parsed constraints | Some constraints' \<Rightarrow> constraints_loop constraints') ps"

definition parse_column_constraints :: "column_constraints parse" where
  "parse_column_constraints =
     constraints_loop \<lparr>cc_primary_key = False, cc_unique = False, cc_not_null = False\<rparr>"

definition parse_column_definition :: "column_definition parse" where
  "parse_column_definition =
     bind_run current_location (\<lambda>location.
     bind_run expect_identifier (\<lambda>name.
     bind_run parse_column_type (\<lambda>type.
     bind_run parse_column_constraints (\<lambda>constraints.
       parsed \<lparr>cd_name = name, cd_type = type, cd_constraints = constraints, cd_location = location\<rparr>))))"

section \<open>Literals and predicates\<close>

definition parse_literal :: "literal_expression parse" where
  "parse_literal = bind_run current_token (\<lambda>t.
     case tk_kind t of
       TkIntegerLiteral \<Rightarrow> bind_run consume_token (\<lambda>t.
         bind_run (parse_result (parse_integer_literal (tk_lexeme t))) (\<lambda>v.
         parsed \<lparr>le_value = LInteger v, le_location = tk_location t\<rparr>))
     | TkDoubleLiteral \<Rightarrow> bind_run consume_token (\<lambda>t.
         bind_run (parse_result (parse_double_literal (tk_lexeme t))) (\<lambda>v.
         parsed \<lparr>le_value = LReal v, le_location = tk_location t\<rparr>))
     | TkStringLiteral \<Rightarrow> bind_run consume_token (\<lambda>t.
         parsed \<lparr>le_value = LString (tk_lexeme t), le_location = tk_location t\<rparr>)
     | TkBooleanLiteral \<Rightarrow> bind_run consume_token (\<lambda>t.
         parsed \<lparr>le_value = LBoolean (case tk_lexeme t of [] \<Rightarrow> False | ch # _ \<Rightarrow> ch = CHR ''t'' \<or> ch = CHR ''T''),
           le_location = tk_location t\<rparr>)
     | TkNullLiteral \<Rightarrow> bind_run consume_token (\<lambda>t.
         parsed \<lparr>le_value = LNull, le_location = tk_location t\<rparr>)
     | _ \<Rightarrow> unexpected_token)"

definition parse_comparison_operator :: "comparison_operator parse" where
  "parse_comparison_operator = bind_run current_token (\<lambda>t.
     case tk_kind t of
       TkEqual \<Rightarrow> bind_run consume_token (\<lambda>_. parsed OpEqual)
     | TkNotEqual \<Rightarrow> bind_run consume_token (\<lambda>_. parsed OpNotEqual)
     | TkLess \<Rightarrow> bind_run consume_token (\<lambda>_. parsed OpLess)
     | TkLessEqual \<Rightarrow> bind_run consume_token (\<lambda>_. parsed OpLessEqual)
     | TkGreater \<Rightarrow> bind_run consume_token (\<lambda>_. parsed OpGreater)
     | TkGreaterEqual \<Rightarrow> bind_run consume_token (\<lambda>_. parsed OpGreaterEqual)
     | _ \<Rightarrow> unexpected_token)"

definition parse_predicate :: "predicate parse" where
  "parse_predicate =
     bind_run current_location (\<lambda>location.
     bind_run expect_identifier (\<lambda>column_name.
     bind_run (match_kind TkIs) (\<lambda>is_token.
       if is_token then
         bind_run (match_kind TkNullLiteral) (\<lambda>null_token.
         if null_token then
           parsed \<lparr>pd_column_name = column_name, pd_operator = OpIsNull, pd_literal = None,
             pd_location = location\<rparr>
         else bind_run (match_kind TkNot) (\<lambda>not_token.
           if not_token then
             bind_run (expect_kind TkNullLiteral) (\<lambda>_.
             parsed \<lparr>pd_column_name = column_name, pd_operator = OpIsNotNull, pd_literal = None,
               pd_location = location\<rparr>)
           else unexpected_token))
       else
         bind_run parse_comparison_operator (\<lambda>operator.
         bind_run parse_literal (\<lambda>literal.
         parsed \<lparr>pd_column_name = column_name, pd_operator = operator, pd_literal = Some literal,
           pd_location = location\<rparr>)))))"

text \<open>\<open>if(match_kind(TokenKind::Where)) { ... }\<close>: the optional predicate of a statement.\<close>

definition parse_where :: "predicate option parse" where
  "parse_where = bind_run (match_kind TkWhere) (\<lambda>where_token.
     if where_token then bind_run parse_predicate (\<lambda>p. parsed (Some p)) else parsed None)"

text \<open>
  C35. Integers are read exactly: a string capacity is the number its digits denote, from 1 up to the
  greatest size, and an integer literal the number from 0 up to the greatest 64-bit integer; every
  other number is refused, and the check in front of the multiplication refuses no more than that.
\<close>

theorem integers_read_exactly:
  assumes "list_all is_ascii_digit (tk_lexeme t)" "tk_lexeme t \<noteq> []"
  shows "parse_string_capacity t location =
      (let n = decimal (tk_lexeme t) in
       if 0 < n \<and> n < 2 ^ 64
       then Inr \<lparr>ct_logical_type = \<lparr>lt_kind = String, lt_capacity = Some (nat n)\<rparr>, ct_location = location\<rparr>
       else Inl ParseError) \<and>
    parse_integer_literal (tk_lexeme t) =
      (let n = decimal (tk_lexeme t) in if n < 2 ^ 63 then Inr (of_int n) else Inl ParseError)"
proof -
  let ?n = "decimal (tk_lexeme t)"
  have n: "0 \<le> ?n" by (rule decimal_nonneg[OF assms(1)])
  have "unat (of_int ?n :: u64) = nat ?n" if "?n < 2 ^ 64"
    using n that by (simp add: unsigned_of_int take_bit_eq_mod)
  then show ?thesis
    using n by (auto simp: parse_string_capacity_def read_capacity_exact[OF assms(1)] string_type_def Let_def
        parse_integer_literal_exact[OF assms])
qed

definition capacity_token :: "string \<Rightarrow> token" where
  "capacity_token digits = \<lparr>tk_kind = TkIntegerLiteral, tk_lexeme = digits, tk_location = \<lparr>loc_line = 1, loc_column = 1\<rparr>\<rparr>"

theorem integers_read_exactly_witness:
  "parse_string_capacity (capacity_token ''18446744073709551615'') \<lparr>loc_line = 1, loc_column = 1\<rparr> =
     Inr \<lparr>ct_logical_type = \<lparr>lt_kind = String, lt_capacity = Some 18446744073709551615\<rparr>,
       ct_location = \<lparr>loc_line = 1, loc_column = 1\<rparr>\<rparr> \<and>
   parse_string_capacity (capacity_token ''18446744073709551616'') \<lparr>loc_line = 1, loc_column = 1\<rparr> = Inl ParseError"
  using integers_read_exactly[of "capacity_token ''18446744073709551615''" "\<lparr>loc_line = 1, loc_column = 1\<rparr>"]
    integers_read_exactly[of "capacity_token ''18446744073709551616''" "\<lparr>loc_line = 1, loc_column = 1\<rparr>"]
  by (simp add: is_ascii_digit_def decimal_def digit_value_def capacity_token_def)

section \<open>Statements\<close>

definition parse_transaction_statement :: "statement parse" where
  "parse_transaction_statement =
     bind_run current_location (\<lambda>location.
     bind_run (match_kind TkBegin) (\<lambda>b. if b then parsed (BeginStatement location)
     else bind_run (match_kind TkCommit) (\<lambda>b. if b then parsed (CommitStatement location)
     else bind_run (match_kind TkRollback) (\<lambda>b. if b then parsed (RollbackStatement location)
     else bind_run (match_kind TkCheckpoint) (\<lambda>b. if b then parsed (CheckpointStatement location)
     else parse_fail ParseError)))))"

definition parse_create_table_statement :: "statement parse" where
  "parse_create_table_statement =
     bind_run current_location (\<lambda>location.
     bind_run (expect_kind TkCreate) (\<lambda>_.
     bind_run (expect_kind TkTable) (\<lambda>_.
     bind_run expect_identifier (\<lambda>table_name.
     bind_run (expect_kind TkLeftParen) (\<lambda>_.
     bind_run parse_column_definition (\<lambda>column.
     bind_run (comma_loop parse_column_definition [column]) (\<lambda>columns.
     bind_run (expect_kind TkRightParen) (\<lambda>_.
       parsed (CreateTableStatement \<lparr>crt_table_name = table_name, crt_columns = columns,
         crt_location = location\<rparr>)))))))))"

definition parse_create_index_statement :: "statement parse" where
  "parse_create_index_statement =
     bind_run current_location (\<lambda>location.
     bind_run (expect_kind TkCreate) (\<lambda>_.
     bind_run (match_kind TkUnique) (\<lambda>unique.
     bind_run (expect_kind TkIndex) (\<lambda>_.
     bind_run expect_identifier (\<lambda>index_name.
     bind_run (expect_kind TkOn) (\<lambda>_.
     bind_run expect_identifier (\<lambda>table_name.
     bind_run (expect_kind TkLeftParen) (\<lambda>_.
     bind_run expect_identifier (\<lambda>column_name.
     bind_run (expect_kind TkRightParen) (\<lambda>_.
       parsed (CreateIndexStatement \<lparr>cri_index_name = index_name, cri_table_name = table_name,
         cri_column_name = column_name, cri_unique = unique, cri_location = location\<rparr>)))))))))))"

definition parse_insert_statement :: "statement parse" where
  "parse_insert_statement =
     bind_run current_location (\<lambda>location.
     bind_run (expect_kind TkInsert) (\<lambda>_.
     bind_run (expect_kind TkInto) (\<lambda>_.
     bind_run expect_identifier (\<lambda>table_name.
     bind_run (expect_kind TkValues) (\<lambda>_.
     bind_run (expect_kind TkLeftParen) (\<lambda>_.
     bind_run parse_literal (\<lambda>literal.
     bind_run (comma_loop parse_literal [literal]) (\<lambda>values.
     bind_run (expect_kind TkRightParen) (\<lambda>_.
       parsed (InsertStatement \<lparr>ins_table_name = table_name, ins_values = values,
         ins_location = location\<rparr>))))))))))"

definition parse_select_projection :: "select_projection parse" where
  "parse_select_projection =
     bind_run current_location (\<lambda>location.
     bind_run (match_kind TkAsterisk) (\<lambda>asterisk.
       if asterisk then parsed (SelectAll location)
       else
         bind_run expect_identifier (\<lambda>column.
         bind_run (comma_loop expect_identifier [column]) (\<lambda>columns.
           parsed (SelectColumns columns location)))))"

definition parse_select_statement :: "statement parse" where
  "parse_select_statement =
     bind_run current_location (\<lambda>location.
     bind_run (expect_kind TkSelect) (\<lambda>_.
     bind_run parse_select_projection (\<lambda>projection.
     bind_run (expect_kind TkFrom) (\<lambda>_.
     bind_run expect_identifier (\<lambda>table_name.
     bind_run parse_where (\<lambda>predicate.
       parsed (SelectStatement \<lparr>sel_projection = projection, sel_table_name = table_name,
         sel_predicate = predicate, sel_location = location\<rparr>)))))))"

definition parse_update_statement :: "statement parse" where
  "parse_update_statement =
     bind_run current_location (\<lambda>location.
     bind_run (expect_kind TkUpdate) (\<lambda>_.
     bind_run expect_identifier (\<lambda>table_name.
     bind_run (expect_kind TkSet) (\<lambda>_.
     bind_run expect_identifier (\<lambda>column_name.
     bind_run (expect_kind TkEqual) (\<lambda>_.
     bind_run parse_literal (\<lambda>literal.
     bind_run parse_where (\<lambda>predicate.
       parsed (UpdateStatement \<lparr>upd_table_name = table_name,
         upd_assignment = \<lparr>as_column_name = column_name, as_value = literal,
           as_location = id_location column_name\<rparr>,
         upd_predicate = predicate, upd_location = location\<rparr>)))))))))"

definition parse_delete_statement :: "statement parse" where
  "parse_delete_statement =
     bind_run current_location (\<lambda>location.
     bind_run (expect_kind TkDelete) (\<lambda>_.
     bind_run (expect_kind TkFrom) (\<lambda>_.
     bind_run expect_identifier (\<lambda>table_name.
     bind_run parse_where (\<lambda>predicate.
       parsed (DeleteStatement \<lparr>del_table_name = table_name, del_predicate = predicate,
         del_location = location\<rparr>))))))"

definition parse_drop_table_statement :: "statement parse" where
  "parse_drop_table_statement =
     bind_run current_location (\<lambda>location.
     bind_run (expect_kind TkDrop) (\<lambda>_.
     bind_run (expect_kind TkTable) (\<lambda>_.
     bind_run expect_identifier (\<lambda>table_name.
       parsed (DropTableStatement \<lparr>drt_table_name = table_name, drt_location = location\<rparr>)))))"

definition parse_drop_index_statement :: "statement parse" where
  "parse_drop_index_statement =
     bind_run current_location (\<lambda>location.
     bind_run (expect_kind TkDrop) (\<lambda>_.
     bind_run (expect_kind TkIndex) (\<lambda>_.
     bind_run expect_identifier (\<lambda>index_name.
       parsed (DropIndexStatement \<lparr>dri_index_name = index_name, dri_location = location\<rparr>)))))"

definition parse_statement :: "statement parse" where
  "parse_statement = bind_run current_token (\<lambda>t.
     case tk_kind t of
       TkBegin \<Rightarrow> parse_transaction_statement
     | TkCommit \<Rightarrow> parse_transaction_statement
     | TkRollback \<Rightarrow> parse_transaction_statement
     | TkCheckpoint \<Rightarrow> parse_transaction_statement
     | TkCreate \<Rightarrow> bind_run next_token (\<lambda>t2.
         if tk_kind t2 = TkTable then parse_create_table_statement else parse_create_index_statement)
     | TkDrop \<Rightarrow> bind_run next_token (\<lambda>t2.
         if tk_kind t2 = TkTable then parse_drop_table_statement else parse_drop_index_statement)
     | TkInsert \<Rightarrow> parse_insert_statement
     | TkSelect \<Rightarrow> parse_select_statement
     | TkUpdate \<Rightarrow> parse_update_statement
     | TkDelete \<Rightarrow> parse_delete_statement
     | _ \<Rightarrow> parse_fail ParseError)"

partial_function (option) parse_loop :: "statement list \<Rightarrow> statement list parse" where
  "parse_loop statements ps = bind_run is_at_end (\<lambda>at_end.
     if \<not> at_end then
       bind_run parse_statement (\<lambda>statement.
       bind_run (expect_kind TkSemicolon) (\<lambda>_. parse_loop (statements @ [statement])))
     else parsed statements) ps"

definition parse :: "token list \<Rightarrow> statement list result option" where
  "parse tokens = map_option snd (parse_loop [] (parser_new tokens))"

declare comma_loop.simps [code] constraints_loop.simps [code] parse_loop.simps [code]

end
