(* ===== verification/SqlTokens.thy ===== *)
theory SqlTokens
  imports SqlLexer "HOL-Library.Sublist"
begin

text \<open>
  What the lexer makes of a text: the tokens and the white space between them are the text, every
  token has the location of its first character and the shape of its kind, and on the first lines
  of a text the lexer finds the first tokens or reports \<open>IncompleteInput\<close>.
\<close>

section \<open>Reading characters\<close>

definition advance_location :: "source_location \<Rightarrow> char \<Rightarrow> source_location" where
  "advance_location location ch = (if ch = CHR 0x0A then \<lparr>loc_line = loc_line location + 1, loc_column = 1\<rparr>
     else location\<lparr>loc_column := loc_column location + 1\<rparr>)"

text \<open>The text between the positions of two lexers.\<close>

definition between :: "lexer \<Rightarrow> lexer \<Rightarrow> string" where
  "between lx lx' = substr (lx_source lx) (lx_current_pos lx) (lx_current_pos lx' - lx_current_pos lx)"

text \<open>\<open>lx'\<close> has read on from \<open>lx\<close>.\<close>

definition reads :: "lexer \<Rightarrow> lexer \<Rightarrow> bool" where
  "reads lx lx' \<longleftrightarrow> lx_source lx' = lx_source lx \<and> lx_start_pos lx' = lx_start_pos lx \<and>
     lx_start_location lx' = lx_start_location lx \<and> lx_tokens lx' = lx_tokens lx \<and>
     lx_current_pos lx \<le> lx_current_pos lx' \<and> lx_current_pos lx' \<le> length (lx_source lx) \<and>
     lx_current_location lx' = foldl advance_location (lx_current_location lx) (between lx lx')"

lemma substr_append:
  assumes "i \<le> j" "j \<le> k"
  shows "substr s i (k - i) = substr s i (j - i) @ substr s j (k - j)"
  using take_add[of "j - i" "k - j" "drop i s"] assms by (simp add: substr_def)

lemma reads_refl: "lx_current_pos lx \<le> length (lx_source lx) \<Longrightarrow> reads lx lx"
  by (simp add: reads_def between_def substr_def)

lemma reads_trans: "reads a b \<Longrightarrow> reads b c \<Longrightarrow> reads a c"
  by (auto simp: reads_def between_def substr_append[of "lx_current_pos a" "lx_current_pos b" "lx_current_pos c"])

lemma reads_char:
  assumes "\<not> lexer_is_at_end lx"
  shows "reads lx (fst (consume_char lx))" "snd (consume_char lx) = lx_source lx ! lx_current_pos lx"
    "between lx (fst (consume_char lx)) = [lx_source lx ! lx_current_pos lx]"
  using assms by (auto simp: reads_def between_def substr_def consume_char_def Let_def lexer_is_at_end_def
      advance_location_def take_Suc_conv_app_nth hd_drop_conv_nth Cons_nth_drop_Suc[symmetric])

lemma between_trans: "reads a b \<Longrightarrow> reads b c \<Longrightarrow> between a c = between a b @ between b c"
  by (simp add: reads_def between_def substr_append[of "lx_current_pos a" "lx_current_pos b" "lx_current_pos c"])

lemma reads_while:
  "lx_current_pos lx \<le> length (lx_source lx) \<Longrightarrow> reads lx (consume_while P lx) \<and>
   (\<forall>c \<in> set (between lx (consume_while P lx)). P c) \<and>
   (lexer_is_at_end (consume_while P lx) \<or> \<not> P (the (peek_char (consume_while P lx))))"
proof (induction P lx rule: consume_while.induct)
  case (1 P lx)
  show ?case
  proof (cases "\<not> lexer_is_at_end lx \<and> P (the (peek_char lx))")
    case True
    then have c: "reads lx (fst (consume_char lx))" "between lx (fst (consume_char lx)) = [lx_source lx ! lx_current_pos lx]"
      "P (lx_source lx ! lx_current_pos lx)"
      using reads_char by (auto simp: peek_char_def)
    have "lx_current_pos (fst (consume_char lx)) \<le> length (lx_source (fst (consume_char lx)))"
      using c(1) by (simp add: reads_def)
    note ih = "1.IH"[OF True this]
    have e: "consume_while P lx = consume_while P (fst (consume_char lx))"
      using True by (subst consume_while.simps) simp
    have "reads lx (consume_while P lx)" using reads_trans[OF c(1)] ih e by simp
    moreover have "between lx (consume_while P lx) = [lx_source lx ! lx_current_pos lx] @
        between (fst (consume_char lx)) (consume_while P lx)"
      using between_trans[OF c(1)] ih e c(2) by simp
    ultimately show ?thesis using ih e c(3) by simp
  next
    case False
    then have e: "consume_while P lx = lx" by (subst consume_while.simps) (use False in auto)
    show ?thesis using False "1.prems" by (auto simp: e reads_refl between_def substr_def)
  qed
qed

section \<open>Tokens and their shapes\<close>

definition is_white_space :: "char \<Rightarrow> bool" where
  "is_white_space ch \<longleftrightarrow> ch = CHR '' '' \<or> ch = CHR 0x0D \<or> ch = CHR 0x09 \<or> ch = CHR 0x0A"

text \<open>The piece of the source a token stands for.\<close>

definition spelling :: "token \<Rightarrow> string" where
  "spelling t = (if tk_kind t = TkStringLiteral then [CHR 0x27] @ tk_lexeme t @ [CHR 0x27] else tk_lexeme t)"

definition symbols :: "(token_kind \<times> string) list" where
  "symbols = [(TkSemicolon, '';''), (TkComma, '',''), (TkLeftParen, ''(''), (TkRightParen, '')''),
     (TkAsterisk, ''*''), (TkEqual, ''=''), (TkGreater, ''>''), (TkGreaterEqual, ''>=''), (TkLess, ''<''),
     (TkLessEqual, ''<=''), (TkNotEqual, ''!=''), (TkEndOfInput, [])]"

definition is_word_char :: "char \<Rightarrow> bool" where
  "is_word_char ch \<longleftrightarrow> is_ascii_alphanumeric ch \<or> ch = CHR ''_''"

text \<open>The lexemes a token of a kind has.\<close>

definition token_shape :: "token \<Rightarrow> bool" where
  "token_shape t \<longleftrightarrow> (let lexeme = tk_lexeme t; reserved = map_of RESERVED_WORD_KINDS (map to_ascii_upper lexeme) in
     case map_of symbols (tk_kind t) of
       Some symbol \<Rightarrow> lexeme = symbol
     | None \<Rightarrow>
         (case tk_kind t of
            TkIntegerLiteral \<Rightarrow> lexeme \<noteq> [] \<and> list_all is_ascii_digit lexeme
          | TkDoubleLiteral \<Rightarrow> (let whole = takeWhile is_ascii_digit lexeme; rest = dropWhile is_ascii_digit lexeme in
              whole \<noteq> [] \<and> rest \<noteq> [] \<and> hd rest = CHR ''.'' \<and> tl rest \<noteq> [] \<and> list_all is_ascii_digit (tl rest))
          | TkStringLiteral \<Rightarrow> list_all (\<lambda>ch. ch \<noteq> CHR 0x27) lexeme
          | TkIdentifier \<Rightarrow> lexeme \<noteq> [] \<and> \<not> is_ascii_digit (hd lexeme) \<and> list_all is_word_char lexeme \<and> reserved = None
          | _ \<Rightarrow> reserved = Some (tk_kind t)))"

section \<open>One call of tokenize_next\<close>

definition emits :: "lexer \<Rightarrow> lexer \<Rightarrow> bool" where
  "emits lx lx' \<longleftrightarrow> (\<exists>q. reads lx q \<and> lx_current_pos lx < lx_current_pos q \<and>
     (lx' = q \<and> list_all is_white_space (between lx q) \<or>
      (\<exists>t. lx' = q\<lparr>lx_tokens := lx_tokens q @ [t]\<rparr> \<and> spelling t = between lx q \<and>
         tk_location t = lx_start_location lx \<and> token_shape t \<and> tk_kind t \<noteq> TkEndOfInput)))"

lemma emits_current:
  assumes "reads lx q" "lx_current_pos lx < lx_current_pos q" "lx_start_pos lx = lx_current_pos lx"
    "k \<noteq> TkStringLiteral" "k \<noteq> TkEndOfInput"
    "token_shape \<lparr>tk_kind = k, tk_lexeme = between lx q, tk_location = lx_start_location lx\<rparr>"
  shows "emits lx (add_current_token k q)"
  unfolding emits_def using assms
  by (intro exI[of _ q]) (auto simp: add_current_token_def add_token_def reads_def between_def spelling_def)

lemma reserved_kinds:
  assumes "map_of RESERVED_WORD_KINDS w = Some k"
  shows "map_of symbols k = None" "k \<notin> {TkIntegerLiteral, TkDoubleLiteral, TkStringLiteral, TkIdentifier, TkEndOfInput}"
proof -
  have "list_all (\<lambda>(w, k). map_of symbols k = None \<and>
      k \<notin> {TkIntegerLiteral, TkDoubleLiteral, TkStringLiteral, TkIdentifier, TkEndOfInput}) RESERVED_WORD_KINDS"
    by (simp add: RESERVED_WORD_KINDS_def symbols_def)
  then have "map_of symbols k = None \<and> k \<notin> {TkIntegerLiteral, TkDoubleLiteral, TkStringLiteral, TkIdentifier, TkEndOfInput}"
    unfolding list_all_iff using map_of_SomeD[OF assms] by - (drule (1) bspec, simp)
  then show "map_of symbols k = None" "k \<notin> {TkIntegerLiteral, TkDoubleLiteral, TkStringLiteral, TkIdentifier, TkEndOfInput}"
    by simp_all
qed

lemma emits_word:
  assumes q: "reads lx q" "lx_current_pos lx < lx_current_pos q" "lx_start_pos lx = lx_current_pos lx"
    and w: "list_all is_word_char (between lx q)" "\<not> is_ascii_digit (hd (between lx q))"
  shows "emits lx (case map_of RESERVED_WORD_KINDS (map to_ascii_upper (between lx q)) of
    None \<Rightarrow> add_current_token TkIdentifier q | Some kind \<Rightarrow> add_current_token kind q)"
proof (cases "map_of RESERVED_WORD_KINDS (map to_ascii_upper (between lx q))")
  case None
  have "between lx q \<noteq> []" using q(1,2) by (auto simp: between_def substr_def reads_def)
  then show ?thesis
    using None w by (simp add: emits_current[OF q] token_shape_def symbols_def)
next
  case (Some k)
  note k = reserved_kinds[OF Some]
  have "token_shape \<lparr>tk_kind = k, tk_lexeme = between lx q, tk_location = lx_start_location lx\<rparr>"
    using k Some by (cases k) (simp_all add: token_shape_def symbols_def)
  then show ?thesis using Some k emits_current[OF q] by simp
qed

lemma tokenize_word:
  assumes lx: "\<not> lexer_is_at_end lx" "lx_start_pos lx = lx_current_pos lx"
    and ch: "consume_char lx = (lx1, ch)" "is_ascii_letter ch \<or> ch = CHR ''_''"
    and r: "tokenize_identifier_or_reserved_word lx1 = (lx', r)"
  shows "emits lx lx'"
proof -
  let ?q = "consume_while (\<lambda>ch. is_ascii_alphanumeric ch \<or> ch = CHR ''_'') lx1"
  have 1: "reads lx lx1" "between lx lx1 = [ch]" "lx_current_pos lx < lx_current_pos lx1"
    using reads_char[OF lx(1)] consume_char_pos[of lx] ch(1) by simp_all
  then have 2: "reads lx1 ?q" "\<forall>c \<in> set (between lx1 ?q). is_word_char c"
    using reads_while[of lx1 "\<lambda>ch. is_ascii_alphanumeric ch \<or> ch = CHR ''_''"]
    by (simp_all add: reads_def is_word_char_def)
  note q = reads_trans[OF 1(1) 2(1)]
  have b: "between lx ?q = ch # between lx1 ?q" using between_trans[OF 1(1) 2(1)] 1(2) by simp
  have pos: "lx_current_pos lx < lx_current_pos ?q" using 1(3) 2(1) by (simp add: reads_def)
  have "emits lx (case map_of RESERVED_WORD_KINDS (map to_ascii_upper (between lx ?q)) of
    None \<Rightarrow> add_current_token TkIdentifier ?q | Some kind \<Rightarrow> add_current_token kind ?q)"
    by (rule emits_word[OF q pos lx(2)])
      (use 2(2) ch(2) b in \<open>auto simp: list_all_iff is_word_char_def is_ascii_alphanumeric_def is_ascii_letter_def is_ascii_digit_def\<close>)
  moreover have "substr (lx_source ?q) (lx_start_pos ?q) (lx_current_pos ?q - lx_start_pos ?q) = between lx ?q"
    using q lx(2) by (simp add: reads_def between_def)
  ultimately show ?thesis
    using r by (auto simp: tokenize_identifier_or_reserved_word_def Let_def split: option.splits)
qed

lemma tokenize_number_emits:
  assumes lx: "\<not> lexer_is_at_end lx" "lx_start_pos lx = lx_current_pos lx"
    and ch: "consume_char lx = (lx1, ch)" "is_ascii_digit ch"
    and r: "tokenize_number lx1 = (lx', Inr ())"
  shows "emits lx lx'"
proof -
  let ?q = "consume_while is_ascii_digit lx1"
  have 1: "reads lx lx1" "between lx lx1 = [ch]" "lx_current_pos lx < lx_current_pos lx1"
    using reads_char[OF lx(1)] consume_char_pos[of lx] ch(1) by simp_all
  then have 2: "reads lx1 ?q" "\<forall>c \<in> set (between lx1 ?q). is_ascii_digit c"
    using reads_while[of lx1 is_ascii_digit] by (auto simp: reads_def)
  note q = reads_trans[OF 1(1) 2(1)]
  have b: "between lx ?q = ch # between lx1 ?q" using between_trans[OF 1(1) 2(1)] 1(2) by simp
  have pos: "lx_current_pos lx < lx_current_pos ?q" using 1(3) 2(1) by (simp add: reads_def)
  show ?thesis
  proof (cases "peek_char ?q = Some CHR ''.''")
    case False
    then have "lx' = add_current_token TkIntegerLiteral ?q" using r by (simp add: tokenize_number_def)
    moreover have "emits lx (add_current_token TkIntegerLiteral ?q)"
      by (rule emits_current[OF q pos lx(2)])
        (use b ch(2) 2(2) in \<open>simp_all add: token_shape_def symbols_def list_all_iff\<close>)
    ultimately show ?thesis by simp
  next
    case True
    let ?d = "fst (consume_char ?q)"
    let ?e = "consume_while is_ascii_digit ?d"
    have ne: "\<not> lexer_is_at_end ?q" "lx_source ?q ! lx_current_pos ?q = CHR ''.''"
      using True by (auto simp: peek_char_def split: if_splits)
    have 3: "reads ?q ?d" "between ?q ?d = [CHR ''.'']" using reads_char[OF ne(1)] ne(2) by simp_all
    have d: "\<not> lexer_is_at_end ?d" "is_ascii_digit (the (peek_char ?d))" and e: "lx' = add_current_token TkDoubleLiteral ?e"
      using r True by (auto simp: tokenize_number_def Let_def split: if_splits)
    have 4: "reads ?d ?e" "\<forall>c \<in> set (between ?d ?e). is_ascii_digit c"
      using reads_while[of ?d is_ascii_digit] 3(1) by (auto simp: reads_def)
    have "lexer_is_at_end ?e \<or> \<not> is_ascii_digit (the (peek_char ?e))"
      using reads_while[of ?d is_ascii_digit] 3(1) by (auto simp: reads_def)
    then have "?e \<noteq> ?d" using d by auto
    then have "between ?d ?e \<noteq> []"
      using d by (subst consume_while.simps) (use consume_char_pos[of ?d] ahead_consume_while[of "fst (consume_char ?d)" is_ascii_digit] in
        \<open>auto simp: between_def substr_def ahead_def lexer_is_at_end_def\<close>)
    moreover have "between lx ?e = (ch # between lx1 ?q) @ CHR ''.'' # between ?d ?e"
      using between_trans[OF q reads_trans[OF 3(1) 4(1)]] between_trans[OF 3(1) 4(1)] 3(2) b by simp
    moreover have "\<not> is_ascii_digit CHR ''.''" by (simp add: is_ascii_digit_def)
    moreover have "takeWhile is_ascii_digit ((ch # between lx1 ?q) @ CHR ''.'' # between ?d ?e) = ch # between lx1 ?q"
      "dropWhile is_ascii_digit ((ch # between lx1 ?q) @ CHR ''.'' # between ?d ?e) = CHR ''.'' # between ?d ?e"
      using ch(2) 2(2) calculation(3) by (subst takeWhile_append2 dropWhile_append2; auto)+
    ultimately have "token_shape \<lparr>tk_kind = TkDoubleLiteral, tk_lexeme = between lx ?e, tk_location = lx_start_location lx\<rparr>"
      using 4(2) by (simp add: token_shape_def symbols_def list_all_iff del: takeWhile.simps dropWhile.simps append_Cons)
    then show ?thesis
      unfolding e using pos 3(1) 4(1)
      by (intro emits_current[OF reads_trans[OF q reads_trans[OF 3(1) 4(1)]] _ lx(2)]) (simp_all add: reads_def)
  qed
qed

lemma tokenize_string_emits:
  assumes lx: "\<not> lexer_is_at_end lx" "lx_start_pos lx = lx_current_pos lx"
    and ch: "consume_char lx = (lx1, CHR 0x27)"
    and r: "tokenize_string lx1 = (lx', Inr ())"
  shows "emits lx lx'"
proof -
  let ?q = "consume_while (\<lambda>ch. ch \<noteq> CHR 0x27) lx1" and ?d = "fst (consume_char (consume_while (\<lambda>ch. ch \<noteq> CHR 0x27) lx1))"
  have 1: "reads lx lx1" "between lx lx1 = [CHR 0x27]" "lx_current_pos lx1 = Suc (lx_current_pos lx)"
    using reads_char[OF lx(1)] consume_char_pos[of lx] ch(1) by simp_all
  then have 2: "reads lx1 ?q" "\<forall>c \<in> set (between lx1 ?q). c \<noteq> CHR 0x27"
    "lexer_is_at_end ?q \<or> the (peek_char ?q) = CHR 0x27"
    using reads_while[of lx1 "\<lambda>ch. ch \<noteq> CHR 0x27"] by (simp_all add: reads_def)
  have q: "\<not> lexer_is_at_end ?q" using r by (auto simp: tokenize_string_def)
  have 3: "reads ?q ?d" "between ?q ?d = [CHR 0x27]" "lx_current_pos ?d = Suc (lx_current_pos ?q)"
    using reads_char[OF q] 2(3) q by (simp_all add: peek_char_def)
  note d = reads_trans[OF 1(1) reads_trans[OF 2(1) 3(1)]]
  have b: "between lx ?d = CHR 0x27 # between lx1 ?q @ [CHR 0x27]"
    using between_trans[OF 1(1) reads_trans[OF 2(1) 3(1)]] between_trans[OF 2(1) 3(1)] 1(2) 3(2) by simp
  have "lx' = add_token TkStringLiteral (substr (lx_source ?d) (lx_start_pos ?d + 1)
      (lx_current_pos ?d - 1 - (lx_start_pos ?d + 1))) (lx_start_location ?d) ?d"
    using r q by (simp add: tokenize_string_def Let_def)
  also have "substr (lx_source ?d) (lx_start_pos ?d + 1) (lx_current_pos ?d - 1 - (lx_start_pos ?d + 1)) = between lx1 ?q"
    using d 1 3(3) lx(2) by (simp add: between_def reads_def)
  also have "lx_start_location ?d = lx_start_location lx" using d by (simp add: reads_def)
  finally have "lx' = add_token TkStringLiteral (between lx1 ?q) (lx_start_location lx) ?d" .
  moreover have "lx_current_pos lx < lx_current_pos ?d" using 1 2(1) 3(3) by (simp add: reads_def)
  moreover define t where "t = \<lparr>tk_kind = TkStringLiteral, tk_lexeme = between lx1 ?q, tk_location = lx_start_location lx\<rparr>"
  ultimately have "lx' = ?d\<lparr>lx_tokens := lx_tokens ?d @ [t]\<rparr>" "lx_current_pos lx < lx_current_pos ?d"
    by (simp_all add: add_token_def)
  moreover have "spelling t = between lx ?d" "tk_location t = lx_start_location lx" "tk_kind t \<noteq> TkEndOfInput"
    by (simp_all add: t_def spelling_def b)
  moreover have "token_shape t" using 2(2) by (simp add: t_def token_shape_def symbols_def list_all_iff)
  ultimately show ?thesis unfolding emits_def using d by blast
qed

lemma emits_symbol:
  assumes "reads lx q" "lx_current_pos lx < lx_current_pos q" "lx_start_pos lx = lx_current_pos lx"
    "map_of symbols k = Some (between lx q)" "between lx q \<noteq> []"
  shows "emits lx (add_current_token k q)"
proof (rule emits_current[OF assms(1-3)])
  show "k \<noteq> TkStringLiteral" "k \<noteq> TkEndOfInput" using assms(4,5) by (auto simp: symbols_def)
qed (use assms(4) in \<open>simp add: token_shape_def\<close>)

lemma tokenize_next_emits:
  assumes lx: "\<not> lexer_is_at_end lx" "lx_start_pos lx = lx_current_pos lx"
    and r: "tokenize_next lx = (lx', Inr ())"
  shows "emits lx lx'"
proof -
  obtain lx1 ch where c: "consume_char lx = (lx1, ch)" by (metis surj_pair)
  have 1: "reads lx lx1" "between lx lx1 = [ch]" "lx_current_pos lx < lx_current_pos lx1"
    using reads_char[OF lx(1)] consume_char_pos[of lx] c by simp_all
  have symbol: "emits lx (add_current_token k lx1)" if "map_of symbols k = Some [ch]" for k
    using that 1 by (intro emits_symbol[OF 1(1,3) lx(2)]) simp_all
  have pair: "emits lx (add_current_token k lx2)"
    if "match_char e lx1 = (lx2, True)" "map_of symbols k = Some [ch, e]" for k e lx2
  proof -
    have ne: "\<not> lexer_is_at_end lx1" "lx_source lx1 ! lx_current_pos lx1 = e" "lx2 = fst (consume_char lx1)"
      using that(1) by (auto simp: match_char_def split: if_splits)
    have 2: "reads lx1 lx2" "between lx1 lx2 = [e]" using reads_char[OF ne(1)] ne by simp_all
    show ?thesis
      using 1 2 that(2) between_trans[OF 1(1) 2(1)] by (intro emits_symbol[OF reads_trans[OF 1(1) 2(1)] _ lx(2)])
        (simp_all add: reads_def)
  qed
  have single: "lx2 = lx1" if "match_char e lx1 = (lx2, False)" for e lx2
    using that by (auto simp: match_char_def split: if_splits)
  have lookahead: "emits lx lx'"
    if "(case match_char e lx1 of (lx, True) \<Rightarrow> (add_current_token k lx, Ok) | (lx, False) \<Rightarrow> f lx) = (lx', Inr ())"
      "map_of symbols k = Some [ch, e]" "f lx1 = (lx', Inr ()) \<Longrightarrow> emits lx lx'" for e k f
    using that pair[of e _ k] single[of e] by (cases "match_char e lx1"; cases "snd (match_char e lx1)") auto
  have blank: "emits lx lx1" if "is_white_space ch"
    using 1 that by (auto simp: emits_def)
  note ends = symbol[of TkSemicolon] symbol[of TkComma] symbol[of TkLeftParen] symbol[of TkRightParen]
    symbol[of TkAsterisk] symbol[of TkEqual] symbol[of TkLess] symbol[of TkGreater] blank
    tokenize_string_emits[OF lx, of lx1 lx'] tokenize_number_emits[OF lx c, of lx']
    tokenize_word[OF lx c, of lx' "Inr ()"]
  show ?thesis
    using r ends c unfolding tokenize_next_def c prod.case is_white_space_def[symmetric]
    by (auto simp: symbols_def split: if_split_asm elim!: lookahead[where e = "CHR ''=''" and k = TkLessEqual]
        lookahead[where e = "CHR ''=''" and k = TkGreaterEqual] lookahead[where e = "CHR ''=''" and k = TkNotEqual])
qed

section \<open>The loop\<close>

text \<open>
  \<open>gaps\<close> and \<open>ts\<close> make up the text \<open>s\<close>: in front of every token there is white space, and the
  token has the location of its first character.
\<close>

definition location_after :: "string \<Rightarrow> source_location" where
  "location_after s = foldl advance_location \<lparr>loc_line = 1, loc_column = 1\<rparr> s"

fun spells :: "string \<Rightarrow> string list \<Rightarrow> token list \<Rightarrow> string \<Rightarrow> bool" where
  "spells before [] [] s \<longleftrightarrow> s = []"
| "spells before (gap # gaps) (t # ts) s \<longleftrightarrow> list_all is_white_space gap \<and>
     (\<exists>rest. s = gap @ spelling t @ rest \<and> tk_location t = location_after (before @ gap) \<and>
        spells (before @ gap @ spelling t) gaps ts rest)"
| "spells _ _ _ _ \<longleftrightarrow> False"

lemma spells_append:
  "spells before gaps ts s \<Longrightarrow> list_all is_white_space gap \<Longrightarrow> tk_location t = location_after (before @ s @ gap) \<Longrightarrow>
   spells before (gaps @ [gap]) (ts @ [t]) (s @ gap @ spelling t)"
proof (induction before gaps ts s rule: spells.induct)
  case (2 before g gaps t' ts s)
  then obtain rest where r: "list_all is_white_space g" "s = g @ spelling t' @ rest" "tk_location t' = location_after (before @ g)"
    "spells (before @ g @ spelling t') gaps ts rest" by auto
  with 2 have "spells (before @ g @ spelling t') (gaps @ [gap]) (ts @ [t]) (rest @ gap @ spelling t)" by simp
  with r show ?case by simp
qed auto

text \<open>What the lexer has found when it has read the text up to its position.\<close>

definition lexed :: "lexer \<Rightarrow> bool" where
  "lexed lx \<longleftrightarrow> lx_current_pos lx \<le> length (lx_source lx) \<and>
     lx_current_location lx = location_after (take (lx_current_pos lx) (lx_source lx)) \<and>
     (\<forall>t \<in> set (lx_tokens lx). token_shape t \<and> tk_kind t \<noteq> TkEndOfInput) \<and>
     (\<exists>gaps body gap. spells [] gaps (lx_tokens lx) body \<and> list_all is_white_space gap \<and>
        take (lx_current_pos lx) (lx_source lx) = body @ gap)"

definition start_token :: "lexer \<Rightarrow> lexer" where
  "start_token lx = lx\<lparr>lx_start_pos := lx_current_pos lx, lx_start_location := lx_current_location lx\<rparr>"

lemma lexed_next:
  assumes lx: "lexed lx" "\<not> lexer_is_at_end lx" and n: "tokenize_next (start_token lx) = (lx', Inr ())"
  shows "lexed lx'"
proof -
  let ?s = "lx_source lx" and ?i = "lx_current_pos lx"
  obtain gaps body gap where g: "spells [] gaps (lx_tokens lx) body" "list_all is_white_space gap" "take ?i ?s = body @ gap"
    and l: "lx_current_location lx = location_after (take ?i ?s)"
    and t: "\<forall>t \<in> set (lx_tokens lx). token_shape t \<and> tk_kind t \<noteq> TkEndOfInput"
    using lx(1) by (auto simp: lexed_def)
  have "emits (start_token lx) lx'"
    by (rule tokenize_next_emits[OF _ _ n]) (use lx(2) in \<open>simp_all add: start_token_def lexer_is_at_end_def\<close>)
  then obtain q where q: "reads (start_token lx) q" and e:
    "lx' = q \<and> list_all is_white_space (between (start_token lx) q) \<or>
     (\<exists>t. lx' = q\<lparr>lx_tokens := lx_tokens q @ [t]\<rparr> \<and> spelling t = between (start_token lx) q \<and>
        tk_location t = lx_start_location (start_token lx) \<and> token_shape t \<and> tk_kind t \<noteq> TkEndOfInput)"
    by (auto simp: emits_def)
  let ?p = "between (start_token lx) q" and ?j = "lx_current_pos q"
  have q': "lx_source q = ?s" "lx_tokens q = lx_tokens lx" "?i \<le> ?j" "?j \<le> length ?s"
    "lx_current_location q = foldl advance_location (lx_current_location lx) ?p"
    using q by (simp_all add: reads_def start_token_def)
  have j: "take ?j ?s = take ?i ?s @ ?p"
    using substr_append[of 0 ?i ?j ?s] q'(3) by (simp add: between_def substr_def start_token_def)
  then have lq: "lx_current_location q = location_after (take ?j ?s)"
    using q'(5) l by (simp add: location_after_def)
  from e show ?thesis
  proof
    assume b: "lx' = q \<and> list_all is_white_space ?p"
    then have "list_all is_white_space (gap @ ?p) \<and> take ?j ?s = body @ (gap @ ?p)" using g j by simp
    then show ?thesis using b q' lq t g(1) unfolding lexed_def by metis
  next
    assume "\<exists>t. lx' = q\<lparr>lx_tokens := lx_tokens q @ [t]\<rparr> \<and> spelling t = ?p \<and>
        tk_location t = lx_start_location (start_token lx) \<and> token_shape t \<and> tk_kind t \<noteq> TkEndOfInput"
    then obtain tk where k: "lx' = q\<lparr>lx_tokens := lx_tokens q @ [tk]\<rparr>" "spelling tk = ?p"
      "tk_location tk = lx_current_location lx" "token_shape tk \<and> tk_kind tk \<noteq> TkEndOfInput"
      by (auto simp: start_token_def)
    have "spells [] (gaps @ [gap]) (lx_tokens lx @ [tk]) (body @ gap @ spelling tk)"
      by (rule spells_append[OF g(1,2)]) (simp add: k(3) l g(3))
    moreover have "take ?j ?s = (body @ gap @ spelling tk) @ []" using j g(3) k(2) by simp
    ultimately have "\<exists>gaps body gap. spells [] gaps (lx_tokens lx @ [tk]) body \<and> list_all is_white_space gap \<and> take ?j ?s = body @ gap"
      by (intro exI[of _ "gaps @ [gap]"] exI[of _ "body @ gap @ spelling tk"] exI[of _ "[]"]) simp
    then show ?thesis using k q' lq t by (simp add: lexed_def)
  qed
qed

lemma tokenize_loop_turn:
  "\<not> lexer_is_at_end lx \<Longrightarrow> tokenize_loop lx = (case tokenize_next (start_token lx) of
     (lx', Inl e) \<Rightarrow> Inl e | (lx', Inr _) \<Rightarrow> tokenize_loop lx')"
  by (subst tokenize_loop.simps) (simp add: start_token_def)

lemma tokenize_loop_at_end:
  "lexer_is_at_end lx \<Longrightarrow> tokenize_loop lx =
     Inr (lx_tokens lx @ [\<lparr>tk_kind = TkEndOfInput, tk_lexeme = [], tk_location = lx_current_location lx\<rparr>])"
  by (subst tokenize_loop.simps) (simp add: add_token_def)

text \<open>The tokens the loop returns: those found before, and an end token behind the last one.\<close>

definition end_marked :: "token list \<Rightarrow> bool" where
  "end_marked ts \<longleftrightarrow> ts \<noteq> [] \<and> tk_kind (last ts) = TkEndOfInput \<and> (\<forall>t \<in> set (butlast ts). tk_kind t \<noteq> TkEndOfInput)"

lemma tokenize_loop_spells:
  "lexed lx \<Longrightarrow> tokenize_loop lx = Inr ts \<Longrightarrow>
   (\<exists>gaps. spells [] gaps ts (lx_source lx)) \<and> list_all token_shape ts \<and> end_marked ts \<and> prefix (lx_tokens lx) (butlast ts)"
proof (induction "length (lx_source lx) - lx_current_pos lx" arbitrary: lx rule: less_induct)
  case less
  show ?case
  proof (cases "lexer_is_at_end lx")
    case True
    let ?t = "\<lparr>tk_kind = TkEndOfInput, tk_lexeme = [], tk_location = lx_current_location lx\<rparr>"
    have ts: "ts = lx_tokens lx @ [?t]" using less.prems(2) tokenize_loop_at_end[OF True] by simp
    obtain gaps body gap where g: "spells [] gaps (lx_tokens lx) body" "list_all is_white_space gap" "lx_source lx = body @ gap"
      "lx_current_location lx = location_after (lx_source lx)"
      using less.prems(1) True by (auto simp: lexed_def lexer_is_at_end_def)
    have "spells [] (gaps @ [gap]) ts (body @ gap @ spelling ?t)"
      unfolding ts by (rule spells_append[OF g(1,2)]) (simp add: g(3,4))
    moreover have "spelling ?t = []" by (simp add: spelling_def)
    ultimately show ?thesis
      using less.prems(1) g(3) by (auto simp: ts end_marked_def lexed_def list_all_iff token_shape_def symbols_def)
  next
    case False
    obtain lx' r where n: "tokenize_next (start_token lx) = (lx', r)" by (metis surj_pair)
    with less.prems(2) tokenize_loop_turn[OF False] have r: "r = Inr ()" "tokenize_loop lx' = Inr ts"
      by (auto split: sum.splits)
    have l: "lexed lx'" by (rule lexed_next[OF less.prems(1) False n[unfolded r]])
    have s: "lx_source lx' = lx_source lx" "lx_current_pos lx < lx_current_pos lx'"
      using tokenize_next_source[of "start_token lx", unfolded n] tokenize_next_pos[of "start_token lx", unfolded n]
      by (simp_all add: start_token_def)
    have "length (lx_source lx') - lx_current_pos lx' < length (lx_source lx) - lx_current_pos lx"
      using s False by (simp add: lexer_is_at_end_def)
    from less.hyps[OF this l r(2)] have ih: "(\<exists>gaps. spells [] gaps ts (lx_source lx)) \<and> list_all token_shape ts \<and>
        end_marked ts \<and> prefix (lx_tokens lx') (butlast ts)" using s by simp
    have "emits (start_token lx) lx'"
      by (rule tokenize_next_emits[OF _ _ n[unfolded r]]) (use False in \<open>simp_all add: start_token_def lexer_is_at_end_def\<close>)
    then have "prefix (lx_tokens lx) (lx_tokens lx')" by (auto simp: emits_def reads_def start_token_def)
    then show ?thesis using ih prefix_order.trans by blast
  qed
qed

lemma lexed_new: "lexed (lexer_new s)"
  unfolding lexed_def by (simp add: lexer_new_def location_after_def exI[of _ "[]"])

text \<open>
  C32. The lexer loses nothing of the text and invents nothing: the tokens it returns, each with the
  white space in front of it, are the text, and the location of a token is the line and column of
  its first character.
\<close>

theorem tokens_spell_source:
  assumes "tokenize s = Inr ts"
  shows "\<exists>gaps. spells [] gaps ts s"
  using tokenize_loop_spells[OF lexed_new] assms by (auto simp: tokenize_def lexer_new_def)

text \<open>
  C34. Every token the lexer returns has the shape of its kind: a word that is reserved gets the kind
  of the reserved word, whatever its case, and no other word does; numbers are digits, with a part
  on both sides of the point; a string has no quote. The only end token is the last one.
\<close>

theorem tokens_well_shaped:
  assumes "tokenize s = Inr ts"
  shows "list_all token_shape ts \<and> end_marked ts"
  using tokenize_loop_spells[OF lexed_new] assms by (auto simp: tokenize_def)

definition sample_source :: string where
  "sample_source = ''sElEcT a1,'' @ [CHR 0x0A] @ '' b fRoM t;''"

lemma sample_tokens: "tokenize sample_source = Inr
   [\<lparr>tk_kind = TkSelect, tk_lexeme = ''sElEcT'', tk_location = \<lparr>loc_line = 1, loc_column = 1\<rparr>\<rparr>,
    \<lparr>tk_kind = TkIdentifier, tk_lexeme = ''a1'', tk_location = \<lparr>loc_line = 1, loc_column = 8\<rparr>\<rparr>,
    \<lparr>tk_kind = TkComma, tk_lexeme = '','', tk_location = \<lparr>loc_line = 1, loc_column = 10\<rparr>\<rparr>,
    \<lparr>tk_kind = TkIdentifier, tk_lexeme = ''b'', tk_location = \<lparr>loc_line = 2, loc_column = 2\<rparr>\<rparr>,
    \<lparr>tk_kind = TkFrom, tk_lexeme = ''fRoM'', tk_location = \<lparr>loc_line = 2, loc_column = 4\<rparr>\<rparr>,
    \<lparr>tk_kind = TkIdentifier, tk_lexeme = ''t'', tk_location = \<lparr>loc_line = 2, loc_column = 9\<rparr>\<rparr>,
    \<lparr>tk_kind = TkSemicolon, tk_lexeme = '';'', tk_location = \<lparr>loc_line = 2, loc_column = 10\<rparr>\<rparr>,
    \<lparr>tk_kind = TkEndOfInput, tk_lexeme = [], tk_location = \<lparr>loc_line = 2, loc_column = 11\<rparr>\<rparr>]"
  by code_simp

theorem tokens_spell_source_witness:
  "\<exists>ts gaps. tokenize sample_source = Inr ts \<and> length ts = 8 \<and> spells [] gaps ts sample_source"
  using tokens_spell_source[OF sample_tokens] sample_tokens by fastforce

theorem tokens_well_shaped_witness:
  "\<exists>ts. tokenize sample_source = Inr ts \<and> length ts = 8 \<and> list_all token_shape ts \<and> end_marked ts"
  using tokens_well_shaped[OF sample_tokens] sample_tokens by fastforce

section \<open>The first lines of a text\<close>

text \<open>The lexer whose text ends after \<open>m\<close> characters.\<close>

definition shortened :: "nat \<Rightarrow> lexer \<Rightarrow> lexer" where
  "shortened m lx = lx\<lparr>lx_source := take m (lx_source lx)\<rparr>"

text \<open>The character before that end is a newline, and the lexer has not read it yet.\<close>

definition before_newline :: "nat \<Rightarrow> lexer \<Rightarrow> bool" where
  "before_newline m lx \<longleftrightarrow> lx_current_pos lx < m \<and> m \<le> length (lx_source lx) \<and>
     lx_source lx ! (m - 1) = CHR 0x0A \<and> lx_start_pos lx \<le> lx_current_pos lx"

lemma shortened_simps [simp]:
  "lx_current_pos (shortened m lx) = lx_current_pos lx" "lx_start_pos (shortened m lx) = lx_start_pos lx"
  "lx_start_location (shortened m lx) = lx_start_location lx" "lx_tokens (shortened m lx) = lx_tokens lx"
  "lx_current_location (shortened m lx) = lx_current_location lx"
  by (simp_all add: shortened_def)

lemma shortened_peek:
  "before_newline m lx \<Longrightarrow> \<not> lexer_is_at_end lx \<and> \<not> lexer_is_at_end (shortened m lx) \<and> peek_char (shortened m lx) = peek_char lx"
  by (auto simp: before_newline_def lexer_is_at_end_def peek_char_def shortened_def)

lemma shortened_char:
  assumes "before_newline m lx"
  shows "consume_char (shortened m lx) = (shortened m (fst (consume_char lx)), snd (consume_char lx))"
    "snd (consume_char lx) \<noteq> CHR 0x0A \<Longrightarrow> before_newline m (fst (consume_char lx))"
    "the (peek_char lx) \<noteq> CHR 0x0A \<Longrightarrow> before_newline m (fst (consume_char lx))"
proof -
  have "Suc (lx_current_pos lx) < m" if "lx_source lx ! lx_current_pos lx \<noteq> CHR 0x0A"
    using assms that by (cases "Suc (lx_current_pos lx) = m") (auto simp: before_newline_def)
  then show "snd (consume_char lx) \<noteq> CHR 0x0A \<Longrightarrow> before_newline m (fst (consume_char lx))"
    "the (peek_char lx) \<noteq> CHR 0x0A \<Longrightarrow> before_newline m (fst (consume_char lx))"
    using assms shortened_peek[OF assms] by (auto simp: before_newline_def consume_char_def Let_def peek_char_def)
qed (use assms in \<open>simp add: before_newline_def consume_char_def shortened_def Let_def\<close>)

lemma shortened_while:
  "\<not> P (CHR 0x0A) \<Longrightarrow> before_newline m lx \<Longrightarrow>
   consume_while P (shortened m lx) = shortened m (consume_while P lx) \<and> before_newline m (consume_while P lx)"
proof (induction P lx rule: consume_while.induct)
  case (1 P lx)
  note peek = shortened_peek[OF "1.prems"(2)]
  show ?case
  proof (cases "P (the (peek_char lx))")
    case True
    have e: "consume_while P lx = consume_while P (fst (consume_char lx))"
      "consume_while P (shortened m lx) = consume_while P (shortened m (fst (consume_char lx)))"
      using True peek shortened_char(1)[OF "1.prems"(2)] by (subst consume_while.simps, simp)+
    have "before_newline m (fst (consume_char lx))"
      by (rule shortened_char(3)[OF "1.prems"(2)]) (use True "1.prems"(1) in auto)
    with "1.IH" "1.prems"(1) show ?thesis using peek True by (simp add: e)
  next
    case False
    have "consume_while P lx = lx" "consume_while P (shortened m lx) = shortened m lx"
      using False peek by (subst consume_while.simps, simp)+
    then show ?thesis using "1.prems" by simp
  qed
qed

lemma substr_take: "i \<le> m \<Longrightarrow> substr (take m s) st (i - st) = substr s st (i - st)"
  by (simp add: substr_def drop_take min_absorb1 diff_le_mono)

lemma shortened_token:
  "before_newline m q \<Longrightarrow> add_current_token k (shortened m q) = shortened m (add_current_token k q)"
  by (simp add: add_current_token_def add_token_def shortened_def substr_take before_newline_def)

lemma shortened_match:
  assumes "before_newline m lx" "c \<noteq> CHR 0x0A"
  obtains b lx' where "match_char c lx = (lx', b)" "match_char c (shortened m lx) = (shortened m lx', b)" "before_newline m lx'"
proof -
  have "lx_source lx ! lx_current_pos lx = the (peek_char lx)"
    using shortened_peek[OF assms(1)] by (simp add: peek_char_def)
  then show thesis
    using that assms shortened_peek[OF assms(1)] shortened_char[OF assms(1)]
    by (cases "the (peek_char lx) = c") (auto simp: match_char_def shortened_def before_newline_def)
qed

text \<open>The outcomes of one call on the whole text and on the shortened one.\<close>

definition shortened_outcome :: "nat \<Rightarrow> lexer \<times> status \<Rightarrow> lexer \<times> status \<Rightarrow> bool" where
  "shortened_outcome m full short \<longleftrightarrow> snd short = Inl IncompleteInput \<or>
     short = (shortened m (fst full), snd full) \<and> lx_current_pos (fst full) \<le> m"

lemma outcome_token:
  "before_newline m q \<Longrightarrow> shortened_outcome m (add_current_token k q, r) (add_current_token k (shortened m q), r)"
  "before_newline m q \<Longrightarrow> shortened_outcome m (q, r) (shortened m q, r)"
  by (simp_all add: shortened_outcome_def shortened_token)
    (simp_all add: before_newline_def add_current_token_def add_token_def)

lemma shortened_word:
  assumes "before_newline m lx"
  shows "shortened_outcome m (tokenize_identifier_or_reserved_word lx) (tokenize_identifier_or_reserved_word (shortened m lx))"
proof -
  let ?P = "\<lambda>ch. is_ascii_alphanumeric ch \<or> ch = CHR ''_''"
  have q: "consume_while ?P (shortened m lx) = shortened m (consume_while ?P lx)" "before_newline m (consume_while ?P lx)"
    using shortened_while[of ?P m lx] assms
    by (simp_all add: is_ascii_alphanumeric_def is_ascii_letter_def is_ascii_digit_def)
  have "substr (lx_source (shortened m q)) (lx_start_pos q) (lx_current_pos q - lx_start_pos q) =
      substr (lx_source q) (lx_start_pos q) (lx_current_pos q - lx_start_pos q)" if "before_newline m q" for q
    using that by (simp add: shortened_def substr_take before_newline_def)
  with q show ?thesis
    by (simp add: tokenize_identifier_or_reserved_word_def Let_def outcome_token split: option.split)
qed

lemma shortened_number:
  assumes "before_newline m lx"
  shows "shortened_outcome m (tokenize_number lx) (tokenize_number (shortened m lx))"
proof -
  have digits: "consume_while is_ascii_digit (shortened m lx) = shortened m (consume_while is_ascii_digit lx)"
      "before_newline m (consume_while is_ascii_digit lx)" if "before_newline m lx" for lx
    using shortened_while[of is_ascii_digit m lx] that by (simp_all add: is_ascii_digit_def)
  let ?q = "consume_while is_ascii_digit lx"
  note q = digits[OF assms]
  show ?thesis
  proof (cases "peek_char ?q = Some CHR ''.''")
    case True
    then have d: "before_newline m (fst (consume_char ?q))"
      by (intro shortened_char(3)[OF q(2)]) simp
    show ?thesis
      using True q shortened_peek[OF q(2)] shortened_char(1)[OF q(2)] shortened_peek[OF d] digits[OF d] d
      by (simp add: tokenize_number_def Let_def outcome_token)
  qed (use q shortened_peek[OF q(2)] in \<open>simp add: tokenize_number_def outcome_token\<close>)
qed

lemma shortened_string_end:
  "lx_current_pos lx \<le> m \<Longrightarrow> m \<le> length (lx_source lx) \<Longrightarrow>
   lexer_is_at_end (consume_while P (shortened m lx)) \<or>
   (consume_while P (shortened m lx) = shortened m (consume_while P lx) \<and> lx_current_pos (consume_while P lx) < m)"
proof (induction P lx rule: consume_while.induct)
  case (1 P lx)
  show ?case
  proof (cases "lx_current_pos lx < m")
    case True
    have l: "\<not> lexer_is_at_end lx" "\<not> lexer_is_at_end (shortened m lx)" "peek_char (shortened m lx) = peek_char lx"
      "consume_char (shortened m lx) = (shortened m (fst (consume_char lx)), snd (consume_char lx))"
      using True "1.prems" by (simp_all add: lexer_is_at_end_def shortened_def peek_char_def consume_char_def Let_def)
    show ?thesis
    proof (cases "P (the (peek_char lx))")
      case P: True
      have e: "consume_while P lx = consume_while P (fst (consume_char lx))"
        "consume_while P (shortened m lx) = consume_while P (shortened m (fst (consume_char lx)))"
        using P l by (subst consume_while.simps, simp)+
      have "lx_source (fst (consume_char lx)) = lx_source lx" by (simp add: consume_char_def Let_def)
      then show ?thesis using "1.IH" P l True "1.prems" by (simp add: e)
    next
      case False
      have "consume_while P lx = lx" "consume_while P (shortened m lx) = shortened m lx"
        using False l by (subst consume_while.simps, simp)+
      then show ?thesis using True by simp
    qed
  next
    case False
    then have "lexer_is_at_end (shortened m lx)" using "1.prems" by (simp add: lexer_is_at_end_def shortened_def)
    then show ?thesis by (subst (1) consume_while.simps) simp
  qed
qed

lemma shortened_string:
  assumes "before_newline m lx"
  shows "shortened_outcome m (tokenize_string lx) (tokenize_string (shortened m lx))"
proof -
  let ?P = "\<lambda>ch. ch \<noteq> CHR 0x27"
  let ?q = "consume_while ?P lx"
  have a: "ahead lx ?q" by simp
  from assms have "lexer_is_at_end (consume_while ?P (shortened m lx)) \<or>
   (consume_while ?P (shortened m lx) = shortened m ?q \<and> lx_current_pos ?q < m)"
    by (intro shortened_string_end) (simp_all add: before_newline_def)
  then show ?thesis
  proof (elim disjE conjE)
    assume "lexer_is_at_end (consume_while ?P (shortened m lx))"
    then show ?thesis by (simp add: tokenize_string_def shortened_outcome_def)
  next
    assume q: "consume_while ?P (shortened m lx) = shortened m ?q" "lx_current_pos ?q < m"
    have "before_newline m ?q" using assms q(2) a by (simp add: before_newline_def ahead_def)
    note d = shortened_peek[OF this] shortened_char(1)[OF this]
    have "lx_source (fst (consume_char ?q)) = lx_source lx" using a by (simp add: ahead_def consume_char_def Let_def)
    then show ?thesis
      using q d by (simp add: tokenize_string_def Let_def shortened_outcome_def add_token_def shortened_def substr_take)
  qed
qed

lemma shortened_next:
  assumes "before_newline m lx"
  shows "shortened_outcome m (tokenize_next lx) (tokenize_next (shortened m lx))"
proof -
  obtain lx1 ch where c: "consume_char lx = (lx1, ch)" by (metis surj_pair)
  then have s: "consume_char (shortened m lx) = (shortened m lx1, ch)"
    using shortened_char(1)[OF assms] by simp
  show ?thesis
  proof (cases "ch = CHR 0x0A")
    case True
    have "lx_current_pos lx1 \<le> m"
      using assms c consume_char_pos[of lx] by (simp add: before_newline_def)
    then show ?thesis by (simp add: tokenize_next_def c s True shortened_outcome_def)
  next
    case False
    then have b: "before_newline m lx1" using shortened_char(2)[OF assms] c by simp
    obtain b' lx2 where e: "match_char CHR ''='' lx1 = (lx2, b')"
      "match_char CHR ''='' (shortened m lx1) = (shortened m lx2, b')" "before_newline m lx2"
      by (rule shortened_match[OF b]) auto
    show ?thesis
      unfolding tokenize_next_def c s prod.case e(1,2)
      using False by (simp add: outcome_token[OF b] outcome_token[OF e(3)] shortened_word[OF b] shortened_number[OF b]
          shortened_string[OF b] split: bool.split)
  qed
qed

text \<open>
  The loop on the shortened text reports \<open>IncompleteInput\<close>, inside a string, or finds the first of
  the tokens of the whole text.
\<close>

lemma start_shortened: "start_token (shortened m lx) = shortened m (start_token lx)"
  by (simp add: start_token_def shortened_def)

lemma tokenize_loop_shortened:
  "lexed lx \<Longrightarrow> lx_current_pos lx \<le> m \<Longrightarrow> m \<le> length (lx_source lx) \<Longrightarrow> lx_source lx ! (m - 1) = CHR 0x0A \<Longrightarrow>
   tokenize_loop lx = Inr ts \<Longrightarrow>
   tokenize_loop (shortened m lx) = Inl IncompleteInput \<or>
   (\<exists>k eoi. tokenize_loop (shortened m lx) = Inr (take k ts @ [eoi]) \<and> k < length ts \<and> tk_kind eoi = TkEndOfInput)"
proof (induction "length (lx_source lx) - lx_current_pos lx" arbitrary: lx rule: less_induct)
  case less
  show ?case
  proof (cases "lx_current_pos lx < m")
    case False
    then have "lexer_is_at_end (shortened m lx)"
      using less.prems by (simp add: lexer_is_at_end_def shortened_def)
    note t = tokenize_loop_at_end[OF this]
    have ts: "end_marked ts" "prefix (lx_tokens lx) (butlast ts)"
      using tokenize_loop_spells[OF less.prems(1,5)] by simp_all
    then obtain zs where "butlast ts = lx_tokens lx @ zs" by (auto simp: prefix_def)
    then obtain z where "ts = lx_tokens lx @ zs @ [z]"
      using ts(1) append_butlast_last_id[of ts] by (metis append.assoc end_marked_def)
    then have "lx_tokens lx = take (length (lx_tokens lx)) ts" "length (lx_tokens lx) < length ts"
      by simp_all
    then show ?thesis using t by (metis shortened_simps(4) token.select_convs(1))
  next
    case True
    then have ne: "\<not> lexer_is_at_end lx" "\<not> lexer_is_at_end (shortened m lx)"
      using less.prems by (simp_all add: lexer_is_at_end_def shortened_def)
    obtain lx' r where n: "tokenize_next (start_token lx) = (lx', r)" by (metis surj_pair)
    with less.prems(5) tokenize_loop_turn[OF ne(1)] have r: "r = Inr ()" "tokenize_loop lx' = Inr ts"
      by (auto split: sum.splits)
    have l: "lexed lx'" by (rule lexed_next[OF less.prems(1) ne(1) n[unfolded r]])
    have s: "lx_source lx' = lx_source lx" "lx_current_pos lx < lx_current_pos lx'"
      using tokenize_next_source[of "start_token lx", unfolded n] tokenize_next_pos[of "start_token lx", unfolded n]
      by (simp_all add: start_token_def)
    have "before_newline m (start_token lx)"
      using less.prems True by (simp add: before_newline_def start_token_def)
    from shortened_next[OF this] have o: "snd (tokenize_next (start_token (shortened m lx))) = Inl IncompleteInput \<or>
        tokenize_next (start_token (shortened m lx)) = (shortened m lx', Inr ()) \<and> lx_current_pos lx' \<le> m"
      using n r by (simp add: shortened_outcome_def start_shortened)
    then show ?thesis
    proof (elim disjE conjE)
      assume "snd (tokenize_next (start_token (shortened m lx))) = Inl IncompleteInput"
      then show ?thesis
        by (cases "tokenize_next (start_token (shortened m lx))") (simp add: tokenize_loop_turn[OF ne(2)])
    next
      assume t: "tokenize_next (start_token (shortened m lx)) = (shortened m lx', Inr ())" "lx_current_pos lx' \<le> m"
      have "length (lx_source lx') - lx_current_pos lx' < length (lx_source lx) - lx_current_pos lx"
        using s ne(1) by (simp add: lexer_is_at_end_def)
      from less.hyps[OF this l t(2) _ _ r(2)] show ?thesis
        using less.prems s by (simp add: tokenize_loop_turn[OF ne(2)] t(1))
    qed
  qed
qed

end
