(* ===== verification/SqlPrefix.thy ===== *)
theory SqlPrefix
  imports SqlParser SqlTokens
begin

text \<open>
  The parser on a text and on a beginning of it. The two runs go on in step until the shorter
  one has reached its end; from there the shorter run can only stop, with a result or with
  \<open>IncompleteInput\<close>. That is what the prompt of \<^verbatim>\<open>cli/Repl.cpp\<close> relies on, which parses the
  input again after every line. The same relation shows that the parser returns and never reads
  behind the end token.
\<close>

lemma bind_rund: "bind_run m parsed = m"
  by (rule ext) (auto simp: bind_run_def parsed_def split: bind_split sum.split)

lemma parsed_bind: "bind_run (parsed x) f = f x"
  by (rule ext) (simp add: bind_run_def parsed_def)

section \<open>Two runs in step\<close>

definition placed :: "parser \<Rightarrow> bool" where
  "placed ps \<longleftrightarrow> ps_current_pos ps < length (ps_tokens ps) \<and>
     (\<forall>i<length (ps_tokens ps). tk_kind (ps_tokens ps ! i) = TkEndOfInput \<longleftrightarrow> Suc i = length (ps_tokens ps))"

definition moved :: "parser \<Rightarrow> parser \<Rightarrow> bool" where
  "moved ps ps' \<longleftrightarrow> ps_tokens ps' = ps_tokens ps \<and> ps_current_pos ps \<le> ps_current_pos ps' \<and> placed ps'"

abbreviation here :: "parser \<Rightarrow> token" where
  "here ps \<equiv> ps_tokens ps ! ps_current_pos ps"

abbreviation advanced :: "parser \<Rightarrow> parser" where
  "advanced ps \<equiv> ps\<lparr>ps_current_pos := Suc (ps_current_pos ps)\<rparr>"

text \<open>The parser whose input ends after \<open>n\<close> tokens.\<close>

definition cut :: "nat \<Rightarrow> token \<Rightarrow> parser \<Rightarrow> parser" where
  "cut n eoi ps = ps\<lparr>ps_tokens := take n (ps_tokens ps) @ [eoi]\<rparr>"

definition cuttable :: "nat \<Rightarrow> token \<Rightarrow> parser \<Rightarrow> bool" where
  "cuttable n eoi ps \<longleftrightarrow> placed ps \<and> ps_current_pos ps \<le> n \<and> n < length (ps_tokens ps) \<and>
     tk_kind eoi = TkEndOfInput"

text \<open>
  The outcome of the shorter run is the one of the longer run, or \<open>IncompleteInput\<close>, or a
  result at the end of the input.
\<close>

definition in_step :: "nat \<Rightarrow> token \<Rightarrow> parser \<times> 'a result \<Rightarrow> parser \<times> 'a result \<Rightarrow> bool" where
  "in_step n eoi full short \<longleftrightarrow>
     (case (full, short) of ((ps1, r1), (ps2, r2)) \<Rightarrow>
        ps_current_pos ps1 \<le> n \<and> ps2 = cut n eoi ps1 \<and> r2 = r1 \<or>
        r2 = Inl IncompleteInput \<or>
        (\<exists>x. r2 = Inr x) \<and> ps_current_pos ps2 = n \<and> ps2 = cut n eoi (ps1\<lparr>ps_current_pos := n\<rparr>))"

definition agrees :: "nat \<Rightarrow> token \<Rightarrow> 'a parse \<Rightarrow> parser \<Rightarrow> bool" where
  "agrees n eoi m ps \<longleftrightarrow> (\<exists>ps1 r1 ps2 r2. m ps = Some (ps1, r1) \<and> moved ps ps1 \<and>
     m (cut n eoi ps) = Some (ps2, r2) \<and> in_step n eoi (ps1, r1) (ps2, r2))"

text \<open>At the end of the input nothing is consumed and the only error is \<open>IncompleteInput\<close>.\<close>

definition ends_well :: "'a parse \<Rightarrow> bool" where
  "ends_well m \<longleftrightarrow> (\<forall>ps. placed ps \<longrightarrow> tk_kind (here ps) = TkEndOfInput \<longrightarrow>
     (\<exists>r. m ps = Some (ps, r) \<and> (\<forall>e. r = Inl e \<longrightarrow> e = IncompleteInput)))"

lemma cut_simps [simp]:
  "ps_current_pos (cut n eoi ps) = ps_current_pos ps"
  "cut n eoi (ps\<lparr>ps_current_pos := k\<rparr>) = (cut n eoi ps)\<lparr>ps_current_pos := k\<rparr>"
  by (simp_all add: cut_def)

lemma cut_token:
  assumes "cuttable n eoi ps"
  shows "here (cut n eoi ps) = (if ps_current_pos ps < n then here ps else eoi)"
    "ps_current_pos ps < length (ps_tokens (cut n eoi ps))" "placed (cut n eoi ps)"
  using assms by (auto simp: cuttable_def cut_def placed_def nth_append min_def)

lemma moved_refl [simp]: "moved ps ps = placed ps"
  by (simp add: moved_def)

lemma moved_trans: "moved a b \<Longrightarrow> moved b c \<Longrightarrow> moved a c"
  by (auto simp: moved_def)

lemma cuttable_moved: "cuttable n eoi ps \<Longrightarrow> moved ps ps1 \<Longrightarrow> ps_current_pos ps1 \<le> n \<Longrightarrow> cuttable n eoi ps1"
  by (auto simp: cuttable_def moved_def)

lemma placed_advanced: "placed ps \<Longrightarrow> tk_kind (here ps) \<noteq> TkEndOfInput \<Longrightarrow> moved ps (advanced ps)"
  by (auto simp: moved_def placed_def)

lemma current_token_run: "placed ps \<Longrightarrow> bind_run current_token f ps = f (here ps) ps"
  by (simp add: bind_run_def current_token_def token_at_def placed_def)

lemma consume_token_run: "placed ps \<Longrightarrow> bind_run consume_token f ps = f (here ps) (advanced ps)"
  by (simp add: bind_run_def consume_token_def current_token_def token_at_def placed_def)

lemma is_at_end_run: "placed ps \<Longrightarrow> bind_run is_at_end f ps = f (tk_kind (here ps) = TkEndOfInput) ps"
  by (simp add: is_at_end_def bind_run_def current_token_def token_at_def placed_def parsed_def)

lemma match_kind_run:
  "placed ps \<Longrightarrow> bind_run (match_kind k) f ps =
     (if tk_kind (here ps) = k then f True (advanced ps) else f False ps)"
  by (simp add: match_kind_def bind_run_def consume_token_def current_token_def token_at_def placed_def
      parsed_def)

lemma expect_kind_run:
  "placed ps \<Longrightarrow> k \<noteq> TkEndOfInput \<Longrightarrow> bind_run (expect_kind k) f ps =
     (if tk_kind (here ps) = TkEndOfInput then Some (ps, Inl IncompleteInput)
      else if tk_kind (here ps) \<noteq> k then Some (ps, Inl ParseError) else f () (advanced ps))"
  by (simp add: expect_kind_def is_at_end_def bind_run_def consume_token_def current_token_def
      token_at_def placed_def parsed_def parse_fail_def)

lemma expect_identifier_run:
  "placed ps \<Longrightarrow> bind_run expect_identifier f ps =
     (if tk_kind (here ps) = TkEndOfInput then Some (ps, Inl IncompleteInput)
      else if tk_kind (here ps) \<noteq> TkIdentifier then Some (ps, Inl ParseError)
      else f \<lparr>id_text = tk_lexeme (here ps), id_location = tk_location (here ps)\<rparr> (advanced ps))"
  by (simp add: expect_identifier_def expect_kind_def is_at_end_def bind_run_def consume_token_def
      current_token_def token_at_def placed_def parsed_def parse_fail_def)

lemma current_location_run: "placed ps \<Longrightarrow> bind_run current_location f ps = f (tk_location (here ps)) ps"
  by (simp add: current_location_def bind_run_def current_token_def token_at_def placed_def parsed_def)

lemma unexpected_token_run:
  "placed ps \<Longrightarrow> unexpected_token ps =
     Some (ps, Inl (if tk_kind (here ps) = TkEndOfInput then IncompleteInput else ParseError))"
  by (simp add: unexpected_token_def is_at_end_run parse_fail_def)

lemmas parse_runs = current_token_run consume_token_run is_at_end_run match_kind_run expect_kind_run
  expect_identifier_run current_location_run unexpected_token_run

section \<open>The end of the input\<close>

lemma ends_wellI:
  "(\<And>ps. placed ps \<Longrightarrow> tk_kind (here ps) = TkEndOfInput \<Longrightarrow>
     \<exists>r. m ps = Some (ps, r) \<and> (\<forall>e. r = Inl e \<longrightarrow> e = IncompleteInput)) \<Longrightarrow> ends_well m"
  by (simp add: ends_well_def)

lemma ends_well_bind:
  assumes "ends_well m" "\<And>x. ends_well (f x)"
  shows "ends_well (bind_run m f)"
proof (rule ends_wellI)
  fix ps assume ps: "placed ps" "tk_kind (here ps) = TkEndOfInput"
  obtain r where r: "m ps = Some (ps, r)" "\<forall>e. r = Inl e \<longrightarrow> e = IncompleteInput"
    using assms(1) ps by (auto simp: ends_well_def)
  show "\<exists>r. bind_run m f ps = Some (ps, r) \<and> (\<forall>e. r = Inl e \<longrightarrow> e = IncompleteInput)"
  proof (cases r)
    case (Inr x)
    then show ?thesis using r assms(2)[of x] ps by (auto simp: bind_run_def ends_well_def)
  qed (use r in \<open>simp add: bind_run_def\<close>)
qed

lemma ends_well_steps:
  "ends_well (parsed x)"
  "k \<noteq> TkEndOfInput \<Longrightarrow> ends_well (bind_run (expect_kind k) f)"
  "ends_well (bind_run expect_identifier g)"
  "ends_well unexpected_token"
  "k \<noteq> TkEndOfInput \<Longrightarrow> ends_well (h False) \<Longrightarrow> ends_well (bind_run (match_kind k) h)"
  "(\<And>l. ends_well (c l)) \<Longrightarrow> ends_well (bind_run current_location c)"
  by (auto simp: ends_well_def parse_runs parsed_def)

lemma ends_well_current:
  "(\<And>t. tk_kind t = TkEndOfInput \<Longrightarrow> ends_well (f t)) \<Longrightarrow> ends_well (bind_run current_token f)"
  by (auto simp: ends_well_def parse_runs)

section \<open>Runs that agree\<close>

lemma agreesI:
  "m ps = Some (ps1, r1) \<Longrightarrow> moved ps ps1 \<Longrightarrow> m (cut n eoi ps) = Some (ps2, r2) \<Longrightarrow>
   in_step n eoi (ps1, r1) (ps2, r2) \<Longrightarrow> agrees n eoi m ps"
  by (auto simp: agrees_def)

text \<open>\<open>steady k m\<close>: the runs of \<open>m\<close> agree where at most \<open>k\<close> tokens are left.\<close>

definition steady :: "nat \<Rightarrow> 'a parse \<Rightarrow> bool" where
  "steady k m \<longleftrightarrow> (\<forall>n eoi ps. cuttable n eoi ps \<longrightarrow> length (ps_tokens ps) - ps_current_pos ps \<le> k \<longrightarrow>
     agrees n eoi m ps)"

text \<open>The same, but not at the end of the shorter input.\<close>

definition steady_inside :: "nat \<Rightarrow> 'a parse \<Rightarrow> bool" where
  "steady_inside k m \<longleftrightarrow> (\<forall>n eoi ps. cuttable n eoi ps \<longrightarrow> ps_current_pos ps < n \<longrightarrow>
     length (ps_tokens ps) - ps_current_pos ps \<le> k \<longrightarrow> agrees n eoi m ps)"

lemma steadyI:
  "(\<And>n eoi ps. cuttable n eoi ps \<Longrightarrow> length (ps_tokens ps) - ps_current_pos ps \<le> k \<Longrightarrow> agrees n eoi m ps) \<Longrightarrow>
   steady k m"
  by (simp add: steady_def)

lemma steadyD: "steady k m \<Longrightarrow> cuttable n eoi ps \<Longrightarrow> length (ps_tokens ps) - ps_current_pos ps \<le> k \<Longrightarrow> agrees n eoi m ps"
  by (simp add: steady_def)

lemma steady_le: "steady k m \<Longrightarrow> l \<le> k \<Longrightarrow> steady l m"
  by (simp add: steady_def)

lemma steady_steady_inside: "steady k m \<Longrightarrow> steady_inside k m"
  by (simp add: steady_def steady_inside_def)

lemma steady_returns:
  assumes "steady k m" "placed ps" "length (ps_tokens ps) - ps_current_pos ps \<le> k"
  obtains ps1 r1 where "m ps = Some (ps1, r1)" "moved ps ps1"
proof -
  have "cuttable (ps_current_pos ps) (ps_tokens ps ! (length (ps_tokens ps) - 1)) ps"
    using assms(2) by (auto simp: cuttable_def placed_def)
  from steadyD[OF assms(1) this assms(3)] show thesis using that by (auto simp: agrees_def)
qed

lemma agrees_at_end:
  assumes "ends_well m" "cuttable n eoi ps" "ps_current_pos ps = n" "m ps = Some (ps1, r1)" "moved ps ps1"
  shows "agrees n eoi m ps"
proof -
  have "placed (cut n eoi ps)" "tk_kind (here (cut n eoi ps)) = TkEndOfInput"
    using assms(2,3) cut_token[OF assms(2)] by (auto simp: cuttable_def)
  then obtain r where r: "m (cut n eoi ps) = Some (cut n eoi ps, r)" "\<forall>e. r = Inl e \<longrightarrow> e = IncompleteInput"
    using assms(1) by (auto simp: ends_well_def)
  have "cut n eoi ps = cut n eoi (ps1\<lparr>ps_current_pos := n\<rparr>)"
    using assms(3,5) by (auto simp: cut_def moved_def)
  then show ?thesis
    using r assms(3-5) by (intro agreesI[OF assms(4,5) r(1)]) (cases r; auto simp: in_step_def)
qed

lemma steady_return [intro]: "steady k (parsed x)" "steady k (parse_fail e)" "steady k (parse_result r)"
  by (auto intro!: steadyI agreesI simp: parsed_def parse_fail_def parse_result_def cuttable_def in_step_def)

lemma agrees_bind:
  assumes m: "agrees n eoi m ps" and ps: "cuttable n eoi ps"
    and f: "\<And>x ps1. m ps = Some (ps1, Inr x) \<Longrightarrow> moved ps ps1 \<Longrightarrow>
      (\<exists>ps2 r. f x ps1 = Some (ps2, r) \<and> moved ps1 ps2) \<and> (cuttable n eoi ps1 \<longrightarrow> agrees n eoi (f x) ps1)"
    and e: "\<And>x. ends_well (f x)"
  shows "agrees n eoi (bind_run m f) ps"
proof -
  obtain ps1 r1 ps2 r2 where 1: "m ps = Some (ps1, r1)" "moved ps ps1" and 2: "m (cut n eoi ps) = Some (ps2, r2)"
    and i: "in_step n eoi (ps1, r1) (ps2, r2)"
    using m by (auto simp: agrees_def)
  obtain ps3 r3 where 3: "bind_run m f ps = Some (ps3, r3)" "moved ps ps3"
  proof (cases r1)
    case (Inr x)
    then show thesis using f[of ps1 x] 1 that moved_trans[OF 1(2)] by (fastforce simp: bind_run_def)
  qed (use 1 that in \<open>auto simp: bind_run_def\<close>)
  from i consider
      (same) "ps_current_pos ps1 \<le> n" "ps2 = cut n eoi ps1" "r2 = r1"
    | (incomplete) "r2 = Inl IncompleteInput"
    | (stopped) x where "r2 = Inr x" "ps_current_pos ps2 = n" "ps2 = cut n eoi (ps1\<lparr>ps_current_pos := n\<rparr>)"
    by (auto simp: in_step_def)
  then show ?thesis
  proof cases
    case same
    show ?thesis
    proof (cases r1)
      case (Inl e)
      then show ?thesis using 1 2 3 same by (auto simp: agrees_def bind_run_def in_step_def)
    next
      case (Inr x)
      have "cuttable n eoi ps1" by (rule cuttable_moved[OF ps 1(2) same(1)])
      then have "agrees n eoi (f x) ps1" using f[of ps1 x] 1 Inr by simp
      then show ?thesis using 1 2 3 same Inr by (auto simp: agrees_def bind_run_def)
    qed
  next
    case incomplete
    then show ?thesis using 2 3 by (auto simp: agrees_def bind_run_def in_step_def)
  next
    case stopped
    let ?ps = "ps1\<lparr>ps_current_pos := n\<rparr>"
    have "cuttable n eoi ?ps" using ps 1(2) by (auto simp: cuttable_def moved_def placed_def)
    from cut_token[OF this] have "placed ps2" "tk_kind (here ps2) = TkEndOfInput"
      using ps stopped by (auto simp: cuttable_def)
    then obtain r where r: "f x ps2 = Some (ps2, r)" "\<forall>e. r = Inl e \<longrightarrow> e = IncompleteInput"
      using e[of x] by (auto simp: ends_well_def)
    have s: "bind_run m f (cut n eoi ps) = Some (ps2, r)"
      using 2 stopped r by (simp add: bind_run_def)
    have "ps2 = cut n eoi (ps3\<lparr>ps_current_pos := n\<rparr>)"
      using stopped 1(2) 3(2) by (auto simp: cut_def moved_def)
    then show ?thesis
      using r stopped by (intro agreesI[OF 3 s]) (cases r; auto simp: in_step_def)
  qed
qed

lemma steady_bind:
  assumes "steady k m" "\<And>x. steady k (f x)" "\<And>x. ends_well (f x)"
  shows "steady k (bind_run m f)"
proof (rule steadyI)
  fix n eoi ps assume ps: "cuttable n eoi ps" "length (ps_tokens ps) - ps_current_pos ps \<le> k"
  show "agrees n eoi (bind_run m f) ps"
  proof (rule agrees_bind[OF steadyD[OF assms(1) ps] ps(1) _ assms(3)])
    fix x ps1 assume "moved ps ps1"
    then have 1: "placed ps1" "length (ps_tokens ps1) - ps_current_pos ps1 \<le> k"
      using ps by (auto simp: moved_def)
    show "(\<exists>ps2 r. f x ps1 = Some (ps2, r) \<and> moved ps1 ps2) \<and> (cuttable n eoi ps1 \<longrightarrow> agrees n eoi (f x) ps1)"
      using steady_returns[OF assms(2) 1] steadyD[OF assms(2)] 1 by metis
  qed
qed

lemma agrees_step:
  "m (cut n eoi ps) = m' (cut n eoi q) \<Longrightarrow> m ps = m' q \<Longrightarrow> moved ps q \<Longrightarrow> agrees n eoi m' q \<Longrightarrow> agrees n eoi m ps"
  by (auto simp: agrees_def intro: moved_trans)

text \<open>A step that consumes a token.\<close>

lemma agrees_advance:
  assumes "cuttable n eoi ps" "ps_current_pos ps < n"
  shows "placed ps" "tk_kind (here ps) \<noteq> TkEndOfInput" "here (cut n eoi ps) = here ps" "placed (cut n eoi ps)"
    "cuttable n eoi (advanced ps)" "moved ps (advanced ps)"
    "length (ps_tokens ps) - ps_current_pos ps \<le> Suc k \<Longrightarrow> length (ps_tokens ps) - Suc (ps_current_pos ps) \<le> k"
  using assms cut_token[OF assms(1)] by (auto simp: cuttable_def placed_def moved_def)

lemma steady_inside_consume:
  assumes "\<And>t. steady k (f t)"
  shows "steady_inside (Suc k) (bind_run consume_token f)"
  unfolding steady_inside_def
proof (intro allI impI)
  fix n eoi ps assume ps: "cuttable n eoi ps" "ps_current_pos ps < n" "length (ps_tokens ps) - ps_current_pos ps \<le> Suc k"
  note a = agrees_advance[OF ps(1,2)]
  show "agrees n eoi (bind_run consume_token f) ps"
    by (rule agrees_step[where q = "advanced ps" and m' = "f (here ps)"])
      (use a ps(3) in \<open>auto simp: consume_token_run intro!: steadyD[OF assms]\<close>)
qed

lemma steady_current:
  assumes "\<And>t. tk_kind t \<noteq> TkEndOfInput \<Longrightarrow> steady_inside k (f t)"
    and e: "ends_well (bind_run current_token f)"
  shows "steady k (bind_run current_token f)"
proof (rule steadyI)
  fix n eoi ps assume ps: "cuttable n eoi ps" "length (ps_tokens ps) - ps_current_pos ps \<le> k"
  then have p: "placed ps" by (simp add: cuttable_def)
  have inside: "agrees m eoi (bind_run current_token f) ps" if "cuttable m eoi ps" "ps_current_pos ps < m" for m
    by (rule agrees_step[where q = ps and m' = "f (here ps)"])
      (use assms(1)[of "here ps"] agrees_advance[OF that] that ps(2) in \<open>auto simp: current_token_run steady_inside_def\<close>)
  show "agrees n eoi (bind_run current_token f) ps"
  proof (cases "ps_current_pos ps < n")
    case False
    then have n: "ps_current_pos ps = n" using ps by (simp add: cuttable_def)
    obtain ps1 r1 where "bind_run current_token f ps = Some (ps1, r1)" "moved ps ps1"
    proof (cases "tk_kind (here ps) = TkEndOfInput")
      case True
      then show thesis using e p that unfolding ends_well_def by (metis moved_refl)
    next
      case False
      have "cuttable (Suc n) eoi ps" using ps(1) p False n by (auto simp: cuttable_def placed_def)
      from inside[OF this] show thesis using n that by (auto simp: agrees_def)
    qed
    then show ?thesis by (rule agrees_at_end[OF e ps(1) n])
  qed (rule inside[OF ps(1)])
qed

lemma steady_cong:
  assumes "\<And>ps. placed ps \<Longrightarrow> m ps = m' ps" "steady k m'"
  shows "steady k m"
proof (rule steadyI)
  fix n eoi ps assume ps: "cuttable n eoi ps" "length (ps_tokens ps) - ps_current_pos ps \<le> k"
  then show "agrees n eoi m ps"
    using steadyD[OF assms(2) ps] assms(1)[of ps] assms(1)[OF cut_token(3)[OF ps(1)]]
    by (auto simp: agrees_def cuttable_def)
qed

lemma steady_expect:
  assumes "steady k (f ())" "c \<noteq> TkEndOfInput"
  shows "steady (Suc k) (bind_run (expect_kind c) f)"
proof (rule steady_cong)
  show "steady (Suc k) (bind_run current_token (\<lambda>t.
      if tk_kind t = TkEndOfInput then parse_fail IncompleteInput else if tk_kind t \<noteq> c then parse_fail ParseError
      else bind_run consume_token (\<lambda>_. f ())))"
    by (rule steady_current) (auto simp: ends_well_def current_token_run parse_fail_def
        intro!: steady_inside_consume assms(1) intro: steady_steady_inside)
qed (use assms(2) in \<open>simp add: parse_runs parse_fail_def\<close>)

lemma steady_identifier:
  assumes "\<And>i. steady k (f i)"
  shows "steady (Suc k) (bind_run expect_identifier f)"
proof (rule steady_cong)
  show "steady (Suc k) (bind_run current_token (\<lambda>t.
      if tk_kind t = TkEndOfInput then parse_fail IncompleteInput
      else if tk_kind t \<noteq> TkIdentifier then parse_fail ParseError
      else bind_run consume_token (\<lambda>t. f \<lparr>id_text = tk_lexeme t, id_location = tk_location t\<rparr>)))"
    by (rule steady_current) (auto simp: ends_well_def current_token_run parse_fail_def
        intro!: steady_inside_consume assms intro: steady_steady_inside)
qed (simp add: parse_runs parse_fail_def)

lemma steady_match:
  assumes "steady k (f True)" "steady (Suc k) (f False)" "ends_well (f False)" "c \<noteq> TkEndOfInput"
  shows "steady (Suc k) (bind_run (match_kind c) f)"
proof (rule steady_cong)
  show "steady (Suc k) (bind_run current_token (\<lambda>t.
      if tk_kind t = c then bind_run consume_token (\<lambda>_. f True) else f False))"
    by (rule steady_current) (use assms(2-4) in \<open>auto simp: ends_well_def current_token_run
        intro!: steady_inside_consume assms(1) intro: steady_steady_inside\<close>)
qed (simp add: parse_runs)

lemma steady_location:
  assumes "\<And>l. steady k (f l)" "\<And>l. ends_well (f l)"
  shows "steady k (bind_run current_location f)"
proof (rule steady_cong)
  show "steady k (bind_run current_token (\<lambda>t. f (tk_location t)))"
    by (rule steady_current)
      (use assms in \<open>auto simp: ends_well_def current_token_run intro: steady_steady_inside\<close>)
qed (simp add: parse_runs)

lemma steady_unexpected: "steady k unexpected_token"
proof (rule steady_cong)
  show "steady k (bind_run current_token (\<lambda>t.
      parse_fail (if tk_kind t = TkEndOfInput then IncompleteInput else ParseError)))"
    by (rule steady_current) (auto simp: ends_well_def current_token_run parse_fail_def intro: steady_steady_inside)
qed (simp add: parse_runs parse_fail_def)

section \<open>The functions of the parser\<close>

text \<open>The rules for a fixed \<open>k\<close>, as they are used outside the loops.\<close>

lemma steady_Suc: "steady (Suc k) m \<Longrightarrow> steady k m"
  by (erule steady_le) simp

lemma steady_0: "steady 0 m"
  by (auto simp: steady_def cuttable_def placed_def)

lemma steady_sequence:
  "c \<noteq> TkEndOfInput \<Longrightarrow> steady k (f ()) \<Longrightarrow> steady k (bind_run (expect_kind c) f)"
  "(\<And>i. steady k (g i)) \<Longrightarrow> steady k (bind_run expect_identifier g)"
  "(\<And>t. steady k (c' t)) \<Longrightarrow> steady_inside k (bind_run consume_token c')"
  by (rule steady_Suc, rule steady_expect; assumption)
    (rule steady_Suc, rule steady_identifier, assumption,
     metis steady_inside_consume steady_inside_def le_SucI)

lemma steady_match_sequence:
  assumes "c \<noteq> TkEndOfInput" "steady k (h True)" "steady k (h False)" "ends_well (h False)"
  shows "steady k (bind_run (match_kind c) h)"
  by (cases k) (use assms in \<open>auto intro!: steady_match steady_0 intro: steady_Suc\<close>)

text \<open>\<open>well m\<close>: the runs of \<open>m\<close> agree, and \<open>m\<close> ends well.\<close>

definition well :: "'a parse \<Rightarrow> bool" where
  "well m \<longleftrightarrow> ends_well m \<and> (\<forall>k. steady k m)"

lemma wellD: "well m \<Longrightarrow> ends_well m" "well m \<Longrightarrow> steady k m"
  by (simp_all add: well_def)

lemma well_bind: "well m \<Longrightarrow> (\<And>x. well (f x)) \<Longrightarrow> well (bind_run m f)"
  by (auto simp: well_def intro: ends_well_bind steady_bind)

lemma well_steps:
  "well (parsed x)" "well unexpected_token"
  "c \<noteq> TkEndOfInput \<Longrightarrow> well (f ()) \<Longrightarrow> well (bind_run (expect_kind c) f)"
  "(\<And>i. well (g i)) \<Longrightarrow> well (bind_run expect_identifier g)"
  "c \<noteq> TkEndOfInput \<Longrightarrow> well (h True) \<Longrightarrow> well (h False) \<Longrightarrow> well (bind_run (match_kind c) h)"
  "(\<And>l. well (l' l)) \<Longrightarrow> well (bind_run current_location l')"
  by (auto simp: well_def intro: ends_well_steps steady_sequence steady_match_sequence steady_location steady_unexpected)

lemma well_if: "(b \<Longrightarrow> well m) \<Longrightarrow> (\<not> b \<Longrightarrow> well m') \<Longrightarrow> well (if b then m else m')"
  by simp

lemmas well_intros = well_steps well_if

lemma well_switch:
  assumes "\<And>t k. tk_kind t \<noteq> TkEndOfInput \<Longrightarrow> steady_inside k (f t)"
    "\<And>t. tk_kind t = TkEndOfInput \<Longrightarrow> ends_well (f t)"
  shows "well (bind_run current_token f)"
  using assms by (auto simp: well_def intro!: steady_current ends_well_current)

lemma inside_steps:
  "well m \<Longrightarrow> steady_inside k m"
  "(\<And>t. steady k (f t)) \<Longrightarrow> steady_inside k (bind_run consume_token f)"
  "(\<And>t. well (f t)) \<Longrightarrow> steady_inside k (bind_run consume_token f)"
  by (auto simp: wellD steady_sequence intro: steady_steady_inside)

lemma steady_current_sequence:
  "(\<And>t. steady k (f t)) \<Longrightarrow> (\<And>t. ends_well (f t)) \<Longrightarrow> steady k (bind_run current_token f)"
  by (intro steady_current ends_well_current) (auto intro: steady_steady_inside)

lemmas inside_unexpected = inside_steps(1)[OF well_steps(2)]
lemmas inside_parsed = inside_steps(1)[OF well_steps(1)]

lemma well_plain_column_type: "steady_inside k (plain_column_type t)"
  unfolding plain_column_type_def by (intro inside_steps well_steps)

lemma well_column_type: "well parse_column_type"
  unfolding parse_column_type_def
  by (rule well_switch)
    (auto split: token_kind.split simp: well_plain_column_type inside_unexpected well_steps ends_well_steps
      intro!: inside_steps(2) steady_sequence(1) steady_current_sequence)

lemma well_literal: "well parse_literal"
  unfolding parse_literal_def
  by (rule well_switch)
    (auto split: token_kind.split simp: inside_unexpected well_steps ends_well_steps wellD
      intro!: inside_steps(2) steady_bind)

lemma well_comparison_operator: "well parse_comparison_operator"
  unfolding parse_comparison_operator_def
  by (rule well_switch)
    (auto split: token_kind.split simp: inside_unexpected well_steps ends_well_steps wellD
      intro!: inside_steps(2))

lemma well_identifier: "well expect_identifier"
  using well_steps(4)[of parsed] by (simp add: bind_rund well_steps)

lemma well_predicate: "well parse_predicate"
  unfolding parse_predicate_def
  by (intro well_intros well_bind well_literal well_comparison_operator) simp_all

lemma well_where: "well parse_where"
  unfolding parse_where_def by (intro well_intros well_bind well_predicate) simp_all

text \<open>The loops.\<close>

lemma comma_loop_unfold:
  "comma_loop item items = bind_run current_token (\<lambda>t.
     if tk_kind t = TkComma
     then bind_run consume_token (\<lambda>_. bind_run item (\<lambda>x. comma_loop item (items @ [x])))
     else parsed items)"
  by (rule ext) (subst comma_loop.simps, simp)

lemma well_comma_loop:
  assumes "well item"
  shows "well (comma_loop item items)"
proof -
  have e: "ends_well (comma_loop item items)" for items
    by (subst comma_loop_unfold) (auto intro!: ends_well_current ends_well_steps)
  have "steady k (comma_loop item items)" for k
  proof (induction k arbitrary: items)
    case (Suc k)
    have i: "steady_inside (Suc k) (bind_run consume_token (\<lambda>_. bind_run item (\<lambda>x. comma_loop item (items @ [x]))))"
      by (intro steady_inside_consume steady_bind wellD(2) assms Suc.IH e)
    show ?case
      using e[of items] unfolding comma_loop_unfold[of item items]
      by (rule steady_current[rotated]) (simp add: i inside_parsed)
  qed (rule steady_0)
  then show ?thesis using e by (simp add: well_def)
qed

lemma constraints_loop_unfold:
  "constraints_loop c = bind_run current_token (\<lambda>t.
     case tk_kind t of
       TkPrimary \<Rightarrow> bind_run consume_token (\<lambda>_. bind_run (expect_kind TkKey) (\<lambda>_.
         constraints_loop (c\<lparr>cc_primary_key := True\<rparr>)))
     | TkUnique \<Rightarrow> bind_run consume_token (\<lambda>_. constraints_loop (c\<lparr>cc_unique := True\<rparr>))
     | TkNot \<Rightarrow> bind_run consume_token (\<lambda>_. bind_run (expect_kind TkNullLiteral) (\<lambda>_.
         constraints_loop (c\<lparr>cc_not_null := True\<rparr>)))
     | _ \<Rightarrow> parsed c)"
proof -
  have "constraints_loop c = bind_run (parse_constraint c) (\<lambda>next.
     case next of None \<Rightarrow> parsed c | Some c' \<Rightarrow> constraints_loop c')"
    by (rule ext) (subst constraints_loop.simps, simp)
  also have "\<dots> = bind_run current_token (\<lambda>t.
     case tk_kind t of
       TkPrimary \<Rightarrow> bind_run consume_token (\<lambda>_. bind_run (expect_kind TkKey) (\<lambda>_.
         constraints_loop (c\<lparr>cc_primary_key := True\<rparr>)))
     | TkUnique \<Rightarrow> bind_run consume_token (\<lambda>_. constraints_loop (c\<lparr>cc_unique := True\<rparr>))
     | TkNot \<Rightarrow> bind_run consume_token (\<lambda>_. bind_run (expect_kind TkNullLiteral) (\<lambda>_.
         constraints_loop (c\<lparr>cc_not_null := True\<rparr>)))
     | _ \<Rightarrow> parsed c)"
    unfolding parse_constraint_def bind_run_assoc
    by (rule arg_cong[where f = "bind_run current_token"], rule ext)
      (simp add: bind_run_assoc parsed_bind split: token_kind.split)
  finally show ?thesis .
qed

lemma well_constraints_loop: "well (constraints_loop c)"
proof -
  have e: "ends_well (constraints_loop c)" for c
    by (subst constraints_loop_unfold) (auto intro!: ends_well_current ends_well_steps)
  have "steady k (constraints_loop c)" for k
  proof (induction k arbitrary: c)
    case (Suc k)
    show ?case
      using e[of c] unfolding constraints_loop_unfold[of c]
      by (rule steady_current[rotated])
        (auto split: token_kind.split simp: inside_parsed
          intro!: steady_inside_consume steady_sequence(1) Suc.IH)
  qed (rule steady_0)
  then show ?thesis using e by (simp add: well_def)
qed

lemma well_column_definition: "well parse_column_definition"
  unfolding parse_column_definition_def parse_column_constraints_def
  by (intro well_intros well_bind well_column_type well_constraints_loop)

section \<open>Statements\<close>

lemma well_kinds:
  "c \<noteq> TkEndOfInput \<Longrightarrow> well (expect_kind c)" "c \<noteq> TkEndOfInput \<Longrightarrow> well (match_kind c)"
  "well current_location"
  using well_steps(3)[of c parsed] well_steps(5)[of c parsed] well_steps(6)[of parsed]
  by (simp_all add: bind_rund well_steps(1))

lemmas well_parts = well_column_definition
  well_comma_loop[OF well_column_definition] well_comma_loop[OF well_literal] well_comma_loop[OF well_identifier]
  well_literal well_identifier well_where well_steps(1)

lemma well_create_table_statement: "well parse_create_table_statement"
  unfolding parse_create_table_statement_def by (intro well_bind well_kinds well_parts) simp_all

lemma well_create_index_statement: "well parse_create_index_statement"
  unfolding parse_create_index_statement_def by (intro well_bind well_kinds well_parts) simp_all

lemma well_insert_statement: "well parse_insert_statement"
  unfolding parse_insert_statement_def by (intro well_bind well_kinds well_parts) simp_all

lemma well_select_projection: "well parse_select_projection"
  unfolding parse_select_projection_def by (intro well_bind well_if well_kinds well_parts) simp_all

lemma well_select_statement: "well parse_select_statement"
  unfolding parse_select_statement_def by (intro well_bind well_select_projection well_kinds well_parts) simp_all

lemma well_update_statement: "well parse_update_statement"
  unfolding parse_update_statement_def by (intro well_bind well_kinds well_parts) simp_all

lemma well_delete_statement: "well parse_delete_statement"
  unfolding parse_delete_statement_def by (intro well_bind well_kinds well_parts) simp_all

lemma well_drop_table_statement: "well parse_drop_table_statement"
  unfolding parse_drop_table_statement_def by (intro well_bind well_kinds well_parts) simp_all

lemma well_drop_index_statement: "well parse_drop_index_statement"
  unfolding parse_drop_index_statement_def by (intro well_bind well_kinds well_parts) simp_all

text \<open>A statement is parsed from a token that is not the end; \<open>CREATE\<close> and \<open>DROP\<close> look one token ahead.\<close>

lemma inside_transaction: "steady_inside k parse_transaction_statement"
  unfolding steady_inside_def
proof (intro allI impI)
  fix n eoi ps assume ps: "cuttable n eoi ps" "ps_current_pos ps < n"
  note a = agrees_advance(1-6)[OF ps]
  show "agrees n eoi parse_transaction_statement ps"
    unfolding agrees_def parse_transaction_statement_def
    using a ps by (auto simp: parse_runs parsed_def parse_fail_def in_step_def cuttable_def)
qed

lemma next_token_run:
  assumes "placed ps" "tk_kind (here ps) \<noteq> TkEndOfInput"
  shows "bind_run next_token f ps = f (here (advanced ps)) ps"
  using placed_advanced[OF assms] by (simp add: bind_run_def next_token_def token_at_def moved_def placed_def)

lemma inside_lookahead:
  assumes m: "well m1" "well m2"
    and c: "\<And>ps. placed ps \<Longrightarrow> tk_kind (here ps) = c \<Longrightarrow> tk_kind (here (advanced ps)) = TkEndOfInput \<Longrightarrow>
      placed (advanced ps) \<Longrightarrow> \<exists>ps1. m2 ps = Some (ps1, Inl IncompleteInput)"
    and ps: "cuttable n eoi ps" "ps_current_pos ps < n" "tk_kind (here ps) = c"
  shows "agrees n eoi (bind_run next_token (\<lambda>t2. if tk_kind t2 = TkTable then m1 else m2)) ps" (is "agrees n eoi ?m ps")
proof -
  note a = agrees_advance(1-6)[OF ps(1,2)]
  note next_full = next_token_run[OF a(1,2)]
  have next_short: "bind_run next_token f (cut n eoi ps) = f (here (cut n eoi (advanced ps))) (cut n eoi ps)" for f :: "token \<Rightarrow> 'a parse"
    using next_token_run[OF a(4)] a(2,3) by simp
  show ?thesis
  proof (cases "Suc (ps_current_pos ps) < n")
    case True
    then have "here (cut n eoi (advanced ps)) = here (advanced ps)"
      using cut_token(1)[OF a(5)] by simp
    then have "?m (cut n eoi ps) = (if tk_kind (here (advanced ps)) = TkTable then m1 else m2) (cut n eoi ps)"
      by (simp only: next_short)
    moreover have "?m ps = (if tk_kind (here (advanced ps)) = TkTable then m1 else m2) ps"
      by (simp only: next_full)
    moreover have "agrees n eoi (if tk_kind (here (advanced ps)) = TkTable then m1 else m2) ps"
      using steadyD[OF wellD(2)[OF m(1)] ps(1) order_refl] steadyD[OF wellD(2)[OF m(2)] ps(1) order_refl]
      by (cases "tk_kind (here (advanced ps)) = TkTable") simp_all
    ultimately show ?thesis by (simp add: agrees_def)
  next
    case False
    then have e: "here (cut n eoi (advanced ps)) = eoi" "tk_kind eoi = TkEndOfInput"
      using cut_token(1)[OF a(5)] ps(1) by (simp_all add: cuttable_def)
    have "placed (cut n eoi (advanced ps))" by (rule cut_token(3)[OF a(5)])
    then obtain ps2 where 2: "m2 (cut n eoi ps) = Some (ps2, Inl IncompleteInput)"
      using c[of "cut n eoi ps"] a ps(3) e by auto
    have "well (if tk_kind (here (advanced ps)) = TkTable then m1 else m2)" using m by simp
    from steady_returns[OF wellD(2)[OF this] a(1) order_refl]
    obtain ps1 r1 where "(if tk_kind (here (advanced ps)) = TkTable then m1 else m2) ps = Some (ps1, r1)" "moved ps ps1" .
    then show ?thesis
      using 2 e by (auto simp: agrees_def next_full next_short in_step_def)
  qed
qed

lemma agrees_current:
  assumes "cuttable n eoi ps" "ps_current_pos ps < n" "agrees n eoi (f (here ps)) ps"
  shows "agrees n eoi (bind_run current_token f) ps"
  using agrees_advance(1-6)[OF assms(1,2)] assms(3)
  by (simp add: agrees_def current_token_run del: cut_simps(1))

lemma inside_statement: "steady_inside k parse_statement"
  unfolding steady_inside_def
proof (intro allI impI)
  fix n eoi ps assume ps: "cuttable n eoi ps" "ps_current_pos ps < n"
  note a = agrees_advance(1-6)[OF ps]
  note well = steadyD[OF wellD(2) ps(1) order_refl]
  have transaction: "agrees n eoi parse_transaction_statement ps"
    using inside_transaction ps unfolding steady_inside_def by blast
  have fail: "agrees n eoi (parse_fail ParseError) ps"
    by (rule steadyD[OF steady_return(2) ps(1) order_refl])
  have create: "agrees n eoi (bind_run next_token (\<lambda>t2.
      if tk_kind t2 = TkTable then parse_create_table_statement else parse_create_index_statement)) ps"
    if "tk_kind (here ps) = TkCreate"
    by (rule inside_lookahead[OF well_create_table_statement well_create_index_statement _ ps that])
      (simp add: parse_create_index_statement_def parse_runs)
  have drop: "agrees n eoi (bind_run next_token (\<lambda>t2.
      if tk_kind t2 = TkTable then parse_drop_table_statement else parse_drop_index_statement)) ps"
    if "tk_kind (here ps) = TkDrop"
    by (rule inside_lookahead[OF well_drop_table_statement well_drop_index_statement _ ps that])
      (simp add: parse_drop_index_statement_def parse_runs)
  show "agrees n eoi parse_statement ps"
    unfolding parse_statement_def
    by (rule agrees_current[OF ps], cases "tk_kind (here ps)", simp_all add: transaction fail well
        well_insert_statement well_select_statement well_update_statement well_delete_statement)
      (erule create, erule drop)
qed

section \<open>The loop over the statements\<close>

lemma parse_loop_unfold:
  "parse_loop statements = bind_run is_at_end (\<lambda>at_end.
     if \<not> at_end then
       bind_run parse_statement (\<lambda>statement.
       bind_run (expect_kind TkSemicolon) (\<lambda>_. parse_loop (statements @ [statement])))
     else parsed statements)"
  by (rule ext) (subst parse_loop.simps, simp)

lemma parse_loop_at_end:
  "placed ps \<Longrightarrow> tk_kind (here ps) = TkEndOfInput \<Longrightarrow> parse_loop ss ps = Some (ps, Inr ss)"
  by (subst parse_loop_unfold) (simp add: parse_runs parsed_def)

lemma parse_loop_turn:
  "placed ps \<Longrightarrow> tk_kind (here ps) \<noteq> TkEndOfInput \<Longrightarrow>
   parse_loop ss ps = bind_run parse_statement (\<lambda>statement.
     bind_run (expect_kind TkSemicolon) (\<lambda>_. parse_loop (ss @ [statement]))) ps"
  by (subst parse_loop_unfold) (simp add: parse_runs)

lemma parse_statement_returns:
  assumes "placed ps" "tk_kind (here ps) \<noteq> TkEndOfInput"
  obtains ps1 r1 where "parse_statement ps = Some (ps1, r1)" "moved ps ps1"
proof -
  have "cuttable (Suc (ps_current_pos ps)) (ps_tokens ps ! (length (ps_tokens ps) - 1)) ps"
    using assms by (auto simp: cuttable_def placed_def)
  then have "agrees (Suc (ps_current_pos ps)) (ps_tokens ps ! (length (ps_tokens ps) - 1)) parse_statement ps"
    using inside_statement unfolding steady_inside_def by blast
  then show thesis using that by (auto simp: agrees_def)
qed

text \<open>The loop returns on every input that ends with an end token, and nowhere else has one.\<close>

lemma parse_loop_returns:
  "placed ps \<Longrightarrow> \<exists>ps1 r. parse_loop ss ps = Some (ps1, r) \<and> (\<forall>all. r = Inr all \<longrightarrow> (\<exists>rest. all = ss @ rest))"
proof (induction "length (ps_tokens ps) - ps_current_pos ps" arbitrary: ps ss rule: less_induct)
  case less
  show ?case
  proof (cases "tk_kind (here ps) = TkEndOfInput")
    case False
    then obtain ps1 r1 where 1: "parse_statement ps = Some (ps1, r1)" "moved ps ps1"
      by (rule parse_statement_returns[OF less.prems])
    have p1: "placed ps1" using 1(2) by (simp add: moved_def)
    note turn = parse_loop_turn[OF less.prems False, of ss]
    show ?thesis
    proof (cases r1)
      case (Inr st)
      show ?thesis
      proof (cases "tk_kind (here ps1) = TkSemicolon")
        case True
        then have a: "moved ps1 (advanced ps1)" using p1 by (intro placed_advanced) simp_all
        have "length (ps_tokens (advanced ps1)) - ps_current_pos (advanced ps1) < length (ps_tokens ps) - ps_current_pos ps"
          using a 1(2) less.prems by (auto simp: moved_def placed_def)
        from less.hyps[OF this, of "ss @ [st]"] a show ?thesis
          using turn 1 Inr True p1 by (auto simp: bind_run_def[of parse_statement] expect_kind_run moved_def)
      qed (use turn 1 Inr p1 in \<open>auto simp: bind_run_def[of parse_statement] expect_kind_run\<close>)
    qed (use turn 1 in \<open>auto simp: bind_run_def[of parse_statement]\<close>)
  qed (use parse_loop_at_end[OF less.prems] in simp)
qed

text \<open>
  On a beginning of the input it stops with \<open>IncompleteInput\<close> or with statements that the whole
  input begins with.
\<close>

lemma parse_loop_prefix:
  "cuttable n eoi ps \<Longrightarrow> parse_loop ss ps = Some (ps1, Inr all) \<Longrightarrow>
   \<exists>ps2 r. parse_loop ss (cut n eoi ps) = Some (ps2, r) \<and> (r = Inl IncompleteInput \<or> (\<exists>k. r = Inr (take k all)))"
proof (induction "length (ps_tokens ps) - ps_current_pos ps" arbitrary: ps ss rule: less_induct)
  case less
  note c = less.prems(1)
  have p: "placed ps" using c by (simp add: cuttable_def)
  show ?case
  proof (cases "ps_current_pos ps < n")
    case False
    then have "tk_kind (here (cut n eoi ps)) = TkEndOfInput"
      using cut_token(1)[OF c] c by (simp add: cuttable_def)
    then have "parse_loop ss (cut n eoi ps) = Some (cut n eoi ps, Inr ss)"
      by (rule parse_loop_at_end[OF cut_token(3)[OF c]])
    moreover obtain rest where "all = ss @ rest" using parse_loop_returns[OF p, of ss] less.prems(2) by auto
    then have "ss = take (length ss) all" by simp
    ultimately show ?thesis by metis
  next
    case True
    note a = agrees_advance(1-6)[OF c True]
    have "agrees n eoi parse_statement ps"
      using inside_statement c True unfolding steady_inside_def by blast
    then obtain q r q2 r2 where 1: "parse_statement ps = Some (q, r)" "moved ps q"
      and 2: "parse_statement (cut n eoi ps) = Some (q2, r2)" "in_step n eoi (q, r) (q2, r2)"
      by (auto simp: agrees_def)
    have "tk_kind (here (cut n eoi ps)) \<noteq> TkEndOfInput" using a(2,3) by simp
    note turn = parse_loop_turn[OF a(1,2), of ss] parse_loop_turn[OF a(4) this, of ss]
    have q: "placed q" using 1(2) by (simp add: moved_def)
    obtain st where r: "r = Inr st" "tk_kind (here q) = TkSemicolon"
      and rest: "parse_loop (ss @ [st]) (advanced q) = Some (ps1, Inr all)"
      using less.prems(2) turn(1) 1 q
      by (cases r) (auto simp: bind_run_def[of parse_statement] expect_kind_run split: if_splits)
    from 2(2) consider (same) "ps_current_pos q \<le> n" "q2 = cut n eoi q" "r2 = Inr st"
      | (incomplete) "r2 = Inl IncompleteInput"
      | (stopped) x where "r2 = Inr x" "ps_current_pos q2 = n" "q2 = cut n eoi (q\<lparr>ps_current_pos := n\<rparr>)"
      by (auto simp: in_step_def r)
    then show ?thesis
    proof cases
      case same
      have cq: "cuttable n eoi q" by (rule cuttable_moved[OF c 1(2) same(1)])
      show ?thesis
      proof (cases "ps_current_pos q < n")
        case True
        note b = agrees_advance(3-6)[OF cq True]
        have "length (ps_tokens (advanced q)) - ps_current_pos (advanced q) < length (ps_tokens ps) - ps_current_pos ps"
          using b 1(2) p by (auto simp: moved_def placed_def)
        from less.hyps[OF this b(3) rest, unfolded cut_simps] show ?thesis
          using turn(2) 2(1) same b r(2) cut_token(3)[OF cq]
          by (simp add: bind_run_def[of parse_statement] expect_kind_run)
      next
        case False
        then have "tk_kind (here (cut n eoi q)) = TkEndOfInput"
          using cut_token(1)[OF cq] cq by (simp add: cuttable_def)
        then show ?thesis
          using turn(2) 2(1) same cut_token(3)[OF cq]
          by (simp add: bind_run_def[of parse_statement] expect_kind_run del: cut_simps(1))
      qed
    next
      case incomplete
      then show ?thesis using turn(2) 2(1) by (simp add: bind_run_def[of parse_statement])
    next
      case stopped
      have "cuttable n eoi (q\<lparr>ps_current_pos := n\<rparr>)"
        using c 1(2) by (auto simp: cuttable_def moved_def placed_def)
      from cut_token[OF this] have "placed q2" "tk_kind (here q2) = TkEndOfInput"
        using c stopped by (auto simp: cuttable_def)
      then show ?thesis using turn(2) 2(1) stopped(1)
        by (simp add: bind_run_def[of parse_statement] expect_kind_run)
    qed
  qed
qed

section \<open>Texts\<close>

lemma placed_new:
  assumes "end_marked ts"
  shows "placed (parser_new ts)"
proof -
  have "tk_kind (ts ! i) = TkEndOfInput \<longleftrightarrow> Suc i = length ts" if "i < length ts" for i
  proof (cases "Suc i = length ts")
    case True
    then have "ts ! i = last ts" using assms by (simp add: end_marked_def last_conv_nth flip: True)
    then show ?thesis using True assms by (simp add: end_marked_def)
  next
    case False
    then have "ts ! i \<in> set (butlast ts)" using that by (metis Suc_lessI in_set_conv_nth length_butlast less_diff_conv nth_butlast Suc_eq_plus1)
    then show ?thesis using False assms by (simp add: end_marked_def)
  qed
  then show ?thesis using assms by (auto simp: placed_def parser_new_def end_marked_def)
qed

lemma parse_total:
  assumes "tokenize s = Inr ts"
  shows "\<exists>r. parse ts = Some r"
  using parse_loop_returns[OF placed_new, of ts "[]"] tokenize_loop_spells[OF lexed_new] assms
  by (fastforce simp: parse_def tokenize_def)

text \<open>
  C31. The parser returns on the tokens of every text, and never reads the vector of tokens at an
  index out of range, not even where it looks one token ahead.
\<close>

theorem parse_returns:
  assumes "tokenize s = Inr ts"
  shows "\<exists>r. parse ts = Some r"
  by (rule parse_total[OF assms])

theorem parse_returns_witness: "\<exists>ts r. tokenize sample_source = Inr ts \<and> parse ts = Some r"
  using parse_returns[OF sample_tokens] sample_tokens by blast

lemma first_lines_incomplete:
  assumes "tokenize (s @ [CHR 0x0A] @ s') = Inr ts" "parse ts = Some (Inr statements)"
  shows "case tokenize (s @ [CHR 0x0A]) of
      Inl e \<Rightarrow> e = IncompleteInput
    | Inr ts1 \<Rightarrow> parse ts1 = Some (Inl IncompleteInput) \<or> (\<exists>k. parse ts1 = Some (Inr (take k statements)))"
proof -
  let ?m = "Suc (length s)"
  have l: "tokenize_loop (lexer_new (s @ [CHR 0x0A] @ s')) = Inr ts" using assms(1) by (simp add: tokenize_def)
  have e: "end_marked ts" using tokenize_loop_spells[OF lexed_new l] by simp
  have "shortened ?m (lexer_new (s @ [CHR 0x0A] @ s')) = lexer_new (s @ [CHR 0x0A])"
    by (simp add: shortened_def lexer_new_def)
  with tokenize_loop_shortened[OF lexed_new _ _ _ l, of ?m]
  consider (incomplete) "tokenize (s @ [CHR 0x0A]) = Inl IncompleteInput"
    | (tokens) k eoi where "tokenize (s @ [CHR 0x0A]) = Inr (take k ts @ [eoi])" "k < length ts" "tk_kind eoi = TkEndOfInput"
    by (auto simp: tokenize_def lexer_new_def nth_append)
  then show ?thesis
  proof cases
    case tokens
    obtain q where q: "parse_loop [] (parser_new ts) = Some (q, Inr statements)"
      using assms(2) by (auto simp: parse_def)
    have "cuttable k eoi (parser_new ts)"
      using placed_new[OF e] tokens by (simp add: cuttable_def parser_new_def)
    moreover have "cut k eoi (parser_new ts) = parser_new (take k ts @ [eoi])"
      by (simp add: cut_def parser_new_def)
    ultimately show ?thesis using parse_loop_prefix[OF _ q] tokens(1) by (fastforce simp: parse_def)
  qed simp
qed

text \<open>
  C30. A script can be typed in line by line: when a text is accepted, the lexer and the parser never
  refuse its first lines. They report \<open>IncompleteInput\<close>, on which the prompt reads another line, or
  return statements that the whole text begins with.
\<close>

theorem first_lines_not_refused:
  assumes "tokenize (s @ [CHR 0x0A] @ s') = Inr ts" "parse ts = Some (Inr statements)"
  shows "case tokenize (s @ [CHR 0x0A]) of
      Inl e \<Rightarrow> e = IncompleteInput
    | Inr ts1 \<Rightarrow> parse ts1 = Some (Inl IncompleteInput) \<or> (\<exists>k. parse ts1 = Some (Inr (take k statements)))"
  by (rule first_lines_incomplete[OF assms])

definition first_line :: string where
  "first_line = ''begin; select''"

definition second_line :: string where
  "second_line = ''* from t;''"

definition two_line_tokens :: "token list" where
  "two_line_tokens =
    [\<lparr>tk_kind = TkBegin, tk_lexeme = ''begin'', tk_location = \<lparr>loc_line = 1, loc_column = 1\<rparr>\<rparr>,
     \<lparr>tk_kind = TkSemicolon, tk_lexeme = '';'', tk_location = \<lparr>loc_line = 1, loc_column = 6\<rparr>\<rparr>,
     \<lparr>tk_kind = TkSelect, tk_lexeme = ''select'', tk_location = \<lparr>loc_line = 1, loc_column = 8\<rparr>\<rparr>,
     \<lparr>tk_kind = TkAsterisk, tk_lexeme = ''*'', tk_location = \<lparr>loc_line = 2, loc_column = 1\<rparr>\<rparr>,
     \<lparr>tk_kind = TkFrom, tk_lexeme = ''from'', tk_location = \<lparr>loc_line = 2, loc_column = 3\<rparr>\<rparr>,
     \<lparr>tk_kind = TkIdentifier, tk_lexeme = ''t'', tk_location = \<lparr>loc_line = 2, loc_column = 8\<rparr>\<rparr>,
     \<lparr>tk_kind = TkSemicolon, tk_lexeme = '';'', tk_location = \<lparr>loc_line = 2, loc_column = 9\<rparr>\<rparr>,
     \<lparr>tk_kind = TkEndOfInput, tk_lexeme = [], tk_location = \<lparr>loc_line = 2, loc_column = 10\<rparr>\<rparr>]"

definition two_lines :: "statement list" where
  "two_lines = [BeginStatement \<lparr>loc_line = 1, loc_column = 1\<rparr>,
     SelectStatement \<lparr>sel_projection = SelectAll \<lparr>loc_line = 2, loc_column = 1\<rparr>,
       sel_table_name = \<lparr>id_text = ''t'', id_location = \<lparr>loc_line = 2, loc_column = 8\<rparr>\<rparr>,
       sel_predicate = None, sel_location = \<lparr>loc_line = 1, loc_column = 8\<rparr>\<rparr>]"

lemma two_lines_parsed:
  "tokenize (first_line @ [CHR 0x0A] @ second_line) = Inr two_line_tokens"
  "parse two_line_tokens = Some (Inr two_lines)"
  by code_simp+

theorem first_lines_not_refused_witness:
  "parse two_line_tokens = Some (Inr two_lines) \<and>
   (case tokenize (first_line @ [CHR 0x0A]) of
      Inl e \<Rightarrow> e = IncompleteInput
    | Inr ts1 \<Rightarrow> parse ts1 = Some (Inl IncompleteInput) \<or> (\<exists>k. parse ts1 = Some (Inr (take k two_lines))))"
  using first_lines_not_refused[OF two_lines_parsed] two_lines_parsed(2) by simp

end
