(* ===== verification/CatalogTypes.thy ===== *)
theory CatalogTypes
  imports RowCodec Codecs
begin

text \<open>
  The data of the catalog: \<^verbatim>\<open>catalog/TableId.h\<close>, \<^verbatim>\<open>ColumnId.h\<close>, \<^verbatim>\<open>IndexId.h\<close>, the descriptors
  (\<^verbatim>\<open>TableDescriptor.cpp\<close>, \<^verbatim>\<open>ColumnDescriptor.cpp\<close>, \<^verbatim>\<open>IndexDescriptor.cpp\<close>), the schemas of the
  system tables (\<^verbatim>\<open>SystemTables.cpp\<close>), the names (\<^verbatim>\<open>CatalogNames.h\<close>, \<^verbatim>\<open>IndexNames.cpp\<close>), and the
  metadata rows that \<^verbatim>\<open>Catalog.cpp\<close> and \<^verbatim>\<open>CatalogInitializer.cpp\<close> write into the system tables.
\<close>

section \<open>Identifiers and names\<close>

type_synonym table_id = u64
type_synonym column_id = u64
type_synonym index_id = u64

text \<open>The three kinds of identifiers are the same 64-bit number with one invalid value.\<close>

definition INVALID_ID :: u64 where
  "INVALID_ID = - 1"

definition id_is_valid :: "u64 \<Rightarrow> bool" where
  "id_is_valid i \<longleftrightarrow> i \<noteq> INVALID_ID"

definition DANDB_TABLES_ID :: table_id where "DANDB_TABLES_ID = 1"
definition DANDB_COLUMNS_ID :: table_id where "DANDB_COLUMNS_ID = 2"
definition DANDB_INDEXES_ID :: table_id where "DANDB_INDEXES_ID = 3"
definition DANDB_INDEX_COLUMNS_ID :: table_id where "DANDB_INDEX_COLUMNS_ID = 4"

definition DANDB_TABLES_PRIMARY_INDEX_ID :: index_id where "DANDB_TABLES_PRIMARY_INDEX_ID = 1"
definition DANDB_COLUMNS_PRIMARY_INDEX_ID :: index_id where "DANDB_COLUMNS_PRIMARY_INDEX_ID = 2"
definition DANDB_INDEXES_PRIMARY_INDEX_ID :: index_id where "DANDB_INDEXES_PRIMARY_INDEX_ID = 3"
definition DANDB_INDEX_COLUMNS_PRIMARY_INDEX_ID :: index_id where "DANDB_INDEX_COLUMNS_PRIMARY_INDEX_ID = 4"

definition DANDB_TABLES_NAME :: string where "DANDB_TABLES_NAME = ''dandb_tables''"
definition DANDB_COLUMNS_NAME :: string where "DANDB_COLUMNS_NAME = ''dandb_columns''"
definition DANDB_INDEXES_NAME :: string where "DANDB_INDEXES_NAME = ''dandb_indexes''"
definition DANDB_INDEX_COLUMNS_NAME :: string where "DANDB_INDEX_COLUMNS_NAME = ''dandb_index_columns''"

definition CATALOG_NAME_CAPACITY :: nat where
  "CATALOG_NAME_CAPACITY = 256"

definition is_system_table :: "table_id \<Rightarrow> bool" where
  "is_system_table i \<longleftrightarrow> i = DANDB_TABLES_ID \<or> i = DANDB_COLUMNS_ID \<or> i = DANDB_INDEXES_ID \<or>
     i = DANDB_INDEX_COLUMNS_ID"

definition RESERVED_CATALOG_PREFIX :: string where
  "RESERVED_CATALOG_PREFIX = ''dandb_''"

definition has_reserved_catalog_prefix :: "string \<Rightarrow> bool" where
  "has_reserved_catalog_prefix name \<longleftrightarrow> take (length RESERVED_CATALOG_PREFIX) name = RESERVED_CATALOG_PREFIX"

text \<open>\<open>std::to_string\<close> of a number.\<close>

fun nat_to_string :: "nat \<Rightarrow> string" where
  "nat_to_string n = (if n < 10 then [char_of (of_char CHR ''0'' + n)]
     else nat_to_string (n div 10) @ [char_of (of_char CHR ''0'' + n mod 10)])"

declare nat_to_string.simps [simp del]

definition internal_primary_index_name :: "table_id \<Rightarrow> string" where
  "internal_primary_index_name i = RESERVED_CATALOG_PREFIX @ ''internal_pk_'' @ nat_to_string (unat i)"

definition internal_unique_index_name :: "table_id \<Rightarrow> column_id \<Rightarrow> string" where
  "internal_unique_index_name i c =
     RESERVED_CATALOG_PREFIX @ ''internal_unique_'' @ nat_to_string (unat i) @ ''_'' @ nat_to_string (unat c)"

section \<open>Descriptors\<close>

record table_descriptor =
  td_table_id :: table_id
  td_name :: string
  td_root_page_id :: page_id

definition table_descriptor_create :: "table_id \<Rightarrow> string \<Rightarrow> page_id \<Rightarrow> table_descriptor result" where
  "table_descriptor_create table_id name root =
     ensure (id_is_valid table_id) InvalidArgument (
     ensure (name \<noteq> []) InvalidArgument (
     ensure (page_id_is_valid root) InvalidArgument (
     ensure (root \<noteq> HEADER_PAGE_ID) InvalidArgument (
       Inr \<lparr>td_table_id = table_id, td_name = name, td_root_page_id = root\<rparr>))))"

record column_descriptor =
  cld_column_id :: column_id
  cld_table_id :: table_id
  cld_name :: string
  cld_logical_type :: logical_type
  cld_ordinal :: nat
  cld_nullable :: bool
  cld_primary_key :: bool
  cld_unique :: bool

definition column_descriptor_create ::
    "column_id \<Rightarrow> table_id \<Rightarrow> string \<Rightarrow> logical_type \<Rightarrow> nat \<Rightarrow> bool \<Rightarrow> bool \<Rightarrow> bool \<Rightarrow> column_descriptor result" where
  "column_descriptor_create column_id table_id name type ordinal nullable primary_key unique =
     ensure (id_is_valid column_id) InvalidArgument (
     ensure (id_is_valid table_id) InvalidArgument (
     ensure (name \<noteq> []) InvalidArgument (
     ensure (\<not> (primary_key \<and> nullable)) InvalidArgument (
     ensure (\<not> (primary_key \<and> \<not> unique)) InvalidArgument (
     ensure (\<not> (unique \<and> nullable)) InvalidArgument (
     ensure (\<not> (primary_key \<and> \<not> can_be_indexed type)) InvalidArgument (
     ensure (\<not> (unique \<and> \<not> can_be_indexed type)) InvalidArgument (
       Inr \<lparr>cld_column_id = column_id, cld_table_id = table_id, cld_name = name, cld_logical_type = type,
         cld_ordinal = ordinal, cld_nullable = nullable, cld_primary_key = primary_key, cld_unique = unique\<rparr>))))))))"

record index_descriptor =
  ixd_index_id :: index_id
  ixd_table_id :: table_id
  ixd_name :: string
  ixd_root_page_id :: page_id
  ixd_unique :: bool
  ixd_primary :: bool
  ixd_internal :: bool
  ixd_indexed_column_id :: column_id

definition index_descriptor_create ::
    "index_id \<Rightarrow> table_id \<Rightarrow> string \<Rightarrow> page_id \<Rightarrow> bool \<Rightarrow> bool \<Rightarrow> bool \<Rightarrow> column_id \<Rightarrow> index_descriptor result" where
  "index_descriptor_create index_id table_id name root unique primary internal indexed_column_id =
     ensure (id_is_valid index_id) InvalidArgument (
     ensure (id_is_valid table_id) InvalidArgument (
     ensure (name \<noteq> []) InvalidArgument (
     ensure (page_id_is_valid root) InvalidArgument (
     ensure (root \<noteq> HEADER_PAGE_ID) InvalidArgument (
     ensure (id_is_valid indexed_column_id) InvalidArgument (
     ensure (\<not> (primary \<and> \<not> unique)) InvalidArgument (
     ensure (\<not> (primary \<and> \<not> internal)) InvalidArgument (
       Inr \<lparr>ixd_index_id = index_id, ixd_table_id = table_id, ixd_name = name, ixd_root_page_id = root,
         ixd_unique = unique, ixd_primary = primary, ixd_internal = internal,
         ixd_indexed_column_id = indexed_column_id\<rparr>))))))))"

section \<open>SystemTables.cpp\<close>

definition append_column :: "column list \<Rightarrow> string \<Rightarrow> logical_type \<Rightarrow> bool \<Rightarrow> bool \<Rightarrow> bool \<Rightarrow> column list result" where
  "append_column columns name type nullable pk unique =
     bind_result (column_create name type nullable pk unique) (\<lambda>column. Inr (columns @ [column]))"

definition tables_schema :: "schema result" where
  "tables_schema =
     bind_result (append_column [] ''table_id'' (plain_type Int64) False True True) (\<lambda>columns.
     bind_result (string_type CATALOG_NAME_CAPACITY) (\<lambda>name_type.
     bind_result (append_column columns ''name'' name_type False False True) (\<lambda>columns.
     bind_result (append_column columns ''root_page_id'' (plain_type Int64) False False False) (\<lambda>columns.
       schema_create columns))))"

definition columns_schema :: "schema result" where
  "columns_schema =
     bind_result (append_column [] ''column_id'' (plain_type Int64) False True True) (\<lambda>columns.
     bind_result (append_column columns ''table_id'' (plain_type Int64) False False False) (\<lambda>columns.
     bind_result (string_type CATALOG_NAME_CAPACITY) (\<lambda>name_type.
     bind_result (append_column columns ''name'' name_type False False False) (\<lambda>columns.
     bind_result (append_column columns ''type_kind'' (plain_type Int8) False False False) (\<lambda>columns.
     bind_result (append_column columns ''type_capacity'' (plain_type Int64) True False False) (\<lambda>columns.
     bind_result (append_column columns ''ordinal'' (plain_type Int64) False False False) (\<lambda>columns.
     bind_result (append_column columns ''nullable'' (plain_type Boolean) False False False) (\<lambda>columns.
     bind_result (append_column columns ''primary_key'' (plain_type Boolean) False False False) (\<lambda>columns.
     bind_result (append_column columns ''unique'' (plain_type Boolean) False False False) (\<lambda>columns.
       schema_create columns))))))))))"

definition indexes_schema :: "schema result" where
  "indexes_schema =
     bind_result (append_column [] ''index_id'' (plain_type Int64) False True True) (\<lambda>columns.
     bind_result (append_column columns ''table_id'' (plain_type Int64) False False False) (\<lambda>columns.
     bind_result (string_type CATALOG_NAME_CAPACITY) (\<lambda>name_type.
     bind_result (append_column columns ''name'' name_type False False False) (\<lambda>columns.
     bind_result (append_column columns ''root_page_id'' (plain_type Int64) False False False) (\<lambda>columns.
     bind_result (append_column columns ''unique'' (plain_type Boolean) False False False) (\<lambda>columns.
     bind_result (append_column columns ''primary'' (plain_type Boolean) False False False) (\<lambda>columns.
     bind_result (append_column columns ''internal'' (plain_type Boolean) False False False) (\<lambda>columns.
       schema_create columns))))))))"

definition index_columns_schema :: "schema result" where
  "index_columns_schema =
     bind_result (append_column [] ''index_id'' (plain_type Int64) False True True) (\<lambda>columns.
     bind_result (append_column columns ''column_id'' (plain_type Int64) False False False) (\<lambda>columns.
     bind_result (append_column columns ''ordinal'' (plain_type Int64) False False False) (\<lambda>columns.
       schema_create columns)))"

text \<open>\<open>schema.primary_key_column()\<close>.\<close>

definition primary_key_column :: "schema \<Rightarrow> column" where
  "primary_key_column s = sch_columns s ! sch_primary_key_ordinal s"

section \<open>Metadata rows\<close>

definition table_row :: "table_id \<Rightarrow> string \<Rightarrow> page_id \<Rightarrow> row result" where
  "table_row table_id name root =
     bind_result (value_string name CATALOG_NAME_CAPACITY) (\<lambda>name_value.
       Inr [value_int64 table_id, name_value, value_int64 root])"

definition column_row ::
    "column_id \<Rightarrow> table_id \<Rightarrow> string \<Rightarrow> logical_type \<Rightarrow> nat \<Rightarrow> bool \<Rightarrow> bool \<Rightarrow> bool \<Rightarrow> row result" where
  "column_row column_id table_id name type ordinal nullable primary_key unique =
     bind_result (value_string name CATALOG_NAME_CAPACITY) (\<lambda>name_value.
     bind_result (value_int8 (ucast (encode_kind (lt_kind type)))) (\<lambda>kind_value.
     let capacity_value = (case lt_capacity type of
       Some capacity \<Rightarrow> value_int64 (of_nat capacity) | None \<Rightarrow> value_null (plain_type Int64)) in
     Inr [value_int64 column_id, value_int64 table_id, name_value, kind_value, capacity_value,
       value_int64 (of_nat ordinal), value_boolean nullable, value_boolean primary_key, value_boolean unique]))"

definition index_row :: "index_id \<Rightarrow> table_id \<Rightarrow> string \<Rightarrow> page_id \<Rightarrow> bool \<Rightarrow> bool \<Rightarrow> bool \<Rightarrow> row result" where
  "index_row index_id table_id name root unique primary internal =
     bind_result (value_string name CATALOG_NAME_CAPACITY) (\<lambda>name_value.
       Inr [value_int64 index_id, value_int64 table_id, name_value, value_int64 root,
         value_boolean unique, value_boolean primary, value_boolean internal])"

definition index_column_row :: "index_id \<Rightarrow> column_id \<Rightarrow> row" where
  "index_column_row index_id column_id = [value_int64 index_id, value_int64 column_id, value_int64 0]"

end
