(* ===== verification/CatalogState.thy ===== *)
theory CatalogState
  imports CatalogTypes "HOL-Library.AList"
begin

text \<open>
  The state of \<^verbatim>\<open>catalog/Catalog.cpp\<close> and its lookups. The maps are association lists, because
  \<open>find_index\<close> and the constructor go through one; the theorems hold for every order. The visible
  state is the staged one inside a transaction of the caller.
\<close>

text \<open>\<open>std::unordered_map::emplace\<close>: an entry that exists stays.\<close>

definition emplace :: "'k \<Rightarrow> 'v \<Rightarrow> ('k \<times> 'v) list \<Rightarrow> ('k \<times> 'v) list" where
  "emplace k v m = (if map_of m k = None then (k, v) # m else m)"

record table_info =
  ti_table_descriptor :: table_descriptor
  ti_columns :: "column_descriptor list"
  ti_indexes :: "index_descriptor list"

record catalog_state =
  cs_next_table_id :: table_id
  cs_next_column_id :: column_id
  cs_next_index_id :: index_id
  cs_table_by_id :: "(table_id \<times> table_info) list"
  cs_table_schema_by_id :: "(table_id \<times> schema) list"
  cs_table_id_by_name :: "(string \<times> table_id) list"

record catalog =
  cat_committed_state :: catalog_state
  cat_staged_state :: "catalog_state option"

definition maximum_id :: "u64 list \<Rightarrow> u64" where
  "maximum_id ids = fold (\<lambda>i m. if i > m then i else m) ids 0"

text \<open>The constructor.\<close>

definition catalog_new ::
    "(table_id \<times> table_info) list \<Rightarrow> (table_id \<times> schema) list \<Rightarrow> (string \<times> table_id) list \<Rightarrow> catalog" where
  "catalog_new table_by_id table_schema_by_id table_id_by_name =
     \<lparr>cat_committed_state =
        \<lparr>cs_next_table_id = maximum_id (map fst table_by_id) + 1,
         cs_next_column_id = maximum_id (concat (map (\<lambda>(i, info). map cld_column_id (ti_columns info)) table_by_id)) + 1,
         cs_next_index_id = maximum_id (concat (map (\<lambda>(i, info). map ixd_index_id (ti_indexes info)) table_by_id)) + 1,
         cs_table_by_id = table_by_id, cs_table_schema_by_id = table_schema_by_id,
         cs_table_id_by_name = table_id_by_name\<rparr>,
      cat_staged_state = None\<rparr>"

definition visible_state :: "catalog \<Rightarrow> catalog_state" where
  "visible_state cat = (case cat_staged_state cat of Some state \<Rightarrow> state | None \<Rightarrow> cat_committed_state cat)"

definition find_table_by_id :: "catalog \<Rightarrow> table_id \<Rightarrow> table_descriptor option" where
  "find_table_by_id cat table_id =
     map_option ti_table_descriptor (map_of (cs_table_by_id (visible_state cat)) table_id)"

definition find_table :: "catalog \<Rightarrow> string \<Rightarrow> table_descriptor option" where
  "find_table cat name =
     (case map_of (cs_table_id_by_name (visible_state cat)) name of
        None \<Rightarrow> None
      | Some table_id \<Rightarrow> find_table_by_id cat table_id)"

definition schema_for_table :: "catalog \<Rightarrow> table_id \<Rightarrow> schema option" where
  "schema_for_table cat table_id = map_of (cs_table_schema_by_id (visible_state cat)) table_id"

definition find_column :: "catalog \<Rightarrow> table_id \<Rightarrow> string \<Rightarrow> column_descriptor option" where
  "find_column cat table_id name =
     (case map_of (cs_table_by_id (visible_state cat)) table_id of
        None \<Rightarrow> None
      | Some info \<Rightarrow> find (\<lambda>column. cld_name column = name) (ti_columns info))"

definition find_column_by_id :: "catalog \<Rightarrow> table_id \<Rightarrow> column_id \<Rightarrow> column_descriptor option" where
  "find_column_by_id cat table_id column_id =
     (case map_of (cs_table_by_id (visible_state cat)) table_id of
        None \<Rightarrow> None
      | Some info \<Rightarrow> find (\<lambda>column. cld_column_id column = column_id) (ti_columns info))"

definition all_indexes :: "catalog_state \<Rightarrow> index_descriptor list" where
  "all_indexes state = concat (map (\<lambda>(i, info). ti_indexes info) (cs_table_by_id state))"

definition find_index :: "catalog \<Rightarrow> string \<Rightarrow> index_descriptor option" where
  "find_index cat name = find (\<lambda>index. ixd_name index = name) (all_indexes (visible_state cat))"

definition indexes_for_table :: "catalog \<Rightarrow> table_id \<Rightarrow> index_descriptor list" where
  "indexes_for_table cat table_id =
     (case map_of (cs_table_by_id (visible_state cat)) table_id of None \<Rightarrow> [] | Some info \<Rightarrow> ti_indexes info)"

end
