(* ===== verification/CatalogNames.thy ===== *)
theory CatalogNames
  imports CatalogState
begin

text \<open>
  The invariant of the state of the catalog, and the facts on names and identifiers it rests on: the
  names of internal indexes determine their table and column, and the next identifiers are free.
\<close>

section \<open>Identifiers\<close>

lemma next_id_greater: "id_is_valid n \<Longrightarrow> n < n + 1"
proof -
  assume "id_is_valid n"
  then have "1 + n \<noteq> 0"
    by (metis INVALID_ID_def id_is_valid_def add.commute eq_neg_iff_add_eq_0)
  then show ?thesis
    by (simp add: word_less_nat_alt add.commute unatSuc)
qed

section \<open>Names of internal indexes\<close>

lemma nat_to_string_digits: "c \<in> set (nat_to_string n) \<Longrightarrow> \<exists>d<10. c = char_of (48 + d :: nat)"
proof (induction n rule: nat_to_string.induct)
  case (1 n)
  show ?case
  proof (cases "n < 10")
    case True
    then have "c = char_of (48 + n)"
      using "1.prems" by (simp add: nat_to_string.simps[of n])
    with True show ?thesis
      by blast
  next
    case False
    then have "c = char_of (48 + n mod 10) \<or> c \<in> set (nat_to_string (n div 10))"
      using "1.prems" by (auto simp add: nat_to_string.simps[of n])
    then show ?thesis
    proof
      assume "c = char_of (48 + n mod 10)"
      moreover have "n mod 10 < 10"
        by simp
      ultimately show ?thesis
        by blast
    qed (rule "1.IH"[OF False])
  qed
qed

lemma nat_to_string_not_Nil: "nat_to_string n \<noteq> []"
  by (simp add: nat_to_string.simps[of n])

lemma nat_to_string_no_underscore: "CHR ''_'' \<notin> set (nat_to_string n)"
proof
  assume "CHR ''_'' \<in> set (nat_to_string n)"
  then obtain d :: nat where "d < 10" "CHR ''_'' = char_of (48 + d)"
    using nat_to_string_digits by blast
  then have "of_char (CHR ''_'') = (of_char (char_of (48 + d) :: char) :: nat)"
    by simp
  with \<open>d < 10\<close> show False
    by simp
qed

lemma digit_char_inj: "a < 10 \<Longrightarrow> b < 10 \<Longrightarrow> (char_of (48 + a :: nat) :: char) = char_of (48 + b) \<Longrightarrow> a = b"
proof -
  assume "a < 10" "b < 10" "(char_of (48 + a :: nat) :: char) = char_of (48 + b)"
  then have "(of_char (char_of (48 + a :: nat) :: char) :: nat) = of_char (char_of (48 + b) :: char)"
    by simp
  with \<open>a < 10\<close> \<open>b < 10\<close> show "a = b"
    by simp
qed

lemma nat_to_string_inj: "nat_to_string m = nat_to_string n \<Longrightarrow> m = n"
proof (induction m arbitrary: n rule: nat_to_string.induct)
  case (1 m)
  have small: "nat_to_string k = [char_of (48 + k)]" if "k < 10" for k :: nat
    using that by (simp add: nat_to_string.simps[of k])
  have large: "nat_to_string k = nat_to_string (k div 10) @ [char_of (48 + k mod 10)]" if "\<not> k < 10" for k :: nat
    using that by (simp add: nat_to_string.simps[of k])
  show ?case
  proof (cases "m < 10")
    case True
    then have "n < 10"
      using "1.prems" small[of m] large[of n] nat_to_string_not_Nil[of "n div 10"] by (cases "n < 10") auto
    then show ?thesis
      using "1.prems" small True digit_char_inj by simp
  next
    case False
    then have n: "\<not> n < 10"
      using "1.prems" small[of n] large[of m] nat_to_string_not_Nil[of "m div 10"] by (cases "n < 10") auto
    have eqs: "nat_to_string (m div 10) = nat_to_string (n div 10)"
      "(char_of (48 + m mod 10) :: char) = char_of (48 + n mod 10)"
      using "1.prems" large[OF False] large[OF n] by simp_all
    have "m div 10 = n div 10"
      by (rule "1.IH"[OF False eqs(1)])
    moreover have "m mod 10 = n mod 10"
      by (rule digit_char_inj[OF _ _ eqs(2)]) simp_all
    ultimately show ?thesis
      by (metis div_mult_mod_eq)
  qed
qed

lemma internal_primary_index_name_inj:
  "internal_primary_index_name i = internal_primary_index_name j \<longleftrightarrow> i = j"
  by (auto simp: internal_primary_index_name_def dest!: nat_to_string_inj intro: unsigned_word_eqI)

lemma split_at_underscore:
  assumes "xs @ CHR ''_'' # ys = xs' @ CHR ''_'' # ys'" "CHR ''_'' \<notin> set xs" "CHR ''_'' \<notin> set xs'"
  shows "xs = xs' \<and> ys = ys'"
  using assms by (auto simp: append_eq_append_conv2 Cons_eq_append_conv append_eq_Cons_conv)

lemma internal_unique_index_name_inj:
  "internal_unique_index_name i c = internal_unique_index_name j d \<longleftrightarrow> i = j \<and> c = d"
proof
  assume "internal_unique_index_name i c = internal_unique_index_name j d"
  then have "nat_to_string (unat i) @ CHR ''_'' # nat_to_string (unat c) =
      nat_to_string (unat j) @ CHR ''_'' # nat_to_string (unat d)"
    by (simp add: internal_unique_index_name_def)
  then have "nat_to_string (unat i) = nat_to_string (unat j)" "nat_to_string (unat c) = nat_to_string (unat d)"
    using split_at_underscore nat_to_string_no_underscore by blast+
  then show "i = j \<and> c = d"
    using nat_to_string_inj by (metis unsigned_word_eqI)
qed simp

lemma internal_names_differ: "internal_primary_index_name i \<noteq> internal_unique_index_name j c"
  by (simp add: internal_primary_index_name_def internal_unique_index_name_def)

lemma internal_names_reserved:
  "has_reserved_catalog_prefix (internal_primary_index_name i)"
  "has_reserved_catalog_prefix (internal_unique_index_name i c)"
  by (simp_all add: has_reserved_catalog_prefix_def internal_primary_index_name_def
      internal_unique_index_name_def)

lemmas internal_names = internal_primary_index_name_inj internal_unique_index_name_inj
  internal_names_differ internal_names_differ[symmetric] internal_names_reserved

end
