(* ===== verification/CatalogInitializer.thy ===== *)
theory CatalogInitializer
  imports CatalogTypes BTreeErase
begin

text \<open>
  \<^verbatim>\<open>catalog/CatalogInitializer.cpp\<close>, which writes the system tables of a new database, and the rest of
  \<open>Pager::create\<close> and \<open>Pager::open_or_create\<close> (\<^verbatim>\<open>storage/Pager.cpp\<close>), which call it. The two
  functions that write one row are shared with \<^verbatim>\<open>catalog/Catalog.cpp\<close>.
\<close>

section \<open>Rows of the system tables\<close>

definition insert_row :: "'w win32 \<Rightarrow> btree \<Rightarrow> schema \<Rightarrow> row \<Rightarrow> ('w, unit) pager_run" where
  "insert_row os tree s row =
     (case primary_key_bytes s row of
        Inl e \<Rightarrow> returns (fail_action e)
      | Inr primary_key \<Rightarrow>
          (case row_encode s row of
             Inl e \<Rightarrow> returns (fail_action e)
           | Inr row_bytes \<Rightarrow> btree_insert os tree primary_key row_bytes))"

text \<open>A row that may fail to build, written in the same step.\<close>

definition insert_row_result :: "'w win32 \<Rightarrow> btree \<Rightarrow> schema \<Rightarrow> row result \<Rightarrow> ('w, unit) pager_run" where
  "insert_row_result os tree s row = bind_run (returns (lift_result row)) (insert_row os tree s)"

section \<open>The initialization\<close>

record initialization_state =
  is_tables_schema :: schema
  is_columns_schema :: schema
  is_indexes_schema :: schema
  is_index_columns_schema :: schema
  is_tables_tree :: btree
  is_columns_tree :: btree
  is_indexes_tree :: btree
  is_index_columns_tree :: btree

definition create_system_tree :: "schema \<Rightarrow> ('w, btree) pager_run" where
  "create_system_tree s =
     returns (btree_create_new (fixed_size (col_type (primary_key_column s))) (sch_row_size s))"

definition create_system_tables :: "('w, initialization_state) pager_run" where
  "create_system_tables =
     bind_run (returns (lift_result tables_schema)) (\<lambda>tables_s.
     bind_run (returns (lift_result columns_schema)) (\<lambda>columns_s.
     bind_run (returns (lift_result indexes_schema)) (\<lambda>indexes_s.
     bind_run (returns (lift_result index_columns_schema)) (\<lambda>index_columns_s.
     bind_run (create_system_tree tables_s) (\<lambda>tables_tree.
     bind_run (create_system_tree columns_s) (\<lambda>columns_tree.
     bind_run (create_system_tree indexes_s) (\<lambda>indexes_tree.
     bind_run (create_system_tree index_columns_s) (\<lambda>index_columns_tree.
     returns (return_action \<lparr>is_tables_schema = tables_s, is_columns_schema = columns_s,
       is_indexes_schema = indexes_s, is_index_columns_schema = index_columns_s,
       is_tables_tree = tables_tree, is_columns_tree = columns_tree, is_indexes_tree = indexes_tree,
       is_index_columns_tree = index_columns_tree\<rparr>)))))))))"

text \<open>
  The inner loop of \<open>insert_column_metadata\<close>: the next column id, and the id of the primary key
  column of the table (\<open>primary_key_column_ids[table_index]\<close>).
\<close>

fun insert_table_columns ::
    "'w win32 \<Rightarrow> initialization_state \<Rightarrow> table_id \<Rightarrow> column list \<Rightarrow> column_id \<Rightarrow> column_id \<Rightarrow>
     ('w, column_id \<times> column_id) pager_run" where
  "insert_table_columns os state table_id [] next_column_id primary_key_column_id =
     returns (return_action (next_column_id, primary_key_column_id))"
| "insert_table_columns os state table_id (c # cs) next_column_id primary_key_column_id =
     bind_run (insert_row_result os (is_columns_tree state) (is_columns_schema state)
       (column_row next_column_id table_id (col_name c) (col_type c) (col_ordinal c) (col_nullable c)
         (col_pk c) (col_unique c))) (\<lambda>_.
     insert_table_columns os state table_id cs (next_column_id + 1)
       (if col_pk c then next_column_id else primary_key_column_id))"

fun insert_column_metadata ::
    "'w win32 \<Rightarrow> initialization_state \<Rightarrow> (table_id \<times> schema) list \<Rightarrow> column_id \<Rightarrow> ('w, column_id list) pager_run" where
  "insert_column_metadata os state [] next_column_id = returns (return_action [])"
| "insert_column_metadata os state ((table_id, s) # rest) next_column_id =
     bind_run (insert_table_columns os state table_id (sch_columns s) next_column_id INVALID_ID)
       (\<lambda>(next_id, primary_key_column_id).
     bind_run (insert_column_metadata os state rest next_id) (\<lambda>ids.
     returns (return_action (primary_key_column_id # ids))))"

definition system_table_schemas :: "initialization_state \<Rightarrow> (table_id \<times> schema) list" where
  "system_table_schemas state =
     [(DANDB_TABLES_ID, is_tables_schema state), (DANDB_COLUMNS_ID, is_columns_schema state),
      (DANDB_INDEXES_ID, is_indexes_schema state), (DANDB_INDEX_COLUMNS_ID, is_index_columns_schema state)]"

definition insert_table_metadata :: "'w win32 \<Rightarrow> initialization_state \<Rightarrow> ('w, unit) pager_run" where
  "insert_table_metadata os state =
     (let insert_table = (\<lambda>table_id name tree.
        insert_row_result os (is_tables_tree state) (is_tables_schema state)
          (table_row table_id name (bt_root_page_id tree))) in
      bind_run (insert_table DANDB_TABLES_ID DANDB_TABLES_NAME (is_tables_tree state)) (\<lambda>_.
      bind_run (insert_table DANDB_COLUMNS_ID DANDB_COLUMNS_NAME (is_columns_tree state)) (\<lambda>_.
      bind_run (insert_table DANDB_INDEXES_ID DANDB_INDEXES_NAME (is_indexes_tree state)) (\<lambda>_.
      insert_table DANDB_INDEX_COLUMNS_ID DANDB_INDEX_COLUMNS_NAME (is_index_columns_tree state)))))"

definition insert_index_metadata :: "'w win32 \<Rightarrow> initialization_state \<Rightarrow> ('w, unit) pager_run" where
  "insert_index_metadata os state =
     (let insert_index = (\<lambda>index_id table_id tree.
        insert_row_result os (is_indexes_tree state) (is_indexes_schema state)
          (index_row index_id table_id (internal_primary_index_name table_id) (bt_root_page_id tree)
            True True True)) in
      bind_run (insert_index DANDB_TABLES_PRIMARY_INDEX_ID DANDB_TABLES_ID (is_tables_tree state)) (\<lambda>_.
      bind_run (insert_index DANDB_COLUMNS_PRIMARY_INDEX_ID DANDB_COLUMNS_ID (is_columns_tree state)) (\<lambda>_.
      bind_run (insert_index DANDB_INDEXES_PRIMARY_INDEX_ID DANDB_INDEXES_ID (is_indexes_tree state)) (\<lambda>_.
      insert_index DANDB_INDEX_COLUMNS_PRIMARY_INDEX_ID DANDB_INDEX_COLUMNS_ID (is_index_columns_tree state)))))"

definition insert_index_column_metadata ::
    "'w win32 \<Rightarrow> initialization_state \<Rightarrow> column_id list \<Rightarrow> ('w, unit) pager_run" where
  "insert_index_column_metadata os state primary_key_column_ids =
     (let insert_link = (\<lambda>index_id i.
        insert_row os (is_index_columns_tree state) (is_index_columns_schema state)
          (index_column_row index_id (primary_key_column_ids ! i))) in
      bind_run (insert_link DANDB_TABLES_PRIMARY_INDEX_ID 0) (\<lambda>_.
      bind_run (insert_link DANDB_COLUMNS_PRIMARY_INDEX_ID 1) (\<lambda>_.
      bind_run (insert_link DANDB_INDEXES_PRIMARY_INDEX_ID 2) (\<lambda>_.
      insert_link DANDB_INDEX_COLUMNS_PRIMARY_INDEX_ID 3))))"

text \<open>A step whose failure rolls the transaction back; an error of the rollback comes first.\<close>

definition or_rollback :: "('w, 'a) pager_run \<Rightarrow> ('w, 'a) pager_run" where
  "or_rollback m s = Option.bind (m s) (\<lambda>(s1, r).
     case r of
       Inl e \<Rightarrow> bind_run (returns pager_rollback_transaction) (\<lambda>_. returns (fail_action e)) s1
     | Inr x \<Rightarrow> Some (s1, Inr x))"

definition catalog_initialize :: "'w win32 \<Rightarrow> ('w, unit) pager_run" where
  "catalog_initialize os =
     bind_run (returns pager_begin_transaction) (\<lambda>_.
     bind_run (or_rollback create_system_tables) (\<lambda>state.
     bind_run (or_rollback (insert_column_metadata os state (system_table_schemas state) 1)) (\<lambda>primary_key_column_ids.
     bind_run (or_rollback (insert_table_metadata os state)) (\<lambda>_.
     bind_run (or_rollback (insert_index_metadata os state)) (\<lambda>_.
     bind_run (or_rollback (insert_index_column_metadata os state primary_key_column_ids)) (\<lambda>_.
     bind_run (or_rollback (returns (pager_mark_dirty HEADER_PAGE_ID))) (\<lambda>_.
     bind_run (returns (modify_pager (\<lambda>pr. pr\<lparr>pr_header := (pr_header pr)\<lparr>
       dh_system_tables_root_page_id := bt_root_page_id (is_tables_tree state),
       dh_system_columns_root_page_id := bt_root_page_id (is_columns_tree state),
       dh_system_indexes_root_page_id := bt_root_page_id (is_indexes_tree state),
       dh_system_index_columns_root_page_id := bt_root_page_id (is_index_columns_tree state)\<rparr>\<rparr>))) (\<lambda>_.
     returns (pager_commit_transaction os)))))))))"

section \<open>Pager::create and Pager::open_or_create\<close>

text \<open>
  The members of a pager are destroyed with it: the log, the database file and the lock are closed.
\<close>

definition destroy_pager :: "'w win32 \<Rightarrow> 'w pager \<Rightarrow> 'w \<Rightarrow> 'w" where
  "destroy_pager os pr w =
     destroy_lock os (pr_file_lock pr) (destroy_file os (dm_file (pr_disk pr)) (destroy_file os (wm_file (pr_wal pr)) w))"

definition pager_create :: "'w win32 \<Rightarrow> path \<Rightarrow> nat \<Rightarrow> u64 \<Rightarrow> ('w, 'w pager) run" where
  "pager_create os p bpm_capacity database_id =
     bind_run (returns (pager_create_files os p bpm_capacity database_id)) (\<lambda>pager w.
       Option.bind (catalog_initialize os (pager, w)) (\<lambda>((pr1, w1), r).
       case r of
         Inr _ \<Rightarrow> Some (w1, Inr pr1)
       | Inl initialize_catalog_status \<Rightarrow>
           (case pager_close os (pr1, w1) of
              ((pr2, w2), close_status) \<Rightarrow>
                Some (destroy_pager os pr2 w2,
                  Inl (case close_status of Inl e \<Rightarrow> e | Inr _ \<Rightarrow> initialize_catalog_status)))))"

definition pager_open_or_create :: "'w win32 \<Rightarrow> path \<Rightarrow> nat \<Rightarrow> u64 \<Rightarrow> ('w, 'w pager) run" where
  "pager_open_or_create os p bpm_capacity database_id w =
     (case pager_open os p bpm_capacity w of
        (w1, r) \<Rightarrow>
          (case r of
             Inr pager \<Rightarrow> Some (w1, Inr pager)
           | Inl e \<Rightarrow> if e \<noteq> NotFound then Some (w1, Inl e) else pager_create os p bpm_capacity database_id w1))"

end
