(* ===== verification/Catalog.thy ===== *)
theory Catalog
  imports CatalogState CatalogInitializer
begin

text \<open>
  The operations of \<^verbatim>\<open>catalog/Catalog.cpp\<close> that change it. They are runs over the catalog, the
  pager and the files. Each builds the next state of the catalog while it writes the system tables
  and publishes it at the end: as the committed state after its own commit, or as the staged state
  inside a transaction of the caller. A failure before that rolls back a transaction of its own.
\<close>

section \<open>Runs over the catalog and the pager\<close>

type_synonym 'w db_state = "catalog \<times> 'w pager \<times> 'w"
type_synonym ('w, 'a) db_run = "('w db_state, 'a) run"

definition on_pager :: "('w, 'a) pager_run \<Rightarrow> ('w, 'a) db_run" where
  "on_pager m s = map_option (\<lambda>(s1, r). ((fst s, s1), r)) (m (snd s))"

definition pager_call :: "('w, 'a) pager_action \<Rightarrow> ('w, 'a) db_run" where
  "pager_call m = on_pager (returns m)"

definition done_with :: "'a \<Rightarrow> ('w, 'a) db_run" where
  "done_with x s = Some (s, Inr x)"

definition stop_with :: "status_code \<Rightarrow> ('w, 'a) db_run" where
  "stop_with e s = Some (s, Inl e)"

definition check_that :: "'a result \<Rightarrow> ('w, 'a) db_run" where
  "check_that r s = Some (s, r)"

definition require_that :: "bool \<Rightarrow> status_code \<Rightarrow> ('w, 'a) db_run \<Rightarrow> ('w, 'a) db_run" where
  "require_that c e m = (if c then m else stop_with e)"

definition get_catalog :: "(catalog \<Rightarrow> 'a) \<Rightarrow> ('w, 'a) db_run" where
  "get_catalog f s = Some (s, Inr (f (fst s)))"

definition modify_catalog :: "(catalog \<Rightarrow> catalog) \<Rightarrow> ('w, unit) db_run" where
  "modify_catalog f s = Some ((f (fst s), snd s), Ok)"

text \<open>\<open>handle_mutation_failure\<close>, and a block whose failures go to it.\<close>

definition handle_mutation_failure :: "status_code \<Rightarrow> bool \<Rightarrow> ('w, 'a) db_run" where
  "handle_mutation_failure failure_status owns_transaction =
     (if \<not> owns_transaction then stop_with failure_status
      else bind_run (pager_call pager_rollback_transaction) (\<lambda>_.
           bind_run (modify_catalog (\<lambda>cat. cat\<lparr>cat_staged_state := None\<rparr>)) (\<lambda>_.
           stop_with failure_status)))"

definition or_mutation_failure :: "bool \<Rightarrow> ('w, 'a) db_run \<Rightarrow> ('w, 'a) db_run" where
  "or_mutation_failure owns_transaction m s = Option.bind (m s) (\<lambda>(s1, r).
     case r of Inl e \<Rightarrow> handle_mutation_failure e owns_transaction s1 | Inr x \<Rightarrow> Some (s1, Inr x))"

section \<open>Rows and trees of the system tables\<close>

definition erase_row :: "'w win32 \<Rightarrow> btree \<Rightarrow> u64 \<Rightarrow> ('w, unit) pager_run" where
  "erase_row os tree object_id =
     (case key_encode (value_int64 object_id) of
        Inl e \<Rightarrow> returns (fail_action e)
      | Inr key \<Rightarrow> btree_erase os tree key)"

definition open_system_tree :: "'w win32 \<Rightarrow> (database_header \<Rightarrow> page_id) \<Rightarrow> schema \<Rightarrow> ('w, btree) db_run" where
  "open_system_tree os root s =
     bind_run (pager_call (get_pager (\<lambda>pr. root (pr_header pr)))) (\<lambda>root_page_id.
     pager_call (btree_open_existing os root_page_id
       (of_nat (fixed_size (col_type (primary_key_column s)))) (of_nat (sch_row_size s))))"

text \<open>Starting a transaction only if there is none; the result says whether it was started.\<close>

definition begin_if_needed :: "('w, bool) db_run" where
  "begin_if_needed =
     bind_run (pager_call (get_pager (\<lambda>pr. tx_in_transaction (pr_tx pr)))) (\<lambda>in_transaction.
       if \<not> in_transaction then bind_run (pager_call pager_begin_transaction) (\<lambda>_. done_with True)
       else done_with False)"

text \<open>The end of every operation: stage the next state, or commit and publish it.\<close>

definition publish :: "'w win32 \<Rightarrow> catalog_state \<Rightarrow> bool \<Rightarrow> ('w, unit) db_run" where
  "publish os next_catalog_state owns_transaction =
     (if \<not> owns_transaction
      then modify_catalog (\<lambda>cat. cat\<lparr>cat_staged_state := Some next_catalog_state\<rparr>)
      else bind_run (pager_call (pager_commit_transaction os)) (\<lambda>_.
           modify_catalog (\<lambda>cat. cat\<lparr>cat_committed_state := next_catalog_state\<rparr>)))"

text \<open>A range-for loop over runs.\<close>

fun for_all :: "'x list \<Rightarrow> ('x \<Rightarrow> ('w, unit) db_run) \<Rightarrow> ('w, unit) db_run" where
  "for_all [] f = done_with ()"
| "for_all (x # xs) f = bind_run (f x) (\<lambda>_. for_all xs f)"

section \<open>create_table\<close>

text \<open>The loop that reserves column ids and builds the descriptors.\<close>

fun new_columns ::
    "column list \<Rightarrow> table_id \<Rightarrow> column_id \<Rightarrow> column_id \<Rightarrow> (column_descriptor list \<times> column_id \<times> column_id) result" where
  "new_columns [] table_id next_column_id primary_key_column_id = Inr ([], next_column_id, primary_key_column_id)"
| "new_columns (c # cs) table_id next_column_id primary_key_column_id =
     bind_result (column_descriptor_create next_column_id table_id (col_name c) (col_type c) (col_ordinal c)
       (col_nullable c) (col_pk c) (col_unique c)) (\<lambda>descriptor.
     bind_result (new_columns cs table_id (next_column_id + 1)
       (if col_pk c then next_column_id else primary_key_column_id)) (\<lambda>(descriptors, next_id, pk_id).
     Inr (descriptor # descriptors, next_id, pk_id)))"

text \<open>The loop that creates an internal index for each other unique column.\<close>

fun new_unique_indexes ::
    "'w win32 \<Rightarrow> schema \<Rightarrow> table_id \<Rightarrow> column_descriptor list \<Rightarrow> index_id \<Rightarrow> ('w, index_descriptor list \<times> index_id) db_run" where
  "new_unique_indexes os s table_id [] next_index_id = done_with ([], next_index_id)"
| "new_unique_indexes os s table_id (column # columns) next_index_id =
     (if cld_primary_key column \<or> \<not> cld_unique column then new_unique_indexes os s table_id columns next_index_id
      else
        bind_run (pager_call (btree_create_new (fixed_size (cld_logical_type column))
          (fixed_size (col_type (primary_key_column s))))) (\<lambda>tree.
        bind_run (check_that (index_descriptor_create next_index_id table_id
          (internal_unique_index_name table_id (cld_column_id column)) (bt_root_page_id tree) True False True
          (cld_column_id column))) (\<lambda>index.
        bind_run (new_unique_indexes os s table_id columns (next_index_id + 1)) (\<lambda>(indexes, next_id).
        done_with (index # indexes, next_id)))))"

definition insert_column_row :: "'w win32 \<Rightarrow> btree \<Rightarrow> schema \<Rightarrow> column_descriptor \<Rightarrow> ('w, unit) db_run" where
  "insert_column_row os columns_tree s column =
     bind_run (check_that (column_row (cld_column_id column) (cld_table_id column) (cld_name column)
       (cld_logical_type column) (cld_ordinal column) (cld_nullable column) (cld_primary_key column)
       (cld_unique column))) (\<lambda>row.
     on_pager (insert_row os columns_tree s row))"

text \<open>The row of an index and the link to its column.\<close>

definition insert_index_rows ::
    "'w win32 \<Rightarrow> btree \<Rightarrow> schema \<Rightarrow> btree \<Rightarrow> schema \<Rightarrow> index_descriptor \<Rightarrow> ('w, unit) db_run" where
  "insert_index_rows os indexes_tree indexes_s index_columns_tree index_columns_s index =
     bind_run (check_that (index_row (ixd_index_id index) (ixd_table_id index) (ixd_name index)
       (ixd_root_page_id index) (ixd_unique index) (ixd_primary index) (ixd_internal index))) (\<lambda>row.
     bind_run (on_pager (insert_row os indexes_tree indexes_s row)) (\<lambda>_.
     on_pager (insert_row os index_columns_tree index_columns_s
       (index_column_row (ixd_index_id index) (ixd_indexed_column_id index)))))"

text \<open>The part of \<open>create_table\<close> whose failures roll back: the storage and the metadata of the table.\<close>

definition create_table_storage ::
    "'w win32 \<Rightarrow> string \<Rightarrow> schema \<Rightarrow> (btree \<times> schema) \<Rightarrow> (btree \<times> schema) \<Rightarrow> (btree \<times> schema) \<Rightarrow> (btree \<times> schema) \<Rightarrow>
     catalog_state \<Rightarrow> ('w, catalog_state) db_run" where
  "create_table_storage os name s tables columns indexes index_columns state =
     (let table_id = cs_next_table_id state in
      bind_run (check_that (new_columns (sch_columns s) table_id (cs_next_column_id state) INVALID_ID))
        (\<lambda>(column_descriptors, next_column_id, primary_key_column_id).
      bind_run (pager_call (btree_create_new (fixed_size (col_type (primary_key_column s))) (sch_row_size s)))
        (\<lambda>storage_tree.
      let root = bt_root_page_id storage_tree in
      bind_run (check_that (table_descriptor_create table_id name root)) (\<lambda>descriptor.
      let primary_index_id = cs_next_index_id state in
      bind_run (check_that (index_descriptor_create primary_index_id table_id (internal_primary_index_name table_id)
        root True True True primary_key_column_id)) (\<lambda>primary_index.
      bind_run (new_unique_indexes os s table_id column_descriptors (primary_index_id + 1))
        (\<lambda>(unique_indexes, next_index_id).
      let index_descriptors = primary_index # unique_indexes in
      bind_run (check_that (table_row table_id name root)) (\<lambda>row.
      bind_run (on_pager (insert_row os (fst tables) (snd tables) row)) (\<lambda>_.
      bind_run (for_all column_descriptors (insert_column_row os (fst columns) (snd columns))) (\<lambda>_.
      bind_run (for_all index_descriptors (insert_index_rows os (fst indexes) (snd indexes)
        (fst index_columns) (snd index_columns))) (\<lambda>_.
      done_with (state\<lparr>cs_next_table_id := table_id + 1, cs_next_column_id := next_column_id,
        cs_next_index_id := next_index_id,
        cs_table_by_id := emplace table_id \<lparr>ti_table_descriptor = descriptor, ti_columns = column_descriptors,
          ti_indexes = index_descriptors\<rparr> (cs_table_by_id state),
        cs_table_schema_by_id := emplace table_id s (cs_table_schema_by_id state),
        cs_table_id_by_name := emplace name table_id (cs_table_id_by_name state)\<rparr>)))))))))))"

definition create_table :: "'w win32 \<Rightarrow> string \<Rightarrow> schema \<Rightarrow> ('w, unit) db_run" where
  "create_table os name s =
     require_that (name \<noteq> []) InvalidArgument (
     require_that (\<not> length name > CATALOG_NAME_CAPACITY) InvalidArgument (
     bind_run (get_catalog (\<lambda>cat. find_table cat name)) (\<lambda>existing.
     require_that (existing = None) AlreadyExists (
     require_that (\<not> has_reserved_catalog_prefix name) InvalidArgument (
     require_that (\<not> list_ex (\<lambda>c. length (col_name c) > CATALOG_NAME_CAPACITY) (sch_columns s)) InvalidArgument (
     bind_run (check_that tables_schema) (\<lambda>tables_s.
     bind_run (check_that columns_schema) (\<lambda>columns_s.
     bind_run (check_that indexes_schema) (\<lambda>indexes_s.
     bind_run (check_that index_columns_schema) (\<lambda>index_columns_s.
     bind_run (open_system_tree os dh_system_tables_root_page_id tables_s) (\<lambda>tables_tree.
     bind_run (open_system_tree os dh_system_columns_root_page_id columns_s) (\<lambda>columns_tree.
     bind_run (open_system_tree os dh_system_indexes_root_page_id indexes_s) (\<lambda>indexes_tree.
     bind_run (open_system_tree os dh_system_index_columns_root_page_id index_columns_s) (\<lambda>index_columns_tree.
     bind_run begin_if_needed (\<lambda>owns_transaction.
     bind_run (get_catalog visible_state) (\<lambda>state.
     bind_run (or_mutation_failure owns_transaction (create_table_storage os name s
       (tables_tree, tables_s) (columns_tree, columns_s) (indexes_tree, indexes_s)
       (index_columns_tree, index_columns_s) state)) (\<lambda>next_catalog_state.
     publish os next_catalog_state owns_transaction)))))))))))))))))"

section \<open>create_index\<close>

definition with_table :: "table_id \<Rightarrow> (table_info \<Rightarrow> table_info) \<Rightarrow> catalog_state \<Rightarrow> catalog_state" where
  "with_table table_id f state = state\<lparr>cs_table_by_id :=
     AList.map_entry table_id f (cs_table_by_id state)\<rparr>"

text \<open>The checks of \<open>create_index\<close>: the size of a key of the new index and of the primary key.\<close>

definition check_new_index ::
    "catalog \<Rightarrow> table_id \<Rightarrow> string \<Rightarrow> column_id \<Rightarrow> bool \<Rightarrow> (nat \<times> nat) result" where
  "check_new_index cat table_id name column_id unique =
     ensure (id_is_valid table_id) InvalidArgument (
     case map_of (cs_table_by_id (visible_state cat)) table_id of
       None \<Rightarrow> Inl NotFound
     | Some info \<Rightarrow>
     ensure (\<not> is_system_table table_id) InvalidArgument (
     ensure (id_is_valid column_id) InvalidArgument (
     let new_indexed_column = find (\<lambda>column. cld_column_id column = column_id) (rev (ti_columns info));
         primary_key_column = find cld_primary_key (rev (ti_columns info)) in
     case new_indexed_column of
       None \<Rightarrow> Inl InvalidArgument
     | Some column \<Rightarrow>
     (case primary_key_column of
       None \<Rightarrow> Inl InternalError
     | Some primary_key \<Rightarrow>
     ensure (name \<noteq> []) InvalidArgument (
     ensure (\<not> length name > CATALOG_NAME_CAPACITY) InvalidArgument (
     ensure (\<not> has_reserved_catalog_prefix name) InvalidArgument (
     ensure (find_index cat name = None) AlreadyExists (
     ensure (\<not> list_ex (\<lambda>index. ixd_indexed_column_id index = column_id) (ti_indexes info)) InvalidArgument (
     ensure (can_be_indexed (cld_logical_type column)) InvalidArgument (
     ensure (\<not> cld_nullable column) InvalidArgument (
     let indexed_column_size = fixed_size (cld_logical_type column);
         primary_key_size = fixed_size (cld_logical_type primary_key) in
     if \<not> unique
     then ensure (\<not> indexed_column_size > 2 ^ 64 - 1 - primary_key_size) InvalidArgument
       (Inr (indexed_column_size + primary_key_size, primary_key_size))
     else Inr (indexed_column_size, primary_key_size))))))))))))"

definition create_index_storage ::
    "'w win32 \<Rightarrow> table_id \<Rightarrow> string \<Rightarrow> column_id \<Rightarrow> bool \<Rightarrow> nat \<Rightarrow> nat \<Rightarrow> (btree \<times> schema) \<Rightarrow> (btree \<times> schema) \<Rightarrow>
     catalog_state \<Rightarrow> ('w, catalog_state) db_run" where
  "create_index_storage os table_id name column_id unique key_size primary_key_size indexes index_columns state =
     bind_run (pager_call (btree_create_new key_size primary_key_size)) (\<lambda>tree.
     let index_id = cs_next_index_id state in
     bind_run (check_that (index_descriptor_create index_id table_id name (bt_root_page_id tree) unique False False
       column_id)) (\<lambda>descriptor.
     bind_run (insert_index_rows os (fst indexes) (snd indexes) (fst index_columns) (snd index_columns)
       descriptor) (\<lambda>_.
     require_that (map_of (cs_table_by_id state) table_id \<noteq> None) InternalError (
     done_with (with_table table_id (\<lambda>info. info\<lparr>ti_indexes := ti_indexes info @ [descriptor]\<rparr>)
       (state\<lparr>cs_next_index_id := index_id + 1\<rparr>))))))"

definition create_index ::
    "'w win32 \<Rightarrow> table_id \<Rightarrow> string \<Rightarrow> column_id \<Rightarrow> bool \<Rightarrow> ('w, unit) db_run" where
  "create_index os table_id name column_id unique =
     bind_run (get_catalog (\<lambda>cat. check_new_index cat table_id name column_id unique)) (\<lambda>checked.
     bind_run (check_that checked) (\<lambda>(key_size, primary_key_size).
     bind_run (check_that indexes_schema) (\<lambda>indexes_s.
     bind_run (check_that index_columns_schema) (\<lambda>index_columns_s.
     bind_run (open_system_tree os dh_system_indexes_root_page_id indexes_s) (\<lambda>indexes_tree.
     bind_run (open_system_tree os dh_system_index_columns_root_page_id index_columns_s) (\<lambda>index_columns_tree.
     bind_run begin_if_needed (\<lambda>owns_transaction.
     bind_run (get_catalog visible_state) (\<lambda>state.
     bind_run (or_mutation_failure owns_transaction (create_index_storage os table_id name column_id unique
       key_size primary_key_size (indexes_tree, indexes_s) (index_columns_tree, index_columns_s) state))
       (\<lambda>next_catalog_state.
     publish os next_catalog_state owns_transaction)))))))))"

section \<open>drop_index and drop_table\<close>

definition drop_index_storage ::
    "'w win32 \<Rightarrow> index_descriptor \<Rightarrow> btree \<Rightarrow> btree \<Rightarrow> catalog_state \<Rightarrow> ('w, catalog_state) db_run" where
  "drop_index_storage os index indexes_tree index_columns_tree state =
     bind_run (on_pager (erase_row os index_columns_tree (ixd_index_id index))) (\<lambda>_.
     bind_run (on_pager (erase_row os indexes_tree (ixd_index_id index))) (\<lambda>_.
     case map_of (cs_table_by_id state) (ixd_table_id index) of
       None \<Rightarrow> stop_with InternalError
     | Some info \<Rightarrow>
     require_that (list_ex (\<lambda>i. ixd_index_id i = ixd_index_id index) (ti_indexes info)) InternalError (
     done_with (with_table (ixd_table_id index) (\<lambda>info. info\<lparr>ti_indexes :=
       takeWhile (\<lambda>i. ixd_index_id i \<noteq> ixd_index_id index) (ti_indexes info) @
       tl (dropWhile (\<lambda>i. ixd_index_id i \<noteq> ixd_index_id index) (ti_indexes info))\<rparr>) state))))"

definition drop_index :: "'w win32 \<Rightarrow> string \<Rightarrow> ('w, unit) db_run" where
  "drop_index os name =
     bind_run (get_catalog (\<lambda>cat. find_index cat name)) (\<lambda>index_to_drop.
     case index_to_drop of
       None \<Rightarrow> stop_with NotFound
     | Some index \<Rightarrow>
     require_that (\<not> ixd_internal index) InvalidArgument (
     bind_run (check_that indexes_schema) (\<lambda>indexes_s.
     bind_run (check_that index_columns_schema) (\<lambda>index_columns_s.
     bind_run (open_system_tree os dh_system_indexes_root_page_id indexes_s) (\<lambda>indexes_tree.
     bind_run (open_system_tree os dh_system_index_columns_root_page_id index_columns_s) (\<lambda>index_columns_tree.
     bind_run begin_if_needed (\<lambda>owns_transaction.
     bind_run (get_catalog visible_state) (\<lambda>state.
     bind_run (or_mutation_failure owns_transaction
       (drop_index_storage os index indexes_tree index_columns_tree state)) (\<lambda>next_catalog_state.
     publish os next_catalog_state owns_transaction)))))))))"

definition drop_table_storage ::
    "'w win32 \<Rightarrow> table_id \<Rightarrow> btree \<Rightarrow> btree \<Rightarrow> btree \<Rightarrow> btree \<Rightarrow> catalog_state \<Rightarrow> ('w, catalog_state) db_run" where
  "drop_table_storage os table_id tables_tree columns_tree indexes_tree index_columns_tree state =
     (case map_of (cs_table_by_id state) table_id of
        None \<Rightarrow> stop_with InternalError
      | Some info \<Rightarrow>
      let table_name = td_name (ti_table_descriptor info) in
      bind_run (for_all (ti_indexes info) (\<lambda>index.
        bind_run (on_pager (erase_row os index_columns_tree (ixd_index_id index))) (\<lambda>_.
        on_pager (erase_row os indexes_tree (ixd_index_id index))))) (\<lambda>_.
      bind_run (for_all (ti_columns info) (\<lambda>column.
        on_pager (erase_row os columns_tree (cld_column_id column)))) (\<lambda>_.
      bind_run (on_pager (erase_row os tables_tree table_id)) (\<lambda>_.
      done_with (state\<lparr>cs_table_id_by_name := AList.delete table_name (cs_table_id_by_name state),
        cs_table_schema_by_id := AList.delete table_id (cs_table_schema_by_id state),
        cs_table_by_id := AList.delete table_id (cs_table_by_id state)\<rparr>)))))"

definition drop_table :: "'w win32 \<Rightarrow> string \<Rightarrow> ('w, unit) db_run" where
  "drop_table os name =
     bind_run (get_catalog (\<lambda>cat. find_table cat name)) (\<lambda>table_descriptor.
     case table_descriptor of
       None \<Rightarrow> stop_with NotFound
     | Some descriptor \<Rightarrow>
     let table_id = td_table_id descriptor in
     require_that (\<not> is_system_table table_id) InvalidArgument (
     bind_run (check_that tables_schema) (\<lambda>tables_s.
     bind_run (check_that columns_schema) (\<lambda>columns_s.
     bind_run (check_that indexes_schema) (\<lambda>indexes_s.
     bind_run (check_that index_columns_schema) (\<lambda>index_columns_s.
     bind_run (open_system_tree os dh_system_tables_root_page_id tables_s) (\<lambda>tables_tree.
     bind_run (open_system_tree os dh_system_columns_root_page_id columns_s) (\<lambda>columns_tree.
     bind_run (open_system_tree os dh_system_indexes_root_page_id indexes_s) (\<lambda>indexes_tree.
     bind_run (open_system_tree os dh_system_index_columns_root_page_id index_columns_s) (\<lambda>index_columns_tree.
     bind_run begin_if_needed (\<lambda>owns_transaction.
     bind_run (get_catalog visible_state) (\<lambda>state.
     bind_run (or_mutation_failure owns_transaction
       (drop_table_storage os table_id tables_tree columns_tree indexes_tree index_columns_tree state))
       (\<lambda>next_catalog_state.
     publish os next_catalog_state owns_transaction)))))))))))))"

section \<open>The ends of a transaction of the caller\<close>

definition on_transaction_committed :: "('w, unit) db_run" where
  "on_transaction_committed =
     bind_run (pager_call (get_pager (\<lambda>pr. tx_in_transaction (pr_tx pr)))) (\<lambda>in_transaction.
     require_that (\<not> in_transaction) TransactionError (
     modify_catalog (\<lambda>cat. case cat_staged_state cat of
       Some state \<Rightarrow> cat\<lparr>cat_committed_state := state, cat_staged_state := None\<rparr>
     | None \<Rightarrow> cat)))"

definition on_transaction_rolled_back :: "('w, unit) db_run" where
  "on_transaction_rolled_back =
     bind_run (pager_call (get_pager (\<lambda>pr. tx_in_transaction (pr_tx pr)))) (\<lambda>in_transaction.
     require_that (\<not> in_transaction) TransactionError (
     modify_catalog (\<lambda>cat. cat\<lparr>cat_staged_state := None\<rparr>)))"

end
