(* ===== verification/CatalogInvariant.thy ===== *)
theory CatalogInvariant
  imports CatalogNames Catalog "HOL-Library.Multiset"
begin

text \<open>
  The invariant of the catalog and its preservation by the functions that build the next state.
\<close>

named_theorems yields_rules \<open>runs that keep the catalog and what their values satisfy\<close>

section \<open>The invariant\<close>

definition column_of :: "column_descriptor \<Rightarrow> string \<times> logical_type \<times> bool \<times> bool \<times> bool \<times> nat" where
  "column_of d = (cld_name d, cld_logical_type d, cld_nullable d, cld_primary_key d, cld_unique d, cld_ordinal d)"

definition schema_column_of :: "column \<Rightarrow> string \<times> logical_type \<times> bool \<times> bool \<times> bool \<times> nat" where
  "schema_column_of c = (col_name c, col_type c, col_nullable c, col_pk c, col_unique c, col_ordinal c)"

text \<open>
  A table and its schema: the columns are those of the schema, in order, and there is one primary
  index, on the primary key column, whose tree is that of the table.
\<close>

definition described_by :: "table_info \<Rightarrow> schema \<Rightarrow> bool" where
  "described_by info s \<longleftrightarrow> (\<exists>cols. schema_create cols = Inr s \<and> (\<forall>c \<in> set cols. type_wf (col_type c))) \<and>
     map column_of (ti_columns info) = map schema_column_of (sch_columns s) \<and>
     (\<exists>p. filter ixd_primary (ti_indexes info) = [p] \<and>
        ixd_root_page_id p = td_root_page_id (ti_table_descriptor info) \<and>
        ixd_indexed_column_id p = cld_column_id (ti_columns info ! sch_primary_key_ordinal s))"

definition table_ok :: "catalog_state \<Rightarrow> table_id \<Rightarrow> table_info \<Rightarrow> bool" where
  "table_ok st i info \<longleftrightarrow>
     td_table_id (ti_table_descriptor info) = i \<and> i < cs_next_table_id st \<and>
     map_of (cs_table_id_by_name st) (td_name (ti_table_descriptor info)) = Some i \<and>
     (\<exists>s. map_of (cs_table_schema_by_id st) i = Some s \<and> described_by info s) \<and>
     (\<forall>c \<in> set (ti_columns info). cld_table_id c = i \<and> cld_column_id c < cs_next_column_id st) \<and>
     (\<forall>x \<in> set (ti_indexes info). ixd_table_id x = i \<and> ixd_index_id x < cs_next_index_id st \<and>
        ixd_indexed_column_id x \<in> cld_column_id ` set (ti_columns info) \<and>
        (ixd_primary x \<longrightarrow> ixd_unique x \<and> ixd_internal x))"

definition all_columns :: "catalog_state \<Rightarrow> column_descriptor list" where
  "all_columns st = concat (map (\<lambda>(i, info). ti_columns info) (cs_table_by_id st))"

definition structure_ok :: "catalog_state \<Rightarrow> bool" where
  "structure_ok st \<longleftrightarrow>
     distinct (map fst (cs_table_by_id st)) \<and> (\<forall>(i, info) \<in> set (cs_table_by_id st). table_ok st i info) \<and>
     (\<forall>name i. map_of (cs_table_id_by_name st) name = Some i \<longrightarrow>
        (\<exists>info. map_of (cs_table_by_id st) i = Some info \<and> td_name (ti_table_descriptor info) = name)) \<and>
     (\<forall>i. map_of (cs_table_by_id st) i = None \<longrightarrow> map_of (cs_table_schema_by_id st) i = None) \<and>
     distinct (map cld_column_id (all_columns st)) \<and> distinct (map ixd_index_id (all_indexes st)) \<and>
     distinct (map ixd_name (all_indexes st))"

text \<open>
  Beyond the structure, which the loader checks: internal indexes have the names that the code makes
  and no other index has a reserved name, the system tables are there, and every unique column of
  another table has an internal unique index.
\<close>

definition index_name_ok :: "index_descriptor \<Rightarrow> bool" where
  "index_name_ok x \<longleftrightarrow> has_reserved_catalog_prefix (ixd_name x) = ixd_internal x \<and>
     (ixd_internal x \<longrightarrow> ixd_name x =
        (if ixd_primary x then internal_primary_index_name (ixd_table_id x)
         else internal_unique_index_name (ixd_table_id x) (ixd_indexed_column_id x)))"

definition unique_columns_ok :: "table_info \<Rightarrow> bool" where
  "unique_columns_ok info \<longleftrightarrow> (\<forall>c \<in> set (ti_columns info). cld_unique c \<longrightarrow>
     (\<exists>x \<in> set (ti_indexes info). ixd_unique x \<and> ixd_internal x \<and> ixd_indexed_column_id x = cld_column_id c))"

definition tables_ok :: "catalog_state \<Rightarrow> bool" where
  "tables_ok st \<longleftrightarrow> structure_ok st \<and> (\<forall>x \<in> set (all_indexes st). index_name_ok x) \<and>
     (\<forall>(i, info) \<in> set (cs_table_by_id st). \<not> is_system_table i \<longrightarrow> unique_columns_ok info)"

definition state_ok :: "catalog_state \<Rightarrow> bool" where
  "state_ok st \<longleftrightarrow> tables_ok st \<and> (\<forall>i. is_system_table i \<longrightarrow> map_of (cs_table_by_id st) i \<noteq> None)"

lemma state_ok_iff:
  "state_ok st \<longleftrightarrow> structure_ok st \<and> (\<forall>x \<in> set (all_indexes st). index_name_ok x) \<and>
     (\<forall>i. is_system_table i \<longrightarrow> map_of (cs_table_by_id st) i \<noteq> None) \<and>
     (\<forall>(i, info) \<in> set (cs_table_by_id st). \<not> is_system_table i \<longrightarrow> unique_columns_ok info)"
  by (auto simp: state_ok_def tables_ok_def)

definition catalog_ok :: "catalog \<Rightarrow> bool" where
  "catalog_ok cat \<longleftrightarrow> state_ok (cat_committed_state cat) \<and>
     (\<forall>st. cat_staged_state cat = Some st \<longrightarrow> state_ok st)"

section \<open>Schemas\<close>

lemma find_primary_key_inv:
  "find_primary_key i found cs = Inr r \<Longrightarrow> (case found of None \<Rightarrow> True | Some k \<Rightarrow> k < i) \<Longrightarrow>
    (\<forall>k<length cs. col_pk (cs ! k) \<longleftrightarrow> r = Some (i + k) \<and> found = None) \<and>
    (case r of None \<Rightarrow> found = None | Some k \<Rightarrow> found = Some k \<or> found = None \<and> i \<le> k \<and> k < i + length cs)"
proof (induction cs arbitrary: i found)
  case (Cons c cs)
  show ?case
  proof (cases "col_pk c")
    case True
    then have f: "found = None" "find_primary_key (Suc i) (Some i) cs = Inr r"
      using Cons.prems by (auto split: if_splits)
    note IH = Cons.IH[OF f(2)]
    then have "r = Some i"
      by (auto split: option.splits)
    with IH f True show ?thesis
      by (auto simp: nth_Cons split: nat.splits)
  next
    case False
    then have f: "find_primary_key (Suc i) found cs = Inr r"
      using Cons.prems by simp
    have "case found of None \<Rightarrow> True | Some k \<Rightarrow> k < Suc i"
      using Cons.prems(2) by (auto split: option.splits)
    from Cons.IH[OF f this] False Cons.prems(2) show ?thesis
      by (auto simp: nth_Cons split: nat.splits option.splits)
  qed
qed (auto split: option.splits)

lemma set_layout_pk:
  "set_layout i off cs = (cs', n) \<Longrightarrow> map col_pk cs' = map col_pk cs"
  by (induction cs arbitrary: i off cs' n) (auto split: prod.splits)

lemma schema_create_primary_key:
  assumes "schema_create cols = Inr s"
  shows "sch_primary_key_ordinal s < length (sch_columns s)"
    and "k < length (sch_columns s) \<Longrightarrow> col_pk (sch_columns s ! k) \<longleftrightarrow> k = sch_primary_key_ordinal s"
    and "map col_ordinal (sch_columns s) = [0..<length (sch_columns s)]"
proof -
  obtain cs' n where lay: "set_layout 0 ((length cols + 7) div 8) cols = (cs', n)"
    by (metis surj_pair)
  obtain k0 where k0: "find_primary_key 0 None cols = Inr (Some k0)" "sch_columns s = cs'"
      "sch_primary_key_ordinal s = k0"
    using assms lay by (auto simp: schema_create_def result_iffs split: option.splits)
  have len: "length cs' = length cols" "map col_pk cs' = map col_pk cols"
    using set_layout_laid_out[OF lay] set_layout_pk[OF lay] by auto
  note f = find_primary_key_inv[OF k0(1)]
  then show "sch_primary_key_ordinal s < length (sch_columns s)"
    using k0 len by auto
  show "map col_ordinal (sch_columns s) = [0..<length (sch_columns s)]"
    using set_layout_laid_out[OF lay] k0 by auto
  show "col_pk (sch_columns s ! k) \<longleftrightarrow> k = sch_primary_key_ordinal s" if "k < length (sch_columns s)"
    using f k0 len that by (metis (no_types, lifting) add_0 nth_map option.case(1) option.inject)
qed

section \<open>The parts of a new table\<close>

lemma new_columns_facts:
  "new_columns cs i n pk = Inr (ds, n', pk') \<Longrightarrow>
    map column_of ds = map schema_column_of cs \<and> n \<le> n' \<and> distinct (map cld_column_id ds) \<and>
    (\<forall>d \<in> set ds. cld_table_id d = i \<and> n \<le> cld_column_id d \<and> cld_column_id d < n') \<and>
    (if \<exists>c \<in> set cs. col_pk c then \<exists>k<length cs. col_pk (cs ! k) \<and> pk' = cld_column_id (ds ! k) else pk' = pk)"
proof (induction cs arbitrary: n pk ds n' pk')
  case (Cons c cs)
  obtain d ds' where d: "column_descriptor_create n i (col_name c) (col_type c) (col_ordinal c)
      (col_nullable c) (col_pk c) (col_unique c) = Inr d"
      "new_columns cs i (n + 1) (if col_pk c then n else pk) = Inr (ds', n', pk')" "ds = d # ds'"
    using Cons.prems by (auto simp: result_iffs)
  have dd: "id_is_valid n" "cld_column_id d = n" "cld_table_id d = i" "column_of d = schema_column_of c"
    using d(1) by (auto simp: column_descriptor_create_def result_iffs column_of_def schema_column_of_def)
  note IH = Cons.IH[OF d(2)]
  have n: "n < n + 1" "n < n'"
    using next_id_greater[OF dd(1)] IH by auto
  have later: "n < cld_column_id e" if "e \<in> set ds'" for e
    using IH n(1) that by (meson less_le_trans)
  have pk: "if \<exists>c \<in> set (c # cs). col_pk c then \<exists>k<length (c # cs). col_pk ((c # cs) ! k) \<and> pk' = cld_column_id ((d # ds') ! k)
      else pk' = pk"
  proof (cases "\<exists>c \<in> set cs. col_pk c")
    case True
    with IH obtain k where "k < length cs" "col_pk (cs ! k)" "pk' = cld_column_id (ds' ! k)"
      by auto
    then have "Suc k < length (c # cs) \<and> col_pk ((c # cs) ! Suc k) \<and> pk' = cld_column_id ((d # ds') ! Suc k)"
      by simp
    then show ?thesis
      using True by auto
  next
    case False
    with IH dd show ?thesis
      by (auto intro: exI[of _ 0])
  qed
  have "n \<notin> cld_column_id ` set ds'"
    using later by fastforce
  then have "map column_of (d # ds') = map schema_column_of (c # cs) \<and> n \<le> n' \<and>
      distinct (map cld_column_id (d # ds')) \<and>
      (\<forall>e \<in> set (d # ds'). cld_table_id e = i \<and> n \<le> cld_column_id e \<and> cld_column_id e < n')"
    using IH dd n later by (auto simp: less_imp_le)
  with pk show ?case
    unfolding d(3) by blast
qed auto

text \<open>Internal unique indexes for the unique columns of a table that are not its primary key.\<close>

definition unique_indexes_for :: "table_id \<Rightarrow> column_descriptor list \<Rightarrow> index_id \<Rightarrow> index_id \<Rightarrow> index_descriptor list \<Rightarrow> bool" where
  "unique_indexes_for i cs n n' xs \<longleftrightarrow>
     map ixd_indexed_column_id xs = map cld_column_id (filter (\<lambda>c. \<not> cld_primary_key c \<and> cld_unique c) cs) \<and>
     n \<le> n' \<and> distinct (map ixd_index_id xs) \<and>
     (\<forall>x \<in> set xs. ixd_table_id x = i \<and> n \<le> ixd_index_id x \<and> ixd_index_id x < n' \<and> ixd_unique x \<and>
        \<not> ixd_primary x \<and> ixd_internal x \<and>
        ixd_name x = internal_unique_index_name i (ixd_indexed_column_id x))"

lemma unique_indexes_for_Cons:
  assumes "unique_indexes_for i cs (n + 1) n' xs" "\<not> cld_primary_key c" "cld_unique c"
    and "index_descriptor_create n i (internal_unique_index_name i (cld_column_id c)) root True False True
      (cld_column_id c) = Inr x"
  shows "unique_indexes_for i (c # cs) n n' (x # xs)"
proof -
  have x: "id_is_valid n" "ixd_index_id x = n" "ixd_table_id x = i" "ixd_unique x" "\<not> ixd_primary x" "ixd_internal x"
      "ixd_name x = internal_unique_index_name i (cld_column_id c)" "ixd_indexed_column_id x = cld_column_id c"
    using assms(4) by (auto simp: index_descriptor_create_def result_iffs)
  have "n < n + 1"
    by (rule next_id_greater[OF x(1)])
  then show ?thesis
    using assms(1-3) x unfolding unique_indexes_for_def by (fastforce simp: less_imp_le)
qed

section \<open>Runs that keep the catalog\<close>

definition yields :: "catalog \<Rightarrow> ('w, 'a) db_run \<Rightarrow> ('a \<Rightarrow> bool) \<Rightarrow> bool" where
  "yields c m V \<longleftrightarrow> (\<forall>p s' r. m (c, p) = Some (s', r) \<longrightarrow> fst s' = c \<and> (\<forall>x. r = Inr x \<longrightarrow> V x))"

lemma yields_bind [yields_rules]:
  assumes "yields c m V" "\<And>x. V x \<Longrightarrow> yields c (f x) W"
  shows "yields c (bind_run m f) W"
  unfolding yields_def
proof (intro allI impI)
  fix p s' r
  assume run: "bind_run m f (c, p) = Some (s', r)"
  then obtain s1 r1 where m: "m (c, p) = Some (s1, r1)"
    by (auto simp: bind_run_def split: bind_splits)
  then have s1: "fst s1 = c" "\<And>x. r1 = Inr x \<Longrightarrow> V x"
    using assms(1) unfolding yields_def by blast+
  show "fst s' = c \<and> (\<forall>x. r = Inr x \<longrightarrow> W x)"
  proof (cases r1)
    case (Inl e)
    with run m s1 show ?thesis
      by (auto simp: bind_run_def)
  next
    case (Inr x)
    with run m s1 have "f x (c, snd s1) = Some (s', r)"
      by (auto simp: bind_run_def)
    with assms(2)[OF s1(2)[OF Inr]] show ?thesis
      unfolding yields_def by blast
  qed
qed

lemma yields_weaken: "yields c m V \<Longrightarrow> (\<And>x. V x \<Longrightarrow> W x) \<Longrightarrow> yields c m W"
  unfolding yields_def by blast

lemma yields_basic [yields_rules]:
  "yields c (on_pager a) (\<lambda>_. True)" "yields c (pager_call b) (\<lambda>_. True)"
  "yields c (check_that res) (\<lambda>x. res = Inr x)"
  "yields c (get_catalog g) (\<lambda>x. x = g c)" "yields c (stop_with e) V"
  by (auto simp: yields_def on_pager_def pager_call_def check_that_def get_catalog_def stop_with_def)

lemma yields_done [yields_rules]: "V x \<Longrightarrow> yields c (done_with x) V"
  by (simp add: yields_def done_with_def)

lemma yields_require [yields_rules]: "(b \<Longrightarrow> yields c m V) \<Longrightarrow> yields c (require_that b e m) V"
  by (simp add: yields_def require_that_def stop_with_def)

lemma yields_begin [yields_rules]: "yields c begin_if_needed (\<lambda>_. True)"
  unfolding begin_if_needed_def
  by (rule yields_bind[OF yields_basic(2)]) (auto intro!: yields_rules)

lemma yields_open [yields_rules]: "yields c (open_system_tree os root s) (\<lambda>_. True)"
  unfolding open_system_tree_def by (rule yields_bind[OF yields_basic(2)]) (rule yields_basic)

lemma yields_for_all [yields_rules]: "(\<And>x. yields c (f x) (\<lambda>_. True)) \<Longrightarrow> yields c (for_all xs f) (\<lambda>_. True)"
  by (induction xs) (auto intro!: yields_rules)

lemma yields_insert_rows [yields_rules]:
  "yields c (insert_column_row os tree s column) (\<lambda>_. True)"
  "yields c (insert_index_rows os tree s tree' s' index) (\<lambda>_. True)"
  unfolding insert_column_row_def insert_index_rows_def
  by (rule yields_bind[OF yields_basic(3)], rule yields_basic,
      rule yields_bind[OF yields_basic(3)], rule yields_bind[OF yields_basic(1)], rule yields_basic)

lemma yields_new_unique_indexes:
  "yields c (new_unique_indexes os s i columns n) (\<lambda>(xs, n'). unique_indexes_for i columns n n' xs)"
proof (induction columns arbitrary: n)
  case Nil
  then show ?case
    by (auto intro!: yields_done simp: unique_indexes_for_def)
next
  case (Cons column columns)
  show ?case
  proof (cases "cld_primary_key column \<or> \<not> cld_unique column")
    case True
    with Cons show ?thesis
      by (auto simp: unique_indexes_for_def)
  next
    case False
    show ?thesis
      using False
      by (auto intro!: yields_bind[OF yields_basic(2)] yields_bind[OF yields_basic(3)] yields_bind[OF Cons.IH]
          yields_done unique_indexes_for_Cons split: prod.splits)
  qed
qed

section \<open>The next states\<close>

lemma table_ok_mono:
  assumes "table_ok st i info" "cs_next_table_id st \<le> cs_next_table_id st'"
    and "cs_next_column_id st \<le> cs_next_column_id st'" "cs_next_index_id st \<le> cs_next_index_id st'"
    and "map_of (cs_table_id_by_name st') (td_name (ti_table_descriptor info)) =
      map_of (cs_table_id_by_name st) (td_name (ti_table_descriptor info))"
    and "map_of (cs_table_schema_by_id st') i = map_of (cs_table_schema_by_id st) i"
  shows "table_ok st' i info"
  using assms unfolding table_ok_def by (auto intro: less_le_trans)

lemma structure_okD:
  assumes "structure_ok st"
  shows "distinct (map fst (cs_table_by_id st))"
    and "map_of (cs_table_by_id st) i = Some info \<Longrightarrow> table_ok st i info"
    and "map_of (cs_table_id_by_name st) name = Some i \<Longrightarrow>
      \<exists>info. map_of (cs_table_by_id st) i = Some info \<and> td_name (ti_table_descriptor info) = name"
    and "map_of (cs_table_by_id st) i = None \<Longrightarrow> map_of (cs_table_schema_by_id st) i = None"
  using assms by (auto simp: structure_ok_def dest: map_of_SomeD)

text \<open>A table inside the list of tables.\<close>

lemma find_entry:
  assumes "map_of m k = Some v" "distinct (map fst m)"
  obtains A B where "m = A @ (k, v) # B" "k \<notin> fst ` set A" "k \<notin> fst ` set B"
proof -
  obtain A B where "m = A @ (k, v) # B"
    using map_of_SomeD[OF assms(1)] by (meson split_list)
  with assms(2) that show ?thesis
    by auto
qed

lemma map_entry_split:
  "k \<notin> fst ` set A \<Longrightarrow> AList.map_entry k f (A @ (k, v) # B) = A @ (k, f v) # B"
  by (induction A) auto

lemma delete_absent: "k \<notin> fst ` set A \<Longrightarrow> AList.delete k A = A"
  by (induction A) auto

lemma delete_append: "AList.delete k (A @ B) = AList.delete k A @ AList.delete k B"
  by (induction A) auto

lemma delete_split:
  "k \<notin> fst ` set A \<Longrightarrow> k \<notin> fst ` set B \<Longrightarrow> AList.delete k (A @ (k, v) # B) = A @ B"
  by (simp add: delete_append delete_absent)

lemma map_of_split:
  "k \<notin> fst ` set A \<Longrightarrow> map_of (A @ (k, v) # B) j = (if j = k then Some v else map_of (A @ B) j)"
  by (induction A) auto

lemma distinct_map_add:
  assumes "mset ys = add_mset x (mset xs)"
  shows "distinct (map f ys) \<longleftrightarrow> distinct (map f xs) \<and> f x \<notin> f ` set xs"
proof -
  have "mset (map f ys) = mset (map f (x # xs))"
    using assms by simp
  then have "distinct (map f ys) = distinct (map f (x # xs))"
    by (rule mset_eq_imp_distinct_iff)
  then show ?thesis
    by auto
qed

lemma set_mset_add: "mset ys = add_mset x (mset xs) \<Longrightarrow> set ys = insert x (set xs)"
  by (metis set_mset_add_mset_insert set_mset_mset)

lemma all_in_tables:
  "x \<in> set (all_indexes st) \<longleftrightarrow> (\<exists>(i, info) \<in> set (cs_table_by_id st). x \<in> set (ti_indexes info))"
  "c \<in> set (all_columns st) \<longleftrightarrow> (\<exists>(i, info) \<in> set (cs_table_by_id st). c \<in> set (ti_columns info))"
  by (auto simp: all_indexes_def all_columns_def)

lemma structure_bounds:
  assumes "structure_ok st"
  shows "x \<in> set (all_indexes st) \<Longrightarrow> ixd_index_id x < cs_next_index_id st \<and>
      (\<exists>info. map_of (cs_table_by_id st) (ixd_table_id x) = Some info \<and> x \<in> set (ti_indexes info))"
    and "c \<in> set (all_columns st) \<Longrightarrow> cld_column_id c < cs_next_column_id st"
    and "(i, info) \<in> set (cs_table_by_id st) \<Longrightarrow> i < cs_next_table_id st"
  using assms unfolding all_in_tables structure_ok_def table_ok_def by fastforce+

text \<open>A change of the indexes of one table.\<close>

lemma state_ok_change_indexes:
  assumes ok: "state_ok st" and i: "map_of (cs_table_by_id st) i = Some info"
    and tabs': "cs_table_by_id st' = AList.map_entry i (\<lambda>_. info\<lparr>ti_indexes := xs\<rparr>) (cs_table_by_id st)"
    and same: "cs_table_id_by_name st' = cs_table_id_by_name st" "cs_table_schema_by_id st' = cs_table_schema_by_id st"
      "cs_next_table_id st' = cs_next_table_id st" "cs_next_column_id st' = cs_next_column_id st"
      "cs_next_index_id st \<le> cs_next_index_id st'"
    and ti: "table_ok st i info \<Longrightarrow> table_ok st' i (info\<lparr>ti_indexes := xs\<rparr>)"
    and dist: "distinct (map ixd_index_id (all_indexes st'))" "distinct (map ixd_name (all_indexes st'))"
    and names: "\<And>x. x \<in> set (all_indexes st') \<Longrightarrow> index_name_ok x"
    and uniq: "\<not> is_system_table i \<Longrightarrow> unique_columns_ok info \<Longrightarrow> unique_columns_ok (info\<lparr>ti_indexes := xs\<rparr>)"
  shows "state_ok st'"
proof -
  have st: "structure_ok st"
    using ok by (simp add: state_ok_iff)
  let ?info = "info\<lparr>ti_indexes := xs\<rparr>"
  obtain A B where AB: "cs_table_by_id st = A @ (i, info) # B" "i \<notin> fst ` set A" "i \<notin> fst ` set B"
    using find_entry[OF i structure_okD(1)[OF st]] by blast
  have tabs: "cs_table_by_id st' = A @ (i, ?info) # B"
    unfolding tabs' AB(1) by (rule map_entry_split[OF AB(2)])
  have cols: "all_columns st' = all_columns st"
    by (simp add: all_columns_def tabs AB(1))
  have mono: "table_ok st' j inf" if "table_ok st j inf" for j inf
    using that same by (intro table_ok_mono[OF that]) simp_all
  have tab_old: "table_ok st j inf" if "(j, inf) \<in> set (cs_table_by_id st)" for j inf
    using st that by (auto simp: structure_ok_def)
  have tab_new: "table_ok st' j inf" if "(j, inf) \<in> set (cs_table_by_id st')" for j inf
  proof (cases "(j, inf) = (i, ?info)")
    case True
    then show ?thesis
      using ti[OF tab_old] AB(1) by auto
  next
    case False
    then show ?thesis
      using that mono[OF tab_old] AB(1) tabs by auto
  qed
  have find: "\<exists>inf. map_of (cs_table_by_id st') j = Some inf \<and> td_name (ti_table_descriptor inf) = n"
    if "map_of (cs_table_id_by_name st') n = Some j" for n j
    using structure_okD(3)[OF st, of n j] that unfolding same(1) tabs AB(1) map_of_split[OF AB(2)]
    by (auto split: if_splits)
  have "distinct (map fst (cs_table_by_id st'))"
    using structure_okD(1)[OF st] by (simp add: tabs AB(1))
  moreover have "distinct (map cld_column_id (all_columns st'))"
    using st by (simp add: cols structure_ok_def)
  moreover have "map_of (cs_table_schema_by_id st') j = None" if "map_of (cs_table_by_id st') j = None" for j
    using structure_okD(4)[OF st, of j] that unfolding same(2) tabs AB(1) map_of_split[OF AB(2)]
    by (auto split: if_splits)
  ultimately have "structure_ok st'"
    unfolding structure_ok_def using tab_new find dist by blast
  moreover have "map_of (cs_table_by_id st') j \<noteq> None" if "is_system_table j" for j
  proof -
    have "map_of (cs_table_by_id st) j \<noteq> None"
      using ok that by (simp add: state_ok_iff)
    then show ?thesis
      unfolding tabs AB(1) map_of_split[OF AB(2)] by (auto split: if_splits)
  qed
  moreover have "unique_columns_ok inf" if "(j, inf) \<in> set (cs_table_by_id st')" "\<not> is_system_table j" for j inf
  proof -
    have old: "unique_columns_ok inf" if "(j, inf) \<in> set (cs_table_by_id st)" "\<not> is_system_table j" for j inf
      using ok that by (auto simp: state_ok_iff)
    show ?thesis
    proof (cases "(j, inf) = (i, ?info)")
      case True
      then show ?thesis
        using uniq old[of i info] that AB(1) by auto
    next
      case False
      then show ?thesis
        using old[of j inf] that AB(1) tabs by auto
    qed
  qed
  ultimately show ?thesis
    unfolding state_ok_iff using names by blast
qed

text \<open>What a change of the indexes of one table does to the list of all indexes.\<close>

lemma all_indexes_change:
  assumes "structure_ok st" "map_of (cs_table_by_id st) i = Some info"
    and "cs_table_by_id st' = AList.map_entry i (\<lambda>_. info\<lparr>ti_indexes := xs\<rparr>) (cs_table_by_id st)"
  shows "mset (all_indexes st') + mset (ti_indexes info) = mset (all_indexes st) + mset xs"
proof -
  obtain A B where AB: "cs_table_by_id st = A @ (i, info) # B" "i \<notin> fst ` set A" "i \<notin> fst ` set B"
    using find_entry[OF assms(2) structure_okD(1)[OF assms(1)]] by blast
  have "cs_table_by_id st' = A @ (i, info\<lparr>ti_indexes := xs\<rparr>) # B"
    unfolding assms(3) AB(1) by (rule map_entry_split[OF AB(2)])
  then show ?thesis
    by (simp add: all_indexes_def AB(1))
qed

lemma map_entry_const: "map_of m k = Some v \<Longrightarrow> AList.map_entry k f m = AList.map_entry k (\<lambda>_. f v) m"
proof (induction m)
  case (Cons p m)
  then show ?case
    by (cases p) (simp split: if_split_asm)
qed simp

lemma with_table_entry:
  assumes "map_of (cs_table_by_id st) i = Some info"
  shows "cs_table_by_id (with_table i f st) = AList.map_entry i (\<lambda>_. f info) (cs_table_by_id st)"
  using map_entry_const[OF assms, of f] by (simp add: with_table_def)

lemma with_table_same [simp]:
  "cs_table_id_by_name (with_table i f st) = cs_table_id_by_name st"
  "cs_table_schema_by_id (with_table i f st) = cs_table_schema_by_id st"
  "cs_next_table_id (with_table i f st) = cs_next_table_id st"
  "cs_next_column_id (with_table i f st) = cs_next_column_id st"
  "cs_next_index_id (with_table i f st) = cs_next_index_id st"
  by (simp_all add: with_table_def)

text \<open>A new index of a table that is not a system table.\<close>

lemma state_ok_new_index:
  assumes ok: "state_ok st" and i: "map_of (cs_table_by_id st) i = Some info"
    and x: "index_descriptor_create (cs_next_index_id st) i name root unique False False column_id = Inr x"
    and name: "\<not> has_reserved_catalog_prefix name" "name \<notin> ixd_name ` set (all_indexes st)"
    and col: "column_id \<in> cld_column_id ` set (ti_columns info)"
  shows "state_ok (with_table i (\<lambda>info. info\<lparr>ti_indexes := ti_indexes info @ [x]\<rparr>)
    (st\<lparr>cs_next_index_id := cs_next_index_id st + 1\<rparr>))" (is "state_ok ?st'")
proof -
  have st: "structure_ok st"
    using ok by (simp add: state_ok_iff)
  have xf: "id_is_valid (cs_next_index_id st)" "ixd_index_id x = cs_next_index_id st" "ixd_table_id x = i"
      "ixd_name x = name" "\<not> ixd_primary x" "\<not> ixd_internal x" "ixd_indexed_column_id x = column_id"
    using x by (auto simp: index_descriptor_create_def result_iffs)
  have next_id: "cs_next_index_id st < cs_next_index_id st + 1"
    by (rule next_id_greater[OF xf(1)])
  have entry: "cs_table_by_id ?st' =
      AList.map_entry i (\<lambda>_. info\<lparr>ti_indexes := ti_indexes info @ [x]\<rparr>) (cs_table_by_id st)"
    by (subst with_table_entry[of _ _ info]) (use i in simp_all)
  have idx: "mset (all_indexes ?st') = add_mset x (mset (all_indexes st))"
    using all_indexes_change[OF st i entry] by simp
  show ?thesis
  proof (rule state_ok_change_indexes[OF ok i entry])
    show "table_ok ?st' i (info\<lparr>ti_indexes := ti_indexes info @ [x]\<rparr>)" if t: "table_ok st i info"
      using t xf col next_id by (auto simp: table_ok_def described_by_def intro: less_trans)
    show "distinct (map ixd_index_id (all_indexes ?st'))"
      unfolding distinct_map_add[OF idx] using st structure_bounds(1)[OF st] xf(2)
      by (auto simp: structure_ok_def) (metis less_irrefl)
    show "distinct (map ixd_name (all_indexes ?st'))"
      unfolding distinct_map_add[OF idx] using st name(2) xf(4) by (simp add: structure_ok_def)
    show "index_name_ok y" if "y \<in> set (all_indexes ?st')" for y
      using that ok name(1) xf set_mset_add[OF idx] by (auto simp: state_ok_iff index_name_ok_def)
  qed (use next_id in \<open>auto simp: unique_columns_ok_def less_imp_le\<close>)
qed

text \<open>An index that is not internal, removed.\<close>

lemma remove_first:
  assumes "x \<in> set ys" "distinct (map f ys)"
  obtains A B where "ys = A @ x # B"
    "takeWhile (\<lambda>y. f y \<noteq> f x) ys @ tl (dropWhile (\<lambda>y. f y \<noteq> f x) ys) = A @ B"
proof -
  obtain A B where AB: "ys = A @ x # B"
    using assms(1) by (meson split_list)
  then have "\<forall>y \<in> set A. f y \<noteq> f x"
    using assms(2) by (auto simp: rev_image_eqI)
  then have "takeWhile (\<lambda>y. f y \<noteq> f x) ys @ tl (dropWhile (\<lambda>y. f y \<noteq> f x) ys) = A @ B"
    unfolding AB by (simp add: takeWhile_append2 dropWhile_append2)
  with AB that show ?thesis
    by blast
qed

lemma state_ok_drop_index:
  assumes ok: "state_ok st" and x: "x \<in> set (all_indexes st)" "\<not> ixd_internal x"
  shows "\<exists>info. map_of (cs_table_by_id st) (ixd_table_id x) = Some info \<and>
    state_ok (with_table (ixd_table_id x) (\<lambda>info. info\<lparr>ti_indexes :=
      takeWhile (\<lambda>i. ixd_index_id i \<noteq> ixd_index_id x) (ti_indexes info) @
      tl (dropWhile (\<lambda>i. ixd_index_id i \<noteq> ixd_index_id x) (ti_indexes info))\<rparr>) st)"
proof -
  have st: "structure_ok st"
    using ok by (simp add: state_ok_iff)
  obtain info where i: "map_of (cs_table_by_id st) (ixd_table_id x) = Some info" and xi: "x \<in> set (ti_indexes info)"
    using structure_bounds(1)[OF st x(1)] by blast
  have t: "table_ok st (ixd_table_id x) info"
    by (rule structure_okD(2)[OF st i])
  obtain T1 T2 where T: "cs_table_by_id st = T1 @ (ixd_table_id x, info) # T2"
    using map_of_SomeD[OF i] by (meson split_list)
  have "distinct (map ixd_index_id (ti_indexes info))"
    using st by (auto simp: structure_ok_def all_indexes_def T)
  then obtain A B where AB: "ti_indexes info = A @ x # B"
      "takeWhile (\<lambda>i. ixd_index_id i \<noteq> ixd_index_id x) (ti_indexes info) @
       tl (dropWhile (\<lambda>i. ixd_index_id i \<noteq> ixd_index_id x) (ti_indexes info)) = A @ B"
    using remove_first[OF xi, of ixd_index_id] by blast
  let ?f = "\<lambda>info. info\<lparr>ti_indexes := takeWhile (\<lambda>i. ixd_index_id i \<noteq> ixd_index_id x) (ti_indexes info) @
      tl (dropWhile (\<lambda>i. ixd_index_id i \<noteq> ixd_index_id x) (ti_indexes info))\<rparr>"
  let ?st' = "with_table (ixd_table_id x) ?f st"
  have entry: "cs_table_by_id ?st' = AList.map_entry (ixd_table_id x) (\<lambda>_. info\<lparr>ti_indexes := A @ B\<rparr>) (cs_table_by_id st)"
    by (subst with_table_entry[OF i]) (simp add: AB(2))
  have idx: "mset (all_indexes st) = add_mset x (mset (all_indexes ?st'))"
    using all_indexes_change[OF st i entry] by (simp add: AB(1))
  have np: "\<not> ixd_primary x"
    using t xi x(2) by (auto simp: table_ok_def)
  have "state_ok ?st'"
  proof (rule state_ok_change_indexes[OF ok i entry])
    show "table_ok ?st' (ixd_table_id x) (info\<lparr>ti_indexes := A @ B\<rparr>)" if "table_ok st (ixd_table_id x) info"
      using t np AB(1) by (auto simp: table_ok_def described_by_def)
    show "distinct (map ixd_index_id (all_indexes ?st'))" "distinct (map ixd_name (all_indexes ?st'))"
      using st unfolding structure_ok_def distinct_map_add[OF idx] by blast+
    show "index_name_ok y" if "y \<in> set (all_indexes ?st')" for y
      using that ok set_mset_add[OF idx] by (auto simp: state_ok_iff)
    show "unique_columns_ok (info\<lparr>ti_indexes := A @ B\<rparr>)" if "unique_columns_ok info"
      using that x(2) AB(1) by (fastforce simp: unique_columns_ok_def)
  qed simp_all
  with i show ?thesis
    by blast
qed

lemma distinct_map_append:
  "distinct (map f xs) \<Longrightarrow> distinct (map f ys) \<Longrightarrow>
   (\<And>x y. x \<in> set xs \<Longrightarrow> y \<in> set ys \<Longrightarrow> f x \<noteq> f y) \<Longrightarrow> distinct (map f (xs @ ys))"
  by auto

lemma distinct_middle: "distinct (map f (xs @ ys @ zs)) \<Longrightarrow> distinct (map f (xs @ zs))"
  by auto

text \<open>A table that is not a system table, removed.\<close>

lemma state_ok_drop_table:
  assumes ok: "state_ok st" and i: "map_of (cs_table_by_id st) i = Some info" and sys: "\<not> is_system_table i"
  shows "state_ok (st\<lparr>cs_table_id_by_name := AList.delete (td_name (ti_table_descriptor info)) (cs_table_id_by_name st),
    cs_table_schema_by_id := AList.delete i (cs_table_schema_by_id st),
    cs_table_by_id := AList.delete i (cs_table_by_id st)\<rparr>)" (is "state_ok ?st'")
proof -
  have st: "structure_ok st"
    using ok by (simp add: state_ok_iff)
  obtain A B where AB: "cs_table_by_id st = A @ (i, info) # B" "i \<notin> fst ` set A" "i \<notin> fst ` set B"
    using find_entry[OF i structure_okD(1)[OF st]] by blast
  have tabs: "cs_table_by_id ?st' = A @ B"
    using delete_split[OF AB(2,3)] by (simp add: AB(1))
  have idx: "all_indexes st = concat (map (\<lambda>(i, info). ti_indexes info) A) @ ti_indexes info @
      concat (map (\<lambda>(i, info). ti_indexes info) B)" "all_indexes ?st' =
      concat (map (\<lambda>(i, info). ti_indexes info) A) @ concat (map (\<lambda>(i, info). ti_indexes info) B)"
    unfolding all_indexes_def tabs by (simp_all add: AB(1))
  have cols: "all_columns st = concat (map (\<lambda>(i, info). ti_columns info) A) @ ti_columns info @
      concat (map (\<lambda>(i, info). ti_columns info) B)" "all_columns ?st' =
      concat (map (\<lambda>(i, info). ti_columns info) A) @ concat (map (\<lambda>(i, info). ti_columns info) B)"
    unfolding all_columns_def tabs by (simp_all add: AB(1))
  have tab_old: "table_ok st j inf" if "(j, inf) \<in> set (cs_table_by_id st)" for j inf
    using st that by (auto simp: structure_ok_def)
  have tab_new: "table_ok ?st' j inf" if "(j, inf) \<in> set (A @ B)" for j inf
  proof -
    have j: "j \<noteq> i" "table_ok st j inf"
      using that AB tab_old by (auto simp: rev_image_eqI)
    have "td_name (ti_table_descriptor inf) \<noteq> td_name (ti_table_descriptor info)"
      using j tab_old[of i info] AB(1) by (auto simp: table_ok_def)
    with j show ?thesis
      by (intro table_ok_mono[OF j(2)]) (simp_all add: delete_conv')
  qed
  have find: "\<exists>inf. map_of (A @ B) j = Some inf \<and> td_name (ti_table_descriptor inf) = n"
    if nj: "map_of (cs_table_id_by_name ?st') n = Some j" for n j
  proof -
    have n: "n \<noteq> td_name (ti_table_descriptor info)" "map_of (cs_table_id_by_name st) n = Some j"
      using nj by (auto simp: delete_conv' split: if_splits)
    then obtain inf where inf: "map_of (cs_table_by_id st) j = Some inf" "td_name (ti_table_descriptor inf) = n"
      using structure_okD(3)[OF st] by blast
    with n i have "j \<noteq> i"
      by auto
    with inf show ?thesis
      unfolding AB(1) map_of_split[OF AB(2)] by simp
  qed
  have "structure_ok ?st'"
    unfolding structure_ok_def tabs
  proof (intro conjI allI impI)
    show "distinct (map fst (A @ B))"
      using structure_okD(1)[OF st] by (simp add: AB(1))
    show "\<forall>(j, inf) \<in> set (A @ B). table_ok ?st' j inf"
      using tab_new by blast
    show "map_of (cs_table_schema_by_id ?st') j = None" if "map_of (A @ B) j = None" for j
      using structure_okD(4)[OF st, of j] that unfolding AB(1) map_of_split[OF AB(2)]
      by (cases "j = i") (simp_all add: delete_conv')
    show "distinct (map cld_column_id (all_columns ?st'))"
      using st unfolding structure_ok_def cols by (blast intro: distinct_middle)
    show "distinct (map ixd_index_id (all_indexes ?st'))" "distinct (map ixd_name (all_indexes ?st'))"
      using st unfolding structure_ok_def idx by (blast intro: distinct_middle)+
  qed (rule find)
  moreover have "map_of (cs_table_by_id ?st') j \<noteq> None" if "is_system_table j" for j
  proof -
    have "map_of (cs_table_by_id st) j \<noteq> None" "j \<noteq> i"
      using ok that sys by (auto simp: state_ok_iff)
    then show ?thesis
      unfolding tabs AB(1) map_of_split[OF AB(2)] by simp
  qed
  moreover have "\<forall>x \<in> set (all_indexes ?st'). index_name_ok x"
  proof -
    have "set (all_indexes ?st') \<subseteq> set (all_indexes st)"
      unfolding idx set_append by blast
    then show ?thesis
      using ok unfolding state_ok_iff by blast
  qed
  moreover have "\<forall>(j, inf) \<in> set (cs_table_by_id ?st'). \<not> is_system_table j \<longrightarrow> unique_columns_ok inf"
  proof -
    have "set (cs_table_by_id ?st') \<subseteq> set (cs_table_by_id st)"
      unfolding tabs by (auto simp: AB(1))
    then show ?thesis
      using ok unfolding state_ok_iff by blast
  qed
  ultimately show ?thesis
    unfolding state_ok_iff by blast
qed

text \<open>A new table.\<close>

lemma table_ok_new:
  assumes s: "schema_create cols = Inr s" "\<forall>c \<in> set cols. type_wf (col_type c)"
    and ds: "new_columns (sch_columns s) i n INVALID_ID = Inr (ds, n', pk)"
    and d: "table_descriptor_create i name root = Inr d"
    and p: "index_descriptor_create m i (internal_primary_index_name i) root True True True pk = Inr p"
    and xs: "unique_indexes_for i ds (m + 1) m' xs"
    and st': "i < cs_next_table_id st'" "n' \<le> cs_next_column_id st'" "m' \<le> cs_next_index_id st'"
      "map_of (cs_table_id_by_name st') name = Some i" "map_of (cs_table_schema_by_id st') i = Some s"
  shows "table_ok st' i \<lparr>ti_table_descriptor = d, ti_columns = ds, ti_indexes = p # xs\<rparr>"
    and "unique_columns_ok \<lparr>ti_table_descriptor = d, ti_columns = ds, ti_indexes = p # xs\<rparr>"
    and "\<forall>x \<in> set (p # xs). index_name_ok x" "distinct (map ixd_index_id (p # xs))" "distinct (map ixd_name (p # xs))"
    and "\<forall>x \<in> set (p # xs). m \<le> ixd_index_id x \<and> ixd_table_id x = i" "m \<le> m'"
proof -
  note nc = new_columns_facts[OF ds]
  note pko = schema_create_primary_key[OF s(1)]
  have len: "length ds = length (sch_columns s)"
    using nc by (metis length_map)
  have same: "column_of (ds ! k) = schema_column_of (sch_columns s ! k)" if "k < length ds" for k
    using nc that len by (metis nth_map)
  then have pks: "cld_primary_key (ds ! k) \<longleftrightarrow> k = sch_primary_key_ordinal s" if "k < length ds" for k
    using pko(2) that len by (auto simp: column_of_def schema_column_of_def)
  have "\<exists>c \<in> set (sch_columns s). col_pk c"
    using pko(1) pko(2)[OF pko(1)] nth_mem by blast
  then obtain k where k: "k < length (sch_columns s)" "col_pk (sch_columns s ! k)" "pk = cld_column_id (ds ! k)"
    using nc by auto
  then have pk: "pk = cld_column_id (ds ! sch_primary_key_ordinal s)" "sch_primary_key_ordinal s < length ds"
    using pko len by auto
  have df: "td_table_id d = i" "td_name d = name" "td_root_page_id d = root"
    using d by (auto simp: table_descriptor_create_def result_iffs)
  have pf: "id_is_valid m" "ixd_index_id p = m" "ixd_table_id p = i" "ixd_name p = internal_primary_index_name i"
      "ixd_root_page_id p = root" "ixd_unique p" "ixd_primary p" "ixd_internal p" "ixd_indexed_column_id p = pk"
    using p by (auto simp: index_descriptor_create_def result_iffs)
  have mm: "m < m + 1" "m + 1 \<le> m'"
    using next_id_greater[OF pf(1)] xs by (auto simp: unique_indexes_for_def)
  have m: "m < m'"
    using mm by (rule less_le_trans)
  then show "m \<le> m'"
    by simp
  have xf: "ixd_table_id x = i" "m < ixd_index_id x" "ixd_index_id x < m'" "ixd_unique x" "\<not> ixd_primary x" "ixd_internal x"
      "ixd_name x = internal_unique_index_name i (ixd_indexed_column_id x)" if "x \<in> set xs" for x
    using xs that mm(1) by (auto simp: unique_indexes_for_def intro: less_le_trans)
  have xc: "set (map ixd_indexed_column_id xs) = cld_column_id ` {c \<in> set ds. \<not> cld_primary_key c \<and> cld_unique c}"
    using xs by (auto simp: unique_indexes_for_def simp del: set_map) (auto dest!: arg_cong[of _ _ set])
  then have xcol: "ixd_indexed_column_id x \<in> cld_column_id ` set ds" if "x \<in> set xs" for x
    using that by (auto simp: set_eq_iff)
  have none: "filter ixd_primary xs = []"
    using xf(5) by (simp add: filter_empty_conv)
  have "described_by \<lparr>ti_table_descriptor = d, ti_columns = ds, ti_indexes = p # xs\<rparr> s"
    using s nc pf df pk none by (auto simp: described_by_def)
  then show "table_ok st' i \<lparr>ti_table_descriptor = d, ti_columns = ds, ti_indexes = p # xs\<rparr>"
    using df pf st' nc xf xcol pk m by (auto simp: table_ok_def intro: less_le_trans)
  show "unique_columns_ok \<lparr>ti_table_descriptor = d, ti_columns = ds, ti_indexes = p # xs\<rparr>"
    unfolding unique_columns_ok_def table_info.select_convs
  proof (intro ballI impI)
    fix c assume c: "c \<in> set ds" "cld_unique c"
    show "\<exists>x \<in> set (p # xs). ixd_unique x \<and> ixd_internal x \<and> ixd_indexed_column_id x = cld_column_id c"
    proof (cases "cld_primary_key c")
      case True
      then have "pk = cld_column_id c"
        using c(1) pks pk(1) by (metis in_set_conv_nth)
      with pf show ?thesis
        by simp
    next
      case False
      then have "cld_column_id c \<in> set (map ixd_indexed_column_id xs)"
        unfolding xc using c by blast
      with xf(4,6) show ?thesis
        by auto
    qed
  qed
  show "\<forall>x \<in> set (p # xs). index_name_ok x"
    using pf xf by (auto simp: index_name_ok_def internal_names)
  show "\<forall>x \<in> set (p # xs). m \<le> ixd_index_id x \<and> ixd_table_id x = i"
    using pf xf by (auto simp: less_imp_le)
  show "distinct (map ixd_index_id (p # xs))"
    using xs pf(2) xf(2) by (fastforce simp: unique_indexes_for_def)
  have "distinct (map ixd_indexed_column_id xs)"
    using xs nc by (simp add: unique_indexes_for_def distinct_map_filter)
  then have "distinct (map ixd_name xs)"
    using xf(7) by (auto simp: distinct_map inj_on_def internal_names)
  then show "distinct (map ixd_name (p # xs))"
    using pf(4) xf(7) internal_names by auto
qed

lemma tables_ok_new_table:
  fixes st :: catalog_state
  defines "i \<equiv> cs_next_table_id st" and "m \<equiv> cs_next_index_id st"
  assumes ok: "tables_ok st" and name: "map_of (cs_table_id_by_name st) name = None"
    and s: "schema_create cols = Inr s" "\<forall>c \<in> set cols. type_wf (col_type c)"
    and ds: "new_columns (sch_columns s) i (cs_next_column_id st) INVALID_ID = Inr (ds, n', pk)"
    and d: "table_descriptor_create i name root = Inr d"
    and p: "index_descriptor_create m i (internal_primary_index_name i) root True True True pk = Inr p"
    and xs: "unique_indexes_for i ds (m + 1) m' xs"
  shows "tables_ok (st\<lparr>cs_next_table_id := i + 1, cs_next_column_id := n', cs_next_index_id := m',
      cs_table_by_id := emplace i \<lparr>ti_table_descriptor = d, ti_columns = ds, ti_indexes = p # xs\<rparr> (cs_table_by_id st),
      cs_table_schema_by_id := emplace i s (cs_table_schema_by_id st),
      cs_table_id_by_name := emplace name i (cs_table_id_by_name st)\<rparr>)" (is "tables_ok ?st'")
proof -
  have st: "structure_ok st"
    using ok by (simp add: tables_ok_def)
  have valid: "id_is_valid i"
    using d by (auto simp: table_descriptor_create_def result_iffs)
  have next_i: "i < i + 1"
    by (rule next_id_greater[OF valid])
  have fresh: "i \<notin> fst ` set (cs_table_by_id st)"
    using structure_bounds(3)[OF st] by (fastforce simp: i_def)
  then have none: "map_of (cs_table_by_id st) i = None"
    by (simp add: map_of_eq_None_iff)
  let ?info = "\<lparr>ti_table_descriptor = d, ti_columns = ds, ti_indexes = p # xs\<rparr>"
  have tabs: "cs_table_by_id ?st' = (i, ?info) # cs_table_by_id st"
    using none by (simp add: emplace_def)
  have idx: "all_indexes ?st' = (p # xs) @ all_indexes st"
    unfolding all_indexes_def tabs by simp
  have cols: "all_columns ?st' = ds @ all_columns st"
    unfolding all_columns_def tabs by simp
  note nc = new_columns_facts[OF ds]
  have schemas: "map_of (cs_table_schema_by_id ?st') j = (if j = i then Some s else map_of (cs_table_schema_by_id st) j)" for j
    using structure_okD(4)[OF st none] by (simp add: emplace_def)
  have names: "map_of (cs_table_id_by_name ?st') n = (if n = name then Some i else map_of (cs_table_id_by_name st) n)" for n
    using name by (simp add: emplace_def)
  note new = table_ok_new[OF s ds d p xs, of ?st']
  have new_st: "i < cs_next_table_id ?st'" "n' \<le> cs_next_column_id ?st'" "m' \<le> cs_next_index_id ?st'"
    using next_i by simp_all
  have own: "map_of (cs_table_id_by_name ?st') name = Some i" "map_of (cs_table_schema_by_id ?st') i = Some s"
    unfolding names schemas by simp_all
  note t = new[OF new_st own]
  have mono: "table_ok ?st' j inf" if "table_ok st j inf" for j inf
  proof (rule table_ok_mono[OF that])
    show "cs_next_table_id st \<le> cs_next_table_id ?st'" "cs_next_column_id st \<le> cs_next_column_id ?st'"
        "cs_next_index_id st \<le> cs_next_index_id ?st'"
      using next_i nc t(7) by (simp_all add: i_def m_def less_imp_le)
    show "map_of (cs_table_id_by_name ?st') (td_name (ti_table_descriptor inf)) =
        map_of (cs_table_id_by_name st) (td_name (ti_table_descriptor inf))"
      using that name unfolding names by (auto simp: table_ok_def)
    show "map_of (cs_table_schema_by_id ?st') j = map_of (cs_table_schema_by_id st) j"
      using that unfolding schemas by (auto simp: table_ok_def i_def)
  qed
  have old_index: "ixd_index_id x < m" "ixd_table_id x \<noteq> i" if "x \<in> set (all_indexes st)" for x
    using structure_bounds(1)[OF st that] none by (auto simp: m_def)
  have internal: "ixd_internal y" if "y \<in> set (p # xs)" for y
  proof -
    have "ixd_internal p"
      using p by (auto simp: index_descriptor_create_def result_iffs)
    then show ?thesis
      using xs that by (auto simp: unique_indexes_for_def)
  qed
  have name_table: "ixd_name y \<noteq> ixd_name x" if "y \<in> set (p # xs)" "x \<in> set (all_indexes st)" for x y
  proof
    assume eq: "ixd_name y = ixd_name x"
    have y: "index_name_ok y" "ixd_table_id y = i" "ixd_internal y"
      using t(3,6) that(1) internal by blast+
    have x: "index_name_ok x" "ixd_internal x"
      using ok that(2) y eq by (auto simp: tables_ok_def index_name_ok_def)
    then have "ixd_table_id x = ixd_table_id y"
      using y eq by (auto simp: index_name_ok_def internal_names split: if_splits)
    with y old_index(2)[OF that(2)] show False
      by simp
  qed
  have "structure_ok ?st'"
    unfolding structure_ok_def idx cols
  proof (intro conjI allI impI)
    show "distinct (map fst (cs_table_by_id ?st'))"
      unfolding tabs using structure_okD(1)[OF st] fresh by simp
    show "\<forall>(j, inf) \<in> set (cs_table_by_id ?st'). table_ok ?st' j inf"
      unfolding tabs using t(1) mono st by (auto simp: structure_ok_def)
    show "\<exists>inf. map_of (cs_table_by_id ?st') j = Some inf \<and> td_name (ti_table_descriptor inf) = n"
      if "map_of (cs_table_id_by_name ?st') n = Some j" for n j
      using that structure_okD(3)[OF st, of n j] none d unfolding tabs names
      by (auto simp: table_descriptor_create_def result_iffs split: if_splits)
    show "map_of (cs_table_schema_by_id ?st') j = None" if "map_of (cs_table_by_id ?st') j = None" for j
      using that structure_okD(4)[OF st, of j] unfolding tabs schemas by (auto split: if_splits)
    show "distinct (map cld_column_id (ds @ all_columns st))"
    proof (rule distinct_map_append)
      show "distinct (map cld_column_id ds)" "distinct (map cld_column_id (all_columns st))"
        using nc st by (auto simp: structure_ok_def)
      show "cld_column_id x \<noteq> cld_column_id y" if "x \<in> set ds" "y \<in> set (all_columns st)" for x y
        using nc that(1) structure_bounds(2)[OF st that(2)] by fastforce
    qed
    show "distinct (map ixd_index_id ((p # xs) @ all_indexes st))"
    proof (rule distinct_map_append[OF t(4)])
      show "distinct (map ixd_index_id (all_indexes st))"
        using st by (simp add: structure_ok_def)
      show "ixd_index_id x \<noteq> ixd_index_id y" if "x \<in> set (p # xs)" "y \<in> set (all_indexes st)" for x y
        using t(6) that(1) old_index(1)[OF that(2)] by fastforce
    qed
    show "distinct (map ixd_name ((p # xs) @ all_indexes st))"
    proof (rule distinct_map_append[OF t(5)])
      show "distinct (map ixd_name (all_indexes st))"
        using st by (simp add: structure_ok_def)
    qed (rule name_table)
  qed
  moreover have "\<forall>x \<in> set (all_indexes ?st'). index_name_ok x"
    unfolding idx using t(3) ok by (auto simp: tables_ok_def)
  moreover have "\<forall>(j, inf) \<in> set (cs_table_by_id ?st'). \<not> is_system_table j \<longrightarrow> unique_columns_ok inf"
    unfolding tabs using t(2) ok by (auto simp: tables_ok_def)
  ultimately show ?thesis
    unfolding tables_ok_def by blast
qed

lemma state_ok_new_table:
  fixes st :: catalog_state
  defines "i \<equiv> cs_next_table_id st" and "m \<equiv> cs_next_index_id st"
  assumes ok: "state_ok st" and name: "map_of (cs_table_id_by_name st) name = None"
    and s: "schema_create cols = Inr s" "\<forall>c \<in> set cols. type_wf (col_type c)"
    and ds: "new_columns (sch_columns s) i (cs_next_column_id st) INVALID_ID = Inr (ds, n', pk)"
    and d: "table_descriptor_create i name root = Inr d"
    and p: "index_descriptor_create m i (internal_primary_index_name i) root True True True pk = Inr p"
    and xs: "unique_indexes_for i ds (m + 1) m' xs"
  shows "state_ok (st\<lparr>cs_next_table_id := i + 1, cs_next_column_id := n', cs_next_index_id := m',
      cs_table_by_id := emplace i \<lparr>ti_table_descriptor = d, ti_columns = ds, ti_indexes = p # xs\<rparr> (cs_table_by_id st),
      cs_table_schema_by_id := emplace i s (cs_table_schema_by_id st),
      cs_table_id_by_name := emplace name i (cs_table_id_by_name st)\<rparr>)" (is "state_ok ?st'")
proof -
  have "tables_ok ?st'"
    using tables_ok_new_table[OF _ name s ds[unfolded i_def] d[unfolded i_def] p[unfolded i_def m_def]
        xs[unfolded i_def m_def]] ok
    by (simp add: state_ok_def i_def m_def)
  moreover have "map_of (cs_table_by_id ?st') j \<noteq> None" if "is_system_table j" for j
    using ok that by (auto simp: state_ok_def emplace_def)
  ultimately show ?thesis
    by (simp add: state_ok_def)
qed

section \<open>Outcomes of the operations\<close>

text \<open>
  A failed operation leaves the catalog, or has dropped the staged state after it rolled a transaction
  of its own back. A successful one satisfies \<open>K\<close>.
\<close>

definition unchanged :: "catalog \<Rightarrow> catalog \<Rightarrow> bool" where
  "unchanged c c' \<longleftrightarrow> c' = c \<or> c' = c\<lparr>cat_staged_state := None\<rparr>"

definition ends :: "catalog \<Rightarrow> ('w, 'a) db_run \<Rightarrow> (catalog \<Rightarrow> bool) \<Rightarrow> bool" where
  "ends c m K \<longleftrightarrow> (\<forall>p s' r. m (c, p) = Some (s', r) \<longrightarrow>
     (case r of Inl e \<Rightarrow> unchanged c (fst s') | Inr x \<Rightarrow> K (fst s')))"

lemma ends_bind:
  assumes "yields c m V" "\<And>x. V x \<Longrightarrow> ends c (f x) K"
  shows "ends c (bind_run m f) K"
  unfolding ends_def
proof (intro allI impI)
  fix p s' r
  assume run: "bind_run m f (c, p) = Some (s', r)"
  then obtain s1 r1 where m: "m (c, p) = Some (s1, r1)"
    by (auto simp: bind_run_def split: bind_splits)
  then have s1: "fst s1 = c" "\<And>x. r1 = Inr x \<Longrightarrow> V x"
    using assms(1) unfolding yields_def by blast+
  show "case r of Inl e \<Rightarrow> unchanged c (fst s') | Inr x \<Rightarrow> K (fst s')"
  proof (cases r1)
    case (Inl e)
    with run m s1 show ?thesis
      by (auto simp: bind_run_def unchanged_def)
  next
    case (Inr x)
    with run m s1 have "f x (c, snd s1) = Some (s', r)"
      by (auto simp: bind_run_def)
    with assms(2)[OF s1(2)[OF Inr]] show ?thesis
      unfolding ends_def by blast
  qed
qed

lemma ends_require: "(b \<Longrightarrow> ends c m K) \<Longrightarrow> ends c (require_that b e m) K"
  by (simp add: ends_def require_that_def stop_with_def unchanged_def)

lemma ends_stop: "ends c (stop_with e) K"
  by (simp add: ends_def stop_with_def unchanged_def)

lemma ends_modify: "K (f c) \<Longrightarrow> ends c (modify_catalog f) K"
  by (simp add: ends_def modify_catalog_def)

lemma mutation_failure_unchanged:
  assumes "handle_mutation_failure e own (c, p) = Some (s', r)"
  shows "unchanged c (fst s') \<and> (\<exists>e'. r = Inl e')"
proof (cases own)
  case True
  obtain s1 r1 where rb: "pager_call pager_rollback_transaction (c, p) = Some (s1, r1)" "fst s1 = c"
    by (cases "pager_rollback_transaction p") (auto simp: pager_call_def on_pager_def returns_def)
  then show ?thesis
    using assms True
    by (auto simp: handle_mutation_failure_def stop_with_def bind_run_def modify_catalog_def
        unchanged_def split: sum.splits)
next
  case False
  then show ?thesis
    using assms by (auto simp: handle_mutation_failure_def stop_with_def unchanged_def)
qed

lemma ends_mutation:
  assumes "yields c m V" "\<And>x. V x \<Longrightarrow> ends c (f x) K"
  shows "ends c (bind_run (or_mutation_failure own m) f) K"
  unfolding ends_def
proof (intro allI impI)
  fix p s' r
  assume run: "bind_run (or_mutation_failure own m) f (c, p) = Some (s', r)"
  then obtain s1 r1 where m: "m (c, p) = Some (s1, r1)"
    by (auto simp: bind_run_def or_mutation_failure_def split: bind_splits)
  then have s1: "fst s1 = c" "\<And>x. r1 = Inr x \<Longrightarrow> V x"
    using assms(1) unfolding yields_def by blast+
  show "case r of Inl e \<Rightarrow> unchanged c (fst s') | Inr x \<Rightarrow> K (fst s')"
  proof (cases r1)
    case (Inl e)
    with run m obtain s2 r2 where h: "handle_mutation_failure e own (c, snd s1) = Some (s2, r2)"
        "bind_run (\<lambda>_. Some (s2, r2)) f (c, p) = Some (s', r)"
      using s1(1) by (cases s1) (auto simp: bind_run_def or_mutation_failure_def split: bind_splits)
    then show ?thesis
      using mutation_failure_unchanged[OF h(1)] by (auto simp: bind_run_def)
  next
    case (Inr x)
    with run m s1 have "f x (c, snd s1) = Some (s', r)"
      by (auto simp: bind_run_def or_mutation_failure_def)
    with assms(2)[OF s1(2)[OF Inr]] show ?thesis
      unfolding ends_def by blast
  qed
qed

definition published :: "catalog \<Rightarrow> catalog_state \<Rightarrow> catalog \<Rightarrow> bool" where
  "published c st c' \<longleftrightarrow> c' = c\<lparr>cat_staged_state := Some st\<rparr> \<or> c' = c\<lparr>cat_committed_state := st\<rparr>"

lemma ends_publish:
  assumes "\<And>c'. published c st c' \<Longrightarrow> K c'"
  shows "ends c (publish os st own) K"
proof (cases own)
  case True
  show ?thesis
    unfolding publish_def using True assms
    by (auto intro!: ends_bind[OF yields_basic(2)] ends_modify simp: published_def)
next
  case False
  then show ?thesis
    unfolding publish_def using assms by (auto intro!: ends_modify simp: published_def)
qed

lemma visible_state_ok: "catalog_ok c \<Longrightarrow> state_ok (visible_state c)"
  by (auto simp: catalog_ok_def visible_state_def split: option.splits)

lemma published_ok: "catalog_ok c \<Longrightarrow> state_ok st \<Longrightarrow> published c st c' \<Longrightarrow> catalog_ok c'"
  by (auto simp: catalog_ok_def published_def)

text \<open>The storage parts compute a next state that is in order.\<close>

lemma yields_check_that: "(\<And>x. res = Inr x \<Longrightarrow> V x) \<Longrightarrow> yields c (check_that res) V"
  by (auto simp: yields_def check_that_def)

lemma yields_checked: "(\<And>x. res = Inr x \<Longrightarrow> yields c (f x) V) \<Longrightarrow> yields c (bind_run (check_that res) f) V"
  by (rule yields_bind[OF yields_basic(3)])

lemma yields_skip: "yields c m (\<lambda>_. True) \<Longrightarrow> (\<And>x. yields c (f x) V) \<Longrightarrow> yields c (bind_run m f) V"
  by (rule yields_bind)

lemma create_table_storage_yields:
  assumes "state_ok st" "map_of (cs_table_id_by_name st) name = None"
    and "schema_create cols = Inr s" "\<forall>c \<in> set cols. type_wf (col_type c)"
  shows "yields c (create_table_storage os name s tables columns indexes index_columns st) state_ok"
  unfolding create_table_storage_def Let_def
proof (intro yields_checked, unfold split_paired_all prod.case, rule yields_skip[OF yields_basic(2)], intro yields_checked)
  fix ds n' pk and tree :: btree and d p
  assume h: "new_columns (sch_columns s) (cs_next_table_id st) (cs_next_column_id st) INVALID_ID = Inr (ds, n', pk)"
    "table_descriptor_create (cs_next_table_id st) name (bt_root_page_id tree) = Inr d"
    "index_descriptor_create (cs_next_index_id st) (cs_next_table_id st)
      (internal_primary_index_name (cs_next_table_id st)) (bt_root_page_id tree) True True True pk = Inr p"
  note new = state_ok_new_table[OF assms h]
  show "yields c (bind_run (new_unique_indexes os s (cs_next_table_id st) ds (cs_next_index_id st + 1)) (\<lambda>(unique_indexes, next_index_id).
      bind_run (check_that (table_row (cs_next_table_id st) name (bt_root_page_id tree))) (\<lambda>row.
      bind_run (on_pager (insert_row os (fst tables) (snd tables) row)) (\<lambda>_.
      bind_run (for_all ds (insert_column_row os (fst columns) (snd columns))) (\<lambda>_.
      bind_run (for_all (p # unique_indexes) (insert_index_rows os (fst indexes) (snd indexes)
        (fst index_columns) (snd index_columns))) (\<lambda>_.
      done_with (st\<lparr>cs_next_table_id := cs_next_table_id st + 1, cs_next_column_id := n',
        cs_next_index_id := next_index_id,
        cs_table_by_id := emplace (cs_next_table_id st) \<lparr>ti_table_descriptor = d, ti_columns = ds,
          ti_indexes = p # unique_indexes\<rparr> (cs_table_by_id st),
        cs_table_schema_by_id := emplace (cs_next_table_id st) s (cs_table_schema_by_id st),
        cs_table_id_by_name := emplace name (cs_next_table_id st) (cs_table_id_by_name st)\<rparr>))))))) state_ok"
    by (rule yields_bind[OF yields_new_unique_indexes])
      (auto intro!: yields_checked yields_skip[OF yields_basic(1)] yields_skip[OF yields_for_all[OF yields_insert_rows(1)]]
        yields_skip[OF yields_for_all[OF yields_insert_rows(2)]] yields_done new simp del: for_all.simps)
qed

lemma create_index_storage_yields:
  assumes "state_ok st" "map_of (cs_table_by_id st) i = Some info" "\<not> has_reserved_catalog_prefix name"
    and "name \<notin> ixd_name ` set (all_indexes st)" "column_id \<in> cld_column_id ` set (ti_columns info)"
  shows "yields c (create_index_storage os i name column_id unique ks pks indexes index_columns st) state_ok"
  unfolding create_index_storage_def Let_def
  by (intro yields_skip[OF yields_basic(2)] yields_checked yields_skip[OF yields_insert_rows(2)] yields_require
      yields_done state_ok_new_index[OF assms(1,2) _ assms(3-5)]) assumption

lemma drop_index_storage_yields:
  assumes "state_ok st" "x \<in> set (all_indexes st)" "\<not> ixd_internal x"
  shows "yields c (drop_index_storage os x tree tree' st) state_ok"
  using state_ok_drop_index[OF assms] unfolding drop_index_storage_def
  by (auto intro!: yields_skip[OF yields_basic(1)] yields_require yields_done)

lemma drop_table_storage_yields:
  assumes "state_ok st" "\<not> is_system_table i"
  shows "yields c (drop_table_storage os i t1 t2 t3 t4 st) state_ok"
proof (cases "map_of (cs_table_by_id st) i")
  case None
  then show ?thesis
    by (simp add: drop_table_storage_def yields_basic)
next
  case (Some info)
  show ?thesis
    unfolding drop_table_storage_def Some option.case Let_def
    by (intro yields_skip[OF yields_for_all] yields_skip[OF yields_basic(1)] yields_basic(1) yields_done
        state_ok_drop_table[OF assms(1) Some assms(2)])
qed

end
