(* ===== verification/CatalogProperties.thy ===== *)
theory CatalogProperties
  imports CatalogInvariant
begin

text \<open>
  The catalog as a state machine: every sequence of operations on it, with any changes of the pager
  and the files between them, keeps the invariant; a failed operation publishes nothing.
\<close>

section \<open>Operations\<close>

datatype catalog_operation =
    CreateTable string schema
  | CreateIndex table_id string column_id bool
  | DropIndex string
  | DropTable string
  | TransactionCommitted
  | TransactionRolledBack

fun run_operation :: "'w win32 \<Rightarrow> catalog_operation \<Rightarrow> ('w, unit) db_run" where
  "run_operation os (CreateTable name s) = create_table os name s"
| "run_operation os (CreateIndex i name column_id unique) = create_index os i name column_id unique"
| "run_operation os (DropIndex name) = drop_index os name"
| "run_operation os (DropTable name) = drop_table os name"
| "run_operation os TransactionCommitted = on_transaction_committed"
| "run_operation os TransactionRolledBack = on_transaction_rolled_back"

text \<open>A caller builds the schema of a new table with \<open>Schema::create\<close>.\<close>

fun operation_ok :: "catalog_operation \<Rightarrow> bool" where
  "operation_ok (CreateTable name s) = (\<exists>cols. schema_create cols = Inr s \<and> (\<forall>c \<in> set cols. type_wf (col_type c)))"
| "operation_ok _ = True"

lemma find_table_None:
  assumes "structure_ok (visible_state c)" "find_table c name = None"
  shows "map_of (cs_table_id_by_name (visible_state c)) name = None"
proof (rule ccontr)
  assume "map_of (cs_table_id_by_name (visible_state c)) name \<noteq> None"
  then obtain i where i: "map_of (cs_table_id_by_name (visible_state c)) name = Some i"
    by blast
  with structure_okD(3)[OF assms(1)] assms(2) show False
    by (fastforce simp: find_table_def find_table_by_id_def)
qed

lemma find_table_Some:
  assumes "structure_ok (visible_state c)" "find_table c name = Some d"
  obtains info where "map_of (cs_table_by_id (visible_state c)) (td_table_id d) = Some info"
    "ti_table_descriptor info = d" "td_name d = name"
proof -
  obtain i where i: "map_of (cs_table_id_by_name (visible_state c)) name = Some i" "find_table_by_id c i = Some d"
    using assms(2) by (auto simp: find_table_def split: option.splits)
  then obtain info where info: "map_of (cs_table_by_id (visible_state c)) i = Some info" "ti_table_descriptor info = d"
    by (auto simp: find_table_by_id_def)
  have "table_ok (visible_state c) i info"
    by (rule structure_okD(2)[OF assms(1) info(1)])
  then have "td_table_id d = i"
    using info(2) by (simp add: table_ok_def)
  moreover have "td_name d = name"
    using structure_okD(3)[OF assms(1) i(1)] info by auto
  ultimately show ?thesis
    using info that by blast
qed

lemma find_index_None: "find_index c name = None \<longleftrightarrow> name \<notin> ixd_name ` set (all_indexes (visible_state c))"
  by (auto simp: find_index_def find_None_iff)

lemma find_index_Some: "find_index c name = Some x \<Longrightarrow> x \<in> set (all_indexes (visible_state c)) \<and> ixd_name x = name"
  by (auto simp: find_index_def find_Some_iff)

lemma check_new_index_facts:
  assumes "check_new_index c i name column_id unique = Inr sizes"
  shows "\<exists>info. map_of (cs_table_by_id (visible_state c)) i = Some info \<and> \<not> is_system_table i \<and>
    \<not> has_reserved_catalog_prefix name \<and> name \<notin> ixd_name ` set (all_indexes (visible_state c)) \<and>
    column_id \<in> cld_column_id ` set (ti_columns info)"
proof -
  obtain info column where h: "map_of (cs_table_by_id (visible_state c)) i = Some info" "\<not> is_system_table i"
      "find (\<lambda>column. cld_column_id column = column_id) (rev (ti_columns info)) = Some column"
      "\<not> has_reserved_catalog_prefix name" "find_index c name = None"
    using assms by (auto simp: check_new_index_def result_iffs Let_def split: option.splits)
  have "column \<in> set (ti_columns info)" "cld_column_id column = column_id"
    using h(3) by (auto simp: find_Some_iff) (metis nth_mem set_rev length_rev)
  with h show ?thesis
    by (auto simp: find_index_None)
qed

lemma ends_store:
  assumes "catalog_ok c" "yields c m state_ok"
  shows "ends c (bind_run (or_mutation_failure own m) (\<lambda>st. publish os st own)) catalog_ok"
  by (rule ends_mutation[OF assms(2)]) (rule ends_publish, rule published_ok[OF assms(1)])

lemma operation_ends:
  assumes c: "catalog_ok c" and op: "operation_ok op"
  shows "ends c (run_operation os op) catalog_ok"
proof -
  have st: "state_ok (visible_state c)" "structure_ok (visible_state c)"
    using visible_state_ok[OF c] by (simp_all add: state_ok_iff)
  note rules = ends_require ends_bind[OF yields_basic(3)] ends_bind[OF yields_basic(4)] ends_bind[OF yields_open]
    ends_bind[OF yields_begin] ends_store[OF c] ends_stop
  show ?thesis
  proof (cases op)
    case (CreateTable name s)
    then obtain cols where cols: "schema_create cols = Inr s" "\<forall>c \<in> set cols. type_wf (col_type c)"
      using op by auto
    show ?thesis
      unfolding CreateTable run_operation.simps create_table_def
      by (intro rules) (auto intro: create_table_storage_yields[OF st(1) find_table_None[OF st(2)] cols])
  next
    case (CreateIndex i name column_id unique)
    show ?thesis
      unfolding CreateIndex run_operation.simps create_index_def
    proof (intro rules, unfold split_paired_all prod.case, intro rules)
      fix x ks pks s1 s2 t1 t2 own state
      assume "x = check_new_index c i name column_id unique" "x = Inr (ks, pks)" "state = visible_state c"
      then obtain info where info: "map_of (cs_table_by_id state) i = Some info" "\<not> has_reserved_catalog_prefix name"
          "name \<notin> ixd_name ` set (all_indexes state)" "column_id \<in> cld_column_id ` set (ti_columns info)"
        using check_new_index_facts by metis
      show "yields c (create_index_storage os i name column_id unique ks pks (t1, s1) (t2, s2) state) state_ok"
        using create_index_storage_yields[OF _ info] st(1) \<open>state = visible_state c\<close> by simp
    qed
  next
    case (DropIndex name)
    show ?thesis
    proof (cases "find_index c name")
      case None
      show ?thesis
        unfolding DropIndex run_operation.simps drop_index_def
        by (rule ends_bind[OF yields_basic(4)]) (simp add: None ends_stop)
    next
      case (Some x)
      have x: "x \<in> set (all_indexes (visible_state c))"
        using find_index_Some[OF Some] by blast
      show ?thesis
        unfolding DropIndex run_operation.simps drop_index_def
        by (rule ends_bind[OF yields_basic(4)], simp add: Some, intro rules)
          (auto intro: drop_index_storage_yields[OF st(1) x])
    qed
  next
    case (DropTable name)
    show ?thesis
    proof (cases "find_table c name")
      case None
      show ?thesis
        unfolding DropTable run_operation.simps drop_table_def Let_def
        by (rule ends_bind[OF yields_basic(4)]) (simp add: None ends_stop)
    next
      case (Some d)
      show ?thesis
        unfolding DropTable run_operation.simps drop_table_def Let_def
        by (rule ends_bind[OF yields_basic(4)], simp add: Some, intro rules)
          (auto intro: drop_table_storage_yields[OF st(1)])
    qed
  next
    case TransactionCommitted
    show ?thesis
      unfolding TransactionCommitted run_operation.simps on_transaction_committed_def
      using c by (auto intro!: ends_bind[OF yields_basic(2)] ends_require ends_modify
          simp: catalog_ok_def split: option.splits)
  next
    case TransactionRolledBack
    show ?thesis
      unfolding TransactionRolledBack run_operation.simps on_transaction_rolled_back_def
      using c by (auto intro!: ends_bind[OF yields_basic(2)] ends_require ends_modify simp: catalog_ok_def)
  qed
qed

text \<open>What a catalog can become by operations, each started in any state of the pager and the files.\<close>

inductive catalog_reaches :: "'w win32 \<Rightarrow> catalog \<Rightarrow> catalog \<Rightarrow> bool" for os :: "'w win32" where
  reaches_refl: "catalog_reaches os c c"
| reaches_step: "catalog_reaches os c c1 \<Longrightarrow> operation_ok op \<Longrightarrow> run_operation os op (c1, p) = Some ((c2, p'), r) \<Longrightarrow>
    catalog_reaches os c c2"

inductive_cases reaches_cases: "catalog_reaches os c c'"

lemma unchanged_ok: "catalog_ok c \<Longrightarrow> unchanged c c' \<Longrightarrow> catalog_ok c'"
  by (auto simp: unchanged_def catalog_ok_def)

lemma operation_keeps_ok:
  assumes "catalog_ok c" "operation_ok op" "run_operation os op (c, p) = Some ((c', p'), r)"
  shows "catalog_ok c'"
  using operation_ends[OF assms(1,2), of os] assms(3) unchanged_ok[OF assms(1)]
  unfolding ends_def by (fastforce split: sum.splits)

section \<open>The catalog of a new database\<close>

text \<open>The state that \<open>initialize\<close> writes, with the system tables on the pages 1 to 4.\<close>

definition system_info :: "table_id \<Rightarrow> string \<Rightarrow> schema result \<Rightarrow> column_id \<Rightarrow> table_id \<times> table_info" where
  "system_info i name s n =
     (let ds = fst (projr (new_columns (sch_columns (projr s)) i n INVALID_ID)) in
      (i, \<lparr>ti_table_descriptor = \<lparr>td_table_id = i, td_name = name, td_root_page_id = i\<rparr>, ti_columns = ds,
        ti_indexes = [\<lparr>ixd_index_id = i, ixd_table_id = i, ixd_name = internal_primary_index_name i,
          ixd_root_page_id = i, ixd_unique = True, ixd_primary = True, ixd_internal = True,
          ixd_indexed_column_id = cld_column_id (ds ! 0)\<rparr>]\<rparr>))"

definition system_tables :: "(table_id \<times> table_info) list" where
  "system_tables = [system_info 1 DANDB_TABLES_NAME tables_schema 1, system_info 2 DANDB_COLUMNS_NAME columns_schema 4,
     system_info 3 DANDB_INDEXES_NAME indexes_schema 13, system_info 4 DANDB_INDEX_COLUMNS_NAME index_columns_schema 20]"

definition system_schemas :: "(table_id \<times> schema) list" where
  "system_schemas = [(1, projr tables_schema), (2, projr columns_schema), (3, projr indexes_schema),
     (4, projr index_columns_schema)]"

definition system_names :: "(string \<times> table_id) list" where
  "system_names = [(DANDB_TABLES_NAME, 1), (DANDB_COLUMNS_NAME, 2), (DANDB_INDEXES_NAME, 3), (DANDB_INDEX_COLUMNS_NAME, 4)]"

definition system_state :: catalog_state where
  "system_state = \<lparr>cs_next_table_id = 5, cs_next_column_id = 23, cs_next_index_id = 5, cs_table_by_id = system_tables,
     cs_table_schema_by_id = system_schemas, cs_table_id_by_name = system_names\<rparr>"

text \<open>What \<open>table_ok\<close> says of a system table, as a test.\<close>

definition system_table_check :: "table_id \<times> table_info \<Rightarrow> bool" where
  "system_table_check entry = (case entry of (i, info) \<Rightarrow>
     td_table_id (ti_table_descriptor info) = i \<and> i < 5 \<and>
     map_of system_names (td_name (ti_table_descriptor info)) = Some i \<and>
     list_all (\<lambda>c. cld_table_id c = i \<and> cld_column_id c < 23) (ti_columns info) \<and>
     (case ti_indexes info of
        [x] \<Rightarrow> ixd_table_id x = i \<and> ixd_index_id x < 5 \<and> ixd_primary x \<and> ixd_unique x \<and> ixd_internal x \<and>
          index_name_ok x \<and> ixd_root_page_id x = td_root_page_id (ti_table_descriptor info) \<and>
          ixd_indexed_column_id x \<in> cld_column_id ` set (ti_columns info) \<and>
          (case map_of system_schemas i of None \<Rightarrow> False | Some s \<Rightarrow>
             ixd_indexed_column_id x = cld_column_id (ti_columns info ! sch_primary_key_ordinal s) \<and>
             map column_of (ti_columns info) = map schema_column_of (sch_columns s))
      | _ \<Rightarrow> False))"

lemma system_checks:
  "list_all system_table_check system_tables"
  "map fst system_tables = [1, 2, 3, 4]" "map fst system_schemas = [1, 2, 3, 4]"
  "list_all (\<lambda>(name, i). case map_of system_tables i of None \<Rightarrow> False
     | Some info \<Rightarrow> td_name (ti_table_descriptor info) = name) system_names"
  "distinct (map cld_column_id (concat (map (\<lambda>(i, info). ti_columns info) system_tables)))"
  "distinct (map ixd_index_id (concat (map (\<lambda>(i, info). ti_indexes info) system_tables)))"
  "distinct (map ixd_name (concat (map (\<lambda>(i, info). ti_indexes info) system_tables)))"
  by code_simp+

lemma system_schema_columns:
  assumes "r \<in> {tables_schema, columns_schema, indexes_schema, index_columns_schema}"
  shows "\<exists>cols. r = schema_create cols \<and> (\<forall>c \<in> set cols. type_wf (col_type c))"
proof -
  note defs = append_column_def column_create_def string_type_def CATALOG_NAME_CAPACITY_def can_be_indexed_def
    plain_type_def ensure_def
  consider "r = tables_schema" | "r = columns_schema" | "r = indexes_schema" | "r = index_columns_schema"
    using assms by auto
  then show ?thesis
  proof cases
    case 1
    show ?thesis
      unfolding 1 tables_schema_def by (simp add: defs, rule exI, rule conjI, rule refl) (simp add: type_wf_def)
  next
    case 2
    show ?thesis
      unfolding 2 columns_schema_def by (simp add: defs, rule exI, rule conjI, rule refl) (simp add: type_wf_def)
  next
    case 3
    show ?thesis
      unfolding 3 indexes_schema_def by (simp add: defs, rule exI, rule conjI, rule refl) (simp add: type_wf_def)
  next
    case 4
    show ?thesis
      unfolding 4 index_columns_schema_def by (simp add: defs, rule exI, rule conjI, rule refl) (simp add: type_wf_def)
  qed
qed

lemma system_schemas_created:
  assumes "(i, s) \<in> set system_schemas"
  shows "\<exists>cols. schema_create cols = Inr s \<and> (\<forall>c \<in> set cols. type_wf (col_type c))"
proof -
  have "isl tables_schema = False" "isl columns_schema = False" "isl indexes_schema = False" "isl index_columns_schema = False"
    by code_simp+
  then have "r = Inr (projr r)" if "r \<in> {tables_schema, columns_schema, indexes_schema, index_columns_schema}" for r
    using that by (auto simp: sum.collapse(2))
  with system_schema_columns assms show ?thesis
    by (auto simp: system_schemas_def) metis+
qed

lemma system_table_ok:
  assumes "(i, info) \<in> set system_tables"
  shows "table_ok system_state i info"
proof -
  have check: "system_table_check (i, info)"
    using system_checks(1) assms by (auto simp: list_all_iff)
  obtain x where x: "ti_indexes info = [x]"
    using check by (auto simp: system_table_check_def split: list.splits)
  obtain s where s: "map_of system_schemas i = Some s"
    using check by (auto simp: system_table_check_def x split: option.splits)
  from system_schemas_created[OF map_of_SomeD[OF s]] check show ?thesis
    by (auto simp: system_table_check_def x s table_ok_def described_by_def system_state_def list_all_iff)
qed

lemma system_state_ok: "state_ok system_state"
proof -
  have dom: "map_of system_tables i = None \<longleftrightarrow> map_of system_schemas i = None" for i
    using system_checks(2,3) unfolding map_of_eq_None_iff by (metis list.set_map)
  have names: "\<exists>info. map_of system_tables i = Some info \<and> td_name (ti_table_descriptor info) = name"
    if "map_of system_names name = Some i" for name i
    using system_checks(4) map_of_SomeD[OF that] by (auto simp: list_all_iff split: option.splits)
  have "structure_ok system_state"
    using system_table_ok dom names system_checks(2,5-7)
    by (auto simp: structure_ok_def system_state_def all_columns_def all_indexes_def)
  moreover have "\<forall>x \<in> set (all_indexes system_state). index_name_ok x"
  proof
    fix x assume "x \<in> set (all_indexes system_state)"
    then obtain i info where info: "(i, info) \<in> set system_tables" "x \<in> set (ti_indexes info)"
      by (auto simp: all_indexes_def system_state_def)
    then have "system_table_check (i, info)"
      using system_checks(1) by (auto simp: list_all_iff)
    with info(2) show "index_name_ok x"
      by (auto simp: system_table_check_def split: list.splits)
  qed
  moreover have "map_of system_tables i \<noteq> None \<longleftrightarrow> is_system_table i" for i
  proof -
    have "fst ` set system_tables = {1, 2, 3, 4}"
      unfolding list.set_map[symmetric] system_checks(2) by simp
    then show ?thesis
      by (simp add: map_of_eq_None_iff is_system_table_def DANDB_TABLES_ID_def DANDB_COLUMNS_ID_def
          DANDB_INDEXES_ID_def DANDB_INDEX_COLUMNS_ID_def del: not_None_eq)
  qed
  then have "map_of system_tables i \<noteq> None" if "is_system_table i" for i
    using that by blast
  moreover have "is_system_table i" if "(i, info) \<in> set system_tables" for i info
    using that \<open>\<And>i. map_of system_tables i \<noteq> None \<longleftrightarrow> is_system_table i\<close> weak_map_of_SomeI by fastforce
  ultimately show ?thesis
    unfolding state_ok_iff system_state_def catalog_state.select_convs by blast
qed

section \<open>Properties\<close>

text \<open>
  C9. Every sequence of operations on the catalog (creating and dropping tables and indexes, in
  transactions of their own or of the caller, the ends of those, failures of any of them), with the
  pager and the files in any state between them, keeps the catalog well-formed: table, column and
  index ids and index names are unique and below the counters, table names and ids correspond, each
  table has exactly one primary index, on the tree of the table and on its primary key column, its
  column descriptors agree with its schema, each unique column of a user table has an internal
  unique index, the reserved prefix marks exactly the internal indexes, and the four system tables
  stay. The catalog of a new database is well-formed.
\<close>

theorem catalog_invariant:
  assumes "catalog_reaches os c c'" "catalog_ok c \<or> c = catalog_new system_tables system_schemas system_names"
  shows "catalog_ok c'"
proof -
  have "catalog_new system_tables system_schemas system_names = \<lparr>cat_committed_state = system_state, cat_staged_state = None\<rparr>"
    unfolding system_state_def by code_simp
  then have "catalog_ok c"
    using assms(2) system_state_ok by (auto simp: catalog_ok_def)
  with assms(1) show ?thesis
    by (induction) (auto intro: operation_keeps_ok)
qed

definition small_catalog :: catalog where
  "small_catalog = \<lparr>cat_committed_state = system_state, cat_staged_state = None\<rparr>"

definition small_world :: "mem_files pager \<times> mem_files" where
  "small_world = (pager_new \<lparr>lk_path = ''db'', lk_locked = True\<rparr>
     \<lparr>dm_file = \<lparr>fh_path = ''db'', fh_open = True, fh_injector = None\<rparr>\<rparr>
     \<lparr>wm_file = \<lparr>fh_path = ''wal'', fh_open = True, fh_injector = None\<rparr>, wm_append_offset = 64, wm_database_id = 7\<rparr>
     (pool_new 2) ''db'' (database_header_create_new 7) [], \<lparr>mf_files = Map.empty, mf_calls = 0\<rparr>)"

lemma small_catalog_ok: "catalog_ok small_catalog"
  using system_state_ok by (simp add: small_catalog_def catalog_ok_def)

lemma small_commit:
  "run_operation os TransactionCommitted (small_catalog\<lparr>cat_staged_state := Some system_state\<rparr>, small_world) =
    Some ((small_catalog, small_world), Ok)"
  by (simp add: small_world_def small_catalog_def on_transaction_committed_def bind_run_def pager_call_def on_pager_def
      returns_def get_pager_def require_that_def modify_catalog_def pager_new_def tx_clear_def tx_in_transaction_def)

theorem catalog_invariant_witness:
  "\<exists>c'. catalog_reaches (mem_os Map.empty) (small_catalog\<lparr>cat_staged_state := Some system_state\<rparr>) c' \<and>
    cat_staged_state c' = None \<and> catalog_ok c'"
proof -
  have reach: "catalog_reaches (mem_os Map.empty) (small_catalog\<lparr>cat_staged_state := Some system_state\<rparr>) small_catalog"
    by (rule reaches_step[OF reaches_refl _ small_commit]) simp
  moreover have "catalog_ok (small_catalog\<lparr>cat_staged_state := Some system_state\<rparr>)"
    using system_state_ok by (simp add: small_catalog_def catalog_ok_def)
  ultimately show ?thesis
    using catalog_invariant[OF reach] by (auto simp: small_catalog_def)
qed

text \<open>
  C10. An operation on the catalog that fails publishes nothing: the committed state is the old one,
  and the staged state of a transaction is the old one or, when the operation rolled back a
  transaction of its own, discarded.
\<close>

theorem failed_operation_publishes_nothing:
  assumes "catalog_ok c" "operation_ok op" "run_operation os op (c, p) = Some ((c', p'), Inl e)"
  shows "cat_committed_state c' = cat_committed_state c \<and>
    (cat_staged_state c' = cat_staged_state c \<or> cat_staged_state c' = None)"
  using operation_ends[OF assms(1,2), of os] assms(3) unfolding ends_def unchanged_def by fastforce

theorem failed_operation_publishes_nothing_witness:
  "\<exists>c' p'. run_operation (mem_os Map.empty) (DropTable ''t'') (small_catalog, small_world) = Some ((c', p'), Inl NotFound) \<and>
    cat_committed_state c' = system_state"
proof -
  have "find_table small_catalog ''t'' = None"
    unfolding small_catalog_def find_table_def visible_state_def system_state_def by code_simp
  then have run: "run_operation (mem_os Map.empty) (DropTable ''t'') (small_catalog, small_world) =
      Some ((small_catalog, small_world), Inl NotFound)"
    by (simp add: drop_table_def bind_run_def get_catalog_def stop_with_def)
  from failed_operation_publishes_nothing[OF small_catalog_ok _ run] run show ?thesis
    by (simp add: small_catalog_def)
qed

end
