(* ===== verification/SqlBinder.thy ===== *)
theory SqlBinder
  imports SqlAst CatalogState
begin

text \<open>
  \<^verbatim>\<open>sql/Binder.cpp\<close>: the names of a statement are looked up in the catalog; the result refers to
  tables and columns by id and ordinal. The binder only reads the catalog, so it is a pure function.
\<close>

section \<open>Bound statements\<close>

record bound_column =
  bc_column_id :: column_id
  bc_ordinal :: nat

record bound_predicate =
  bp_column :: bound_column
  bp_comparison_operator :: comparison_operator
  bp_literal :: "literal_value option"

record bound_assignment =
  ba_column :: bound_column
  ba_value :: literal_value

record bound_select_statement =
  bse_table_id :: table_id
  bse_projection :: "bound_column list"
  bse_predicate :: "bound_predicate option"

record bound_insert_statement =
  bin_table_id :: table_id
  bin_values :: "literal_value list"

record bound_update_statement =
  bup_table_id :: table_id
  bup_assignment :: bound_assignment
  bup_predicate :: "bound_predicate option"

record bound_delete_statement =
  bde_table_id :: table_id
  bde_predicate :: "bound_predicate option"

record bound_create_index_statement =
  bci_index_name :: string
  bci_table_id :: table_id
  bci_indexed_column :: bound_column
  bci_unique :: bool

record bound_drop_table_statement =
  bdt_table_id :: table_id
  bdt_table_name :: string

datatype bound_statement =
    BoundCreateTable create_table_statement
  | BoundDropTable bound_drop_table_statement
  | BoundCreateIndex bound_create_index_statement
  | BoundDropIndex drop_index_statement
  | BoundInsert bound_insert_statement
  | BoundSelect bound_select_statement
  | BoundUpdate bound_update_statement
  | BoundDelete bound_delete_statement
  | BoundBegin source_location
  | BoundCommit source_location
  | BoundRollback source_location
  | BoundCheckpoint source_location

section \<open>Names\<close>

definition bind_table :: "catalog \<Rightarrow> sql_identifier \<Rightarrow> table_id result" where
  "bind_table cat table_name =
     (case find_table cat (id_text table_name) of
        None \<Rightarrow> Inl NotFound
      | Some table \<Rightarrow> Inr (td_table_id table))"

definition bind_column :: "catalog \<Rightarrow> table_id \<Rightarrow> sql_identifier \<Rightarrow> bound_column result" where
  "bind_column cat table_id column_name =
     (case find_column cat table_id (id_text column_name) of
        None \<Rightarrow> Inl NotFound
      | Some column \<Rightarrow> Inr \<lparr>bc_column_id = cld_column_id column, bc_ordinal = cld_ordinal column\<rparr>)"

fun bind_columns :: "catalog \<Rightarrow> table_id \<Rightarrow> sql_identifier list \<Rightarrow> bound_column list result" where
  "bind_columns cat table_id [] = Inr []"
| "bind_columns cat table_id (name # names) =
     bind_result (bind_column cat table_id name) (\<lambda>column.
     bind_result (bind_columns cat table_id names) (\<lambda>columns. Inr (column # columns)))"

definition bind_projection :: "catalog \<Rightarrow> table_id \<Rightarrow> select_projection \<Rightarrow> bound_column list result" where
  "bind_projection cat table_id projection =
     (case projection of
        SelectAll location \<Rightarrow>
          (case schema_for_table cat table_id of
             None \<Rightarrow> Inl InternalError
           | Some s \<Rightarrow> bind_columns cat table_id
               (map (\<lambda>c. \<lparr>id_text = col_name c, id_location = location\<rparr>) (sch_columns s)))
      | SelectColumns columns location \<Rightarrow> bind_columns cat table_id columns)"

definition bind_predicate :: "catalog \<Rightarrow> table_id \<Rightarrow> predicate \<Rightarrow> bound_predicate result" where
  "bind_predicate cat table_id p =
     bind_result (bind_column cat table_id (pd_column_name p)) (\<lambda>column.
     Inr \<lparr>bp_column = column, bp_comparison_operator = pd_operator p,
       bp_literal = map_option le_value (pd_literal p)\<rparr>)"

definition bind_optional_predicate ::
    "catalog \<Rightarrow> table_id \<Rightarrow> predicate option \<Rightarrow> bound_predicate option result" where
  "bind_optional_predicate cat table_id p =
     (case p of
        None \<Rightarrow> Inr None
      | Some p \<Rightarrow> bind_result (bind_predicate cat table_id p) (\<lambda>bound. Inr (Some bound)))"

definition bind_assignment :: "catalog \<Rightarrow> table_id \<Rightarrow> assignment \<Rightarrow> bound_assignment result" where
  "bind_assignment cat table_id a =
     bind_result (bind_column cat table_id (as_column_name a)) (\<lambda>column.
     (case schema_for_table cat table_id of
        None \<Rightarrow> Inl InternalError
      | Some s \<Rightarrow>
          ensure (bc_ordinal column \<noteq> sch_primary_key_ordinal s) InvalidArgument
            (Inr \<lparr>ba_column = column, ba_value = le_value (as_value a)\<rparr>)))"

definition validate_non_system_table :: "table_id \<Rightarrow> status" where
  "validate_non_system_table table_id = ensure (\<not> is_system_table table_id) InvalidArgument Ok"

section \<open>Statements\<close>

definition bind_select_statement :: "catalog \<Rightarrow> select_statement \<Rightarrow> bound_select_statement result" where
  "bind_select_statement cat st =
     bind_result (bind_table cat (sel_table_name st)) (\<lambda>table_id.
     bind_result (bind_projection cat table_id (sel_projection st)) (\<lambda>projection.
     bind_result (bind_optional_predicate cat table_id (sel_predicate st)) (\<lambda>p.
     Inr \<lparr>bse_table_id = table_id, bse_projection = projection, bse_predicate = p\<rparr>)))"

definition bind_insert_statement :: "catalog \<Rightarrow> insert_statement \<Rightarrow> bound_insert_statement result" where
  "bind_insert_statement cat st =
     bind_result (bind_table cat (ins_table_name st)) (\<lambda>table_id.
     bind_result (validate_non_system_table table_id) (\<lambda>_.
     (let values = map le_value (ins_values st) in
      case schema_for_table cat table_id of
        None \<Rightarrow> Inl InternalError
      | Some s \<Rightarrow>
          ensure (\<not> length values \<noteq> length (sch_columns s)) InvalidArgument
            (Inr \<lparr>bin_table_id = table_id, bin_values = values\<rparr>))))"

definition bind_update_statement :: "catalog \<Rightarrow> update_statement \<Rightarrow> bound_update_statement result" where
  "bind_update_statement cat st =
     bind_result (bind_table cat (upd_table_name st)) (\<lambda>table_id.
     bind_result (validate_non_system_table table_id) (\<lambda>_.
     bind_result (bind_assignment cat table_id (upd_assignment st)) (\<lambda>assignment.
     bind_result (bind_optional_predicate cat table_id (upd_predicate st)) (\<lambda>p.
     Inr \<lparr>bup_table_id = table_id, bup_assignment = assignment, bup_predicate = p\<rparr>))))"

definition bind_delete_statement :: "catalog \<Rightarrow> delete_statement \<Rightarrow> bound_delete_statement result" where
  "bind_delete_statement cat st =
     bind_result (bind_table cat (del_table_name st)) (\<lambda>table_id.
     bind_result (validate_non_system_table table_id) (\<lambda>_.
     bind_result (bind_optional_predicate cat table_id (del_predicate st)) (\<lambda>p.
     Inr \<lparr>bde_table_id = table_id, bde_predicate = p\<rparr>)))"

definition bind_create_index_statement ::
    "catalog \<Rightarrow> create_index_statement \<Rightarrow> bound_create_index_statement result" where
  "bind_create_index_statement cat st =
     bind_result (bind_table cat (cri_table_name st)) (\<lambda>table_id.
     bind_result (validate_non_system_table table_id) (\<lambda>_.
     bind_result (bind_column cat table_id (cri_column_name st)) (\<lambda>column.
     Inr \<lparr>bci_index_name = id_text (cri_index_name st), bci_table_id = table_id,
       bci_indexed_column = column, bci_unique = cri_unique st\<rparr>)))"

definition bind_drop_table_statement ::
    "catalog \<Rightarrow> drop_table_statement \<Rightarrow> bound_drop_table_statement result" where
  "bind_drop_table_statement cat st =
     bind_result (bind_table cat (drt_table_name st)) (\<lambda>table_id.
     bind_result (validate_non_system_table table_id) (\<lambda>_.
     Inr \<lparr>bdt_table_id = table_id, bdt_table_name = id_text (drt_table_name st)\<rparr>))"

fun bind :: "catalog \<Rightarrow> statement \<Rightarrow> bound_statement result" where
  "bind cat (SelectStatement st) = map_sum id BoundSelect (bind_select_statement cat st)"
| "bind cat (InsertStatement st) = map_sum id BoundInsert (bind_insert_statement cat st)"
| "bind cat (UpdateStatement st) = map_sum id BoundUpdate (bind_update_statement cat st)"
| "bind cat (DeleteStatement st) = map_sum id BoundDelete (bind_delete_statement cat st)"
| "bind cat (CreateIndexStatement st) = map_sum id BoundCreateIndex (bind_create_index_statement cat st)"
| "bind cat (DropTableStatement st) = map_sum id BoundDropTable (bind_drop_table_statement cat st)"
| "bind cat (CreateTableStatement st) = Inr (BoundCreateTable st)"
| "bind cat (DropIndexStatement st) = Inr (BoundDropIndex st)"
| "bind cat (BeginStatement location) = Inr (BoundBegin location)"
| "bind cat (CommitStatement location) = Inr (BoundCommit location)"
| "bind cat (RollbackStatement location) = Inr (BoundRollback location)"
| "bind cat (CheckpointStatement location) = Inr (BoundCheckpoint location)"

end
