(* ===== verification/Predicates.thy ===== *)
theory Predicates
  imports SqlBinder BTree
begin

text \<open>
  The first part of \<^verbatim>\<open>execution/Database.cpp\<close>: the state of a \<open>WHERE\<close> predicate, its evaluation on
  a row, the choice of an access path, and the ranges of keys that an access path scans.
\<close>

section \<open>Predicate state and access paths\<close>

datatype predicate_state =
    Absent
  | Impossible
  | NullTest bound_predicate
  | Comparison bound_predicate db_value

datatype access_path =
    FullTableScanPath
  | PrimaryKeyRangePath
  | SecondaryIndexRangePath index_descriptor

definition plan_access_path :: "schema \<Rightarrow> index_descriptor list \<Rightarrow> predicate_state \<Rightarrow> access_path" where
  "plan_access_path s index_descriptors state =
     (case state of
        Comparison p v \<Rightarrow>
          if bc_ordinal (bp_column p) = sch_primary_key_ordinal s then PrimaryKeyRangePath
          else (case find (\<lambda>index. \<not> ixd_primary index \<and>
                    ixd_indexed_column_id index = bc_column_id (bp_column p)) index_descriptors of
                  None \<Rightarrow> FullTableScanPath
                | Some index \<Rightarrow> SecondaryIndexRangePath index)
      | _ \<Rightarrow> FullTableScanPath)"

section \<open>Comparing values\<close>

text \<open>
  The order of \<open>double\<close> on the 64 bits of its representation: no comparison with a NaN holds, and the
  two zeros are equal.
\<close>

definition float_magnitude :: "float64 \<Rightarrow> int" where
  "float_magnitude d = uint d mod 2 ^ 63"

definition float_is_nan :: "float64 \<Rightarrow> bool" where
  "float_is_nan d \<longleftrightarrow> float_magnitude d > 2047 * 2 ^ 52"

definition float_rank :: "float64 \<Rightarrow> int" where
  "float_rank d = (if uint d < 2 ^ 63 then float_magnitude d else - float_magnitude d)"

definition float_less :: "float64 \<Rightarrow> float64 \<Rightarrow> bool" where
  "float_less a b \<longleftrightarrow> \<not> float_is_nan a \<and> \<not> float_is_nan b \<and> float_rank a < float_rank b"

text \<open>\<open>operator<\<close> of \<open>std::string\<close> compares the characters as unsigned bytes.\<close>

fun string_less :: "string \<Rightarrow> string \<Rightarrow> bool" where
  "string_less xs [] = False"
| "string_less [] (y # ys) = True"
| "string_less (x # xs) (y # ys) =
     ((of_char x :: nat) < of_char y \<or> x = y \<and> string_less xs ys)"

definition three_way :: "bool \<Rightarrow> bool \<Rightarrow> int" where
  "three_way lt gt = (if lt then - 1 else if gt then 1 else 0)"

definition compare_values :: "db_value \<Rightarrow> db_value \<Rightarrow> int result" where
  "compare_values left right =
     ensure (lt_kind (val_type left) = lt_kind (val_type right)) InternalError
       (Inr (case lt_kind (val_type left) of
          Float64 \<Rightarrow> three_way (float_less (as_float64 left) (as_float64 right))
            (float_less (as_float64 right) (as_float64 left))
        | String \<Rightarrow> three_way (string_less (as_string left) (as_string right))
            (string_less (as_string right) (as_string left))
        | Boolean \<Rightarrow> if as_boolean left = as_boolean right then 0 else if as_boolean left then 1 else - 1
        | _ \<Rightarrow> three_way (sint (as_integer left) < sint (as_integer right))
            (sint (as_integer left) > sint (as_integer right))))"

fun comparison_matches :: "int \<Rightarrow> comparison_operator \<Rightarrow> bool" where
  "comparison_matches c OpEqual = (c = 0)"
| "comparison_matches c OpNotEqual = (c \<noteq> 0)"
| "comparison_matches c OpLess = (c < 0)"
| "comparison_matches c OpLessEqual = (c \<le> 0)"
| "comparison_matches c OpGreater = (c > 0)"
| "comparison_matches c OpGreaterEqual = (c \<ge> 0)"
| "comparison_matches c OpIsNull = False"
| "comparison_matches c OpIsNotNull = False"

section \<open>Resolving and evaluating a predicate\<close>

text \<open>
  The errors of a value that does not fit its column get a longer message and keep their code, so
  \<open>make_value_error_failure\<close> is the identity here, as are \<open>make_create_table_failure\<close> and
  \<open>make_duplicate_key_failure\<close>.
\<close>

definition resolve_predicate_state :: "schema \<Rightarrow> bound_predicate option \<Rightarrow> predicate_state result" where
  "resolve_predicate_state s predicate =
     (case predicate of
        None \<Rightarrow> Inr Absent
      | Some p \<Rightarrow>
          if bp_comparison_operator p = OpIsNull \<or> bp_comparison_operator p = OpIsNotNull then Inr (NullTest p)
          else (case bp_literal p of
                  None \<Rightarrow> Inl InternalError
                | Some literal \<Rightarrow>
                    if literal = LNull then Inr Impossible
                    else
                      (let predicate_column = sch_columns s ! bc_ordinal (bp_column p) in
                       bind_result (convert_to literal (col_type predicate_column) (col_nullable predicate_column))
                         (\<lambda>v. Inr (Comparison p v)))))"

fun row_matches_predicate :: "row \<Rightarrow> predicate_state \<Rightarrow> bool result" where
  "row_matches_predicate row Absent = Inr True"
| "row_matches_predicate row Impossible = Inr False"
| "row_matches_predicate row (NullTest p) =
     Inr (if bp_comparison_operator p = OpIsNull then is_null (row ! bc_ordinal (bp_column p))
          else \<not> is_null (row ! bc_ordinal (bp_column p)))"
| "row_matches_predicate row (Comparison p v) =
     (if is_null (row ! bc_ordinal (bp_column p)) then Inr False
      else bind_result (compare_values (row ! bc_ordinal (bp_column p)) v)
        (\<lambda>c. Inr (comparison_matches c (bp_comparison_operator p))))"

section \<open>Ranges of keys\<close>

text \<open>The loop of \<open>next_key\<close>, from the last byte to the first.\<close>

fun next_key_loop :: "nat \<Rightarrow> bytes \<Rightarrow> bytes option" where
  "next_key_loop 0 successor = None"
| "next_key_loop (Suc current_index) successor =
     (if successor ! current_index = 0xff then next_key_loop current_index (successor[current_index := 0])
      else Some (successor[current_index := successor ! current_index + 1]))"

definition next_key_bytes :: "bytes \<Rightarrow> bytes option" where
  "next_key_bytes key = next_key_loop (length key) key"

text \<open>\<open>std::vector::resize\<close> with zero bytes.\<close>

definition resize_bytes :: "nat \<Rightarrow> bytes \<Rightarrow> bytes" where
  "resize_bytes n bs = take n bs @ replicate (n - length bs) 0"

text \<open>The ranges that \<open>open_cursors\<close> scans, in its order.\<close>

fun cursor_ranges :: "comparison_operator \<Rightarrow> bytes \<Rightarrow> bytes option \<Rightarrow> (bytes option \<times> bytes option) list result" where
  "cursor_ranges OpEqual key nxt_key = Inr [(Some key, nxt_key)]"
| "cursor_ranges OpNotEqual key nxt_key =
     Inr ((None, Some key) # (case nxt_key of None \<Rightarrow> [] | Some n \<Rightarrow> [(Some n, None)]))"
| "cursor_ranges OpLess key nxt_key = Inr [(None, Some key)]"
| "cursor_ranges OpLessEqual key nxt_key = Inr [(None, nxt_key)]"
| "cursor_ranges OpGreater key nxt_key =
     Inr (case nxt_key of None \<Rightarrow> [] | Some n \<Rightarrow> [(Some n, None)])"
| "cursor_ranges OpGreaterEqual key nxt_key = Inr [(Some key, None)]"
| "cursor_ranges OpIsNull key nxt_key = Inl InternalError"
| "cursor_ranges OpIsNotNull key nxt_key = Inl InternalError"

fun open_ranges :: "'w win32 \<Rightarrow> btree \<Rightarrow> (bytes option \<times> bytes option) list \<Rightarrow> ('w, btree_cursor list) pager_run" where
  "open_ranges os tree [] = returns (return_action [])"
| "open_ranges os tree ((lower_bound, upper_bound) # ranges) =
     bind_run (btree_scan_range os tree lower_bound upper_bound) (\<lambda>cursor.
     bind_run (open_ranges os tree ranges) (\<lambda>cursors. returns (return_action (cursor # cursors))))"

definition open_cursors ::
    "'w win32 \<Rightarrow> btree \<Rightarrow> comparison_operator \<Rightarrow> bytes \<Rightarrow> bytes option \<Rightarrow> ('w, btree_cursor list) pager_run" where
  "open_cursors os tree op key nxt_key =
     bind_run (returns (lift_result (cursor_ranges op key nxt_key))) (open_ranges os tree)"

definition open_table_cursors ::
    "'w win32 \<Rightarrow> btree \<Rightarrow> comparison_operator \<Rightarrow> bytes \<Rightarrow> ('w, btree_cursor list) pager_run" where
  "open_table_cursors os tree op key = open_cursors os tree op key (next_key_bytes key)"

definition open_secondary_index_cursors ::
    "'w win32 \<Rightarrow> btree \<Rightarrow> comparison_operator \<Rightarrow> bytes \<Rightarrow> ('w, btree_cursor list) pager_run" where
  "open_secondary_index_cursors os tree op indexed_key_prefix =
     (if length indexed_key_prefix > bt_ks tree then returns (fail_action InvalidArgument)
      else open_cursors os tree op (resize_bytes (bt_ks tree) indexed_key_prefix)
        (map_option (resize_bytes (bt_ks tree)) (next_key_bytes indexed_key_prefix)))"

end
