(* ===== verification/KeyRanges.thy ===== *)
theory KeyRanges
  imports Predicates
begin

text \<open>
  The ranges of keys that a comparison scans are exactly the keys whose values satisfy it: the
  successor of a key, the ranges of \<open>open_cursors\<close>, the comparison of values, and the ranges over
  the prefixes of the keys of a secondary index.
\<close>

section \<open>The successor of a key\<close>

lemma be_value_append: "be_value (xs @ ys) = be_value xs * 256 ^ length ys + be_value ys"
  by (induction xs) (simp_all add: power_add algebra_simps)

lemma unat_last_byte: "unat (0xff :: byte) = 255"
  by code_simp

lemma next_key_loop_value:
  "case next_key_loop (length xs) (xs @ zs) of
     None \<Rightarrow> Suc (be_value xs) = 256 ^ length xs
   | Some n \<Rightarrow> (\<exists>ys. n = ys @ zs \<and> length ys = length xs \<and> be_value ys = Suc (be_value xs))"
proof (induction xs arbitrary: zs rule: rev_induct)
  case (snoc b xs)
  show ?case
  proof (cases "b = 0xff")
    case True
    have step: "next_key_loop (length (xs @ [b])) ((xs @ [b]) @ zs) = next_key_loop (length xs) (xs @ 0 # zs)"
      using True by (simp add: list_update_append)
    have v: "be_value (xs @ [b]) = be_value xs * 256 + 255"
      unfolding be_value_append True be_value.simps unat_last_byte by simp
    show ?thesis
      unfolding step v using snoc[of "0 # zs"] by (force simp: be_value_append split: option.splits)
  next
    case False
    have "1 + b \<noteq> 0"
    proof
      assume "1 + b = 0"
      then have "b = - 1"
        by (simp add: eq_neg_iff_add_eq_0 add.commute)
      with False show False by simp
    qed
    then have "unat (b + 1) = Suc (unat b)"
      using unatSuc[of b] by (simp add: add.commute)
    with False show ?thesis
      by (auto simp: list_update_append be_value_append)
  qed
qed simp

lemma bytes_less_iff: "length a = length b \<Longrightarrow> a < b \<longleftrightarrow> be_value a < be_value (b :: bytes)"
  using memcmp_lexorder memcmp_be_value(1) by blast

lemma next_key_bytes_successor:
  assumes "length b = length key"
  shows "case next_key_bytes key of
      None \<Rightarrow> \<not> key < b
    | Some n \<Rightarrow> length n = length key \<and> (b < n \<longleftrightarrow> \<not> key < b)"
proof -
  have next_: "case next_key_bytes key of None \<Rightarrow> Suc (be_value key) = 256 ^ length key
      | Some n \<Rightarrow> length n = length key \<and> be_value n = Suc (be_value key)"
    using next_key_loop_value[of key "[]"] by (auto simp: next_key_bytes_def split: option.splits)
  show ?thesis
    using next_ assms be_value_less[of b]
    by (auto simp: bytes_less_iff split: option.splits)
qed

section \<open>Comparing values\<close>

lemma string_less_lexord: "string_less s t \<longleftrightarrow> (s, t) \<in> lexord {(c, d). (of_char c :: nat) < of_char d}"
  by (induction s t rule: string_less.induct) auto

lemma compare_values_order:
  assumes "val_type v = val_type u" "lt_kind (val_type v) \<noteq> Float64"
  shows "compare_values v u = Inr (three_way (value_less v u) (value_less u v))"
  using assms
  by (auto simp: compare_values_def ensure_def value_less_def three_way_def string_less_lexord split: logical_kind.splits)

section \<open>Ranges\<close>

type_synonym key_range = "bytes option \<times> bytes option"

definition in_range :: "bytes \<Rightarrow> key_range \<Rightarrow> bool" where
  "in_range b r \<longleftrightarrow> (case fst r of None \<Rightarrow> True | Some l \<Rightarrow> \<not> b < l) \<and> (case snd r of None \<Rightarrow> True | Some u \<Rightarrow> b < u)"

text \<open>Which keys satisfy a comparison with a key.\<close>

definition key_matches :: "comparison_operator \<Rightarrow> bytes \<Rightarrow> bytes \<Rightarrow> bool" where
  "key_matches op key b \<longleftrightarrow> comparison_matches (three_way (b < key) (key < b)) op"

lemma ranges_of_comparison:
  assumes "cursor_ranges op key (next_key_bytes key) = Inr ranges" "length b = length key"
  shows "length (filter (in_range b) ranges) = (if key_matches op key b then 1 else 0)"
  using assms(1) next_key_bytes_successor[OF assms(2)]
  by (cases op) (auto simp: in_range_def key_matches_def three_way_def split: option.splits if_splits)


lemma ranges_bounds:
  assumes "cursor_ranges op key (next_key_bytes key) = Inr ranges" "r \<in> set ranges"
    and "fst r = Some k \<or> snd r = Some k"
  shows "length k = length key"
  using assms next_key_bytes_successor[of key key]
  by (cases op) (auto split: option.splits)

lemma ranges_map:
  "cursor_ranges op (f key) (map_option f nxt) =
    map_sum id (map (map_prod (map_option f) (map_option f))) (cursor_ranges op key nxt)"
  by (cases op) (auto split: option.splits)

section \<open>Ranges over the keys of a secondary index\<close>

lemma zeros_least: "\<not> b < replicate (length b) (0 :: byte)"
  by (induction b) auto

lemma append_less:
  "length a = length b \<Longrightarrow> a @ c < b @ d \<longleftrightarrow> a < b \<or> a = b \<and> c < (d :: bytes)"
  by (induction a b rule: list_induct2) auto

lemma prefix_in_range:
  assumes "\<And>k. fst r = Some k \<or> snd r = Some k \<Longrightarrow> length k = length p" "n = length (p @ rest)"
  shows "in_range (p @ rest) (map_prod (map_option (resize_bytes n)) (map_option (resize_bytes n)) r) \<longleftrightarrow> in_range p r"
proof -
  have less: "p @ rest < resize_bytes n k \<longleftrightarrow> p < k" if "fst r = Some k \<or> snd r = Some k" for k
    using assms(1)[OF that] assms(2) zeros_least[of rest] by (simp add: resize_bytes_def append_less)
  show ?thesis
    using less by (cases r) (auto simp: in_range_def split: option.splits)
qed

lemma prefix_ranges:
  assumes "cursor_ranges op key (next_key_bytes key) = Inr ranges" "length p = length key"
    and "cursor_ranges op (resize_bytes n key) (map_option (resize_bytes n) (next_key_bytes key)) = Inr ranges'"
    and "n = length (p @ rest)"
  shows "map (in_range (p @ rest)) ranges' = map (in_range p) ranges"
proof -
  have "ranges' = map (map_prod (map_option (resize_bytes n)) (map_option (resize_bytes n))) ranges"
    using assms(1,3) by (simp add: ranges_map)
  then show ?thesis
    using prefix_in_range[OF _ assms(4)] ranges_bounds[OF assms(1)] assms(2) by simp
qed

section \<open>Properties\<close>

lemma key_matches_value:
  assumes "value_wf v" "key_encode v = Inr a" "value_wf u" "key_encode u = Inr key" "val_type v = val_type u"
  shows "\<exists>c. compare_values v u = Inr c \<and> (comparison_matches c op \<longleftrightarrow> key_matches op key a)"
proof -
  have len: "length a = length key"
    using key_encode_length[OF assms(1,2)] key_encode_length[OF assms(3,4)] assms(5) by simp
  have "a < key \<longleftrightarrow> value_less v u" "key < a \<longleftrightarrow> value_less u v"
    using key_encode_order[OF assms] key_encode_order[OF assms(3,4,1,2)] assms(5) memcmp_lexorder len by auto
  moreover have "lt_kind (val_type v) \<noteq> Float64"
    using assms(2) by (auto simp: key_encode_def ensure_Inr_iff)
  ultimately show ?thesis
    using compare_values_order[OF assms(5)] by (auto simp: key_matches_def)
qed

text \<open>
  C14. The ranges that a comparison with an indexed column scans are complete and exact: a key lies in
  one of them if its value satisfies the comparison, and in none otherwise, for every operator, every
  indexable type and every value, also where the key has no successor.
\<close>

theorem ranges_select_matches:
  assumes "value_wf v" "key_encode v = Inr a" "value_wf u" "key_encode u = Inr key" "val_type v = val_type u"
    and "cursor_ranges op key (next_key_bytes key) = Inr ranges"
  shows "\<exists>c. compare_values v u = Inr c \<and>
    length (filter (in_range a) ranges) = (if comparison_matches c op then 1 else 0)"
proof -
  have "length a = length key"
    using key_encode_length[OF assms(1,2)] key_encode_length[OF assms(3,4)] assms(5) by simp
  with key_matches_value[OF assms(1-5)] ranges_of_comparison[OF assms(6)] show ?thesis
    by fastforce
qed

theorem ranges_select_matches_witness:
  "\<exists>c. compare_values \<lparr>val_type = plain_type Int8, val_payload = PInteger (- 128)\<rparr>
      \<lparr>val_type = plain_type Int8, val_payload = PInteger 127\<rparr> = Inr c \<and> comparison_matches c OpNotEqual"
proof -
  let ?v = "\<lparr>val_type = plain_type Int8, val_payload = PInteger (- 128)\<rparr>"
  let ?u = "\<lparr>val_type = plain_type Int8, val_payload = PInteger 127\<rparr>"
  have wf: "value_wf ?v" "value_wf ?u"
    by (simp_all add: value_wf_def type_wf_def plain_type_def fits_integer_def is_null_def)
  have keys: "key_encode ?v = Inr [0]" "key_encode ?u = Inr [0xff]"
    by code_simp+
  have ranges: "cursor_ranges OpNotEqual [0xff] (next_key_bytes [0xff]) = Inr [(None, Some [0xff])]"
    by (simp add: next_key_bytes_def)
  from ranges_select_matches[OF wf(1) keys(1) wf(2) keys(2) _ ranges] show ?thesis
    by (auto simp: in_range_def split: if_splits)
qed

end
