(* ===== verification/CatalogLoader.thy ===== *)
theory CatalogLoader
  imports CatalogState BTree
begin

text \<open>
  \<^verbatim>\<open>catalog/CatalogLoader.cpp\<close>: the catalog is read from the four system tables. A scan applies a
  function to every entry; that function does all the checks on the entry and is pure. The last
  step sorts the columns of every table, builds its schema and checks its indexes.
\<close>

record load_state =
  ls_table_by_id :: "(table_id \<times> table_info) list"
  ls_table_schema_by_id :: "(table_id \<times> schema) list"
  ls_table_id_by_name :: "(string \<times> table_id) list"
  ls_table_id_by_column_id :: "(column_id \<times> table_id) list"
  ls_column_id_by_index_id :: "(index_id \<times> column_id) list"

definition load_state_new :: load_state where
  "load_state_new = \<lparr>ls_table_by_id = [], ls_table_schema_by_id = [], ls_table_id_by_name = [],
     ls_table_id_by_column_id = [], ls_column_id_by_index_id = []\<rparr>"

section \<open>Reading a system table\<close>

text \<open>An error of the tree is a corruption of the catalog, except an error of the file system.\<close>

definition corruption_unless_io :: "status_code \<Rightarrow> status_code" where
  "corruption_unless_io e = (if e = IoError then e else Corruption)"

definition or_corruption :: "'a result \<Rightarrow> 'a result" where
  "or_corruption r = (case r of Inl e \<Rightarrow> Inl Corruption | Inr x \<Rightarrow> Inr x)"

definition tree_read :: "('w, 'a) pager_run \<Rightarrow> ('w, 'a) pager_run" where
  "tree_read m s = map_option (\<lambda>(s1, r). (s1, map_sum corruption_unless_io (\<lambda>x. x) r)) (m s)"

text \<open>The row of an entry, whose key must be the encoding of the primary key of the row.\<close>

definition decode_entry :: "schema \<Rightarrow> bytes \<times> bytes \<Rightarrow> row result" where
  "decode_entry s entry =
     bind_result (or_corruption (row_decode s (snd entry))) (\<lambda>row.
     bind_result (or_corruption (primary_key_bytes s row)) (\<lambda>primary_key.
     ensure (fst entry = primary_key) Corruption (Inr row)))"

partial_function (option) scan_entries ::
    "'w win32 \<Rightarrow> ('x \<Rightarrow> bytes \<times> bytes \<Rightarrow> 'x result) \<Rightarrow> btree_cursor \<Rightarrow> 'x \<Rightarrow> ('w, 'x) pager_run" where
  "scan_entries os f cursor x s = Option.bind (cursor_next os s cursor) (\<lambda>(s1, cursor', r).
     case r of
       Inl e \<Rightarrow> Some (s1, Inl (corruption_unless_io e))
     | Inr None \<Rightarrow> Some (s1, Inr x)
     | Inr (Some entry) \<Rightarrow>
         (case f x entry of
            Inl e \<Rightarrow> Some (s1, Inl e)
          | Inr x' \<Rightarrow> scan_entries os f cursor' x' s1))"

definition scan_system_table ::
    "'w win32 \<Rightarrow> schema \<Rightarrow> page_id \<Rightarrow> ('x \<Rightarrow> bytes \<times> bytes \<Rightarrow> 'x result) \<Rightarrow> 'x \<Rightarrow> ('w, 'x) pager_run" where
  "scan_system_table os s root_page_id f x =
     (if \<not> page_id_is_valid root_page_id then returns (fail_action Corruption)
      else
        bind_run (tree_read (returns (btree_open_existing os root_page_id
          (of_nat (fixed_size (col_type (primary_key_column s)))) (of_nat (sch_row_size s))))) (\<lambda>tree.
        bind_run (tree_read (btree_scan os tree)) (\<lambda>cursor.
        scan_entries os f cursor x)))"

text \<open>A root page of a table or an index lies inside the file.\<close>

definition root_in_file :: "u64 \<Rightarrow> page_id \<Rightarrow> bool" where
  "root_in_file page_count root \<longleftrightarrow> \<not> (\<not> page_id_is_valid root \<or> root = HEADER_PAGE_ID \<or> root \<ge> page_count)"

section \<open>load_tables\<close>

definition load_table_row :: "u64 \<Rightarrow> load_state \<Rightarrow> row \<Rightarrow> load_state result" where
  "load_table_row page_count state row =
     (let table_id = as_integer (row ! 0); table_name = as_string (row ! 1);
          table_root_page_id = as_integer (row ! 2) in
      ensure (\<not> sint table_id < 0) Corruption (
      ensure (\<not> sint table_root_page_id \<le> 0) Corruption (
      ensure (id_is_valid table_id) Corruption (
      ensure (root_in_file page_count table_root_page_id) Corruption (
      ensure (map_of (ls_table_by_id state) table_id = None) Corruption (
      ensure (map_of (ls_table_id_by_name state) table_name = None) Corruption (
      bind_result (or_corruption (table_descriptor_create table_id table_name table_root_page_id)) (\<lambda>descriptor.
      Inr (state\<lparr>ls_table_by_id := emplace table_id
          \<lparr>ti_table_descriptor = descriptor, ti_columns = [], ti_indexes = []\<rparr> (ls_table_by_id state),
        ls_table_id_by_name := emplace table_name table_id (ls_table_id_by_name state)\<rparr>)))))))))"

definition expected_system_tables :: "database_header \<Rightarrow> (table_id \<times> string \<times> page_id) list" where
  "expected_system_tables header =
     [(DANDB_TABLES_ID, DANDB_TABLES_NAME, dh_system_tables_root_page_id header),
      (DANDB_COLUMNS_ID, DANDB_COLUMNS_NAME, dh_system_columns_root_page_id header),
      (DANDB_INDEXES_ID, DANDB_INDEXES_NAME, dh_system_indexes_root_page_id header),
      (DANDB_INDEX_COLUMNS_ID, DANDB_INDEX_COLUMNS_NAME, dh_system_index_columns_root_page_id header)]"

fun check_system_tables :: "load_state \<Rightarrow> (table_id \<times> string \<times> page_id) list \<Rightarrow> status" where
  "check_system_tables state [] = Ok"
| "check_system_tables state ((table_id, name, root) # expected) =
     (case map_of (ls_table_by_id state) table_id of
        None \<Rightarrow> Inl Corruption
      | Some info \<Rightarrow>
          ensure (td_name (ti_table_descriptor info) = name) Corruption (
          ensure (td_root_page_id (ti_table_descriptor info) = root) Corruption (
          check_system_tables state expected)))"

definition load_tables :: "'w win32 \<Rightarrow> database_header \<Rightarrow> load_state \<Rightarrow> ('w, load_state) pager_run" where
  "load_tables os header state =
     bind_run (returns (lift_result tables_schema)) (\<lambda>s.
     bind_run (scan_system_table os s (dh_system_tables_root_page_id header)
       (\<lambda>state entry. bind_result (decode_entry s entry) (load_table_row (dh_page_count header) state)) state)
       (\<lambda>state.
     returns (lift_result (bind_result (check_system_tables state (expected_system_tables header)) (\<lambda>_. Inr state)))))"

section \<open>load_columns\<close>

definition load_column_row :: "load_state \<Rightarrow> row \<Rightarrow> load_state result" where
  "load_column_row state row =
     (let column_id = as_integer (row ! 0); table_id = as_integer (row ! 1); column_name = as_string (row ! 2);
          type_kind = as_integer (row ! 3); type_capacity_value = row ! 4; ordinal = as_integer (row ! 5) in
      ensure (\<not> (sint column_id < 0 \<or> sint table_id < 0)) Corruption (
      ensure (\<not> sint ordinal < 0) Corruption (
      ensure (\<not> sint type_kind < 0) Corruption (
      ensure (\<not> (\<not> id_is_valid column_id \<or> \<not> id_is_valid table_id)) Corruption (
      ensure (map_of (ls_table_by_id state) table_id \<noteq> None) Corruption (
      ensure (map_of (ls_table_id_by_column_id state) column_id = None) Corruption (
      bind_result (if \<not> is_null type_capacity_value
        then ensure (\<not> sint (as_integer type_capacity_value) < 0) Corruption
          (Inr (Some (unat (as_integer type_capacity_value))))
        else Inr None) (\<lambda>type_capacity.
      bind_result (or_corruption (logical_type_decode (ucast type_kind) type_capacity)) (\<lambda>logical_type.
      bind_result (or_corruption (column_descriptor_create column_id table_id column_name logical_type
        (unat ordinal) (as_boolean (row ! 6)) (as_boolean (row ! 7)) (as_boolean (row ! 8)))) (\<lambda>descriptor.
      Inr (state\<lparr>ls_table_by_id := AList.map_entry table_id
          (\<lambda>info. info\<lparr>ti_columns := ti_columns info @ [descriptor]\<rparr>) (ls_table_by_id state),
        ls_table_id_by_column_id := emplace column_id table_id (ls_table_id_by_column_id state)\<rparr>)))))))))))"

definition load_columns :: "'w win32 \<Rightarrow> database_header \<Rightarrow> load_state \<Rightarrow> ('w, load_state) pager_run" where
  "load_columns os header state =
     bind_run (returns (lift_result columns_schema)) (\<lambda>s.
     scan_system_table os s (dh_system_columns_root_page_id header)
       (\<lambda>state entry. bind_result (decode_entry s entry) (load_column_row state)) state)"

section \<open>load_index_columns\<close>

definition load_index_column_row :: "load_state \<Rightarrow> row \<Rightarrow> load_state result" where
  "load_index_column_row state row =
     (let index_id = as_integer (row ! 0); column_id = as_integer (row ! 1); ordinal = as_integer (row ! 2) in
      ensure (\<not> (sint index_id < 0 \<or> sint column_id < 0)) Corruption (
      ensure (\<not> ordinal \<noteq> 0) Corruption (
      ensure (\<not> (\<not> id_is_valid index_id \<or> \<not> id_is_valid column_id)) Corruption (
      ensure (map_of (ls_table_id_by_column_id state) column_id \<noteq> None) Corruption (
      ensure (map_of (ls_column_id_by_index_id state) index_id = None) Corruption (
      Inr (state\<lparr>ls_column_id_by_index_id := emplace index_id column_id (ls_column_id_by_index_id state)\<rparr>)))))))"

definition load_index_columns :: "'w win32 \<Rightarrow> database_header \<Rightarrow> load_state \<Rightarrow> ('w, load_state) pager_run" where
  "load_index_columns os header state =
     bind_run (returns (lift_result index_columns_schema)) (\<lambda>s.
     scan_system_table os s (dh_system_index_columns_root_page_id header)
       (\<lambda>state entry. bind_result (decode_entry s entry) (load_index_column_row state)) state)"

section \<open>load_indexes\<close>

text \<open>The state carries the names of the indexes seen so far.\<close>

definition load_index_row :: "u64 \<Rightarrow> load_state \<times> string list \<Rightarrow> row \<Rightarrow> (load_state \<times> string list) result" where
  "load_index_row page_count state_names row =
     (let state = fst state_names; index_names = snd state_names;
          index_id = as_integer (row ! 0); table_id = as_integer (row ! 1); index_name = as_string (row ! 2);
          index_root_page_id = as_integer (row ! 3) in
      ensure (\<not> List.member index_names index_name) Corruption (
      ensure (\<not> (sint index_id < 0 \<or> sint table_id < 0)) Corruption (
      ensure (\<not> sint index_root_page_id \<le> 0) Corruption (
      ensure (\<not> (\<not> id_is_valid index_id \<or> \<not> id_is_valid table_id)) Corruption (
      ensure (root_in_file page_count index_root_page_id) Corruption (
      ensure (map_of (ls_table_by_id state) table_id \<noteq> None) Corruption (
      case map_of (ls_column_id_by_index_id state) index_id of
        None \<Rightarrow> Inl Corruption
      | Some column_id \<Rightarrow>
      ensure (map_of (ls_table_id_by_column_id state) column_id = Some table_id) Corruption (
      bind_result (or_corruption (index_descriptor_create index_id table_id index_name index_root_page_id
        (as_boolean (row ! 4)) (as_boolean (row ! 5)) (as_boolean (row ! 6)) column_id)) (\<lambda>descriptor.
      Inr (state\<lparr>ls_table_by_id := AList.map_entry table_id
          (\<lambda>info. info\<lparr>ti_indexes := ti_indexes info @ [descriptor]\<rparr>) (ls_table_by_id state),
        ls_column_id_by_index_id := AList.delete index_id (ls_column_id_by_index_id state)\<rparr>,
        index_name # index_names))))))))))"

definition load_indexes :: "'w win32 \<Rightarrow> database_header \<Rightarrow> load_state \<Rightarrow> ('w, load_state) pager_run" where
  "load_indexes os header state =
     bind_run (returns (lift_result indexes_schema)) (\<lambda>s.
     bind_run (scan_system_table os s (dh_system_indexes_root_page_id header)
       (\<lambda>state entry. bind_result (decode_entry s entry) (load_index_row (dh_page_count header) state)) (state, []))
       (\<lambda>(state, index_names).
     returns (lift_result (ensure (ls_column_id_by_index_id state = []) Corruption (Inr state)))))"

section \<open>resolve_schemas\<close>

text \<open>The columns of a schema, from the sorted descriptors: their ordinals count up from zero.\<close>

fun schema_columns :: "nat \<Rightarrow> column_descriptor list \<Rightarrow> column list result" where
  "schema_columns ordinal [] = Inr []"
| "schema_columns ordinal (descriptor # descriptors) =
     ensure (\<not> cld_ordinal descriptor \<noteq> ordinal) Corruption (
     bind_result (or_corruption (column_create (cld_name descriptor) (cld_logical_type descriptor)
       (cld_nullable descriptor) (cld_primary_key descriptor) (cld_unique descriptor))) (\<lambda>column.
     bind_result (schema_columns (Suc ordinal) descriptors) (\<lambda>columns. Inr (column # columns))))"

text \<open>The primary index that a system table must have.\<close>

definition system_primary_index :: "table_id \<Rightarrow> index_id option" where
  "system_primary_index table_id =
     (if table_id = DANDB_TABLES_ID then Some DANDB_TABLES_PRIMARY_INDEX_ID
      else if table_id = DANDB_COLUMNS_ID then Some DANDB_COLUMNS_PRIMARY_INDEX_ID
      else if table_id = DANDB_INDEXES_ID then Some DANDB_INDEXES_PRIMARY_INDEX_ID
      else if table_id = DANDB_INDEX_COLUMNS_ID then Some DANDB_INDEX_COLUMNS_PRIMARY_INDEX_ID
      else None)"

definition resolve_table :: "table_id \<Rightarrow> table_info \<Rightarrow> (table_info \<times> schema) result" where
  "resolve_table table_id info =
     (let columns = sort_key cld_ordinal (ti_columns info) in
      bind_result (schema_columns 0 columns) (\<lambda>schema_cols.
      bind_result (or_corruption (schema_create schema_cols)) (\<lambda>s.
      (case filter ixd_primary (ti_indexes info) of
         [primary_index] \<Rightarrow>
           ensure (ixd_indexed_column_id primary_index = cld_column_id (columns ! sch_primary_key_ordinal s)) Corruption (
           ensure (ixd_root_page_id primary_index = td_root_page_id (ti_table_descriptor info)) Corruption (
           ensure (\<not> (case system_primary_index table_id of None \<Rightarrow> False
             | Some index_id \<Rightarrow> ixd_index_id primary_index \<noteq> index_id)) Corruption (
           Inr (info\<lparr>ti_columns := columns\<rparr>, s))))
       | _ \<Rightarrow> Inl Corruption))))"

fun resolve_tables ::
    "(table_id \<times> table_info) list \<Rightarrow> (table_id \<times> table_info) list \<Rightarrow> (table_id \<times> schema) list \<Rightarrow>
     ((table_id \<times> table_info) list \<times> (table_id \<times> schema) list) result" where
  "resolve_tables [] tables schemas = Inr (rev tables, schemas)"
| "resolve_tables ((table_id, info) # rest) tables schemas =
     bind_result (resolve_table table_id info) (\<lambda>(info', s).
       resolve_tables rest ((table_id, info') # tables) (emplace table_id s schemas))"

text \<open>The part of a column that a system table must have as it is in the code.\<close>

definition column_shape :: "column \<Rightarrow> string \<times> logical_kind \<times> nat option \<times> bool \<times> bool \<times> bool" where
  "column_shape c = (col_name c, lt_kind (col_type c), lt_capacity (col_type c), col_nullable c, col_pk c, col_unique c)"

text \<open>\<open>load_tables\<close> has checked that the four tables are there, so the lookup finds a schema.\<close>

fun check_canonical :: "(table_id \<times> schema) list \<Rightarrow> (table_id \<times> schema) list \<Rightarrow> status" where
  "check_canonical schemas [] = Ok"
| "check_canonical schemas ((table_id, canonical_schema) # rest) =
     (case map_of schemas table_id of
        None \<Rightarrow> Inl Corruption
      | Some loaded_schema \<Rightarrow>
          ensure (length (sch_columns loaded_schema) = length (sch_columns canonical_schema)) Corruption (
          ensure (list_all2 (\<lambda>loaded_column canonical_column. column_shape loaded_column = column_shape canonical_column)
            (sch_columns loaded_schema) (sch_columns canonical_schema)) Corruption (
          check_canonical schemas rest)))"

definition resolve_schemas :: "load_state \<Rightarrow> load_state result" where
  "resolve_schemas state =
     bind_result (resolve_tables (ls_table_by_id state) [] (ls_table_schema_by_id state)) (\<lambda>(tables, schemas).
     bind_result tables_schema (\<lambda>tables_s.
     bind_result columns_schema (\<lambda>columns_s.
     bind_result indexes_schema (\<lambda>indexes_s.
     bind_result index_columns_schema (\<lambda>index_columns_s.
     bind_result (check_canonical schemas [(DANDB_TABLES_ID, tables_s), (DANDB_COLUMNS_ID, columns_s),
       (DANDB_INDEXES_ID, indexes_s), (DANDB_INDEX_COLUMNS_ID, index_columns_s)]) (\<lambda>_.
     Inr (state\<lparr>ls_table_by_id := tables, ls_table_schema_by_id := schemas\<rparr>)))))))"

section \<open>load\<close>

definition catalog_load :: "'w win32 \<Rightarrow> ('w, catalog) pager_run" where
  "catalog_load os =
     bind_run (returns (get_pager pr_header)) (\<lambda>header.
     bind_run (load_tables os header load_state_new) (\<lambda>state.
     bind_run (load_columns os header state) (\<lambda>state.
     bind_run (load_index_columns os header state) (\<lambda>state.
     bind_run (load_indexes os header state) (\<lambda>state.
     bind_run (returns (lift_result (resolve_schemas state))) (\<lambda>state.
     returns (return_action (catalog_new (ls_table_by_id state) (ls_table_schema_by_id state)
       (ls_table_id_by_name state)))))))))"

end
