(* ===== verification/Database.thy ===== *)
theory Database
  imports Catalog CatalogLoader Predicates SqlParser
begin

text \<open>
  The class \<open>Database\<close> of \<^verbatim>\<open>execution/Database.cpp\<close>. Its two members are the pager and the catalog, so
  its functions are runs over the state of \<^verbatim>\<open>Catalog.thy\<close>. A result whose status is an error carries
  nothing else, so an \<open>ExecutionResult\<close> is an error or an outcome.
\<close>

record row_set =
  rs_column_names :: "string list"
  rs_rows :: "row list"

record execution_outcome =
  eo_success_message :: "string option"
  eo_row_set :: "row_set option"
  eo_rows_affected :: "nat option"

type_synonym execution_result = "execution_outcome result"

definition message_outcome :: "string \<Rightarrow> execution_outcome" where
  "message_outcome m = \<lparr>eo_success_message = Some m, eo_row_set = None, eo_rows_affected = None\<rparr>"

definition rows_outcome :: "row_set \<Rightarrow> execution_outcome" where
  "rows_outcome rows = \<lparr>eo_success_message = None, eo_row_set = Some rows, eo_rows_affected = None\<rparr>"

definition count_outcome :: "nat \<Rightarrow> execution_outcome" where
  "count_outcome n = \<lparr>eo_success_message = None, eo_row_set = None, eo_rows_affected = Some n\<rparr>"

section \<open>Trees of tables and indexes\<close>

text \<open>A metadata lookup whose \<open>nullptr\<close> is an error.\<close>

definition lookup_or :: "status_code \<Rightarrow> (catalog \<Rightarrow> 'a option) \<Rightarrow> ('w, 'a) db_run" where
  "lookup_or e f = bind_run (get_catalog f) (\<lambda>x. case x of None \<Rightarrow> stop_with e | Some y \<Rightarrow> done_with y)"

definition open_table_tree :: "'w win32 \<Rightarrow> table_descriptor \<Rightarrow> ('w, btree) db_run" where
  "open_table_tree os table_descriptor =
     bind_run (lookup_or InternalError (\<lambda>cat. schema_for_table cat (td_table_id table_descriptor))) (\<lambda>s.
     pager_call (btree_open_existing os (td_root_page_id table_descriptor)
       (of_nat (fixed_size (col_type (primary_key_column s)))) (of_nat (sch_row_size s))))"

definition open_index_tree :: "'w win32 \<Rightarrow> index_descriptor \<Rightarrow> ('w, btree) db_run" where
  "open_index_tree os index_descriptor =
     require_that (\<not> ixd_primary index_descriptor) InvalidArgument (
     bind_run (lookup_or InternalError (\<lambda>cat. schema_for_table cat (ixd_table_id index_descriptor))) (\<lambda>s.
     bind_run (lookup_or InternalError (\<lambda>cat. find_column_by_id cat (ixd_table_id index_descriptor)
       (ixd_indexed_column_id index_descriptor))) (\<lambda>indexed_column.
     let indexed_key_size = fixed_size (cld_logical_type indexed_column);
         primary_key_size = fixed_size (col_type (primary_key_column s));
         key_size = (if ixd_unique index_descriptor then indexed_key_size else indexed_key_size + primary_key_size) in
     pager_call (btree_open_existing os (ixd_root_page_id index_descriptor) (of_nat key_size)
       (of_nat primary_key_size)))))"

section \<open>Transactions of a statement\<close>

definition mutation_failure :: "status_code \<Rightarrow> bool \<Rightarrow> ('w, 'a) db_run" where
  "mutation_failure failure_status owns_transaction =
     (if \<not> owns_transaction then stop_with failure_status
      else bind_run (pager_call pager_rollback_transaction) (\<lambda>_.
           bind_run on_transaction_rolled_back (\<lambda>_.
           stop_with failure_status)))"

definition or_statement_failure :: "bool \<Rightarrow> ('w, 'a) db_run \<Rightarrow> ('w, 'a) db_run" where
  "or_statement_failure owns_transaction m s = Option.bind (m s) (\<lambda>(s1, r).
     case r of Inl e \<Rightarrow> mutation_failure e owns_transaction s1 | Inr x \<Rightarrow> Some (s1, Inr x))"

text \<open>
  A statement that writes: its transaction starts unless the caller has one, a failure of the work
  rolls a transaction of its own back, and the end commits it.
\<close>

definition finish_statement :: "'w win32 \<Rightarrow> bool \<Rightarrow> execution_outcome \<Rightarrow> ('w, execution_outcome) db_run" where
  "finish_statement os owns_transaction outcome =
     (if \<not> owns_transaction then done_with outcome
      else bind_run (pager_call (pager_commit_transaction os)) (\<lambda>_.
           bind_run on_transaction_committed (\<lambda>_.
           done_with outcome)))"

definition writing_statement ::
    "'w win32 \<Rightarrow> (bool \<Rightarrow> ('w, execution_outcome) db_run) \<Rightarrow> ('w, execution_outcome) db_run" where
  "writing_statement os work =
     bind_run begin_if_needed (\<lambda>owns_transaction.
     bind_run (or_statement_failure owns_transaction (work owns_transaction)) (\<lambda>outcome.
     finish_statement os owns_transaction outcome))"

section \<open>Consuming cursors\<close>

text \<open>
  The callbacks add to what they have collected, so a callback is a run from one such value to the
  next. A failure drops the value: the result of the statement is then the error.
\<close>

partial_function (option) consume_cursor ::
    "'w win32 \<Rightarrow> ('x \<Rightarrow> bytes \<times> bytes \<Rightarrow> ('w, 'x) db_run) \<Rightarrow> btree_cursor \<Rightarrow> 'x \<Rightarrow> ('w, 'x) db_run" where
  "consume_cursor os process cursor x s = Option.bind (cursor_next os (snd s) cursor) (\<lambda>(s1, cursor', r).
     case r of
       Inl e \<Rightarrow> Some ((fst s, s1), Inl e)
     | Inr None \<Rightarrow> Some ((fst s, s1), Inr x)
     | Inr (Some entry) \<Rightarrow> bind_run (process x entry) (\<lambda>x'. consume_cursor os process cursor' x') (fst s, s1))"

fun consume_table_cursors ::
    "'w win32 \<Rightarrow> ('x \<Rightarrow> bytes \<times> bytes \<Rightarrow> ('w, 'x) db_run) \<Rightarrow> btree_cursor list \<Rightarrow> 'x \<Rightarrow> ('w, 'x) db_run" where
  "consume_table_cursors os process [] x = done_with x"
| "consume_table_cursors os process (cursor # cursors) x =
     bind_run (consume_cursor os process cursor x) (\<lambda>x'. consume_table_cursors os process cursors x')"

definition consume_secondary_index_cursors ::
    "'w win32 \<Rightarrow> btree \<Rightarrow> ('x \<Rightarrow> bytes \<times> bytes \<Rightarrow> ('w, 'x) db_run) \<Rightarrow> btree_cursor list \<Rightarrow> 'x \<Rightarrow> ('w, 'x) db_run" where
  "consume_secondary_index_cursors os table_tree process =
     consume_table_cursors os (\<lambda>x index_entry.
       bind_run (on_pager (btree_find os table_tree (snd index_entry))) (\<lambda>row_bytes.
       process x (snd index_entry, row_bytes)))"

definition scan_table ::
    "'w win32 \<Rightarrow> btree \<Rightarrow> ('x \<Rightarrow> bytes \<times> bytes \<Rightarrow> ('w, 'x) db_run) \<Rightarrow> 'x \<Rightarrow> ('w, 'x) db_run" where
  "scan_table os table_tree process x =
     bind_run (on_pager (btree_scan os table_tree)) (\<lambda>cursor. consume_table_cursors os process [cursor] x)"

definition scan_primary_key_range ::
    "'w win32 \<Rightarrow> btree \<Rightarrow> predicate_state \<Rightarrow> ('x \<Rightarrow> bytes \<times> bytes \<Rightarrow> ('w, 'x) db_run) \<Rightarrow> 'x \<Rightarrow> ('w, 'x) db_run" where
  "scan_primary_key_range os table_tree state process x =
     (case state of
        Comparison p v \<Rightarrow>
          bind_run (check_that (key_encode v)) (\<lambda>key.
          bind_run (on_pager (open_table_cursors os table_tree (bp_comparison_operator p) key)) (\<lambda>cursors.
          consume_table_cursors os process cursors x))
      | _ \<Rightarrow> stop_with InternalError)"

definition scan_secondary_index_range ::
    "'w win32 \<Rightarrow> btree \<Rightarrow> index_descriptor \<Rightarrow> predicate_state \<Rightarrow>
     ('x \<Rightarrow> bytes \<times> bytes \<Rightarrow> ('w, 'x) db_run) \<Rightarrow> 'x \<Rightarrow> ('w, 'x) db_run" where
  "scan_secondary_index_range os table_tree index_descriptor state process x =
     (case state of
        Comparison p v \<Rightarrow>
          bind_run (open_index_tree os index_descriptor) (\<lambda>index_tree.
          bind_run (check_that (key_encode v)) (\<lambda>key.
          bind_run (on_pager (open_secondary_index_cursors os index_tree (bp_comparison_operator p) key)) (\<lambda>cursors.
          consume_secondary_index_cursors os table_tree process cursors x)))
      | _ \<Rightarrow> stop_with InternalError)"

text \<open>The access path of \<open>SELECT\<close> and \<open>DELETE\<close>.\<close>

definition scan_access_path ::
    "'w win32 \<Rightarrow> btree \<Rightarrow> access_path \<Rightarrow> predicate_state \<Rightarrow>
     ('x \<Rightarrow> bytes \<times> bytes \<Rightarrow> ('w, 'x) db_run) \<Rightarrow> 'x \<Rightarrow> ('w, 'x) db_run" where
  "scan_access_path os table_tree path state process x =
     (case path of
        FullTableScanPath \<Rightarrow> scan_table os table_tree process x
      | PrimaryKeyRangePath \<Rightarrow> scan_primary_key_range os table_tree state process x
      | SecondaryIndexRangePath index_descriptor \<Rightarrow>
          scan_secondary_index_range os table_tree index_descriptor state process x)"

section \<open>CREATE and DROP\<close>

fun definition_columns :: "column_definition list \<Rightarrow> column list result" where
  "definition_columns [] = Inr []"
| "definition_columns (d # ds) =
     (let constraints = cd_constraints d;
          nullable = (\<not> cc_primary_key constraints \<and> \<not> cc_unique constraints \<and> \<not> cc_not_null constraints) in
      bind_result (column_create (id_text (cd_name d)) (ct_logical_type (cd_type d)) nullable
        (cc_primary_key constraints) (cc_primary_key constraints \<or> cc_unique constraints)) (\<lambda>column.
      bind_result (definition_columns ds) (\<lambda>columns. Inr (column # columns))))"

definition execute_create_table_statement ::
    "'w win32 \<Rightarrow> create_table_statement \<Rightarrow> ('w, execution_outcome) db_run" where
  "execute_create_table_statement os st =
     bind_run (check_that (definition_columns (crt_columns st))) (\<lambda>columns.
     bind_run (check_that (schema_create columns)) (\<lambda>s.
     bind_run (create_table os (id_text (crt_table_name st)) s) (\<lambda>_.
     done_with (message_outcome (''Table '' @ [CHR 0x27] @ id_text (crt_table_name st) @ [CHR 0x27] @ '' created'')))))"

text \<open>The entry that \<open>CREATE INDEX\<close> adds for a row of the table.\<close>

definition index_key_for :: "schema \<Rightarrow> bool \<Rightarrow> nat \<Rightarrow> bytes \<Rightarrow> row \<Rightarrow> bytes result" where
  "index_key_for s unique ordinal primary_key row =
     bind_result (indexed_key_bytes s row ordinal) (\<lambda>index_key.
     Inr (if \<not> unique then index_key @ primary_key else index_key))"

definition build_index ::
    "'w win32 \<Rightarrow> bound_create_index_statement \<Rightarrow> ('w, execution_outcome) db_run" where
  "build_index os st =
     bind_run (create_index os (bci_table_id st) (bci_index_name st) (bc_column_id (bci_indexed_column st))
       (bci_unique st)) (\<lambda>_.
     bind_run (lookup_or InternalError (\<lambda>cat. find_index cat (bci_index_name st))) (\<lambda>index_descriptor.
     bind_run (lookup_or InternalError (\<lambda>cat. find_table_by_id cat (bci_table_id st))) (\<lambda>table_descriptor.
     bind_run (lookup_or InternalError (\<lambda>cat. schema_for_table cat (bci_table_id st))) (\<lambda>s.
     bind_run (open_table_tree os table_descriptor) (\<lambda>table_tree.
     bind_run (open_index_tree os index_descriptor) (\<lambda>index_tree.
     bind_run (scan_table os table_tree (\<lambda>_ entry.
       bind_run (check_that (row_decode s (snd entry))) (\<lambda>row.
       bind_run (check_that (index_key_for s (ixd_unique index_descriptor) (bc_ordinal (bci_indexed_column st))
         (fst entry) row)) (\<lambda>index_key.
       on_pager (btree_insert os index_tree index_key (fst entry))))) ()) (\<lambda>_.
     done_with (message_outcome (''Index '' @ [CHR 0x27] @ bci_index_name st @ [CHR 0x27] @ '' created'')))))))))"

definition execute_create_index_statement ::
    "'w win32 \<Rightarrow> bound_create_index_statement \<Rightarrow> ('w, execution_outcome) db_run" where
  "execute_create_index_statement os st = writing_statement os (\<lambda>_. build_index os st)"

definition execute_drop_index_statement ::
    "'w win32 \<Rightarrow> drop_index_statement \<Rightarrow> ('w, execution_outcome) db_run" where
  "execute_drop_index_statement os st =
     bind_run (drop_index os (id_text (dri_index_name st))) (\<lambda>_.
     done_with (message_outcome (''Index '' @ [CHR 0x27] @ id_text (dri_index_name st) @ [CHR 0x27] @ '' dropped'')))"

definition execute_drop_table_statement ::
    "'w win32 \<Rightarrow> bound_drop_table_statement \<Rightarrow> ('w, execution_outcome) db_run" where
  "execute_drop_table_statement os st =
     bind_run (drop_table os (bdt_table_name st)) (\<lambda>_.
     done_with (message_outcome (''Table '' @ [CHR 0x27] @ bdt_table_name st @ [CHR 0x27] @ '' dropped'')))"

section \<open>SELECT\<close>

definition process_row_bytes ::
    "schema \<Rightarrow> bound_column list \<Rightarrow> predicate_state \<Rightarrow> row list \<Rightarrow> bytes \<times> bytes \<Rightarrow> ('w, row list) db_run" where
  "process_row_bytes s projection state rows entry =
     bind_run (check_that (row_decode s (snd entry))) (\<lambda>row.
     bind_run (check_that (row_matches_predicate row state)) (\<lambda>matches.
     done_with (if \<not> matches then rows else rows @ [map (\<lambda>column. row ! bc_ordinal column) projection])))"

definition execute_select_statement ::
    "'w win32 \<Rightarrow> bound_select_statement \<Rightarrow> ('w, execution_outcome) db_run" where
  "execute_select_statement os st =
     bind_run (lookup_or InternalError (\<lambda>cat. find_table_by_id cat (bse_table_id st))) (\<lambda>table_descriptor.
     bind_run (lookup_or InternalError (\<lambda>cat. schema_for_table cat (bse_table_id st))) (\<lambda>s.
     let column_names = map (\<lambda>column. col_name (sch_columns s ! bc_ordinal column)) (bse_projection st) in
     bind_run (check_that (resolve_predicate_state s (bse_predicate st))) (\<lambda>state.
     if state = Impossible then done_with (rows_outcome \<lparr>rs_column_names = column_names, rs_rows = []\<rparr>)
     else
       bind_run (open_table_tree os table_descriptor) (\<lambda>table_tree.
       bind_run (get_catalog (\<lambda>cat. plan_access_path s (indexes_for_table cat (bse_table_id st)) state)) (\<lambda>path.
       bind_run (scan_access_path os table_tree path state (process_row_bytes s (bse_projection st) state) []) (\<lambda>rows.
       done_with (rows_outcome \<lparr>rs_column_names = column_names, rs_rows = rows\<rparr>)))))))"

section \<open>INSERT\<close>

fun convert_values :: "column list \<Rightarrow> literal_value list \<Rightarrow> db_value list result" where
  "convert_values (c # cs) (literal # literals) =
     bind_result (convert_to literal (col_type c) (col_nullable c)) (\<lambda>v.
     bind_result (convert_values cs literals) (\<lambda>vs. Inr (v # vs)))"
| "convert_values _ _ = Inr []"

text \<open>One round of the loop over the indexes.\<close>

definition insert_into_index ::
    "'w win32 \<Rightarrow> table_id \<Rightarrow> schema \<Rightarrow> row \<Rightarrow> bytes \<Rightarrow> index_descriptor \<Rightarrow> ('w, unit) db_run" where
  "insert_into_index os table_id s row primary_key index_descriptor =
     (if ixd_primary index_descriptor then done_with ()
      else
        bind_run (lookup_or InternalError (\<lambda>cat. find_column_by_id cat table_id
          (ixd_indexed_column_id index_descriptor))) (\<lambda>indexed_column.
        bind_run (open_index_tree os index_descriptor) (\<lambda>index_tree.
        bind_run (check_that (index_key_for s (ixd_unique index_descriptor) (cld_ordinal indexed_column)
          primary_key row)) (\<lambda>index_key.
        on_pager (btree_insert os index_tree index_key primary_key)))))"

definition execute_insert_statement ::
    "'w win32 \<Rightarrow> bound_insert_statement \<Rightarrow> ('w, execution_outcome) db_run" where
  "execute_insert_statement os st =
     bind_run (lookup_or InternalError (\<lambda>cat. find_table_by_id cat (bin_table_id st))) (\<lambda>table_descriptor.
     bind_run (lookup_or InternalError (\<lambda>cat. schema_for_table cat (bin_table_id st))) (\<lambda>s.
     require_that (\<not> length (bin_values st) \<noteq> length (sch_columns s)) InvalidArgument (
     bind_run (check_that (convert_values (sch_columns s) (bin_values st))) (\<lambda>values.
     bind_run (check_that (build_row s values)) (\<lambda>row.
     bind_run (check_that (row_encode s row)) (\<lambda>row_bytes.
     bind_run (check_that (primary_key_bytes s row)) (\<lambda>primary_key.
     bind_run (open_table_tree os table_descriptor) (\<lambda>tree.
     writing_statement os (\<lambda>_.
       bind_run (on_pager (btree_insert os tree primary_key row_bytes)) (\<lambda>_.
       bind_run (get_catalog (\<lambda>cat. indexes_for_table cat (bin_table_id st))) (\<lambda>index_descriptors.
       bind_run (for_all index_descriptors (insert_into_index os (bin_table_id st) s row primary_key)) (\<lambda>_.
       done_with (count_outcome 1)))))))))))))"

section \<open>UPDATE\<close>

record affected_index =
  ai_tree :: btree
  ai_indexed_column_ordinal :: nat
  ai_unique :: bool

text \<open>The loop that opens the indexes: those of which \<open>affected\<close> holds for the ordinal.\<close>

fun open_affected_indexes ::
    "'w win32 \<Rightarrow> table_id \<Rightarrow> (nat \<Rightarrow> bool) \<Rightarrow> index_descriptor list \<Rightarrow> ('w, affected_index list) db_run" where
  "open_affected_indexes os table_id affected [] = done_with []"
| "open_affected_indexes os table_id affected (index_descriptor # index_descriptors) =
     (if ixd_primary index_descriptor then open_affected_indexes os table_id affected index_descriptors
      else
        bind_run (lookup_or InternalError (\<lambda>cat. find_column_by_id cat table_id
          (ixd_indexed_column_id index_descriptor))) (\<lambda>indexed_column.
        if \<not> affected (cld_ordinal indexed_column) then open_affected_indexes os table_id affected index_descriptors
        else
          bind_run (open_index_tree os index_descriptor) (\<lambda>index_tree.
          bind_run (open_affected_indexes os table_id affected index_descriptors) (\<lambda>rest.
          done_with (\<lparr>ai_tree = index_tree, ai_indexed_column_ordinal = cld_ordinal indexed_column,
            ai_unique = ixd_unique index_descriptor\<rparr> # rest)))))"

text \<open>The changes of the index keys of one row: the tree with the old and the new key.\<close>

fun pending_index_updates ::
    "schema \<Rightarrow> row \<Rightarrow> row \<Rightarrow> bytes \<Rightarrow> affected_index list \<Rightarrow> (btree \<times> bytes \<times> bytes) list result" where
  "pending_index_updates s old_row new_row primary_key [] = Inr []"
| "pending_index_updates s old_row new_row primary_key (index # indexes) =
     bind_result (indexed_key_bytes s old_row (ai_indexed_column_ordinal index)) (\<lambda>old_key.
     bind_result (indexed_key_bytes s new_row (ai_indexed_column_ordinal index)) (\<lambda>new_key.
     let old_index_key = (if \<not> ai_unique index then old_key @ primary_key else old_key);
         new_index_key = (if \<not> ai_unique index then new_key @ primary_key else new_key) in
     bind_result (pending_index_updates s old_row new_row primary_key indexes) (\<lambda>pending.
     Inr (if old_index_key = new_index_key then pending
       else (ai_tree index, old_index_key, new_index_key) # pending))))"

definition process_update_candidate ::
    "'w win32 \<Rightarrow> schema \<Rightarrow> btree \<Rightarrow> affected_index list \<Rightarrow> nat list \<Rightarrow> db_value list \<Rightarrow> predicate_state \<Rightarrow>
     nat \<Rightarrow> bytes \<times> bytes \<Rightarrow> ('w, nat) db_run" where
  "process_update_candidate os s table_tree affected_indexes ordinals values state rows_affected entry =
     bind_run (check_that (row_decode s (snd entry))) (\<lambda>row.
     bind_run (check_that (row_matches_predicate row state)) (\<lambda>matches.
     if \<not> matches then done_with rows_affected
     else
       bind_run (check_that (replace_non_primary_key_values s row ordinals values)) (\<lambda>updated_row.
       bind_run (check_that (row_encode s updated_row)) (\<lambda>updated_row_bytes.
       bind_run (check_that (pending_index_updates s row updated_row (fst entry) affected_indexes)) (\<lambda>pending.
       bind_run (for_all pending (\<lambda>(tree, old_key, new_key). on_pager (btree_erase os tree old_key))) (\<lambda>_.
       bind_run (on_pager (btree_update_value os table_tree (fst entry) updated_row_bytes)) (\<lambda>_.
       bind_run (for_all pending (\<lambda>(tree, old_key, new_key).
         on_pager (btree_insert os tree new_key (fst entry)))) (\<lambda>_.
       done_with (rows_affected + 1)))))))))"

text \<open>A loop over pending entries that runs a callback on each.\<close>

fun process_all :: "('x \<Rightarrow> bytes \<times> bytes \<Rightarrow> ('w, 'x) db_run) \<Rightarrow> (bytes \<times> bytes) list \<Rightarrow> 'x \<Rightarrow> ('w, 'x) db_run" where
  "process_all process [] x = done_with x"
| "process_all process (entry # entries) x = bind_run (process x entry) (\<lambda>x'. process_all process entries x')"

text \<open>
  The access path of \<open>UPDATE\<close>: through a secondary index the rows are collected first, because the
  update changes the index that is scanned.
\<close>

definition update_access_path ::
    "'w win32 \<Rightarrow> btree \<Rightarrow> access_path \<Rightarrow> predicate_state \<Rightarrow> (nat \<Rightarrow> bytes \<times> bytes \<Rightarrow> ('w, nat) db_run) \<Rightarrow> ('w, nat) db_run" where
  "update_access_path os table_tree path state process =
     (case path of
        SecondaryIndexRangePath index_descriptor \<Rightarrow>
          bind_run (scan_secondary_index_range os table_tree index_descriptor state
            (\<lambda>pending_updates entry. done_with (pending_updates @ [entry])) []) (\<lambda>pending_updates.
          process_all process pending_updates 0)
      | _ \<Rightarrow> scan_access_path os table_tree path state process 0)"

definition execute_update_statement ::
    "'w win32 \<Rightarrow> bound_update_statement \<Rightarrow> ('w, execution_outcome) db_run" where
  "execute_update_statement os st =
     bind_run (lookup_or InternalError (\<lambda>cat. find_table_by_id cat (bup_table_id st))) (\<lambda>table_descriptor.
     bind_run (lookup_or InternalError (\<lambda>cat. schema_for_table cat (bup_table_id st))) (\<lambda>s.
     let assignment_ordinal = bc_ordinal (ba_column (bup_assignment st));
         assignment_column = sch_columns s ! assignment_ordinal in
     bind_run (check_that (convert_to (ba_value (bup_assignment st)) (col_type assignment_column)
       (col_nullable assignment_column))) (\<lambda>assignment_value.
     bind_run (check_that (resolve_predicate_state s (bup_predicate st))) (\<lambda>state.
     if state = Impossible then done_with (count_outcome 0)
     else
       bind_run (open_table_tree os table_descriptor) (\<lambda>table_tree.
       bind_run (get_catalog (\<lambda>cat. indexes_for_table cat (bup_table_id st))) (\<lambda>index_descriptors.
       let path = plan_access_path s index_descriptors state in
       writing_statement os (\<lambda>_.
         bind_run (open_affected_indexes os (bup_table_id st) (\<lambda>ordinal. ordinal = assignment_ordinal)
           index_descriptors) (\<lambda>affected_indexes.
         bind_run (update_access_path os table_tree path state (process_update_candidate os s table_tree
           affected_indexes [assignment_ordinal] [assignment_value] state)) (\<lambda>rows_affected.
         done_with (count_outcome rows_affected))))))))))"

section \<open>DELETE\<close>

definition process_delete_candidate ::
    "schema \<Rightarrow> predicate_state \<Rightarrow> (bytes \<times> row) list \<Rightarrow> bytes \<times> bytes \<Rightarrow> ('w, (bytes \<times> row) list) db_run" where
  "process_delete_candidate s state pending_deletions entry =
     bind_run (check_that (row_decode s (snd entry))) (\<lambda>row.
     bind_run (check_that (row_matches_predicate row state)) (\<lambda>matches.
     done_with (if \<not> matches then pending_deletions else pending_deletions @ [(fst entry, row)])))"

text \<open>One round of the loop that applies the deletions.\<close>

definition apply_deletion ::
    "'w win32 \<Rightarrow> schema \<Rightarrow> btree \<Rightarrow> affected_index list \<Rightarrow> bytes \<times> row \<Rightarrow> ('w, unit) db_run" where
  "apply_deletion os s table_tree affected_indexes deletion =
     bind_run (for_all affected_indexes (\<lambda>maintained_index.
       bind_run (check_that (index_key_for s (ai_unique maintained_index)
         (ai_indexed_column_ordinal maintained_index) (fst deletion) (snd deletion))) (\<lambda>index_key.
       on_pager (btree_erase os (ai_tree maintained_index) index_key)))) (\<lambda>_.
     on_pager (btree_erase os table_tree (fst deletion)))"

definition execute_delete_statement ::
    "'w win32 \<Rightarrow> bound_delete_statement \<Rightarrow> ('w, execution_outcome) db_run" where
  "execute_delete_statement os st =
     bind_run (lookup_or InternalError (\<lambda>cat. find_table_by_id cat (bde_table_id st))) (\<lambda>table_descriptor.
     bind_run (lookup_or InternalError (\<lambda>cat. schema_for_table cat (bde_table_id st))) (\<lambda>s.
     bind_run (check_that (resolve_predicate_state s (bde_predicate st))) (\<lambda>state.
     if state = Impossible then done_with (count_outcome 0)
     else
       bind_run (open_table_tree os table_descriptor) (\<lambda>table_tree.
       bind_run (get_catalog (\<lambda>cat. indexes_for_table cat (bde_table_id st))) (\<lambda>index_descriptors.
       let path = plan_access_path s index_descriptors state in
       writing_statement os (\<lambda>_.
         bind_run (open_affected_indexes os (bde_table_id st) (\<lambda>_. True) index_descriptors) (\<lambda>affected_indexes.
         bind_run (scan_access_path os table_tree path state (process_delete_candidate s state) []) (\<lambda>pending_deletions.
         bind_run (for_all pending_deletions (apply_deletion os s table_tree affected_indexes)) (\<lambda>_.
         done_with (count_outcome (length pending_deletions)))))))))))"

section \<open>Transactions and checkpoints\<close>

definition execute_begin_statement :: "('w, execution_outcome) db_run" where
  "execute_begin_statement =
     bind_run (pager_call pager_begin_transaction) (\<lambda>_. done_with (message_outcome ''Transaction started''))"

definition execute_commit_statement :: "'w win32 \<Rightarrow> ('w, execution_outcome) db_run" where
  "execute_commit_statement os =
     bind_run (pager_call (pager_commit_transaction os)) (\<lambda>_.
     bind_run on_transaction_committed (\<lambda>_. done_with (message_outcome ''Transaction committed'')))"

definition execute_rollback_statement :: "('w, execution_outcome) db_run" where
  "execute_rollback_statement =
     bind_run (pager_call pager_rollback_transaction) (\<lambda>_.
     bind_run on_transaction_rolled_back (\<lambda>_. done_with (message_outcome ''Transaction rolled back'')))"

definition execute_checkpoint_statement :: "'w win32 \<Rightarrow> ('w, execution_outcome) db_run" where
  "execute_checkpoint_statement os =
     bind_run (pager_call (pager_checkpoint os)) (\<lambda>_. done_with (message_outcome ''Checkpoint completed''))"

section \<open>execute\<close>

fun execute_bound :: "'w win32 \<Rightarrow> bound_statement \<Rightarrow> ('w, execution_outcome) db_run" where
  "execute_bound os (BoundCreateTable st) = execute_create_table_statement os st"
| "execute_bound os (BoundCreateIndex st) = execute_create_index_statement os st"
| "execute_bound os (BoundDropIndex st) = execute_drop_index_statement os st"
| "execute_bound os (BoundDropTable st) = execute_drop_table_statement os st"
| "execute_bound os (BoundSelect st) = execute_select_statement os st"
| "execute_bound os (BoundInsert st) = execute_insert_statement os st"
| "execute_bound os (BoundUpdate st) = execute_update_statement os st"
| "execute_bound os (BoundDelete st) = execute_delete_statement os st"
| "execute_bound os (BoundBegin location) = execute_begin_statement"
| "execute_bound os (BoundCommit location) = execute_commit_statement os"
| "execute_bound os (BoundRollback location) = execute_rollback_statement"
| "execute_bound os (BoundCheckpoint location) = execute_checkpoint_statement os"

fun is_rollback :: "statement \<Rightarrow> bool" where
  "is_rollback (RollbackStatement location) = True"
| "is_rollback _ = False"

definition execute_statement :: "'w win32 \<Rightarrow> statement \<Rightarrow> ('w, execution_outcome) db_run" where
  "execute_statement os st =
     bind_run (pager_call (get_pager pr_tx)) (\<lambda>t.
     require_that (\<not> tx_is_unresolved t) TransactionError (
     require_that (\<not> (tx_is_failed t \<and> \<not> is_rollback st)) TransactionError (
     bind_run (get_catalog (\<lambda>cat. bind cat st)) (\<lambda>bound.
     bind_run (check_that bound) (execute_bound os)))))"

text \<open>\<open>if(pager_->in_transaction()) pager_->mark_transaction_failed();\<close> whose status is ignored.\<close>

definition mark_failed_if_in_transaction :: "'w db_state \<Rightarrow> 'w db_state" where
  "mark_failed_if_in_transaction s =
     (if tx_in_transaction (pr_tx (fst (snd s))) then (fst s, fst (pager_mark_transaction_failed (snd s))) else s)"

text \<open>The loop over the statements, which ends at the first failure.\<close>

fun execute_statements ::
    "'w win32 \<Rightarrow> statement list \<Rightarrow> 'w db_state \<Rightarrow> ('w db_state \<times> execution_result list) option" where
  "execute_statements os [] s = Some (s, [])"
| "execute_statements os (st # sts) s = Option.bind (execute_statement os st s) (\<lambda>(s1, r).
     case r of
       Inl e \<Rightarrow> Some (mark_failed_if_in_transaction s1, [Inl e])
     | Inr outcome \<Rightarrow> map_option (\<lambda>(s2, results). (s2, Inr outcome # results)) (execute_statements os sts s1))"

definition syntax_failure ::
    "status_code \<Rightarrow> 'w db_state \<Rightarrow> ('w db_state \<times> execution_result list) option" where
  "syntax_failure e s =
     Some (if e \<noteq> IncompleteInput then mark_failed_if_in_transaction s else s, [Inl e])"

definition execute :: "'w win32 \<Rightarrow> string \<Rightarrow> 'w db_state \<Rightarrow> ('w db_state \<times> execution_result list) option" where
  "execute os sql_string s =
     (if tx_is_unresolved (pr_tx (fst (snd s))) then Some (s, [Inl TransactionError])
      else case tokenize sql_string of
        Inl e \<Rightarrow> syntax_failure e s
      | Inr tokens \<Rightarrow> Option.bind (parse tokens) (\<lambda>parsed_statements.
          case parsed_statements of
            Inl e \<Rightarrow> syntax_failure e s
          | Inr statements \<Rightarrow> execute_statements os statements s))"

section \<open>Opening and closing\<close>

definition DEFAULT_BUFFER_POOL_CAPACITY :: nat where
  "DEFAULT_BUFFER_POOL_CAPACITY = 4096"

definition database_open_or_create :: "'w win32 \<Rightarrow> path \<Rightarrow> u64 \<Rightarrow> ('w, catalog \<times> 'w pager) run" where
  "database_open_or_create os p database_id =
     bind_run (pager_open_or_create os p DEFAULT_BUFFER_POOL_CAPACITY database_id) (\<lambda>pager w.
       map_option (\<lambda>((pr, w1), r). case r of
           Inl e \<Rightarrow> (destroy_pager os pr w1, Inl e)
         | Inr cat \<Rightarrow> (w1, Inr (cat, pr)))
       (catalog_load os (pager, w)))"

definition database_close :: "'w win32 \<Rightarrow> ('w, unit) db_run" where
  "database_close os = pager_call (pager_close os)"

end
