(* ===== verification/Queries.thy ===== *)
theory Queries
  imports KeyRanges Database BTreeProperties "HOL-Library.Multiset"
begin

text \<open>
  The queries of \<^verbatim>\<open>execution/Database.cpp\<close> on stored tables: runs that change neither the catalog nor a
  page, the entries that a list of cursors passes to its callback, and the rows that the three
  access paths find.
\<close>

section \<open>Runs that only read\<close>

text \<open>
  \<open>reads content txns db c m run V\<close>: from the catalog \<open>c\<close> and a state between two operations whose
  pages are \<open>m\<close>, the run returns with the same catalog and pages, and its value satisfies \<open>V\<close>.
\<close>

definition reads :: "('w \<Rightarrow> path \<Rightarrow> bytes option) \<Rightarrow> wal_txn list \<Rightarrow> bytes \<Rightarrow> catalog \<Rightarrow> page_store \<Rightarrow>
    ('w, 'a) db_run \<Rightarrow> ('a \<Rightarrow> bool) \<Rightarrow> bool" where
  "reads content txns db c m run V \<longleftrightarrow>
     (\<forall>s. pages_ok content txns db [] s \<longrightarrow> page_map db txns s = m \<longrightarrow>
        (\<exists>s' r. run (c, s) = Some ((c, s'), r) \<and> pages_ok content txns db [] s' \<and> page_map db txns s' = m \<and>
           (\<forall>x. r = Inr x \<longrightarrow> V x)))"

lemma readsD:
  assumes "reads content txns db c m run V" "pages_ok content txns db [] s" "page_map db txns s = m"
  shows "\<exists>s' r. run (c, s) = Some ((c, s'), r) \<and> pages_ok content txns db [] s' \<and> page_map db txns s' = m \<and>
    (\<forall>x. r = Inr x \<longrightarrow> V x)"
  using assms unfolding reads_def by blast

named_theorems reads_rules \<open>runs that only read\<close>

lemma reads_bind:
  assumes "reads content txns db c m run V" "\<And>x. V x \<Longrightarrow> reads content txns db c m (f x) W"
  shows "reads content txns db c m (bind_run run f) W"
  unfolding reads_def
proof (intro allI impI)
  fix s assume s: "pages_ok content txns db [] s" "page_map db txns s = m"
  with assms(1) obtain s1 r1 where run: "run (c, s) = Some ((c, s1), r1)" "pages_ok content txns db [] s1"
      "page_map db txns s1 = m" "\<forall>x. r1 = Inr x \<longrightarrow> V x"
    unfolding reads_def by blast
  show "\<exists>s' r. bind_run run f (c, s) = Some ((c, s'), r) \<and> pages_ok content txns db [] s' \<and>
      page_map db txns s' = m \<and> (\<forall>x. r = Inr x \<longrightarrow> W x)"
  proof (cases r1)
    case (Inl e)
    with run show ?thesis by (simp add: bind_run_def)
  next
    case (Inr x)
    with run have "V x" by simp
    from assms(2)[OF this] run(2,3) obtain s2 r2 where "f x (c, s1) = Some ((c, s2), r2)"
        "pages_ok content txns db [] s2" "page_map db txns s2 = m" "\<forall>x. r2 = Inr x \<longrightarrow> W x"
      unfolding reads_def by blast
    with run Inr show ?thesis by (simp add: bind_run_def)
  qed
qed

lemma reads_weaken: "reads content txns db c m run V \<Longrightarrow> (\<And>x. V x \<Longrightarrow> W x) \<Longrightarrow> reads content txns db c m run W"
  unfolding reads_def by (fast dest: spec)

lemma reads_on_pager:
  assumes "run_triple content txns db [] (\<lambda>m'. m' = m) run (\<lambda>x m'. V x \<and> m' = m) (\<lambda>m'. m' = m)"
  shows "reads content txns db c m (on_pager run) V"
  unfolding reads_def
proof (intro allI impI)
  fix s assume "pages_ok content txns db [] s" "page_map db txns s = m"
  with assms obtain s1 r where "run s = Some (s1, r)" "pages_ok content txns db [] s1"
      "case r of Inl e \<Rightarrow> page_map db txns s1 = m | Inr x \<Rightarrow> V x \<and> page_map db txns s1 = m"
    unfolding run_triple_def by blast
  then show "\<exists>s' r. on_pager run (c, s) = Some ((c, s'), r) \<and> pages_ok content txns db [] s' \<and>
      page_map db txns s' = m \<and> (\<forall>x. r = Inr x \<longrightarrow> V x)"
    by (cases r) (auto simp: on_pager_def)
qed

lemma reads_pager_call:
  assumes "page_triple content txns db [] (\<lambda>m'. m' = m) run (\<lambda>x m'. V x \<and> m' = m) (\<lambda>m'. m' = m)"
  shows "reads content txns db c m (pager_call run) V"
  unfolding pager_call_def by (rule reads_on_pager[OF run_returns[OF assms]])

lemma reads_basic [reads_rules]:
  "V x \<Longrightarrow> reads content txns db c m (done_with x) V"
  "reads content txns db c m (stop_with e) V"
  "(\<And>x. r = Inr x \<Longrightarrow> V x) \<Longrightarrow> reads content txns db c m (check_that r) V"
  "V (f c) \<Longrightarrow> reads content txns db c m (get_catalog f) V"
  "(b \<Longrightarrow> reads content txns db c m run V) \<Longrightarrow> reads content txns db c m (require_that b e run) V"
  "(\<And>x. g c = Some x \<Longrightarrow> V x) \<Longrightarrow> reads content txns db c m (lookup_or e g) V"
  by (auto simp: reads_def done_with_def stop_with_def check_that_def get_catalog_def require_that_def lookup_or_def
      bind_run_def split: option.splits)

lemma reads_bind_basic [reads_rules]:
  "(\<And>x. g c = Some x \<Longrightarrow> reads content txns db c m (f x) W) \<Longrightarrow> reads content txns db c m (bind_run (lookup_or e g) f) W"
  "(\<And>x. r = Inr x \<Longrightarrow> reads content txns db c m (f' x) W) \<Longrightarrow> reads content txns db c m (bind_run (check_that r) f') W"
  "reads content txns db c m (f'' (h c)) W \<Longrightarrow> reads content txns db c m (bind_run (get_catalog h) f'') W"
  by (auto intro: reads_bind[OF reads_basic(6)[where V = "\<lambda>x. g c = Some x"]]
      reads_bind[OF reads_basic(3)[where V = "\<lambda>x. r = Inr x"]] reads_bind[OF reads_basic(4)[where V = "\<lambda>x. x = h c"]])

section \<open>Cursors\<close>

context win32_files
begin

lemma reads_consume_cursor:
  assumes "btree_stores bt m t" "cursor_at t cu rest" "bound_fits bt (cu_upper_bound cu)"
    and "\<And>e x. e \<in> set rest \<Longrightarrow> reads content txns db c m (process x e) (\<lambda>x'. x' = f x e)"
  shows "reads content txns db c m (consume_cursor os process cu x)
    (\<lambda>x'. x' = foldl f x (takeWhile (within_bound cu) rest))"
  using assms(2-4)
proof (induction rest arbitrary: cu x)
  case Nil
  show ?case
    unfolding reads_def
  proof (intro allI impI)
    fix s assume s: "pages_ok content txns db [] s" "page_map db txns s = m"
    from cursor_next_run[OF s(1) _ Nil(1,2)] assms(1) s(2) obtain s' cu' r where
      "cursor_next os s cu = Some (s', cu', r)" "pages_ok content txns db [] s'" "page_map db txns s' = m"
      "\<And>e. r \<noteq> Inr (Some e)"
      by (fastforce split: sum.splits option.splits)
    then show "\<exists>s' r. consume_cursor os process cu x (c, s) = Some ((c, s'), r) \<and> pages_ok content txns db [] s' \<and>
        page_map db txns s' = m \<and> (\<forall>x'. r = Inr x' \<longrightarrow> x' = foldl f x (takeWhile (within_bound cu) []))"
      by (subst consume_cursor.simps) (auto simp del: split_paired_Ex split: sum.splits option.splits)
  qed
next
  case (Cons e rest)
  show ?case
    unfolding reads_def
  proof (intro allI impI)
    fix s assume s: "pages_ok content txns db [] s" "page_map db txns s = m"
    from cursor_next_run[OF s(1) _ Cons.prems(1,2)] assms(1) s(2) obtain s' cu' r where
      step: "cursor_next os s cu = Some (s', cu', r)" "pages_ok content txns db [] s'" "page_map db txns s' = m"
        "cu_upper_bound cu' = cu_upper_bound cu"
      and r: "case r of Inl e' \<Rightarrow> True | Inr None \<Rightarrow> \<not> within_bound cu e
        | Inr (Some e') \<Rightarrow> e' = e \<and> within_bound cu e \<and> cursor_at t cu' rest"
      by (fastforce split: sum.splits option.splits)
    show "\<exists>s' r. consume_cursor os process cu x (c, s) = Some ((c, s'), r) \<and> pages_ok content txns db [] s' \<and>
        page_map db txns s' = m \<and> (\<forall>x'. r = Inr x' \<longrightarrow> x' = foldl f x (takeWhile (within_bound cu) (e # rest)))"
    proof (cases "\<exists>e'. r = Inr (Some e')")
      case False
      then show ?thesis
        using step r by (subst consume_cursor.simps) (auto simp del: split_paired_Ex split: sum.splits option.splits)
    next
      case True
      with r have e: "r = Inr (Some e)" "within_bound cu e" "cursor_at t cu' rest"
        by auto
      have same: "within_bound cu' = within_bound cu"
        using step(4) by (simp add: within_bound_def fun_eq_iff)
      have "reads content txns db c m (bind_run (process x e) (\<lambda>x'. consume_cursor os process cu' x'))
          (\<lambda>x'. x' = foldl f (f x e) (takeWhile (within_bound cu') rest))"
        using Cons.prems step(4) e(3) by (intro reads_bind[OF Cons.prems(3)]) (auto intro: Cons.IH)
      from readsD[OF this step(2,3)] show ?thesis
        unfolding same using step(1) e(1,2)
        by (subst consume_cursor.simps) (simp del: split_paired_Ex)
    qed
  qed
qed

lemma reads_scan_range:
  assumes "btree_stores bt m t"
  shows "reads content txns db c m (on_pager (btree_scan_range os bt lower upper))
    (\<lambda>cu. cu_upper_bound cu = upper \<and> bound_fits bt upper \<and> cursor_at t cu
      (dropWhile (\<lambda>e. case lower of None \<Rightarrow> False | Some key \<Rightarrow> fst e < key) (contents t)))"
proof (cases "bound_fits bt lower \<and> bound_fits bt upper")
  case True
  show ?thesis
    using True assms by (intro reads_on_pager run_weaken[OF scan_run[where ?m1.0 = m and t = t]]) auto
next
  case False
  then have "btree_scan_range os bt lower upper = returns (fail_action InvalidArgument)"
    by (auto simp: btree_scan_range_def)
  then show ?thesis
    by (simp add: reads_on_pager run_returns triple_fail)
qed

lemma sorted_contents: "btree_stores bt m t \<Longrightarrow> sorted (map fst (contents t))"
  using ordered_contents(2)[of "[]" None t] by (simp add: btree_stores_def forest_def)

end

text \<open>The entries in a range, as the cursor of the range finds them.\<close>

definition range_entries :: "(bytes \<times> bytes) list \<Rightarrow> key_range \<Rightarrow> (bytes \<times> bytes) list" where
  "range_entries es r = filter (\<lambda>e. in_range (fst e) r) es"

lemma sorted_range:
  assumes "sorted (map fst es)"
  shows "takeWhile (\<lambda>e. case snd r of None \<Rightarrow> True | Some u \<Rightarrow> fst e < u)
    (dropWhile (\<lambda>e. case fst r of None \<Rightarrow> False | Some l \<Rightarrow> fst e < l) es) = range_entries es r"
proof -
  have up: "takeWhile (\<lambda>e. fst e < u) es = filter (\<lambda>e. fst e < u) es" if "sorted (map fst es)"
    for u and es :: "(bytes \<times> bytes) list"
    using that
  proof (induction es)
    case (Cons e es)
    then show ?case
      by (cases "fst e < u") (auto simp: not_less intro!: filter_False[symmetric] intro: order_trans)
  qed simp
  have down: "dropWhile (\<lambda>e. fst e < l) es = filter (\<lambda>e. \<not> fst e < l) es" if "sorted (map fst es)"
    for l and es :: "(bytes \<times> bytes) list"
    using that by (simp add: dropWhile_below not_less)
  show ?thesis
    using up[OF assms] down[OF assms] up[OF sorted_filter[OF assms]] takeWhile_eq_all_conv[of "\<lambda>e. True"]
    by (cases "fst r"; cases "snd r")
      (simp_all add: range_entries_def in_range_def dropWhile_False conj_commute)
qed

definition cursor_for :: "btree \<Rightarrow> tree \<Rightarrow> key_range \<Rightarrow> btree_cursor \<Rightarrow> bool" where
  "cursor_for bt t r cu \<longleftrightarrow> cu_upper_bound cu = snd r \<and> bound_fits bt (snd r) \<and>
     cursor_at t cu (dropWhile (\<lambda>e. case fst r of None \<Rightarrow> False | Some l \<Rightarrow> fst e < l) (contents t))"

lemma on_pager_bind [simp]: "on_pager (bind_run run f) = bind_run (on_pager run) (\<lambda>x. on_pager (f x))"
proof
  fix s
  show "on_pager (bind_run run f) s = bind_run (on_pager run) (\<lambda>x. on_pager (f x)) s"
    by (cases "run (snd s)") (auto simp: on_pager_def bind_run_def split: sum.splits)
qed

lemma on_pager_simps [simp]:
  "on_pager (returns (return_action x)) = done_with x"
  "on_pager (returns (fail_action e)) = stop_with e"
  "on_pager (returns (lift_result r)) = check_that r"
  by (simp_all add: fun_eq_iff on_pager_def done_with_def stop_with_def check_that_def returns_def)

context win32_files
begin

lemma reads_open_ranges:
  assumes "btree_stores bt m t"
  shows "reads content txns db c m (on_pager (open_ranges os bt ranges)) (list_all2 (cursor_for bt t) ranges)"
proof (induction ranges)
  case (Cons r ranges)
  obtain lower upper where r: "r = (lower, upper)"
    by (cases r)
  show ?case
    unfolding r open_ranges.simps on_pager_bind on_pager_simps
  proof (rule reads_bind[OF reads_scan_range[OF assms]], rule reads_bind[OF Cons], rule reads_basic)
    fix cu cus
    assume "cu_upper_bound cu = upper \<and> bound_fits bt upper \<and> cursor_at t cu
        (dropWhile (\<lambda>e. case lower of None \<Rightarrow> False | Some key \<Rightarrow> fst e < key) (contents t))"
      "list_all2 (cursor_for bt t) ranges cus"
    then show "list_all2 (cursor_for bt t) ((lower, upper) # ranges) (cu # cus)"
      by (simp add: cursor_for_def)
  qed
qed (simp add: reads_basic)

lemma reads_consume_table_cursors:
  assumes "btree_stores bt m t" "list_all2 (cursor_for bt t) ranges cus"
    and "\<And>e x. e \<in> set (contents t) \<Longrightarrow> reads content txns db c m (process x e) (\<lambda>x'. x' = f x e)"
  shows "reads content txns db c m (consume_table_cursors os process cus x)
    (\<lambda>x'. x' = foldl f x (concat (map (range_entries (contents t)) ranges)))"
  using assms(2)
proof (induction ranges cus arbitrary: x rule: list_all2_induct)
  case (Cons r ranges cu cus)
  let ?rest = "dropWhile (\<lambda>e. case fst r of None \<Rightarrow> False | Some l \<Rightarrow> fst e < l) (contents t)"
  have cu: "cursor_at t cu ?rest" "bound_fits bt (cu_upper_bound cu)" "cu_upper_bound cu = snd r"
    using Cons(1) by (auto simp: cursor_for_def)
  have "takeWhile (within_bound cu) ?rest = range_entries (contents t) r"
    using sorted_range[OF sorted_contents[OF assms(1)], of r] by (simp add: within_bound_def[abs_def] cu(3))
  with reads_consume_cursor[OF assms(1) cu(1,2), where txns = txns and db = db and c = c and process = process and f = f and x = x]
  have "reads content txns db c m (consume_cursor os process cu x)
      (\<lambda>x'. x' = foldl f x (range_entries (contents t) r))"
    using assms(3) set_dropWhileD by fastforce
  then show ?case
    unfolding consume_table_cursors.simps by (rule reads_bind) (use Cons(3) in simp)
qed (simp add: reads_basic)

lemma reads_scan_table:
  assumes "btree_stores bt m t"
    and "\<And>e x. e \<in> set (contents t) \<Longrightarrow> reads content txns db c m (process x e) (\<lambda>x'. x' = f x e)"
  shows "reads content txns db c m (scan_table os bt process x) (\<lambda>x'. x' = foldl f x (contents t))"
  unfolding scan_table_def btree_scan_def
proof (rule reads_bind[OF reads_scan_range[OF assms(1)]])
  fix cu assume "cu_upper_bound cu = None \<and> bound_fits bt None \<and> cursor_at t cu
      (dropWhile (\<lambda>e. case None of None \<Rightarrow> False | Some key \<Rightarrow> fst e < key) (contents t))"
  then have "list_all2 (cursor_for bt t) [(None, None)] [cu]"
    by (simp add: cursor_for_def)
  from reads_consume_table_cursors[OF assms(1) this assms(2)]
  show "reads content txns db c m (consume_table_cursors os process [cu] x) (\<lambda>x'. x' = foldl f x (contents t))"
    by (simp add: range_entries_def in_range_def)
qed

lemma reads_open_cursors:
  assumes "btree_stores bt m t"
  shows "reads content txns db c m (on_pager (open_cursors os bt op key nxt))
    (\<lambda>cus. \<exists>ranges. cursor_ranges op key nxt = Inr ranges \<and> list_all2 (cursor_for bt t) ranges cus)"
  unfolding open_cursors_def on_pager_bind on_pager_simps
proof (rule reads_bind)
  show "reads content txns db c m (check_that (cursor_ranges op key nxt)) (\<lambda>ranges. cursor_ranges op key nxt = Inr ranges)"
    by (simp add: reads_basic)
  fix ranges assume "cursor_ranges op key nxt = Inr ranges"
  then show "reads content txns db c m (on_pager (open_ranges os bt ranges))
      (\<lambda>cus. \<exists>ranges. cursor_ranges op key nxt = Inr ranges \<and> list_all2 (cursor_for bt t) ranges cus)"
    by (auto intro: reads_weaken[OF reads_open_ranges[OF assms]])
qed

end

section \<open>The rows of a query\<close>

lemma filter_append_sorted:
  assumes "sorted (map fst es)" "\<And>a b. a \<in> set es \<Longrightarrow> b \<in> set es \<Longrightarrow> P a \<Longrightarrow> Q b \<Longrightarrow> fst a < fst b"
  shows "filter P es @ filter Q es = filter (\<lambda>e. P e \<or> Q e) es"
  using assms
proof (induction es)
  case (Cons e es)
  have rest: "filter P es @ filter Q es = filter (\<lambda>e. P e \<or> Q e) es"
    using Cons by simp
  show ?case
  proof (cases "Q e")
    case True
    have "\<not> P b" if "b \<in> set (e # es)" for b
      using Cons.prems(1) Cons.prems(2)[of b e] that True by fastforce
    with rest True show ?thesis by auto
  next
    case False
    with rest show ?thesis by simp
  qed
qed simp

lemma entries_of_ranges:
  assumes "cursor_ranges op key (next_key_bytes key) = Inr ranges" "sorted (map fst es)"
    and len: "\<And>e. e \<in> set es \<Longrightarrow> length (fst e) = length key"
  shows "concat (map (range_entries es) ranges) = filter (\<lambda>e. key_matches op key (fst e)) es"
proof -
  have count: "length (filter (in_range (fst e)) ranges) = (if key_matches op key (fst e) then 1 else 0)"
    if "e \<in> set es" for e
    using ranges_of_comparison[OF assms(1) len[OF that]] .
  consider "ranges = []" | r where "ranges = [r]" | n where "ranges = [(None, Some key), (Some n, None)]" "next_key_bytes key = Some n"
    using assms(1) by (cases op) (auto split: option.splits)
  then show ?thesis
  proof cases
    case 1
    have "\<not> key_matches op key (fst e)" if "e \<in> set es" for e
      using count[OF that] 1 by (auto split: if_splits)
    with 1 show ?thesis by simp
  next
    case 2
    have "in_range (fst e) r \<longleftrightarrow> key_matches op key (fst e)" if "e \<in> set es" for e
      using count[OF that] 2 by (auto split: if_splits)
    with 2 show ?thesis by (simp add: range_entries_def cong: filter_cong)
  next
    case 3
    have "fst a < fst b" if "a \<in> set es" "b \<in> set es" "fst a < key" "\<not> fst b < n" for a b
      using next_key_bytes_successor[of "fst b" key] len[OF that(2)] 3(2) that(3,4) by auto
    then have "concat (map (range_entries es) ranges) = filter (\<lambda>e. fst e < key \<or> \<not> fst e < n) es"
      using filter_append_sorted[OF assms(2), of "\<lambda>e. fst e < key" "\<lambda>e. \<not> fst e < n"]
      by (simp add: 3 range_entries_def in_range_def)
    also have "\<dots> = filter (\<lambda>e. key_matches op key (fst e)) es"
    proof (rule filter_cong[OF refl])
      fix e assume "e \<in> set es"
      from count[OF this] show "(fst e < key \<or> \<not> fst e < n) \<longleftrightarrow> key_matches op key (fst e)"
        by (auto simp: 3(1) in_range_def split: if_splits)
    qed
    finally show ?thesis .
  qed
qed

text \<open>What the callback of \<open>SELECT\<close> adds for an entry of the table, and for all of them.\<close>

definition selected_rows :: "schema \<Rightarrow> bound_column list \<Rightarrow> predicate_state \<Rightarrow> bytes \<times> bytes \<Rightarrow> row list" where
  "selected_rows s projection state e = (case row_decode s (snd e) of
     Inl _ \<Rightarrow> []
   | Inr row \<Rightarrow> if row_matches_predicate row state = Inr True then [map (\<lambda>column. row ! bc_ordinal column) projection]
       else [])"

definition query_rows :: "schema \<Rightarrow> bound_column list \<Rightarrow> predicate_state \<Rightarrow> (bytes \<times> bytes) list \<Rightarrow> row list" where
  "query_rows s projection state es = concat (map (selected_rows s projection state) es)"

lemma reads_process_row_bytes:
  "reads content txns db c m (process_row_bytes s projection state rows e)
    (\<lambda>rows'. rows' = rows @ selected_rows s projection state e)"
  unfolding process_row_bytes_def
proof (rule reads_bind, rule reads_basic)
  fix row assume "row_decode s (snd e) = Inr row"
  then show "reads content txns db c m (bind_run (check_that (row_matches_predicate row state)) (\<lambda>matches.
      done_with (if \<not> matches then rows else rows @ [map (\<lambda>column. row ! bc_ordinal column) projection])))
    (\<lambda>rows'. rows' = rows @ selected_rows s projection state e)"
    by (intro reads_bind[where V = "\<lambda>b. row_matches_predicate row state = Inr b"] reads_basic)
      (auto simp: selected_rows_def)
qed

lemma foldl_concat_map: "foldl (\<lambda>rows e. rows @ g e) rows es = rows @ concat (map g es)"
  by (induction es arbitrary: rows) simp_all

lemma foldl_query_rows:
  "foldl (\<lambda>rows e. rows @ selected_rows s projection state e) rows es = rows @ query_rows s projection state es"
  by (induction es arbitrary: rows) (simp_all add: query_rows_def)

text \<open>An entry of a table: the row of its value has its key.\<close>

definition table_entry :: "schema \<Rightarrow> bytes \<times> bytes \<Rightarrow> bool" where
  "table_entry s e \<longleftrightarrow> (\<exists>row. row_decode s (snd e) = Inr row \<and> primary_key_bytes s row = Inr (fst e))"

lemma concat_map_filter: "(\<And>e. e \<in> set es \<Longrightarrow> \<not> P e \<Longrightarrow> g e = []) \<Longrightarrow> concat (map g (filter P es)) = concat (map g es)"
  by (induction es) auto

lemma decoded_value:
  assumes "schema_wf s" "row_decode s bs = Inr row" "i < length (sch_columns s)"
  shows "value_wf (row ! i)" "val_type (row ! i) = col_type (sch_columns s ! i)" "length row = length (sch_columns s)"
  using row_decode_canonical[OF assms(1,2)] assms(3)
  by (auto simp: row_fits_def list_all2_conv_all_nth value_fits_def)

lemma matching_key:
  assumes "schema_wf s" "row_decode s bs = Inr row" "indexed_key_bytes s row (bc_ordinal (bp_column p)) = Inr a"
    and "value_wf v" "val_type v = col_type (sch_columns s ! bc_ordinal (bp_column p))" "key_encode v = Inr key"
  shows "length a = length key"
    "row_matches_predicate row (Comparison p v) = Inr (key_matches (bp_comparison_operator p) key a)"
proof -
  have ord: "bc_ordinal (bp_column p) < length (sch_columns s)" "key_encode (row ! bc_ordinal (bp_column p)) = Inr a"
    using assms(3) by (auto simp: indexed_key_bytes_def result_iffs)
  note w = decoded_value[OF assms(1,2) ord(1)]
  have "\<not> is_null (row ! bc_ordinal (bp_column p))"
    using ord(2) by (auto simp: key_encode_def ensure_Inr_iff)
  moreover obtain r where "compare_values (row ! bc_ordinal (bp_column p)) v = Inr r"
      "comparison_matches r (bp_comparison_operator p) \<longleftrightarrow> key_matches (bp_comparison_operator p) key a"
    using key_matches_value[OF w(1) ord(2) assms(4,6)] w(2) assms(5) by auto
  ultimately show "row_matches_predicate row (Comparison p v) = Inr (key_matches (bp_comparison_operator p) key a)"
    by simp
  show "length a = length key"
    using key_encode_length[OF w(1) ord(2)] key_encode_length[OF assms(4,6)] w(2) assms(5) by simp
qed

text \<open>
  An index of a table: each row has one entry, its key is the key of the indexed column (with the
  primary key behind it unless the index is unique), its value is the primary key.
\<close>

definition index_holds :: "schema \<Rightarrow> bool \<Rightarrow> nat \<Rightarrow> (bytes \<times> bytes) list \<Rightarrow> (bytes \<times> bytes) list \<Rightarrow> bool" where
  "index_holds s unique ordinal es ies \<longleftrightarrow> (\<exists>keys.
     list_all2 (\<lambda>e index_key. \<exists>row. row_decode s (snd e) = Inr row \<and>
       index_key_for s unique ordinal (fst e) row = Inr index_key) es keys \<and>
     mset ies = mset (zip keys (map fst es)))"

lemma contents_lengths:
  assumes "btree_stores bt m t" "e \<in> set (contents t)"
  shows "length (fst e) = bt_ks bt"
proof -
  obtain p es nx where l: "(p, es, nx) \<in> set (leaves t)" "e \<in> set es"
    using assms(2) by (auto simp: contents_def)
  have "forest (nodes (bt_ks bt) (bt_vs bt) m) True INVALID_PAGE_ID None [([], t)]"
    using assms(1) by (simp add: btree_stores_def)
  from forest_leaf(1)[OF this l(1)] obtain r where "nodes (bt_ks bt) (bt_vs bt) m p = Some (LeafNode r es nx)"
    by blast
  from sees_key_length(1)[OF sees_refl this l(2)] show ?thesis .
qed

lemma mset_entries_of_ranges:
  assumes "\<And>e. e \<in> set es \<Longrightarrow> length (filter (in_range (fst e)) ranges) = (if P e then 1 else 0)"
  shows "mset (concat (map (range_entries es) ranges)) = mset (filter P es)"
proof -
  have count: "mset (concat (map (range_entries [e]) ranges)) = replicate_mset (length (filter (in_range (fst e)) ranges)) e"
    for e by (induction ranges) (simp_all add: range_entries_def)
  have split: "mset (concat (map (range_entries (e # es)) ranges)) =
      mset (concat (map (range_entries [e]) ranges)) + mset (concat (map (range_entries es) ranges))" for e es
    by (induction ranges) (simp_all add: range_entries_def)
  show ?thesis
    using assms
  proof (induction es)
    case (Cons e es)
    then have "mset (concat (map (range_entries es) ranges)) = mset (filter P es)"
      by simp
    then show ?case
      using Cons.prems[of e] unfolding split[of e es] count[of e] by simp
  qed (simp add: range_entries_def)
qed

lemma mset_concat_cong: "mset xs = mset ys \<Longrightarrow> mset (concat (map g xs)) = mset (concat (map g ys))"
proof -
  have "mset (concat (map g xs)) = \<Sum>\<^sub># (image_mset (\<lambda>x. mset (g x)) (mset xs))" for xs
    by (induction xs) simp_all
  then show "mset xs = mset ys \<Longrightarrow> mset (concat (map g xs)) = mset (concat (map g ys))"
    by simp
qed

context win32_files
begin

lemma reads_find:
  assumes "btree_stores bt m t"
  shows "reads content txns db c m (on_pager (btree_find os bt key)) (\<lambda>v. map_of (contents t) key = Some v)"
proof (cases "length key = bt_ks bt")
  case True
  show ?thesis
    using assms True by (intro reads_on_pager find_run) (auto simp: btree_stores_def)
qed (simp add: btree_find_def reads_basic)

lemma reads_scan_primary_key_range:
  assumes "btree_stores bt m t" "schema_wf s" "\<And>e. e \<in> set (contents t) \<Longrightarrow> table_entry s e"
    and p: "bc_ordinal (bp_column p) = sch_primary_key_ordinal s"
    and v: "value_wf v" "val_type v = col_type (sch_columns s ! bc_ordinal (bp_column p))"
  shows "reads content txns db c m (scan_primary_key_range os bt (Comparison p v)
      (process_row_bytes s projection (Comparison p v)) [])
    (\<lambda>rows. rows = query_rows s projection (Comparison p v) (contents t))"
  unfolding scan_primary_key_range_def predicate_state.case open_table_cursors_def
proof (rule reads_bind, rule reads_basic, rule reads_bind[OF reads_open_cursors[OF assms(1)]])
  fix key cus
  assume key: "key_encode v = Inr key" and cus: "\<exists>ranges. cursor_ranges (bp_comparison_operator p) key (next_key_bytes key) = Inr ranges \<and>
    list_all2 (cursor_for bt t) ranges cus"
  let ?sel = "selected_rows s projection (Comparison p v)"
  have entry: "length (fst e) = length key" "\<not> key_matches (bp_comparison_operator p) key (fst e) \<Longrightarrow> ?sel e = []"
    if e: "e \<in> set (contents t)" for e
  proof -
    obtain row where row: "row_decode s (snd e) = Inr row" "indexed_key_bytes s row (bc_ordinal (bp_column p)) = Inr (fst e)"
      using assms(3)[OF e] by (auto simp: table_entry_def primary_key_bytes_def p)
    from matching_key[OF assms(2) row v key] row(1)
    show "length (fst e) = length key" "\<not> key_matches (bp_comparison_operator p) key (fst e) \<Longrightarrow> ?sel e = []"
      by (auto simp: selected_rows_def)
  qed
  obtain ranges where ranges: "cursor_ranges (bp_comparison_operator p) key (next_key_bytes key) = Inr ranges"
      "list_all2 (cursor_for bt t) ranges cus"
    using cus by blast
  have "reads content txns db c m (consume_table_cursors os (process_row_bytes s projection (Comparison p v)) cus [])
      (\<lambda>rows. rows = foldl (\<lambda>rows e. rows @ ?sel e) [] (concat (map (range_entries (contents t)) ranges)))"
    by (rule reads_consume_table_cursors[OF assms(1) ranges(2)]) (rule reads_process_row_bytes)
  moreover have found: "concat (map (range_entries (contents t)) ranges) =
      filter (\<lambda>e. key_matches (bp_comparison_operator p) key (fst e)) (contents t)"
    by (rule entries_of_ranges[OF ranges(1) sorted_contents[OF assms(1)]]) (rule entry(1))
  have "foldl (\<lambda>rows e. rows @ ?sel e) [] (concat (map (range_entries (contents t)) ranges)) =
      query_rows s projection (Comparison p v) (contents t)"
    unfolding found foldl_query_rows query_rows_def
    using concat_map_filter[of "contents t" "\<lambda>e. key_matches (bp_comparison_operator p) key (fst e)" ?sel] entry(2) by simp
  ultimately show "reads content txns db c m (consume_table_cursors os (process_row_bytes s projection (Comparison p v)) cus [])
      (\<lambda>rows. rows = query_rows s projection (Comparison p v) (contents t))"
    by simp
qed

lemma reads_process_index_entry:
  assumes "btree_stores bt m t"
  shows "reads content txns db c m (bind_run (on_pager (btree_find os bt (snd ie)))
      (\<lambda>row_bytes. process_row_bytes s projection state rows (snd ie, row_bytes)))
    (\<lambda>rows'. rows' = rows @ selected_rows s projection state (snd ie, the (map_of (contents t) (snd ie))))"
  by (rule reads_bind[OF reads_find[OF assms]]) (auto intro: reads_weaken[OF reads_process_row_bytes])

lemma reads_open_existing:
  assumes "btree_stores \<lparr>bt_root_page_id = root, bt_key_size = ks, bt_value_size = vs\<rparr> m t"
  shows "reads content txns db c m (pager_call (btree_open_existing os root ks vs))
    (\<lambda>bt. bt = \<lparr>bt_root_page_id = root, bt_key_size = ks, bt_value_size = vs\<rparr>)"
proof -
  have "stores (nodes (unat ks) (unat vs) m) True t" "page_of t = root"
    using assms by (auto simp: btree_stores_def forest_def)
  then obtain n where "nodes (unat ks) (unat vs) m root = Some n"
    by (cases t) auto
  then obtain d where "m root = Some d"
    by (auto simp: nodes_Some)
  then show ?thesis
    unfolding btree_open_existing_def
    by (intro reads_pager_call triple_with_page triple_read) (auto simp: result_iffs split: sum.splits)
qed

end

section \<open>Stored tables\<close>

text \<open>
  What \<open>SELECT\<close> returns for a table with the entries \<open>es\<close>: the projected rows that match, in the order
  of the primary key unless a secondary index was scanned.
\<close>

definition select_outcome :: "catalog \<Rightarrow> bound_select_statement \<Rightarrow> schema \<Rightarrow> (bytes \<times> bytes) list \<Rightarrow> execution_outcome \<Rightarrow> bool" where
  "select_outcome c st s es outcome \<longleftrightarrow> (\<exists>state rows.
     resolve_predicate_state s (bse_predicate st) = Inr state \<and>
     outcome = rows_outcome \<lparr>rs_column_names = map (\<lambda>column. col_name (sch_columns s ! bc_ordinal column)) (bse_projection st),
       rs_rows = rows\<rparr> \<and>
     mset rows = mset (query_rows s (bse_projection st) state es) \<and>
     ((\<forall>ix. plan_access_path s (indexes_for_table c (bse_table_id st)) state \<noteq> SecondaryIndexRangePath ix) \<longrightarrow>
       rows = query_rows s (bse_projection st) state es))"

definition table_btree :: "table_descriptor \<Rightarrow> schema \<Rightarrow> btree" where
  "table_btree d s = \<lparr>bt_root_page_id = td_root_page_id d,
     bt_key_size = of_nat (fixed_size (col_type (primary_key_column s))), bt_value_size = of_nat (sch_row_size s)\<rparr>"

definition index_btree :: "index_descriptor \<Rightarrow> column_descriptor \<Rightarrow> schema \<Rightarrow> btree" where
  "index_btree ix column s =
     (let pk_size = fixed_size (col_type (primary_key_column s)); size = fixed_size (cld_logical_type column) in
      \<lparr>bt_root_page_id = ixd_root_page_id ix,
       bt_key_size = of_nat (if ixd_unique ix then size else size + pk_size), bt_value_size = of_nat pk_size\<rparr>)"

definition stored_index :: "catalog \<Rightarrow> page_store \<Rightarrow> schema \<Rightarrow> (bytes \<times> bytes) list \<Rightarrow> index_descriptor \<Rightarrow> bool" where
  "stored_index c m s es ix \<longleftrightarrow> (\<exists>column it.
     schema_for_table c (ixd_table_id ix) = Some s \<and>
     find_column_by_id c (ixd_table_id ix) (ixd_indexed_column_id ix) = Some column \<and>
     btree_stores (index_btree ix column s) m it \<and>
     index_holds s (ixd_unique ix) (cld_ordinal column) es (contents it))"

text \<open>
  The pages store a table with the entries \<open>es\<close> and its secondary indexes: the tree of the table, rows
  that belong to their keys, and for each index its tree.
\<close>

definition stored_table :: "catalog \<Rightarrow> page_store \<Rightarrow> table_id \<Rightarrow> schema \<Rightarrow> (bytes \<times> bytes) list \<Rightarrow> bool" where
  "stored_table c m i s es \<longleftrightarrow> schema_wf s \<and> schema_for_table c i = Some s \<and>
     (\<exists>d t. find_table_by_id c i = Some d \<and> td_table_id d = i \<and> btree_stores (table_btree d s) m t \<and> contents t = es) \<and>
     (\<forall>e \<in> set es. table_entry s e) \<and>
     (\<forall>ix \<in> set (indexes_for_table c i). \<not> ixd_primary ix \<longrightarrow> ixd_table_id ix = i \<and> stored_index c m s es ix)"

text \<open>A predicate that the binder made for the table.\<close>

definition bound_to :: "catalog \<Rightarrow> table_id \<Rightarrow> schema \<Rightarrow> bound_predicate \<Rightarrow> bool" where
  "bound_to c i s p \<longleftrightarrow> bc_ordinal (bp_column p) < length (sch_columns s) \<and>
     (\<exists>column. find_column_by_id c i (bc_column_id (bp_column p)) = Some column \<and>
        cld_ordinal column = bc_ordinal (bp_column p))"

context win32_files
begin

lemma reads_open_index:
  assumes "schema_for_table c (ixd_table_id ix) = Some s"
    and "find_column_by_id c (ixd_table_id ix) (ixd_indexed_column_id ix) = Some column"
    and "btree_stores (index_btree ix column s) m it"
  shows "reads content txns db c m (open_index_tree os ix) (\<lambda>bt. bt = index_btree ix column s)"
  unfolding open_index_tree_def
proof (rule reads_basic(5), rule reads_bind_basic, rule reads_bind_basic)
  fix s' column'
  assume "schema_for_table c (ixd_table_id ix) = Some s'"
    "find_column_by_id c (ixd_table_id ix) (ixd_indexed_column_id ix) = Some column'"
  with assms show "reads content txns db c m (let indexed_key_size = fixed_size (cld_logical_type column');
      primary_key_size = fixed_size (col_type (primary_key_column s'));
      key_size = (if ixd_unique ix then indexed_key_size else indexed_key_size + primary_key_size) in
      pager_call (btree_open_existing os (ixd_root_page_id ix) (of_nat key_size) (of_nat primary_key_size)))
    (\<lambda>bt. bt = index_btree ix column s)"
    using reads_open_existing[of "ixd_root_page_id ix" _ _ m it] by (simp add: index_btree_def Let_def)
qed

lemma reads_open_table:
  assumes "schema_for_table c (td_table_id d) = Some s" "btree_stores (table_btree d s) m t"
  shows "reads content txns db c m (open_table_tree os d) (\<lambda>bt. bt = table_btree d s)"
  unfolding open_table_tree_def
proof (rule reads_bind_basic)
  fix s' assume "schema_for_table c (td_table_id d) = Some s'"
  with assms show "reads content txns db c m (pager_call (btree_open_existing os (td_root_page_id d)
      (of_nat (fixed_size (col_type (primary_key_column s')))) (of_nat (sch_row_size s'))))
    (\<lambda>bt. bt = table_btree d s)"
    using reads_open_existing[of "td_root_page_id d" _ _ m t] by (simp add: table_btree_def)
qed

lemma distinct_contents: "btree_stores bt m t \<Longrightarrow> distinct (map fst (contents t))"
  using ordered_contents(3)[of "[]" None t] by (simp add: btree_stores_def forest_def)

end

lemma length_filter_same: "map P xs = map Q ys \<Longrightarrow> length (filter P xs) = length (filter Q ys)"
proof (induction xs arbitrary: ys)
  case (Cons x xs)
  then show ?case by (cases ys) auto
qed simp

lemma index_entry_facts:
  assumes "index_holds s unique ordinal es ies" "ie \<in> set ies" "distinct (map fst es)"
  obtains e row a where "e \<in> set es" "snd ie = fst e" "map_of es (snd ie) = Some (snd e)"
    "row_decode s (snd e) = Inr row" "indexed_key_bytes s row ordinal = Inr a"
    "fst ie = a @ (if unique then [] else fst e)"
proof -
  obtain keys where keys: "list_all2 (\<lambda>e index_key. \<exists>row. row_decode s (snd e) = Inr row \<and>
      index_key_for s unique ordinal (fst e) row = Inr index_key) es keys" "mset ies = mset (zip keys (map fst es))"
    using assms(1) by (auto simp: index_holds_def)
  have "ie \<in> set (zip keys (map fst es))"
    using assms(2) mset_eq_setD[OF keys(2)] by simp
  then obtain i where i: "i < length es" "ie = (keys ! i, fst (es ! i))"
    using list_all2_lengthD[OF keys(1)] by (auto simp: set_zip)
  have "map_of es (fst (es ! i)) = Some (snd (es ! i))"
    using assms(3) i(1) by (simp add: map_of_is_SomeI)
  moreover obtain row where "row_decode s (snd (es ! i)) = Inr row"
      "index_key_for s unique ordinal (fst (es ! i)) row = Inr (keys ! i)"
    using list_all2_nthD[OF keys(1) i(1)] by blast
  ultimately show ?thesis
    using that[of "es ! i" row] i by (auto simp: index_key_for_def result_iffs split: if_splits)
qed

lemma index_entries_select:
  assumes "index_holds s unique ordinal es ies" "distinct (map fst es)"
  shows "mset (concat (map (\<lambda>ie. g (snd ie, the (map_of es (snd ie)))) ies)) = mset (concat (map g es))"
proof -
  obtain keys where keys: "length es = length keys" "mset ies = mset (zip keys (map fst es))"
    using assms(1) list_all2_lengthD by (auto simp: index_holds_def)
  have "map_of es (fst (es ! i)) = Some (snd (es ! i))" if "i < length es" for i
    using assms(2) that by (simp add: map_of_is_SomeI)
  then have same: "map (\<lambda>ie. g (snd ie, the (map_of es (snd ie)))) (zip keys (map fst es)) = map g es"
    using keys(1) by (intro nth_equalityI) (simp_all add: map_nth del: map_eq_conv)
  show ?thesis
    unfolding same[symmetric] by (rule mset_concat_cong[OF keys(2)])
qed

context win32_files
begin

lemma reads_scan_secondary_index_range:
  assumes t: "btree_stores bt m t" and s: "schema_wf s"
    and ix: "\<not> ixd_primary ix" "stored_index c m s (contents t) ix"
    and p: "find_column_by_id c (ixd_table_id ix) (ixd_indexed_column_id ix) = Some column"
      "cld_ordinal column = bc_ordinal (bp_column p)"
    and v: "value_wf v" "val_type v = col_type (sch_columns s ! bc_ordinal (bp_column p))"
  shows "reads content txns db c m (scan_secondary_index_range os bt ix (Comparison p v)
      (process_row_bytes s projection (Comparison p v)) [])
    (\<lambda>rows. mset rows = mset (query_rows s projection (Comparison p v) (contents t)))"
proof -
  let ?op = "bp_comparison_operator p" and ?es = "contents t"
  let ?sel = "selected_rows s projection (Comparison p v)"
  let ?g = "\<lambda>ie. ?sel (snd ie, the (map_of ?es (snd ie)))"
  obtain it where it: "schema_for_table c (ixd_table_id ix) = Some s" "btree_stores (index_btree ix column s) m it"
      "index_holds s (ixd_unique ix) (bc_ordinal (bp_column p)) ?es (contents it)"
    using ix(2) p by (auto simp: stored_index_def)
  let ?bt = "index_btree ix column s"
  let ?n = "bt_ks ?bt"
  note distinct = distinct_contents[OF t]
  have rows: "mset (foldl (\<lambda>rows ie. rows @ ?g ie) [] (concat (map (range_entries (contents it)) ranges'))) =
      mset (query_rows s projection (Comparison p v) ?es)"
    if key: "key_encode v = Inr key"
      and ranges': "cursor_ranges ?op (resize_bytes ?n key) (map_option (resize_bytes ?n) (next_key_bytes key)) = Inr ranges'"
    for key ranges'
  proof -
    let ?P = "\<lambda>ie. key_matches ?op key (take (length key) (fst ie))"
    obtain ranges where ranges: "cursor_ranges ?op key (next_key_bytes key) = Inr ranges"
      using ranges' by (cases "cursor_ranges ?op key (next_key_bytes key)") (simp_all add: ranges_map)
    have entry: "length (filter (in_range (fst ie)) ranges') = (if ?P ie then 1 else 0)" "\<not> ?P ie \<Longrightarrow> ?g ie = []"
      if ie: "ie \<in> set (contents it)" for ie
    proof -
      obtain e row a where e: "map_of ?es (snd ie) = Some (snd e)" "row_decode s (snd e) = Inr row"
          "indexed_key_bytes s row (bc_ordinal (bp_column p)) = Inr a"
          "fst ie = a @ (if ixd_unique ix then [] else fst e)"
        using index_entry_facts[OF it(3) ie distinct] by metis
      note a = matching_key[OF s e(2,3) v key]
      have "map (in_range (fst ie)) ranges' = map (in_range a) ranges"
        unfolding e(4) using contents_lengths[OF it(2) ie] e(4)
        by (intro prefix_ranges[OF ranges a(1) ranges']) simp
      then have "length (filter (in_range (fst ie)) ranges') = length (filter (in_range a) ranges)"
        by (rule length_filter_same)
      with ranges_of_comparison[OF ranges a(1)] a(1) e(4)
      show "length (filter (in_range (fst ie)) ranges') = (if ?P ie then 1 else 0)"
        by simp
      show "\<not> ?P ie \<Longrightarrow> ?g ie = []"
        using a e by (simp add: selected_rows_def)
    qed
    have "mset (foldl (\<lambda>rows ie. rows @ ?g ie) [] (concat (map (range_entries (contents it)) ranges'))) =
        mset (concat (map ?g (concat (map (range_entries (contents it)) ranges'))))"
      by (simp add: foldl_concat_map)
    also have "\<dots> = mset (concat (map ?g (filter ?P (contents it))))"
      by (rule mset_concat_cong, rule mset_entries_of_ranges) (rule entry(1))
    also have "\<dots> = mset (concat (map ?g (contents it)))"
      using concat_map_filter[of "contents it" ?P ?g] entry(2) by simp
    also have "\<dots> = mset (query_rows s projection (Comparison p v) ?es)"
      unfolding query_rows_def by (rule index_entries_select[OF it(3) distinct])
    finally show ?thesis .
  qed
  show ?thesis
    unfolding scan_secondary_index_range_def predicate_state.case
  proof (rule reads_bind[OF reads_open_index[OF it(1) p(1) it(2)]], rule reads_bind_basic)
    fix ibt key assume ibt: "ibt = ?bt" and key: "key_encode v = Inr key"
    show "reads content txns db c m
        (bind_run (on_pager (open_secondary_index_cursors os ibt ?op key)) (\<lambda>cursors.
          consume_secondary_index_cursors os bt (process_row_bytes s projection (Comparison p v)) cursors []))
        (\<lambda>rows. mset rows = mset (query_rows s projection (Comparison p v) ?es))"
    proof (cases "length key > ?n")
      case True
      then show ?thesis
        by (simp add: open_secondary_index_cursors_def ibt bind_run_def stop_with_def reads_def)
    next
      case False
      then have opened: "open_secondary_index_cursors os ibt ?op key = open_cursors os ?bt ?op (resize_bytes ?n key)
          (map_option (resize_bytes ?n) (next_key_bytes key))"
        by (simp add: open_secondary_index_cursors_def ibt)
      show ?thesis
        unfolding opened
      proof (rule reads_bind[OF reads_open_cursors[OF it(2)]])
        fix cus assume "\<exists>ranges'. cursor_ranges ?op (resize_bytes ?n key) (map_option (resize_bytes ?n) (next_key_bytes key)) =
            Inr ranges' \<and> list_all2 (cursor_for ?bt it) ranges' cus"
        then obtain ranges' where r: "cursor_ranges ?op (resize_bytes ?n key) (map_option (resize_bytes ?n) (next_key_bytes key)) =
            Inr ranges'" "list_all2 (cursor_for ?bt it) ranges' cus"
          by blast
        have "reads content txns db c m (consume_secondary_index_cursors os bt (process_row_bytes s projection (Comparison p v)) cus [])
            (\<lambda>rows. rows = foldl (\<lambda>rows ie. rows @ ?g ie) [] (concat (map (range_entries (contents it)) ranges')))"
          unfolding consume_secondary_index_cursors_def
          by (rule reads_consume_table_cursors[OF it(2) r(2)]) (rule reads_process_index_entry[OF t])
        then show "reads content txns db c m (consume_secondary_index_cursors os bt (process_row_bytes s projection (Comparison p v)) cus [])
            (\<lambda>rows. mset rows = mset (query_rows s projection (Comparison p v) ?es))"
          by (rule reads_weaken) (simp only: rows[OF key r(1)])
      qed
    qed
  qed
qed

lemma reads_scan_access_path:
  assumes "stored_table c m i s es" "btree_stores (table_btree d s) m t" "contents t = es"
    and "resolve_predicate_state s predicate = Inr state" "\<forall>p. predicate = Some p \<longrightarrow> bound_to c i s p"
  defines "path \<equiv> plan_access_path s (indexes_for_table c i) state"
  shows "reads content txns db c m (scan_access_path os (table_btree d s) path state (process_row_bytes s projection state) [])
    (\<lambda>rows. mset rows = mset (query_rows s projection state es) \<and>
      ((\<forall>ix. path \<noteq> SecondaryIndexRangePath ix) \<longrightarrow> rows = query_rows s projection state es))"
proof -
  have full: ?thesis if "path = FullTableScanPath"
    unfolding that scan_access_path_def access_path.case
    by (rule reads_weaken[OF reads_scan_table[OF assms(2) reads_process_row_bytes]]) (simp add: foldl_query_rows assms(3))
  show ?thesis
  proof (cases state)
    case (Comparison p v)
    have wf: "schema_wf s" "\<And>e. e \<in> set (contents t) \<Longrightarrow> table_entry s e"
      using assms(1,3) by (auto simp: stored_table_def)
    have p: "predicate = Some p" "\<exists>lit nullable. convert_to lit (col_type (sch_columns s ! bc_ordinal (bp_column p))) nullable = Inr v"
      using assms(4) unfolding Comparison
      by (auto simp: resolve_predicate_state_def Let_def result_iffs split: option.splits if_splits)
    obtain column where column: "bc_ordinal (bp_column p) < length (sch_columns s)"
        "find_column_by_id c i (bc_column_id (bp_column p)) = Some column" "cld_ordinal column = bc_ordinal (bp_column p)"
      using assms(5) p(1) by (auto simp: bound_to_def)
    then have "type_wf (col_type (sch_columns s ! bc_ordinal (bp_column p)))"
      using wf(1) by (simp add: schema_wf_def)
    then have v: "value_wf v" "val_type v = col_type (sch_columns s ! bc_ordinal (bp_column p))"
      using p(2) literal_conversion by blast+
    show ?thesis
    proof (cases "bc_ordinal (bp_column p) = sch_primary_key_ordinal s")
      case True
      then have path: "path = PrimaryKeyRangePath"
        by (simp add: path_def plan_access_path_def Comparison)
      show ?thesis
        unfolding path scan_access_path_def access_path.case Comparison assms(3)[symmetric]
        by (rule reads_weaken[OF reads_scan_primary_key_range[OF assms(2) wf True v]]) blast+
    next
      case False
      show ?thesis
      proof (cases "find (\<lambda>ix. \<not> ixd_primary ix \<and> ixd_indexed_column_id ix = bc_column_id (bp_column p)) (indexes_for_table c i)")
        case None
        with False show ?thesis
          by (intro full) (simp add: path_def plan_access_path_def Comparison)
      next
        case (Some ix)
        with False have path: "path = SecondaryIndexRangePath ix"
          by (simp add: path_def plan_access_path_def Comparison)
        have ix: "\<not> ixd_primary ix" "ixd_indexed_column_id ix = bc_column_id (bp_column p)" "ix \<in> set (indexes_for_table c i)"
          using Some by (auto simp: find_Some_iff)
        then have "ixd_table_id ix = i" "stored_index c m s (contents t) ix"
          using assms(1,3) by (auto simp: stored_table_def)
        with column ix show ?thesis
          unfolding path scan_access_path_def access_path.case Comparison assms(3)[symmetric]
          by (intro reads_weaken[OF reads_scan_secondary_index_range[OF assms(2) wf(1) ix(1) _ _ column(3) v]]) simp_all
      qed
    qed
  qed (rule full, simp add: path_def plan_access_path_def)+
qed

lemma reads_select:
  assumes "stored_table c m (bse_table_id st) s es"
    and "\<forall>p. bse_predicate st = Some p \<longrightarrow> bound_to c (bse_table_id st) s p"
  shows "reads content txns db c m (execute_select_statement os st) (select_outcome c st s es)"
proof -
  obtain d t where d: "find_table_by_id c (bse_table_id st) = Some d" "td_table_id d = bse_table_id st"
      "btree_stores (table_btree d s) m t" "contents t = es" "schema_for_table c (bse_table_id st) = Some s"
    using assms(1) by (auto simp: stored_table_def)
  show ?thesis
    unfolding execute_select_statement_def Let_def
  proof (rule reads_bind_basic, rule reads_bind_basic, rule reads_bind_basic)
    fix d' s' state
    assume "find_table_by_id c (bse_table_id st) = Some d'" "schema_for_table c (bse_table_id st) = Some s'"
      and resolved: "resolve_predicate_state s' (bse_predicate st) = Inr state"
    then have eq: "d' = d" "s' = s"
      using d by auto
    let ?path = "\<lambda>cat. plan_access_path s (indexes_for_table cat (bse_table_id st)) state"
    let ?outcome = "\<lambda>rows. rows_outcome \<lparr>rs_column_names =
      map (\<lambda>column. col_name (sch_columns s ! bc_ordinal column)) (bse_projection st), rs_rows = rows\<rparr>"
    let ?scan = "\<lambda>bt path. scan_access_path os bt path state (process_row_bytes s (bse_projection st) state) []"
    have "select_outcome c st s es (?outcome [])" if "state = Impossible"
      using resolved that unfolding select_outcome_def eq
      by (auto simp: query_rows_def selected_rows_def split: sum.splits)
    moreover have "reads content txns db c m (bind_run (open_table_tree os d) (\<lambda>table_tree.
        bind_run (get_catalog ?path) (\<lambda>path. bind_run (?scan table_tree path) (\<lambda>rows. done_with (?outcome rows)))))
        (select_outcome c st s es)"
    proof (rule reads_bind[OF reads_open_table[OF _ d(3)]], simp add: d, rule reads_bind_basic)
      fix bt assume "bt = table_btree d s"
      then show "reads content txns db c m (bind_run (?scan bt (?path c)) (\<lambda>rows. done_with (?outcome rows)))
          (select_outcome c st s es)"
        using resolved unfolding eq
        by (auto intro!: reads_bind[OF reads_scan_access_path[OF assms(1) d(3,4) _ assms(2)]] reads_basic
            simp: select_outcome_def)
    qed
    ultimately show "reads content txns db c m
        (if state = Impossible
         then done_with (rows_outcome \<lparr>rs_column_names = map (\<lambda>column. col_name (sch_columns s' ! bc_ordinal column)) (bse_projection st),
           rs_rows = []\<rparr>)
         else bind_run (open_table_tree os d') (\<lambda>table_tree.
           bind_run (get_catalog (\<lambda>cat. plan_access_path s' (indexes_for_table cat (bse_table_id st)) state)) (\<lambda>path.
           bind_run (scan_access_path os table_tree path state (process_row_bytes s' (bse_projection st) state) []) (\<lambda>rows.
           done_with (rows_outcome \<lparr>rs_column_names = map (\<lambda>column. col_name (sch_columns s' ! bc_ordinal column)) (bse_projection st),
             rs_rows = rows\<rparr>)))))
      (select_outcome c st s es)"
      unfolding eq by (simp add: reads_basic)
  qed
qed

end

end
