(* ===== verification/Inserts.thy ===== *)
theory Inserts
  imports Queries
begin

text \<open>
  \<open>INSERT\<close> on a stored table: the table and its indexes as a list of trees on disjoint pages, insertion
  into one of them, and the statement inside a transaction.
\<close>

section \<open>Trees on disjoint pages\<close>

definition tree_ids :: "(btree \<times> tree) list \<Rightarrow> page_id set" where
  "tree_ids ts = set (concat (map (\<lambda>x. page_ids (snd x)) ts))"

definition stored_trees :: "page_store \<Rightarrow> (btree \<times> tree) list \<Rightarrow> bool" where
  "stored_trees m ts \<longleftrightarrow> (\<forall>(bt, t) \<in> set ts. btree_stores bt m t \<and> btree_layout bt) \<and>
     distinct (concat (map (\<lambda>x. page_ids (snd x)) ts))"

text \<open>From the pages \<open>m0\<close> with the trees \<open>ts0\<close>, only pages of these trees and new pages have changed.\<close>

definition grown_trees :: "page_store \<Rightarrow> (btree \<times> tree) list \<Rightarrow> page_store \<Rightarrow> (btree \<times> tree) list \<Rightarrow> bool" where
  "grown_trees m0 ts0 m ts \<longleftrightarrow> stored_trees m ts \<and> dom m0 \<subseteq> dom m \<and>
     (\<forall>p \<in> dom m0 - tree_ids ts0. m p = m0 p) \<and> tree_ids ts \<subseteq> tree_ids ts0 \<union> - dom m0"

lemma grown_trees_refl: "stored_trees m ts \<Longrightarrow> grown_trees m ts m ts"
  by (simp add: grown_trees_def)

lemma btree_stores_frame:
  assumes "btree_stores bt m t" "\<And>p. p \<in> set (page_ids t) \<Longrightarrow> m' p = m p"
  shows "btree_stores bt m' t"
proof -
  have "forest (nodes (bt_ks bt) (bt_vs bt) m') True INVALID_PAGE_ID None [([], t)] =
      forest (nodes (bt_ks bt) (bt_vs bt) m) True INVALID_PAGE_ID None [([], t)]"
    by (rule forest_cong) (simp add: nodes_def assms(2))
  with assms(1) show ?thesis
    by (simp add: btree_stores_def)
qed

lemma btree_stores_dom:
  assumes "btree_stores bt m t" "p \<in> set (page_ids t)"
  shows "p \<in> dom m"
proof -
  have "stores (nodes (bt_ks bt) (bt_vs bt) m) True t"
    using assms(1) by (simp add: btree_stores_def forest_def)
  from stored_ids[OF this assms(2)] show ?thesis
    by (auto simp: nodes_def dest: bind_eq_Some_conv[THEN iffD1])
qed

lemma tree_ids_simps [simp]:
  "tree_ids [] = {}" "tree_ids (x # ts) = set (page_ids (snd x)) \<union> tree_ids ts" "tree_ids (xs @ ys) = tree_ids xs \<union> tree_ids ys"
  by (auto simp: tree_ids_def)

lemma stored_trees_append:
  "stored_trees m (xs @ ys) \<longleftrightarrow> stored_trees m xs \<and> stored_trees m ys \<and> tree_ids xs \<inter> tree_ids ys = {}"
  by (auto simp: stored_trees_def tree_ids_def)

lemma stored_trees_Cons:
  "stored_trees m ((bt, t) # ts) \<longleftrightarrow> btree_stores bt m t \<and> btree_layout bt \<and> distinct (page_ids t) \<and>
     stored_trees m ts \<and> set (page_ids t) \<inter> tree_ids ts = {}"
  by (auto simp: stored_trees_def tree_ids_def)

lemma stored_trees_frame:
  assumes "stored_trees m ts" "\<And>p. p \<in> tree_ids ts \<Longrightarrow> m' p = m p"
  shows "stored_trees m' ts"
  using assms by (fastforce simp: stored_trees_def tree_ids_def intro: btree_stores_frame)

lemma stored_trees_dom: "stored_trees m ts \<Longrightarrow> tree_ids ts \<subseteq> dom m"
  using btree_stores_dom by (fastforce simp: stored_trees_def tree_ids_def)

lemma grown_trees_insert:
  assumes "grown_trees m0 ts0 m (xs @ (bt, t) # ys)" "grown bt m t key v m'"
  obtains t' where "grown_trees m0 ts0 m' (xs @ (bt, t') # ys)" "contents t' = insert_sorted key v (contents t)"
proof -
  obtain t' where t': "btree_stores bt m' t'" "contents t' = insert_sorted key v (contents t)"
      "set (page_ids t') \<subseteq> set (page_ids t) \<union> - dom m" "dom m \<subseteq> dom m'"
      "\<forall>p \<in> dom m - set (page_ids t). m' p = m p"
    using assms(2) by (auto simp: grown_def)
  have m: "stored_trees m xs" "stored_trees m ys" "btree_layout bt" "set (page_ids t) \<inter> tree_ids ys = {}"
      "tree_ids xs \<inter> tree_ids ys = {}" "tree_ids xs \<inter> set (page_ids t) = {}"
      "dom m0 \<subseteq> dom m" "\<forall>p \<in> dom m0 - tree_ids ts0. m p = m0 p"
      "tree_ids xs \<union> set (page_ids t) \<union> tree_ids ys \<subseteq> tree_ids ts0 \<union> - dom m0"
    using assms(1) by (auto simp: grown_trees_def stored_trees_append stored_trees_Cons)
  note dom = stored_trees_dom[OF m(1)] stored_trees_dom[OF m(2)]
  have frame: "stored_trees m' xs" "stored_trees m' ys"
    using m(1,2,4,6) dom t'(5) by (auto intro!: stored_trees_frame[of m])
  have "distinct (page_ids t')"
    using t'(1) by (simp add: btree_stores_def forest_def)
  then have "stored_trees m' (xs @ (bt, t') # ys)"
    using frame t'(1,3) m(3-6) dom by (auto simp: stored_trees_append stored_trees_Cons)
  moreover have "m' p = m0 p" if "p \<in> dom m0 - tree_ids ts0" for p
  proof -
    have "p \<in> dom m - set (page_ids t)"
      using that m(7,9) by blast
    with that t'(5) m(8) show ?thesis
      by simp
  qed
  moreover have "tree_ids (xs @ (bt, t') # ys) \<subseteq> tree_ids ts0 \<union> - dom m0"
    unfolding tree_ids_simps snd_conv using m(7,9) t'(3) by blast
  ultimately have "grown_trees m0 ts0 m' (xs @ (bt, t') # ys)"
    using subset_trans[OF m(7) t'(4)] unfolding grown_trees_def by blast
  with t'(2) that show thesis
    by blast
qed

section \<open>Runs that change pages\<close>

definition works :: "('w \<Rightarrow> path \<Rightarrow> bytes option) \<Rightarrow> wal_txn list \<Rightarrow> bytes \<Rightarrow> catalog \<Rightarrow> (page_store \<Rightarrow> bool) \<Rightarrow>
    ('w, 'a) db_run \<Rightarrow> ('a \<Rightarrow> page_store \<Rightarrow> bool) \<Rightarrow> bool" where
  "works content txns db c P run R \<longleftrightarrow>
     (\<forall>s. pages_ok content txns db [] s \<longrightarrow> P (page_map db txns s) \<longrightarrow>
        (\<exists>s' r. run (c, s) = Some ((c, s'), r) \<and> pages_ok content txns db [] s' \<and>
           (\<forall>x. r = Inr x \<longrightarrow> R x (page_map db txns s'))))"

lemma worksD:
  assumes "works content txns db c P run R" "pages_ok content txns db [] s" "P (page_map db txns s)"
  shows "\<exists>s' r. run (c, s) = Some ((c, s'), r) \<and> pages_ok content txns db [] s' \<and>
    (\<forall>x. r = Inr x \<longrightarrow> R x (page_map db txns s'))"
  using assms unfolding works_def by blast

lemma works_bind:
  assumes "works content txns db c P run R" "\<And>x. works content txns db c (R x) (f x) S"
  shows "works content txns db c P (bind_run run f) S"
  unfolding works_def
proof (intro allI impI)
  fix s assume s: "pages_ok content txns db [] s" "P (page_map db txns s)"
  from worksD[OF assms(1) this] obtain s1 r1 where run: "run (c, s) = Some ((c, s1), r1)"
      "pages_ok content txns db [] s1" "\<forall>x. r1 = Inr x \<longrightarrow> R x (page_map db txns s1)"
    by blast
  show "\<exists>s' r. bind_run run f (c, s) = Some ((c, s'), r) \<and> pages_ok content txns db [] s' \<and>
      (\<forall>x. r = Inr x \<longrightarrow> S x (page_map db txns s'))"
  proof (cases r1)
    case (Inl e)
    with run show ?thesis by (simp add: bind_run_def)
  next
    case (Inr x)
    with run have "R x (page_map db txns s1)" by simp
    from worksD[OF assms(2) run(2) this] run(1) Inr show ?thesis
      by (simp add: bind_run_def)
  qed
qed

lemma works_pure:
  assumes "\<And>m. P m \<Longrightarrow> works content txns db c (\<lambda>m'. m' = m) run R"
  shows "works content txns db c P run R"
  using assms unfolding works_def by blast

lemma works_reads:
  assumes "\<And>m. P m \<Longrightarrow> reads content txns db c m run (\<lambda>x. R x m)"
  shows "works content txns db c P run R"
  unfolding works_def
proof (intro allI impI)
  fix s assume s: "pages_ok content txns db [] s" "P (page_map db txns s)"
  from readsD[OF assms[OF s(2)] s(1) refl] show "\<exists>s' r. run (c, s) = Some ((c, s'), r) \<and> pages_ok content txns db [] s' \<and>
      (\<forall>x. r = Inr x \<longrightarrow> R x (page_map db txns s'))"
    by fastforce
qed

lemma works_basic:
  "(\<And>m. P m \<Longrightarrow> R x m) \<Longrightarrow> works content txns db c P (done_with x) R"
  "works content txns db c P (stop_with e) R"
  "(\<And>x. g c = Some x \<Longrightarrow> works content txns db c P (f x) R) \<Longrightarrow> works content txns db c P (bind_run (lookup_or e g) f) R"
  "(\<And>x. r = Inr x \<Longrightarrow> works content txns db c P (f' x) R) \<Longrightarrow> works content txns db c P (bind_run (check_that r) f') R"
  "works content txns db c P (f'' (h c)) R \<Longrightarrow> works content txns db c P (bind_run (get_catalog h) f'') R"
  by (auto simp: works_def done_with_def stop_with_def check_that_def get_catalog_def lookup_or_def
      bind_run_def split: option.splits sum.splits)

context win32_files
begin

lemma works_on_pager:
  assumes "\<And>m. P m \<Longrightarrow> run_triple content txns db [] (\<lambda>m'. m' = m) run R (\<lambda>_. True)"
  shows "works content txns db c P (on_pager run) R"
  unfolding works_def
proof (intro allI impI)
  fix s assume s: "pages_ok content txns db [] s" "P (page_map db txns s)"
  with assms[OF s(2)] obtain s' r where "run s = Some (s', r)" "pages_ok content txns db [] s'"
      "\<And>x. r = Inr x \<Longrightarrow> R x (page_map db txns s')"
    by (auto elim: runD)
  then show "\<exists>s' r. on_pager run (c, s) = Some ((c, s'), r) \<and> pages_ok content txns db [] s' \<and>
      (\<forall>x. r = Inr x \<longrightarrow> R x (page_map db txns s'))"
    by (simp add: on_pager_def del: split_paired_Ex)
qed

lemma works_insert:
  "works content txns db c (\<lambda>m. grown_trees m0 ts0 m (xs @ (bt, t) # ys)) (on_pager (btree_insert os bt key v))
    (\<lambda>_ m. key \<notin> fst ` set (contents t) \<and> (\<exists>t'. contents t' = insert_sorted key v (contents t) \<and>
      grown_trees m0 ts0 m (xs @ (bt, t') # ys)))"
proof (rule works_on_pager)
  fix m assume grown: "grown_trees m0 ts0 m (xs @ (bt, t) # ys)"
  then have t: "btree_stores bt m t" "btree_layout bt"
    by (auto simp: grown_trees_def stored_trees_def)
  show "run_triple content txns db [] (\<lambda>m'. m' = m) (btree_insert os bt key v)
      (\<lambda>_ m. key \<notin> fst ` set (contents t) \<and> (\<exists>t'. contents t' = insert_sorted key v (contents t) \<and>
        grown_trees m0 ts0 m (xs @ (bt, t') # ys))) (\<lambda>_. True)"
  proof (cases "length key = bt_ks bt \<and> length v = bt_vs bt")
    case False
    then have "btree_insert os bt key v = returns (fail_action InvalidArgument)"
      by (auto simp: btree_insert_def)
    then show ?thesis
      by (simp add: run_returns triple_fail)
  next
    case True
    then show ?thesis
    proof (cases "key \<in> fst ` set (contents t)")
      case True
      with \<open>length key = bt_ks bt \<and> length v = bt_vs bt\<close> show ?thesis
        by (intro run_weaken[OF insert_present_run[OF t(1)]]) auto
    next
      case False
      with True show ?thesis
        by (intro run_weaken[OF insert_run[OF t(1) _ _ t(2)]]) (auto elim!: grown_trees_insert[OF grown])
    qed
  qed
qed

end

section \<open>Tables and indexes as trees\<close>

definition index_tree :: "catalog \<Rightarrow> schema \<Rightarrow> (bytes \<times> bytes) list \<Rightarrow> index_descriptor \<Rightarrow> btree \<times> tree \<Rightarrow> bool" where
  "index_tree c s es ix x \<longleftrightarrow> (\<exists>column. schema_for_table c (ixd_table_id ix) = Some s \<and>
     find_column_by_id c (ixd_table_id ix) (ixd_indexed_column_id ix) = Some column \<and>
     fst x = index_btree ix column s \<and> index_holds s (ixd_unique ix) (cld_ordinal column) es (contents (snd x)))"

definition secondary :: "index_descriptor list \<Rightarrow> index_descriptor list" where
  "secondary ixs = filter (\<lambda>ix. \<not> ixd_primary ix) ixs"

text \<open>As \<open>stored_table\<close>, with the trees of the table and of its indexes, which share no page.\<close>

definition table_trees :: "catalog \<Rightarrow> page_store \<Rightarrow> table_id \<Rightarrow> schema \<Rightarrow> (bytes \<times> bytes) list \<Rightarrow> (btree \<times> tree) list \<Rightarrow> bool" where
  "table_trees c m i s es ts \<longleftrightarrow> schema_wf s \<and> schema_for_table c i = Some s \<and>
     (\<exists>d t its. find_table_by_id c i = Some d \<and> td_table_id d = i \<and> ts = (table_btree d s, t) # its \<and> contents t = es \<and>
        list_all2 (index_tree c s es) (secondary (indexes_for_table c i)) its) \<and>
     (\<forall>e \<in> set es. table_entry s e) \<and> (\<forall>ix \<in> set (indexes_for_table c i). ixd_table_id ix = i) \<and> stored_trees m ts"

lemma table_trees_stored:
  assumes "table_trees c m i s es ts"
  shows "stored_table c m i s es"
proof -
  obtain d t its where d: "find_table_by_id c i = Some d" "td_table_id d = i" "ts = (table_btree d s, t) # its" "contents t = es"
      "list_all2 (index_tree c s es) (secondary (indexes_for_table c i)) its"
    using assms by (auto simp: table_trees_def)
  have st: "stored_trees m ts"
    using assms by (simp add: table_trees_def)
  have "stored_index c m s es ix" if "ix \<in> set (indexes_for_table c i)" "\<not> ixd_primary ix" for ix
  proof -
    have "ix \<in> set (secondary (indexes_for_table c i))"
      using that by (simp add: secondary_def)
    then obtain j where "j < length (secondary (indexes_for_table c i))" "secondary (indexes_for_table c i) ! j = ix"
      by (auto simp: in_set_conv_nth)
    then have "its ! j \<in> set its" "index_tree c s es ix (its ! j)"
      using d(5) list_all2_nthD[OF d(5), of j] list_all2_lengthD[OF d(5)] by auto
    then obtain x where "x \<in> set its" "index_tree c s es ix x"
      by blast
    with st d(3) show ?thesis
      unfolding index_tree_def stored_index_def by (cases x) (fastforce simp: stored_trees_def)
  qed
  with assms d st show ?thesis
    unfolding stored_table_def table_trees_def by (auto simp: stored_trees_Cons)
qed

lemma mset_take_drop: "mset (take n xs) + mset (drop n xs) = mset xs"
  by (metis append_take_drop_id mset_append)

lemma index_holds_insert:
  assumes "index_holds s u ordinal es ies" "row_decode s rb = Inr row" "index_key_for s u ordinal k row = Inr ik"
  shows "index_holds s u ordinal (insert_sorted k rb es) (insert_sorted ik k ies)"
proof -
  let ?rel = "\<lambda>e index_key. \<exists>row. row_decode s (snd e) = Inr row \<and> index_key_for s u ordinal (fst e) row = Inr index_key"
  let ?n = "lower_position k es"
  obtain keys where keys: "list_all2 ?rel es keys" "mset ies = mset (zip keys (map fst es))"
    using assms(1) by (auto simp: index_holds_def)
  let ?keys = "take ?n keys @ ik # drop ?n keys"
  have "list_all2 ?rel (insert_sorted k rb es) ?keys"
    unfolding insert_sorted_take using keys(1) assms(2,3)
    by (auto intro!: list_all2_appendI list_all2_takeI list_all2_dropI)
  moreover have len: "length es = length keys"
    using keys(1) by (rule list_all2_lengthD)
  have "mset (insert_sorted ik k ies) = mset (zip ?keys (map fst (insert_sorted k rb es)))"
  proof -
    have "zip ?keys (map fst (insert_sorted k rb es)) =
        take ?n (zip keys (map fst es)) @ (ik, k) # drop ?n (zip keys (map fst es))"
      unfolding insert_sorted_take using len by (simp add: take_zip drop_zip take_map drop_map)
    moreover have "mset (insert_sorted ik k ies) = add_mset (ik, k) (mset ies)"
      by (simp add: insert_sorted_take mset_take_drop)
    ultimately show ?thesis
      using keys(2) by (simp add: mset_take_drop)
  qed
  ultimately show ?thesis
    unfolding index_holds_def by blast
qed

section \<open>Reading does not touch the transaction\<close>

abbreviation tx_of :: "'w pager \<times> 'w \<Rightarrow> transaction_state" where
  "tx_of s \<equiv> pr_tx (fst s)"

lemma preserves_tx_basic [preserves_intros]:
  "preserves tx_of (require b e)" "preserves tx_of (get_pager f)" "preserves tx_of (on_bpm a)"
  "preserves tx_of (on_disk a')" "preserves tx_of (lift_result r)" "preserves tx_of (release_pin pin)"
  "preserves tx_of (read_page pin g)"
  by (auto simp: preserves_def require_def get_pager_def on_bpm_def on_disk_def lift_result_def release_pin_def
      read_page_def split: prod.splits)

lemma preserves_tx_get_page:
  fixes os :: "'w win32"
  shows "preserves tx_of (pager_get_page os p)"
proof -
  have load: "preserves tx_of (load_page os p)"
    unfolding load_page_def by (intro preserves_intros) (auto intro: preserves_intros split: option.splits)
  have "preserves tx_of (\<lambda>s. case on_bpm (pool_get_page p) s of
       (s1, Inr page_pin) \<Rightarrow> (s1, Inr page_pin)
     | (s1, Inl e) \<Rightarrow> if e \<noteq> NotFound then (s1, Inl e)
         else bind_action (load_page os p) (\<lambda>page. on_bpm (pool_cache_page page)) s1)"
    unfolding preserves_def
  proof
    fix s :: "'w pager \<times> 'w"
    obtain s1 r where pinned: "on_bpm (pool_get_page p) s = (s1, r)"
      by (metis surj_pair)
    have "tx_of s1 = tx_of s"
      using preservesD[OF preserves_tx_basic(3) pinned] .
    moreover have "preserves tx_of (bind_action (load_page os p) (\<lambda>page. on_bpm (pool_cache_page page)))"
      by (intro preserves_intros load)
    then have "tx_of (fst (bind_action (load_page os p) (\<lambda>page. on_bpm (pool_cache_page page)) s1)) = tx_of s1"
      unfolding preserves_def by blast
    ultimately show "tx_of (fst (case on_bpm (pool_get_page p) s of
       (s1, Inr page_pin) \<Rightarrow> (s1, Inr page_pin)
     | (s1, Inl e) \<Rightarrow> if e \<noteq> NotFound then (s1, Inl e)
         else bind_action (load_page os p) (\<lambda>page. on_bpm (pool_cache_page page)) s1)) = tx_of s"
      by (simp add: pinned split: sum.splits)
  qed
  then show ?thesis
    unfolding pager_get_page_def by (intro preserves_intros)
qed

lemma preserves_tx_with_page:
  assumes "preserves tx_of handle" "\<And>pin. preserves tx_of (body pin)"
  shows "preserves tx_of (with_page handle body)"
  unfolding preserves_def
proof
  fix s
  obtain s1 r where h: "handle s = (s1, r)"
    by (metis surj_pair)
  have "tx_of s1 = tx_of s"
    using preservesD[OF assms(1) h] .
  moreover have "tx_of (fst (release_pin pin s2)) = tx_of s1" if "body pin s1 = (s2, x)" for pin s2 x
    using preservesD[OF assms(2) that] by (simp add: release_pin_def)
  ultimately show "tx_of (fst (with_page handle body s)) = tx_of s"
    by (auto simp: with_page_def h split: sum.splits prod.splits)
qed

lemma open_table_tx:
  assumes "open_table_tree os d (c, s) = Some ((c', s'), r)"
  shows "tx_of s' = tx_of s"
proof (cases "schema_for_table c (td_table_id d)")
  case (Some sch)
  let ?open = "btree_open_existing os (td_root_page_id d) (of_nat (fixed_size (col_type (primary_key_column sch))))
    (of_nat (sch_row_size sch))"
  have "preserves tx_of ?open"
    unfolding btree_open_existing_def
    by (rule preserves_tx_with_page[OF preserves_tx_get_page]) (rule preserves_tx_basic)
  moreover obtain s1 r1 where opened: "?open s = (s1, r1)"
    by (metis surj_pair)
  ultimately have "tx_of s1 = tx_of s"
    by (rule preservesD)
  moreover have "s' = s1"
    using assms Some opened by (simp add: open_table_tree_def bind_run_def lookup_or_def get_catalog_def done_with_def
        pager_call_def on_pager_def returns_def)
  ultimately show ?thesis
    by simp
qed (use assms in \<open>simp add: open_table_tree_def bind_run_def lookup_or_def get_catalog_def stop_with_def\<close>)

text \<open>A writing statement in a transaction of the caller is its work.\<close>

lemma writing_in_transaction:
  assumes "tx_in_transaction (tx_of s)"
  shows "writing_statement os work (c, s) = work False (c, s)"
proof -
  have "begin_if_needed (c, s) = Some ((c, s), Inr False)"
    using assms by (simp add: begin_if_needed_def bind_run_def pager_call_def on_pager_def returns_def get_pager_def done_with_def)
  then show ?thesis
    by (cases "work False (c, s)")
      (auto simp: writing_statement_def bind_run_def or_statement_failure_def mutation_failure_def stop_with_def
        finish_statement_def done_with_def split: sum.splits)
qed

section \<open>The statement\<close>

lemma works_weaken:
  assumes "works content txns db c P' run R'" "\<And>m. P m \<Longrightarrow> P' m" "\<And>x m. R' x m \<Longrightarrow> R x m"
  shows "works content txns db c P run R"
  unfolding works_def
proof (intro allI impI)
  fix s assume s: "pages_ok content txns db [] s" "P (page_map db txns s)"
  from worksD[OF assms(1) s(1) assms(2)[OF s(2)]] assms(3) show "\<exists>s' r. run (c, s) = Some ((c, s'), r) \<and>
      pages_ok content txns db [] s' \<and> (\<forall>x. r = Inr x \<longrightarrow> R x (page_map db txns s'))"
    by fastforce
qed

lemma works_ex:
  "(\<And>y. works content txns db c (P y) run R) \<Longrightarrow> works content txns db c (\<lambda>m. \<exists>y. P y m) run R"
  "(Q \<Longrightarrow> works content txns db c P' run R) \<Longrightarrow> works content txns db c (\<lambda>m. Q \<and> P' m) run R"
  unfolding works_def by blast+

definition insert_work :: "'w win32 \<Rightarrow> table_id \<Rightarrow> schema \<Rightarrow> btree \<Rightarrow> row \<Rightarrow> bytes \<Rightarrow> bytes \<Rightarrow> ('w, execution_outcome) db_run" where
  "insert_work os i s tree row rb key =
     bind_run (on_pager (btree_insert os tree key rb)) (\<lambda>_.
     bind_run (get_catalog (\<lambda>cat. indexes_for_table cat i)) (\<lambda>index_descriptors.
     bind_run (for_all index_descriptors (insert_into_index os i s row key)) (\<lambda>_.
     done_with (count_outcome 1))))"

text \<open>What an insertion leaves: the table with the new entry, its indexes with theirs, other pages as they were.\<close>

definition row_inserted :: "catalog \<Rightarrow> page_store \<Rightarrow> table_id \<Rightarrow> schema \<Rightarrow> (bytes \<times> bytes) list \<Rightarrow> (btree \<times> tree) list \<Rightarrow>
    bytes \<Rightarrow> bytes \<Rightarrow> page_store \<Rightarrow> bool" where
  "row_inserted c m0 i s es ts key rb m \<longleftrightarrow> key \<notin> fst ` set es \<and>
     (\<exists>ts'. table_trees c m i s (insert_sorted key rb es) ts') \<and> (\<forall>p \<in> dom m0 - tree_ids ts. m p = m0 p)"

context win32_files
begin

lemma works_insert_index:
  assumes "index_tree c s es ix (bt, it)" "\<not> ixd_primary ix" "ixd_table_id ix = i" "row_decode s rb = Inr row"
  shows "works content txns db c (\<lambda>m. grown_trees m0 ts0 m (xs @ (bt, it) # ys)) (insert_into_index os i s row k ix)
    (\<lambda>_ m. \<exists>it'. index_tree c s (insert_sorted k rb es) ix (bt, it') \<and> grown_trees m0 ts0 m (xs @ (bt, it') # ys))"
proof -
  obtain column where ix: "schema_for_table c i = Some s" "find_column_by_id c i (ixd_indexed_column_id ix) = Some column"
      "bt = index_btree ix column s" "index_holds s (ixd_unique ix) (cld_ordinal column) es (contents it)"
    using assms(1,3) by (auto simp: index_tree_def)
  let ?P = "\<lambda>m. grown_trees m0 ts0 m (xs @ (bt, it) # ys)"
  have "works content txns db c ?P (open_index_tree os ix) (\<lambda>bt' m. bt' = bt \<and> ?P m)"
  proof (rule works_reads)
    fix m assume "?P m"
    moreover from this have "btree_stores (index_btree ix column s) m it"
      by (simp add: grown_trees_def stored_trees_append stored_trees_Cons ix(3))
    ultimately show "reads content txns db c m (open_index_tree os ix) (\<lambda>bt'. bt' = bt \<and> ?P m)"
      using ix(1,2) assms(3) by (auto intro!: reads_weaken[OF reads_open_index[of c ix s column m it]] simp: ix(3))
  qed
  moreover have "works content txns db c ?P (on_pager (btree_insert os bt ik k))
      (\<lambda>_ m. \<exists>it'. index_tree c s (insert_sorted k rb es) ix (bt, it') \<and> grown_trees m0 ts0 m (xs @ (bt, it') # ys))"
    if "index_key_for s (ixd_unique ix) (cld_ordinal column) k row = Inr ik" for ik
    using index_holds_insert[OF ix(4) assms(4) that] ix(1-3) assms(3)
    by (intro works_weaken[OF works_insert]) (auto simp: index_tree_def)
  ultimately show ?thesis
    unfolding insert_into_index_def using assms(2) ix(2)
    by (auto intro!: works_basic works_bind[where R = "\<lambda>bt' m. bt' = bt \<and> ?P m"] works_ex)
qed

lemma works_insert_indexes:
  assumes "list_all2 (index_tree c s es) (secondary ixs) its" "\<forall>ix \<in> set ixs. ixd_table_id ix = i"
    and "row_decode s rb = Inr row"
  shows "works content txns db c (\<lambda>m. grown_trees m0 ts0 m (xs @ its)) (for_all ixs (insert_into_index os i s row k))
    (\<lambda>_ m. \<exists>its'. list_all2 (index_tree c s (insert_sorted k rb es)) (secondary ixs) its' \<and>
      grown_trees m0 ts0 m (xs @ its'))"
  using assms(1,2)
proof (induction ixs arbitrary: xs its)
  case Nil
  then show ?case
    by (auto simp: secondary_def intro: works_basic)
next
  case (Cons ix ixs)
  show ?case
  proof (cases "ixd_primary ix")
    case True
    then have "for_all (ix # ixs) (insert_into_index os i s row k) = for_all ixs (insert_into_index os i s row k)"
      by (simp add: fun_eq_iff insert_into_index_def bind_run_def done_with_def)
    with Cons True show ?thesis
      by (simp add: secondary_def)
  next
    case False
    then obtain bt it rest where its: "its = (bt, it) # rest" "index_tree c s es ix (bt, it)"
        "list_all2 (index_tree c s es) (secondary ixs) rest"
      using Cons.prems(1) by (auto simp: secondary_def list_all2_Cons1)
    have rest: "works content txns db c (\<lambda>m. grown_trees m0 ts0 m (xs @ (bt, it') # rest))
        (for_all ixs (insert_into_index os i s row k))
        (\<lambda>_ m. \<exists>its'. list_all2 (index_tree c s (insert_sorted k rb es)) (secondary ixs) its' \<and>
          grown_trees m0 ts0 m (xs @ (bt, it') # its'))" for it'
      using Cons.IH[OF its(3), of "xs @ [(bt, it')]"] Cons.prems(2) by simp
    have "works content txns db c (\<lambda>m. grown_trees m0 ts0 m (xs @ its)) (insert_into_index os i s row k ix)
        (\<lambda>_ m. \<exists>it'. index_tree c s (insert_sorted k rb es) ix (bt, it') \<and> grown_trees m0 ts0 m (xs @ (bt, it') # rest))"
      unfolding its(1) using Cons.prems(2) False by (intro works_insert_index[OF its(2) _ _ assms(3)]) auto
    then show ?thesis
      unfolding for_all.simps
    proof (rule works_bind, intro works_ex)
      fix it' assume it': "index_tree c s (insert_sorted k rb es) ix (bt, it')"
      show "works content txns db c (\<lambda>m. grown_trees m0 ts0 m (xs @ (bt, it') # rest))
          (for_all ixs (insert_into_index os i s row k))
          (\<lambda>_ m. \<exists>its'. list_all2 (index_tree c s (insert_sorted k rb es)) (secondary (ix # ixs)) its' \<and>
            grown_trees m0 ts0 m (xs @ its'))"
      proof (rule works_weaken[OF rest])
        fix u m assume "\<exists>its'. list_all2 (index_tree c s (insert_sorted k rb es)) (secondary ixs) its' \<and>
            grown_trees m0 ts0 m (xs @ (bt, it') # its')"
        then obtain its' where "list_all2 (index_tree c s (insert_sorted k rb es)) (secondary ixs) its'"
            "grown_trees m0 ts0 m (xs @ (bt, it') # its')"
          by blast
        with it' False show "\<exists>its'. list_all2 (index_tree c s (insert_sorted k rb es)) (secondary (ix # ixs)) its' \<and>
            grown_trees m0 ts0 m (xs @ its')"
          by (intro exI[of _ "(bt, it') # its'"]) (simp add: secondary_def)
      qed
    qed
  qed
qed

lemma works_insert_work:
  assumes t: "table_trees c m0 i s es ts" "find_table_by_id c i = Some d"
    and row: "row_decode s rb = Inr row" "primary_key_bytes s row = Inr key"
  shows "works content txns db c (\<lambda>m. m = m0) (insert_work os i s (table_btree d s) row rb key)
    (\<lambda>outcome m. outcome = count_outcome 1 \<and> row_inserted c m0 i s es ts key rb m)"
proof -
  let ?es = "insert_sorted key rb es"
  obtain t its where ts: "ts = (table_btree d s, t) # its" "contents t = es" "td_table_id d = i"
      "list_all2 (index_tree c s es) (secondary (indexes_for_table c i)) its"
    using t by (auto simp: table_trees_def)
  have st: "stored_trees m0 ts" "schema_wf s" "schema_for_table c i = Some s" "\<forall>e \<in> set es. table_entry s e"
      "\<forall>ix \<in> set (indexes_for_table c i). ixd_table_id ix = i"
    using t(1) by (auto simp: table_trees_def)
  have first: "works content txns db c (\<lambda>m. m = m0) (on_pager (btree_insert os (table_btree d s) key rb))
      (\<lambda>_ m. key \<notin> fst ` set es \<and> (\<exists>t'. contents t' = ?es \<and> grown_trees m0 ts m ((table_btree d s, t') # its)))"
    using works_insert[of txns db c m0 ts "[]" "table_btree d s" t its key rb] grown_trees_refl[OF st(1)]
    by (auto simp: ts(1,2) elim!: works_weaken)
  have rest: "works content txns db c (\<lambda>m. grown_trees m0 ts m ((table_btree d s, t') # its))
      (for_all (indexes_for_table c i) (insert_into_index os i s row key))
      (\<lambda>_ m. row_inserted c m0 i s es ts key rb m)"
    if "key \<notin> fst ` set es" "contents t' = ?es" for t'
  proof (rule works_weaken[OF works_insert_indexes[OF ts(4) st(5) row(1), where xs = "[(table_btree d s, t')]"]])
    fix u m assume "\<exists>its'. list_all2 (index_tree c s ?es) (secondary (indexes_for_table c i)) its' \<and>
        grown_trees m0 ts m ([(table_btree d s, t')] @ its')"
    then obtain its' where its': "list_all2 (index_tree c s ?es) (secondary (indexes_for_table c i)) its'"
        "grown_trees m0 ts m ((table_btree d s, t') # its')"
      by auto
    have "table_entry s e" if "e \<in> set ?es" for e
      using that st(4) row by (auto simp: set_insert_sorted table_entry_def)
    then have "table_trees c m i s ?es ((table_btree d s, t') # its')"
      using its' st(2,3,5) t(2) ts(3) that unfolding table_trees_def by (auto simp: grown_trees_def)
    with its'(2) that(1) show "row_inserted c m0 i s es ts key rb m"
      by (auto simp: row_inserted_def grown_trees_def)
  qed simp
  show ?thesis
    unfolding insert_work_def
  proof (rule works_bind[OF first], intro works_ex works_basic)
    fix t' assume t': "key \<notin> fst ` set es" "contents t' = ?es"
    show "works content txns db c (\<lambda>m. grown_trees m0 ts m ((table_btree d s, t') # its))
        (bind_run (for_all (indexes_for_table c i) (insert_into_index os i s row key)) (\<lambda>_. done_with (count_outcome 1)))
        (\<lambda>outcome m. outcome = count_outcome 1 \<and> row_inserted c m0 i s es ts key rb m)"
      by (rule works_bind[OF rest[OF t']]) (simp add: works_basic)
  qed
qed

end

lemma converted_values:
  assumes "convert_values cs literals = Inr vs" "length literals = length cs" "\<forall>c \<in> set cs. type_wf (col_type c)"
  shows "\<forall>v \<in> set vs. value_wf v"
  using assms
proof (induction cs literals arbitrary: vs rule: convert_values.induct)
  case (1 c cs literal literals)
  then show ?case
    using literal_conversion by (fastforce simp: result_iffs)
qed auto

lemma encoded_row:
  assumes "schema_wf s" "\<forall>v \<in> set row. value_wf v" "row_encode s row = Inr rb"
  shows "row_decode s rb = Inr row"
proof -
  have "validate_row_against_schema s row = Ok"
    using assms(3) by (auto simp: row_encode_def result_iffs)
  then have "row_fits s row"
    using validate_row_iff[OF assms(1,2)] by simp
  with row_encode_image[OF assms(1,2)] row_decode_image[OF assms(1)] assms(3) show ?thesis
    by simp
qed

lemma bind_run_simps:
  "bind_run (check_that r) f s = (case r of Inl e \<Rightarrow> Some (s, Inl e) | Inr x \<Rightarrow> f x s)"
  "bind_run (lookup_or e g) f s = (case g (fst s) of None \<Rightarrow> Some (s, Inl e) | Some x \<Rightarrow> f x s)"
  "bind_run (get_catalog h) f s = f (h (fst s)) s"
  by (auto simp: bind_run_def check_that_def lookup_or_def get_catalog_def done_with_def stop_with_def
      split: option.splits sum.splits)

definition insert_outcome :: "catalog \<Rightarrow> page_store \<Rightarrow> bound_insert_statement \<Rightarrow> schema \<Rightarrow> (bytes \<times> bytes) list \<Rightarrow>
    (btree \<times> tree) list \<Rightarrow> execution_outcome \<Rightarrow> page_store \<Rightarrow> bool" where
  "insert_outcome c m0 st s es ts outcome m \<longleftrightarrow> outcome = count_outcome 1 \<and> (\<exists>row rb key.
     convert_values (sch_columns s) (bin_values st) = Inr row \<and> row_encode s row = Inr rb \<and>
     row_decode s rb = Inr row \<and> primary_key_bytes s row = Inr key \<and> row_inserted c m0 (bin_table_id st) s es ts key rb m)"

context win32_files
begin

lemma insert_in_transaction:
  assumes "pages_ok content txns db [] s" "table_trees c (page_map db txns s) (bin_table_id st) sch es ts"
    and "tx_in_transaction (tx_of s)"
  shows "\<exists>s' r. execute_insert_statement os st (c, s) = Some ((c, s'), r) \<and> pages_ok content txns db [] s' \<and>
    (\<forall>outcome. r = Inr outcome \<longrightarrow> insert_outcome c (page_map db txns s) st sch es ts outcome (page_map db txns s'))"
proof -
  let ?i = "bin_table_id st" and ?m = "page_map db txns s"
  obtain d t its where d: "find_table_by_id c ?i = Some d" "td_table_id d = ?i" "ts = (table_btree d sch, t) # its"
    using assms(2) by (auto simp: table_trees_def)
  have sch: "schema_wf sch" "schema_for_table c ?i = Some sch" "btree_stores (table_btree d sch) ?m t"
    using assms(2) d(3) by (auto simp: table_trees_def stored_trees_Cons)
  let ?goal = "\<lambda>run. \<exists>s' r. run = Some ((c, s'), r) \<and> pages_ok content txns db [] s' \<and>
    (\<forall>outcome. r = Inr outcome \<longrightarrow> insert_outcome c ?m st sch es ts outcome (page_map db txns s'))"
  have refused: "?goal (Some ((c, s), Inl e))" for e
    using assms(1) by (cases s) auto
  have work: "?goal (bind_run (open_table_tree os d) (\<lambda>tree. writing_statement os (\<lambda>_.
      insert_work os ?i sch tree row rb key)) (c, s))"
    if row: "convert_values (sch_columns sch) (bin_values st) = Inr row" "length (bin_values st) = length (sch_columns sch)"
      "row_encode sch row = Inr rb" "primary_key_bytes sch row = Inr key" for row rb key
  proof -
    have "\<forall>v \<in> set row. value_wf v"
      using sch(1) by (intro converted_values[OF row(1,2)]) (simp add: schema_wf_def)
    from encoded_row[OF sch(1) this row(3)] have decode: "row_decode sch rb = Inr row" .
    from readsD[OF reads_open_table assms(1) refl, of c d sch t] d(2) sch(2,3) obtain s1 r1 where
      opened: "open_table_tree os d (c, s) = Some ((c, s1), r1)" "pages_ok content txns db [] s1"
        "page_map db txns s1 = ?m" "\<And>tree. r1 = Inr tree \<Longrightarrow> tree = table_btree d sch"
      by auto
    show ?thesis
    proof (cases r1)
      case (Inl e)
      with opened(1,2) show ?thesis
        by (cases s1) (auto simp: bind_run_def)
    next
      case (Inr tree)
      have "tx_in_transaction (tx_of s1)"
        using assms(3) open_table_tx[OF opened(1)] by simp
      then have "bind_run (open_table_tree os d) (\<lambda>tree. writing_statement os (\<lambda>_. insert_work os ?i sch tree row rb key)) (c, s) =
          insert_work os ?i sch (table_btree d sch) row rb key (c, s1)"
        using opened(1) opened(4)[OF Inr] Inr writing_in_transaction by (simp add: bind_run_def)
      moreover from worksD[OF works_insert_work[OF assms(2) d(1) decode row(4)] opened(2,3)] obtain s' r where
        "insert_work os ?i sch (table_btree d sch) row rb key (c, s1) = Some ((c, s'), r)" "pages_ok content txns db [] s'"
        "\<forall>outcome. r = Inr outcome \<longrightarrow> outcome = count_outcome 1 \<and> row_inserted c ?m ?i sch es ts key rb (page_map db txns s')"
        by blast
      ultimately show ?thesis
        using row decode by (cases s') (auto simp: insert_outcome_def)
    qed
  qed
  show ?thesis
  proof (cases "length (bin_values st) = length (sch_columns sch)")
    case False
    then show ?thesis
      using refused by (simp add: execute_insert_statement_def bind_run_simps d(1) sch(2) require_that_def stop_with_def)
  next
    case True
    have run: "execute_insert_statement os st (c, s) =
        (case convert_values (sch_columns sch) (bin_values st) of Inl e \<Rightarrow> Some ((c, s), Inl e) | Inr values \<Rightarrow>
        (case build_row sch values of Inl e \<Rightarrow> Some ((c, s), Inl e) | Inr row \<Rightarrow>
        (case row_encode sch row of Inl e \<Rightarrow> Some ((c, s), Inl e) | Inr rb \<Rightarrow>
        (case primary_key_bytes sch row of Inl e \<Rightarrow> Some ((c, s), Inl e) | Inr key \<Rightarrow>
          bind_run (open_table_tree os d) (\<lambda>tree. writing_statement os (\<lambda>_.
            insert_work os ?i sch tree row rb key)) (c, s)))))"
      using True by (simp add: execute_insert_statement_def bind_run_simps d(1) sch(2) require_that_def insert_work_def cong: sum.case_cong)
    show ?thesis
      unfolding run using refused work[OF _ True]
      by (auto simp: build_row_def result_iffs simp del: split_paired_Ex split: sum.splits)
  qed
qed

lemma select_inserted:
  assumes "pages_ok content txns db [] s" "table_trees c (page_map db txns s) (bin_table_id ist) sch es ts"
    and "tx_in_transaction (tx_of s)"
    and "execute_insert_statement os ist (c, s) = Some ((c', s1), Inr result1)"
    and "bse_table_id st = bin_table_id ist" "\<forall>p. bse_predicate st = Some p \<longrightarrow> bound_to c (bin_table_id ist) sch p"
    and "execute_select_statement os st (c', s1) = Some (s2, Inr outcome)"
  shows "\<exists>state row rows key. resolve_predicate_state sch (bse_predicate st) = Inr state \<and>
    convert_values (sch_columns sch) (bin_values ist) = Inr row \<and> primary_key_bytes sch row = Inr key \<and>
    key \<notin> fst ` set es \<and> eo_row_set outcome = Some rows \<and>
    mset (rs_rows rows) = mset (query_rows sch (bse_projection st) state es) +
      (if row_matches_predicate row state = Inr True then {#map (\<lambda>column. row ! bc_ordinal column) (bse_projection st)#} else {#})"
proof -
  from insert_in_transaction[OF assms(1-3)] assms(4) have ins: "c' = c" "pages_ok content txns db [] s1"
      "insert_outcome c (page_map db txns s) ist sch es ts result1 (page_map db txns s1)"
    by auto
  obtain row rb key ts' where row: "convert_values (sch_columns sch) (bin_values ist) = Inr row" "row_encode sch row = Inr rb"
      "primary_key_bytes sch row = Inr key" "key \<notin> fst ` set es" "row_decode sch rb = Inr row"
      "table_trees c (page_map db txns s1) (bin_table_id ist) sch (insert_sorted key rb es) ts'"
    using ins(3) by (auto simp: insert_outcome_def row_inserted_def)
  have "reads content txns db c (page_map db txns s1) (execute_select_statement os st)
      (select_outcome c st sch (insert_sorted key rb es))"
    using table_trees_stored[OF row(6)] assms(5,6) by (intro reads_select) simp_all
  from readsD[OF this ins(2) refl] assms(7) have outcome: "select_outcome c st sch (insert_sorted key rb es) outcome"
    by (auto simp: ins(1))
  obtain state names rs where out: "resolve_predicate_state sch (bse_predicate st) = Inr state"
      "outcome = rows_outcome \<lparr>rs_column_names = names, rs_rows = rs\<rparr>"
      "mset rs = mset (query_rows sch (bse_projection st) state (insert_sorted key rb es))"
    using outcome unfolding select_outcome_def by blast
  let ?rows = "\<lparr>rs_column_names = names, rs_rows = rs\<rparr>"
  have sel: "resolve_predicate_state sch (bse_predicate st) = Inr state" "eo_row_set outcome = Some ?rows"
      "mset (rs_rows ?rows) = mset (query_rows sch (bse_projection st) state (insert_sorted key rb es))"
    using out by (simp_all add: rows_outcome_def)
  let ?n = "lower_position key es"
  have "query_rows sch (bse_projection st) state es =
      query_rows sch (bse_projection st) state (take ?n es) @ query_rows sch (bse_projection st) state (drop ?n es)"
    unfolding query_rows_def by (simp flip: concat_append map_append)
  then have "mset (query_rows sch (bse_projection st) state es) = mset (query_rows sch (bse_projection st) state (take ?n es)) +
      mset (query_rows sch (bse_projection st) state (drop ?n es))"
    by (metis mset_append)
  then have "mset (query_rows sch (bse_projection st) state (insert_sorted key rb es)) =
      mset (query_rows sch (bse_projection st) state es) + mset (selected_rows sch (bse_projection st) state (key, rb))"
    by (simp add: insert_sorted_take query_rows_def)
  also have "mset (selected_rows sch (bse_projection st) state (key, rb)) =
      (if row_matches_predicate row state = Inr True then {#map (\<lambda>column. row ! bc_ordinal column) (bse_projection st)#} else {#})"
    by (simp add: selected_rows_def row(5))
  finally show ?thesis
    using sel row(1,3,4) by (intro exI[of _ state] exI[of _ row] exI[of _ ?rows] exI[of _ key]) simp
qed

end

end
