(* ===== verification/SampleDatabase.thy ===== *)
theory SampleDatabase
  imports Inserts
begin

text \<open>
  Small databases on which the properties of whole statements are applied: a pager over a database file
  with given leaf pages behind the header, and a table with two rows and an index.
\<close>

section \<open>Leaf pages and files\<close>

fun fill_leaf :: "nat \<Rightarrow> (bytes \<times> bytes) list \<Rightarrow> bytes \<Rightarrow> bytes" where
  "fill_leaf i [] d = d"
| "fill_leaf i ((k, v) # es) d = fill_leaf (Suc i) es (stored [] (leaf_insert_entry i k v d))"

definition leaf_page :: "u16 \<Rightarrow> u16 \<Rightarrow> (bytes \<times> bytes) list \<Rightarrow> bytes" where
  "leaf_page ks vs es = fill_leaf 0 es (page_set_root True (stored [] (initialize_leaf (replicate PAGE_SIZE 0) ks vs)))"

lemma fill_leaf_node:
  assumes "node_of ks vs d = Some (LeafNode True es nx)" "\<forall>(k, v) \<in> set es'. length k = ks \<and> length v = vs"
    and "sorted (map fst (es @ es'))" "length (es @ es') \<le> leaf_capacity_of ks vs"
  shows "node_of ks vs (fill_leaf (length es) es' d) = Some (LeafNode True (es @ es') nx)"
  using assms
proof (induction es' arbitrary: es d)
  case (Cons e es')
  obtain k v where e: "e = (k, v)"
    by (cases e)
  have "0 < length es \<Longrightarrow> fst (es ! (length es - 1)) \<le> k"
    using Cons.prems(3) by (auto simp: e sorted_append)
  then obtain d' where d: "leaf_insert_entry (length es) k v d = Inr d'"
      "node_of ks vs d' = Some (LeafNode True (es @ [e]) nx)"
    using leaf_insert_view[OF Cons.prems(1), of k v "length es"] Cons.prems(2,4) by (auto simp: e)
  from Cons.IH[OF d(2)] Cons.prems(2-4) show ?case
    by (simp add: e d(1) stored_def)
qed simp

lemma leaf_page_node:
  assumes "\<forall>(k, v) \<in> set es. length k = unat ks \<and> length v = unat vs" "0 < ks" "0 < vs"
    and "sorted (map fst es)" "length es \<le> leaf_capacity_of (unat ks) (unat vs)" "1 \<le> leaf_capacity_of (unat ks) (unat vs)"
  shows "node_of (unat ks) (unat vs) (leaf_page ks vs es) = Some (LeafNode True es INVALID_PAGE_ID)"
proof -
  obtain b where b: "initialize_leaf (replicate PAGE_SIZE 0) ks vs = Inr b"
    "node_of (unat ks) (unat vs) b = Some (LeafNode False [] INVALID_PAGE_ID)"
    using initialize_leaf_view[of "replicate PAGE_SIZE 0" ks vs] assms(2,3,6) by auto
  from fill_leaf_node[OF leaf_setters_view(4)[OF b(2), of True], of es] assms(1,4,5) show ?thesis
    by (simp add: leaf_page_def b(1) stored_def)
qed

definition pages_header :: "bytes list \<Rightarrow> database_header" where
  "pages_header ps = (database_header_create_new 7)\<lparr>dh_page_count := of_nat (Suc (length ps))\<rparr>"

definition pages_db :: "bytes list \<Rightarrow> bytes" where
  "pages_db ps = database_header_bytes (pages_header ps) @ concat ps"

definition pages_files :: "bytes list \<Rightarrow> mem_files" where
  "pages_files ps = \<lparr>mf_files = [''db'' \<mapsto> pages_db ps, wal_path ''db'' \<mapsto> log_bytes 7 []], mf_calls = 0\<rparr>"

definition pages_pager :: "bytes list \<Rightarrow> mem_files pager" where
  "pages_pager ps = small_pager\<lparr>pr_header := pages_header ps, pr_committed_header := pages_header ps\<rparr>"

definition pages_state :: "bytes list \<Rightarrow> mem_files pager \<times> mem_files" where
  "pages_state ps = (pages_pager ps, pages_files ps)"

definition pages_of :: "bytes list \<Rightarrow> page_store" where
  "pages_of ps p = (if 1 \<le> unat p \<and> unat p \<le> length ps then Some (ps ! (unat p - 1)) else None)"

lemma concat_slot:
  assumes "\<forall>d \<in> set ps. length d = PAGE_SIZE" "i < length ps"
  shows "take PAGE_SIZE (drop (i * PAGE_SIZE) (concat ps)) = ps ! i"
  using assms
proof (induction ps arbitrary: i)
  case (Cons d ps)
  show ?case
  proof (cases i)
    case (Suc j)
    then have "drop (i * PAGE_SIZE) (concat (d # ps)) = drop (j * PAGE_SIZE) (concat ps)"
      using Cons.prems(1) by simp
    with Suc Cons show ?thesis by simp
  qed (use Cons in simp)
qed simp

lemma pages_header_count:
  assumes "length ps < 100"
  shows "unat (dh_page_count (pages_header ps)) = Suc (length ps)"
proof -
  have "unat (of_nat m :: u64) = m" if "m < 200" for m
    using that by (simp add: unsigned_of_nat take_bit_nat_eq_self)
  from this[of "Suc (length ps)"] assms show ?thesis
    by (simp add: pages_header_def)
qed

lemma pages_state_ok:
  assumes "\<forall>d \<in> set ps. length d = PAGE_SIZE" "length ps < 100"
  shows "pages_ok mf_files [] (pages_db ps) [] (pages_state ps)"
    "page_map (pages_db ps) [] (pages_state ps) = pages_of ps"
proof -
  note count = pages_header_count[OF assms(2)]
  have pos: "0 < dh_page_count (pages_header ps)"
    using count by (auto simp: word_less_nat_alt)
  have valid: "database_header_valid (pages_header ps)"
    using database_header_create_new_valid[of 7] pos
    by (auto simp: pages_header_def database_header_valid_def root_page_id_is_valid_def database_header_create_new_def)
  have "database_header_decode (take PAGE_SIZE (pages_db ps)) = Inr (pages_header ps)"
    by (simp add: pages_db_def database_header_roundtrip valid)
  then have files: "pager_files mf_files [] (pages_db ps) (pages_pager ps) (pages_files ps)"
    by (auto simp: pager_files_def pages_pager_def small_pager_def pages_files_def
      pager_new_def fh_ok_def recovered_ok_def header_view_def)
  have empty: "frames_of (pages_pager ps) p = None" for p
    using small_pager_ready(2)[of p] by (simp add: pages_pager_def frames_of_def)
  show "pages_ok mf_files [] (pages_db ps) [] (pages_state ps)"
    using files empty pos
    by (auto simp: pages_state_def pages_ok_def pool_pins_def pages_pager_def pool_new_ok pool_new_abs frames_of_def)
  have "page_map (pages_db ps) [] (pages_state ps) p = pages_of ps p" for p
  proof -
    have "page_slot (pages_db ps) (Suc i) = ps ! i" if "i < length ps" for i
      using concat_slot[OF assms(1) that] by (simp add: page_slot_def pages_db_def)
    from this[of "unat p - 1"] show ?thesis
      using empty[of p] count
      by (auto simp: page_map_def pages_state_def pages_pager_def HEADER_PAGE_ID_def page_view_def pages_of_def
          word_le_nat_alt unat_eq_0 Suc_le_eq)
  qed
  then show "page_map (pages_db ps) [] (pages_state ps) = pages_of ps"
    by blast
qed

text \<open>A tree that is one leaf, as the page \<open>i\<close> of such a database.\<close>

lemma leaf_stored:
  assumes "i < length ps" "ps ! i = leaf_page ks vs es" "length ps < 100"
    and "\<forall>(k, v) \<in> set es. length k = unat ks \<and> length v = unat vs" "0 < ks" "0 < vs"
    and "sorted_wrt (<) (map fst es)" "length es \<le> leaf_capacity_of (unat ks) (unat vs)" "1 \<le> leaf_capacity_of (unat ks) (unat vs)"
  shows "btree_stores \<lparr>bt_root_page_id = of_nat (Suc i), bt_key_size = ks, bt_value_size = vs\<rparr> (pages_of ps)
    (TLeaf (of_nat (Suc i)) es INVALID_PAGE_ID)"
proof -
  have "sorted (map fst es)"
    using assms(7) by (simp only: strict_sorted_iff)
  note node = leaf_page_node[OF assms(4-6) this assms(8,9)]
  have i: "unat (of_nat (Suc i) :: page_id) = Suc i"
    using assms(1,3) by (simp add: unsigned_of_nat take_bit_nat_eq_self del: of_nat_Suc)
  then have "(of_nat (Suc i) :: page_id) \<noteq> INVALID_PAGE_ID"
    using assms(1,3) by (auto simp: INVALID_PAGE_ID_def simp del: of_nat_Suc)
  moreover have "nodes (unat ks) (unat vs) (pages_of ps) (of_nat (Suc i)) = Some (LeafNode True es INVALID_PAGE_ID)"
    using assms(1,2) node by (simp add: nodes_def pages_of_def i del: of_nat_Suc)
  ultimately show ?thesis
    using assms(7) by (simp add: btree_stores_def forest_def below_def del: of_nat_Suc)
qed

section \<open>A table with two rows and an index\<close>

text \<open>The table \<open>t(id INT8 PRIMARY KEY, v INT8 NOT NULL)\<close> with the rows (1, 7) and (2, 5), and an index on \<open>v\<close>.\<close>

definition t_columns :: "column list" where
  "t_columns =
     [\<lparr>col_name = ''id'', col_type = plain_type Int8, col_nullable = False, col_pk = True, col_unique = True,
        col_ordinal = 0, col_fixed_offset = 0\<rparr>,
      \<lparr>col_name = ''v'', col_type = plain_type Int8, col_nullable = False, col_pk = False, col_unique = False,
        col_ordinal = 0, col_fixed_offset = 0\<rparr>]"

definition t_schema :: schema where
  "t_schema = projr (schema_create t_columns)"

definition t_descriptors :: "column_descriptor list" where
  "t_descriptors =
     [\<lparr>cld_column_id = 30, cld_table_id = 5, cld_name = ''id'', cld_logical_type = plain_type Int8, cld_ordinal = 0,
        cld_nullable = False, cld_primary_key = True, cld_unique = True\<rparr>,
      \<lparr>cld_column_id = 31, cld_table_id = 5, cld_name = ''v'', cld_logical_type = plain_type Int8, cld_ordinal = 1,
        cld_nullable = False, cld_primary_key = False, cld_unique = False\<rparr>]"

definition t_index :: index_descriptor where
  "t_index = \<lparr>ixd_index_id = 8, ixd_table_id = 5, ixd_name = ''by_v'', ixd_root_page_id = 2, ixd_unique = False,
     ixd_primary = False, ixd_internal = False, ixd_indexed_column_id = 31\<rparr>"

definition t_info :: table_info where
  "t_info = \<lparr>ti_table_descriptor = \<lparr>td_table_id = 5, td_name = ''t'', td_root_page_id = 1\<rparr>, ti_columns = t_descriptors,
     ti_indexes = [t_index]\<rparr>"

definition t_catalog :: catalog where
  "t_catalog = catalog_new [(5, t_info)] [(5, t_schema)] [(''t'', 5)]"

definition t_entries :: "(bytes \<times> bytes) list" where
  "t_entries = [([0x81], [0, 1, 7]), ([0x82], [0, 2, 5])]"

definition t_index_entries :: "(bytes \<times> bytes) list" where
  "t_index_entries = [([0x85, 0x82], [0x82]), ([0x87, 0x81], [0x81])]"

definition t_pages :: "bytes list" where
  "t_pages = [leaf_page 1 3 t_entries, leaf_page 2 1 t_index_entries]"

definition int8_value :: "i64 \<Rightarrow> db_value" where
  "int8_value i = \<lparr>val_type = plain_type Int8, val_payload = PInteger i\<rparr>"

lemma t_schema_eq:
  "schema_create t_columns = Inr t_schema" "sch_primary_key_ordinal t_schema = 0" "sch_row_size t_schema = 3"
  "length (sch_columns t_schema) = 2" "map col_type (sch_columns t_schema) = [plain_type Int8, plain_type Int8]"
  "map col_name (sch_columns t_schema) = [''id'', ''v'']"
  by code_simp+

lemma t_schema_wf: "schema_wf t_schema"
  by (rule schema_create_wf[OF t_schema_eq(1)]) (simp add: t_columns_def type_wf_def plain_type_def)

lemma t_lookups:
  "schema_for_table t_catalog 5 = Some t_schema" "find_table_by_id t_catalog 5 = Some (ti_table_descriptor t_info)"
  "find_column_by_id t_catalog 5 31 = Some (t_descriptors ! 1)" "indexes_for_table t_catalog 5 = [t_index]"
  by (simp_all add: schema_for_table_def find_table_by_id_def find_column_by_id_def indexes_for_table_def t_catalog_def
      catalog_new_def visible_state_def t_info_def t_descriptors_def)

lemma t_rows:
  "row_decode t_schema [0, 1, 7] = Inr [int8_value 1, int8_value 7]"
  "row_decode t_schema [0, 2, 5] = Inr [int8_value 2, int8_value 5]"
  "primary_key_bytes t_schema [int8_value 1, int8_value 7] = Inr [0x81]"
  "primary_key_bytes t_schema [int8_value 2, int8_value 5] = Inr [0x82]"
  "index_key_for t_schema False 1 [0x81] [int8_value 1, int8_value 7] = Inr [0x87, 0x81]"
  "index_key_for t_schema False 1 [0x82] [int8_value 2, int8_value 5] = Inr [0x85, 0x82]"
  by code_simp+

lemma t_pages_lengths: "\<forall>d \<in> set t_pages. length d = PAGE_SIZE" "length t_pages < 100"
proof -
  have "node_of 1 3 (leaf_page 1 3 t_entries) = Some (LeafNode True t_entries INVALID_PAGE_ID)"
    "node_of 2 1 (leaf_page 2 1 t_index_entries) = Some (LeafNode True t_index_entries INVALID_PAGE_ID)"
    using leaf_page_node[of t_entries 1 3] leaf_page_node[of t_index_entries 2 1]
    by (simp_all add: t_entries_def t_index_entries_def leaf_capacity_of_def)
  then show "\<forall>d \<in> set t_pages. length d = PAGE_SIZE"
    using node_length by (auto simp: t_pages_def)
qed (simp add: t_pages_def)

abbreviation t_tree :: tree where
  "t_tree \<equiv> TLeaf 1 t_entries INVALID_PAGE_ID"

abbreviation t_index_tree :: tree where
  "t_index_tree \<equiv> TLeaf 2 t_index_entries INVALID_PAGE_ID"

definition t_trees :: "(btree \<times> tree) list" where
  "t_trees = [(\<lparr>bt_root_page_id = 1, bt_key_size = 1, bt_value_size = 3\<rparr>, t_tree),
     (\<lparr>bt_root_page_id = 2, bt_key_size = 2, bt_value_size = 1\<rparr>, t_index_tree)]"

lemma t_table_trees: "table_trees t_catalog (pages_of t_pages) 5 t_schema t_entries t_trees"
proof -
  have "btree_stores \<lparr>bt_root_page_id = 1, bt_key_size = 1, bt_value_size = 3\<rparr> (pages_of t_pages) t_tree"
    "btree_stores \<lparr>bt_root_page_id = 2, bt_key_size = 2, bt_value_size = 1\<rparr> (pages_of t_pages) t_index_tree"
    using leaf_stored[of 0 t_pages 1 3 t_entries] leaf_stored[of 1 t_pages 2 1 t_index_entries]
    by (simp_all add: t_pages_def t_entries_def t_index_entries_def leaf_capacity_of_def)
  then have trees: "stored_trees (pages_of t_pages) t_trees"
    by (simp add: t_trees_def stored_trees_Cons btree_layout_def leaf_capacity_of_def internal_capacity_of_def)
      (simp add: stored_trees_def)
  have pk: "primary_key_column t_schema = sch_columns t_schema ! 0"
    by (simp add: primary_key_column_def t_schema_eq)
  have "fixed_size (col_type (primary_key_column t_schema)) = 1"
    using arg_cong[OF t_schema_eq(5), of hd] t_schema_eq(4) unfolding pk
    by (cases "sch_columns t_schema") (simp_all add: fixed_size_def plain_type_def)
  then have bts: "table_btree (ti_table_descriptor t_info) t_schema = \<lparr>bt_root_page_id = 1, bt_key_size = 1, bt_value_size = 3\<rparr>"
    "index_btree t_index (t_descriptors ! 1) t_schema = \<lparr>bt_root_page_id = 2, bt_key_size = 2, bt_value_size = 1\<rparr>"
    by (simp_all add: table_btree_def index_btree_def t_info_def t_index_def t_descriptors_def t_schema_eq
        fixed_size_def plain_type_def)
  have holds: "index_holds t_schema False 1 t_entries t_index_entries"
    unfolding index_holds_def
    by (intro exI[of _ "[[0x87, 0x81], [0x85, 0x82]]"]) (simp add: t_entries_def t_index_entries_def t_rows t_rows(5,6)[unfolded One_nat_def])
  have "index_tree t_catalog t_schema t_entries t_index
      (\<lparr>bt_root_page_id = 2, bt_key_size = 2, bt_value_size = 1\<rparr>, t_index_tree)"
    unfolding index_tree_def using t_lookups bts(2) holds
    by (intro exI[of _ "t_descriptors ! 1"]) (simp add: t_index_def t_descriptors_def)
  moreover have "\<forall>e \<in> set t_entries. table_entry t_schema e"
    by (simp add: t_entries_def table_entry_def t_rows)
  ultimately show ?thesis
    unfolding table_trees_def using t_schema_wf t_lookups bts(1) trees
    by (auto simp: t_index_def t_info_def t_trees_def secondary_def)
qed

lemma t_stored: "stored_table t_catalog (pages_of t_pages) 5 t_schema t_entries"
  by (rule table_trees_stored[OF t_table_trees])

text \<open>The pager of this database in a transaction with the given status.\<close>

definition t_pager :: "transaction_status \<Rightarrow> mem_files pager" where
  "t_pager status = (pages_pager t_pages)\<lparr>pr_tx := tx_clear\<lparr>tx_status := status, tx_id := 1\<rparr>\<rparr>"

lemma t_pager_ok:
  "pages_ok mf_files [] (pages_db t_pages) [] (t_pager status, pages_files t_pages)"
  "page_map (pages_db t_pages) [] (t_pager status, pages_files t_pages) = pages_of t_pages"
  using pages_state_ok[OF t_pages_lengths]
  by (simp_all add: t_pager_def pages_state_def pages_ok_def page_map_def fun_eq_iff pager_files_def frames_of_def)

end
