(* ===== verification/QueryProperties.thy ===== *)
theory QueryProperties
  imports SampleDatabase
begin

text \<open>
  Properties of the statements on stored tables: what \<open>SELECT\<close> returns, by every access path, and what
  \<open>INSERT\<close> does to a table and its indexes.
\<close>

text \<open>
  C3. \<open>SELECT\<close> returns on every stored table, whatever the files, the pool and injected faults do, and
  changes neither the catalog nor a page. If it succeeds, its rows are exactly the rows of the table
  that satisfy the predicate, projected, each as often as it is in the table; they are in the order of
  the primary key unless a secondary index was scanned. So a full scan, a range of primary keys and a
  range of a secondary index, unique or not, are the same query, for every comparison operator.
\<close>

theorem select_returns_matching_rows:
  assumes "win32_files os content" "pages_ok content txns db [] s"
    and "stored_table c (page_map db txns s) (bse_table_id st) sch es"
    and "\<forall>p. bse_predicate st = Some p \<longrightarrow> bound_to c (bse_table_id st) sch p"
  shows "\<exists>s' r. execute_select_statement os st (c, s) = Some ((c, s'), r) \<and> pages_ok content txns db [] s' \<and>
    page_map db txns s' = page_map db txns s \<and> (\<forall>outcome. r = Inr outcome \<longrightarrow> select_outcome c st sch es outcome)"
  by (rule readsD[OF win32_files.reads_select[OF assms(1,3,4)] assms(2) refl])

text \<open>\<open>SELECT id FROM t WHERE v >= n\<close> on the sample table.\<close>

definition t_predicate :: "i64 \<Rightarrow> bound_predicate" where
  "t_predicate n = \<lparr>bp_column = \<lparr>bc_column_id = 31, bc_ordinal = 1\<rparr>, bp_comparison_operator = OpGreaterEqual,
     bp_literal = Some (LInteger n)\<rparr>"

definition t_select :: "i64 \<Rightarrow> bound_select_statement" where
  "t_select n = \<lparr>bse_table_id = 5, bse_projection = [\<lparr>bc_column_id = 30, bc_ordinal = 0\<rparr>],
     bse_predicate = Some (t_predicate n)\<rparr>"

theorem select_returns_matching_rows_witness:
  "\<exists>s' r. execute_select_statement (mem_os (\<lambda>n. None)) (t_select 6) (t_catalog, pages_state t_pages) =
      Some ((t_catalog, s'), r) \<and>
    (\<forall>outcome. r = Inr outcome \<longrightarrow>
      eo_row_set outcome = Some \<lparr>rs_column_names = [''id''], rs_rows = [[int8_value 1]]\<rparr>)"
proof -
  have bound: "bound_to t_catalog 5 t_schema (t_predicate 6)"
    using t_lookups(3) t_schema_eq(4) by (simp add: bound_to_def t_descriptors_def t_predicate_def)
  have state: "resolve_predicate_state t_schema (Some (t_predicate 6)) = Inr (Comparison (t_predicate 6) (int8_value 6))"
    by code_simp
  have rows: "query_rows t_schema [\<lparr>bc_column_id = 30, bc_ordinal = 0\<rparr>] (Comparison (t_predicate 6) (int8_value 6)) t_entries =
      [[int8_value 1]]"
    by code_simp
  have name: "col_name (sch_columns t_schema ! 0) = ''id''"
    using t_schema_eq(4,6) by (cases "sch_columns t_schema") auto
  note stored = pages_state_ok[OF t_pages_lengths]
  from select_returns_matching_rows[OF mem_os_files stored(1), of t_catalog "t_select 6" t_schema t_entries "\<lambda>n. None"]
  obtain s' r where "execute_select_statement (mem_os (\<lambda>n. None)) (t_select 6) (t_catalog, pages_state t_pages) =
        Some ((t_catalog, s'), r)"
      "\<forall>outcome. r = Inr outcome \<longrightarrow> select_outcome t_catalog (t_select 6) t_schema t_entries outcome"
    using t_stored bound by (auto simp: stored(2) t_select_def)
  moreover have "eo_row_set outcome = Some \<lparr>rs_column_names = [''id''], rs_rows = [[int8_value 1]]\<rparr>"
    if "select_outcome t_catalog (t_select 6) t_schema t_entries outcome" for outcome
    using that state rows name by (auto simp: select_outcome_def rows_outcome_def t_select_def)
  ultimately show ?thesis
    by blast
qed

text \<open>
  C4. \<open>INSERT\<close> in a transaction returns on every stored table and changes neither the catalog nor the
  pages of other tables. If it succeeds, the values converted to the columns are a valid row whose
  primary key the table did not have, the table has its old entries and the row, in key order, and
  every secondary index, unique or not, has its old entries and one entry for the row: table and
  indexes stay consistent, through any number of page splits. A duplicate primary key, a duplicate key
  of a unique index or an invalid value is never a success.
\<close>

theorem insert_keeps_indexes_consistent:
  assumes "win32_files os content" "pages_ok content txns db [] (pr, w)" "tx_in_transaction (pr_tx pr)"
    and "table_trees c (page_map db txns (pr, w)) (bin_table_id st) sch es ts"
  shows "\<exists>pr' w' r. execute_insert_statement os st (c, pr, w) = Some ((c, pr', w'), r) \<and> pages_ok content txns db [] (pr', w') \<and>
    (\<forall>outcome. r = Inr outcome \<longrightarrow>
      outcome = count_outcome 1 \<and>
      (\<exists>row rb key ts'. convert_values (sch_columns sch) (bin_values st) = Inr row \<and>
        row_encode sch row = Inr rb \<and> primary_key_bytes sch row = Inr key \<and> key \<notin> fst ` set es \<and>
        table_trees c (page_map db txns (pr', w')) (bin_table_id st) sch (insert_sorted key rb es) ts' \<and>
        (\<forall>p. page_map db txns (pr, w) p \<noteq> None \<longrightarrow> p \<notin> tree_ids ts \<longrightarrow>
          page_map db txns (pr', w') p = page_map db txns (pr, w) p)))"
proof -
  from win32_files.insert_in_transaction[OF assms(1,2,4)] assms(3) obtain pr' w' r where
    "execute_insert_statement os st (c, pr, w) = Some ((c, pr', w'), r)" "pages_ok content txns db [] (pr', w')"
    "\<forall>outcome. r = Inr outcome \<longrightarrow>
      insert_outcome c (page_map db txns (pr, w)) st sch es ts outcome (page_map db txns (pr', w'))"
    by auto
  then show ?thesis
    unfolding insert_outcome_def row_inserted_def by fastforce
qed

definition t_insert :: "i64 \<Rightarrow> bound_insert_statement" where
  "t_insert i = \<lparr>bin_table_id = 5, bin_values = [LInteger i, LInteger 9]\<rparr>"

theorem insert_keeps_indexes_consistent_witness:
  "\<exists>pr' w' r. execute_insert_statement (mem_os (\<lambda>n. None)) (t_insert 1) (t_catalog, t_pager Active, pages_files t_pages) =
      Some ((t_catalog, pr', w'), r) \<and> isl r"
proof -
  have "tx_in_transaction (pr_tx (t_pager Active))"
    by (simp add: tx_in_transaction_def t_pager_def)
  from insert_keeps_indexes_consistent[OF mem_os_files t_pager_ok(1) this, of t_catalog "t_insert 1" t_schema t_entries t_trees "\<lambda>n. None"]
  obtain pr' w' r where run: "execute_insert_statement (mem_os (\<lambda>n. None)) (t_insert 1) (t_catalog, t_pager Active, pages_files t_pages) =
      Some ((t_catalog, pr', w'), r)"
    "\<And>outcome. r = Inr outcome \<Longrightarrow> \<exists>row rb key. convert_values (sch_columns t_schema) [LInteger 1, LInteger 9] = Inr row \<and>
      row_encode t_schema row = Inr rb \<and> primary_key_bytes t_schema row = Inr key \<and> key \<notin> fst ` set t_entries"
    using t_table_trees by (fastforce simp: t_pager_ok(2) t_insert_def)
  have "convert_values (sch_columns t_schema) [LInteger 1, LInteger 9] = Inr [int8_value 1, int8_value 9]"
    "primary_key_bytes t_schema [int8_value 1, int8_value 9] = Inr [0x81]"
    by code_simp+
  with run(2) have "isl r"
    by (cases r) (auto simp: t_entries_def)
  with run(1) show ?thesis
    by blast
qed

text \<open>
  C5. What has been inserted is selected: after an \<open>INSERT\<close> in a transaction that succeeds, a \<open>SELECT\<close>
  returns, and if it succeeds its rows are those the same query had before and, if it matches, the new
  row.
\<close>

theorem select_after_insert:
  assumes "win32_files os content" "pages_ok content txns db [] (pr, w)" "tx_in_transaction (pr_tx pr)"
    and "table_trees c (page_map db txns (pr, w)) (bin_table_id ist) sch es ts"
    and "bse_table_id st = bin_table_id ist" "\<forall>p. bse_predicate st = Some p \<longrightarrow> bound_to c (bin_table_id ist) sch p"
  shows "\<exists>s1 r. execute_insert_statement os ist (c, pr, w) = Some ((c, s1), r) \<and> (\<forall>n. r = Inr n \<longrightarrow>
    (\<exists>s2 q. execute_select_statement os st (c, s1) = Some ((c, s2), q) \<and> (\<forall>outcome. q = Inr outcome \<longrightarrow>
      (\<exists>state row rows. resolve_predicate_state sch (bse_predicate st) = Inr state \<and>
        convert_values (sch_columns sch) (bin_values ist) = Inr row \<and> eo_row_set outcome = Some rows \<and>
        mset (rs_rows rows) = mset (query_rows sch (bse_projection st) state es) +
          (if row_matches_predicate row state = Inr True
           then {#map (\<lambda>column. row ! bc_ordinal column) (bse_projection st)#} else {#})))))"
proof -
  have tx: "tx_in_transaction (tx_of (pr, w))"
    using assms(3) by simp
  from win32_files.insert_in_transaction[OF assms(1,2,4) tx] obtain s1 r where
    ins: "execute_insert_statement os ist (c, pr, w) = Some ((c, s1), r)" "pages_ok content txns db [] s1"
      "\<forall>n. r = Inr n \<longrightarrow> insert_outcome c (page_map db txns (pr, w)) ist sch es ts n (page_map db txns s1)"
    by blast
  let ?selected = "\<lambda>outcome. \<exists>state row rows. resolve_predicate_state sch (bse_predicate st) = Inr state \<and>
    convert_values (sch_columns sch) (bin_values ist) = Inr row \<and> eo_row_set outcome = Some rows \<and>
    mset (rs_rows rows) = mset (query_rows sch (bse_projection st) state es) +
      (if row_matches_predicate row state = Inr True
       then {#map (\<lambda>column. row ! bc_ordinal column) (bse_projection st)#} else {#})"
  have "\<exists>s2 q. execute_select_statement os st (c, s1) = Some ((c, s2), q) \<and> (\<forall>outcome. q = Inr outcome \<longrightarrow> ?selected outcome)"
    if n: "r = Inr n" for n
  proof -
    obtain es' where "stored_table c (page_map db txns s1) (bse_table_id st) sch es'"
      using ins(3) n table_trees_stored assms(5) by (fastforce simp: insert_outcome_def row_inserted_def)
    from readsD[OF win32_files.reads_select[OF assms(1) this] ins(2) refl] assms(5,6) obtain s2 q where
      run: "execute_select_statement os st (c, s1) = Some ((c, s2), q)"
      by auto
    have "?selected outcome" if "q = Inr outcome" for outcome
    proof -
      from win32_files.select_inserted[OF assms(1,2,4) tx ins(1)[unfolded n] assms(5,6) run[unfolded that]]
      obtain state row rows where "resolve_predicate_state sch (bse_predicate st) = Inr state"
        "convert_values (sch_columns sch) (bin_values ist) = Inr row" "eo_row_set outcome = Some rows"
        "mset (rs_rows rows) = mset (query_rows sch (bse_projection st) state es) +
          (if row_matches_predicate row state = Inr True
           then {#map (\<lambda>column. row ! bc_ordinal column) (bse_projection st)#} else {#})"
        by (elim exE conjE)
      then show ?thesis
        by (intro exI[of _ state] exI[of _ row] exI[of _ rows]) simp
    qed
    with run show ?thesis
      by (intro exI[of _ s2] exI[of _ q]) simp
  qed
  with ins(1) show ?thesis
    by (intro exI[of _ s1] exI[of _ r]) simp
qed

theorem select_after_insert_witness:
  "\<exists>s1 r. execute_insert_statement (mem_os (\<lambda>n. None)) (t_insert 3) (t_catalog, t_pager Active, pages_files t_pages) =
      Some ((t_catalog, s1), r) \<and> (\<forall>n. r = Inr n \<longrightarrow>
    (\<exists>s2 q. execute_select_statement (mem_os (\<lambda>n. None)) (t_select 6) (t_catalog, s1) = Some ((t_catalog, s2), q) \<and>
      (\<forall>outcome. q = Inr outcome \<longrightarrow> (\<exists>rows. eo_row_set outcome = Some rows \<and>
        mset (rs_rows rows) = {#[int8_value 1], [int8_value 3]#}))))"
proof -
  have tx: "tx_in_transaction (pr_tx (t_pager Active))"
    by (simp add: tx_in_transaction_def t_pager_def)
  have bound: "bound_to t_catalog 5 t_schema (t_predicate 6)"
    using t_lookups(3) t_schema_eq(4) by (simp add: bound_to_def t_descriptors_def t_predicate_def)
  have facts: "resolve_predicate_state t_schema (Some (t_predicate 6)) = Inr (Comparison (t_predicate 6) (int8_value 6))"
    "convert_values (sch_columns t_schema) [LInteger 3, LInteger 9] = Inr [int8_value 3, int8_value 9]"
    "query_rows t_schema [\<lparr>bc_column_id = 30, bc_ordinal = 0\<rparr>] (Comparison (t_predicate 6) (int8_value 6)) t_entries = [[int8_value 1]]"
    "row_matches_predicate [int8_value 3, int8_value 9] (Comparison (t_predicate 6) (int8_value 6)) = Inr True"
    by code_simp+
  show ?thesis
    using select_after_insert[OF mem_os_files t_pager_ok(1) tx, of t_catalog "t_insert 3" t_schema t_entries t_trees "t_select 6" "\<lambda>n. None"]
      t_table_trees bound facts
    by (simp add: t_pager_ok(2) t_insert_def t_select_def del: split_paired_Ex)
qed

end
