(* ===== verification/Cli.thy ===== *)
theory Cli
  imports Database
begin

text \<open>
  The console of \<^verbatim>\<open>cli/Repl.cpp\<close>, \<^verbatim>\<open>ErrorFormatter.cpp\<close> and \<^verbatim>\<open>Main.cpp\<close>. The three streams are the
  characters still to be read, the characters written and the errors written: of the message of a
  status, which the model leaves out, the error stream has the code behind the text in front of it.
\<close>

section \<open>The streams\<close>

record console =
  con_input :: string
  con_output :: string
  con_errors :: "(string \<times> status_code option) list"

definition put :: "string \<Rightarrow> console \<Rightarrow> console" where
  "put text con = con\<lparr>con_output := con_output con @ text\<rparr>"

definition put_error :: "string \<times> status_code option \<Rightarrow> console \<Rightarrow> console" where
  "put_error e con = con\<lparr>con_errors := con_errors con @ [e]\<rparr>"

text \<open>\<open>std::getline\<close>: it fails only if nothing is left; the last line need not end.\<close>

definition get_line :: "console \<Rightarrow> (string \<times> console) option" where
  "get_line con = (case con_input con of
     [] \<Rightarrow> None
   | ch # rest \<Rightarrow> Some (takeWhile (\<lambda>c. c \<noteq> CHR 0x0A) (ch # rest),
       con\<lparr>con_input := drop 1 (dropWhile (\<lambda>c. c \<noteq> CHR 0x0A) (ch # rest))\<rparr>))"

definition put_line :: "string \<Rightarrow> console \<Rightarrow> console" where
  "put_line text = put (text @ [CHR 0x0A])"

section \<open>Values\<close>

definition PRIMARY_PROMPT :: string where "PRIMARY_PROMPT = ''dandb> ''"
definition CONTINUATION_PROMPT :: string where "CONTINUATION_PROMPT = ''...> ''"
definition HELP_COMMAND :: string where "HELP_COMMAND = ''.help''"
definition EXIT_COMMAND :: string where "EXIT_COMMAND = ''.exit''"
definition PAGER_PROMPT :: string where
  "PAGER_PROMPT = ''--More-- Press Enter for more rows; enter text to stop: ''"

definition HELP_TEXT :: string where
  "HELP_TEXT =
     ''Supported SQL: CREATE TABLE, DROP TABLE, CREATE INDEX, DROP INDEX, INSERT, SELECT, UPDATE, '' @
     ''DELETE, BEGIN, COMMIT, ROLLBACK, CHECKPOINT.'' @ [CHR 0x0A] @
     ''End statements with '' @ [CHR 0x27] @ '';'' @ [CHR 0x27] @ ''. Commands: .help, .exit.'' @ [CHR 0x0A] @
     ''A blank continuation line submits the pending SQL.'' @ [CHR 0x0A] @
     ''Results pause every 100 rows: Enter continues; any text skips the current '' @
     ''result.'' @ [CHR 0x0A]"

definition is_blank :: "string \<Rightarrow> bool" where
  "is_blank text \<longleftrightarrow> (\<forall>ch \<in> set text. ch \<in> {CHR '' '', CHR 0x09, CHR 0x0A, CHR 0x0B, CHR 0x0C, CHR 0x0D})"

definition escape_character :: "char \<Rightarrow> string" where
  "escape_character ch =
     (if ch = CHR 0x5C then [CHR 0x5C, CHR 0x5C]
      else if ch = CHR 0x22 then [CHR 0x5C, CHR 0x22]
      else if ch = CHR 0x0A then [CHR 0x5C, CHR ''n'']
      else if ch = CHR 0x0D then [CHR 0x5C, CHR ''r'']
      else if ch = CHR 0x09 then [CHR 0x5C, CHR ''t'']
      else [ch])"

definition escape_string :: "string \<Rightarrow> string" where
  "escape_string text = concat (map escape_character text)"

text \<open>\<open>std::to_string\<close>.\<close>

function decimal_digits :: "nat \<Rightarrow> string" where
  "decimal_digits n = (if n < 10 then [] else decimal_digits (n div 10)) @ [char_of (48 + n mod 10)]"
  by pat_completeness auto
termination by (relation "measure id") auto

declare decimal_digits.simps [simp del]

definition decimal_text :: "int \<Rightarrow> string" where
  "decimal_text i = (if i < 0 then CHR ''-'' # decimal_digits (nat (- i)) else decimal_digits (nat i))"

text \<open>
  A \<open>double\<close> on a stream with 17 digits of precision is printed as by the conversion \<open>%.17g\<close>: the
  decimal number \<open>d * 10 ^ (x - 16)\<close> of 17 digits nearest to it, without trailing zeros, and with an
  exponent if \<open>x < -4\<close> or \<open>x \<ge> 17\<close>. The number is \<open>n / d\<close>; \<open>decimal_exponent\<close> is the \<open>x\<close> with
  \<open>10 ^ x \<le> n / d < 10 ^ (x + 1)\<close>. The sign and the payload of a NaN are not printed.
\<close>

definition scaled :: "int \<Rightarrow> int \<Rightarrow> int \<Rightarrow> int \<times> int" where
  "scaled n d x = (if 0 \<le> x then (n * 10 ^ nat x, d) else (n, d * 10 ^ nat (- x)))"

definition decimal_exponent :: "int \<Rightarrow> int \<Rightarrow> int" where
  "decimal_exponent n d = (case find (\<lambda>x. case scaled n d (- x) of (n', d') \<Rightarrow> d' \<le> n') (rev [-324..308]) of
     Some x \<Rightarrow> x | None \<Rightarrow> -324)"

definition strip_zeros :: "string \<Rightarrow> string" where
  "strip_zeros digits = rev (dropWhile (\<lambda>ch. ch = CHR ''0'') (rev digits))"

definition with_fraction :: "string \<Rightarrow> string \<Rightarrow> string" where
  "with_fraction whole fraction =
     (let fraction = strip_zeros fraction in if fraction = [] then whole else whole @ CHR ''.'' # fraction)"

definition exponent_text :: "int \<Rightarrow> string" where
  "exponent_text x = CHR ''e'' # (if x < 0 then CHR ''-'' else CHR ''+'') #
     (let digits = decimal_digits (nat \<bar>x\<bar>) in if length digits < 2 then CHR ''0'' # digits else digits)"

definition positive_text :: "int \<Rightarrow> int \<Rightarrow> string" where
  "positive_text n d =
     (let x = decimal_exponent n d;
          rounded = (case scaled n d (16 - x) of (n', d') \<Rightarrow> round_half_even n' d');
          (x, rounded) = (if 10 ^ 17 \<le> rounded then (x + 1, 10 ^ 16) else (x, rounded));
          digits = decimal_digits (nat rounded) in
      if x < -4 \<or> 17 \<le> x then with_fraction (take 1 digits) (drop 1 digits) @ exponent_text x
      else if x < 0 then with_fraction ''0'' (replicate (nat (- x) - 1) CHR ''0'' @ digits)
      else with_fraction (take (nat x + 1) digits) (drop (nat x + 1) digits))"

definition double_text :: "float64 \<Rightarrow> string" where
  "double_text v =
     (let bits = uint v mod 2 ^ 63; exponent = bits div 2 ^ 52; fraction = bits mod 2 ^ 52;
          magnitude = (if exponent = 2047 then if fraction = 0 then ''inf'' else ''nan''
            else if bits = 0 then ''0''
            else if exponent = 0 then positive_text fraction (2 ^ 1074)
            else case (2 ^ 52 + fraction, exponent - 1075) of (m, e) \<Rightarrow>
              if 0 \<le> e then positive_text (m * 2 ^ nat e) 1 else positive_text m (2 ^ nat (- e))) in
      if bit v 63 \<and> magnitude \<noteq> ''nan'' then CHR ''-'' # magnitude else magnitude)"

definition format_value :: "db_value \<Rightarrow> string" where
  "format_value v =
     (if is_null v then ''NULL''
      else case lt_kind (val_type v) of
        Int8 \<Rightarrow> decimal_text (sint (as_integer v))
      | Int16 \<Rightarrow> decimal_text (sint (as_integer v))
      | Int32 \<Rightarrow> decimal_text (sint (as_integer v))
      | Int64 \<Rightarrow> decimal_text (sint (as_integer v))
      | Float64 \<Rightarrow> double_text (as_float64 v)
      | String \<Rightarrow> [CHR 0x22] @ escape_string (as_string v) @ [CHR 0x22]
      | Boolean \<Rightarrow> if as_boolean v then ''TRUE'' else ''FALSE'')"

section \<open>Results\<close>

fun separated :: "string list \<Rightarrow> string" where
  "separated [] = []"
| "separated [x] = x"
| "separated (x # y # ys) = x @ '', '' @ separated (y # ys)"

definition print_row :: "row \<Rightarrow> console \<Rightarrow> console" where
  "print_row r = put_line (separated (map format_value r))"

definition REPL_PAGE_SIZE :: nat where
  "REPL_PAGE_SIZE = 100"

text \<open>The loop over the pages of rows: the rows shown and whether the rest is skipped, or the end of the input.\<close>

function render_rows :: "row list \<Rightarrow> nat \<Rightarrow> console \<Rightarrow> (nat \<times> bool) option \<times> console" where
  "render_rows rows next_row con =
     (if next_row < length rows then
        let page_end = min (next_row + REPL_PAGE_SIZE) (length rows);
            con = fold print_row (take (page_end - next_row) (drop next_row rows)) con in
        if page_end = length rows then (Some (page_end, False), con)
        else
          (case get_line (put PAGER_PROMPT con) of
             None \<Rightarrow> (None, put PAGER_PROMPT con)
           | Some (pager_input, con) \<Rightarrow>
               if pager_input \<noteq> [] then (Some (page_end, True), con) else render_rows rows page_end con)
      else (Some (next_row, False), con))"
  by pat_completeness auto
termination
  by (relation "measure (\<lambda>(rows, next_row, con). length rows - next_row)") (auto simp: REPL_PAGE_SIZE_def)

declare render_rows.simps [simp del]

definition size_text :: "nat \<Rightarrow> string" where
  "size_text n = decimal_digits n"

definition render_row_set :: "row_set \<Rightarrow> console \<Rightarrow> bool \<times> console" where
  "render_row_set rows con =
     (let con = put_line (separated (rs_column_names rows)) con in
      case render_rows (rs_rows rows) 0 con of
        (None, con) \<Rightarrow> (False, con)
      | (Some (shown_rows, skipped_rows), con) \<Rightarrow>
          if skipped_rows then
            (True, put_line (''('' @ size_text shown_rows @ '' of '' @ size_text (length (rs_rows rows)) @
               '' rows shown)'') con)
          else
            (True, put_line (''('' @ size_text (length (rs_rows rows)) @ '' row'' @
               (if length (rs_rows rows) \<noteq> 1 then ''s'' else '''') @ '')'') con))"

definition format_status :: "status_code \<Rightarrow> string \<times> status_code option" where
  "format_status e =
     (if e = IoError then (''Database I/O error: '', Some e)
      else if e = Corruption then (''Database corruption: '', Some e)
      else ('''', Some e))"

definition render_result :: "execution_outcome \<Rightarrow> console \<Rightarrow> bool \<times> console" where
  "render_result outcome con =
     (let con = (case eo_success_message outcome of None \<Rightarrow> con | Some m \<Rightarrow> put_line m con);
          con = (case eo_rows_affected outcome of None \<Rightarrow> con | Some n \<Rightarrow>
            put_line (size_text n @ '' row'' @ (if n \<noteq> 1 then ''s'' else '''') @ '' affected'') con) in
      case eo_row_set outcome of None \<Rightarrow> (True, con) | Some rows \<Rightarrow> render_row_set rows con)"

fun render_results :: "execution_result list \<Rightarrow> console \<Rightarrow> bool \<times> console" where
  "render_results [] con = (True, con)"
| "render_results (Inl e # results) con = render_results results (put_error (format_status e) con)"
| "render_results (Inr outcome # results) con =
     (case render_result outcome con of
        (False, con) \<Rightarrow> (False, con)
      | (True, con) \<Rightarrow> render_results results con)"

section \<open>The loop of the prompt\<close>

lemma get_line_shorter: "get_line con = Some (l, con') \<Longrightarrow> length (con_input con') < length (con_input con)"
proof -
  assume a: "get_line con = Some (l, con')"
  then obtain ch rest where r: "con_input con = ch # rest"
    by (auto simp: get_line_def split: list.splits)
  have "length (dropWhile P xs) \<le> length xs" for P and xs :: string
    by (rule length_dropWhile_le)
  from this[of "\<lambda>c. c \<noteq> CHR 0x0A" rest] a r show ?thesis
    by (auto simp: get_line_def split: if_splits)
qed

lemma put_input [simp]: "con_input (put t con) = con_input con" "con_input (put_line t con) = con_input con"
  "con_input (put_error e con) = con_input con" "con_input (print_row r con) = con_input con"
  by (simp_all add: put_def put_line_def put_error_def print_row_def)

lemma fold_print_input [simp]: "con_input (fold print_row rs con) = con_input con"
  by (induction rs arbitrary: con) simp_all

lemma render_rows_input: "render_rows rows i con = (r, con') \<Longrightarrow> length (con_input con') \<le> length (con_input con)"
proof (induction rows i con arbitrary: r rule: render_rows.induct)
  case (1 rows i con)
  show ?case
  proof (cases "i < length rows \<and> min (i + REPL_PAGE_SIZE) (length rows) \<noteq> length rows")
    case False
    then show ?thesis
      using 1(2) by (auto simp: render_rows.simps[of rows i] Let_def split: if_splits)
  next
    case True
    let ?stop = "min (i + REPL_PAGE_SIZE) (length rows)"
    let ?con = "put PAGER_PROMPT (fold print_row (take (?stop - i) (drop i rows)) con)"
    show ?thesis
    proof (cases "get_line ?con")
      case None
      then show ?thesis
        using 1(2) True by (auto simp: render_rows.simps[of rows i] Let_def)
    next
      case (Some x)
      obtain l con1 where x: "x = (l, con1)" by (cases x)
      with Some get_line_shorter have s: "length (con_input con1) < length (con_input con)"
        by fastforce
      show ?thesis
      proof (cases "l = []")
        case False
        then show ?thesis
          using 1(2) True Some x s by (auto simp: render_rows.simps[of rows i] Let_def)
      next
        case l: True
        have "render_rows rows ?stop con1 = (r, con')"
          using 1(2) True Some x l by (auto simp: render_rows.simps[of rows i] Let_def)
        then have "length (con_input con') \<le> length (con_input con1)"
          using 1(1)[OF _ refl refl _ Some[unfolded x] refl, of r] True l by simp
        with s show ?thesis
          by simp
      qed
    qed
  qed
qed

lemma render_row_set_input: "render_row_set rows con = (b, con') \<Longrightarrow> length (con_input con') \<le> length (con_input con)"
  using render_rows_input[of "rs_rows rows" 0 "put_line (separated (rs_column_names rows)) con"]
  by (fastforce simp: render_row_set_def Let_def split: prod.splits option.splits if_splits)

lemma render_result_input: "render_result outcome con = (b, con') \<Longrightarrow> length (con_input con') \<le> length (con_input con)"
  by (auto simp: render_result_def Let_def split: option.splits dest!: render_row_set_input)

lemma render_results_input: "render_results results con = (b, con') \<Longrightarrow> length (con_input con') \<le> length (con_input con)"
proof (induction results con rule: render_results.induct)
  case (3 outcome results con)
  obtain b1 con1 where r: "render_result outcome con = (b1, con1)" by (cases "render_result outcome con")
  from render_result_input[OF this] 3 r show ?case
    by (cases b1) (auto dest: le_trans)
qed auto

definition needs_more_input :: "execution_result list \<Rightarrow> bool" where
  "needs_more_input results \<longleftrightarrow> results = [Inl IncompleteInput]"

text \<open>\<open>Repl::run\<close> from the top of its loop. Every round reads a line, so the loop ends.\<close>

function repl_run :: "'w win32 \<Rightarrow> string \<Rightarrow> 'w db_state \<Rightarrow> console \<Rightarrow> ('w db_state \<times> console) option" where
  "repl_run os pending_input s con =
     (case get_line (put (if pending_input = [] then PRIMARY_PROMPT else CONTINUATION_PROMPT) con) of
        None \<Rightarrow> Some (s, put (if pending_input = [] then PRIMARY_PROMPT else CONTINUATION_PROMPT) con)
      | Some (line, con) \<Rightarrow>
          if pending_input = [] \<and> is_blank line then repl_run os [] s con
          else if pending_input = [] \<and> line = HELP_COMMAND then repl_run os [] s (put HELP_TEXT con)
          else if pending_input = [] \<and> line = EXIT_COMMAND then Some (s, con)
          else if is_blank line then
            (case execute os pending_input s of
               None \<Rightarrow> None
             | Some (s, results) \<Rightarrow>
                 (case render_results results con of
                    (False, con) \<Rightarrow> Some (s, con)
                  | (True, con) \<Rightarrow> repl_run os [] s con))
          else
            (case execute os (pending_input @ line @ [CHR 0x0A]) s of
               None \<Rightarrow> None
             | Some (s, results) \<Rightarrow>
                 if needs_more_input results then repl_run os (pending_input @ line @ [CHR 0x0A]) s con
                 else
                   (case render_results results con of
                      (False, con) \<Rightarrow> Some (s, con)
                    | (True, con) \<Rightarrow> repl_run os [] s con)))"
  by pat_completeness auto
termination
  by (relation "measure (\<lambda>(os, pending, s, con). length (con_input con))")
    (auto dest!: get_line_shorter dest: render_results_input[OF sym])

declare repl_run.simps [simp del]

section \<open>Main.cpp\<close>

definition USAGE_MESSAGE :: string where "USAGE_MESSAGE = ''Usage: dandb_cli <database-path>'' @ [CHR 0x0A]"
definition CONNECTION_PREFIX :: string where "CONNECTION_PREFIX = ''Connected to ''"
definition GOODBYE_MESSAGE :: string where "GOODBYE_MESSAGE = ''Goodbye.'' @ [CHR 0x0A]"

text \<open>
  \<open>main\<close>: the exit code. \<open>absolute\<close> is \<open>std::filesystem::absolute\<close>, whose error is \<open>None\<close>, and \<open>path_text\<close>
  the conversion of a path. The destructor of the database runs at the end.
\<close>

definition cli_main :: "'w win32 \<Rightarrow> (string \<Rightarrow> path option) \<Rightarrow> (path \<Rightarrow> string) \<Rightarrow> u64 \<Rightarrow> string list \<Rightarrow> 'w \<Rightarrow> console \<Rightarrow>
    ('w \<times> console \<times> nat) option" where
  "cli_main os absolute path_text database_id arguments w con =
     (if length arguments \<noteq> 2 then Some (w, put_error (USAGE_MESSAGE, None) con, 2)
      else case absolute (arguments ! 1) of
        None \<Rightarrow> Some (w, put_error (''Cannot resolve database path: '', None) con, 1)
      | Some database_path \<Rightarrow>
          (case database_open_or_create os database_path database_id w of
             None \<Rightarrow> None
           | Some (w, Inl e) \<Rightarrow> Some (w, put_error (format_status e) con, 1)
           | Some (w, Inr (cat, pr)) \<Rightarrow>
               (case repl_run os [] (cat, pr, w) (put_line (CONNECTION_PREFIX @ path_text database_path) con) of
                  None \<Rightarrow> None
                | Some (s, con) \<Rightarrow>
                    map_option (\<lambda>((cat, pr, w), close_status).
                      case close_status of
                        Inl e \<Rightarrow> (destroy_pager os pr w, put_error (format_status e) con, 1)
                      | Inr _ \<Rightarrow> (destroy_pager os pr w, put GOODBYE_MESSAGE con, 0))
                    (database_close os s))))"

end
