(* ===== verification/ExecuteProperties.thy ===== *)
theory ExecuteProperties
  imports SampleDatabase SqlPrefix
begin

text \<open>
  Properties of \<open>Database::execute\<close>: how a script ends, and what is possible in a transaction that
  has failed or whose outcome is unknown.
\<close>

lemma mark_failed_effect:
  "mark_failed_if_in_transaction (c, pr, w) = (c, pr\<lparr>pr_tx := (pr_tx pr)\<lparr>tx_status :=
     if pr_closed pr \<or> tx_status (pr_tx pr) \<in> {Inactive, Unresolved} then tx_status (pr_tx pr) else Failed\<rparr>\<rparr>, w)"
  by (auto simp: mark_failed_if_in_transaction_def pager_mark_transaction_failed_def bind_action_def require_def
      modify_tx_def modify_pager_def tx_in_transaction_def tx_is_unresolved_def return_action_def fail_action_def)

lemma mark_failed_stuck:
  assumes "tx_is_failed (pr_tx (fst (snd s))) \<or> tx_is_unresolved (pr_tx (fst (snd s)))"
  shows "mark_failed_if_in_transaction s = s"
  using assms by (cases s) (auto simp: mark_failed_effect tx_is_failed_def tx_is_unresolved_def)

lemma execute_statement_refused:
  assumes "tx_is_unresolved (pr_tx (fst (snd s))) \<or> tx_is_failed (pr_tx (fst (snd s))) \<and> \<not> is_rollback st"
  shows "execute_statement os st s = Some (s, Inl TransactionError)"
  using assms by (cases s)
    (auto simp: execute_statement_def bind_run_def pager_call_def on_pager_def returns_def get_pager_def
      require_that_def stop_with_def)

text \<open>The states after a failure: no transaction is open that could still be committed.\<close>

definition no_open_transaction :: "'w pager \<Rightarrow> bool" where
  "no_open_transaction pr \<longleftrightarrow> pr_closed pr \<or> tx_status (pr_tx pr) \<noteq> Active"

lemma mark_failed_closes: "mark_failed_if_in_transaction s = (c, pr, w) \<Longrightarrow> no_open_transaction pr"
  by (cases s; cases "tx_status (pr_tx (fst (snd s)))") (auto simp: mark_failed_effect no_open_transaction_def)

lemma execute_statements_shape:
  assumes "execute_statements os sts s = Some (s', rs)"
  shows "length rs \<le> length sts \<and> (\<forall>r \<in> set (butlast rs). \<not> isl r) \<and>
    (if rs \<noteq> [] \<and> isl (last rs) then no_open_transaction (fst (snd s')) else length rs = length sts)"
  using assms
proof (induction sts arbitrary: s rs)
  case (Cons st sts)
  from Cons.prems obtain s1 r where r: "execute_statement os st s = Some (s1, r)"
    by (cases "execute_statement os st s") auto
  show ?case
  proof (cases r)
    case (Inl e)
    with Cons.prems r have "s' = mark_failed_if_in_transaction s1" "rs = [Inl e]"
      by auto
    then show ?thesis
      using mark_failed_closes[of s1 "fst s'" "fst (snd s')" "snd (snd s')"] by simp
  next
    case (Inr outcome)
    with Cons.prems r obtain rs1 where rs: "rs = Inr outcome # rs1" "execute_statements os sts s1 = Some (s', rs1)"
      by auto
    from Cons.IH[OF rs(2)] show ?thesis
      by (auto simp: rs(1))
  qed
qed simp

lemma execute_shape:
  assumes "execute os sql s = Some (s', rs)"
  shows "(\<forall>r \<in> set (butlast rs). \<not> isl r) \<and>
    (rs \<noteq> [] \<and> last rs \<noteq> Inl IncompleteInput \<and> isl (last rs) \<longrightarrow> no_open_transaction (fst (snd s')))"
proof (cases "tx_is_unresolved (pr_tx (fst (snd s)))")
  case True
  with assms show ?thesis
    by (auto simp: execute_def no_open_transaction_def tx_is_unresolved_def)
next
  case False
  have failed: ?thesis if "syntax_failure e s = Some (s', rs)" for e
    using that mark_failed_closes[of s "fst s'" "fst (snd s')" "snd (snd s')"]
    by (auto simp: syntax_failure_def split: if_splits)
  show ?thesis
  proof (cases "tokenize sql")
    case (Inl e)
    with assms False show ?thesis
      by (intro failed[of e]) (simp add: execute_def)
  next
    case (Inr ts)
    obtain r where r: "parse ts = Some r"
      using parse_total[OF Inr] by blast
    show ?thesis
    proof (cases r)
      case (Inl e)
      with assms False Inr r show ?thesis
        by (intro failed[of e]) (simp add: execute_def)
    next
      case (Inr sts)
      with assms False \<open>tokenize sql = Inr ts\<close> r have "execute_statements os sts s = Some (s', rs)"
        by (simp add: execute_def)
      from execute_statements_shape[OF this] show ?thesis
        by (auto split: if_splits)
    qed
  qed
qed

lemma execute_stuck:
  assumes "tx_is_unresolved (pr_tx (fst (snd s))) \<or> tx_is_failed (pr_tx (fst (snd s))) \<and>
    (\<forall>ts st sts. tokenize sql = Inr ts \<longrightarrow> parse ts = Some (Inr (st # sts)) \<longrightarrow> \<not> is_rollback st)"
  shows "\<exists>rs. execute os sql s = Some (s, rs) \<and> length rs \<le> 1 \<and> (\<forall>r \<in> set rs. isl r)"
proof (cases "tx_is_unresolved (pr_tx (fst (snd s)))")
  case False
  have same: "mark_failed_if_in_transaction s = s"
    using assms by (intro mark_failed_stuck) blast
  show ?thesis
  proof (cases "tokenize sql")
    case (Inr ts)
    obtain r where r: "parse ts = Some r"
      using parse_total[OF Inr] by blast
    show ?thesis
    proof (cases r)
      case (Inr sts)
      have "execute_statement os st s = Some (s, Inl TransactionError)" if "sts = st # sts'" for st sts'
        using assms False \<open>tokenize sql = Inr ts\<close> r Inr that by (intro execute_statement_refused) auto
      with False \<open>tokenize sql = Inr ts\<close> r Inr same show ?thesis
        by (cases sts) (auto simp: execute_def)
    qed (use False Inr r same in \<open>auto simp: execute_def syntax_failure_def\<close>)
  qed (use False same in \<open>auto simp: execute_def syntax_failure_def\<close>)
qed (simp add: execute_def)

section \<open>Properties\<close>

text \<open>
  C11. A script stops at its first failing statement: every result but the last is a success. When a
  script, a statement of it or its syntax, fails, no transaction is open any more that could be
  committed: it is failed or its outcome is unknown. Only an incomplete input, for which the prompt
  reads another line, leaves a transaction as it is.
\<close>

theorem failure_ends_transaction:
  assumes "execute os sql (c, pr, w) = Some ((c', pr', w'), rs)"
  shows "(\<forall>r \<in> set (butlast rs). \<not> isl r) \<and>
    (rs = [] \<or> \<not> isl (last rs) \<or> last rs = Inl IncompleteInput \<or> pr_closed pr' \<or> tx_status (pr_tx pr') \<noteq> Active)"
  using execute_shape[OF assms] by (auto simp: no_open_transaction_def)

definition commit_tokens :: "token list" where
  "commit_tokens =
     [\<lparr>tk_kind = TkCommit, tk_lexeme = ''COMMIT'', tk_location = \<lparr>loc_line = 1, loc_column = 1\<rparr>\<rparr>,
      \<lparr>tk_kind = TkSemicolon, tk_lexeme = '';'', tk_location = \<lparr>loc_line = 1, loc_column = 7\<rparr>\<rparr>,
      \<lparr>tk_kind = TkEndOfInput, tk_lexeme = [], tk_location = \<lparr>loc_line = 1, loc_column = 8\<rparr>\<rparr>]"

lemma sample_scripts:
  "tokenize ''$'' = Inl ParseError"
  "tokenize ''COMMIT;'' = Inr commit_tokens"
  "parse commit_tokens = Some (Inr [CommitStatement \<lparr>loc_line = 1, loc_column = 1\<rparr>])"
  by code_simp+

theorem failure_ends_transaction_witness:
  "\<exists>pr'. execute (mem_os (\<lambda>n. None)) ''$'' (t_catalog, t_pager Active, pages_files t_pages) =
      Some ((t_catalog, pr', pages_files t_pages), [Inl ParseError]) \<and> tx_status (pr_tx pr') \<noteq> Active"
proof -
  obtain pr' where run: "execute (mem_os (\<lambda>n. None)) ''$'' (t_catalog, t_pager Active, pages_files t_pages) =
      Some ((t_catalog, pr', pages_files t_pages), [Inl ParseError])" "pr_closed pr' = pr_closed (t_pager Active)"
    using sample_scripts(1)
    by (auto simp: execute_def t_pager_def tx_is_unresolved_def syntax_failure_def mark_failed_effect)
  with failure_ends_transaction[OF run(1)] show ?thesis
    by (simp add: t_pager_def pages_pager_def)
qed

text \<open>
  C12. In a transaction that has failed, a script that does not begin with \<open>ROLLBACK\<close> does nothing: it
  returns at most one result, an error, and catalog, pager, log and database file stay as they are. When
  the outcome of a commit is unknown, the same holds for every script.
\<close>

theorem failed_transaction_only_rolls_back:
  assumes "tx_is_failed (pr_tx pr) \<or> tx_is_unresolved (pr_tx pr)"
    and "tx_is_unresolved (pr_tx pr) \<or> (\<nexists>ts st sts. tokenize sql = Inr ts \<and> parse ts = Some (Inr (st # sts)) \<and> is_rollback st)"
  shows "\<exists>rs. execute os sql (c, pr, w) = Some ((c, pr, w), rs) \<and> length rs \<le> 1 \<and> (\<forall>r \<in> set rs. isl r)"
  using execute_stuck[of "(c, pr, w)" sql os] assms by auto

theorem failed_transaction_only_rolls_back_witness:
  "\<exists>rs. execute (mem_os (\<lambda>n. None)) ''COMMIT;'' (t_catalog, t_pager Failed, pages_files t_pages) =
      Some ((t_catalog, t_pager Failed, pages_files t_pages), rs) \<and> (\<forall>r \<in> set rs. isl r)"
proof -
  have "tx_is_failed (pr_tx (t_pager Failed))"
    by (simp add: tx_is_failed_def t_pager_def)
  with failed_transaction_only_rolls_back[of "t_pager Failed" "''COMMIT;''" "mem_os (\<lambda>n. None)" t_catalog "pages_files t_pages"]
    sample_scripts(2,3) show ?thesis
    by auto
qed

end
