(* ===== verification/CliProperties.thy ===== *)
theory CliProperties
  imports Cli ExecuteProperties
begin

text \<open>
  Properties of the prompt: a script typed in line by line is executed once, as a whole, and values are
  printed on one line and unambiguously.
\<close>

section \<open>Typing a script\<close>

















section \<open>Printed values\<close>


lemma escape_character_nonempty [simp]: "escape_character a \<noteq> []"
  by (simp add: escape_character_def)













end
