(* ===== verification/Spec2Isabelle.thy ===== *)
theory Spec2Isabelle
  imports Checkpoint RowCodec BTreeProperties SqlPrefix CatalogProperties QueryProperties CliProperties
begin

text \<open>
  A verification library for DanDB, a relational database on fixed-size pages with a
  write-ahead log (C++20, \<open>src/src\<close> and \<open>src/include/dandb\<close>).

  \<^bold>\<open>The program.\<close> A database is one file of 4096-byte pages and a log file beside it. The
  \<open>Pager\<close> is the centre: it owns the file lock, the disk manager (the database file), the WAL
  manager (the log file), a buffer pool of page frames with an LRU replacer, the database header
  and the state of the one transaction. Reading a page takes it from the pool, else from the
  pages recovered from the log, else from the database file. A commit appends a frame per dirty
  page and a commit record to the log and syncs it; a checkpoint copies the logged pages to the
  database file and resets the log; opening a database scans the log, cuts a torn tail and loads
  the last committed version of every page. Rows and index keys are byte strings made by the
  record codecs.

  \<^bold>\<open>Theories and the code they model.\<close>
  \<^item> \<open>Prelude\<close>: \<open>core/Status.h\<close>, \<open>core/Result.h\<close>. A \<open>Result\<close> is \<open>'a result\<close>
    (\<open>Inl\<close> the status code, \<open>Inr\<close> the value; messages are left out), a stateful call is
    \<open>('s, 'a) action = 's \<Rightarrow> 's \<times> 'a result\<close>: the state is returned on every branch, so what an
    operation has changed before it fails is part of the model.
  \<^item> \<open>Bytes\<close>: \<open>core/Endian.cpp\<close>, \<open>core/Checksum.cpp\<close> (FNV-1a), \<open>core/Bytes.cpp\<close> over lists of
    8-bit words. Integers keep the width of the code; \<open>size_t\<close> offsets are naturals.
  \<^item> \<open>Files\<close>: \<open>platform/FileHandle.cpp\<close>, \<open>FileLock.cpp\<close>, \<open>windows_error.cpp\<close>,
    \<open>DatabasePath.cpp\<close>. The Windows calls are the fields of a record \<open>win32\<close> of functions on an
    unknown world; the locale \<open>win32_files\<close> states their documented behaviour (a write stores a
    prefix, a call on one file leaves the others) and is interpreted on an in-memory system. The
    fault injectors of the tests are functions and stay arbitrary.
  \<^item> \<open>Codecs\<close>, \<open>WalRecords\<close>, \<open>DatabaseHeader\<close>: \<open>storage/Page\<close>, the WAL header, page frame and commit
    record, the database header: bytes, checksums and validity tests.
  \<^item> \<open>WalScanner\<close>, \<open>WalLog\<close>: the scanner as the loop over the file, and its reference
    \<open>scan_content\<close> over the bytes of a whole log; \<open>log_bytes id txns\<close> is the log of committed
    transactions.
  \<^item> \<open>WalManager\<close>, \<open>DiskManager\<close>: every operation, on the log file and on the database file.
  \<^item> \<open>LRUReplacer\<close>, \<open>BufferPool\<close>: the replacer with its node list and position table, the frames
    with pin counts, the page table and the free list. \<open>pool_abs\<close> maps a pool to an abstract
    cache (a map of frames and the eviction order), and every call implements its specification
    on it; \<open>pool_step\<close> and \<open>pool_reachable\<close> give the reachable pools.
  \<^item> \<open>Pager\<close>, \<open>PagerTx\<close>, \<open>PagerRecovery\<close>, \<open>Checkpoint\<close>: \<open>storage/Pager.cpp\<close>, \<open>PageHandle.cpp\<close>,
    \<open>transaction/TransactionState.cpp\<close>. \<open>pager_files content txns db pr w\<close> relates a pager to its
    two files: the database file holds \<open>db\<close>, the log the transactions \<open>txns\<close>, and the recovered
    pages are the last versions in them.
  \<^item> \<open>RecordTypes\<close>, \<open>KeyCodec\<close>, \<open>RowCodec\<close>: \<open>record/\<close>: types, values, literals, columns,
    schemas, validation, the order-preserving keys, the row format and the row helpers.
  \<^item> \<open>BTreePage\<close>: \<open>btree/BTreePage.h/.cpp\<close>, \<open>BTreeLeafPage.h\<close>, \<open>BTreeInternalPage.h\<close> on the bytes
    of a page. \<open>BTreeNode\<close>, \<open>NodeView\<close>, \<open>InternalView\<close>: \<open>node_of ks vs bs\<close> reads a well-formed page
    as a leaf (entries and sibling links) or an internal node (first child and separators), and
    every page operation is an operation on these lists.
  \<^item> \<open>PageAccess\<close>, \<open>PageTriples\<close>: the scopes of page handles (\<open>with_page\<close>, \<open>with_mutable_page\<close>: the
    handle is released on every path out) and a Hoare calculus over the map from page ids to page
    contents; every rule also says that no pin is left behind.
  \<^item> \<open>BTree\<close>, \<open>BTreeErase\<close>: \<open>btree/BTree.cpp\<close> and \<open>BTreeCursor.cpp\<close>. The loops and recursions
    over pages on disk may not end on damaged pages, so they are partial functions
    (\<open>pager_run\<close>; \<open>None\<close> is not returning).
  \<^item> \<open>BTreeSpec\<close>: search trees of keys and values, the order invariant, the chain of leaves, and
    \<open>stores\<close>, which says that a map of nodes holds a tree.
  \<^item> \<open>BTreeSearch\<close>, \<open>BTreeInsert\<close>, \<open>BTreeGrow\<close>: the operations on a stored tree: lookups, updates
    and scans, insertion with splits of leaves, internal pages and the root. \<open>BTreeProperties\<close>: the
    locale \<open>ordered_index\<close> is the contract the callers of the tree rely on, and the tree satisfies it
    on every system of files (\<open>sublocale\<close>).
  \<^item> \<open>SqlLexer\<close>, \<open>SqlAst\<close>, \<open>SqlParser\<close>: \<open>sql/Lexer.cpp\<close>, \<open>Ast.h\<close>, \<open>Parser.cpp\<close>. A member function of
    the parser is a function from the parser (token vector, position) to \<open>None\<close>, an index out of
    range or no return, or to the new parser and a result. \<open>SqlTokens\<close> relates a text and its
    tokens, \<open>SqlPrefix\<close> the parses of a text and of its first lines (\<open>agrees\<close>, \<open>in_step\<close>).
  \<^item> \<open>CatalogTypes\<close>, \<open>CatalogState\<close>: \<open>catalog/SystemTables.cpp\<close>, the descriptors, \<open>IndexNames.cpp\<close>,
    the state of a \<open>Catalog\<close> (the committed one and the staged one of a transaction; the maps are
    association lists) and its lookups. \<open>Catalog\<close>: the operations of \<open>catalog/Catalog.cpp\<close>, runs
    over the catalog, the pager and the files (\<open>db_run\<close>). \<open>CatalogInitializer\<close>: the system tables of
    a new database and \<open>Pager::create\<close>, \<open>open_or_create\<close>. \<open>CatalogLoader\<close>: reading the catalog.
  \<^item> \<open>CatalogNames\<close>, \<open>CatalogInvariant\<close>, \<open>CatalogProperties\<close>: the catalog invariant (\<open>catalog_ok\<close>),
    a small logic for runs that keep the catalog (\<open>yields\<close>) or end an operation (\<open>ends\<close>), and the
    catalog as a state machine (\<open>catalog_reaches\<close>).
  \<^item> \<open>SqlBinder\<close>: \<open>sql/Binder.cpp\<close>. \<open>Predicates\<close>, \<open>Database\<close>: \<open>execution/Database.cpp\<close>: access
    paths and key ranges, cursors, every statement, scripts and the outcomes of an execution.

  \<^item> \<open>KeyRanges\<close>, \<open>Queries\<close>, \<open>Inserts\<close>: what a stored table is (\<open>stored_table\<close>: its entries decode to rows,
    every index has one entry per row; \<open>table_trees\<close>: the trees of table and indexes share no page), runs
    that only read (\<open>reads\<close>) and runs that change pages (\<open>works\<close>), the access paths of a query and the
    loop of \<open>INSERT\<close> over the indexes. \<open>SampleDatabase\<close>: a small database for the concrete instances.
  \<^item> \<open>Cli\<close>: \<open>cli/Repl.cpp\<close>, \<open>ErrorFormatter.cpp\<close>, \<open>Main.cpp\<close> over the characters of three streams.
  \<^item> \<open>QueryProperties\<close>, \<open>ExecuteProperties\<close>, \<open>CliProperties\<close>: the theorems on statements, on scripts and
    on the prompt.
  \<^bold>\<open>What the lemmas show.\<close> Codecs: both round trips and detection of damage. Log: a
  transaction is found if and only if its commit record is complete, whatever the prefix a crash
  leaves, and scanning is sound on arbitrary bytes. Files: for every outcome of every Windows call
  and injected fault, the bytes left in the files. Buffer pool: refinement of an LRU cache with
  pins, with its invariant. Pager: commit is atomic and durable across reopening, a checkpoint
  loses nothing, rollback is all or nothing. Records: order and injectivity of keys, canonicity
  of rows, conversion of literals.
  B+ tree: every page operation refines an operation on a sorted list; lookups, updates, scans and
  insertions return on every stored tree, implement the operations of an ordered map, change no
  page of another tree and leave no page pinned. Erase is modelled; no theorem about whole erases.
  SQL: the tokens are the text, each with the shape of its kind; the parser returns on the tokens of
  every text without reading out of range, reads integers exactly and never refuses the first lines
  of a script it accepts.
  Catalog: an invariant of all reachable catalogs; failed operations publish nothing.
  Statements: every access path of a query returns exactly the matching rows; \<open>INSERT\<close> keeps table and
  indexes consistent, and what it inserts is selected. A script stops at its first failure, and a failed
  transaction can only be rolled back.
  Prompt: a script typed in over several lines is executed once; printed values are unambiguous.

  \<^bold>\<open>Bounds.\<close> No fuel is used below the B+ tree: the loops over files are recursive functions
  whose termination is proved (a read or write that makes no progress is an error in the code,
  the scanner advances at each record). \<open>unordered_map\<close>s whose order shows only in the order of
  calls are association lists, and the theorems hold for every such order.

  \<^bold>\<open>Not modelled.\<close> Status messages; destructors are the
  calls they make (\<open>pin_release\<close>, \<open>destroy_file\<close>, \<open>destroy_lock\<close>), placed where the code runs
  them. \<open>std::from_chars\<close> for \<open>double\<close> covers the fixed notation only: the lexer makes no other token.
  \<open>UPDATE\<close>, \<open>DELETE\<close> and the building of an index are modelled statement by statement, without a theorem
  on the stored table after them; the theorems on \<open>INSERT\<close> are about a caller's transaction.
\<close>

section \<open>Properties of the storage engine\<close>



end
